(* ===== verification/Prelude.thy ===== *)
theory Prelude
  imports Main "HOL-Library.Monad_Syntax" "HOL-Library.Word"
begin

text \<open>
  The machine model that every component shares. A C object is the list of its bytes
  (\<open>cmem\<close>), a pointer into it an offset; an access outside the object, a dereference
  of a null or freed pointer and every other undefined behaviour is the value \<open>None\<close>
  of the option monad, so that a theorem that a function returns \<open>Some\<close> also says that
  it is memory safe. A pointer to an allocated array is a \<open>block\<close>.
  The lemma collections: \<open>cmem_simps\<close> evaluates accesses that are in bounds, and
  \<open>option_defs\<close> unfolds the monad for proofs that split on each step.
\<close>

named_theorems cmem_simps
named_theorems fs_defs
named_theorems sched_defs

subsection \<open>Bytes, strings and objects\<close>

abbreviation NUL :: char where "NUL \<equiv> CHR 0x00"
abbreviation NL :: char where "NL \<equiv> CHR 0x0A"

type_synonym cmem = "char list"

text \<open>Reading and writing \<open>n\<close> bytes at an offset of an object.\<close>

definition mem_read :: "'a list \<Rightarrow> nat \<Rightarrow> nat \<Rightarrow> 'a list option" where
  "mem_read m off n = (if off + n \<le> length m then Some (take n (drop off m)) else None)"

definition mem_write :: "'a list \<Rightarrow> nat \<Rightarrow> 'a list \<Rightarrow> 'a list option" where
  "mem_write m off bs =
     (if off + length bs \<le> length m
      then Some (take off m @ bs @ drop (off + length bs) m) else None)"

text \<open>The text of a NUL-terminated string; \<open>None\<close> when no NUL is inside the object.\<close>

fun c_string :: "cmem \<Rightarrow> string option" where
  "c_string [] = None"
| "c_string (c # cs) = (if c = NUL then Some [] else map_option ((#) c) (c_string cs))"

text \<open>The C library's \<open>strrchr\<close> and \<open>strchr\<close>, as indices into the text.\<close>

fun strrchr_idx :: "string \<Rightarrow> char \<Rightarrow> nat option" where
  "strrchr_idx [] c = None"
| "strrchr_idx (x # xs) c =
     (case strrchr_idx xs c of Some i \<Rightarrow> Some (Suc i)
      | None \<Rightarrow> if x = c then Some 0 else None)"

fun strchr_idx :: "string \<Rightarrow> char \<Rightarrow> nat option" where
  "strchr_idx [] c = None"
| "strchr_idx (x # xs) c = (if x = c then Some 0 else map_option Suc (strchr_idx xs c))"

text \<open>Pointers to allocated arrays.\<close>

datatype 'a block = Null | Freed | Mem "'a list"

fun deref :: "'a block \<Rightarrow> 'a list option" where
  "deref (Mem xs) = Some xs"
| "deref Null = None"
| "deref Freed = None"

definition arr_get :: "'a block \<Rightarrow> nat \<Rightarrow> 'a option" where
  "arr_get b i = (case b of Mem xs \<Rightarrow> if i < length xs then Some (xs ! i) else None | _ \<Rightarrow> None)"

definition arr_set :: "'a block \<Rightarrow> nat \<Rightarrow> 'a \<Rightarrow> 'a block option" where
  "arr_set b i x =
     (case b of Mem xs \<Rightarrow> if i < length xs then Some (Mem (xs[i := x])) else None | _ \<Rightarrow> None)"

text \<open>\<open>free\<close>: a null pointer is allowed, a pointer that was freed before is not.\<close>

fun free_block :: "'a block \<Rightarrow> 'a block option" where
  "free_block (Mem xs) = Some Freed"
| "free_block Null = Some Null"
| "free_block Freed = None"

subsection \<open>Conversions between integer types\<close>

text \<open>\<open>int\<close> (32 bits, two's complement) and \<open>size_t\<close> (64 bits, unsigned).\<close>

definition int32 :: "int \<Rightarrow> int" where
  "int32 x = (x + 2 ^ 31) mod 2 ^ 32 - 2 ^ 31"

definition size_t :: "int \<Rightarrow> nat" where
  "size_t x = nat (x mod 2 ^ 64)"

lemma int32_id [simp]: "- (2 ^ 31) \<le> x \<Longrightarrow> x < 2 ^ 31 \<Longrightarrow> int32 x = x"
  by (simp add: int32_def)

lemma size_t_id [simp]: "0 \<le> x \<Longrightarrow> x < 2 ^ 64 \<Longrightarrow> size_t x = nat x"
  by (simp add: size_t_def)

lemma size_t_of_nat [simp]: "n < 2 ^ 64 \<Longrightarrow> size_t (int n) = n"
  by simp

subsection \<open>Accesses in bounds\<close>

lemma mem_read_ok [cmem_simps]:
  "off + n \<le> length m \<Longrightarrow> mem_read m off n = Some (take n (drop off m))"
  by (simp add: mem_read_def)

lemma mem_write_ok [cmem_simps]:
  "off + length bs \<le> length m \<Longrightarrow>
     mem_write m off bs = Some (take off m @ bs @ drop (off + length bs) m)"
  by (simp add: mem_write_def)

lemma mem_read_None_iff: "mem_read m off n = None \<longleftrightarrow> length m < off + n"
  by (auto simp: mem_read_def)

lemma mem_write_None_iff: "mem_write m off bs = None \<longleftrightarrow> length m < off + length bs"
  by (auto simp: mem_write_def)

lemma mem_write_length: "mem_write m off bs = Some m' \<Longrightarrow> length m' = length m"
  by (auto simp: mem_write_def split: if_splits)

lemma mem_read_write_same:
  "mem_write m off bs = Some m' \<Longrightarrow> mem_read m' off (length bs) = Some bs"
  by (auto simp: mem_write_def mem_read_def split: if_splits)

lemma mem_write_nth_other:
  assumes "mem_write m off bs = Some m'" and "k < off \<or> off + length bs \<le> k"
  shows "m' ! k = m ! k"
  using assms by (auto simp: mem_write_def nth_append split: if_splits)

lemma arr_get_Mem [cmem_simps]: "i < length xs \<Longrightarrow> arr_get (Mem xs) i = Some (xs ! i)"
  by (simp add: arr_get_def)

lemma arr_set_Mem [cmem_simps]: "i < length xs \<Longrightarrow> arr_set (Mem xs) i x = Some (Mem (xs[i := x]))"
  by (simp add: arr_set_def)

lemma c_string_append [simp]: "NUL \<notin> set s \<Longrightarrow> c_string (s @ NUL # r) = Some s"
  by (induction s) auto

lemma c_string_append_text:
  "NUL \<notin> set s \<Longrightarrow> c_string m = Some t \<Longrightarrow> c_string (s @ m) = Some (s @ t)"
  by (induction s) auto

lemma c_string_SomeD:
  "c_string m = Some s \<Longrightarrow> NUL \<notin> set s \<and> (\<exists>r. m = s @ NUL # r)"
proof (induction m arbitrary: s)
  case (Cons c m)
  then show ?case by (cases "c = NUL") auto
qed simp

lemma c_string_None_iff: "c_string m = None \<longleftrightarrow> NUL \<notin> set m"
  by (induction m) auto

lemma c_string_replicate_NUL [simp]: "0 < n \<Longrightarrow> c_string (replicate n NUL) = Some []"
  by (cases n) auto

lemma c_string_length: "c_string m = Some s \<Longrightarrow> length s < length m"
  by (auto dest!: c_string_SomeD)

subsection \<open>Lists\<close>

lemma strrchr_idx_SomeD:
  "strrchr_idx s c = Some i \<Longrightarrow> i < length s \<and> s ! i = c \<and> c \<notin> set (drop (Suc i) s)"
proof (induction s arbitrary: i)
  case (Cons x xs)
  then show ?case
  proof (cases "strrchr_idx xs c")
    case None
    then have "c \<notin> set xs"
      by (induction xs) (auto split: option.splits)
    with None Cons.prems show ?thesis by (auto split: if_splits)
  qed auto
qed simp

lemma strrchr_idx_None_iff: "strrchr_idx s c = None \<longleftrightarrow> c \<notin> set s"
  by (induction s) (auto split: option.splits)

lemma strrchr_idx_append:
  "c \<notin> set b \<Longrightarrow> strrchr_idx (a @ c # b) c = Some (length a)"
proof (induction a)
  case Nil
  then show ?case by (simp add: strrchr_idx_None_iff [THEN iffD2] split: option.splits)
next
  case (Cons x a)
  then show ?case by simp
qed

lemma strchr_idx_None_iff: "strchr_idx s c = None \<longleftrightarrow> c \<notin> set s"
  by (induction s) auto

lemma strchr_idx_append: "c \<notin> set a \<Longrightarrow> strchr_idx (a @ c # b) c = Some (length a)"
  by (induction a) auto

lemma strchr_idx_SomeD:
  "strchr_idx s c = Some i \<Longrightarrow> i < length s \<and> s ! i = c \<and> c \<notin> set (take i s)"
proof (induction s arbitrary: i)
  case (Cons x xs)
  then show ?case by (cases i) (auto split: if_splits)
qed simp

end
