(* ===== verification/FisopFile.thy ===== *)
theory FisopFile
  imports Prelude
begin

unbundle bit_operations_syntax

text \<open>
  The inode table of the FUSE file system: \<open>fisopfs/file.h\<close> and \<open>fisopfs/file.c\<close>
  without the two functions that read and write the disk image (theory \<open>FisopDisk\<close>).
  The state is the global \<open>superblock\<close>; an operation takes it and returns it updated.
  Result \<open>None\<close> is undefined behaviour (an access outside an object, a null pointer).
  What the operating system decides is the record \<open>fsys\<close>: the clock, the caller's ids
  and which allocations succeed.
\<close>

subsection \<open>Data\<close>

definition INITIAL_CONTENT_LENGTH :: nat where "INITIAL_CONTENT_LENGTH = 1024"
definition INITIAL_INODES_AMOUNT :: nat where "INITIAL_INODES_AMOUNT = 1024"
definition MAX_PATH :: nat where "MAX_PATH = 256"
definition ERROR :: int where "ERROR = - 1"

text \<open>Linux error numbers that the file system returns, negated.\<close>

definition ENOENT :: int where "ENOENT = 2"
definition ENOMEM :: int where "ENOMEM = 12"
definition ENOTDIR :: int where "ENOTDIR = 20"
definition EISDIR :: int where "EISDIR = 21"
definition ENAMETOOLONG :: int where "ENAMETOOLONG = 36"
definition ENOTEMPTY :: int where "ENOTEMPTY = 39"

lemmas errno_defs [fs_defs] =
  ENOENT_def ENOMEM_def ENOTDIR_def EISDIR_def ENAMETOOLONG_def ENOTEMPTY_def ERROR_def

datatype inode_type = INODE_FILE | INODE_DIR

text \<open>
  \<open>struct inode\<close>. The array \<open>path[MAX_PATH]\<close> is kept as the text it holds; the code that
  copies into it checks the 256 bytes. \<open>i_size\<close> is an \<open>int\<close>.
\<close>

record inode =
  i_path :: string
  i_content :: "char block"
  i_size :: int
  i_type :: inode_type
  last_access :: int
  last_modification :: int
  creation_time :: int
  i_group :: int
  i_owner :: int
  permissions :: int

text \<open>An inode that \<open>calloc\<close> has zeroed.\<close>

definition blank_inode :: inode where
  "blank_inode = \<lparr>i_path = [], i_content = Null, i_size = 0, i_type = INODE_FILE,
     last_access = 0, last_modification = 0, creation_time = 0,
     i_group = 0, i_owner = 0, permissions = 0\<rparr>"

definition sizeof_inode :: nat where "sizeof_inode = 312"
definition sizeof_int :: nat where "sizeof_int = 4"

record superblock =
  inodes :: "inode block"
  inode_bitmap :: "int block"
  inode_amount :: int

text \<open>The global \<open>superblock_t superblock = {}\<close>.\<close>

definition empty_superblock :: superblock where
  "empty_superblock = \<lparr>inodes = Null, inode_bitmap = Null, inode_amount = 0\<rparr>"

record fsys =
  now :: int
  getgid :: int
  getuid :: int
  alloc_ok :: "nat \<Rightarrow> bool"

subsection \<open>Allocation\<close>

definition calloc :: "fsys \<Rightarrow> 'a \<Rightarrow> nat \<Rightarrow> nat \<Rightarrow> 'a block" where
  "calloc e z esz n = (if alloc_ok e (n * esz) then Mem (replicate n z) else Null)"

text \<open>
  \<open>recalloc\<close>: \<open>old_n\<close> is the old size in elements of \<open>esz\<close> bytes. A \<open>memcpy\<close> of zero
  bytes reads nothing, so the null array of the initial superblock may be passed with 0.
\<close>

definition recalloc :: "fsys \<Rightarrow> 'a \<Rightarrow> nat \<Rightarrow> 'a block \<Rightarrow> nat \<Rightarrow> nat \<Rightarrow> 'a block option" where
  "recalloc e z esz ptr old_n new_n =
     (case calloc e z esz new_n of
        Mem new_ptr \<Rightarrow> do {
          old \<leftarrow> (if old_n = 0 then Some [] else do { m \<leftarrow> deref ptr; mem_read m 0 old_n });
          new_ptr \<leftarrow> mem_write new_ptr 0 old;
          free_block ptr;
          Some (Mem new_ptr)
        }
      | _ \<Rightarrow> Some Null)"

subsection \<open>Looking inodes up\<close>

function search_loop :: "superblock \<Rightarrow> string \<Rightarrow> nat \<Rightarrow> nat option" where
  "search_loop sb p i =
     (if int i < inode_amount sb then do {
        b \<leftarrow> arr_get (inode_bitmap sb) i;
        if b = 0 then search_loop sb p (Suc i)
        else do {
          nd \<leftarrow> arr_get (inodes sb) i;
          if i_path nd \<noteq> p then search_loop sb p (Suc i) else Some i
        }
      } else Some i)"
  by pat_completeness auto
termination
  by (relation "measure (\<lambda>(sb, p, i). nat (inode_amount sb - int i))") auto

definition search_inode :: "superblock \<Rightarrow> string \<Rightarrow> int option" where
  "search_inode sb p = do {
     i \<leftarrow> search_loop sb p 0;
     Some (if int i = inode_amount sb then ERROR else int i)
   }"

function next_free_loop :: "superblock \<Rightarrow> nat \<Rightarrow> nat option" where
  "next_free_loop sb i =
     (if int i < inode_amount sb then do {
        b \<leftarrow> arr_get (inode_bitmap sb) i;
        if b \<noteq> 0 then next_free_loop sb (Suc i) else Some i
      } else Some i)"
  by pat_completeness auto
termination
  by (relation "measure (\<lambda>(sb, i). nat (inode_amount sb - int i))") auto

definition search_next_free_inode :: "superblock \<Rightarrow> nat option" where
  "search_next_free_inode sb = next_free_loop sb 0"

declare search_loop.simps [simp del] next_free_loop.simps [simp del]

text \<open>
  \<open>get_parent_path\<close>: without a slash \<open>strrchr\<close> gives the null pointer, which is then
  written through. The unchecked \<open>malloc\<close> is of the path's length plus one.
\<close>

definition get_parent_path :: "fsys \<Rightarrow> string \<Rightarrow> string option" where
  "get_parent_path e path =
     (if \<not> alloc_ok e (length path + 1) then None
      else case strrchr_idx path (CHR ''/'') of
        None \<Rightarrow> None
      | Some 0 \<Rightarrow> Some [CHR ''/'']
      | Some last_slash \<Rightarrow> Some (take last_slash path))"

text \<open>\<open>get_parent\<close>: the index of the parent's inode, or the error \<open>-ENOENT\<close>.\<close>

definition get_parent :: "fsys \<Rightarrow> superblock \<Rightarrow> string \<Rightarrow> (int + nat) option" where
  "get_parent e sb path = do {
     parent_path \<leftarrow> get_parent_path e path;
     parent_index \<leftarrow> search_inode sb parent_path;
     Some (if parent_index = ERROR then Inl (- ENOENT) else Inr (nat parent_index))
   }"

subsection \<open>Directory entries\<close>

text \<open>
  \<open>read_line\<close> copies one line into \<open>buffer\<close> and returns how far it got; nothing is
  written at the end of the text.
\<close>

function read_line_loop :: "cmem \<Rightarrow> cmem \<Rightarrow> nat \<Rightarrow> nat \<Rightarrow> (nat \<times> nat \<times> cmem) option" where
  "read_line_loop content buffer i offset =
     (if offset < length content then
        (let c = content ! offset in
         if c \<noteq> NL \<and> c \<noteq> NUL then do {
           buffer \<leftarrow> mem_write buffer i [c];
           read_line_loop content buffer (Suc i) (Suc offset)
         } else Some (i, offset, buffer))
      else None)"
  by pat_completeness auto
termination
  by (relation "measure (\<lambda>(content, buffer, i, offset). length content - offset)") auto

declare read_line_loop.simps [simp del]

definition fs_read_line :: "cmem \<Rightarrow> cmem \<Rightarrow> nat \<Rightarrow> (nat \<times> cmem) option" where
  "fs_read_line content buffer offset = do {
     (i, offset, buffer) \<leftarrow> read_line_loop content buffer 0 offset;
     if content ! offset = NUL \<and> i = 0 then Some (0, buffer)
     else do {
       buffer \<leftarrow> mem_write buffer i [NUL];
       Some (Suc i, buffer)
     }
   }"

definition get_next_entry :: "cmem \<Rightarrow> nat \<Rightarrow> cmem \<Rightarrow> (nat \<times> cmem) option" where
  "get_next_entry content offset buff = do {
     (read, buff) \<leftarrow> fs_read_line content buff offset;
     Some (offset + read, buff)
   }"

text \<open>
  \<open>add_dentry_to_content\<close> takes the content pointer, the content size and the buffer that
  holds the name, and returns all three: the name's buffer gets a newline appended. The
  test after \<open>recalloc\<close> is of \<open>content\<close>, not \<open>*content\<close>, so it never fires and a null
  pointer is written through.
\<close>

definition add_dentry_to_content ::
  "fsys \<Rightarrow> char block \<Rightarrow> int \<Rightarrow> cmem \<Rightarrow> (char block \<times> int \<times> cmem) option" where
  "add_dentry_to_content e content content_size dentry = do {
     name \<leftarrow> c_string dentry;
     dentry \<leftarrow> mem_write dentry (length name) [NL];
     dentry \<leftarrow> mem_write dentry (length name + 1) [NUL];
     let dentry_size = length name + 1;
     text \<leftarrow> do { m \<leftarrow> deref content; c_string m };
     let content_length = length text;
     (content, content_size) \<leftarrow>
       (if int content_length + int dentry_size > content_size then do {
          let new_size = content_size + int dentry_size + int INITIAL_CONTENT_LENGTH;
          content \<leftarrow> recalloc e NUL 1 content content_length (size_t new_size);
          Some (content, new_size)
        } else Some (content, content_size));
     m \<leftarrow> deref content;
     m \<leftarrow> mem_write m content_length (name @ [NL, NUL]);
     Some (Mem m, content_size, dentry)
   }"

text \<open>
  The loop of \<open>remove_inode\<close> over the parent's entries. Nothing in its text bounds the
  number of rounds, so not returning is the value \<open>None\<close>. The local array \<open>buff\<close> is
  written before it is read.
\<close>

partial_function (option) remove_loop ::
  "fsys \<Rightarrow> cmem \<Rightarrow> nat \<Rightarrow> string \<Rightarrow> char block \<Rightarrow> int \<Rightarrow> nat \<Rightarrow> (char block \<times> int) option" where
  "remove_loop e content content_length dir_entry new_content new_size offset =
     (if offset < content_length then do {
        (offset, buff) \<leftarrow> get_next_entry content offset (replicate (MAX_PATH + 1) NUL);
        entry \<leftarrow> c_string buff;
        if entry \<noteq> dir_entry then do {
          (new_content, new_size, buff) \<leftarrow> add_dentry_to_content e new_content new_size buff;
          remove_loop e content content_length dir_entry new_content new_size offset
        } else remove_loop e content content_length dir_entry new_content new_size offset
      } else Some (new_content, new_size))"

text \<open>
  \<open>remove_inode\<close>: the bitmap entry is cleared first, then the parent is looked up; its
  absence is not checked, so it is a null dereference.
\<close>

definition remove_inode :: "fsys \<Rightarrow> superblock \<Rightarrow> string \<Rightarrow> nat \<Rightarrow> superblock option" where
  "remove_inode e sb path inode_index = do {
     bm \<leftarrow> arr_set (inode_bitmap sb) inode_index 0;
     let sb = sb\<lparr>inode_bitmap := bm\<rparr>;
     found \<leftarrow> get_parent e sb path;
     pidx \<leftarrow> (case found of Inl err \<Rightarrow> None | Inr k \<Rightarrow> Some k);
     parent \<leftarrow> arr_get (inodes sb) pidx;
     slash \<leftarrow> strrchr_idx path (CHR ''/'');
     let dir_entry = drop (Suc slash) path;
     let new_content = calloc e NUL 1 (size_t (i_size parent));
     old \<leftarrow> deref (i_content parent);
     old_text \<leftarrow> c_string old;
     (new_content, new_size) \<leftarrow>
       remove_loop e old (length old_text) dir_entry new_content (i_size parent) 0;
     freed \<leftarrow> free_block (i_content parent);
     ns \<leftarrow> arr_set (inodes sb) pidx (parent\<lparr>i_content := freed\<rparr>);
     nd \<leftarrow> arr_get ns inode_index;
     freed \<leftarrow> free_block (i_content nd);
     ns \<leftarrow> arr_set ns inode_index (nd\<lparr>i_content := freed\<rparr>);
     parent \<leftarrow> arr_get ns pidx;
     ns \<leftarrow> arr_set ns pidx (parent\<lparr>i_content := new_content, i_size := new_size\<rparr>);
     Some (sb\<lparr>inodes := ns\<rparr>)
   }"

text \<open>
  \<open>add_dentry_to_parent_dir\<close>: \<open>path\<close> is the caller's buffer, which it modifies: the new
  entry is the tail of that buffer, and \<open>add_dentry_to_content\<close> appends a newline to it.
\<close>

definition add_dentry_to_parent_dir ::
  "fsys \<Rightarrow> superblock \<Rightarrow> cmem \<Rightarrow> (superblock \<times> int \<times> cmem) option" where
  "add_dentry_to_parent_dir e sb path = do {
     text \<leftarrow> c_string path;
     parent_path \<leftarrow> get_parent_path e text;
     dir_index \<leftarrow> search_inode sb parent_path;
     if dir_index = ERROR then Some (sb, - ENOENT, path)
     else do {
       parent_inode \<leftarrow> arr_get (inodes sb) (nat dir_index);
       if i_type parent_inode \<noteq> INODE_DIR then Some (sb, - ENOTDIR, path)
       else do {
         slash \<leftarrow> strrchr_idx text (CHR ''/'');
         (content, size, dentry) \<leftarrow>
           add_dentry_to_content e (i_content parent_inode) (i_size parent_inode)
             (drop (Suc slash) path);
         ns \<leftarrow> arr_set (inodes sb) (nat dir_index)
                 (parent_inode\<lparr>i_content := content, i_size := size\<rparr>);
         Some (sb\<lparr>inodes := ns\<rparr>, 0, take (Suc slash) path @ dentry)
       }
     }
   }"

subsection \<open>Creating an inode\<close>

text \<open>Both arrays grow by \<open>INITIAL_INODES_AMOUNT\<close>; the result is 0 or \<open>-ENOMEM\<close>.\<close>

definition grow_table :: "fsys \<Rightarrow> superblock \<Rightarrow> (superblock \<times> int) option" where
  "grow_table e sb = do {
     let old_n = nat (inode_amount sb);
     let new_n = old_n + INITIAL_INODES_AMOUNT;
     new_inodes \<leftarrow> recalloc e blank_inode sizeof_inode (inodes sb) old_n new_n;
     case new_inodes of
       Mem ns \<Rightarrow> do {
         let sb = sb\<lparr>inodes := Mem ns\<rparr>;
         new_inode_bitmap \<leftarrow> recalloc e 0 sizeof_int (inode_bitmap sb) old_n new_n;
         case new_inode_bitmap of
           Mem bs \<Rightarrow> Some (sb\<lparr>inode_bitmap := Mem bs,
                           inode_amount := inode_amount sb + int INITIAL_INODES_AMOUNT\<rparr>, 0)
         | _ \<Rightarrow> Some (sb, - ENOMEM)
       }
     | _ \<Rightarrow> Some (sb, - ENOMEM)
   }"

text \<open>Filling the slot; \<open>strcpy\<close> into \<open>path[MAX_PATH]\<close> needs room for the NUL.\<close>

definition fill_inode ::
  "fsys \<Rightarrow> superblock \<Rightarrow> nat \<Rightarrow> string \<Rightarrow> int \<Rightarrow> inode_type \<Rightarrow> (superblock \<times> int) option" where
  "fill_inode e sb free_index path mode type = do {
     nd \<leftarrow> arr_get (inodes sb) free_index;
     nd \<leftarrow> (if length path + 1 \<le> MAX_PATH then Some (nd\<lparr>i_path := path\<rparr>) else None);
     case calloc e NUL 1 INITIAL_CONTENT_LENGTH of
       Mem m \<Rightarrow> do {
         m \<leftarrow> mem_write m 0 [NUL];
         ns \<leftarrow> arr_set (inodes sb) free_index
                 (nd\<lparr>i_content := Mem m, i_type := type, i_size := int INITIAL_CONTENT_LENGTH,
                    last_access := now e, last_modification := now e, creation_time := now e,
                    i_group := getgid e, i_owner := getuid e, permissions := mode\<rparr>);
         bm \<leftarrow> arr_set (inode_bitmap sb) free_index 1;
         Some (sb\<lparr>inodes := ns, inode_bitmap := bm\<rparr>, int free_index)
       }
     | _ \<Rightarrow> do {
         ns \<leftarrow> arr_set (inodes sb) free_index (nd\<lparr>i_content := Null\<rparr>);
         Some (sb\<lparr>inodes := ns\<rparr>, - ENOMEM)
       }
   }"

definition create_inode ::
  "fsys \<Rightarrow> superblock \<Rightarrow> string \<Rightarrow> int \<Rightarrow> inode_type \<Rightarrow> (superblock \<times> int) option" where
  "create_inode e sb path mode type =
     (if length path > MAX_PATH then Some (sb, - ENAMETOOLONG)
      else do {
        free_index \<leftarrow> search_next_free_inode sb;
        (sb, err) \<leftarrow> (if int free_index = inode_amount sb then grow_table e sb else Some (sb, 0));
        if err < 0 then Some (sb, err)
        else fill_inode e sb free_index path mode type
      })"

end
