(* ===== verification/FisopOps.thy ===== *)
theory FisopOps
  imports FisopFile
begin

unbundle bit_operations_syntax

text \<open>
  The FUSE handlers of \<open>fisopfs/fisopfs.c\<close>, one definition each. A handler takes the
  superblock and returns it with the handler's return value (0 or a negated error number)
  and what it stored through its out-parameters. The debug output and the assignments to
  \<open>errno\<close>, which nothing reads, are left out. \<open>init\<close> and \<open>destroy\<close> are in
  \<open>FisopDisk\<close>.
\<close>

definition S_IFDIR :: int where "S_IFDIR = 0x4000"
definition S_IFREG :: int where "S_IFREG = 0x8000"

record stat =
  st_nlink :: int
  st_uid :: int
  st_gid :: int
  st_size :: int
  st_atime :: int
  st_mtime :: int
  st_ctime :: int
  st_mode :: int

fun strip_newline_character :: "string \<Rightarrow> string" where
  "strip_newline_character str =
     (case strchr_idx str NL of None \<Rightarrow> str | Some pos \<Rightarrow> take pos str)"

declare strip_newline_character.simps [simp del]

text \<open>\<open>getattr\<close> copies the path into an array of \<open>MAX_PATH\<close> bytes.\<close>

definition fisopfs_getattr :: "superblock \<Rightarrow> string \<Rightarrow> (int \<times> stat option) option" where
  "fisopfs_getattr sb path =
     (if length path + 1 > MAX_PATH then None
      else do {
        inode_index \<leftarrow> search_inode sb (strip_newline_character path);
        if inode_index = ERROR then Some (- ENOENT, None)
        else do {
          inode \<leftarrow> arr_get (inodes sb) (nat inode_index);
          let st = \<lparr>st_nlink = 2, st_uid = i_owner inode, st_gid = i_group inode,
                    st_size = i_size inode, st_atime = last_access inode,
                    st_mtime = last_modification inode, st_ctime = creation_time inode,
                    st_mode = S_IFDIR OR 0x1ED\<rparr>;
          Some (0, Some (if i_type inode = INODE_FILE
                         then st\<lparr>st_mode := S_IFREG OR 0x1A4, st_nlink := 1\<rparr> else st))
        }
      })"

text \<open>
  \<open>readdir\<close>: the names given to \<open>filler\<close>. The inode is a copy, so the new access time
  is lost.
\<close>

partial_function (option) readdir_loop ::
  "cmem \<Rightarrow> nat \<Rightarrow> nat \<Rightarrow> string list \<Rightarrow> string list option" where
  "readdir_loop content content_length offset filled =
     (if offset < content_length then do {
        (offset, buff) \<leftarrow> get_next_entry content offset (replicate 1024 NUL);
        entry \<leftarrow> c_string buff;
        readdir_loop content content_length offset (filled @ [entry])
      } else Some filled)"

definition fisopfs_readdir ::
  "superblock \<Rightarrow> string \<Rightarrow> nat \<Rightarrow> (int \<times> string list) option" where
  "fisopfs_readdir sb path offset = do {
     let filled = [''.'', ''..''];
     inode_index \<leftarrow> search_inode sb path;
     if inode_index = ERROR then Some (- ENOENT, filled)
     else do {
       inode \<leftarrow> arr_get (inodes sb) (nat inode_index);
       if i_type inode \<noteq> INODE_DIR then Some (- ENOTDIR, filled)
       else do {
         content \<leftarrow> deref (i_content inode);
         text \<leftarrow> c_string content;
         filled \<leftarrow> readdir_loop content (length text) offset filled;
         Some (0, filled)
       }
     }
   }"

text \<open>
  \<open>read\<close>: \<open>offset + size\<close> and \<open>file->size - offset\<close> are computed in \<open>size_t\<close>. The
  caller's buffer has room for \<open>size\<close> bytes.
\<close>

definition fisopfs_read ::
  "fsys \<Rightarrow> superblock \<Rightarrow> string \<Rightarrow> nat \<Rightarrow> int \<Rightarrow> (superblock \<times> int \<times> char list) option" where
  "fisopfs_read e sb path sz offset = do {
     inode_index \<leftarrow> search_inode sb path;
     if inode_index = ERROR then Some (sb, - ENOENT, [])
     else do {
       file \<leftarrow> arr_get (inodes sb) (nat inode_index);
       if i_type file \<noteq> INODE_FILE then Some (sb, - EISDIR, [])
       else do {
         let room = sz;
         let sz = (if size_t (offset + int sz) > size_t (i_size file)
                   then size_t (i_size file - offset) else sz);
         content \<leftarrow> deref (i_content file);
         bytes \<leftarrow> mem_read content (size_t offset) sz;
         if sz > room then None
         else do {
           ns \<leftarrow> arr_set (inodes sb) (nat inode_index) (file\<lparr>last_access := now e\<rparr>);
           Some (sb\<lparr>inodes := ns\<rparr>, int32 (int sz), bytes)
         }
       }
     }
   }"

definition fisopfs_unlink :: "fsys \<Rightarrow> superblock \<Rightarrow> string \<Rightarrow> (superblock \<times> int) option" where
  "fisopfs_unlink e sb path = do {
     inode_index \<leftarrow> search_inode sb path;
     if inode_index = ERROR then Some (sb, - ENOENT)
     else do {
       inode \<leftarrow> arr_get (inodes sb) (nat inode_index);
       if i_type inode \<noteq> INODE_FILE then Some (sb, - EISDIR)
       else do {
         sb \<leftarrow> remove_inode e sb path (nat inode_index);
         Some (sb, 0)
       }
     }
   }"

text \<open>
  \<open>mkdir\<close> and \<open>create\<close> return the path's buffer too, since adding the entry to the
  parent modifies it.
\<close>

definition make_inode ::
  "fsys \<Rightarrow> superblock \<Rightarrow> cmem \<Rightarrow> int \<Rightarrow> inode_type \<Rightarrow> (superblock \<times> int \<times> cmem) option" where
  "make_inode e sb path mode type = do {
     text \<leftarrow> c_string path;
     (sb, inode_index) \<leftarrow> create_inode e sb text mode type;
     if inode_index < 0 then Some (sb, inode_index, path)
     else do {
       (sb, result, path) \<leftarrow> add_dentry_to_parent_dir e sb path;
       if result < 0 then Some (sb, result, path) else Some (sb, 0, path)
     }
   }"

definition fisopfs_mkdir ::
  "fsys \<Rightarrow> superblock \<Rightarrow> cmem \<Rightarrow> int \<Rightarrow> (superblock \<times> int \<times> cmem) option" where
  "fisopfs_mkdir e sb path mode = make_inode e sb path mode INODE_DIR"

definition fisopfs_create ::
  "fsys \<Rightarrow> superblock \<Rightarrow> cmem \<Rightarrow> int \<Rightarrow> (superblock \<times> int \<times> cmem) option" where
  "fisopfs_create e sb path mode = make_inode e sb path mode INODE_FILE"

definition fisopfs_utimens ::
  "superblock \<Rightarrow> string \<Rightarrow> int \<Rightarrow> int \<Rightarrow> (superblock \<times> int) option" where
  "fisopfs_utimens sb path ts0 ts1 = do {
     inode_index \<leftarrow> search_inode sb path;
     if inode_index = ERROR then Some (sb, - ENOENT)
     else do {
       nd \<leftarrow> arr_get (inodes sb) (nat inode_index);
       ns \<leftarrow> arr_set (inodes sb) (nat inode_index)
               (nd\<lparr>last_access := ts0, last_modification := ts1\<rparr>);
       Some (sb\<lparr>inodes := ns\<rparr>, 0)
     }
   }"

definition fisopfs_rmdir :: "fsys \<Rightarrow> superblock \<Rightarrow> string \<Rightarrow> (superblock \<times> int) option" where
  "fisopfs_rmdir e sb path = do {
     inode_index \<leftarrow> search_inode sb path;
     if inode_index = ERROR then Some (sb, - ENOENT)
     else do {
       inode \<leftarrow> arr_get (inodes sb) (nat inode_index);
       if i_type inode \<noteq> INODE_DIR then Some (sb, - ENOTDIR)
       else do {
         content \<leftarrow> deref (i_content inode);
         text \<leftarrow> c_string content;
         if length text > 0 then Some (sb, - ENOTEMPTY)
         else do {
           sb \<leftarrow> remove_inode e sb path (nat inode_index);
           Some (sb, 0)
         }
       }
     }
   }"

text \<open>\<open>write\<close>: the size afterwards is always \<open>offset + size\<close>, converted to \<open>int\<close>.\<close>

definition fisopfs_write ::
  "fsys \<Rightarrow> superblock \<Rightarrow> string \<Rightarrow> char list \<Rightarrow> int \<Rightarrow> (superblock \<times> int) option" where
  "fisopfs_write e sb path buffer offset = do {
     let size = length buffer;
     inode_index \<leftarrow> search_inode sb path;
     if inode_index = ERROR then Some (sb, - ENOENT)
     else do {
       file \<leftarrow> arr_get (inodes sb) (nat inode_index);
       if i_type file \<noteq> INODE_FILE then Some (sb, - EISDIR)
       else do {
         content \<leftarrow>
           (if size_t (offset + int size) > size_t (i_size file)
            then recalloc e NUL 1 (i_content file) (size_t (i_size file))
                   (size_t (offset + int size + int INITIAL_CONTENT_LENGTH))
            else Some (i_content file));
         m \<leftarrow> deref content;
         m \<leftarrow> mem_write m (size_t offset) buffer;
         ns \<leftarrow> arr_set (inodes sb) (nat inode_index)
                 (file\<lparr>i_content := Mem m, i_size := int32 (offset + int size),
                       last_modification := now e\<rparr>);
         Some (sb\<lparr>inodes := ns\<rparr>, int32 (int size))
       }
     }
   }"

text \<open>
  \<open>truncate\<close>: \<open>file->size\<close> is overwritten before it is passed to \<open>recalloc\<close> as the old
  size.
\<close>

definition fisopfs_truncate ::
  "fsys \<Rightarrow> superblock \<Rightarrow> string \<Rightarrow> int \<Rightarrow> (superblock \<times> int) option" where
  "fisopfs_truncate e sb path sz = do {
     inode_index \<leftarrow> search_inode sb path;
     if inode_index = ERROR then Some (sb, - ENOENT)
     else do {
       file \<leftarrow> arr_get (inodes sb) (nat inode_index);
       if i_type file \<noteq> INODE_FILE then Some (sb, - EISDIR)
       else if sz = 0 then do {
         free_block (i_content file);
         ns \<leftarrow> arr_set (inodes sb) (nat inode_index)
                 (file\<lparr>i_content := calloc e NUL 1 INITIAL_CONTENT_LENGTH,
                       i_size := int INITIAL_CONTENT_LENGTH, last_modification := now e\<rparr>);
         Some (sb\<lparr>inodes := ns\<rparr>, 0)
       } else do {
         old \<leftarrow> deref (i_content file);
         text \<leftarrow> c_string old;
         let content_length = length text + 1;
         let file = file\<lparr>i_size := int32 sz\<rparr>;
         content \<leftarrow> recalloc e NUL 1 (i_content file) (size_t (i_size file)) (size_t sz);
         case content of
           Mem m \<Rightarrow> do {
             m \<leftarrow> (if int content_length > sz then mem_write m (size_t sz) [NUL] else Some m);
             ns \<leftarrow> arr_set (inodes sb) (nat inode_index)
                     (file\<lparr>i_content := Mem m, last_modification := now e\<rparr>);
             Some (sb\<lparr>inodes := ns\<rparr>, 0)
           }
         | _ \<Rightarrow> do {
             ns \<leftarrow> arr_set (inodes sb) (nat inode_index) (file\<lparr>i_content := content\<rparr>);
             Some (sb\<lparr>inodes := ns\<rparr>, - ENOMEM)
           }
       }
     }
   }"

end
