(* ===== verification/FisopTable.thy ===== *)
theory FisopTable
  imports FisopOps
begin

text \<open>
  The inode table seen as a map from paths to inodes. \<open>sb_rep sb ns bs\<close> says that the
  superblock's arrays are the lists \<open>ns\<close> and \<open>bs\<close>; \<open>live_map ns bs\<close> is the map that a
  lookup by path computes. The lemmas give what each access of the handlers does to that
  map: a lookup reads it, a store to the inode of a live path, the claiming of a free slot
  and the clearing of a bitmap entry are each one map update.
\<close>

definition sb_rep :: "superblock \<Rightarrow> inode list \<Rightarrow> int list \<Rightarrow> bool" where
  "sb_rep sb ns bs \<longleftrightarrow>
     inode_amount sb = int (length ns) \<and> length bs = length ns \<and>
     (inodes sb = Mem ns \<or> ns = [] \<and> inodes sb = Null) \<and>
     (inode_bitmap sb = Mem bs \<or> bs = [] \<and> inode_bitmap sb = Null)"

definition slot :: "inode list \<Rightarrow> int list \<Rightarrow> string \<Rightarrow> nat option" where
  "slot ns bs p = List.find (\<lambda>i. bs ! i \<noteq> 0 \<and> i_path (ns ! i) = p) [0..<length ns]"

definition live_map :: "inode list \<Rightarrow> int list \<Rightarrow> string \<Rightarrow> inode option" where
  "live_map ns bs p = map_option ((!) ns) (slot ns bs p)"

definition uniq_paths :: "inode list \<Rightarrow> int list \<Rightarrow> bool" where
  "uniq_paths ns bs \<longleftrightarrow>
     (\<forall>i<length ns. \<forall>j<length ns. bs ! i \<noteq> 0 \<longrightarrow> bs ! j \<noteq> 0 \<longrightarrow>
        i_path (ns ! i) = i_path (ns ! j) \<longrightarrow> i = j)"

text \<open>The map of a superblock, computed from its arrays.\<close>

fun arr_list :: "'a block \<Rightarrow> 'a list" where
  "arr_list (Mem xs) = xs"
| "arr_list _ = []"

definition fs_map :: "superblock \<Rightarrow> string \<Rightarrow> inode option" where
  "fs_map sb = live_map (arr_list (inodes sb)) (arr_list (inode_bitmap sb))"

lemma fs_map_rep [simp]: "sb_rep sb ns bs \<Longrightarrow> fs_map sb = live_map ns bs"
  by (auto simp: fs_map_def sb_rep_def)

lemma sb_rep_get:
  assumes "sb_rep sb ns bs" and "i < length ns"
  shows "arr_get (inodes sb) i = Some (ns ! i)" and "arr_get (inode_bitmap sb) i = Some (bs ! i)"
    and "arr_set (inodes sb) i nd = Some (Mem (ns[i := nd]))"
    and "arr_set (inode_bitmap sb) i b = Some (Mem (bs[i := b]))"
  using assms by (auto simp: sb_rep_def cmem_simps)

lemma sb_rep_upd:
  assumes "sb_rep sb ns bs"
  shows "sb_rep (sb\<lparr>inodes := Mem (ns[i := nd])\<rparr>) (ns[i := nd]) bs"
    and "sb_rep (sb\<lparr>inode_bitmap := Mem (bs[i := b])\<rparr>) ns (bs[i := b])"
  using assms by (auto simp: sb_rep_def)

subsection \<open>The loops of the lookups\<close>

lemma search_loop_eq:
  assumes "sb_rep sb ns bs" and "i \<le> length ns"
  shows "search_loop sb p i =
     Some (case List.find (\<lambda>i. bs ! i \<noteq> 0 \<and> i_path (ns ! i) = p) [i..<length ns] of
             Some k \<Rightarrow> k | None \<Rightarrow> length ns)"
  using assms(2)
proof (induction "length ns - i" arbitrary: i)
  case 0
  then show ?case using assms(1) by (subst search_loop.simps) (simp add: sb_rep_def)
next
  case (Suc k)
  then have i: "i < length ns" and IH: "search_loop sb p (Suc i) =
     Some (case List.find (\<lambda>i. bs ! i \<noteq> 0 \<and> i_path (ns ! i) = p) [Suc i..<length ns] of
             Some k \<Rightarrow> k | None \<Rightarrow> length ns)"
    by auto
  then show ?case using assms(1)
    by (subst search_loop.simps) (simp add: sb_rep_get [OF assms(1)] sb_rep_def upt_conv_Cons)
qed

lemma slot_SomeD:
  "slot ns bs p = Some i \<Longrightarrow> i < length ns \<and> bs ! i \<noteq> 0 \<and> i_path (ns ! i) = p"
  by (auto simp: slot_def find_Some_iff)

lemma slot_None_iff: "slot ns bs p = None \<longleftrightarrow> (\<forall>i<length ns. bs ! i \<noteq> 0 \<longrightarrow> i_path (ns ! i) \<noteq> p)"
  by (auto simp: slot_def find_None_iff)

lemma slot_uniq:
  assumes "uniq_paths ns bs" and "i < length ns" and "bs ! i \<noteq> 0"
  shows "slot ns bs (i_path (ns ! i)) = Some i"
proof -
  from assms have "slot ns bs (i_path (ns ! i)) \<noteq> None"
    by (auto simp: slot_None_iff)
  then obtain k where k: "slot ns bs (i_path (ns ! i)) = Some k" by auto
  with slot_SomeD [OF k] assms have "k = i" by (auto simp: uniq_paths_def)
  with k show ?thesis by simp
qed

lemma search_inode_eq:
  assumes "sb_rep sb ns bs"
  shows "search_inode sb p = Some (case slot ns bs p of Some i \<Rightarrow> int i | None \<Rightarrow> ERROR)"
proof (cases "slot ns bs p")
  case None
  then show ?thesis using assms
    by (simp add: search_inode_def search_loop_eq [OF assms] slot_def) (simp add: sb_rep_def)
next
  case (Some k)
  with slot_SomeD [OF this] show ?thesis using assms
    by (simp add: search_inode_def search_loop_eq [OF assms] slot_def) (simp add: sb_rep_def)
qed

lemma int_neq_ERROR [simp]: "int i \<noteq> ERROR" "ERROR \<noteq> int i" "ERROR < 0" "\<not> int i < 0"
  by (auto simp: ERROR_def)

lemma next_free_loop_eq:
  assumes "sb_rep sb ns bs" and "i \<le> length ns"
  shows "next_free_loop sb i =
     Some (case List.find (\<lambda>i. bs ! i = 0) [i..<length ns] of Some k \<Rightarrow> k | None \<Rightarrow> length ns)"
  using assms(2)
proof (induction "length ns - i" arbitrary: i)
  case 0
  then show ?case using assms(1) by (subst next_free_loop.simps) (simp add: sb_rep_def)
next
  case (Suc k)
  then have i: "i < length ns" and IH: "next_free_loop sb (Suc i) =
     Some (case List.find (\<lambda>i. bs ! i = 0) [Suc i..<length ns] of
             Some k \<Rightarrow> k | None \<Rightarrow> length ns)"
    by auto
  then show ?case using assms(1)
    by (subst next_free_loop.simps) (simp add: sb_rep_get [OF assms(1)] sb_rep_def upt_conv_Cons)
qed

lemma search_next_free_inode_spec:
  assumes "sb_rep sb ns bs"
  obtains k where "search_next_free_inode sb = Some k" and "k \<le> length ns"
    and "k < length ns \<Longrightarrow> bs ! k = 0" and "\<forall>i<k. bs ! i \<noteq> 0"
proof (cases "List.find (\<lambda>i. bs ! i = 0) [0..<length ns]")
  case None
  then have "search_next_free_inode sb = Some (length ns)"
    using next_free_loop_eq [OF assms, of 0] by (simp add: search_next_free_inode_def)
  with None that show ?thesis by (simp add: find_None_iff)
next
  case (Some k)
  then have "search_next_free_inode sb = Some k"
    using next_free_loop_eq [OF assms, of 0] by (simp add: search_next_free_inode_def)
  with Some that show ?thesis by (force simp: find_Some_iff)
qed

subsection \<open>Stores as map updates\<close>

lemma live_map_SomeI:
  assumes "uniq_paths ns bs" and "i < length ns" and "bs ! i \<noteq> 0"
  shows "live_map ns bs (i_path (ns ! i)) = Some (ns ! i)"
  using slot_uniq [OF assms] by (simp add: live_map_def)

lemma live_map_path: "live_map ns bs p = Some nd \<Longrightarrow> i_path nd = p"
  by (auto simp: live_map_def dest: slot_SomeD)

lemma live_map_None_iff: "live_map ns bs p = None \<longleftrightarrow> slot ns bs p = None"
  by (simp add: live_map_def)

lemma find_cong_set:
  "(\<And>x. x \<in> set xs \<Longrightarrow> P x = Q x) \<Longrightarrow> List.find P xs = List.find Q xs"
  by (induction xs) auto

lemma live_map_store:
  assumes u: "uniq_paths ns bs" and s: "slot ns bs p = Some i" and "i_path nd = p"
  shows "live_map (ns[i := nd]) bs = (live_map ns bs)(p \<mapsto> nd)" and "uniq_paths (ns[i := nd]) bs"
proof -
  note i = slot_SomeD [OF s]
  have path: "i_path (ns[i := nd] ! k) = i_path (ns ! k)" if "k < length ns" for k
    using i assms(3) that by (cases "k = i") auto
  then show "uniq_paths (ns[i := nd]) bs" using u by (simp add: uniq_paths_def)
  have slot_eq: "slot (ns[i := nd]) bs q = slot ns bs q" for q
    unfolding slot_def by (rule trans [OF find_cong_set [where Q = "\<lambda>i. bs ! i \<noteq> 0 \<and> i_path (ns ! i) = q"]])
      (auto simp: path)
  show "live_map (ns[i := nd]) bs = (live_map ns bs)(p \<mapsto> nd)"
  proof
    fix q
    show "live_map (ns[i := nd]) bs q = ((live_map ns bs)(p \<mapsto> nd)) q"
    proof (cases "slot ns bs q")
      case (Some k)
      with slot_SomeD [OF Some] i u s show ?thesis
        by (cases "k = i") (auto simp: live_map_def slot_eq)
    qed (use s in \<open>auto simp: live_map_def slot_eq\<close>)
  qed
qed

lemma live_map_store_dead:
  assumes "uniq_paths ns bs" and "bs ! i = 0"
  shows "live_map (ns[i := nd]) bs = live_map ns bs" and "uniq_paths (ns[i := nd]) bs"
proof -
  have nth: "ns[i := nd] ! k = ns ! k" if "bs ! k \<noteq> 0" for k
    using that assms(2) by (metis nth_list_update_neq)
  have slot_eq: "slot (ns[i := nd]) bs q = slot ns bs q" for q
    unfolding slot_def by (rule trans [OF find_cong_set [where Q = "\<lambda>i. bs ! i \<noteq> 0 \<and> i_path (ns ! i) = q"]])
      (auto simp: nth)
  show "live_map (ns[i := nd]) bs = live_map ns bs"
    by (rule ext, rename_tac q, case_tac "slot ns bs q")
      (auto simp: live_map_def slot_eq nth dest: slot_SomeD)
  show "uniq_paths (ns[i := nd]) bs" using assms(1) unfolding uniq_paths_def by (simp add: nth)
qed

lemma slot_clear:
  assumes u: "uniq_paths ns bs" and s: "slot ns bs p = Some i" and l: "length bs = length ns"
  shows "slot ns (bs[i := 0]) q = (if q = p then None else slot ns bs q)"
proof -
  note i = slot_SomeD [OF s]
  have *: "bs[i := 0] ! k \<noteq> 0 \<and> i_path (ns ! k) = q \<longleftrightarrow> q \<noteq> p \<and> bs ! k \<noteq> 0 \<and> i_path (ns ! k) = q"
    if "k < length ns" for k
    using i u that l by (cases "k = i") (auto simp: uniq_paths_def)
  have "slot ns (bs[i := 0]) q =
      List.find (\<lambda>k. q \<noteq> p \<and> bs ! k \<noteq> 0 \<and> i_path (ns ! k) = q) [0..<length ns]"
    unfolding slot_def by (rule find_cong_set) (use * in auto)
  then show ?thesis by (simp add: slot_def find_None_iff)
qed

lemma live_map_clear:
  assumes "uniq_paths ns bs" and "slot ns bs p = Some i" and "length bs = length ns"
  shows "live_map ns (bs[i := 0]) = (live_map ns bs)(p := None)" and "uniq_paths ns (bs[i := 0])"
proof -
  show "live_map ns (bs[i := 0]) = (live_map ns bs)(p := None)"
    by (rule ext) (simp add: live_map_def slot_clear [OF assms])
  have "bs[i := 0] ! k \<noteq> 0 \<Longrightarrow> bs ! k \<noteq> 0" for k
    by (cases "k = i"; cases "i < length bs") (auto simp: list_update_beyond)
  then show "uniq_paths ns (bs[i := 0])"
    using assms(1) unfolding uniq_paths_def by blast
qed

lemma live_map_claim:
  assumes u: "uniq_paths ns bs" and i: "i < length ns" "bs ! i = 0" and l: "length bs = length ns"
    and f: "live_map ns bs p = None" and p: "i_path nd = p" and b: "b \<noteq> 0"
  shows "live_map (ns[i := nd]) (bs[i := b]) = (live_map ns bs)(p \<mapsto> nd)"
    and "uniq_paths (ns[i := nd]) (bs[i := b])"
proof -
  let ?ns = "ns[i := nd]" and ?bs = "bs[i := b]"
  have fresh: "\<forall>k<length ns. bs ! k \<noteq> 0 \<longrightarrow> i_path (ns ! k) \<noteq> p"
    using f by (simp add: live_map_None_iff slot_None_iff)
  have at: "?ns ! k = (if k = i then nd else ns ! k)" "?bs ! k = (if k = i then b else bs ! k)"
    if "k < length ns" for k using that i l by auto
  show u': "uniq_paths ?ns ?bs"
    using u fresh p by (auto simp: uniq_paths_def at)
  show "live_map ?ns ?bs = (live_map ns bs)(p \<mapsto> nd)"
  proof
    fix q
    show "live_map ?ns ?bs q = ((live_map ns bs)(p \<mapsto> nd)) q"
    proof (cases "q = p")
      case True
      with live_map_SomeI [OF u', of i] i b p l show ?thesis by (simp add: at)
    next
      case False
      have "slot ?ns ?bs q = slot ns bs q"
        unfolding slot_def using i p False
        by (subst length_list_update, intro find_cong_set) (auto simp: at)
      with False i show ?thesis
        by (cases "slot ns bs q") (auto simp: live_map_def at dest!: slot_SomeD)
    qed
  qed
qed

lemma find_append_case:
  "List.find P (xs @ ys) = (case List.find P xs of None \<Rightarrow> List.find P ys | Some x \<Rightarrow> Some x)"
  by (induction xs) auto

lemma live_map_grow:
  assumes "length bs = length ns"
  shows "live_map (ns @ xs) (bs @ replicate (length xs) 0) = live_map ns bs"
    and "uniq_paths ns bs \<Longrightarrow> uniq_paths (ns @ xs) (bs @ replicate (length xs) 0)"
proof -
  have at: "(bs @ replicate (length xs) 0) ! k = (if k < length ns then bs ! k else 0)"
    if "k < length ns + length xs" for k
    using that assms by (auto simp: nth_append)
  have "slot (ns @ xs) (bs @ replicate (length xs) 0) q = slot ns bs q" for q
  proof -
    have "[0..<length (ns @ xs)] = [0..<length ns] @ [length ns..<length ns + length xs]"
      by (metis length_append upt_add_eq_append le0)
    moreover have "List.find (\<lambda>i. (bs @ replicate (length xs) 0) ! i \<noteq> 0 \<and> i_path ((ns @ xs) ! i) = q)
        [length ns..<length ns + length xs] = None"
      by (auto simp: find_None_iff at)
    moreover have "List.find (\<lambda>i. (bs @ replicate (length xs) 0) ! i \<noteq> 0 \<and> i_path ((ns @ xs) ! i) = q)
        [0..<length ns] = slot ns bs q"
      unfolding slot_def by (rule find_cong_set) (auto simp: nth_append assms)
    ultimately show ?thesis
      unfolding slot_def by (simp add: find_append_case del: upt_Suc split: option.splits)
  qed
  then show "live_map (ns @ xs) (bs @ replicate (length xs) 0) = live_map ns bs"
    by (intro ext, rename_tac q, case_tac "slot ns bs q")
      (auto simp: live_map_def nth_append dest: slot_SomeD)
  show "uniq_paths ns bs \<Longrightarrow> uniq_paths (ns @ xs) (bs @ replicate (length xs) 0)"
    using assms by (auto simp: uniq_paths_def nth_append split: if_splits)
qed

end
