(* ===== verification/FisopDir.thy ===== *)
theory FisopDir
  imports FisopOps
begin

text \<open>
  Directory contents. A directory's buffer holds its entries one per line; \<open>dir_text\<close> is
  that encoding and \<open>dir_lines\<close> its inverse. The lemmas show that appending an entry and
  copying all entries but one are the list operations they implement, and in which case
  the appended line overruns the buffer. The locale \<open>dentry_list\<close> is the interface that
  the directory tree relies on; it is interpreted on the buffers of the model.
\<close>

definition dir_text :: "string list \<Rightarrow> string" where
  "dir_text es = concat (map (\<lambda>e. e @ [NL]) es)"

fun dir_lines :: "string \<Rightarrow> string \<Rightarrow> string list" where
  "dir_lines acc [] = []"
| "dir_lines acc (c # cs) = (if c = NL then acc # dir_lines [] cs else dir_lines (acc @ [c]) cs)"

definition entry_ok :: "string \<Rightarrow> bool" where
  "entry_ok e \<longleftrightarrow> NL \<notin> set e \<and> NUL \<notin> set e \<and> length e < MAX_PATH"

lemma dir_text_simps [simp]:
  "dir_text [] = []" "dir_text (e # es) = e @ NL # dir_text es"
  "dir_text (es @ fs) = dir_text es @ dir_text fs"
  by (simp_all add: dir_text_def)

lemma dir_text_eq_Nil [simp]: "dir_text es = [] \<longleftrightarrow> es = []"
  by (cases es) auto

lemma dir_lines_word:
  "NL \<notin> set w \<Longrightarrow> dir_lines acc (w @ NL # t) = (acc @ w) # dir_lines [] t"
  by (induction w arbitrary: acc) auto

lemma dir_lines_text: "\<forall>e\<in>set es. NL \<notin> set e \<Longrightarrow> dir_lines [] (dir_text es) = es"
  by (induction es) (auto simp: dir_lines_word)

lemma NUL_notin_dir_text: "\<forall>e\<in>set es. entry_ok e \<Longrightarrow> NUL \<notin> set (dir_text es)"
  by (induction es) (auto simp: entry_ok_def)

lemma length_dir_text_filter: "length (dir_text (filter P es)) \<le> length (dir_text es)"
  by (induction es) auto

subsection \<open>Reading one line\<close>

lemma read_line_loop_word:
  assumes "content = pre @ w @ c # rest" and "c = NL \<or> c = NUL"
    and "NL \<notin> set w" and "NUL \<notin> set w" and "i + length w \<le> length buffer"
  shows "read_line_loop content buffer i (length pre) =
     Some (i + length w, length pre + length w, take i buffer @ w @ drop (i + length w) buffer)"
  using assms
proof (induction w arbitrary: pre i buffer)
  case Nil
  then show ?case by (subst read_line_loop.simps) (auto simp: nth_append)
next
  case (Cons x w)
  let ?b = "take i buffer @ [x] @ drop (Suc i) buffer"
  have "read_line_loop content buffer i (length pre) =
        read_line_loop content ?b (Suc i) (length (pre @ [x]))"
    using Cons.prems by (subst read_line_loop.simps) (auto simp: nth_append mem_write_def)
  also have "\<dots> = Some (Suc i + length w, length (pre @ [x]) + length w,
      take (Suc i) ?b @ w @ drop (Suc i + length w) ?b)"
    using Cons.prems by (intro Cons.IH) auto
  finally show ?case using Cons.prems by (simp add: min_def add.commute [of "length w"])
qed

lemma get_next_entry_line:
  assumes "content = pre @ w @ NL # rest" and "NL \<notin> set w" and "NUL \<notin> set w"
    and "length w < length buff"
  obtains buff' where "get_next_entry content (length pre) buff = Some (length pre + length w + 1, buff')"
    and "buff' = w @ NUL # drop (length w + 1) buff" and "c_string buff' = Some w"
proof
  let ?b = "w @ NUL # drop (length w + 1) buff"
  have "read_line_loop content buff 0 (length pre) =
      Some (length w, length pre + length w, w @ drop (length w) buff)"
    using read_line_loop_word [of content pre w NL rest 0 buff] assms by simp
  then show "get_next_entry content (length pre) buff = Some (length pre + length w + 1, ?b)"
    using assms by (simp add: get_next_entry_def fs_read_line_def nth_append mem_write_def)
  show "c_string ?b = Some w" using assms(3) by simp
qed simp

subsection \<open>Appending an entry\<close>

text \<open>The buffer, its recorded size and the entries it encodes.\<close>

definition dir_ok :: "char block \<Rightarrow> int \<Rightarrow> string list \<Rightarrow> bool" where
  "dir_ok content sz es \<longleftrightarrow>
     (\<exists>m. content = Mem m \<and> sz = int (length m) \<and> c_string m = Some (dir_text es)) \<and>
     (\<forall>e\<in>set es. entry_ok e) \<and> 0 < sz \<and> sz < 2 ^ 30"

lemma dir_okE:
  assumes "dir_ok content sz es"
  obtains m where "content = Mem m" and "sz = int (length m)" and "c_string m = Some (dir_text es)"
    and "length (dir_text es) < length m" and "\<forall>e\<in>set es. entry_ok e" and "sz < 2 ^ 30"
  using assms c_string_length unfolding dir_ok_def by blast

text \<open>The one line that does not fit: text, newline and NUL need one byte more than the size.\<close>

definition exact_fit :: "int \<Rightarrow> string list \<Rightarrow> string \<Rightarrow> bool" where
  "exact_fit sz es d \<longleftrightarrow> int (length (dir_text es) + length d + 1) = sz"

definition grown :: "int \<Rightarrow> string list \<Rightarrow> string \<Rightarrow> int" where
  "grown sz es d =
     (if int (length (dir_text es) + length d + 1) > sz
      then sz + int (length d) + 1 + int INITIAL_CONTENT_LENGTH else sz)"

lemma dentry_buffer:
  assumes "dentry = d @ NUL # slack" and "slack \<noteq> []" and "NUL \<notin> set d"
  shows "c_string dentry = Some d"
    and "mem_write dentry (length d) [NL] = Some (d @ NL # slack)"
    and "mem_write (d @ NL # slack) (Suc (length d)) [NUL] = Some (d @ NL # NUL # tl slack)"
  using assms by (auto simp: mem_write_def neq_Nil_conv)

lemma add_dentry_append:
  assumes ok: "dir_ok content sz es" and d: "entry_ok d"
    and dentry: "dentry = d @ NUL # slack" "slack \<noteq> []"
    and room: "\<not> exact_fit sz es d" "grown sz es d < 2 ^ 30"
    and alloc: "\<forall>n. alloc_ok e n"
  obtains content' where
    "add_dentry_to_content e content sz dentry =
       Some (content', grown sz es d, d @ NL # NUL # tl slack)"
    and "dir_ok content' (grown sz es d) (es @ [d])"
proof -
  from ok obtain m where m: "content = Mem m" "sz = int (length m)"
    "c_string m = Some (dir_text es)" "length (dir_text es) < length m" "\<forall>e\<in>set es. entry_ok e"
    by (rule dir_okE)
  have d': "NUL \<notin> set d" and es': "\<forall>x\<in>set (es @ [d]). entry_ok x"
    using d m(5) by (auto simp: entry_ok_def)
  note db = dentry_buffer [OF dentry d']
  let ?t = "dir_text es" and ?n = "grown sz es d"
  let ?m = "if int (length ?t + length d + 1) > sz
            then ?t @ replicate (nat ?n - length ?t) NUL else m"
  let ?m' = "take (length ?t) ?m @ (d @ [NL, NUL]) @ drop (length ?t + length d + 2) ?m"
  have n: "?n = int (length ?m)"
    using m(2,4) by (auto simp: grown_def nat_diff_distrib)
  have fits: "length ?t + length d + 2 \<le> length ?m"
    using room m(2,4) by (auto simp: exact_fit_def grown_def INITIAL_CONTENT_LENGTH_def)
  from c_string_SomeD [OF m(3)] have take: "take (length ?t) ?m = ?t" "take (length ?t) m = ?t"
    by auto
  have "add_dentry_to_content e content sz dentry = Some (Mem ?m', ?n, d @ NL # NUL # tl slack)"
  proof (cases "int (length ?t + length d + 1) > sz")
    case True
    then have n_eq: "?n = sz + int (Suc (length d)) + int INITIAL_CONTENT_LENGTH"
      by (simp add: grown_def)
    have "size_t ?n = nat ?n"
      using room(2) n by (intro size_t_id) auto
    moreover have "length ?t \<le> nat ?n" using fits True n by simp
    ultimately have rc: "recalloc e NUL 1 (Mem m) (length ?t) (size_t ?n) =
        Some (Mem (?t @ replicate (nat ?n - length ?t) NUL))"
      using alloc m(4) by (auto simp: recalloc_def calloc_def mem_read_def mem_write_def take)
    from True show ?thesis
      unfolding add_dentry_to_content_def
      using fits rc db m take n_eq by (simp add: Let_def mem_write_def algebra_simps del: size_t_id)
  next
    case False
    then have "?n = sz" by (simp add: grown_def)
    with False show ?thesis
      unfolding add_dentry_to_content_def
      using fits db m take by (simp add: Let_def mem_write_def)
  qed
  moreover have "dir_ok (Mem ?m') ?n (es @ [d])"
  proof -
    have "c_string ?m' = Some (dir_text (es @ [d]))"
      using c_string_append [of "dir_text (es @ [d])" "drop (length ?t + length d + 2) ?m"]
        NUL_notin_dir_text [OF es'] take by (simp del: c_string_append)
    moreover have "length ?m' = length ?m" using fits by simp
    ultimately show ?thesis
      unfolding dir_ok_def using es' n room(2) fits by auto
  qed
  ultimately show ?thesis using that by blast
qed

text \<open>When the line fits exactly, its terminating NUL is written past the buffer.\<close>

lemma add_dentry_exact_fit:
  assumes ok: "dir_ok content sz es" and d: "entry_ok d"
    and dentry: "dentry = d @ NUL # slack" "slack \<noteq> []" and fit: "exact_fit sz es d"
  shows "add_dentry_to_content e content sz dentry = None"
proof -
  from ok obtain m where m: "content = Mem m" "sz = int (length m)"
    "c_string m = Some (dir_text es)" by (rule dir_okE)
  from d have "NUL \<notin> set d" by (simp add: entry_ok_def)
  from dentry_buffer [OF dentry this] fit m show ?thesis
    by (simp add: add_dentry_to_content_def exact_fit_def Let_def mem_write_def)
qed

subsection \<open>Copying all entries but one\<close>

lemma remove_loop_filter:
  assumes "old = dir_text (es @ fs) @ NUL # r" and "\<forall>x\<in>set (es @ fs). entry_ok x"
    and "dir_ok nc sz (filter (\<lambda>x. x \<noteq> d) es)" and "int (length (dir_text (es @ fs))) < sz"
    and "\<forall>n. alloc_ok e n"
  shows "\<exists>nc'. remove_loop e old (length (dir_text (es @ fs))) d nc sz (length (dir_text es)) =
           Some (nc', sz) \<and> dir_ok nc' sz (filter (\<lambda>x. x \<noteq> d) (es @ fs))"
  using assms
proof (induction fs arbitrary: es nc)
  case Nil
  then show ?case by (subst remove_loop.simps) simp
next
  case (Cons f fs)
  let ?off = "length (dir_text es)" and ?off' = "length (dir_text (es @ [f]))"
  define b0 where "b0 = replicate (MAX_PATH + 1) NUL"
  have f: "NL \<notin> set f" "NUL \<notin> set f" "length f < length b0" "drop (length f + 1) b0 \<noteq> []"
    using Cons.prems(2) by (auto simp: entry_ok_def b0_def)
  have old: "old = dir_text es @ f @ NL # dir_text fs @ NUL # r"
    using Cons.prems(1) by simp
  obtain buff where next_e: "get_next_entry old ?off b0 = Some (?off', buff)"
    and buff: "buff = f @ NUL # drop (length f + 1) b0"
    and entry: "c_string buff = Some f"
    by (rule get_next_entry_line [OF old f(1,2,3)]) simp
  have step: "remove_loop e old (length (dir_text (es @ f # fs))) d nc sz ?off =
      (if f \<noteq> d then do {
         (nc, sz, buff) \<leftarrow> add_dentry_to_content e nc sz buff;
         remove_loop e old (length (dir_text (es @ f # fs))) d nc sz ?off'
       } else remove_loop e old (length (dir_text (es @ f # fs))) d nc sz ?off')"
    by (subst remove_loop.simps [folded b0_def]) (simp add: next_e entry)
  have IH: "\<exists>nc''. remove_loop e old (length (dir_text (es @ f # fs))) d nc' sz ?off' =
      Some (nc'', sz) \<and> dir_ok nc'' sz (filter (\<lambda>x. x \<noteq> d) (es @ f # fs))"
    if "dir_ok nc' sz (filter (\<lambda>x. x \<noteq> d) (es @ [f]))" for nc'
    using Cons.IH [of "es @ [f]" nc'] that Cons.prems(1,2,4,5) by simp
  show ?case
  proof (cases "f = d")
    case True
    with IH [of nc] Cons.prems(3) show ?thesis by (subst step) simp
  next
    case False
    let ?es = "filter (\<lambda>x. x \<noteq> d) es"
    have small: "int (length (dir_text ?es) + length f + 1) < sz"
      using Cons.prems(4) length_dir_text_filter [of "\<lambda>x. x \<noteq> d" es] by simp
    then have "grown sz ?es f = sz" and "\<not> exact_fit sz ?es f"
      by (auto simp: grown_def exact_fit_def)
    moreover have "entry_ok f" using Cons.prems(2) by simp
    moreover have "sz < 2 ^ 30" using Cons.prems(3) by (rule dir_okE)
    ultimately obtain nc' where
      "add_dentry_to_content e nc sz buff =
         Some (nc', sz, f @ NL # NUL # tl (drop (length f + 1) b0))"
      and nc': "dir_ok nc' sz (?es @ [f])"
      using add_dentry_append [OF Cons.prems(3), of f buff] buff f(4) Cons.prems(5) by metis
    with False IH [of nc'] show ?thesis by (subst step) simp
  qed
qed

lemma dir_ok_calloc:
  assumes "\<forall>n. alloc_ok e n" and "0 < sz" and "sz < 2 ^ 30"
  shows "dir_ok (calloc e NUL 1 (size_t sz)) sz []"
  using assms by (auto simp: dir_ok_def calloc_def)

text \<open>\<open>readdir\<close>'s loop over the same encoding.\<close>

lemma readdir_loop_entries:
  assumes "old = dir_text (es @ fs) @ NUL # r" and "\<forall>x\<in>set (es @ fs). entry_ok x"
  shows "readdir_loop old (length (dir_text (es @ fs))) (length (dir_text es)) filled = Some (filled @ fs)"
  using assms
proof (induction fs arbitrary: es filled)
  case Nil
  then show ?case by (subst readdir_loop.simps) simp
next
  case (Cons f fs)
  have f: "NL \<notin> set f" "NUL \<notin> set f" "length f < length (replicate 1024 NUL)"
    using Cons.prems(2) by (auto simp: entry_ok_def MAX_PATH_def)
  have old: "old = dir_text es @ f @ NL # dir_text fs @ NUL # r"
    using Cons.prems(1) by simp
  obtain buff where "get_next_entry old (length (dir_text es)) (replicate 1024 NUL) =
      Some (length (dir_text (es @ [f])), buff)" and "c_string buff = Some f"
    by (rule get_next_entry_line [OF old f(1,2,3)]) simp
  with Cons.IH [of "es @ [f]" "filled @ [f]"] Cons.prems show ?case
    by (subst readdir_loop.simps) simp
qed

subsection \<open>The interface\<close>

text \<open>
  What a directory promises its users: a list of names that grows at its end and from which
  a name is removed. \<open>room\<close> is the condition under which adding is safe.
\<close>

locale dentry_list =
  fixes inv :: "'s \<Rightarrow> bool" and names :: "'s \<Rightarrow> string list"
    and room :: "'s \<Rightarrow> string \<Rightarrow> bool"
    and add :: "'s \<Rightarrow> string \<Rightarrow> 's option" and without :: "'s \<Rightarrow> string \<Rightarrow> 's option"
  assumes add_ok: "inv s \<Longrightarrow> entry_ok d \<Longrightarrow> room s d \<Longrightarrow>
      \<exists>s'. add s d = Some s' \<and> inv s' \<and> names s' = names s @ [d]"
    and without_ok: "inv s \<Longrightarrow>
      \<exists>s'. without s d = Some s' \<and> inv s' \<and> names s' = filter (\<lambda>x. x \<noteq> d) (names s)"
begin

lemma add_without:
  assumes "inv s" and "entry_ok d" and "room s d" and "d \<notin> set (names s)"
  shows "\<exists>s'. add s d \<bind> (\<lambda>t. without t d) = Some s' \<and> inv s' \<and> names s' = names s"
proof -
  from add_ok [OF assms(1-3)] obtain t where t: "add s d = Some t" "inv t" "names t = names s @ [d]"
    by blast
  moreover have "filter (\<lambda>x. x \<noteq> d) (names s) = names s"
    using assms(4) by (intro filter_True) auto
  ultimately show ?thesis using without_ok [OF t(2), of d] by auto
qed

lemma add_distinct:
  assumes "inv s" and "entry_ok d" and "room s d" and "d \<notin> set (names s)" and "distinct (names s)"
  shows "\<exists>s'. add s d = Some s' \<and> inv s' \<and> distinct (names s') \<and>
           set (names s') = insert d (set (names s))"
  using add_ok [OF assms(1-3)] assms(4,5) by auto

end

text \<open>
  The directory of the code: a buffer and its recorded size, with the allocator. The copy
  that \<open>remove_inode\<close> makes of the parent's text is \<open>copy_without\<close>.
\<close>

type_synonym dentries = "fsys \<times> char block \<times> int"

definition buf_inv :: "dentries \<Rightarrow> bool" where
  "buf_inv s = (case s of (e, content, sz) \<Rightarrow> (\<forall>n. alloc_ok e n) \<and> (\<exists>es. dir_ok content sz es))"

definition buf_names :: "dentries \<Rightarrow> string list" where
  "buf_names s = (case s of (e, Mem m, sz) \<Rightarrow>
     (case c_string m of Some t \<Rightarrow> dir_lines [] t | None \<Rightarrow> []) | _ \<Rightarrow> [])"

definition buf_room :: "dentries \<Rightarrow> string \<Rightarrow> bool" where
  "buf_room s d = (case s of (e, content, sz) \<Rightarrow>
     \<not> exact_fit sz (buf_names s) d \<and> grown sz (buf_names s) d < 2 ^ 30)"

definition buf_add :: "dentries \<Rightarrow> string \<Rightarrow> dentries option" where
  "buf_add s d = (case s of (e, content, sz) \<Rightarrow>
     map_option (\<lambda>(content, sz, _). (e, content, sz))
       (add_dentry_to_content e content sz (d @ [NUL, NUL])))"

definition copy_without :: "dentries \<Rightarrow> string \<Rightarrow> dentries option" where
  "copy_without s d = (case s of (e, content, sz) \<Rightarrow> do {
     old \<leftarrow> deref content;
     old_text \<leftarrow> c_string old;
     (new_content, new_size) \<leftarrow>
       remove_loop e old (length old_text) d (calloc e NUL 1 (size_t sz)) sz 0;
     Some (e, new_content, new_size)
   })"

lemma buf_names_ok: "dir_ok content sz es \<Longrightarrow> buf_names (e, content, sz) = es"
  by (auto simp: buf_names_def dir_ok_def dir_lines_text entry_ok_def)

lemma buf_add_ok:
  assumes "buf_inv s" and "entry_ok d" and "buf_room s d"
  shows "\<exists>s'. buf_add s d = Some s' \<and> buf_inv s' \<and> buf_names s' = buf_names s @ [d]"
proof -
  obtain e c sz es where s: "s = (e, c, sz)" "dir_ok c sz es" "\<forall>n. alloc_ok e n"
    using assms(1) by (cases s) (auto simp: buf_inv_def)
  then obtain c' where c': "add_dentry_to_content e c sz (d @ [NUL, NUL]) =
      Some (c', grown sz es d, d @ NL # NUL # tl [NUL])" "dir_ok c' (grown sz es d) (es @ [d])"
    using add_dentry_append [OF s(2) assms(2), of "d @ [NUL, NUL]" "[NUL]" e] assms(3)
    by (auto simp: buf_room_def buf_names_ok)
  then have "buf_add s d = Some (e, c', grown sz es d)" using s(1) by (simp add: buf_add_def)
  with c'(2) s show ?thesis by (auto simp: buf_inv_def buf_names_ok)
qed

lemma copy_without_ok:
  assumes "buf_inv s"
  shows "\<exists>s'. copy_without s d = Some s' \<and> buf_inv s' \<and>
           buf_names s' = filter (\<lambda>x. x \<noteq> d) (buf_names s)"
proof -
  obtain e c sz es where s: "s = (e, c, sz)" "dir_ok c sz es" "\<forall>n. alloc_ok e n"
    using assms by (cases s) (auto simp: buf_inv_def)
  from s(2) obtain m where m: "c = Mem m" "sz = int (length m)" "c_string m = Some (dir_text es)"
    "length (dir_text es) < length m" "\<forall>x\<in>set es. entry_ok x" "sz < 2 ^ 30" by (rule dir_okE)
  from c_string_SomeD [OF m(3)] obtain r where r: "m = dir_text ([] @ es) @ NUL # r" by auto
  have "0 < sz" using m(2,4) by auto
  from dir_ok_calloc [OF s(3) this m(6)] have new: "dir_ok (calloc e NUL 1 (size_t sz)) sz
      (filter (\<lambda>x. x \<noteq> d) [])" by simp
  from remove_loop_filter [OF r _ new _ s(3)] m obtain c' where
    c': "remove_loop e m (length (dir_text es)) d (calloc e NUL 1 (size_t sz)) sz 0 = Some (c', sz)"
      "dir_ok c' sz (filter (\<lambda>x. x \<noteq> d) es)" by auto
  then have "copy_without s d = Some (e, c', sz)"
    using s(1) m(1,3) by (simp add: copy_without_def)
  with c'(2) s show ?thesis by (auto simp: buf_inv_def buf_names_ok)
qed

interpretation dentries: dentry_list buf_inv buf_names buf_room buf_add copy_without
  by unfold_locales (rule buf_add_ok copy_without_ok; assumption)+

end
