(* ===== verification/FisopTree.thy ===== *)
theory FisopTree
  imports FisopTable FisopDir
begin

text \<open>
  The directory tree. \<open>tree_ok\<close> is the invariant of the file system: every inode has a
  well-formed buffer, every path but the root has a live parent directory, and what a
  directory's buffer lists is exactly the set of base names of the live paths below it.
  The file proves what the inode and directory operations of \<open>fisopfs/file.c\<close> do to the
  map of paths, and that the invariant is kept.
\<close>

subsection \<open>Paths\<close>

definition parent_of :: "string \<Rightarrow> string" where
  "parent_of p = (case strrchr_idx p (CHR ''/'') of
     Some 0 \<Rightarrow> ''/'' | Some k \<Rightarrow> take k p | None \<Rightarrow> [])"

definition base_of :: "string \<Rightarrow> string" where
  "base_of p = (case strrchr_idx p (CHR ''/'') of Some k \<Rightarrow> drop (Suc k) p | None \<Rightarrow> p)"

definition valid_path :: "string \<Rightarrow> bool" where
  "valid_path p \<longleftrightarrow>
     (case strrchr_idx p (CHR ''/'') of None \<Rightarrow> False
      | Some k \<Rightarrow> k \<noteq> 1 \<and> drop (Suc k) p \<noteq> []) \<and>
     hd p = CHR ''/'' \<and> NL \<notin> set p \<and> NUL \<notin> set p \<and> length p < MAX_PATH"

definition join_path :: "string \<Rightarrow> string \<Rightarrow> string" where
  "join_path d b = (if d = ''/'' then ''/'' @ b else d @ ''/'' @ b)"

lemma valid_pathE:
  assumes "valid_path p"
  obtains k where "strrchr_idx p (CHR ''/'') = Some k" and "k \<noteq> 1" and "base_of p = drop (Suc k) p"
    and "base_of p \<noteq> []" and "parent_of p = (if k = 0 then ''/'' else take k p)"
    and "NUL \<notin> set p" and "length p < MAX_PATH" and "entry_ok (base_of p)" and "k < length p"
proof -
  from assms obtain k where k: "strrchr_idx p (CHR ''/'') = Some k" "k \<noteq> 1" "drop (Suc k) p \<noteq> []"
    by (auto simp: valid_path_def split: option.splits)
  have "set (drop (Suc k) p) \<subseteq> set p" by (rule set_drop_subset)
  with assms k have "entry_ok (base_of p)"
    by (auto simp: base_of_def entry_ok_def valid_path_def)
  with that k assms show ?thesis
    by (auto simp: base_of_def parent_of_def valid_path_def split: nat.splits)
qed

lemma valid_path_join: "valid_path p \<Longrightarrow> p = join_path (parent_of p) (base_of p)"
proof -
  assume v: "valid_path p"
  then obtain k where k: "strrchr_idx p (CHR ''/'') = Some k" "k \<noteq> 1" "base_of p = drop (Suc k) p"
    "parent_of p = (if k = 0 then ''/'' else take k p)" by (rule valid_pathE)
  have at: "k < length p" "p ! k = CHR ''/''" using strrchr_idx_SomeD [OF k(1)] by auto
  then have p: "p = take k p @ CHR ''/'' # drop (Suc k) p"
    by (metis append_take_drop_id Cons_nth_drop_Suc)
  have "take k p \<noteq> ''/''" if "k \<noteq> 0"
  proof
    assume "take k p = ''/''"
    then have "length (take k p) = 1" by simp
    with at that k(2) show False by simp
  qed
  with p k show ?thesis by (cases k) (auto simp: join_path_def)
qed

lemma valid_path_inj:
  "valid_path p \<Longrightarrow> valid_path q \<Longrightarrow> parent_of p = parent_of q \<Longrightarrow> base_of p = base_of q \<Longrightarrow> p = q"
  by (metis valid_path_join)

lemma root_not_valid [simp]: "\<not> valid_path ''/''"
  by (simp add: valid_path_def)

lemma parent_of_shorter: "valid_path p \<Longrightarrow> parent_of p \<noteq> p"
proof
  assume v: "valid_path p" and eq: "parent_of p = p"
  from v obtain k where k: "base_of p = drop (Suc k) p" "base_of p \<noteq> []"
    "parent_of p = (if k = 0 then ''/'' else take k p)" "k < length p" by (rule valid_pathE)
  show False
  proof (cases "k = 0")
    case True
    with k eq have "length p = 1" by simp
    with k show False by simp
  next
    case False
    with k eq have "length (take k p) = length p" by simp
    with k(4) show False by simp
  qed
qed

lemma get_parent_path_valid:
  assumes "valid_path p" and "\<forall>n. alloc_ok e n"
  shows "get_parent_path e p = Some (parent_of p)"
  using assms(2) by (rule_tac valid_pathE [OF assms(1)])
    (auto simp: get_parent_path_def split: nat.splits)

subsection \<open>The invariant\<close>

definition children :: "(string \<Rightarrow> inode option) \<Rightarrow> string \<Rightarrow> string set" where
  "children m d = {b. \<exists>q. m q \<noteq> None \<and> valid_path q \<and> parent_of q = d \<and> base_of q = b}"

definition entries :: "inode \<Rightarrow> string list" where
  "entries nd = (case i_content nd of
     Mem m \<Rightarrow> (case c_string m of Some t \<Rightarrow> dir_lines [] t | None \<Rightarrow> []) | _ \<Rightarrow> [])"

definition dir_node_ok :: "inode \<Rightarrow> bool" where
  "dir_node_ok nd \<longleftrightarrow> dir_ok (i_content nd) (i_size nd) (entries nd) \<and> distinct (entries nd)"

definition file_node_ok :: "inode \<Rightarrow> bool" where
  "file_node_ok nd \<longleftrightarrow>
     (\<exists>m. i_content nd = Mem m \<and> i_size nd \<le> int (length m) \<and> length m < 2 ^ 32) \<and>
     0 \<le> i_size nd \<and> i_size nd < 2 ^ 31"

definition node_ok :: "(string \<Rightarrow> inode option) \<Rightarrow> string \<Rightarrow> inode \<Rightarrow> bool" where
  "node_ok m p nd \<longleftrightarrow>
     (case i_type nd of
        INODE_DIR \<Rightarrow> dir_node_ok nd \<and> set (entries nd) = children m p
      | INODE_FILE \<Rightarrow> file_node_ok nd)"

definition is_dir :: "(string \<Rightarrow> inode option) \<Rightarrow> string \<Rightarrow> bool" where
  "is_dir m p \<longleftrightarrow> (\<exists>nd. m p = Some nd \<and> i_type nd = INODE_DIR)"

definition tree_ok :: "(string \<Rightarrow> inode option) \<Rightarrow> bool" where
  "tree_ok m \<longleftrightarrow> is_dir m ''/'' \<and>
     (\<forall>p nd. m p = Some nd \<longrightarrow> node_ok m p nd \<and> (p \<noteq> ''/'' \<longrightarrow> valid_path p \<and> is_dir m (parent_of p)))"

definition fs_inv :: "superblock \<Rightarrow> bool" where
  "fs_inv sb \<longleftrightarrow> (\<exists>ns bs. sb_rep sb ns bs \<and> uniq_paths ns bs \<and> tree_ok (live_map ns bs))"

lemma entries_dir_ok: "dir_ok (i_content nd) (i_size nd) es \<Longrightarrow> entries nd = es"
  by (auto simp: entries_def dir_ok_def dir_lines_text entry_ok_def)

lemma dir_ok_entries: "dir_node_ok nd \<Longrightarrow> dir_ok (i_content nd) (i_size nd) (entries nd)"
  by (simp add: dir_node_ok_def)

lemma tree_okD:
  assumes "tree_ok m" and "m p = Some nd"
  shows "node_ok m p nd" and "p \<noteq> ''/'' \<Longrightarrow> valid_path p" and "p \<noteq> ''/'' \<Longrightarrow> is_dir m (parent_of p)"
  using assms unfolding tree_ok_def by blast+

lemma children_upd_same:
  assumes "m p \<noteq> None"
  shows "children (m(p \<mapsto> nd)) d = children m d"
proof -
  have "(m(p \<mapsto> nd)) q \<noteq> None \<longleftrightarrow> m q \<noteq> None" for q using assms by simp
  then show ?thesis by (simp only: children_def)
qed

lemma children_insert:
  "m p = None \<Longrightarrow> valid_path p \<Longrightarrow>
     children (m(p \<mapsto> nd)) d = (if d = parent_of p then insert (base_of p) (children m d) else children m d)"
proof (rule set_eqI)
  fix b assume "m p = None" and v: "valid_path p"
  then show "b \<in> children (m(p \<mapsto> nd)) d \<longleftrightarrow>
      b \<in> (if d = parent_of p then insert (base_of p) (children m d) else children m d)"
    unfolding children_def by (cases "d = parent_of p") (simp_all, metis, metis)
qed

lemma children_delete:
  assumes "valid_path p" and "m p \<noteq> None"
  shows "children (m(p := None)) d =
     (if d = parent_of p then children m d - {base_of p} else children m d)"
proof -
  have "q = p" if "valid_path q" "parent_of q = parent_of p" "base_of q = base_of p" for q
    using valid_path_inj [OF that(1) assms(1)] that by simp
  then have "b \<in> children (m(p := None)) d \<longleftrightarrow>
      b \<in> (if d = parent_of p then children m d - {base_of p} else children m d)" for b
    unfolding children_def by (cases "d = parent_of p") (simp_all, metis, metis)
  then show ?thesis by blast
qed

subsection \<open>Creating an inode\<close>

definition new_inode :: "fsys \<Rightarrow> string \<Rightarrow> int \<Rightarrow> inode_type \<Rightarrow> inode" where
  "new_inode e path mode type =
     \<lparr>i_path = path, i_content = Mem (replicate INITIAL_CONTENT_LENGTH NUL),
      i_size = int INITIAL_CONTENT_LENGTH, i_type = type, last_access = now e,
      last_modification = now e, creation_time = now e,
      i_group = getgid e, i_owner = getuid e, permissions = mode\<rparr>"

lemma new_inode_sel [simp]:
  "i_path (new_inode e p mode t) = p" "i_type (new_inode e p mode t) = t"
  by (simp_all add: new_inode_def)

lemma new_inode_entries: "dir_ok (i_content (new_inode e p mode t)) (i_size (new_inode e p mode t)) []"
  by (auto simp: new_inode_def dir_ok_def INITIAL_CONTENT_LENGTH_def)

lemma grow_table_ok:
  assumes rep: "sb_rep sb ns bs" and alloc: "\<forall>n. alloc_ok e n"
  shows "\<exists>sb'. grow_table e sb = Some (sb', 0) \<and>
     sb_rep sb' (ns @ replicate INITIAL_INODES_AMOUNT blank_inode)
                (bs @ replicate INITIAL_INODES_AMOUNT 0)"
proof -
  have rc: "recalloc e z esz b (length xs) (length xs + k) = Some (Mem (xs @ replicate k z))"
    if "b = Mem xs \<or> xs = [] \<and> b = Null" for z :: 'a and esz b xs k
    using that alloc by (cases "xs = []")
      (auto simp: recalloc_def calloc_def mem_read_def mem_write_def)
  have "nat (inode_amount sb) = length ns" "nat (inode_amount sb) = length bs"
    using rep by (auto simp: sb_rep_def)
  moreover have "inodes sb = Mem ns \<or> ns = [] \<and> inodes sb = Null"
    "inode_bitmap sb = Mem bs \<or> bs = [] \<and> inode_bitmap sb = Null"
    using rep by (auto simp: sb_rep_def)
  ultimately show ?thesis
    using rc [of "inodes sb" ns blank_inode sizeof_inode INITIAL_INODES_AMOUNT] rep
      rc [of "inode_bitmap sb" bs 0 sizeof_int INITIAL_INODES_AMOUNT]
    by (auto simp: grow_table_def Let_def sb_rep_def)
qed

lemma fill_inode_ok:
  assumes rep: "sb_rep sb ns bs" and i: "i < length ns" and p: "length p < MAX_PATH"
    and alloc: "\<forall>n. alloc_ok e n"
  shows "\<exists>sb'. fill_inode e sb i p mode t = Some (sb', int i) \<and>
     sb_rep sb' (ns[i := new_inode e p mode t]) (bs[i := 1])"
proof -
  let ?m = "NUL # replicate 1023 NUL"
  have z: "replicate INITIAL_CONTENT_LENGTH NUL = ?m"
    using replicate_Suc [of 1023 NUL] by (simp add: INITIAL_CONTENT_LENGTH_def)
  have all_fields: "nd\<lparr>i_path := p, i_content := Mem ?m, i_type := t, i_size := 1024,
      last_access := now e, last_modification := now e, creation_time := now e,
      i_group := getgid e, i_owner := getuid e, permissions := mode\<rparr> = new_inode e p mode t" for nd
    by (cases nd) (simp add: new_inode_def z [symmetric], simp add: INITIAL_CONTENT_LENGTH_def)
  have "\<exists>sb'. fill_inode e sb i p mode t = Some (sb', int i) \<and> sb' =
      sb\<lparr>inodes := Mem (ns[i := new_inode e p mode t]), inode_bitmap := Mem (bs[i := 1])\<rparr>"
    using alloc p i
    by (simp add: fill_inode_def sb_rep_get [OF rep i] calloc_def z mem_write_def
        all_fields [unfolded inode.simps] INITIAL_CONTENT_LENGTH_def [THEN arg_cong [where f = int]])
  then show ?thesis using rep by (auto simp: sb_rep_def)
qed

lemma create_inode_ok:
  assumes rep: "sb_rep sb ns bs" and u: "uniq_paths ns bs" and f: "live_map ns bs p = None"
    and p: "length p < MAX_PATH" and alloc: "\<forall>n. alloc_ok e n"
  obtains sb' ns' bs' i where "create_inode e sb p mode t = Some (sb', int i)"
    and "sb_rep sb' ns' bs'" and "uniq_paths ns' bs'"
    and "live_map ns' bs' = (live_map ns bs)(p \<mapsto> new_inode e p mode t)"
proof -
  obtain k where k: "search_next_free_inode sb = Some k" "k \<le> length ns" "k < length ns \<Longrightarrow> bs ! k = 0"
    using search_next_free_inode_spec [OF rep] by metis
  have am: "inode_amount sb = int (length ns)" and len: "length bs = length ns"
    using rep by (auto simp: sb_rep_def)
  have long: "\<not> MAX_PATH < length p" using p by simp
  show thesis
  proof (cases "k = length ns")
    case False
    with k have i: "k < length ns" by simp
    from fill_inode_ok [OF rep i p alloc] obtain sb' where
      "fill_inode e sb k p mode t = Some (sb', int k)"
      "sb_rep sb' (ns[k := new_inode e p mode t]) (bs[k := 1])" by blast
    moreover have "create_inode e sb p mode t = fill_inode e sb k p mode t"
      using i k long am by (simp add: create_inode_def)
    ultimately show thesis
      using that live_map_claim [OF u i _ len f, of "new_inode e p mode t" 1] k(3) [OF i] by simp
  next
    case True
    let ?ns = "ns @ replicate INITIAL_INODES_AMOUNT blank_inode"
    let ?bs = "bs @ replicate INITIAL_INODES_AMOUNT 0"
    from grow_table_ok [OF rep alloc] obtain sb1 where
      g: "grow_table e sb = Some (sb1, 0)" and rep1: "sb_rep sb1 ?ns ?bs" by blast
    have i: "k < length ?ns" and free: "?bs ! k = 0"
      using True len by (simp_all add: INITIAL_INODES_AMOUNT_def nth_append)
    from fill_inode_ok [OF rep1 i p alloc] obtain sb' where
      "fill_inode e sb1 k p mode t = Some (sb', int k)"
      "sb_rep sb' (?ns[k := new_inode e p mode t]) (?bs[k := 1])" by blast
    moreover have "create_inode e sb p mode t = fill_inode e sb1 k p mode t"
      using True k long am g by (simp add: create_inode_def)
    moreover have "uniq_paths ?ns ?bs" and "live_map ?ns ?bs = live_map ns bs"
      using live_map_grow [OF len, of "replicate INITIAL_INODES_AMOUNT blank_inode"] u by simp_all
    ultimately show thesis
      using that live_map_claim [of ?ns ?bs k p "new_inode e p mode t" 1] i free len f by simp
  qed
qed

subsection \<open>Linking and unlinking\<close>

lemma add_dentry_to_parent_dir_ok:
  assumes rep: "sb_rep sb ns bs" and u: "uniq_paths ns bs" and v: "valid_path p"
    and dn: "live_map ns bs (parent_of p) = Some dn" "i_type dn = INODE_DIR" "dir_node_ok dn"
    and room: "\<not> exact_fit (i_size dn) (entries dn) (base_of p)"
              "grown (i_size dn) (entries dn) (base_of p) < 2 ^ 30"
    and alloc: "\<forall>n. alloc_ok e n" and path: "path = p @ NUL # slack" "slack \<noteq> []"
  obtains sb' ns' dn' where
    "add_dentry_to_parent_dir e sb path = Some (sb', 0, p @ NL # NUL # tl slack)"
    and "sb_rep sb' ns' bs" and "uniq_paths ns' bs"
    and "live_map ns' bs = (live_map ns bs)(parent_of p \<mapsto> dn')"
    and "dir_ok (i_content dn') (i_size dn') (entries dn @ [base_of p])"
    and "dn' = dn\<lparr>i_content := i_content dn', i_size := i_size dn'\<rparr>"
proof -
  from v obtain k where k: "strrchr_idx p (CHR ''/'') = Some k" "base_of p = drop (Suc k) p"
    "NUL \<notin> set p" "entry_ok (base_of p)" "k < length p" by (rule valid_pathE)
  from dn obtain j where j: "slot ns bs (parent_of p) = Some j" "ns ! j = dn"
    by (auto simp: live_map_def)
  have jl: "j < length ns" using slot_SomeD [OF j(1)] by simp
  have tail: "drop (Suc k) path = base_of p @ NUL # slack"
    using k path by simp
  obtain content' where add: "add_dentry_to_content e (i_content dn) (i_size dn) (drop (Suc k) path) =
      Some (content', grown (i_size dn) (entries dn) (base_of p), base_of p @ NL # NUL # tl slack)"
    and ok': "dir_ok content' (grown (i_size dn) (entries dn) (base_of p)) (entries dn @ [base_of p])"
    using add_dentry_append [OF dir_ok_entries [OF dn(3)] k(4) tail path(2) room alloc] by blast
  let ?dn = "dn\<lparr>i_content := content', i_size := grown (i_size dn) (entries dn) (base_of p)\<rparr>"
  have whole: "take (Suc k) path @ base_of p @ NL # NUL # tl slack = p @ NL # NUL # tl slack"
    using k path by (simp add: k(2) flip: append_assoc)
  have "add_dentry_to_parent_dir e sb path =
      Some (sb\<lparr>inodes := Mem (ns[j := ?dn])\<rparr>, 0, p @ NL # NUL # tl slack)"
    using path(1) k(1,3) v alloc j dn(2) add whole
    by (simp add: add_dentry_to_parent_dir_def get_parent_path_valid search_inode_eq [OF rep]
        sb_rep_get [OF rep jl])
  moreover have "live_map (ns[j := ?dn]) bs = (live_map ns bs)(parent_of p \<mapsto> ?dn)"
    "uniq_paths (ns[j := ?dn]) bs"
    using live_map_store [OF u j(1), of ?dn] slot_SomeD [OF j(1)] j(2) by simp_all
  ultimately show thesis
    using that [of _ "ns[j := ?dn]" ?dn] sb_rep_upd(1) [OF rep] ok' by simp
qed

lemma remove_inode_ok:
  assumes rep: "sb_rep sb ns bs" and u: "uniq_paths ns bs" and v: "valid_path p"
    and i: "slot ns bs p = Some i" and content: "i_content (ns ! i) = Mem m"
    and dn: "live_map ns bs (parent_of p) = Some dn" "i_type dn = INODE_DIR" "dir_node_ok dn"
    and alloc: "\<forall>n. alloc_ok e n"
  obtains sb' ns' dn' where "remove_inode e sb p i = Some sb'"
    and "sb_rep sb' ns' (bs[i := 0])" and "uniq_paths ns' (bs[i := 0])"
    and "live_map ns' (bs[i := 0]) = (live_map ns bs)(p := None, parent_of p \<mapsto> dn')"
    and "dir_ok (i_content dn') (i_size dn') (filter (\<lambda>x. x \<noteq> base_of p) (entries dn))"
    and "dn' = dn\<lparr>i_content := i_content dn', i_size := i_size dn\<rparr>"
proof -
  let ?bs = "bs[i := 0]"
  have len: "length bs = length ns" using rep by (simp add: sb_rep_def)
  from v obtain k where k: "strrchr_idx p (CHR ''/'') = Some k" "base_of p = drop (Suc k) p"
    by (rule valid_pathE)
  note il = slot_SomeD [OF i]
  from dn obtain j where j: "slot ns bs (parent_of p) = Some j" "ns ! j = dn"
    by (auto simp: live_map_def)
  have jl: "j < length ns" using slot_SomeD [OF j(1)] by simp
  have ij: "i \<noteq> j" using i j parent_of_shorter [OF v] il slot_SomeD [OF j(1)] by auto
  let ?sb1 = "sb\<lparr>inode_bitmap := Mem ?bs\<rparr>"
  have rep1: "sb_rep ?sb1 ns ?bs" by (rule sb_rep_upd(2) [OF rep])
  have slot1: "slot ns ?bs (parent_of p) = Some j"
    using slot_clear [OF u i len] parent_of_shorter [OF v] j by simp
  from dir_ok_entries [OF dn(3)] obtain old where old: "i_content dn = Mem old"
    "i_size dn = int (length old)" "c_string old = Some (dir_text (entries dn))"
    "length (dir_text (entries dn)) < length old" "\<forall>x\<in>set (entries dn). entry_ok x" "i_size dn < 2 ^ 30"
    by (rule dir_okE)
  from c_string_SomeD [OF old(3)] obtain r where r: "old = dir_text ([] @ entries dn) @ NUL # r"
    by auto
  have fresh: "dir_ok (calloc e NUL 1 (size_t (i_size dn))) (i_size dn) (filter (\<lambda>x. x \<noteq> base_of p) [])"
    using dir_ok_calloc [OF alloc, of "i_size dn"] old(2,4,6) by (cases "old = []") auto
  have small: "int (length (dir_text ([] @ entries dn))) < i_size dn" using old by simp
  from remove_loop_filter [OF r _ fresh small alloc] old(5) obtain nc where
    loop: "remove_loop e old (length (dir_text (entries dn))) (base_of p)
        (calloc e NUL 1 (size_t (i_size dn))) (i_size dn) 0 = Some (nc, i_size dn)"
    and ok': "dir_ok nc (i_size dn) (filter (\<lambda>x. x \<noteq> base_of p) (entries dn))" by auto
  let ?dn = "dn\<lparr>i_content := nc, i_size := i_size dn\<rparr>"
  let ?ns = "ns[i := (ns ! i)\<lparr>i_content := Freed\<rparr>, j := ?dn]"
  have "remove_inode e sb p i = Some (?sb1\<lparr>inodes := Mem ?ns\<rparr>)"
    using il jl ij k j(2) old content loop v alloc len
    by (simp add: remove_inode_def sb_rep_get [OF rep] get_parent_def get_parent_path_valid
        search_inode_eq [OF rep1] slot1 sb_rep_get [OF rep1 jl, simplified] cmem_simps
        list_update_swap [of j i])
  moreover have "sb_rep (?sb1\<lparr>inodes := Mem ?ns\<rparr>) ?ns ?bs"
    using rep len il jl by (auto simp: sb_rep_def)
  moreover
  have dead: "live_map (ns[i := (ns ! i)\<lparr>i_content := Freed\<rparr>]) ?bs = (live_map ns bs)(p := None)"
    "uniq_paths (ns[i := (ns ! i)\<lparr>i_content := Freed\<rparr>]) ?bs"
    using live_map_store_dead [of ns ?bs i] live_map_clear [OF u i len] il len by simp_all
  have "slot (ns[i := (ns ! i)\<lparr>i_content := Freed\<rparr>]) ?bs (parent_of p) = Some j"
  proof -
    have "live_map (ns[i := (ns ! i)\<lparr>i_content := Freed\<rparr>]) ?bs (parent_of p) = Some dn"
      using dead(1) dn(1) parent_of_shorter [OF v] by simp
    moreover have "?bs ! j \<noteq> 0" "i_path (ns[i := (ns ! i)\<lparr>i_content := Freed\<rparr>] ! j) = parent_of p"
      using ij slot_SomeD [OF j(1)] by auto
    ultimately show ?thesis using slot_uniq [OF dead(2), of j] jl by simp
  qed
  from live_map_store [OF dead(2) this, of ?dn] slot_SomeD [OF j(1)] j(2) dead(1)
  have "live_map ?ns ?bs = (live_map ns bs)(p := None, parent_of p \<mapsto> ?dn)" "uniq_paths ?ns ?bs"
    by simp_all
  ultimately show thesis using that [of _ ?ns ?dn] ok' by simp
qed

subsection \<open>The invariant under the map updates\<close>

lemma is_dir_upd:
  "m q = Some nd \<Longrightarrow> i_type nd' = i_type nd \<Longrightarrow> is_dir (m(q \<mapsto> nd')) d \<longleftrightarrow> is_dir m d"
  by (auto simp: is_dir_def)

text \<open>A file's buffer, size or times change: nothing else depends on them.\<close>

lemma tree_ok_file_upd:
  assumes t: "tree_ok m" and p: "m p = Some nd" "i_type nd = INODE_FILE" "i_type nd' = INODE_FILE"
    and ok: "file_node_ok nd'"
  shows "tree_ok (m(p \<mapsto> nd'))"
proof -
  have dirs: "is_dir (m(p \<mapsto> nd')) d \<longleftrightarrow> is_dir m d" for d
    using is_dir_upd [of m p nd nd'] p by simp
  have ch: "children (m(p \<mapsto> nd')) d = children m d" for d
    using children_upd_same [of m p] p by simp
  show ?thesis
    using t p ok unfolding tree_ok_def node_ok_def dirs ch
    by (auto simp: node_ok_def split: inode_type.splits if_splits)
qed

lemma tree_ok_times_upd:
  assumes t: "tree_ok m" and p: "m p = Some nd"
    and nd': "i_type nd' = i_type nd" "i_content nd' = i_content nd" "i_size nd' = i_size nd"
  shows "tree_ok (m(p \<mapsto> nd'))"
proof -
  have dirs: "is_dir (m(p \<mapsto> nd')) d \<longleftrightarrow> is_dir m d" for d
    using is_dir_upd [of m p nd nd'] p nd' by simp
  have ch: "children (m(p \<mapsto> nd')) d = children m d" for d
    using children_upd_same [of m p] p by simp
  have "entries nd' = entries nd" using nd' by (simp add: entries_def)
  then have "node_ok m p nd' = node_ok m p nd"
    using nd' by (simp add: node_ok_def dir_node_ok_def file_node_ok_def split: inode_type.split)
  then show ?thesis
    using t p unfolding tree_ok_def node_ok_def dirs ch by (auto split: if_splits)
qed

text \<open>Claiming an inode and appending its name to its parent.\<close>

lemma tree_ok_insert:
  assumes t: "tree_ok m" and f: "m p = None" and v: "valid_path p"
    and dn: "m (parent_of p) = Some dn" "i_type dn = INODE_DIR"
    and nd: "i_type nd = INODE_FILE \<and> file_node_ok nd \<or>
             i_type nd = INODE_DIR \<and> dir_ok (i_content nd) (i_size nd) []"
    and dn': "i_type dn' = INODE_DIR" "dir_ok (i_content dn') (i_size dn') (entries dn @ [base_of p])"
  shows "tree_ok (m(p \<mapsto> nd, parent_of p \<mapsto> dn'))"
proof -
  let ?m = "m(p \<mapsto> nd, parent_of p \<mapsto> dn')"
  have pp: "parent_of p \<noteq> p" by (rule parent_of_shorter [OF v])
  have ch: "children ?m d =
      (if d = parent_of p then insert (base_of p) (children m d) else children m d)" for d
    using children_upd_same [of "m(p \<mapsto> nd)" "parent_of p" dn' d] children_insert [of m p, OF f v] dn pp by simp
  have dirs: "is_dir m d \<Longrightarrow> is_dir ?m d" for d
    using f pp dn dn' by (auto simp: is_dir_def)
  have dnode: "dir_node_ok dn" "set (entries dn) = children m (parent_of p)"
    using tree_okD(1) [OF t dn(1)] dn(2) by (auto simp: node_ok_def)
  have "base_of p \<notin> children m (parent_of p)"
    using f valid_path_inj [OF _ v] unfolding children_def by fastforce
  with dnode dn' entries_dir_ok [OF dn'(2)]
  have dn_ok: "node_ok ?m (parent_of p) dn'"
    by (auto simp: node_ok_def dir_node_ok_def ch)
  have no_child: "children m p = {}"
  proof (rule ccontr)
    assume "children m p \<noteq> {}"
    then obtain q y where "m q = Some y" "valid_path q" "parent_of q = p"
      by (auto simp: children_def)
    with tree_okD(3) [OF t, of q] f show False by (force simp: is_dir_def)
  qed
  have nd_ok: "node_ok ?m p nd"
    using nd no_child pp entries_dir_ok [of nd "[]"]
    by (auto simp: node_ok_def ch dir_node_ok_def)
  have old: "node_ok ?m q x" if "m q = Some x" "q \<noteq> parent_of p" for q x
    using tree_okD(1) [OF t that(1)] that(2) by (simp add: node_ok_def ch split: inode_type.splits)
  show ?thesis
    unfolding tree_ok_def
  proof (intro conjI allI impI)
    show "is_dir ?m ''/''" using t dirs by (simp add: tree_ok_def)
  next
    fix q x assume x: "?m q = Some x"
    then show "node_ok ?m q x"
      using dn_ok nd_ok old [of q] by (cases "q = parent_of p"; cases "q = p") auto
  next
    fix q x assume x: "?m q = Some x" and r: "q \<noteq> ''/''"
    show "valid_path q"
      using x r v tree_okD(2) [OF t, of q] tree_okD(2) [OF t dn(1)]
      by (cases "q = parent_of p"; cases "q = p") auto
    have "is_dir m (parent_of q)" if "q \<noteq> p"
      using x r that tree_okD(3) [OF t, of q] tree_okD(3) [OF t dn(1)]
      by (cases "q = parent_of p") auto
    moreover have "is_dir m (parent_of p)" using dn by (simp add: is_dir_def)
    ultimately show "is_dir ?m (parent_of q)" using dirs by (cases "q = p") auto
  qed
qed

text \<open>Removing an inode without children and its name from its parent.\<close>

lemma tree_ok_delete:
  assumes t: "tree_ok m" and p: "m p \<noteq> None" and v: "valid_path p" and nc: "children m p = {}"
    and dn: "m (parent_of p) = Some dn" "i_type dn = INODE_DIR"
    and dn': "i_type dn' = INODE_DIR"
      "dir_ok (i_content dn') (i_size dn') (filter (\<lambda>x. x \<noteq> base_of p) (entries dn))"
  shows "tree_ok (m(p := None, parent_of p \<mapsto> dn'))"
proof -
  let ?m = "m(p := None, parent_of p \<mapsto> dn')"
  have pp: "parent_of p \<noteq> p" by (rule parent_of_shorter [OF v])
  have ch: "children ?m d =
      (if d = parent_of p then children m d - {base_of p} else children m d)" for d
    using children_upd_same [of "m(p := None)" "parent_of p" dn' d] children_delete [of p m d, OF v p]
      dn pp by simp
  have dirs: "is_dir m d \<Longrightarrow> d \<noteq> p \<Longrightarrow> is_dir ?m d" for d
    using pp dn dn' by (auto simp: is_dir_def)
  have dnode: "dir_node_ok dn" "set (entries dn) = children m (parent_of p)"
    using tree_okD(1) [OF t dn(1)] dn(2) by (auto simp: node_ok_def)
  with dn' entries_dir_ok [OF dn'(2)]
  have dn_ok: "node_ok ?m (parent_of p) dn'"
    by (auto simp: node_ok_def dir_node_ok_def ch)
  have old: "node_ok ?m q x" if "m q = Some x" "q \<noteq> parent_of p" for q x
    using tree_okD(1) [OF t that(1)] that(2) by (simp add: node_ok_def ch split: inode_type.splits)
  have not_parent: "parent_of q \<noteq> p" if "m q \<noteq> None" "valid_path q" for q
    using nc that unfolding children_def by blast
  show ?thesis
    unfolding tree_ok_def
  proof (intro conjI allI impI)
    have "p \<noteq> ''/''" using v root_not_valid by blast
    then show "is_dir ?m ''/''" using t dirs [of "''/''"] unfolding tree_ok_def by simp
  next
    fix q x assume x: "?m q = Some x"
    then show "node_ok ?m q x"
      using dn_ok old [of q] by (cases "q = parent_of p"; cases "q = p") auto
  next
    fix q x assume x: "?m q = Some x" and r: "q \<noteq> ''/''"
    then obtain y where y: "m q = Some y" "q \<noteq> p"
      using dn pp by (cases "q = parent_of p"; cases "q = p") auto
    from tree_okD(2) [OF t y(1) r] show vq: "valid_path q" .
    from tree_okD(3) [OF t y(1) r] not_parent [OF _ vq] y(1)
    show "is_dir ?m (parent_of q)" using dirs by simp
  qed
qed

end
