(* ===== verification/FisopSpec.thy ===== *)
theory FisopSpec
  imports FisopTree
begin

text \<open>
  What each handler of \<open>fisopfs/fisopfs.c\<close> does to a file system that satisfies the
  invariant, on every branch: the result code, the map of paths afterwards, and that the
  invariant is kept. A handler's result \<open>Some\<close> also says that it is memory safe. The
  step relation \<open>fs_step\<close> collects the calls FUSE makes.
\<close>

subsection \<open>Lookups\<close>

lemma fs_invE:
  assumes "fs_inv sb"
  obtains ns bs where "sb_rep sb ns bs" and "uniq_paths ns bs" and "tree_ok (live_map ns bs)"
    and "fs_map sb = live_map ns bs"
  using assms fs_map_rep unfolding fs_inv_def by blast

lemma fs_invI:
  "sb_rep sb ns bs \<Longrightarrow> uniq_paths ns bs \<Longrightarrow> live_map ns bs = m \<Longrightarrow> tree_ok m \<Longrightarrow> fs_inv sb"
  unfolding fs_inv_def by blast

lemma search_missing:
  "sb_rep sb ns bs \<Longrightarrow> live_map ns bs p = None \<Longrightarrow> search_inode sb p = Some ERROR"
  by (simp add: search_inode_eq live_map_None_iff)

lemma search_found:
  assumes "sb_rep sb ns bs" and "live_map ns bs p = Some nd"
  obtains i where "search_inode sb p = Some (int i)" and "slot ns bs p = Some i"
    and "i < length ns" and "ns ! i = nd" and "arr_get (inodes sb) i = Some nd"
proof -
  from assms(2) obtain i where i: "slot ns bs p = Some i" "ns ! i = nd"
    by (auto simp: live_map_def)
  with slot_SomeD [OF i(1)] that assms(1) show ?thesis
    by (simp add: search_inode_eq sb_rep_get)
qed

text \<open>A missing path is \<open>-ENOENT\<close> in every handler that looks one up, and changes nothing.\<close>

lemma missing_path:
  assumes "fs_inv sb" and "fs_map sb p = None"
  shows "fisopfs_read e sb p sz off = Some (sb, - ENOENT, [])"
    and "fisopfs_write e sb p buf off = Some (sb, - ENOENT)"
    and "fisopfs_truncate e sb p off = Some (sb, - ENOENT)"
    and "fisopfs_utimens sb p t0 t1 = Some (sb, - ENOENT)"
    and "fisopfs_unlink e sb p = Some (sb, - ENOENT)"
    and "fisopfs_rmdir e sb p = Some (sb, - ENOENT)"
    and "fisopfs_readdir sb p o' = Some (- ENOENT, [''.'', ''..''])"
    and "length p < MAX_PATH \<Longrightarrow> NL \<notin> set p \<Longrightarrow> fisopfs_getattr sb p = Some (- ENOENT, None)"
proof -
  from assms obtain ns bs where rep: "sb_rep sb ns bs" "live_map ns bs p = None"
    by (metis fs_invE)
  note s = search_missing [OF rep]
  show "fisopfs_read e sb p sz off = Some (sb, - ENOENT, [])"
    "fisopfs_write e sb p buf off = Some (sb, - ENOENT)"
    "fisopfs_truncate e sb p off = Some (sb, - ENOENT)"
    "fisopfs_utimens sb p t0 t1 = Some (sb, - ENOENT)"
    "fisopfs_unlink e sb p = Some (sb, - ENOENT)"
    "fisopfs_rmdir e sb p = Some (sb, - ENOENT)"
    "fisopfs_readdir sb p o' = Some (- ENOENT, [''.'', ''..''])"
    by (simp_all add: fisopfs_read_def fisopfs_write_def fisopfs_truncate_def fisopfs_utimens_def
        fisopfs_unlink_def fisopfs_rmdir_def fisopfs_readdir_def s)
  show "fisopfs_getattr sb p = Some (- ENOENT, None)" if "length p < MAX_PATH" "NL \<notin> set p"
  proof -
    have "strip_newline_character p = p"
      using that(2) by (simp add: strip_newline_character.simps strchr_idx_None_iff [THEN iffD2])
    with that(1) show ?thesis by (simp add: fisopfs_getattr_def s)
  qed
qed

text \<open>The wrong kind of inode is refused, and nothing changes.\<close>

lemma wrong_type:
  assumes "fs_inv sb" and "fs_map sb p = Some nd"
  shows "i_type nd = INODE_DIR \<Longrightarrow> fisopfs_read e sb p sz off = Some (sb, - EISDIR, [])"
    and "i_type nd = INODE_DIR \<Longrightarrow> fisopfs_write e sb p buf off = Some (sb, - EISDIR)"
    and "i_type nd = INODE_DIR \<Longrightarrow> fisopfs_truncate e sb p off = Some (sb, - EISDIR)"
    and "i_type nd = INODE_DIR \<Longrightarrow> fisopfs_unlink e sb p = Some (sb, - EISDIR)"
    and "i_type nd = INODE_FILE \<Longrightarrow> fisopfs_rmdir e sb p = Some (sb, - ENOTDIR)"
    and "i_type nd = INODE_FILE \<Longrightarrow> fisopfs_readdir sb p o' = Some (- ENOTDIR, [''.'', ''..''])"
proof -
  from assms obtain ns bs where rep: "sb_rep sb ns bs" "live_map ns bs p = Some nd"
    by (metis fs_invE)
  then obtain i where "search_inode sb p = Some (int i)" "arr_get (inodes sb) i = Some nd"
    by (rule search_found)
  then show "i_type nd = INODE_DIR \<Longrightarrow> fisopfs_read e sb p sz off = Some (sb, - EISDIR, [])"
    "i_type nd = INODE_DIR \<Longrightarrow> fisopfs_write e sb p buf off = Some (sb, - EISDIR)"
    "i_type nd = INODE_DIR \<Longrightarrow> fisopfs_truncate e sb p off = Some (sb, - EISDIR)"
    "i_type nd = INODE_DIR \<Longrightarrow> fisopfs_unlink e sb p = Some (sb, - EISDIR)"
    "i_type nd = INODE_FILE \<Longrightarrow> fisopfs_rmdir e sb p = Some (sb, - ENOTDIR)"
    "i_type nd = INODE_FILE \<Longrightarrow> fisopfs_readdir sb p o' = Some (- ENOTDIR, [''.'', ''..''])"
    by (simp_all add: fisopfs_read_def fisopfs_write_def fisopfs_truncate_def
        fisopfs_unlink_def fisopfs_rmdir_def fisopfs_readdir_def)
qed

subsection \<open>Creating\<close>

text \<open>What FUSE guarantees of a creation: a fresh canonical path below a live directory.\<close>

definition can_create :: "superblock \<Rightarrow> string \<Rightarrow> bool" where
  "can_create sb p \<longleftrightarrow> valid_path p \<and> fs_map sb p = None \<and>
     (case fs_map sb (parent_of p) of None \<Rightarrow> False
      | Some dn \<Rightarrow> i_type dn = INODE_DIR \<and> \<not> exact_fit (i_size dn) (entries dn) (base_of p) \<and>
          grown (i_size dn) (entries dn) (base_of p) < 2 ^ 30)"

lemma make_inode_spec:
  assumes inv: "fs_inv sb" and c: "can_create sb p" and alloc: "\<forall>n. alloc_ok e n"
    and path: "path = p @ NUL # slack" "slack \<noteq> []"
  obtains sb' dn dn' where "make_inode e sb path mode t = Some (sb', 0, p @ NL # NUL # tl slack)"
    and "fs_inv sb'" and "fs_map sb (parent_of p) = Some dn"
    and "fs_map sb' = (fs_map sb)(p \<mapsto> new_inode e p mode t, parent_of p \<mapsto> dn')"
    and "entries dn' = entries dn @ [base_of p]"
    and "dn' = dn\<lparr>i_content := i_content dn', i_size := i_size dn'\<rparr>"
proof -
  from inv obtain ns bs where rep: "sb_rep sb ns bs" and u: "uniq_paths ns bs"
    and t: "tree_ok (live_map ns bs)" and m: "fs_map sb = live_map ns bs" by (rule fs_invE)
  from c m obtain dn where v: "valid_path p" and f: "live_map ns bs p = None"
    and dn: "live_map ns bs (parent_of p) = Some dn" "i_type dn = INODE_DIR"
    and room: "\<not> exact_fit (i_size dn) (entries dn) (base_of p)"
      "grown (i_size dn) (entries dn) (base_of p) < 2 ^ 30"
    by (auto simp: can_create_def split: option.splits)
  from v have p: "length p < MAX_PATH" "NUL \<notin> set p" by (auto elim: valid_pathE)
  let ?nd = "new_inode e p mode t"
  obtain sb1 ns1 bs1 i where cr: "create_inode e sb p mode t = Some (sb1, int i)"
    and rep1: "sb_rep sb1 ns1 bs1" and u1: "uniq_paths ns1 bs1"
    and m1: "live_map ns1 bs1 = (live_map ns bs)(p \<mapsto> ?nd)"
    by (rule create_inode_ok [OF rep u f p(1) alloc])
  have dn1: "live_map ns1 bs1 (parent_of p) = Some dn"
    using m1 dn parent_of_shorter [OF v] by simp
  have ok: "dir_node_ok dn" using tree_okD(1) [OF t dn(1)] dn(2) by (simp add: node_ok_def)
  obtain sb2 ns2 dn' where
    add: "add_dentry_to_parent_dir e sb1 path = Some (sb2, 0, p @ NL # NUL # tl slack)"
    and rep2: "sb_rep sb2 ns2 bs1" and u2: "uniq_paths ns2 bs1"
    and m2: "live_map ns2 bs1 = (live_map ns1 bs1)(parent_of p \<mapsto> dn')"
    and dn': "dir_ok (i_content dn') (i_size dn') (entries dn @ [base_of p])"
      "dn' = dn\<lparr>i_content := i_content dn', i_size := i_size dn'\<rparr>"
    by (rule add_dentry_to_parent_dir_ok [OF rep1 u1 v dn1 dn(2) ok room alloc path])
  have "make_inode e sb path mode t = Some (sb2, 0, p @ NL # NUL # tl slack)"
    using path(1) p cr add by (simp add: make_inode_def)
  moreover have "i_type dn' = INODE_DIR"
    using dn(2) dn'(2) by (metis inode.ext_inject inode.surjective inode.update_convs(2,3))
  then have "tree_ok ((live_map ns bs)(p \<mapsto> ?nd, parent_of p \<mapsto> dn'))"
    using tree_ok_insert [OF t f v dn _ _ dn'(1), of ?nd] new_inode_entries [of e p mode t]
    by (cases t) (auto simp: new_inode_def file_node_ok_def INITIAL_CONTENT_LENGTH_def)
  with m1 have "fs_inv sb2" by (intro fs_invI [OF rep2 u2 m2]) simp
  ultimately show thesis
    using that [of sb2 dn dn'] rep2 m m1 m2 dn dn' entries_dir_ok [OF dn'(1)] by simp
qed

subsection \<open>Removing\<close>

lemma remove_spec:
  assumes inv: "fs_inv sb" and p: "fs_map sb p = Some nd" "p \<noteq> ''/''"
    and nc: "children (fs_map sb) p = {}" and alloc: "\<forall>n. alloc_ok e n"
  obtains i sb' dn dn' where "search_inode sb p = Some (int i)"
    and "arr_get (inodes sb) i = Some nd" and "remove_inode e sb p i = Some sb'" and "fs_inv sb'"
    and "fs_map sb (parent_of p) = Some dn"
    and "fs_map sb' = (fs_map sb)(p := None, parent_of p \<mapsto> dn')"
    and "entries dn' = filter (\<lambda>x. x \<noteq> base_of p) (entries dn)"
    and "dn' = dn\<lparr>i_content := i_content dn', i_size := i_size dn\<rparr>"
proof -
  from inv obtain ns bs where rep: "sb_rep sb ns bs" and u: "uniq_paths ns bs"
    and t: "tree_ok (live_map ns bs)" and m: "fs_map sb = live_map ns bs" by (rule fs_invE)
  from p m have nd: "live_map ns bs p = Some nd" by simp
  from rep nd obtain i where i: "search_inode sb p = Some (int i)" "slot ns bs p = Some i"
    "i < length ns" "ns ! i = nd" "arr_get (inodes sb) i = Some nd" by (rule search_found)
  from tree_okD [OF t nd] p(2) have v: "valid_path p" and "is_dir (live_map ns bs) (parent_of p)"
    and ok: "node_ok (live_map ns bs) p nd" by auto
  then obtain dn where dn: "live_map ns bs (parent_of p) = Some dn" "i_type dn = INODE_DIR"
    by (auto simp: is_dir_def)
  have dok: "dir_node_ok dn" using tree_okD(1) [OF t dn(1)] dn(2) by (simp add: node_ok_def)
  from ok obtain buf where buf: "i_content (ns ! i) = Mem buf"
    using i(4) by (auto simp: node_ok_def dir_node_ok_def dir_ok_def file_node_ok_def
        split: inode_type.splits)
  obtain sb' ns' dn' where r: "remove_inode e sb p i = Some sb'"
    and rep': "sb_rep sb' ns' (bs[i := 0])" and u': "uniq_paths ns' (bs[i := 0])"
    and m': "live_map ns' (bs[i := 0]) = (live_map ns bs)(p := None, parent_of p \<mapsto> dn')"
    and dn': "dir_ok (i_content dn') (i_size dn') (filter (\<lambda>x. x \<noteq> base_of p) (entries dn))"
      "dn' = dn\<lparr>i_content := i_content dn', i_size := i_size dn\<rparr>"
    by (rule remove_inode_ok [OF rep u v i(2) buf dn dok alloc])
  have "i_type dn' = INODE_DIR"
    using dn(2) dn'(2) by (metis inode.ext_inject inode.surjective inode.update_convs(2,3))
  moreover have "children (live_map ns bs) p = {}" and "live_map ns bs p \<noteq> None"
    using nc m nd by simp_all
  ultimately have "tree_ok ((live_map ns bs)(p := None, parent_of p \<mapsto> dn'))"
    using tree_ok_delete [OF t _ v _ dn _ dn'(1)] by blast
  then have "fs_inv sb'" by (rule fs_invI [OF rep' u' m'])
  with that [of i sb' dn dn'] i r rep' m m' dn dn' entries_dir_ok [OF dn'(1)] show thesis by simp
qed

lemma file_no_children:
  assumes "tree_ok m" and "m p = Some nd" and "i_type nd = INODE_FILE"
  shows "children m p = {}"
proof (rule ccontr)
  assume "children m p \<noteq> {}"
  then obtain q y where "m q = Some y" "valid_path q" "parent_of q = p"
    by (auto simp: children_def)
  with tree_okD(3) [OF assms(1), of q] assms(2,3) show False by (force simp: is_dir_def)
qed

subsection \<open>File contents\<close>

text \<open>The bytes of a file: as many of its buffer as its size says.\<close>

definition file_data :: "inode \<Rightarrow> char list" where
  "file_data nd = (case i_content nd of Mem m \<Rightarrow> take (nat (i_size nd)) m | _ \<Rightarrow> [])"

text \<open>A handler that stores a changed copy of the inode of a live path.\<close>

lemma store_spec:
  assumes inv: "fs_inv sb" and p: "fs_map sb p = Some nd"
  obtains i where "search_inode sb p = Some (int i)" and "arr_get (inodes sb) i = Some nd"
    and "\<And>nd'. i_path nd' = i_path nd \<Longrightarrow> tree_ok ((fs_map sb)(p \<mapsto> nd')) \<Longrightarrow>
           \<exists>ns. arr_set (inodes sb) i nd' = Some ns \<and> fs_inv (sb\<lparr>inodes := ns\<rparr>) \<and>
             fs_map (sb\<lparr>inodes := ns\<rparr>) = (fs_map sb)(p \<mapsto> nd')"
proof -
  from inv obtain ns bs where rep: "sb_rep sb ns bs" and u: "uniq_paths ns bs"
    and t: "tree_ok (live_map ns bs)" and m: "fs_map sb = live_map ns bs" by (rule fs_invE)
  from p m have nd: "live_map ns bs p = Some nd" by simp
  from rep nd obtain i where i: "search_inode sb p = Some (int i)" "slot ns bs p = Some i"
    "i < length ns" "ns ! i = nd" "arr_get (inodes sb) i = Some nd" by (rule search_found)
  have "\<exists>x. arr_set (inodes sb) i nd' = Some x \<and> fs_inv (sb\<lparr>inodes := x\<rparr>) \<and>
      fs_map (sb\<lparr>inodes := x\<rparr>) = (fs_map sb)(p \<mapsto> nd')"
    if path: "i_path nd' = i_path nd" and ok: "tree_ok ((fs_map sb)(p \<mapsto> nd'))" for nd'
  proof -
    have "i_path nd' = p" using path nd by (simp add: live_map_path)
    note st = live_map_store [OF u i(2) this]
    note rep' = sb_rep_upd(1) [OF rep, of i nd']
    have "fs_inv (sb\<lparr>inodes := Mem (ns[i := nd'])\<rparr>)"
      using fs_invI [OF rep' st(2) st(1)] ok m by simp
    then show ?thesis using sb_rep_get(3) [OF rep i(3)] rep' st(1) m by simp
  qed
  with that i show thesis by blast
qed

lemma file_okD:
  assumes "fs_inv sb" and "fs_map sb p = Some nd" and "i_type nd = INODE_FILE"
  obtains m where "i_content nd = Mem m" and "i_size nd \<le> int (length m)" and "length m < 2 ^ 32"
    and "0 \<le> i_size nd" and "i_size nd < 2 ^ 31" and "file_data nd = take (nat (i_size nd)) m"
    and "length (file_data nd) = nat (i_size nd)"
proof -
  from assms have "file_node_ok nd"
    by (metis fs_invE tree_okD(1) node_ok_def inode_type.case(1))
  with that show ?thesis by (auto simp: file_node_ok_def file_data_def)
qed

text \<open>
  \<open>write\<close>: the bytes before \<open>offset\<close>, padded with zeros, and then the bytes written. What
  followed them in the file is gone.
\<close>

lemma write_spec:
  assumes inv: "fs_inv sb" and p: "fs_map sb p = Some nd" "i_type nd = INODE_FILE"
    and off: "0 \<le> off" "off + int (length buf) < 2 ^ 30" and alloc: "\<forall>n. alloc_ok e n"
  obtains sb' nd' where "fisopfs_write e sb p buf off = Some (sb', int (length buf))"
    and "fs_inv sb'" and "fs_map sb' = (fs_map sb)(p \<mapsto> nd')"
    and "file_data nd' = take (nat off) (file_data nd @ replicate (nat off) NUL) @ buf"
    and "i_size nd' = off + int (length buf)"
    and "nd' = nd\<lparr>i_content := i_content nd', i_size := i_size nd', last_modification := now e\<rparr>"
proof -
  obtain m where m: "i_content nd = Mem m" "i_size nd \<le> int (length m)" "length m < 2 ^ 32"
    "0 \<le> i_size nd" "i_size nd < 2 ^ 31" "file_data nd = take (nat (i_size nd)) m"
    by (rule file_okD [OF inv p])
  from store_spec [OF inv p(1)] obtain i where i: "search_inode sb p = Some (int i)"
    "arr_get (inodes sb) i = Some nd"
    "\<And>nd'. i_path nd' = i_path nd \<Longrightarrow> tree_ok ((fs_map sb)(p \<mapsto> nd')) \<Longrightarrow>
       \<exists>ns. arr_set (inodes sb) i nd' = Some ns \<and> fs_inv (sb\<lparr>inodes := ns\<rparr>) \<and>
         fs_map (sb\<lparr>inodes := ns\<rparr>) = (fs_map sb)(p \<mapsto> nd')" by blast
  let ?n = "nat off" and ?s = "nat (i_size nd)" and ?k = "length buf"
  let ?grow = "i_size nd < off + int ?k"
  define m1 where "m1 = (if ?grow
      then take ?s m @ replicate (?n + ?k + INITIAL_CONTENT_LENGTH - ?s) NUL else m)"
  define m' where "m' = take ?n m1 @ buf @ drop (?n + ?k) m1"
  have st: "size_t (off + int ?k) = ?n + ?k" "size_t off = ?n" "size_t (i_size nd) = ?s"
    "size_t (off + int ?k + int INITIAL_CONTENT_LENGTH) = ?n + ?k + INITIAL_CONTENT_LENGTH"
    using off m by (simp_all add: INITIAL_CONTENT_LENGTH_def nat_add_distrib)
  have grow_iff: "?s < ?n + ?k \<longleftrightarrow> ?grow" using m off by linarith
  have fits: "?n + ?k \<le> length m1" using m off by (auto simp: m1_def)
  have rc: "recalloc e NUL 1 (Mem m) ?s (?n + ?k + INITIAL_CONTENT_LENGTH) = Some (Mem m1)" if ?grow
    using that m alloc off by (auto simp: recalloc_def calloc_def mem_read_def mem_write_def m1_def)
  have "length (take ?s m) = ?s" and "nat (off + int ?k) < 2 ^ 30" using m off by auto
  then have "length m1 < 2 ^ 32"
    using m(3,4) off by (auto simp: INITIAL_CONTENT_LENGTH_def nat_add_distrib m1_def)
  moreover have lm': "length m' = length m1" using fits by (simp add: m'_def)
  ultimately have len: "length m' < 2 ^ 32" "off + int ?k \<le> int (length m')"
    using fits off by linarith+
  let ?nd = "nd\<lparr>i_content := Mem m', i_size := off + int ?k, last_modification := now e\<rparr>"
  have ok: "file_node_ok ?nd" using len off by (simp add: file_node_ok_def)
  have "tree_ok (fs_map sb)" using inv by (metis fs_invE)
  from tree_ok_file_upd [OF this p(1,2) _ ok] p(2) have "tree_ok ((fs_map sb)(p \<mapsto> ?nd))" by simp
  with i(3) [of ?nd] obtain ns where ns: "arr_set (inodes sb) i ?nd = Some ns"
    "fs_inv (sb\<lparr>inodes := ns\<rparr>)" "fs_map (sb\<lparr>inodes := ns\<rparr>) = (fs_map sb)(p \<mapsto> ?nd)" by auto
  have i32: "int32 (off + int ?k) = off + int ?k" "int32 (int ?k) = int ?k"
    using off by simp_all
  have content: "(if size_t (off + int ?k) > size_t (i_size nd)
      then recalloc e NUL 1 (i_content nd) (size_t (i_size nd))
             (size_t (off + int ?k + int INITIAL_CONTENT_LENGTH))
      else Some (i_content nd)) = Some (Mem m1)"
    using rc m(1) unfolding st grow_iff by (simp add: m1_def)
  have wr: "mem_write m1 ?n buf = Some m'" using fits by (simp add: mem_write_def m'_def)
  have "fisopfs_write e sb p buf off = Some (sb\<lparr>inodes := ns\<rparr>, int ?k)"
    unfolding fisopfs_write_def Let_def i(1) bind.simps nat_int i(2) i32 content
    using ns(1) p(2) wr by (simp add: st(2))
  moreover have "file_data ?nd = take ?n (file_data nd @ replicate ?n NUL) @ buf"
  proof -
    have "take ?n (take ?s m @ replicate ?n NUL) = take ?n m1"
      using m off by (cases "?n \<le> ?s") (auto simp: m1_def min_def take_append)
    moreover have "nat (off + int ?k) = ?n + ?k" using off by (simp add: nat_add_distrib)
    moreover have "length (take ?n m1) = ?n" using fits by simp
    ultimately show ?thesis using m(6) by (simp add: file_data_def m'_def)
  qed
  ultimately show thesis using that [of "sb\<lparr>inodes := ns\<rparr>" ?nd] ns by simp
qed

lemma read_spec:
  assumes inv: "fs_inv sb" and p: "fs_map sb p = Some nd" "i_type nd = INODE_FILE"
    and off: "0 \<le> off" "off \<le> i_size nd" and sz: "sz < 2 ^ 31"
  obtains sb' where "fisopfs_read e sb p sz off =
      Some (sb', int (length (take sz (drop (nat off) (file_data nd)))),
            take sz (drop (nat off) (file_data nd)))"
    and "fs_inv sb'" and "fs_map sb' = (fs_map sb)(p \<mapsto> nd\<lparr>last_access := now e\<rparr>)"
proof -
  obtain m where m: "i_content nd = Mem m" "i_size nd \<le> int (length m)" "length m < 2 ^ 32"
    "0 \<le> i_size nd" "i_size nd < 2 ^ 31" "file_data nd = take (nat (i_size nd)) m"
    by (rule file_okD [OF inv p])
  from store_spec [OF inv p(1)] obtain i where i: "search_inode sb p = Some (int i)"
    "arr_get (inodes sb) i = Some nd"
    "\<And>nd'. i_path nd' = i_path nd \<Longrightarrow> tree_ok ((fs_map sb)(p \<mapsto> nd')) \<Longrightarrow>
       \<exists>ns. arr_set (inodes sb) i nd' = Some ns \<and> fs_inv (sb\<lparr>inodes := ns\<rparr>) \<and>
         fs_map (sb\<lparr>inodes := ns\<rparr>) = (fs_map sb)(p \<mapsto> nd')" by blast
  let ?nd = "nd\<lparr>last_access := now e\<rparr>"
  have "tree_ok (fs_map sb)" using inv by (metis fs_invE)
  from tree_ok_times_upd [OF this p(1), of ?nd] have "tree_ok ((fs_map sb)(p \<mapsto> ?nd))" by simp
  with i(3) [of ?nd] obtain ns where ns: "arr_set (inodes sb) i ?nd = Some ns"
    "fs_inv (sb\<lparr>inodes := ns\<rparr>)" "fs_map (sb\<lparr>inodes := ns\<rparr>) = (fs_map sb)(p \<mapsto> ?nd)" by auto
  define k where "k = (if i_size nd < off + int sz then nat (i_size nd - off) else sz)"
  have st: "size_t (off + int sz) = nat (off + int sz)" "size_t off = nat off"
    "size_t (i_size nd) = nat (i_size nd)" "size_t (i_size nd - off) = nat (i_size nd - off)"
    using off m sz by simp_all
  have k: "(if size_t (off + int sz) > size_t (i_size nd) then size_t (i_size nd - off) else sz) = k"
    unfolding st k_def using off m by auto
  have kb: "k \<le> sz" "nat off + k \<le> nat (i_size nd)" "nat (i_size nd) \<le> length m"
    unfolding k_def using off m by auto
  then have rd: "mem_read m (size_t off) k = Some (take k (drop (nat off) m))"
    unfolding st by (intro mem_read_ok) linarith
  have bytes: "take k (drop (nat off) m) = take sz (drop (nat off) (file_data nd))"
    unfolding m(6) drop_take k_def using off m by (auto simp: min_def nat_diff_distrib)
  have len: "length (take k (drop (nat off) m)) = k" using kb by simp
  have "fisopfs_read e sb p sz off =
      Some (sb\<lparr>inodes := ns\<rparr>, int32 (int k), take k (drop (nat off) m))"
    unfolding fisopfs_read_def Let_def i(1) bind.simps nat_int i(2) k
    using ns(1) p(2) m(1) rd kb(1) by simp
  moreover have "int32 (int k) = int k" using kb sz by (intro int32_id) auto
  ultimately show thesis using that [of "sb\<lparr>inodes := ns\<rparr>"] ns len unfolding bytes by simp
qed

subsection \<open>Listing, attributes and times\<close>

lemma readdir_spec:
  assumes inv: "fs_inv sb" and p: "fs_map sb p = Some nd" "i_type nd = INODE_DIR"
  shows "fisopfs_readdir sb p 0 = Some (0, ''.'' # ''..'' # entries nd)"
    and "set (entries nd) = children (fs_map sb) p" and "distinct (entries nd)"
proof -
  from inv obtain ns bs where rep: "sb_rep sb ns bs" and t: "tree_ok (live_map ns bs)"
    and m: "fs_map sb = live_map ns bs" by (rule fs_invE)
  from p m have nd: "live_map ns bs p = Some nd" by simp
  from tree_okD(1) [OF t nd] p(2) m
  have ok: "dir_node_ok nd" "set (entries nd) = children (fs_map sb) p"
    by (auto simp: node_ok_def)
  then show "set (entries nd) = children (fs_map sb) p" "distinct (entries nd)"
    by (auto simp: dir_node_ok_def)
  from rep nd obtain i where i: "search_inode sb p = Some (int i)"
    "arr_get (inodes sb) i = Some nd" by (rule search_found)
  from dir_ok_entries [OF ok(1)] obtain old where old: "i_content nd = Mem old"
    "c_string old = Some (dir_text (entries nd))" "\<forall>x\<in>set (entries nd). entry_ok x"
    by (rule dir_okE)
  from c_string_SomeD [OF old(2)] obtain r where r: "old = dir_text ([] @ entries nd) @ NUL # r"
    by auto
  show "fisopfs_readdir sb p 0 = Some (0, ''.'' # ''..'' # entries nd)"
    using i p(2) old readdir_loop_entries [OF r, of "[''.'', ''..'']"]
    by (simp add: fisopfs_readdir_def)
qed

definition stat_of :: "inode \<Rightarrow> stat" where
  "stat_of nd =
     \<lparr>st_nlink = (if i_type nd = INODE_FILE then 1 else 2), st_uid = i_owner nd,
      st_gid = i_group nd, st_size = i_size nd, st_atime = last_access nd,
      st_mtime = last_modification nd, st_ctime = creation_time nd,
      st_mode = (if i_type nd = INODE_FILE then S_IFREG OR 0x1A4 else S_IFDIR OR 0x1ED)\<rparr>"

lemma getattr_spec:
  assumes inv: "fs_inv sb" and p: "fs_map sb p = Some nd" and nl: "NL \<notin> set p"
    and len: "length p + length suffix < MAX_PATH" and suffix: "suffix = [] \<or> hd suffix = NL"
  shows "fisopfs_getattr sb (p @ suffix) = Some (0, Some (stat_of nd))"
proof -
  from inv p obtain ns bs where "sb_rep sb ns bs" "live_map ns bs p = Some nd"
    by (metis fs_invE)
  then obtain i where i: "search_inode sb p = Some (int i)" "arr_get (inodes sb) i = Some nd"
    by (rule search_found)
  have "strip_newline_character (p @ suffix) = p"
    using nl suffix strchr_idx_append [OF nl, of "tl suffix"]
    by (cases suffix) (auto simp: strip_newline_character.simps strchr_idx_None_iff [THEN iffD2])
  with i len show ?thesis
    by (auto simp: fisopfs_getattr_def stat_of_def)
qed

lemma utimens_spec:
  assumes inv: "fs_inv sb" and p: "fs_map sb p = Some nd"
  obtains sb' where "fisopfs_utimens sb p t0 t1 = Some (sb', 0)" and "fs_inv sb'"
    and "fs_map sb' = (fs_map sb)(p \<mapsto> nd\<lparr>last_access := t0, last_modification := t1\<rparr>)"
proof -
  let ?nd = "nd\<lparr>last_access := t0, last_modification := t1\<rparr>"
  from store_spec [OF inv p] obtain i where i: "search_inode sb p = Some (int i)"
    "arr_get (inodes sb) i = Some nd"
    "\<And>nd'. i_path nd' = i_path nd \<Longrightarrow> tree_ok ((fs_map sb)(p \<mapsto> nd')) \<Longrightarrow>
       \<exists>ns. arr_set (inodes sb) i nd' = Some ns \<and> fs_inv (sb\<lparr>inodes := ns\<rparr>) \<and>
         fs_map (sb\<lparr>inodes := ns\<rparr>) = (fs_map sb)(p \<mapsto> nd')" by blast
  have "tree_ok (fs_map sb)" using inv by (metis fs_invE)
  from tree_ok_times_upd [OF this p, of ?nd] have "tree_ok ((fs_map sb)(p \<mapsto> ?nd))" by simp
  with i(3) [of ?nd] obtain ns where "arr_set (inodes sb) i ?nd = Some ns"
    "fs_inv (sb\<lparr>inodes := ns\<rparr>)" "fs_map (sb\<lparr>inodes := ns\<rparr>) = (fs_map sb)(p \<mapsto> ?nd)" by auto
  with that i show thesis by (simp add: fisopfs_utimens_def)
qed

subsection \<open>Removing a file or an empty directory\<close>

lemma unlink_spec:
  assumes inv: "fs_inv sb" and p: "fs_map sb p = Some nd" "i_type nd = INODE_FILE"
    and alloc: "\<forall>n. alloc_ok e n"
  obtains sb' dn dn' where "fisopfs_unlink e sb p = Some (sb', 0)" and "fs_inv sb'"
    and "fs_map sb (parent_of p) = Some dn"
    and "fs_map sb' = (fs_map sb)(p := None, parent_of p \<mapsto> dn')"
    and "entries dn' = filter (\<lambda>x. x \<noteq> base_of p) (entries dn)"
    and "dn' = dn\<lparr>i_content := i_content dn', i_size := i_size dn\<rparr>"
proof -
  have t: "tree_ok (fs_map sb)" using inv by (metis fs_invE)
  then obtain dr where "fs_map sb ''/'' = Some dr" "i_type dr = INODE_DIR"
    by (auto simp: tree_ok_def is_dir_def)
  with p have ne: "p \<noteq> ''/''" by auto
  obtain i sb' dn dn' where
    r: "search_inode sb p = Some (int i)" "arr_get (inodes sb) i = Some nd"
       "remove_inode e sb p i = Some sb'" "fs_inv sb'" "fs_map sb (parent_of p) = Some dn"
       "fs_map sb' = (fs_map sb)(p := None, parent_of p \<mapsto> dn')"
       "entries dn' = filter (\<lambda>x. x \<noteq> base_of p) (entries dn)"
       "dn' = dn\<lparr>i_content := i_content dn', i_size := i_size dn\<rparr>"
    by (rule remove_spec [OF inv p(1) ne file_no_children [OF t p] alloc])
  then have "fisopfs_unlink e sb p = Some (sb', 0)"
    using p(2) by (simp add: fisopfs_unlink_def)
  with that r show thesis by blast
qed

lemma rmdir_spec:
  assumes inv: "fs_inv sb" and p: "fs_map sb p = Some nd" "i_type nd = INODE_DIR" "p \<noteq> ''/''"
    and alloc: "\<forall>n. alloc_ok e n"
  shows "children (fs_map sb) p \<noteq> {} \<Longrightarrow> fisopfs_rmdir e sb p = Some (sb, - ENOTEMPTY)"
    and "children (fs_map sb) p = {} \<Longrightarrow>
      \<exists>sb' dn dn'. fisopfs_rmdir e sb p = Some (sb', 0) \<and> fs_inv sb' \<and>
        fs_map sb (parent_of p) = Some dn \<and>
        fs_map sb' = (fs_map sb)(p := None, parent_of p \<mapsto> dn') \<and>
        entries dn' = filter (\<lambda>x. x \<noteq> base_of p) (entries dn)"
proof -
  from inv obtain ns bs where rep: "sb_rep sb ns bs" and t: "tree_ok (live_map ns bs)"
    and m: "fs_map sb = live_map ns bs" by (rule fs_invE)
  from p m have nd: "live_map ns bs p = Some nd" by simp
  from tree_okD(1) [OF t nd] p(2) m
  have ok: "dir_node_ok nd" "set (entries nd) = children (fs_map sb) p"
    by (auto simp: node_ok_def)
  from rep nd obtain i where i: "search_inode sb p = Some (int i)"
    "arr_get (inodes sb) i = Some nd" by (rule search_found)
  from dir_ok_entries [OF ok(1)] obtain old where old: "i_content nd = Mem old"
    "c_string old = Some (dir_text (entries nd))" by (rule dir_okE)
  show "fisopfs_rmdir e sb p = Some (sb, - ENOTEMPTY)" if "children (fs_map sb) p \<noteq> {}"
    using that i p(2) old ok(2) by (auto simp: fisopfs_rmdir_def)
  show "\<exists>sb' dn dn'. fisopfs_rmdir e sb p = Some (sb', 0) \<and> fs_inv sb' \<and>
        fs_map sb (parent_of p) = Some dn \<and>
        fs_map sb' = (fs_map sb)(p := None, parent_of p \<mapsto> dn') \<and>
        entries dn' = filter (\<lambda>x. x \<noteq> base_of p) (entries dn)"
    if e: "children (fs_map sb) p = {}"
  proof -
    obtain i' sb' dn dn' where
      r: "search_inode sb p = Some (int i')" "remove_inode e sb p i' = Some sb'" "fs_inv sb'"
         "fs_map sb (parent_of p) = Some dn"
         "fs_map sb' = (fs_map sb)(p := None, parent_of p \<mapsto> dn')"
         "entries dn' = filter (\<lambda>x. x \<noteq> base_of p) (entries dn)"
      by (rule remove_spec [OF inv p(1,3) e alloc])
    moreover have "fisopfs_rmdir e sb p = Some (sb', 0)"
      using e i r(1,2) p(2) old ok(2) by (simp add: fisopfs_rmdir_def)
    ultimately show ?thesis by blast
  qed
qed

subsection \<open>Truncation\<close>

lemma truncate_zero_spec:
  assumes inv: "fs_inv sb" and p: "fs_map sb p = Some nd" "i_type nd = INODE_FILE"
    and alloc: "\<forall>n. alloc_ok e n"
  obtains sb' nd' where "fisopfs_truncate e sb p 0 = Some (sb', 0)" and "fs_inv sb'"
    and "fs_map sb' = (fs_map sb)(p \<mapsto> nd')"
    and "file_data nd' = replicate INITIAL_CONTENT_LENGTH NUL"
proof -
  let ?nd = "nd\<lparr>i_content := Mem (replicate INITIAL_CONTENT_LENGTH NUL),
                i_size := int INITIAL_CONTENT_LENGTH, last_modification := now e\<rparr>"
  from file_okD [OF inv p] obtain m where m: "i_content nd = Mem m" by metis
  from store_spec [OF inv p(1)] obtain i where i: "search_inode sb p = Some (int i)"
    "arr_get (inodes sb) i = Some nd"
    "\<And>nd'. i_path nd' = i_path nd \<Longrightarrow> tree_ok ((fs_map sb)(p \<mapsto> nd')) \<Longrightarrow>
       \<exists>ns. arr_set (inodes sb) i nd' = Some ns \<and> fs_inv (sb\<lparr>inodes := ns\<rparr>) \<and>
         fs_map (sb\<lparr>inodes := ns\<rparr>) = (fs_map sb)(p \<mapsto> nd')" by blast
  have "tree_ok (fs_map sb)" using inv by (metis fs_invE)
  from tree_ok_file_upd [OF this p, of ?nd] p(2) have "tree_ok ((fs_map sb)(p \<mapsto> ?nd))"
    by (simp add: file_node_ok_def INITIAL_CONTENT_LENGTH_def)
  with i(3) [of ?nd] obtain ns where ns: "arr_set (inodes sb) i ?nd = Some ns"
    "fs_inv (sb\<lparr>inodes := ns\<rparr>)" "fs_map (sb\<lparr>inodes := ns\<rparr>) = (fs_map sb)(p \<mapsto> ?nd)" by auto
  have "calloc e NUL 1 INITIAL_CONTENT_LENGTH = Mem (replicate INITIAL_CONTENT_LENGTH NUL)"
    using alloc by (simp add: calloc_def)
  then have "fisopfs_truncate e sb p 0 = Some (sb\<lparr>inodes := ns\<rparr>, 0)"
    unfolding fisopfs_truncate_def using i ns(1) p(2) m by simp
  moreover have "file_data ?nd = replicate INITIAL_CONTENT_LENGTH NUL"
    by (simp add: file_data_def)
  ultimately show thesis using that ns by blast
qed

text \<open>
  A nonzero size: the call is defined exactly when the text with its NUL fits into the new
  size and the new size into the old buffer.
\<close>

lemma truncate_nonzero_spec:
  assumes inv: "fs_inv sb" and p: "fs_map sb p = Some nd" "i_type nd = INODE_FILE"
    and content: "i_content nd = Mem m"
    and sz: "0 < sz" "sz < 2 ^ 31" and alloc: "\<forall>n. alloc_ok e n"
  shows "fisopfs_truncate e sb p sz \<noteq> None \<longleftrightarrow>
      (\<exists>text. c_string m = Some text \<and> int (length text) < sz) \<and> sz \<le> int (length m)"
    and "fisopfs_truncate e sb p sz = Some (sb', r) \<Longrightarrow>
      r = 0 \<and> fs_inv sb' \<and>
      fs_map sb' = (fs_map sb)(p \<mapsto> nd\<lparr>i_content := Mem (take (nat sz) m), i_size := sz,
                                      last_modification := now e\<rparr>)"
proof -
  let ?nd = "nd\<lparr>i_content := Mem (take (nat sz) m), i_size := sz, last_modification := now e\<rparr>"
  from store_spec [OF inv p(1)] obtain i where i: "search_inode sb p = Some (int i)"
    "arr_get (inodes sb) i = Some nd"
    "\<And>nd'. i_path nd' = i_path nd \<Longrightarrow> tree_ok ((fs_map sb)(p \<mapsto> nd')) \<Longrightarrow>
       \<exists>ns. arr_set (inodes sb) i nd' = Some ns \<and> fs_inv (sb\<lparr>inodes := ns\<rparr>) \<and>
         fs_map (sb\<lparr>inodes := ns\<rparr>) = (fs_map sb)(p \<mapsto> nd')" by blast
  have st: "size_t sz = nat sz" "int32 sz = sz" "0 < nat sz" using sz by simp_all
  have rc: "recalloc e NUL 1 (Mem m) (nat sz) (nat sz) =
      (if nat sz \<le> length m then Some (Mem (take (nat sz) m)) else None)"
    using st alloc by (auto simp: recalloc_def calloc_def mem_read_def mem_write_def)
  have fn: "length m < 2 ^ 32"
    using content by (metis file_okD [OF inv p] block.inject)
  let ?nd2 = "nd\<lparr>i_size := sz, i_content := Mem (take (nat sz) m), last_modification := now e\<rparr>"
  have upd: "?nd2 = ?nd" by (cases nd) simp
  have run: "fisopfs_truncate e sb p sz =
      (case c_string m of None \<Rightarrow> None | Some text \<Rightarrow>
        if nat sz \<le> length m \<and> int (length text) < sz
        then do { ns \<leftarrow> arr_set (inodes sb) i ?nd2; Some (sb\<lparr>inodes := ns\<rparr>, 0) } else None)"
    unfolding fisopfs_truncate_def Let_def i(1) bind.simps nat_int i(2)
    using p(2) content sz st rc by (auto simp: mem_write_def split: option.splits)
  have defined: "\<exists>ns. arr_set (inodes sb) i ?nd = Some ns \<and> fs_inv (sb\<lparr>inodes := ns\<rparr>) \<and>
      fs_map (sb\<lparr>inodes := ns\<rparr>) = (fs_map sb)(p \<mapsto> ?nd)" if "nat sz \<le> length m"
  proof -
    have "tree_ok (fs_map sb)" using inv by (metis fs_invE)
    from tree_ok_file_upd [OF this p, of ?nd] p(2) that sz fn
    have "tree_ok ((fs_map sb)(p \<mapsto> ?nd))" by (simp add: file_node_ok_def)
    with i(3) [of ?nd] show ?thesis by simp
  qed
  show "fisopfs_truncate e sb p sz \<noteq> None \<longleftrightarrow>
      (\<exists>text. c_string m = Some text \<and> int (length text) < sz) \<and> sz \<le> int (length m)"
    using defined sz unfolding run upd by (auto simp: nat_le_iff split: option.splits if_splits)
  assume "fisopfs_truncate e sb p sz = Some (sb', r)"
  then show "r = 0 \<and> fs_inv sb' \<and> fs_map sb' = (fs_map sb)(p \<mapsto> ?nd)"
    using defined unfolding run upd by (auto split: option.splits if_splits)
qed

subsection \<open>Every call keeps the invariant\<close>

text \<open>
  The calls FUSE makes, with what it guarantees of their arguments: it looks a path up before it creates it, so creations
  are of fresh canonical paths below a live directory; the root is never removed; and no file reaches a gigabyte.
  Allocations are assumed to succeed, and no new entry to fill the buffer of its directory exactly. The code itself does
  not check any of this: it accepts a creation without a live parent, and then leaves an inode that no directory lists.
\<close>

inductive fs_step :: "superblock \<Rightarrow> superblock \<Rightarrow> bool" where
  create: "\<forall>n. alloc_ok e n \<Longrightarrow> can_create sb p \<Longrightarrow> slack \<noteq> [] \<Longrightarrow>
     fisopfs_create e sb (p @ NUL # slack) mode = Some (sb', r, path') \<Longrightarrow> fs_step sb sb'"
| mkdir: "\<forall>n. alloc_ok e n \<Longrightarrow> can_create sb p \<Longrightarrow> slack \<noteq> [] \<Longrightarrow>
     fisopfs_mkdir e sb (p @ NUL # slack) mode = Some (sb', r, path') \<Longrightarrow> fs_step sb sb'"
| unlink: "\<forall>n. alloc_ok e n \<Longrightarrow> fisopfs_unlink e sb p = Some (sb', r) \<Longrightarrow> fs_step sb sb'"
| rmdir: "\<forall>n. alloc_ok e n \<Longrightarrow> p \<noteq> ''/'' \<Longrightarrow> fisopfs_rmdir e sb p = Some (sb', r) \<Longrightarrow> fs_step sb sb'"
| utimens: "fisopfs_utimens sb p t0 t1 = Some (sb', r) \<Longrightarrow> fs_step sb sb'"
| read: "sz < 2 ^ 31 \<Longrightarrow> 0 \<le> off \<Longrightarrow> off < 2 ^ 31 \<Longrightarrow>
     fisopfs_read e sb p sz off = Some (sb', r, bytes) \<Longrightarrow> fs_step sb sb'"
| write_file: "\<forall>n. alloc_ok e n \<Longrightarrow> 0 \<le> off \<Longrightarrow> off + int (length buf) < 2 ^ 30 \<Longrightarrow>
     fisopfs_write e sb p buf off = Some (sb', r) \<Longrightarrow> fs_step sb sb'"
| truncate: "\<forall>n. alloc_ok e n \<Longrightarrow> 0 \<le> sz \<Longrightarrow> sz < 2 ^ 31 \<Longrightarrow>
     fisopfs_truncate e sb p sz = Some (sb', r) \<Longrightarrow> fs_step sb sb'"

text \<open>
  Reading past the end: \<open>file->size - offset\<close> is negative and wraps to a huge \<open>size_t\<close>,
  so the copy runs out of the buffer.
\<close>

lemma read_past_end:
  assumes inv: "fs_inv sb" and p: "fs_map sb p = Some nd" "i_type nd = INODE_FILE"
    and off: "i_size nd < off" "off < 2 ^ 31" and sz: "sz < 2 ^ 31"
  shows "fisopfs_read e sb p sz off = None"
proof -
  obtain m where m: "i_content nd = Mem m" "length m < 2 ^ 32"
    "0 \<le> i_size nd" "i_size nd < 2 ^ 31"
    by (rule file_okD [OF inv p])
  from inv p obtain ns bs where "sb_rep sb ns bs" "live_map ns bs p = Some nd"
    by (metis fs_invE)
  then obtain i where i: "search_inode sb p = Some (int i)" "arr_get (inodes sb) i = Some nd"
    by (rule search_found)
  have more: "size_t (off + int sz) > size_t (i_size nd)" using off m sz by simp
  have "(i_size nd - off) mod 2 ^ 64 = i_size nd - off + 2 ^ 64"
    using off m by (intro int_mod_pos_eq [where q = "- 1"]) auto
  then have "2 ^ 33 < size_t (i_size nd - off)"
    using off m by (simp add: size_t_def)
  then have "mem_read m (size_t off) (size_t (i_size nd - off)) = None"
    using m(2) by (simp add: mem_read_None_iff)
  with i p(2) m(1) more show ?thesis
    unfolding fisopfs_read_def Let_def by (simp del: size_t_id)
qed

lemma fs_step_inv: "fs_step sb sb' \<Longrightarrow> fs_inv sb \<Longrightarrow> fs_inv sb'"
proof (induction rule: fs_step.induct)
  case (create e sb p slack mode sb' r path')
  then show ?case using make_inode_spec [of sb p e "p @ NUL # slack" slack mode INODE_FILE]
    by (auto simp: fisopfs_create_def)
next
  case (mkdir e sb p slack mode sb' r path')
  then show ?case using make_inode_spec [of sb p e "p @ NUL # slack" slack mode INODE_DIR]
    by (auto simp: fisopfs_mkdir_def)
next
  case (unlink e sb p sb' r)
  show ?case
  proof (cases "fs_map sb p")
    case (Some nd)
    with unlink show ?thesis
      using unlink_spec [OF _ Some] wrong_type(4) [OF _ Some, of e] by (cases "i_type nd") force+
  qed (use unlink missing_path(5) [of sb p e] in simp)
next
  case (rmdir e p sb sb' r)
  show ?case
  proof (cases "fs_map sb p")
    case (Some nd)
    with rmdir show ?thesis
      using rmdir_spec [OF _ Some, of e] wrong_type(5) [OF _ Some, of e]
      by (cases "i_type nd"; cases "children (fs_map sb) p = {}") force+
  qed (use rmdir missing_path(6) [of sb p e] in simp)
next
  case (utimens sb p t0 t1 sb' r)
  show ?case
  proof (cases "fs_map sb p")
    case (Some nd)
    with utimens show ?thesis using utimens_spec [OF _ Some, of t0 t1] by force
  qed (use utimens missing_path(4) [of sb p t0 t1] in simp)
next
  case (read sz off e sb p sb' r bytes)
  show ?case
  proof (cases "fs_map sb p")
    case (Some nd)
    show ?thesis
    proof (cases "i_type nd = INODE_FILE \<and> off \<le> i_size nd")
      case True
      with read Some show ?thesis using read_spec [OF _ Some, of off sz e] by force
    next
      case False
      with read Some show ?thesis
        using wrong_type(1) [OF _ Some, of e sz off] read_past_end [OF _ Some, of off sz e]
        by (cases "i_type nd") force+
    qed
  qed (use read missing_path(1) [of sb p e sz off] in simp)
next
  case (write_file e off buf sb p sb' r)
  show ?case
  proof (cases "fs_map sb p")
    case (Some nd)
    with write_file show ?thesis
      using write_spec [OF _ Some, of off buf e] wrong_type(2) [OF _ Some, of e buf off]
      by (cases "i_type nd") force+
  qed (use write_file missing_path(2) [of sb p e buf off] in simp)
next
  case (truncate e sz sb p sb' r)
  show ?case
  proof (cases "fs_map sb p")
    case (Some nd)
    show ?thesis
    proof (cases "i_type nd")
      case INODE_FILE
      then obtain m where "i_content nd = Mem m"
        using file_okD [OF truncate.prems Some] by metis
      with truncate Some INODE_FILE show ?thesis
        using truncate_zero_spec [OF _ Some, of e] truncate_nonzero_spec(2) [OF _ Some, of m sz e sb' r]
        by (cases "sz = 0") force+
    qed (use truncate Some wrong_type(3) [of sb p nd e sz] in simp)
  qed (use truncate missing_path(3) [of sb p e sz] in simp)
qed

end
