(* ===== verification/FisopProps.thy ===== *)
theory FisopProps
  imports FisopSpec
begin

unbundle bit_operations_syntax

text \<open>
  The properties of the FUSE file system, each about the handlers as \<open>fisopfs/fisopfs.c\<close>
  has them, with a small concrete file system at which they are applied: a root that lists
  the file \<open>/f\<close> and the empty directory \<open>/d\<close> in a buffer of 16 bytes.
\<close>

subsection \<open>A concrete file system\<close>

definition demo_env :: fsys where
  "demo_env = \<lparr>now = 7, getgid = 100, getuid = 1000, alloc_ok = \<lambda>_. True\<rparr>"

definition demo_node :: "string \<Rightarrow> string \<Rightarrow> int \<Rightarrow> inode_type \<Rightarrow> inode" where
  "demo_node p content sz t = \<lparr>i_path = p, i_content = Mem content, i_size = sz, i_type = t,
     last_access = 1, last_modification = 1, creation_time = 1,
     i_group = 100, i_owner = 1000, permissions = 0\<rparr>"

definition demo_root :: inode where
  "demo_root = demo_node ''/'' (dir_text [''f'', ''d''] @ replicate 12 NUL) 16 INODE_DIR"
definition demo_file :: inode where
  "demo_file = demo_node ''/f'' (''hello'' @ [NUL, NUL, NUL]) 5 INODE_FILE"
definition demo_dir :: inode where
  "demo_dir = demo_node ''/d'' (replicate 8 NUL) 8 INODE_DIR"

definition demo_sb :: superblock where
  "demo_sb = \<lparr>inodes = Mem [demo_root, demo_file, demo_dir, blank_inode],
     inode_bitmap = Mem [1, 1, 1, 0], inode_amount = 4\<rparr>"

lemmas demo_nodes = demo_root_def demo_file_def demo_dir_def demo_node_def

lemma demo_alloc: "\<forall>n. alloc_ok demo_env n"
  by (simp add: demo_env_def)

lemma demo_map: "fs_map demo_sb = [''/'' \<mapsto> demo_root, ''/f'' \<mapsto> demo_file, ''/d'' \<mapsto> demo_dir]"
  by (rule ext)
    (simp add: fs_map_def demo_sb_def live_map_def slot_def demo_nodes upt_conv_Cons
      eq_commute [of "''/''"] eq_commute [of "''/f''"] eq_commute [of "''/d''"])

lemma demo_paths:
  "valid_path ''/f''" "valid_path ''/d''" "parent_of ''/f'' = ''/''" "parent_of ''/d'' = ''/''"
  "base_of ''/f'' = ''f''" "base_of ''/d'' = ''d''"
  by (simp_all add: valid_path_def parent_of_def base_of_def MAX_PATH_def)

lemma demo_entries: "entries demo_root = [''f'', ''d'']" "entries demo_dir = []"
  by (simp_all add: entries_def demo_nodes dir_text_def)

lemma demo_children:
  "children (fs_map demo_sb) ''/'' = {''f'', ''d''}" "children (fs_map demo_sb) ''/d'' = {}"
proof -
  have live: "fs_map demo_sb q \<noteq> None \<longleftrightarrow> q \<in> {''/'', ''/f'', ''/d''}" for q
    by (simp add: demo_map)
  have eq: "children (fs_map demo_sb) d =
      base_of ` {q \<in> {''/'', ''/f'', ''/d''}. valid_path q \<and> parent_of q = d}" for d
    unfolding children_def live by blast
  have "{q \<in> {''/'', ''/f'', ''/d''}. valid_path q \<and> parent_of q = ''/''} = {''/f'', ''/d''}"
    "{q \<in> {''/'', ''/f'', ''/d''}. valid_path q \<and> parent_of q = ''/d''} = {}"
    using demo_paths by auto
  then show "children (fs_map demo_sb) ''/'' = {''f'', ''d''}" "children (fs_map demo_sb) ''/d'' = {}"
    unfolding eq using demo_paths(5,6) by simp_all
qed

lemma demo_dir_ok:
  "dir_ok (i_content demo_root) (i_size demo_root) [''f'', ''d'']"
  "dir_ok (i_content demo_dir) (i_size demo_dir) []"
  by (simp_all add: dir_ok_def demo_nodes dir_text_def entry_ok_def MAX_PATH_def)

lemma demo_inv: "fs_inv demo_sb"
proof -
  have rep: "sb_rep demo_sb [demo_root, demo_file, demo_dir, blank_inode] [1, 1, 1, 0]"
    by (simp add: sb_rep_def demo_sb_def)
  have u: "uniq_paths [demo_root, demo_file, demo_dir, blank_inode] [1, 1, 1, 0]"
    by (auto simp: uniq_paths_def less_Suc_eq demo_nodes)
  have types: "i_type demo_root = INODE_DIR" "i_type demo_file = INODE_FILE"
    "i_type demo_dir = INODE_DIR" by (simp_all add: demo_nodes)
  have regular: "file_node_ok demo_file" by (simp add: file_node_ok_def demo_nodes)
  have nodes: "node_ok (fs_map demo_sb) ''/'' demo_root" "node_ok (fs_map demo_sb) ''/f'' demo_file"
    "node_ok (fs_map demo_sb) ''/d'' demo_dir"
    using types regular demo_dir_ok
    by (simp_all add: node_ok_def dir_node_ok_def demo_children demo_entries)
  have dir: "is_dir (fs_map demo_sb) ''/''" using types by (simp add: is_dir_def demo_map)
  have "tree_ok (fs_map demo_sb)"
    unfolding tree_ok_def
  proof (intro conjI allI impI)
    fix p nd assume p: "fs_map demo_sb p = Some nd"
    then have three: "p = ''/'' \<and> nd = demo_root \<or> p = ''/f'' \<and> nd = demo_file \<or>
        p = ''/d'' \<and> nd = demo_dir"
      by (auto simp: demo_map split: if_splits)
    then show "node_ok (fs_map demo_sb) p nd" using nodes by blast
    assume "p \<noteq> ''/''"
    with three dir demo_paths show "valid_path p" "is_dir (fs_map demo_sb) (parent_of p)" by auto
  qed (rule dir)
  then show ?thesis using fs_invI [OF rep u] fs_map_rep [OF rep] by simp
qed

lemma demo_root_size: "i_size demo_root = 16"
  by (simp add: demo_nodes)

lemma demo_can_create: "can_create demo_sb ''/g''"
proof -
  have "parent_of ''/g'' = ''/''" "base_of ''/g'' = ''g''" "valid_path ''/g''"
    by (simp_all add: valid_path_def parent_of_def base_of_def MAX_PATH_def)
  moreover have "i_type demo_root = INODE_DIR" by (simp add: demo_nodes)
  ultimately show ?thesis
    by (simp add: can_create_def demo_map exact_fit_def grown_def demo_entries demo_root_size
        dir_text_def)
qed

lemma demo_f: "fs_map demo_sb ''/f'' = Some demo_file" "i_type demo_file = INODE_FILE"
  by (simp_all add: demo_map demo_nodes)

lemma demo_d: "fs_map demo_sb ''/d'' = Some demo_dir" "i_type demo_dir = INODE_DIR"
  by (simp_all add: demo_map demo_nodes)

lemma demo_r: "fs_map demo_sb ''/'' = Some demo_root" "i_type demo_root = INODE_DIR"
  by (simp_all add: demo_map demo_nodes)

subsection \<open>Creating and listing\<close>

text \<open>C4. Creating a file below a live directory, at a path that is free: the call returns 0, the map
  of paths gains exactly the new inode, the parent's listing gains exactly its name, at the end,
  and the file-system invariant is kept. The caller's path buffer comes back with a newline.\<close>

theorem create_adds_file:
  assumes "fs_inv sb" and "can_create sb p" and "\<forall>n. alloc_ok e n" and "slack \<noteq> []"
  shows "\<exists>sb' dn dn'. fisopfs_create e sb (p @ NUL # slack) mode =
        Some (sb', 0, p @ NL # NUL # tl slack) \<and>
      fs_inv sb' \<and> fs_map sb (parent_of p) = Some dn \<and>
      fs_map sb' = (fs_map sb)(p \<mapsto> new_inode e p mode INODE_FILE, parent_of p \<mapsto> dn') \<and>
      fisopfs_readdir sb' (parent_of p) 0 = Some (0, ''.'' # ''..'' # entries dn @ [base_of p])"
proof -
  obtain sb' dn dn' where r:
    "make_inode e sb (p @ NUL # slack) mode INODE_FILE = Some (sb', 0, p @ NL # NUL # tl slack)"
    "fs_inv sb'" "fs_map sb (parent_of p) = Some dn"
    "fs_map sb' = (fs_map sb)(p \<mapsto> new_inode e p mode INODE_FILE, parent_of p \<mapsto> dn')"
    "entries dn' = entries dn @ [base_of p]"
    "dn' = dn\<lparr>i_content := i_content dn', i_size := i_size dn'\<rparr>"
    by (rule make_inode_spec [OF assms(1-3) refl assms(4)])
  have "i_type dn = INODE_DIR" using assms(2) r(3) by (simp add: can_create_def)
  moreover have "i_type dn' = i_type dn"
    by (metis r(6) inode.ext_inject inode.surjective inode.update_convs(2,3))
  ultimately have "fs_map sb' (parent_of p) = Some dn'" "i_type dn' = INODE_DIR"
    using r(4) by simp_all
  then have "fisopfs_readdir sb' (parent_of p) 0 = Some (0, ''.'' # ''..'' # entries dn')"
    by (rule readdir_spec(1) [OF r(2)])
  with r show ?thesis unfolding fisopfs_create_def by metis
qed

lemma create_adds_file_witness:
  "\<exists>sb'. fisopfs_create demo_env demo_sb (''/g'' @ NUL # [NUL]) 420 =
      Some (sb', 0, ''/g'' @ NL # NUL # tl [NUL]) \<and> fs_inv sb'"
  using create_adds_file [OF demo_inv demo_can_create demo_alloc, of "[NUL]" 420] by blast

text \<open>C7. A listing of a live directory gives the two dot names and then the name of every live path
  directly below it, each once, and nothing else.\<close>

theorem readdir_lists_children:
  assumes "fs_inv sb" and "fs_map sb p = Some nd" and "i_type nd = INODE_DIR"
  shows "\<exists>names. fisopfs_readdir sb p 0 = Some (0, [''.'', ''..''] @ names) \<and>
      set names = {b. \<exists>q. fs_map sb q \<noteq> None \<and> valid_path q \<and> parent_of q = p \<and> base_of q = b} \<and>
      distinct names"
  using readdir_spec [OF assms] by (auto simp: children_def)

lemma readdir_lists_children_witness:
  "\<exists>names. fisopfs_readdir demo_sb ''/'' 0 = Some (0, [''.'', ''..''] @ names) \<and> distinct names"
  using readdir_lists_children [OF demo_inv demo_r] by blast

text \<open>A directory that was just made can be listed at once: it is empty, and it has the two
  links and the mode bits of a directory.\<close>

theorem mkdir_then_readdir:
  assumes "fs_inv sb" and "can_create sb p" and "\<forall>n. alloc_ok e n" and "slack \<noteq> []"
  shows "\<exists>sb' path' st. fisopfs_mkdir e sb (p @ NUL # slack) mode = Some (sb', 0, path') \<and>
      fs_inv sb' \<and> fisopfs_readdir sb' p 0 = Some (0, [''.'', ''..'']) \<and>
      fisopfs_getattr sb' p = Some (0, Some st) \<and>
      st_mode st = S_IFDIR OR 0x1ED \<and> st_nlink st = 2 \<and> st_size st = 1024"
proof -
  let ?nd = "new_inode e p mode INODE_DIR"
  obtain sb' dn dn' where r:
    "make_inode e sb (p @ NUL # slack) mode INODE_DIR = Some (sb', 0, p @ NL # NUL # tl slack)"
    "fs_inv sb'" "fs_map sb' = (fs_map sb)(p \<mapsto> ?nd, parent_of p \<mapsto> dn')"
    by (rule make_inode_spec [OF assms(1-3) refl assms(4)])
  have v: "valid_path p" using assms(2) by (simp add: can_create_def)
  then have p: "fs_map sb' p = Some ?nd" "NL \<notin> set p" "length p < MAX_PATH"
    using r(3) parent_of_shorter [OF v] by (auto simp: valid_path_def)
  have "entries ?nd = []" using entries_dir_ok [OF new_inode_entries] .
  then have "fisopfs_readdir sb' p 0 = Some (0, [''.'', ''..''])"
    using readdir_spec(1) [OF r(2) p(1)] by simp
  moreover have "fisopfs_getattr sb' p = Some (0, Some (stat_of ?nd))"
    using getattr_spec [OF r(2) p(1,2), of "[]"] p(3) by simp
  ultimately show ?thesis
    using r(1,2) by (auto simp: fisopfs_mkdir_def stat_of_def new_inode_def INITIAL_CONTENT_LENGTH_def)
qed

lemma mkdir_then_readdir_witness:
  "\<exists>sb' path'. fisopfs_mkdir demo_env demo_sb (''/g'' @ NUL # [NUL]) 493 = Some (sb', 0, path') \<and>
     fisopfs_readdir sb' ''/g'' 0 = Some (0, [''.'', ''..''])"
  using mkdir_then_readdir [OF demo_inv demo_can_create demo_alloc, of "[NUL]" 493] by blast

text \<open>The attributes asked for with the buffer that a creation gave back, whose text now ends in a
  newline: below 255 bytes the newline is cut off and the attributes are those of the new file;
  at exactly 255 bytes the copy into the 256-byte local array overflows.\<close>

theorem getattr_after_create:
  assumes "fs_inv sb" and "can_create sb p" and "\<forall>n. alloc_ok e n" and "slack \<noteq> []"
  shows "\<exists>sb'. fisopfs_create e sb (p @ NUL # slack) mode = Some (sb', 0, (p @ [NL]) @ NUL # tl slack) \<and>
      fisopfs_getattr sb' (p @ [NL]) =
        (if length p < 255 then Some (0, Some (stat_of (new_inode e p mode INODE_FILE))) else None)"
proof -
  let ?nd = "new_inode e p mode INODE_FILE"
  obtain sb' dn dn' where r:
    "make_inode e sb (p @ NUL # slack) mode INODE_FILE = Some (sb', 0, p @ NL # NUL # tl slack)"
    "fs_inv sb'" "fs_map sb' = (fs_map sb)(p \<mapsto> ?nd, parent_of p \<mapsto> dn')"
    by (rule make_inode_spec [OF assms(1-3) refl assms(4)])
  have v: "valid_path p" using assms(2) by (simp add: can_create_def)
  then have p: "fs_map sb' p = Some ?nd" "NL \<notin> set p" "length p < MAX_PATH"
    using r(3) parent_of_shorter [OF v] by (auto simp: valid_path_def)
  have "fisopfs_getattr sb' (p @ [NL]) = Some (0, Some (stat_of ?nd))" if "length p < 255"
    using getattr_spec [OF r(2) p(1,2), of "[NL]"] that by (simp add: MAX_PATH_def)
  moreover have "fisopfs_getattr sb' (p @ [NL]) = None" if "\<not> length p < 255"
    using that by (simp add: fisopfs_getattr_def MAX_PATH_def)
  ultimately show ?thesis using r(1) by (simp add: fisopfs_create_def)
qed

lemma getattr_after_create_witness:
  "\<exists>sb'. fisopfs_getattr sb' (''/g'' @ [NL]) =
     Some (0, Some (stat_of (new_inode demo_env ''/g'' 420 INODE_FILE)))"
  using getattr_after_create [OF demo_inv demo_can_create demo_alloc, of "[NUL]" 420] by auto

subsection \<open>Creations that go wrong\<close>

lemma create_after_inode:
  assumes inv: "fs_inv sb" and v: "valid_path p" and free: "fs_map sb p = None"
    and alloc: "\<forall>n. alloc_ok e n"
  obtains sb1 ns bs where "sb_rep sb1 ns bs"
    and "fs_map sb1 = (fs_map sb)(p \<mapsto> new_inode e p mode t)"
    and "make_inode e sb (p @ NUL # slack) mode t = do {
       (sb, result, path) \<leftarrow> add_dentry_to_parent_dir e sb1 (p @ NUL # slack);
       if result < 0 then Some (sb, result, path) else Some (sb, 0, path)
     }"
proof -
  from inv obtain ns0 bs0 where rep: "sb_rep sb ns0 bs0" and u: "uniq_paths ns0 bs0"
    and m: "fs_map sb = live_map ns0 bs0" by (rule fs_invE)
  from v have p: "length p < MAX_PATH" "NUL \<notin> set p" by (auto elim: valid_pathE)
  have f: "live_map ns0 bs0 p = None" using free m by simp
  obtain sb1 ns bs i where "create_inode e sb p mode t = Some (sb1, int i)" "sb_rep sb1 ns bs"
    "live_map ns bs = (live_map ns0 bs0)(p \<mapsto> new_inode e p mode t)"
    by (rule create_inode_ok [OF rep u f p(1) alloc])
  with that [of sb1 ns bs] m p(2) show thesis by (simp add: make_inode_def)
qed

text \<open>Creating a file whose line, with its newline, exactly fills what the parent's buffer has left
  writes the terminating NUL one byte past that buffer.\<close>

theorem create_exact_fit_overflows:
  assumes "fs_inv sb" and "valid_path p" and "fs_map sb p = None" and "\<forall>n. alloc_ok e n"
    and "slack \<noteq> []" and "fs_map sb (parent_of p) = Some dn" and "i_type dn = INODE_DIR"
    and "int (length (dir_text (entries dn)) + length (base_of p) + 1) = i_size dn"
  shows "fisopfs_create e sb (p @ NUL # slack) mode = None"
proof -
  let ?path = "p @ NUL # slack"
  obtain sb1 ns bs where rep: "sb_rep sb1 ns bs"
    and m: "fs_map sb1 = (fs_map sb)(p \<mapsto> new_inode e p mode INODE_FILE)"
    and run: "make_inode e sb ?path mode INODE_FILE = do {
       (sb, result, path) \<leftarrow> add_dentry_to_parent_dir e sb1 ?path;
       if result < 0 then Some (sb, result, path) else Some (sb, 0, path)
     }" by (rule create_after_inode [OF assms(1-4)])
  have dn: "live_map ns bs (parent_of p) = Some dn"
    using m fs_map_rep [OF rep] assms(6) parent_of_shorter [OF assms(2)] by simp
  obtain i where i: "search_inode sb1 (parent_of p) = Some (int i)"
    "arr_get (inodes sb1) i = Some dn" by (rule search_found [OF rep dn])
  from assms(2) obtain k where k: "strrchr_idx p (CHR ''/'') = Some k" "base_of p = drop (Suc k) p"
    "NUL \<notin> set p" "entry_ok (base_of p)" "k < length p" by (rule valid_pathE)
  have "tree_ok (fs_map sb)" by (metis assms(1) fs_invE)
  from tree_okD(1) [OF this assms(6)] assms(7)
  have ok: "dir_ok (i_content dn) (i_size dn) (entries dn)"
    by (simp add: node_ok_def dir_node_ok_def)
  have tail: "drop (Suc k) ?path = base_of p @ NUL # slack" using k by simp
  have fit: "exact_fit (i_size dn) (entries dn) (base_of p)" using assms(8) by (simp add: exact_fit_def)
  have "add_dentry_to_parent_dir e sb1 ?path = None"
    using k(1,3) get_parent_path_valid [OF assms(2,4)] i assms(7)
      add_dentry_exact_fit [OF ok k(4) tail assms(5) fit, of e]
    by (simp add: add_dentry_to_parent_dir_def)
  with run show ?thesis by (simp add: fisopfs_create_def)
qed

lemma create_exact_fit_overflows_witness:
  "fisopfs_create demo_env demo_sb (''/abcdefghijk'' @ NUL # [NUL]) 420 = None"
proof (rule create_exact_fit_overflows [OF demo_inv _ _ demo_alloc _ _ demo_r(2)])
  show "valid_path ''/abcdefghijk''" by (simp add: valid_path_def MAX_PATH_def)
  show "fs_map demo_sb ''/abcdefghijk'' = None" by (simp add: demo_map)
  show "fs_map demo_sb (parent_of ''/abcdefghijk'') = Some demo_root"
    by (simp add: demo_map parent_of_def)
  show "int (length (dir_text (entries demo_root)) + length (base_of ''/abcdefghijk'') + 1) =
      i_size demo_root"
    by (simp add: demo_entries demo_root_size dir_text_def base_of_def)
qed simp

text \<open>A creation whose parent does not exist is refused with \<open>-ENOENT\<close>, but only after the inode
  was allocated: the path stays live, no listing contains it, and the invariant is broken.\<close>

theorem create_without_parent_leaks:
  assumes "fs_inv sb" and "valid_path p" and "fs_map sb p = None" and "\<forall>n. alloc_ok e n"
    and "fs_map sb (parent_of p) = None"
  shows "\<exists>sb'. fisopfs_create e sb (p @ NUL # slack) mode = Some (sb', - ENOENT, p @ NUL # slack) \<and>
      fs_map sb' = (fs_map sb)(p \<mapsto> new_inode e p mode INODE_FILE) \<and> \<not> fs_inv sb'"
proof -
  let ?path = "p @ NUL # slack"
  obtain sb1 ns bs where rep: "sb_rep sb1 ns bs"
    and m: "fs_map sb1 = (fs_map sb)(p \<mapsto> new_inode e p mode INODE_FILE)"
    and run: "make_inode e sb ?path mode INODE_FILE = do {
       (sb, result, path) \<leftarrow> add_dentry_to_parent_dir e sb1 ?path;
       if result < 0 then Some (sb, result, path) else Some (sb, 0, path)
     }" by (rule create_after_inode [OF assms(1-4)])
  have none: "fs_map sb1 (parent_of p) = None"
    using m assms(5) parent_of_shorter [OF assms(2)] by simp
  from assms(2) have "NUL \<notin> set p" by (auto elim: valid_pathE)
  then have "add_dentry_to_parent_dir e sb1 ?path = Some (sb1, - ENOENT, ?path)"
    using get_parent_path_valid [OF assms(2,4)] search_missing [OF rep] none fs_map_rep [OF rep]
    by (simp add: add_dentry_to_parent_dir_def)
  then have "fisopfs_create e sb ?path mode = Some (sb1, - ENOENT, ?path)"
    using run by (simp add: fisopfs_create_def ENOENT_def)
  moreover have "\<not> fs_inv sb1"
  proof
    assume "fs_inv sb1"
    then have t: "tree_ok (fs_map sb1)" by (metis fs_invE)
    have "fs_map sb1 p = Some (new_inode e p mode INODE_FILE)" using m by simp
    moreover have "p \<noteq> ''/''" using assms(2) by auto
    ultimately have "is_dir (fs_map sb1) (parent_of p)" using tree_okD(3) [OF t] by blast
    with none show False by (simp add: is_dir_def)
  qed
  ultimately show ?thesis using m by blast
qed

lemma create_without_parent_leaks_witness:
  "\<exists>sb'. fisopfs_create demo_env demo_sb (''/x/y'' @ NUL # [NUL]) 420 =
     Some (sb', - ENOENT, ''/x/y'' @ NUL # [NUL]) \<and> \<not> fs_inv sb'"
proof -
  have "valid_path ''/x/y''" "fs_map demo_sb ''/x/y'' = None" "fs_map demo_sb (parent_of ''/x/y'') = None"
    by (simp_all add: valid_path_def MAX_PATH_def demo_map parent_of_def)
  from create_without_parent_leaks [OF demo_inv this(1,2) demo_alloc this(3), of "[NUL]" 420]
  show ?thesis by blast
qed

text \<open>The length check of a new path: up to 255 bytes the inode is made, from 257 bytes on it is
  refused with \<open>-ENAMETOOLONG\<close>, and at 256 bytes the copy overflows the inode's path array.\<close>

theorem create_inode_path_length:
  assumes "fs_inv sb" and "fs_map sb p = None" and "\<forall>n. alloc_ok e n"
  shows "case create_inode e sb p mode t of
      None \<Rightarrow> length p = 256
    | Some (sb', r) \<Rightarrow> (if length p < 256 then 0 \<le> r \<and> fs_map sb' = (fs_map sb)(p \<mapsto> new_inode e p mode t)
        else 256 < length p \<and> sb' = sb \<and> r = - ENAMETOOLONG)"
proof -
  from assms(1) obtain ns bs where rep: "sb_rep sb ns bs" and u: "uniq_paths ns bs"
    and m: "fs_map sb = live_map ns bs" by (rule fs_invE)
  have f: "live_map ns bs p = None" using assms(2) m by simp
  consider "length p < 256" | "length p = 256" | "256 < length p" by linarith
  then show ?thesis
  proof cases
    case 1
    then have "length p < MAX_PATH" by (simp add: MAX_PATH_def)
    from create_inode_ok [OF rep u f this assms(3)] obtain sb' ns' bs' i where
      "create_inode e sb p mode t = Some (sb', int i)" "sb_rep sb' ns' bs'"
      "live_map ns' bs' = (live_map ns bs)(p \<mapsto> new_inode e p mode t)" by metis
    with 1 m show ?thesis by simp
  next
    case 2
    have "fill_inode e sb' i p mode t = None" for sb' i
      using 2 by (simp add: fill_inode_def MAX_PATH_def split: Option.bind_split)
    moreover obtain sb1 where "grow_table e sb = Some (sb1, 0)"
      using grow_table_ok [OF rep assms(3)] by blast
    ultimately have "create_inode e sb p mode t = None"
      using 2 by (auto simp: create_inode_def MAX_PATH_def split: Option.bind_split)
    with 2 show ?thesis by simp
  next
    case 3
    then show ?thesis by (simp add: create_inode_def MAX_PATH_def)
  qed
qed

lemma create_inode_path_length_witness:
  "create_inode demo_env demo_sb (replicate 257 CHR ''a'') 420 INODE_FILE =
     Some (demo_sb, - ENAMETOOLONG)"
proof -
  have "replicate 257 CHR ''a'' \<notin> {''/'', ''/f'', ''/d''}"
    by (auto dest: arg_cong [where f = length])
  then have "fs_map demo_sb (replicate 257 CHR ''a'') = None"
    by (simp add: demo_map)
  from create_inode_path_length [OF demo_inv this demo_alloc, of 420 INODE_FILE]
  show ?thesis by (auto split: option.splits)
qed

subsection \<open>Removing\<close>

text \<open>C5. Unlinking a file removes exactly its path from the map and exactly its name from the parent's
  listing, keeps the invariant, and the path is then unknown to every lookup.\<close>

theorem unlink_removes_file:
  assumes "fs_inv sb" and "fs_map sb p = Some nd" and "i_type nd = INODE_FILE"
    and "\<forall>n. alloc_ok e n"
  shows "\<exists>sb' dn dn'. fisopfs_unlink e sb p = Some (sb', 0) \<and> fs_inv sb' \<and>
      fs_map sb (parent_of p) = Some dn \<and>
      fs_map sb' = (fs_map sb)(p := None, parent_of p \<mapsto> dn') \<and>
      fisopfs_readdir sb' (parent_of p) 0 =
        Some (0, ''.'' # ''..'' # filter (\<lambda>x. x \<noteq> base_of p) (entries dn)) \<and>
      fisopfs_unlink e sb' p = Some (sb', - ENOENT)"
proof -
  obtain sb' dn dn' where r: "fisopfs_unlink e sb p = Some (sb', 0)" "fs_inv sb'"
    "fs_map sb (parent_of p) = Some dn" "fs_map sb' = (fs_map sb)(p := None, parent_of p \<mapsto> dn')"
    "entries dn' = filter (\<lambda>x. x \<noteq> base_of p) (entries dn)"
    "dn' = dn\<lparr>i_content := i_content dn', i_size := i_size dn\<rparr>"
    by (rule unlink_spec [OF assms])
  have t: "tree_ok (fs_map sb)" by (metis assms(1) fs_invE)
  have root: "p \<noteq> ''/''" using t assms(2,3) by (auto simp: tree_ok_def is_dir_def)
  from tree_okD(2,3) [OF t assms(2) root] r(3)
  have v: "valid_path p" and "i_type dn = INODE_DIR" by (auto simp: is_dir_def)
  then have "i_type dn' = INODE_DIR"
    by (metis r(6) inode.ext_inject inode.surjective inode.update_convs(2,3))
  moreover have "fs_map sb' (parent_of p) = Some dn'" "fs_map sb' p = None"
    using r(4) parent_of_shorter [OF v] by simp_all
  ultimately have "fisopfs_readdir sb' (parent_of p) 0 = Some (0, ''.'' # ''..'' # entries dn')"
    and "fisopfs_unlink e sb' p = Some (sb', - ENOENT)"
    using readdir_spec(1) [OF r(2)] missing_path(5) [OF r(2)] by blast+
  with r show ?thesis by metis
qed

lemma unlink_removes_file_witness:
  "\<exists>sb'. fisopfs_unlink demo_env demo_sb ''/f'' = Some (sb', 0) \<and> fs_inv sb' \<and>
     fisopfs_unlink demo_env sb' ''/f'' = Some (sb', - ENOENT)"
  using unlink_removes_file [OF demo_inv demo_f demo_alloc] by blast

text \<open>C6. Removing a directory: one that still has an entry is refused with \<open>-ENOTEMPTY\<close> and nothing
  changes; an empty one disappears from the map and from its parent's listing.\<close>

theorem rmdir_only_empty:
  assumes "fs_inv sb" and "fs_map sb p = Some nd" and "i_type nd = INODE_DIR" and "p \<noteq> ''/''"
    and "\<forall>n. alloc_ok e n"
  shows "if children (fs_map sb) p \<noteq> {} then fisopfs_rmdir e sb p = Some (sb, - ENOTEMPTY)
    else \<exists>sb' dn dn'. fisopfs_rmdir e sb p = Some (sb', 0) \<and> fs_inv sb' \<and>
      fs_map sb (parent_of p) = Some dn \<and>
      fs_map sb' = (fs_map sb)(p := None, parent_of p \<mapsto> dn') \<and>
      entries dn' = filter (\<lambda>x. x \<noteq> base_of p) (entries dn)"
  using rmdir_spec [OF assms] by (cases "children (fs_map sb) p = {}") simp_all

lemma rmdir_only_empty_witness:
  "\<exists>sb'. fisopfs_rmdir demo_env demo_sb ''/d'' = Some (sb', 0) \<and> fs_inv sb'"
proof -
  have "''/d'' \<noteq> ''/''" by simp
  from rmdir_only_empty [OF demo_inv demo_d this demo_alloc] show ?thesis
    by (auto simp: demo_children)
qed

subsection \<open>Contents\<close>

text \<open>C3. Writing bytes at an offset: afterwards the file holds the old bytes before the offset, zeros up to
  it when the file was shorter, and then the bytes written, as its last bytes: what the file
  had behind them is cut off. Every other path is untouched.\<close>

theorem write_effect:
  assumes "fs_inv sb" and "fs_map sb p = Some nd" and "i_type nd = INODE_FILE"
    and "0 \<le> off" and "off + int (length bytes) < 2 ^ 30" and "\<forall>n. alloc_ok e n"
  shows "\<exists>sb' nd'. fisopfs_write e sb p bytes off = Some (sb', int (length bytes)) \<and>
      fs_inv sb' \<and> fs_map sb' = (fs_map sb)(p \<mapsto> nd') \<and>
      file_data nd' = take (nat off) (file_data nd @ replicate (nat off) NUL) @ bytes \<and>
      i_size nd' = off + int (length bytes) \<and> last_modification nd' = now e"
proof -
  obtain sb' nd' where r: "fisopfs_write e sb p bytes off = Some (sb', int (length bytes))"
    "fs_inv sb'" "fs_map sb' = (fs_map sb)(p \<mapsto> nd')"
    "file_data nd' = take (nat off) (file_data nd @ replicate (nat off) NUL) @ bytes"
    "i_size nd' = off + int (length bytes)"
    "nd' = nd\<lparr>i_content := i_content nd', i_size := i_size nd', last_modification := now e\<rparr>"
    by (rule write_spec [OF assms])
  from r(6) have "last_modification nd' = now e"
    by (metis inode.select_convs(6) inode.surjective inode.update_convs(6))
  with r(1-5) show ?thesis by blast
qed

lemma write_effect_witness:
  "\<exists>sb' nd'. fisopfs_write demo_env demo_sb ''/f'' ''EY'' 1 = Some (sb', 2) \<and>
     fs_map sb' ''/f'' = Some nd' \<and> file_data nd' = ''hEY''"
proof -
  have "file_data demo_file = ''hello''" by (simp add: file_data_def demo_nodes)
  then show ?thesis using write_effect [OF demo_inv demo_f, of 1 "''EY''" demo_env] demo_alloc by auto
qed

text \<open>C2. What was written is read back: a read of the same length at the same offset gives the bytes.\<close>

theorem write_read_roundtrip:
  assumes "fs_inv sb" and "fs_map sb p = Some nd" and "i_type nd = INODE_FILE"
    and "0 \<le> off" and "off + int (length bytes) < 2 ^ 30" and "\<forall>n. alloc_ok e n"
  shows "\<exists>sb1 sb2. fisopfs_write e sb p bytes off = Some (sb1, int (length bytes)) \<and>
      fisopfs_read e' sb1 p (length bytes) off = Some (sb2, int (length bytes), bytes)"
proof -
  obtain sb1 nd1 where r: "fisopfs_write e sb p bytes off = Some (sb1, int (length bytes))"
    "fs_inv sb1" "fs_map sb1 = (fs_map sb)(p \<mapsto> nd1)"
    "file_data nd1 = take (nat off) (file_data nd @ replicate (nat off) NUL) @ bytes"
    "i_size nd1 = off + int (length bytes)"
    "nd1 = nd\<lparr>i_content := i_content nd1, i_size := i_size nd1, last_modification := now e\<rparr>"
    by (rule write_spec [OF assms])
  from r(6) have t: "i_type nd1 = INODE_FILE"
    by (metis assms(3) inode.ext_inject inode.surjective inode.update_convs(2,3,6))
  have p: "fs_map sb1 p = Some nd1" using r(3) by simp
  have off: "off \<le> i_size nd1" "length bytes < 2 ^ 31" using r(5) assms(4,5) by auto
  have "take (length bytes) (drop (nat off) (file_data nd1)) = bytes" using r(4) by simp
  with read_spec [OF r(2) p t assms(4) off(1,2), of e'] r(1) show ?thesis by metis
qed

lemma write_read_roundtrip_witness:
  "\<exists>sb1 sb2. fisopfs_write demo_env demo_sb ''/f'' ''EY'' 1 = Some (sb1, 2) \<and>
     fisopfs_read demo_env sb1 ''/f'' 2 1 = Some (sb2, 2, ''EY'')"
  using write_read_roundtrip [OF demo_inv demo_f, of 1 "''EY''" demo_env demo_env] demo_alloc
  by (auto simp: numeral_2_eq_2)

text \<open>C8. A read: inside the file it gives the bytes from the offset on, as many as were asked for or are
  there; from an offset past the end the remaining size wraps around as an unsigned number,
  and the copy leaves the buffer.\<close>

theorem read_effect:
  assumes "fs_inv sb" and "fs_map sb p = Some nd" and "i_type nd = INODE_FILE"
    and "0 \<le> off" and "off < 2 ^ 31" and "sz < 2 ^ 31"
  shows "if off \<le> i_size nd
    then \<exists>sb'. fisopfs_read e sb p sz off =
           Some (sb', int (min sz (nat (i_size nd - off))), take sz (drop (nat off) (file_data nd))) \<and>
         fs_inv sb' \<and> fs_map sb' = (fs_map sb)(p \<mapsto> nd\<lparr>last_access := now e\<rparr>)
    else fisopfs_read e sb p sz off = None"
proof (cases "off \<le> i_size nd")
  case True
  obtain m where "length (file_data nd) = nat (i_size nd)" by (rule file_okD [OF assms(1-3)])
  then have "length (take sz (drop (nat off) (file_data nd))) = min sz (nat (i_size nd - off))"
    using True assms(4) by (simp add: nat_diff_distrib min.commute)
  with True read_spec [OF assms(1-4) True assms(6), of e] show ?thesis by metis
next
  case False
  then show ?thesis using read_past_end [OF assms(1-3) _ assms(5,6), of e] by simp
qed

lemma read_effect_witness: "fisopfs_read demo_env demo_sb ''/f'' 4 6 = None"
  using read_effect [OF demo_inv demo_f, of 6 4 demo_env] by (simp add: demo_nodes)

text \<open>Truncating to a nonzero size is defined exactly when the new size fits into the old buffer and
  the file's text, up to its first NUL, is shorter than the new size: growing reads past the
  old buffer, and cutting into the text writes past the new one. When it is defined, the file
  keeps its first bytes.\<close>

theorem truncate_defined_iff:
  assumes "fs_inv sb" and "fs_map sb p = Some nd" and "i_type nd = INODE_FILE"
    and "i_content nd = Mem m" and "0 < sz" and "sz < 2 ^ 31" and "\<forall>n. alloc_ok e n"
  shows "if (\<exists>text. c_string m = Some text \<and> int (length text) < sz) \<and> sz \<le> int (length m)
    then \<exists>sb'. fisopfs_truncate e sb p sz = Some (sb', 0) \<and> fs_inv sb' \<and>
      fs_map sb' = (fs_map sb)(p \<mapsto> nd\<lparr>i_content := Mem (take (nat sz) m), i_size := sz,
                                      last_modification := now e\<rparr>)
    else fisopfs_truncate e sb p sz = None"
proof (cases "fisopfs_truncate e sb p sz")
  case None
  then show ?thesis using truncate_nonzero_spec(1) [OF assms] by simp
next
  case (Some x)
  then obtain sb' r where "fisopfs_truncate e sb p sz = Some (sb', r)" by (cases x) simp
  with truncate_nonzero_spec [OF assms] show ?thesis by auto
qed

lemma truncate_defined_iff_witness: "fisopfs_truncate demo_env demo_sb ''/f'' 3 = None"
proof -
  have "i_content demo_file = Mem (''hello'' @ [NUL, NUL, NUL])" by (simp add: demo_nodes)
  from truncate_defined_iff [OF demo_inv demo_f this, of 3 demo_env] show ?thesis
    by (simp add: demo_alloc)
qed

subsection \<open>The invariant over all calls\<close>

text \<open>C1. A well-formed file system stays well-formed under every sequence of calls as FUSE makes them while memory
  lasts: every live path but the root has a live parent directory that lists it, listings have no duplicates, and
  every file's size lies inside its buffer. As FUSE makes them (\<open>fs_step\<close>): \<open>create\<close> and \<open>mkdir\<close>
  only of a fresh, canonical, newline-free path below a live directory, never \<open>rmdir\<close> of the root, files below a
  gigabyte; while memory lasts: every allocation succeeds, and the new entry does not fill its parent's buffer exactly
  (\<open>create_exact_fit_overflows\<close>). Outside of these conditions the code breaks the invariant: a creation without
  a live parent leaves a live inode that no directory lists (\<open>create_without_parent_leaks\<close>).\<close>

theorem fs_steps_keep_invariant:
  assumes "fs_step\<^sup>*\<^sup>* sb sb'" and "fs_inv sb"
  shows "fs_inv sb'"
  using assms by (induction rule: rtranclp_induct) (auto intro: fs_step_inv)

lemma fs_steps_keep_invariant_witness:
  "\<exists>sb'. fs_step\<^sup>*\<^sup>* demo_sb sb' \<and> fs_inv sb' \<and> fs_map sb' ''/f'' = None"
proof -
  obtain sb' dn dn' where r: "fisopfs_unlink demo_env demo_sb ''/f'' = Some (sb', 0)"
    "fs_map sb' = (fs_map demo_sb)(''/f'' := None, parent_of ''/f'' \<mapsto> dn')"
    by (rule unlink_spec [OF demo_inv demo_f demo_alloc])
  then have step: "fs_step\<^sup>*\<^sup>* demo_sb sb'"
    using fs_step.unlink [OF demo_alloc] by blast
  from fs_steps_keep_invariant [OF step demo_inv] step r(2) show ?thesis
    by (auto simp: demo_paths)
qed

end
