(* ===== verification/FisopDisk.thy ===== *)
theory FisopDisk
  imports FisopProps
begin

text \<open>
  The disk image: \<open>serialize\<close> and \<open>deserialize\<close> of \<open>fisopfs/file.c\<close> and the handlers
  \<open>init\<close> and \<open>destroy\<close> of \<open>fisopfs/fisopfs.c\<close>. The image is the number of live inodes
  and then, for each, the bytes of its \<open>struct inode\<close> in the x86-64 layout (312 bytes,
  with the address of its buffer and four bytes of padding) and its content. The locale
  \<open>codec\<close> is the interface of a fixed-width encoding; it is interpreted on the integer
  fields and on the whole struct.
\<close>

subsection \<open>Fixed-width encodings\<close>

locale codec =
  fixes enc :: "'a \<Rightarrow> char list" and dec :: "char list \<Rightarrow> 'a option"
    and width :: nat and ok :: "'a \<Rightarrow> bool"
  assumes enc_length: "ok x \<Longrightarrow> length (enc x) = width"
    and dec_enc: "ok x \<Longrightarrow> dec (enc x) = Some x"
begin

lemma split_enc:
  assumes "ok x"
  shows "dec (take width (enc x @ rest)) = Some x" and "drop width (enc x @ rest) = rest"
  using enc_length [OF assms] dec_enc [OF assms] by simp_all

lemma enc_inj: "ok x \<Longrightarrow> ok y \<Longrightarrow> enc x = enc y \<Longrightarrow> x = y"
  using dec_enc by (metis option.inject)

end

fun le_bytes :: "nat \<Rightarrow> int \<Rightarrow> char list" where
  "le_bytes 0 x = []"
| "le_bytes (Suc n) x = char_of (nat (x mod 256)) # le_bytes n (x div 256)"

fun le_val :: "char list \<Rightarrow> int" where
  "le_val [] = 0"
| "le_val (c # cs) = int (of_char c) + 256 * le_val cs"

lemma length_le_bytes [simp]: "length (le_bytes n x) = n"
  by (induction n arbitrary: x) auto

lemma le_val_le_bytes: "le_val (le_bytes n x) = x mod 256 ^ n"
proof (induction n arbitrary: x)
  case (Suc n)
  have "int (of_char (char_of (nat (x mod 256)) :: char)) = x mod 256"
    by (simp add: nat_less_iff)
  then show ?case using Suc by (simp add: zmod_zmult2_eq)
qed simp

definition signed_of :: "nat \<Rightarrow> int \<Rightarrow> int" where
  "signed_of w x = (x + 2 ^ (w - 1)) mod 2 ^ w - 2 ^ (w - 1)"

definition in_signed :: "nat \<Rightarrow> int \<Rightarrow> bool" where
  "in_signed w x \<longleftrightarrow> - (2 ^ (w - 1)) \<le> x \<and> x < 2 ^ (w - 1)"

definition in_unsigned :: "nat \<Rightarrow> int \<Rightarrow> bool" where
  "in_unsigned w x \<longleftrightarrow> 0 \<le> x \<and> x < 2 ^ w"

definition dec_signed :: "char list \<Rightarrow> int option" where
  "dec_signed bs = Some (signed_of (8 * length bs) (le_val bs))"

definition dec_unsigned :: "char list \<Rightarrow> int option" where
  "dec_unsigned bs = Some (le_val bs)"

lemma signed_of_mod:
  assumes "in_signed w x" and "0 < w"
  shows "signed_of w (x mod 2 ^ w) = x"
proof -
  have "(2::int) ^ w = 2 * 2 ^ (w - 1)" using assms(2) by (cases w) simp_all
  then have "(x + 2 ^ (w - 1)) mod 2 ^ w = x + 2 ^ (w - 1)"
    using assms(1) by (intro mod_pos_pos_trivial) (auto simp: in_signed_def)
  moreover have "(x mod 2 ^ w + 2 ^ (w - 1)) mod 2 ^ w = (x + 2 ^ (w - 1)) mod 2 ^ w"
    by (simp add: mod_add_left_eq)
  ultimately show ?thesis by (simp add: signed_of_def)
qed

lemma power_256: "(256::int) ^ n = 2 ^ (8 * n)"
  by (simp add: power_mult)

lemma dec_signed_le_bytes: "in_signed (8 * n) x \<Longrightarrow> 0 < n \<Longrightarrow> dec_signed (le_bytes n x) = Some x"
  by (simp add: dec_signed_def le_val_le_bytes power_256 signed_of_mod)

lemma dec_unsigned_le_bytes: "in_unsigned (8 * n) x \<Longrightarrow> dec_unsigned (le_bytes n x) = Some x"
  by (simp add: dec_unsigned_def le_val_le_bytes power_256 in_unsigned_def)

interpretation s32: codec "le_bytes 4" dec_signed 4 "in_signed 32"
  using dec_signed_le_bytes [of 4] by unfold_locales simp_all

interpretation s64: codec "le_bytes 8" dec_signed 8 "in_signed 64"
  using dec_signed_le_bytes [of 8] by unfold_locales simp_all

interpretation u32: codec "le_bytes 4" dec_unsigned 4 "in_unsigned 32"
  using dec_unsigned_le_bytes [of 4] by unfold_locales simp_all

subsection \<open>The layout of an inode\<close>

definition type_code :: "inode_type \<Rightarrow> int" where
  "type_code t = (case t of INODE_FILE \<Rightarrow> 0 | INODE_DIR \<Rightarrow> 1)"

definition type_of_code :: "int \<Rightarrow> inode_type option" where
  "type_of_code c = (if c = 0 then Some INODE_FILE else if c = 1 then Some INODE_DIR else None)"

text \<open>\<open>ptr\<close> is the address in the content field; the struct's last four bytes are padding.\<close>

definition inode_bytes :: "int \<Rightarrow> inode \<Rightarrow> char list" where
  "inode_bytes ptr nd =
     i_path nd @ replicate (MAX_PATH - length (i_path nd)) NUL @ le_bytes 8 ptr @
     le_bytes 4 (i_size nd) @ le_bytes 4 (type_code (i_type nd)) @
     le_bytes 8 (last_access nd) @ le_bytes 8 (last_modification nd) @
     le_bytes 8 (creation_time nd) @ le_bytes 4 (i_group nd) @ le_bytes 4 (i_owner nd) @
     le_bytes 4 (permissions nd) @ replicate 4 NUL"

text \<open>
  Reading the struct back. The content pointer is dangling until it is overwritten; a path
  without a NUL and a type that is no value of the enumeration have no meaning here.
\<close>

definition inode_of_bytes :: "char list \<Rightarrow> inode option" where
  "inode_of_bytes bs = do {
     path \<leftarrow> c_string (take MAX_PATH bs);
     let bs = drop MAX_PATH bs;
     let bs = drop 8 bs;
     sz \<leftarrow> dec_signed (take 4 bs);
     let bs = drop 4 bs;
     code \<leftarrow> dec_signed (take 4 bs);
     type \<leftarrow> type_of_code code;
     let bs = drop 4 bs;
     atime \<leftarrow> dec_signed (take 8 bs);
     let bs = drop 8 bs;
     mtime \<leftarrow> dec_signed (take 8 bs);
     let bs = drop 8 bs;
     ctime \<leftarrow> dec_signed (take 8 bs);
     let bs = drop 8 bs;
     gid \<leftarrow> dec_unsigned (take 4 bs);
     let bs = drop 4 bs;
     uid \<leftarrow> dec_unsigned (take 4 bs);
     let bs = drop 4 bs;
     mode \<leftarrow> dec_unsigned (take 4 bs);
     Some \<lparr>i_path = path, i_content = Null, i_size = sz, i_type = type, last_access = atime,
       last_modification = mtime, creation_time = ctime, i_group = gid, i_owner = uid,
       permissions = mode\<rparr>
   }"

definition fields_ok :: "inode \<Rightarrow> bool" where
  "fields_ok nd \<longleftrightarrow> NUL \<notin> set (i_path nd) \<and> length (i_path nd) < MAX_PATH \<and>
     in_signed 32 (i_size nd) \<and> in_signed 64 (last_access nd) \<and>
     in_signed 64 (last_modification nd) \<and> in_signed 64 (creation_time nd) \<and>
     in_unsigned 32 (i_group nd) \<and> in_unsigned 32 (i_owner nd) \<and> in_unsigned 32 (permissions nd)"

lemma type_code_ok: "in_signed 32 (type_code t)" "type_of_code (type_code t) = Some t"
  by (cases t; simp add: type_code_def type_of_code_def in_signed_def)+

lemma inode_of_bytes_bytes:
  assumes "fields_ok nd"
  shows "inode_of_bytes (inode_bytes ptr nd) = Some (nd\<lparr>i_content := Null\<rparr>)"
proof -
  let ?pad = "i_path nd @ replicate (MAX_PATH - length (i_path nd)) NUL"
  have path: "c_string ?pad = Some (i_path nd)" and len: "length ?pad = MAX_PATH"
    using assms by (auto simp: fields_ok_def c_string_append Suc_diff_Suc [symmetric])
  have assoc: "inode_bytes ptr nd = ?pad @ drop MAX_PATH (inode_bytes ptr nd)"
    using len by (simp add: inode_bytes_def)
  show ?thesis
    using assms type_code_ok [of "i_type nd"] path len
    unfolding inode_of_bytes_def Let_def fields_ok_def
    by (cases nd) (simp add: inode_bytes_def s32.split_enc s64.split_enc u32.split_enc
        s32.dec_enc s64.dec_enc u32.dec_enc)
qed

lemma length_inode_bytes: "length (i_path nd) \<le> MAX_PATH \<Longrightarrow> length (inode_bytes ptr nd) = sizeof_inode"
  by (simp add: inode_bytes_def sizeof_inode_def MAX_PATH_def)

interpretation struct_inode: codec "inode_bytes ptr" inode_of_bytes sizeof_inode
    "\<lambda>nd. fields_ok nd \<and> i_content nd = Null" for ptr
proof
  fix nd assume "fields_ok nd \<and> i_content nd = Null"
  then show "length (inode_bytes ptr nd) = sizeof_inode" "inode_of_bytes (inode_bytes ptr nd) = Some nd"
    using inode_of_bytes_bytes [of nd ptr]
    by (auto simp: length_inode_bytes fields_ok_def)
qed

subsection \<open>Files of the host\<close>

text \<open>
  An open file of the host: its bytes, the position, and which of its calls fail. A read
  gives as many bytes as there are, and a failed call is \<open>None\<close>.
\<close>

record hostfile =
  hf_data :: "char list"
  hf_pos :: nat
  hf_fails :: "nat \<Rightarrow> bool"
  hf_calls :: nat

definition file_read :: "hostfile \<Rightarrow> nat \<Rightarrow> hostfile \<times> char list option" where
  "file_read f n =
     (let bytes = take n (drop (hf_pos f) (hf_data f)); g = f\<lparr>hf_calls := Suc (hf_calls f)\<rparr> in
      if hf_fails f (hf_calls f) then (g, None)
      else (g\<lparr>hf_pos := hf_pos f + length bytes\<rparr>, Some bytes))"

definition file_write :: "hostfile \<Rightarrow> char list \<Rightarrow> hostfile \<times> bool" where
  "file_write f bytes =
     (let g = f\<lparr>hf_calls := Suc (hf_calls f)\<rparr> in
      if hf_fails f (hf_calls f) then (g, False)
      else (g\<lparr>hf_data := take (hf_pos f) (hf_data f) @ bytes @ drop (hf_pos f + length bytes) (hf_data f),
              hf_pos := hf_pos f + length bytes\<rparr>, True))"

definition host_open :: "(nat \<Rightarrow> bool) \<Rightarrow> char list \<Rightarrow> hostfile" where
  "host_open fails bytes = \<lparr>hf_data = bytes, hf_pos = 0, hf_fails = fails, hf_calls = 0\<rparr>"

subsection \<open>Saving\<close>

text \<open>The for-loops run over the list of indices. \<open>addr\<close> is the address of each buffer.\<close>

fun count_live :: "superblock \<Rightarrow> nat list \<Rightarrow> int option" where
  "count_live sb [] = Some 0"
| "count_live sb (i # is) = do {
     b \<leftarrow> arr_get (inode_bitmap sb) i;
     n \<leftarrow> count_live sb is;
     Some (if b = 1 then n + 1 else n)
   }"

fun save_loop :: "(nat \<Rightarrow> int) \<Rightarrow> superblock \<Rightarrow> nat list \<Rightarrow> hostfile \<Rightarrow> (hostfile \<times> bool) option" where
  "save_loop addr sb [] f = Some (f, False)"
| "save_loop addr sb (i # is) f = do {
     b \<leftarrow> arr_get (inode_bitmap sb) i;
     if b \<noteq> 1 then save_loop addr sb is f
     else do {
       nd \<leftarrow> arr_get (inodes sb) i;
       let (f, ok1) = file_write f (inode_bytes (addr i) nd);
       content \<leftarrow> (if i_size nd = 0 then Some [] else deref (i_content nd));
       bytes \<leftarrow> mem_read content 0 (size_t (i_size nd));
       let (f, ok2) = file_write f bytes;
       if \<not> ok1 \<or> \<not> ok2 then Some (f, True) else save_loop addr sb is f
     }
   }"

fun free_contents :: "superblock \<Rightarrow> nat list \<Rightarrow> superblock option" where
  "free_contents sb [] = Some sb"
| "free_contents sb (i # is) = do {
     nd \<leftarrow> arr_get (inodes sb) i;
     freed \<leftarrow> free_block (i_content nd);
     ns \<leftarrow> arr_set (inodes sb) i (nd\<lparr>i_content := freed\<rparr>);
     free_contents (sb\<lparr>inodes := ns\<rparr>) is
   }"

fun live_indices :: "superblock \<Rightarrow> nat list \<Rightarrow> nat list option" where
  "live_indices sb [] = Some []"
| "live_indices sb (i # is) = do {
     b \<leftarrow> arr_get (inode_bitmap sb) i;
     js \<leftarrow> live_indices sb is;
     Some (if b = 1 then i # js else js)
   }"

definition serialize :: "(nat \<Rightarrow> int) \<Rightarrow> superblock \<Rightarrow> hostfile \<Rightarrow> (superblock \<times> hostfile) option" where
  "serialize addr sb f = do {
     let all = [0..<nat (inode_amount sb)];
     n \<leftarrow> count_live sb all;
     let (f, _) = file_write f (le_bytes 4 n);
     (f, err) \<leftarrow> save_loop addr sb all f;
     if err then Some (sb, f)
     else do {
       live \<leftarrow> live_indices sb all;
       sb \<leftarrow> free_contents sb live;
       Some (sb, f)
     }
   }"

subsection \<open>Loading\<close>

text \<open>
  The loop of \<open>deserialize\<close>: it returns the number of slots filled and whether it stopped
  at an error. A null inode array makes the host's \<open>read\<close> fail. The struct is read over a
  zeroed slot, so a short read leaves zeros.
\<close>

function load_loop :: "fsys \<Rightarrow> superblock \<Rightarrow> hostfile \<Rightarrow> int \<Rightarrow> nat \<Rightarrow>
    (superblock \<times> hostfile \<times> nat \<times> bool) option" where
  "load_loop e sb f n i =
     (if int i < n then
        (if inodes sb = Null then Some (sb, f, i, True)
         else case file_read f sizeof_inode of
           (f, None) \<Rightarrow> Some (sb, f, i, True)
         | (f, Some []) \<Rightarrow> Some (sb, f, i, False)
         | (f, Some bytes) \<Rightarrow> do {
             nd \<leftarrow> inode_of_bytes (bytes @ replicate (sizeof_inode - length bytes) NUL);
             case calloc e NUL 1 (size_t (i_size nd)) of
               Mem m \<Rightarrow> do {
                 ns \<leftarrow> arr_set (inodes sb) i (nd\<lparr>i_content := Mem m\<rparr>);
                 bm \<leftarrow> arr_set (inode_bitmap sb) i 1;
                 let sb = sb\<lparr>inodes := ns, inode_bitmap := bm\<rparr>;
                 (case file_read f (size_t (i_size nd)) of
                    (f, None) \<Rightarrow> Some (sb, f, Suc i, True)
                  | (f, Some content) \<Rightarrow> do {
                      m \<leftarrow> mem_write m 0 content;
                      ns \<leftarrow> arr_set (inodes sb) i (nd\<lparr>i_content := Mem m\<rparr>);
                      load_loop e (sb\<lparr>inodes := ns\<rparr>) f n (Suc i)
                    })
               }
             | _ \<Rightarrow> do {
                 ns \<leftarrow> arr_set (inodes sb) i (nd\<lparr>i_content := Null\<rparr>);
                 Some (sb\<lparr>inodes := ns\<rparr>, f, i, True)
               }
           })
      else Some (sb, f, i, False))"
  by pat_completeness auto
termination
  by (relation "measure (\<lambda>(e, sb, f, n, i). nat (n - int i))") auto

declare load_loop.simps [simp del]

definition deserialize :: "fsys \<Rightarrow> hostfile \<Rightarrow> (superblock \<times> hostfile) option" where
  "deserialize e f = do {
     let (f, r) = file_read f 4;
     n \<leftarrow> (case r of None \<Rightarrow> Some 0
           | Some bytes \<Rightarrow> dec_signed (bytes @ replicate (4 - length bytes) NUL));
     let sb = \<lparr>inodes = calloc e blank_inode sizeof_inode (size_t n),
               inode_bitmap = calloc e 0 sizeof_int (size_t n), inode_amount = n\<rparr>;
     (sb, f, i, err) \<leftarrow> load_loop e sb f n 0;
     if err then do {
       sb \<leftarrow> free_contents sb [0..<i];
       free_block (inodes sb);
       free_block (inode_bitmap sb);
       Some (empty_superblock, f)
     } else Some (sb, f)
   }"

subsection \<open>Mounting and unmounting\<close>

text \<open>
  \<open>img\<close> is the content of the image file, \<open>None\<close> when there is none. A fresh mount
  creates the root and an empty image; \<open>destroy\<close> opens the image without creating it.
\<close>

definition fisopfs_init ::
  "fsys \<Rightarrow> (nat \<Rightarrow> bool) \<Rightarrow> superblock \<Rightarrow> char list option \<Rightarrow> (superblock \<times> char list option) option" where
  "fisopfs_init e fails sb img =
     (case img of
        None \<Rightarrow> do {
          (sb, _) \<leftarrow> create_inode e sb ''/'' 0x41ED INODE_DIR;
          Some (sb, Some [])
        }
      | Some bytes \<Rightarrow> do {
          (sb, _) \<leftarrow> deserialize e (host_open fails bytes);
          Some (sb, img)
        })"

definition fisopfs_destroy ::
  "(nat \<Rightarrow> bool) \<Rightarrow> (nat \<Rightarrow> int) \<Rightarrow> superblock \<Rightarrow> char list option \<Rightarrow>
     (superblock \<times> char list option) option" where
  "fisopfs_destroy fails addr sb img =
     (case img of
        None \<Rightarrow> Some (sb, None)
      | Some _ \<Rightarrow> do {
          (sb, f) \<leftarrow> serialize addr sb (host_open fails []);
          ns \<leftarrow> free_block (inodes sb);
          bm \<leftarrow> free_block (inode_bitmap sb);
          Some (sb\<lparr>inodes := ns, inode_bitmap := bm\<rparr>, Some (hf_data f))
        })"

subsection \<open>What is saved is what is loaded\<close>

text \<open>An inode with its buffer cut to the recorded size, as the image stores it.\<close>

definition trim :: "inode \<Rightarrow> inode" where
  "trim nd = nd\<lparr>i_content := Mem (file_data nd)\<rparr>"

definition image_of :: "(int \<times> inode) list \<Rightarrow> char list" where
  "image_of xs = concat (map (\<lambda>(a, nd). inode_bytes a nd @ file_data nd) xs)"

lemma image_of_simps [simp]:
  "image_of [] = []" "image_of ((a, nd) # xs) = inode_bytes a nd @ file_data nd @ image_of xs"
  by (simp_all add: image_of_def)

lemma file_write_end:
  assumes "\<not> hf_fails f (hf_calls f)" and "hf_pos f = length (hf_data f)"
  shows "file_write f bytes = (f\<lparr>hf_data := hf_data f @ bytes, hf_pos := hf_pos f + length bytes,
           hf_calls := Suc (hf_calls f)\<rparr>, True)"
  using assms by (simp add: file_write_def Let_def)

text \<open>A node that can be saved: its fields fit and its buffer covers its size.\<close>

definition saveable :: "inode \<Rightarrow> bool" where
  "saveable nd \<longleftrightarrow> fields_ok nd \<and> 0 \<le> i_size nd \<and>
     (\<exists>m. i_content nd = Mem m \<and> i_size nd \<le> int (length m))"

lemma saveableD:
  assumes "saveable nd"
  obtains m where "i_content nd = Mem m" and "nat (i_size nd) \<le> length m"
    and "size_t (i_size nd) = nat (i_size nd)" and "file_data nd = take (nat (i_size nd)) m"
    and "length (file_data nd) = nat (i_size nd)" and "fields_ok nd"
proof -
  from assms obtain m where m: "i_content nd = Mem m" "i_size nd \<le> int (length m)" "0 \<le> i_size nd"
    "fields_ok nd" by (auto simp: saveable_def)
  moreover have "i_size nd < 2 ^ 64" using m(4) by (simp add: fields_ok_def in_signed_def)
  ultimately show thesis using that by (auto simp: file_data_def nat_le_iff)
qed

lemma save_loop_ok:
  assumes rep: "inodes sb = Mem ns" "inode_bitmap sb = Mem bs"
    and "\<forall>i\<in>set is. i < length ns \<and> i < length bs \<and> bs ! i \<in> {0, 1}"
    and "\<forall>i\<in>set is. bs ! i = 1 \<longrightarrow> saveable (ns ! i)"
    and "\<forall>k. \<not> hf_fails f k" and "hf_pos f = length (hf_data f)"
  shows "\<exists>f'. save_loop addr sb is f = Some (f', False) \<and>
     hf_data f' = hf_data f @ image_of (map (\<lambda>i. (addr i, ns ! i)) (filter (\<lambda>i. bs ! i = 1) is))"
  using assms(3-)
proof (induction "is" arbitrary: f)
  case (Cons i "is")
  show ?case
  proof (cases "bs ! i = 1")
    case False
    with Cons rep show ?thesis by (simp add: cmem_simps)
  next
    case True
    with Cons.prems have "saveable (ns ! i)" by simp
    then obtain m where m: "i_content (ns ! i) = Mem m" "nat (i_size (ns ! i)) \<le> length m"
      "size_t (i_size (ns ! i)) = nat (i_size (ns ! i))"
      "file_data (ns ! i) = take (nat (i_size (ns ! i))) m" by (rule saveableD)
    let ?b = "inode_bytes (addr i) (ns ! i)" and ?d = "file_data (ns ! i)"
    let ?g = "f\<lparr>hf_data := hf_data f @ ?b, hf_pos := hf_pos f + length ?b,
      hf_calls := Suc (hf_calls f)\<rparr>"
    let ?h = "?g\<lparr>hf_data := hf_data ?g @ ?d, hf_pos := hf_pos ?g + length ?d,
      hf_calls := Suc (hf_calls ?g)\<rparr>"
    have w1: "file_write f ?b = (?g, True)" and w2: "file_write ?g ?d = (?h, True)"
      using Cons.prems(3,4) by (simp_all add: file_write_end)
    have content: "(if i_size (ns ! i) = 0 then Some [] else deref (i_content (ns ! i))) \<bind>
        (\<lambda>c. mem_read c 0 (size_t (i_size (ns ! i)))) = Some ?d"
      using m by (simp add: mem_read_def)
    have "save_loop addr sb (i # is) f = save_loop addr sb is ?h"
      using True rep Cons.prems(1) w1 w2 content
      by (auto simp: cmem_simps bind_assoc split: if_splits Option.bind_splits)
    moreover have "\<exists>f'. save_loop addr sb is ?h = Some (f', False) \<and> hf_data f' = hf_data ?h @
        image_of (map (\<lambda>i. (addr i, ns ! i)) (filter (\<lambda>i. bs ! i = 1) is))"
      using Cons.prems by (intro Cons.IH) auto
    ultimately show ?thesis using True by auto
  qed
qed simp

lemma count_live_ok:
  assumes "inode_bitmap sb = Mem bs" and "\<forall>i\<in>set is. i < length bs"
  shows "count_live sb is = Some (int (length (filter (\<lambda>i. bs ! i = 1) is)))"
    and "live_indices sb is = Some (filter (\<lambda>i. bs ! i = 1) is)"
  using assms(2) by (induction "is") (auto simp: assms(1) cmem_simps)

lemma free_contents_ok:
  assumes "inodes sb = Mem ns" and "distinct is" and "\<forall>i\<in>set is. i < length ns \<and> saveable (ns ! i)"
  shows "\<exists>ns'. free_contents sb is = Some (sb\<lparr>inodes := Mem ns'\<rparr>)"
  using assms
proof (induction "is" arbitrary: sb ns)
  case (Cons i "is")
  let ?nd = "(ns ! i)\<lparr>i_content := Freed\<rparr>"
  from Cons.prems(3) obtain m where "i_content (ns ! i) = Mem m" by (auto simp: saveable_def)
  then have "free_contents sb (i # is) = free_contents (sb\<lparr>inodes := Mem (ns[i := ?nd])\<rparr>) is"
    using Cons.prems(1,3) by (simp add: cmem_simps)
  moreover have "\<exists>ns'. free_contents (sb\<lparr>inodes := Mem (ns[i := ?nd])\<rparr>) is =
      Some ((sb\<lparr>inodes := Mem (ns[i := ?nd])\<rparr>)\<lparr>inodes := Mem ns'\<rparr>)"
    using Cons.prems(2,3) by (intro Cons.IH [where ns = "ns[i := ?nd]"]) (auto simp: nth_list_update)
  ultimately show ?case by auto
next
  case Nil
  then show ?case by (intro exI [of _ ns]) simp
qed

lemma file_read_ok:
  assumes "\<not> hf_fails f (hf_calls f)" and "drop (hf_pos f) (hf_data f) = xs @ ys" and "length xs = n"
  obtains g where "file_read f n = (g, Some xs)" and "drop (hf_pos g) (hf_data g) = ys"
    and "hf_fails g = hf_fails f"
proof
  let ?g = "f\<lparr>hf_calls := Suc (hf_calls f), hf_pos := hf_pos f + n\<rparr>"
  show "file_read f n = (?g, Some xs)"
    using assms by (simp add: file_read_def Let_def)
  have "drop (hf_pos f + n) (hf_data f) = drop n (drop (hf_pos f) (hf_data f))"
    by (simp add: add.commute)
  with assms show "drop (hf_pos ?g) (hf_data ?g) = ys" by simp
qed simp

lemma load_loop_ok:
  assumes alloc: "\<forall>n. alloc_ok e n"
    and "drop (hf_pos f) (hf_data f) = image_of todo" and "\<forall>k. \<not> hf_fails f k"
    and "inodes sb = Mem (old @ replicate (length todo) blank_inode)"
    and "inode_bitmap sb = Mem (replicate (length old) 1 @ replicate (length todo) 0)"
    and "\<forall>x\<in>set todo. saveable (snd x)" and "n = int (length old + length todo)"
  shows "\<exists>f'. load_loop e sb f n (length old) =
     Some (sb\<lparr>inodes := Mem (old @ map (trim \<circ> snd) todo),
             inode_bitmap := Mem (replicate (length old + length todo) 1)\<rparr>,
           f', length old + length todo, False)"
  using assms(2-)
proof (induction todo arbitrary: f sb old)
  case Nil
  then show ?case by (subst load_loop.simps) simp
next
  case (Cons x todo)
  obtain a nd where x: "x = (a, nd)" by (cases x)
  with Cons.prems(5) have "saveable nd" by simp
  then obtain m where m: "i_content nd = Mem m" "size_t (i_size nd) = nat (i_size nd)"
    "length (file_data nd) = nat (i_size nd)" "fields_ok nd" by (rule saveableD)
  have path: "length (i_path nd) \<le> MAX_PATH" using m(4) by (simp add: fields_ok_def)
  let ?bytes = "inode_bytes a nd"
  have len: "length ?bytes = sizeof_inode" using path by (rule length_inode_bytes)
  then have ne: "?bytes \<noteq> []" by (auto simp: sizeof_inode_def)
  have "drop (hf_pos f) (hf_data f) = ?bytes @ (file_data nd @ image_of todo)"
    using Cons.prems(1) x by simp
  then obtain g where g: "file_read f sizeof_inode = (g, Some ?bytes)"
    "drop (hf_pos g) (hf_data g) = file_data nd @ image_of todo" "hf_fails g = hf_fails f"
    using file_read_ok [of f ?bytes _ sizeof_inode] Cons.prems(2) len by metis
  from g(2) obtain h where h: "file_read g (size_t (i_size nd)) = (h, Some (file_data nd))"
    "drop (hf_pos h) (hf_data h) = image_of todo" "hf_fails h = hf_fails f"
    using file_read_ok [of g "file_data nd" "image_of todo" "size_t (i_size nd)"]
      Cons.prems(2) g(3) m(2,3) by metis
  have nd: "inode_of_bytes (?bytes @ replicate (sizeof_inode - length ?bytes) NUL) =
      Some (nd\<lparr>i_content := Null\<rparr>)"
    using inode_of_bytes_bytes [OF m(4)] len by simp
  have ca: "calloc e NUL 1 (size_t (i_size nd)) = Mem (replicate (nat (i_size nd)) NUL)"
    using alloc m(2) by (simp add: calloc_def)
  have wr: "mem_write (replicate (nat (i_size nd)) NUL) 0 (file_data nd) = Some (file_data nd)"
    using m(3) by (simp add: mem_write_def)
  let ?i = "length old" and ?old = "old @ [trim nd]"
  let ?ns = "?old @ replicate (length todo) blank_inode"
  let ?bs = "replicate (length ?old) 1 @ replicate (length todo) (0::int)"
  let ?sb = "sb\<lparr>inode_bitmap := Mem ?bs, inodes := Mem ?ns\<rparr>"
  have s1: "arr_set (inodes sb) ?i y = Some (Mem (old @ y # replicate (length todo) blank_inode))" for y
    using Cons.prems(3) by (simp add: cmem_simps list_update_append)
  have s2: "arr_set (inode_bitmap sb) ?i 1 = Some (Mem ?bs)"
    using Cons.prems(4) by (simp add: cmem_simps list_update_append replicate_append_same)
  have s3: "arr_set (Mem (old @ y # replicate (length todo) blank_inode)) ?i (trim nd) = Some (Mem ?ns)"
    for y by (simp add: cmem_simps list_update_append)
  have trim: "nd\<lparr>i_content := Mem (file_data nd)\<rparr> = trim nd" by (simp add: trim_def)
  from ne obtain c cs where bytes: "?bytes = c # cs" by (cases ?bytes) auto
  have nonnull: "inodes sb \<noteq> Null" and lt: "int ?i < n" using Cons.prems(3,6) by simp_all
  have step: "load_loop e sb f n ?i = load_loop e ?sb h n (Suc ?i)"
    using nonnull lt g(1) nd [unfolded bytes] ca h(1) wr s1 s2 s3 trim
    by (subst load_loop.simps) (simp add: bytes)
  have "\<exists>f'. load_loop e ?sb h n (length ?old) =
     Some (?sb\<lparr>inodes := Mem (?old @ map (trim \<circ> snd) todo),
             inode_bitmap := Mem (replicate (length ?old + length todo) 1)\<rparr>,
           f', length ?old + length todo, False)"
    using Cons.prems h(2,3) by (intro Cons.IH) auto
  moreover have "?sb\<lparr>inodes := Mem xs, inode_bitmap := Mem ys\<rparr> =
      sb\<lparr>inodes := Mem xs, inode_bitmap := Mem ys\<rparr>" for xs ys by simp
  ultimately show ?case using step x by (simp add: comp_def)
qed

subsection \<open>The file system after a remount\<close>

definition live_nodes :: "inode list \<Rightarrow> int list \<Rightarrow> inode list" where
  "live_nodes ns bs = map ((!) ns) (filter (\<lambda>i. bs ! i \<noteq> 0) [0..<length ns])"

lemma live_map_nodes:
  assumes "uniq_paths ns bs"
  shows "live_map ns bs p = Some nd \<longleftrightarrow> nd \<in> set (live_nodes ns bs) \<and> i_path nd = p"
proof
  assume "live_map ns bs p = Some nd"
  then obtain i where "slot ns bs p = Some i" "ns ! i = nd" by (auto simp: live_map_def)
  with slot_SomeD [OF this(1)] show "nd \<in> set (live_nodes ns bs) \<and> i_path nd = p"
    by (auto simp: live_nodes_def)
next
  assume "nd \<in> set (live_nodes ns bs) \<and> i_path nd = p"
  then obtain i where "i < length ns" "bs ! i \<noteq> 0" "nd = ns ! i" "i_path nd = p"
    by (auto simp: live_nodes_def)
  with live_map_SomeI [OF assms this(1,2)] show "live_map ns bs p = Some nd" by simp
qed

lemma distinct_live_paths:
  assumes "uniq_paths ns bs"
  shows "distinct (map i_path (live_nodes ns bs))"
  using assms by (auto simp: live_nodes_def distinct_map uniq_paths_def inj_on_def)

lemma uniq_paths_all:
  assumes "distinct (map i_path ns)" and "\<forall>b\<in>set bs. b \<noteq> 0" and "length bs = length ns"
  shows "uniq_paths ns bs" and "live_nodes ns bs = ns"
proof -
  show "uniq_paths ns bs"
    using assms(1) by (auto simp: uniq_paths_def distinct_conv_nth)
  have "filter (\<lambda>i. bs ! i \<noteq> 0) [0..<length ns] = [0..<length ns]"
    using assms(2,3) by (intro filter_True) auto
  then show "live_nodes ns bs = ns" by (simp add: live_nodes_def map_nth)
qed

lemma trim_sel [simp]:
  "i_path (trim nd) = i_path nd" "i_type (trim nd) = i_type nd" "i_size (trim nd) = i_size nd"
  by (simp_all add: trim_def)

lemma trim_dir: "dir_node_ok nd \<Longrightarrow> trim nd = nd"
  by (cases nd) (auto simp: trim_def file_data_def dir_node_ok_def dir_ok_def)

lemma tree_ok_trim:
  assumes "tree_ok m"
  shows "tree_ok (map_option trim \<circ> m)"
proof -
  have dom: "(map_option trim \<circ> m) q = None \<longleftrightarrow> m q = None" for q by simp
  have ch: "children (map_option trim \<circ> m) d = children m d" for d
    unfolding children_def dom by simp
  have dir: "is_dir (map_option trim \<circ> m) d = is_dir m d" for d
    by (auto simp: is_dir_def)
  have "node_ok (map_option trim \<circ> m) p (trim nd)" if "m p = Some nd" for p nd
  proof (cases "i_type nd")
    case INODE_DIR
    with tree_okD(1) [OF assms that] show ?thesis
      by (auto simp: node_ok_def ch trim_dir)
  next
    case INODE_FILE
    with tree_okD(1) [OF assms that] have ok: "file_node_ok nd" by (simp add: node_ok_def)
    then have "file_node_ok (trim nd)"
      by (auto simp: file_node_ok_def trim_def file_data_def)
    with INODE_FILE show ?thesis by (simp add: node_ok_def)
  qed
  then show ?thesis using assms by (auto simp: tree_ok_def dir)
qed

text \<open>A file system that can be saved: bitmap entries are 0 or 1 and all fields fit.\<close>

definition disk_ok :: "superblock \<Rightarrow> bool" where
  "disk_ok sb \<longleftrightarrow> fs_inv sb \<and> (\<forall>b\<in>set (arr_list (inode_bitmap sb)). b = 0 \<or> b = 1) \<and>
     (\<forall>p nd. fs_map sb p = Some nd \<longrightarrow> fields_ok nd) \<and> inode_amount sb < 2 ^ 31"

lemma node_saveable:
  assumes "node_ok m p nd" and "fields_ok nd"
  shows "saveable nd"
  using assms by (auto simp: node_ok_def saveable_def dir_node_ok_def dir_ok_def file_node_ok_def
      split: inode_type.splits)

lemma disk_roundtrip:
  assumes ok: "disk_ok sb" and alloc: "\<forall>n. alloc_ok e n"
  obtains sb1 bytes sb2 where
    "fisopfs_destroy (\<lambda>_. False) addr sb (Some old) = Some (sb1, Some bytes)"
    and "fisopfs_init e (\<lambda>_. False) empty_superblock (Some bytes) = Some (sb2, Some bytes)"
    and "fs_inv sb2" and "fs_map sb2 = map_option trim \<circ> fs_map sb"
proof -
  from ok have inv: "fs_inv sb" by (simp add: disk_ok_def)
  then obtain ns bs where rep: "sb_rep sb ns bs" and u: "uniq_paths ns bs"
    and t: "tree_ok (live_map ns bs)" and m: "fs_map sb = live_map ns bs" by (rule fs_invE)
  have "ns \<noteq> []" using t by (auto simp: tree_ok_def is_dir_def live_map_def slot_def)
  with rep have arrays: "inodes sb = Mem ns" "inode_bitmap sb = Mem bs" "length bs = length ns"
    "inode_amount sb = int (length ns)" "bs \<noteq> []" by (auto simp: sb_rep_def)
  have small: "length ns < 2 ^ 31" using ok arrays(4) by (simp add: disk_ok_def)
  define live where "live = filter (\<lambda>i. bs ! i = 1) [0..<length ns]"
  have bits: "\<forall>i\<in>set [0..<length ns]. i < length ns \<and> i < length bs \<and> bs ! i \<in> {0, 1}"
    using ok arrays by (auto simp: disk_ok_def)
  then have live_eq: "live = filter (\<lambda>i. bs ! i \<noteq> 0) [0..<length ns]"
    unfolding live_def by (intro filter_cong) auto
  then have nodes: "map ((!) ns) live = live_nodes ns bs" by (simp add: live_nodes_def)
  have save1: "saveable nd" if "nd \<in> set (live_nodes ns bs)" for nd
  proof -
    from that live_map_nodes [OF u] have nd: "live_map ns bs (i_path nd) = Some nd" by blast
    with ok m have "fields_ok nd" by (auto simp: disk_ok_def)
    with tree_okD(1) [OF t nd] show ?thesis by (rule node_saveable)
  qed
  have save: "\<forall>i\<in>set [0..<length ns]. bs ! i = 1 \<longrightarrow> saveable (ns ! i)"
    using save1 by (auto simp: live_nodes_def)
  define xs where "xs = map (\<lambda>i. (addr i, ns ! i)) live"
  have xs: "map snd xs = live_nodes ns bs" and lx: "length xs = length live"
    using nodes by (simp_all add: xs_def comp_def)
  let ?n = "int (length xs)"
  let ?f0 = "host_open (\<lambda>_. False) []"
  let ?f1 = "?f0\<lparr>hf_data := le_bytes 4 ?n, hf_pos := 4, hf_calls := 1\<rparr>"
  have count: "count_live sb [0..<length ns] = Some ?n"
    "live_indices sb [0..<length ns] = Some live"
    using count_live_ok [OF arrays(2), of "[0..<length ns]"] arrays(3) lx by (simp_all add: live_def)
  have head: "file_write ?f0 (le_bytes 4 ?n) = (?f1, True)"
    by (simp add: file_write_def host_open_def Let_def)
  obtain f2 where f2: "save_loop addr sb [0..<length ns] ?f1 = Some (f2, False)"
    "hf_data f2 = le_bytes 4 ?n @ image_of xs"
    using save_loop_ok [OF arrays(1,2) bits save, of ?f1 addr] by (auto simp: host_open_def xs_def live_def)
  have "\<forall>i\<in>set live. i < length ns \<and> saveable (ns ! i)" using save by (auto simp: live_def)
  moreover have "distinct live" by (simp add: live_def)
  ultimately obtain ns' where freed: "free_contents sb live = Some (sb\<lparr>inodes := Mem ns'\<rparr>)"
    using free_contents_ok [OF arrays(1)] by blast
  let ?bytes = "le_bytes 4 ?n @ image_of xs"
  have destroy: "fisopfs_destroy (\<lambda>_. False) addr sb (Some old) =
      Some (sb\<lparr>inodes := Freed, inode_bitmap := Freed\<rparr>, Some ?bytes)"
    using count head f2 freed arrays
    by (simp add: fisopfs_destroy_def serialize_def Let_def)
  have len: "length live \<le> length ns" unfolding live_def by (metis length_filter_le diff_zero length_upt)
  then have n: "in_signed 32 ?n" "size_t ?n = length xs"
    using small lx by (auto simp: in_signed_def)
  let ?g0 = "host_open (\<lambda>_. False) ?bytes"
  obtain g where g: "file_read ?g0 4 = (g, Some (le_bytes 4 ?n))"
    "drop (hf_pos g) (hf_data g) = image_of xs" "hf_fails g = hf_fails ?g0"
    using file_read_ok [of ?g0 "le_bytes 4 ?n" "image_of xs" 4] by (auto simp: host_open_def)
  let ?sb0 = "\<lparr>inodes = Mem (replicate (length xs) blank_inode),
    inode_bitmap = Mem (replicate (length xs) 0), inode_amount = ?n\<rparr>"
  let ?ms = "map (trim \<circ> snd) xs"
  let ?sb2 = "\<lparr>inodes = Mem ?ms, inode_bitmap = Mem (replicate (length xs) 1), inode_amount = ?n\<rparr>"
  have sv: "\<forall>x\<in>set xs. saveable (snd x)" using save1 xs by (metis image_eqI list.set_map)
  have "\<forall>k. \<not> hf_fails g k" using g(3) by (simp add: host_open_def)
  note load = load_loop_ok [OF alloc g(2) this _ _ sv, of ?sb0 "[]" ?n, unfolded list.size append_Nil
      add_0 replicate_0 superblock.simps, OF refl refl refl]
  then obtain g' where "load_loop e ?sb0 g ?n 0 = Some (?sb2, g', length xs, False)" by blast
  then have "deserialize e ?g0 = Some (?sb2, g')"
    using g(1) n alloc by (simp add: deserialize_def s32.dec_enc calloc_def)
  then have init: "fisopfs_init e (\<lambda>_. False) empty_superblock (Some ?bytes) = Some (?sb2, Some ?bytes)"
    by (simp add: fisopfs_init_def)
  have rep2: "sb_rep ?sb2 ?ms (replicate (length xs) 1)" by (simp add: sb_rep_def)
  have ms: "?ms = map trim (live_nodes ns bs)" using xs by (metis map_map)
  have "map i_path ?ms = map i_path (live_nodes ns bs)" unfolding ms by (simp add: comp_def)
  then have dist: "distinct (map i_path ?ms)" using distinct_live_paths [OF u] by simp
  have "\<forall>b\<in>set (replicate (length xs) (1::int)). b \<noteq> 0"
    and "length (replicate (length xs) (1::int)) = length ?ms" by simp_all
  note u2 = uniq_paths_all [OF dist this]
  have map2: "live_map ?ms (replicate (length xs) 1) = map_option trim \<circ> live_map ns bs"
  proof (rule ext)
    fix p
    have "live_map ?ms (replicate (length xs) 1) p = Some nd \<longleftrightarrow>
        (map_option trim \<circ> live_map ns bs) p = Some nd" for nd
      unfolding live_map_nodes [OF u2(1)] u2(2) unfolding ms
      unfolding comp_def map_option_eq_Some live_map_nodes [OF u] by auto
    then show "live_map ?ms (replicate (length xs) 1) p = (map_option trim \<circ> live_map ns bs) p"
      by (metis not_Some_eq)
  qed
  have "fs_inv ?sb2"
    using fs_invI [OF rep2 u2(1) map2 tree_ok_trim [OF t]] by simp
  with map2 m fs_map_rep [OF rep2] show thesis by (intro that [OF destroy init]) simp_all
qed

subsection \<open>Properties\<close>

text \<open>C9. Unmounting and mounting again: the image that \<open>destroy\<close> writes is loaded by \<open>init\<close> as the same
  map of paths, each inode with its metadata and exactly the bytes of its size, and the loaded
  file system is well-formed.\<close>

theorem unmount_mount_roundtrip:
  assumes "disk_ok sb" and "\<forall>n. alloc_ok e n"
  shows "\<exists>sb1 bytes sb2.
      fisopfs_destroy (\<lambda>_. False) addr sb (Some old) = Some (sb1, Some bytes) \<and>
      fisopfs_init e (\<lambda>_. False) empty_superblock (Some bytes) = Some (sb2, Some bytes) \<and>
      fs_inv sb2 \<and> fs_map sb2 = map_option trim \<circ> fs_map sb"
proof -
  obtain sb1 bytes sb2 where
    "fisopfs_destroy (\<lambda>_. False) addr sb (Some old) = Some (sb1, Some bytes)"
    "fisopfs_init e (\<lambda>_. False) empty_superblock (Some bytes) = Some (sb2, Some bytes)"
    "fs_inv sb2" "fs_map sb2 = map_option trim \<circ> fs_map sb"
    by (rule disk_roundtrip [OF assms])
  then show ?thesis by blast
qed

lemma unmount_mount_roundtrip_witness:
  "\<exists>sb1 bytes sb2. fisopfs_destroy (\<lambda>_. False) (\<lambda>_. 4096) demo_sb (Some []) = Some (sb1, Some bytes) \<and>
     fisopfs_init demo_env (\<lambda>_. False) empty_superblock (Some bytes) = Some (sb2, Some bytes) \<and>
     fs_map sb2 ''/f'' = Some (trim demo_file)"
proof -
  have "fields_ok nd" if "fs_map demo_sb p = Some nd" for p nd
    using that by (auto simp: demo_map demo_nodes fields_ok_def in_signed_def in_unsigned_def
        MAX_PATH_def split: if_splits)
  then have "disk_ok demo_sb" using demo_inv by (auto simp: disk_ok_def demo_sb_def)
  from unmount_mount_roundtrip [OF this demo_alloc, of "\<lambda>_. 4096" "[]"]
  show ?thesis by (auto simp: demo_map)
qed

text \<open>The first mount writes only an empty image. When the process ends without unmounting, the next
  mount loads no inode at all from it: even the root is missing, and every creation below the
  root fails.\<close>

theorem mount_after_crash_has_no_root:
  assumes "\<forall>n. alloc_ok e n" and "length p < MAX_PATH" and "NL \<notin> set p"
  shows "\<exists>sb1 sb2. fisopfs_init e (\<lambda>_. False) empty_superblock None = Some (sb1, Some []) \<and>
      fisopfs_init e (\<lambda>_. False) empty_superblock (Some []) = Some (sb2, Some []) \<and>
      fs_map sb1 = [''/'' \<mapsto> new_inode e ''/'' 0x41ED INODE_DIR] \<and>
      fisopfs_getattr sb2 p = Some (- ENOENT, None)"
proof -
  have rep: "sb_rep empty_superblock [] []" by (simp add: sb_rep_def empty_superblock_def)
  have u: "uniq_paths [] []" by (simp add: uniq_paths_def)
  have none: "live_map [] [] = Map.empty" by (rule ext) (simp add: live_map_def slot_def)
  have short: "length ''/'' < MAX_PATH" by (simp add: MAX_PATH_def)
  obtain sb1 ns bs i where
    "create_inode e empty_superblock ''/'' 0x41ED INODE_DIR = Some (sb1, int i)"
    "sb_rep sb1 ns bs" "live_map ns bs = (live_map [] [])(''/'' \<mapsto> new_inode e ''/'' 0x41ED INODE_DIR)"
    by (rule create_inode_ok [OF rep u _ short assms(1)]) (simp_all add: none)
  moreover from this have "fs_map sb1 = [''/'' \<mapsto> new_inode e ''/'' 0x41ED INODE_DIR]"
    using fs_map_rep none by simp
  moreover have "fisopfs_init e (\<lambda>_. False) empty_superblock (Some []) =
      Some (\<lparr>inodes = Mem [], inode_bitmap = Mem [], inode_amount = 0\<rparr>, Some [])"
  proof -
    have "le_val (replicate 4 NUL) = 0" by (simp add: numeral_eq_Suc)
    then show ?thesis
      using assms(1) by (simp add: fisopfs_init_def deserialize_def Let_def
          file_read_def host_open_def dec_signed_def signed_of_def calloc_def load_loop.simps)
  qed
  moreover have "fisopfs_getattr \<lparr>inodes = Mem [], inode_bitmap = Mem [], inode_amount = 0\<rparr> p =
      Some (- ENOENT, None)"
  proof -
    have "sb_rep \<lparr>inodes = Mem [], inode_bitmap = Mem [], inode_amount = 0\<rparr> [] []"
      by (simp add: sb_rep_def)
    from search_missing [OF this, of p] assms(2,3) show ?thesis
      by (simp add: none fisopfs_getattr_def strip_newline_character.simps
          strchr_idx_None_iff [THEN iffD2])
  qed
  ultimately show ?thesis by (simp add: fisopfs_init_def)
qed

lemma mount_after_crash_has_no_root_witness:
  "\<exists>sb2. fisopfs_init demo_env (\<lambda>_. False) empty_superblock (Some []) = Some (sb2, Some []) \<and>
     fisopfs_getattr sb2 ''/'' = Some (- ENOENT, None)"
  using mount_after_crash_has_no_root [OF demo_alloc, of "''/''"] by (auto simp: MAX_PATH_def)

end
