(* ===== verification/Pmap.thy ===== *)
theory Pmap
  imports Prelude
begin

unbundle bit_operations_syntax

text \<open>
  Physical and virtual memory of the kernel: \<open>sched/kern/pmap.c\<close> with the macros of
  \<open>inc/mmu.h\<close>, \<open>inc/memlayout.h\<close> and \<open>inc/types.h\<close> that it uses. Physical memory is
  page frames of 1024 words; a page directory is named by its frame and a page table entry by
  its frame and index. \<open>None\<close> is a panic or undefined behaviour: in either case the
  kernel does not go on. \<open>mem_init\<close> and its self tests are in \<open>MemInit\<close>.
\<close>

type_synonym w32 = "32 word"
type_synonym w8 = "8 word"
type_synonym w16 = "16 word"

subsection \<open>Addresses\<close>

definition PGSIZE :: w32 where "PGSIZE = 4096"
definition PTSIZE :: w32 where "PTSIZE = PGSIZE * 1024"
definition KERNBASE :: w32 where "KERNBASE = 0xF0000000"
definition IOPHYSMEM :: w32 where "IOPHYSMEM = 0x0A0000"
definition EXTPHYSMEM :: w32 where "EXTPHYSMEM = 0x100000"
definition KSTACKTOP :: w32 where "KSTACKTOP = KERNBASE"
definition KSTKSIZE :: w32 where "KSTKSIZE = 8 * PGSIZE"
definition KSTKGAP :: w32 where "KSTKGAP = 8 * PGSIZE"
definition MMIOLIM :: w32 where "MMIOLIM = KSTACKTOP - PTSIZE"
definition MMIOBASE :: w32 where "MMIOBASE = MMIOLIM - PTSIZE"
definition ULIM :: w32 where "ULIM = MMIOBASE"
definition UVPT :: w32 where "UVPT = ULIM - PTSIZE"
definition UPAGES :: w32 where "UPAGES = UVPT - PTSIZE"
definition UENVS :: w32 where "UENVS = UPAGES - PTSIZE"
definition UTOP :: w32 where "UTOP = UENVS"
definition UXSTACKTOP :: w32 where "UXSTACKTOP = UTOP"
definition USTACKTOP :: w32 where "USTACKTOP = UTOP - 2 * PGSIZE"
definition UTEMP :: w32 where "UTEMP = PTSIZE"
definition PFTEMP :: w32 where "PFTEMP = UTEMP + PTSIZE - PGSIZE"
definition MPENTRY_PADDR :: w32 where "MPENTRY_PADDR = 0x7000"

lemmas layout_defs = PGSIZE_def PTSIZE_def KERNBASE_def IOPHYSMEM_def EXTPHYSMEM_def
  KSTACKTOP_def KSTKSIZE_def KSTKGAP_def MMIOLIM_def MMIOBASE_def ULIM_def UVPT_def UPAGES_def
  UENVS_def UTOP_def UXSTACKTOP_def USTACKTOP_def UTEMP_def PFTEMP_def MPENTRY_PADDR_def

definition PTE_P :: w32 where "PTE_P = 0x001"
definition PTE_W :: w32 where "PTE_W = 0x002"
definition PTE_U :: w32 where "PTE_U = 0x004"
definition PTE_PWT :: w32 where "PTE_PWT = 0x008"
definition PTE_PCD :: w32 where "PTE_PCD = 0x010"
definition PTE_PS :: w32 where "PTE_PS = 0x080"
definition PTE_AVAIL :: w32 where "PTE_AVAIL = 0xE00"
definition PTE_SYSCALL :: w32 where "PTE_SYSCALL = PTE_AVAIL OR PTE_P OR PTE_W OR PTE_U"

definition PGNUM :: "w32 \<Rightarrow> nat" where "PGNUM la = unat (drop_bit 12 la)"
definition PDX :: "w32 \<Rightarrow> nat" where "PDX la = unat (drop_bit 22 la AND 0x3FF)"
definition PTX :: "w32 \<Rightarrow> nat" where "PTX la = unat (drop_bit 12 la AND 0x3FF)"
definition PGADDR :: "nat \<Rightarrow> nat \<Rightarrow> w32 \<Rightarrow> w32" where
  "PGADDR d t off = push_bit 22 (word_of_nat d) OR push_bit 12 (word_of_nat t) OR off"
definition PTE_ADDR :: "w32 \<Rightarrow> w32" where "PTE_ADDR pte = pte AND NOT 0xFFF"

definition ROUNDDOWN :: "w32 \<Rightarrow> w32 \<Rightarrow> w32" where "ROUNDDOWN a n = a - a mod n"
definition ROUNDUP :: "w32 \<Rightarrow> w32 \<Rightarrow> w32" where "ROUNDUP a n = ROUNDDOWN (a + n - 1) n"

text \<open>Kernel error codes.\<close>

definition E_BAD_ENV :: int where "E_BAD_ENV = 2"
definition E_INVAL :: int where "E_INVAL = 3"
definition E_NO_MEM :: int where "E_NO_MEM = 4"
definition E_NO_FREE_ENV :: int where "E_NO_FREE_ENV = 5"
definition E_FAULT :: int where "E_FAULT = 6"
definition E_IPC_NOT_RECV :: int where "E_IPC_NOT_RECV = 7"

subsection \<open>State\<close>

text \<open>
  \<open>phys\<close> is physical memory by frame and word; \<open>pp_link\<close> and \<open>pp_ref\<close> are the fields of
  the array \<open>pages\<close>; \<open>mmio_base\<close> is the static variable of \<open>mmio_map_region\<close>.
\<close>

record pmem =
  npages :: nat
  phys :: "nat \<Rightarrow> nat \<Rightarrow> w32"
  pp_link :: "nat \<Rightarrow> nat option"
  pp_ref :: "nat \<Rightarrow> 16 word"
  page_free_list :: "nat option"
  kern_pgdir :: nat
  mmio_base :: w32

definition store_word :: "pmem \<Rightarrow> nat \<Rightarrow> nat \<Rightarrow> w32 \<Rightarrow> pmem" where
  "store_word s p i v = s\<lparr>phys := (phys s)(p := (phys s p)(i := v))\<rparr>"

definition page2pa :: "nat \<Rightarrow> w32" where "page2pa p = push_bit 12 (word_of_nat p)"

definition pa2page :: "pmem \<Rightarrow> w32 \<Rightarrow> nat option" where
  "pa2page s pa = (if PGNUM pa \<ge> npages s then None else Some (PGNUM pa))"

subsection \<open>The page allocator\<close>

text \<open>
  \<open>boot_alloc\<close>: \<open>nextfree\<close> is its static variable and \<open>kend\<close> the linker's \<open>end\<close>. The
  result is the chunk's address and the new \<open>nextfree\<close>.
\<close>

definition PADDR :: "w32 \<Rightarrow> w32 option" where
  "PADDR kva = (if kva < KERNBASE then None else Some (kva - KERNBASE))"

definition KADDR :: "nat \<Rightarrow> w32 \<Rightarrow> w32 option" where
  "KADDR np pa = (if PGNUM pa \<ge> np then None else Some (pa + KERNBASE))"

definition boot_alloc :: "nat \<Rightarrow> w32 \<Rightarrow> w32 \<Rightarrow> w32 \<Rightarrow> (w32 \<times> w32) option" where
  "boot_alloc np kend nextfree n = do {
     let nextfree = (if nextfree = 0 then ROUNDUP kend PGSIZE else nextfree);
     last \<leftarrow> PADDR (nextfree + n);
     if last \<ge> PGSIZE * word_of_nat np then None
     else do {
       a \<leftarrow> KADDR np last;
       Some (nextfree, ROUNDUP a PGSIZE)
     }
   }"

text \<open>\<open>page_init\<close>: \<open>first_free\<close> is the frame of \<open>boot_alloc(0)\<close>.\<close>

definition page_reserved :: "nat \<Rightarrow> nat \<Rightarrow> bool" where
  "page_reserved first_free i \<longleftrightarrow> i = 0 \<or> i = PGNUM MPENTRY_PADDR \<or>
     PGNUM IOPHYSMEM \<le> i \<and> i < PGNUM EXTPHYSMEM \<or> PGNUM EXTPHYSMEM \<le> i \<and> i < first_free"

fun page_init_loop :: "nat \<Rightarrow> nat list \<Rightarrow> pmem \<Rightarrow> pmem" where
  "page_init_loop first_free [] s = s"
| "page_init_loop first_free (i # is) s =
     (let s = s\<lparr>pp_link := (pp_link s)(i := None)\<rparr> in
      if page_reserved first_free i then page_init_loop first_free is s
      else page_init_loop first_free is
        (s\<lparr>pp_link := (pp_link s)(i := page_free_list s), pp_ref := (pp_ref s)(i := 0),
           page_free_list := Some i\<rparr>))"

definition page_init :: "nat \<Rightarrow> pmem \<Rightarrow> pmem" where
  "page_init first_free s = page_init_loop first_free [0..<npages s] s"

definition page_alloc :: "pmem \<Rightarrow> bool \<Rightarrow> pmem \<times> nat option" where
  "page_alloc s zero =
     (case page_free_list s of
        None \<Rightarrow> (s, None)
      | Some p \<Rightarrow>
          (let s = s\<lparr>page_free_list := pp_link s p, pp_link := (pp_link s)(p := None)\<rparr>;
               s = (if zero then s\<lparr>phys := (phys s)(p := \<lambda>_. 0)\<rparr> else s)
           in (s, Some p)))"

definition page_free :: "pmem \<Rightarrow> nat \<Rightarrow> pmem option" where
  "page_free s p =
     (if pp_ref s p \<noteq> 0 then None
      else if pp_link s p \<noteq> None then None
      else Some (s\<lparr>pp_link := (pp_link s)(p := page_free_list s), page_free_list := Some p\<rparr>))"

definition page_decref :: "pmem \<Rightarrow> nat \<Rightarrow> pmem option" where
  "page_decref s p =
     (let s = s\<lparr>pp_ref := (pp_ref s)(p := pp_ref s p - 1)\<rparr> in
      if pp_ref s p = 0 then page_free s p else Some s)"

subsection \<open>Page tables\<close>

text \<open>The result of \<open>pgdir_walk\<close> is the frame and index of the entry, or the null pointer.\<close>

definition pgdir_walk ::
  "pmem \<Rightarrow> nat \<Rightarrow> w32 \<Rightarrow> bool \<Rightarrow> (pmem \<times> (nat \<times> nat) option) option" where
  "pgdir_walk s pgdir va create = do {
     let pdx = PDX va;
     let s = (if phys s pgdir pdx = 0 \<and> create
              then case page_alloc s True of
                     (s, None) \<Rightarrow> s
                   | (s, Some p) \<Rightarrow>
                       store_word (s\<lparr>pp_ref := (pp_ref s)(p := pp_ref s p + 1)\<rparr>) pgdir pdx
                         (page2pa p OR PTE_P OR PTE_W OR PTE_U)
              else s);
     let pde = phys s pgdir pdx;
     if pde \<noteq> 0 then do {
       t \<leftarrow> pa2page s (PTE_ADDR pde);
       Some (s, Some (t, PTX va))
     } else Some (s, None)
   }"

text \<open>The test of an entry is \<open>*pte && PTE_P\<close>, a logical and: any nonzero entry passes.\<close>

definition page_lookup :: "pmem \<Rightarrow> nat \<Rightarrow> w32 \<Rightarrow> (nat \<times> nat \<times> nat) option option" where
  "page_lookup s pgdir va = do {
     (_, pte) \<leftarrow> pgdir_walk s pgdir va False;
     case pte of
       None \<Rightarrow> Some None
     | Some (t, i) \<Rightarrow>
         if phys s t i = 0 then Some None
         else do {
           p \<leftarrow> pa2page s (PTE_ADDR (phys s t i));
           Some (Some (p, t, i))
         }
   }"

definition page_remove :: "pmem \<Rightarrow> nat \<Rightarrow> w32 \<Rightarrow> pmem option" where
  "page_remove s pgdir va = do {
     found \<leftarrow> page_lookup s pgdir va;
     case found of
       None \<Rightarrow> Some s
     | Some (p, t, i) \<Rightarrow> do {
         s \<leftarrow> page_decref s p;
         Some (store_word s t i 0)
       }
   }"

definition page_insert :: "pmem \<Rightarrow> nat \<Rightarrow> nat \<Rightarrow> w32 \<Rightarrow> w32 \<Rightarrow> (pmem \<times> int) option" where
  "page_insert s pgdir p va perm = do {
     (s, pte) \<leftarrow> pgdir_walk s pgdir va True;
     case pte of
       None \<Rightarrow> Some (s, - E_NO_MEM)
     | Some (t, i) \<Rightarrow> do {
         let s = s\<lparr>pp_ref := (pp_ref s)(p := pp_ref s p + 1)\<rparr>;
         s \<leftarrow> page_remove s pgdir va;
         Some (store_word s t i (page2pa p OR perm OR PTE_P), 0)
       }
   }"

text \<open>
  \<open>boot_map_region\<close>, compiled without \<open>TP1_PSE\<close>: one entry per page of the region. An
  entry that could not be allocated is a null pointer that is written through.
\<close>

fun boot_map_loop :: "nat list \<Rightarrow> pmem \<Rightarrow> nat \<Rightarrow> w32 \<Rightarrow> w32 \<Rightarrow> w32 \<Rightarrow> pmem option" where
  "boot_map_loop [] s pgdir va pa perm = Some s"
| "boot_map_loop (k # ks) s pgdir va pa perm = do {
     let i = PGSIZE * word_of_nat k;
     (s, pte) \<leftarrow> pgdir_walk s pgdir (va + i) True;
     s \<leftarrow> page_remove s pgdir (va + i);
     (t, j) \<leftarrow> pte;
     boot_map_loop ks (store_word s t j ((pa + i) OR perm OR PTE_P)) pgdir va pa perm
   }"

definition boot_map_region :: "pmem \<Rightarrow> nat \<Rightarrow> w32 \<Rightarrow> w32 \<Rightarrow> w32 \<Rightarrow> w32 \<Rightarrow> pmem option" where
  "boot_map_region s pgdir va sz pa perm =
     boot_map_loop [0..<(unat sz + 4095) div 4096] s pgdir va pa perm"

definition mmio_map_region :: "pmem \<Rightarrow> w32 \<Rightarrow> w32 \<Rightarrow> (pmem \<times> w32) option" where
  "mmio_map_region s pa sz = do {
     let pa = ROUNDDOWN pa PGSIZE;
     let sz = ROUNDUP sz PGSIZE;
     let perm = PTE_W OR PTE_P OR PTE_PCD OR PTE_PWT;
     if mmio_base s + sz \<ge> MMIOLIM then None
     else do {
       s \<leftarrow> boot_map_region s (kern_pgdir s) (mmio_base s) sz pa perm;
       let s = s\<lparr>mmio_base := mmio_base s + sz\<rparr>;
       Some (s, mmio_base s - sz)
     }
   }"

text \<open>
  \<open>mem_init_mp\<close>: the kernel stacks of the CPUs; \<open>stacks ! i\<close> is the kernel address of
  \<open>percpu_kstacks[i]\<close>.
\<close>

fun mem_init_mp :: "nat list \<Rightarrow> (nat \<Rightarrow> w32) \<Rightarrow> pmem \<Rightarrow> pmem option" where
  "mem_init_mp [] stacks s = Some s"
| "mem_init_mp (i # is) stacks s = do {
     let stack_start = KSTACKTOP - word_of_nat i * (KSTKSIZE + KSTKGAP) - KSTKSIZE;
     pa \<leftarrow> PADDR (stacks i);
     s \<leftarrow> boot_map_region s (kern_pgdir s) stack_start KSTKSIZE pa (PTE_W OR PTE_P);
     mem_init_mp is stacks s
   }"

subsection \<open>Checking user addresses\<close>

text \<open>
  The loop of \<open>user_mem_check\<close> runs over the numbers of the pages; its bound is rounded up to
  a page. On an error the first bad address is \<open>user_mem_check_addr\<close>.
\<close>

fun user_mem_loop :: "nat list \<Rightarrow> pmem \<Rightarrow> nat \<Rightarrow> w32 \<Rightarrow> w32 \<Rightarrow> (int \<times> w32 option) option" where
  "user_mem_loop [] s pgdir va perm = Some (0, None)"
| "user_mem_loop (k # ks) s pgdir va perm = do {
     let va_act = push_bit 12 (word_of_nat k);
     (_, pte) \<leftarrow> pgdir_walk s pgdir va_act False;
     let ok = (case pte of None \<Rightarrow> False
               | Some (t, i) \<Rightarrow> phys s t i AND (perm OR PTE_P) = perm OR PTE_P);
     if \<not> ok then Some (- E_FAULT, Some (if va_act > va then va_act else va))
     else user_mem_loop ks s pgdir va perm
   }"

definition user_mem_check ::
  "pmem \<Rightarrow> nat \<Rightarrow> w32 \<Rightarrow> w32 \<Rightarrow> w32 \<Rightarrow> (int \<times> w32 option) option" where
  "user_mem_check s pgdir va len perm =
     (let va_hi = ROUNDUP (va + len) PGSIZE in
      if va_hi > UTOP then Some (- E_FAULT, Some va)
      else user_mem_loop [PGNUM (ROUNDDOWN va PGSIZE)..<PGNUM va_hi] s pgdir va perm)"

end
