(* ===== verification/Kernel.thy ===== *)
theory Kernel
  imports Pmap
begin

unbundle bit_operations_syntax

text \<open>
  The state of the kernel that the environment table, the scheduler, the system calls and the
  trap handler share: \<open>inc/env.h\<close>, \<open>inc/trap.h\<close>, \<open>kern/cpu.h\<close> and \<open>kern/sched.h\<close>. An
  environment is named by its index in \<open>envs\<close>, which the code always computes with \<open>ENVX\<close>,
  so that it is below \<open>NENV\<close>. The processor that executes is a parameter of the operations.
  The calls that never return to their caller end with an \<open>outcome\<close>.
\<close>

definition NENV :: nat where "NENV = 1024"
definition NCPU :: nat where "NCPU = 8"

definition ENVX :: "w32 \<Rightarrow> nat" where "ENVX envid = unat (envid AND 0x3FF)"

lemma ENVX_less: "ENVX envid < NENV"
proof -
  have "envid AND 0x3FF \<le> 0x3FF" by (rule word_and_le1)
  then show ?thesis by (simp add: ENVX_def NENV_def word_le_nat_alt)
qed

datatype env_status = ENV_FREE | ENV_DYING | ENV_RUNNABLE | ENV_RUNNING | ENV_NOT_RUNNABLE

datatype cpu_state = CPU_UNUSED | CPU_STARTED | CPU_HALTED

text \<open>\<open>struct Trapframe\<close> with the registers of its \<open>struct PushRegs\<close>.\<close>

record trapframe =
  reg_edi :: w32
  reg_esi :: w32
  reg_ebp :: w32
  reg_oesp :: w32
  reg_ebx :: w32
  reg_edx :: w32
  reg_ecx :: w32
  reg_eax :: w32
  tf_es :: w16
  tf_ds :: w16
  tf_trapno :: w32
  tf_err :: w32
  tf_eip :: w32
  tf_cs :: w16
  tf_eflags :: w32
  tf_esp :: w32
  tf_ss :: w16

definition zero_tf :: trapframe where
  "zero_tf = \<lparr>reg_edi = 0, reg_esi = 0, reg_ebp = 0, reg_oesp = 0, reg_ebx = 0, reg_edx = 0, reg_ecx = 0,
     reg_eax = 0, tf_es = 0, tf_ds = 0, tf_trapno = 0, tf_err = 0, tf_eip = 0, tf_cs = 0,
     tf_eflags = 0, tf_esp = 0, tf_ss = 0\<rparr>"

record env =
  env_tf :: trapframe
  env_link :: "nat option"
  env_id :: w32
  env_parent_id :: w32
  env_type :: nat
  env_status :: env_status
  env_runs :: w32
  env_cpunum :: nat
  env_pgdir :: "nat option"
  env_pgfault_upcall :: w32
  env_ipc_recving :: bool
  env_ipc_dstva :: w32
  env_ipc_value :: w32
  env_ipc_from :: w32
  env_ipc_perm :: w32
  current_queue :: int
  executions :: w32

text \<open>A ring of \<open>NENV\<close> entries with two running counters, and the four queues.\<close>

record mlfq_queue =
  q_envs :: "w32 list"
  q_last :: int
  q_beginning :: int

record mlfq_sched =
  q0 :: mlfq_queue
  q1 :: mlfq_queue
  q2 :: mlfq_queue
  q3 :: mlfq_queue
  total_executions :: int

definition empty_queue :: mlfq_queue where
  "empty_queue = \<lparr>q_envs = replicate NENV 0, q_last = 0, q_beginning = 0\<rparr>"

definition initial_mlfq :: mlfq_sched where
  "initial_mlfq = \<lparr>q0 = empty_queue, q1 = empty_queue, q2 = empty_queue, q3 = empty_queue,
     total_executions = 0\<rparr>"

record kern =
  envs :: "nat \<Rightarrow> env"
  env_free_list :: "nat option"
  cpu_env :: "nat \<Rightarrow> nat option"
  cpu_status :: "nat \<Rightarrow> cpu_state"
  cpu_cr3 :: "nat \<Rightarrow> nat"
  kernel_locked :: bool
  mlfq :: mlfq_sched
  sched_runs :: w32
  vm :: pmem

datatype outcome = Runs nat | Halts | Monitors

text \<open>The scheduler is chosen when the kernel is compiled.\<close>

datatype scheduler = SCHED_ROUND_ROBIN | SCHED_PRIORITIES

definition upd_env :: "nat \<Rightarrow> (env \<Rightarrow> env) \<Rightarrow> kern \<Rightarrow> kern" where
  "upd_env i f s = s\<lparr>envs := (envs s)(i := f (envs s i))\<rparr>"

lemma upd_env_sel [simp]:
  "envs (upd_env i f s) = (envs s)(i := f (envs s i))"
  "env_free_list (upd_env i f s) = env_free_list s" "cpu_env (upd_env i f s) = cpu_env s"
  "cpu_status (upd_env i f s) = cpu_status s" "cpu_cr3 (upd_env i f s) = cpu_cr3 s"
  "kernel_locked (upd_env i f s) = kernel_locked s" "mlfq (upd_env i f s) = mlfq s"
  "sched_runs (upd_env i f s) = sched_runs s" "vm (upd_env i f s) = vm s"
  by (simp_all add: upd_env_def)

end
