(* ===== verification/SchedQueue.thy ===== *)
theory SchedQueue
  imports Kernel "HOL-Library.Multiset"
begin

unbundle bit_operations_syntax

text \<open>
  The queues of the scheduler (\<open>sched/kern/sched.c\<close>): a ring of \<open>NENV\<close> environment
  ids with two counters that only grow. The operations are the code's; \<open>qlist\<close> is the list
  of entries between the counters, and the locale \<open>env_queue\<close> says what the operations do
  to it. An overflow of a counter is undefined behaviour, \<open>None\<close>.
\<close>

subsection \<open>One queue\<close>

definition incr32 :: "int \<Rightarrow> int option" where
  "incr32 x = (if x + 1 < 2 ^ 31 then Some (x + 1) else None)"

text \<open>The slot of a counter: \<open>counter % NENV\<close>, which is negative for a negative counter.\<close>

definition ring_index :: "int \<Rightarrow> nat option" where
  "ring_index x = (if 0 \<le> x then Some (nat x mod NENV) else None)"

definition queue_push :: "mlfq_queue \<Rightarrow> w32 \<Rightarrow> mlfq_queue option" where
  "queue_push q eid = do {
     index \<leftarrow> ring_index (q_last q);
     l \<leftarrow> incr32 (q_last q);
     Some (q\<lparr>q_envs := (q_envs q)[index := eid], q_last := l\<rparr>)
   }"

text \<open>
  \<open>sched_remove_env\<close>: the entry at \<open>position\<close> is exchanged with the first one, which is
  then dropped. The comparison is of a slot with the counter itself.
\<close>

definition sched_remove_env :: "mlfq_queue \<Rightarrow> nat \<Rightarrow> mlfq_queue option" where
  "sched_remove_env q position = do {
     b \<leftarrow> incr32 (q_beginning q);
     if int position = q_beginning q then Some (q\<lparr>q_beginning := b\<rparr>)
     else do {
       f \<leftarrow> ring_index (q_beginning q);
       let first = q_envs q ! f;
       let target = q_envs q ! position;
       Some (q\<lparr>q_envs := (q_envs q)[f := target, position := first], q_beginning := b\<rparr>)
     }
   }"

subsection \<open>The four queues\<close>

definition MAX_MLFQ_EXECUTIONS :: int where "MAX_MLFQ_EXECUTIONS = 50"
definition MAX_QUEUES :: int where "MAX_QUEUES = 4"

text \<open>\<open>get_queue\<close> returns a pointer, here read and written by its number; null for a negative one.\<close>

definition get_queue :: "mlfq_sched \<Rightarrow> int \<Rightarrow> mlfq_queue option" where
  "get_queue m n =
     (if n < 0 then None
      else if n = 0 then Some (q0 m) else if n = 1 then Some (q1 m)
      else if n = 2 then Some (q2 m) else Some (q3 m))"

definition put_queue :: "mlfq_sched \<Rightarrow> int \<Rightarrow> mlfq_queue \<Rightarrow> mlfq_sched" where
  "put_queue m n q =
     (if n = 0 then m\<lparr>q0 := q\<rparr> else if n = 1 then m\<lparr>q1 := q\<rparr>
      else if n = 2 then m\<lparr>q2 := q\<rparr> else m\<lparr>q3 := q\<rparr>)"

definition sched_push_env :: "kern \<Rightarrow> w32 \<Rightarrow> int \<Rightarrow> kern option" where
  "sched_push_env s eid queue = do {
     q \<leftarrow> get_queue (mlfq s) queue;
     let s = upd_env (ENVX eid) (\<lambda>e. e\<lparr>current_queue := queue\<rparr>) s;
     q \<leftarrow> queue_push q eid;
     Some (s\<lparr>mlfq := put_queue (mlfq s) queue q\<rparr>)
   }"

text \<open>The entries of a queue, by the counter values from \<open>beginning\<close> up to \<open>last\<close>.\<close>

definition positions :: "mlfq_queue \<Rightarrow> int list" where
  "positions q = [q_beginning q..q_last q - 1]"

definition entry_at :: "mlfq_queue \<Rightarrow> int \<Rightarrow> w32 option" where
  "entry_at q i = do { k \<leftarrow> ring_index i; Some (q_envs q ! k) }"

fun destroy_loop :: "w32 \<Rightarrow> int list \<Rightarrow> mlfq_queue \<Rightarrow> mlfq_queue option" where
  "destroy_loop eid [] q = Some q"
| "destroy_loop eid (i # is) q = do {
     k \<leftarrow> ring_index i;
     if q_envs q ! k = eid then sched_remove_env q k else destroy_loop eid is q
   }"

definition sched_destroy_env :: "kern \<Rightarrow> w32 \<Rightarrow> kern option" where
  "sched_destroy_env s eid = do {
     let n = current_queue (envs s (ENVX eid));
     q \<leftarrow> get_queue (mlfq s) n;
     q \<leftarrow> destroy_loop eid (positions q) q;
     Some (s\<lparr>mlfq := put_queue (mlfq s) n q\<rparr>)
   }"

definition clean_queue :: "mlfq_queue \<Rightarrow> mlfq_queue" where
  "clean_queue q = q\<lparr>q_beginning := 0, q_last := 0\<rparr>"

definition clean_queues :: "mlfq_sched \<Rightarrow> mlfq_sched" where
  "clean_queues m = m\<lparr>q1 := clean_queue (q1 m), q2 := clean_queue (q2 m), q3 := clean_queue (q3 m)\<rparr>"

text \<open>\<open>boost_queue\<close>: the queue is one of \<open>q1\<close> to \<open>q3\<close>, so pushing to \<open>q0\<close> leaves it as it is.\<close>

fun boost_loop :: "mlfq_queue \<Rightarrow> int list \<Rightarrow> kern \<Rightarrow> kern option" where
  "boost_loop q [] s = Some s"
| "boost_loop q (i # is) s = do {
     eid \<leftarrow> entry_at q i;
     s \<leftarrow> sched_push_env s eid 0;
     boost_loop q is s
   }"

definition boost_queue :: "int \<Rightarrow> kern \<Rightarrow> kern option" where
  "boost_queue n s = do {
     q \<leftarrow> get_queue (mlfq s) n;
     boost_loop q (positions q) s
   }"

definition boost_envs :: "kern \<Rightarrow> kern option" where
  "boost_envs s = do {
     s \<leftarrow> boost_queue 1 s;
     s \<leftarrow> boost_queue 2 s;
     s \<leftarrow> boost_queue 3 s;
     Some (s\<lparr>mlfq := clean_queues (mlfq s)\<rparr>)
   }"

subsection \<open>A queue as a list\<close>

definition queue_ok :: "mlfq_queue \<Rightarrow> bool" where
  "queue_ok q \<longleftrightarrow> length (q_envs q) = NENV \<and> 0 \<le> q_beginning q \<and> q_beginning q \<le> q_last q \<and>
     q_last q - q_beginning q \<le> int NENV"

definition qlist :: "mlfq_queue \<Rightarrow> w32 list" where
  "qlist q = map (\<lambda>i. q_envs q ! (nat i mod NENV)) (positions q)"

lemma length_qlist: "queue_ok q \<Longrightarrow> length (qlist q) = nat (q_last q - q_beginning q)"
  by (simp add: qlist_def positions_def)

lemma nth_positions: "k < nat (q_last q - q_beginning q) \<Longrightarrow> positions q ! k = q_beginning q + int k"
  by (simp add: positions_def nth_upto)

lemma qlist_nth:
  assumes "queue_ok q" and "k < length (qlist q)"
  shows "qlist q ! k = q_envs q ! (nat (q_beginning q + int k) mod NENV)"
  using assms length_qlist [OF assms(1)] by (simp add: qlist_def nth_positions positions_def)

text \<open>Two counters less than \<open>NENV\<close> apart have different slots.\<close>

lemma ring_slot_inj:
  assumes "0 \<le> x" and "0 \<le> y" and "\<bar>x - y\<bar> < int NENV"
  shows "nat x mod NENV = nat y mod NENV \<longleftrightarrow> x = y"
proof
  assume "nat x mod NENV = nat y mod NENV"
  then have "int (nat x mod NENV) = int (nat y mod NENV)" by (simp only:)
  then have "x mod int NENV = y mod int NENV"
    using assms(1,2) by (simp only: of_nat_mod nat_0_le)
  then have "int NENV dvd x - y" by (simp only: mod_eq_dvd_iff)
  then show "x = y" using assms(3) dvd_imp_le_int [of "x - y" "int NENV"] by force
qed simp

lemma NENV_pos [simp]: "0 < NENV" "nat x mod NENV < NENV"
  by (simp_all add: NENV_def)

lemma queue_push_ok:
  assumes ok: "queue_ok q" and room: "length (qlist q) < NENV" and last: "q_last q + 1 < 2 ^ 31"
  shows "\<exists>q'. queue_push q eid = Some q' \<and> queue_ok q' \<and> qlist q' = qlist q @ [eid] \<and>
     q_last q' = q_last q + 1 \<and> q_beginning q' = q_beginning q"
proof -
  let ?k = "nat (q_last q) mod NENV"
  let ?q = "q\<lparr>q_envs := (q_envs q)[?k := eid], q_last := q_last q + 1\<rparr>"
  have b: "0 \<le> q_beginning q" "q_beginning q \<le> q_last q" "length (q_envs q) = NENV"
    and r: "q_last q - q_beginning q < int NENV"
    using ok room length_qlist [OF ok] by (auto simp: queue_ok_def)
  have pos: "positions ?q = positions q @ [q_last q]"
    using b(2) by (simp add: positions_def upto_rec2)
  have other: "(q_envs q)[?k := eid] ! (nat i mod NENV) = q_envs q ! (nat i mod NENV)"
    if "i \<in> set (positions q)" for i
  proof -
    have "nat i mod NENV \<noteq> ?k"
      using ring_slot_inj [of i "q_last q"] that b r by (auto simp: positions_def)
    then show ?thesis by simp
  qed
  have "qlist ?q = qlist q @ [eid]"
    using other b(3) unfolding qlist_def pos by simp
  moreover have "queue_ok ?q" using b r by (simp add: queue_ok_def)
  moreover have "queue_push q eid = Some ?q"
    using b last by (simp add: queue_push_def ring_index_def incr32_def)
  ultimately show ?thesis by simp
qed

text \<open>A push on a full queue takes the place of the oldest entry.\<close>

lemma queue_push_full:
  assumes ok: "queue_ok q" and full: "length (qlist q) = NENV" and last: "q_last q + 1 < 2 ^ 31"
  shows "\<exists>q'. queue_push q eid = Some q' \<and> qlist q' = eid # tl (qlist q) @ [eid]"
proof -
  let ?k = "nat (q_last q) mod NENV"
  let ?q = "q\<lparr>q_envs := (q_envs q)[?k := eid], q_last := q_last q + 1\<rparr>"
  have b: "0 \<le> q_beginning q" "q_beginning q \<le> q_last q" "length (q_envs q) = NENV"
    and r: "q_last q = q_beginning q + int NENV"
    using ok full length_qlist [OF ok] by (auto simp: queue_ok_def)
  have first: "?k = nat (q_beginning q) mod NENV" using b(1) r by (simp add: nat_add_distrib)
  have pos: "positions ?q = q_beginning q # [q_beginning q + 1..q_last q - 1] @ [q_last q]"
    "positions q = q_beginning q # [q_beginning q + 1..q_last q - 1]"
    using r NENV_pos(1) upto_rec1 [of "q_beginning q" "q_last q - 1"]
      upto_rec1 [of "q_beginning q" "q_last q"] upto_rec2 [of "q_beginning q + 1" "q_last q"]
    by (simp_all add: positions_def Suc_le_eq)
  have other: "(q_envs q)[?k := eid] ! (nat i mod NENV) = q_envs q ! (nat i mod NENV)"
    if "i \<in> set [q_beginning q + 1..q_last q - 1]" for i
  proof -
    have "nat i mod NENV \<noteq> ?k"
      using ring_slot_inj [of i "q_beginning q"] that b r unfolding first by auto
    then show ?thesis by simp
  qed
  have "qlist ?q = eid # tl (qlist q) @ [eid]"
    using other b(3) first unfolding qlist_def pos by simp
  moreover have "queue_push q eid = Some ?q"
    using b last by (simp add: queue_push_def ring_index_def incr32_def)
  ultimately show ?thesis by blast
qed

lemma sched_remove_env_ok:
  assumes ok: "queue_ok q" and k: "k < length (qlist q)" and last: "q_last q < 2 ^ 31"
  shows "\<exists>q'. sched_remove_env q (nat (q_beginning q + int k) mod NENV) = Some q' \<and> queue_ok q' \<and>
     qlist q' = tl ((qlist q)[k := hd (qlist q)]) \<and>
     q_last q' = q_last q \<and> q_beginning q' = q_beginning q + 1"
proof -
  let ?b = "q_beginning q" and ?n = "length (qlist q)"
  let ?f = "nat ?b mod NENV" and ?p = "nat (?b + int k) mod NENV"
  have b: "0 \<le> ?b" "length (q_envs q) = NENV" and n: "?n = nat (q_last q - ?b)"
    and r: "q_last q - ?b \<le> int NENV" and lt: "?b < q_last q"
    using ok k length_qlist [OF ok] by (auto simp: queue_ok_def)
  have ne: "qlist q \<noteq> []" using k by auto
  have slot: "nat (?b + int i) mod NENV = nat (?b + int j) mod NENV \<longleftrightarrow> i = j" if "i < ?n" "j < ?n" for i j
    using ring_slot_inj [of "?b + int i" "?b + int j"] that b n r by auto
  have hd: "hd (qlist q) = q_envs q ! ?f"
    using qlist_nth [OF ok, of 0] ne by (simp add: hd_conv_nth)
  define q' where "q' = q\<lparr>q_envs := (if int ?p = ?b then q_envs q
      else (q_envs q)[?f := q_envs q ! ?p, ?p := q_envs q ! ?f]), q_beginning := ?b + 1\<rparr>"
  have run: "sched_remove_env q ?p = Some q'"
    using b lt last by (auto simp: sched_remove_env_def incr32_def ring_index_def q'_def Let_def)
  have sel: "q_last q' = q_last q" "q_beginning q' = ?b + 1" by (simp_all add: q'_def)
  have ok': "queue_ok q'" using ok b lt r by (auto simp: queue_ok_def q'_def)
  have at_first: "int ?p = ?b \<Longrightarrow> k = 0"
  proof -
    assume "int ?p = ?b"
    then have "?p = nat ?b" by linarith
    then have "?p mod NENV = nat ?b mod NENV" by simp
    then show "k = 0" using slot [of k 0] k ne by simp
  qed
  have cell: "q_envs q' ! (nat (?b + int j) mod NENV) =
      (if j = k then hd (qlist q) else q_envs q ! (nat (?b + int j) mod NENV))"
    if "0 < j" "j < ?n" for j
  proof -
    have j0: "nat (?b + int j) mod NENV \<noteq> ?f" using slot [OF that(2), of 0] that(1) ne by simp
    have jk: "nat (?b + int j) mod NENV = ?p \<longleftrightarrow> j = k" using slot [OF that(2) k] .
    have bound: "?p < length (q_envs q)" using b(2) by simp
    show ?thesis
    proof (cases "int ?p = ?b")
      case True
      with at_first that(1) have "j \<noteq> k" by simp
      with True show ?thesis by (simp add: q'_def)
    next
      case False
      then have "q_envs q' = (q_envs q)[?f := q_envs q ! ?p, ?p := q_envs q ! ?f]"
        by (simp add: q'_def)
      then show ?thesis
        using j0 jk bound hd by (cases "j = k") (simp_all add: nth_list_update_neq)
    qed
  qed
  have len: "length (qlist q') = ?n - 1"
    using length_qlist [OF ok'] n lt by (simp add: sel)
  have "qlist q' = tl ((qlist q)[k := hd (qlist q)])"
  proof (rule nth_equalityI)
    show "length (qlist q') = length (tl ((qlist q)[k := hd (qlist q)]))" using len by simp
    fix j assume j: "j < length (qlist q')"
    then have "qlist q' ! j = q_envs q' ! (nat (?b + int (Suc j)) mod NENV)"
      using qlist_nth [OF ok', of j] by (simp add: sel algebra_simps)
    then show "qlist q' ! j = tl ((qlist q)[k := hd (qlist q)]) ! j"
      using cell [of "Suc j"] qlist_nth [OF ok, of "Suc j"] j len
      by (simp add: nth_tl nth_list_update)
  qed
  with run ok' sel show ?thesis by blast
qed

subsection \<open>The interface of a queue\<close>

text \<open>
  What the scheduler relies on: a push appends; an entry that is taken out is replaced by
  the first one, so that the entries before the chosen one may change their order but the
  ones behind it do not.
\<close>

lemma filter_take_first:
  assumes "k < length xs" and "P (xs ! k)" and "\<forall>j<k. \<not> P (xs ! j)"
  shows "filter P (tl (xs[k := hd xs])) = tl (filter P xs)"
proof (cases k)
  case 0
  with assms show ?thesis by (cases xs) auto
next
  case (Suc k')
  with assms(1) obtain x ys where xs: "xs = x # ys" by (cases xs) auto
  have split: "ys = take k' ys @ ys ! k' # drop (Suc k') ys"
    using assms(1) xs Suc by (simp add: id_take_nth_drop)
  have "\<not> P (ys ! i)" if "i < k'" for i using assms(3) xs Suc that by force
  then have none: "filter P (take k' ys) = []"
    using assms(1) xs Suc by (auto simp: filter_empty_conv in_set_conv_nth)
  have x: "\<not> P x" using assms(3) xs Suc by force
  have "tl (xs[k := hd xs]) = take k' ys @ x # drop (Suc k') ys"
    using assms(1) xs Suc by (simp add: upd_conv_take_nth_drop)
  moreover have "filter P xs = filter P (take k' ys @ ys ! k' # drop (Suc k') ys)"
    using xs x split by simp
  ultimately show ?thesis using none x assms(2) xs Suc by simp
qed

locale env_queue =
  fixes inv :: "'s \<Rightarrow> bool" and entries :: "'s \<Rightarrow> 'a list" and room :: "'s \<Rightarrow> bool"
    and push :: "'s \<Rightarrow> 'a \<Rightarrow> 's option" and take_at :: "'s \<Rightarrow> nat \<Rightarrow> 's option"
  assumes push_ok: "inv s \<Longrightarrow> room s \<Longrightarrow>
      \<exists>s'. push s x = Some s' \<and> inv s' \<and> entries s' = entries s @ [x]"
    and take_ok: "inv s \<Longrightarrow> k < length (entries s) \<Longrightarrow>
      \<exists>s'. take_at s k = Some s' \<and> inv s' \<and> entries s' = tl ((entries s)[k := hd (entries s)])"
begin

lemma take_mset:
  assumes "inv s" and "k < length (entries s)" and "take_at s k = Some s'"
  shows "mset (entries s) = add_mset (entries s ! k) (mset (entries s'))"
proof -
  from take_ok [OF assms(1,2)] assms(3)
  have e: "entries s' = tl ((entries s)[k := hd (entries s)])" by auto
  show ?thesis
  proof (cases k)
    case 0
    then show ?thesis using e assms(2) by (cases "entries s") auto
  next
    case (Suc k')
    with assms(2) obtain x ys where xs: "entries s = x # ys" "k' < length ys" by (cases "entries s") auto
    then have "mset (entries s') = add_mset x (mset ys - {#ys ! k'#})"
      using e Suc by (simp add: mset_update)
    then show ?thesis using xs Suc by simp
  qed
qed

lemma take_first:
  assumes "inv s" and "k < length (entries s)" and "take_at s k = Some s'"
    and "P (entries s ! k)" and "\<forall>j<k. \<not> P (entries s ! j)"
  shows "filter P (entries s') = tl (filter P (entries s))"
  using take_ok [OF assms(1,2)] assms(3) filter_take_first [OF assms(2,4,5)] by auto

lemma push_filter:
  assumes "inv s" and "room s" and "push s x = Some s'"
  shows "filter P (entries s') = filter P (entries s) @ (if P x then [x] else [])"
  using push_ok [OF assms(1,2), of x] assms(3) by auto

end

definition ring_inv :: "mlfq_queue \<Rightarrow> bool" where
  "ring_inv q \<longleftrightarrow> queue_ok q \<and> q_last q < 2 ^ 31"

definition ring_room :: "mlfq_queue \<Rightarrow> bool" where
  "ring_room q \<longleftrightarrow> length (qlist q) < NENV \<and> q_last q + 1 < 2 ^ 31"

definition ring_take :: "mlfq_queue \<Rightarrow> nat \<Rightarrow> mlfq_queue option" where
  "ring_take q k = sched_remove_env q (nat (q_beginning q + int k) mod NENV)"

interpretation ring: env_queue ring_inv qlist ring_room queue_push ring_take
proof
  fix q :: mlfq_queue and eid k
  show "ring_inv q \<Longrightarrow> ring_room q \<Longrightarrow>
      \<exists>q'. queue_push q eid = Some q' \<and> ring_inv q' \<and> qlist q' = qlist q @ [eid]"
    using queue_push_ok [of q eid] unfolding ring_inv_def ring_room_def by auto
  show "ring_inv q \<Longrightarrow> k < length (qlist q) \<Longrightarrow>
      \<exists>q'. ring_take q k = Some q' \<and> ring_inv q' \<and> qlist q' = tl ((qlist q)[k := hd (qlist q)])"
    using sched_remove_env_ok [of q k] unfolding ring_inv_def ring_take_def by auto
qed

end
