(* ===== verification/Sched.thy ===== *)
theory Sched
  imports SchedQueue
begin

unbundle bit_operations_syntax

text \<open>
  The scheduler (\<open>sched/kern/sched.c\<close>) and the context switch it ends with (\<open>env_run\<close> in
  \<open>kern/env.c\<close>). \<open>c\<close> is the processor that executes. A function that may return to its
  caller gives \<open>None\<close> for the outcome when it does; \<open>env_run\<close> and \<open>sched_halt\<close> do not.
\<close>

subsection \<open>Running an environment, halting a processor\<close>

definition set_status :: "env_status \<Rightarrow> env \<Rightarrow> env" where
  "set_status st e = e\<lparr>env_status := st\<rparr>"

definition status :: "kern \<Rightarrow> nat \<Rightarrow> env_status" where
  "status s i = env_status (envs s i)"

definition curenv_running :: "nat \<Rightarrow> kern \<Rightarrow> nat option" where
  "curenv_running c s =
     (case cpu_env s c of Some k \<Rightarrow> if status s k = ENV_RUNNING then Some k else None | None \<Rightarrow> None)"

text \<open>A null page directory makes \<open>PADDR\<close> panic.\<close>

definition env_run :: "nat \<Rightarrow> kern \<Rightarrow> nat \<Rightarrow> (kern \<times> outcome) option" where
  "env_run c s e = do {
     let s = (case curenv_running c s of
                Some k \<Rightarrow> upd_env k (set_status ENV_RUNNABLE) s | None \<Rightarrow> s);
     let s = s\<lparr>cpu_env := (cpu_env s)(c := Some e)\<rparr>;
     let s = upd_env e (set_status ENV_RUNNING) s;
     let s = upd_env e (\<lambda>e. e\<lparr>env_runs := env_runs e + 1\<rparr>) s;
     pgdir \<leftarrow> env_pgdir (envs s e);
     let s = s\<lparr>cpu_cr3 := (cpu_cr3 s)(c := pgdir), kernel_locked := False\<rparr>;
     Some (upd_env e (\<lambda>e. e\<lparr>env_cpunum := c\<rparr>) s, Runs e)
   }"

text \<open>With nothing left to run the processor enters the kernel monitor for good.\<close>

definition sched_halt :: "nat \<Rightarrow> kern \<Rightarrow> kern \<times> outcome" where
  "sched_halt c s =
     (if \<forall>i\<in>set [0..<NENV]. status s i \<noteq> ENV_RUNNABLE \<and> status s i \<noteq> ENV_RUNNING \<and>
           status s i \<noteq> ENV_DYING
      then (s, Monitors)
      else (s\<lparr>cpu_env := (cpu_env s)(c := None), cpu_cr3 := (cpu_cr3 s)(c := kern_pgdir (vm s)),
              cpu_status := (cpu_status s)(c := CPU_HALTED), kernel_locked := False\<rparr>, Halts))"

definition count_execution :: "nat \<Rightarrow> kern \<Rightarrow> kern" where
  "count_execution i s = upd_env i (\<lambda>e. e\<lparr>executions := executions e + 1\<rparr>) s"

subsection \<open>Round robin\<close>

fun rr_loop :: "nat \<Rightarrow> nat \<Rightarrow> nat list \<Rightarrow> kern \<Rightarrow> (kern \<times> outcome option) option" where
  "rr_loop c start [] s = Some (s, None)"
| "rr_loop c start (i # is) s =
     (let k = (start + i) mod NENV in
      if status s k = ENV_RUNNABLE
      then map_option (\<lambda>(s, r). (s, Some r)) (env_run c (count_execution k s) k)
      else rr_loop c start is s)"

definition round_robin :: "nat \<Rightarrow> kern \<Rightarrow> (kern \<times> outcome option) option" where
  "round_robin c s = do {
     let start_index = (case cpu_env s c of Some k \<Rightarrow> ENVX (env_id (envs s k)) + 1 | None \<Rightarrow> 0);
     (s, r) \<leftarrow> rr_loop c start_index [0..<NENV] s;
     case r of
       Some r \<Rightarrow> Some (s, Some r)
     | None \<Rightarrow>
         (case curenv_running c s of
            Some k \<Rightarrow> map_option (\<lambda>(s, r). (s, Some r)) (env_run c (count_execution k s) k)
          | None \<Rightarrow> Some (s, None))
   }"

subsection \<open>The multi-level feedback queue\<close>

fun has_runnable_loop :: "kern \<Rightarrow> mlfq_queue \<Rightarrow> int list \<Rightarrow> bool option" where
  "has_runnable_loop s q [] = Some False"
| "has_runnable_loop s q (i # is) = do {
     eid \<leftarrow> entry_at q i;
     if status s (ENVX eid) = ENV_RUNNABLE then Some True else has_runnable_loop s q is
   }"

definition has_runnable_envs :: "kern \<Rightarrow> mlfq_queue \<Rightarrow> int \<Rightarrow> int option" where
  "has_runnable_envs s q n = map_option (\<lambda>b. if b then n else - 1) (has_runnable_loop s q (positions q))"

fun best_queue_loop :: "kern \<Rightarrow> int list \<Rightarrow> int option" where
  "best_queue_loop s [] = Some (- 1)"
| "best_queue_loop s (i # is) = do {
     q \<leftarrow> get_queue (mlfq s) i;
     r \<leftarrow> has_runnable_envs s q i;
     if r \<noteq> - 1 then Some i else best_queue_loop s is
   }"

definition get_best_priority_queue :: "kern \<Rightarrow> int option" where
  "get_best_priority_queue s = best_queue_loop s [0..MAX_QUEUES - 1]"

definition count_total :: "kern \<Rightarrow> kern" where
  "count_total s = s\<lparr>mlfq := (mlfq s)\<lparr>total_executions := total_executions (mlfq s) + 1\<rparr>\<rparr>"

definition lower_queue :: "int \<Rightarrow> int" where
  "lower_queue n = (if n \<ge> MAX_QUEUES - 1 then MAX_QUEUES - 1 else n + 1)"

fun mlfq_loop :: "nat \<Rightarrow> int \<Rightarrow> mlfq_queue \<Rightarrow> int list \<Rightarrow> kern \<Rightarrow> (kern \<times> outcome option) option" where
  "mlfq_loop c n q [] s = Some (s, None)"
| "mlfq_loop c n q (i # is) s = do {
     eid \<leftarrow> entry_at q i;
     if status s (ENVX eid) = ENV_RUNNABLE then do {
       k \<leftarrow> ring_index i;
       q \<leftarrow> sched_remove_env q k;
       let s = s\<lparr>mlfq := put_queue (mlfq s) n q\<rparr>;
       s \<leftarrow> sched_push_env s eid (lower_queue n);
       let s = count_execution (ENVX eid) (count_total s);
       map_option (\<lambda>(s, r). (s, Some r)) (env_run c s (ENVX eid))
     } else mlfq_loop c n q is s
   }"

definition priority_MLFQ :: "nat \<Rightarrow> kern \<Rightarrow> (kern \<times> outcome option) option" where
  "priority_MLFQ c s = do {
     n \<leftarrow> get_best_priority_queue s;
     if n = - 1 then
       (case curenv_running c s of
          Some k \<Rightarrow> map_option (\<lambda>(s, r). (s, Some r)) (env_run c (count_execution k (count_total s)) k)
        | None \<Rightarrow> (case sched_halt c s of (s, r) \<Rightarrow> Some (s, Some r)))
     else do {
       q \<leftarrow> get_queue (mlfq s) n;
       mlfq_loop c n q (positions q) s
     }
   }"

definition sched_yield :: "scheduler \<Rightarrow> nat \<Rightarrow> kern \<Rightarrow> (kern \<times> outcome) option" where
  "sched_yield cfg c s = do {
     let s = s\<lparr>sched_runs := sched_runs s + 1\<rparr>;
     (s, r) \<leftarrow> (case cfg of
        SCHED_ROUND_ROBIN \<Rightarrow> round_robin c s
      | SCHED_PRIORITIES \<Rightarrow> do {
          s \<leftarrow> (if total_executions (mlfq s) \<ge> MAX_MLFQ_EXECUTIONS then do {
                  s \<leftarrow> boost_envs s;
                  Some (s\<lparr>mlfq := (mlfq s)\<lparr>total_executions := 0\<rparr>\<rparr>)
                } else Some s);
          priority_MLFQ c s
        });
     case r of Some r \<Rightarrow> Some (s, r) | None \<Rightarrow> Some (sched_halt c s)
   }"

end
