(* ===== verification/SchedSpec.thy ===== *)
theory SchedSpec
  imports Sched
begin

unbundle bit_operations_syntax

text \<open>
  The priority scheduler as an operation on four lists of environment ids (\<open>spec_yield\<close>) and
  the proof that \<open>sched_yield\<close> refines it: the queues of the code hold exactly the lists of
  the specification, as long as no ring overflows.
\<close>

subsection \<open>The specification\<close>

type_synonym levels = "w32 list list"

text \<open>The first level with a runnable entry, and the first such entry in it.\<close>

definition first_index :: "('a \<Rightarrow> bool) \<Rightarrow> 'a list \<Rightarrow> nat option" where
  "first_index P xs = List.find (\<lambda>k. P (xs ! k)) [0..<length xs]"

definition spec_level :: "(w32 \<Rightarrow> bool) \<Rightarrow> levels \<Rightarrow> nat option" where
  "spec_level R ls = first_index (\<lambda>l. \<exists>x\<in>set l. R x) ls"

definition spec_move :: "(w32 \<Rightarrow> bool) \<Rightarrow> levels \<Rightarrow> nat \<Rightarrow> levels \<times> w32" where
  "spec_move R ls n =
     (let l = ls ! n; k = the (first_index R l); x = l ! k;
          ls = ls[n := tl (l[k := hd l])]; m = min 3 (n + 1)
      in (ls[m := ls ! m @ [x]], x))"

definition spec_boost :: "levels \<times> int \<Rightarrow> levels \<times> int" where
  "spec_boost = (\<lambda>(ls, tot). if tot \<ge> MAX_MLFQ_EXECUTIONS then ([concat ls, [], [], []], 0) else (ls, tot))"

text \<open>One call of the scheduler: the new levels and total, and the entry that was chosen.\<close>

definition spec_yield :: "(w32 \<Rightarrow> bool) \<Rightarrow> levels \<times> int \<Rightarrow> (levels \<times> int) \<times> w32 option" where
  "spec_yield R st =
     (let (ls, tot) = spec_boost st in
      case spec_level R ls of
        None \<Rightarrow> ((ls, tot), None)
      | Some n \<Rightarrow> (let (ls, x) = spec_move R ls n in ((ls, tot + 1), Some x)))"

lemma first_index_SomeD:
  assumes "first_index P xs = Some k"
  shows "k < length xs" and "P (xs ! k)" and "\<forall>j<k. \<not> P (xs ! j)"
  using assms by (auto simp: first_index_def find_Some_iff)

lemma first_index_None: "first_index P xs = None \<longleftrightarrow> (\<forall>x\<in>set xs. \<not> P x)"
  by (auto simp: first_index_def find_None_iff set_conv_nth)

lemma first_indexI:
  assumes "k < length xs" and "P (xs ! k)" and "\<forall>j<k. \<not> P (xs ! j)"
  shows "first_index P xs = Some k"
proof -
  from assms(1,2) have "first_index P xs \<noteq> None" by (auto simp: first_index_None)
  then obtain j where "first_index P xs = Some j" by auto
  moreover from first_index_SomeD [OF this] assms have "j = k" by (metis linorder_neqE_nat)
  ultimately show ?thesis by simp
qed

subsection \<open>The queues of the code as levels\<close>

definition levels_of :: "mlfq_sched \<Rightarrow> levels" where
  "levels_of m = [qlist (q0 m), qlist (q1 m), qlist (q2 m), qlist (q3 m)]"

definition mlfq_ok :: "int \<Rightarrow> mlfq_sched \<Rightarrow> bool" where
  "mlfq_ok b m \<longleftrightarrow> (\<forall>q\<in>{q0 m, q1 m, q2 m, q3 m}. queue_ok q \<and> q_last q \<le> b)"

text \<open>What pushing to queues leaves alone: everything but the queues and \<open>current_queue\<close>.\<close>

definition queues_only :: "kern \<Rightarrow> kern \<Rightarrow> bool" where
  "queues_only s s' \<longleftrightarrow>
     (\<exists>f m. s' = s\<lparr>envs := \<lambda>i. (envs s i)\<lparr>current_queue := f i\<rparr>, mlfq := m\<rparr>)"

lemma queues_only_refl [simp]: "queues_only s s"
  unfolding queues_only_def
  by (intro exI [of _ "\<lambda>i. current_queue (envs s i)"] exI [of _ "mlfq s"]) simp

lemma queues_only_trans: "queues_only s t \<Longrightarrow> queues_only t u \<Longrightarrow> queues_only s u"
  unfolding queues_only_def by fastforce

lemma queues_only_mlfq [simp]: "queues_only s (s'\<lparr>mlfq := m\<rparr>) \<longleftrightarrow> queues_only s s'"
proof -
  have "s'\<lparr>mlfq := m\<rparr> = s\<lparr>envs := \<lambda>i. (envs s i)\<lparr>current_queue := f i\<rparr>, mlfq := m\<rparr>"
    if "s' = s\<lparr>envs := \<lambda>i. (envs s i)\<lparr>current_queue := f i\<rparr>, mlfq := m'\<rparr>" for f m'
    using that by simp
  moreover have "s' = s\<lparr>envs := \<lambda>i. (envs s i)\<lparr>current_queue := f i\<rparr>, mlfq := mlfq s'\<rparr>"
    if "s'\<lparr>mlfq := m\<rparr> = s\<lparr>envs := \<lambda>i. (envs s i)\<lparr>current_queue := f i\<rparr>, mlfq := m'\<rparr>" for f m'
    using that by (cases s; cases s') simp
  ultimately show ?thesis unfolding queues_only_def by blast
qed

lemma queues_onlyD:
  assumes "queues_only s s'"
  shows "status s' = status s" and "env_pgdir (envs s' i) = env_pgdir (envs s i)"
    and "env_id (envs s' i) = env_id (envs s i)" and "cpu_env s' = cpu_env s"
    and "vm s' = vm s" and "env_free_list s' = env_free_list s" and "curenv_running c s' = curenv_running c s"
    and "env_link (envs s' i) = env_link (envs s i)" and "env_parent_id (envs s' i) = env_parent_id (envs s i)"
  using assms by (auto simp: queues_only_def status_def curenv_running_def fun_eq_iff split: option.splits)

subsection \<open>Pushing and boosting\<close>

lemma get_put_queue:
  "0 \<le> n \<Longrightarrow> get_queue (put_queue m n q) n = Some q"
  by (simp add: get_queue_def put_queue_def)

lemma sched_push_env_ok:
  assumes q: "get_queue (mlfq s) n = Some q" and ok: "queue_ok q"
    and room: "length (qlist q) < NENV" and last: "q_last q + 1 < 2 ^ 31"
  obtains s' q' where "sched_push_env s eid n = Some s'" and "queues_only s s'"
    and "mlfq s' = put_queue (mlfq s) n q'" and "queue_ok q'" and "qlist q' = qlist q @ [eid]"
    and "q_last q' = q_last q + 1"
proof -
  obtain q' where q': "queue_push q eid = Some q'" "queue_ok q'" "qlist q' = qlist q @ [eid]"
    "q_last q' = q_last q + 1"
    using queue_push_ok [OF ok room last] by blast
  let ?s = "(upd_env (ENVX eid) (\<lambda>e. e\<lparr>current_queue := n\<rparr>) s)"
  have "sched_push_env s eid n = Some (?s\<lparr>mlfq := put_queue (mlfq s) n q'\<rparr>)"
    using q q'(1) by (simp add: sched_push_env_def)
  moreover have "queues_only s ?s"
    unfolding queues_only_def
    by (intro exI [of _ "\<lambda>i. if i = ENVX eid then n else current_queue (envs s i)"] exI [of _ "mlfq s"])
      (simp add: upd_env_def fun_eq_iff)
  ultimately show thesis using that q' by simp
qed

lemma entry_at_position: "queue_ok q \<Longrightarrow> i \<in> set (positions q) \<Longrightarrow>
    entry_at q i = Some (q_envs q ! (nat i mod NENV))"
  by (auto simp: entry_at_def ring_index_def positions_def queue_ok_def)

lemma boost_loop_ok:
  assumes "queue_ok q" and "set js \<subseteq> set (positions q)" and "queue_ok (q0 (mlfq s))"
    and "length (qlist (q0 (mlfq s))) + length js \<le> NENV"
    and "q_last (q0 (mlfq s)) + int (length js) < 2 ^ 31"
  shows "\<exists>s' q'. boost_loop q js s = Some s' \<and> queues_only s s' \<and> mlfq s' = (mlfq s)\<lparr>q0 := q'\<rparr> \<and>
     queue_ok q' \<and> qlist q' = qlist (q0 (mlfq s)) @ map (\<lambda>i. q_envs q ! (nat i mod NENV)) js \<and>
     q_last q' = q_last (q0 (mlfq s)) + int (length js)"
  using assms
proof (induction js arbitrary: s)
  case Nil
  then show ?case by (auto intro: exI [of _ "q0 (mlfq s)"])
next
  case (Cons i js)
  let ?eid = "q_envs q ! (nat i mod NENV)"
  have "get_queue (mlfq s) 0 = Some (q0 (mlfq s))" by (simp add: get_queue_def)
  from sched_push_env_ok [OF this Cons.prems(3), of ?eid] Cons.prems(4,5)
  obtain s1 q1 where s1: "sched_push_env s ?eid 0 = Some s1" "queues_only s s1"
    "mlfq s1 = (mlfq s)\<lparr>q0 := q1\<rparr>" "queue_ok q1" "qlist q1 = qlist (q0 (mlfq s)) @ [?eid]"
    "q_last q1 = q_last (q0 (mlfq s)) + 1"
    by (auto simp: put_queue_def)
  have e: "entry_at q i = Some ?eid" using Cons.prems(1,2) by (simp add: entry_at_position)
  have "\<exists>s' q'. boost_loop q js s1 = Some s' \<and> queues_only s1 s' \<and> mlfq s' = (mlfq s1)\<lparr>q0 := q'\<rparr> \<and>
     queue_ok q' \<and> qlist q' = qlist (q0 (mlfq s1)) @ map (\<lambda>i. q_envs q ! (nat i mod NENV)) js \<and>
     q_last q' = q_last (q0 (mlfq s1)) + int (length js)"
    using Cons.prems s1 by (intro Cons.IH) simp_all
  then obtain s' q' where "boost_loop q js s1 = Some s'" "queues_only s1 s'"
    "mlfq s' = (mlfq s1)\<lparr>q0 := q'\<rparr>" "queue_ok q'"
    "qlist q' = qlist (q0 (mlfq s1)) @ map (\<lambda>i. q_envs q ! (nat i mod NENV)) js"
    "q_last q' = q_last (q0 (mlfq s1)) + int (length js)" by blast
  with e s1 queues_only_trans [OF s1(2)] show ?case
    by (intro exI [of _ s'] exI [of _ q']) simp
qed

lemma boost_envs_ok:
  assumes ok: "mlfq_ok b (mlfq s)" and room: "length (concat (levels_of (mlfq s))) \<le> NENV"
    and b: "b + int NENV < 2 ^ 31"
  obtains s' where "boost_envs s = Some s'" and "queues_only s s'"
    and "levels_of (mlfq s') = [concat (levels_of (mlfq s)), [], [], []]"
    and "mlfq_ok (b + int NENV) (mlfq s')"
    and "total_executions (mlfq s') = total_executions (mlfq s)"
proof -
  let ?m = "mlfq s"
  have q: "queue_ok (q0 ?m)" "queue_ok (q1 ?m)" "queue_ok (q2 ?m)" "queue_ok (q3 ?m)"
    "q_last (q0 ?m) \<le> b" "q_last (q1 ?m) \<le> b" "q_last (q2 ?m) \<le> b" "q_last (q3 ?m) \<le> b"
    using ok by (auto simp: mlfq_ok_def)
  have len: "length (qlist (q0 ?m)) + length (positions (q1 ?m)) + length (positions (q2 ?m)) +
      length (positions (q3 ?m)) \<le> NENV"
    using room by (simp add: levels_of_def qlist_def)
  obtain s1 r1 where s1: "boost_loop (q1 ?m) (positions (q1 ?m)) s = Some s1" "queues_only s s1"
    "mlfq s1 = ?m\<lparr>q0 := r1\<rparr>" "queue_ok r1" "qlist r1 = qlist (q0 ?m) @ qlist (q1 ?m)"
    "q_last r1 = q_last (q0 ?m) + int (length (positions (q1 ?m)))"
    using boost_loop_ok [of "q1 ?m" "positions (q1 ?m)" s] q len b by (auto simp: qlist_def)
  have "length (qlist (q0 (mlfq s1))) + length (positions (q2 ?m)) \<le> NENV"
    "q_last (q0 (mlfq s1)) + int (length (positions (q2 ?m))) < 2 ^ 31"
    using s1 len q(5) b by (simp_all add: qlist_def)
  then obtain s2 r2 where s2: "boost_loop (q2 ?m) (positions (q2 ?m)) s1 = Some s2" "queues_only s1 s2"
    "mlfq s2 = (mlfq s1)\<lparr>q0 := r2\<rparr>" "queue_ok r2" "qlist r2 = qlist r1 @ qlist (q2 ?m)"
    "q_last r2 = q_last r1 + int (length (positions (q2 ?m)))"
    using boost_loop_ok [of "q2 ?m" "positions (q2 ?m)" s1] q s1(3,4) by (auto simp: qlist_def)
  have "length (qlist (q0 (mlfq s2))) + length (positions (q3 ?m)) \<le> NENV"
    "q_last (q0 (mlfq s2)) + int (length (positions (q3 ?m))) < 2 ^ 31"
    using s1 s2 len q(5) b by (simp_all add: qlist_def)
  then obtain s3 r3 where s3: "boost_loop (q3 ?m) (positions (q3 ?m)) s2 = Some s3" "queues_only s2 s3"
    "mlfq s3 = (mlfq s2)\<lparr>q0 := r3\<rparr>" "queue_ok r3" "qlist r3 = qlist r2 @ qlist (q3 ?m)"
    "q_last r3 = q_last r2 + int (length (positions (q3 ?m)))"
    using boost_loop_ok [of "q3 ?m" "positions (q3 ?m)" s2] q s2(3,4) s1(3) by (auto simp: qlist_def)
  have qs: "get_queue ?m 1 = Some (q1 ?m)" "get_queue (mlfq s1) 2 = Some (q2 ?m)"
    "get_queue (mlfq s2) 3 = Some (q3 ?m)"
    using s1(3) s2(3) by (simp_all add: get_queue_def)
  let ?s' = "s3\<lparr>mlfq := clean_queues (mlfq s3)\<rparr>"
  have run: "boost_envs s = Some ?s'"
    using s1(1) s2(1) s3(1) qs by (simp add: boost_envs_def boost_queue_def)
  have fr: "queues_only s ?s'"
    using queues_only_trans [OF queues_only_trans [OF s1(2) s2(2)] s3(2)] by simp
  have m': "mlfq ?s' = clean_queues (?m\<lparr>q0 := r3\<rparr>)" using s1(3) s2(3) s3(3) by simp
  have empty: "qlist (clean_queue q) = []" for q
    by (simp add: qlist_def clean_queue_def positions_def)
  have "queue_ok (clean_queue q)" if "queue_ok q" for q
    using that by (simp add: queue_ok_def clean_queue_def)
  moreover have "q_last (clean_queue q) = 0" for q by (simp add: clean_queue_def)
  moreover have "0 \<le> b" using q(1,5) by (simp add: queue_ok_def)
  moreover have "q_last r3 \<le> b + int NENV" using s1(6) s2(6) s3(6) q(5) len by simp
  ultimately have "mlfq_ok (b + int NENV) (mlfq ?s')"
    using q s3(4) unfolding m' by (simp add: mlfq_ok_def clean_queues_def)
  moreover have "levels_of (mlfq ?s') = [concat (levels_of ?m), [], [], []]"
    using s1(5) s2(5) s3(5) unfolding m' by (simp add: levels_of_def clean_queues_def empty)
  moreover have "total_executions (mlfq ?s') = total_executions ?m"
    unfolding m' by (simp add: clean_queues_def)
  ultimately show thesis using that run fr by blast
qed

subsection \<open>Choosing\<close>

abbreviation runnable :: "kern \<Rightarrow> w32 \<Rightarrow> bool" where
  "runnable s x \<equiv> status s (ENVX x) = ENV_RUNNABLE"

lemma less_4_cases: "n < (4::nat) \<Longrightarrow> n = 0 \<or> n = 1 \<or> n = 2 \<or> n = 3"
  by linarith

lemma queue_of_level:
  assumes "n < 4"
  obtains q where "get_queue m (int n) = Some q" and "levels_of m ! n = qlist q"
    and "mlfq_ok b m \<Longrightarrow> queue_ok q \<and> q_last q \<le> b"
    and "\<And>q'. levels_of (put_queue m (int n) q') = (levels_of m)[n := qlist q']"
    and "\<And>q' b'. mlfq_ok b m \<Longrightarrow> b \<le> b' \<Longrightarrow> queue_ok q' \<Longrightarrow> q_last q' \<le> b' \<Longrightarrow>
           mlfq_ok b' (put_queue m (int n) q')"
    and "\<And>q'. total_executions (put_queue m (int n) q') = total_executions m"
  using less_4_cases [OF assms] that [of "[q0 m, q1 m, q2 m, q3 m] ! n"]
  by (elim disjE) (auto simp: get_queue_def levels_of_def put_queue_def mlfq_ok_def)

lemma length_levels [simp]: "length (levels_of m) = 4"
  by (simp add: levels_of_def)

lemma has_runnable_ok:
  assumes "queue_ok q"
  shows "has_runnable_envs s q n = Some (if \<exists>x\<in>set (qlist q). runnable s x then n else - 1)"
proof -
  have "has_runnable_loop s q js = Some (\<exists>i\<in>set js. runnable s (q_envs q ! (nat i mod NENV)))"
    if "set js \<subseteq> set (positions q)" for js
    using that by (induction js) (simp_all add: entry_at_position [OF assms])
  from this [of "positions q"] show ?thesis by (simp add: has_runnable_envs_def qlist_def)
qed

lemma get_best_ok:
  assumes "mlfq_ok b (mlfq s)"
  shows "get_best_priority_queue s =
     Some (case spec_level (runnable s) (levels_of (mlfq s)) of None \<Rightarrow> - 1 | Some n \<Rightarrow> int n)"
proof -
  let ?m = "mlfq s"
  have ok: "queue_ok (q0 ?m)" "queue_ok (q1 ?m)" "queue_ok (q2 ?m)" "queue_ok (q3 ?m)"
    using assms by (auto simp: mlfq_ok_def)
  have up: "[0..MAX_QUEUES - 1] = [0, 1, 2, 3]" by (simp add: MAX_QUEUES_def upto_rec1)
  have idx: "[0..<length (levels_of ?m)] = [0, 1, 2, 3]" by (simp add: upt_rec)
  show ?thesis
    unfolding get_best_priority_queue_def up spec_level_def first_index_def idx
    by (simp add: get_queue_def has_runnable_ok ok levels_of_def)
qed

lemma mlfq_loop_skip:
  assumes "queue_ok q" and "set (js @ i # is) \<subseteq> set (positions q)"
    and "\<forall>j\<in>set js. \<not> runnable s (q_envs q ! (nat j mod NENV))"
    and "runnable s (q_envs q ! (nat i mod NENV))"
  shows "mlfq_loop c n q (js @ i # is) s = mlfq_loop c n q [i] s"
  using assms(2,3)
proof (induction js)
  case Nil
  then show ?case using assms(4) by (simp add: entry_at_position [OF assms(1)])
qed (simp add: entry_at_position [OF assms(1)])

subsection \<open>Running\<close>

lemma env_run_ok:
  assumes "env_pgdir (envs s e) = Some p"
  obtains s' where "env_run c s e = Some (s', Runs e)" and "mlfq s' = mlfq s" and "vm s' = vm s"
    and "env_free_list s' = env_free_list s"
    and "cpu_env s' = (cpu_env s)(c := Some e)"
    and "\<And>i. status s' i = (if i = e then ENV_RUNNING
           else if curenv_running c s = Some i then ENV_RUNNABLE else status s i)"
    and "\<And>i. env_pgdir (envs s' i) = env_pgdir (envs s i)"
    and "\<And>i. env_id (envs s' i) = env_id (envs s i)"
proof -
  have pg: "env_pgdir (set_status st x) = env_pgdir x" "env_id (set_status st x) = env_id x"
    "env_status (set_status st x) = st" for st x by (simp_all add: set_status_def)
  show thesis
    using assms
    by (intro that [of "snd (the (map_option (\<lambda>x. ((), fst x)) (env_run c s e)))"])
      (auto simp: env_run_def status_def pg Let_def split: option.splits)
qed

lemma count_sel [simp]:
  "status (count_execution i s) = status s" "mlfq (count_execution i s) = mlfq s"
  "cpu_env (count_execution i s) = cpu_env s" "vm (count_execution i s) = vm s"
  "env_pgdir (envs (count_execution i s) k) = env_pgdir (envs s k)"
  "env_id (envs (count_execution i s) k) = env_id (envs s k)"
  "curenv_running c (count_execution i s) = curenv_running c s"
  "status (count_total s) = status s" "cpu_env (count_total s) = cpu_env s"
  "envs (count_total s) = envs s" "vm (count_total s) = vm s"
  "mlfq (count_total s) = (mlfq s)\<lparr>total_executions := total_executions (mlfq s) + 1\<rparr>"
  "curenv_running c (count_total s) = curenv_running c s"
  by (auto simp: count_execution_def count_total_def status_def fun_eq_iff curenv_running_def
      split: option.splits)

text \<open>What a call of the scheduler did: the environment that runs now, if one does.\<close>

definition switched :: "nat \<Rightarrow> kern \<Rightarrow> kern \<Rightarrow> nat \<Rightarrow> bool" where
  "switched c s s' e \<longleftrightarrow> cpu_env s' = (cpu_env s)(c := Some e) \<and>
     (\<forall>i. status s' i = (if i = e then ENV_RUNNING
        else if curenv_running c s = Some i then ENV_RUNNABLE else status s i)) \<and>
     (\<forall>i. env_pgdir (envs s' i) = env_pgdir (envs s i) \<and> env_id (envs s' i) = env_id (envs s i)) \<and>
     vm s' = vm s"

lemma levels_room:
  assumes "n < 4" and "m < 4" and "length (concat (levels_of q)) \<le> NENV" and "k < length (levels_of q ! n)"
  shows "length ((levels_of q)[n := tl ((levels_of q ! n)[k := x])] ! m) < NENV"
  using assms less_4_cases [OF assms(1)] less_4_cases [OF assms(2)]
  by (elim disjE) (auto simp: levels_of_def)

lemma mlfq_step_ok:
  assumes ok: "mlfq_ok b (mlfq s)" and room: "length (concat (levels_of (mlfq s))) \<le> NENV"
    and b: "b + 1 < 2 ^ 31" and level: "spec_level (runnable s) (levels_of (mlfq s)) = Some n"
    and pg: "\<forall>i. status s i = ENV_RUNNABLE \<longrightarrow> env_pgdir (envs s i) \<noteq> None"
    and move: "spec_move (runnable s) (levels_of (mlfq s)) n = (ls, x)"
  obtains s' where "priority_MLFQ c s = Some (s', Some (Runs (ENVX x)))"
    and "levels_of (mlfq s') = ls" and "mlfq_ok (b + 1) (mlfq s')"
    and "total_executions (mlfq s') = total_executions (mlfq s) + 1"
    and "switched c s s' (ENVX x)" and "runnable s x"
proof -
  let ?R = "runnable s" and ?m = "mlfq s"
  note lv = first_index_SomeD [OF level [unfolded spec_level_def]]
  have n4: "n < 4" using lv(1) by simp
  obtain q where q: "get_queue ?m (int n) = Some q" "levels_of ?m ! n = qlist q"
    "queue_ok q" "q_last q \<le> b"
    and lev_q: "\<And>q'. levels_of (put_queue ?m (int n) q') = (levels_of ?m)[n := qlist q']"
    and ok_q: "\<And>q' b'. b \<le> b' \<Longrightarrow> queue_ok q' \<Longrightarrow> q_last q' \<le> b' \<Longrightarrow> mlfq_ok b' (put_queue ?m (int n) q')"
    and tot_q: "\<And>q'. total_executions (put_queue ?m (int n) q') = total_executions ?m"
    by (rule queue_of_level [OF n4, of ?m b]) (use ok in blast)
  from lv(2) q(2) obtain k where k: "first_index ?R (qlist q) = Some k"
    using first_index_None [of ?R "qlist q"] by force
  note ki = first_index_SomeD [OF k]
  let ?i = "q_beginning q + int k"
  have nn: "0 \<le> q_beginning q" and len: "length (positions q) = length (qlist q)"
    using q(3) by (simp_all add: queue_ok_def qlist_def)
  have pos: "positions q = take k (positions q) @ ?i # drop (Suc k) (positions q)"
    using id_take_nth_drop [of k "positions q"] ki(1) len length_qlist [OF q(3)]
    by (simp add: nth_positions)
  have at: "q_envs q ! (nat ?i mod NENV) = qlist q ! k" using qlist_nth [OF q(3) ki(1)] by simp
  have before: "\<forall>j\<in>set (take k (positions q)). \<not> ?R (q_envs q ! (nat j mod NENV))"
  proof -
    have "\<not> ?R y" if "y \<in> set (take k (qlist q))" for y
    proof -
      from that obtain j where "j < length (take k (qlist q))" "take k (qlist q) ! j = y"
        unfolding in_set_conv_nth by blast
      then show ?thesis using ki(3) by auto
    qed
    then show ?thesis by (simp add: qlist_def take_map)
  qed
  have loop: "mlfq_loop c (int n) q (positions q) s = mlfq_loop c (int n) q [?i] s"
    using mlfq_loop_skip [OF q(3), of "take k (positions q)" ?i "drop (Suc k) (positions q)"]
      pos before ki(2) at by simp
  have x: "x = qlist q ! k" and ls: "ls = (let ls1 = (levels_of ?m)[n := tl ((qlist q)[k := hd (qlist q)])]
      in ls1[min 3 (n + 1) := ls1 ! min 3 (n + 1) @ [x]])"
    using move k q(2) by (auto simp: spec_move_def Let_def)
  obtain q1 where q1: "sched_remove_env q (nat ?i mod NENV) = Some q1" "queue_ok q1"
    "qlist q1 = tl ((qlist q)[k := hd (qlist q)])" "q_last q1 = q_last q"
    using sched_remove_env_ok [OF q(3) ki(1)] q(4) b by auto
  let ?s1 = "s\<lparr>mlfq := put_queue ?m (int n) q1\<rparr>" and ?l = "min 3 (n + 1)"
  have lower: "lower_queue (int n) = int ?l" by (simp add: lower_queue_def MAX_QUEUES_def)
  have ok1: "mlfq_ok b (mlfq ?s1)" using ok_q [of b q1] q1(2,4) q(4) by simp
  have l4: "?l < 4" by simp
  obtain r where r: "get_queue (mlfq ?s1) (int ?l) = Some r" "levels_of (mlfq ?s1) ! ?l = qlist r"
    "queue_ok r" "q_last r \<le> b"
    and lev_r: "\<And>q'. levels_of (put_queue (mlfq ?s1) (int ?l) q') = (levels_of (mlfq ?s1))[?l := qlist q']"
    and ok_r: "\<And>q' b'. b \<le> b' \<Longrightarrow> queue_ok q' \<Longrightarrow> q_last q' \<le> b' \<Longrightarrow>
                 mlfq_ok b' (put_queue (mlfq ?s1) (int ?l) q')"
    and tot_r: "\<And>q'. total_executions (put_queue (mlfq ?s1) (int ?l) q') = total_executions (mlfq ?s1)"
    by (rule queue_of_level [OF l4, of "mlfq ?s1" b]) (use ok1 in blast)
  have "length (qlist r) < NENV"
    using levels_room [OF n4 l4 room, of k "hd (qlist q)"] ki(1) q(2) q1(3) lev_q [of q1] r(2) by simp
  then obtain s2 r2 where s2: "sched_push_env ?s1 x (int ?l) = Some s2" "queues_only ?s1 s2"
    "mlfq s2 = put_queue (mlfq ?s1) (int ?l) r2" "queue_ok r2" "qlist r2 = qlist r @ [x]"
    "q_last r2 = q_last r + 1"
    using sched_push_env_ok [OF r(1,3)] r(4) b by auto
  note fr = queues_onlyD [OF s2(2)]
  have same1: "status ?s1 = status s" "curenv_running c ?s1 = curenv_running c s"
    by (auto simp: status_def fun_eq_iff curenv_running_def split: option.splits)
  let ?s3 = "count_execution (ENVX x) (count_total s2)"
  obtain p where "env_pgdir (envs s (ENVX x)) = Some p" using pg ki(2) x by auto
  then have "env_pgdir (envs ?s3 (ENVX x)) = Some p" using fr(2) by simp
  then obtain s' where s': "env_run c ?s3 (ENVX x) = Some (s', Runs (ENVX x))" "mlfq s' = mlfq ?s3"
    "vm s' = vm ?s3" "cpu_env s' = (cpu_env ?s3)(c := Some (ENVX x))"
    "\<And>i. status s' i = (if i = ENVX x then ENV_RUNNING
       else if curenv_running c ?s3 = Some i then ENV_RUNNABLE else status ?s3 i)"
    "\<And>i. env_pgdir (envs s' i) = env_pgdir (envs ?s3 i)" "\<And>i. env_id (envs s' i) = env_id (envs ?s3 i)"
    by (rule env_run_ok) blast
  have e: "entry_at q ?i = Some x" "ring_index ?i = Some (nat ?i mod NENV)"
    using nn at x by (simp_all add: entry_at_def ring_index_def)
  have "mlfq_loop c (int n) q [?i] s = Some (s', Some (Runs (ENVX x)))"
    using e ki(2) x q1(1) s2(1) s'(1) lower by simp
  then have run: "priority_MLFQ c s = Some (s', Some (Runs (ENVX x)))"
    using get_best_ok [OF ok] level q(1) loop by (simp add: priority_MLFQ_def)
  have lev: "levels_of (mlfq s2) = ls"
    using s2(3,5) lev_r lev_q r(2) q1(3) by (simp add: ls Let_def)
  have m': "mlfq s' = (mlfq s2)\<lparr>total_executions := total_executions (mlfq s2) + 1\<rparr>" using s'(2) by simp
  then have "levels_of (mlfq s') = ls" using lev by (simp add: levels_of_def)
  moreover have "mlfq_ok (b + 1) (mlfq s2)" using ok_r [of "b + 1" r2] s2 r(4) by simp
  then have "mlfq_ok (b + 1) (mlfq s')" using m' by (simp add: mlfq_ok_def)
  moreover have "total_executions (mlfq s') = total_executions ?m + 1"
    using m' s2(3) tot_r tot_q by simp
  moreover have "switched c s s' (ENVX x)"
    using s'(3-7) fr same1 by (simp add: switched_def)
  ultimately show thesis using that run ki(2) x by blast
qed

subsection \<open>The scheduler refines the specification\<close>

lemma spec_level_4: "length ls = 4 \<Longrightarrow> spec_level R ls = Some n \<Longrightarrow> n < 4"
  using first_index_SomeD(1) by (fastforce simp: spec_level_def)

lemma switched_queues_only:
  assumes "queues_only s t" and "switched c t s' e"
  shows "switched c s s' e"
  using assms(2) queues_onlyD [OF assms(1)] by (simp add: switched_def)

lemma sched_halt_sel:
  "sched_halt c s = (s', r) \<Longrightarrow> mlfq s' = mlfq s \<and> r \<in> {Halts, Monitors} \<and> status s' = status s \<and>
     cpu_env s' \<in> {cpu_env s, (cpu_env s)(c := None)} \<and> vm s' = vm s \<and> env_pgdir (envs s' i) = env_pgdir (envs s i)"
  by (auto simp: sched_halt_def status_def fun_eq_iff split: if_splits)

definition ticked :: "nat \<Rightarrow> kern \<Rightarrow> kern \<Rightarrow> outcome \<Rightarrow> bool" where
  "ticked c s s' r \<longleftrightarrow>
     (case spec_yield (runnable s) (levels_of (mlfq s), total_executions (mlfq s)) of
        (st, Some x) \<Rightarrow> (levels_of (mlfq s'), total_executions (mlfq s')) = st \<and>
          r = Runs (ENVX x) \<and> switched c s s' (ENVX x)
      | ((ls, tot), None) \<Rightarrow> levels_of (mlfq s') = ls \<and>
          (case curenv_running c s of
             Some k \<Rightarrow> r = Runs k \<and> total_executions (mlfq s') = tot + 1 \<and> switched c s s' k
           | None \<Rightarrow> r \<in> {Halts, Monitors} \<and> total_executions (mlfq s') = tot \<and>
               status s' = status s \<and> cpu_env s' \<in> {cpu_env s, (cpu_env s)(c := None)}))"

text \<open>The environments that may be chosen have page directories.\<close>

definition dirs_ok :: "kern \<Rightarrow> bool" where
  "dirs_ok s \<longleftrightarrow> (\<forall>i. status s i = ENV_RUNNABLE \<or> status s i = ENV_RUNNING \<longrightarrow>
     env_pgdir (envs s i) \<noteq> None)"

lemma priority_MLFQ_none:
  assumes "mlfq_ok b (mlfq s)" and "spec_level (runnable s) (levels_of (mlfq s)) = None"
    and "dirs_ok s"
  obtains s' r where "priority_MLFQ c s = Some (s', Some r)"
    and "levels_of (mlfq s') = levels_of (mlfq s)" and "mlfq_ok b (mlfq s')"
    and "\<And>i. env_pgdir (envs s' i) = env_pgdir (envs s i)"
    and "case curenv_running c s of
           Some k \<Rightarrow> r = Runs k \<and> total_executions (mlfq s') = total_executions (mlfq s) + 1 \<and> switched c s s' k
         | None \<Rightarrow> r \<in> {Halts, Monitors} \<and> total_executions (mlfq s') = total_executions (mlfq s) \<and>
             status s' = status s \<and> cpu_env s' \<in> {cpu_env s, (cpu_env s)(c := None)}"
proof (cases "curenv_running c s")
  case None
  obtain s' r where h: "sched_halt c s = (s', r)" by fastforce
  then have "priority_MLFQ c s = Some (s', Some r)"
    using get_best_ok [OF assms(1)] assms(2) None by (simp add: priority_MLFQ_def)
  with that sched_halt_sel [OF h] assms(1) None show thesis by simp
next
  case (Some k)
  then have "status s k = ENV_RUNNING" by (auto simp: curenv_running_def split: option.splits if_splits)
  then obtain p where "env_pgdir (envs s k) = Some p" using assms(3) by (auto simp: dirs_ok_def)
  then have "env_pgdir (envs (count_execution k (count_total s)) k) = Some p" by simp
  then obtain s' where s': "env_run c (count_execution k (count_total s)) k = Some (s', Runs k)"
    "mlfq s' = mlfq (count_execution k (count_total s))"
    "vm s' = vm (count_execution k (count_total s))"
    "cpu_env s' = (cpu_env (count_execution k (count_total s)))(c := Some k)"
    "\<And>i. status s' i = (if i = k then ENV_RUNNING
       else if curenv_running c (count_execution k (count_total s)) = Some i then ENV_RUNNABLE
       else status (count_execution k (count_total s)) i)"
    "\<And>i. env_pgdir (envs s' i) = env_pgdir (envs (count_execution k (count_total s)) i)"
    "\<And>i. env_id (envs s' i) = env_id (envs (count_execution k (count_total s)) i)"
    by (rule env_run_ok) blast
  have "priority_MLFQ c s = Some (s', Some (Runs k))"
    using get_best_ok [OF assms(1)] assms(2) Some s'(1) by (simp add: priority_MLFQ_def)
  moreover have "levels_of (mlfq s') = levels_of (mlfq s)" "mlfq_ok b (mlfq s')"
    using s'(2) assms(1) by (simp_all add: levels_of_def mlfq_ok_def)
  moreover have "switched c s s' k" using s'(3-7) by (simp add: switched_def)
  ultimately show thesis using that Some s'(2,6) by simp
qed

lemma sched_yield_refines:
  assumes ok: "mlfq_ok b (mlfq s)" and room: "length (concat (levels_of (mlfq s))) \<le> NENV"
    and b: "b + int NENV + 1 < 2 ^ 31" and dirs: "dirs_ok s"
  obtains s' r where "sched_yield SCHED_PRIORITIES c s = Some (s', r)" and "ticked c s s' r"
    and "mlfq_ok (b + int NENV + 1) (mlfq s')"
    and "\<And>i. env_pgdir (envs s' i) = env_pgdir (envs s i)"
proof -
  let ?s0 = "s\<lparr>sched_runs := sched_runs s + 1\<rparr>"
  obtain s1 where s1: "(if total_executions (mlfq ?s0) \<ge> MAX_MLFQ_EXECUTIONS then do {
          s \<leftarrow> boost_envs ?s0;
          Some (s\<lparr>mlfq := (mlfq s)\<lparr>total_executions := 0\<rparr>\<rparr>)
        } else Some ?s0) = Some s1" and fr: "queues_only ?s0 s1"
    and lev: "(levels_of (mlfq s1), total_executions (mlfq s1)) =
      spec_boost (levels_of (mlfq s), total_executions (mlfq s))"
    and ok1: "mlfq_ok (b + int NENV) (mlfq s1)"
  proof (cases "total_executions (mlfq s) \<ge> MAX_MLFQ_EXECUTIONS")
    case True
    have "mlfq_ok b (mlfq ?s0)" "length (concat (levels_of (mlfq ?s0))) \<le> NENV"
      and "b + int NENV < 2 ^ 31"
      using ok room b by simp_all
    then obtain t where t: "boost_envs ?s0 = Some t" "queues_only ?s0 t"
      "levels_of (mlfq t) = [concat (levels_of (mlfq ?s0)), [], [], []]"
      "mlfq_ok (b + int NENV) (mlfq t)"
      by (rule boost_envs_ok)
    show thesis
      using True t that [of "t\<lparr>mlfq := (mlfq t)\<lparr>total_executions := 0\<rparr>\<rparr>"]
      by (simp add: spec_boost_def levels_of_def mlfq_ok_def)
  next
    case False
    then show thesis using that [of ?s0] ok by (simp add: spec_boost_def mlfq_ok_def)
  qed
  note d = queues_onlyD [OF fr]
  have st: "status ?s0 = status s" "curenv_running c ?s0 = curenv_running c s"
    by (auto simp: status_def fun_eq_iff curenv_running_def split: option.splits)
  have room1: "length (concat (levels_of (mlfq s1))) \<le> NENV"
    using room lev by (auto simp: spec_boost_def split: if_splits)
  have dirs1: "dirs_ok s1" using dirs d st by (simp add: dirs_ok_def)
  have R: "runnable s1 = runnable s" using d(1) st by simp
  have sw: "switched c s s' e" if "switched c s1 s' e" for s' e
    using switched_queues_only [OF fr that] st by (simp add: switched_def)
  have yield: "sched_yield SCHED_PRIORITIES c s = Some (s', r)"
    if "priority_MLFQ c s1 = Some (s', Some r)" for s' r
    unfolding sched_yield_def Let_def using s1 that by simp
  show thesis
  proof (cases "spec_level (runnable s) (levels_of (mlfq s1))")
    case None
    then have "spec_level (runnable s1) (levels_of (mlfq s1)) = None" using d(1) st by simp
    from ok1 this dirs1 obtain s' r where s': "priority_MLFQ c s1 = Some (s', Some r)"
      "levels_of (mlfq s') = levels_of (mlfq s1)" "mlfq_ok (b + int NENV) (mlfq s')"
      "\<And>i. env_pgdir (envs s' i) = env_pgdir (envs s1 i)"
      "case curenv_running c s1 of
         Some k \<Rightarrow> r = Runs k \<and> total_executions (mlfq s') = total_executions (mlfq s1) + 1 \<and> switched c s1 s' k
       | None \<Rightarrow> r \<in> {Halts, Monitors} \<and> total_executions (mlfq s') = total_executions (mlfq s1) \<and>
           status s' = status s1 \<and> cpu_env s' \<in> {cpu_env s1, (cpu_env s1)(c := None)}"
      by (rule priority_MLFQ_none [of "b + int NENV" s1 c]) blast
    have "ticked c s s' r"
      using s'(2,5) None lev d st sw
      by (auto simp: ticked_def spec_yield_def split: option.splits prod.splits)
    moreover have "mlfq_ok (b + int NENV + 1) (mlfq s')" using s'(3) by (auto simp: mlfq_ok_def)
    ultimately show thesis using that [OF yield [OF s'(1)]] s'(4) d(2) by simp
  next
    case (Some n)
    obtain ls x where mv: "spec_move (runnable s) (levels_of (mlfq s1)) n = (ls, x)" by fastforce
    have "spec_level (runnable s1) (levels_of (mlfq s1)) = Some n"
      "\<forall>i. status s1 i = ENV_RUNNABLE \<longrightarrow> env_pgdir (envs s1 i) \<noteq> None"
      "spec_move (runnable s1) (levels_of (mlfq s1)) n = (ls, x)"
      using Some mv d(1) st dirs1 by (simp_all add: dirs_ok_def)
    from ok1 room1 b this obtain s' where s': "priority_MLFQ c s1 = Some (s', Some (Runs (ENVX x)))"
      "levels_of (mlfq s') = ls" "mlfq_ok (b + int NENV + 1) (mlfq s')"
      "total_executions (mlfq s') = total_executions (mlfq s1) + 1"
      "switched c s1 s' (ENVX x)"
      by (rule mlfq_step_ok [of _ s1 n ls x c]) blast
    have "ticked c s s' (Runs (ENVX x))"
      using s' Some mv lev sw
      by (auto simp: ticked_def spec_yield_def split: option.splits prod.splits)
    moreover have "env_pgdir (envs s' i) = env_pgdir (envs s i)" for i
      using s'(5) d(2) by (simp add: switched_def)
    ultimately show thesis using that [OF yield [OF s'(1)]] s'(3) by simp
  qed
qed

end
