(* ===== verification/FreeList.thy ===== *)
theory FreeList
  imports Prelude
begin

text \<open>
  Linked free lists. The kernel keeps its free page frames and its free environments in
  lists that are linked through the elements: \<open>chain\<close> says which elements a list holds,
  \<open>walk\<close> computes them, and the locale \<open>free_list\<close> is what the users of such an allocator
  rely on. It is interpreted on the page allocator (\<open>Pmap\<close>) and on the list of free
  environments (\<open>EnvTable\<close>).
\<close>

fun chain :: "(nat \<Rightarrow> nat option) \<Rightarrow> nat option \<Rightarrow> nat list \<Rightarrow> bool" where
  "chain f start [] \<longleftrightarrow> start = None"
| "chain f start (p # ps) \<longleftrightarrow> start = Some p \<and> chain f (f p) ps"

fun walk :: "(nat \<Rightarrow> nat option) \<Rightarrow> nat \<Rightarrow> nat option \<Rightarrow> nat list" where
  "walk f 0 start = []"
| "walk f (Suc n) None = []"
| "walk f (Suc n) (Some p) = p # walk f n (f p)"

lemma walk_None [simp]: "walk f n None = []"
  by (cases n) simp_all

lemma chain_walk: "chain f start ps \<Longrightarrow> length ps \<le> n \<Longrightarrow> walk f n start = ps"
proof (induction ps arbitrary: start n)
  case (Cons p ps)
  then show ?case by (cases n) auto
qed simp

lemma chain_upd_other: "p \<notin> set ps \<Longrightarrow> chain (f(p := x)) start ps \<longleftrightarrow> chain f start ps"
  by (induction ps arbitrary: start) auto

lemma length_bounded: "distinct ps \<Longrightarrow> \<forall>p\<in>set ps. p < n \<Longrightarrow> length ps \<le> n"
proof -
  assume "distinct ps" and "\<forall>p\<in>set ps. p < n"
  then have "card (set ps) \<le> card {..<n}" by (intro card_mono) auto
  then show ?thesis using \<open>distinct ps\<close> by (simp add: distinct_card)
qed

definition free_chain :: "(nat \<Rightarrow> nat option) \<Rightarrow> nat option \<Rightarrow> nat \<Rightarrow> bool" where
  "free_chain f start n \<longleftrightarrow>
     (let ps = walk f n start in chain f start ps \<and> distinct ps \<and> (\<forall>p\<in>set ps. p < n))"

lemma free_chainI:
  "chain f start ps \<Longrightarrow> distinct ps \<Longrightarrow> \<forall>p\<in>set ps. p < n \<Longrightarrow> free_chain f start n \<and> walk f n start = ps"
  using chain_walk length_bounded by (auto simp: free_chain_def Let_def)

lemma free_chainD:
  assumes "free_chain f start n"
  shows "chain f start (walk f n start)" and "distinct (walk f n start)"
    and "\<forall>p\<in>set (walk f n start). p < n"
  using assms by (auto simp: free_chain_def Let_def)

text \<open>Taking the first element off, and putting an element in front.\<close>

lemma free_chain_pop:
  assumes "free_chain f start n" and "walk f n start = p # ps"
  shows "start = Some p" and "free_chain (f(p := None)) (f p) n" and "walk (f(p := None)) n (f p) = ps"
proof -
  from free_chainD [OF assms(1)] assms(2)
  have c: "chain f start (p # ps)" "distinct (p # ps)" "\<forall>q\<in>set (p # ps). q < n" by simp_all
  then show "start = Some p" by simp
  have "chain (f(p := None)) (f p) ps" using c(1,2) by (simp add: chain_upd_other)
  then show "free_chain (f(p := None)) (f p) n" "walk (f(p := None)) n (f p) = ps"
    using free_chainI [of "f(p := None)" "f p" ps n] c(2,3) by auto
qed

lemma free_chain_push:
  assumes "free_chain f start n" and "p < n" and "p \<notin> set (walk f n start)"
  shows "free_chain (f(p := start)) (Some p) n"
    and "walk (f(p := start)) n (Some p) = p # walk f n start"
proof -
  note c = free_chainD [OF assms(1)]
  have "chain (f(p := start)) (Some p) (p # walk f n start)"
    using c(1) assms(3) by (simp add: chain_upd_other)
  from free_chainI [OF this] c(2,3) assms(2,3)
  show "free_chain (f(p := start)) (Some p) n"
    "walk (f(p := start)) n (Some p) = p # walk f n start" by auto
qed

lemma free_chain_empty: "free_chain f start n \<Longrightarrow> walk f n start = [] \<Longrightarrow> start = None"
  using free_chainD(1) by fastforce

subsection \<open>The interface\<close>

fun take_n :: "('s \<Rightarrow> 's \<times> nat option) \<Rightarrow> nat \<Rightarrow> 's \<Rightarrow> 's \<times> nat list" where
  "take_n alloc 0 s = (s, [])"
| "take_n alloc (Suc n) s =
     (case alloc s of
        (s, None) \<Rightarrow> (s, [])
      | (s, Some p) \<Rightarrow> (let (s, ps) = take_n alloc n s in (s, p # ps)))"

locale free_list =
  fixes inv :: "'s \<Rightarrow> bool" and free :: "'s \<Rightarrow> nat list"
    and alloc :: "'s \<Rightarrow> 's \<times> nat option"
    and can_release :: "'s \<Rightarrow> nat \<Rightarrow> bool" and release :: "'s \<Rightarrow> nat \<Rightarrow> 's option"
  assumes free_distinct: "inv s \<Longrightarrow> distinct (free s)"
    and alloc_Cons: "inv s \<Longrightarrow> free s = p # ps \<Longrightarrow>
      \<exists>s'. alloc s = (s', Some p) \<and> inv s' \<and> free s' = ps"
    and alloc_Nil: "inv s \<Longrightarrow> free s = [] \<Longrightarrow> alloc s = (s, None)"
    and release_ok: "inv s \<Longrightarrow> can_release s p \<Longrightarrow> p \<notin> set (free s) \<Longrightarrow>
      \<exists>s'. release s p = Some s' \<and> inv s' \<and> free s' = p # free s"
begin

text \<open>Successive allocations hand out the free list from its front, nothing twice.\<close>

lemma take_n_prefix:
  "inv s \<Longrightarrow> snd (take_n alloc n s) = take n (free s) \<and> inv (fst (take_n alloc n s)) \<and>
     free (fst (take_n alloc n s)) = drop n (free s)"
proof (induction n arbitrary: s)
  case (Suc n)
  show ?case
  proof (cases "free s")
    case Nil
    with alloc_Nil [OF Suc.prems] Suc.prems show ?thesis by simp
  next
    case (Cons p ps)
    from alloc_Cons [OF Suc.prems Cons] obtain s' where
      s': "alloc s = (s', Some p)" "inv s'" "free s' = ps" by blast
    with Suc.IH [OF s'(2)] Cons show ?thesis by (auto split: prod.splits)
  qed
qed simp

lemma take_n_distinct: "inv s \<Longrightarrow> distinct (snd (take_n alloc n s))"
  using take_n_prefix free_distinct by simp

lemma release_alloc:
  assumes "inv s" and "can_release s p" and "p \<notin> set (free s)"
  shows "\<exists>s1 s2. release s p = Some s1 \<and> alloc s1 = (s2, Some p) \<and> inv s2 \<and> free s2 = free s"
  using release_ok [OF assms] alloc_Cons by metis

end

end
