(* ===== verification/PmapSpec.thy ===== *)
theory PmapSpec
  imports Pmap FreeList
begin

unbundle bit_operations_syntax

text \<open>
  What the operations of \<open>Pmap\<close> do: the page allocator as a free list, page tables as a map
  from user pages to entries (\<open>pte_at\<close>), and the check of user addresses.
\<close>

subsection \<open>The allocator\<close>

definition pages_inv :: "pmem \<Rightarrow> bool" where
  "pages_inv s \<longleftrightarrow> free_chain (pp_link s) (page_free_list s) (npages s)"

definition free_pages :: "pmem \<Rightarrow> nat list" where
  "free_pages s = walk (pp_link s) (npages s) (page_free_list s)"

definition page_releasable :: "pmem \<Rightarrow> nat \<Rightarrow> bool" where
  "page_releasable s p \<longleftrightarrow> p < npages s \<and> pp_ref s p = 0 \<and> pp_link s p = None"

lemma page_alloc_Cons:
  assumes "pages_inv s" and "free_pages s = p # ps"
  shows "\<exists>s'. page_alloc s z = (s', Some p) \<and> pages_inv s' \<and> free_pages s' = ps"
proof -
  note pop = free_chain_pop [OF assms(1) [unfolded pages_inv_def] assms(2) [unfolded free_pages_def]]
  then show ?thesis
    by (auto simp: page_alloc_def pages_inv_def free_pages_def Let_def)
qed

lemma page_free_ok:
  assumes "pages_inv s" and "page_releasable s p" and "p \<notin> set (free_pages s)"
  shows "\<exists>s'. page_free s p = Some s' \<and> pages_inv s' \<and> free_pages s' = p # free_pages s"
proof -
  have p: "p < npages s" "pp_ref s p = 0" "pp_link s p = None"
    using assms(2) by (simp_all add: page_releasable_def)
  from free_chain_push [OF assms(1) [unfolded pages_inv_def] p(1)] assms(3) p(2,3)
  show ?thesis by (simp add: page_free_def pages_inv_def free_pages_def)
qed

interpretation page_allocator: free_list pages_inv free_pages "\<lambda>s. page_alloc s z"
  page_releasable page_free for z
proof
  fix s
  show "pages_inv s \<Longrightarrow> distinct (free_pages s)"
    by (simp add: pages_inv_def free_pages_def free_chainD)
  show "free_pages s = p # ps \<Longrightarrow> pages_inv s \<Longrightarrow>
      \<exists>s'. page_alloc s z = (s', Some p) \<and> pages_inv s' \<and> free_pages s' = ps" for p ps
    by (rule page_alloc_Cons)
  show "pages_inv s \<Longrightarrow> free_pages s = [] \<Longrightarrow> page_alloc s z = (s, None)"
    using free_chain_empty [of "pp_link s" "page_free_list s" "npages s"]
    by (simp add: page_alloc_def pages_inv_def free_pages_def)
  show "pages_inv s \<Longrightarrow> page_releasable s p \<Longrightarrow> p \<notin> set (free_pages s) \<Longrightarrow>
      \<exists>s'. page_free s p = Some s' \<and> pages_inv s' \<and> free_pages s' = p # free_pages s" for p
    by (rule page_free_ok)
qed

lemma page_init_loop_chain:
  assumes "chain (pp_link s) (page_free_list s) ps" and "set is \<inter> set ps = {}" and "distinct is"
  shows "chain (pp_link (page_init_loop ff is s)) (page_free_list (page_init_loop ff is s))
           (rev (filter (\<lambda>i. \<not> page_reserved ff i) is) @ ps) \<and>
         npages (page_init_loop ff is s) = npages s \<and> phys (page_init_loop ff is s) = phys s"
  using assms
proof (induction "is" arbitrary: s ps)
  case (Cons i "is")
  let ?s1 = "s\<lparr>pp_link := (pp_link s)(i := None)\<rparr>"
  let ?s2 = "?s1\<lparr>pp_link := (pp_link ?s1)(i := page_free_list ?s1), pp_ref := (pp_ref ?s1)(i := 0),
       page_free_list := Some i\<rparr>"
  have c: "chain (pp_link ?s1) (page_free_list ?s1) ps" "chain (pp_link ?s2) (page_free_list ?s2) (i # ps)"
    using Cons.prems by (simp_all add: chain_upd_other)
  have d: "set is \<inter> set ps = {}" "set is \<inter> set (i # ps) = {}" "distinct is"
    using Cons.prems(2,3) by auto
  show ?case
    using Cons.IH [OF c(1) d(1,3)] Cons.IH [OF c(2) d(2,3)] by (simp add: Let_def)
qed simp

lemma page_init_free:
  assumes "page_free_list s = None"
  shows "pages_inv (page_init ff s)"
    and "free_pages (page_init ff s) = rev (filter (\<lambda>i. \<not> page_reserved ff i) [0..<npages s])"
proof -
  let ?ps = "rev (filter (\<lambda>i. \<not> page_reserved ff i) [0..<npages s])"
  have "chain (pp_link s) (page_free_list s) []" using assms by simp
  from page_init_loop_chain [OF this, of "[0..<npages s]" ff]
  have c: "chain (pp_link (page_init ff s)) (page_free_list (page_init ff s)) ?ps"
    and n: "npages (page_init ff s) = npages s"
    unfolding page_init_def by simp_all
  have "distinct ?ps" "\<forall>p\<in>set ?ps. p < npages s" by auto
  from free_chainI [OF c this] show "pages_inv (page_init ff s)" "free_pages (page_init ff s) = ?ps"
    unfolding pages_inv_def free_pages_def n by blast+
qed

subsection \<open>Page tables as a map\<close>

text \<open>The entry for an address, 0 when its page table does not exist.\<close>

definition pte_at :: "pmem \<Rightarrow> nat \<Rightarrow> w32 \<Rightarrow> w32" where
  "pte_at s pgdir va =
     (let e = phys s pgdir (PDX va) in if e = 0 then 0 else phys s (PGNUM e) (PTX va))"

definition is_user :: "w32 \<Rightarrow> bool" where
  "is_user va \<longleftrightarrow> PDX va < PDX UTOP"

text \<open>
  A user address space: the tables of the user part are distinct allocated frames, and every
  frame that is mapped is allocated and is no table. A frame outside the free list has a null
  link.
\<close>

definition tables :: "pmem \<Rightarrow> nat \<Rightarrow> nat set" where
  "tables s pgdir = {PGNUM (phys s pgdir d) |d. d < PDX UTOP \<and> phys s pgdir d \<noteq> 0}"

definition vm_ok :: "pmem \<Rightarrow> nat \<Rightarrow> bool" where
  "vm_ok s pgdir \<longleftrightarrow> pages_inv s \<and> npages s \<le> 2 ^ 20 \<and>
     pgdir < npages s \<and> pgdir \<notin> set (free_pages s) \<and>
     (\<forall>p<npages s. p \<notin> set (free_pages s) \<longrightarrow> pp_link s p = None) \<and>
     (\<forall>t\<in>tables s pgdir. t < npages s \<and> t \<notin> set (free_pages s) \<and> t \<noteq> pgdir) \<and>
     inj_on (\<lambda>d. PGNUM (phys s pgdir d)) {d. d < PDX UTOP \<and> phys s pgdir d \<noteq> 0} \<and>
     (\<forall>va. is_user va \<longrightarrow> pte_at s pgdir va \<noteq> 0 \<longrightarrow>
        PGNUM (pte_at s pgdir va) < npages s \<and> PGNUM (pte_at s pgdir va) \<notin> set (free_pages s) \<and>
        PGNUM (pte_at s pgdir va) \<notin> tables s pgdir \<and> PGNUM (pte_at s pgdir va) \<noteq> pgdir)"

lemma vm_okD:
  assumes "vm_ok s pgdir"
  shows "pages_inv s" and "npages s \<le> 2 ^ 20" and "pgdir < npages s" and "pgdir \<notin> set (free_pages s)"
    and "p < npages s \<Longrightarrow> p \<notin> set (free_pages s) \<Longrightarrow> pp_link s p = None"
    and "t \<in> tables s pgdir \<Longrightarrow> t < npages s" and "t \<in> tables s pgdir \<Longrightarrow> t \<notin> set (free_pages s)"
    and "t \<in> tables s pgdir \<Longrightarrow> t \<noteq> pgdir"
    and "is_user va \<Longrightarrow> pte_at s pgdir va \<noteq> 0 \<Longrightarrow> PGNUM (pte_at s pgdir va) < npages s"
    and "is_user va \<Longrightarrow> pte_at s pgdir va \<noteq> 0 \<Longrightarrow> PGNUM (pte_at s pgdir va) \<notin> set (free_pages s)"
    and "is_user va \<Longrightarrow> pte_at s pgdir va \<noteq> 0 \<Longrightarrow> PGNUM (pte_at s pgdir va) \<notin> tables s pgdir"
    and "is_user va \<Longrightarrow> pte_at s pgdir va \<noteq> 0 \<Longrightarrow> PGNUM (pte_at s pgdir va) \<noteq> pgdir"
  using assms unfolding vm_ok_def by blast+

lemma mask_12: "(0xFFF :: w32) = mask 12" and mask_10: "(0x3FF :: w32) = mask 10"
  by (simp_all add: mask_eq_exp_minus_1)

lemma PGNUM_PTE_ADDR [simp]: "PGNUM (PTE_ADDR pte) = PGNUM pte"
proof -
  have "drop_bit 12 (pte AND NOT 0xFFF) = drop_bit 12 pte"
    unfolding mask_12
    by (rule bit_word_eqI) (auto simp: bit_simps dest: bit_imp_le_length)
  then show ?thesis by (simp add: PGNUM_def PTE_ADDR_def)
qed

text \<open>An entry that names a frame and has flags in its low twelve bits.\<close>

lemma PGNUM_entry:
  assumes "p < 2 ^ 20" and "PGNUM flags = 0"
  shows "PGNUM (page2pa p OR flags) = p"
proof -
  have "drop_bit 12 flags = 0" using assms(2) by (simp add: PGNUM_def unat_eq_0)
  then have "drop_bit 12 (page2pa p OR flags) = drop_bit 12 (push_bit 12 (word_of_nat p :: w32))"
    by (simp add: page2pa_def)
  also have "\<dots> = take_bit 20 (word_of_nat p)"
    by (rule bit_word_eqI) (auto simp: bit_simps dest: bit_imp_le_length)
  also have "\<dots> = word_of_nat p"
    using assms(1) by (simp only: take_bit_of_nat take_bit_nat_eq_self)
  finally show ?thesis using assms(1) by (simp add: PGNUM_def unat_of_nat)
qed

lemma entry_nonzero: "page2pa p OR (flags OR PTE_P) \<noteq> 0"
proof
  assume "page2pa p OR (flags OR PTE_P) = 0"
  then have "bit (page2pa p OR (flags OR PTE_P)) 0 = False" by simp
  then show False by (simp add: bit_simps PTE_P_def)
qed

lemma PGNUM_flags: "PGNUM (PTE_P OR PTE_W OR PTE_U) = 0"
  by (simp add: PGNUM_def PTE_P_def PTE_W_def PTE_U_def)

lemma PDX_UTOP: "PDX UTOP = 955"
  by (simp add: PDX_def layout_defs)

subsection \<open>Inserting a mapping\<close>

lemma tablesI: "d < PDX UTOP \<Longrightarrow> phys s pgdir d \<noteq> 0 \<Longrightarrow> PGNUM (phys s pgdir d) \<in> tables s pgdir"
  by (auto simp: tables_def)

lemma pte_at_table: "phys s pgdir (PDX va) \<noteq> 0 \<Longrightarrow>
    pte_at s pgdir va = phys s (PGNUM (phys s pgdir (PDX va))) (PTX va)"
  by (simp add: pte_at_def)

text \<open>Walking with creation: the tables grow by at most one zeroed frame, no entry changes.\<close>

lemma pgdir_walk_create:
  assumes ok: "vm_ok s pgdir" and u: "is_user va"
  obtains (full) "pgdir_walk s pgdir va True = Some (s, None)"
  | (table) s' t where "pgdir_walk s pgdir va True = Some (s', Some (t, PTX va))"
    and "vm_ok s' pgdir" and "phys s' pgdir (PDX va) \<noteq> 0" and "t = PGNUM (phys s' pgdir (PDX va))"
    and "\<And>va'. is_user va' \<Longrightarrow> pte_at s' pgdir va' = pte_at s pgdir va'"
    and "\<And>p. p \<notin> set (free_pages s) \<Longrightarrow> pp_ref s' p = pp_ref s p"
    and "npages s' = npages s" and "set (free_pages s') \<subseteq> set (free_pages s)"
    and "tables s' pgdir \<subseteq> tables s pgdir \<union> set (free_pages s)"
proof (cases "phys s pgdir (PDX va) = 0")
  case False
  let ?t = "PGNUM (phys s pgdir (PDX va))"
  have "?t \<in> tables s pgdir" using False u by (simp add: tablesI is_user_def)
  then have "?t < npages s" by (rule vm_okD(6) [OF ok])
  then have "pgdir_walk s pgdir va True = Some (s, Some (?t, PTX va))"
    using False by (simp add: pgdir_walk_def pa2page_def)
  with False ok table show thesis by blast
next
  case True
  note inv = vm_okD(1) [OF ok]
  show thesis
  proof (cases "free_pages s")
    case Nil
    then have "page_alloc s True = (s, None)" by (rule page_allocator.alloc_Nil [OF inv])
    with True full show thesis by (simp add: pgdir_walk_def)
  next
    case (Cons p ps)
    note pop = free_chain_pop [OF inv [unfolded pages_inv_def] Cons [unfolded free_pages_def]]
    let ?s1 = "s\<lparr>page_free_list := pp_link s p, pp_link := (pp_link s)(p := None),
                 phys := (phys s)(p := \<lambda>_. 0)\<rparr>"
    let ?e = "page2pa p OR PTE_P OR PTE_W OR PTE_U"
    let ?s' = "store_word (?s1\<lparr>pp_ref := (pp_ref s)(p := pp_ref s p + 1)\<rparr>) pgdir (PDX va) ?e"
    have p: "p < npages s" "p \<notin> set ps" "p \<noteq> pgdir"
      using free_chainD [OF inv [unfolded pages_inv_def]] Cons vm_okD(4) [OF ok]
      by (auto simp: free_pages_def)
    have ne: "?e \<noteq> 0"
      using entry_nonzero [of p "PTE_W OR PTE_U"] by (simp add: or.assoc or.commute or.left_commute)
    have num: "PGNUM ?e = p"
      using PGNUM_entry [OF _ PGNUM_flags, of p] p(1) vm_okD(2) [OF ok] by (simp add: or.assoc)
    have alloc: "page_alloc s True = (?s1, Some p)" using pop(1) by (simp add: page_alloc_def)
    have run: "pgdir_walk s pgdir va True = Some (?s', Some (p, PTX va))"
      using True ne num p alloc by (simp add: pgdir_walk_def store_word_def pa2page_def)
    have free': "free_pages ?s' = ps" "pages_inv ?s'"
      using pop by (simp_all add: free_pages_def pages_inv_def store_word_def)
    have pde: "phys ?s' pgdir d = (if d = PDX va then ?e else phys s pgdir d)" for d
      using p(3) by (simp add: store_word_def)
    have mem: "phys ?s' q = (if q = p then (\<lambda>_. 0) else phys s q)" if "q \<noteq> pgdir" for q
      using that by (simp add: store_word_def)
    have pd: "PDX va < PDX UTOP" using u by (simp add: is_user_def)
    have tab: "tables ?s' pgdir = insert p (tables s pgdir)"
      using True ne num pd unfolding tables_def pde by (auto split: if_splits) metis
    have notin: "p \<notin> tables s pgdir" using vm_okD(7) [OF ok, of p] Cons by auto
    have pte: "pte_at ?s' pgdir va' = pte_at s pgdir va'" if "is_user va'" for va'
    proof (cases "PDX va' = PDX va")
      case eq: True
      then have "pte_at ?s' pgdir va' = phys ?s' p (PTX va')" using ne num by (simp add: pte_at_def pde)
      then show ?thesis using mem [OF p(3)] True eq by (simp add: pte_at_def)
    next
      case ne': False
      show ?thesis
      proof (cases "phys s pgdir (PDX va') = 0")
        case False
        then have "PGNUM (phys s pgdir (PDX va')) \<in> tables s pgdir"
          using that by (simp add: tablesI is_user_def)
        with vm_okD(8) [OF ok this] notin
        have "phys ?s' (PGNUM (phys s pgdir (PDX va'))) = phys s (PGNUM (phys s pgdir (PDX va')))"
          using mem by auto
        with ne' show ?thesis by (simp add: pte_at_def pde Let_def)
      qed (use ne' in \<open>simp add: pte_at_def pde\<close>)
    qed
    have np: "npages ?s' = npages s" by (simp add: store_word_def)
    have inj: "inj_on (\<lambda>d. PGNUM (phys ?s' pgdir d)) {d. d < PDX UTOP \<and> phys ?s' pgdir d \<noteq> 0}"
    proof (rule inj_onI)
      fix d d' assume a: "d \<in> {d. d < PDX UTOP \<and> phys ?s' pgdir d \<noteq> 0}"
        "d' \<in> {d. d < PDX UTOP \<and> phys ?s' pgdir d \<noteq> 0}"
        "PGNUM (phys ?s' pgdir d) = PGNUM (phys ?s' pgdir d')"
      have inj0: "inj_on (\<lambda>d. PGNUM (phys s pgdir d)) {d. d < PDX UTOP \<and> phys s pgdir d \<noteq> 0}"
        using ok by (simp add: vm_ok_def)
      have other: "PGNUM (phys s pgdir x) \<noteq> p" if "x < PDX UTOP" "phys s pgdir x \<noteq> 0" for x
        using tablesI [OF that] notin by auto
      show "d = d'"
        using a other num inj_onD [OF inj0, of d d'] unfolding pde by (auto split: if_splits)
    qed
    have links: "pp_link ?s' q = None" if "q < npages s" "q \<notin> set ps" for q
      using that vm_okD(5) [OF ok, of q] Cons by (cases "q = p") (simp_all add: store_word_def)
    have maps: "PGNUM (pte_at s pgdir va') \<noteq> p" if "is_user va'" "pte_at s pgdir va' \<noteq> 0" for va'
      using vm_okD(10) [OF ok that] Cons by auto
    have "vm_ok ?s' pgdir"
      unfolding vm_ok_def free' tab np
    proof (intro conjI ballI allI impI)
      show "pgdir \<notin> set ps" using vm_okD(4) [OF ok] Cons by simp
      show "t < npages s" "t \<notin> set ps" "t \<noteq> pgdir" if "t \<in> insert p (tables s pgdir)" for t
        using that p vm_okD(6-8) [OF ok, of t] Cons by auto
      fix va' assume a: "is_user va'" "pte_at ?s' pgdir va' \<noteq> 0"
      then have b: "pte_at s pgdir va' \<noteq> 0" "pte_at ?s' pgdir va' = pte_at s pgdir va'"
        using pte by auto
      from vm_okD(9-12) [OF ok a(1) b(1)] maps [OF a(1) b(1)] Cons
      show "PGNUM (pte_at ?s' pgdir va') < npages s" "PGNUM (pte_at ?s' pgdir va') \<notin> set ps"
        "PGNUM (pte_at ?s' pgdir va') \<notin> insert p (tables s pgdir)"
        "PGNUM (pte_at ?s' pgdir va') \<noteq> pgdir"
        by (simp_all add: b(2))
    qed (use free'(2) vm_okD(2,3) [OF ok] links inj in auto)
    then show thesis
    proof (rule table [OF run])
      show "phys ?s' pgdir (PDX va) \<noteq> 0" "p = PGNUM (phys ?s' pgdir (PDX va))"
        using ne num by (simp_all add: pde)
      show "is_user va' \<Longrightarrow> pte_at ?s' pgdir va' = pte_at s pgdir va'" for va' by (rule pte)
      show "q \<notin> set (free_pages s) \<Longrightarrow> pp_ref ?s' q = pp_ref s q" for q
        using Cons by (auto simp: store_word_def)
      show "npages ?s' = npages s" by (rule np)
      show "set (free_pages ?s') \<subseteq> set (free_pages s)" using free' Cons by auto
      show "tables ?s' pgdir \<subseteq> tables s pgdir \<union> set (free_pages s)" using tab Cons by auto
    qed
  qed
qed

text \<open>Storing an entry in a table that exists.\<close>

definition same_page :: "w32 \<Rightarrow> w32 \<Rightarrow> bool" where
  "same_page va va' \<longleftrightarrow> PDX va = PDX va' \<and> PTX va = PTX va'"

lemma pte_at_store:
  assumes ok: "vm_ok s pgdir" and u: "is_user va" "is_user va'"
    and t: "phys s pgdir (PDX va) \<noteq> 0" "t = PGNUM (phys s pgdir (PDX va))"
    and same: "phys s' = phys s"
  shows "pte_at (store_word s' t (PTX va) v) pgdir va' =
           (if same_page va va' then v else pte_at s pgdir va')"
proof -
  have tt: "t \<in> tables s pgdir" using t u(1) by (simp add: tablesI is_user_def)
  have ne: "t \<noteq> pgdir" using vm_okD(8) [OF ok tt] .
  have inj: "inj_on (\<lambda>d. PGNUM (phys s pgdir d)) {d. d < PDX UTOP \<and> phys s pgdir d \<noteq> 0}"
    using ok by (simp add: vm_ok_def)
  have "PGNUM (phys s pgdir (PDX va')) = t \<longleftrightarrow> PDX va' = PDX va"
    if "phys s pgdir (PDX va') \<noteq> 0"
    using inj_onD [OF inj, of "PDX va'" "PDX va"] that t u by (auto simp: is_user_def)
  then show ?thesis
    using ne t by (auto simp: pte_at_def store_word_def same same_page_def Let_def)
qed

text \<open>Dropping a reference changes only the frame's count and, at zero, the free list.\<close>

lemma page_decref_ok:
  assumes "pp_link s p = None"
  obtains s' where "page_decref s p = Some s'" and "phys s' = phys s" and "npages s' = npages s"
    and "pp_ref s' = (pp_ref s)(p := pp_ref s p - 1)"
  using assms by (cases "pp_ref s p - 1 = 0") (auto simp: page_decref_def page_free_def Let_def)

lemma page_lookup_eq:
  assumes ok: "vm_ok s pgdir" and u: "is_user va"
    and n: "npages s' = npages s" "phys s' = phys s"
  shows "page_lookup s' pgdir va =
     Some (if pte_at s pgdir va = 0 then None
           else Some (PGNUM (pte_at s pgdir va), PGNUM (phys s pgdir (PDX va)), PTX va))"
proof (cases "phys s pgdir (PDX va) = 0")
  case True
  then show ?thesis by (simp add: page_lookup_def pgdir_walk_def pte_at_def n)
next
  case False
  then have t: "PGNUM (phys s pgdir (PDX va)) < npages s"
    using vm_okD(6) [OF ok tablesI] u by (simp add: is_user_def)
  have "pte_at s pgdir va \<noteq> 0 \<Longrightarrow> PGNUM (pte_at s pgdir va) < npages s"
    by (rule vm_okD(9) [OF ok u])
  with False t show ?thesis
    by (cases "pte_at s pgdir va = 0")
      (simp_all add: page_lookup_def pgdir_walk_def pte_at_table n pa2page_def not_le)
qed

lemma page_insert_ok:
  assumes ok: "vm_ok s pgdir" and u: "is_user va"
    and p: "p < npages s" "p \<notin> set (free_pages s)"
  obtains (full) "page_insert s pgdir p va perm = Some (s, - E_NO_MEM)"
  | (mapped) s' where "page_insert s pgdir p va perm = Some (s', 0)"
    and "\<And>va'. is_user va' \<Longrightarrow> pte_at s' pgdir va' =
          (if same_page va va' then page2pa p OR perm OR PTE_P else pte_at s pgdir va')"
    and "pp_ref s' p = (if pte_at s pgdir va \<noteq> 0 \<and> PGNUM (pte_at s pgdir va) = p
                        then pp_ref s p else pp_ref s p + 1)"
    and "npages s' = npages s" and "phys s' pgdir (PDX va) \<noteq> 0"
    and "PGNUM (phys s' pgdir (PDX va)) < npages s"
proof (rule pgdir_walk_create [OF ok u])
  assume "pgdir_walk s pgdir va True = Some (s, None)"
  then show thesis by (intro full) (simp add: page_insert_def)
next
  fix s1 t assume w: "pgdir_walk s pgdir va True = Some (s1, Some (t, PTX va))"
    and ok1: "vm_ok s1 pgdir" and t: "phys s1 pgdir (PDX va) \<noteq> 0" "t = PGNUM (phys s1 pgdir (PDX va))"
    and pte: "\<And>va'. is_user va' \<Longrightarrow> pte_at s1 pgdir va' = pte_at s pgdir va'"
    and ref: "\<And>p. p \<notin> set (free_pages s) \<Longrightarrow> pp_ref s1 p = pp_ref s p"
    and n: "npages s1 = npages s" and fr: "set (free_pages s1) \<subseteq> set (free_pages s)"
  let ?s2 = "s1\<lparr>pp_ref := (pp_ref s1)(p := pp_ref s1 p + 1)\<rparr>"
  let ?v = "page2pa p OR perm OR PTE_P" and ?old = "pte_at s pgdir va"
  let ?q = "PGNUM ?old"
  have tt: "t \<noteq> pgdir" using vm_okD(8) [OF ok1 tablesI] t u by (simp add: is_user_def)
  have look: "page_lookup ?s2 pgdir va = Some (if ?old = 0 then None else Some (?q, t, PTX va))"
    using page_lookup_eq [OF ok1 u, of ?s2] t pte [OF u] by simp
  obtain s3 where s3: "page_remove ?s2 pgdir va = Some s3" and n3: "npages s3 = npages s"
    and p3: "phys s3 = phys s1 \<or> phys s3 = phys (store_word s1 t (PTX va) 0)"
    and r3: "pp_ref s3 p = (if ?old \<noteq> 0 \<and> ?q = p then pp_ref s p else pp_ref s p + 1)"
  proof (cases "?old = 0")
    case True
    then show thesis using look that [of ?s2] n ref p by (simp add: page_remove_def)
  next
    case False
    have "?q < npages s1" "?q \<notin> set (free_pages s1)"
      using vm_okD(9,10) [OF ok1 u] False pte [OF u] by simp_all
    then have "pp_link ?s2 ?q = None" using vm_okD(5) [OF ok1] by simp
    then obtain s4 where s4: "page_decref ?s2 ?q = Some s4" "phys s4 = phys s1" "npages s4 = npages s1"
      "pp_ref s4 = (pp_ref ?s2)(?q := pp_ref ?s2 ?q - 1)"
      by (rule page_decref_ok) simp
    with False show thesis
      using look that [of "store_word s4 t (PTX va) 0"] n ref p
      by (auto simp: page_remove_def store_word_def)
  qed
  let ?s' = "store_word s3 t (PTX va) ?v"
  have run: "page_insert s pgdir p va perm = Some (?s', 0)"
    using w s3 by (simp add: page_insert_def)
  have phys: "phys ?s' = phys (store_word s1 t (PTX va) ?v)"
    using p3 by (auto simp: store_word_def)
  show thesis
  proof (rule mapped [OF run])
    show "is_user va' \<Longrightarrow> pte_at ?s' pgdir va' = (if same_page va va' then ?v else pte_at s pgdir va')"
      for va'
    proof -
      assume u': "is_user va'"
      have "pte_at ?s' pgdir va' = pte_at (store_word s1 t (PTX va) ?v) pgdir va'"
        by (simp only: pte_at_def phys)
      with pte_at_store [OF ok1 u u' t refl, of ?v] pte [OF u'] show ?thesis by simp
    qed
    show "pp_ref ?s' p = (if ?old \<noteq> 0 \<and> ?q = p then pp_ref s p else pp_ref s p + 1)"
      using r3 by (simp add: store_word_def)
    show "npages ?s' = npages s" using n3 by (simp add: store_word_def)
    show "phys ?s' pgdir (PDX va) \<noteq> 0" using t(1) tt phys by (simp add: store_word_def)
    show "PGNUM (phys ?s' pgdir (PDX va)) < npages s"
      using vm_okD(6) [OF ok1 tablesI, of "PDX va"] t u tt n phys
      by (simp add: store_word_def is_user_def)
  qed
qed

end
