(* ===== verification/PmapProps.thy ===== *)
theory PmapProps
  imports PmapSpec
begin

unbundle bit_operations_syntax

text \<open>
  The properties of the memory component, with a small machine at which they are applied:
  sixteen frames, a page directory in frame 1 and the frames 2 and 3 free.
\<close>

subsection \<open>Addresses and page numbers\<close>

lemma PGNUM_div: "PGNUM va = unat va div 4096"
  by (simp only: PGNUM_def unat_drop_bit_eq) (simp add: drop_bit_eq_div)

lemma page_address:
  "PDX (push_bit 12 (word_of_nat (PGNUM va))) = PDX va"
  "PTX (push_bit 12 (word_of_nat (PGNUM va))) = PTX va"
proof -
  have "push_bit 12 (word_of_nat (PGNUM va)) = va AND NOT (mask 12)"
    unfolding PGNUM_def by (rule bit_word_eqI) (auto simp: bit_simps dest: bit_imp_le_length)
  moreover have "drop_bit 12 (va AND NOT (mask 12)) = drop_bit 12 va"
    "drop_bit 22 (va AND NOT (mask 12)) = drop_bit 22 va"
    by (rule bit_word_eqI; auto simp: bit_simps dest: bit_imp_le_length)+
  ultimately show "PDX (push_bit 12 (word_of_nat (PGNUM va))) = PDX va"
    "PTX (push_bit 12 (word_of_nat (PGNUM va))) = PTX va"
    by (simp_all add: PDX_def PTX_def)
qed

lemma unat_ROUNDDOWN: "unat (ROUNDDOWN a PGSIZE) = unat a - unat a mod 4096"
proof -
  have m: "unat (a mod 4096) = unat a mod 4096" by (simp add: unat_mod)
  then have "a mod 4096 \<le> a" by (simp add: word_le_nat_alt)
  then show ?thesis using m by (simp add: ROUNDDOWN_def PGSIZE_def unat_sub)
qed

lemma unat_ROUNDUP:
  assumes "unat a + 4095 < 2 ^ 32"
  shows "unat (ROUNDUP a PGSIZE) = (unat a + 4095) div 4096 * 4096"
proof -
  have "a + 4096 - 1 = a + (4095 :: w32)" by simp
  moreover have "unat (a + (4095 :: w32)) = unat a + 4095"
    using assms by (simp add: unat_word_ariths)
  ultimately have "unat (a + 4096 - 1) = unat a + 4095" by (simp only:)
  then show ?thesis
    using unat_ROUNDDOWN [of "a + 4096 - 1"]
    by (simp add: ROUNDUP_def PGSIZE_def minus_mod_eq_div_mult)
qed

subsection \<open>The allocator at boot\<close>

text \<open>After \<open>page_init\<close>, allocations hand out exactly the frames that are not reserved (frame
  0, the start-up code of the other processors, the I/O hole and what \<open>boot_alloc\<close> used), from the
  highest down, and no frame twice, until none is left.\<close>

theorem page_alloc_after_init:
  assumes "page_free_list s = None"
  shows "snd (take_n (\<lambda>s. page_alloc s z) n (page_init ff s)) =
      take n (rev (filter (\<lambda>i. \<not> page_reserved ff i) [0..<npages s])) \<and>
    distinct (snd (take_n (\<lambda>s. page_alloc s z) n (page_init ff s)))"
proof -
  note init = page_init_free [OF assms, of ff]
  show ?thesis
    using page_allocator.take_n_prefix [OF init(1), of z n] init(2)
      page_allocator.take_n_distinct [OF init(1), of z n] by simp
qed

definition demo_mem :: pmem where
  "demo_mem = \<lparr>npages = 16, phys = (\<lambda>_ _. 0), pp_link = (\<lambda>_. None)(2 := Some 3),
     pp_ref = (\<lambda>_. 0), page_free_list = Some 2, kern_pgdir = 1, mmio_base = MMIOBASE\<rparr>"

lemma page_alloc_after_init_witness:
  "snd (take_n (\<lambda>s. page_alloc s True) 3
     (page_init 256 (demo_mem\<lparr>page_free_list := None\<rparr>))) = [15, 14, 13]"
  using page_alloc_after_init [of "demo_mem\<lparr>page_free_list := None\<rparr>" True 3 256]
  by (simp add: demo_mem_def upt_rec page_reserved_def layout_defs PGNUM_def)

subsection \<open>Mappings\<close>

text \<open>C13. Mapping a frame at a user address: either memory for a page table is missing and nothing
  changes, or the address now maps the frame with the permissions asked for, every other user page
  maps what it did, and the frame's count grew by one unless the address mapped it before.\<close>

theorem page_insert_maps:
  assumes "vm_ok s pgdir" and "is_user va" and "PGNUM perm = 0"
    and "p < npages s" and "p \<notin> set (free_pages s)"
  shows "page_insert s pgdir p va perm = Some (s, - E_NO_MEM) \<or>
    (\<exists>s' t i. page_insert s pgdir p va perm = Some (s', 0) \<and>
       page_lookup s' pgdir va = Some (Some (p, t, i)) \<and>
       phys s' t i = page2pa p OR perm OR PTE_P \<and>
       (\<forall>va'. is_user va' \<longrightarrow> \<not> same_page va va' \<longrightarrow> pte_at s' pgdir va' = pte_at s pgdir va') \<and>
       pp_ref s' p = (if pte_at s pgdir va \<noteq> 0 \<and> PGNUM (pte_at s pgdir va) = p
                      then pp_ref s p else pp_ref s p + 1))"
proof (cases rule: page_insert_ok [OF assms(1,2,4,5), of perm])
  case 1
  then show ?thesis by simp
next
  case mapped: (2 s')
  let ?v = "page2pa p OR perm OR PTE_P"
  have small: "p < 2 ^ 20" using vm_okD(2) [OF assms(1)] assms(4) by simp
  have "PGNUM (perm OR PTE_P) = 0"
    using assms(3) by (simp add: PGNUM_def PTE_P_def unat_eq_0)
  from PGNUM_entry [OF small this] have num: "PGNUM ?v = p" by (simp add: or.assoc)
  have ne: "?v \<noteq> 0" using entry_nonzero [of p perm] by (simp add: or.assoc)
  have v: "pte_at s' pgdir va = ?v" using mapped(2) [OF assms(2)] by (simp add: same_page_def)
  let ?t = "PGNUM (phys s' pgdir (PDX va))"
  have at: "phys s' ?t (PTX va) = ?v" using v mapped(5) by (simp add: pte_at_def Let_def)
  have "page_lookup s' pgdir va = Some (Some (p, ?t, PTX va))"
    using mapped(4-6) at num ne assms(4) by (simp add: page_lookup_def pgdir_walk_def pa2page_def)
  with mapped(1-3) at show ?thesis by metis
qed

lemma demo_mem_ok: "vm_ok demo_mem 1" "free_pages demo_mem = [2, 3]"
proof -
  show fr: "free_pages demo_mem = [2, 3]"
    by (simp add: free_pages_def demo_mem_def numeral_eq_Suc)
  have "chain (pp_link demo_mem) (page_free_list demo_mem) [2, 3]" by (simp add: demo_mem_def)
  from free_chainI [OF this, of 16] have "pages_inv demo_mem"
    by (simp add: pages_inv_def demo_mem_def)
  moreover have "tables demo_mem 1 = {}" "pte_at demo_mem 1 va = 0" for va
    by (simp_all add: tables_def pte_at_def demo_mem_def)
  ultimately show "vm_ok demo_mem 1"
    by (simp add: vm_ok_def fr) (simp add: demo_mem_def)
qed

lemma page_insert_maps_witness:
  "\<exists>s' t i. page_insert demo_mem 1 5 0x800000 (PTE_W OR PTE_U) = Some (s', 0) \<and>
     page_lookup s' 1 0x800000 = Some (Some (5, t, i)) \<and> pp_ref s' 5 = 1"
proof -
  have u: "is_user 0x800000" "PGNUM (PTE_W OR PTE_U) = 0"
    unfolding is_user_def PDX_UTOP by (simp_all add: PDX_def PGNUM_def PTE_W_def PTE_U_def)
  have five: "(5::nat) < npages demo_mem" "(5::nat) \<notin> set (free_pages demo_mem)"
    by (simp_all add: demo_mem_ok) (simp add: demo_mem_def)
  have "page_insert demo_mem 1 5 0x800000 (PTE_W OR PTE_U) \<noteq> Some (demo_mem, - E_NO_MEM)"
    by (simp add: page_insert_def page_remove_def page_lookup_def pgdir_walk_def page_alloc_def
        store_word_def demo_mem_def E_NO_MEM_def pa2page_def Let_def
        split: Option.bind_split if_splits)
  moreover have "pte_at demo_mem 1 0x800000 = 0" "pp_ref demo_mem 5 = 0"
    by (simp_all add: pte_at_def demo_mem_def)
  ultimately show ?thesis
    using page_insert_maps [OF demo_mem_ok(1) u five] by auto
qed

subsection \<open>Checks of user addresses\<close>

lemma user_mem_loop_ok:
  assumes "user_mem_loop ks s pgdir va perm = Some (0, a)" and "k \<in> set ks"
  shows "\<exists>t i. pgdir_walk s pgdir (push_bit 12 (word_of_nat k)) False = Some (s, Some (t, i)) \<and>
     phys s t i AND (perm OR PTE_P) = perm OR PTE_P"
  using assms
proof (induction ks)
  case (Cons k' ks)
  then show ?case
    by (auto simp: E_FAULT_def Let_def pgdir_walk_def split: Option.bind_splits if_splits option.splits)
qed simp

text \<open>C14. The check of a user range whose end, rounded up to a page, does not wrap around: when it succeeds, every
  byte of the range lies below \<open>UTOP\<close> and its page is mapped with all the permissions asked for. It is not
  enough that the range itself does not wrap: \<open>0x800\<close> bytes at \<open>0xFFFFF000\<close> have the rounded end 0, and are
  accepted (\<open>user_mem_check_last_page\<close>).\<close>

theorem user_mem_check_sound:
  assumes "user_mem_check s pgdir va len perm = Some (0, a)"
    and "unat va + unat len + 4095 < 2 ^ 32"
    and "unat va \<le> unat va'" and "unat va' < unat va + unat len"
  shows "va' < UTOP \<and> pte_at s pgdir va' AND (perm OR PTE_P) = perm OR PTE_P"
proof -
  let ?hi = "ROUNDUP (va + len) PGSIZE"
  have sum: "unat (va + len) = unat va + unat len" using assms(2) by (simp add: unat_word_ariths)
  then have hi: "unat ?hi = (unat va + unat len + 4095) div 4096 * 4096"
    using unat_ROUNDUP [of "va + len"] assms(2) by simp
  have le: "\<not> ?hi > UTOP" and loop:
    "user_mem_loop [PGNUM (ROUNDDOWN va PGSIZE)..<PGNUM ?hi] s pgdir va perm = Some (0, a)"
    using assms(1) by (auto simp: user_mem_check_def Let_def E_FAULT_def split: if_splits)
  have below: "unat va' < unat ?hi" using assms(4) hi by linarith
  then have top: "va' < UTOP" using le by (simp add: word_less_nat_alt)
  have "PGNUM (ROUNDDOWN va PGSIZE) = unat va div 4096"
    by (simp add: PGNUM_div unat_ROUNDDOWN minus_mod_eq_div_mult)
  moreover have "unat va div 4096 \<le> PGNUM va'"
    using assms(3) by (simp add: PGNUM_div div_le_mono)
  moreover have "PGNUM va' < PGNUM ?hi"
    using below hi by (simp add: PGNUM_div less_mult_imp_div_less)
  ultimately have "PGNUM va' \<in> set [PGNUM (ROUNDDOWN va PGSIZE)..<PGNUM ?hi]" by simp
  from user_mem_loop_ok [OF loop this] obtain t i where
    w: "pgdir_walk s pgdir (push_bit 12 (word_of_nat (PGNUM va'))) False = Some (s, Some (t, i))"
    "phys s t i AND (perm OR PTE_P) = perm OR PTE_P" by blast
  then have "phys s t i = pte_at s pgdir va'"
    by (auto simp: pgdir_walk_def page_address pte_at_def pa2page_def Let_def split: if_splits Option.bind_splits)
  with w(2) top show ?thesis by simp
qed

definition demo_mapped :: pmem where
  "demo_mapped = demo_mem\<lparr>phys := (\<lambda>_ _. 0)(1 := (\<lambda>_. 0)(2 := 0x4007), 4 := (\<lambda>_. 0)(0 := 0x5007))\<rparr>"

lemma user_mem_check_sound_witness:
  "user_mem_check demo_mapped 1 0x800010 32 PTE_U = Some (0, None) \<and>
     pte_at demo_mapped 1 0x800020 AND (PTE_U OR PTE_P) = PTE_U OR PTE_P"
proof -
  have top: "UTOP = 0xEEC00000" by (simp add: layout_defs)
  have range: "[PGNUM (ROUNDDOWN 0x800010 PGSIZE)..<PGNUM (ROUNDUP (0x800010 + 32) PGSIZE)] = [0x800]"
    by (simp add: PGNUM_def ROUNDUP_def ROUNDDOWN_def PGSIZE_def upt_rec)
  have ok: "user_mem_check demo_mapped 1 0x800010 32 PTE_U = Some (0, None)"
    unfolding user_mem_check_def Let_def range top
    by (simp add: ROUNDUP_def ROUNDDOWN_def PGSIZE_def pgdir_walk_def pa2page_def PDX_def PTX_def
        PGNUM_def PTE_ADDR_def demo_mapped_def demo_mem_def PTE_U_def PTE_P_def)
  from ok user_mem_check_sound [OF ok, of "0x800020"] show ?thesis by simp
qed

text \<open>The check of a range that wraps around: the end of the range is computed in 32 bits, so a range
  that starts in the kernel's part of memory and runs over the top passes the check whatever the
  page tables hold.\<close>

lemma user_mem_check_wraps:
  assumes "UTOP \<le> va" and "ROUNDUP (va + len) PGSIZE \<le> UTOP"
  shows "user_mem_check s pgdir va len perm = Some (0, None)"
proof -
  have "unat UTOP = 0xEEC00000" by (simp add: layout_defs)
  with assms have "unat (ROUNDUP (va + len) PGSIZE) \<le> 0xEEC00000" "0xEEC00000 \<le> unat va"
    by (simp_all add: word_le_nat_alt)
  then have "PGNUM (ROUNDUP (va + len) PGSIZE) \<le> 0xEEC00" "0xEEC00 \<le> PGNUM va"
    by (simp_all add: PGNUM_div)
  moreover have "PGNUM (ROUNDDOWN va PGSIZE) = PGNUM va"
    by (simp add: PGNUM_div unat_ROUNDDOWN minus_mod_eq_div_mult)
  ultimately have "[PGNUM (ROUNDDOWN va PGSIZE)..<PGNUM (ROUNDUP (va + len) PGSIZE)] = []" by simp
  moreover have "\<not> ROUNDUP (va + len) PGSIZE > UTOP" using assms(2) by simp
  ultimately show ?thesis by (simp only: user_mem_check_def Let_def user_mem_loop.simps if_False)
qed

text \<open>A range below the end of the address space whose end rounds up to 0 passes in the same way.\<close>

lemma user_mem_check_last_page: "user_mem_check s pgdir 0xFFFFF000 0x800 perm = Some (0, None)"
proof (rule user_mem_check_wraps)
  show "UTOP \<le> 0xFFFFF000" by (simp add: layout_defs)
  have "ROUNDUP (0xFFFFF000 + 0x800) PGSIZE = 0" by (simp add: ROUNDUP_def ROUNDDOWN_def PGSIZE_def)
  then show "ROUNDUP (0xFFFFF000 + 0x800) PGSIZE \<le> UTOP" by simp
qed

end
