(* ===== verification/SchedProps.thy ===== *)
theory SchedProps
  imports SchedSpec PmapProps
begin

unbundle bit_operations_syntax

text \<open>
  The properties of the scheduler: no starvation under the priority scheduler, whatever the
  other environments do between two calls; at most one processor runs an environment;
  round robin; and what happens when a queue is full.
\<close>

subsection \<open>Progress of one entry in the specification\<close>

definition entry_of :: "nat \<Rightarrow> w32 \<Rightarrow> bool" where
  "entry_of i x \<longleftrightarrow> ENVX x = i"

text \<open>How many more calls an environment may have to wait, when there are never more than \<open>n\<close> entries.\<close>

definition wait_rank :: "nat \<Rightarrow> nat \<Rightarrow> levels \<times> int \<Rightarrow> nat" where
  "wait_rank n i st = (case st of (ls, tot) \<Rightarrow>
     (case first_index (entry_of i) (ls ! 0) of
        Some j \<Rightarrow> j
      | None \<Rightarrow> nat (MAX_MLFQ_EXECUTIONS - tot) + n))"

lemma levels_4:
  assumes "length (ls :: 'a list) = 4"
  obtains a b c d where "ls = [a, b, c, d]"
proof -
  from assms obtain a b c d where "ls = [a, b, c, d]"
    by (auto simp: numeral_eq_Suc length_Suc_conv)
  then show thesis by (rule that)
qed

lemma mset_take_out:
  "k < length l \<Longrightarrow> mset l = add_mset (l ! k) (mset (tl (l[k := hd l])))"
proof -
  assume k: "k < length l"
  show ?thesis
  proof (cases l)
    case (Cons x xs)
    show ?thesis
    proof (cases k)
      case (Suc k')
      then have k': "k' < length xs" using k Cons by simp
      then have "mset (xs[k' := x]) = add_mset x (mset xs - {#xs ! k'#})" by (rule mset_update)
      moreover have "mset xs = add_mset (xs ! k') (mset xs - {#xs ! k'#})" using k' by simp
      ultimately show ?thesis using Suc Cons by (metis add_mset_commute list.sel(1,3) list_update_code(3)
          mset.simps(2) nth_Cons_Suc)
    qed (use Cons in simp)
  qed (use k in simp)
qed

lemma spec_move_mset:
  assumes "length ls = 4" and "spec_level R ls = Some n" and "spec_move R ls n = (ls', x)"
  shows "mset (concat ls') = mset (concat ls)" and "length ls' = 4" and "R x"
    and "\<exists>k. first_index R (ls ! n) = Some k \<and> x = ls ! n ! k \<and>
           ls' ! 0 = (if n = 0 then tl ((ls ! 0)[k := hd (ls ! 0)]) else ls ! 0)"
proof -
  note lv = first_index_SomeD [OF assms(2) [unfolded spec_level_def]]
  then have n: "n < 4" using assms(1) by simp
  obtain k where k: "first_index R (ls ! n) = Some k"
    using lv(2) first_index_None [of R "ls ! n"] by (cases "first_index R (ls ! n)") auto
  note ki = first_index_SomeD [OF k]
  obtain a b c d where ls: "ls = [a, b, c, d]" by (rule levels_4 [OF assms(1)])
  have ls': "ls' = (let l = ls ! n; ls1 = ls[n := tl (l[k := hd l])]; m = min 3 (n + 1)
      in ls1[m := ls1 ! m @ [l ! k]])" and x: "x = ls ! n ! k"
    using assms(3) k by (auto simp: spec_move_def Let_def)
  show "R x" using ki(2) x by simp
  show "length ls' = 4" using ls' assms(1) by (simp only: Let_def length_list_update)
  show "mset (concat ls') = mset (concat ls)"
    using less_4_cases [OF n] mset_take_out [OF ki(1)] unfolding ls' ls Let_def
    by (elim disjE) (simp_all add: ac_simps)
  show "\<exists>k. first_index R (ls ! n) = Some k \<and> x = ls ! n ! k \<and>
      ls' ! 0 = (if n = 0 then tl ((ls ! 0)[k := hd (ls ! 0)]) else ls ! 0)"
  proof (intro exI [of _ k] conjI k x)
    have "ls' ! 0 = ls[n := tl ((ls ! n)[k := hd (ls ! n)])] ! 0"
      unfolding ls' Let_def by (rule nth_list_update_neq) simp
    then show "ls' ! 0 = (if n = 0 then tl ((ls ! 0)[k := hd (ls ! 0)]) else ls ! 0)"
      using assms(1) by simp
  qed
qed

lemma first_index_after:
  assumes j: "first_index P l = Some j" and k: "k < length l" "k < j"
  shows "first_index P (tl (l[k := hd l])) = Some (j - 1)"
proof -
  note ji = first_index_SomeD [OF j]
  have l: "l \<noteq> []" using k by auto
  have h: "\<not> P (hd l)" using ji(3) k l by (simp add: hd_conv_nth)
  show ?thesis
  proof (rule first_indexI)
    show "j - 1 < length (tl (l[k := hd l]))" using ji(1) k by simp
    show "P (tl (l[k := hd l]) ! (j - 1))" using ji k by (simp add: nth_tl)
    show "\<forall>i<j - 1. \<not> P (tl (l[k := hd l]) ! i)"
      using ji h k by (auto simp: nth_tl nth_list_update)
  qed
qed

lemma first_index_append: "first_index P xs = Some j \<Longrightarrow> first_index P (xs @ ys) = Some j"
  using first_index_SomeD [of P xs j] by (intro first_indexI) (auto simp: nth_append)

text \<open>One call either chooses the environment or brings it closer to the front.\<close>

lemma spec_yield_progress:
  assumes len: "length ls = 4" and n0: "length (concat ls) \<le> n0" and e: "\<exists>x\<in>set (concat ls). ENVX x = i"
    and R: "\<And>x. ENVX x = i \<Longrightarrow> R x" and y: "spec_yield R (ls, tot) = (st', ox)"
  shows "\<exists>x. ox = Some x \<and> length (fst st') = 4 \<and> mset (concat (fst st')) = mset (concat ls) \<and>
     (ENVX x = i \<or> wait_rank n0 i st' < wait_rank n0 i (ls, tot))"
proof -
  obtain ls1 tot1 where b: "spec_boost (ls, tot) = (ls1, tot1)" by fastforce
  have len1: "length ls1 = 4" and ms1: "mset (concat ls1) = mset (concat ls)"
    using b len by (auto simp: spec_boost_def split: if_splits)
  have "set (concat ls1) = set (concat ls)" using ms1 by (metis set_mset_mset)
  with e R obtain l where "l \<in> set ls1" "\<exists>x\<in>set l. R x" by fastforce
  then obtain n where n: "spec_level R ls1 = Some n"
    unfolding spec_level_def using first_index_None [of "\<lambda>l. \<exists>x\<in>set l. R x" ls1]
    by (cases "first_index (\<lambda>l. \<exists>x\<in>set l. R x) ls1") auto
  obtain ls' x where mv: "spec_move R ls1 n = (ls', x)" by fastforce
  note m = spec_move_mset [OF len1 n mv]
  have y': "st' = (ls', tot1 + 1)" "ox = Some x"
    using y b n mv by (auto simp: spec_yield_def)
  obtain k where k: "first_index R (ls1 ! n) = Some k" "x = ls1 ! n ! k"
    "ls' ! 0 = (if n = 0 then tl ((ls1 ! 0)[k := hd (ls1 ! 0)]) else ls1 ! 0)" using m(4) by blast
  note ki = first_index_SomeD [OF k(1)]
  have front: "ENVX x = i \<or> wait_rank n0 i st' < j" if j: "first_index (entry_of i) (ls1 ! 0) = Some j" for j
  proof -
    note ji = first_index_SomeD [OF j]
    have Rj: "R (ls1 ! 0 ! j)" using ji(2) R by (simp add: entry_of_def)
    have "\<exists>x\<in>set (ls1 ! 0). R x" using Rj ji(1) by auto
    then have "first_index (\<lambda>l. \<exists>x\<in>set l. R x) ls1 = Some 0" using len1 by (intro first_indexI) auto
    then have n0: "n = 0" using n by (simp add: spec_level_def)
    have "k \<le> j" using ki(3) Rj n0 by (metis not_le)
    show ?thesis
    proof (cases "k = j")
      case True
      then show ?thesis using k(2) n0 ji(2) by (simp add: entry_of_def)
    next
      case False
      with \<open>k \<le> j\<close> ki(1) n0 have "first_index (entry_of i) (ls' ! 0) = Some (j - 1)"
        using first_index_after [OF j] k(3) by simp
      then show ?thesis using y'(1) False \<open>k \<le> j\<close> by (simp add: wait_rank_def)
    qed
  qed
  have T: "length (concat ls') = length (concat ls)" "length (concat ls1) = length (concat ls)"
    using m(1) ms1 by (metis size_mset)+
  have "ENVX x = i \<or> wait_rank n0 i st' < wait_rank n0 i (ls, tot)"
  proof (cases "tot \<ge> MAX_MLFQ_EXECUTIONS")
    case True
    then have ls1: "ls1 ! 0 = concat ls" using b by (auto simp: spec_boost_def)
    from e obtain j where j: "first_index (entry_of i) (ls1 ! 0) = Some j"
      using first_index_None [of "entry_of i" "ls1 ! 0"] unfolding ls1
      by (cases "first_index (entry_of i) (concat ls)") (auto simp: entry_of_def)
    have "j \<le> wait_rank n0 i (ls, tot)"
    proof (cases "first_index (entry_of i) (ls ! 0)")
      case None
      have "j < length (concat ls)" using first_index_SomeD(1) [OF j] ls1 by simp
      with None n0 show ?thesis by (simp add: wait_rank_def)
    next
      case (Some j0)
      obtain a b c d where "ls = [a, b, c, d]" by (rule levels_4 [OF len])
      then have "first_index (entry_of i) (concat ls) = Some j0"
        using first_index_append [OF Some] by simp
      then show ?thesis using j ls1 Some by (simp add: wait_rank_def)
    qed
    with front [OF j] show ?thesis by linarith
  next
    case False
    then have ls1: "ls1 = ls" "tot1 = tot" using b by (auto simp: spec_boost_def)
    show ?thesis
    proof (cases "first_index (entry_of i) (ls ! 0)")
      case (Some j)
      with front [of j] ls1 show ?thesis by (simp add: wait_rank_def)
    next
      case None
      have ne: "ls ! 0 \<noteq> []" if "n = 0" using ki(1) that ls1 by auto
      have "set (ls' ! 0) \<subseteq> set (ls ! 0)"
      proof (cases "n = 0")
        case True
        with ne have "hd (ls ! 0) \<in> set (ls ! 0)" by simp
        then have "set ((ls ! 0)[k := hd (ls ! 0)]) \<subseteq> set (ls ! 0)"
          by (intro set_update_subsetI) auto
        moreover have "set (tl l) \<subseteq> set l" for l :: "w32 list" by (cases l) auto
        ultimately show ?thesis using k(3) True ls1 by (metis subset_trans)
      qed (use k(3) ls1 in simp)
      then have "first_index (entry_of i) (ls' ! 0) = None"
        using None unfolding first_index_None by blast
      then show ?thesis using None False y'(1) ls1 T by (simp add: wait_rank_def)
    qed
  qed
  then show ?thesis using y' m(1,2) ms1 by auto
qed

subsection \<open>Calls of the scheduler\<close>

text \<open>
  Between two calls of the scheduler the kernel does other work: programs run, call the kernel, block, exit, and new
  environments are made. \<open>t\<close> is the state that all this leaves, whatever it is, except that the queues are as the
  scheduler left them with the entries of the new environments \<open>new\<close> pushed, each on the level of its parent. The
  calls come from the timer interrupts and the yields of all processors; \<open>c\<close> is the one that calls.
\<close>

type_synonym interlude = "nat \<times> kern \<times> (w32 \<times> int) list"

fun push_all :: "(w32 \<times> int) list \<Rightarrow> kern \<Rightarrow> kern option" where
  "push_all [] s = Some s"
| "push_all ((x, n) # new) s = do { s \<leftarrow> sched_push_env s x n; push_all new s }"

definition meanwhile :: "kern \<Rightarrow> (w32 \<times> int) list \<Rightarrow> kern \<Rightarrow> kern option" where
  "meanwhile t new s = do { s \<leftarrow> push_all new s; Some (t\<lparr>mlfq := mlfq s\<rparr>) }"

fun run_ticks :: "interlude list \<Rightarrow> kern \<Rightarrow> (kern \<times> outcome list) option" where
  "run_ticks [] s = Some (s, [])"
| "run_ticks ((c, t, new) # sts) s = do {
     s \<leftarrow> meanwhile t new s;
     (s, r) \<leftarrow> sched_yield SCHED_PRIORITIES c s;
     (s, rs) \<leftarrow> run_ticks sts s;
     Some (s, r # rs)
   }"

definition arrivals :: "interlude list \<Rightarrow> nat" where
  "arrivals sts = sum_list (map (\<lambda>(c, t, new). length new) sts)"

lemma arrivals_simps [simp]: "arrivals [] = 0" "arrivals ((c, t, new) # sts) = length new + arrivals sts"
  by (simp_all add: arrivals_def)

text \<open>What may be left: environment \<open>i\<close> wants to run, and what may run has a directory.\<close>

definition admissible :: "nat \<Rightarrow> interlude \<Rightarrow> bool" where
  "admissible i = (\<lambda>(c, t, new). status t i = ENV_RUNNABLE \<and> dirs_ok t \<and> (\<forall>(x, n)\<in>set new. 0 \<le> n \<and> n < 4))"

definition sched_ready :: "int \<Rightarrow> kern \<Rightarrow> bool" where
  "sched_ready b s \<longleftrightarrow> mlfq_ok b (mlfq s) \<and> length (concat (levels_of (mlfq s))) \<le> NENV"

lemma ticked_levels:
  assumes "ticked c s s' r"
  shows "(levels_of (mlfq s')) = fst (fst (spec_yield (runnable s) (levels_of (mlfq s), total_executions (mlfq s))))"
  using assms by (auto simp: ticked_def split: prod.splits option.splits)

lemma spec_yield_mset:
  assumes "length ls = 4" and "spec_yield R (ls, tot) = (st', ox)"
  shows "mset (concat (fst st')) = mset (concat ls)"
proof -
  obtain ls1 tot1 where b: "spec_boost (ls, tot) = (ls1, tot1)" by fastforce
  then have len1: "length ls1 = 4" and ms1: "mset (concat ls1) = mset (concat ls)"
    using assms(1) by (auto simp: spec_boost_def split: if_splits)
  show ?thesis
  proof (cases "spec_level R ls1")
    case None
    then have "st' = (ls1, tot1)" using assms(2) b by (simp add: spec_yield_def)
    then show ?thesis using ms1 by simp
  next
    case (Some n)
    obtain ls' x where mv: "spec_move R ls1 n = (ls', x)" by fastforce
    from spec_move_mset(1) [OF len1 Some mv] show ?thesis
      using assms(2) b Some mv ms1 by (auto simp: spec_yield_def)
  qed
qed

text \<open>New entries come last on their level.\<close>

definition joined :: "kern \<Rightarrow> (w32 \<times> int) list \<Rightarrow> kern \<Rightarrow> bool" where
  "joined s new u \<longleftrightarrow> (\<exists>ys. levels_of (mlfq u) ! 0 = levels_of (mlfq s) ! 0 @ ys) \<and>
     set (concat (levels_of (mlfq u))) = set (concat (levels_of (mlfq s))) \<union> fst ` set new \<and>
     length (concat (levels_of (mlfq u))) = length (concat (levels_of (mlfq s))) + length new \<and>
     total_executions (mlfq u) = total_executions (mlfq s)"

lemma push_one:
  assumes ok: "mlfq_ok b (mlfq s)" and room: "length (concat (levels_of (mlfq s))) < NENV" and n: "0 \<le> n" "n < 4"
    and b: "b + 1 < 2 ^ 31"
  obtains s' where "sched_push_env s x n = Some s'" and "mlfq_ok (b + 1) (mlfq s')" and "joined s [(x, n)] s'"
proof -
  let ?m = "mlfq s" and ?n = "nat n"
  have n4: "?n < 4" and nn: "int ?n = n" using n by simp_all
  obtain q where q: "get_queue ?m n = Some q" "levels_of ?m ! ?n = qlist q" "queue_ok q" "q_last q \<le> b"
    and lev: "\<And>q'. levels_of (put_queue ?m n q') = (levels_of ?m)[?n := qlist q']"
    and okq: "\<And>q' b'. b \<le> b' \<Longrightarrow> queue_ok q' \<Longrightarrow> q_last q' \<le> b' \<Longrightarrow> mlfq_ok b' (put_queue ?m n q')"
    and tot: "\<And>q'. total_executions (put_queue ?m n q') = total_executions ?m"
    by (rule queue_of_level [OF n4, of ?m b, unfolded nn]) (use ok in blast)
  obtain A B C D where ls: "levels_of ?m = [A, B, C, D]" by (rule levels_4 [OF length_levels])
  have "length (levels_of ?m ! ?n) \<le> length (concat (levels_of ?m))"
    using less_4_cases [OF n4] by (elim disjE) (simp_all add: ls)
  then have "length (qlist q) < NENV" "q_last q + 1 < 2 ^ 31" using room q(2,4) b by simp_all
  from sched_push_env_ok [OF q(1,3) this] obtain s' q' where s': "sched_push_env s x n = Some s'"
    "mlfq s' = put_queue ?m n q'" "queue_ok q'" "qlist q' = qlist q @ [x]" "q_last q' = q_last q + 1" by metis
  have lv: "levels_of (mlfq s') = (levels_of ?m)[?n := levels_of ?m ! ?n @ [x]]" using s' lev q(2) by simp
  have "joined s [(x, n)] s'"
    unfolding joined_def lv using less_4_cases [OF n4] s'(2) tot by (elim disjE) (auto simp: ls)
  moreover have "mlfq_ok (b + 1) (mlfq s')" using s' okq [of "b + 1" q'] q(4) by simp
  ultimately show thesis using that s'(1) by blast
qed

lemma joined_trans: "joined s xs t \<Longrightarrow> joined t ys u \<Longrightarrow> joined s (xs @ ys) u"
  unfolding joined_def by (auto simp: image_Un)

lemma push_all_ok:
  assumes "mlfq_ok b (mlfq s)" and "length (concat (levels_of (mlfq s))) + length new \<le> NENV"
    and "\<forall>(x, n)\<in>set new. 0 \<le> n \<and> n < 4" and "b + int (length new) < 2 ^ 31"
  obtains s' where "push_all new s = Some s'" and "mlfq_ok (b + int (length new)) (mlfq s')" and "joined s new s'"
  using assms
proof (induction new arbitrary: s b thesis)
  case Nil
  then show ?case by (simp add: joined_def)
next
  case (Cons p new)
  obtain x n where p: "p = (x, n)" by (cases p)
  have pre: "length (concat (levels_of (mlfq s))) < NENV" "0 \<le> n" "n < 4" "b + 1 < 2 ^ 31"
    using Cons.prems(3-5) by (auto simp: p)
  obtain s1 where s1: "sched_push_env s x n = Some s1" "mlfq_ok (b + 1) (mlfq s1)" "joined s [(x, n)] s1"
    by (rule push_one [OF Cons.prems(2) pre]) (rule that)
  have "length (concat (levels_of (mlfq s1))) + length new \<le> NENV" "\<forall>(x, n)\<in>set new. 0 \<le> n \<and> n < 4"
    "b + 1 + int (length new) < 2 ^ 31" using Cons.prems(3-5) s1(3) by (auto simp: joined_def)
  from Cons.IH [OF _ s1(2) this] obtain s' where "push_all new s1 = Some s'" "mlfq_ok (b + 1 + int (length new)) (mlfq s')"
    "joined s1 new s'" by blast
  then show ?case
    using Cons.prems(1) [of s'] s1(1) joined_trans [OF s1(3), of new s'] by (simp add: p algebra_simps)
qed

lemma tick_ok:
  assumes ready: "mlfq_ok b (mlfq s)" "length (concat (levels_of (mlfq s))) + length new \<le> NENV"
    and adm: "admissible i (c, t, new)" and b: "b + int (length new) + int NENV + 1 < 2 ^ 31"
  obtains u s' r where "meanwhile t new s = Some u" and "sched_yield SCHED_PRIORITIES c u = Some (s', r)"
    and "ticked c u s' r" and "joined s new u" and "status u = status t" and "cpu_env u = cpu_env t"
    and "mlfq_ok (b + int (length new) + int NENV + 1) (mlfq s')"
    and "length (concat (levels_of (mlfq s'))) = length (concat (levels_of (mlfq s))) + length new"
proof -
  have "\<forall>(x, n)\<in>set new. 0 \<le> n \<and> n < 4" "b + int (length new) < 2 ^ 31" using adm b by (auto simp: admissible_def)
  from push_all_ok [OF ready this] obtain s1 where s1: "push_all new s = Some s1"
    "mlfq_ok (b + int (length new)) (mlfq s1)" "joined s new s1" by blast
  let ?u = "t\<lparr>mlfq := mlfq s1\<rparr>"
  have u: "meanwhile t new s = Some ?u" "joined s new ?u" "status ?u = status t"
    using s1 by (simp_all add: meanwhile_def joined_def status_def fun_eq_iff)
  have "mlfq_ok (b + int (length new)) (mlfq ?u)" "length (concat (levels_of (mlfq ?u))) \<le> NENV" "dirs_ok ?u"
    using s1(2) u(2) ready(2) adm by (simp_all add: joined_def admissible_def dirs_ok_def status_def)
  from sched_yield_refines [OF this(1,2) b this(3), of c] obtain s' r where
    s': "sched_yield SCHED_PRIORITIES c ?u = Some (s', r)" "ticked c ?u s' r"
      "mlfq_ok (b + int (length new) + int NENV + 1) (mlfq s')" by metis
  obtain st' ox where y: "spec_yield (runnable ?u) (levels_of (mlfq ?u), total_executions (mlfq ?u)) = (st', ox)"
    by fastforce
  have "mset (concat (levels_of (mlfq s'))) = mset (concat (levels_of (mlfq ?u)))"
    using spec_yield_mset [OF _ y] ticked_levels [OF s'(2)] y by simp
  then have "length (concat (levels_of (mlfq s'))) = length (concat (levels_of (mlfq ?u)))" by (metis size_mset)
  then show thesis using that [OF u(1) s'(1,2) u(2,3) _ s'(3)] u(2) by (simp add: joined_def)
qed

lemma joined_rank:
  assumes j: "joined s new u" and n: "length (concat (levels_of (mlfq u))) \<le> n"
  shows "wait_rank n i (levels_of (mlfq u), total_executions (mlfq u)) \<le> wait_rank n i (levels_of (mlfq s), total_executions (mlfq s))"
proof -
  obtain ys where ys: "levels_of (mlfq u) ! 0 = levels_of (mlfq s) ! 0 @ ys" using j by (auto simp: joined_def)
  show ?thesis
  proof (cases "first_index (entry_of i) (levels_of (mlfq s) ! 0)")
    case (Some j)
    then show ?thesis using first_index_append [OF Some] by (simp add: wait_rank_def ys)
  next
    case None
    have "levels_of (mlfq u) ! 0 = qlist (q0 (mlfq u))" by (simp add: levels_of_def)
    then have "length (levels_of (mlfq u) ! 0) \<le> n" using n by (simp add: levels_of_def)
    moreover have "k < length (levels_of (mlfq u) ! 0)" if "first_index (entry_of i) (levels_of (mlfq u) ! 0) = Some k" for k
      by (rule first_index_SomeD(1) [OF that])
    ultimately show ?thesis using None j by (fastforce simp: wait_rank_def joined_def split: option.splits)
  qed
qed

text \<open>A call raises \<open>q_last\<close> by at most \<open>NENV + 1\<close>, beside the new entries.\<close>

lemma counters_fit:
  assumes "b + int (length ((c, t, new) # sts)) * (int NENV + 1) + int (arrivals ((c, t, new) # sts)) < 2 ^ 31"
  shows "b + int (length new) + int NENV + 1 < 2 ^ 31"
    and "b + int (length new) + int NENV + 1 + int (length sts) * (int NENV + 1) + int (arrivals sts) < 2 ^ 31"
proof -
  have "int (length ((c, t, new) # sts)) * (int NENV + 1) = int (length sts) * (int NENV + 1) + (int NENV + 1)"
    by (simp add: algebra_simps)
  moreover have "0 \<le> int (length sts) * (int NENV + 1)" by (rule mult_nonneg_nonneg) simp_all
  ultimately show "b + int (length new) + int NENV + 1 < 2 ^ 31"
    and "b + int (length new) + int NENV + 1 + int (length sts) * (int NENV + 1) + int (arrivals sts) < 2 ^ 31"
    using assms by (simp_all only: arrivals_simps of_nat_add)
qed

lemma run_ticks_progress:
  assumes "mlfq_ok b (mlfq s)" and "length (concat (levels_of (mlfq s))) + arrivals sts \<le> n" and "n \<le> NENV"
    and "\<forall>st\<in>set sts. admissible i st"
    and "b + int (length sts) * (int NENV + 1) + int (arrivals sts) < 2 ^ 31"
  shows "\<exists>s' rs. run_ticks sts s = Some (s', rs) \<and>
     ((\<exists>x\<in>set (concat (levels_of (mlfq s))). ENVX x = i) \<longrightarrow>
      wait_rank n i (levels_of (mlfq s), total_executions (mlfq s)) < length sts \<longrightarrow> Runs i \<in> set rs)"
  using assms
proof (induction sts arbitrary: s b)
  case (Cons st sts)
  obtain c t new where st: "st = (c, t, new)" by (cases st) auto
  note fit = counters_fit [OF Cons.prems(5) [unfolded st]]
  have pre: "length (concat (levels_of (mlfq s))) + length new \<le> NENV" "admissible i (c, t, new)" using Cons.prems(2-4) by (simp_all add: st)
  obtain u s1 r where s1: "meanwhile t new s = Some u" "sched_yield SCHED_PRIORITIES c u = Some (s1, r)"
    "ticked c u s1 r" "joined s new u" "status u = status t" "cpu_env u = cpu_env t"
    "mlfq_ok (b + int (length new) + int NENV + 1) (mlfq s1)"
    "length (concat (levels_of (mlfq s1))) = length (concat (levels_of (mlfq s))) + length new"
    by (rule tick_ok [OF Cons.prems(1) pre fit(1)]) (rule that)
  have "length (concat (levels_of (mlfq s1))) + arrivals sts \<le> n" "\<forall>st\<in>set sts. admissible i st"
    using Cons.prems(2,4) s1(8) by (simp_all add: st)
  from Cons.IH [OF s1(7) this(1) Cons.prems(3) this(2) fit(2)] obtain s' rs where IH: "run_ticks sts s1 = Some (s', rs)"
    "(\<exists>x\<in>set (concat (levels_of (mlfq s1))). ENVX x = i) \<longrightarrow>
      wait_rank n i (levels_of (mlfq s1), total_executions (mlfq s1)) < length sts \<longrightarrow> Runs i \<in> set rs" by blast
  have run: "run_ticks (st # sts) s = Some (s', r # rs)" using s1(1,2) IH(1) by (simp add: st)
  have "Runs i \<in> set (r # rs)"
    if e: "\<exists>x\<in>set (concat (levels_of (mlfq s))). ENVX x = i"
      and w: "wait_rank n i (levels_of (mlfq s), total_executions (mlfq s)) < length (st # sts)"
  proof -
    have n: "length (concat (levels_of (mlfq u))) \<le> n" using Cons.prems(2) s1(4) by (simp add: st joined_def)
    have e': "\<exists>x\<in>set (concat (levels_of (mlfq u))). ENVX x = i" using e s1(4) unfolding joined_def by blast
    have R: "runnable u x" if "ENVX x = i" for x using that pre(2) s1(5) by (simp add: admissible_def)
    obtain st' ox where y: "spec_yield (runnable u) (levels_of (mlfq u), total_executions (mlfq u)) = (st', ox)"
      by fastforce
    from spec_yield_progress [OF length_levels n e' R y] obtain x where
      x: "ox = Some x" "mset (concat (fst st')) = mset (concat (levels_of (mlfq u)))"
        "ENVX x = i \<or> wait_rank n i st' < wait_rank n i (levels_of (mlfq u), total_executions (mlfq u))"
      by blast
    have t: "(levels_of (mlfq s1), total_executions (mlfq s1)) = st'" "r = Runs (ENVX x)"
      using s1(3) y x(1) by (cases st'; simp add: ticked_def)+
    have "set (concat (levels_of (mlfq s1))) = set (concat (levels_of (mlfq u)))"
      using x(2) t(1) by (metis fst_conv set_mset_mset)
    then show ?thesis using x(3) t IH(2) e' w joined_rank [OF s1(4) n, of i] by auto
  qed
  with run show ?case by blast
qed simp

text \<open>C10. No starvation. An environment that has an entry in some queue and is runnable at every call of the
  scheduler is run by one of 51 calls plus one for every entry there is or comes, on whichever level it is and whatever
  the kernel does between the calls: the other environments run on any processor, block, exit and give their slots to
  new ones, and new environments join the queues. The scheduler itself never leaves its rings or follows a null pointer
  on the way. What is assumed: whatever is marked runnable or running has a page directory; the queues hold at most
  \<open>NENV\<close> entries in all (in a full ring entries get lost, \<open>lost_entry_starves\<close>); their counters are far from
  overflowing; and \<open>sys_env_set_priority\<close> is not called between the calls: it takes an entry out of the middle of
  a ring, and the first one moves back to its place.\<close>

theorem no_starvation:
  assumes "mlfq_ok b (mlfq s)" and "b \<le> 2 ^ 30" and "0 \<le> total_executions (mlfq s)"
    and "\<exists>x\<in>set (concat (levels_of (mlfq s))). ENVX x = i"
    and "\<forall>st\<in>set sts. admissible i st" and "length (concat (levels_of (mlfq s))) + arrivals sts \<le> NENV"
    and "length sts = Suc (50 + length (concat (levels_of (mlfq s))) + arrivals sts)"
  shows "\<exists>s' rs. run_ticks sts s = Some (s', rs) \<and> Runs i \<in> set rs"
proof -
  let ?ls = "levels_of (mlfq s)" and ?tot = "total_executions (mlfq s)"
  let ?n = "length (concat ?ls) + arrivals sts"
  have T: "?n \<le> 1024" using assms(6) by (simp add: NENV_def)
  have "wait_rank ?n i (?ls, ?tot) \<le> 50 + ?n"
  proof (cases "first_index (entry_of i) (?ls ! 0)")
    case None
    then show ?thesis using assms(3) by (simp add: wait_rank_def MAX_MLFQ_EXECUTIONS_def)
  next
    case (Some j)
    have "?ls ! 0 = qlist (q0 (mlfq s))" by (simp add: levels_of_def)
    then have "j < length (concat ?ls)" using first_index_SomeD(1) [OF Some] by (simp add: levels_of_def)
    with Some show ?thesis by (simp add: wait_rank_def)
  qed
  moreover have "int (length sts) * (int NENV + 1) \<le> 1075 * 1025"
    using assms(7) T by (intro mult_mono) (auto simp: NENV_def)
  then have "b + int (length sts) * (int NENV + 1) + int (arrivals sts) < 2 ^ 31" using assms(2) T by simp
  ultimately show ?thesis
    using run_ticks_progress [OF assms(1) order_refl assms(6,5)] assms(4,7) by auto
qed

subsection \<open>A concrete machine\<close>

definition demo_env0 :: env where
  "demo_env0 = \<lparr>env_tf = zero_tf, env_link = None, env_id = 0x1000, env_parent_id = 0, env_type = 0,
     env_status = ENV_RUNNABLE, env_runs = 0, env_cpunum = 0, env_pgdir = Some 5,
     env_pgfault_upcall = 0, env_ipc_recving = False, env_ipc_dstva = 0, env_ipc_value = 0,
     env_ipc_from = 0, env_ipc_perm = 0, current_queue = 2, executions = 0\<rparr>"

text \<open>Environment 0 is runnable and has its entry on level 2; all others are free.\<close>

definition demo_kern :: kern where
  "demo_kern = \<lparr>envs = (\<lambda>_. demo_env0\<lparr>env_id := 0, env_status := ENV_FREE, env_pgdir := None\<rparr>)(0 := demo_env0),
     env_free_list = Some 1, cpu_env = (\<lambda>_. None), cpu_status = (\<lambda>_. CPU_STARTED),
     cpu_cr3 = (\<lambda>_. 1), kernel_locked = True,
     mlfq = initial_mlfq\<lparr>q2 := \<lparr>q_envs = (replicate NENV 0)[0 := 0x1000], q_last = 1, q_beginning = 0\<rparr>\<rparr>,
     sched_runs = 0, vm = demo_mem\<rparr>"

lemma demo_levels: "levels_of (mlfq demo_kern) = [[], [], [0x1000], []]"
  by (simp add: levels_of_def demo_kern_def initial_mlfq_def empty_queue_def qlist_def
      positions_def NENV_def)

lemma demo_status: "status demo_kern i = (if i = 0 then ENV_RUNNABLE else ENV_FREE)"
  by (simp add: status_def demo_kern_def demo_env0_def)

lemma demo_sched_ready: "sched_ready 1 demo_kern"
proof -
  have "mlfq_ok 1 (mlfq demo_kern)"
    by (simp add: mlfq_ok_def demo_kern_def initial_mlfq_def empty_queue_def queue_ok_def NENV_def)
  then show ?thesis by (simp add: sched_ready_def demo_levels NENV_def)
qed

lemma demo_dirs: "dirs_ok demo_kern"
  by (auto simp: dirs_ok_def demo_status) (simp add: demo_kern_def demo_env0_def)

lemma demo_admissible: "admissible 0 (c, demo_kern, [])" "admissible 0 (c, demo_kern, [(0x1003, 1)])"
  by (simp_all add: admissible_def demo_status demo_dirs)

lemma no_starvation_witness:
  "\<exists>s' rs. run_ticks ((1, demo_kern, [(0x1003, 1)]) # replicate 52 (0, demo_kern, [])) demo_kern = Some (s', rs) \<and>
     Runs 0 \<in> set rs"
proof (rule no_starvation)
  let ?sts = "(1, demo_kern, [(0x1003, 1)]) # replicate 52 (0, demo_kern, [])"
  have none: "arrivals (replicate n (0, demo_kern, [])) = 0" for n by (induction n) simp_all
  show "mlfq_ok 1 (mlfq demo_kern)" using demo_sched_ready by (simp add: sched_ready_def)
  show "0 \<le> total_executions (mlfq demo_kern)" by (simp add: demo_kern_def initial_mlfq_def)
  show "\<exists>x\<in>set (concat (levels_of (mlfq demo_kern))). ENVX x = 0"
    by (simp add: demo_levels ENVX_def)
  show "\<forall>st\<in>set ?sts. admissible 0 st"
    using demo_admissible by simp
  show "length ?sts = Suc (50 + length (concat (levels_of (mlfq demo_kern))) + arrivals ?sts)"
    by (simp add: demo_levels none)
  show "length (concat (levels_of (mlfq demo_kern))) + arrivals ?sts \<le> NENV"
    by (simp add: demo_levels none NENV_def)
qed simp

subsection \<open>Entries that get lost\<close>

text \<open>A push to a queue that already holds \<open>NENV\<close> entries overwrites the oldest of them: it now stands
  for the environment just pushed, whose id is in the queue twice.\<close>

theorem push_full_overwrites:
  assumes "get_queue (mlfq s) n = Some q" and "queue_ok q" and "length (qlist q) = NENV"
    and "q_last q + 1 < 2 ^ 31"
  shows "\<exists>s' q'. sched_push_env s eid n = Some s' \<and> get_queue (mlfq s') n = Some q' \<and>
     qlist q' = eid # tl (qlist q) @ [eid]"
proof -
  obtain q' where q': "queue_push q eid = Some q'" "qlist q' = eid # tl (qlist q) @ [eid]"
    using queue_push_full [OF assms(2-4)] by blast
  have "0 \<le> n" using assms(1) by (auto simp: get_queue_def split: if_splits)
  then show ?thesis
    using q' assms(1) by (simp add: sched_push_env_def get_put_queue)
qed

definition full_queue :: mlfq_queue where
  "full_queue = \<lparr>q_envs = replicate NENV 7, q_last = int NENV, q_beginning = 0\<rparr>"

lemma push_full_overwrites_witness:
  "\<exists>s' q'. sched_push_env (demo_kern\<lparr>mlfq := initial_mlfq\<lparr>q1 := full_queue\<rparr>\<rparr>) 9 1 = Some s' \<and>
     get_queue (mlfq s') 1 = Some q' \<and> qlist q' = 9 # tl (qlist full_queue) @ [9]"
proof -
  have "queue_ok full_queue" by (simp add: full_queue_def queue_ok_def)
  moreover from length_qlist [OF this] have "length (qlist full_queue) = NENV"
    by (simp add: full_queue_def)
  ultimately show ?thesis
    using push_full_overwrites [of "demo_kern\<lparr>mlfq := initial_mlfq\<lparr>q1 := full_queue\<rparr>\<rparr>" 1 full_queue 9]
    by (simp add: get_queue_def full_queue_def NENV_def)
qed

lemma chosen_entry:
  assumes "length ls = 4" and "spec_yield R (ls, tot) = (st', Some x)"
  shows "x \<in> set (concat ls)"
proof -
  obtain ls1 tot1 where b: "spec_boost (ls, tot) = (ls1, tot1)" by fastforce
  then have len1: "length ls1 = 4" and ms1: "set (concat ls1) = set (concat ls)"
    using assms(1) by (auto simp: spec_boost_def split: if_splits)
  then obtain n ls' where n: "spec_level R ls1 = Some n" and mv: "spec_move R ls1 n = (ls', x)"
    using assms(2) b by (auto simp: spec_yield_def split: option.splits prod.splits)
  from spec_move_mset(4) [OF len1 n mv] obtain k where k: "first_index R (ls1 ! n) = Some k"
    "x = ls1 ! n ! k" by blast
  have "x \<in> set (ls1 ! n)" using first_index_SomeD(1) [OF k(1)] k(2) by simp
  moreover have "ls1 ! n \<in> set ls1" using spec_level_4 [OF len1 n] len1 by simp
  ultimately show ?thesis using ms1 by auto
qed

lemma chosen_runnable:
  assumes "length ls = 4" and "spec_yield R (ls, tot) = (st', Some x)"
  shows "R x"
proof -
  obtain ls1 tot1 where b: "spec_boost (ls, tot) = (ls1, tot1)" by fastforce
  then have len1: "length ls1 = 4" using assms(1) by (auto simp: spec_boost_def split: if_splits)
  obtain n ls' where "spec_level R ls1 = Some n" "spec_move R ls1 n = (ls', x)"
    using assms(2) b by (auto simp: spec_yield_def split: option.splits prod.splits)
  then show ?thesis by (rule spec_move_mset(3) [OF len1])
qed

lemma tick_avoids:
  assumes t: "ticked c s s' r" and none: "\<forall>x\<in>set (concat (levels_of (mlfq s))). ENVX x \<noteq> i"
    and cur: "cpu_env s c \<noteq> Some i"
  shows "r \<noteq> Runs i \<and> cpu_env s' c \<noteq> Some i \<and>
     (\<forall>x\<in>set (concat (levels_of (mlfq s'))). ENVX x \<noteq> i)"
proof -
  let ?st = "(levels_of (mlfq s), total_executions (mlfq s))"
  obtain st' ox where y: "spec_yield (runnable s) ?st = (st', ox)" by fastforce
  have "set (concat (levels_of (mlfq s'))) = set (concat (levels_of (mlfq s)))"
    using spec_yield_mset [OF length_levels y] ticked_levels [OF t] y by (metis fst_conv set_mset_mset)
  then have "\<forall>x\<in>set (concat (levels_of (mlfq s'))). ENVX x \<noteq> i" using none by simp
  moreover have k: "cpu_env s c = Some k" if "curenv_running c s = Some k" for k
    using that by (auto simp: curenv_running_def split: option.splits if_splits)
  have "r \<noteq> Runs i \<and> cpu_env s' c \<noteq> Some i"
  proof (cases ox)
    case (Some x)
    then have "ENVX x \<noteq> i" using chosen_entry [OF length_levels] y none by blast
    then show ?thesis using t y Some by (cases st') (simp add: ticked_def switched_def)
  next
    case None
    then show ?thesis
      using t y k cur by (cases st'; cases "curenv_running c s") (auto simp: ticked_def switched_def)
  qed
  ultimately show ?thesis by simp
qed

text \<open>An environment that has lost its entries is never run again, however long it stays runnable:
  nothing in the scheduler looks at the environment table itself.\<close>

theorem lost_entry_starves:
  assumes "mlfq_ok b (mlfq s)" and "length (concat (levels_of (mlfq s))) + arrivals sts \<le> NENV"
    and "\<forall>st\<in>set sts. admissible i st"
    and "\<forall>(c, t, new)\<in>set sts. cpu_env t c \<noteq> Some i \<and> (\<forall>x\<in>fst ` set new. ENVX x \<noteq> i)"
    and "b + int (length sts) * (int NENV + 1) + int (arrivals sts) < 2 ^ 31"
    and "\<forall>x\<in>set (concat (levels_of (mlfq s))). ENVX x \<noteq> i"
  shows "\<exists>s' rs. run_ticks sts s = Some (s', rs) \<and> Runs i \<notin> set rs"
  using assms
proof (induction sts arbitrary: s b)
  case (Cons st sts)
  obtain c t new where st: "st = (c, t, new)" by (cases st) auto
  note fit = counters_fit [OF Cons.prems(5) [unfolded st]]
  have pre: "length (concat (levels_of (mlfq s))) + length new \<le> NENV" "admissible i (c, t, new)" using Cons.prems(2,3) by (simp_all add: st)
  obtain u s1 r where s1: "meanwhile t new s = Some u" "sched_yield SCHED_PRIORITIES c u = Some (s1, r)"
    "ticked c u s1 r" "joined s new u" "status u = status t" "cpu_env u = cpu_env t"
    "mlfq_ok (b + int (length new) + int NENV + 1) (mlfq s1)"
    "length (concat (levels_of (mlfq s1))) = length (concat (levels_of (mlfq s))) + length new"
    by (rule tick_ok [OF Cons.prems(1) pre fit(1)]) (rule that)
  have "\<forall>x\<in>set (concat (levels_of (mlfq u))). ENVX x \<noteq> i" "cpu_env u c \<noteq> Some i"
    using s1(4,6) Cons.prems(4,6) by (auto simp: joined_def st)
  from tick_avoids [OF s1(3) this] have av: "r \<noteq> Runs i" "\<forall>x\<in>set (concat (levels_of (mlfq s1))). ENVX x \<noteq> i" by simp_all
  have "length (concat (levels_of (mlfq s1))) + arrivals sts \<le> NENV" "\<forall>st\<in>set sts. admissible i st"
    "\<forall>(c, t, new)\<in>set sts. cpu_env t c \<noteq> Some i \<and> (\<forall>x\<in>fst ` set new. ENVX x \<noteq> i)"
    using Cons.prems(2-4) s1(8) by (simp_all add: st)
  from Cons.IH [OF s1(7) this fit(2) av(2)] obtain s' rs where "run_ticks sts s1 = Some (s', rs)" "Runs i \<notin> set rs" by blast
  with s1(1,2) av(1) show ?case by (auto simp: st)
qed simp

lemma lost_entry_starves_witness:
  "\<exists>s' rs. run_ticks (replicate 200 (0, demo_kern, [])) (demo_kern\<lparr>mlfq := initial_mlfq\<rparr>) = Some (s', rs) \<and>
     Runs 0 \<notin> set rs"
proof (rule lost_entry_starves)
  have levels: "levels_of initial_mlfq = [[], [], [], []]"
    by (simp add: levels_of_def initial_mlfq_def empty_queue_def qlist_def positions_def)
  have none: "arrivals (replicate n (0, demo_kern, [])) = 0" for n by (induction n) simp_all
  show "mlfq_ok 1 (mlfq (demo_kern\<lparr>mlfq := initial_mlfq\<rparr>))"
    by (simp add: mlfq_ok_def initial_mlfq_def empty_queue_def queue_ok_def)
  show "length (concat (levels_of (mlfq (demo_kern\<lparr>mlfq := initial_mlfq\<rparr>)))) +
      arrivals (replicate 200 (0, demo_kern, [])) \<le> NENV"
    by (simp add: levels none)
  show "\<forall>st\<in>set (replicate 200 (0, demo_kern, [])). admissible 0 st" using demo_admissible(1) by simp
  show "\<forall>x\<in>set (concat (levels_of (mlfq (demo_kern\<lparr>mlfq := initial_mlfq\<rparr>)))). ENVX x \<noteq> 0"
    by (simp add: levels)
  show "1 + int (length (replicate 200 (0, demo_kern, []))) * (int NENV + 1) +
      int (arrivals (replicate 200 (0, demo_kern, []))) < 2 ^ 31"
    by (simp add: none NENV_def)
qed (simp add: demo_kern_def)

subsection \<open>Round robin\<close>

lemma rr_loop_first:
  "rr_loop c start is s =
     (case first_index (\<lambda>i. status s ((start + i) mod NENV) = ENV_RUNNABLE) is of
        None \<Rightarrow> Some (s, None)
      | Some k \<Rightarrow> map_option (\<lambda>(s, r). (s, Some r))
          (let e = (start + is ! k) mod NENV in env_run c (count_execution e s) e))"
proof (induction "is")
  case Nil
  then show ?case by (simp add: first_index_def)
next
  case (Cons i "is")
  let ?P = "\<lambda>i. status s ((start + i) mod NENV) = ENV_RUNNABLE"
  show ?case
  proof (cases "?P i")
    case True
    then have "first_index ?P (i # is) = Some 0" by (intro first_indexI) simp_all
    with True show ?thesis by (simp add: Let_def)
  next
    case False
    have "first_index ?P (i # is) = map_option Suc (first_index ?P is)"
    proof (cases "first_index ?P is")
      case None
      then have "first_index ?P (i # is) = None" using False by (simp only: first_index_None) simp
      with None show ?thesis by simp
    next
      case (Some k)
      from first_index_SomeD [OF this] False have "first_index ?P (i # is) = Some (Suc k)"
        by (intro first_indexI) (auto simp: nth_Cons split: nat.splits)
      with Some show ?thesis by simp
    qed
    with False Cons show ?thesis by (auto split: option.splits)
  qed
qed

lemma round_robin_ok:
  assumes "dirs_ok s"
    and "start = (case cpu_env s c of Some k \<Rightarrow> ENVX (env_id (envs s k)) + 1 | None \<Rightarrow> 0)"
  shows "\<exists>s' r. sched_yield SCHED_ROUND_ROBIN c s = Some (s', r) \<and>
     (case first_index (\<lambda>i. status s ((start + i) mod NENV) = ENV_RUNNABLE) [0..<NENV] of
        Some k \<Rightarrow> r = Runs ((start + k) mod NENV) \<and> switched c s s' ((start + k) mod NENV)
      | None \<Rightarrow> (case curenv_running c s of
          Some k \<Rightarrow> r = Runs k \<and> switched c s s' k
        | None \<Rightarrow> r \<in> {Halts, Monitors} \<and> status s' = status s \<and>
            cpu_env s' \<in> {cpu_env s, (cpu_env s)(c := None)}))"
proof -
  let ?s = "s\<lparr>sched_runs := sched_runs s + 1\<rparr>"
  let ?P = "\<lambda>i. status s ((start + i) mod NENV) = ENV_RUNNABLE"
  have st: "status ?s = status s" "curenv_running c ?s = curenv_running c s"
    by (auto simp: status_def fun_eq_iff curenv_running_def split: option.splits)
  have run: "\<exists>s'. env_run c (count_execution e ?s) e = Some (s', Runs e) \<and> switched c s s' e"
    if "env_pgdir (envs s e) \<noteq> None" for e
  proof -
    from that obtain p where "env_pgdir (envs (count_execution e ?s) e) = Some p" by auto
    then obtain s' where "env_run c (count_execution e ?s) e = Some (s', Runs e)"
      "vm s' = vm (count_execution e ?s)" "cpu_env s' = (cpu_env (count_execution e ?s))(c := Some e)"
      "\<And>i. status s' i = (if i = e then ENV_RUNNING
         else if curenv_running c (count_execution e ?s) = Some i then ENV_RUNNABLE
         else status (count_execution e ?s) i)"
      "\<And>i. env_pgdir (envs s' i) = env_pgdir (envs (count_execution e ?s) i)"
      "\<And>i. env_id (envs s' i) = env_id (envs (count_execution e ?s) i)"
      by (rule env_run_ok) blast
    then show ?thesis using st by (simp add: switched_def)
  qed
  have rr: "round_robin c ?s = do {
      (s, r) \<leftarrow> rr_loop c start [0..<NENV] ?s;
      case r of Some r \<Rightarrow> Some (s, Some r)
      | None \<Rightarrow> (case curenv_running c s of
          Some k \<Rightarrow> map_option (\<lambda>(s, r). (s, Some r)) (env_run c (count_execution k s) k)
        | None \<Rightarrow> Some (s, None)) }"
    using assms(2) by (cases "cpu_env s c") (simp_all add: round_robin_def)
  show ?thesis
  proof (cases "first_index ?P [0..<NENV]")
    case (Some k)
    let ?e = "(start + k) mod NENV"
    from first_index_SomeD(1,2) [OF Some] have "status s ?e = ENV_RUNNABLE" "[0..<NENV] ! k = k" by simp_all
    moreover from this run [of ?e] assms(1) obtain s' where
      "env_run c (count_execution ?e ?s) ?e = Some (s', Runs ?e)" "switched c s s' ?e"
      by (auto simp: dirs_ok_def)
    ultimately show ?thesis
      using Some by (simp add: sched_yield_def rr rr_loop_first st)
  next
    case None
    show ?thesis
    proof (cases "curenv_running c s")
      case cur: (Some k)
      then have "status s k = ENV_RUNNING" by (auto simp: curenv_running_def split: option.splits if_splits)
      with run [of k] assms(1) obtain s' where
        "env_run c (count_execution k ?s) k = Some (s', Runs k)" "switched c s s' k"
        by (auto simp: dirs_ok_def)
      then show ?thesis using None cur st by (simp add: sched_yield_def rr rr_loop_first)
    next
      case cur: None
      obtain s' r where h: "sched_halt c ?s = (s', r)" by fastforce
      then show ?thesis
        using None cur st sched_halt_sel [OF h] by (simp add: sched_yield_def rr rr_loop_first)
    qed
  qed
qed

text \<open>C12. Round robin runs the first runnable environment in circular order after the current one; when
  there is none it lets the current one go on if it is still running, and otherwise halts.\<close>

theorem round_robin_next:
  assumes "dirs_ok s"
    and "start = (case cpu_env s c of Some k \<Rightarrow> ENVX (env_id (envs s k)) + 1 | None \<Rightarrow> 0)"
  shows "\<exists>s' r. sched_yield SCHED_ROUND_ROBIN c s = Some (s', r) \<and>
     (case first_index (\<lambda>i. status s ((start + i) mod NENV) = ENV_RUNNABLE) [0..<NENV] of
        Some k \<Rightarrow> r = Runs ((start + k) mod NENV) \<and> switched c s s' ((start + k) mod NENV)
      | None \<Rightarrow> (case curenv_running c s of
          Some k \<Rightarrow> r = Runs k \<and> switched c s s' k
        | None \<Rightarrow> r \<in> {Halts, Monitors} \<and> status s' = status s))"
  using round_robin_ok [OF assms] by (auto split: option.splits)

lemma round_robin_next_witness:
  "\<exists>s' r. sched_yield SCHED_ROUND_ROBIN 0 demo_kern = Some (s', r) \<and> r = Runs 0"
proof -
  have "first_index (\<lambda>i. status demo_kern ((0 + i) mod NENV) = ENV_RUNNABLE) [0..<NENV] = Some 0"
    by (rule first_indexI) (simp_all add: demo_status)
  moreover have "cpu_env demo_kern 0 = None" by (simp add: demo_kern_def)
  ultimately show ?thesis using round_robin_next [OF demo_dirs, of 0 0] by auto
qed

subsection \<open>One processor per environment\<close>

text \<open>
  The processors other than \<open>c\<close> are executing their environments, so those are running or
  were told to die; no two processors have the same environment.
\<close>

definition cpus_ok :: "nat \<Rightarrow> kern \<Rightarrow> bool" where
  "cpus_ok c s \<longleftrightarrow>
     (\<forall>c' i. c' \<noteq> c \<longrightarrow> cpu_env s c' = Some i \<longrightarrow> status s i = ENV_RUNNING \<or> status s i = ENV_DYING) \<and>
     (\<forall>c1 c2 i. cpu_env s c1 = Some i \<longrightarrow> cpu_env s c2 = Some i \<longrightarrow> c1 = c2)"

text \<open>What a call leaves: the processor has an environment that no other has, or none.\<close>

definition exclusive :: "nat \<Rightarrow> kern \<Rightarrow> kern \<Rightarrow> outcome \<Rightarrow> bool" where
  "exclusive c s s' r \<longleftrightarrow> cpus_ok c s' \<and>
     (\<forall>e. r = Runs e \<longrightarrow> cpu_env s' c = Some e \<and> status s' e = ENV_RUNNING \<and>
        (\<forall>c'. c' \<noteq> c \<longrightarrow> cpu_env s' c' \<noteq> Some e)) \<and>
     (\<forall>c'. c' \<noteq> c \<longrightarrow> cpu_env s' c' = cpu_env s c')"

lemma switched_exclusive:
  assumes sw: "switched c s s' e" and ok: "cpus_ok c s"
    and e: "status s e = ENV_RUNNABLE \<or> curenv_running c s = Some e"
  shows "exclusive c s s' (Runs e)"
proof -
  have cur: "cpu_env s c = Some k" if "curenv_running c s = Some k" for k
    using that by (auto simp: curenv_running_def split: option.splits if_splits)
  have other: "cpu_env s c' \<noteq> Some e" if "c' \<noteq> c" for c'
    using that ok e cur [of e] by (auto simp: cpus_ok_def)
  have away: "curenv_running c s \<noteq> Some i" if "c' \<noteq> c" "cpu_env s c' = Some i" for c' i
    using that ok cur [of i] by (auto simp: cpus_ok_def)
  show ?thesis
    using sw ok other away unfolding exclusive_def cpus_ok_def switched_def by (auto split: if_splits)
qed

lemma stays_exclusive:
  "cpus_ok c s \<Longrightarrow> status s' = status s \<Longrightarrow>
     cpu_env s' \<in> {cpu_env s, (cpu_env s)(c := None)} \<Longrightarrow> r \<in> {Halts, Monitors} \<Longrightarrow> exclusive c s s' r"
  unfolding exclusive_def by (auto simp: cpus_ok_def split: if_splits)

lemma priorities_exclusive:
  assumes "sched_ready b s" and "b + int NENV + 1 < 2 ^ 31" and "dirs_ok s" and "cpus_ok c s"
  shows "\<exists>s' r. sched_yield SCHED_PRIORITIES c s = Some (s', r) \<and> exclusive c s s' r"
proof -
  have "mlfq_ok b (mlfq s)" "length (concat (levels_of (mlfq s))) \<le> NENV"
    using assms(1) by (simp_all add: sched_ready_def)
  from this assms(2,3) obtain s' r where s': "sched_yield SCHED_PRIORITIES c s = Some (s', r)"
    "ticked c s s' r"
    by (rule sched_yield_refines [of b s c]) blast
  obtain st' ox where y: "spec_yield (runnable s) (levels_of (mlfq s), total_executions (mlfq s)) = (st', ox)"
    by fastforce
  show ?thesis
  proof (cases ox)
    case (Some x)
    then have sw: "switched c s s' (ENVX x)" "r = Runs (ENVX x)"
      using s'(2) y by (cases st'; simp add: ticked_def)+
    have "runnable s x" using chosen_runnable [OF length_levels y [unfolded Some]] .
    with switched_exclusive [OF sw(1) assms(4)] sw s'(1) show ?thesis by simp
  next
    case None
    show ?thesis
    proof (cases "curenv_running c s")
      case cur: None
      then have "status s' = status s" "cpu_env s' \<in> {cpu_env s, (cpu_env s)(c := None)}"
        "r \<in> {Halts, Monitors}"
        using s'(2) y None by (cases st'; auto simp: ticked_def)+
      with stays_exclusive [OF assms(4)] s'(1) show ?thesis by auto
    next
      case cur: (Some k)
      then have sw: "switched c s s' k" "r = Runs k"
        using s'(2) y None by (cases st'; simp add: ticked_def)+
      with switched_exclusive [OF sw(1) assms(4)] cur s'(1) show ?thesis by simp
    qed
  qed
qed

lemma round_robin_exclusive:
  assumes "dirs_ok s" and "cpus_ok c s"
  shows "\<exists>s' r. sched_yield SCHED_ROUND_ROBIN c s = Some (s', r) \<and> exclusive c s s' r"
proof -
  let ?start = "case cpu_env s c of Some k \<Rightarrow> ENVX (env_id (envs s k)) + 1 | None \<Rightarrow> 0"
  let ?P = "\<lambda>i. status s ((?start + i) mod NENV) = ENV_RUNNABLE"
  from round_robin_ok [OF assms(1) refl] obtain s' r where s': "sched_yield SCHED_ROUND_ROBIN c s = Some (s', r)"
    "case first_index ?P [0..<NENV] of
        Some k \<Rightarrow> r = Runs ((?start + k) mod NENV) \<and> switched c s s' ((?start + k) mod NENV)
      | None \<Rightarrow> (case curenv_running c s of
          Some k \<Rightarrow> r = Runs k \<and> switched c s s' k
        | None \<Rightarrow> r \<in> {Halts, Monitors} \<and> status s' = status s \<and>
            cpu_env s' \<in> {cpu_env s, (cpu_env s)(c := None)})" by blast
  show ?thesis
  proof (cases "first_index ?P [0..<NENV]")
    case (Some k)
    from first_index_SomeD(1,2) [OF Some] have "status s ((?start + k) mod NENV) = ENV_RUNNABLE" by simp
    with switched_exclusive [OF _ assms(2)] s' Some show ?thesis by simp
  next
    case None
    show ?thesis
    proof (cases "curenv_running c s")
      case cur: None
      with stays_exclusive [OF assms(2)] s' None show ?thesis by auto
    next
      case cur: (Some k)
      with switched_exclusive [OF _ assms(2)] s' None show ?thesis by simp
    qed
  qed
qed

text \<open>C11. A processor that calls the scheduler, under the kernel lock and with either of the two policies,
  never gets an environment that another processor executes: it leaves the others with theirs, takes a runnable
  environment, goes on with its own or halts, and the invariant holds again. The invariant \<open>cpus_ok\<close> is a premise:
  what the other processors execute is marked running or dying, and no two of them have the same environment. The
  scheduler keeps it; a refused \<open>sys_ipc_recv\<close> (\<open>refused_recv_accepts_message\<close>) breaks it, since a message
  then marks an executing environment runnable.\<close>

theorem one_cpu_per_env:
  assumes "sched_ready b s" and "b + int NENV + 1 < 2 ^ 31" and "dirs_ok s" and "cpus_ok c s"
  shows "\<exists>s' r. sched_yield cfg c s = Some (s', r) \<and> cpus_ok c s' \<and>
     (\<forall>e. r = Runs e \<longrightarrow> cpu_env s' c = Some e \<and> status s' e = ENV_RUNNING \<and>
        (\<forall>c'. c' \<noteq> c \<longrightarrow> cpu_env s' c' \<noteq> Some e)) \<and>
     (\<forall>c'. c' \<noteq> c \<longrightarrow> cpu_env s' c' = cpu_env s c')"
proof -
  have "\<exists>s' r. sched_yield cfg c s = Some (s', r) \<and> exclusive c s s' r"
    using priorities_exclusive [OF assms] round_robin_exclusive [OF assms(3,4)] by (cases cfg) simp_all
  then show ?thesis by (simp only: exclusive_def)
qed

lemma one_cpu_per_env_witness:
  "(\<exists>s' r. sched_yield SCHED_PRIORITIES 0 demo_kern = Some (s', r) \<and> cpus_ok 0 s') \<and>
   (\<exists>s' r. sched_yield SCHED_ROUND_ROBIN 0 demo_kern = Some (s', r) \<and> cpus_ok 0 s')"
proof -
  have "cpus_ok 0 demo_kern" by (simp add: cpus_ok_def demo_kern_def)
  then show ?thesis
    using one_cpu_per_env [OF demo_sched_ready _ demo_dirs] by (simp add: NENV_def) blast
qed

end
