(* ===== verification/EnvTable.thy ===== *)
theory EnvTable
  imports SchedProps
begin

unbundle bit_operations_syntax

text \<open>
  The environment table (\<open>sched/kern/env.c\<close>): looking up ids, allocating and freeing
  environments with their address spaces, destroying them. The segment registers and the
  descriptor table that \<open>env_init_percpu\<close> loads are not modelled; the loading of
  programs, \<open>load_icode\<close>, is in \<open>ElfLoad\<close>. \<open>None\<close> is a panic or undefined behaviour.
\<close>

definition ENVGENSHIFT :: nat where "ENVGENSHIFT = 12"
definition GD_UT :: w16 where "GD_UT = 0x18"
definition GD_UD :: w16 where "GD_UD = 0x20"
definition FL_IF :: w32 where "FL_IF = 0x200"
definition FL_IOPL_MASK :: w32 where "FL_IOPL_MASK = 0x3000"

text \<open>
  \<open>envid2env\<close>: the result code and the environment stored. With \<open>checkperm\<close> the current
  environment is dereferenced.
\<close>

definition envid2env :: "nat \<Rightarrow> kern \<Rightarrow> w32 \<Rightarrow> bool \<Rightarrow> (int \<times> nat option) option" where
  "envid2env c s envid checkperm =
     (if envid = 0 then Some (0, cpu_env s c)
      else let e = ENVX envid in
        if status s e = ENV_FREE \<or> env_id (envs s e) \<noteq> envid then Some (- E_BAD_ENV, None)
        else if checkperm \<and> Some e \<noteq> cpu_env s c then do {
          k \<leftarrow> cpu_env s c;
          if env_parent_id (envs s e) \<noteq> env_id (envs s k) then Some (- E_BAD_ENV, None)
          else Some (0, Some e)
        } else Some (0, Some e))"

definition env_init :: "kern \<Rightarrow> kern" where
  "env_init s = s\<lparr>envs := (\<lambda>i. if i < NENV then (envs s i)\<lparr>env_id := 0, env_status := ENV_FREE,
       env_link := (if i + 1 < NENV then Some (i + 1) else None)\<rparr> else envs s i),
     env_free_list := Some 0\<rparr>"

subsection \<open>Address spaces\<close>

definition env_setup_vm :: "kern \<Rightarrow> nat \<Rightarrow> kern \<times> int" where
  "env_setup_vm s e =
     (case page_alloc (vm s) True of
        (m, None) \<Rightarrow> (s\<lparr>vm := m\<rparr>, - E_NO_MEM)
      | (m, Some p) \<Rightarrow>
          (let m = m\<lparr>phys := (phys m)(p := phys m (kern_pgdir m))\<rparr>;
               m = m\<lparr>pp_ref := (pp_ref m)(p := pp_ref m p + 1)\<rparr>;
               m = store_word m p (PDX UVPT) (page2pa p OR PTE_P OR PTE_U)
           in (upd_env e (\<lambda>e. e\<lparr>env_pgdir := Some p\<rparr>) (s\<lparr>vm := m\<rparr>), 0)))"

fun region_alloc_loop :: "nat list \<Rightarrow> nat \<Rightarrow> pmem \<Rightarrow> pmem option" where
  "region_alloc_loop [] pgdir m = Some m"
| "region_alloc_loop (k # ks) pgdir m =
     (case page_alloc m False of
        (m, None) \<Rightarrow> None
      | (m, Some p) \<Rightarrow> do {
          (m, r) \<leftarrow> page_insert m pgdir p (push_bit 12 (word_of_nat k)) (PTE_U OR PTE_W);
          if r \<noteq> 0 then None else region_alloc_loop ks pgdir m
        })"

definition region_alloc :: "kern \<Rightarrow> nat \<Rightarrow> w32 \<Rightarrow> w32 \<Rightarrow> kern option" where
  "region_alloc s e va len = do {
     let va_lo = ROUNDDOWN va PGSIZE;
     let va_hi = ROUNDUP (va + len) PGSIZE;
     if va_hi > UTOP then None
     else do {
       pgdir \<leftarrow> env_pgdir (envs s e);
       m \<leftarrow> region_alloc_loop [PGNUM va_lo..<PGNUM va_hi] pgdir (vm s);
       Some (s\<lparr>vm := m\<rparr>)
     }
   }"

subsection \<open>Allocation\<close>

definition user_tf :: trapframe where
  "user_tf = zero_tf\<lparr>tf_ds := GD_UD OR 3, tf_es := GD_UD OR 3, tf_ss := GD_UD OR 3,
     tf_esp := USTACKTOP, tf_cs := GD_UT OR 3, tf_eflags := FL_IF\<rparr>"

text \<open>The id of a slot's next environment: the sum is compared as a signed number.\<close>

definition next_env_id :: "w32 \<Rightarrow> nat \<Rightarrow> w32" where
  "next_env_id old e =
     (let generation = (old + push_bit ENVGENSHIFT 1) AND NOT 0x3FF;
          generation = (if sint generation \<le> 0 then push_bit ENVGENSHIFT 1 else generation)
      in generation OR word_of_nat e)"

text \<open>The allocation is committed by taking the slot off the front of the free list.\<close>

definition env_take :: "kern \<Rightarrow> nat \<Rightarrow> kern" where
  "env_take s e = s\<lparr>env_free_list := env_link (envs s e)\<rparr>"

definition env_alloc :: "nat \<Rightarrow> kern \<Rightarrow> w32 \<Rightarrow> (kern \<times> int \<times> nat option) option" where
  "env_alloc c s parent_id =
     (case env_free_list s of
        None \<Rightarrow> Some (s, - E_NO_FREE_ENV, None)
      | Some e \<Rightarrow>
          (case env_setup_vm s e of (s, r) \<Rightarrow>
             if r < 0 then Some (s, r, None)
             else do {
               let s = upd_env e (\<lambda>x. x\<lparr>env_id := next_env_id (env_id x) e, env_parent_id := parent_id,
                         env_type := 0, env_status := ENV_RUNNABLE, env_runs := 0,
                         env_tf := user_tf, env_pgfault_upcall := 0, env_ipc_recving := False\<rparr>) s;
               let s = env_take s e;
               let s = upd_env e (\<lambda>x. x\<lparr>executions := 0\<rparr>) s;
               (_, parent) \<leftarrow> envid2env c s parent_id False;
               s \<leftarrow> sched_push_env s (env_id (envs s e))
                      (case parent of None \<Rightarrow> 0 | Some p \<Rightarrow> current_queue (envs s p));
               Some (s, 0, Some e)
             }))"

subsection \<open>Freeing\<close>

text \<open>The page tables of the user part, each entry of a present table removed in turn.\<close>

fun free_entries :: "nat list \<Rightarrow> nat \<Rightarrow> nat \<Rightarrow> nat \<Rightarrow> pmem \<Rightarrow> pmem option" where
  "free_entries [] pgdir d t m = Some m"
| "free_entries (i # is) pgdir d t m =
     (if phys m t i AND PTE_P \<noteq> 0 then do {
        m \<leftarrow> page_remove m pgdir (PGADDR d i 0);
        free_entries is pgdir d t m
      } else free_entries is pgdir d t m)"

fun free_tables :: "nat list \<Rightarrow> nat \<Rightarrow> pmem \<Rightarrow> pmem option" where
  "free_tables [] pgdir m = Some m"
| "free_tables (d # ds) pgdir m =
     (if phys m pgdir d AND PTE_P = 0 then free_tables ds pgdir m
      else do {
        t \<leftarrow> pa2page m (PTE_ADDR (phys m pgdir d));
        m \<leftarrow> free_entries [0..<1024] pgdir d t m;
        let m = store_word m pgdir d 0;
        m \<leftarrow> page_decref m t;
        free_tables ds pgdir m
      })"

definition env_give :: "kern \<Rightarrow> nat \<Rightarrow> kern" where
  "env_give s e = (upd_env e (\<lambda>x. x\<lparr>env_status := ENV_FREE, env_link := env_free_list s\<rparr>) s)
     \<lparr>env_free_list := Some e\<rparr>"

definition env_free :: "nat \<Rightarrow> kern \<Rightarrow> nat \<Rightarrow> kern option" where
  "env_free c s e = do {
     let s = (if cpu_env s c = Some e then s\<lparr>cpu_cr3 := (cpu_cr3 s)(c := kern_pgdir (vm s))\<rparr> else s);
     pgdir \<leftarrow> env_pgdir (envs s e);
     m \<leftarrow> free_tables [0..<PDX UTOP] pgdir (vm s);
     let s = upd_env e (\<lambda>x. x\<lparr>env_pgdir := None\<rparr>) s;
     m \<leftarrow> page_decref m pgdir;
     Some (env_give (s\<lparr>vm := m\<rparr>) e)
   }"

text \<open>Destroying the current environment ends in the scheduler; otherwise the call returns.\<close>

definition env_destroy :: "scheduler \<Rightarrow> nat \<Rightarrow> kern \<Rightarrow> nat \<Rightarrow> (kern \<times> outcome option) option" where
  "env_destroy cfg c s e =
     (if status s e = ENV_RUNNING \<and> cpu_env s c \<noteq> Some e
      then Some (upd_env e (set_status ENV_DYING) s, None)
      else do {
        s \<leftarrow> env_free c s e;
        if cpu_env s c = Some e then do {
          let s = s\<lparr>cpu_env := (cpu_env s)(c := None)\<rparr>;
          (s, r) \<leftarrow> sched_yield cfg c s;
          Some (s, Some r)
        } else Some (s, None)
      })"

text \<open>\<open>user_mem_assert\<close> of \<open>kern/pmap.c\<close>: an environment with a bad address is destroyed.\<close>

definition user_mem_assert ::
  "scheduler \<Rightarrow> nat \<Rightarrow> kern \<Rightarrow> nat \<Rightarrow> w32 \<Rightarrow> w32 \<Rightarrow> w32 \<Rightarrow> (kern \<times> outcome option) option" where
  "user_mem_assert cfg c s e va len perm = do {
     pgdir \<leftarrow> env_pgdir (envs s e);
     (r, _) \<leftarrow> user_mem_check (vm s) pgdir va len (perm OR PTE_U);
     if r < 0 then env_destroy cfg c s e else Some (s, None)
   }"

end
