(* ===== verification/EnvProps.thy ===== *)
theory EnvProps
  imports EnvTable
begin

unbundle bit_operations_syntax

text \<open>
  The properties of the environment table: ids of past environments are refused, the slots
  that are free are the ones in the free list, and freeing an environment gives back its page
  directory, its page tables and the references of its mappings, but not its queue entry.
\<close>

subsection \<open>The list of free slots\<close>

definition env_list_inv :: "kern \<Rightarrow> bool" where
  "env_list_inv s \<longleftrightarrow> free_chain (\<lambda>i. env_link (envs s i)) (env_free_list s) NENV"

definition free_envs :: "kern \<Rightarrow> nat list" where
  "free_envs s = walk (\<lambda>i. env_link (envs s i)) NENV (env_free_list s)"

definition take_slot :: "kern \<Rightarrow> kern \<times> nat option" where
  "take_slot s = (case env_free_list s of None \<Rightarrow> (s, None) | Some e \<Rightarrow> (env_take s e, Some e))"

lemma env_give_sel [simp]:
  "env_free_list (env_give s e) = Some e"
  "(\<lambda>i. env_link (envs (env_give s e) i)) = (\<lambda>i. env_link (envs s i))(e := env_free_list s)"
  by (auto simp: env_give_def upd_env_def)

lemma env_take_sel [simp]:
  "env_free_list (env_take s e) = env_link (envs s e)" "envs (env_take s e) = envs s"
  "vm (env_take s e) = vm s" "mlfq (env_take s e) = mlfq s" "cpu_env (env_take s e) = cpu_env s"
  by (simp_all add: env_take_def)

lemma free_envs_take:
  assumes "env_list_inv s" and "free_envs s = e # es"
  shows "env_free_list s = Some e" and "env_list_inv (env_take s e)" and "free_envs (env_take s e) = es"
proof -
  from free_chainD [OF assms(1) [unfolded env_list_inv_def]] assms(2)
  have c: "chain (\<lambda>i. env_link (envs s i)) (env_free_list s) (e # es)" "distinct es" "\<forall>q\<in>set es. q < NENV"
    by (simp_all add: free_envs_def)
  then show "env_free_list s = Some e" by simp
  from c have "chain (\<lambda>i. env_link (envs s i)) (env_link (envs s e)) es" by simp
  from free_chainI [OF this c(2,3)] show "env_list_inv (env_take s e)" "free_envs (env_take s e) = es"
    by (simp_all add: env_list_inv_def free_envs_def)
qed

interpretation env_slots: free_list env_list_inv free_envs take_slot "\<lambda>s e. e < NENV"
  "\<lambda>s e. Some (env_give s e)"
proof
  fix s
  show "env_list_inv s \<Longrightarrow> distinct (free_envs s)"
    by (simp add: env_list_inv_def free_envs_def free_chainD)
  show "env_list_inv s \<Longrightarrow> free_envs s = p # ps \<Longrightarrow>
      \<exists>s'. take_slot s = (s', Some p) \<and> env_list_inv s' \<and> free_envs s' = ps" for p ps
    using free_envs_take [of s p ps] by (simp add: take_slot_def)
  show "env_list_inv s \<Longrightarrow> free_envs s = [] \<Longrightarrow> take_slot s = (s, None)"
    using free_chain_empty [of "\<lambda>i. env_link (envs s i)" "env_free_list s" NENV]
    by (simp add: take_slot_def env_list_inv_def free_envs_def)
  show "env_list_inv s \<Longrightarrow> p < NENV \<Longrightarrow> p \<notin> set (free_envs s) \<Longrightarrow>
      \<exists>s'. Some (env_give s p) = Some s' \<and> env_list_inv s' \<and> free_envs s' = p # free_envs s" for p
    using free_chain_push [of "\<lambda>i. env_link (envs s i)" "env_free_list s" NENV p]
    by (simp add: env_list_inv_def free_envs_def)
qed

text \<open>\<open>env_init\<close> links all the slots in order.\<close>

lemma chain_upt:
  assumes "\<And>i. k \<le> i \<Longrightarrow> i < n \<Longrightarrow> f i = (if i + 1 < n then Some (i + 1) else None)" and "k < n"
  shows "chain f (Some k) [k..<n]"
  using assms
proof (induction "n - k" arbitrary: k)
  case (Suc m)
  have "[k..<n] = k # [Suc k..<n]" using Suc.prems by (simp add: upt_conv_Cons)
  then show ?case using Suc.prems(1) [of k] Suc by (cases "Suc k < n") auto
qed simp

lemma env_init_list: "env_list_inv (env_init s)" "free_envs (env_init s) = [0..<NENV]"
proof -
  have "chain (\<lambda>i. env_link (envs (env_init s) i)) (Some 0) [0..<NENV]"
    by (rule chain_upt) (simp_all add: env_init_def NENV_def)
  from free_chainI [OF this] show "env_list_inv (env_init s)" "free_envs (env_init s) = [0..<NENV]"
    by (auto simp: env_list_inv_def free_envs_def env_init_def)
qed

subsection \<open>Ids\<close>

lemma ENVX_bits: "ENVX x = unat (x AND mask 10)"
  by (simp add: ENVX_def mask_10)

lemma slot_mask: "e < NENV \<Longrightarrow> (word_of_nat e :: w32) AND mask 10 = word_of_nat e"
  by (simp add: NENV_def take_bit_eq_mask [symmetric] take_bit_of_nat take_bit_nat_eq_self)

lemma ENVX_generation:
  assumes "e < NENV"
  shows "ENVX (g AND NOT (mask 10) OR word_of_nat e) = e"
proof -
  have "(g AND NOT (mask 10) OR word_of_nat e) AND mask 10 = word_of_nat e AND mask 10"
    by (rule bit_word_eqI) (auto simp: bit_simps)
  then show ?thesis using assms by (simp add: ENVX_bits slot_mask unat_of_nat NENV_def)
qed

lemma next_env_id_form:
  assumes "e < NENV"
  obtains g where "next_env_id old e = g AND NOT (mask 10) OR word_of_nat e"
    and "g AND NOT (mask 10) = g" and "0 < sint g"
    and "g = (old + 0x1000) AND NOT (mask 10) \<or> g = 0x1000 \<and> sint ((old + 0x1000) AND NOT (mask 10)) \<le> 0"
proof -
  have g0: "(0x1000 :: w32) AND NOT (mask 10) = 0x1000" by (simp add: mask_10 [symmetric])
  define g where "g = (let g = (old + 0x1000) AND NOT (mask 10) in if sint g \<le> 0 then 0x1000 else g)"
  have "next_env_id old e = g OR word_of_nat e"
    by (simp add: next_env_id_def g_def ENVGENSHIFT_def mask_10 Let_def push_bit_eq_mult)
  moreover have m: "g AND NOT (mask 10) = g"
    using g0 by (simp add: g_def Let_def and.assoc)
  moreover have "0 < sint g" by (simp add: g_def Let_def)
  moreover have "g = (old + 0x1000) AND NOT (mask 10) \<or> g = 0x1000 \<and> sint ((old + 0x1000) AND NOT (mask 10)) \<le> 0"
    by (simp add: g_def Let_def)
  ultimately show thesis using that by metis
qed

lemma unat_positive: "\<not> bit (x :: w32) 31 \<Longrightarrow> unat x < 2 ^ 31"
proof -
  assume "\<not> bit x 31"
  then have "take_bit 31 x = x"
    by (intro bit_word_eqI) (auto simp: bit_simps less_Suc_eq numeral_eq_Suc)
  then have "take_bit 31 (unat x) = unat x" by (metis unsigned_take_bit_eq)
  then show ?thesis by (simp add: take_bit_nat_eq_self_iff)
qed

lemma drop_bit_not_mask: "drop_bit n (x AND NOT (mask n)) = drop_bit n (x :: w32)"
  by (rule bit_word_eqI) (auto simp: bit_simps dest: bit_imp_le_length)

lemma not_mask_drop: "(x :: w32) AND NOT (mask n) = push_bit n (drop_bit n x)"
  by (rule bit_word_eqI) (auto simp: bit_simps dest: bit_imp_le_length)

lemma generation_step:
  assumes "unat (old + 0x1000 :: w32) = unat old + 4096"
  shows "drop_bit 10 (old + 0x1000) = (drop_bit 10 old + 4 :: w32)"
proof -
  have b: "unat (old + 0x1000) < 2 ^ 32" using unsigned_less [of "old + 0x1000 :: w32"] by simp
  have "unat (drop_bit 10 (old + 0x1000)) = unat old div 1024 + 4"
    using assms by (simp add: unsigned_drop_bit_eq drop_bit_eq_div unat_div)
  also have "\<dots> = unat (drop_bit 10 old + 4 :: w32)"
    using b assms by (simp add: unat_word_ariths unsigned_drop_bit_eq drop_bit_eq_div)
  finally show ?thesis by (simp add: word_unat_eq_iff)
qed

lemma next_env_id_ok:
  assumes e: "e < NENV"
  shows "ENVX (next_env_id old e) = e" and "0 < sint (next_env_id old e)"
    and "0 \<le> sint old \<Longrightarrow> next_env_id old e \<noteq> old"
proof -
  obtain g where g: "next_env_id old e = g AND NOT (mask 10) OR word_of_nat e"
    "g AND NOT (mask 10) = g" "0 < sint g"
    "g = (old + 0x1000) AND NOT (mask 10) \<or> g = 0x1000 \<and> sint ((old + 0x1000) AND NOT (mask 10)) \<le> 0"
    by (rule next_env_id_form [OF e])
  show "ENVX (next_env_id old e) = e" unfolding g(1) by (rule ENVX_generation [OF e])
  have high: "(g OR word_of_nat e) AND NOT (mask 10) = g"
  proof -
    have "(g OR word_of_nat e) AND NOT (mask 10) = g AND NOT (mask 10)"
      by (subst slot_mask [OF e, symmetric]) (rule bit_word_eqI; auto simp: bit_simps)
    then show ?thesis using g(2) by simp
  qed
  have "\<not> bit g 31" using g(3) bit_last_iff [of g] by simp
  moreover have "\<not> bit (word_of_nat e :: w32) 31"
    by (subst slot_mask [OF e, symmetric]) (simp add: bit_simps)
  ultimately have "\<not> bit (g OR word_of_nat e) 31" by (simp add: bit_simps)
  then have "0 \<le> sint (g OR word_of_nat e)" using bit_last_iff [of "g OR word_of_nat e"] by simp
  moreover have "g OR word_of_nat e \<noteq> 0" using high g(3) by auto
  ultimately show "0 < sint (next_env_id old e)"
    unfolding g(1,2) using signed_eq_0_iff [of "g OR word_of_nat e"] by (simp add: order_less_le)
  show "next_env_id old e \<noteq> old" if "0 \<le> sint old"
  proof
    assume eq: "next_env_id old e = old"
    then have old: "old AND NOT (mask 10) = g" using high g(1,2) by simp
    let ?n = "unat old"
    have "\<not> bit old 31" using that bit_last_iff [of old] by simp
    then have n: "?n < 2 ^ 31" by (rule unat_positive)
    have sum: "unat (old + 0x1000) = ?n + 4096" using n by (simp add: unat_word_ariths)
    then have d: "drop_bit 10 (old + 0x1000) = (drop_bit 10 old + 4 :: w32)" by (rule generation_step)
    show False using g(4)
    proof
      assume "g = (old + 0x1000) AND NOT (mask 10)"
      then have "drop_bit 10 (old + 0x1000) = drop_bit 10 old"
        using old by (metis drop_bit_not_mask)
      with d show False by simp
    next
      assume a: "g = 0x1000 \<and> sint ((old + 0x1000) AND NOT (mask 10)) \<le> 0"
      then have "drop_bit 10 old = 4" using old drop_bit_not_mask [of 10 old] by simp
      then have "(old + 0x1000) AND NOT (mask 10) = 0x2000" using d by (simp add: not_mask_drop push_bit_eq_mult)
      then show False using a by simp
    qed
  qed
qed

subsection \<open>The table\<close>

text \<open>
  The free slots are those in the list; the id of a live environment has its slot in the low
  bits and no id is negative.
\<close>

definition env_table_ok :: "kern \<Rightarrow> bool" where
  "env_table_ok s \<longleftrightarrow> env_list_inv s \<and>
     (\<forall>i<NENV. i \<in> set (free_envs s) \<longleftrightarrow> status s i = ENV_FREE) \<and>
     (\<forall>i<NENV. 0 \<le> sint (env_id (envs s i)) \<and>
        (status s i \<noteq> ENV_FREE \<longrightarrow> ENVX (env_id (envs s i)) = i \<and> env_id (envs s i) \<noteq> 0))"

lemma env_table_okD:
  assumes "env_table_ok s"
  shows "env_list_inv s" and "i < NENV \<Longrightarrow> i \<in> set (free_envs s) \<longleftrightarrow> status s i = ENV_FREE"
    and "i < NENV \<Longrightarrow> 0 \<le> sint (env_id (envs s i))"
    and "i < NENV \<Longrightarrow> status s i \<noteq> ENV_FREE \<Longrightarrow> ENVX (env_id (envs s i)) = i"
    and "i < NENV \<Longrightarrow> status s i \<noteq> ENV_FREE \<Longrightarrow> env_id (envs s i) \<noteq> 0"
  using assms unfolding env_table_ok_def by blast+

lemma free_envs_bound: "env_list_inv s \<Longrightarrow> i \<in> set (free_envs s) \<Longrightarrow> i < NENV"
  using free_chainD(3) by (auto simp: env_list_inv_def free_envs_def)

lemma env_list_cong:
  assumes "\<And>i. env_link (envs s' i) = env_link (envs s i)" and "env_free_list s' = env_free_list s"
  shows "env_list_inv s' \<longleftrightarrow> env_list_inv s" and "free_envs s' = free_envs s"
  using assms by (simp_all add: env_list_inv_def free_envs_def)

text \<open>A lookup depends on the slot of the id only, and on the current environment for id 0.\<close>

lemma envid2env_cong:
  assumes "cpu_env s' c = cpu_env s c" and "status s' (ENVX envid) = status s (ENVX envid)"
    and "env_id (envs s' (ENVX envid)) = env_id (envs s (ENVX envid))"
  shows "envid2env c s' envid False = envid2env c s envid False"
  using assms by (simp add: envid2env_def Let_def)

lemma envid2env_live:
  "status s (ENVX envid) \<noteq> ENV_FREE \<Longrightarrow> env_id (envs s (ENVX envid)) = envid \<Longrightarrow> envid \<noteq> 0 \<Longrightarrow>
     envid2env c s envid False = Some (0, Some (ENVX envid))"
  by (simp add: envid2env_def Let_def)

lemma envid2env_stale:
  "status s (ENVX envid) = ENV_FREE \<or> env_id (envs s (ENVX envid)) \<noteq> envid \<Longrightarrow> envid \<noteq> 0 \<Longrightarrow>
     envid2env c s envid checkperm = Some (- E_BAD_ENV, None)"
  by (auto simp: envid2env_def Let_def)

lemma env_setup_vm_ok:
  assumes "pages_inv (vm s)" and "free_pages (vm s) = p # ps"
  obtains m where "env_setup_vm s e = (upd_env e (\<lambda>e. e\<lparr>env_pgdir := Some p\<rparr>) (s\<lparr>vm := m\<rparr>), 0)"
    and "pages_inv m" and "free_pages m = ps"
proof -
  obtain m where m: "page_alloc (vm s) True = (m, Some p)" "pages_inv m" "free_pages m = ps"
    using page_alloc_Cons [OF assms] by blast
  let ?m = "store_word (m\<lparr>phys := (phys m)(p := phys m (kern_pgdir m)), pp_ref := (pp_ref m)(p := pp_ref m p + 1)\<rparr>)
      p (PDX UVPT) (page2pa p OR PTE_P OR PTE_U)"
  have "env_setup_vm s e = (upd_env e (\<lambda>e. e\<lparr>env_pgdir := Some p\<rparr>) (s\<lparr>vm := ?m\<rparr>), 0)"
    using m(1) by (simp add: env_setup_vm_def Let_def)
  moreover have "pages_inv ?m" "free_pages ?m = ps"
    using m by (simp_all add: pages_inv_def free_pages_def store_word_def)
  ultimately show thesis using that by blast
qed

definition child_level :: "nat \<Rightarrow> kern \<Rightarrow> w32 \<Rightarrow> int" where
  "child_level c s parent_id =
     (case envid2env c s parent_id False of
        Some (_, Some p) \<Rightarrow> current_queue (envs s p) | _ \<Rightarrow> 0)"

lemma env_alloc_ok:
  assumes ok: "env_table_ok s" and fr: "free_envs s = e # es"
    and mem: "pages_inv (vm s)" "free_pages (vm s) = p # ps"
    and cur: "cpu_env s c \<noteq> Some e" and parent: "parent_id = 0 \<or> ENVX parent_id \<noteq> e"
    and q: "get_queue (mlfq s) (child_level c s parent_id) = Some q" "queue_ok q"
      "length (qlist q) < NENV" "q_last q + 1 < 2 ^ 31"
  shows "\<exists>s' q'. env_alloc c s parent_id = Some (s', 0, Some e) \<and>
     env_table_ok s' \<and> free_envs s' = es \<and> status s' e = ENV_RUNNABLE \<and>
     env_id (envs s' e) = next_env_id (env_id (envs s e)) e \<and>
     env_parent_id (envs s' e) = parent_id \<and> env_pgdir (envs s' e) = Some p \<and>
     (\<forall>i. i \<noteq> e \<longrightarrow> status s' i = status s i \<and> env_id (envs s' i) = env_id (envs s i)) \<and>
     cpu_env s' = cpu_env s \<and> free_pages (vm s') = ps \<and>
     get_queue (mlfq s') (child_level c s parent_id) = Some q' \<and>
     qlist q' = qlist q @ [env_id (envs s' e)]"
proof -
  have e: "e < NENV" using free_envs_bound [OF env_table_okD(1) [OF ok]] fr by simp
  have free: "status s e = ENV_FREE" using env_table_okD(2) [OF ok e] fr by simp
  have head: "env_free_list s = Some e" using free_envs_take [OF env_table_okD(1) [OF ok] fr] by simp
  obtain m where vm: "env_setup_vm s e = (upd_env e (\<lambda>e. e\<lparr>env_pgdir := Some p\<rparr>) (s\<lparr>vm := m\<rparr>), 0)"
    "pages_inv m" "free_pages m = ps" by (rule env_setup_vm_ok [OF mem])
  let ?new = "next_env_id (env_id (envs s e)) e"
  let ?s1 = "upd_env e (\<lambda>e. e\<lparr>env_pgdir := Some p\<rparr>) (s\<lparr>vm := m\<rparr>)"
  let ?s2 = "upd_env e (\<lambda>x. x\<lparr>env_id := next_env_id (env_id x) e, env_parent_id := parent_id, env_type := 0,
      env_status := ENV_RUNNABLE, env_runs := 0, env_tf := user_tf, env_pgfault_upcall := 0,
      env_ipc_recving := False\<rparr>) ?s1"
  let ?s3 = "upd_env e (\<lambda>x. x\<lparr>executions := 0\<rparr>) (env_take ?s2 e)"
  have s3: "status ?s3 i = (if i = e then ENV_RUNNABLE else status s i)"
    "env_id (envs ?s3 i) = (if i = e then ?new else env_id (envs s i))"
    "current_queue (envs ?s3 i) = current_queue (envs s i)"
    "env_link (envs ?s3 i) = env_link (envs s i)" for i
    by (simp_all add: status_def)
  have par: "envid2env c ?s3 parent_id False = envid2env c s parent_id False"
  proof (cases "parent_id = 0")
    case True
    then show ?thesis by (simp add: envid2env_def)
  next
    case False
    with parent show ?thesis by (intro envid2env_cong) (simp_all add: s3)
  qed
  obtain r pe where r: "envid2env c s parent_id False = Some (r, pe)"
    by (cases "envid2env c s parent_id False") (auto simp: envid2env_def Let_def split: if_splits)
  have lev: "(case pe of None \<Rightarrow> 0 | Some p \<Rightarrow> current_queue (envs ?s3 p)) = child_level c s parent_id"
    unfolding s3 by (simp add: child_level_def r)
  have m3: "mlfq ?s3 = mlfq s" by simp
  obtain s' q' where s': "sched_push_env ?s3 ?new (child_level c s parent_id) = Some s'" "queues_only ?s3 s'"
    "mlfq s' = put_queue (mlfq s) (child_level c s parent_id) q'" "queue_ok q'" "qlist q' = qlist q @ [?new]"
    by (rule sched_push_env_ok [of ?s3 _ _ ?new, unfolded m3, OF q]) blast
  have run: "env_alloc c s parent_id = Some (s', 0, Some e)"
    by (simp add: env_alloc_def head vm(1) Let_def par [unfolded Let_def] r lev s'(1))
  note fr' = queues_onlyD [OF s'(2)]
  have st: "status s' i = (if i = e then ENV_RUNNABLE else status s i)" for i
    using fr'(1) s3(1) by simp
  have ids: "env_id (envs s' i) = (if i = e then ?new else env_id (envs s i))" for i
    using fr'(3) s3(2) by simp
  have slots: "env_list_inv s'" "free_envs s' = es"
  proof -
    have l: "env_link (envs s' i) = env_link (envs (env_take s e) i)"
      "env_free_list s' = env_free_list (env_take s e)" for i
      using fr'(6,8) s3(4) by simp_all
    from env_list_cong [of s' "env_take s e", OF l] free_envs_take(2,3) [OF env_table_okD(1) [OF ok] fr]
    show "env_list_inv s'" "free_envs s' = es" by simp_all
  qed
  have new: "ENVX ?new = e" "0 < sint ?new" using next_env_id_ok [OF e] by simp_all
  then have "?new \<noteq> 0" by auto
  have notin: "e \<notin> set es"
    using env_slots.free_distinct [OF env_table_okD(1) [OF ok]] fr by simp
  have "env_table_ok s'"
    unfolding env_table_ok_def slots(2)
  proof (intro conjI allI impI slots(1))
    fix i :: nat assume i: "i < NENV"
    show "i \<in> set es \<longleftrightarrow> status s' i = ENV_FREE"
      using env_table_okD(2) [OF ok i] fr notin by (auto simp: st)
    show "0 \<le> sint (env_id (envs s' i))"
      using env_table_okD(3) [OF ok i] new by (simp add: ids)
    show "ENVX (env_id (envs s' i)) = i" "env_id (envs s' i) \<noteq> 0" if "status s' i \<noteq> ENV_FREE"
      using env_table_okD(4,5) [OF ok i] new \<open>?new \<noteq> 0\<close> that by (auto simp: ids st split: if_splits)
  qed
  moreover have "0 \<le> child_level c s parent_id"
    using q(1) by (auto simp: get_queue_def split: if_splits)
  moreover have "env_parent_id (envs s' e) = parent_id" "env_pgdir (envs s' e) = Some p"
    using fr'(2,9) by simp_all
  ultimately show ?thesis
    using run slots s' fr'(4,5) vm(3) by (auto simp: st ids get_put_queue)
qed

text \<open>C17. Allocating an environment takes the first free slot and gives it an id that differs
  from the one its previous environment had: the new id resolves to the slot, every other id of that slot, the previous
  one included, is refused with \<open>E_BAD_ENV\<close>, and all other ids resolve as they did. The table stays well-formed
  and the new id is put at the end of its parent's queue. (The generation in the id wraps around, so the id of an
  environment before the previous one can come back.)\<close>

theorem env_alloc_fresh:
  assumes "env_table_ok s" and "free_envs s = e # es"
    and "pages_inv (vm s)" and "free_pages (vm s) = p # ps"
    and "cpu_env s c \<noteq> Some e" and "parent_id = 0 \<or> ENVX parent_id \<noteq> e"
    and "get_queue (mlfq s) (child_level c s parent_id) = Some q" and "queue_ok q"
    and "length (qlist q) < NENV" and "q_last q + 1 < 2 ^ 31"
  shows "\<exists>s' q' new. env_alloc c s parent_id = Some (s', 0, Some e) \<and>
     env_table_ok s' \<and> free_envs s' = es \<and> env_id (envs s' e) = new \<and>
     0 < sint new \<and> new \<noteq> env_id (envs s e) \<and> envid2env c s' new False = Some (0, Some e) \<and>
     (\<forall>old chk. ENVX old = e \<longrightarrow> old \<noteq> new \<longrightarrow> old \<noteq> 0 \<longrightarrow>
        envid2env c s' old chk = Some (- E_BAD_ENV, None)) \<and>
     (\<forall>other. ENVX other \<noteq> e \<longrightarrow> envid2env c s' other False = envid2env c s other False) \<and>
     get_queue (mlfq s') (child_level c s parent_id) = Some q' \<and> qlist q' = qlist q @ [new]"
proof -
  obtain s' q' where r: "env_alloc c s parent_id = Some (s', 0, Some e)" "env_table_ok s'" "free_envs s' = es"
    "status s' e = ENV_RUNNABLE" "env_id (envs s' e) = next_env_id (env_id (envs s e)) e"
    "\<forall>i. i \<noteq> e \<longrightarrow> status s' i = status s i \<and> env_id (envs s' i) = env_id (envs s i)"
    "cpu_env s' = cpu_env s" "get_queue (mlfq s') (child_level c s parent_id) = Some q'"
    "qlist q' = qlist q @ [env_id (envs s' e)]"
    by (insert env_alloc_ok [OF assms]) (elim exE conjE, rule that, assumption+)
  let ?new = "env_id (envs s' e)"
  have e: "e < NENV" using free_envs_bound [OF env_table_okD(1) [OF assms(1)]] assms(2) by simp
  note new = next_env_id_ok [OF e, of "env_id (envs s e)", folded r(5)]
  have "?new \<noteq> 0" using new(2) by auto
  then have "envid2env c s' ?new False = Some (0, Some e)"
    using envid2env_live [of s' ?new c] r(4) by (simp add: new(1))
  moreover have "envid2env c s' old chk = Some (- E_BAD_ENV, None)"
    if "ENVX old = e" "old \<noteq> ?new" "old \<noteq> 0" for old chk
    using envid2env_stale [of s' old c chk] that by metis
  moreover have "envid2env c s' other False = envid2env c s other False" if "ENVX other \<noteq> e" for other
    by (rule envid2env_cong) (use r(6,7) that in simp_all)
  moreover have "?new \<noteq> env_id (envs s e)" using new(3) env_table_okD(3) [OF assms(1) e] by simp
  ultimately show ?thesis using r new(2) by blast
qed

lemma env_init_table: "env_table_ok (env_init s)"
  by (simp add: env_table_ok_def env_init_list) (simp add: env_init_def status_def)

lemma env_alloc_fresh_witness:
  "\<exists>s' q' new. env_alloc 0 (env_init demo_kern) 0 = Some (s', 0, Some 0) \<and>
     free_envs s' = [1..<NENV] \<and> env_id (envs s' 0) = new \<and> envid2env 0 s' new False = Some (0, Some 0) \<and>
     get_queue (mlfq s') 0 = Some q' \<and> qlist q' = [new]"
proof -
  have "free_envs (env_init demo_kern) = 0 # [1..<NENV]"
    by (simp add: env_init_list upt_conv_Cons)
  moreover have "free_pages (vm (env_init demo_kern)) = 2 # [3]" "pages_inv (vm (env_init demo_kern))"
    using demo_mem_ok(2) vm_okD(1) [OF demo_mem_ok(1)] by (simp_all add: env_init_def demo_kern_def)
  moreover have "cpu_env (env_init demo_kern) 0 = None" by (simp add: env_init_def demo_kern_def)
  moreover from this have "child_level 0 (env_init demo_kern) 0 = 0"
    by (simp add: child_level_def envid2env_def)
  moreover have "get_queue (mlfq (env_init demo_kern)) 0 = Some empty_queue"
    by (simp add: env_init_def demo_kern_def get_queue_def initial_mlfq_def)
  moreover have "queue_ok empty_queue" "qlist empty_queue = []" "q_last empty_queue = 0"
    by (simp_all add: empty_queue_def queue_ok_def qlist_def positions_def)
  ultimately have "\<exists>s' q' new. env_alloc 0 (env_init demo_kern) 0 = Some (s', 0, Some 0) \<and>
     env_table_ok s' \<and> free_envs s' = [1..<NENV] \<and> env_id (envs s' 0) = new \<and>
     0 < sint new \<and> new \<noteq> env_id (envs (env_init demo_kern) 0) \<and>
     envid2env 0 s' new False = Some (0, Some 0) \<and>
     (\<forall>old chk. ENVX old = 0 \<longrightarrow> old \<noteq> new \<longrightarrow> old \<noteq> 0 \<longrightarrow>
        envid2env 0 s' old chk = Some (- E_BAD_ENV, None)) \<and>
     (\<forall>other. ENVX other \<noteq> 0 \<longrightarrow> envid2env 0 s' other False = envid2env 0 (env_init demo_kern) other False) \<and>
     get_queue (mlfq s') (child_level 0 (env_init demo_kern) 0) = Some q' \<and> qlist q' = qlist empty_queue @ [new]"
    by (intro env_alloc_fresh [OF env_init_table]) simp_all
  then show ?thesis
    using \<open>child_level 0 (env_init demo_kern) 0 = 0\<close> \<open>qlist empty_queue = []\<close> by auto
qed

subsection \<open>Freeing an address space\<close>

text \<open>Dropping one reference of each frame of a list.\<close>

fun decref_all :: "nat list \<Rightarrow> pmem \<Rightarrow> pmem option" where
  "decref_all [] m = Some m"
| "decref_all (p # ps) m = do { m \<leftarrow> page_decref m p; decref_all ps m }"

lemma decref_all_append: "decref_all (ps @ qs) m = do { m \<leftarrow> decref_all ps m; decref_all qs m }"
  by (induction ps arbitrary: m) (auto split: Option.bind_split)

lemma page_decref_phys:
  "page_decref (m\<lparr>phys := f\<rparr>) p = map_option (\<lambda>m. m\<lparr>phys := f\<rparr>) (page_decref m p)"
  by (auto simp: page_decref_def page_free_def Let_def)

lemma page_decref_keeps:
  "page_decref m p = Some m' \<Longrightarrow> phys m' = phys m \<and> npages m' = npages m"
  by (auto simp: page_decref_def page_free_def Let_def split: if_splits)

lemma decref_all_phys:
  "decref_all ps (m\<lparr>phys := f\<rparr>) = map_option (\<lambda>m. m\<lparr>phys := f\<rparr>) (decref_all ps m)"
  by (induction ps arbitrary: m) (auto simp: page_decref_phys split: Option.bind_split)

lemma decref_all_keeps: "decref_all ps m = Some m' \<Longrightarrow> phys m' = phys m \<and> npages m' = npages m"
proof (induction ps arbitrary: m)
  case (Cons p ps)
  then show ?case using page_decref_keeps by (auto split: Option.bind_splits)
qed simp

definition links_ok :: "pmem \<Rightarrow> bool" where
  "links_ok m \<longleftrightarrow> pages_inv m \<and> (\<forall>p<npages m. p \<notin> set (free_pages m) \<longrightarrow> pp_link m p = None)"

lemma page_decref_last:
  assumes "links_ok m" and "p < npages m" and "p \<notin> set (free_pages m)" and "pp_ref m p = 1"
  obtains m' where "page_decref m p = Some m'" and "links_ok m'" and "free_pages m' = p # free_pages m"
    and "pp_ref m' = (pp_ref m)(p := 0)" and "npages m' = npages m"
proof -
  let ?m = "m\<lparr>pp_ref := (pp_ref m)(p := 0)\<rparr>"
  have l: "pp_link m p = None" using assms(1-3) by (simp add: links_ok_def)
  have same: "pages_inv ?m" "free_pages ?m = free_pages m"
    using assms(1) by (simp_all add: links_ok_def pages_inv_def free_pages_def)
  obtain m' where m': "page_free ?m p = Some m'" "pages_inv m'" "free_pages m' = p # free_pages m"
    using page_free_ok [OF same(1), of p] assms(2,3) l same(2) by (auto simp: page_releasable_def)
  have "page_decref m p = Some m'" using m'(1) assms(4) by (simp add: page_decref_def)
  moreover have "m' = ?m\<lparr>pp_link := (pp_link m)(p := page_free_list m), page_free_list := Some p\<rparr>"
    using m'(1) l by (simp add: page_free_def)
  ultimately show thesis using that m' assms(1) by (auto simp: links_ok_def)
qed

lemma decref_all_ok:
  assumes "links_ok m"
    and "\<forall>p\<in>set ps. p < npages m \<and> p \<notin> set (free_pages m) \<and> count_list ps p \<le> unat (pp_ref m p)"
  shows "\<exists>m'. decref_all ps m = Some m' \<and> links_ok m' \<and>
     (\<forall>p. pp_ref m' p = pp_ref m p - of_nat (count_list ps p)) \<and>
     set (free_pages m') = set (free_pages m) \<union> {p \<in> set ps. unat (pp_ref m p) = count_list ps p}"
  using assms
proof (induction ps arbitrary: m)
  case (Cons p ps)
  have p: "p < npages m" "p \<notin> set (free_pages m)" "Suc (count_list ps p) \<le> unat (pp_ref m p)"
    using Cons.prems(2) by simp_all
  have one: "unat (pp_ref m p - 1) = unat (pp_ref m p) - 1"
    using p(3) by (metis Suc_le_D diff_Suc_1 not_less_zero unat_0 unat_minus_one word_neq_0_conv zero_less_Suc)
  show ?case
  proof (cases "pp_ref m p = 1")
    case True
    then have "count_list ps p = 0" using p(3) by simp
    then have np: "p \<notin> set ps" by (simp add: count_list_0_iff)
    obtain m1 where m1: "page_decref m p = Some m1" "links_ok m1" "free_pages m1 = p # free_pages m"
      "pp_ref m1 = (pp_ref m)(p := 0)" "npages m1 = npages m"
      by (rule page_decref_last [OF Cons.prems(1) p(1,2) True])
    have "\<forall>q\<in>set ps. q < npages m1 \<and> q \<notin> set (free_pages m1) \<and> count_list ps q \<le> unat (pp_ref m1 q)"
      using Cons.prems(2) np by (auto simp: m1(3-5))
    from Cons.IH [OF m1(2) this] m1(1) obtain m' where m': "decref_all (p # ps) m = Some m'" "links_ok m'"
      "\<forall>q. pp_ref m' q = pp_ref m1 q - of_nat (count_list ps q)"
      "set (free_pages m') = set (free_pages m1) \<union> {q \<in> set ps. unat (pp_ref m1 q) = count_list ps q}"
      by auto
    then show ?thesis
      using np True by (intro exI [of _ m']) (auto simp: m1(3,4))
  next
    case False
    let ?m = "m\<lparr>pp_ref := (pp_ref m)(p := pp_ref m p - 1)\<rparr>"
    have "pp_ref m p - 1 \<noteq> 0" using False by simp
    then have d: "page_decref m p = Some ?m" by (simp add: page_decref_def)
    have fr: "free_pages ?m = free_pages m" by (simp add: free_pages_def)
    then have ok: "links_ok ?m" using Cons.prems(1) by (simp add: links_ok_def pages_inv_def)
    have "\<forall>q\<in>set ps. q < npages ?m \<and> q \<notin> set (free_pages ?m) \<and> count_list ps q \<le> unat (pp_ref ?m q)"
      using Cons.prems(2) one unfolding fr by auto
    from Cons.IH [OF ok this] d obtain m' where m': "decref_all (p # ps) m = Some m'" "links_ok m'"
      "\<forall>q. pp_ref m' q = pp_ref ?m q - of_nat (count_list ps q)"
      "set (free_pages m') = set (free_pages m) \<union> {q \<in> set ps. unat (pp_ref ?m q) = count_list ps q}"
      by (auto simp: fr)
    have "unat (pp_ref m p) \<noteq> 1" using False by (metis unat_1 word_unat_eq_iff)
    then have "p \<in> set ps" if "unat (pp_ref m p) = Suc (count_list ps p)"
      using that by (metis One_nat_def count_list_0_iff)
    then have "{q \<in> set ps. unat (pp_ref ?m q) = count_list ps q} =
        {q \<in> set (p # ps). unat (pp_ref m q) = count_list (p # ps) q}"
      using one p(3) by auto
    then show ?thesis using m' by (intro exI [of _ m']) auto
  qed
qed simp

text \<open>The frames that a page table maps, and those of a list of page directory entries with their tables.\<close>

definition present :: "pmem \<Rightarrow> nat \<Rightarrow> nat \<Rightarrow> bool" where
  "present m t i \<longleftrightarrow> phys m t i AND PTE_P \<noteq> 0"

definition entry_frames :: "pmem \<Rightarrow> nat \<Rightarrow> nat list \<Rightarrow> nat list" where
  "entry_frames m t is = map (\<lambda>i. PGNUM (phys m t i)) (filter (present m t) is)"

definition table_frames :: "pmem \<Rightarrow> nat \<Rightarrow> nat list \<Rightarrow> nat list" where
  "table_frames m pgdir ds = concat (map (\<lambda>d. let t = PGNUM (phys m pgdir d) in
     entry_frames m t [0..<1024] @ [t]) (filter (present m pgdir) ds))"

lemma present_nonzero: "present m t i \<Longrightarrow> phys m t i \<noteq> 0"
  by (auto simp: present_def)

lemma PGADDR_index:
  assumes "d < 1024" and "i < 1024"
  shows "PDX (PGADDR d i 0) = d" and "PTX (PGADDR d i 0) = i"
proof -
  have w: "(word_of_nat k :: w32) AND mask 10 = word_of_nat k" if "k < 1024" for k
    using slot_mask that by (simp add: NENV_def)
  have "drop_bit 22 (PGADDR d i 0) AND mask 10 = word_of_nat d AND mask 10"
    unfolding PGADDR_def
    by (subst w [OF assms(2), symmetric]) (rule bit_word_eqI; auto simp: bit_simps)
  moreover have "drop_bit 12 (PGADDR d i 0) AND mask 10 = word_of_nat i AND mask 10"
    unfolding PGADDR_def by (rule bit_word_eqI) (auto simp: bit_simps)
  ultimately show "PDX (PGADDR d i 0) = d" "PTX (PGADDR d i 0) = i"
    using assms by (simp_all add: PDX_def PTX_def mask_10 w unat_of_nat)
qed

lemma page_remove_entry:
  assumes d: "d < 1024" "phys m pgdir d \<noteq> 0" and t: "t = PGNUM (phys m pgdir d)" "t < npages m"
    and i: "i < 1024" "present m t i" "PGNUM (phys m t i) < npages m"
  shows "page_remove m pgdir (PGADDR d i 0) = do {
     m \<leftarrow> page_decref m (PGNUM (phys m t i)); Some (store_word m t i 0) }"
  using present_nonzero [OF i(2)] d t i
  by (simp add: page_remove_def page_lookup_def pgdir_walk_def PGADDR_index pa2page_def not_le)

lemma free_entries_eq:
  assumes d: "d < 1024" "phys m pgdir d \<noteq> 0" and t: "t = PGNUM (phys m pgdir d)" "t < npages m" "t \<noteq> pgdir"
    and i: "\<forall>i\<in>set is. i < 1024 \<and> (present m t i \<longrightarrow> PGNUM (phys m t i) < npages m)" "distinct is"
  shows "\<exists>row. free_entries is pgdir d t m =
     map_option (\<lambda>m'. m'\<lparr>phys := (phys m)(t := row)\<rparr>) (decref_all (entry_frames m t is) m)"
  using d t i
proof (induction "is" arbitrary: m)
  case Nil
  show ?case by (rule exI [of _ "phys m t"]) (simp add: entry_frames_def)
next
  case (Cons i "is")
  show ?case
  proof (cases "present m t i")
    case False
    have "entry_frames m t (i # is) = entry_frames m t is"
      "free_entries (i # is) pgdir d t m = free_entries is pgdir d t m"
      using False by (simp_all add: entry_frames_def present_def)
    then show ?thesis using Cons by simp
  next
    case True
    let ?p = "PGNUM (phys m t i)"
    have i: "i < 1024" "?p < npages m" "i \<notin> set is" using Cons.prems(6,7) True by auto
    have rm: "page_remove m pgdir (PGADDR d i 0) = do {
        m \<leftarrow> page_decref m ?p; Some (store_word m t i 0) }"
      by (rule page_remove_entry [OF Cons.prems(1-4) i(1) True i(2)])
    have fe: "free_entries (i # is) pgdir d t m = do {
        m \<leftarrow> page_decref m ?p; free_entries is pgdir d t (store_word m t i 0) }"
      using True rm by (simp add: present_def)
    have ef: "entry_frames m t (i # is) = ?p # entry_frames m t is"
      using True by (simp add: entry_frames_def)
    show ?thesis
    proof (cases "page_decref m ?p")
      case None
      then have "free_entries (i # is) pgdir d t m = None" by (simp only: fe bind.bind_lzero)
      moreover have "decref_all (entry_frames m t (i # is)) m = None" using None by (simp add: ef)
      ultimately show ?thesis by simp
    next
      case (Some m1)
      note k = page_decref_keeps [OF Some]
      let ?f = "(phys m)(t := (phys m t)(i := 0))"
      let ?m = "store_word m1 t i 0"
      have m: "?m = m1\<lparr>phys := ?f\<rparr>" using k by (simp add: store_word_def)
      have rows: "present ?m t j = present m t j \<and> phys ?m t j = phys m t j" if "j \<in> set is" for j
        using that i(3) unfolding m present_def by auto
      have dir: "phys ?m pgdir d = phys m pgdir d" using Cons.prems(5) by (simp add: m)
      have "\<forall>j\<in>set is. j < 1024 \<and> (present ?m t j \<longrightarrow> PGNUM (phys ?m t j) < npages ?m)"
        using Cons.prems(6) rows k by (simp add: m)
      moreover have "t < npages ?m" using Cons.prems(4) k by (simp add: m)
      moreover have "phys ?m pgdir d \<noteq> 0" "t = PGNUM (phys ?m pgdir d)"
        using Cons.prems(2,3) unfolding dir by blast+
      moreover have "distinct is" using Cons.prems(7) by simp
      ultimately have "\<exists>row. free_entries is pgdir d t ?m =
          map_option (\<lambda>m'. m'\<lparr>phys := (phys ?m)(t := row)\<rparr>) (decref_all (entry_frames ?m t is) ?m)"
        by (intro Cons.IH Cons.prems(1,5))
      then obtain row where row: "free_entries is pgdir d t ?m =
          map_option (\<lambda>m'. m'\<lparr>phys := (phys ?m)(t := row)\<rparr>) (decref_all (entry_frames ?m t is) ?m)" ..
      have "entry_frames ?m t is = entry_frames m t is"
        using rows by (auto simp: entry_frames_def cong: filter_cong)
      then have "free_entries is pgdir d t ?m =
          map_option (\<lambda>m'. m'\<lparr>phys := (phys m)(t := row)\<rparr>) (decref_all (entry_frames m t is) m1)"
        unfolding row by (simp add: m decref_all_phys option.map_comp comp_def)
      then have "free_entries (i # is) pgdir d t m =
          map_option (\<lambda>m'. m'\<lparr>phys := (phys m)(t := row)\<rparr>) (decref_all (entry_frames m t (i # is)) m)"
        using Some by (simp only: fe ef decref_all.simps bind.bind_lunit)
      then show ?thesis by blast
    qed
  qed
qed

lemma free_tables_eq:
  assumes "distinct ds" and "\<forall>d\<in>set ds. d < 1024"
    and "\<forall>d\<in>set ds. present m pgdir d \<longrightarrow> PGNUM (phys m pgdir d) \<noteq> pgdir"
    and "inj_on (\<lambda>d. PGNUM (phys m pgdir d)) {d \<in> set ds. present m pgdir d}"
    and "\<forall>p\<in>set (table_frames m pgdir ds). p < npages m"
  shows "\<exists>f. free_tables ds pgdir m = map_option (\<lambda>m'. m'\<lparr>phys := f\<rparr>) (decref_all (table_frames m pgdir ds) m)"
  using assms
proof (induction ds arbitrary: m)
  case Nil
  show ?case by (rule exI [of _ "phys m"]) (simp add: table_frames_def)
next
  case (Cons d ds)
  show ?case
  proof (cases "present m pgdir d")
    case False
    have "table_frames m pgdir (d # ds) = table_frames m pgdir ds"
      "free_tables (d # ds) pgdir m = free_tables ds pgdir m"
      using False by (simp_all add: table_frames_def present_def)
    moreover have "inj_on (\<lambda>d. PGNUM (phys m pgdir d)) {d \<in> set ds. present m pgdir d}"
      by (rule inj_on_subset [OF Cons.prems(4)]) auto
    ultimately show ?thesis using Cons by simp
  next
    case True
    let ?t = "PGNUM (phys m pgdir d)"
    let ?fs = "entry_frames m ?t [0..<1024]"
    have tf: "table_frames m pgdir (d # ds) = ?fs @ ?t # table_frames m pgdir ds"
      using True by (simp add: table_frames_def Let_def)
    have t: "?t < npages m" "?t \<noteq> pgdir" using Cons.prems(3,5) True tf by auto
    have pa: "pa2page m (PTE_ADDR (phys m pgdir d)) = Some ?t" using t by (simp add: pa2page_def not_le)
    have rng: "\<forall>i\<in>set [0..<1024]. i < 1024 \<and> (present m ?t i \<longrightarrow> PGNUM (phys m ?t i) < npages m)"
    proof (intro ballI conjI impI)
      fix i assume i: "i \<in> set [0..<1024]" "present m ?t i"
      then have "PGNUM (phys m ?t i) \<in> set ?fs" unfolding entry_frames_def by auto
      then show "PGNUM (phys m ?t i) < npages m" using Cons.prems(5) tf by simp
    qed simp
    have "d < 1024" using Cons.prems(2) by simp
    from free_entries_eq [OF this present_nonzero [OF True] refl t rng] obtain row where
      row: "free_entries [0..<1024] pgdir d ?t m =
        map_option (\<lambda>m'. m'\<lparr>phys := (phys m)(?t := row)\<rparr>) (decref_all ?fs m)" by auto
    have ft: "free_tables (d # ds) pgdir m = do {
        m1 \<leftarrow> free_entries [0..<1024] pgdir d ?t m;
        m1 \<leftarrow> page_decref (store_word m1 pgdir d 0) ?t;
        free_tables ds pgdir m1 }"
      using True pa by (simp add: present_def Let_def)
    show ?thesis
    proof (cases "decref_all (?fs @ [?t]) m")
      case None
      then have "free_tables (d # ds) pgdir m = None"
        unfolding ft row
        by (auto simp: decref_all_append store_word_def page_decref_phys map_option_case
            split: Option.bind_splits option.splits)
      moreover have "decref_all (table_frames m pgdir (d # ds)) m = None"
        using None unfolding tf by (simp add: decref_all_append split: Option.bind_splits)
      ultimately show ?thesis by simp
    next
      case (Some m2)
      let ?f = "((phys m)(?t := row))(pgdir := (phys m pgdir)(d := 0))"
      let ?m = "m2\<lparr>phys := ?f\<rparr>"
      note k = decref_all_keeps [OF Some]
      have step: "free_tables (d # ds) pgdir m = free_tables ds pgdir ?m"
        using Some t(2) unfolding ft row
        by (auto simp: decref_all_append store_word_def page_decref_phys
            split: Option.bind_splits)
      have dn: "d \<notin> set ds" using Cons.prems(1) by simp
      have dir: "phys ?m pgdir x = phys m pgdir x" if "x \<in> set ds" for x
        using that dn by auto
      have ne: "PGNUM (phys m pgdir x) \<noteq> ?t" "PGNUM (phys m pgdir x) \<noteq> pgdir"
        if "x \<in> set ds" "present m pgdir x" for x
        using inj_onD [OF Cons.prems(4), of x d] Cons.prems(3) that True dn by auto
      have pres: "present ?m pgdir x = present m pgdir x" if "x \<in> set ds" for x
        using dir [OF that] by (simp add: present_def)
      have ef: "entry_frames ?m (PGNUM (phys m pgdir x)) is = entry_frames m (PGNUM (phys m pgdir x)) is"
        if "x \<in> set ds" "present m pgdir x" for x "is"
      proof -
        have "present ?m (PGNUM (phys m pgdir x)) = present m (PGNUM (phys m pgdir x))"
          using ne [OF that] by (simp add: present_def fun_eq_iff)
        then show ?thesis using ne [OF that] by (simp add: entry_frames_def)
      qed
      have "filter (present ?m pgdir) ds = filter (present m pgdir) ds"
        by (rule filter_cong [OF refl pres])
      moreover have "(let t = PGNUM (phys ?m pgdir x) in entry_frames ?m t [0..<1024] @ [t]) =
          (let t = PGNUM (phys m pgdir x) in entry_frames m t [0..<1024] @ [t])"
        if "x \<in> set ds" "present m pgdir x" for x
        unfolding dir [OF that(1)] Let_def ef [OF that] ..
      ultimately have same: "table_frames ?m pgdir ds = table_frames m pgdir ds"
        unfolding table_frames_def by (intro arg_cong [where f = concat] map_cong) simp_all
      have "\<exists>f. free_tables ds pgdir ?m = map_option (\<lambda>m'. m'\<lparr>phys := f\<rparr>) (decref_all (table_frames ?m pgdir ds) ?m)"
      proof (rule Cons.IH)
        show "distinct ds" "\<forall>d\<in>set ds. d < 1024" using Cons.prems(1,2) by simp_all
        show "\<forall>d\<in>set ds. present ?m pgdir d \<longrightarrow> PGNUM (phys ?m pgdir d) \<noteq> pgdir"
        proof (intro ballI impI)
          fix x assume x: "x \<in> set ds" "present ?m pgdir x"
          then show "PGNUM (phys ?m pgdir x) \<noteq> pgdir"
            unfolding dir [OF x(1)] using ne(2) pres by blast
        qed
        have "{d \<in> set ds. present ?m pgdir d} \<subseteq> {x \<in> set (d # ds). present m pgdir x}"
          using pres by auto
        from inj_on_subset [OF Cons.prems(4) this]
        show "inj_on (\<lambda>d. PGNUM (phys ?m pgdir d)) {d \<in> set ds. present ?m pgdir d}"
          unfolding inj_on_def using dir by (metis (no_types, lifting) mem_Collect_eq)
        show "\<forall>p\<in>set (table_frames ?m pgdir ds). p < npages ?m"
          using Cons.prems(5) k unfolding same tf by simp
      qed
      then obtain f where f: "free_tables ds pgdir ?m =
          map_option (\<lambda>m'. m'\<lparr>phys := f\<rparr>) (decref_all (table_frames m pgdir ds) m2)"
        unfolding same by (auto simp: decref_all_phys option.map_comp comp_def)
      have "decref_all (table_frames m pgdir (d # ds)) m = decref_all (table_frames m pgdir ds) m2"
        using decref_all_append [of "?fs @ [?t]" "table_frames m pgdir ds" m] Some unfolding tf
        by (simp only: append_assoc append.simps bind.bind_lunit)
      then show ?thesis using step f by auto
    qed
  qed
qed

subsection \<open>Freeing an environment\<close>

text \<open>The frames that an address space holds: mapped frames, page tables, the directory.\<close>

definition space_frames :: "pmem \<Rightarrow> nat \<Rightarrow> nat list" where
  "space_frames m pgdir = table_frames m pgdir [0..<PDX UTOP] @ [pgdir]"

definition space_ok :: "pmem \<Rightarrow> nat \<Rightarrow> bool" where
  "space_ok m pgdir \<longleftrightarrow> links_ok m \<and>
     (\<forall>d<PDX UTOP. present m pgdir d \<longrightarrow> PGNUM (phys m pgdir d) \<noteq> pgdir) \<and>
     inj_on (\<lambda>d. PGNUM (phys m pgdir d)) {d \<in> {..<PDX UTOP}. present m pgdir d} \<and>
     (\<forall>p\<in>set (space_frames m pgdir). p < npages m \<and> p \<notin> set (free_pages m) \<and>
        count_list (space_frames m pgdir) p \<le> unat (pp_ref m p))"

lemma free_space:
  assumes "space_ok m pgdir"
  obtains m1 m2 where "free_tables [0..<PDX UTOP] pgdir m = Some m1" and "page_decref m1 pgdir = Some m2"
    and "links_ok m2" and "\<forall>p. pp_ref m2 p = pp_ref m p - of_nat (count_list (space_frames m pgdir) p)"
    and "set (free_pages m2) = set (free_pages m) \<union>
      {p \<in> set (space_frames m pgdir). unat (pp_ref m p) = count_list (space_frames m pgdir) p}"
proof -
  have a: "links_ok m" "\<forall>p\<in>set (space_frames m pgdir). p < npages m \<and> p \<notin> set (free_pages m) \<and>
      count_list (space_frames m pgdir) p \<le> unat (pp_ref m p)"
    using assms by (simp_all add: space_ok_def)
  have "\<forall>d\<in>set [0..<PDX UTOP]. d < 1024" by (simp add: PDX_UTOP)
  moreover have "\<forall>d\<in>set [0..<PDX UTOP]. present m pgdir d \<longrightarrow> PGNUM (phys m pgdir d) \<noteq> pgdir"
    using assms by (simp add: space_ok_def)
  moreover have "{d \<in> set [0..<PDX UTOP]. present m pgdir d} = {d \<in> {..<PDX UTOP}. present m pgdir d}" by auto
  then have "inj_on (\<lambda>d. PGNUM (phys m pgdir d)) {d \<in> set [0..<PDX UTOP]. present m pgdir d}"
    using assms by (simp add: space_ok_def)
  moreover have "\<forall>p\<in>set (table_frames m pgdir [0..<PDX UTOP]). p < npages m"
    using a(2) by (simp add: space_frames_def)
  ultimately obtain f where f: "free_tables [0..<PDX UTOP] pgdir m =
      map_option (\<lambda>m'. m'\<lparr>phys := f\<rparr>) (decref_all (table_frames m pgdir [0..<PDX UTOP]) m)"
    using free_tables_eq [OF distinct_upt] by blast
  from decref_all_ok [OF a] obtain m' where m': "decref_all (space_frames m pgdir) m = Some m'" "links_ok m'"
    "\<forall>p. pp_ref m' p = pp_ref m p - of_nat (count_list (space_frames m pgdir) p)"
    "set (free_pages m') = set (free_pages m) \<union>
       {p \<in> set (space_frames m pgdir). unat (pp_ref m p) = count_list (space_frames m pgdir) p}" by blast
  then obtain m0 where m0: "decref_all (table_frames m pgdir [0..<PDX UTOP]) m = Some m0"
    "page_decref m0 pgdir = Some m'"
    by (auto simp: space_frames_def decref_all_append split: Option.bind_splits)
  show thesis
  proof (rule that)
    show "free_tables [0..<PDX UTOP] pgdir m = Some (m0\<lparr>phys := f\<rparr>)" using f m0(1) by simp
    show "page_decref (m0\<lparr>phys := f\<rparr>) pgdir = Some (m'\<lparr>phys := f\<rparr>)"
      using m0(2) by (simp add: page_decref_phys)
    show "links_ok (m'\<lparr>phys := f\<rparr>)"
      using m'(2) by (simp add: links_ok_def pages_inv_def free_pages_def)
  qed (use m'(3,4) in \<open>simp_all add: free_pages_def\<close>)
qed

text \<open>C19. Freeing an environment drops every reference that its address space held: one for each mapping,
  each page table and the page directory, so that exactly the frames nobody else refers to return
  to the allocator. Its slot becomes the first free one and its id is refused from then on; but
  its entry stays in the scheduler's queue.\<close>

theorem env_free_releases:
  assumes "env_table_ok s" and "e < NENV" and "status s e \<noteq> ENV_FREE"
    and "env_pgdir (envs s e) = Some pgdir" and "space_ok (vm s) pgdir"
  shows "\<exists>s'. env_free c s e = Some s' \<and> env_table_ok s' \<and> free_envs s' = e # free_envs s \<and>
     links_ok (vm s') \<and>
     set (free_pages (vm s')) = set (free_pages (vm s)) \<union>
       {p \<in> set (space_frames (vm s) pgdir). unat (pp_ref (vm s) p) = count_list (space_frames (vm s) pgdir) p} \<and>
     (\<forall>p. pp_ref (vm s') p = pp_ref (vm s) p - of_nat (count_list (space_frames (vm s) pgdir) p)) \<and>
     envid2env c s' (env_id (envs s e)) False = Some (- E_BAD_ENV, None) \<and> mlfq s' = mlfq s"
proof -
  obtain m1 m2 where m: "free_tables [0..<PDX UTOP] pgdir (vm s) = Some m1" "page_decref m1 pgdir = Some m2"
    "links_ok m2" "\<forall>p. pp_ref m2 p = pp_ref (vm s) p - of_nat (count_list (space_frames (vm s) pgdir) p)"
    "set (free_pages m2) = set (free_pages (vm s)) \<union>
       {p \<in> set (space_frames (vm s) pgdir). unat (pp_ref (vm s) p) = count_list (space_frames (vm s) pgdir) p}"
    by (rule free_space [OF assms(5)])
  define s0 where "s0 = (if cpu_env s c = Some e then s\<lparr>cpu_cr3 := (cpu_cr3 s)(c := kern_pgdir (vm s))\<rparr> else s)"
  have s0: "envs s0 = envs s" "vm s0 = vm s" "env_free_list s0 = env_free_list s" "mlfq s0 = mlfq s"
    "cpu_env s0 = cpu_env s" by (simp_all add: s0_def)
  let ?s1 = "(upd_env e (\<lambda>x. x\<lparr>env_pgdir := None\<rparr>) s0)\<lparr>vm := m2\<rparr>"
  let ?s' = "env_give ?s1 e"
  have run: "env_free c s e = Some ?s'"
    using m(1,2) assms(4) by (simp add: env_free_def s0_def [symmetric] s0)
  have old: "env_list_inv s" "e \<notin> set (free_envs s)" using env_table_okD [OF assms(1)] assms(2,3) by blast+
  have l: "env_link (envs ?s1 i) = env_link (envs s i)" "env_free_list ?s1 = env_free_list s" for i
    by (simp_all add: s0)
  have list: "env_list_inv ?s'" "free_envs ?s' = e # free_envs s"
    using env_slots.release_ok [of ?s1 e] env_list_cong [of ?s1 s, OF l] old assms(2) by simp_all
  have st: "status ?s' i = (if i = e then ENV_FREE else status s i)" "env_id (envs ?s' i) = env_id (envs s i)" for i
    by (simp_all add: env_give_def status_def s0)
  have "env_table_ok ?s'"
    unfolding env_table_ok_def list(2)
    using list(1) env_table_okD [OF assms(1)] old(2) by (auto simp: st)
  moreover have "envid2env c ?s' (env_id (envs s e)) False = Some (- E_BAD_ENV, None)"
  proof (rule envid2env_stale)
    show "status ?s' (ENVX (env_id (envs s e))) = ENV_FREE \<or>
        env_id (envs ?s' (ENVX (env_id (envs s e)))) \<noteq> env_id (envs s e)"
      using env_table_okD(4) [OF assms(1-3)] by (simp add: st)
    show "env_id (envs s e) \<noteq> 0" by (rule env_table_okD(5) [OF assms(1-3)])
  qed
  moreover have "vm ?s' = m2" "mlfq ?s' = mlfq s" by (simp_all add: env_give_def s0)
  ultimately show ?thesis using run list m(3-5) by auto
qed

text \<open>Environment 0 with frame 6 mapped twice and frame 7 shared with somebody else.\<close>

definition demo_space :: pmem where
  "demo_space = demo_mem\<lparr>phys := (\<lambda>_ _. 0)(5 := (\<lambda>_. 0)(2 := 0x4007),
       4 := (\<lambda>_. 0)(0 := 0x6007, 1 := 0x6007, 3 := 0x7007)),
     pp_ref := (\<lambda>_. 0)(5 := 1, 4 := 1, 6 := 2, 7 := 2)\<rparr>"

definition demo_user :: kern where
  "demo_user = (let s = env_take (env_init demo_kern) 0
     in s\<lparr>envs := (envs s)(0 := demo_env0), vm := demo_space\<rparr>)"

lemma filter_upt_few:
  assumes "k \<le> n" and "\<And>i. k \<le> i \<Longrightarrow> \<not> P i"
  shows "filter P [0..<n] = filter P [0..<k]"
proof -
  have "[0..<n] = [0..<k] @ [k..<n]" using upt_add_eq_append [of 0 k "n - k"] assms(1) by simp
  moreover have "filter P [k..<n] = []" using assms(2) by (simp add: filter_empty_conv)
  ultimately show ?thesis by simp
qed

lemma demo_frames: "space_frames demo_space 5 = [6, 6, 7, 4, 5]"
proof -
  have p: "present demo_space 5 = (\<lambda>d. d = 2)" "present demo_space 4 = (\<lambda>i. i \<in> {0, 1, 3})"
    by (auto simp: present_def demo_space_def PTE_P_def fun_eq_iff)
  have "filter (\<lambda>d. d = 2) [0..<3] = [2::nat]" "filter (\<lambda>i. i \<in> {0, 1, 3}) [0..<4] = [0, 1, 3::nat]"
    by (simp_all add: upt_rec)
  then have lists: "filter (\<lambda>d. d = 2) [0..<955] = [2]" "filter (\<lambda>i. i \<in> {0, 1, 3}) [0..<1024] = [0, 1, 3]"
    using filter_upt_few [of 3 955 "\<lambda>d. d = 2"] filter_upt_few [of 4 1024 "\<lambda>i. i \<in> {0, 1, 3}"]
    by fastforce+
  have "phys demo_space 5 2 = 0x4007" "phys demo_space 4 0 = 0x6007" "phys demo_space 4 1 = 0x6007"
    "phys demo_space 4 3 = 0x7007"
    by (simp_all add: demo_space_def)
  moreover have "PGNUM 0x4007 = 4" "PGNUM 0x6007 = 6" "PGNUM 0x7007 = 7" by (simp_all add: PGNUM_def)
  ultimately have "entry_frames demo_space 4 [0..<1024] = [6, 6, 7]" "PGNUM (phys demo_space 5 2) = 4"
    unfolding entry_frames_def p lists by simp_all
  then show ?thesis
    unfolding space_frames_def table_frames_def PDX_UTOP p(1) lists Let_def by simp
qed

lemma demo_space_ok: "space_ok demo_space 5" "free_pages demo_space = [2, 3]"
proof -
  show fr: "free_pages demo_space = [2, 3]"
    using demo_mem_ok(2) by (simp add: demo_space_def free_pages_def)
  have "pages_inv demo_space" using vm_okD(1) [OF demo_mem_ok(1)] by (simp add: demo_space_def pages_inv_def)
  moreover have "present demo_space 5 d \<longleftrightarrow> d = 2" for d
    by (auto simp: present_def demo_space_def PTE_P_def)
  moreover have "PGNUM (phys demo_space 5 2) = 4" by (simp add: demo_space_def PGNUM_def)
  ultimately show "space_ok demo_space 5"
    by (simp add: space_ok_def demo_frames fr links_ok_def inj_on_def)
      (simp add: demo_space_def demo_mem_def)
qed

lemma demo_user_table: "env_table_ok demo_user" "free_envs demo_user = [1..<NENV]"
proof -
  have "chain (\<lambda>i. env_link (envs demo_user i)) (Some 1) [1..<NENV]"
    by (rule chain_upt) (simp_all add: demo_user_def env_init_def Let_def NENV_def)
  moreover have "env_free_list demo_user = Some 1"
    by (simp add: demo_user_def env_init_def Let_def NENV_def)
  ultimately have list: "env_list_inv demo_user" "free_envs demo_user = [1..<NENV]"
    using free_chainI [of "\<lambda>i. env_link (envs demo_user i)" "Some 1" "[1..<NENV]" NENV]
    by (auto simp: env_list_inv_def free_envs_def)
  then show "free_envs demo_user = [1..<NENV]" by simp
  show "env_table_ok demo_user"
    unfolding env_table_ok_def list(2)
    using list(1) by (auto simp: demo_user_def Let_def status_def env_init_def demo_env0_def ENVX_def)
qed

lemma env_free_releases_witness:
  "\<exists>s'. env_free 0 demo_user 0 = Some s' \<and> set (free_pages (vm s')) = {2, 3, 4, 5, 6} \<and>
     pp_ref (vm s') 7 = 1 \<and> free_envs s' = [0..<NENV]"
proof -
  have "status demo_user 0 \<noteq> ENV_FREE" "env_pgdir (envs demo_user 0) = Some 5" "vm demo_user = demo_space"
    by (simp_all add: demo_user_def Let_def status_def demo_env0_def)
  then obtain s' where s': "env_free 0 demo_user 0 = Some s'" "free_envs s' = 0 # [1..<NENV]"
    "set (free_pages (vm s')) = {2, 3} \<union> {p \<in> {6, 7, 4, 5}. unat (pp_ref demo_space p) = count_list [6, 6, 7, 4, 5] p}"
    "\<forall>p. pp_ref (vm s') p = pp_ref demo_space p - of_nat (count_list [6, 6, 7, 4, 5] p)"
    using env_free_releases [of demo_user 0 5 0] demo_user_table demo_space_ok by (auto simp: demo_frames)
  have ref: "pp_ref demo_space 4 = 1" "pp_ref demo_space 5 = 1" "pp_ref demo_space 6 = 2" "pp_ref demo_space 7 = 2"
    by (simp_all add: demo_space_def)
  have "set (free_pages (vm s')) = {2, 3, 4, 5, 6}" unfolding s'(3) using ref by auto
  moreover have "pp_ref (vm s') 7 = 1" using s'(4) ref by simp
  moreover have "free_envs s' = [0..<NENV]" using s'(2) by (simp add: upt_conv_Cons)
  ultimately show ?thesis using s'(1) by blast
qed

end
