(* ===== verification/Console.thy ===== *)
theory Console
  imports Pmap
begin

unbundle bit_operations_syntax

text \<open>
  The console (\<open>sched/kern/console.c\<close>): decoding of keyboard scan codes, the ring of
  input characters and text output to the screen, the serial and the parallel port. A device
  is read as a list of the readings it still has to give, one (status, data) pair each; when
  the list is empty it has no data. Waiting for a port to become ready is not modelled.
\<close>


definition ascii :: "string \<Rightarrow> w8 list" where "ascii s = map of_char s"

subsection \<open>Keyboard\<close>

definition SHIFT :: "32 word" where "SHIFT = 0x01"
definition CTL :: "32 word" where "CTL = 0x02"
definition ALT :: "32 word" where "ALT = 0x04"
definition CAPSLOCK :: "32 word" where "CAPSLOCK = 0x08"
definition NUMLOCK :: "32 word" where "NUMLOCK = 0x10"
definition SCROLLLOCK :: "32 word" where "SCROLLLOCK = 0x20"
definition E0ESC :: "32 word" where "E0ESC = 0x40"

definition KEY_DEL :: w8 where "KEY_DEL = 0xE9"

text \<open>A table of 256 entries: the first ones in order, then those that are named by their index.\<close>

definition table :: "'a::zero list \<Rightarrow> (nat \<times> 'a) list \<Rightarrow> 'a list" where
  "table first named = foldl (\<lambda>xs (i, v). xs[i := v]) (first @ replicate (256 - length first) 0) named"

definition shiftcode :: "32 word list" where
  "shiftcode = table [] [(0x1D, CTL), (0x2A, SHIFT), (0x36, SHIFT), (0x38, ALT), (0x9D, CTL), (0xB8, ALT)]"

definition togglecode :: "32 word list" where
  "togglecode = table [] [(0x3A, CAPSLOCK), (0x45, NUMLOCK), (0x46, SCROLLLOCK)]"

text \<open>
  The extended keys: home, enter and divide of the keypad, the arrows, page up and down, end,
  insert and delete.
\<close>

definition normalmap :: "w8 list" where
  "normalmap = table
     ([0, 0x1B] @ ascii ''1234567890-='' @ [8, 9] @ ascii ''qwertyuiop[]'' @ [10, 0] @ ascii ''asdfghjkl;''
      @ [39, 96, 0, 92] @ ascii ''zxcvbnm,./'' @ [0] @ ascii ''*'' @ [0] @ ascii '' '' @ replicate 13 0
      @ ascii ''789-456+1230.'' @ replicate 4 0)
     [(0xC7, 0xE0), (0x9C, 10), (0xB5, 47), (0xC8, 0xE2), (0xC9, 0xE6), (0xCB, 0xE4), (0xCD, 0xE5),
      (0xCF, 0xE1), (0xD0, 0xE3), (0xD1, 0xE7), (0xD2, 0xE8), (0xD3, KEY_DEL)]"

definition shiftmap :: "w8 list" where
  "shiftmap = table
     ([0, 0x1B] @ ascii ''!@#$%^&*()_+'' @ [8, 9] @ ascii ''QWERTYUIOP{}'' @ [10, 0] @ ascii ''ASDFGHJKL:''
      @ [34, 126, 0, 124] @ ascii ''ZXCVBNM<>?'' @ [0] @ ascii ''*'' @ [0] @ ascii '' '' @ replicate 13 0
      @ ascii ''789-456+1230.'' @ replicate 4 0)
     [(0xC7, 0xE0), (0x9C, 10), (0xB5, 47), (0xC8, 0xE2), (0xC9, 0xE6), (0xCB, 0xE4), (0xCD, 0xE5),
      (0xCF, 0xE1), (0xD0, 0xE3), (0xD1, 0xE7), (0xD2, 0xE8), (0xD3, KEY_DEL)]"

definition C_key :: "w8 \<Rightarrow> w8" where "C_key x = x - 64"

definition ctlmap :: "w8 list" where
  "ctlmap = table
     (replicate 16 0 @ map C_key (ascii ''QWERTYUIOP'') @ [0, 0, 13, 0] @ map C_key (ascii ''ASDFGHJKL'')
      @ [0, 0, 0, 0, C_key 92] @ map C_key (ascii ''ZXCVBNM'') @ [0, 0, C_key 47, 0, 0])
     [(0x97, 0xE0), (0xB5, C_key 47), (0xC8, 0xE2), (0xC9, 0xE6), (0xCB, 0xE4), (0xCD, 0xE5),
      (0xCF, 0xE1), (0xD0, 0xE3), (0xD1, 0xE7), (0xD2, 0xE8), (0xD3, KEY_DEL)]"

definition charcode :: "w8 list list" where
  "charcode = [normalmap, shiftmap, ctlmap, ctlmap]"

subsection \<open>State\<close>

definition CONSBUFSIZE :: nat where "CONSBUFSIZE = 512"

text \<open>The ring \<open>cons\<close>, the static \<open>shift\<close> of the keyboard, and whether a reboot was asked for.\<close>

record console =
  c_buf :: "w8 list"
  rpos :: nat
  wpos :: nat
  kbd_shift :: "32 word"
  serial_exists :: bool
  rebooted :: bool

type_synonym reading = "w8 \<times> w8"

definition serial_proc_data :: "reading \<Rightarrow> console \<Rightarrow> int \<times> console" where
  "serial_proc_data r s =
     (case r of (lsr, rx) \<Rightarrow> if lsr AND 0x01 = 0 then (- 1, s) else (uint rx, s))"

text \<open>The letters exchange their case under caps lock.\<close>

definition swap_case :: "w8 \<Rightarrow> w8" where
  "swap_case c = (if 97 \<le> c \<and> c \<le> 122 then c - 32 else if 65 \<le> c \<and> c \<le> 90 then c + 32 else c)"

definition kbd_proc_data :: "reading \<Rightarrow> console \<Rightarrow> int \<times> console" where
  "kbd_proc_data r s =
     (case r of (stat, code) \<Rightarrow>
        if stat AND 0x01 = 0 then (- 1, s)
        else if stat AND 0x20 \<noteq> 0 then (- 1, s)
        else if code = 0xE0 then (0, s\<lparr>kbd_shift := kbd_shift s OR E0ESC\<rparr>)
        else if code AND 0x80 \<noteq> 0 then
          (let code = (if kbd_shift s AND E0ESC \<noteq> 0 then code else code AND 0x7F)
           in (0, s\<lparr>kbd_shift := kbd_shift s AND NOT (shiftcode ! unat code OR E0ESC)\<rparr>))
        else
          (let code = (if kbd_shift s AND E0ESC \<noteq> 0 then code OR 0x80 else code);
               sh = kbd_shift s AND NOT E0ESC;
               sh = sh OR shiftcode ! unat code;
               sh = sh XOR togglecode ! unat code;
               c = charcode ! unat (sh AND (CTL OR SHIFT)) ! unat code;
               c = (if sh AND CAPSLOCK \<noteq> 0 then swap_case c else c);
               reboot = (NOT sh AND (CTL OR ALT) = 0 \<and> c = KEY_DEL)
           in (uint c, s\<lparr>kbd_shift := sh, rebooted := rebooted s \<or> reboot\<rparr>)))"

subsection \<open>Input\<close>

definition cons_put :: "w8 \<Rightarrow> console \<Rightarrow> console" where
  "cons_put c s = (let w = wpos s + 1 in
     s\<lparr>c_buf := (c_buf s)[wpos s := c], wpos := (if w = CONSBUFSIZE then 0 else w)\<rparr>)"

fun cons_intr :: "(reading \<Rightarrow> console \<Rightarrow> int \<times> console) \<Rightarrow> reading list \<Rightarrow> console \<Rightarrow> console \<times> reading list" where
  "cons_intr proc [] s = (s, [])"
| "cons_intr proc (r # rs) s =
     (case proc r s of (c, s) \<Rightarrow>
        if c = - 1 then (s, rs)
        else if c = 0 then cons_intr proc rs s
        else cons_intr proc rs (cons_put (word_of_int c) s))"

definition serial_intr :: "reading list \<Rightarrow> console \<Rightarrow> console \<times> reading list" where
  "serial_intr rs s = (if serial_exists s then cons_intr serial_proc_data rs s else (s, rs))"

definition kbd_intr :: "reading list \<Rightarrow> console \<Rightarrow> console \<times> reading list" where
  "kbd_intr rs s = cons_intr kbd_proc_data rs s"

definition cons_take :: "console \<Rightarrow> console \<times> w8" where
  "cons_take s =
     (if rpos s \<noteq> wpos s
      then (let r = rpos s + 1 in
        (s\<lparr>rpos := (if r = CONSBUFSIZE then 0 else r)\<rparr>, c_buf s ! rpos s))
      else (s, 0))"

text \<open>\<open>cons_getc\<close> polls the serial port and the keyboard before it takes a character.\<close>

definition cons_getc :: "reading list \<Rightarrow> reading list \<Rightarrow> console \<Rightarrow> console \<times> w8" where
  "cons_getc serial kbd s = cons_take (fst (kbd_intr kbd (fst (serial_intr serial s))))"

subsection \<open>Output\<close>

definition CRT_COLS :: nat where "CRT_COLS = 80"
definition CRT_SIZE :: nat where "CRT_SIZE = 25 * CRT_COLS"

text \<open>
  \<open>crt_cursor\<close> is the cursor register of the display. A cell has a character and its
  attribute. A write outside of the screen is \<open>None\<close>.
\<close>

record screen =
  crt_buf :: "w16 list"
  crt_pos :: w16
  crt_cursor :: w16
  serial_out :: "w8 list"
  lpt_out :: "w8 list"

definition crt_write :: "w16 \<Rightarrow> w16 \<Rightarrow> screen \<Rightarrow> screen option" where
  "crt_write i c s =
     (if unat i < CRT_SIZE then Some (s\<lparr>crt_buf := (crt_buf s)[unat i := c]\<rparr>) else None)"

definition crt_attribute :: "w16 \<Rightarrow> w16" where
  "crt_attribute c = (if c AND NOT 0xFF = 0 then c OR 0x0700 else c)"

definition cga_scroll :: "screen \<Rightarrow> screen" where
  "cga_scroll s =
     (let s = (if unat (crt_pos s) \<ge> CRT_SIZE
               then s\<lparr>crt_buf := drop CRT_COLS (crt_buf s) @ replicate CRT_COLS 0x0720,
                      crt_pos := crt_pos s - word_of_nat CRT_COLS\<rparr>
               else s)
      in s\<lparr>crt_cursor := crt_pos s\<rparr>)"

definition line_start :: "w16 \<Rightarrow> w16" where
  "line_start p = p - p mod word_of_nat CRT_COLS"

text \<open>The characters other than a tab.\<close>

definition cga_plain :: "w16 \<Rightarrow> screen \<Rightarrow> screen option" where
  "cga_plain c s = do {
     let c = crt_attribute c;
     s \<leftarrow> (if c AND 0xFF = 8 then
             (if crt_pos s > 0
              then crt_write (crt_pos s - 1) (c AND NOT 0xFF OR 32) (s\<lparr>crt_pos := crt_pos s - 1\<rparr>)
              else Some s)
           else if c AND 0xFF = 10 then Some (s\<lparr>crt_pos := line_start (crt_pos s + word_of_nat CRT_COLS)\<rparr>)
           else if c AND 0xFF = 13 then Some (s\<lparr>crt_pos := line_start (crt_pos s)\<rparr>)
           else crt_write (crt_pos s) c (s\<lparr>crt_pos := crt_pos s + 1\<rparr>));
     Some (cga_scroll s)
   }"

definition serial_putc :: "w16 \<Rightarrow> screen \<Rightarrow> screen" where
  "serial_putc c s = s\<lparr>serial_out := serial_out s @ [ucast c]\<rparr>"

definition lpt_putc :: "w16 \<Rightarrow> screen \<Rightarrow> screen" where
  "lpt_putc c s = s\<lparr>lpt_out := lpt_out s @ [ucast c]\<rparr>"

text \<open>A tab is five blanks, each to all three devices.\<close>

fun put_blanks :: "nat \<Rightarrow> screen \<Rightarrow> screen option" where
  "put_blanks 0 s = Some s"
| "put_blanks (Suc n) s = do {
     s \<leftarrow> cga_plain 32 (lpt_putc 32 (serial_putc 32 s));
     put_blanks n s
   }"

definition cga_putc :: "w16 \<Rightarrow> screen \<Rightarrow> screen option" where
  "cga_putc c s =
     (if crt_attribute c AND 0xFF = 9 then map_option cga_scroll (put_blanks 5 s) else cga_plain c s)"

definition cons_putc :: "w16 \<Rightarrow> screen \<Rightarrow> screen option" where
  "cons_putc c s = cga_putc c (lpt_putc c (serial_putc c s))"

text \<open>\<open>cputchar\<close>, and a run of calls of it.\<close>

definition cputchar :: "w16 \<Rightarrow> screen \<Rightarrow> screen option" where
  "cputchar c s = cons_putc c s"

fun put_all :: "w16 list \<Rightarrow> screen \<Rightarrow> screen option" where
  "put_all [] s = Some s"
| "put_all (c # cs) s = do { s \<leftarrow> cputchar c s; put_all cs s }"

end
