(* ===== verification/ConsoleProps.thy ===== *)
theory ConsoleProps
  imports Console
begin

unbundle bit_operations_syntax

text \<open>
  The properties of the console: the input ring is a first-in first-out buffer as long as
  fewer than 512 characters wait in it, it loses everything when they are 512, and output
  never leaves the screen.
\<close>

subsection \<open>A buffer of characters\<close>

fun put_list :: "('c \<Rightarrow> 's \<Rightarrow> 's) \<Rightarrow> 'c list \<Rightarrow> 's \<Rightarrow> 's" where
  "put_list put [] s = s"
| "put_list put (c # cs) s = put_list put cs (put c s)"

fun take_list :: "('s \<Rightarrow> 's \<times> 'c) \<Rightarrow> nat \<Rightarrow> 's \<Rightarrow> 's \<times> 'c list" where
  "take_list get 0 s = (s, [])"
| "take_list get (Suc n) s = (let (s, c) = get s; (s, cs) = take_list get n s in (s, c # cs))"

locale fifo =
  fixes inv :: "'s \<Rightarrow> bool" and contents :: "'s \<Rightarrow> 'c list" and capacity :: nat
    and put :: "'c \<Rightarrow> 's \<Rightarrow> 's" and get :: "'s \<Rightarrow> 's \<times> 'c"
  assumes put_ok: "inv s \<Longrightarrow> length (contents s) < capacity \<Longrightarrow>
      inv (put c s) \<and> contents (put c s) = contents s @ [c]"
    and get_ok: "inv s \<Longrightarrow> contents s = c # cs \<Longrightarrow>
      \<exists>s'. get s = (s', c) \<and> inv s' \<and> contents s' = cs"
begin

lemma put_list_ok:
  "inv s \<Longrightarrow> length (contents s) + length cs \<le> capacity \<Longrightarrow>
     inv (put_list put cs s) \<and> contents (put_list put cs s) = contents s @ cs"
proof (induction cs arbitrary: s)
  case (Cons c cs)
  with put_ok [of s c] show ?case by simp
qed simp

lemma take_list_ok:
  "inv s \<Longrightarrow> n \<le> length (contents s) \<Longrightarrow>
     inv (fst (take_list get n s)) \<and> snd (take_list get n s) = take n (contents s) \<and>
     contents (fst (take_list get n s)) = drop n (contents s)"
proof (induction n arbitrary: s)
  case (Suc n)
  then obtain c cs where c: "contents s = c # cs" by (cases "contents s") auto
  obtain s' where s': "get s = (s', c)" "inv s'" "contents s' = cs" using get_ok [OF Suc.prems(1) c] by blast
  with Suc.IH [OF s'(2)] Suc.prems c show ?case by (simp add: split_def)
qed simp

end

subsection \<open>The ring of the console\<close>

definition cons_ok :: "console \<Rightarrow> bool" where
  "cons_ok s \<longleftrightarrow> length (c_buf s) = CONSBUFSIZE \<and> rpos s < CONSBUFSIZE \<and> wpos s < CONSBUFSIZE"

definition pending :: "console \<Rightarrow> nat" where
  "pending s = (if rpos s \<le> wpos s then wpos s - rpos s else wpos s + CONSBUFSIZE - rpos s)"

definition waiting :: "console \<Rightarrow> w8 list" where
  "waiting s = map (\<lambda>i. c_buf s ! ((rpos s + i) mod CONSBUFSIZE)) [0..<pending s]"

lemma ring_wrap: "i < 2 * n \<Longrightarrow> i mod n = (if i < n then i else i - n)" for i n :: nat
  by (simp add: le_mod_geq)

lemma pending_less: "cons_ok s \<Longrightarrow> pending s < CONSBUFSIZE"
  by (auto simp: cons_ok_def pending_def)

lemma slot_of_pending:
  assumes "cons_ok s" and "i < pending s"
  shows "(rpos s + i) mod CONSBUFSIZE \<noteq> wpos s"
proof -
  have "rpos s + i < 2 * CONSBUFSIZE"
    using assms pending_less [OF assms(1)] by (simp add: cons_ok_def)
  from ring_wrap [OF this] show ?thesis
    using assms by (auto simp: cons_ok_def pending_def split: if_splits)
qed

lemma cons_put_ok:
  assumes ok: "cons_ok s" and room: "length (waiting s) < CONSBUFSIZE - 1"
  shows "cons_ok (cons_put c s) \<and> waiting (cons_put c s) = waiting s @ [c]"
proof -
  let ?s = "cons_put c s"
  have p: "pending s < CONSBUFSIZE - 1" using room by (simp add: waiting_def)
  have sel: "rpos ?s = rpos s" "c_buf ?s = (c_buf s)[wpos s := c]"
    "wpos ?s = (if wpos s + 1 = CONSBUFSIZE then 0 else wpos s + 1)"
    by (simp_all add: cons_put_def Let_def)
  have b: "rpos s < CONSBUFSIZE" "wpos s < CONSBUFSIZE" "length (c_buf s) = CONSBUFSIZE"
    using ok by (simp_all add: cons_ok_def)
  have p': "pending ?s = Suc (pending s)"
    using p b by (auto simp: pending_def sel split: if_splits)
  have "(rpos s + pending s) mod CONSBUFSIZE = wpos s"
    using b by (auto simp: pending_def)
  moreover have "c_buf ?s ! ((rpos s + i) mod CONSBUFSIZE) = c_buf s ! ((rpos s + i) mod CONSBUFSIZE)"
    if "i < pending s" for i
    using slot_of_pending [OF ok that] by (simp add: sel)
  ultimately have "waiting ?s = waiting s @ [c]"
    using b(2,3) by (simp add: waiting_def p') (simp add: sel)
  moreover have "cons_ok ?s" using b by (auto simp: cons_ok_def sel)
  ultimately show ?thesis by simp
qed

lemma cons_take_ok:
  assumes ok: "cons_ok s" and w: "waiting s = c # cs"
  shows "\<exists>s'. cons_take s = (s', c) \<and> cons_ok s' \<and> waiting s' = cs"
proof -
  have p: "pending s = Suc (length cs)"
    using arg_cong [OF w, of length] by (simp add: waiting_def)
  have b: "rpos s < CONSBUFSIZE" "wpos s < CONSBUFSIZE" "length (c_buf s) = CONSBUFSIZE"
    using ok by (simp_all add: cons_ok_def)
  let ?s' = "s\<lparr>rpos := (if rpos s + 1 = CONSBUFSIZE then 0 else rpos s + 1)\<rparr>"
  have ne: "rpos s \<noteq> wpos s" using p by (auto simp: pending_def split: if_splits)
  have p': "pending ?s' = length cs" using p b by (auto simp: pending_def split: if_splits)
  have upt: "[0..<Suc (length cs)] = 0 # map Suc [0..<length cs]"
    by (simp add: upt_conv_Cons map_Suc_upt del: upt_Suc)
  have list: "waiting s = c_buf s ! rpos s # map (\<lambda>i. c_buf s ! ((rpos s + Suc i) mod CONSBUFSIZE)) [0..<length cs]"
    unfolding waiting_def p upt using b(1) by simp
  have "(rpos ?s' + i) mod CONSBUFSIZE = (rpos s + Suc i) mod CONSBUFSIZE" for i
  proof (cases "rpos s + 1 = CONSBUFSIZE")
    case True
    then have "rpos s + Suc i = CONSBUFSIZE + i" by simp
    then have "(rpos s + Suc i) mod CONSBUFSIZE = i mod CONSBUFSIZE" by (simp only: mod_add_self1)
    with True show ?thesis by simp
  qed simp
  then have "waiting ?s' = map (\<lambda>i. c_buf s ! ((rpos s + Suc i) mod CONSBUFSIZE)) [0..<length cs]"
    unfolding waiting_def p' by simp
  then have "waiting ?s' = cs" using list w by simp
  moreover have "c_buf s ! rpos s = c" using list w by simp
  moreover have "cons_take s = (?s', c_buf s ! rpos s)" using ne by (simp add: cons_take_def Let_def)
  moreover have "cons_ok ?s'" using b by (auto simp: cons_ok_def)
  ultimately show ?thesis by auto
qed

interpretation cons_ring: fifo cons_ok waiting "CONSBUFSIZE - 1" cons_put cons_take
  by unfold_locales (rule cons_put_ok cons_take_ok; assumption)+

text \<open>Characters that arrive at the serial port.\<close>

definition serial_data :: "w8 list \<Rightarrow> reading list" where
  "serial_data cs = map (\<lambda>c. (1, c)) cs"

lemma cons_intr_serial:
  "0 \<notin> set cs \<Longrightarrow> cons_intr serial_proc_data (serial_data cs) s = (put_list cons_put cs s, [])"
proof (induction cs arbitrary: s)
  case (Cons c cs)
  have "uint c \<noteq> 0" using Cons.prems by (metis list.set_intros(1) unsigned_eq_0_iff)
  moreover have "0 \<le> uint c" by simp
  then have "uint c \<noteq> - 1" by linarith
  ultimately show ?case using Cons by (simp add: serial_data_def serial_proc_data_def)
qed (simp add: serial_data_def)

text \<open>Reading with nothing new at the devices.\<close>

lemma cons_getc_idle: "cons_getc [] [] s = cons_take s"
  by (simp add: cons_getc_def serial_intr_def kbd_intr_def)

text \<open>C20. The console hands out the characters in the order in which they arrived, the waiting ones
  first, as long as no more than 511 wait.\<close>

theorem console_in_order:
  assumes "cons_ok s" and "serial_exists s" and "0 \<notin> set cs"
    and "length (waiting s) + length cs < CONSBUFSIZE" and "n \<le> length (waiting s) + length cs"
  shows "snd (take_list (cons_getc [] []) n (fst (serial_intr (serial_data cs) s))) = take n (waiting s @ cs) \<and>
     waiting (fst (take_list (cons_getc [] []) n (fst (serial_intr (serial_data cs) s)))) = drop n (waiting s @ cs)"
proof -
  have feed: "fst (serial_intr (serial_data cs) s) = put_list cons_put cs s"
    using assms(2) cons_intr_serial [OF assms(3)] by (simp add: serial_intr_def)
  have "cons_getc [] [] = cons_take" using cons_getc_idle by (rule ext)
  moreover have p: "cons_ok (put_list cons_put cs s)" "waiting (put_list cons_put cs s) = waiting s @ cs"
    using cons_ring.put_list_ok [OF assms(1), of cs] assms(4) by simp_all
  ultimately show ?thesis using cons_ring.take_list_ok [OF p(1), of n] assms(5) by (simp add: feed p(2))
qed

definition demo_console :: console where
  "demo_console = \<lparr>c_buf = replicate CONSBUFSIZE 0, rpos = 511, wpos = 511, kbd_shift = 0,
     serial_exists = True, rebooted = False\<rparr>"

lemma console_in_order_witness:
  "snd (take_list (cons_getc [] []) 2 (fst (serial_intr (serial_data [104, 105]) demo_console))) = [104, 105]"
proof -
  have "cons_ok demo_console" "waiting demo_console = []" "serial_exists demo_console"
    by (simp_all add: cons_ok_def waiting_def pending_def demo_console_def CONSBUFSIZE_def)
  then show ?thesis using console_in_order [of demo_console "[104, 105]" 2] by (simp add: CONSBUFSIZE_def)
qed

text \<open>When 512 characters arrive without being read the write position has gone around to the read
  position, and the console forgets all of them.\<close>

theorem console_full_forgets:
  assumes "cons_ok s" and "serial_exists s" and "0 \<notin> set cs"
    and "length (waiting s) + length cs = CONSBUFSIZE"
  shows "snd (cons_getc [] [] (fst (serial_intr (serial_data cs) s))) = 0 \<and>
     waiting (fst (serial_intr (serial_data cs) s)) = []"
proof -
  have "cs \<noteq> []"
  proof
    assume "cs = []"
    then have "pending s = CONSBUFSIZE" using assms(4) by (simp add: waiting_def)
    with pending_less [OF assms(1)] show False by simp
  qed
  then obtain ds d where cs: "cs = ds @ [d]" by (cases cs rule: rev_exhaust) auto
  let ?t = "put_list cons_put ds s"
  have t: "cons_ok ?t" "waiting ?t = waiting s @ ds"
    using cons_ring.put_list_ok [OF assms(1), of ds] assms(4) cs by simp_all
  have split: "put_list cons_put (xs @ [d]) r = cons_put d (put_list cons_put xs r)" for xs r
    by (induction xs arbitrary: r) simp_all
  have "pending ?t = CONSBUFSIZE - 1"
    using arg_cong [OF t(2), of length] assms(4) cs by (simp add: waiting_def)
  then have "rpos (cons_put d ?t) = wpos (cons_put d ?t)"
    using t(1) by (auto simp: pending_def cons_ok_def cons_put_def Let_def split: if_splits)
  moreover have "fst (serial_intr (serial_data cs) s) = cons_put d ?t"
    using assms(2) cons_intr_serial [OF assms(3)] by (simp add: serial_intr_def cs split)
  ultimately show ?thesis by (simp add: cons_getc_idle cons_take_def waiting_def pending_def)
qed

lemma console_full_forgets_witness:
  "snd (cons_getc [] [] (fst (serial_intr (serial_data (replicate 512 65)) demo_console))) = 0"
proof -
  have "cons_ok demo_console" "waiting demo_console = []" "serial_exists demo_console"
    by (simp_all add: cons_ok_def waiting_def pending_def demo_console_def CONSBUFSIZE_def)
  then show ?thesis
    using console_full_forgets [of demo_console "replicate 512 65"] by (simp add: CONSBUFSIZE_def)
qed

subsection \<open>The screen\<close>

definition screen_ok :: "screen \<Rightarrow> bool" where
  "screen_ok s \<longleftrightarrow> length (crt_buf s) = CRT_SIZE \<and> unat (crt_pos s) < CRT_SIZE"

lemma crt_size: "CRT_SIZE = 2000" "CRT_COLS = 80"
  by (simp_all add: CRT_SIZE_def CRT_COLS_def)

lemma line_start_unat: "unat (line_start p) = unat p - unat p mod 80"
proof -
  have m: "unat (p mod 80) = unat p mod 80" by (simp add: unat_mod)
  then have "p mod 80 \<le> p" by (simp add: word_le_nat_alt)
  then show ?thesis using m by (simp add: line_start_def crt_size unat_sub)
qed

lemma cga_scroll_ok:
  assumes "length (crt_buf s) = CRT_SIZE" and "unat (crt_pos s) < CRT_SIZE + CRT_COLS"
  shows "screen_ok (cga_scroll s)"
proof (cases "unat (crt_pos s) \<ge> CRT_SIZE")
  case True
  then have "unat (crt_pos s - 80) = unat (crt_pos s) - 80"
    by (simp add: crt_size unat_sub word_le_nat_alt)
  then show ?thesis using assms True by (simp add: screen_ok_def cga_scroll_def Let_def crt_size)
next
  case False
  then show ?thesis using assms by (simp add: screen_ok_def cga_scroll_def Let_def)
qed

lemma cga_plain_ok:
  assumes "screen_ok s"
  shows "\<exists>s'. cga_plain c s = Some s' \<and> screen_ok s'"
proof -
  have s: "length (crt_buf s) = 2000" "unat (crt_pos s) < 2000"
    using assms by (simp_all add: screen_ok_def crt_size)
  have up: "unat (crt_pos s + 80) = unat (crt_pos s) + 80" "unat (crt_pos s + 1) = unat (crt_pos s) + 1"
    using s(2) by (simp_all add: unat_word_ariths)
  have down: "unat (crt_pos s - 1) = unat (crt_pos s) - 1" if "0 < crt_pos s"
    using that by (simp add: unat_sub word_le_nat_alt word_less_nat_alt)
  have go: "\<exists>s'. Some (cga_scroll t) = Some s' \<and> screen_ok s'"
    if "length (crt_buf t) = 2000" "unat (crt_pos t) < 2080" for t
    using cga_scroll_ok [of t] that by (simp add: crt_size)
  have st: "unat (line_start p) \<le> unat p" for p by (simp add: line_start_unat)
  consider "crt_attribute c AND 0xFF = 8" "crt_pos s > 0" | "crt_attribute c AND 0xFF = 8" "\<not> crt_pos s > 0"
    | "crt_attribute c AND 0xFF = 10" | "crt_attribute c AND 0xFF = 13"
    | "crt_attribute c AND 0xFF \<notin> {8, 10, 13}" by blast
  then show ?thesis
  proof cases
    case 1
    then show ?thesis using go s down by (simp add: cga_plain_def crt_write_def crt_size)
  next
    case 2
    then show ?thesis using go [of s] s by (simp add: cga_plain_def)
  next
    case 3
    have "unat (line_start (crt_pos s + 80)) < 2080" using st [of "crt_pos s + 80"] up s by linarith
    then show ?thesis using go 3 s by (simp add: cga_plain_def crt_size)
  next
    case 4
    have "unat (line_start (crt_pos s)) < 2080" using st [of "crt_pos s"] s by linarith
    then show ?thesis using go 4 s by (simp add: cga_plain_def)
  next
    case 5
    then show ?thesis using go s up by (simp add: cga_plain_def crt_write_def crt_size)
  qed
qed

lemma cga_plain_ports:
  "cga_plain c s = Some s' \<Longrightarrow> serial_out s' = serial_out s \<and> lpt_out s' = lpt_out s \<and> crt_cursor s' = crt_pos s'"
  by (auto simp: cga_plain_def cga_scroll_def crt_write_def Let_def split: if_splits Option.bind_splits)

lemma put_blanks_ok:
  "screen_ok s \<Longrightarrow> \<exists>s'. put_blanks n s = Some s' \<and> screen_ok s' \<and>
     serial_out s' = serial_out s @ replicate n 32 \<and> lpt_out s' = lpt_out s @ replicate n 32"
proof (induction n arbitrary: s)
  case (Suc n)
  have "screen_ok (lpt_putc 32 (serial_putc 32 s))"
    using Suc.prems by (simp add: screen_ok_def lpt_putc_def serial_putc_def)
  from cga_plain_ok [OF this, of 32] obtain t where
    t: "cga_plain 32 (lpt_putc 32 (serial_putc 32 s)) = Some t" "screen_ok t" by blast
  from cga_plain_ports [OF t(1)] Suc.IH [OF t(2)] t(1) show ?case
    by (auto simp: serial_putc_def lpt_putc_def)
qed simp

text \<open>What a character sends to a port.\<close>

definition port_bytes :: "w16 \<Rightarrow> w8 list" where
  "port_bytes c = ucast c # (if crt_attribute c AND 0xFF = 9 then replicate 5 32 else [])"

lemma cputchar_ok:
  assumes "screen_ok s"
  shows "\<exists>s'. cputchar c s = Some s' \<and> screen_ok s' \<and> crt_cursor s' = crt_pos s' \<and>
     serial_out s' = serial_out s @ port_bytes c \<and> lpt_out s' = lpt_out s @ port_bytes c"
proof -
  let ?s = "lpt_putc c (serial_putc c s)"
  have ok: "screen_ok ?s" using assms by (simp add: screen_ok_def lpt_putc_def serial_putc_def)
  have out: "serial_out ?s = serial_out s @ [ucast c]" "lpt_out ?s = lpt_out s @ [ucast c]"
    by (simp_all add: lpt_putc_def serial_putc_def)
  show ?thesis
  proof (cases "crt_attribute c AND 0xFF = 9")
    case True
    obtain t where t: "put_blanks 5 ?s = Some t" "screen_ok t"
      "serial_out t = serial_out ?s @ replicate 5 32" "lpt_out t = lpt_out ?s @ replicate 5 32"
      using put_blanks_ok [OF ok, of 5] by blast
    then have "cga_scroll t = t\<lparr>crt_cursor := crt_pos t\<rparr>"
      by (simp add: screen_ok_def cga_scroll_def Let_def)
    with t True show ?thesis
      by (simp add: cputchar_def cons_putc_def cga_putc_def out port_bytes_def screen_ok_def)
  next
    case False
    obtain t where t: "cga_plain c ?s = Some t" "screen_ok t" using cga_plain_ok [OF ok] by blast
    with False cga_plain_ports [OF t(1)] show ?thesis
      by (simp add: cputchar_def cons_putc_def cga_putc_def out port_bytes_def)
  qed
qed

text \<open>C21. Output never leaves the screen: from a cursor on the screen any sequence of characters can be
  put, the cursor stays on the screen, and every character goes to both ports, a tab with five
  blanks after it.\<close>

theorem output_stays_on_screen:
  assumes "screen_ok s"
  shows "\<exists>s'. put_all cs s = Some s' \<and> screen_ok s' \<and>
     serial_out s' = serial_out s @ concat (map port_bytes cs) \<and>
     lpt_out s' = lpt_out s @ concat (map port_bytes cs)"
  using assms
proof (induction cs arbitrary: s)
  case (Cons c cs)
  obtain t where t: "cputchar c s = Some t" "screen_ok t" "serial_out t = serial_out s @ port_bytes c"
    "lpt_out t = lpt_out s @ port_bytes c"
    using cputchar_ok [OF Cons.prems] by blast
  from Cons.IH [OF t(2)] t show ?case by auto
qed simp

definition demo_screen :: screen where
  "demo_screen = \<lparr>crt_buf = replicate CRT_SIZE 0, crt_pos = 1999, crt_cursor = 0, serial_out = [], lpt_out = []\<rparr>"

lemma five: "replicate 5 x = [x, x, x, x, x]" for x :: "'a"
  by (simp add: numeral_eq_Suc)

lemma output_stays_on_screen_witness:
  "\<exists>s'. put_all [65, 9, 66] demo_screen = Some s' \<and> screen_ok s' \<and>
     serial_out s' = [65, 9, 32, 32, 32, 32, 32, 66]"
proof -
  have "screen_ok demo_screen" by (simp add: screen_ok_def demo_screen_def crt_size)
  moreover have "port_bytes 65 = [65]" "port_bytes 9 = [9, 32, 32, 32, 32, 32]" "port_bytes 66 = [66]"
    by (simp_all add: port_bytes_def crt_attribute_def five)
  moreover have "serial_out demo_screen = []" by (simp add: demo_screen_def)
  ultimately show ?thesis using output_stays_on_screen [of demo_screen "[65, 9, 66]"] by auto
qed

end
