(* ===== verification/Syscall.thy ===== *)
theory Syscall
  imports EnvProps ConsoleProps
begin

unbundle bit_operations_syntax

text \<open>
  The system calls (\<open>sched/kern/syscall.c\<close>). A call works on the kernel's state and the
  console; it returns a word to its caller or, when another environment is run or the
  processor halts, does not return. \<open>None\<close> is a panic or undefined behaviour. What the kernel
  prints on its own account is not modelled; what \<open>sys_cputs\<close> prints is part of the result.
\<close>

record machine =
  kst :: kern
  con :: console

datatype sysret = Ret w32 | Gone outcome

text \<open>The result of a call that may give up the processor: code or outcome.\<close>

definition ret :: "int \<Rightarrow> sysret" where "ret r = Ret (word_of_int r)"

subsection \<open>Memory as the processor sees it\<close>

text \<open>A byte read by the kernel through a page directory; a missing page is a fault in the kernel.\<close>

definition load_byte :: "pmem \<Rightarrow> nat \<Rightarrow> w32 \<Rightarrow> w8 option" where
  "load_byte m pgdir va =
     (let pde = phys m pgdir (PDX va); pte = phys m (PGNUM pde) (PTX va); off = unat (va AND 0xFFF)
      in if pde AND PTE_P = 0 \<or> pte AND PTE_P = 0 then None
         else Some (ucast (drop_bit (8 * (off mod 4)) (phys m (PGNUM pte) (off div 4)))))"

subsection \<open>Permissions and pages\<close>

definition check_perm :: "w32 \<Rightarrow> w32 option \<Rightarrow> int" where
  "check_perm perm pte =
     (if perm AND NOT PTE_SYSCALL \<noteq> 0 then - E_INVAL
      else if perm AND PTE_P = 0 \<or> perm AND PTE_U = 0 then - E_INVAL
      else (case pte of
          None \<Rightarrow> 0
        | Some v \<Rightarrow>
            if v \<noteq> 0 \<and> v AND PTE_P = 0 then - E_INVAL
            else if perm AND PTE_W \<noteq> 0 \<and> v AND PTE_W = 0 then - E_INVAL
            else 0))"

definition env_page_alloc :: "kern \<Rightarrow> nat \<Rightarrow> w32 \<Rightarrow> w32 \<Rightarrow> (kern \<times> int) option" where
  "env_page_alloc s e va perm =
     (if check_perm perm None < 0 then Some (s, check_perm perm None)
      else case page_alloc (vm s) True of
        (m, None) \<Rightarrow> Some (s\<lparr>vm := m\<rparr>, - E_NO_MEM)
      | (m, Some p) \<Rightarrow> do {
          pgdir \<leftarrow> env_pgdir (envs s e);
          (m, r) \<leftarrow> page_insert m pgdir p va perm;
          Some (s\<lparr>vm := m\<rparr>, r)
        })"

definition env_page_map :: "kern \<Rightarrow> nat \<Rightarrow> w32 \<Rightarrow> nat \<Rightarrow> w32 \<Rightarrow> w32 \<Rightarrow> (kern \<times> int) option" where
  "env_page_map s srcenv srcva dstenv dstva perm = do {
     src \<leftarrow> env_pgdir (envs s srcenv);
     found \<leftarrow> page_lookup (vm s) src srcva;
     case found of
       None \<Rightarrow> Some (s, - E_INVAL)
     | Some (p, t, i) \<Rightarrow>
         if perm AND PTE_W AND NOT (PTE_W AND phys (vm s) t i) \<noteq> 0 then Some (s, - E_INVAL)
         else do {
           dst \<leftarrow> env_pgdir (envs s dstenv);
           (m, r) \<leftarrow> page_insert (vm s) dst p dstva perm;
           Some (s\<lparr>vm := m\<rparr>, r)
         }
   }"

subsection \<open>Console\<close>

text \<open>
  \<open>cprintf("%.*s", len, s)\<close>: the loop of the \<open>%s\<close> conversion reads a character before it
  looks at the precision. A negative precision is no limit.
\<close>

fun put_limited :: "(w32 \<Rightarrow> w8 option) \<Rightarrow> w32 \<Rightarrow> nat \<Rightarrow> w8 list option" where
  "put_limited rd p 0 = do { _ \<leftarrow> rd p; Some [] }"
| "put_limited rd p (Suc n) = do {
     ch \<leftarrow> rd p;
     if ch = 0 then Some [] else map_option ((#) ch) (put_limited rd (p + 1) n)
   }"

partial_function (option) put_unlimited :: "(w32 \<Rightarrow> w8 option) \<Rightarrow> w32 \<Rightarrow> w8 list option" where
  "put_unlimited rd p = do {
     ch \<leftarrow> rd p;
     if ch = 0 then Some [] else do { cs \<leftarrow> put_unlimited rd (p + 1); Some (ch # cs) }
   }"

declare put_unlimited.simps [code]

definition null_text :: "w8 list" where "null_text = map of_char ''(null)''"

text \<open>The characters of a string argument of \<open>%s\<close> that are printed; a negative precision is none.\<close>

definition arg_chars :: "(w32 \<Rightarrow> w8 option) \<Rightarrow> w32 \<Rightarrow> int \<Rightarrow> w8 list option" where
  "arg_chars rd p prec =
     (if p = 0 then Some (if prec < 0 then null_text else take (nat prec) null_text)
      else if prec < 0 then put_unlimited rd p else put_limited rd p (nat prec))"

text \<open>\<open>cprintf("%.*s", len, s)\<close>\<close>

definition put_string :: "(w32 \<Rightarrow> w8 option) \<Rightarrow> w32 \<Rightarrow> w32 \<Rightarrow> w8 list option" where
  "put_string rd p len = arg_chars rd p (sint len)"

definition sys_cputs :: "scheduler \<Rightarrow> nat \<Rightarrow> kern \<Rightarrow> w32 \<Rightarrow> w32 \<Rightarrow> (kern \<times> w8 list \<times> sysret) option" where
  "sys_cputs cfg c s p len = do {
     e \<leftarrow> cpu_env s c;
     (s, gone) \<leftarrow> user_mem_assert cfg c s e p len (PTE_P OR PTE_W OR PTE_U);
     case gone of
       Some r \<Rightarrow> Some (s, [], Gone r)
     | None \<Rightarrow> do {
         cs \<leftarrow> put_string (load_byte (vm s) (cpu_cr3 s c)) p len;
         Some (s, cs, Ret 0)
       }
   }"

subsection \<open>Environments\<close>

definition sys_getenvid :: "nat \<Rightarrow> kern \<Rightarrow> (kern \<times> sysret) option" where
  "sys_getenvid c s = do { e \<leftarrow> cpu_env s c; Some (s, Ret (env_id (envs s e))) }"

definition sys_env_destroy :: "scheduler \<Rightarrow> nat \<Rightarrow> kern \<Rightarrow> w32 \<Rightarrow> (kern \<times> sysret) option" where
  "sys_env_destroy cfg c s envid = do {
     (r, e) \<leftarrow> envid2env c s envid True;
     if r < 0 then Some (s, ret r)
     else do {
       e \<leftarrow> e;
       (s, gone) \<leftarrow> env_destroy cfg c s e;
       Some (s, case gone of None \<Rightarrow> Ret 0 | Some r \<Rightarrow> Gone r)
     }
   }"

definition sys_yield :: "scheduler \<Rightarrow> nat \<Rightarrow> kern \<Rightarrow> (kern \<times> sysret) option" where
  "sys_yield cfg c s = map_option (\<lambda>(s, r). (s, Gone r)) (sched_yield cfg c s)"

definition sys_exofork :: "nat \<Rightarrow> kern \<Rightarrow> (kern \<times> sysret) option" where
  "sys_exofork c s = do {
     k \<leftarrow> cpu_env s c;
     (s, r, new) \<leftarrow> env_alloc c s (env_id (envs s k));
     if r \<noteq> 0 then Some (s, ret r)
     else do {
       e \<leftarrow> new;
       let s = upd_env e (set_status ENV_NOT_RUNNABLE) s;
       let tf = env_tf (envs s k);
       let s = upd_env e (\<lambda>x. x\<lparr>env_tf := tf\<lparr>reg_eax := 0\<rparr>\<rparr>) s;
       Some (s, Ret (env_id (envs s e)))
     }
   }"

definition status_of_word :: "w32 \<Rightarrow> env_status option" where
  "status_of_word st =
     (if st = 2 then Some ENV_RUNNABLE else if st = 4 then Some ENV_NOT_RUNNABLE else None)"

definition sys_env_set_status :: "nat \<Rightarrow> kern \<Rightarrow> w32 \<Rightarrow> w32 \<Rightarrow> (kern \<times> sysret) option" where
  "sys_env_set_status c s envid st =
     (case status_of_word st of
        None \<Rightarrow> Some (s, ret (- E_INVAL))
      | Some st \<Rightarrow> do {
          (r, e) \<leftarrow> envid2env c s envid True;
          if r \<noteq> 0 then Some (s, ret r)
          else do { e \<leftarrow> e; Some (upd_env e (set_status st) s, Ret 0) }
        })"

text \<open>
  The address is checked in the address space of \<open>envid\<close>. When that destroys a child, the call
  goes on with it.
\<close>

definition sys_env_set_pgfault_upcall ::
  "scheduler \<Rightarrow> nat \<Rightarrow> kern \<Rightarrow> w32 \<Rightarrow> w32 \<Rightarrow> (kern \<times> sysret) option" where
  "sys_env_set_pgfault_upcall cfg c s envid func = do {
     (r, e) \<leftarrow> envid2env c s envid True;
     if r \<noteq> 0 then Some (s, ret r)
     else do {
       e \<leftarrow> e;
       (s, gone) \<leftarrow> user_mem_assert cfg c s e func PGSIZE (PTE_P OR PTE_U);
       case gone of
         Some r \<Rightarrow> Some (s, Gone r)
       | None \<Rightarrow> Some (upd_env e (\<lambda>x. x\<lparr>env_pgfault_upcall := func\<rparr>) s, Ret 0)
     }
   }"

subsection \<open>Memory\<close>

definition bad_va :: "w32 \<Rightarrow> bool" where "bad_va va \<longleftrightarrow> va \<ge> UTOP \<or> va mod PGSIZE \<noteq> 0"

definition sys_page_alloc :: "nat \<Rightarrow> kern \<Rightarrow> w32 \<Rightarrow> w32 \<Rightarrow> w32 \<Rightarrow> (kern \<times> sysret) option" where
  "sys_page_alloc c s envid va perm =
     (if bad_va va then Some (s, ret (- E_INVAL))
      else do {
        (r, e) \<leftarrow> envid2env c s envid True;
        if r \<noteq> 0 then Some (s, ret r)
        else do {
          e \<leftarrow> e;
          (s, r) \<leftarrow> env_page_alloc s e va (perm OR PTE_U OR PTE_P);
          Some (s, ret r)
        }
      })"

definition sys_page_map :: "nat \<Rightarrow> kern \<Rightarrow> w32 \<Rightarrow> w32 \<Rightarrow> w32 \<Rightarrow> w32 \<Rightarrow> w32 \<Rightarrow> (kern \<times> sysret) option" where
  "sys_page_map c s srcenvid srcva dstenvid dstva perm =
     (if bad_va srcva then Some (s, ret (- E_INVAL))
      else if bad_va dstva then Some (s, ret (- E_INVAL))
      else do {
        (r, src) \<leftarrow> envid2env c s srcenvid True;
        if r \<noteq> 0 then Some (s, ret r)
        else do {
          (r, dst) \<leftarrow> envid2env c s dstenvid True;
          if r \<noteq> 0 then Some (s, ret r)
          else do {
            src \<leftarrow> src;
            dst \<leftarrow> dst;
            (s, r) \<leftarrow> env_page_map s src srcva dst dstva (PTE_P OR PTE_U OR perm);
            Some (s, ret r)
          }
        }
      })"

definition sys_page_unmap :: "nat \<Rightarrow> kern \<Rightarrow> w32 \<Rightarrow> w32 \<Rightarrow> (kern \<times> sysret) option" where
  "sys_page_unmap c s envid va =
     (if bad_va va then Some (s, ret (- E_INVAL))
      else do {
        (r, e) \<leftarrow> envid2env c s envid True;
        if r \<noteq> 0 then Some (s, ret r)
        else do {
          e \<leftarrow> e;
          pgdir \<leftarrow> env_pgdir (envs s e);
          m \<leftarrow> page_remove (vm s) pgdir va;
          Some (s\<lparr>vm := m\<rparr>, Ret 0)
        }
      })"

subsection \<open>Messages\<close>

definition ipc_deliver :: "kern \<Rightarrow> nat \<Rightarrow> nat \<Rightarrow> w32 \<Rightarrow> kern" where
  "ipc_deliver s k e v =
     (let from = env_id (envs s k) in
      upd_env e (\<lambda>x. x\<lparr>env_ipc_from := from, env_ipc_recving := False, env_ipc_value := v,
        env_tf := (env_tf x)\<lparr>reg_eax := 0\<rparr>, env_status := ENV_RUNNABLE\<rparr>) s)"

text \<open>
  \<open>sys_ipc_try_send\<close> with a page: the entry of the page is read through a pointer that is only
  set when the page is mapped. The receiver gets a fresh page before the sender's page takes
  its place.
\<close>

definition ipc_send_page ::
  "kern \<Rightarrow> nat \<Rightarrow> nat \<Rightarrow> w32 \<Rightarrow> w32 \<Rightarrow> (kern \<times> int) option" where
  "ipc_send_page s k e srcva perm =
     (if srcva mod PGSIZE \<noteq> 0 then Some (s, - E_INVAL)
      else do {
        pgdir \<leftarrow> env_pgdir (envs s k);
        found \<leftarrow> page_lookup (vm s) pgdir srcva;
        (p, t, i) \<leftarrow> found;
        let pte = phys (vm s) t i;
        if pte \<noteq> 0 \<and> pte AND PTE_P = 0 then Some (s, - E_INVAL)
        else if perm AND PTE_W \<noteq> 0 \<and> pte AND PTE_W = 0 then Some (s, - E_INVAL)
        else do {
          let perm = perm OR PTE_U OR PTE_P;
          let dstva = env_ipc_dstva (envs s e);
          if dstva = 0 then Some (s, 0)
          else do {
            (s, r) \<leftarrow> env_page_alloc s e dstva perm;
            if r < 0 then Some (s, r)
            else do {
              (s, r) \<leftarrow> env_page_map s k srcva e dstva perm;
              if r < 0 then Some (s, r)
              else Some (upd_env e (\<lambda>x. x\<lparr>env_ipc_perm := perm\<rparr>) s, 0)
            }
          }
        }
      })"

definition sys_ipc_try_send :: "nat \<Rightarrow> kern \<Rightarrow> w32 \<Rightarrow> w32 \<Rightarrow> w32 \<Rightarrow> w32 \<Rightarrow> (kern \<times> sysret) option" where
  "sys_ipc_try_send c s envid v srcva perm = do {
     (r, e) \<leftarrow> envid2env c s envid False;
     if r \<noteq> 0 then Some (s, ret r)
     else do {
       e \<leftarrow> e;
       if \<not> env_ipc_recving (envs s e) then Some (s, ret (- E_IPC_NOT_RECV))
       else do {
         k \<leftarrow> cpu_env s c;
         if srcva \<ge> UTOP
         then Some (ipc_deliver (upd_env e (\<lambda>x. x\<lparr>env_ipc_perm := 0\<rparr>) s) k e v, Ret 0)
         else do {
           (s, r) \<leftarrow> ipc_send_page s k e srcva perm;
           if r < 0 then Some (s, ret r) else Some (ipc_deliver s k e v, Ret 0)
         }
       }
     }
   }"

definition sys_ipc_recv :: "scheduler \<Rightarrow> nat \<Rightarrow> kern \<Rightarrow> w32 \<Rightarrow> (kern \<times> sysret) option" where
  "sys_ipc_recv cfg c s dstva = do {
     k \<leftarrow> cpu_env s c;
     let s = upd_env k (\<lambda>x. x\<lparr>env_ipc_recving := True\<rparr>) s;
     if bad_va dstva then Some (s, ret (- E_INVAL))
     else do {
       let s = upd_env k (\<lambda>x. x\<lparr>env_ipc_dstva := dstva, env_status := ENV_NOT_RUNNABLE\<rparr>) s;
       sys_yield cfg c s
     }
   }"

subsection \<open>Priorities\<close>

definition sys_env_get_priority :: "nat \<Rightarrow> kern \<Rightarrow> w32 \<Rightarrow> (kern \<times> sysret) option" where
  "sys_env_get_priority c s envid = do {
     (r, e) \<leftarrow> envid2env c s envid False;
     if r \<noteq> 0 then Some (s, ret r)
     else do { e \<leftarrow> e; Some (s, ret (current_queue (envs s e))) }
   }"

definition sys_env_set_priority :: "nat \<Rightarrow> kern \<Rightarrow> w32 \<Rightarrow> int \<Rightarrow> (kern \<times> sysret) option" where
  "sys_env_set_priority c s envid priority =
     (if priority < 0 \<or> priority > 3 then Some (s, ret (- 1))
      else do {
        (r, e) \<leftarrow> envid2env c s envid False;
        if r \<noteq> 0 then Some (s, ret (- 1))
        else do {
          e \<leftarrow> e;
          k \<leftarrow> cpu_env s c;
          if e \<noteq> k \<and> env_parent_id (envs s e) \<noteq> env_id (envs s k) then Some (s, ret (- 1))
          else if current_queue (envs s e) = priority then Some (s, ret priority)
          else if current_queue (envs s e) > priority then Some (s, ret (- 1))
          else do {
            let eid = env_id (envs s e);
            s \<leftarrow> sched_destroy_env s eid;
            s \<leftarrow> sched_push_env s eid priority;
            Some (upd_env e (\<lambda>x. x\<lparr>current_queue := priority\<rparr>) s, ret priority)
          }
        }
      })"

subsection \<open>Dispatch\<close>

text \<open>\<open>serial\<close> and \<open>kbd\<close> are the readings that the input devices have to give.\<close>

definition on_kernel :: "machine \<Rightarrow> (kern \<times> sysret) option \<Rightarrow> (machine \<times> w8 list \<times> sysret) option" where
  "on_kernel m r = map_option (\<lambda>(s, r). (m\<lparr>kst := s\<rparr>, [], r)) r"

definition syscall ::
  "scheduler \<Rightarrow> nat \<Rightarrow> reading list \<Rightarrow> reading list \<Rightarrow> machine \<Rightarrow> w32 \<Rightarrow> w32 \<Rightarrow> w32 \<Rightarrow> w32 \<Rightarrow> w32 \<Rightarrow> w32 \<Rightarrow>
     (machine \<times> w8 list \<times> sysret) option" where
  "syscall cfg c serial kbd m no a1 a2 a3 a4 a5 =
     (let s = kst m in
      if no = 0 then map_option (\<lambda>(s, cs, r). (m\<lparr>kst := s\<rparr>, cs, r)) (sys_cputs cfg c s a1 a2)
      else if no = 2 then on_kernel m (sys_getenvid c s)
      else if no = 3 then on_kernel m (sys_env_destroy cfg c s a1)
      else if no = 1 then (let (cn, ch) = cons_getc serial kbd (con m) in Some (m\<lparr>con := cn\<rparr>, [], Ret (ucast ch)))
      else if no = 7 then on_kernel m (sys_exofork c s)
      else if no = 8 then on_kernel m (sys_env_set_status c s a1 a2)
      else if no = 4 then on_kernel m (sys_page_alloc c s a1 a2 a3)
      else if no = 5 then on_kernel m (sys_page_map c s a1 a2 a3 a4 a5)
      else if no = 6 then on_kernel m (sys_page_unmap c s a1 a2)
      else if no = 12 then on_kernel m (sys_ipc_recv cfg c s a1)
      else if no = 11 then on_kernel m (sys_ipc_try_send c s a1 a2 a3 a4)
      else if no = 9 then on_kernel m (sys_env_set_pgfault_upcall cfg c s a1 a2)
      else if no = 10 then on_kernel m (sys_yield cfg c s)
      else if no = 13 then on_kernel m (sys_env_get_priority c s a1)
      else if no = 14 then on_kernel m (sys_env_set_priority c s a1 (sint a2))
      else Some (m, [], ret (- E_INVAL)))"

end
