(* ===== verification/SyscallProps.thy ===== *)
theory SyscallProps
  imports Syscall
begin

unbundle bit_operations_syntax

text \<open>
  The properties of the system calls: authority over other environments, the delivery of
  messages, what \<open>sys_cputs\<close> lets a program read, and changes of priority.
\<close>

subsection \<open>Authority\<close>

lemma envid2env_denied:
  assumes "cpu_env s c = Some k" and "envid \<noteq> 0" and "ENVX envid \<noteq> k"
    and "env_parent_id (envs s (ENVX envid)) \<noteq> env_id (envs s k)"
  shows "envid2env c s envid True = Some (- E_BAD_ENV, None)"
  using assms by (simp add: envid2env_def Let_def)

lemma envid2env_total: "cpu_env s c = Some k \<Longrightarrow> \<exists>r e. envid2env c s envid chk = Some (r, e) \<and> r \<le> 0"
  by (auto simp: envid2env_def Let_def E_BAD_ENV_def)

lemma envid2env_found:
  "cpu_env s c = Some k \<Longrightarrow> envid2env c s envid chk = Some (r, e) \<Longrightarrow> r = 0 \<Longrightarrow> e \<noteq> None"
  by (auto simp: envid2env_def Let_def E_BAD_ENV_def dest: sym split: if_splits)

lemma denied_calls:
  assumes "envid2env c s envid True = Some (- E_BAD_ENV, None)"
  shows "sys_env_destroy cfg c s envid = Some (s, ret (- E_BAD_ENV))"
    and "sys_page_alloc c s envid va perm = Some (s, ret (if bad_va va then - E_INVAL else - E_BAD_ENV))"
    and "sys_page_unmap c s envid va = Some (s, ret (if bad_va va then - E_INVAL else - E_BAD_ENV))"
    and "sys_env_set_status c s envid st =
           Some (s, ret (if status_of_word st = None then - E_INVAL else - E_BAD_ENV))"
    and "sys_env_set_pgfault_upcall cfg c s envid func = Some (s, ret (- E_BAD_ENV))"
  using assms
  by (auto simp: sys_env_destroy_def sys_page_alloc_def sys_page_unmap_def sys_env_set_status_def
      sys_env_set_pgfault_upcall_def E_BAD_ENV_def split: option.splits)

text \<open>The calls whose first argument names an environment that they act on.\<close>

definition acting_calls :: "w32 set" where "acting_calls = {3, 4, 6, 8, 9, 14}"

text \<open>C24. Authority: an environment that is neither the caller nor a child of the caller cannot be
  destroyed, have its memory, its status, its fault handler or its priority changed, nor be either
  end of a page mapping. The call fails with a negative code and nothing changes.\<close>

theorem syscall_needs_authority:
  assumes "cpu_env (kst m) c = Some k" and "envid \<noteq> 0" and "ENVX envid \<noteq> k"
    and "env_parent_id (envs (kst m) (ENVX envid)) \<noteq> env_id (envs (kst m) k)"
  shows "(\<forall>no\<in>acting_calls. \<exists>r<0. syscall cfg c ser kbd m no envid a2 a3 a4 a5 = Some (m, [], ret r)) \<and>
     (\<exists>r<0. syscall cfg c ser kbd m 5 envid a2 a3 a4 a5 = Some (m, [], ret r)) \<and>
     (\<exists>r<0. syscall cfg c ser kbd m 5 a1 a2 envid a4 a5 = Some (m, [], ret r))"
proof -
  note den = envid2env_denied [OF assms]
  have neg: "- E_BAD_ENV < 0" "- E_INVAL < 0" by (simp_all add: E_BAD_ENV_def E_INVAL_def)
  have fails: "\<exists>r'<0. on_kernel m (Some (kst m, ret r)) = Some (m, [], ret r')" if "r < 0" for r
    using that by (auto simp: on_kernel_def)
  have one: "\<exists>r<0. syscall cfg c ser kbd m no envid a2 a3 a4 a5 = Some (m, [], ret r)"
    if "no \<in> acting_calls - {14}" for no
  proof -
    have "no = 3 \<or> no = 4 \<or> no = 6 \<or> no = 8 \<or> no = 9" using that by (auto simp: acting_calls_def)
    then show ?thesis
      using neg by (elim disjE) (simp_all add: syscall_def denied_calls [OF den] fails)
  qed
  have prio: "sys_env_set_priority c (kst m) envid p = Some (kst m, ret (- 1))" for p
  proof -
    obtain r e where r: "envid2env c (kst m) envid False = Some (r, e)"
      using envid2env_total [OF assms(1)] by blast
    then have "r = 0 \<Longrightarrow> e = Some (ENVX envid)"
      using assms(2) by (auto simp: envid2env_def Let_def E_BAD_ENV_def split: if_splits)
    then show ?thesis using r assms by (cases "r = 0") (simp_all add: sys_env_set_priority_def)
  qed
  have set_priority: "\<exists>r<0. syscall cfg c ser kbd m 14 envid a2 a3 a4 a5 = Some (m, [], ret r)"
    by (simp add: syscall_def prio fails)
  have src: "\<exists>r<0. syscall cfg c ser kbd m 5 envid a2 a3 a4 a5 = Some (m, [], ret r)"
    using neg by (simp add: syscall_def sys_page_map_def den fails Let_def)
  obtain r e where r: "envid2env c (kst m) a1 True = Some (r, e)" "r \<le> 0"
    using envid2env_total [OF assms(1)] by blast
  have dst: "\<exists>r<0. syscall cfg c ser kbd m 5 a1 a2 envid a4 a5 = Some (m, [], ret r)"
    using neg r by (cases "r = 0") (simp_all add: syscall_def sys_page_map_def den fails Let_def)
  show ?thesis using one set_priority src dst by (auto simp: acting_calls_def)
qed

subsection \<open>Messages\<close>

lemma ipc_send_ok:
  assumes "cpu_env s c = Some k" and "envid2env c s envid False = Some (0, Some e)"
    and "env_ipc_recving (envs s e)" and "UTOP \<le> srcva" and "envid \<noteq> 0"
  shows "\<exists>s'. sys_ipc_try_send c s envid v srcva perm = Some (s', Ret 0) \<and>
     envs s' e = (envs s e)\<lparr>env_ipc_from := env_id (envs s k), env_ipc_recving := False,
       env_ipc_value := v, env_ipc_perm := 0, env_tf := (env_tf (envs s e))\<lparr>reg_eax := 0\<rparr>,
       env_status := ENV_RUNNABLE\<rparr> \<and>
     (\<forall>i. i \<noteq> e \<longrightarrow> envs s' i = envs s i) \<and> vm s' = vm s \<and> mlfq s' = mlfq s \<and> cpu_env s' = cpu_env s \<and>
     (\<forall>w va perm'. sys_ipc_try_send c s' envid w va perm' = Some (s', ret (- E_IPC_NOT_RECV)))"
proof -
  have e: "e = ENVX envid" "status s e \<noteq> ENV_FREE" "env_id (envs s e) = envid"
    using assms(2,5) by (auto simp: envid2env_def Let_def E_BAD_ENV_def split: if_splits)
  let ?s' = "ipc_deliver (upd_env e (\<lambda>x. x\<lparr>env_ipc_perm := 0\<rparr>) s) k e v"
  have run: "sys_ipc_try_send c s envid v srcva perm = Some (?s', Ret 0)"
    using assms by (simp add: sys_ipc_try_send_def)
  have from_id: "env_id (envs (upd_env e (\<lambda>x. x\<lparr>env_ipc_perm := 0\<rparr>) s) k) = env_id (envs s k)" by simp
  have new: "envs ?s' e = (envs s e)\<lparr>env_ipc_from := env_id (envs s k), env_ipc_recving := False,
       env_ipc_value := v, env_ipc_perm := 0, env_tf := (env_tf (envs s e))\<lparr>reg_eax := 0\<rparr>,
       env_status := ENV_RUNNABLE\<rparr>"
    unfolding ipc_deliver_def from_id Let_def by (cases "envs s e") simp
  have "status ?s' e = ENV_RUNNABLE" using new by (simp add: status_def)
  then have "envid2env c ?s' envid False = Some (0, Some e)"
    using envid2env_live [of ?s' envid c] e new assms(5) by simp
  moreover have "\<not> env_ipc_recving (envs ?s' e)" using new by simp
  ultimately have "sys_ipc_try_send c ?s' envid w va perm' = Some (?s', ret (- E_IPC_NOT_RECV))" for w va perm'
    by (simp add: sys_ipc_try_send_def)
  moreover have "envs ?s' i = envs s i" if "i \<noteq> e" for i using that by (simp add: ipc_deliver_def Let_def)
  moreover have "vm ?s' = vm s" "mlfq ?s' = mlfq s" "cpu_env ?s' = cpu_env s"
    by (simp_all add: ipc_deliver_def Let_def)
  ultimately show ?thesis using run new by blast
qed

text \<open>C25. A message without a page reaches an environment that waits for one: the value and the sender are
  stored, the receiver becomes runnable with result 0, nothing else changes, and until the receiver
  asks again further messages are refused.\<close>

theorem ipc_delivers:
  assumes "cpu_env s c = Some k" and "envid2env c s envid False = Some (0, Some e)"
    and "env_ipc_recving (envs s e)" and "UTOP \<le> srcva" and "envid \<noteq> 0"
  shows "\<exists>s'. sys_ipc_try_send c s envid v srcva perm = Some (s', Ret 0) \<and>
     envs s' e = (envs s e)\<lparr>env_ipc_from := env_id (envs s k), env_ipc_recving := False,
       env_ipc_value := v, env_ipc_perm := 0, env_tf := (env_tf (envs s e))\<lparr>reg_eax := 0\<rparr>,
       env_status := ENV_RUNNABLE\<rparr> \<and>
     (\<forall>i. i \<noteq> e \<longrightarrow> envs s' i = envs s i) \<and> vm s' = vm s \<and> mlfq s' = mlfq s \<and> cpu_env s' = cpu_env s \<and>
     (\<forall>w va perm'. sys_ipc_try_send c s' envid w va perm' = Some (s', ret (- E_IPC_NOT_RECV)))"
  by (rule ipc_send_ok [OF assms])

text \<open>A receive that is refused because of its address has still announced the environment as
  receiving: another environment can then send to it, which makes it runnable and overwrites its
  registers although it never blocked and its processor is still executing it.\<close>

lemma refused_recv_accepts_message:
  assumes "cpu_env s c = Some k" and "bad_va dstva" and "env_id (envs s k) = eid" and "ENVX eid = k"
    and "eid \<noteq> 0" and "status s k = ENV_RUNNING" and "cpu_env s c' = Some j"
  shows "\<exists>s' s''. sys_ipc_recv cfg c s dstva = Some (s', ret (- E_INVAL)) \<and>
     sys_ipc_try_send c' s' eid v UTOP 0 = Some (s'', Ret 0) \<and>
     status s'' k = ENV_RUNNABLE \<and> cpu_env s'' c = Some k \<and> reg_eax (env_tf (envs s'' k)) = 0"
proof -
  let ?s' = "upd_env k (\<lambda>x. x\<lparr>env_ipc_recving := True\<rparr>) s"
  have "sys_ipc_recv cfg c s dstva = Some (?s', ret (- E_INVAL))"
    using assms(1,2) by (simp add: sys_ipc_recv_def)
  moreover have "envid2env c' ?s' eid False = Some (0, Some k)"
    using envid2env_live [of ?s' eid c'] assms by (simp add: status_def)
  then obtain s'' where "sys_ipc_try_send c' ?s' eid v UTOP 0 = Some (s'', Ret 0)"
    "envs s'' k = (envs ?s' k)\<lparr>env_ipc_from := env_id (envs ?s' j), env_ipc_recving := False,
       env_ipc_value := v, env_ipc_perm := 0, env_tf := (env_tf (envs ?s' k))\<lparr>reg_eax := 0\<rparr>,
       env_status := ENV_RUNNABLE\<rparr>" "cpu_env s'' = cpu_env ?s'"
    using ipc_send_ok [of ?s' c' j eid k UTOP v 0] assms(5,7) by auto
  ultimately show ?thesis using assms(1) by (auto simp: status_def)
qed

subsection \<open>What a program can have printed\<close>

text \<open>C26. The check before \<open>sys_cputs\<close> prints does not keep a program out of the kernel's memory: for a
  range that begins in the kernel's part and wraps around the end of the address space it
  succeeds, and the kernel prints its own memory from there.\<close>

theorem sys_cputs_prints_kernel:
  assumes "cpu_env s c = Some e" and "env_pgdir (envs s e) = Some pgdir" and "UTOP \<le> va"
    and "ROUNDUP (va + len) PGSIZE \<le> UTOP"
    and "put_string (load_byte (vm s) (cpu_cr3 s c)) va len = Some cs"
  shows "sys_cputs cfg c s va len = Some (s, cs, Ret 0)"
  using assms user_mem_check_wraps [OF assms(3,4), of "vm s" pgdir]
  by (simp add: sys_cputs_def user_mem_assert_def)

text \<open>Environment 0 runs; frame 7, mapped at \<open>0xF0100000\<close> for the kernel alone, holds "JOS".\<close>

definition demo_kernel_memory :: pmem where
  "demo_kernel_memory = demo_mem\<lparr>phys := (\<lambda>_ _. 0)(5 := (\<lambda>_. 0)(960 := 0x4003),
     4 := (\<lambda>_. 0)(256 := 0x7003), 7 := (\<lambda>_. 0)(0 := 0x00534F4A))\<rparr>"

definition demo_caller :: kern where
  "demo_caller = demo_kern\<lparr>cpu_env := (\<lambda>_. None)(0 := Some 0), cpu_cr3 := \<lambda>_. 5, vm := demo_kernel_memory\<rparr>"

lemma demo_kernel_bytes:
  "load_byte demo_kernel_memory 5 0xF0100000 = Some 0x4A" "load_byte demo_kernel_memory 5 0xF0100001 = Some 0x4F"
  "load_byte demo_kernel_memory 5 0xF0100002 = Some 0x53" "load_byte demo_kernel_memory 5 0xF0100003 = Some 0"
  by (simp_all add: load_byte_def demo_kernel_memory_def PDX_def PTX_def PGNUM_def PTE_P_def Let_def)

lemma sys_cputs_prints_kernel_witness:
  "sys_cputs SCHED_PRIORITIES 0 demo_caller 0xF0100000 0x10000000 = Some (demo_caller, [0x4A, 0x4F, 0x53], Ret 0)"
proof (rule sys_cputs_prints_kernel)
  have step: "put_limited rd p n = (if n = 0 then map_option (\<lambda>_. []) (rd p)
      else (case rd p of None \<Rightarrow> None | Some ch \<Rightarrow>
        if ch = 0 then Some [] else map_option ((#) ch) (put_limited rd (p + 1) (n - 1))))" for rd p n
    by (cases n; cases "rd p") simp_all
  have "put_limited (load_byte demo_kernel_memory 5) 0xF0100000 268435456 = Some [0x4A, 0x4F, 0x53]"
    by (subst step, simp add: demo_kernel_bytes, subst step, simp add: demo_kernel_bytes,
        subst step, simp add: demo_kernel_bytes, subst step, simp add: demo_kernel_bytes)
  moreover have "sint (0x10000000 :: w32) = 268435456" by simp
  ultimately show "put_string (load_byte (vm demo_caller) (cpu_cr3 demo_caller 0)) 0xF0100000 0x10000000 = Some [0x4A, 0x4F, 0x53]"
    by (simp add: put_string_def arg_chars_def demo_caller_def)
  show "cpu_env demo_caller 0 = Some 0" by (simp add: demo_caller_def)
  show "env_pgdir (envs demo_caller 0) = Some 5" by (simp add: demo_caller_def demo_kern_def demo_env0_def)
qed (simp_all add: layout_defs ROUNDUP_def ROUNDDOWN_def)

lemma put_limited_past_end:
  assumes "\<forall>i<n. \<exists>ch. rd (p + word_of_nat i) = Some ch \<and> ch \<noteq> 0" and "rd (p + word_of_nat n) = None"
  shows "put_limited rd p n = None"
  using assms
proof (induction n arbitrary: p)
  case (Suc n)
  from Suc.prems(1) obtain ch where "rd p = Some ch" "ch \<noteq> 0" by force
  moreover have "put_limited rd (p + 1) n = None"
    using Suc.prems by (intro Suc.IH) (auto simp: algebra_simps)
  ultimately show ?case by simp
qed simp

text \<open>The loop that prints reads one character more than it prints: when a program prints, with the
  right length, a string that ends where its mapped memory ends, the kernel faults and panics.\<close>

theorem sys_cputs_past_end_panics:
  assumes "cpu_env s c = Some e" and "env_pgdir (envs s e) = Some pgdir"
    and "user_mem_check (vm s) pgdir va len (PTE_P OR PTE_W OR PTE_U) = Some (0, a)" and "0 \<le> sint len"
    and "\<forall>i<nat (sint len). \<exists>ch. load_byte (vm s) (cpu_cr3 s c) (va + word_of_nat i) = Some ch \<and> ch \<noteq> 0"
    and "load_byte (vm s) (cpu_cr3 s c) (va + word_of_nat (nat (sint len))) = None" and "va \<noteq> 0"
  shows "sys_cputs cfg c s va len = None"
  using assms put_limited_past_end [OF assms(5,6)]
  by (simp add: sys_cputs_def user_mem_assert_def put_string_def arg_chars_def or.assoc)

text \<open>The string "hi" in the last two bytes of the page at \<open>0x800000\<close>, the only one.\<close>

definition demo_edge :: kern where
  "demo_edge = demo_caller\<lparr>cpu_cr3 := \<lambda>_. 5, vm := demo_mem\<lparr>phys := (\<lambda>_ _. 0)(5 := (\<lambda>_. 0)(2 := 0x4007),
     4 := (\<lambda>_. 0)(0 := 0x6007), 6 := (\<lambda>_. 0)(1023 := 0x69680000))\<rparr>\<rparr>"

lemma sys_cputs_past_end_panics_witness: "sys_cputs SCHED_PRIORITIES 0 demo_edge 0x800FFE 2 = None"
proof (rule sys_cputs_past_end_panics)
  let ?m = "vm demo_edge"
  have m: "?m = demo_mem\<lparr>phys := (\<lambda>_ _. 0)(5 := (\<lambda>_. 0)(2 := 0x4007),
     4 := (\<lambda>_. 0)(0 := 0x6007), 6 := (\<lambda>_. 0)(1023 := 0x69680000))\<rparr>" "cpu_cr3 demo_edge 0 = 5"
    by (simp_all add: demo_edge_def)
  show "cpu_env demo_edge 0 = Some 0" by (simp add: demo_edge_def demo_caller_def)
  show "env_pgdir (envs demo_edge 0) = Some 5"
    by (simp add: demo_edge_def demo_caller_def demo_kern_def demo_env0_def)
  have range: "[PGNUM (ROUNDDOWN 0x800FFE PGSIZE)..<PGNUM (ROUNDUP (0x800FFE + 2) PGSIZE)] = [0x800]"
    by (simp add: PGNUM_def ROUNDUP_def ROUNDDOWN_def PGSIZE_def upt_rec)
  have top: "UTOP = 0xEEC00000" by (simp add: layout_defs)
  show "user_mem_check ?m 5 0x800FFE 2 (PTE_P OR PTE_W OR PTE_U) = Some (0, None)"
    unfolding user_mem_check_def Let_def range top m
    by (simp add: ROUNDUP_def ROUNDDOWN_def PGSIZE_def pgdir_walk_def pa2page_def PDX_def PTX_def
        PGNUM_def PTE_ADDR_def demo_mem_def PTE_U_def PTE_P_def PTE_W_def)
  have b: "load_byte ?m 5 0x800FFE = Some 0x68" "load_byte ?m 5 0x800FFF = Some 0x69"
    "load_byte ?m 5 0x801000 = None"
    unfolding m by (simp_all add: load_byte_def PDX_def PTX_def PGNUM_def PTE_P_def Let_def)
  show "\<forall>i<nat (sint (2 :: w32)). \<exists>ch. load_byte ?m (cpu_cr3 demo_edge 0) (0x800FFE + word_of_nat i) = Some ch \<and> ch \<noteq> 0"
  proof (intro allI impI)
    fix i assume "i < nat (sint (2 :: w32))"
    then have "i = 0 \<or> i = 1" by simp linarith
    then show "\<exists>ch. load_byte ?m (cpu_cr3 demo_edge 0) (0x800FFE + word_of_nat i) = Some ch \<and> ch \<noteq> 0"
      by (elim disjE) (simp_all add: b m(2))
  qed
  show "load_byte ?m (cpu_cr3 demo_edge 0) (0x800FFE + word_of_nat (nat (sint (2 :: w32)))) = None"
    using b(3) m(2) by simp
qed simp_all

subsection \<open>Witnesses of the other properties\<close>

text \<open>Environment 1, a child of environment 0, waits for a message; environment 2 is nobody's child.\<close>

definition demo_three :: kern where
  "demo_three = demo_caller\<lparr>envs := (envs demo_caller)
     (0 := demo_env0\<lparr>env_status := ENV_RUNNING\<rparr>,
      1 := demo_env0\<lparr>env_id := 0x1001, env_parent_id := 0x1000, env_status := ENV_NOT_RUNNABLE, env_ipc_recving := True\<rparr>,
      2 := demo_env0\<lparr>env_id := 0x1002, env_parent_id := 0x5005, env_status := ENV_RUNNING\<rparr>),
     cpu_env := (\<lambda>_. None)(0 := Some 0, 1 := Some 2)\<rparr>"

lemma demo_three_sel:
  "cpu_env demo_three 0 = Some 0" "cpu_env demo_three 1 = Some 2" "env_id (envs demo_three 0) = 0x1000"
  "env_id (envs demo_three 1) = 0x1001" "env_id (envs demo_three 2) = 0x1002"
  "env_parent_id (envs demo_three 2) = 0x5005" "env_ipc_recving (envs demo_three 1)"
  "status demo_three 0 = ENV_RUNNING" "status demo_three 1 = ENV_NOT_RUNNABLE" "status demo_three 2 = ENV_RUNNING"
  by (simp_all add: demo_three_def demo_env0_def status_def)

lemma demo_slots: "ENVX 0x1000 = 0" "ENVX 0x1001 = 1" "ENVX 0x1002 = 2"
  by (simp_all add: ENVX_def)

lemma syscall_needs_authority_witness:
  "\<exists>r<0. syscall SCHED_PRIORITIES 0 [] [] \<lparr>kst = demo_three, con = demo_console\<rparr> 3 0x1002 0 0 0 0 =
     Some (\<lparr>kst = demo_three, con = demo_console\<rparr>, [], ret r)"
proof -
  let ?m = "\<lparr>kst = demo_three, con = demo_console\<rparr>"
  have "cpu_env (kst ?m) 0 = Some 0" "(0x1002 :: w32) \<noteq> 0" "ENVX 0x1002 \<noteq> 0"
    "env_parent_id (envs (kst ?m) (ENVX 0x1002)) \<noteq> env_id (envs (kst ?m) 0)"
    by (simp_all add: demo_three_sel demo_slots)
  from syscall_needs_authority [OF this] show ?thesis by (simp add: acting_calls_def)
qed

lemma ipc_delivers_witness:
  "\<exists>s'. sys_ipc_try_send 0 demo_three 0x1001 42 UTOP 0 = Some (s', Ret 0) \<and>
     env_ipc_value (envs s' 1) = 42 \<and> env_ipc_from (envs s' 1) = 0x1000 \<and>
     sys_ipc_try_send 0 s' 0x1001 43 UTOP 0 = Some (s', ret (- E_IPC_NOT_RECV))"
proof -
  have "envid2env 0 demo_three 0x1001 False = Some (0, Some 1)"
    using envid2env_live [of demo_three "0x1001" 0, unfolded demo_slots demo_three_sel] by simp
  from ipc_delivers [OF demo_three_sel(1) this demo_three_sel(7), of UTOP 42 0] show ?thesis
    by (auto simp: demo_three_sel)
qed

lemma refused_recv_example:
  "\<exists>s' s''. sys_ipc_recv SCHED_PRIORITIES 1 demo_three 0x1234 = Some (s', ret (- E_INVAL)) \<and>
     sys_ipc_try_send 0 s' 0x1002 7 UTOP 0 = Some (s'', Ret 0) \<and> status s'' 2 = ENV_RUNNABLE \<and> cpu_env s'' 1 = Some 2"
proof -
  have "bad_va 0x1234" by (simp add: bad_va_def PGSIZE_def)
  from refused_recv_accepts_message [OF demo_three_sel(2) this demo_three_sel(5) demo_slots(3) _ demo_three_sel(10,1), of SCHED_PRIORITIES 7]
  show ?thesis by auto
qed

end
