(* ===== verification/Trap.thy ===== *)
theory Trap
  imports SyscallProps
begin

unbundle bit_operations_syntax

text \<open>
  Traps (\<open>sched/kern/trap.c\<close>): the descriptor table, the dispatch of exceptions, system calls
  and interrupts, and the page fault handler of user programs. The trap frame is a value;
  for a trap from user mode it is saved in the current environment. \<open>None\<close> is a panic of the
  kernel, undefined behaviour, or waiting for a lock that is taken. A breakpoint enters the kernel
  monitor, which never returns (\<open>monitor_never_returns\<close> of \<open>MonitorProps\<close>), and frames that are printed are not
  part of the model.
\<close>

subsection \<open>Trap numbers and the descriptor table\<close>

definition T_BRKPT :: w32 where "T_BRKPT = 3"
definition T_PGFLT :: w32 where "T_PGFLT = 14"
definition T_SYSCALL :: w32 where "T_SYSCALL = 48"
definition IRQ_OFFSET :: w32 where "IRQ_OFFSET = 32"
definition IRQ_TIMER :: w32 where "IRQ_TIMER = 0"
definition IRQ_SPURIOUS :: w32 where "IRQ_SPURIOUS = 7"
definition GD_KT :: w16 where "GD_KT = 0x08"

lemmas trap_numbers = T_BRKPT_def T_PGFLT_def T_SYSCALL_def IRQ_OFFSET_def IRQ_TIMER_def IRQ_SPURIOUS_def

definition exception_names :: "string list" where
  "exception_names = [''Divide error'', ''Debug'', ''Non-Maskable Interrupt'', ''Breakpoint'',
     ''Overflow'', ''BOUND Range Exceeded'', ''Invalid Opcode'', ''Device Not Available'',
     ''Double Fault'', ''Coprocessor Segment Overrun'', ''Invalid TSS'', ''Segment Not Present'',
     ''Stack Fault'', ''General Protection'', ''Page Fault'', ''(unknown trap)'',
     ''x87 FPU Floating-Point Error'', ''Alignment Check'', ''Machine-Check'',
     ''SIMD Floating-Point Exception'']"

text \<open>The comparison with the number of names is unsigned.\<close>

definition trapname :: "w32 \<Rightarrow> string" where
  "trapname trapno =
     (if unat trapno < length exception_names then exception_names ! unat trapno
      else if trapno = T_SYSCALL then ''System call''
      else if sint trapno \<ge> sint IRQ_OFFSET \<and> sint trapno < sint IRQ_OFFSET + 16 then ''Hardware Interrupt''
      else ''(unknown trap)'')"

text \<open>The gates that \<open>trap_init\<close> sets, with the privilege level that may raise them.\<close>

definition trap_init :: "(nat \<times> nat) list" where
  "trap_init = [(0, 0), (1, 0), (2, 0), (3, 3), (4, 0), (5, 0), (6, 0), (7, 0), (8, 0), (10, 0), (11, 0),
     (12, 0), (13, 0), (14, 0), (16, 0), (17, 0), (18, 0), (19, 0), (48, 3), (32, 0)]"

text \<open>The kernel stack that \<open>trap_init_percpu\<close> gives to a processor.\<close>

definition kstack_top :: "nat \<Rightarrow> w32" where
  "kstack_top cpu_id = KSTACKTOP - word_of_nat cpu_id * (KSTKGAP + KSTKSIZE)"

subsection \<open>Writing to user memory\<close>

text \<open>The kernel honours the write permission of a page.\<close>

definition store_byte :: "nat \<Rightarrow> w32 \<Rightarrow> w8 \<Rightarrow> pmem \<Rightarrow> pmem option" where
  "store_byte pgdir va b m =
     (let pde = phys m pgdir (PDX va); pte = phys m (PGNUM pde) (PTX va); off = unat (va AND 0xFFF);
          k = 8 * (off mod 4); old = phys m (PGNUM pte) (off div 4)
      in if pde AND (PTE_P OR PTE_W) \<noteq> PTE_P OR PTE_W \<or> pte AND (PTE_P OR PTE_W) \<noteq> PTE_P OR PTE_W then None
         else Some (store_word m (PGNUM pte) (off div 4)
           ((old AND NOT (push_bit k 0xFF)) OR push_bit k (ucast b))))"

fun store_bytes :: "nat \<Rightarrow> w32 \<Rightarrow> w8 list \<Rightarrow> pmem \<Rightarrow> pmem option" where
  "store_bytes pgdir va [] m = Some m"
| "store_bytes pgdir va (b # bs) m = do {
     m \<leftarrow> store_byte pgdir va b m;
     store_bytes pgdir (va + 1) bs m
   }"

definition bytes_of :: "w32 \<Rightarrow> w8 list" where
  "bytes_of w = [ucast w, ucast (drop_bit 8 w), ucast (drop_bit 16 w), ucast (drop_bit 24 w)]"

subsection \<open>Page faults\<close>

definition sizeof_utf :: w32 where "sizeof_utf = 52"

text \<open>\<open>struct UTrapframe\<close> as it lies in memory.\<close>

definition utrapframe :: "w32 \<Rightarrow> trapframe \<Rightarrow> w32 list" where
  "utrapframe fault_va tf =
     [fault_va, tf_err tf, reg_edi tf, reg_esi tf, reg_ebp tf, reg_oesp tf, reg_ebx tf, reg_edx tf,
      reg_ecx tf, reg_eax tf, tf_eip tf, tf_eflags tf, tf_esp tf]"

definition set_tf :: "nat \<Rightarrow> trapframe \<Rightarrow> kern \<Rightarrow> kern" where
  "set_tf k tf s = upd_env k (\<lambda>x. x\<lparr>env_tf := tf\<rparr>) s"

text \<open>The frame is put on the exception stack, below a spare word when the fault came from there.\<close>

definition push_utf :: "kern \<Rightarrow> nat \<Rightarrow> w32 \<Rightarrow> trapframe \<Rightarrow> (pmem \<times> w32) option" where
  "push_utf s pgdir fault_va tf = do {
     let exstk = UXSTACKTOP - PGSIZE;
     let exstk_top = UXSTACKTOP - 1;
     (m, tmp) \<leftarrow> (if tf_esp tf < exstk \<or> tf_esp tf > exstk_top
                  then Some (vm s, exstk_top - sizeof_utf)
                  else do {
                    m \<leftarrow> store_bytes pgdir (tf_esp tf - 4) (bytes_of 0) (vm s);
                    Some (m, tf_esp tf - 4 - sizeof_utf)
                  });
     m \<leftarrow> store_bytes pgdir tmp (concat (map bytes_of (utrapframe fault_va tf))) m;
     if tmp < exstk \<or> tmp > exstk_top then None else Some (m, tmp)
   }"

text \<open>\<open>fault_va\<close> is the faulting address in \<open>cr2\<close>.\<close>

definition page_fault_handler ::
  "scheduler \<Rightarrow> nat \<Rightarrow> kern \<Rightarrow> w32 \<Rightarrow> trapframe \<Rightarrow> (kern \<times> outcome option) option" where
  "page_fault_handler cfg c s fault_va tf =
     (if tf_cs tf AND 3 = 0 then None
      else do {
        k \<leftarrow> cpu_env s c;
        if env_pgfault_upcall (envs s k) \<noteq> 0 then do {
          (s, gone) \<leftarrow> user_mem_assert cfg c s k (UXSTACKTOP - PGSIZE) PGSIZE (PTE_U OR PTE_W);
          case gone of
            Some r \<Rightarrow> Some (s, Some r)
          | None \<Rightarrow> do {
              (m, tmp) \<leftarrow> push_utf s (cpu_cr3 s c) fault_va tf;
              let s = set_tf k (tf\<lparr>tf_esp := tmp, tf_eip := env_pgfault_upcall (envs s k)\<rparr>) (s\<lparr>vm := m\<rparr>);
              map_option (\<lambda>(s, r). (s, Some r)) (env_run c s k)
            }
        } else env_destroy cfg c s k
      })"

subsection \<open>Dispatch\<close>

definition lock_kernel :: "kern \<Rightarrow> kern option" where
  "lock_kernel s = (if kernel_locked s then None else Some (s\<lparr>kernel_locked := True\<rparr>))"

text \<open>\<open>None\<close> as outcome: the handler returned to \<open>trap\<close>.\<close>

definition trap_dispatch ::
  "scheduler \<Rightarrow> nat \<Rightarrow> reading list \<Rightarrow> reading list \<Rightarrow> w32 \<Rightarrow> machine \<Rightarrow> trapframe \<Rightarrow>
     (machine \<times> w8 list \<times> outcome option) option" where
  "trap_dispatch cfg c serial kbd cr2 m tf =
     (let s = kst m; from_user = (tf_cs tf AND 3 = 3) in
      if tf_trapno tf = T_BRKPT then Some (m, [], Some Monitors)
      else if tf_trapno tf = T_PGFLT
        then map_option (\<lambda>(s, r). (m\<lparr>kst := s\<rparr>, [], r)) (page_fault_handler cfg c s cr2 tf)
      else if tf_trapno tf = T_SYSCALL then do {
        k \<leftarrow> cpu_env s c;
        (m, cs, r) \<leftarrow> syscall cfg c serial kbd m (reg_eax tf) (reg_edx tf) (reg_ecx tf) (reg_ebx tf)
                       (reg_edi tf) (reg_esi tf);
        case r of
          Gone out \<Rightarrow> Some (m, cs, Some out)
        | Ret v \<Rightarrow> Some (if from_user then m\<lparr>kst := set_tf k ((env_tf (envs (kst m) k))\<lparr>reg_eax := v\<rparr>) (kst m)\<rparr> else m,
                        cs, None)
      }
      else if tf_trapno tf = IRQ_OFFSET + IRQ_SPURIOUS then Some (m, [], None)
      else if tf_trapno tf - IRQ_OFFSET = IRQ_TIMER
        then map_option (\<lambda>(s, r). (m\<lparr>kst := s\<rparr>, [], Some r)) (sched_yield cfg c s)
      else if tf_cs tf = GD_KT then None
      else do {
        k \<leftarrow> cpu_env s c;
        (s, r) \<leftarrow> env_destroy cfg c s k;
        Some (m\<lparr>kst := s\<rparr>, [], r)
      })"

text \<open>What follows a handler that returned.\<close>

definition trap_return :: "scheduler \<Rightarrow> nat \<Rightarrow> kern \<Rightarrow> (kern \<times> outcome) option" where
  "trap_return cfg c s =
     (case curenv_running c s of Some k \<Rightarrow> env_run c s k | None \<Rightarrow> sched_yield cfg c s)"

definition trap ::
  "scheduler \<Rightarrow> nat \<Rightarrow> reading list \<Rightarrow> reading list \<Rightarrow> w32 \<Rightarrow> machine \<Rightarrow> trapframe \<Rightarrow>
     (machine \<times> w8 list \<times> outcome) option" where
  "trap cfg c serial kbd cr2 m tf = do {
     let s = kst m;
     let halted = (cpu_status s c = CPU_HALTED);
     let s = s\<lparr>cpu_status := (cpu_status s)(c := CPU_STARTED)\<rparr>;
     s \<leftarrow> (if halted then lock_kernel s else Some s);
     s \<leftarrow> (if tf_cs tf AND 3 = 3 then lock_kernel s else Some s);
     if tf_cs tf AND 3 = 3 then do {
       k \<leftarrow> cpu_env s c;
       if status s k = ENV_DYING then do {
         s \<leftarrow> env_free c s k;
         (s, r) \<leftarrow> sched_yield cfg c (s\<lparr>cpu_env := (cpu_env s)(c := None)\<rparr>);
         Some (m\<lparr>kst := s\<rparr>, [], r)
       } else do {
         (m, cs, r) \<leftarrow> trap_dispatch cfg c serial kbd cr2 (m\<lparr>kst := set_tf k tf s\<rparr>) tf;
         case r of Some r \<Rightarrow> Some (m, cs, r)
         | None \<Rightarrow> map_option (\<lambda>(s, r). (m\<lparr>kst := s\<rparr>, cs, r)) (trap_return cfg c (kst m))
       }
     } else do {
       (m, cs, r) \<leftarrow> trap_dispatch cfg c serial kbd cr2 (m\<lparr>kst := s\<rparr>) tf;
       case r of Some r \<Rightarrow> Some (m, cs, r)
       | None \<Rightarrow> map_option (\<lambda>(s, r). (m\<lparr>kst := s\<rparr>, cs, r)) (trap_return cfg c (kst m))
     }
   }"

end
