(* ===== verification/TrapProps.thy ===== *)
theory TrapProps
  imports Trap
begin

unbundle bit_operations_syntax

text \<open>
  The properties of traps: how a page fault of a user program reaches its handler, and how a
  program can make the kernel panic with one.
\<close>

subsection \<open>Bytes of a page\<close>

definition page_offset :: "w32 \<Rightarrow> nat" where "page_offset va = unat (va AND 0xFFF)"

lemma page_offset_mod: "page_offset va = unat va mod 4096"
proof -
  have "va AND 0xFFF = take_bit 12 va" by (simp add: mask_12 take_bit_eq_mask)
  then have "page_offset va = take_bit 12 (unat va)" by (simp only: page_offset_def unsigned_take_bit_eq)
  then show ?thesis by (simp add: take_bit_eq_mod)
qed

lemma page_offset_less: "page_offset va < 4096"
  by (simp add: page_offset_mod)

lemma same_PGNUM:
  assumes "PGNUM va = PGNUM va'"
  shows "PDX va = PDX va'" and "PTX va = PTX va'"
  using page_address [of va] page_address [of va'] assms by simp_all

lemma page_offset_inj: "PGNUM va = PGNUM va' \<Longrightarrow> page_offset va = page_offset va' \<Longrightarrow> va = va'"
  unfolding PGNUM_div page_offset_mod by (metis div_mult_mod_eq word_unat_eq_iff)

lemma va_add:
  assumes "page_offset va + n < 4096"
  shows "PGNUM (va + word_of_nat n) = PGNUM va" and "page_offset (va + word_of_nat n) = page_offset va + n"
proof -
  have lt: "unat va < 4294967296" using unsigned_less [of va] by simp
  have d: "unat va = unat va div 4096 * 4096 + page_offset va" by (simp add: page_offset_mod)
  have "unat va div 4096 < 1048576" using lt by (simp add: less_mult_imp_div_less)
  then have s: "unat va + n < 4294967296" using d assms by linarith
  have u: "unat (va + word_of_nat n) = unat va + n"
    using s assms by (simp add: unat_word_ariths unat_of_nat)
  have m: "unat va mod 4096 + n < 4096" using assms by (simp add: page_offset_mod)
  have dec: "unat va + n = unat va div 4096 * 4096 + (unat va mod 4096 + n)"
    by (simp add: minus_mod_eq_div_mult [symmetric])
  have "(unat va + n) div 4096 = unat va div 4096"
    unfolding dec using m by (simp only: div_mult_self3 div_less)
  then show "PGNUM (va + word_of_nat n) = PGNUM va" by (simp add: PGNUM_div u)
  have "(unat va + n) mod 4096 = unat va mod 4096 + n"
    unfolding dec using m by (simp only: mod_mult_self3 mod_less)
  then show "page_offset (va + word_of_nat n) = page_offset va + n" by (simp add: page_offset_mod u)
qed

text \<open>A byte in a word.\<close>

definition set_byte :: "nat \<Rightarrow> w8 \<Rightarrow> w32 \<Rightarrow> w32" where
  "set_byte k b w = (w AND NOT (push_bit (8 * k) 0xFF)) OR push_bit (8 * k) (ucast b)"

definition get_byte :: "nat \<Rightarrow> w32 \<Rightarrow> w8" where
  "get_byte k w = ucast (drop_bit (8 * k) w)"

lemma mask_8: "(0xFF :: w32) = mask 8" by (simp add: mask_eq_exp_minus_1)

lemma get_set_byte:
  assumes "k < 4" and "j < 4"
  shows "get_byte j (set_byte k b w) = (if j = k then b else get_byte j w)"
proof -
  have "k \<in> {0, 1, 2, 3}" "j \<in> {0, 1, 2, 3}" using assms by auto
  then show ?thesis
    unfolding get_byte_def set_byte_def mask_8
    by (intro bit_word_eqI) (auto simp: bit_simps dest: bit_imp_le_length)
qed

subsection \<open>Stores in a page\<close>

text \<open>The page of an address is writable, and its frame is neither the directory nor the table.\<close>

definition writable :: "pmem \<Rightarrow> nat \<Rightarrow> nat \<Rightarrow> w32 \<Rightarrow> bool" where
  "writable m pgdir f va \<longleftrightarrow>
     (let pde = phys m pgdir (PDX va); t = PGNUM pde; pte = phys m t (PTX va)
      in pde AND (PTE_P OR PTE_W) = PTE_P OR PTE_W \<and> pte AND (PTE_P OR PTE_W) = PTE_P OR PTE_W \<and>
         f = PGNUM pte \<and> f \<noteq> pgdir \<and> f \<noteq> t)"

lemma writable_page: "PGNUM va' = PGNUM va \<Longrightarrow> writable m pgdir f va' = writable m pgdir f va"
  using same_PGNUM [of va' va] by (simp add: writable_def)

lemma present_bits: "x AND (PTE_P OR PTE_W) = PTE_P OR PTE_W \<Longrightarrow> x AND PTE_P \<noteq> 0"
proof
  assume a: "x AND (PTE_P OR PTE_W) = PTE_P OR PTE_W" and b: "x AND PTE_P = 0"
  have "bit (x AND (PTE_P OR PTE_W)) 0" unfolding a by (simp add: PTE_P_def bit_simps)
  then have "bit x 0" by (simp add: bit_simps)
  moreover have "\<not> bit (x AND PTE_P) 0" unfolding b by simp
  ultimately show False by (simp add: PTE_P_def bit_simps)
qed

text \<open>Memory that differs in one frame only.\<close>

definition frame_only :: "nat \<Rightarrow> pmem \<Rightarrow> pmem \<Rightarrow> bool" where
  "frame_only f m m' \<longleftrightarrow> (\<exists>row. m' = m\<lparr>phys := (phys m)(f := row)\<rparr>)"

lemma frame_only_trans: "frame_only f m m' \<Longrightarrow> frame_only f m' m'' \<Longrightarrow> frame_only f m m''"
  by (auto simp: frame_only_def)

lemma frame_only_refl: "frame_only f m m"
  unfolding frame_only_def by (rule exI [of _ "phys m f"]) simp

lemma writable_frame: "frame_only f m m' \<Longrightarrow> writable m pgdir f va \<Longrightarrow> writable m' pgdir f va"
  by (auto simp: frame_only_def writable_def Let_def)

lemma load_writable:
  assumes "writable m pgdir f va"
  shows "load_byte m pgdir va = Some (get_byte (page_offset va mod 4) (phys m f (page_offset va div 4)))"
proof -
  have "phys m pgdir (PDX va) AND PTE_P \<noteq> 0"
    "phys m (PGNUM (phys m pgdir (PDX va))) (PTX va) AND PTE_P \<noteq> 0"
    "f = PGNUM (phys m (PGNUM (phys m pgdir (PDX va))) (PTX va))"
    using assms present_bits by (auto simp: writable_def Let_def)
  then show ?thesis by (simp add: load_byte_def get_byte_def page_offset_def Let_def)
qed

lemma store_byte_ok:
  assumes w: "writable m pgdir f va"
  obtains m' where "store_byte pgdir va b m = Some m'" and "frame_only f m m'"
    and "load_byte m' pgdir va = Some b"
    and "\<And>va'. PGNUM va' = PGNUM va \<Longrightarrow> va' \<noteq> va \<Longrightarrow> load_byte m' pgdir va' = load_byte m pgdir va'"
proof -
  let ?o = "page_offset va"
  let ?m' = "store_word m f (?o div 4) (set_byte (?o mod 4) b (phys m f (?o div 4)))"
  have run: "store_byte pgdir va b m = Some ?m'"
    using w by (simp add: store_byte_def writable_def Let_def set_byte_def page_offset_def)
  have fr: "frame_only f m ?m'" by (auto simp: frame_only_def store_word_def)
  have w': "writable ?m' pgdir f va'" "writable m pgdir f va'" if "PGNUM va' = PGNUM va" for va'
    using writable_page [OF that] writable_frame [OF fr] w by simp_all
  have rd: "load_byte ?m' pgdir va' =
      (if page_offset va' div 4 = ?o div 4
       then Some (if page_offset va' mod 4 = ?o mod 4 then b else get_byte (page_offset va' mod 4) (phys m f (?o div 4)))
       else load_byte m pgdir va')" if "PGNUM va' = PGNUM va" for va'
    unfolding load_writable [OF w'(1) [OF that]] load_writable [OF w'(2) [OF that]]
    by (simp add: store_word_def get_set_byte)
  show thesis
  proof (rule that [OF run fr])
    show "load_byte ?m' pgdir va = Some b" using rd [of va] by simp
    fix va' assume pg: "PGNUM va' = PGNUM va" and ne: "va' \<noteq> va"
    have "page_offset va' \<noteq> ?o" using page_offset_inj pg ne by blast
    then have "page_offset va' div 4 \<noteq> ?o div 4 \<or> page_offset va' mod 4 \<noteq> ?o mod 4"
      by (metis div_mult_mod_eq)
    then show "load_byte ?m' pgdir va' = load_byte m pgdir va'"
      unfolding rd [OF pg] using load_writable [OF w'(2) [OF pg]] by auto
  qed
qed

lemma store_bytes_ok:
  assumes "writable m pgdir f va" and "page_offset va + length bs \<le> 4096"
  shows "\<exists>m'. store_bytes pgdir va bs m = Some m' \<and> frame_only f m m' \<and>
     (\<forall>i<length bs. load_byte m' pgdir (va + word_of_nat i) = Some (bs ! i)) \<and>
     (\<forall>va'. PGNUM va' = PGNUM va \<longrightarrow> page_offset va' < page_offset va \<or> page_offset va + length bs \<le> page_offset va' \<longrightarrow>
        load_byte m' pgdir va' = load_byte m pgdir va')"
  using assms
proof (induction bs arbitrary: m va)
  case Nil
  then show ?case by (simp add: frame_only_refl)
next
  case (Cons b bs)
  obtain m1 where m1: "store_byte pgdir va b m = Some m1" "frame_only f m m1" "load_byte m1 pgdir va = Some b"
    "\<And>va'. PGNUM va' = PGNUM va \<Longrightarrow> va' \<noteq> va \<Longrightarrow> load_byte m1 pgdir va' = load_byte m pgdir va'"
    by (rule store_byte_ok [OF Cons.prems(1)]) blast
  show ?case
  proof (cases "bs = []")
    case True
    have "va' \<noteq> va" if "page_offset va' < page_offset va \<or> page_offset va + 1 \<le> page_offset va'" for va'
      using that by auto
    with m1 True show ?thesis by auto
  next
    case False
    then have off: "page_offset va + 1 < 4096" using Cons.prems(2) by (cases bs) auto
    note nx = va_add [OF off, simplified]
    have "writable m1 pgdir f (va + 1)"
      using writable_frame [OF m1(2) Cons.prems(1)] writable_page [OF nx(1)] by simp
    moreover have "page_offset (va + 1) + length bs \<le> 4096" using Cons.prems(2) nx(2) by simp
    ultimately obtain m2 where m2: "store_bytes pgdir (va + 1) bs m1 = Some m2" "frame_only f m1 m2"
      "\<forall>i<length bs. load_byte m2 pgdir (va + 1 + word_of_nat i) = Some (bs ! i)"
      "\<forall>va'. PGNUM va' = PGNUM (va + 1) \<longrightarrow>
         page_offset va' < page_offset (va + 1) \<or> page_offset (va + 1) + length bs \<le> page_offset va' \<longrightarrow>
         load_byte m2 pgdir va' = load_byte m1 pgdir va'"
      using Cons.IH by blast
    have "load_byte m2 pgdir (va + word_of_nat i) = Some ((b # bs) ! i)" if "i < length (b # bs)" for i
    proof (cases i)
      case 0
      then show ?thesis using m2(4) nx m1(3) by simp
    next
      case (Suc j)
      then have "va + word_of_nat i = va + 1 + word_of_nat j" by simp
      then show ?thesis using m2(3) that Suc by (simp add: add.assoc)
    qed
    moreover have "load_byte m2 pgdir va' = load_byte m pgdir va'"
      if "PGNUM va' = PGNUM va" "page_offset va' < page_offset va \<or> page_offset va + length (b # bs) \<le> page_offset va'" for va'
    proof -
      have "va' \<noteq> va" using that(2) by auto
      then show ?thesis using m2(4) m1(4) [OF that(1)] nx that by auto
    qed
    ultimately show ?thesis using m1(1,2) m2(1,2) frame_only_trans by auto
  qed
qed

text \<open>The user exception stack is one page.\<close>

definition exception_stack :: w32 where "exception_stack = UXSTACKTOP - PGSIZE"

lemma store_bytes_in_page:
  assumes "writable m pgdir f exception_stack" and "PGNUM va = PGNUM exception_stack" and "page_offset va + length bs \<le> 4096"
  obtains m' where "store_bytes pgdir va bs m = Some m'" and "frame_only f m m'"
    and "\<And>i. i < length bs \<Longrightarrow> load_byte m' pgdir (va + word_of_nat i) = Some (bs ! i)"
    and "\<And>va'. PGNUM va' = PGNUM exception_stack \<Longrightarrow>
      page_offset va' < page_offset va \<or> page_offset va + length bs \<le> page_offset va' \<Longrightarrow>
      load_byte m' pgdir va' = load_byte m pgdir va'"
proof -
  have "writable m pgdir f va" using writable_page [OF assms(2)] assms(1) by simp
  from store_bytes_ok [OF this assms(3)] show thesis using that assms(2) by auto
qed

subsection \<open>Page faults of user programs\<close>

lemma env_run_self:
  assumes "cpu_env s c = Some k" and "env_pgdir (envs s k) = Some p"
  shows "\<exists>s'. env_run c s k = Some (s', Runs k) \<and> env_tf (envs s' k) = env_tf (envs s k) \<and> vm s' = vm s \<and>
     status s' k = ENV_RUNNING"
  using assms by (auto simp: env_run_def curenv_running_def set_status_def status_def split: option.splits)

lemma exception_stack_value: "UXSTACKTOP = 0xEEC00000" "exception_stack = 0xEEBFF000" "PGSIZE = 0x1000"
  by (simp_all add: exception_stack_def layout_defs)

text \<open>A page fault in user mode on a processor that runs environment \<open>k\<close>, which has a handler and an
  exception stack.\<close>

definition faulting :: "kern \<Rightarrow> nat \<Rightarrow> nat \<Rightarrow> nat \<Rightarrow> trapframe \<Rightarrow> bool" where
  "faulting s c k pgdir tf \<longleftrightarrow> tf_cs tf AND 3 = 3 \<and> tf_trapno tf = T_PGFLT \<and>
     cpu_env s c = Some k \<and> status s k = ENV_RUNNING \<and> \<not> kernel_locked s \<and> cpu_status s c = CPU_STARTED \<and>
     env_pgdir (envs s k) = Some pgdir \<and> cpu_cr3 s c = pgdir \<and> env_pgfault_upcall (envs s k) \<noteq> 0 \<and>
     user_mem_check (vm s) pgdir exception_stack PGSIZE (PTE_U OR PTE_W) = Some (0, None)"

definition entered :: "kern \<Rightarrow> nat \<Rightarrow> nat \<Rightarrow> trapframe \<Rightarrow> kern" where
  "entered s c k tf = set_tf k tf (s\<lparr>cpu_status := (cpu_status s)(c := CPU_STARTED), kernel_locked := True\<rparr>)"

lemma entered_sel:
  "cpu_env (entered s c k tf) = cpu_env s" "vm (entered s c k tf) = vm s" "cpu_cr3 (entered s c k tf) = cpu_cr3 s"
  "envs (entered s c k tf) k = (envs s k)\<lparr>env_tf := tf\<rparr>" "status (entered s c k tf) = status s"
  by (simp_all add: entered_def set_tf_def status_def fun_eq_iff)

lemma trap_page_fault:
  assumes "faulting s c k pgdir tf"
  shows "trap cfg c ser kbd cr2 \<lparr>kst = s, con = cn\<rparr> tf =
     (case push_utf (entered s c k tf) pgdir cr2 tf of
        None \<Rightarrow> None
      | Some (m, tmp) \<Rightarrow> map_option (\<lambda>(s, r). (\<lparr>kst = s, con = cn\<rparr>, [], r))
          (env_run c (set_tf k (tf\<lparr>tf_esp := tmp, tf_eip := env_pgfault_upcall (envs s k)\<rparr>)
             ((entered s c k tf)\<lparr>vm := m\<rparr>)) k))"
proof -
  let ?s = "entered s c k tf"
  have a: "tf_cs tf AND 3 = 3" "tf_trapno tf = T_PGFLT" "cpu_env s c = Some k" "status s k = ENV_RUNNING"
    "\<not> kernel_locked s" "cpu_status s c = CPU_STARTED" "env_pgdir (envs s k) = Some pgdir"
    "cpu_cr3 s c = pgdir" "env_pgfault_upcall (envs s k) \<noteq> 0"
    "user_mem_check (vm s) pgdir exception_stack PGSIZE (PTE_U OR PTE_W) = Some (0, None)"
    using assms by (simp_all add: faulting_def)
  have "(PTE_U OR PTE_W) OR PTE_U = PTE_U OR PTE_W" by (simp add: PTE_U_def PTE_W_def)
  then have "user_mem_assert cfg c ?s k (UXSTACKTOP - PGSIZE) PGSIZE (PTE_U OR PTE_W) = Some (?s, None)"
    using a by (simp add: user_mem_assert_def entered_sel exception_stack_def [symmetric])
  then have "page_fault_handler cfg c ?s cr2 tf =
     (case push_utf ?s pgdir cr2 tf of None \<Rightarrow> None
      | Some (m, tmp) \<Rightarrow> map_option (\<lambda>(s, r). (s, Some r))
          (env_run c (set_tf k (tf\<lparr>tf_esp := tmp, tf_eip := env_pgfault_upcall (envs s k)\<rparr>) (?s\<lparr>vm := m\<rparr>)) k))"
    using a by (simp add: page_fault_handler_def entered_sel split: option.splits)
  moreover have "trap cfg c ser kbd cr2 \<lparr>kst = s, con = cn\<rparr> tf =
      do { (m, cs, r) \<leftarrow> trap_dispatch cfg c ser kbd cr2 \<lparr>kst = ?s, con = cn\<rparr> tf;
           case r of Some r \<Rightarrow> Some (m, cs, r)
           | None \<Rightarrow> map_option (\<lambda>(s, r). (m\<lparr>kst := s\<rparr>, cs, r)) (trap_return cfg c (kst m)) }"
    using a by (simp add: trap_def lock_kernel_def entered_def status_def)
  moreover have "trap_dispatch cfg c ser kbd cr2 \<lparr>kst = ?s, con = cn\<rparr> tf =
      map_option (\<lambda>(s, r). (\<lparr>kst = s, con = cn\<rparr>, [], r)) (page_fault_handler cfg c ?s cr2 tf)"
    using a(2) by (simp add: trap_dispatch_def trap_numbers)
  ultimately show ?thesis
    by (cases "push_utf ?s pgdir cr2 tf")
      (simp_all add: map_conv_bind_option comp_def case_prod_unfold)
qed

text \<open>
  A fault taken on the exception stack is one of the handler itself. The frame of a fault ends below the top of the
  exception stack; that of a recursive fault ends below the frame of the handler that faulted, with a zero word
  between them.
\<close>

definition recursive_fault :: "trapframe \<Rightarrow> bool" where
  "recursive_fault tf \<longleftrightarrow> exception_stack \<le> tf_esp tf \<and> tf_esp tf \<le> UXSTACKTOP - 1"

definition pushed_below :: "trapframe \<Rightarrow> w32" where
  "pushed_below tf = (if recursive_fault tf then tf_esp tf else UXSTACKTOP - 1)"

definition handler_sp :: "trapframe \<Rightarrow> w32" where
  "handler_sp tf = pushed_below tf - (if recursive_fault tf then 56 else 52)"

lemma below_on_stack:
  assumes "exception_stack + 56 \<le> va" and "va \<le> UXSTACKTOP - 1" and "n \<le> 56"
  shows "PGNUM (va - word_of_nat n) = PGNUM exception_stack" and "page_offset (va - word_of_nat n) = page_offset va - n"
    and "56 \<le> page_offset va" and "\<not> va - word_of_nat n < exception_stack" and "\<not> va - word_of_nat n > UXSTACKTOP - 1"
proof -
  have u: "0xEEBFF038 \<le> unat va" "unat va \<le> 0xEEBFFFFF" using assms(1,2) by (simp_all add: exception_stack_value word_le_nat_alt)
  have "unat (word_of_nat n :: w32) = n" using assms(3) by (simp add: unat_of_nat)
  then have s: "unat (va - word_of_nat n) = unat va - n" using u assms(3) by (simp add: unat_sub word_le_nat_alt)
  have page: "x div 4096 = 0xEEBFF \<and> x mod 4096 = x - 0xEEBFF000" if "0xEEBFF000 \<le> x" "x \<le> 0xEEBFFFFF" for x :: nat
  proof -
    have "x div 4096 = 0xEEBFF" using that by (intro div_nat_eqI) simp_all
    then show ?thesis using minus_div_mult_eq_mod [of x 4096] by simp
  qed
  show "PGNUM (va - word_of_nat n) = PGNUM exception_stack" and "page_offset (va - word_of_nat n) = page_offset va - n"
    and "56 \<le> page_offset va"
    using s u assms(3) page [of "unat va - n"] page [of "unat va"] by (simp_all add: PGNUM_div page_offset_mod exception_stack_value)
  show "\<not> va - word_of_nat n < exception_stack" and "\<not> va - word_of_nat n > UXSTACKTOP - 1"
    using s u assms(3) by (simp_all add: exception_stack_value word_less_nat_alt)
qed

lemma same_page_less:
  assumes "PGNUM va = PGNUM va'"
  shows "va < va' \<longleftrightarrow> page_offset va < page_offset va'"
proof -
  have "unat va div 4096 = unat va' div 4096" using assms by (simp add: PGNUM_div)
  then show ?thesis
    unfolding word_less_nat_alt page_offset_mod by (metis add_less_cancel_left div_mult_mod_eq)
qed

text \<open>What a push of the frame leaves on the exception stack.\<close>

definition frame_pushed :: "pmem \<Rightarrow> pmem \<Rightarrow> nat \<Rightarrow> w32 \<Rightarrow> trapframe \<Rightarrow> bool" where
  "frame_pushed v v' pgdir cr2 tf \<longleftrightarrow>
     (\<forall>i<52. load_byte v' pgdir (handler_sp tf + word_of_nat i) = Some (concat (map bytes_of (utrapframe cr2 tf)) ! i)) \<and>
     (recursive_fault tf \<longrightarrow> (\<forall>i<4. load_byte v' pgdir (tf_esp tf - 4 + word_of_nat i) = Some 0)) \<and>
     (\<forall>va. PGNUM va = PGNUM exception_stack \<longrightarrow> va < handler_sp tf \<or> pushed_below tf \<le> va \<longrightarrow>
        load_byte v' pgdir va = load_byte v pgdir va)"

lemma push_utf_ok:
  assumes w: "writable (vm s) pgdir f exception_stack"
    and room: "tf_esp tf < exception_stack \<or> exception_stack + 56 \<le> tf_esp tf"
  obtains m where "push_utf s pgdir cr2 tf = Some (m, handler_sp tf)" and "frame_only f (vm s) m"
    and "frame_pushed (vm s) m pgdir cr2 tf"
proof -
  let ?sp = "handler_sp tf" and ?bs = "concat (map bytes_of (utrapframe cr2 tf))" and ?zs = "bytes_of 0"
  have len: "length ?bs = 52" "length ?zs = 4" by (simp_all add: utrapframe_def bytes_of_def)
  note same = same_page_less and bs = exception_stack_def [symmetric]
  show thesis
  proof (cases "recursive_fault tf")
    case False
    then have sp: "?sp = UXSTACKTOP - 1 - 52" "pushed_below tf = UXSTACKTOP - 1" by (simp_all add: handler_sp_def pushed_below_def)
    have "exception_stack + 56 \<le> UXSTACKTOP - 1" by (simp add: exception_stack_value)
    note b = below_on_stack [OF this order_refl, of 52, unfolded of_nat_numeral, folded sp(1), simplified]
      and top = below_on_stack(1,2) [OF this order_refl, of 0, simplified]
    have off: "page_offset (UXSTACKTOP - 1) = 4095" by (simp add: exception_stack_value page_offset_def)
    have "page_offset ?sp + length ?bs \<le> 4096" using b(2) off len by simp
    from store_bytes_in_page [OF w b(1) this, unfolded len] obtain m where
      m: "store_bytes pgdir ?sp ?bs (vm s) = Some m" "frame_only f (vm s) m"
      "\<And>i. i < 52 \<Longrightarrow> load_byte m pgdir (?sp + word_of_nat i) = Some (?bs ! i)"
      "\<And>va. PGNUM va = PGNUM exception_stack \<Longrightarrow> page_offset va < page_offset ?sp \<or> page_offset ?sp + 52 \<le> page_offset va \<Longrightarrow>
         load_byte m pgdir va = load_byte (vm s) pgdir va" by blast
    have "load_byte m pgdir va = load_byte (vm s) pgdir va"
      if "PGNUM va = PGNUM exception_stack" "va < ?sp \<or> UXSTACKTOP - 1 \<le> va" for va
      using that m(4) [of va] same [of va ?sp] same [of va "UXSTACKTOP - 1"] b(1,2) top off by (auto simp: not_less [symmetric])
    then have "frame_pushed (vm s) m pgdir cr2 tf" using False m(3) by (simp add: frame_pushed_def sp(2))
    moreover have "push_utf s pgdir cr2 tf = Some (m, ?sp)"
      using False m(1) b(4,5) by (simp add: push_utf_def Let_def bs sp(1) recursive_fault_def sizeof_utf_def not_le)
    ultimately show thesis using that m(2) by blast
  next
    case True
    let ?esp = "tf_esp tf"
    have esp: "exception_stack + 56 \<le> ?esp" "?esp \<le> UXSTACKTOP - 1"
      using True room by (auto simp: recursive_fault_def not_le [symmetric])
    have sp: "?sp = ?esp - 56" "pushed_below tf = ?esp" using True by (simp_all add: handler_sp_def pushed_below_def)
    note b = below_on_stack [OF esp, of 56, unfolded of_nat_numeral, folded sp(1), simplified]
      and z = below_on_stack(1,2) [OF esp, of 4, simplified] and e = below_on_stack(1) [OF esp, of 0, simplified]
    have o4096: "page_offset ?esp < 4096" by (simp add: page_offset_mod)
    have "page_offset (?esp - 4) + length ?zs \<le> 4096" using z(2) b(3) o4096 len by simp
    from store_bytes_in_page [OF w z(1) this, unfolded len] obtain m1 where
      m1: "store_bytes pgdir (?esp - 4) ?zs (vm s) = Some m1" "frame_only f (vm s) m1"
      "\<And>i. i < 4 \<Longrightarrow> load_byte m1 pgdir (?esp - 4 + word_of_nat i) = Some (?zs ! i)"
      "\<And>va. PGNUM va = PGNUM exception_stack \<Longrightarrow> page_offset va < page_offset (?esp - 4) \<or> page_offset (?esp - 4) + 4 \<le> page_offset va \<Longrightarrow>
         load_byte m1 pgdir va = load_byte (vm s) pgdir va" by blast
    have "page_offset ?sp + length ?bs \<le> 4096" using b(2) o4096 len by simp
    from store_bytes_in_page [OF writable_frame [OF m1(2) w] b(1) this, unfolded len] obtain m where
      m: "store_bytes pgdir ?sp ?bs m1 = Some m" "frame_only f m1 m"
      "\<And>i. i < 52 \<Longrightarrow> load_byte m pgdir (?sp + word_of_nat i) = Some (?bs ! i)"
      "\<And>va. PGNUM va = PGNUM exception_stack \<Longrightarrow> page_offset va < page_offset ?sp \<or> page_offset ?sp + 52 \<le> page_offset va \<Longrightarrow>
         load_byte m pgdir va = load_byte m1 pgdir va" by blast
    have "load_byte m pgdir va = load_byte (vm s) pgdir va"
      if "PGNUM va = PGNUM exception_stack" "va < ?sp \<or> ?esp \<le> va" for va
      using that m(4) [of va] m1(4) [of va] same [of va ?sp] same [of va ?esp] b(1-3) e z by (auto simp: not_less [symmetric])
    moreover have "load_byte m pgdir (?esp - 4 + word_of_nat i) = Some 0" if i: "i < 4" for i
    proof -
      have "page_offset (?esp - 4) + i < 4096" using z(2) b(3) o4096 i by simp
      note a = va_add [OF this]
      have zero: "bytes_of 0 ! i = 0" using i by (auto simp: bytes_of_def less_Suc_eq numeral_eq_Suc)
      have "page_offset ?sp + 52 \<le> page_offset (?esp - 4 + word_of_nat i)" using a(2) z(2) b(2,3) by linarith
      then show ?thesis using m(4) [of "?esp - 4 + word_of_nat i"] m1(3) a(1) z(1) i zero by simp
    qed
    ultimately have "frame_pushed (vm s) m pgdir cr2 tf" using m(3) by (simp add: frame_pushed_def sp(2))
    moreover have "\<not> (?esp < exception_stack \<or> UXSTACKTOP - 1 < ?esp)"
      using True by (simp add: recursive_fault_def not_less)
    then have "push_utf s pgdir cr2 tf = Some (m, ?sp)"
      using m1(1) m(1) b(4,5) by (simp add: push_utf_def Let_def bs sp(1) sizeof_utf_def)
    ultimately show thesis using that frame_only_trans [OF m1(2) m(2)] by blast
  qed
qed

text \<open>C27. A page fault of a program with a handler, taken on its normal stack or, while the handler runs, on the
  exception stack with at least 56 bytes left: the program goes on in its handler with the stack pointer at a
  \<open>struct UTrapframe\<close> that holds the faulting address, the error code, the registers, the instruction and the
  stack pointer of the fault. The frame lies at the top of the exception stack or, for a recursive fault, below the
  interrupted frame and a zero word; no other byte of the exception stack and no other frame changes. (The first frame
  is put one byte below the top of the stack, so it is not aligned.)\<close>

theorem page_fault_reaches_handler:
  assumes "faulting s c k pgdir tf" and "writable (vm s) pgdir f exception_stack"
    and "tf_esp tf < exception_stack \<or> exception_stack + 56 \<le> tf_esp tf"
  shows "\<exists>s'. trap cfg c ser kbd cr2 \<lparr>kst = s, con = cn\<rparr> tf = Some (\<lparr>kst = s', con = cn\<rparr>, [], Runs k) \<and>
     env_tf (envs s' k) = tf\<lparr>tf_esp := handler_sp tf, tf_eip := env_pgfault_upcall (envs s k)\<rparr> \<and>
     frame_pushed (vm s) (vm s') pgdir cr2 tf \<and> frame_only f (vm s) (vm s')"
proof -
  let ?s = "entered s c k tf"
  obtain m where m: "push_utf ?s pgdir cr2 tf = Some (m, handler_sp tf)" "frame_only f (vm s) m"
    "frame_pushed (vm s) m pgdir cr2 tf"
    using push_utf_ok [of ?s pgdir f tf cr2] assms(2,3) by (simp add: entered_sel) blast
  let ?tf = "tf\<lparr>tf_esp := handler_sp tf, tf_eip := env_pgfault_upcall (envs s k)\<rparr>"
  let ?s2 = "set_tf k ?tf (?s\<lparr>vm := m\<rparr>)"
  have "cpu_env ?s2 c = Some k" "env_pgdir (envs ?s2 k) = Some pgdir" "env_tf (envs ?s2 k) = ?tf" "vm ?s2 = m"
    using assms(1) by (simp_all add: faulting_def set_tf_def entered_sel)
  with env_run_self [of ?s2 c k pgdir] obtain s' where
    s': "env_run c ?s2 k = Some (s', Runs k)" "env_tf (envs s' k) = ?tf" "vm s' = m" by auto
  show ?thesis
    by (rule exI [of _ s']) (simp add: trap_page_fault [OF assms(1)] m s')
qed

text \<open>A program with a handler and an exception stack can stop the machine: when it faults with its
  stack pointer within the lowest 56 bytes of the exception stack there is no room for the next
  frame, and the kernel panics instead of destroying the program.\<close>

theorem low_exception_stack_panics:
  assumes "faulting s c k pgdir tf" and "exception_stack \<le> tf_esp tf" and "tf_esp tf < exception_stack + 56"
  shows "trap cfg c ser kbd cr2 \<lparr>kst = s, con = cn\<rparr> tf = None"
proof -
  have top: "tf_esp tf < 0xEEBFF038" "0xEEBFF000 \<le> tf_esp tf"
    using assms(2,3) by (simp_all add: exception_stack_value)
  have "tf_esp tf - 56 < 0xEEBFF000"
  proof -
    have "unat (tf_esp tf - 56) = unat (tf_esp tf) - 56"
      using top by (simp add: unat_sub word_le_nat_alt)
    then show ?thesis using top by (simp add: word_less_nat_alt word_le_nat_alt)
  qed
  then have low: "tf_esp tf - 4 - sizeof_utf < exception_stack"
    by (simp add: sizeof_utf_def exception_stack_value algebra_simps)
  have "\<not> (tf_esp tf < exception_stack \<or> tf_esp tf > UXSTACKTOP - 1)"
    using assms(2) top by (auto simp: exception_stack_value word_le_nat_alt word_less_nat_alt)
  with low have "push_utf (entered s c k tf) pgdir cr2 tf = None"
    by (auto simp: push_utf_def exception_stack_def [symmetric] Let_def split: Option.bind_splits)
  then show ?thesis by (simp add: trap_page_fault [OF assms(1)])
qed

subsection \<open>Instances\<close>

text \<open>Environment 0 runs on processor 0, with a handler and one page, its exception stack.\<close>

definition demo_stack_memory :: pmem where
  "demo_stack_memory = demo_mem\<lparr>phys := (\<lambda>_ _. 0)(5 := (\<lambda>_. 0)(954 := 0x4007), 4 := (\<lambda>_. 0)(1023 := 0x6007)),
     npages := 8\<rparr>"

definition demo_faulting :: kern where
  "demo_faulting = demo_three\<lparr>kernel_locked := False, cpu_status := \<lambda>_. CPU_STARTED,
     envs := (envs demo_three)(0 := demo_env0\<lparr>env_status := ENV_RUNNING, env_pgfault_upcall := 0x800020\<rparr>),
     vm := demo_stack_memory\<rparr>"

definition demo_fault :: "w32 \<Rightarrow> trapframe" where
  "demo_fault esp = zero_tf\<lparr>tf_cs := 0x1B, tf_trapno := 14, tf_esp := esp\<rparr>"

lemma demo_stack_check:
  "user_mem_check demo_stack_memory 5 exception_stack PGSIZE (PTE_U OR PTE_W) = Some (0, None)"
proof -
  have p: "[977919..<977920] = [977919 :: nat]" by simp
  show ?thesis
    by (simp add: user_mem_check_def exception_stack_value layout_defs ROUNDUP_def ROUNDDOWN_def PGNUM_def p
        pgdir_walk_def PDX_def PTX_def demo_stack_memory_def demo_mem_def PTE_P_def PTE_U_def PTE_W_def Let_def
        pa2page_def PTE_ADDR_def)
qed

lemma demo_faulting_ok: "faulting demo_faulting 0 0 5 (demo_fault esp)"
  using demo_stack_check
  by (simp add: faulting_def demo_faulting_def demo_fault_def demo_three_sel status_def demo_env0_def trap_numbers)
    (simp add: demo_three_def demo_caller_def)

lemma demo_writable: "writable (vm demo_faulting) 5 6 exception_stack"
  by (simp add: writable_def demo_faulting_def demo_stack_memory_def Let_def exception_stack_value PDX_def PTX_def
      PGNUM_def PTE_P_def PTE_W_def)

text \<open>The first fault puts its frame at the top, a fault of the handler at \<open>0xEEBFFF00\<close> below that address.\<close>

lemma page_fault_reaches_handler_witness:
  "(\<exists>s'. trap SCHED_PRIORITIES 0 [] [] 0x1234 \<lparr>kst = demo_faulting, con = demo_console\<rparr> (demo_fault 0xEEBFDF00) =
       Some (\<lparr>kst = s', con = demo_console\<rparr>, [], Runs 0) \<and>
     tf_eip (env_tf (envs s' 0)) = 0x800020 \<and> load_byte (vm s') 5 0xEEBFFFCB = Some 0x34) \<and>
   (\<exists>s'. trap SCHED_PRIORITIES 0 [] [] 0x1234 \<lparr>kst = demo_faulting, con = demo_console\<rparr> (demo_fault 0xEEBFFF00) =
       Some (\<lparr>kst = s', con = demo_console\<rparr>, [], Runs 0) \<and>
     tf_esp (env_tf (envs s' 0)) = 0xEEBFFEC8 \<and> load_byte (vm s') 5 0xEEBFFEC8 = Some 0x34 \<and>
     load_byte (vm s') 5 0xEEBFFEFC = Some 0)"
proof
  have "tf_esp (demo_fault 0xEEBFDF00) < exception_stack" by (simp add: demo_fault_def exception_stack_value)
  with page_fault_reaches_handler [OF demo_faulting_ok [of "0xEEBFDF00"] demo_writable, of SCHED_PRIORITIES "[]" "[]" "0x1234"]
  obtain s' where s': "trap SCHED_PRIORITIES 0 [] [] 0x1234 \<lparr>kst = demo_faulting, con = demo_console\<rparr> (demo_fault 0xEEBFDF00) =
       Some (\<lparr>kst = s', con = demo_console\<rparr>, [], Runs 0)"
    "env_tf (envs s' 0) = (demo_fault 0xEEBFDF00)\<lparr>tf_esp := handler_sp (demo_fault 0xEEBFDF00),
       tf_eip := env_pgfault_upcall (envs demo_faulting 0)\<rparr>"
    "frame_pushed (vm demo_faulting) (vm s') 5 0x1234 (demo_fault 0xEEBFDF00)" by blast
  have "handler_sp (demo_fault 0xEEBFDF00) = 0xEEBFFFCB"
    by (simp add: handler_sp_def pushed_below_def recursive_fault_def demo_fault_def exception_stack_value)
  then have "load_byte (vm s') 5 0xEEBFFFCB = Some 0x34"
    using s'(3) by (auto simp: frame_pushed_def utrapframe_def bytes_of_def dest: spec [of _ 0])
  with s'(1,2) show "\<exists>s'. trap SCHED_PRIORITIES 0 [] [] 0x1234 \<lparr>kst = demo_faulting, con = demo_console\<rparr> (demo_fault 0xEEBFDF00) =
       Some (\<lparr>kst = s', con = demo_console\<rparr>, [], Runs 0) \<and>
     tf_eip (env_tf (envs s' 0)) = 0x800020 \<and> load_byte (vm s') 5 0xEEBFFFCB = Some 0x34"
    by (simp add: demo_faulting_def)
next
  have "exception_stack + 56 \<le> tf_esp (demo_fault 0xEEBFFF00)" by (simp add: demo_fault_def exception_stack_value)
  with page_fault_reaches_handler [OF demo_faulting_ok [of "0xEEBFFF00"] demo_writable, of SCHED_PRIORITIES "[]" "[]" "0x1234"]
  obtain s' where s': "trap SCHED_PRIORITIES 0 [] [] 0x1234 \<lparr>kst = demo_faulting, con = demo_console\<rparr> (demo_fault 0xEEBFFF00) =
       Some (\<lparr>kst = s', con = demo_console\<rparr>, [], Runs 0)"
    "env_tf (envs s' 0) = (demo_fault 0xEEBFFF00)\<lparr>tf_esp := handler_sp (demo_fault 0xEEBFFF00),
       tf_eip := env_pgfault_upcall (envs demo_faulting 0)\<rparr>"
    "frame_pushed (vm demo_faulting) (vm s') 5 0x1234 (demo_fault 0xEEBFFF00)" by blast
  have sp: "handler_sp (demo_fault 0xEEBFFF00) = 0xEEBFFEC8" "recursive_fault (demo_fault 0xEEBFFF00)"
    "tf_esp (demo_fault 0xEEBFFF00) = 0xEEBFFF00"
    by (simp_all add: handler_sp_def pushed_below_def recursive_fault_def demo_fault_def exception_stack_value)
  then have "load_byte (vm s') 5 0xEEBFFEC8 = Some 0x34" "load_byte (vm s') 5 0xEEBFFEFC = Some 0"
    using s'(3) by (auto simp: frame_pushed_def utrapframe_def bytes_of_def dest: spec [of _ 0])
  with s'(1,2) sp(1) show "\<exists>s'. trap SCHED_PRIORITIES 0 [] [] 0x1234 \<lparr>kst = demo_faulting, con = demo_console\<rparr> (demo_fault 0xEEBFFF00) =
       Some (\<lparr>kst = s', con = demo_console\<rparr>, [], Runs 0) \<and>
     tf_esp (env_tf (envs s' 0)) = 0xEEBFFEC8 \<and> load_byte (vm s') 5 0xEEBFFEC8 = Some 0x34 \<and>
     load_byte (vm s') 5 0xEEBFFEFC = Some 0"
    by simp
qed

lemma low_exception_stack_panics_witness:
  "trap SCHED_PRIORITIES 0 [] [] 0x1234 \<lparr>kst = demo_faulting, con = demo_console\<rparr> (demo_fault 0xEEBFF010) = None"
  by (rule low_exception_stack_panics [OF demo_faulting_ok]) (simp_all add: demo_fault_def exception_stack_value)

end
