(* ===== verification/CString.thy ===== *)
theory CString
  imports Pmap
begin

unbundle bit_operations_syntax

text \<open>
  The string routines shared by the kernel and its programs (\<open>sched/lib/string.c\<close>), on a memory of
  bytes at 32-bit addresses. A byte that is not there cannot be read or written: the result is
  \<open>None\<close>, as it is for a loop that never ends and for an overflow of a signed integer. Numbers of
  type \<open>int\<close>, \<open>size_t\<close> and \<open>long\<close> have 32 bits, and a pointer is an address.
\<close>

type_synonym bytes = "w32 \<Rightarrow> w8 option"

definition store :: "w32 \<Rightarrow> w8 \<Rightarrow> bytes \<Rightarrow> bytes option" where
  "store p b m = (if m p = None then None else Some (m(p \<mapsto> b)))"

subsection \<open>Lengths\<close>

partial_function (option) strlen_loop :: "bytes \<Rightarrow> w32 \<Rightarrow> w32 \<Rightarrow> w32 option" where
  "strlen_loop m s n = do { ch \<leftarrow> m s; if ch \<noteq> 0 then strlen_loop m (s + 1) (n + 1) else Some n }"

declare strlen_loop.simps [code]

definition strlen :: "bytes \<Rightarrow> w32 \<Rightarrow> w32 option" where "strlen m s = strlen_loop m s 0"

fun strnlen_loop :: "bytes \<Rightarrow> w32 \<Rightarrow> nat \<Rightarrow> w32 \<Rightarrow> w32 option" where
  "strnlen_loop m s 0 n = Some n"
| "strnlen_loop m s (Suc k) n = do {
     ch \<leftarrow> m s; if ch \<noteq> 0 then strnlen_loop m (s + 1) k (n + 1) else Some n }"

definition strnlen :: "bytes \<Rightarrow> w32 \<Rightarrow> w32 \<Rightarrow> w32 option" where
  "strnlen m s sz = strnlen_loop m s (unat sz) 0"

subsection \<open>Copies of strings\<close>

partial_function (option) strcpy_loop :: "w32 \<Rightarrow> w32 \<Rightarrow> bytes \<Rightarrow> bytes option" where
  "strcpy_loop dst src m = do {
     ch \<leftarrow> m src;
     m \<leftarrow> store dst ch m;
     if ch \<noteq> 0 then strcpy_loop (dst + 1) (src + 1) m else Some m }"

declare strcpy_loop.simps [code]

definition strcpy :: "w32 \<Rightarrow> w32 \<Rightarrow> bytes \<Rightarrow> bytes option" where "strcpy dst src m = strcpy_loop dst src m"

definition strcat :: "w32 \<Rightarrow> w32 \<Rightarrow> bytes \<Rightarrow> bytes option" where
  "strcat dst src m = do { len \<leftarrow> strlen m dst; strcpy (dst + len) src m }"

fun strncpy_loop :: "w32 \<Rightarrow> w32 \<Rightarrow> nat \<Rightarrow> bytes \<Rightarrow> bytes option" where
  "strncpy_loop dst src 0 m = Some m"
| "strncpy_loop dst src (Suc k) m = do {
     ch \<leftarrow> m src;
     m \<leftarrow> store dst ch m;
     ch \<leftarrow> m src;
     strncpy_loop (dst + 1) (if ch \<noteq> 0 then src + 1 else src) k m }"

definition strncpy :: "w32 \<Rightarrow> w32 \<Rightarrow> w32 \<Rightarrow> bytes \<Rightarrow> bytes option" where
  "strncpy dst src sz m = strncpy_loop dst src (unat sz) m"

fun strlcpy_loop :: "w32 \<Rightarrow> w32 \<Rightarrow> nat \<Rightarrow> bytes \<Rightarrow> (bytes \<times> w32) option" where
  "strlcpy_loop dst src 0 m = Some (m, dst)"
| "strlcpy_loop dst src (Suc k) m = do {
     ch \<leftarrow> m src;
     if ch \<noteq> 0 then do { m \<leftarrow> store dst ch m; strlcpy_loop (dst + 1) (src + 1) k m }
     else Some (m, dst) }"

definition strlcpy :: "w32 \<Rightarrow> w32 \<Rightarrow> w32 \<Rightarrow> bytes \<Rightarrow> (bytes \<times> w32) option" where
  "strlcpy dst src sz m =
     (if sz > 0 then do {
        (m, d) \<leftarrow> strlcpy_loop dst src (unat (sz - 1)) m;
        m \<leftarrow> store d 0 m;
        Some (m, d - dst)
      } else Some (m, 0))"

subsection \<open>Comparison and search\<close>

text \<open>The difference of two characters read as unsigned.\<close>

definition char_diff :: "w8 \<Rightarrow> w8 \<Rightarrow> int" where "char_diff a b = uint a - uint b"

partial_function (option) strcmp :: "bytes \<Rightarrow> w32 \<Rightarrow> w32 \<Rightarrow> int option" where
  "strcmp m p q = do {
     a \<leftarrow> m p;
     if a \<noteq> 0 then do {
       b \<leftarrow> m q;
       if a = b then strcmp m (p + 1) (q + 1) else Some (char_diff a b)
     } else do { b \<leftarrow> m q; Some (char_diff a b) } }"

declare strcmp.simps [code]

fun strncmp_loop :: "bytes \<Rightarrow> w32 \<Rightarrow> w32 \<Rightarrow> nat \<Rightarrow> int option" where
  "strncmp_loop m p q 0 = Some 0"
| "strncmp_loop m p q (Suc n) = do {
     a \<leftarrow> m p;
     b \<leftarrow> m q;
     if a \<noteq> 0 \<and> a = b then strncmp_loop m (p + 1) (q + 1) n else Some (char_diff a b) }"

definition strncmp :: "bytes \<Rightarrow> w32 \<Rightarrow> w32 \<Rightarrow> w32 \<Rightarrow> int option" where
  "strncmp m p q n = strncmp_loop m p q (unat n)"

text \<open>\<open>strchr\<close> gives the null pointer for a missing character, \<open>strfind\<close> the end of the string.\<close>

partial_function (option) strchr :: "bytes \<Rightarrow> w32 \<Rightarrow> w8 \<Rightarrow> w32 option" where
  "strchr m s c = do {
     ch \<leftarrow> m s;
     if ch = 0 then Some 0 else if ch = c then Some s else strchr m (s + 1) c }"

declare strchr.simps [code]

partial_function (option) strfind :: "bytes \<Rightarrow> w32 \<Rightarrow> w8 \<Rightarrow> w32 option" where
  "strfind m s c = do {
     ch \<leftarrow> m s;
     if ch = 0 then Some s else if ch = c then Some s else strfind m (s + 1) c }"

declare strfind.simps [code]

subsection \<open>Blocks of memory\<close>

text \<open>The string instructions of the processor: stores and moves of bytes and of words of four bytes.\<close>

fun stosb :: "w8 \<Rightarrow> nat \<Rightarrow> w32 \<Rightarrow> bytes \<Rightarrow> bytes option" where
  "stosb b 0 p m = Some m"
| "stosb b (Suc n) p m = do { m \<leftarrow> store p b m; stosb b n (p + 1) m }"

definition store4 :: "w32 \<Rightarrow> w32 \<Rightarrow> bytes \<Rightarrow> bytes option" where
  "store4 p w m = do {
     m \<leftarrow> store p (ucast w) m;
     m \<leftarrow> store (p + 1) (ucast (drop_bit 8 w)) m;
     m \<leftarrow> store (p + 2) (ucast (drop_bit 16 w)) m;
     store (p + 3) (ucast (drop_bit 24 w)) m }"

definition load4 :: "bytes \<Rightarrow> w32 \<Rightarrow> (w8 \<times> w8 \<times> w8 \<times> w8) option" where
  "load4 m p = do { a \<leftarrow> m p; b \<leftarrow> m (p + 1); c \<leftarrow> m (p + 2); d \<leftarrow> m (p + 3); Some (a, b, c, d) }"

definition move4 :: "w32 \<Rightarrow> w32 \<Rightarrow> bytes \<Rightarrow> bytes option" where
  "move4 d s m = do {
     (a, b, c, e) \<leftarrow> load4 m s;
     m \<leftarrow> store d a m; m \<leftarrow> store (d + 1) b m; m \<leftarrow> store (d + 2) c m; store (d + 3) e m }"

fun stosl :: "w32 \<Rightarrow> nat \<Rightarrow> w32 \<Rightarrow> bytes \<Rightarrow> bytes option" where
  "stosl w 0 p m = Some m"
| "stosl w (Suc n) p m = do { m \<leftarrow> store4 p w m; stosl w n (p + 4) m }"

text \<open>\<open>step\<close> is 1 with the direction flag clear and -1 with it set.\<close>

fun movsb :: "w32 \<Rightarrow> nat \<Rightarrow> w32 \<Rightarrow> w32 \<Rightarrow> bytes \<Rightarrow> bytes option" where
  "movsb step 0 d s m = Some m"
| "movsb step (Suc n) d s m = do { b \<leftarrow> m s; m \<leftarrow> store d b m; movsb step n (d + step) (s + step) m }"

fun movsl :: "w32 \<Rightarrow> nat \<Rightarrow> w32 \<Rightarrow> w32 \<Rightarrow> bytes \<Rightarrow> bytes option" where
  "movsl step 0 d s m = Some m"
| "movsl step (Suc n) d s m = do { m \<leftarrow> move4 d s m; movsl step n (d + 4 * step) (s + 4 * step) m }"

definition memset :: "w32 \<Rightarrow> w32 \<Rightarrow> w32 \<Rightarrow> bytes \<Rightarrow> bytes option" where
  "memset v c n m =
     (if n = 0 then Some m
      else if v mod 4 = 0 \<and> n mod 4 = 0 then
        (let c = c AND 0xFF; c = push_bit 24 c OR push_bit 16 c OR push_bit 8 c OR c
         in stosl c (unat (n div 4)) v m)
      else stosb (ucast c) (unat n) v m)"

definition memmove :: "w32 \<Rightarrow> w32 \<Rightarrow> w32 \<Rightarrow> bytes \<Rightarrow> bytes option" where
  "memmove dst src n m =
     (if src < dst \<and> src + n > dst then
        (let s = src + n; d = dst + n
         in if s mod 4 = 0 \<and> d mod 4 = 0 \<and> n mod 4 = 0 then movsl (- 1) (unat (n div 4)) (d - 4) (s - 4) m
            else movsb (- 1) (unat n) (d - 1) (s - 1) m)
      else
        (if src mod 4 = 0 \<and> dst mod 4 = 0 \<and> n mod 4 = 0 then movsl 1 (unat (n div 4)) dst src m
         else movsb 1 (unat n) dst src m))"

definition memcpy :: "w32 \<Rightarrow> w32 \<Rightarrow> w32 \<Rightarrow> bytes \<Rightarrow> bytes option" where "memcpy dst src n m = memmove dst src n m"

text \<open>The versions for a compiler without assembly.\<close>

fun down_loop :: "nat \<Rightarrow> w32 \<Rightarrow> w32 \<Rightarrow> bytes \<Rightarrow> bytes option" where
  "down_loop 0 d s m = Some m"
| "down_loop (Suc n) d s m = do {
     let d = d - 1; let s = s - 1;
     b \<leftarrow> m s; m \<leftarrow> store d b m; down_loop n d s m }"

fun up_loop :: "nat \<Rightarrow> w32 \<Rightarrow> w32 \<Rightarrow> bytes \<Rightarrow> bytes option" where
  "up_loop 0 d s m = Some m"
| "up_loop (Suc n) d s m = do { b \<leftarrow> m s; m \<leftarrow> store d b m; up_loop n (d + 1) (s + 1) m }"

definition memmove_portable :: "w32 \<Rightarrow> w32 \<Rightarrow> w32 \<Rightarrow> bytes \<Rightarrow> bytes option" where
  "memmove_portable dst src n m =
     (if src < dst \<and> src + n > dst then down_loop (unat n) (dst + n) (src + n) m
      else up_loop (unat n) dst src m)"

fun fill_loop :: "nat \<Rightarrow> w32 \<Rightarrow> w32 \<Rightarrow> bytes \<Rightarrow> bytes option" where
  "fill_loop 0 p c m = Some m"
| "fill_loop (Suc n) p c m = do { m \<leftarrow> store p (ucast c) m; fill_loop n (p + 1) c m }"

text \<open>The count is read as signed, so more than \<open>2 ^ 31 - 1\<close> bytes are none.\<close>

definition memset_portable :: "w32 \<Rightarrow> w32 \<Rightarrow> w32 \<Rightarrow> bytes \<Rightarrow> bytes option" where
  "memset_portable v c n m = fill_loop (nat (sint n)) v c m"

fun memcmp_loop :: "bytes \<Rightarrow> w32 \<Rightarrow> w32 \<Rightarrow> nat \<Rightarrow> int option" where
  "memcmp_loop m p q 0 = Some 0"
| "memcmp_loop m p q (Suc n) = do {
     a \<leftarrow> m p; b \<leftarrow> m q;
     if a \<noteq> b then Some (char_diff a b) else memcmp_loop m (p + 1) (q + 1) n }"

definition memcmp :: "bytes \<Rightarrow> w32 \<Rightarrow> w32 \<Rightarrow> w32 \<Rightarrow> int option" where
  "memcmp m p q n = memcmp_loop m p q (unat n)"

partial_function (option) memfind_loop :: "bytes \<Rightarrow> w32 \<Rightarrow> w32 \<Rightarrow> w8 \<Rightarrow> w32 option" where
  "memfind_loop m s ends c =
     (if s < ends then do { b \<leftarrow> m s; if b = c then Some s else memfind_loop m (s + 1) ends c } else Some s)"

declare memfind_loop.simps [code]

definition memfind :: "bytes \<Rightarrow> w32 \<Rightarrow> w32 \<Rightarrow> w32 \<Rightarrow> w32 option" where
  "memfind m s c n = memfind_loop m s (s + n) (ucast c)"

subsection \<open>Numbers\<close>

partial_function (option) skip_blanks :: "bytes \<Rightarrow> w32 \<Rightarrow> w32 option" where
  "skip_blanks m s = do { ch \<leftarrow> m s; if ch = 0x20 \<or> ch = 0x09 then skip_blanks m (s + 1) else Some s }"

declare skip_blanks.simps [code]

definition digit_value :: "w8 \<Rightarrow> int option" where
  "digit_value ch =
     (if 0x30 \<le> ch \<and> ch \<le> 0x39 then Some (uint ch - 0x30)
      else if 0x61 \<le> ch \<and> ch \<le> 0x7A then Some (uint ch - 0x61 + 10)
      else if 0x41 \<le> ch \<and> ch \<le> 0x5A then Some (uint ch - 0x41 + 10)
      else None)"

definition in_long :: "int \<Rightarrow> int option" where
  "in_long v = (if - 2147483648 \<le> v \<and> v \<le> 2147483647 then Some v else None)"

partial_function (option) digits_loop :: "bytes \<Rightarrow> w32 \<Rightarrow> int \<Rightarrow> int \<Rightarrow> (w32 \<times> int) option" where
  "digits_loop m s base val = do {
     ch \<leftarrow> m s;
     case digit_value ch of
       None \<Rightarrow> Some (s, val)
     | Some dig \<Rightarrow>
         if dig \<ge> base then Some (s, val)
         else do { v \<leftarrow> in_long (val * base); v \<leftarrow> in_long (v + dig); digits_loop m (s + 1) base v } }"

declare digits_loop.simps [code]

text \<open>The base prefix: where the digits start and the base they are in.\<close>

definition base_prefix :: "bytes \<Rightarrow> w32 \<Rightarrow> int \<Rightarrow> (w32 \<times> int) option" where
  "base_prefix m s base =
     (if base = 0 \<or> base = 16 then do {
        c0 \<leftarrow> m s;
        x \<leftarrow> (if c0 = 0x30 then map_option (\<lambda>c1. c1 = 0x78) (m (s + 1)) else Some False);
        Some (if x then (s + 2, 16)
              else if base = 0 \<and> c0 = 0x30 then (s + 1, 8)
              else (s, if base = 0 then 10 else base))
      } else Some (s, base))"

text \<open>The value and the address of the first character that is not part of it.\<close>

definition strtol :: "bytes \<Rightarrow> w32 \<Rightarrow> int \<Rightarrow> (int \<times> w32) option" where
  "strtol m s base = do {
     s \<leftarrow> skip_blanks m s;
     ch \<leftarrow> m s;
     let neg = (ch = 0x2D);
     let s = (if ch = 0x2B \<or> ch = 0x2D then s + 1 else s);
     (s, base) \<leftarrow> base_prefix m s base;
     (s, val) \<leftarrow> digits_loop m s base 0;
     val \<leftarrow> (if neg then in_long (- val) else Some val);
     Some (val, s) }"

end
