(* ===== verification/PrintFmt.thy ===== *)
theory PrintFmt
  imports CString Trap
begin

unbundle bit_operations_syntax

text \<open>
  Formatted output (\<open>sched/lib/printfmt.c\<close>, \<open>sched/lib/printf.c\<close>, \<open>sched/kern/printf.c\<close>). The
  characters that \<open>vprintfmt\<close> gives to \<open>putch\<close>, one after the other, are its result, for a \<open>putch\<close> that does
  not write what the format reads; \<open>vprintfmt_to\<close> calls any \<open>putch\<close> between the reads. The format is the rest of the format string from
  the pointer on, with its NUL; the arguments are the words on the stack. \<open>None\<close> is undefined
  behaviour: a read of memory that is not there, an argument that is missing, an overflow.
\<close>

definition asc :: "char \<Rightarrow> w8" where "asc c = of_char c"
definition chars :: "string \<Rightarrow> w8 list" where "chars s = map asc s"

text \<open>The error codes of \<open>inc/error.h\<close> that printing needs.\<close>

definition MAXERROR :: int where "MAXERROR = 9"

definition error_string :: "string option list" where
  "error_string = [None, Some ''unspecified error'', Some ''bad environment'', Some ''invalid parameter'',
     Some ''out of memory'', Some ''out of environments'', Some ''segmentation fault'',
     Some ''env is not recving'', Some ''unexpected end of file'']"

subsection \<open>Numbers\<close>

definition hex_digits :: string where "hex_digits = ''0123456789abcdef''"

text \<open>A character of that literal, with its terminating NUL.\<close>

definition digit_char :: "64 word \<Rightarrow> w8 option" where
  "digit_char d =
     (if unat d < 16 then Some (asc (hex_digits ! unat d)) else if d = 16 then Some 0 else None)"

definition pads :: "int \<Rightarrow> w8 \<Rightarrow> w8 list" where "pads n padc = replicate (nat n) padc"

partial_function (option) printnum :: "64 word \<Rightarrow> 64 word \<Rightarrow> int \<Rightarrow> w8 \<Rightarrow> w8 list option" where
  "printnum num base width padc =
     (if base = 0 then None
      else do {
        out \<leftarrow> (if num \<ge> base then printnum (num div base) base (width - 1) padc
               else Some (pads (width - 1) padc));
        d \<leftarrow> digit_char (num mod base);
        Some (out @ [d])
      })"

declare printnum.simps [code]

text \<open>An argument, read at the size that the \<open>l\<close> flags ask for.\<close>

fun getuint :: "w32 list \<Rightarrow> nat \<Rightarrow> (64 word \<times> w32 list) option" where
  "getuint [] lflag = None"
| "getuint (a # args) lflag =
     (if lflag \<ge> 2 then (case args of [] \<Rightarrow> None | hi # args \<Rightarrow> Some (push_bit 32 (ucast hi) OR ucast a, args))
      else Some (ucast a, args))"

fun getint :: "w32 list \<Rightarrow> nat \<Rightarrow> (64 word \<times> w32 list) option" where
  "getint [] lflag = None"
| "getint (a # args) lflag =
     (if lflag \<ge> 2 then (case args of [] \<Rightarrow> None | hi # args \<Rightarrow> Some (push_bit 32 (ucast hi) OR ucast a, args))
      else Some (scast a, args))"

definition va_int :: "w32 list \<Rightarrow> (w32 \<times> w32 list) option" where
  "va_int args = (case args of [] \<Rightarrow> None | a # args \<Rightarrow> Some (a, args))"

subsection \<open>Flags of a conversion\<close>

record fmtspec =
  padc :: w8
  width :: int
  precision :: int
  lflag :: nat
  altflag :: bool

definition no_flags :: fmtspec where
  "no_flags = \<lparr>padc = asc CHR '' '', width = - 1, precision = - 1, lflag = 0, altflag = False\<rparr>"

definition in_int :: "int \<Rightarrow> int option" where
  "in_int v = (if - 2147483648 \<le> v \<and> v \<le> 2147483647 then Some v else None)"

definition is_digit :: "w8 \<Rightarrow> bool" where "is_digit c \<longleftrightarrow> asc CHR ''0'' \<le> c \<and> c \<le> asc CHR ''9''"

fun width_digits :: "int \<Rightarrow> w8 \<Rightarrow> w8 list \<Rightarrow> (int \<times> w8 list) option" where
  "width_digits p ch [] = None"
| "width_digits p ch (c # fmt) = do {
     p \<leftarrow> in_int (p * 10 + uint ch - uint (asc CHR ''0''));
     if is_digit c then width_digits p c fmt else Some (p, c # fmt)
   }"

definition process_precision :: "int \<Rightarrow> fmtspec \<Rightarrow> fmtspec" where
  "process_precision p sp =
     (if width sp < 0 then sp\<lparr>width := p, precision := - 1\<rparr> else sp\<lparr>precision := p\<rparr>)"

lemma width_digits_shorter: "width_digits p ch fmt = Some (q, rest) \<Longrightarrow> length rest \<le> length fmt"
proof (induction p ch fmt rule: width_digits.induct)
  case (2 p ch c fmt)
  then show ?case by (force split: Option.bind_splits if_splits)
qed simp

text \<open>The loop over \<open>reswitch\<close>, up to the character of the conversion.\<close>

function reswitch :: "fmtspec \<Rightarrow> w8 list \<Rightarrow> w32 list \<Rightarrow> (fmtspec \<times> w8 \<times> w8 list \<times> w32 list) option" where
  "reswitch sp [] args = None"
| "reswitch sp (ch # fmt) args =
     (if ch = asc CHR ''-'' then reswitch (sp\<lparr>padc := asc CHR ''-''\<rparr>) fmt args
      else if ch = asc CHR ''0'' then reswitch (sp\<lparr>padc := asc CHR ''0''\<rparr>) fmt args
      else if is_digit ch then do {
        (p, fmt) \<leftarrow> width_digits 0 ch fmt;
        reswitch (process_precision p sp) fmt args
      }
      else if ch = asc CHR ''*'' then do {
        (p, args) \<leftarrow> va_int args;
        reswitch (process_precision (sint p) sp) fmt args
      }
      else if ch = asc CHR ''.'' then reswitch (if width sp < 0 then sp\<lparr>width := 0\<rparr> else sp) fmt args
      else if ch = asc CHR ''#'' then reswitch (sp\<lparr>altflag := True\<rparr>) fmt args
      else if ch = asc CHR ''l'' then reswitch (sp\<lparr>lflag := lflag sp + 1\<rparr>) fmt args
      else Some (sp, ch, fmt, args))"
  by pat_completeness auto

termination reswitch
  by (relation "measure (\<lambda>(sp, fmt, args). length fmt)") (auto dest: width_digits_shorter)

subsection \<open>Strings\<close>

text \<open>\<open>strnlen(p, precision)\<close> of the string argument.\<close>

definition arg_length :: "bytes \<Rightarrow> w32 \<Rightarrow> int \<Rightarrow> w32 option" where
  "arg_length m p prec =
     (if p = 0 then Some (word_of_nat (min (unat (word_of_int prec :: w32)) (length null_text)))
      else strnlen m p (word_of_int prec))"

text \<open>With the \<open>#\<close> flag characters outside of printable ASCII become question marks.\<close>

definition shown :: "bool \<Rightarrow> w8 \<Rightarrow> w8" where
  "shown alt c = (if alt \<and> (c < asc CHR '' '' \<or> c > asc CHR ''~'') then asc CHR ''?'' else c)"

definition format_string :: "bytes \<Rightarrow> fmtspec \<Rightarrow> w32 \<Rightarrow> w32 list option" where
  "format_string m sp p = do {
     let left = (width sp > 0 \<and> padc sp \<noteq> asc CHR ''-'');
     w \<leftarrow> (if left then map_option (\<lambda>n. width sp - sint n) (arg_length m p (precision sp)) else Some (width sp));
     cs \<leftarrow> arg_chars m p (precision sp);
     let before = (if left then pads w (padc sp) else []);
     let w = (if left then min w 0 else w) - int (length cs);
     Some (map scast (before @ map (shown (altflag sp)) cs @ pads w (asc CHR '' '')))
   }"

subsection \<open>Conversions\<close>

text \<open>\<open>\<open>error %d\<close>\<close> and \<open>\<open>%s\<close>\<close> of \<open>\<open>%e\<close>\<close>, without flags.\<close>

definition format_error :: "w32 \<Rightarrow> w8 list option" where
  "format_error a =
     (let err = (if sint a < 0 then - sint a else sint a)
      in if err > 2147483647 then None
         else case (if err \<ge> MAXERROR then None else error_string ! nat err) of
           None \<Rightarrow> map_option ((@) (chars ''error '')) (printnum (word_of_int err) 10 (- 1) (asc CHR '' ''))
         | Some s \<Rightarrow> Some (chars s))"

text \<open>The text of a conversion, the format that follows it and the arguments that are left.\<close>

definition conversion :: "bytes \<Rightarrow> w8 list \<Rightarrow> w32 list \<Rightarrow> (w32 list \<times> w8 list \<times> w32 list) option" where
  "conversion m start args = do {
     (sp, ch, fmt, args) \<leftarrow> reswitch no_flags start args;
     if ch = asc CHR ''c'' then do { (a, args) \<leftarrow> va_int args; Some ([a], fmt, args) }
     else if ch = asc CHR ''e'' then do {
       (a, args) \<leftarrow> va_int args; out \<leftarrow> format_error a; Some (map ucast out, fmt, args) }
     else if ch = asc CHR ''s'' then do {
       (a, args) \<leftarrow> va_int args; out \<leftarrow> format_string m sp a; Some (out, fmt, args) }
     else if ch = asc CHR ''d'' then do {
       (num, args) \<leftarrow> getint args (lflag sp);
       out \<leftarrow> printnum (if sint num < 0 then - num else num) 10 (width sp) (padc sp);
       Some (map ucast ((if sint num < 0 then [asc CHR ''-''] else []) @ out), fmt, args) }
     else if ch = asc CHR ''u'' then do {
       (num, args) \<leftarrow> getuint args (lflag sp);
       out \<leftarrow> printnum num 10 (width sp) (padc sp);
       Some (map ucast out, fmt, args) }
     else if ch = asc CHR ''o'' then do {
       (num, args) \<leftarrow> getuint args (lflag sp);
       out \<leftarrow> printnum num 8 (width sp) (padc sp);
       Some (map ucast out, fmt, args) }
     else if ch = asc CHR ''p'' then do {
       (a, args) \<leftarrow> va_int args;
       out \<leftarrow> printnum (ucast a) 16 (width sp) (padc sp);
       Some (map ucast (chars ''0x'' @ out), fmt, args) }
     else if ch = asc CHR ''x'' then do {
       (num, args) \<leftarrow> getuint args (lflag sp);
       out \<leftarrow> printnum num 16 (width sp) (padc sp);
       Some (map ucast out, fmt, args) }
     else if ch = asc CHR ''%'' then Some ([ucast ch], fmt, args)
     else Some ([ucast (asc CHR ''%'')], start, args)
   }"

lemma reswitch_shorter: "reswitch sp fmt args = Some (sp', ch, rest, args') \<Longrightarrow> length rest < length fmt"
proof (induction fmt arbitrary: sp args rule: measure_induct_rule [where f = length])
  case (less fmt)
  show ?case
  proof (cases fmt)
    case Nil
    then show ?thesis using less.prems by simp
  next
    case (Cons c l)
    have IH: "reswitch sp l' args = Some (sp', ch, rest, args') \<Longrightarrow> length rest < length fmt"
      if "length l' \<le> length l" for l' sp args
      using less.IH [of l' sp args] that Cons by simp
    show ?thesis
      using less.prems Cons IH [OF le_refl] IH [OF width_digits_shorter]
      by (auto split: if_splits Option.bind_splits simp: less_Suc_eq_le)
  qed
qed

lemma conversion_shorter: "conversion m start args = Some (out, rest, args') \<Longrightarrow> length rest \<le> length start"
  by (auto simp: conversion_def split: Option.bind_splits if_splits dest!: reswitch_shorter)

function vprintfmt :: "bytes \<Rightarrow> w8 list \<Rightarrow> w32 list \<Rightarrow> w32 list option" where
  "vprintfmt m [] args = None"
| "vprintfmt m (ch # fmt) args =
     (if ch = asc CHR ''%'' then do {
        (out, rest, args) \<leftarrow> conversion m fmt args;
        cs \<leftarrow> vprintfmt m rest args;
        Some (out @ cs)
      }
      else if ch = 0 then Some []
      else map_option ((#) (ucast ch)) (vprintfmt m fmt args))"
  by pat_completeness auto

termination vprintfmt
  by (relation "measure (\<lambda>(m, fmt, args). length fmt)") (auto dest: conversion_shorter)

subsection \<open>Printing as memory changes\<close>

text \<open>
  \<open>vprintfmt\<close> calls \<open>putch\<close> between its reads of memory, so a \<open>putch\<close> that writes the memory which the
  format reads changes what is read after. \<open>vprintfmt_to\<close> keeps that order: \<open>s\<close> is the state that \<open>putch\<close>
  works on and \<open>mem s\<close> the memory in it. Only \<open>%s\<close> reads memory.
\<close>

fun put_each :: "(w32 \<Rightarrow> 's \<Rightarrow> 's option) \<Rightarrow> w32 list \<Rightarrow> 's \<Rightarrow> 's option" where
  "put_each putch [] s = Some s"
| "put_each putch (ch # cs) s = do { s \<leftarrow> putch ch s; put_each putch cs s }"

text \<open>The loop over the string, with the number of characters it has put.\<close>

partial_function (option) put_chars ::
  "(w32 \<Rightarrow> 's \<Rightarrow> 's option) \<Rightarrow> ('s \<Rightarrow> bytes) \<Rightarrow> bool \<Rightarrow> w32 \<Rightarrow> int \<Rightarrow> nat \<Rightarrow> 's \<Rightarrow> ('s \<times> nat) option" where
  "put_chars putch mem alt p prec n s = do {
     ch \<leftarrow> mem s p;
     if ch = 0 \<or> prec = 0 then Some (s, n)
     else do {
       s \<leftarrow> putch (scast (shown alt ch)) s;
       put_chars putch mem alt (p + 1) (if prec < 0 then prec else prec - 1) (n + 1) s
     }
   }"

declare put_chars.simps [code]

definition format_string_to ::
  "(w32 \<Rightarrow> 's \<Rightarrow> 's option) \<Rightarrow> ('s \<Rightarrow> bytes) \<Rightarrow> fmtspec \<Rightarrow> w32 \<Rightarrow> 's \<Rightarrow> 's option" where
  "format_string_to putch mem sp p s = do {
     let left = (width sp > 0 \<and> padc sp \<noteq> asc CHR ''-'');
     w \<leftarrow> (if left then map_option (\<lambda>n. width sp - sint n) (arg_length (mem s) p (precision sp)) else Some (width sp));
     s \<leftarrow> put_each putch (map scast (if left then pads w (padc sp) else [])) s;
     (s, n) \<leftarrow> (if p = 0 then (let cs = (if precision sp < 0 then null_text else take (nat (precision sp)) null_text)
                  in map_option (\<lambda>s. (s, length cs)) (put_each putch (map (scast \<circ> shown (altflag sp)) cs) s))
               else put_chars putch mem (altflag sp) p (precision sp) 0 s);
     put_each putch (map scast (pads ((if left then min w 0 else w) - int n) (asc CHR '' ''))) s
   }"

definition conversion_to ::
  "(w32 \<Rightarrow> 's \<Rightarrow> 's option) \<Rightarrow> ('s \<Rightarrow> bytes) \<Rightarrow> w8 list \<Rightarrow> w32 list \<Rightarrow> 's \<Rightarrow> ('s \<times> w8 list \<times> w32 list) option" where
  "conversion_to putch mem start args s = do {
     (sp, ch, fmt, rest) \<leftarrow> reswitch no_flags start args;
     if ch = asc CHR ''s'' then do {
       (a, rest) \<leftarrow> va_int rest; s \<leftarrow> format_string_to putch mem sp a s; Some (s, fmt, rest) }
     else do {
       (out, fmt, rest) \<leftarrow> conversion (mem s) start args; s \<leftarrow> put_each putch out s; Some (s, fmt, rest) }
   }"

lemma conversion_to_shorter: "conversion_to putch mem start args s = Some (s', rest, args') \<Longrightarrow> length rest \<le> length start"
  by (auto simp: conversion_to_def split: Option.bind_splits if_splits dest!: reswitch_shorter conversion_shorter)

function vprintfmt_to ::
  "(w32 \<Rightarrow> 's \<Rightarrow> 's option) \<Rightarrow> ('s \<Rightarrow> bytes) \<Rightarrow> w8 list \<Rightarrow> w32 list \<Rightarrow> 's \<Rightarrow> 's option" where
  "vprintfmt_to putch mem [] args s = None"
| "vprintfmt_to putch mem (ch # fmt) args s =
     (if ch = asc CHR ''%'' then do {
        (s, rest, args) \<leftarrow> conversion_to putch mem fmt args s;
        vprintfmt_to putch mem rest args s
      }
      else if ch = 0 then Some s
      else do { s \<leftarrow> putch (ucast ch) s; vprintfmt_to putch mem fmt args s })"
  by pat_completeness auto

termination vprintfmt_to
  by (relation "measure (\<lambda>(putch, mem, fmt, args, s). length fmt)") (auto dest: conversion_to_shorter)

subsection \<open>Printing to a string\<close>

record sprintbuf =
  sb_buf :: w32
  sb_ebuf :: w32
  sb_cnt :: int

definition sprintputch :: "w32 \<Rightarrow> sprintbuf \<times> bytes \<Rightarrow> (sprintbuf \<times> bytes) option" where
  "sprintputch ch = (\<lambda>(b, m). do {
     cnt \<leftarrow> in_int (sb_cnt b + 1);
     let b = b\<lparr>sb_cnt := cnt\<rparr>;
     if sb_buf b < sb_ebuf b then do {
       m \<leftarrow> store (sb_buf b) (ucast ch) m;
       Some (b\<lparr>sb_buf := sb_buf b + 1\<rparr>, m)
     } else Some (b, m) })"

definition vsnprintf :: "bytes \<Rightarrow> w32 \<Rightarrow> w32 \<Rightarrow> w8 list \<Rightarrow> w32 list \<Rightarrow> (bytes \<times> int) option" where
  "vsnprintf m buf n fmt args =
     (if buf = 0 \<or> sint n < 1 then Some (m, - E_INVAL)
      else do {
        (b, m) \<leftarrow> vprintfmt_to sprintputch snd fmt args (\<lparr>sb_buf = buf, sb_ebuf = buf + n - 1, sb_cnt = 0\<rparr>, m);
        m \<leftarrow> store (sb_buf b) 0 m;
        Some (m, sb_cnt b)
      })"

definition snprintf :: "bytes \<Rightarrow> w32 \<Rightarrow> w32 \<Rightarrow> w8 list \<Rightarrow> w32 list \<Rightarrow> (bytes \<times> int) option" where
  "snprintf m buf n fmt args = vsnprintf m buf n fmt args"

subsection \<open>Printing to the console\<close>

text \<open>
  User programs collect characters and hand them to the kernel in calls of \<open>sys_cputs\<close>; the
  texts of these calls are kept in order. The filled part of the buffer is a list, whose length
  is \<open>idx\<close>. Neither this \<open>putch\<close>, whose buffer is on the stack of \<open>vcprintf\<close>, nor the one of the kernel, which
  writes the screen, changes memory that a format reads.
\<close>

record printbuf =
  pb_buf :: "w8 list"
  pb_cnt :: int

definition user_putch :: "w32 \<Rightarrow> printbuf \<times> w8 list list \<Rightarrow> (printbuf \<times> w8 list list) option" where
  "user_putch ch = (\<lambda>(b, calls). do {
     let buf = pb_buf b @ [ucast ch];
     let (buf, calls) = (if length buf = 256 - 1 then ([], calls @ [buf]) else (buf, calls));
     cnt \<leftarrow> in_int (pb_cnt b + 1);
     Some (\<lparr>pb_buf = buf, pb_cnt = cnt\<rparr>, calls) })"

text \<open>The texts that \<open>sys_cputs\<close> is called with and the result.\<close>

definition vcprintf :: "bytes \<Rightarrow> w8 list \<Rightarrow> w32 list \<Rightarrow> (w8 list list \<times> int) option" where
  "vcprintf m fmt args = do {
     cs \<leftarrow> vprintfmt m fmt args;
     (b, calls) \<leftarrow> put_each user_putch cs (\<lparr>pb_buf = [], pb_cnt = 0\<rparr>, []);
     Some (calls @ [pb_buf b], pb_cnt b)
   }"

text \<open>The kernel prints each character at once.\<close>

definition kern_putch :: "w32 \<Rightarrow> screen \<times> int \<Rightarrow> (screen \<times> int) option" where
  "kern_putch ch = (\<lambda>(s, cnt). do { s \<leftarrow> cputchar (ucast ch) s; cnt \<leftarrow> in_int (cnt + 1); Some (s, cnt) })"

definition kern_vcprintf :: "bytes \<Rightarrow> w8 list \<Rightarrow> w32 list \<Rightarrow> screen \<Rightarrow> (screen \<times> int) option" where
  "kern_vcprintf m fmt args s = do { cs \<leftarrow> vprintfmt m fmt args; put_each kern_putch cs (s, 0) }"

subsection \<open>Trap frames\<close>

text \<open>What the kernel prints of a trap frame. A format without string arguments reads no memory.\<close>

definition cprintf_text :: "string \<Rightarrow> w32 list \<Rightarrow> w32 list option" where
  "cprintf_text fmt args = vprintfmt (\<lambda>_. None) (chars fmt @ [0]) args"

definition newline :: string where "newline = [CHR 0x0A]"

fun print_lines :: "(string \<times> w32) list \<Rightarrow> w32 list option" where
  "print_lines [] = Some []"
| "print_lines ((fmt, a) # ls) = do { l \<leftarrow> cprintf_text (fmt @ newline) [a]; r \<leftarrow> print_lines ls; Some (l @ r) }"

definition print_regs :: "trapframe \<Rightarrow> w32 list option" where
  "print_regs tf = print_lines
     [(''  edi  0x%08x'', reg_edi tf), (''  esi  0x%08x'', reg_esi tf), (''  ebp  0x%08x'', reg_ebp tf),
      (''  oesp 0x%08x'', reg_oesp tf), (''  ebx  0x%08x'', reg_ebx tf), (''  edx  0x%08x'', reg_edx tf),
      (''  ecx  0x%08x'', reg_ecx tf), (''  eax  0x%08x'', reg_eax tf)]"

definition plain :: "string \<Rightarrow> w32 list" where "plain s = map ucast (chars s)"

text \<open>\<open>addr\<close> is the address of the frame, \<open>is_last\<close> whether it is that of the last trap.\<close>

definition print_trapframe :: "w32 \<Rightarrow> w32 \<Rightarrow> bool \<Rightarrow> w32 \<Rightarrow> trapframe \<Rightarrow> w32 list option" where
  "print_trapframe addr cpunum is_last cr2 tf = do {
     head \<leftarrow> cprintf_text (''TRAP frame at %p from CPU %d'' @ newline) [addr, cpunum];
     regs \<leftarrow> print_regs tf;
     segs \<leftarrow> print_lines [(''  es   0x----%04x'', ucast (tf_es tf)), (''  ds   0x----%04x'', ucast (tf_ds tf))];
     trapno \<leftarrow> cprintf_text ''  trap 0x%08x '' [tf_trapno tf];
     va \<leftarrow> (if is_last \<and> tf_trapno tf = T_PGFLT then print_lines [(''  cr2  0x%08x'', cr2)] else Some []);
     err \<leftarrow> cprintf_text ''  err  0x%08x'' [tf_err tf];
     let why = (if tf_trapno tf = T_PGFLT
                then '' ['' @ (if tf_err tf AND 4 \<noteq> 0 then ''user'' else ''kernel'') @ '', '' @
                     (if tf_err tf AND 2 \<noteq> 0 then ''write'' else ''read'') @ '', '' @
                     (if tf_err tf AND 1 \<noteq> 0 then ''protection'' else ''not-present'') @ '']'' @ newline
                else newline);
     tail \<leftarrow> print_lines [(''  eip  0x%08x'', tf_eip tf), (''  cs   0x----%04x'', ucast (tf_cs tf)),
       (''  flag 0x%08x'', tf_eflags tf)];
     stack \<leftarrow> (if tf_cs tf AND 3 \<noteq> 0
              then print_lines [(''  esp  0x%08x'', tf_esp tf), (''  ss   0x----%04x'', ucast (tf_ss tf))]
              else Some []);
     Some (head @ regs @ segs @ trapno @ plain (trapname (tf_trapno tf) @ newline) @ va @ err @ plain why @
       tail @ stack)
   }"

end
