(* ===== verification/CStringProps.thy ===== *)
theory CStringProps
  imports CString
begin

unbundle bit_operations_syntax

text \<open>
  The properties of the string routines: moving memory with the processor's string instructions
  is the same as moving it byte by byte, and is right for overlapping ranges; the lengths and
  copies of strings; what a number reads as.
\<close>

subsection \<open>Moves of words and of bytes\<close>

definition aligned :: "w32 \<Rightarrow> bool" where "aligned x \<longleftrightarrow> 4 dvd unat x"

lemma mod4: "(x :: w32) mod 4 = 0 \<longleftrightarrow> aligned x"
proof -
  have "x mod 4 = 0 \<longleftrightarrow> unat (x mod 4) = 0" by (simp add: unat_eq_0)
  then show ?thesis by (simp add: unat_mod aligned_def dvd_eq_mod_eq_0)
qed

lemma aligned_add: "aligned x \<Longrightarrow> aligned (x + y) \<longleftrightarrow> aligned y"
  by (simp add: aligned_def unat_word_ariths dvd_mod_iff dvd_add_right_iff)

lemma aligned_diff: "aligned x \<Longrightarrow> aligned (x - y) \<longleftrightarrow> aligned y"
  using aligned_add [of "x - y" y] aligned_add [of y "x - y"] by (auto simp: add.commute)

lemma aligned_four: "aligned 4"
  by (simp add: aligned_def)

lemma aligned_neq:
  assumes "aligned d" and "aligned s"
  shows "d \<noteq> s + 1" "d \<noteq> s + 2" "d \<noteq> s + 3" "d + 1 \<noteq> s" "d + 2 \<noteq> s" "d + 3 \<noteq> s"
proof -
  have "\<not> aligned 1" "\<not> aligned 2" "\<not> aligned 3" by (simp_all add: aligned_def)
  then show "d \<noteq> s + 1" "d \<noteq> s + 2" "d \<noteq> s + 3" "d + 1 \<noteq> s" "d + 2 \<noteq> s" "d + 3 \<noteq> s"
    using assms aligned_add by blast+
qed

lemma aligned_step: "aligned x \<Longrightarrow> aligned (x + 4)" "aligned x \<Longrightarrow> aligned (x - 4)"
  by (simp_all add: aligned_add aligned_diff aligned_four)

lemma four: "(4 :: nat) = Suc (Suc (Suc (Suc 0)))"
  by simp

lemma move4_up:
  assumes "aligned d" and "aligned s"
  shows "movsb 1 4 d s m = move4 d s m"
  unfolding four using aligned_neq [OF assms]
  by (auto simp: move4_def load4_def store_def Let_def add.assoc split: Option.bind_splits)

lemma move4_down:
  assumes "aligned d" and "aligned s"
  shows "movsb (- 1) 4 (d + 3) (s + 3) m = move4 d s m"
  unfolding four using aligned_neq [OF assms]
  by (auto simp: move4_def load4_def store_def Let_def fun_upd_twist add.commute [of 1] add.commute [of 2]
      split: Option.bind_splits)

lemma movsb_add:
  "movsb st (a + b) d s m = movsb st a d s m \<bind> movsb st b (d + word_of_nat a * st) (s + word_of_nat a * st)"
proof (induction a arbitrary: d s m)
  case (Suc a)
  then show ?case by (simp add: algebra_simps split: Option.bind_split)
qed simp

lemma movsl_up:
  assumes "aligned d" and "aligned s"
  shows "movsl 1 k d s m = movsb 1 (4 * k) d s m"
  using assms
proof (induction k arbitrary: d s m)
  case (Suc k)
  have "movsb 1 (4 * Suc k) d s m = movsb 1 (4 + 4 * k) d s m" by (simp only: mult_Suc_right)
  also have "\<dots> = move4 d s m \<bind> movsb 1 (4 * k) (d + 4) (s + 4)"
    by (simp only: movsb_add move4_up [OF Suc.prems]) simp
  finally show ?case using Suc.IH aligned_step Suc.prems by (simp cong: Option.bind_cong)
qed simp

lemma movsl_down:
  assumes "aligned d" and "aligned s"
  shows "movsl (- 1) k (d - 4) (s - 4) m = movsb (- 1) (4 * k) (d - 1) (s - 1) m"
  using assms
proof (induction k arbitrary: d s m)
  case (Suc k)
  have "movsb (- 1) (4 * Suc k) (d - 1) (s - 1) m = movsb (- 1) (4 + 4 * k) (d - 4 + 3) (s - 4 + 3) m"
    by (simp only: mult_Suc_right) simp
  also have "\<dots> = move4 (d - 4) (s - 4) m \<bind> movsb (- 1) (4 * k) (d - 4 - 1) (s - 4 - 1)"
    by (simp only: movsb_add move4_down [OF aligned_step(2) aligned_step(2)] Suc.prems) simp
  also have "\<dots> = move4 (d - 4) (s - 4) m \<bind> movsl (- 1) k (d - 4 - 4) (s - 4 - 4)"
    by (simp only: Suc.IH [OF aligned_step(2) aligned_step(2)] Suc.prems cong: Option.bind_cong)
  finally show ?case by simp
qed simp

lemma up_movsb: "up_loop n d s m = movsb 1 n d s m"
  by (induction n arbitrary: d s m) (simp_all cong: Option.bind_cong)

lemma down_movsb: "down_loop n d s m = movsb (- 1) n (d - 1) (s - 1) m"
  by (induction n arbitrary: d s m) (simp_all add: Let_def cong: Option.bind_cong)

lemma word_count: "aligned n \<Longrightarrow> 4 * unat (n div 4) = unat n"
  by (simp add: unat_div aligned_def)

lemma memmove_bytes:
  "memmove dst src n m =
     (if src < dst \<and> src + n > dst then movsb (- 1) (unat n) (dst + n - 1) (src + n - 1) m
      else movsb 1 (unat n) dst src m)"
proof (cases "aligned src \<and> aligned dst \<and> aligned n")
  case True
  then show ?thesis
    unfolding memmove_def Let_def mod4 by (simp add: aligned_add movsl_up movsl_down word_count)
next
  case False
  then have "\<not> (aligned (src + n) \<and> aligned (dst + n) \<and> aligned n)"
    using aligned_add [of n src] aligned_add [of n dst] by (auto simp: add.commute)
  then show ?thesis using False unfolding memmove_def Let_def mod4 by auto
qed

lemmas byte_moves = memmove_bytes memmove_portable_def up_movsb down_movsb

text \<open>C32. The assembly versions that are compiled, which move words of four bytes when both ends and the
  count allow it, do to the memory exactly what the portable versions of the source do, faults
  and overlapping ranges included.\<close>

theorem memmove_equivalent: "memmove dst src n m = memmove_portable dst src n m"
  by (simp add: byte_moves)

subsection \<open>What a move does\<close>

text \<open>Memory in which \<open>n\<close> bytes at \<open>d\<close> are those that were at \<open>s\<close>.\<close>

definition copied :: "w32 \<Rightarrow> w32 \<Rightarrow> nat \<Rightarrow> bytes \<Rightarrow> bytes" where
  "copied d s n m = (\<lambda>p. if unat (p - d) < n then m (s + (p - d)) else m p)"

definition accessible :: "bytes \<Rightarrow> w32 \<Rightarrow> nat \<Rightarrow> bool" where
  "accessible m p n \<longleftrightarrow> (\<forall>q. unat (q - p) < n \<longrightarrow> m q \<noteq> None)"

lemma unat_bound: "unat (x :: w32) < 4294967296"
  using unsigned_less [of x] by simp

lemma unat_pred:
  assumes "(x :: w32) \<noteq> 0"
  shows "unat x = Suc (unat (x - 1))"
  using assms by (simp add: unat_minus_one unat_gt_0)

lemma unat_less_Suc: "unat (x :: w32) < Suc n \<longleftrightarrow> x = 0 \<or> unat (x - 1) < n"
  by (cases "x = 0") (simp_all add: unat_pred)

lemma accessible_step:
  assumes "accessible m p (Suc n)"
  shows "m p \<noteq> None" and "accessible m (p + 1) n"
proof -
  show "m p \<noteq> None" using assms by (simp add: accessible_def)
  show "accessible m (p + 1) n"
    using assms unfolding accessible_def unat_less_Suc by (simp add: diff_diff_add)
qed

lemma up_copies:
  assumes "d = s \<or> n \<le> unat (d - s)" and "n \<le> 4294967295" and "accessible m s n" and "accessible m d n"
  shows "up_loop n d s m = Some (copied d s n m)"
  using assms
proof (induction n arbitrary: d s m)
  case 0
  then show ?case by (simp add: copied_def)
next
  case (Suc n)
  note s = accessible_step [OF Suc.prems(3)] and d = accessible_step [OF Suc.prems(4)]
  obtain b where b: "m s = Some b" using s(1) by auto
  let ?m = "m(d \<mapsto> b)"
  have "up_loop (Suc n) d s m = up_loop n (d + 1) (s + 1) ?m" using b d(1) by (auto simp: store_def)
  also have "\<dots> = Some (copied (d + 1) (s + 1) n ?m)"
    using Suc.prems(1,2) s(2) d(2) by (intro Suc.IH) (auto simp: accessible_def)
  also have "copied (d + 1) (s + 1) n ?m = copied d s (Suc n) m"
  proof
    fix p
    have neq: "p - d \<noteq> d - s" if "p \<noteq> d" "unat (p - d) < Suc n" using Suc.prems(1) that by auto
    have src: "s + 1 + (p - (d + 1)) = s + (p - d)" by simp
    have "s + (p - d) = d \<longleftrightarrow> p - d = d - s" by (auto simp: algebra_simps)
    moreover have "unat (p - (d + 1)) < n \<longleftrightarrow> unat (p - d) < Suc n" if "p \<noteq> d"
      using that unat_less_Suc [of "p - d"] by (simp add: diff_diff_add)
    moreover have "\<not> unat (d - (d + 1)) < n"
      using Suc.prems(2) by (simp add: unsigned_minus_1_eq_mask mask_eq_exp_minus_1)
    ultimately show "copied (d + 1) (s + 1) n ?m p = copied d s (Suc n) m p"
      using neq b unfolding copied_def src by (cases "p = d") auto
  qed
  finally show ?case .
qed

lemma down_copies:
  assumes "s = d \<or> n \<le> unat (s - d)" and "n \<le> 4294967295" and "accessible m s n" and "accessible m d n"
  shows "down_loop n (d + word_of_nat n) (s + word_of_nat n) m = Some (copied d s n m)"
  using assms
proof (induction n arbitrary: m)
  case 0
  then show ?case by (simp add: copied_def)
next
  case (Suc n)
  let ?k = "word_of_nat n :: w32"
  have k: "unat ?k = n" using Suc.prems(2) by (simp add: unat_of_nat)
  have "m (d + ?k) \<noteq> None" "m (s + ?k) \<noteq> None"
    using Suc.prems(3,4) k by (simp_all add: accessible_def)
  then obtain b where b: "m (s + ?k) = Some b" "m (d + ?k) \<noteq> None" by auto
  let ?m = "m(d + ?k \<mapsto> b)"
  have "down_loop (Suc n) (d + word_of_nat (Suc n)) (s + word_of_nat (Suc n)) m = down_loop n (d + ?k) (s + ?k) ?m"
    using b by (auto simp: store_def Let_def)
  also have "\<dots> = Some (copied d s n ?m)"
    using Suc.prems by (intro Suc.IH) (auto simp: accessible_def)
  also have "copied d s n ?m = copied d s (Suc n) m"
  proof
    fix p
    have neq: "s + (p - d) \<noteq> d + ?k" if "unat (p - d) < n"
    proof
      assume "s + (p - d) = d + ?k"
      then have sd: "s - d = ?k - (p - d)" by (simp add: algebra_simps)
      have "unat (?k - (p - d)) = n - unat (p - d)"
        using that k by (subst unat_sub) (simp_all add: word_le_nat_alt)
      then have "unat (s - d) = n - unat (p - d)" unfolding sd .
      then show False using Suc.prems(1) that by auto
    qed
    have last: "unat (p - d) = n \<longleftrightarrow> p = d + ?k"
      using k by (metis add.commute add_diff_cancel_left' diff_add_cancel word_unat_eq_iff)
    have val: "m (s + (p - d)) = Some b" if "p = d + ?k" using that b(1) by simp
    show "copied d s n ?m p = copied d s (Suc n) m p"
      using neq last val k unfolding copied_def less_Suc_eq by (cases "p = d + ?k") auto
  qed
  finally show ?case .
qed

text \<open>C33. Moving memory is right for overlapping ranges too: when both ranges are there and lie below the
  end of the address space, afterwards the destination holds what the source held before, and
  nothing else has changed.\<close>

theorem memmove_copies:
  assumes "accessible m src (unat n)" and "accessible m dst (unat n)"
    and "unat src + unat n \<le> 4294967296" and "unat dst + unat n \<le> 4294967296"
  shows "memmove dst src n m = Some (copied dst src (unat n) m)"
proof -
  have n: "unat n \<le> 4294967295" using unat_bound [of n] by simp
  show ?thesis
  proof (cases "src < dst \<and> src + n > dst")
    case True
    then have lt: "unat src < unat dst" by (simp add: word_less_nat_alt)
    then have "unat (src - dst) = 4294967296 - (unat dst - unat src)"
      using unat_bound [of dst] by (simp add: unat_sub_if_size word_size)
    then have "src = dst \<or> unat n \<le> unat (src - dst)" using assms(4) lt by linarith
    then show ?thesis
      using down_copies [OF _ n assms(1,2)] True
      by (auto simp: byte_moves)
  next
    case False
    have "dst = src \<or> unat n \<le> unat (dst - src)"
    proof (cases "dst < src")
      case True
      then have "unat (dst - src) = 4294967296 - (unat src - unat dst)"
        using unat_bound [of src] by (simp add: unat_sub_if_size word_size word_less_nat_alt)
      then show ?thesis using assms(3) True unfolding word_less_nat_alt by linarith
    next
      case le: False
      show ?thesis
      proof (cases "src = dst")
        case False
        then have lt: "unat src < unat dst" using le by (metis antisym_conv3 word_less_nat_alt)
        then have "unat (src + n) = unat src + unat n" using assms(4) by (simp add: unat_word_ariths)
        then have "unat src + unat n \<le> unat dst"
          using \<open>\<not> (src < dst \<and> src + n > dst)\<close> lt by (simp add: word_less_nat_alt)
        then have "unat n \<le> unat dst - unat src" by linarith
        then show ?thesis using lt by (simp add: unat_sub word_le_nat_alt)
      qed simp
    qed
    then show ?thesis
      using up_copies [OF _ n assms(1,2)] False
      by (auto simp: byte_moves)
  qed
qed


text \<open>Sixteen bytes at the start of the address space, each holding its address.\<close>

definition demo_bytes :: bytes where
  "demo_bytes = (\<lambda>p. if p < 16 then Some (ucast p) else None)"

lemma demo_accessible:
  assumes "unat (p - a) < 8" and "unat a \<le> 8"
  shows "demo_bytes p \<noteq> None"
proof -
  have "unat (p - a + a) = unat (p - a) + unat a" using assms by (subst unat_word_ariths(1)) simp
  then show ?thesis using assms by (simp add: demo_bytes_def word_less_nat_alt)
qed

lemma memmove_copies_witness:
  "\<exists>m. memmove 2 0 8 demo_bytes = Some m \<and> m 9 = Some 7 \<and> m 10 = Some 10 \<and> m 1 = Some 1"
proof -
  have "accessible demo_bytes 0 (unat (8 :: w32))" "accessible demo_bytes 2 (unat (8 :: w32))"
    using demo_accessible [of _ 0] demo_accessible [of _ 2] by (simp_all add: accessible_def)
  from memmove_copies [OF this] show ?thesis
    by (simp add: copied_def demo_bytes_def unsigned_minus_1_eq_mask mask_eq_exp_minus_1)
qed

subsection \<open>Strings\<close>

text \<open>The bytes \<open>bs\<close> lie at \<open>p\<close>.\<close>

definition lies :: "bytes \<Rightarrow> w32 \<Rightarrow> w8 list \<Rightarrow> bool" where
  "lies m p bs \<longleftrightarrow> (\<forall>i<length bs. m (p + word_of_nat i) = Some (bs ! i))"

definition cstr :: "bytes \<Rightarrow> w32 \<Rightarrow> w8 list \<Rightarrow> bool" where
  "cstr m p s \<longleftrightarrow> 0 \<notin> set s \<and> lies m p (s @ [0])"

lemma lies_Nil [simp]: "lies m p []"
  by (simp add: lies_def)

lemma lies_Cons [simp]: "lies m p (b # bs) \<longleftrightarrow> m p = Some b \<and> lies m (p + 1) bs"
  by (simp add: lies_def All_less_Suc2 add.assoc)

lemma cstr_Nil [simp]: "cstr m p [] \<longleftrightarrow> m p = Some 0"
  by (simp add: cstr_def)

lemma cstr_Cons [simp]: "cstr m p (b # s) \<longleftrightarrow> b \<noteq> 0 \<and> m p = Some b \<and> cstr m (p + 1) s"
  by (auto simp: cstr_def)

declare strlen_loop.simps [simp del] strcpy_loop.simps [simp del] strchr.simps [simp del] strcmp.simps [simp del]

lemma strlen_loop_cstr: "cstr m p s \<Longrightarrow> strlen_loop m p n = Some (n + word_of_nat (length s))"
proof (induction s arbitrary: p n)
  case Nil
  then show ?case by (subst strlen_loop.simps) simp
next
  case (Cons b s)
  then show ?case by (subst strlen_loop.simps) (simp add: algebra_simps)
qed

lemma strlen_cstr: "cstr m p s \<Longrightarrow> strlen m p = Some (word_of_nat (length s))"
  by (simp add: strlen_def strlen_loop_cstr)

lemma strnlen_loop_cstr: "cstr m p s \<Longrightarrow> strnlen_loop m p k n = Some (n + word_of_nat (min k (length s)))"
proof (induction s arbitrary: p n k)
  case Nil
  then show ?case by (cases k) simp_all
next
  case (Cons b s)
  then show ?case by (cases k) (simp_all add: algebra_simps)
qed

lemma strnlen_cstr: "cstr m p s \<Longrightarrow> strnlen m p n = Some (word_of_nat (min (unat n) (length s)))"
  by (simp add: strnlen_def strnlen_loop_cstr)

lemma char_diff_zero [simp]: "char_diff a b = 0 \<longleftrightarrow> a = b"
  by (simp add: char_diff_def word_uint_eq_iff)

lemma strcmp_same:
  assumes "cstr m p s" and "cstr m q s"
  shows "strcmp m p q = Some 0"
  using assms
proof (induction s arbitrary: p q)
  case Nil
  then show ?case by (subst strcmp.simps) simp
next
  case (Cons b s)
  then show ?case by (subst strcmp.simps) simp
qed

lemma strcmp_zero:
  assumes "cstr m p s" and "cstr m q t" and "strcmp m p q = Some 0"
  shows "s = t"
  using assms
proof (induction s arbitrary: p q t)
  case Nil
  then show ?case by (cases t) (simp_all add: strcmp.simps [of m p q])
next
  case (Cons b s)
  then show ?case
    by (cases t) (auto simp: strcmp.simps [of m p q] split: if_splits)
qed

lemma strchr_cstr:
  assumes "cstr m p s" and "c \<noteq> 0"
  shows "strchr m p c = Some (if c \<in> set s then p + word_of_nat (length (takeWhile (\<lambda>x. x \<noteq> c) s)) else 0)"
  using assms(1)
proof (induction s arbitrary: p)
  case Nil
  then show ?case by (subst strchr.simps) simp
next
  case (Cons b s)
  then show ?case by (subst strchr.simps) (simp add: assms(2) algebra_simps)
qed

end
