(* ===== verification/PrintProps.thy ===== *)
theory PrintProps
  imports PrintFmt CStringProps
begin

unbundle bit_operations_syntax

text \<open>
  The properties of formatted output: the digits of a number, that \<open>strtol\<close> reads back what
  was printed, the bounds of printing to a string, and the calls that a user program prints with.
\<close>

subsection \<open>Characters\<close>

lemma asc_values [simp]:
  "asc CHR ''%'' = 0x25" "asc CHR ''-'' = 0x2D" "asc CHR ''0'' = 0x30" "asc CHR ''9'' = 0x39"
  "asc CHR ''*'' = 0x2A" "asc CHR ''.'' = 0x2E" "asc CHR ''#'' = 0x23" "asc CHR ''l'' = 0x6C"
  "asc CHR ''c'' = 0x63" "asc CHR ''e'' = 0x65" "asc CHR ''s'' = 0x73" "asc CHR ''d'' = 0x64"
  "asc CHR ''u'' = 0x75" "asc CHR ''o'' = 0x6F" "asc CHR ''p'' = 0x70" "asc CHR ''x'' = 0x78"
  "asc CHR '' '' = 0x20" "asc CHR ''~'' = 0x7E" "asc CHR ''?'' = 0x3F"
  by (simp_all add: asc_def)

definition dchar :: "nat \<Rightarrow> w8" where "dchar d = asc (hex_digits ! d)"

lemma digit_value_all: "list_all (\<lambda>d. digit_value (dchar d) = Some (int d) \<and> dchar d \<noteq> 0 \<and>
     dchar d \<notin> {0x20, 0x09, 0x2D, 0x2B}) [0..<16]"
  by code_simp

lemma digit_value_dchar: "d < 16 \<Longrightarrow> digit_value (dchar d) = Some (int d)"
  and dchar_nonzero: "d < 16 \<Longrightarrow> dchar d \<noteq> 0"
  and dchar_no_sign: "d < 16 \<Longrightarrow> dchar d \<noteq> 0x20 \<and> dchar d \<noteq> 0x09 \<and> dchar d \<noteq> 0x2D \<and> dchar d \<noteq> 0x2B"
  using digit_value_all by (auto simp: list_all_iff)

subsection \<open>Digits of numbers\<close>

function base_digits :: "nat \<Rightarrow> nat \<Rightarrow> nat list" where
  "base_digits b n = (if b < 2 \<or> n < b then [n] else base_digits b (n div b) @ [n mod b])"
  by pat_completeness auto

termination base_digits
  by (relation "measure snd") auto

declare base_digits.simps [simp del]

lemma base_digits_value: "foldl (\<lambda>v d. v * b + d) 0 (base_digits b n) = n"
proof (induction b n rule: base_digits.induct)
  case (1 b n)
  then show ?case by (subst base_digits.simps) simp
qed

lemma base_digits_bound: "2 \<le> b \<Longrightarrow> d \<in> set (base_digits b n) \<Longrightarrow> d < b"
proof (induction b n arbitrary: d rule: base_digits.induct)
  case (1 b n)
  from 1(3) show ?case
    by (subst (asm) base_digits.simps) (use 1(1,2) in \<open>auto split: if_splits\<close>)
qed

lemma digit_char_dchar: "unat d < 16 \<Longrightarrow> digit_char d = Some (dchar (unat d))"
  by (simp add: digit_char_def dchar_def)

text \<open>A number prints as its digits in the base, the most significant one first, after the padding that the width
  asks for; the recursion ends for every number and every base from 2 to 16.\<close>

lemma printnum_spec:
  assumes "2 \<le> unat base" and "unat base \<le> 16"
  shows "printnum num base w c =
     Some (pads (w - int (length (base_digits (unat base) (unat num)))) c @
       map dchar (base_digits (unat base) (unat num)))"
  using assms
proof (induction "unat num" arbitrary: num w rule: less_induct)
  case less
  let ?b = "unat base"
  have m: "unat (num mod base) < 16" using less.prems by (simp add: unat_mod) (meson le_trans mod_less_divisor not_less order_less_le_trans zero_less_numeral)
  have b0: "base \<noteq> 0" using less.prems by auto
  show ?case
  proof (cases "num \<ge> base")
    case True
    then have ge: "?b \<le> unat num" by (simp add: word_le_nat_alt)
    have "unat (num div base) < unat num" using less.prems ge by (simp add: unat_div)
    then have "printnum (num div base) base (w - 1) c =
       Some (pads (w - 1 - int (length (base_digits ?b (unat (num div base))))) c @
         map dchar (base_digits ?b (unat (num div base))))"
      using less by simp
    moreover have "base_digits ?b (unat num) = base_digits ?b (unat num div ?b) @ [unat num mod ?b]"
      using ge less.prems by (subst base_digits.simps) simp
    ultimately show ?thesis
      using True b0 digit_char_dchar [OF m]
      by (subst printnum.simps) (simp add: unat_div unat_mod algebra_simps)
  next
    case False
    then have "unat num < ?b" by (simp add: word_less_nat_alt not_le)
    then have "base_digits ?b (unat num) = [unat num]" "num mod base = num"
      by (simp_all add: base_digits.simps word_arith_nat_mod)
    then show ?thesis
      using False b0 digit_char_dchar [of num] m by (subst printnum.simps) simp
  qed
qed

subsection \<open>Reading a printed number\<close>

lemma foldl_digits_ge: "1 \<le> b \<Longrightarrow> v \<le> foldl (\<lambda>v d. v * b + d) v ds" for v b :: nat
proof (induction ds arbitrary: v)
  case (Cons d ds)
  have "v \<le> v * b + d" using Cons.prems by (metis le_add1 mult.right_neutral mult_le_mono2 order_trans)
  then show ?case using Cons.IH [OF Cons.prems, of "v * b + d"] by simp
qed simp

lemma in_long_id: "0 \<le> v \<Longrightarrow> v \<le> 2147483647 \<Longrightarrow> in_long v = Some v"
  by (simp add: in_long_def)

lemma digits_loop_digits:
  assumes "lies m s (map dchar ds @ [e])" and "digit_value e = None" and "\<forall>d\<in>set ds. d < b"
    and "1 \<le> b" and "b \<le> 16" and "foldl (\<lambda>v d. v * b + d) v ds \<le> 2147483647"
  shows "digits_loop m s (int b) (int v) =
    Some (s + word_of_nat (length ds), int (foldl (\<lambda>v d. v * b + d) v ds))"
  using assms(1,3,6)
proof (induction ds arbitrary: s v)
  case Nil
  then show ?case by (subst digits_loop.simps) (simp add: assms(2))
next
  case (Cons d ds)
  have le: "v * b + d \<le> 2147483647"
    using foldl_digits_ge [OF assms(4), of "v * b + d" ds] Cons.prems(3) by simp
  then have le': "int (v * b + d) \<le> 2147483647" "int (v * b) \<le> 2147483647" "0 \<le> int v * int b"
    by (linarith, linarith, simp)
  have "digits_loop m (s + 1) (int b) (int (v * b + d)) =
      Some (s + 1 + word_of_nat (length ds), int (foldl (\<lambda>v d. v * b + d) (v * b + d) ds))"
    using Cons.prems by (intro Cons.IH) simp_all
  moreover have "in_long (int v * int b) = Some (int v * int b)"
    "in_long (int v * int b + int d) = Some (int v * int b + int d)"
    using le' by (auto intro!: in_long_id)
  ultimately show ?case
    using Cons.prems(1,2) assms(5) digit_value_dchar [of d]
    by (subst digits_loop.simps) (simp add: add.assoc)
qed

lemma ucast_up_down [simp]: "ucast (ucast x :: w32) = x" for x :: w8
  by (rule bit_word_eqI) (simp add: bit_simps)

definition decimal :: "int \<Rightarrow> w8 list" where
  "decimal v = (if v < 0 then [0x2D] else []) @ map dchar (base_digits 10 (nat \<bar>v\<bar>))"

lemma unat_abs: "unat (if sint x < 0 then - x else x) = nat \<bar>sint x\<bar>" for x :: "64 word"
proof -
  have b: "- (2 ^ 63) \<le> sint x" "sint x < 2 ^ 63" using sint_ge [of x] sint_lt [of x] by simp_all
  have "unat (word_of_int \<bar>sint x\<bar> :: 64 word) = nat \<bar>sint x\<bar>"
    using b by (simp add: unsigned_of_int take_bit_eq_mod)
  moreover have "word_of_int \<bar>sint x\<bar> = (if sint x < 0 then - x else x)"
    by (cases "sint x < 0") simp_all
  ultimately show ?thesis by simp
qed

lemma sint_scast_64: "sint (scast w :: 64 word) = sint w" for w :: w32
proof -
  have b: "- (2 ^ 31) \<le> sint w" "sint w < 2 ^ 31" using sint_ge [of w] sint_lt [of w] by simp_all
  then show ?thesis by (simp add: signed_scast_eq signed_take_bit_int_eq_self)
qed

lemma print_decimal: "vprintfmt m (chars ''%d'' @ [0]) [w] = Some (map ucast (decimal (sint w)))"
proof -
  let ?x = "scast w :: 64 word"
  have "printnum (if sint ?x < 0 then - ?x else ?x) 10 (- 1) 0x20 =
      Some (map dchar (base_digits 10 (nat \<bar>sint w\<bar>)))"
    using printnum_spec [of 10 "if sint ?x < 0 then - ?x else ?x" "- 1" "0x20"]
    unfolding unat_abs by (simp add: sint_scast_64 pads_def)
  then show ?thesis
    by (simp add: chars_def conversion_def no_flags_def is_digit_def sint_scast_64 decimal_def)
qed

text \<open>C34. What \<open>cprintf("%d")\<close> prints of an \<open>int\<close>, \<open>strtol\<close> reads back: the same number, up to the end of the
  text. The least \<open>int\<close> is left out: its digits overflow before \<open>strtol\<close> changes the sign.\<close>

theorem strtol_reads_decimal:
  assumes "vprintfmt m' (chars ''%d'' @ [0]) [w] = Some out" and "cstr m p (map ucast out)"
    and "sint w \<noteq> - 2147483648"
  shows "strtol m p 10 = Some (sint w, p + word_of_nat (length out))"
proof -
  let ?v = "sint w" and ?ds = "base_digits 10 (nat \<bar>sint w\<bar>)"
  have out: "map ucast out = decimal ?v" "length out = length (decimal ?v)"
    using assms(1) by (auto simp: print_decimal comp_def ucast_up_down)
  have b: "- (2 ^ 31) \<le> ?v" "?v < 2 ^ 31" using sint_ge [of w] sint_lt [of w] by simp_all
  have ne: "?ds \<noteq> []" by (subst base_digits.simps) simp
  have d10: "\<forall>d\<in>set ?ds. d < 10" using base_digits_bound [of 10] by simp
  obtain d ds where ds: "?ds = d # ds" using ne by (cases ?ds) auto
  have first: "dchar d \<noteq> 0x20" "dchar d \<noteq> 0x09" "dchar d \<noteq> 0x2D" "dchar d \<noteq> 0x2B"
    using dchar_no_sign [of d] d10 ds by simp_all
  have digits: "digits_loop m q 10 0 = Some (q + word_of_nat (length ?ds), \<bar>?v\<bar>)"
    if "lies m q (map dchar ?ds @ [0])" for q
    using digits_loop_digits [OF that _ d10, of 0] b assms(3) base_digits_value [of 10 "nat \<bar>?v\<bar>"]
    by (simp add: digit_value_def)
  show ?thesis
  proof (cases "?v < 0")
    case True
    then have l: "lies m p ([0x2D] @ map dchar ?ds @ [0])" and len: "length out = Suc (length ?ds)"
      using assms(2) out by (simp_all add: cstr_def decimal_def)
    have "skip_blanks m p = Some p" using l by (subst skip_blanks.simps) simp
    then show ?thesis
      using l True digits [of "p + 1"] len b assms(3)
      by (simp add: strtol_def base_prefix_def in_long_def)
  next
    case False
    then have l: "lies m p (map dchar ?ds @ [0])" and len: "length out = length ?ds"
      using assms(2) out by (simp_all add: cstr_def decimal_def)
    have m: "m p = Some (dchar d)" using l by (simp add: ds)
    have "skip_blanks m p = Some p" using m first by (subst skip_blanks.simps) simp
    then show ?thesis
      using m first False digits [OF l] len by (simp add: strtol_def base_prefix_def)
  qed
qed

lemma demo_digits: "base_digits 10 42 = [4, 2]"
  by (simp add: base_digits.simps)

lemma strtol_reads_decimal_witness:
  "strtol ((\<lambda>_. None)(0x100 \<mapsto> 0x2D, 0x101 \<mapsto> 0x34, 0x102 \<mapsto> 0x32, 0x103 \<mapsto> 0)) 0x100 10 = Some (- 42, 0x103)"
proof -
  have "decimal (- 42) = [0x2D, 0x34, 0x32]"
    by (simp add: decimal_def demo_digits dchar_def hex_digits_def asc_def)
  moreover have "vprintfmt (\<lambda>_. None) (chars ''%d'' @ [0]) [- 42] = Some (map ucast (decimal (sint (- 42 :: w32))))"
    by (rule print_decimal)
  ultimately show ?thesis
    using strtol_reads_decimal [of "\<lambda>_. None" "- 42" "map ucast (decimal (- 42))"
        "(\<lambda>_. None)(0x100 \<mapsto> 0x2D, 0x101 \<mapsto> 0x34, 0x102 \<mapsto> 0x32, 0x103 \<mapsto> 0)" "0x100"]
    by (simp add: comp_def)
qed

subsection \<open>Printing to a string\<close>

text \<open>Memory with the bytes \<open>bs\<close> written at \<open>p\<close>.\<close>

definition written :: "w32 \<Rightarrow> w8 list \<Rightarrow> bytes \<Rightarrow> bytes" where
  "written p bs m = (\<lambda>q. if unat (q - p) < length bs then Some (bs ! unat (q - p)) else m q)"

lemma written_Nil [simp]: "written p [] m = m"
  by (simp add: written_def)

lemma written_Cons:
  assumes "length bs < 4294967296"
  shows "written (p + 1) bs (m(p \<mapsto> b)) = written p (b # bs) m"
proof
  fix q
  have "\<not> unat (p - (p + 1)) < length bs"
    using assms by (simp add: unsigned_minus_1_eq_mask mask_eq_exp_minus_1)
  moreover have "unat (q - p) = Suc (unat (q - (p + 1)))" if "q \<noteq> p"
    using that unat_pred [of "q - p"] by (simp add: diff_diff_add)
  ultimately show "written (p + 1) bs (m(p \<mapsto> b)) q = written p (b # bs) m q"
    by (cases "q = p") (simp_all add: written_def)
qed

lemma written_snoc:
  assumes "length bs < 4294967296"
  shows "written p (bs @ [b]) m = (written p bs m)(p + word_of_nat (length bs) \<mapsto> b)"
proof
  fix q
  have "unat (word_of_nat (length bs) :: w32) = length bs" using assms by (simp add: unat_of_nat)
  then have "unat (q - p) = length bs \<longleftrightarrow> q = p + word_of_nat (length bs)"
    by (metis add.commute add_diff_cancel_left' diff_add_cancel word_unat_eq_iff)
  then show "written p (bs @ [b]) m q = ((written p bs m)(p + word_of_nat (length bs) \<mapsto> b)) q"
    by (auto simp: written_def nth_append)
qed

lemma sprintf_written:
  assumes "p \<le> e" and "accessible m p (unat (e - p))" and "0 \<le> c" and "c + int (length cs) < 2 ^ 31"
  shows "put_each sprintputch cs (\<lparr>sb_buf = p, sb_ebuf = e, sb_cnt = c\<rparr>, m) =
     Some (\<lparr>sb_buf = p + word_of_nat (min (length cs) (unat (e - p))), sb_ebuf = e, sb_cnt = c + int (length cs)\<rparr>,
       written p (take (unat (e - p)) (map ucast cs)) m)"
  using assms
proof (induction cs arbitrary: p c m)
  case (Cons ch cs)
  have cnt: "in_int (c + 1) = Some (c + 1)" "0 \<le> c + 1" "c + 1 + int (length cs) < 2 ^ 31"
    using Cons.prems(3,4) by (simp_all add: in_int_def)
  show ?case
  proof (cases "p < e")
    case True
    then have n: "unat (e - p) = Suc (unat (e - (p + 1)))"
      using unat_pred [of "e - p"] by (simp add: diff_diff_add)
    note acc = accessible_step [OF Cons.prems(2) [unfolded n]]
    let ?m = "m(p \<mapsto> ucast ch)"
    have "p + 1 \<le> e" using True by (simp add: inc_le)
    moreover have "accessible ?m (p + 1) (unat (e - (p + 1)))" using acc(2) by (simp add: accessible_def)
    ultimately have "put_each sprintputch cs (\<lparr>sb_buf = p + 1, sb_ebuf = e, sb_cnt = c + 1\<rparr>, ?m) =
       Some (\<lparr>sb_buf = p + 1 + word_of_nat (min (length cs) (unat (e - (p + 1)))), sb_ebuf = e,
           sb_cnt = c + 1 + int (length cs)\<rparr>,
         written (p + 1) (take (unat (e - (p + 1))) (map ucast cs)) ?m)"
      by (rule Cons.IH) (use cnt in simp_all)
    moreover have "written (p + 1) (take (unat (e - (p + 1))) (map ucast cs)) ?m =
        written p (ucast ch # take (unat (e - (p + 1))) (map ucast cs)) m"
      by (rule written_Cons) (use unat_bound [of "e - (p + 1)"] in simp)
    moreover have "sprintputch ch (\<lparr>sb_buf = p, sb_ebuf = e, sb_cnt = c\<rparr>, m) =
        Some (\<lparr>sb_buf = p + 1, sb_ebuf = e, sb_cnt = c + 1\<rparr>, ?m)"
      using True acc(1) cnt(1) by (auto simp: sprintputch_def store_def Let_def)
    ultimately show ?thesis by (simp add: n add.assoc)
  next
    case False
    then have "p = e" using Cons.prems(1) by simp
    then show ?thesis using Cons.IH [of p m "c + 1"] Cons.prems(2) cnt by (simp add: sprintputch_def Let_def)
  qed
qed simp

subsection \<open>A \<open>putch\<close> that writes nothing the format reads\<close>

text \<open>
  \<open>m0\<close> is the part of memory that \<open>putch\<close> leaves alone. A text that can be made reading \<open>m0\<close> only is put as
  if it had been made before.
\<close>

locale print_sink =
  fixes putch :: "w32 \<Rightarrow> 's \<Rightarrow> 's option" and mem :: "'s \<Rightarrow> bytes" and safe :: "'s \<Rightarrow> bool" and m0 :: bytes
  assumes putch_safe: "safe s \<Longrightarrow> putch ch s = Some s' \<Longrightarrow> safe s'"
    and safe_reads: "safe s \<Longrightarrow> m0 p = Some b \<Longrightarrow> mem s p = Some b"
begin

lemma put_each_safe: "safe s \<Longrightarrow> put_each putch cs s = Some s' \<Longrightarrow> safe s'"
  by (induction cs arbitrary: s) (auto split: Option.bind_splits dest: putch_safe)

lemma put_each_append: "put_each putch (xs @ ys) s = Option.bind (put_each putch xs s) (put_each putch ys)"
  by (induction xs arbitrary: s) (auto split: Option.bind_splits)

lemma put_chars_limited:
  assumes "safe s" and "put_limited m0 p k = Some cs"
  shows "put_chars putch mem alt p (int k) n s =
     map_option (\<lambda>s. (s, n + length cs)) (put_each putch (map (scast \<circ> shown alt) cs) s)"
  using assms
proof (induction k arbitrary: p cs n s)
  case 0
  then show ?case using safe_reads [OF 0(1)]
    by (subst put_chars.simps) (auto split: Option.bind_splits)
next
  case (Suc k)
  then obtain ch where ch: "m0 p = Some ch" "mem s p = Some ch" using safe_reads by (auto split: Option.bind_splits)
  show ?case
  proof (cases "ch = 0")
    case True
    then show ?thesis using Suc.prems(2) ch by (subst put_chars.simps) auto
  next
    case False
    then obtain cs' where cs: "put_limited m0 (p + 1) k = Some cs'" "cs = ch # cs'" using Suc.prems(2) ch(1) by auto
    have k: "\<not> int (Suc k) < 0" "int (Suc k) \<noteq> 0" "int (Suc k) - 1 = int k" by simp_all
    show ?thesis
    proof (cases "putch (scast (shown alt ch)) s")
      case None
      then show ?thesis using False ch(2) cs(2) by (subst put_chars.simps) simp
    next
      case (Some s1)
      then show ?thesis
        using False ch(2) cs Suc.IH [OF putch_safe [OF Suc.prems(1) Some] cs(1), of "n + 1"]
        by (subst put_chars.simps, simp only: k bind.bind_lunit if_False simp_thms) simp
    qed
  qed
qed

lemma put_chars_unlimited:
  assumes "put_unlimited m0 p = Some cs" and "safe s"
  shows "put_chars putch mem alt p (- 1 - int j) n s =
     map_option (\<lambda>s. (s, n + length cs)) (put_each putch (map (scast \<circ> shown alt) cs) s)"
  using assms
proof (induction cs arbitrary: p n s)
  case Nil
  have "m0 p = Some 0"
    using Nil(1) [unfolded put_unlimited.simps [of m0 p]] by (auto split: Option.bind_splits if_splits)
  then show ?case using safe_reads [OF Nil(2)] by (subst put_chars.simps) simp
next
  case (Cons ch cs)
  have ch: "m0 p = Some ch" "ch \<noteq> 0" "put_unlimited m0 (p + 1) = Some cs"
    using Cons.prems(1) [unfolded put_unlimited.simps [of m0 p]] by (auto split: Option.bind_splits if_splits)
  have k: "- 1 - int j < 0" "- 1 - int j \<noteq> 0" by simp_all
  show ?case
  proof (cases "putch (scast (shown alt ch)) s")
    case None
    then show ?thesis using ch safe_reads [OF Cons.prems(2)] by (subst put_chars.simps) simp
  next
    case (Some s1)
    then show ?thesis
      using ch safe_reads [OF Cons.prems(2)] Cons.IH [OF ch(3) putch_safe [OF Cons.prems(2) Some], of "n + 1"]
      by (subst put_chars.simps, simp only: k bind.bind_lunit if_False if_True simp_thms) simp
  qed
qed

lemma put_arg_chars:
  assumes "safe s" and "arg_chars m0 p prec = Some cs" and "p \<noteq> 0"
  shows "put_chars putch mem alt p prec n s =
     map_option (\<lambda>s. (s, n + length cs)) (put_each putch (map (scast \<circ> shown alt) cs) s)"
proof (cases "prec < 0")
  case True
  then have "prec = - 1 - int (nat (- 1 - prec))" by simp
  then show ?thesis using put_chars_unlimited [of p cs s alt "nat (- 1 - prec)" n] assms True by (simp add: arg_chars_def)
next
  case False
  then show ?thesis using put_chars_limited [of s p "nat prec" cs alt n] assms by (simp add: arg_chars_def)
qed

lemma arg_length_safe: "safe s \<Longrightarrow> arg_length m0 p prec = Some w \<Longrightarrow> arg_length (mem s) p prec = Some w"
proof -
  have "strnlen_loop m0 p k n = Some w \<Longrightarrow> strnlen_loop (mem s) p k n = Some w" if "safe s" for s p k n w
    using safe_reads [OF that]
    by (induction k arbitrary: p n) (auto split: Option.bind_splits if_splits)
  then show "safe s \<Longrightarrow> arg_length m0 p prec = Some w \<Longrightarrow> arg_length (mem s) p prec = Some w"
    by (auto simp: arg_length_def strnlen_def split: if_splits)
qed

lemma format_string_to_eq:
  assumes "safe s" and "format_string m0 sp p = Some out"
  shows "format_string_to putch mem sp p s = put_each putch out s"
proof -
  let ?left = "width sp > 0 \<and> padc sp \<noteq> asc CHR ''-''"
  obtain w cs where w: "(if ?left then map_option (\<lambda>n. width sp - sint n) (arg_length m0 p (precision sp)) else Some (width sp)) = Some w"
    and cs: "arg_chars m0 p (precision sp) = Some cs"
    and out: "out = map scast ((if ?left then pads w (padc sp) else []) @ map (shown (altflag sp)) cs @
      pads ((if ?left then min w 0 else w) - int (length cs)) (asc CHR '' ''))"
    using assms(2) unfolding format_string_def Let_def by (auto split: Option.bind_splits)
  have w': "(if ?left then map_option (\<lambda>n. width sp - sint n) (arg_length (mem s) p (precision sp)) else Some (width sp)) = Some w"
    using w arg_length_safe [OF assms(1)] by (auto split: if_splits)
  let ?before = "map scast (if ?left then pads w (padc sp) else []) :: w32 list"
    and ?after = "map scast (pads ((if ?left then min w 0 else w) - int (length cs)) (asc CHR '' '')) :: w32 list"
    and ?chars = "map scast (map (shown (altflag sp)) cs) :: w32 list"
  let ?mid = "\<lambda>s1. if p = 0 then (let cs = (if precision sp < 0 then null_text else take (nat (precision sp)) null_text)
                  in map_option (\<lambda>s. (s, length cs)) (put_each putch (map (scast \<circ> shown (altflag sp)) cs) s1))
               else put_chars putch mem (altflag sp) p (precision sp) 0 s1"
  have mid: "?mid s1 = map_option (\<lambda>s. (s, length cs)) (put_each putch ?chars s1)" if "safe s1" for s1
    using put_arg_chars [OF that cs] cs by (auto simp: arg_chars_def)
  have run: "format_string_to putch mem sp p s = Option.bind (put_each putch ?before s) (\<lambda>s1.
      Option.bind (?mid s1) (\<lambda>(s2, n).
        put_each putch (map scast (pads ((if ?left then min w 0 else w) - int n) (asc CHR '' ''))) s2))"
    by (simp only: format_string_to_def Let_def w' bind.bind_lunit)
  have out': "put_each putch out s = Option.bind (put_each putch ?before s) (\<lambda>s1.
      Option.bind (put_each putch ?chars s1) (put_each putch ?after))"
    unfolding out map_append put_each_append by (rule refl)
  show ?thesis
  proof (cases "put_each putch ?before s")
    case None
    then show ?thesis unfolding run out' by simp
  next
    case (Some s1)
    note mid = mid [OF put_each_safe [OF assms(1) Some]]
    show ?thesis unfolding run out' Some bind.bind_lunit mid
      by (cases "put_each putch ?chars s1") simp_all
  qed
qed

lemma conversion_memory:
  assumes "reswitch no_flags start args = Some (sp, ch, rest)" and "ch \<noteq> asc CHR ''s''"
  shows "conversion m start args = conversion m' start args"
  using assms by (cases rest) (simp add: conversion_def)

lemma conversion_to_eq:
  assumes "safe s" and "conversion m0 start args = Some (out, rest, args')"
  shows "conversion_to putch mem start args s = map_option (\<lambda>s. (s, rest, args')) (put_each putch out s)"
proof -
  obtain sp ch fmt as where r: "reswitch no_flags start args = Some (sp, ch, fmt, as)"
    using assms(2) by (auto simp: conversion_def split: Option.bind_splits)
  show ?thesis
  proof (cases "ch = asc CHR ''s''")
    case True
    have ne: "asc CHR ''s'' \<noteq> asc CHR ''c''" "asc CHR ''s'' \<noteq> asc CHR ''e''" by (simp_all add: asc_def)
    from True assms(2) r obtain a where "va_int as = Some (a, args')" "format_string m0 sp a = Some out" "fmt = rest"
      by (auto simp: conversion_def ne split: Option.bind_splits)
    then show ?thesis using format_string_to_eq [OF assms(1)] True r
      by (auto simp: conversion_to_def map_option_case split: option.splits)
  next
    case False
    then have "conversion (mem s) start args = Some (out, rest, args')"
      using conversion_memory [OF r False] assms(2) by metis
    then show ?thesis using False r by (auto simp: conversion_to_def map_option_case split: option.splits)
  qed
qed

lemma vprintfmt_to_eq:
  assumes "safe s" and "vprintfmt m0 fmt args = Some cs"
  shows "vprintfmt_to putch mem fmt args s = put_each putch cs s"
  using assms
proof (induction fmt arbitrary: args s cs rule: measure_induct_rule [where f = length])
  case (less fmt)
  obtain ch l where fmt: "fmt = ch # l" using less.prems(2) by (cases fmt) auto
  consider (conv) "ch = asc CHR ''%''" | (stop) "ch = 0" | (plain) "ch \<noteq> asc CHR ''%''" "ch \<noteq> 0" by blast
  then show ?case
  proof cases
    case conv
    then obtain out rest args' cs' where c: "conversion m0 l args = Some (out, rest, args')"
      "vprintfmt m0 rest args' = Some cs'" "cs = out @ cs'"
      using less.prems(2) by (auto simp: fmt split: Option.bind_splits)
    have "length rest < length fmt" using conversion_shorter [OF c(1)] by (simp add: fmt)
    note IH = less.IH [OF this _ c(2)]
    show ?thesis
    proof (cases "put_each putch out s")
      case None
      then show ?thesis using conv c(3) conversion_to_eq [OF less.prems(1) c(1)] by (simp add: fmt put_each_append)
    next
      case (Some s1)
      then show ?thesis
        using conv c(3) conversion_to_eq [OF less.prems(1) c(1)] IH [OF put_each_safe [OF less.prems(1) Some]]
        by (simp add: fmt put_each_append)
    qed
  next
    case stop
    then show ?thesis using less.prems(2) by (simp add: fmt)
  next
    case plain
    then obtain cs' where c: "vprintfmt m0 l args = Some cs'" "cs = ucast ch # cs'"
      using less.prems(2) by (auto simp: fmt)
    have "length l < length fmt" by (simp add: fmt)
    note IH = less.IH [OF this _ c(1)]
    show ?thesis
      using plain c(2) IH [OF putch_safe [OF less.prems(1)]] by (cases "putch (ucast ch) s") (simp_all add: fmt)
  qed
qed

end

text \<open>\<open>sprintputch\<close> writes only the part of its buffer that is left.\<close>

definition sprint_safe :: "bytes \<Rightarrow> sprintbuf \<times> bytes \<Rightarrow> bool" where
  "sprint_safe m0 = (\<lambda>(b, m). m0 \<subseteq>\<^sub>m m \<and> (\<forall>q. sb_buf b \<le> q \<and> q < sb_ebuf b \<longrightarrow> m0 q = None))"

lemma map_le_Some: "m0 \<subseteq>\<^sub>m m \<Longrightarrow> m0 p = Some b \<Longrightarrow> m p = Some b"
  by (auto simp: map_le_def dom_def)

interpretation sprint: print_sink sprintputch snd "sprint_safe m0" m0 for m0
proof
  fix s ch s'
  assume safe: "sprint_safe m0 s" and put: "sprintputch ch s = Some s'"
  obtain b m where s: "s = (b, m)" by (cases s)
  have le: "m0 \<subseteq>\<^sub>m m" and none: "\<And>q. sb_buf b \<le> q \<Longrightarrow> q < sb_ebuf b \<Longrightarrow> m0 q = None"
    using safe by (simp_all add: sprint_safe_def s)
  show "sprint_safe m0 s'"
  proof (cases "sb_buf b < sb_ebuf b")
    case True
    have "m0 \<subseteq>\<^sub>m m(sb_buf b \<mapsto> v)" for v
      using le none [OF order_refl True] by (auto simp: map_le_def dom_def)
    moreover have "sb_buf b \<le> q" if "sb_buf b + 1 \<le> q" for q
    proof -
      have "unat (sb_buf b) + 1 < 2 ^ 32" using True unat_bound [of "sb_ebuf b"] by (simp add: word_less_nat_alt)
      then show ?thesis using that by (simp add: word_le_nat_alt unat_word_ariths)
    qed
    moreover obtain cnt v where "s' = (b\<lparr>sb_cnt := cnt, sb_buf := sb_buf b + 1\<rparr>, m(sb_buf b \<mapsto> v))"
    proof -
      assume that: "\<And>cnt v. s' = (b\<lparr>sb_cnt := cnt, sb_buf := sb_buf b + 1\<rparr>, m(sb_buf b \<mapsto> v)) \<Longrightarrow> thesis"
      obtain cnt where "in_int (sb_cnt b + 1) = Some cnt" using put by (auto simp: s sprintputch_def split: Option.bind_splits)
      then have "s' = (b\<lparr>sb_cnt := cnt, sb_buf := sb_buf b + 1\<rparr>, m(sb_buf b \<mapsto> ucast ch))"
        using put True by (auto simp: s sprintputch_def store_def Let_def split: Option.bind_splits if_splits)
      then show thesis by (rule that)
    qed
    ultimately show ?thesis using none by (simp add: sprint_safe_def)
  next
    case False
    then obtain cnt where "s' = (b\<lparr>sb_cnt := cnt\<rparr>, m)"
      using put by (auto simp: s sprintputch_def Let_def split: Option.bind_splits)
    then show ?thesis using le none by (simp add: sprint_safe_def)
  qed
next
  fix s p b
  show "sprint_safe m0 s \<Longrightarrow> m0 p = Some b \<Longrightarrow> snd s p = Some b"
    by (auto simp: sprint_safe_def dest: map_le_Some)
qed

text \<open>The \<open>n\<close> bytes from \<open>buf\<close> on, and memory without them.\<close>

definition outside :: "w32 \<Rightarrow> nat \<Rightarrow> bytes \<Rightarrow> bytes" where
  "outside buf n m = (\<lambda>p. if unat (p - buf) < n then None else m p)"

text \<open>C35. \<open>snprintf\<close> into a buffer of \<open>n\<close> bytes that the format does not read (its string arguments lie
  \<open>outside\<close> of the buffer): the buffer gets as much of the text as fits below its last byte and a terminating
  NUL, nothing outside of the buffer changes, and the result is the length of the whole text, which an \<open>int\<close>
  must hold.\<close>

theorem snprintf_bounds:
  assumes "vprintfmt (outside buf (unat n) m) fmt args = Some cs" and "buf \<noteq> 0" and "1 \<le> sint n"
    and "unat buf + unat n \<le> 4294967296" and "accessible m buf (unat n)" and "length cs < 2 ^ 31"
  shows "snprintf m buf n fmt args =
     Some (written buf (take (unat n - 1) (map ucast cs) @ [0]) m, int (length cs))"
proof -
  let ?e = "buf + n - 1"
  have "n \<noteq> 0" using assms(3) by auto
  then have n: "1 \<le> unat n" by (simp add: Suc_leI unat_gt_0)
  have e: "unat ?e = unat buf + unat n - 1"
  proof -
    have "unat (n - 1) = unat n - 1" using \<open>n \<noteq> 0\<close> by (simp add: unat_pred)
    moreover have "?e = buf + (n - 1)" by simp
    ultimately show ?thesis using assms(4) n by (simp only: unat_word_ariths(1)) simp
  qed
  then have le: "buf \<le> ?e" and d: "unat (?e - buf) = unat n - 1"
    using n by (simp_all add: word_le_nat_alt unat_sub)
  have acc: "accessible m buf (unat (?e - buf))" using assms(5) d by (auto simp: accessible_def)
  have "sprint_safe (outside buf (unat n) m) (\<lparr>sb_buf = buf, sb_ebuf = ?e, sb_cnt = 0\<rparr>, m)"
  proof -
    have "unat (q - buf) < unat n" if "buf \<le> q" "q < ?e" for q
      using that e n by (simp add: unat_sub word_le_nat_alt word_less_nat_alt)
    then show ?thesis by (auto simp: sprint_safe_def outside_def map_le_def)
  qed
  note printed = sprint.vprintfmt_to_eq [OF this assms(1)]
  let ?cs = "map ucast cs :: w8 list"
  let ?k = "min (length cs) (unat n - 1)"
  let ?m = "written buf (take (unat n - 1) ?cs) m"
  have k: "unat (word_of_nat ?k :: w32) = ?k" using unat_bound [of n] by (simp add: unat_of_nat)
  have "?m (buf + word_of_nat ?k) \<noteq> None"
    using assms(5) n k by (auto simp: written_def accessible_def)
  moreover have "?m(buf + word_of_nat ?k \<mapsto> 0) = written buf (take (unat n - 1) ?cs @ [0]) m"
    using written_snoc [of "take (unat n - 1) ?cs" buf 0 m] unat_bound [of n] by (simp add: min.commute)
  ultimately show ?thesis
    using printed assms(2,3,6) sprintf_written [OF le acc, of 0 cs] d
    by (simp add: snprintf_def vsnprintf_def store_def not_less)
qed

lemma snprintf_bounds_witness:
  "snprintf demo_bytes 4 3 (chars ''ab%%c'' @ [0]) [] = Some (written 4 [0x61, 0x62, 0] demo_bytes, 4)"
proof -
  have v: "vprintfmt (outside 4 (unat (3 :: w32)) demo_bytes) (chars ''ab%%c'' @ [0]) [] = Some (plain ''ab%c'')"
    by (simp add: chars_def plain_def conversion_def no_flags_def is_digit_def asc_def)
  have "accessible demo_bytes 4 (unat (3 :: w32))" using demo_accessible [of _ 4] by (simp add: accessible_def)
  moreover have len: "length (plain ''ab%c'') = 4" by (simp add: plain_def chars_def)
  ultimately have "snprintf demo_bytes 4 3 (chars ''ab%%c'' @ [0]) [] =
     Some (written 4 (take 2 (map ucast (plain ''ab%c'')) @ [0]) demo_bytes, int (length (plain ''ab%c'')))"
    using snprintf_bounds [OF v] by simp
  moreover have "take 2 (map ucast (plain ''ab%c'')) = ([0x61, 0x62] :: w8 list)"
    by (simp add: plain_def chars_def asc_def)
  ultimately show ?thesis using len by simp
qed

subsection \<open>Printing in calls to the kernel\<close>

lemma user_putch_fits:
  assumes "length buf < 255" and "\<forall>c\<in>set calls. length c = 255" and "0 \<le> n" and "n + int (length cs) < 2 ^ 31"
  obtains b calls' where "put_each user_putch cs (\<lparr>pb_buf = buf, pb_cnt = n\<rparr>, calls) = Some (b, calls')"
    and "concat calls' @ pb_buf b = concat calls @ buf @ map ucast cs" and "pb_cnt b = n + int (length cs)"
    and "length (pb_buf b) < 255" and "\<forall>c\<in>set calls'. length c = 255"
  using assms
proof (induction cs arbitrary: buf n calls thesis)
  case Nil
  show ?case by (rule Nil(1) [of "\<lparr>pb_buf = buf, pb_cnt = n\<rparr>" calls]) (use Nil in simp_all)
next
  case (Cons ch cs)
  let ?buf = "buf @ [ucast ch]"
  have cnt: "in_int (n + 1) = Some (n + 1)" "0 \<le> n + 1" "n + 1 + int (length cs) < 2 ^ 31"
    using Cons.prems(4,5) by (simp_all add: in_int_def)
  show ?case
  proof (cases "length ?buf = 255")
    case True
    then have step: "user_putch ch (\<lparr>pb_buf = buf, pb_cnt = n\<rparr>, calls) = Some (\<lparr>pb_buf = [], pb_cnt = n + 1\<rparr>, calls @ [?buf])"
      using cnt by (simp add: user_putch_def)
    have "length ([] :: w8 list) < 255" "\<forall>c\<in>set (calls @ [?buf]). length c = 255" using True Cons.prems(3) by simp_all
    from Cons.IH [OF _ this cnt(2,3)] obtain b calls' where
      "put_each user_putch cs (\<lparr>pb_buf = [], pb_cnt = n + 1\<rparr>, calls @ [?buf]) = Some (b, calls')"
      "concat calls' @ pb_buf b = concat (calls @ [?buf]) @ [] @ map ucast cs" "pb_cnt b = n + 1 + int (length cs)"
      "length (pb_buf b) < 255" "\<forall>c\<in>set calls'. length c = 255" by blast
    then show ?thesis using Cons.prems(1) [of b calls'] step by simp
  next
    case False
    then have step: "user_putch ch (\<lparr>pb_buf = buf, pb_cnt = n\<rparr>, calls) = Some (\<lparr>pb_buf = ?buf, pb_cnt = n + 1\<rparr>, calls)"
      using cnt by (simp add: user_putch_def Let_def)
    have "length ?buf < 255" using False Cons.prems(2) by simp
    from Cons.IH [OF _ this Cons.prems(3) cnt(2,3)] obtain b calls' where
      "put_each user_putch cs (\<lparr>pb_buf = ?buf, pb_cnt = n + 1\<rparr>, calls) = Some (b, calls')"
      "concat calls' @ pb_buf b = concat calls @ ?buf @ map ucast cs" "pb_cnt b = n + 1 + int (length cs)"
      "length (pb_buf b) < 255" "\<forall>c\<in>set calls'. length c = 255" by blast
    then show ?thesis using Cons.prems(1) [of b calls'] step by simp
  qed
qed

lemma user_putch_overflows:
  "0 \<le> pb_cnt b \<Longrightarrow> pb_cnt b < 2 ^ 31 \<Longrightarrow> 2 ^ 31 \<le> pb_cnt b + int (length cs) \<Longrightarrow> put_each user_putch cs (b, calls) = None"
proof (induction cs arbitrary: b calls)
  case (Cons ch cs)
  show ?case
  proof (cases "user_putch ch (b, calls)")
    case (Some r)
    obtain b' calls' where r: "r = (b', calls')" by (cases r)
    have "pb_cnt b' = pb_cnt b + 1" "pb_cnt b + 1 < 2 ^ 31"
      using Some r by (auto simp: user_putch_def in_int_def Let_def split: if_splits)
    then show ?thesis using Cons.IH [of b' calls'] Cons.prems Some r by simp
  qed simp
qed simp

text \<open>C36. A user program prints through a buffer of 256 bytes: the texts of its calls of \<open>sys_cputs\<close>, put
  together, are exactly the text of the format, and none of them is longer than 255 bytes. The result is the length
  of the text; the count overflows, undefined in C, only for a text that an \<open>int\<close> cannot count.\<close>

theorem vcprintf_calls:
  assumes "vprintfmt m fmt args = Some cs"
  shows "\<exists>calls. vcprintf m fmt args = (if length cs < 2 ^ 31 then Some (calls, int (length cs)) else None) \<and>
     concat calls = map ucast cs \<and> (\<forall>c\<in>set calls. length c \<le> 255)"
proof (cases "length cs < 2 ^ 31")
  case True
  then have fits: "0 + int (length cs) < 2 ^ 31" by simp
  obtain b calls where r: "put_each user_putch cs (\<lparr>pb_buf = [], pb_cnt = 0\<rparr>, []) = Some (b, calls)"
    "concat calls @ pb_buf b = concat [] @ [] @ map ucast cs" "pb_cnt b = 0 + int (length cs)"
    "length (pb_buf b) < 255" "\<forall>c\<in>set calls. length c = 255"
    by (rule user_putch_fits [of "[]" "[]" 0 cs]) (use fits in simp_all)
  then show ?thesis using True assms by (intro exI [of _ "calls @ [pb_buf b]"]) (auto simp: vcprintf_def)
next
  case False
  then have "put_each user_putch cs (\<lparr>pb_buf = [], pb_cnt = 0\<rparr>, []) = None"
    by (intro user_putch_overflows) simp_all
  then show ?thesis using False assms
    by (intro exI [of _ "map (\<lambda>c. [ucast c]) cs"]) (auto simp: vcprintf_def)
qed

lemma vcprintf_calls_witness:
  "\<exists>calls. vcprintf demo_bytes (chars ''ab%%c'' @ [0]) [] = Some (calls, 4) \<and> concat calls = chars ''ab%c''"
proof -
  have v: "vprintfmt demo_bytes (chars ''ab%%c'' @ [0]) [] = Some (plain ''ab%c'')"
    by (simp add: chars_def plain_def conversion_def no_flags_def is_digit_def asc_def)
  moreover have "map ucast (plain ''ab%c'') = chars ''ab%c''" "length (plain ''ab%c'') = 4"
    by (simp_all add: plain_def chars_def)
  ultimately show ?thesis using vcprintf_calls [OF v] by auto
qed

end
