(* ===== verification/SpinLock.thy ===== *)
theory SpinLock
  imports Pmap
begin

unbundle bit_operations_syntax

text \<open>
  The big kernel lock (\<open>sched/kern/spinlock.c\<close>) under interleaving: every access of a processor to
  the lock is one step, and the exchange of \<open>locked\<close> is atomic. The theorem is mutual exclusion,
  and that neither \<open>spin_lock\<close> nor \<open>spin_unlock\<close> panics when processors take the lock before they
  release it.
\<close>

subsection \<open>The lock and its operations\<close>

record spinlock =
  locked :: w32
  lk_cpu :: "nat option"

definition spin_initlock :: spinlock where "spin_initlock = \<lparr>locked = 0, lk_cpu = None\<rparr>"

text \<open>The chain of saved frame pointers, at most ten return addresses; \<open>rd\<close> reads a word.\<close>

fun caller_pcs_loop :: "(w32 \<Rightarrow> w32) \<Rightarrow> nat \<Rightarrow> w32 \<Rightarrow> w32 list" where
  "caller_pcs_loop rd 0 ebp = []"
| "caller_pcs_loop rd (Suc n) ebp =
     (if ebp = 0 \<or> ebp < ULIM then replicate (Suc n) 0
      else rd (ebp + 4) # caller_pcs_loop rd n (rd ebp))"

definition get_caller_pcs :: "(w32 \<Rightarrow> w32) \<Rightarrow> w32 \<Rightarrow> w32 list" where
  "get_caller_pcs rd ebp = caller_pcs_loop rd 10 ebp"

text \<open>\<open>holding\<close>, when no other processor moves.\<close>

definition holding :: "spinlock \<Rightarrow> nat \<Rightarrow> bool" where
  "holding lk c \<longleftrightarrow> locked lk \<noteq> 0 \<and> lk_cpu lk = Some c"

definition xchg_locked :: "w32 \<Rightarrow> spinlock \<Rightarrow> spinlock \<times> w32" where
  "xchg_locked v lk = (lk\<lparr>locked := v\<rparr>, locked lk)"

text \<open>
  Where a processor is: outside, in the test of \<open>holding\<close> after it has seen the lock taken, in the
  loop over \<open>xchg\<close>, past the loop, inside, in the test of \<open>spin_unlock\<close>, past it, and past the
  statement that forgets the owner.
\<close>

datatype phase = Outside | Lock_test | Spin | Taken | Inside | Unlock_test | Unlock | Disowned | Panicked

type_synonym lock_state = "spinlock \<times> (nat \<Rightarrow> phase)"

inductive lock_step :: "nat \<Rightarrow> lock_state \<Rightarrow> lock_state \<Rightarrow> bool" for c where
  lock_free: "pc c = Outside \<Longrightarrow> locked lk = 0 \<Longrightarrow> lock_step c (lk, pc) (lk, pc(c := Spin))"
| lock_busy: "pc c = Outside \<Longrightarrow> locked lk \<noteq> 0 \<Longrightarrow> lock_step c (lk, pc) (lk, pc(c := Lock_test))"
| lock_own: "pc c = Lock_test \<Longrightarrow> lk_cpu lk = Some c \<Longrightarrow> lock_step c (lk, pc) (lk, pc(c := Panicked))"
| lock_other: "pc c = Lock_test \<Longrightarrow> lk_cpu lk \<noteq> Some c \<Longrightarrow> lock_step c (lk, pc) (lk, pc(c := Spin))"
| spin: "pc c = Spin \<Longrightarrow> xchg_locked 1 lk = (lk', old) \<Longrightarrow>
    lock_step c (lk, pc) (lk', pc(c := if old \<noteq> 0 then Spin else Taken))"
| own: "pc c = Taken \<Longrightarrow> lock_step c (lk, pc) (lk\<lparr>lk_cpu := Some c\<rparr>, pc(c := Inside))"
| unlock_free: "pc c = Inside \<Longrightarrow> locked lk = 0 \<Longrightarrow> lock_step c (lk, pc) (lk, pc(c := Panicked))"
| unlock_busy: "pc c = Inside \<Longrightarrow> locked lk \<noteq> 0 \<Longrightarrow> lock_step c (lk, pc) (lk, pc(c := Unlock_test))"
| unlock_other: "pc c = Unlock_test \<Longrightarrow> lk_cpu lk \<noteq> Some c \<Longrightarrow> lock_step c (lk, pc) (lk, pc(c := Panicked))"
| unlock_own: "pc c = Unlock_test \<Longrightarrow> lk_cpu lk = Some c \<Longrightarrow> lock_step c (lk, pc) (lk, pc(c := Unlock))"
| disown: "pc c = Unlock \<Longrightarrow> lock_step c (lk, pc) (lk\<lparr>lk_cpu := None\<rparr>, pc(c := Disowned))"
| release: "pc c = Disowned \<Longrightarrow> xchg_locked 0 lk = (lk', old) \<Longrightarrow> lock_step c (lk, pc) (lk', pc(c := Outside))"

inductive_cases lock_stepE: "lock_step c s s'"

inductive lock_reachable :: "lock_state \<Rightarrow> bool" where
  start: "lock_reachable (spin_initlock, \<lambda>_. Outside)"
| step: "lock_reachable s \<Longrightarrow> lock_step c s s' \<Longrightarrow> lock_reachable s'"

text \<open>
  The bodies of the two routines when nobody else moves: \<open>None\<close> where they panic or, for a lock
  that another processor keeps, never return.
\<close>

definition spin_lock :: "nat \<Rightarrow> spinlock \<Rightarrow> spinlock option" where
  "spin_lock c lk =
     (if holding lk c then None
      else let (lk, old) = xchg_locked 1 lk in if old \<noteq> 0 then None else Some (lk\<lparr>lk_cpu := Some c\<rparr>))"

definition spin_unlock :: "nat \<Rightarrow> spinlock \<Rightarrow> spinlock option" where
  "spin_unlock c lk =
     (if \<not> holding lk c then None else Some (fst (xchg_locked 0 (lk\<lparr>lk_cpu := None\<rparr>))))"

subsection \<open>Mutual exclusion\<close>

definition owning :: "phase \<Rightarrow> bool" where
  "owning p \<longleftrightarrow> p \<in> {Taken, Inside, Unlock_test, Unlock, Disowned}"

definition recorded :: "phase \<Rightarrow> bool" where
  "recorded p \<longleftrightarrow> p \<in> {Inside, Unlock_test, Unlock}"

lemma phase_simps [simp]:
  "\<not> owning Outside" "\<not> owning Lock_test" "\<not> owning Spin" "owning Taken" "owning Inside" "owning Unlock_test"
  "owning Unlock" "owning Disowned" "\<not> recorded Outside" "\<not> recorded Lock_test" "\<not> recorded Spin"
  "\<not> recorded Taken" "recorded Inside" "recorded Unlock_test" "recorded Unlock" "\<not> recorded Disowned"
  by (simp_all add: owning_def recorded_def)

text \<open>\<open>who\<close> is the processor that owns the lock.\<close>

definition lock_inv :: "nat option \<Rightarrow> lock_state \<Rightarrow> bool" where
  "lock_inv who = (\<lambda>(lk, pc). (\<forall>c. pc c \<noteq> Panicked) \<and> (\<forall>c. owning (pc c) \<longleftrightarrow> who = Some c) \<and>
     (locked lk \<noteq> 0 \<longleftrightarrow> who \<noteq> None) \<and> (\<forall>c. lk_cpu lk = Some c \<longleftrightarrow> recorded (pc c)))"

lemma lock_inv_move:
  assumes "lock_inv who (lk, pc)" and "p \<noteq> Panicked" and "owning p = owning (pc c)" and "recorded p = recorded (pc c)"
  shows "lock_inv who (lk, pc(c := p))"
  using assms by (auto simp: lock_inv_def)

lemma lock_inv_facts:
  assumes "lock_inv who (lk, pc)"
  shows "recorded (pc c) \<Longrightarrow> lk_cpu lk = Some c" "lk_cpu lk = Some c \<Longrightarrow> recorded (pc c)"
    "owning (pc c) \<Longrightarrow> locked lk \<noteq> 0" "owning (pc c) \<Longrightarrow> who = Some c" "locked lk = 0 \<Longrightarrow> who = None"
  using assms by (auto simp: lock_inv_def)

lemma recorded_owning: "recorded p \<Longrightarrow> owning p"
  by (auto simp: recorded_def owning_def)

lemma lock_inv_start: "lock_inv None (spin_initlock, \<lambda>_. Outside)"
  by (simp add: lock_inv_def spin_initlock_def)

lemma lock_inv_step: "lock_step c s s' \<Longrightarrow> lock_inv who s \<Longrightarrow> \<exists>who'. lock_inv who' s'"
proof (induction rule: lock_step.induct)
  case (lock_free pc lk)
  then show ?case by (intro exI [of _ who] lock_inv_move) simp_all
next
  case (lock_busy pc lk)
  then show ?case by (intro exI [of _ who] lock_inv_move) simp_all
next
  case (lock_own pc lk)
  then show ?case using lock_inv_facts(2) [of who lk pc c] by simp
next
  case (lock_other pc lk)
  then show ?case by (intro exI [of _ who] lock_inv_move) simp_all
next
  case (spin pc lk lk' old)
  show ?case
  proof (cases "old = 0")
    case True
    then have free: "locked lk = 0" "lk' = lk\<lparr>locked := 1\<rparr>" using spin by (auto simp: xchg_locked_def)
    then have "who = None" using lock_inv_facts(5) spin by blast
    then have "lock_inv (Some c) (lk', pc(c := Taken))"
      using spin free by (auto simp: lock_inv_def)
    then show ?thesis using True by auto
  next
    case False
    then have "locked lk \<noteq> 0" "lk' = lk\<lparr>locked := 1\<rparr>" using spin by (auto simp: xchg_locked_def)
    then have "lock_inv who (lk', pc)" using spin by (auto simp: lock_inv_def)
    then show ?thesis using lock_inv_move [of who lk' pc Spin c] spin False by auto
  qed
next
  case (own pc lk)
  then have "lock_inv who (lk\<lparr>lk_cpu := Some c\<rparr>, pc(c := Inside))"
    using recorded_owning by (fastforce simp: lock_inv_def)
  then show ?case by blast
next
  case (unlock_free pc lk)
  then show ?case using lock_inv_facts(3) [of who lk pc c] by simp
next
  case (unlock_busy pc lk)
  then show ?case by (intro exI [of _ who] lock_inv_move) simp_all
next
  case (unlock_other pc lk)
  then show ?case using lock_inv_facts(1) [of who lk pc c] by simp
next
  case (unlock_own pc lk)
  then show ?case by (intro exI [of _ who] lock_inv_move) simp_all
next
  case (disown pc lk)
  then have "lock_inv who (lk\<lparr>lk_cpu := None\<rparr>, pc(c := Disowned))"
    using recorded_owning by (fastforce simp: lock_inv_def)
  then show ?case by blast
next
  case (release pc lk lk' old)
  then have "lock_inv None (lk', pc(c := Outside))"
    by (auto simp: lock_inv_def xchg_locked_def)
  then show ?case by blast
qed

lemma lock_inv_reachable: "lock_reachable s \<Longrightarrow> \<exists>who. lock_inv who s"
  by (induction rule: lock_reachable.induct) (auto intro: lock_inv_start dest: lock_inv_step)

text \<open>C37. However the processors interleave, at most one of them is between the end of \<open>spin_lock\<close> and
  the release in \<open>spin_unlock\<close>, the lock records it as its holder while it is inside, and no
  processor runs into a panic of the two routines.\<close>

theorem lock_mutual_exclusion:
  assumes "lock_reachable (lk, pc)"
  shows "pc c \<noteq> Panicked \<and> (pc c = Inside \<longrightarrow> holding lk c \<and> (\<forall>d. pc d = Inside \<longrightarrow> d = c))"
proof -
  obtain who where i: "lock_inv who (lk, pc)" using lock_inv_reachable [OF assms] by blast
  have "pc c \<noteq> Panicked" using i by (simp add: lock_inv_def)
  moreover have "holding lk c" if "pc c = Inside"
    using lock_inv_facts(1,3) [OF i, of c] that by (simp add: holding_def)
  moreover have "d = c" if "pc c = Inside" "pc d = Inside" for d
    using lock_inv_facts(4) [OF i, of c] lock_inv_facts(4) [OF i, of d] that by simp
  ultimately show ?thesis by blast
qed

text \<open>Processor 1 is inside while processor 0 spins.\<close>

lemma lock_mutual_exclusion_witness:
  "\<exists>lk pc. lock_reachable (lk, pc) \<and> pc 1 = Inside \<and> pc 0 = Spin \<and> holding lk 1 \<and> (\<forall>d. pc d = Inside \<longrightarrow> d = 1)"
proof -
  let ?lk = "spin_initlock\<lparr>locked := 1\<rparr>"
  note go = lock_reachable.step
  have "lock_reachable (spin_initlock, (\<lambda>_. Outside)(0 := Spin))"
    by (rule go [OF start lock_free]) (simp_all add: spin_initlock_def)
  then have "lock_reachable (spin_initlock, (\<lambda>_. Outside)(0 := Spin, 1 := Spin))"
    by (rule go [OF _ lock_free]) (simp_all add: spin_initlock_def)
  then have "lock_reachable (?lk, (\<lambda>_. Outside)(0 := Spin, 1 := Spin, 1 := if (0 :: w32) \<noteq> 0 then Spin else Taken))"
    by (rule go [OF _ spin]) (simp_all add: xchg_locked_def spin_initlock_def)
  then have r: "lock_reachable (?lk\<lparr>lk_cpu := Some 1\<rparr>, (\<lambda>_. Outside)(0 := Spin, 1 := Taken, 1 := Inside))"
    by (intro go [OF _ own]) simp_all
  note m = lock_mutual_exclusion [OF r, of 1]
  let ?pc = "(\<lambda>_ :: nat. Outside)(0 := Spin, 1 := Taken, 1 := Inside)"
  have p: "?pc 1 = Inside" "?pc 0 = Spin" by simp_all
  from m p(1) have "holding (?lk\<lparr>lk_cpu := Some 1\<rparr>) 1 \<and> (\<forall>d. ?pc d = Inside \<longrightarrow> d = 1)" by (elim conjE) (rule mp)
  with r p show ?thesis by (intro exI [of _ "?lk\<lparr>lk_cpu := Some 1\<rparr>"] exI [of _ ?pc] conjI) (assumption | elim conjE)+
qed

end
