(* ===== verification/ShellParse.thy ===== *)
theory ShellParse
  imports Prelude
begin

text \<open>
  The parser of the shell (\<open>shell/parsing.c\<close>, \<open>utils.c\<close>, \<open>createcmd.c\<close>, \<open>freecmd.c\<close>, \<open>types.h\<close>). The
  line is in a buffer of bytes with its NUL; a pointer is an offset in the buffer. The allocated
  tokens are their texts. \<open>None\<close> is undefined behaviour: an access outside an array or the use of
  a null pointer. The environment variables and the status of the last command are arguments.
\<close>

definition BUFLEN :: nat where "BUFLEN = 1024"
definition MAXARGS :: nat where "MAXARGS = 20"
definition ARGSIZE :: nat where "ARGSIZE = 1024"
definition FNAMESIZE :: nat where "FNAMESIZE = 1024"

abbreviation SPACE :: char where "SPACE \<equiv> CHR '' ''"

subsection \<open>Commands\<close>

datatype cmd_type = EXEC | REDIR

record execcmd =
  etype :: cmd_type
  epid :: int
  escmd :: string
  argv :: "string list"
  eargv :: "string list"
  out_file :: string
  in_file :: string
  err_file :: string

text \<open>The left command of a pipe can be the null pointer.\<close>

datatype cmd = ExecCmd execcmd | BackCmd int string cmd | PipeCmd int string "cmd option" cmd

definition exec_cmd_create :: "string \<Rightarrow> execcmd option" where
  "exec_cmd_create buf_cmd =
     (if length buf_cmd < BUFLEN
      then Some \<lparr>etype = EXEC, epid = 0, escmd = buf_cmd, argv = [], eargv = [],
        out_file = [], in_file = [], err_file = []\<rparr>
      else None)"

fun cmd_scmd :: "cmd \<Rightarrow> string" where
  "cmd_scmd (ExecCmd e) = escmd e"
| "cmd_scmd (BackCmd pid s c) = s"
| "cmd_scmd (PipeCmd pid s l r) = s"

definition back_cmd_create :: "cmd \<Rightarrow> cmd" where
  "back_cmd_create c = BackCmd 0 (cmd_scmd c) c"

definition pipe_cmd_create :: "cmd option \<Rightarrow> cmd option \<Rightarrow> cmd option" where
  "pipe_cmd_create left right =
     (case right of None \<Rightarrow> left | Some r \<Rightarrow> Some (PipeCmd 0 [] left r))"

subsection \<open>Lines\<close>

text \<open>The first offset from \<open>p\<close> on whose byte fails the test; \<open>None\<close> when the scan leaves the buffer.\<close>

fun scan_list :: "(char \<Rightarrow> bool) \<Rightarrow> cmem \<Rightarrow> nat option" where
  "scan_list f [] = None"
| "scan_list f (c # cs) = (if f c then map_option Suc (scan_list f cs) else Some 0)"

definition scan :: "(char \<Rightarrow> bool) \<Rightarrow> cmem \<Rightarrow> nat \<Rightarrow> nat option" where
  "scan f b p = map_option (\<lambda>n. p + n) (scan_list f (drop p b))"

definition split_line :: "cmem \<Rightarrow> nat \<Rightarrow> char \<Rightarrow> (cmem \<times> nat) option" where
  "split_line b p splitter = do {
     i \<leftarrow> scan (\<lambda>c. c \<noteq> splitter \<and> c \<noteq> NUL) b p;
     let b = b[i := NUL];
     j \<leftarrow> scan (\<lambda>c. c = SPACE) b (i + 1);
     Some (b, j)
   }"

definition block_contains :: "string \<Rightarrow> char \<Rightarrow> int" where
  "block_contains s c = (case strchr_idx s c of None \<Rightarrow> - 1 | Some i \<Rightarrow> int i)"

subsection \<open>Tokens\<close>

text \<open>
  \<open>a[i++] = x\<close> for an array of \<open>n\<close> elements whose first \<open>i\<close> are \<open>xs\<close>. The parser has no test of \<open>i\<close>: the
  twenty-first argument (\<open>parsing.c:155\<close>), the null pointer after twenty (line 159) and the
  twenty-first \<open>KEY=VALUE\<close> (line 80) are written past the array, which is undefined.
\<close>

definition array_store :: "nat \<Rightarrow> 'a list \<Rightarrow> 'a \<Rightarrow> 'a list option" where
  "array_store n xs x = (if length xs < n then Some (xs @ [x]) else None)"

text \<open>The token at the start of a text; its array has room for its NUL.\<close>

definition get_token :: "string \<Rightarrow> string option" where
  "get_token s =
     (let tok = takeWhile (\<lambda>c. c \<noteq> SPACE) s in if length tok < ARGSIZE then Some tok else None)"

text \<open>
  The result says whether the token was a redirection. The file names fit: a token is shorter
  than \<open>FNAMESIZE\<close>.
\<close>

definition parse_redir_flow :: "execcmd \<Rightarrow> string \<Rightarrow> execcmd \<times> bool" where
  "parse_redir_flow c arg =
     (let outIdx = block_contains arg (CHR ''>''); inIdx = block_contains arg (CHR ''<'') in
      if outIdx \<ge> 0 then
        ((if outIdx = 0 then c\<lparr>out_file := drop 1 arg\<rparr>
          else if outIdx = 1 then c\<lparr>err_file := drop 2 arg\<rparr>
          else c)\<lparr>etype := REDIR\<rparr>, True)
      else if inIdx \<ge> 0 then (c\<lparr>in_file := drop 1 arg, etype := REDIR\<rparr>, True)
      else (c, False))"

definition parse_environ_var :: "execcmd \<Rightarrow> string \<Rightarrow> (execcmd \<times> bool) option" where
  "parse_environ_var c arg =
     (if block_contains arg (CHR ''='') > 0 \<and> block_contains arg (CHR ''-'') < 0 then do {
        vars \<leftarrow> array_store MAXARGS (eargv c) arg;
        Some (c\<lparr>eargv := vars\<rparr>, True)
      } else Some (c, False))"

text \<open>The decimal text of \<open>\<open>%i\<close>\<close>.\<close>

fun nat_text :: "nat \<Rightarrow> string" where
  "nat_text n = (if n < 10 then [] else nat_text (n div 10)) @ [char_of (48 + n mod 10)]"

declare nat_text.simps [simp del]

definition int_text :: "int \<Rightarrow> string" where
  "int_text v = (if v < 0 then CHR ''-'' # nat_text (nat (- v)) else nat_text (nat v))"

definition expand_environ_var :: "(string \<Rightarrow> string option) \<Rightarrow> int \<Rightarrow> string \<Rightarrow> string" where
  "expand_environ_var env status arg =
     (if arg = [] \<or> hd arg \<noteq> CHR ''$'' \<or> length arg = 1 then arg
      else if arg = ''$?'' then int_text status
      else case env (tl arg) of None \<Rightarrow> [] | Some value \<Rightarrow> value)"

subsection \<open>Commands without pipes\<close>

text \<open>What one token adds to a command.\<close>

definition parse_token ::
  "(string \<Rightarrow> string option) \<Rightarrow> int \<Rightarrow> execcmd \<Rightarrow> string \<Rightarrow> execcmd option" where
  "parse_token env status c tok =
     (case parse_redir_flow c tok of
        (c, True) \<Rightarrow> Some c
      | (c, False) \<Rightarrow> do {
          (c, found) \<leftarrow> parse_environ_var c tok;
          if found then Some c
          else do {
            let tok = expand_environ_var env status tok;
            if length tok > 0 then do {
              args \<leftarrow> array_store MAXARGS (argv c) tok;
              Some (c\<lparr>argv := args\<rparr>)
            } else Some c
          }
        })"

function parse_args ::
  "(string \<Rightarrow> string option) \<Rightarrow> int \<Rightarrow> execcmd \<Rightarrow> string \<Rightarrow> execcmd option" where
  "parse_args env status c s =
     (if s = [] then Some c
      else do {
        tok \<leftarrow> get_token s;
        c \<leftarrow> parse_token env status c tok;
        parse_args env status c (drop (length tok + 1) s)
      })"
  by pat_completeness auto

termination parse_args
  by (relation "measure (\<lambda>(env, status, c, s). length s)") auto

declare parse_args.simps [simp del]

text \<open>The array of the arguments ends with a null pointer.\<close>

definition parse_exec :: "(string \<Rightarrow> string option) \<Rightarrow> int \<Rightarrow> string \<Rightarrow> cmd option" where
  "parse_exec env status buf_cmd = do {
     c \<leftarrow> exec_cmd_create buf_cmd;
     c \<leftarrow> parse_args env status c buf_cmd;
     _ \<leftarrow> array_store MAXARGS (map Some (argv c)) None;
     Some (ExecCmd c)
   }"

definition parse_back :: "(string \<Rightarrow> string option) \<Rightarrow> int \<Rightarrow> string \<Rightarrow> cmd option" where
  "parse_back env status buf_cmd =
     map_option back_cmd_create (parse_exec env status (takeWhile (\<lambda>c. c \<noteq> CHR ''&'') buf_cmd))"

text \<open>The byte before an ampersand is read also when the ampersand comes first.\<close>

definition parse_cmd :: "(string \<Rightarrow> string option) \<Rightarrow> int \<Rightarrow> cmem \<Rightarrow> nat \<Rightarrow> cmd option option" where
  "parse_cmd env status b p = do {
     buf_cmd \<leftarrow> c_string (drop p b);
     if length buf_cmd = 0 then Some None
     else case strchr_idx buf_cmd (CHR ''&'') of
       None \<Rightarrow> map_option Some (parse_exec env status buf_cmd)
     | Some idx \<Rightarrow>
         if p + idx = 0 then None
         else if b ! (p + idx - 1) \<noteq> CHR ''>'' then map_option Some (parse_back env status buf_cmd)
         else map_option Some (parse_exec env status buf_cmd)
   }"

subsection \<open>Pipes\<close>

lemma scan_gt: "scan f b p = Some i \<Longrightarrow> p \<le> i \<and> i < length b"
proof -
  have "scan_list f xs = Some n \<Longrightarrow> n < length xs" for xs n
    by (induction xs arbitrary: n) (auto split: if_splits)
  then show "scan f b p = Some i \<Longrightarrow> p \<le> i \<and> i < length b" by (force simp: scan_def)
qed

lemma split_line_gt: "split_line b p c = Some (b', q) \<Longrightarrow> p < q \<and> q < length b' \<and> length b' = length b"
  by (auto simp: split_line_def Let_def split: Option.bind_splits dest!: scan_gt)

function parse_line :: "(string \<Rightarrow> string option) \<Rightarrow> int \<Rightarrow> cmem \<Rightarrow> nat \<Rightarrow> cmd option option" where
  "parse_line env status b p = do {
     (b, right) \<leftarrow> split_line b p (CHR ''|'');
     rest \<leftarrow> c_string (drop right b);
     r \<leftarrow> (if block_contains rest (CHR ''|'') < 0 then parse_cmd env status b right
           else parse_line env status b right);
     l \<leftarrow> parse_cmd env status b p;
     Some (pipe_cmd_create l r)
   }"
  by pat_completeness auto

termination parse_line
  by (relation "measure (\<lambda>(env, status, b, p). length b - p)") (auto dest: split_line_gt)

declare parse_line.simps [simp del]

subsection \<open>Freeing a command\<close>

text \<open>The tokens that are freed; a null pointer in the tree is dereferenced.\<close>

fun free_command :: "cmd option \<Rightarrow> string list option" where
  "free_command None = None"
| "free_command (Some (PipeCmd pid s l r)) = do {
     a \<leftarrow> free_command l;
     b \<leftarrow> free_command (Some r);
     Some (a @ b)
   }"
| "free_command (Some (BackCmd pid s c)) = free_command (Some c)"
| "free_command (Some (ExecCmd e)) = Some (argv e @ eargv e)"

end
