(* ===== verification/ShellExec.thy ===== *)
theory ShellExec
  imports ShellParse
begin

unbundle bit_operations_syntax

text \<open>
  The execution of commands (\<open>shell/exec.c\<close>). A process is its table of file descriptors and
  its environment. What the operating system decides is a record of answers: which files can be
  opened, which programs can be executed, and whether the pipe and the two forks of a pipeline
  succeed. Executing a command gives the processes it ends in, from left to right: the programs
  that take over a process, with what they inherit, the exits of the others, and the crashes.
\<close>

subsection \<open>File descriptors\<close>

datatype access = ReadOnly | WriteTrunc

datatype fobj = Tty nat | File string access | PipeRead nat | PipeWrite nat

type_synonym fds = "fobj option list"

definition fd_get :: "fds \<Rightarrow> nat \<Rightarrow> fobj option" where
  "fd_get t n = (if n < length t then t ! n else None)"

definition fd_set :: "fds \<Rightarrow> nat \<Rightarrow> fobj option \<Rightarrow> fds" where
  "fd_set t n x = (if n < length t then t[n := x] else t @ replicate (n - length t) None @ [x])"

text \<open>A new descriptor is the lowest free one.\<close>

fun lowest_free :: "fds \<Rightarrow> nat" where
  "lowest_free [] = 0"
| "lowest_free (x # t) = (if x = None then 0 else Suc (lowest_free t))"

definition fd_new :: "fds \<Rightarrow> fobj \<Rightarrow> fds \<times> nat" where
  "fd_new t x = (let n = lowest_free t in (fd_set t n (Some x), n))"

definition fd_close :: "fds \<Rightarrow> nat \<Rightarrow> fds" where
  "fd_close t n = (if n < length t then t[n := None] else t)"

text \<open>The result of \<open>dup2\<close> is \<open>None\<close> for a descriptor that is not open.\<close>

definition dup2 :: "fds \<Rightarrow> nat \<Rightarrow> nat \<Rightarrow> fds option" where
  "dup2 t old new = map_option (\<lambda>x. fd_set t new (Some x)) (fd_get t old)"

record os =
  can_open :: "string \<Rightarrow> access \<Rightarrow> bool"
  can_exec :: "string \<Rightarrow> bool"
  pipe_ok :: "nat \<Rightarrow> bool"
  fork_left :: "nat \<Rightarrow> bool"
  fork_right :: "nat \<Rightarrow> bool"

subsection \<open>Environment variables\<close>

definition get_environ_key :: "string \<Rightarrow> string" where
  "get_environ_key arg = takeWhile (\<lambda>c. c \<noteq> CHR ''='') arg"

definition get_environ_value :: "string \<Rightarrow> nat \<Rightarrow> string" where
  "get_environ_value arg idx = drop (idx + 1) arg"

definition set_environ_var :: "string \<Rightarrow> (string \<rightharpoonup> string) \<Rightarrow> (string \<rightharpoonup> string) option" where
  "set_environ_var arg env =
     (let equal_index = block_contains arg (CHR ''='') in
      if equal_index \<ge> 0 then
        (let key = get_environ_key arg; val = get_environ_value arg (nat equal_index)
         in if length key < BUFLEN \<and> length val < BUFLEN then Some (env(key \<mapsto> val)) else None)
      else Some env)"

fun set_environ_vars :: "string list \<Rightarrow> (string \<rightharpoonup> string) \<Rightarrow> (string \<rightharpoonup> string) option" where
  "set_environ_vars [] env = Some env"
| "set_environ_vars (arg # args) env = do { env \<leftarrow> set_environ_var arg env; set_environ_vars args env }"

subsection \<open>Redirections\<close>

text \<open>\<open>Inl\<close>: the process exits.\<close>

definition open_redir_fd :: "os \<Rightarrow> fds \<Rightarrow> string \<Rightarrow> access \<Rightarrow> unit + fds \<times> nat" where
  "open_redir_fd w t name a = (if can_open w name a then Inr (fd_new t (File name a)) else Inl ())"

definition redirect_to :: "os \<Rightarrow> fds \<Rightarrow> string \<Rightarrow> access \<Rightarrow> nat \<Rightarrow> unit + fds" where
  "redirect_to w t name a n =
     (case open_redir_fd w t name a of
        Inl u \<Rightarrow> Inl u
      | Inr (t, fd) \<Rightarrow> (case dup2 t fd n of None \<Rightarrow> Inl () | Some t \<Rightarrow> Inr (fd_close t fd)))"

definition redirect_stdin :: "os \<Rightarrow> fds \<Rightarrow> string \<Rightarrow> unit + fds" where
  "redirect_stdin w t name = (if length name > 0 then redirect_to w t name ReadOnly 0 else Inr t)"

definition redirect_stdout :: "os \<Rightarrow> fds \<Rightarrow> string \<Rightarrow> unit + fds" where
  "redirect_stdout w t name = (if length name > 0 then redirect_to w t name WriteTrunc 1 else Inr t)"

definition redirect_stderr :: "os \<Rightarrow> fds \<Rightarrow> string \<Rightarrow> unit + fds" where
  "redirect_stderr w t name =
     (if length name > 0 then
        (if name = ''&1'' then (case dup2 t 1 2 of None \<Rightarrow> Inl () | Some t \<Rightarrow> Inr t)
         else redirect_to w t name WriteTrunc 2)
      else Inr t)"

definition redirect_all :: "os \<Rightarrow> fds \<Rightarrow> execcmd \<Rightarrow> unit + fds" where
  "redirect_all w t r =
     (case redirect_stdin w t (in_file r) of Inl u \<Rightarrow> Inl u
      | Inr t \<Rightarrow> (case redirect_stdout w t (out_file r) of Inl u \<Rightarrow> Inl u
                | Inr t \<Rightarrow> redirect_stderr w t (err_file r)))"

subsection \<open>Running commands\<close>

datatype ending = Program "string list" "string \<rightharpoonup> string" fds | Exit int | Crash

text \<open>The memory of \<open>argv\<close> past its arguments is the null pointer that ends it.\<close>

definition run_exec :: "os \<Rightarrow> (string \<rightharpoonup> string) \<Rightarrow> fds \<Rightarrow> execcmd \<Rightarrow> ending" where
  "run_exec w env t e =
     (case set_environ_vars (eargv e) env of
        None \<Rightarrow> Crash
      | Some env \<Rightarrow> (case argv e of
          [] \<Rightarrow> Exit 0
        | prog # _ \<Rightarrow> if can_exec w prog then Program (argv e) env t else Exit (- 1)))"

text \<open>
  \<open>n\<close> is the number of the next pipe; \<open>left\<close> and \<open>right\<close> are what the two new processes run. The
  result says whether the process that made the pipe is still there: it closes its ends and
  waits for both sides.
\<close>

definition run_pipe ::
  "os \<Rightarrow> fds \<Rightarrow> nat \<Rightarrow> (fds \<Rightarrow> nat \<Rightarrow> ending list \<times> nat) \<Rightarrow> (fds \<Rightarrow> nat \<Rightarrow> ending list \<times> nat) \<Rightarrow>
     ending list \<times> nat \<times> bool" where
  "run_pipe w t n left right =
     (if \<not> pipe_ok w n then ([Exit (- 1)], n, False)
      else
        let (t1, rd) = fd_new t (PipeRead n); (t2, wr) = fd_new t1 (PipeWrite n) in
        if \<not> fork_left w n then ([Exit (- 1)], Suc n, False)
        else
          let lt = fd_close t2 rd;
              (le, m) = (case dup2 lt wr 1 of
                 None \<Rightarrow> ([Exit (- 1)], Suc n)
               | Some lt \<Rightarrow> left (fd_close lt wr) (Suc n))
          in if \<not> fork_right w n then (le @ [Exit (- 1)], m, False)
             else
               let rt = fd_close t2 wr;
                   (re, m) = (case dup2 rt rd 0 of
                      None \<Rightarrow> ([Exit (- 1)], m)
                    | Some rt \<Rightarrow> right (fd_close rt rd) m)
               in (le @ re, m, True))"

text \<open>
  The process that ran a pipe frees the whole command \<open>whole\<close> that the shell parsed and exits; its
  ending comes last. A null pointer in the tree is a crash.
\<close>

definition pipe_done :: "cmd option \<Rightarrow> ending" where
  "pipe_done whole = (case free_command whole of None \<Rightarrow> Crash | Some toks \<Rightarrow> Exit 0)"

fun exec_cmd ::
  "os \<Rightarrow> cmd option \<Rightarrow> (string \<rightharpoonup> string) \<Rightarrow> fds \<Rightarrow> nat \<Rightarrow> cmd option \<Rightarrow> ending list \<times> nat" where
  "exec_cmd w whole env t n None = ([Crash], n)"
| "exec_cmd w whole env t n (Some (ExecCmd e)) =
     (case (if etype e = REDIR then redirect_all w t e else Inr t) of
        Inl u \<Rightarrow> ([Exit (- 1)], n)
      | Inr t \<Rightarrow> ([run_exec w env t e], n))"
| "exec_cmd w whole env t n (Some (BackCmd pid s c)) = exec_cmd w whole env t n (Some c)"
| "exec_cmd w whole env t n (Some (PipeCmd pid s l r)) =
     (case run_pipe w t n (\<lambda>t n. exec_cmd w whole env t n l) (\<lambda>t n. exec_cmd w whole env t n (Some r)) of
        (es, m, alive) \<Rightarrow> (es @ (if alive then [pipe_done whole] else []), m))"

end
