(* ===== verification/ShellRun.thy ===== *)
theory ShellRun
  imports ShellExec
begin

unbundle bit_operations_syntax

text \<open>
  The loop of the shell (\<open>shell/sh.c\<close>, \<open>runcmd.c\<close>, \<open>builtin.c\<close>, \<open>readline.c\<close>,
  \<open>printstatus.c\<close>). The state is the environment, the working directory, the prompt and the
  status of the last command; what the shell does is a list of actions. The answers of the
  operating system are those of \<open>os\<close> with the results of \<open>chdir\<close>, of \<open>fork\<close> (the number of
  the new process) and of \<open>waitpid\<close>. Signals are not modelled. \<open>None\<close> is a crash of the shell.
\<close>

definition PRMTLEN :: nat where "PRMTLEN = 1024"

record shell_os = os +
  chdir :: "string \<Rightarrow> string \<Rightarrow> string option"
  fork_pid :: int
  wait_status :: "ending list \<Rightarrow> 32 word"

record shell =
  sh_env :: "string \<rightharpoonup> string"
  cwd :: string
  prompt :: string
  status :: int

datatype action = Say string | Run "ending list" | StatusInfo string string int | BackInfo int

subsection \<open>Reading a line\<close>

text \<open>\<open>True\<close>: the input ended before the line did.\<close>

fun read_chars :: "cmem \<Rightarrow> nat \<Rightarrow> string \<Rightarrow> (cmem \<times> nat \<times> bool \<times> string) option" where
  "read_chars b i [] = Some (b, i, True, [])"
| "read_chars b i (c # input) =
     (if c = NL then Some (b, i, False, input)
      else if i < length b then read_chars (b[i := c]) (i + 1) input
      else None)"

definition read_line :: "string \<Rightarrow> (cmem option \<times> string) option" where
  "read_line input = do {
     (b, i, eof, rest) \<leftarrow> read_chars (replicate BUFLEN NUL) 0 input;
     if eof then Some (None, rest)
     else if i < length b then Some (Some (b[i := NUL]), rest)
     else None
   }"

subsection \<open>Built-in commands\<close>

definition exit_shell :: "string \<Rightarrow> bool" where "exit_shell cmd \<longleftrightarrow> cmd = ''exit''"

definition is_whitespace :: "char \<Rightarrow> bool" where
  "is_whitespace c \<longleftrightarrow> c = SPACE \<or> c = CHR 0x09 \<or> c = NL"

text \<open>The buffer, the offset of the trimmed text and the text.\<close>

definition trim_whitespaces :: "cmem \<Rightarrow> (cmem \<times> nat \<times> string) option" where
  "trim_whitespaces b = do {
     s \<leftarrow> c_string b;
     let lead = length (takeWhile is_whitespace s);
     let core = rev (dropWhile is_whitespace (rev (drop lead s)));
     Some (b[lead + length core := NUL], lead, core)
   }"

fun strstr :: "string \<Rightarrow> string \<Rightarrow> bool" where
  "strstr s pat \<longleftrightarrow> take (length pat) s = pat \<or> (case s of [] \<Rightarrow> False | _ # s \<Rightarrow> strstr s pat)"

declare strstr.simps [simp del]

definition set_prompt :: "string \<Rightarrow> shell \<Rightarrow> shell" where
  "set_prompt dir st = st\<lparr>prompt := take (PRMTLEN - 1) (''('' @ dir @ '')'')\<rparr>"

text \<open>\<open>True\<close>: the line was a \<open>cd\<close>. The buffer is trimmed in any case once the letters occur in it.\<close>

definition cd :: "shell_os \<Rightarrow> shell \<Rightarrow> cmem \<Rightarrow> (bool \<times> shell \<times> cmem \<times> action list) option" where
  "cd w st b = do {
     s \<leftarrow> c_string b;
     if \<not> strstr s ''cd'' then Some (False, st, b, [])
     else do {
       (b, lead, cmd) \<leftarrow> trim_whitespaces b;
       if cmd = ''cd'' then
         (case sh_env st ''HOME'' of
            None \<Rightarrow> Some (True, st, b, [Say ''Error changing to HOME''])
          | Some home \<Rightarrow> (case chdir w (cwd st) home of
              None \<Rightarrow> Some (True, st, b, [Say ''Error changing to HOME''])
            | Some d \<Rightarrow> Some (True, set_prompt home (st\<lparr>cwd := d\<rparr>), b, [])))
       else if take 3 cmd \<noteq> ''cd '' then Some (False, st, b, [])
       else do {
         let directory = takeWhile (\<lambda>c. c \<noteq> SPACE) (dropWhile (\<lambda>c. c = SPACE) (drop 3 cmd));
         if directory = [] then None
         else case (if hd directory = CHR ''$'' then sh_env st (tl directory) else Some directory) of
           None \<Rightarrow> Some (True, st, b, [])
         | Some directory \<Rightarrow> (case chdir w (cwd st) directory of
             None \<Rightarrow> Some (True, st, b, [Say (''Error changing to '' @ directory @ [NL])])
           | Some d \<Rightarrow> Some (True, set_prompt d (st\<lparr>cwd := d\<rparr>), b, []))
       }
     }
   }"

definition pwd :: "shell \<Rightarrow> string \<Rightarrow> action list option" where
  "pwd st cmd = (if cmd \<noteq> ''pwd'' then None else Some [Say (cwd st @ [NL])])"

subsection \<open>The status of a command\<close>

definition is_pipe :: "cmd \<Rightarrow> bool" where "is_pipe c = (case c of PipeCmd _ _ _ _ \<Rightarrow> True | _ \<Rightarrow> False)"
definition is_back :: "cmd \<Rightarrow> bool" where "is_back c = (case c of BackCmd _ _ _ \<Rightarrow> True | _ \<Rightarrow> False)"

definition WTERMSIG :: "32 word \<Rightarrow> 32 word" where "WTERMSIG st = st AND 0x7F"
definition WEXITSTATUS :: "32 word \<Rightarrow> 32 word" where "WEXITSTATUS st = drop_bit 8 st AND 0xFF"

text \<open>The status as the shell keeps it, and what it prints.\<close>

definition print_status_info :: "32 word \<Rightarrow> cmd \<Rightarrow> int \<times> action list" where
  "print_status_info st c =
     (if cmd_scmd c = [] \<or> is_pipe c then (sint st, [])
      else if WTERMSIG st = 0 then
        (sint (WEXITSTATUS st), [StatusInfo (cmd_scmd c) ''exited'' (sint (WEXITSTATUS st))])
      else if WTERMSIG st \<noteq> 0x7F then
        (- sint (WTERMSIG st), [StatusInfo (cmd_scmd c) ''killed'' (- sint (WTERMSIG st))])
      else (- sint (WEXITSTATUS st), [StatusInfo (cmd_scmd c) ''stopped'' (- sint (WEXITSTATUS st))]))"

subsection \<open>One line\<close>

datatype outcome = Continue | ExitShell


text \<open>The standard descriptors of the shell.\<close>

definition std_fds :: fds where "std_fds = [Some (Tty 0), Some (Tty 1), Some (Tty 2)]"

definition run_cmd :: "shell_os \<Rightarrow> shell \<Rightarrow> cmem \<Rightarrow> (outcome \<times> shell \<times> action list) option" where
  "run_cmd w st b =
     (if b ! 0 = NUL then Some (Continue, st, [])
      else do {
        (done, st, b, acts) \<leftarrow> cd w st b;
        if done then Some (Continue, st, acts)
        else do {
          cmd \<leftarrow> c_string b;
          if exit_shell cmd then Some (ExitShell, st, [])
          else case pwd st cmd of Some acts \<Rightarrow> Some (Continue, st, acts)
          | None \<Rightarrow> do {
              parsed \<leftarrow> parse_line (sh_env st) (status st) b 0;
              c \<leftarrow> parsed;
              let whole = (if is_pipe c then Some c else None);
              let ends = fst (exec_cmd (os.truncate w) whole (sh_env st) std_fds 0 (Some c));
              let (st, acts) = (if is_back c then (st, [BackInfo (fork_pid w)])
                 else let (s, acts) = print_status_info (wait_status w ends) c in (st\<lparr>status := s\<rparr>, acts));
              _ \<leftarrow> free_command (Some c);
              Some (Continue, st, Run ends # acts)
            }
        }
      })"

subsection \<open>The shell\<close>

lemma read_chars_shorter: "read_chars b i input = Some (b', j, eof, rest) \<Longrightarrow> \<not> eof \<Longrightarrow> length rest < length input"
  by (induction b i input rule: read_chars.induct) (auto split: if_splits)

lemma read_line_shorter: "read_line input = Some (Some b, rest) \<Longrightarrow> length rest < length input"
  by (auto simp: read_line_def split: Option.bind_splits if_splits dest!: read_chars_shorter)

function run_shell :: "shell_os \<Rightarrow> shell \<Rightarrow> string \<Rightarrow> (shell \<times> action list) option" where
  "run_shell w st input = do {
     (line, rest) \<leftarrow> read_line input;
     case line of
       None \<Rightarrow> Some (st, [])
     | Some b \<Rightarrow> do {
         (out, st, acts) \<leftarrow> run_cmd w st b;
         case out of
           ExitShell \<Rightarrow> Some (st, acts)
         | Continue \<Rightarrow> map_option (\<lambda>(st, acts'). (st, acts @ acts')) (run_shell w st rest)
       }
   }"
  by pat_completeness auto

termination run_shell
  by (relation "measure (\<lambda>(w, st, input). length input)") (auto dest: read_line_shorter)

declare run_shell.simps [simp del]

definition init_shell :: "shell_os \<Rightarrow> shell \<Rightarrow> shell \<times> action list" where
  "init_shell w st =
     (case sh_env st ''HOME'' of
        None \<Rightarrow> (st, [Say ''cannot cd to (null) ''])
      | Some home \<Rightarrow> (case chdir w (cwd st) home of
          None \<Rightarrow> (st, [Say (take (BUFLEN - 1) (''cannot cd to '' @ home @ '' ''))])
        | Some d \<Rightarrow> (set_prompt home (st\<lparr>cwd := d\<rparr>), [])))"

definition main :: "shell_os \<Rightarrow> shell \<Rightarrow> string \<Rightarrow> (shell \<times> action list) option" where
  "main w st input =
     (let (st, acts) = init_shell w st
      in map_option (\<lambda>(st, acts'). (st, acts @ acts')) (run_shell w st input))"

end
