(* ===== verification/ShellProps.thy ===== *)
theory ShellProps
  imports ShellRun
begin

text \<open>
  The properties of the shell: a printed pipeline is parsed back to its commands, every parsed
  command is well-formed, the programs of a pipeline are wired to each other and to nothing
  else, and the lines that crash the shell.
\<close>

subsection \<open>Scanning\<close>

lemma scan_list_stop:
  assumes "list_all f xs" and "\<not> f y"
  shows "scan_list f (xs @ y # ys) = Some (length xs)"
  using assms by (induction xs) auto

lemma scan_stop:
  assumes "list_all f xs" and "\<not> f y"
  shows "scan f (pre @ xs @ y # ys) (length pre) = Some (length pre + length xs)"
  by (simp add: scan_def scan_list_stop [OF assms])

lemma block_contains_neg: "block_contains s c < 0 \<longleftrightarrow> c \<notin> set s"
  by (auto simp: block_contains_def strchr_idx_None_iff [symmetric] split: option.splits)

lemma block_contains_nonneg: "0 \<le> block_contains s c \<longleftrightarrow> c \<in> set s"
  using block_contains_neg [of s c] by linarith

subsection \<open>Printed lines\<close>

text \<open>Words without characters that mean something to the parser.\<close>

definition plain_char :: "char \<Rightarrow> bool" where
  "plain_char c \<longleftrightarrow> c \<notin> {NUL, NL, SPACE, CHR ''|'', CHR ''&'', CHR ''<'', CHR ''>'', CHR ''='', CHR ''$''}"

definition plain_word :: "string \<Rightarrow> bool" where "plain_word w \<longleftrightarrow> w \<noteq> [] \<and> list_all plain_char w"

definition plain_stage :: "string list \<Rightarrow> bool" where
  "plain_stage ws \<longleftrightarrow> ws \<noteq> [] \<and> list_all plain_word ws \<and> length ws < MAXARGS"

fun show_stage :: "string list \<Rightarrow> string" where
  "show_stage [] = []"
| "show_stage [w] = w"
| "show_stage (w # ws) = w @ SPACE # show_stage ws"

fun show_line :: "string list list \<Rightarrow> string" where
  "show_line [] = []"
| "show_line [ws] = show_stage ws"
| "show_line (ws # ss) = show_stage ws @ '' | '' @ show_line ss"

definition simple_cmd :: "string \<Rightarrow> string list \<Rightarrow> cmd" where
  "simple_cmd s ws = ExecCmd \<lparr>etype = EXEC, epid = 0, escmd = s, argv = ws, eargv = [],
     out_file = [], in_file = [], err_file = []\<rparr>"

fun pipeline :: "string list list \<Rightarrow> cmd" where
  "pipeline [] = simple_cmd [] []"
| "pipeline [ws] = simple_cmd (show_stage ws) ws"
| "pipeline (ws # ss) = PipeCmd 0 [] (Some (simple_cmd (show_stage ws @ [SPACE]) ws)) (pipeline ss)"

lemma parse_token_plain:
  assumes "plain_word w" and "length (argv c) < MAXARGS"
  shows "parse_token env st c w = Some (c\<lparr>argv := argv c @ [w]\<rparr>)"
proof -
  have no: "CHR ''>'' \<notin> set w" "CHR ''<'' \<notin> set w" "CHR ''='' \<notin> set w" "CHR ''$'' \<notin> set w" "w \<noteq> []"
    using assms(1) by (auto simp: plain_word_def plain_char_def list_all_iff)
  then have "hd w \<noteq> CHR ''$''" by (cases w) auto
  then show ?thesis
    using no assms(2) block_contains_neg [of w] block_contains_nonneg [of w]
    by (auto simp: parse_token_def parse_redir_flow_def parse_environ_var_def expand_environ_var_def not_le array_store_def
        dest: less_imp_not_less)
qed

lemma get_token_plain:
  assumes "plain_word w" and "length w < ARGSIZE"
  shows "get_token w = Some w" and "get_token (w @ SPACE # s) = Some w"
proof -
  have "\<forall>c\<in>set w. c \<noteq> SPACE" using assms(1) by (auto simp: plain_word_def plain_char_def list_all_iff)
  then have "takeWhile (\<lambda>c. c \<noteq> SPACE) w = w" "takeWhile (\<lambda>c. c \<noteq> SPACE) (w @ SPACE # s) = w"
    by (simp_all add: takeWhile_append2 takeWhile_eq_all_conv)
  then show "get_token w = Some w" "get_token (w @ SPACE # s) = Some w"
    using assms(2) unfolding get_token_def Let_def by (simp_all only: if_True)
qed

lemma parse_token_empty: "parse_token env st c [] = Some c"
  by (simp add: parse_token_def parse_redir_flow_def parse_environ_var_def expand_environ_var_def block_contains_def)

lemma parse_args_nil: "parse_args env st c [] = Some c"
  by (subst parse_args.simps) simp

lemma parse_args_stage:
  assumes "list_all plain_word ws" and "length (argv c) + length ws \<le> MAXARGS" and "length (show_stage ws) < ARGSIZE"
    and "sp = [] \<or> sp = [SPACE]"
  shows "parse_args env st c (show_stage ws @ sp) = Some (c\<lparr>argv := argv c @ ws\<rparr>)"
  using assms(1-3)
proof (induction ws arbitrary: c rule: show_stage.induct)
  case 1
  have "parse_args env st c [SPACE] = Some c"
    by (subst parse_args.simps) (simp add: get_token_def ARGSIZE_def parse_token_empty parse_args_nil)
  then show ?case using assms(4) by (auto simp: parse_args_nil)
next
  case (2 w)
  then have w: "plain_word w" "length w < ARGSIZE" "w \<noteq> []" by (auto simp: plain_word_def)
  show ?case
    using assms(4) w get_token_plain [OF w(1,2)] parse_token_plain [OF w(1), of c env st] 2
    by (subst parse_args.simps) (auto simp: parse_args_nil)
next
  case (3 w v ws)
  let ?c = "c\<lparr>argv := argv c @ [w]\<rparr>"
  from 3 have w: "plain_word w" "length w < ARGSIZE" by auto
  have "parse_args env st c (show_stage (w # v # ws) @ sp) = parse_args env st ?c (show_stage (v # ws) @ sp)"
    using get_token_plain(2) [OF w] parse_token_plain [OF w(1), of c env st] "3.prems"
    by (subst parse_args.simps) simp
  also have "\<dots> = Some (?c\<lparr>argv := argv ?c @ v # ws\<rparr>)"
    using "3.prems" by (intro "3.IH") simp_all
  finally show ?case by simp
qed

lemma parse_exec_stage:
  assumes "plain_stage ws" and "sp = [] \<or> sp = [SPACE]" and "length (show_stage ws @ sp) < BUFLEN"
  shows "parse_exec env st (show_stage ws @ sp) = Some (simple_cmd (show_stage ws @ sp) ws)"
proof -
  let ?c = "\<lparr>etype = EXEC, epid = 0, escmd = show_stage ws @ sp, argv = [], eargv = [],
    out_file = [], in_file = [], err_file = []\<rparr>"
  have "parse_args env st ?c (show_stage ws @ sp) = Some (?c\<lparr>argv := argv ?c @ ws\<rparr>)"
    using assms by (intro parse_args_stage) (simp_all add: plain_stage_def BUFLEN_def ARGSIZE_def)
  then show ?thesis
    using assms(1,3) by (simp add: parse_exec_def exec_cmd_create_def plain_stage_def simple_cmd_def array_store_def)
qed

text \<open>With twenty or more arguments the parser writes past \<open>argv\<close>: no test stops it.\<close>

lemma parse_token_past_end:
  assumes "plain_word w" and "length (argv c) = MAXARGS"
  shows "parse_token env st c w = None"
proof -
  have no: "CHR ''>'' \<notin> set w" "CHR ''<'' \<notin> set w" "CHR ''='' \<notin> set w" "CHR ''$'' \<notin> set w" "w \<noteq> []"
    using assms(1) by (auto simp: plain_word_def plain_char_def list_all_iff)
  then have "hd w \<noteq> CHR ''$''" by (cases w) auto
  then show ?thesis
    using no assms(2) block_contains_neg [of w] block_contains_nonneg [of w]
    by (auto simp: parse_token_def parse_redir_flow_def parse_environ_var_def expand_environ_var_def not_le array_store_def
        dest: less_imp_not_less)
qed

lemma parse_args_past_end:
  assumes "list_all plain_word ws" and "length (argv c) \<le> MAXARGS" and "MAXARGS < length (argv c) + length ws"
    and "length (show_stage ws) < ARGSIZE"
  shows "parse_args env st c (show_stage ws) = None"
  using assms
proof (induction ws arbitrary: c rule: show_stage.induct)
  case (2 w)
  then have w: "plain_word w" "length w < ARGSIZE" "w \<noteq> []" by (auto simp: plain_word_def)
  moreover have "length (argv c) = MAXARGS" using 2 by simp
  ultimately show ?case
    using get_token_plain(1) [OF w(1,2)] parse_token_past_end [OF w(1)] by (subst parse_args.simps) simp
next
  case (3 w v ws)
  then have w: "plain_word w" "length w < ARGSIZE" by auto
  note tok = get_token_plain(2) [OF w]
  show ?case
  proof (cases "length (argv c) = MAXARGS")
    case True
    then show ?thesis using tok parse_token_past_end [OF w(1)] by (subst parse_args.simps) simp
  next
    case False
    then have room: "length (argv c) < MAXARGS" using "3.prems"(2) by simp
    let ?c = "c\<lparr>argv := argv c @ [w]\<rparr>"
    have "parse_args env st c (show_stage (w # v # ws)) = parse_args env st ?c (show_stage (v # ws))"
      using tok parse_token_plain [OF w(1) room, of env st] by (subst parse_args.simps) simp
    also have "\<dots> = None" using "3.prems" room by (intro "3.IH") simp_all
    finally show ?thesis .
  qed
qed simp

lemma too_many_arguments_undefined:
  assumes "list_all plain_word ws" and "MAXARGS \<le> length ws" and "length (show_stage ws) < BUFLEN"
  shows "parse_exec env st (show_stage ws) = None"
proof -
  let ?c = "\<lparr>etype = EXEC, epid = 0, escmd = show_stage ws, argv = [], eargv = [],
    out_file = [], in_file = [], err_file = []\<rparr>"
  show ?thesis
  proof (cases "length ws = MAXARGS")
    case True
    then have "parse_args env st ?c (show_stage ws @ []) = Some (?c\<lparr>argv := argv ?c @ ws\<rparr>)"
      using assms by (intro parse_args_stage) (simp_all add: BUFLEN_def ARGSIZE_def)
    then show ?thesis using True assms(3) by (simp add: parse_exec_def exec_cmd_create_def array_store_def)
  next
    case False
    then have "parse_args env st ?c (show_stage ws) = None"
      using assms by (intro parse_args_past_end) (simp_all add: BUFLEN_def ARGSIZE_def)
    then show ?thesis using assms(3) by (simp add: parse_exec_def exec_cmd_create_def)
  qed
qed

lemma show_stage_chars: "plain_stage ws \<Longrightarrow> c \<in> set (show_stage ws) \<Longrightarrow> plain_char c \<or> c = SPACE"
  unfolding plain_stage_def
  by (induction ws rule: show_stage.induct) (auto simp: plain_word_def list_all_iff)

lemma show_stage_nonempty: "plain_stage ws \<Longrightarrow> \<exists>c s. show_stage ws = c # s \<and> plain_char c"
  by (cases ws rule: show_stage.cases) (auto simp: plain_stage_def plain_word_def neq_Nil_conv)

lemma show_stage_scan:
  assumes "plain_stage ws"
  shows "list_all (\<lambda>c. c \<noteq> CHR ''|'' \<and> c \<noteq> NUL) (show_stage ws)"
  using show_stage_chars [OF assms] by (auto simp: list_all_iff plain_char_def)

lemma parse_cmd_stage:
  assumes "plain_stage ws" and "sp = [] \<or> sp = [SPACE]" and "length (show_stage ws @ sp) < BUFLEN"
  shows "parse_cmd env st (pre @ show_stage ws @ sp @ NUL # r) (length pre) =
     Some (Some (simple_cmd (show_stage ws @ sp) ws))"
proof -
  have chars: "plain_char c \<or> c = SPACE" if "c \<in> set (show_stage ws @ sp)" for c
    using that show_stage_chars [OF assms(1)] assms(2) by auto
  then have "NUL \<notin> set (show_stage ws @ sp)" "CHR ''&'' \<notin> set (show_stage ws @ sp)"
    by (auto simp: plain_char_def)
  moreover have "show_stage ws @ sp \<noteq> []" using show_stage_nonempty [OF assms(1)] by auto
  ultimately show ?thesis
    using parse_exec_stage [OF assms] c_string_append [of "show_stage ws @ sp" r]
      strchr_idx_None_iff [of "show_stage ws @ sp" "CHR ''&''"]
    unfolding parse_cmd_def by simp
qed

lemma split_last:
  assumes "plain_stage ws"
  shows "split_line (pre @ show_stage ws @ NUL # NUL # r) (length pre) (CHR ''|'') =
     Some (pre @ show_stage ws @ NUL # NUL # r, length pre + length (show_stage ws) + 1)"
proof -
  have "scan (\<lambda>c. c = SPACE) (pre @ show_stage ws @ NUL # NUL # r) (length pre + length (show_stage ws) + 1) =
      Some (length pre + length (show_stage ws) + 1)"
    using scan_stop [of "\<lambda>c. c = SPACE" "[]" NUL "pre @ show_stage ws @ [NUL]" r] by simp
  then show ?thesis
    using scan_stop [OF show_stage_scan [OF assms], of NUL pre "NUL # r"]
    by (simp add: split_line_def list_update_append)
qed

lemma split_more:
  assumes "plain_stage ws" and "c \<noteq> SPACE"
  shows "split_line (pre @ show_stage ws @ '' | '' @ c # r) (length pre) (CHR ''|'') =
     Some (pre @ show_stage ws @ SPACE # NUL # SPACE # c # r, length pre + length (show_stage ws) + 3)"
proof -
  let ?s = "show_stage ws @ [SPACE]"
  have "list_all (\<lambda>c. c \<noteq> CHR ''|'' \<and> c \<noteq> NUL) ?s" using show_stage_scan [OF assms(1)] by simp
  from scan_stop [OF this, of "CHR ''|''" pre "SPACE # c # r"]
  have 1: "scan (\<lambda>c. c \<noteq> CHR ''|'' \<and> c \<noteq> NUL) (pre @ show_stage ws @ '' | '' @ c # r) (length pre) =
      Some (length pre + length ?s)" by simp
  have "scan (\<lambda>c. c = SPACE) (pre @ show_stage ws @ SPACE # NUL # SPACE # c # r) (length pre + length ?s + 1) =
      Some (length pre + length (show_stage ws) + 3)"
    using scan_stop [of "\<lambda>c. c = SPACE" "[SPACE]" c "pre @ show_stage ws @ [SPACE, NUL]" r] assms(2) by simp
  with 1 show ?thesis by (simp add: split_line_def list_update_append)
qed

lemma show_line_chars: "list_all plain_stage ss \<Longrightarrow> NUL \<notin> set (show_line ss)"
proof (induction ss rule: show_line.induct)
  case (2 ws)
  then show ?case using show_stage_chars [of ws NUL] by (auto simp: plain_char_def)
next
  case (3 ws v ss)
  then show ?case using show_stage_chars [of ws NUL] by (auto simp: plain_char_def)
qed simp

lemma show_line_bar: "list_all plain_stage (ws # ss) \<Longrightarrow> CHR ''|'' \<in> set (show_line (ws # ss)) \<longleftrightarrow> ss \<noteq> []"
  using show_stage_chars [of ws "CHR ''|''"] by (cases ss) (auto simp: plain_char_def)

lemma show_line_head: "list_all plain_stage (ws # ss) \<Longrightarrow> \<exists>c s. show_line (ws # ss) = c # s \<and> c \<noteq> SPACE"
  using show_stage_nonempty [of ws] by (cases ss) (auto simp: plain_char_def)

lemma parse_line_step:
  assumes "split_line b p (CHR ''|'') = Some (b', q)" and "c_string (drop q b') = Some rest"
    and "(if block_contains rest (CHR ''|'') < 0 then parse_cmd env st b' q else parse_line env st b' q) = Some r"
    and "parse_cmd env st b' p = Some l"
  shows "parse_line env st b p = Some (pipe_cmd_create l r)"
  using assms by (subst parse_line.simps) simp

lemma parse_line_show:
  assumes "ss \<noteq> []" and "list_all plain_stage ss" and "length (show_line ss) < BUFLEN"
  shows "parse_line env st (pre @ show_line ss @ NUL # NUL # r) (length pre) = Some (Some (pipeline ss))"
  using assms
proof (induction ss arbitrary: pre rule: show_line.induct)
  case (2 ws)
  let ?b = "pre @ show_stage ws @ NUL # NUL # r" and ?q = "length pre + length (show_stage ws) + 1"
  have w: "plain_stage ws" "length (show_stage ws) < BUFLEN" using 2 by simp_all
  have right: "c_string (drop ?q ?b) = Some []" by simp
  then have "parse_cmd env st ?b ?q = Some None" unfolding parse_cmd_def by simp
  moreover have "parse_cmd env st ?b (length pre) = Some (Some (simple_cmd (show_stage ws) ws))"
    using parse_cmd_stage [OF w(1), of "[]"] w(2) by simp
  moreover have "block_contains [] (CHR ''|'') < 0" by (simp add: block_contains_neg)
  ultimately have "parse_line env st ?b (length pre) = Some (pipe_cmd_create (Some (simple_cmd (show_stage ws) ws)) None)"
    by (intro parse_line_step [OF split_last [OF w(1)] right]) simp_all
  then show ?case by (simp add: pipe_cmd_create_def)
next
  case (3 ws v ss)
  have ok: "plain_stage ws" "list_all plain_stage (v # ss)" using 3 by simp_all
  obtain c s where hd: "show_line (v # ss) = c # s" "c \<noteq> SPACE" using show_line_head [OF ok(2)] by auto
  let ?pre = "pre @ show_stage ws @ [SPACE, NUL, SPACE]" and ?t = "NUL # NUL # r"
  let ?b = "?pre @ show_line (v # ss) @ ?t" and ?q = "length ?pre"
  have "split_line (pre @ show_line (ws # v # ss) @ ?t) (length pre) (CHR ''|'') = Some (?b, ?q)"
    using split_more [OF ok(1) hd(2), of pre "s @ ?t"] hd(1) by simp
  moreover have "c_string (drop ?q ?b) = Some (show_line (v # ss))"
    using c_string_append [OF show_line_chars [OF ok(2)]] by simp
  moreover have "(if block_contains (show_line (v # ss)) (CHR ''|'') < 0 then parse_cmd env st ?b ?q
      else parse_line env st ?b ?q) = Some (Some (pipeline (v # ss)))"
  proof (cases "ss = []")
    case True
    then show ?thesis
      using parse_cmd_stage [of v "[]" env st ?pre "NUL # r"] ok(2) 3 show_line_bar [OF ok(2)]
      by (simp add: block_contains_neg)
  next
    case False
    have "parse_line env st ?b ?q = Some (Some (pipeline (v # ss)))"
      using ok(2) 3 by (intro "3.IH") simp_all
    then show ?thesis using False show_line_bar [OF ok(2)] by (simp only: block_contains_neg if_False not_not)
  qed
  moreover have "parse_cmd env st ?b (length pre) = Some (Some (simple_cmd (show_stage ws @ [SPACE]) ws))"
    using parse_cmd_stage [OF ok(1), of "[SPACE]" env st pre] 3 by simp
  ultimately have "parse_line env st (pre @ show_line (ws # v # ss) @ ?t) (length pre) =
      Some (pipe_cmd_create (Some (simple_cmd (show_stage ws @ [SPACE]) ws)) (Some (pipeline (v # ss))))"
    by (rule parse_line_step)
  then show ?case by (simp add: pipe_cmd_create_def)
qed simp

lemma parse_printed:
  assumes "ss \<noteq> []" and "list_all plain_stage ss" and "length (show_line ss) + 2 \<le> BUFLEN"
  shows "parse_line env st (show_line ss @ replicate (BUFLEN - length (show_line ss)) NUL) 0 = Some (Some (pipeline ss))"
proof -
  obtain k where k: "BUFLEN = length (show_line ss) + 2 + k" using assms(3) by (auto simp: le_iff_add)
  then have "BUFLEN - length (show_line ss) = Suc (Suc k)" by linarith
  then have "replicate (BUFLEN - length (show_line ss)) NUL = NUL # NUL # replicate k NUL" by simp
  moreover have "length (show_line ss) < BUFLEN" using k by simp
  ultimately show ?thesis using parse_line_show [OF assms(1,2), of env st "[]" "replicate k NUL"] by simp
qed

text \<open>C38. Parsing is the inverse of printing: the line of a pipeline of commands without special
  characters is parsed to exactly these commands with exactly these arguments, whatever the
  environment. The line must leave two bytes of the buffer, because the search for a second
  command looks past the end of the first.\<close>

theorem parse_printed_line:
  assumes "ss \<noteq> []" and "list_all plain_stage ss" and "length (show_line ss) + 2 \<le> BUFLEN"
  shows "parse_line env st (show_line ss @ replicate (BUFLEN - length (show_line ss)) NUL) 0 = Some (Some (pipeline ss))"
  using assms by (rule parse_printed)

subsection \<open>Well-formed commands\<close>

definition wf_exec :: "execcmd \<Rightarrow> bool" where
  "wf_exec e \<longleftrightarrow>
     [] \<notin> set (argv e) \<and> (\<forall>v\<in>set (eargv e). 0 < block_contains v (CHR ''='')) \<and>
     (etype e = EXEC \<longrightarrow> in_file e = [] \<and> out_file e = [] \<and> err_file e = [])"

fun wf_single :: "cmd \<Rightarrow> bool" where
  "wf_single (ExecCmd e) = wf_exec e"
| "wf_single (BackCmd pid s c) = (case c of ExecCmd e \<Rightarrow> wf_exec e \<and> s = escmd e | _ \<Rightarrow> False)"
| "wf_single (PipeCmd pid s l r) = False"

fun wf_cmd :: "cmd \<Rightarrow> bool" where
  "wf_cmd (PipeCmd pid s l r) = ((case l of None \<Rightarrow> True | Some c \<Rightarrow> wf_single c) \<and> wf_cmd r)"
| "wf_cmd c = wf_single c"

lemma parse_token_wf:
  assumes "parse_token env st c tok = Some c'" and "wf_exec c"
  shows "wf_exec c'"
proof -
  obtain c1 red where r: "parse_redir_flow c tok = (c1, red)" by fastforce
  have p1: "wf_exec c1" if red
    using r that assms(2) by (auto simp: parse_redir_flow_def wf_exec_def Let_def split: if_splits)
  have same: "c1 = c" if "\<not> red"
    using r that by (auto simp: parse_redir_flow_def Let_def split: if_splits)
  show ?thesis
  proof (cases red)
    case True
    then show ?thesis using assms(1) r p1 by (simp add: parse_token_def)
  next
    case False
    obtain c2 found where e: "parse_environ_var c tok = Some (c2, found)"
      using assms(1) r same [OF False] False by (auto simp: parse_token_def split: Option.bind_splits)
    have p2: "wf_exec c2"
      using e assms(2) by (auto simp: parse_environ_var_def wf_exec_def array_store_def split: if_splits)
    then show ?thesis
      using assms(1) r e same [OF False] False
      by (auto simp: parse_token_def Let_def wf_exec_def array_store_def split: if_splits)
  qed
qed

lemma parse_args_wf:
  assumes "parse_args env st c s = Some c'" and "wf_exec c"
  shows "wf_exec c'"
  using assms
proof (induction env st c s rule: parse_args.induct)
  case (1 env st c s)
  show ?case
  proof (cases "s = []")
    case True
    then show ?thesis using "1.prems" by (simp add: parse_args_nil)
  next
    case False
    then obtain tok c1 where t: "get_token s = Some tok" "parse_token env st c tok = Some c1"
      "parse_args env st c1 (drop (length tok + 1) s) = Some c'"
      using "1.prems"(1) by (subst (asm) parse_args.simps) (auto split: Option.bind_splits)
    from "1.IH" [OF False t(1,2,3)] parse_token_wf [OF t(2)] "1.prems"(2) show ?thesis by blast
  qed
qed

lemma parse_exec_wf: "parse_exec env st s = Some c \<Longrightarrow> \<exists>e. c = ExecCmd e \<and> wf_exec e"
  by (auto simp: parse_exec_def exec_cmd_create_def wf_exec_def
      split: Option.bind_splits if_splits dest!: parse_args_wf)

lemma parse_cmd_wf: "parse_cmd env st b p = Some (Some c) \<Longrightarrow> wf_single c"
  by (auto simp: parse_cmd_def parse_back_def back_cmd_create_def split: Option.bind_splits if_splits option.splits
      dest!: parse_exec_wf)

lemma wf_single_cmd: "wf_single c \<Longrightarrow> wf_cmd c"
  by (cases c) auto

text \<open>Every command that the parser builds without leaving its arrays is well-formed: no argument is
  empty, only a redirected command has file names, a background command is a single command, and a pipe has
  single commands on its left.\<close>

theorem parse_line_wf:
  assumes "parse_line env st b p = Some (Some c)"
  shows "wf_cmd c"
  using assms
proof (induction env st b p arbitrary: c rule: parse_line.induct)
  case (1 env st b p)
  obtain b' q rest r l where s: "split_line b p (CHR ''|'') = Some (b', q)" "c_string (drop q b') = Some rest"
    "(if block_contains rest (CHR ''|'') < 0 then parse_cmd env st b' q else parse_line env st b' q) = Some r"
    "parse_cmd env st b' p = Some l" "pipe_cmd_create l r = Some c"
    using "1.prems" by (subst (asm) parse_line.simps) (auto split: Option.bind_splits)
  have r: "wf_cmd r'" if "r = Some r'" for r'
    using s(3) that "1.IH" [OF s(1) refl s(2)] parse_cmd_wf wf_single_cmd by (auto split: if_splits)
  have l: "wf_single l'" if "l = Some l'" for l'
    using s(4) that parse_cmd_wf by auto
  show ?case
    using s(5) r l wf_single_cmd by (auto simp: pipe_cmd_create_def split: option.splits)
qed

subsection \<open>Pipelines\<close>

text \<open>The descriptors that are open, and the programs that take over a process.\<close>

definition open_fds :: "fds \<Rightarrow> fds" where "open_fds t = rev (dropWhile (\<lambda>x. x = None) (rev t))"

fun launched :: "ending list \<Rightarrow> (string list \<times> fds) list" where
  "launched [] = []"
| "launched (Program args env t # es) = (args, open_fds t) # launched es"
| "launched (Exit n # es) = launched es"
| "launched (Crash # es) = launched es"

lemma launched_append [simp]: "launched (xs @ ys) = launched xs @ launched ys"
  by (induction xs rule: launched.induct) auto

definition works :: "'a os_scheme \<Rightarrow> bool" where
  "works w \<longleftrightarrow> (\<forall>p. can_exec w p) \<and> (\<forall>n. pipe_ok w n \<and> fork_left w n \<and> fork_right w n)"

definition std3 :: "fobj \<Rightarrow> fobj \<Rightarrow> fobj \<Rightarrow> nat \<Rightarrow> fds" where
  "std3 a b c k = [Some a, Some b, Some c] @ replicate k None"

fun wire :: "fobj \<Rightarrow> fobj \<Rightarrow> fobj \<Rightarrow> nat \<Rightarrow> string list list \<Rightarrow> (string list \<times> fds) list" where
  "wire a b c n [] = []"
| "wire a b c n [ws] = [(ws, [Some a, Some b, Some c])]"
| "wire a b c n (ws # ss) = (ws, [Some a, Some (PipeWrite n), Some c]) # wire (PipeRead n) b c (Suc n) ss"

lemma open_fds_std3: "open_fds (std3 a b c k) = [Some a, Some b, Some c]"
proof -
  have "dropWhile (\<lambda>x. x = None) (replicate k None @ [Some c, Some b, Some a]) = [Some c, Some b, Some a]"
    by (induction k) auto
  then show ?thesis by (simp add: open_fds_def std3_def)
qed

text \<open>The descriptors of the two sides of a pipe.\<close>

lemma pipe_fds:
  defines "t1 \<equiv> \<lambda>a b c k n. fst (fd_new (std3 a b c k) (PipeRead n))"
  shows "snd (fd_new (std3 a b c k) (PipeRead n)) = 3" and "snd (fd_new (t1 a b c k n) (PipeWrite n)) = 4"
    and "map_option (\<lambda>t. fd_close t 4) (dup2 (fd_close (fst (fd_new (t1 a b c k n) (PipeWrite n))) 3) 4 1) =
      Some (std3 a (PipeWrite n) c (max 2 k))"
    and "map_option (\<lambda>t. fd_close t 3) (dup2 (fd_close (fst (fd_new (t1 a b c k n) (PipeWrite n))) 4) 3 0) =
      Some (std3 (PipeRead n) b c (max 2 k))"
proof -
  consider "k = 0" | "k = 1" | j where "k = Suc (Suc j)" by (metis One_nat_def not0_implies_Suc)
  then have "snd (fd_new (std3 a b c k) (PipeRead n)) = 3 \<and> snd (fd_new (t1 a b c k n) (PipeWrite n)) = 4 \<and>
    map_option (\<lambda>t. fd_close t 4) (dup2 (fd_close (fst (fd_new (t1 a b c k n) (PipeWrite n))) 3) 4 1) =
      Some (std3 a (PipeWrite n) c (max 2 k)) \<and>
    map_option (\<lambda>t. fd_close t 3) (dup2 (fd_close (fst (fd_new (t1 a b c k n) (PipeWrite n))) 4) 3 0) =
      Some (std3 (PipeRead n) b c (max 2 k))"
    by cases (simp_all add: t1_def fd_new_def std3_def fd_set_def fd_close_def dup2_def fd_get_def Let_def
        numeral_3_eq_3 numeral_2_eq_2)
  then show "snd (fd_new (std3 a b c k) (PipeRead n)) = 3" "snd (fd_new (t1 a b c k n) (PipeWrite n)) = 4"
    "map_option (\<lambda>t. fd_close t 4) (dup2 (fd_close (fst (fd_new (t1 a b c k n) (PipeWrite n))) 3) 4 1) =
      Some (std3 a (PipeWrite n) c (max 2 k))"
    "map_option (\<lambda>t. fd_close t 3) (dup2 (fd_close (fst (fd_new (t1 a b c k n) (PipeWrite n))) 4) 3 0) =
      Some (std3 (PipeRead n) b c (max 2 k))" by blast+
qed

lemma exec_simple:
  assumes "works w" and "plain_stage ws"
  shows "exec_cmd w whole env t n (Some (simple_cmd s ws)) = ([Program ws env t], n)"
  using assms by (cases ws) (auto simp: simple_cmd_def run_exec_def works_def plain_stage_def)

lemma exec_pipeline:
  assumes "works w" and "ss \<noteq> []" and "list_all plain_stage ss"
  shows "launched (fst (exec_cmd w whole env (std3 a b c k) n (Some (pipeline ss)))) = wire a b c n ss"
  using assms(2,3)
proof (induction ss arbitrary: a n k rule: show_line.induct)
  case (2 ws)
  then show ?case using exec_simple [OF assms(1), of ws] by (simp add: open_fds_std3)
next
  case (3 ws v ss)
  obtain t1 where t1: "fd_new (std3 a b c k) (PipeRead n) = (t1, 3)"
    using pipe_fds(1) [of a b c k n] by (metis prod.collapse)
  obtain t2 where t2: "fd_new t1 (PipeWrite n) = (t2, 4)"
    using pipe_fds(2) [of a b c k n] t1 by (metis fst_conv prod.collapse)
  obtain lt where lt: "dup2 (fd_close t2 3) 4 1 = Some lt" "fd_close lt 4 = std3 a (PipeWrite n) c (max 2 k)"
    using pipe_fds(3) [of a b c k n] t1 t2 by auto
  obtain rt where rt: "dup2 (fd_close t2 4) 3 0 = Some rt" "fd_close rt 3 = std3 (PipeRead n) b c (max 2 k)"
    using pipe_fds(4) [of a b c k n] t1 t2 by auto
  have os: "pipe_ok w n" "fork_left w n" "fork_right w n" using assms(1) by (simp_all add: works_def)
  have st: "plain_stage ws" "list_all plain_stage (v # ss)" using "3.prems" by simp_all
  have end_of: "launched [pipe_done whole] = []" by (simp add: pipe_done_def split: option.split)
  show ?case
    using t1 t2 lt rt os exec_simple [OF assms(1) st(1)] "3.IH" [of "PipeRead n" "max 2 k" "Suc n"] st(2) end_of
    by (auto simp: run_pipe_def Let_def open_fds_std3 split: prod.split)
qed simp

lemma wire_nth:
  "wire a b c n ss = map (\<lambda>i. (ss ! i,
     [Some (if i = 0 then a else PipeRead (n + i - 1)), Some (if Suc i = length ss then b else PipeWrite (n + i)), Some c]))
     [0..<length ss]"
proof (induction ss arbitrary: a n rule: show_line.induct)
  case (3 ws v ss)
  have "[0..<Suc m] = 0 # map Suc [0..<m]" for m by (simp add: map_Suc_upt upt_conv_Cons del: upt_Suc)
  from this [of "length (v # ss)"]
  have "[0..<length (ws # v # ss)] = 0 # map Suc [0..<length (v # ss)]"
    by (simp only: length_Cons [of ws])
  then show ?case using "3.IH" [of "PipeRead n" "Suc n"] by (simp add: comp_def del: upt_Suc)
qed simp_all

lemma free_pipeline: "free_command (Some (pipeline ss)) \<noteq> None"
  by (induction ss rule: pipeline.induct) (auto simp: simple_cmd_def)

lemma pipeline_not_back: "\<not> is_back (pipeline ss)"
  by (cases ss rule: pipeline.cases) (auto simp: simple_cmd_def is_back_def)

text \<open>C39. A pipeline without special characters, entered in the shell, starts its programs with their
  arguments, each one reading from the one before and writing to the one after, the first
  reading from and the last writing to the terminal; no program keeps another end of a pipe
  open. (The line is none of the built-in commands, and the system lets the processes and pipes
  be created.)\<close>

theorem pipeline_runs:
  assumes "ss \<noteq> []" and "list_all plain_stage ss" and "length (show_line ss) + 2 \<le> BUFLEN"
    and "works w" and "\<not> strstr (show_line ss) ''cd''" and "show_line ss \<notin> {''exit'', ''pwd''}"
  shows "\<exists>s' ends acts. run_cmd w s (show_line ss @ replicate (BUFLEN - length (show_line ss)) NUL) =
       Some (Continue, s', Run ends # acts) \<and>
     launched ends = map (\<lambda>i. (ss ! i, [Some (if i = 0 then Tty 0 else PipeRead (i - 1)),
         Some (if Suc i = length ss then Tty 1 else PipeWrite i), Some (Tty 2)])) [0..<length ss]"
proof -
  let ?b = "show_line ss @ replicate (BUFLEN - length (show_line ss)) NUL"
  let ?whole = "if is_pipe (pipeline ss) then Some (pipeline ss) else None"
  let ?ends = "fst (exec_cmd (os.truncate w) ?whole (sh_env s) std_fds 0 (Some (pipeline ss)))"
  obtain c u where hd: "show_line ss = c # u" "c \<noteq> NUL"
    using show_line_chars [OF assms(2)] show_line_head assms(1,2) by (cases ss) fastforce+
  obtain k where "BUFLEN = length (show_line ss) + 2 + k" using assms(3) by (auto simp: le_iff_add)
  then have "BUFLEN - length (show_line ss) = Suc (Suc k)" by linarith
  then have buf: "c_string ?b = Some (show_line ss)"
    using c_string_append [OF show_line_chars [OF assms(2)]] by simp
  obtain st acts where fin: "(if is_back (pipeline ss) then (s, [BackInfo (fork_pid w)])
      else let (x, acts) = print_status_info (wait_status w ?ends) (pipeline ss) in (s\<lparr>status := x\<rparr>, acts)) = (st, acts)"
    by fastforce
  have "cd w s ?b = Some (False, s, ?b, [])" using buf assms(5) by (simp add: cd_def)
  moreover have "\<not> exit_shell (show_line ss)" "pwd s (show_line ss) = None"
    using assms(6) by (auto simp: exit_shell_def pwd_def)
  moreover have "parse_line (sh_env s) (status s) ?b 0 = Some (Some (pipeline ss))"
    by (rule parse_printed [OF assms(1-3)])
  moreover obtain toks where "free_command (Some (pipeline ss)) = Some toks" using free_pipeline [of ss] by auto
  moreover have "?b ! 0 \<noteq> NUL" using hd by simp
  ultimately have run: "run_cmd w s ?b = Some (Continue, st, Run ?ends # acts)"
    using buf fin unfolding run_cmd_def Let_def by simp
  have "works (os.truncate w)" using assms(4) by (simp add: works_def os.truncate_def)
  from exec_pipeline [OF this assms(1,2), of ?whole "sh_env s" "Tty 0" "Tty 1" "Tty 2" 0 0]
  have "launched ?ends = wire (Tty 0) (Tty 1) (Tty 2) 0 ss" by (simp add: std3_def std_fds_def)
  with run show ?thesis by (auto simp: wire_nth)
qed

subsection \<open>Lines that crash the shell\<close>

lemma trim_bar:
  assumes "hd s = CHR ''|''" and "s \<noteq> []"
  shows "takeWhile is_whitespace s = []" and "\<exists>u. rev (dropWhile is_whitespace (rev s)) = CHR ''|'' # u"
proof -
  obtain u where s: "s = CHR ''|'' # u" using assms by (cases s) auto
  have w: "\<not> is_whitespace (CHR ''|'')" by (simp add: is_whitespace_def)
  show "takeWhile is_whitespace s = []" using s w by simp
  show "\<exists>u. rev (dropWhile is_whitespace (rev s)) = CHR ''|'' # u"
    using w by (cases "\<forall>x\<in>set u. is_whitespace x") (auto simp: s dropWhile_append intro: exI [of _ "rev xs" for xs])
qed

lemma cd_bar:
  assumes "b \<noteq> []" and "hd b = CHR ''|''" and "cd w s b = Some res"
  shows "\<exists>b'. res = (False, s, b', []) \<and> b' \<noteq> [] \<and> hd b' = CHR ''|''"
proof -
  obtain txt1 where c: "c_string b = Some txt1" using assms(3) by (auto simp: cd_def split: Option.bind_splits)
  have h: "txt1 \<noteq> []" "hd txt1 = CHR ''|''" using c assms(1,2) by (cases b; auto)+
  obtain u where u: "rev (dropWhile is_whitespace (rev txt1)) = CHR ''|'' # u" using trim_bar(2) [OF h(2,1)] by blast
  show ?thesis
  proof (cases "strstr txt1 ''cd''")
    case False
    then show ?thesis using assms c by (auto simp: cd_def)
  next
    case True
    then have "res = (False, s, b[Suc (length u) := NUL], [])"
      using assms(3) c trim_bar(1) [OF h(2,1)] u by (simp add: cd_def trim_whitespaces_def)
    then show ?thesis using assms(1,2) by (cases b) auto
  qed
qed

lemma parse_line_bar:
  assumes "b \<noteq> []" and "hd b = CHR ''|''" and "parse_line env st b 0 = Some (Some c)"
  shows "free_command (Some c) = None"
proof -
  obtain r where b: "b = CHR ''|'' # r" using assms(1,2) by (cases b) auto
  obtain b' q rest rr l where s: "split_line b 0 (CHR ''|'') = Some (b', q)" "parse_cmd env st b' 0 = Some l"
    "pipe_cmd_create l rr = Some c"
    using assms(3) by (subst (asm) parse_line.simps) (auto split: Option.bind_splits)
  have "b' = NUL # r" using s(1) by (auto simp: b split_line_def scan_def split: Option.bind_splits)
  then have "l = None" using s(2) by (simp add: parse_cmd_def)
  then show ?thesis using s(3) by (auto simp: pipe_cmd_create_def split: option.splits)
qed

lemma bar_not_builtin:
  assumes "hd b = CHR ''|''" and "c_string b = Some cmd"
  shows "\<not> exit_shell cmd" and "pwd s cmd = None"
  using assms by (cases b; auto simp: exit_shell_def pwd_def split: if_splits)+

text \<open>A line that starts with a vertical bar crashes the shell, whatever follows: the empty command on
  its left is a null pointer, which is used when the command is freed or run.\<close>

theorem leading_pipe_crashes:
  assumes "b \<noteq> []" and "hd b = CHR ''|''"
  shows "run_cmd w s b = None"
proof -
  have b0: "b ! 0 = CHR ''|''" using assms by (simp add: hd_conv_nth)
  show ?thesis
  proof (cases "cd w s b")
    case None
    then show ?thesis using b0 by (simp add: run_cmd_def)
  next
    case (Some res)
    with cd_bar [OF assms Some [symmetric, THEN sym]] obtain b' where
      c: "cd w s b = Some (False, s, b', [])" "b' \<noteq> []" "hd b' = CHR ''|''" by auto
    have "parse_line (sh_env s) (status s) b' 0 \<noteq> Some (Some x)" if "free_command (Some x) \<noteq> None" for x
      using parse_line_bar [OF c(2,3), of "sh_env s" "status s" x] that by auto
    then show ?thesis
      using b0 c(1) bar_not_builtin [OF c(3)]
      by (auto simp: run_cmd_def Let_def split: Option.bind_splits)
  qed
qed

subsection \<open>Instances\<close>

definition demo_os :: shell_os where
  "demo_os = \<lparr>can_open = \<lambda>_ _. True, can_exec = \<lambda>_. True, pipe_ok = \<lambda>_. True, fork_left = \<lambda>_. True,
     fork_right = \<lambda>_. True, chdir = \<lambda>_ d. Some d, fork_pid = 7, wait_status = \<lambda>_. 0\<rparr>"

definition demo_shell :: shell where
  "demo_shell = \<lparr>sh_env = [''HOME'' \<mapsto> ''/root''], cwd = ''/'', prompt = [], status = 0\<rparr>"

definition demo_line :: "string list list" where "demo_line = [[''ls'', ''-l''], [''wc'']]"

lemma demo_line_ok:
  "demo_line \<noteq> []" "list_all plain_stage demo_line" "show_line demo_line = ''ls -l | wc''"
  "length (show_line demo_line) + 2 \<le> BUFLEN"
  by (simp_all add: demo_line_def plain_stage_def plain_word_def plain_char_def MAXARGS_def BUFLEN_def)

lemma parse_printed_line_witness:
  "parse_line Map.empty 0 (''ls -l | wc'' @ replicate 1014 NUL) 0 =
     Some (Some (PipeCmd 0 [] (Some (simple_cmd ''ls -l '' [''ls'', ''-l''])) (simple_cmd ''wc'' [''wc''])))"
  using parse_printed_line [OF demo_line_ok(1,2,4), of Map.empty 0]
  by (simp add: demo_line_ok(3) BUFLEN_def) (simp add: demo_line_def)

lemma parse_line_wf_witness:
  "wf_cmd (PipeCmd 0 [] (Some (simple_cmd ''ls -l '' [''ls'', ''-l''])) (simple_cmd ''wc'' [''wc'']))"
proof -
  have "pipeline demo_line = PipeCmd 0 [] (Some (simple_cmd ''ls -l '' [''ls'', ''-l''])) (simple_cmd ''wc'' [''wc''])"
    by (simp add: demo_line_def)
  with parse_line_wf [OF parse_printed [OF demo_line_ok(1,2,4), of Map.empty 0]] show ?thesis by simp
qed

lemma leading_pipe_crashes_witness: "run_cmd demo_os demo_shell (''| ls'' @ [NUL, NUL]) = None"
  by (rule leading_pipe_crashes) simp_all

lemma pipeline_runs_witness:
  "\<exists>s' ends acts. run_cmd demo_os demo_shell (''ls -l | wc'' @ replicate 1014 NUL) = Some (Continue, s', Run ends # acts) \<and>
     launched ends = [([''ls'', ''-l''], [Some (Tty 0), Some (PipeWrite 0), Some (Tty 2)]),
       ([''wc''], [Some (PipeRead 0), Some (Tty 1), Some (Tty 2)])]"
proof -
  have "works demo_os" by (simp add: works_def demo_os_def)
  moreover have "\<not> strstr (show_line demo_line) ''cd''" unfolding demo_line_ok(3) by (simp add: strstr.simps)
  moreover have "show_line demo_line \<notin> {''exit'', ''pwd''}" by (simp add: demo_line_ok(3))
  ultimately show ?thesis
    using pipeline_runs [OF demo_line_ok(1,2,4), of demo_os demo_shell]
    by (simp add: demo_line_ok(3) BUFLEN_def) (simp add: demo_line_def)
qed

end
