(* ===== verification/KDebug.thy ===== *)
theory KDebug
  imports CString
begin

unbundle bit_operations_syntax

text \<open>
  Debug information of an instruction address (\<open>sched/kern/kdebug.c\<close>): the binary search in the
  table of stabs and the search for function, line and file. Indices have type \<open>int\<close>, addresses 32
  bits. A table of stabs is read entry by entry, from the memory the processor sees; a read of
  memory that is not there is \<open>None\<close>. The sums of two indices are assumed not to overflow.
\<close>

record stab =
  n_strx :: w32
  n_type :: w8
  n_other :: w8
  n_desc :: w16
  n_value :: w32

type_synonym stab_table = "int \<Rightarrow> stab option"

definition N_FUN :: w8 where "N_FUN = 0x24"
definition N_SLINE :: w8 where "N_SLINE = 0x44"
definition N_SO :: w8 where "N_SO = 0x64"
definition N_SOL :: w8 where "N_SOL = 0x84"
definition N_PSYM :: w8 where "N_PSYM = 0xA0"

subsection \<open>The binary search\<close>

text \<open>The last entry of the type at or before \<open>m\<close>, not before \<open>l\<close>.\<close>

function seek_type :: "stab_table \<Rightarrow> w8 \<Rightarrow> int \<Rightarrow> int \<Rightarrow> int option" where
  "seek_type st t l m =
     (if m \<ge> l then do {
        s \<leftarrow> st m;
        if n_type s \<noteq> t then seek_type st t l (m - 1) else Some m
      } else Some m)"
  by pat_completeness auto

termination seek_type
  by (relation "measure (\<lambda>(st, t, l, m). nat (m - l + 1))") auto

declare seek_type.simps [simp del]

lemma seek_type_cases:
  assumes "seek_type st t l m = Some k" "l \<le> m + 1"
  shows "k \<le> m \<and> l - 1 \<le> k \<and>
    (\<forall>i. k < i \<and> i \<le> m \<longrightarrow> (\<exists>s. st i = Some s \<and> n_type s \<noteq> t)) \<and>
    (l \<le> k \<longrightarrow> (\<exists>s. st k = Some s \<and> n_type s = t))"
  using assms
proof (induction st t l m rule: seek_type.induct)
  case (1 st t l m)
  show ?case
  proof (cases "m \<ge> l")
    case False
    with 1(2,3) show ?thesis by (subst (asm) seek_type.simps) auto
  next
    case True
    with 1(2) obtain s where s: "st m = Some s"
      by (subst (asm) seek_type.simps) (auto split: Option.bind_splits)
    show ?thesis
    proof (cases "n_type s = t")
      case True
      with 1(2) s \<open>m \<ge> l\<close> show ?thesis by (subst (asm) seek_type.simps) auto
    next
      case other: False
      with 1(2) s True have k: "seek_type st t l (m - 1) = Some k"
        by (subst (asm) seek_type.simps) auto
      from 1(1) [OF True s other k] True
      have ih: "k \<le> m - 1" "l - 1 \<le> k"
        and none: "\<And>i. k < i \<Longrightarrow> i \<le> m - 1 \<Longrightarrow> \<exists>s. st i = Some s \<and> n_type s \<noteq> t"
        and hit: "l \<le> k \<longrightarrow> (\<exists>s. st k = Some s \<and> n_type s = t)" by auto
      have "\<exists>s. st i = Some s \<and> n_type s \<noteq> t" if "k < i" "i \<le> m" for i
        using that none [of i] s other by (cases "i = m") auto
      with ih hit show ?thesis by auto
    qed
  qed
qed

lemma seek_type_le: "seek_type st t l m = Some k \<Longrightarrow> k \<le> m"
proof (cases "l \<le> m + 1")
  case False
  moreover assume "seek_type st t l m = Some k"
  ultimately show ?thesis by (subst (asm) seek_type.simps) auto
qed (auto dest: seek_type_cases)

text \<open>
  The loop: the ends \<open>l\<close> and \<open>r\<close> of the region, the address, \<open>*region_left\<close>, \<open>*region_right\<close> and
  \<open>any_matches\<close>.
\<close>

function stab_search ::
  "stab_table \<Rightarrow> w8 \<Rightarrow> int \<Rightarrow> int \<Rightarrow> w32 \<Rightarrow> int \<Rightarrow> int \<Rightarrow> bool \<Rightarrow> (int \<times> int \<times> bool) option" where
  "stab_search st t l r addr left right any =
     (if l > r then Some (left, right, any)
      else
        let true_m = (l + r) div 2 in
        case seek_type st t l true_m of
          None \<Rightarrow> None
        | Some m \<Rightarrow>
            if m < l then stab_search st t (true_m + 1) r addr left right any
            else
              let v = map_option n_value (st m) in
              if v = None then None
              else if the v < addr then stab_search st t (true_m + 1) r addr m right True
              else if the v > addr then stab_search st t l (m - 1) addr left (m - 1) True
              else stab_search st t m r (addr + 1) m right True)"
  by pat_completeness auto

lemma seek_mid_le:
  assumes "\<not> l > r" "seek_type st t l ((l + r) div 2) = Some m"
  shows "m \<le> r"
  using assms seek_type_le[of st t l "(l + r) div 2" m] by linarith

termination stab_search
proof (relation "measures [\<lambda>(st, t, l, r, addr, left, right, any). nat (r - l + 1),
    \<lambda>(st, t, l, r, addr, left, right, any). if map_option n_value (st l) = Some addr then 1 else 0]",
    goal_cases)
  case 1
  then show ?case by simp
next
  case (2 st t l r addr left right any true_m m)
  then show ?case by auto
next
  case (3 st t l r addr left right any true_m m v)
  then show ?case by auto
next
  case (4 st t l r addr left right any true_m m v)
  then have "m \<le> r" by (auto intro: seek_mid_le)
  with 4 show ?case by auto
next
  case (5 st t l r addr left right any true_m m v)
  then have le: "m \<le> r" by (auto intro: seek_mid_le)
  show ?case
  proof (cases "m = l")
    case True
    with 5 show ?thesis by auto
  next
    case False
    with 5 le show ?thesis by auto
  qed
qed

declare stab_search.simps [simp del]

text \<open>The last loop of the search: from \<open>l\<close> down to an entry of the type, not below \<open>left\<close>.\<close>

fun back_to_type :: "stab_table \<Rightarrow> w8 \<Rightarrow> int \<Rightarrow> nat \<Rightarrow> int \<Rightarrow> int option" where
  "back_to_type st t left 0 l = Some l"
| "back_to_type st t left (Suc n) l =
     (if l > left then do {
        s \<leftarrow> st l;
        if n_type s \<noteq> t then back_to_type st t left n (l - 1) else Some l
      } else Some l)"

definition stab_binsearch :: "stab_table \<Rightarrow> int \<Rightarrow> int \<Rightarrow> w8 \<Rightarrow> w32 \<Rightarrow> (int \<times> int) option" where
  "stab_binsearch st region_left region_right t addr = do {
     (left, right, any_matches) \<leftarrow> stab_search st t region_left region_right addr region_left region_right False;
     if \<not> any_matches then Some (left, left - 1)
     else do {
       l \<leftarrow> back_to_type st t left (nat (right - left)) right;
       Some (l, right)
     }
   }"

subsection \<open>Function, line and file of an address\<close>

text \<open>A string is the literal of an unknown name or an address.\<close>

datatype name = Unknown | At w32

record Eipdebuginfo =
  eip_file :: name
  eip_line :: int
  eip_fn_name :: name
  eip_fn_namelen :: int
  eip_fn_addr :: w32
  eip_fn_narg :: nat

record UserStabData =
  stabs :: w32
  stab_end :: w32
  stabstr :: w32
  stabstr_end :: w32

definition USTABDATA :: w32 where "USTABDATA = PTSIZE div 2"

text \<open>Numbers and entries in memory, least byte first.\<close>

definition read16 :: "bytes \<Rightarrow> w32 \<Rightarrow> w16 option" where
  "read16 m p = do { a \<leftarrow> m p; b \<leftarrow> m (p + 1); Some (ucast a OR push_bit 8 (ucast b)) }"

definition read32 :: "bytes \<Rightarrow> w32 \<Rightarrow> w32 option" where
  "read32 m p = do {
     a \<leftarrow> read16 m p; b \<leftarrow> read16 m (p + 2); Some (ucast a OR push_bit 16 (ucast b)) }"

definition stab_size :: int where "stab_size = 12"

definition stab_mem :: "bytes \<Rightarrow> w32 \<Rightarrow> stab_table" where
  "stab_mem m p i = do {
     let q = p + word_of_int (i * stab_size);
     strx \<leftarrow> read32 m q;
     ty \<leftarrow> m (q + 4);
     oth \<leftarrow> m (q + 5);
     desc \<leftarrow> read16 m (q + 6);
     val \<leftarrow> read32 m (q + 8);
     Some \<lparr>n_strx = strx, n_type = ty, n_other = oth, n_desc = desc, n_value = val\<rparr>
   }"

text \<open>The difference of two pointers to entries; it is undefined inside an entry.\<close>

definition stab_diff :: "w32 \<Rightarrow> w32 \<Rightarrow> int option" where
  "stab_diff p q =
     (if sint (p - q) mod stab_size = 0 then Some (sint (p - q) div stab_size) else None)"

text \<open>
  The tables of the address: those of the kernel, or those the current program names at
  \<open>USTABDATA\<close> once its memory is checked. \<open>Some None\<close> is the return of -1. \<open>curenv\<close> is the page
  directory of the current environment.
\<close>

definition user_stabs :: "pmem \<Rightarrow> nat option \<Rightarrow> bytes \<Rightarrow> UserStabData option option" where
  "user_stabs s curenv m = do {
     pgdir \<leftarrow> curenv;
     (r, _) \<leftarrow> user_mem_check s pgdir USTABDATA 16 0;
     if r \<noteq> 0 then Some None
     else do {
       a \<leftarrow> read32 m USTABDATA;
       b \<leftarrow> read32 m (USTABDATA + 4);
       c \<leftarrow> read32 m (USTABDATA + 8);
       d \<leftarrow> read32 m (USTABDATA + 12);
       n \<leftarrow> stab_diff b a;
       (r, _) \<leftarrow> user_mem_check s pgdir a (word_of_int n) 0;
       if r \<noteq> 0 then Some None
       else do {
         (r, _) \<leftarrow> user_mem_check s pgdir c (d - c) 0;
         if r \<noteq> 0 then Some None
         else Some (Some \<lparr>stabs = a, stab_end = b, stabstr = c, stabstr_end = d\<rparr>)
       }
     }
   }"

definition find_stabs ::
  "UserStabData \<Rightarrow> pmem \<Rightarrow> nat option \<Rightarrow> bytes \<Rightarrow> w32 \<Rightarrow> UserStabData option option" where
  "find_stabs kernel_stabs s curenv m addr =
     (if addr \<ge> ULIM then Some (Some kernel_stabs) else user_stabs s curenv m)"

text \<open>The entry whose string names the file, searched backwards from the line.\<close>

function seek_file :: "stab_table \<Rightarrow> int \<Rightarrow> int \<Rightarrow> int option" where
  "seek_file st lfile lline =
     (if lline \<ge> lfile then do {
        s \<leftarrow> st lline;
        if n_type s \<noteq> N_SOL \<and> (n_type s \<noteq> N_SO \<or> n_value s = 0) then seek_file st lfile (lline - 1)
        else Some lline
      } else Some lline)"
  by pat_completeness auto

termination seek_file
  by (relation "measure (\<lambda>(st, lfile, lline). nat (lline - lfile + 1))") auto

declare seek_file.simps [simp del]

text \<open>The number of parameter entries from \<open>lline\<close> on.\<close>

fun count_args :: "stab_table \<Rightarrow> nat \<Rightarrow> int \<Rightarrow> nat option" where
  "count_args st 0 lline = Some 0"
| "count_args st (Suc n) lline = do {
     s \<leftarrow> st lline;
     if n_type s = N_PSYM then map_option Suc (count_args st n (lline + 1)) else Some 0 }"

definition name_length :: "bytes \<Rightarrow> name \<Rightarrow> int option" where
  "name_length m nm =
     (case nm of Unknown \<Rightarrow> Some 9
      | At p \<Rightarrow> do { e \<leftarrow> strfind m p 0x3A; Some (sint (e - p)) })"

definition init_info :: "w32 \<Rightarrow> Eipdebuginfo" where
  "init_info addr = \<lparr>eip_file = Unknown, eip_line = 0, eip_fn_name = Unknown, eip_fn_namelen = 9,
     eip_fn_addr = addr, eip_fn_narg = 0\<rparr>"

definition debuginfo_eip ::
  "UserStabData \<Rightarrow> pmem \<Rightarrow> nat option \<Rightarrow> bytes \<Rightarrow> w32 \<Rightarrow> (int \<times> Eipdebuginfo) option" where
  "debuginfo_eip kernel_stabs s curenv m addr = do {
     let info = init_info addr;
     tabs \<leftarrow> find_stabs kernel_stabs s curenv m addr;
     case tabs of None \<Rightarrow> Some (- 1, info)
     | Some u \<Rightarrow>
         if stabstr_end u \<le> stabstr u then Some (- 1, info)
         else do {
           lastchar \<leftarrow> m (stabstr_end u - 1);
           if lastchar \<noteq> 0 then Some (- 1, info)
           else do {
             let st = stab_mem m (stabs u);
             let strsize = stabstr_end u - stabstr u;
             n \<leftarrow> stab_diff (stab_end u) (stabs u);
             (lfile, rfile) \<leftarrow> stab_binsearch st 0 (n - 1) N_SO addr;
             if lfile = 0 then Some (- 1, info)
             else do {
               (lfun, rfun) \<leftarrow> stab_binsearch st lfile rfile N_FUN addr;
               (info, addr, lline, rline) \<leftarrow>
                 (if lfun \<le> rfun then do {
                    f \<leftarrow> st lfun;
                    let info = (if n_strx f < strsize
                                then info\<lparr>eip_fn_name := At (stabstr u + n_strx f)\<rparr> else info);
                    Some (info\<lparr>eip_fn_addr := n_value f\<rparr>, addr - n_value f, lfun, rfun)
                  } else Some (info\<lparr>eip_fn_addr := addr\<rparr>, addr, lfile, rfile));
               len \<leftarrow> name_length m (eip_fn_name info);
               let info = info\<lparr>eip_fn_namelen := len\<rparr>;
               (lline, rline) \<leftarrow> stab_binsearch st lline rline N_SLINE addr;
               info \<leftarrow> (if lline \<le> rline then do {
                           e \<leftarrow> st lline; Some (info\<lparr>eip_line := uint (n_desc e)\<rparr>) }
                         else Some info);
               lline \<leftarrow> seek_file st lfile lline;
               info \<leftarrow> (if lline \<ge> lfile then do {
                           e \<leftarrow> st lline;
                           Some (if n_strx e < strsize
                                 then info\<lparr>eip_file := At (stabstr u + n_strx e)\<rparr> else info) }
                         else Some info);
               narg \<leftarrow> (if lfun < rfun then count_args st (nat (rfun - (lfun + 1))) (lfun + 1) else Some 0);
               Some (0, info\<lparr>eip_fn_narg := narg\<rparr>)
             }
           }
         }
   }"

end
