(* ===== verification/KDebugProps.thy ===== *)
theory KDebugProps
  imports KDebug
begin

text \<open>
  The binary search of the debug information: for a table sorted by address it finds the entry an
  address belongs to, and it ends on every table. The bounds that make this fail are shown too: an
  entry one past the address, and an address before the first entry.
\<close>

subsection \<open>The loop\<close>

definition is_type :: "stab_table \<Rightarrow> w8 \<Rightarrow> int \<Rightarrow> bool" where
  "is_type st t i \<longleftrightarrow> (case st i of None \<Rightarrow> False | Some s \<Rightarrow> n_type s = t)"

definition value_at :: "stab_table \<Rightarrow> int \<Rightarrow> w32" where
  "value_at st i = (case st i of None \<Rightarrow> 0 | Some s \<Rightarrow> n_value s)"

text \<open>The entries of a type in a region are readable and in increasing order of address.\<close>

definition sorted_stabs :: "stab_table \<Rightarrow> w8 \<Rightarrow> int \<Rightarrow> int \<Rightarrow> bool" where
  "sorted_stabs st t a b \<longleftrightarrow> (\<forall>i\<in>{a..b}. st i \<noteq> None) \<and>
     (\<forall>i\<in>{a..b}. \<forall>j\<in>{a..b}. i < j \<longrightarrow> is_type st t i \<longrightarrow> is_type st t j \<longrightarrow> value_at st i < value_at st j)"

lemma sorted_stabsD:
  "sorted_stabs st t a b \<Longrightarrow> a \<le> i \<Longrightarrow> i < j \<Longrightarrow> j \<le> b \<Longrightarrow> is_type st t i \<Longrightarrow> is_type st t j \<Longrightarrow>
     value_at st i < value_at st j"
  by (auto simp: sorted_stabs_def)

lemma seek_type_total:
  assumes "\<forall>i. l \<le> i \<and> i \<le> m \<longrightarrow> st i \<noteq> None"
  shows "seek_type st t l m \<noteq> None"
  using assms
proof (induction st t l m rule: seek_type.induct)
  case (1 st t l m)
  show ?case
  proof (cases "m \<ge> l")
    case True
    with 1(2) obtain s where "st m = Some s" by fastforce
    with 1 True show ?thesis by (subst seek_type.simps) auto
  qed (subst seek_type.simps, simp)
qed

text \<open>What one seek gives in a sorted region.\<close>

lemma seek_type_hit:
  assumes "\<forall>i. l \<le> i \<and> i \<le> m \<longrightarrow> st i \<noteq> None" and "l \<le> m"
  obtains k where "seek_type st t l m = Some k" "l - 1 \<le> k" "k \<le> m"
    "\<And>i. k < i \<Longrightarrow> i \<le> m \<Longrightarrow> \<not> is_type st t i"
    "l \<le> k \<Longrightarrow> is_type st t k \<and> map_option n_value (st k) = Some (value_at st k)"
proof -
  from seek_type_total [OF assms(1)] obtain k where k: "seek_type st t l m = Some k" by blast
  from seek_type_cases [OF this] assms(2) show ?thesis
    by (intro that [OF k]) (force simp: is_type_def value_at_def)+
qed

text \<open>
  The invariant of the loop. \<open>low\<close> says that the entries before the region are at or before the
  address, \<open>high\<close> that those after it are past it.
\<close>

definition search_inv ::
  "stab_table \<Rightarrow> w8 \<Rightarrow> int \<Rightarrow> int \<Rightarrow> w32 \<Rightarrow> int \<Rightarrow> int \<Rightarrow> int \<Rightarrow> bool \<Rightarrow> bool" where
  "search_inv st t a b addr l r left any \<longleftrightarrow>
     a \<le> l \<and> l \<le> r + 1 \<and> r \<le> b \<and>
     (\<forall>i. a \<le> i \<and> i < l \<and> is_type st t i \<longrightarrow> value_at st i \<le> addr) \<and>
     (\<forall>i. r < i \<and> i \<le> b \<and> is_type st t i \<longrightarrow> value_at st i > addr) \<and>
     (r = b \<or> is_type st t (r + 1)) \<and>
     (any \<and> a \<le> left \<and> left \<le> r \<and> is_type st t left \<and> value_at st left \<le> addr \<and>
        (\<forall>i. left < i \<and> i < l \<longrightarrow> \<not> is_type st t i) \<or>
      (\<forall>i. a \<le> i \<and> i < l \<longrightarrow> \<not> is_type st t i))"

lemma search_inv_skip:
  assumes "search_inv st t a b addr l r left any" "l \<le> mid" "mid \<le> r"
    "\<And>i. l \<le> i \<Longrightarrow> i \<le> mid \<Longrightarrow> \<not> is_type st t i"
  shows "search_inv st t a b addr (mid + 1) r left any"
proof -
  have "i \<le> mid \<Longrightarrow> is_type st t i \<Longrightarrow> i < l" for i
    using assms(4)[of i] by linarith
  with assms(1,2,3) show ?thesis unfolding search_inv_def by (smt (verit))
qed

lemma search_inv_found:
  assumes "search_inv st t a b addr l r left any" and so: "sorted_stabs st t a b"
    and m: "l \<le> m" "m \<le> mid" "mid \<le> r" "is_type st t m" "value_at st m \<le> addr"
    and none: "\<And>i. m < i \<Longrightarrow> i \<le> mid \<Longrightarrow> \<not> is_type st t i"
  shows "search_inv st t a b addr (mid + 1) r m True"
proof -
  have "value_at st i \<le> addr" if i: "a \<le> i" "i < mid + 1" "is_type st t i" for i
  proof (cases i m rule: linorder_cases)
    case less
    have "value_at st i < value_at st m"
      using assms(1) m i less by (intro sorted_stabsD [OF so]) (auto simp: search_inv_def)
    with m(5) show ?thesis by simp
  next
    case greater
    with i none [of i] show ?thesis by simp
  qed (use m in simp)
  then show ?thesis
    using assms(1) m none unfolding search_inv_def by auto
qed

lemma search_inv_exact:
  assumes "search_inv st t a b addr l r left any" and so: "sorted_stabs st t a b"
    and m: "l \<le> m" "m \<le> r" "is_type st t m" "value_at st m \<le> addr"
  shows "search_inv st t a b addr m r m True"
proof -
  have "value_at st i \<le> addr" if i: "a \<le> i" "i < m" "is_type st t i" for i
  proof -
    have "value_at st i < value_at st m"
      using assms(1) m i by (intro sorted_stabsD [OF so]) (auto simp: search_inv_def)
    with m(4) show ?thesis by simp
  qed
  then show ?thesis using assms(1) m unfolding search_inv_def by auto
qed

lemma search_inv_past:
  assumes inv: "search_inv st t a b addr l r left any" and so: "sorted_stabs st t a b"
    and m: "l \<le> m" "m \<le> r" "is_type st t m" "value_at st m > addr"
  shows "search_inv st t a b addr l (m - 1) left True"
proof -
  have hi: "value_at st i > addr" if i: "m - 1 < i" "i \<le> b" "is_type st t i" for i
  proof (cases "i = m")
    case False
    have "value_at st m < value_at st i"
      using inv m i False by (intro sorted_stabsD [OF so]) (auto simp: search_inv_def)
    with m(4) show ?thesis by simp
  qed (use m in simp)
  have left: "left \<le> m - 1" if "left \<le> r" "value_at st left \<le> addr" "is_type st t left"
  proof (rule ccontr)
    assume "\<not> left \<le> m - 1"
    then have "value_at st left > addr" using hi [of left] that inv by (simp add: search_inv_def)
    with that(2) show False by simp
  qed
  have "(\<forall>i. m - 1 < i \<and> i \<le> b \<and> is_type st t i \<longrightarrow> value_at st i > addr)" using hi by blast
  moreover have "True \<and> a \<le> left \<and> left \<le> m - 1 \<and> is_type st t left \<and> value_at st left \<le> addr \<and>
        (\<forall>i. left < i \<and> i < l \<longrightarrow> \<not> is_type st t i) \<or>
      (\<forall>i. a \<le> i \<and> i < l \<longrightarrow> \<not> is_type st t i)"
    using inv left unfolding search_inv_def by blast
  ultimately show ?thesis using inv m unfolding search_inv_def by simp
qed

lemma less_succ_word: "(b :: w32) + 1 \<noteq> 0 \<Longrightarrow> a < b + 1 \<longleftrightarrow> a \<le> b"
  by (simp add: word_less_nat_alt word_le_nat_alt unatSuc less_Suc_eq_le add.commute [of b])

text \<open>The loop ends, and its result satisfies the invariant with an empty region.\<close>

lemma stab_search_correct:
  assumes "sorted_stabs st t a b" and "addr + 1 \<noteq> 0"
    and "\<forall>i\<in>{a..b}. is_type st t i \<longrightarrow> value_at st i \<noteq> addr + 1"
    and "A = addr \<or> A = addr + 1" and "search_inv st t a b addr l r left any" and "right = r"
  shows "\<exists>L R any'. stab_search st t l r A left right any = Some (L, R, any') \<and>
    search_inv st t a b addr (R + 1) R L any'"
  using assms
proof (induction st t l r A left right any rule: stab_search.induct)
  case (1 st t l r A left right any)
  note so = 1(5) and wrap = 1(6) and no = 1(7) and A = 1(8) and inv = 1(9)
  show ?case
  proof (cases "l > r")
    case True
    with inv have "l = r + 1" by (simp add: search_inv_def)
    with True inv 1(10) show ?thesis by (subst stab_search.simps) simp
  next
    case False
    define mid where "mid = (l + r) div 2"
    have mid: "l \<le> mid" "mid \<le> r" using False by (auto simp: mid_def)
    have "\<forall>i. l \<le> i \<and> i \<le> mid \<longrightarrow> st i \<noteq> None"
      using so inv mid by (simp add: sorted_stabs_def search_inv_def)
    from seek_type_hit [OF this mid(1)] obtain m where m: "seek_type st t l mid = Some m"
      "l - 1 \<le> m" "m \<le> mid" "\<And>i. m < i \<Longrightarrow> i \<le> mid \<Longrightarrow> \<not> is_type st t i"
      "l \<le> m \<Longrightarrow> is_type st t m \<and> map_option n_value (st m) = Some (value_at st m)" by blast
    note ih = 1(1-4) [OF False mid_def m(1)]
    show ?thesis
    proof (cases "m < l")
      case True
      have "search_inv st t a b addr (mid + 1) r left any"
        by (rule search_inv_skip [OF inv mid]) (use True m(4) in simp)
      from ih(1) [OF True so wrap no A this 1(10)] show ?thesis
        using False True m(1) by (subst stab_search.simps) (simp add: mid_def [symmetric] Let_def)
    next
      case hit: False
      then have T: "is_type st t m" and v: "map_option n_value (st m) = Some (value_at st m)"
        using m(5) by auto
      have ne: "value_at st m \<noteq> addr + 1"
        using no T hit inv mid m(3) by (simp add: search_inv_def)
      note lt = less_succ_word [OF wrap, of "value_at st m"]
      have step: "stab_search st t l r A left right any =
          (if value_at st m < A then stab_search st t (mid + 1) r A m right True
           else if value_at st m > A then stab_search st t l (m - 1) A left (m - 1) True
           else stab_search st t m r (A + 1) m right True)"
      proof -
        from v obtain z where "st m = Some z" "n_value z = value_at st m" by auto
        then show ?thesis using False hit m(1)
          by (subst stab_search.simps) (simp add: mid_def [symmetric] Let_def)
      qed
      have mr: "m \<le> r" using m(3) mid by simp
      consider "value_at st m < A" | "value_at st m > A" | "value_at st m = A" by fastforce
      then show ?thesis
      proof cases
        case 1
        with A lt have "value_at st m \<le> addr" by auto
        from search_inv_found [OF inv so _ m(3) mid(2) T this m(4)] hit
        have "search_inv st t a b addr (mid + 1) r m True" by simp
        from ih(2) [OF hit refl _ _ so wrap no A this \<open>right = r\<close>] 1 v show ?thesis
          by (simp add: step)
      next
        case 2
        with A lt ne have "value_at st m > addr" by (auto simp: not_less [symmetric])
        from search_inv_past [OF inv so _ mr T this] hit
        have "search_inv st t a b addr l (m - 1) left True" by simp
        from ih(3) [OF hit refl _ _ _ so wrap no A this refl] 2 v less_not_sym [OF 2] show ?thesis
          by (simp add: step)
      next
        case 3
        with A ne have eq: "A = addr" by auto
        from search_inv_exact [OF inv so _ mr T] hit 3 eq
        have "search_inv st t a b addr m r m True" by simp
        from ih(4) [OF hit refl _ _ _ so wrap no _ this \<open>right = r\<close>] 3 v eq show ?thesis
          unfolding step by simp
      qed
    qed
  qed
qed

subsection \<open>The search\<close>

lemma back_to_type_finds:
  assumes "is_type st t left" "nat (l - left) \<le> n"
    and "\<And>i. left < i \<Longrightarrow> i \<le> l \<Longrightarrow> st i \<noteq> None \<and> \<not> is_type st t i" and "left \<le> l"
  shows "back_to_type st t left n l = Some left"
  using assms(2-)
proof (induction n arbitrary: l)
  case 0
  then show ?case by simp
next
  case (Suc n)
  show ?case
  proof (cases "l = left")
    case False
    with Suc.prems(2) [of l] Suc.prems(3) obtain s where "st l = Some s" "n_type s \<noteq> t"
      by (auto simp: is_type_def)
    moreover have "back_to_type st t left n (l - 1) = Some left"
      using Suc.prems False by (intro Suc.IH) auto
    ultimately show ?thesis using False Suc.prems(3) by simp
  qed simp
qed

text \<open>C40. In a table whose entries of a type are sorted by address, the search of an address at or
  after one of them, other than the last address, with no entry of the type exactly one past it
  (\<open>exact_match_takes_next\<close>), ends and brackets the address: the left end is
  an entry of the type at or before the address, every later entry of the type is past it, and the
  right end is the last index before the next entry of the type.\<close>

theorem stab_binsearch_brackets:
  assumes "sorted_stabs st t a b" and "addr + 1 \<noteq> 0"
    and "\<forall>i\<in>{a..b}. is_type st t i \<longrightarrow> value_at st i \<noteq> addr + 1"
    and "i \<in> {a..b}" and "is_type st t i" and "value_at st i \<le> addr"
  shows "\<exists>L R. stab_binsearch st a b t addr = Some (L, R) \<and> a \<le> L \<and> L \<le> R \<and> R \<le> b \<and>
    is_type st t L \<and> value_at st L \<le> addr \<and>
    (\<forall>j. L < j \<and> j \<le> b \<and> is_type st t j \<longrightarrow> value_at st j > addr) \<and>
    (\<forall>j. L < j \<and> j \<le> R \<longrightarrow> \<not> is_type st t j) \<and> (R = b \<or> is_type st t (R + 1))"
proof -
  have "search_inv st t a b addr a b a False" using assms(4) by (auto simp: search_inv_def)
  from stab_search_correct [OF assms(1-3) _ this refl, of addr] obtain L R any' where
    r: "stab_search st t a b addr a b False = Some (L, R, any')"
    and inv: "search_inv st t a b addr (R + 1) R L any'" by blast
  have hi: "\<And>j. R < j \<Longrightarrow> j \<le> b \<Longrightarrow> is_type st t j \<Longrightarrow> value_at st j > addr"
    and nxt: "R = b \<or> is_type st t (R + 1)" and "R \<le> b"
    and last: "any' \<and> a \<le> L \<and> L \<le> R \<and> is_type st t L \<and> value_at st L \<le> addr \<and>
        (\<forall>j. L < j \<and> j < R + 1 \<longrightarrow> \<not> is_type st t j) \<or>
      (\<forall>j. a \<le> j \<and> j < R + 1 \<longrightarrow> \<not> is_type st t j)"
    using inv by (simp_all add: search_inv_def)
  have "i \<le> R" using hi [of i] assms(4-6) by (meson atLeastAtMost_iff not_le)
  then have "\<not> (\<forall>j. a \<le> j \<and> j < R + 1 \<longrightarrow> \<not> is_type st t j)" using assms(4,5) by auto
  with last have any: "any'" and L: "a \<le> L" "L \<le> R" "R \<le> b" "is_type st t L" "value_at st L \<le> addr"
    and none: "\<And>j. L < j \<Longrightarrow> j \<le> R \<Longrightarrow> \<not> is_type st t j"
    using \<open>R \<le> b\<close> by (simp_all only: zle_add1_eq_le) blast+
  have "back_to_type st t L (nat (R - L)) R = Some L"
    using L none assms(1) by (intro back_to_type_finds) (auto simp: sorted_stabs_def)
  with r any have "stab_binsearch st a b t addr = Some (L, R)" by (simp add: stab_binsearch_def)
  moreover have "value_at st j > addr" if "L < j" "j \<le> b" "is_type st t j" for j
    using that none [of j] hi [of j] by linarith
  ultimately show ?thesis using L none nxt by blast
qed

text \<open>A table of one source file with two functions and a line.\<close>

definition demo_stab :: "w8 \<Rightarrow> w32 \<Rightarrow> stab" where
  "demo_stab ty v = \<lparr>n_strx = 0, n_type = ty, n_other = 0, n_desc = 0, n_value = v\<rparr>"

definition demo_table :: stab_table where
  "demo_table i =
     (if i = 0 then Some (demo_stab N_FUN 0x10) else if i = 1 then Some (demo_stab N_SLINE 0x12)
      else if i = 2 then Some (demo_stab N_FUN 0x11) else if i = 3 then Some (demo_stab N_FUN 0x30)
      else None)"

lemmas demo_table_defs = demo_table_def demo_stab_def N_FUN_def N_SLINE_def is_type_def value_at_def

lemma up_to_3: "(i :: int) \<in> {0..3} \<longleftrightarrow> i = 0 \<or> i = 1 \<or> i = 2 \<or> i = 3"
  by auto

lemma stab_binsearch_brackets_witness:
  "\<exists>L R. stab_binsearch demo_table 0 3 N_FUN 0x20 = Some (L, R) \<and> 0 \<le> L \<and> L \<le> R \<and> R \<le> 3 \<and>
    is_type demo_table N_FUN L \<and> value_at demo_table L \<le> 0x20 \<and>
    (\<forall>j. L < j \<and> j \<le> 3 \<and> is_type demo_table N_FUN j \<longrightarrow> value_at demo_table j > 0x20) \<and>
    (\<forall>j. L < j \<and> j \<le> R \<longrightarrow> \<not> is_type demo_table N_FUN j) \<and> (R = 3 \<or> is_type demo_table N_FUN (R + 1))"
proof (rule stab_binsearch_brackets [where i = 0])
  show "sorted_stabs demo_table N_FUN 0 3"
    unfolding sorted_stabs_def Ball_def up_to_3 by (auto simp: demo_table_defs)
  show "\<forall>i\<in>{0..3}. is_type demo_table N_FUN i \<longrightarrow> value_at demo_table i \<noteq> 0x20 + 1"
    unfolding Ball_def up_to_3 by (auto simp: demo_table_defs)
qed (simp_all add: demo_table_defs)

text \<open>
  An exact match makes the loop look for the next address: the entry at \<open>0x11\<close> is taken for the
  function of \<open>0x10\<close>. An address before every function is bracketed by the first index of the region.
\<close>

lemma exact_match_takes_next: "stab_binsearch demo_table 0 3 N_FUN 0x10 = Some (2, 2)"
  by code_simp

lemma before_first_is_bracketed: "stab_binsearch demo_table 1 3 N_FUN 0x10 = Some (1, 1)"
  by code_simp

end
