(* ===== verification/UserLib.thy ===== *)
theory UserLib
  imports SyscallProps
begin

unbundle bit_operations_syntax

text \<open>
  The library of the user programs that talks to the kernel: the stubs of the system calls
  (\<open>sched/lib/syscall.c\<close>), page fault handlers (\<open>pgfault.c\<close>), \<open>fork\<close> (\<open>fork.c\<close>), messages (\<open>ipc.c\<close>),
  start and end of a program (\<open>libmain.c\<close>, \<open>exit.c\<close>) and its console (\<open>console.c\<close>). A function runs on a
  processor \<open>c\<close> whose current environment it belongs to, and works on the whole machine. It returns
  a value, panics, or loses the processor for good. \<open>None\<close> is a panic of the kernel or an access to memory
  that the program may not make. No other environment runs in between, except where a loop
  yields; what a function writes to its own stack and global variables is not modelled.
\<close>

datatype 'a usr = Returned 'a | UserPanic | OffCpu outcome

type_synonym 'a uresult = "(machine \<times> 'a usr) option"

definition uret :: "machine \<Rightarrow> 'a \<Rightarrow> 'a uresult" where "uret m x = Some (m, Returned x)"

definition upanic :: "machine \<Rightarrow> 'a uresult" where "upanic m = Some (m, UserPanic)"

text \<open>The rest of a function after a call.\<close>

fun andthen :: "'a uresult \<Rightarrow> (machine \<Rightarrow> 'a \<Rightarrow> 'b uresult) \<Rightarrow> 'b uresult" where
  "andthen None k = None"
| "andthen (Some (m, Returned x)) k = k m x"
| "andthen (Some (m, UserPanic)) k = Some (m, UserPanic)"
| "andthen (Some (m, OffCpu r)) k = Some (m, OffCpu r)"

text \<open>The rest after a call whose negative results make the function panic.\<close>

definition or_panic :: "int uresult \<Rightarrow> (machine \<Rightarrow> 'b uresult) \<Rightarrow> 'b uresult" where
  "or_panic r k = andthen r (\<lambda>m x. if x < 0 then upanic m else k m)"

subsection \<open>System calls\<close>

text \<open>The registers as \<open>int\<close> arguments; \<open>check\<close> panics on a positive result.\<close>

definition usyscall ::
  "scheduler \<Rightarrow> nat \<Rightarrow> machine \<Rightarrow> w32 \<Rightarrow> bool \<Rightarrow> w32 \<Rightarrow> w32 \<Rightarrow> w32 \<Rightarrow> w32 \<Rightarrow> w32 \<Rightarrow> int uresult" where
  "usyscall cfg c m num check a1 a2 a3 a4 a5 = do {
     (m, _, r) \<leftarrow> syscall cfg c [] [] m num a1 a2 a3 a4 a5;
     case r of
       Gone out \<Rightarrow> Some (m, OffCpu out)
     | Ret w \<Rightarrow> if check \<and> sint w > 0 then upanic m else uret m (sint w)
   }"

definition u_cputs :: "scheduler \<Rightarrow> nat \<Rightarrow> machine \<Rightarrow> w32 \<Rightarrow> w32 \<Rightarrow> (machine \<times> w8 list \<times> sysret) option" where
  "u_cputs cfg c m p len = syscall cfg c [] [] m 0 p len 0 0 0"

definition u_cgetc :: "scheduler \<Rightarrow> nat \<Rightarrow> reading list \<Rightarrow> reading list \<Rightarrow> machine \<Rightarrow> (machine \<times> w8 list \<times> sysret) option" where
  "u_cgetc cfg c serial kbd m = syscall cfg c serial kbd m 1 0 0 0 0 0"

definition u_env_destroy :: "scheduler \<Rightarrow> nat \<Rightarrow> machine \<Rightarrow> w32 \<Rightarrow> int uresult" where
  "u_env_destroy cfg c m envid = usyscall cfg c m 3 True envid 0 0 0 0"

definition u_getenvid :: "scheduler \<Rightarrow> nat \<Rightarrow> machine \<Rightarrow> int uresult" where
  "u_getenvid cfg c m = usyscall cfg c m 2 False 0 0 0 0 0"

definition u_yield :: "scheduler \<Rightarrow> nat \<Rightarrow> machine \<Rightarrow> int uresult" where
  "u_yield cfg c m = usyscall cfg c m 10 False 0 0 0 0 0"

definition u_page_alloc :: "scheduler \<Rightarrow> nat \<Rightarrow> machine \<Rightarrow> w32 \<Rightarrow> w32 \<Rightarrow> w32 \<Rightarrow> int uresult" where
  "u_page_alloc cfg c m envid va perm = usyscall cfg c m 4 True envid va perm 0 0"

definition u_page_map :: "scheduler \<Rightarrow> nat \<Rightarrow> machine \<Rightarrow> w32 \<Rightarrow> w32 \<Rightarrow> w32 \<Rightarrow> w32 \<Rightarrow> w32 \<Rightarrow> int uresult" where
  "u_page_map cfg c m srcenv srcva dstenv dstva perm = usyscall cfg c m 5 True srcenv srcva dstenv dstva perm"

definition u_page_unmap :: "scheduler \<Rightarrow> nat \<Rightarrow> machine \<Rightarrow> w32 \<Rightarrow> w32 \<Rightarrow> int uresult" where
  "u_page_unmap cfg c m envid va = usyscall cfg c m 6 True envid va 0 0 0"

text \<open>The inlined \<open>sys_exofork\<close> has no check; its unused registers hold anything.\<close>

definition u_exofork :: "scheduler \<Rightarrow> nat \<Rightarrow> machine \<Rightarrow> int uresult" where
  "u_exofork cfg c m = usyscall cfg c m 7 False 0 0 0 0 0"

definition u_env_set_status :: "scheduler \<Rightarrow> nat \<Rightarrow> machine \<Rightarrow> w32 \<Rightarrow> w32 \<Rightarrow> int uresult" where
  "u_env_set_status cfg c m envid st = usyscall cfg c m 8 True envid st 0 0 0"

definition u_env_set_pgfault_upcall :: "scheduler \<Rightarrow> nat \<Rightarrow> machine \<Rightarrow> w32 \<Rightarrow> w32 \<Rightarrow> int uresult" where
  "u_env_set_pgfault_upcall cfg c m envid upcall = usyscall cfg c m 9 True envid upcall 0 0 0"

definition u_ipc_try_send :: "scheduler \<Rightarrow> nat \<Rightarrow> machine \<Rightarrow> w32 \<Rightarrow> w32 \<Rightarrow> w32 \<Rightarrow> w32 \<Rightarrow> int uresult" where
  "u_ipc_try_send cfg c m envid v srcva perm = usyscall cfg c m 11 False envid v srcva perm 0"

definition u_ipc_recv :: "scheduler \<Rightarrow> nat \<Rightarrow> machine \<Rightarrow> w32 \<Rightarrow> int uresult" where
  "u_ipc_recv cfg c m dstva = usyscall cfg c m 12 True dstva 0 0 0 0"

definition u_get_priority :: "scheduler \<Rightarrow> nat \<Rightarrow> machine \<Rightarrow> w32 \<Rightarrow> int uresult" where
  "u_get_priority cfg c m envid = usyscall cfg c m 13 False envid 0 0 0 0"

definition u_set_priority :: "scheduler \<Rightarrow> nat \<Rightarrow> machine \<Rightarrow> w32 \<Rightarrow> w32 \<Rightarrow> int uresult" where
  "u_set_priority cfg c m envid priority = usyscall cfg c m 14 False envid priority 0 0 0"

subsection \<open>The program's view of its page tables\<close>

text \<open>
  A word of memory as a program reads it: every level has to be present and open to it. The
  entry of \<open>UVPT\<close> in a page directory names the directory itself, so that the page tables appear as
  the array \<open>uvpt\<close> and the directory as \<open>uvpd\<close>.
\<close>

definition user_word :: "pmem \<Rightarrow> nat \<Rightarrow> w32 \<Rightarrow> w32 option" where
  "user_word s pgdir va =
     (let pde = phys s pgdir (PDX va); pte = phys s (PGNUM pde) (PTX va); ok = PTE_P OR PTE_U
      in if pde AND ok \<noteq> ok \<or> pte AND ok \<noteq> ok then None
         else Some (phys s (PGNUM pte) (unat (va AND 0xFFF) div 4)))"

definition current_pgdir :: "nat \<Rightarrow> machine \<Rightarrow> nat option" where
  "current_pgdir c m = do { k \<leftarrow> cpu_env (kst m) c; env_pgdir (envs (kst m) k) }"

definition uvpt :: "nat \<Rightarrow> machine \<Rightarrow> nat \<Rightarrow> w32 option" where
  "uvpt c m pn = do {
     pgdir \<leftarrow> current_pgdir c m; user_word (vm (kst m)) pgdir (UVPT + 4 * word_of_nat pn) }"

definition uvpd :: "nat \<Rightarrow> machine \<Rightarrow> nat \<Rightarrow> w32 option" where
  "uvpd c m d = do {
     pgdir \<leftarrow> current_pgdir c m;
     user_word (vm (kst m)) pgdir (UVPT + 4 * drop_bit 12 UVPT + 4 * word_of_nat d) }"

definition page_addr :: "nat \<Rightarrow> w32" where "page_addr pn = push_bit 12 (word_of_nat pn)"

text \<open>
  \<open>memmove\<close> of a page between page-aligned addresses: it reads and writes through the
  page tables.
\<close>

definition user_frame :: "pmem \<Rightarrow> nat \<Rightarrow> w32 \<Rightarrow> w32 \<Rightarrow> nat option" where
  "user_frame s pgdir va need =
     (let pde = phys s pgdir (PDX va); pte = phys s (PGNUM pde) (PTX va); ok = PTE_P OR PTE_U OR need
      in if pde AND ok \<noteq> ok \<or> pte AND ok \<noteq> ok then None else Some (PGNUM pte))"

definition move_page :: "nat \<Rightarrow> machine \<Rightarrow> w32 \<Rightarrow> w32 \<Rightarrow> machine option" where
  "move_page c m dst src = do {
     pgdir \<leftarrow> current_pgdir c m;
     q \<leftarrow> user_frame (vm (kst m)) pgdir src 0;
     p \<leftarrow> user_frame (vm (kst m)) pgdir dst PTE_W;
     let f = phys (vm (kst m));
     Some (m\<lparr>kst := (kst m)\<lparr>vm := (vm (kst m))\<lparr>phys := f(p := (\<lambda>i. if i < 1024 then f q i else f p i))\<rparr>\<rparr>\<rparr>)
   }"

subsection \<open>Page faults\<close>

definition PTE_COW :: w32 where "PTE_COW = 0x800"
definition FEC_WR :: w32 where "FEC_WR = 0x2"

text \<open>\<open>pgfault\<close>: the negation of the test is logical and the conjunction bitwise.\<close>

definition pgfault :: "scheduler \<Rightarrow> nat \<Rightarrow> machine \<Rightarrow> w32 \<Rightarrow> w32 \<Rightarrow> unit uresult" where
  "pgfault cfg c m fault_va err = do {
     fault_pte \<leftarrow> uvpt c m (PGNUM fault_va);
     if (err AND FEC_WR) AND (if fault_pte AND PTE_COW = 0 then 1 else 0) \<noteq> 0 then upanic m
     else
       let perm = PTE_P OR PTE_U OR PTE_W in
       or_panic (u_page_alloc cfg c m 0 PFTEMP perm) (\<lambda>m. do {
         let addr = ROUNDDOWN fault_va PGSIZE;
         m \<leftarrow> move_page c m PFTEMP addr;
         or_panic (u_page_map cfg c m 0 PFTEMP 0 addr perm) (\<lambda>m.
           or_panic (u_page_unmap cfg c m 0 PFTEMP) (\<lambda>m. uret m ()))
       })
   }"

text \<open>
  A write of the program to its stack, where \<open>pgfault\<close> is its handler. If the page of \<open>esp\<close> is not writable, the
  write faults: the kernel destroys a program without an upcall or an exception stack, and otherwise runs the handler
  (\<open>page_fault_handler\<close>, \<open>pfentry.S\<close>) with the error code of a write to a page that is there. The words
  written are not part of the model.
\<close>

definition touch_stack :: "scheduler \<Rightarrow> nat \<Rightarrow> machine \<Rightarrow> w32 \<Rightarrow> unit uresult" where
  "touch_stack cfg c m esp = do {
     k \<leftarrow> cpu_env (kst m) c;
     pgdir \<leftarrow> env_pgdir (envs (kst m) k);
     if user_frame (vm (kst m)) pgdir esp PTE_W \<noteq> None then uret m ()
     else do {
       (s, gone) \<leftarrow> (if env_pgfault_upcall (envs (kst m) k) \<noteq> 0
                     then user_mem_assert cfg c (kst m) k (UXSTACKTOP - PGSIZE) PGSIZE (PTE_U OR PTE_W)
                     else env_destroy cfg c (kst m) k);
       case gone of Some out \<Rightarrow> Some (m\<lparr>kst := s\<rparr>, OffCpu out) | None \<Rightarrow> pgfault cfg c (m\<lparr>kst := s\<rparr>) esp 7
     }
   }"

text \<open>\<open>set_pgfault_handler\<close>: the new value of \<open>_pgfault_handler\<close>; \<open>upcall\<close> is \<open>_pgfault_upcall\<close>.\<close>

definition set_pgfault_handler ::
  "scheduler \<Rightarrow> nat \<Rightarrow> machine \<Rightarrow> w32 \<Rightarrow> w32 \<Rightarrow> w32 \<Rightarrow> w32 uresult" where
  "set_pgfault_handler cfg c m upcall old handler =
     (if old \<noteq> 0 then uret m handler
      else
        let exstk = UXSTACKTOP - PGSIZE; perm = PTE_U OR PTE_P OR PTE_W in
        andthen (u_page_alloc cfg c m 0 exstk perm) (\<lambda>m r.
          if r < 0 then uret m old
          else andthen (u_env_set_pgfault_upcall cfg c m 0 upcall) (\<lambda>m r.
            if r < 0 then uret m old else uret m handler)))"

subsection \<open>Copies of an address space\<close>

definition duppage :: "scheduler \<Rightarrow> nat \<Rightarrow> machine \<Rightarrow> w32 \<Rightarrow> nat \<Rightarrow> unit uresult" where
  "duppage cfg c m envid pn = do {
     let addr = page_addr pn;
     pte \<leftarrow> uvpt c m pn;
     if pte AND PTE_P = 0 \<or> pte AND PTE_U = 0 then upanic m
     else
       let perm = PTE_U OR PTE_P;
           perm = (if pte AND (PTE_PCD OR PTE_PWT) \<noteq> 0 then perm OR (PTE_PCD OR PTE_PWT) else perm)
       in if pte AND PTE_W \<noteq> 0 \<or> pte AND PTE_COW \<noteq> 0
          then or_panic (u_page_map cfg c m 0 addr envid addr (perm OR PTE_COW)) (\<lambda>m.
                 or_panic (u_page_map cfg c m 0 addr 0 addr (perm OR PTE_COW)) (\<lambda>m. uret m ()))
          else or_panic (u_page_map cfg c m 0 addr envid addr perm) (\<lambda>m. uret m ())
   }"

definition dup_or_share :: "scheduler \<Rightarrow> nat \<Rightarrow> machine \<Rightarrow> w32 \<Rightarrow> nat \<Rightarrow> w32 \<Rightarrow> unit uresult" where
  "dup_or_share cfg c m envid pnum perm = do {
     let addr = page_addr pnum;
     pte \<leftarrow> uvpt c m pnum;
     if pte AND PTE_P = 0 then uret m ()
     else
       let io = pte AND (PTE_PCD OR PTE_PWT) \<noteq> 0;
           perm = perm AND (pte AND PTE_W);
           perm = perm AND PTE_SYSCALL;
           perm = (if io then perm OR (PTE_PCD OR PTE_PWT) else perm)
       in if pte AND PTE_W = 0 \<or> io
          then or_panic (u_page_map cfg c m 0 addr envid addr perm) (\<lambda>m. uret m ())
          else or_panic (u_page_alloc cfg c m envid addr perm) (\<lambda>m.
            or_panic (u_page_map cfg c m envid addr 0 UTEMP perm) (\<lambda>m. do {
              m \<leftarrow> move_page c m UTEMP addr;
              or_panic (u_page_unmap cfg c m 0 UTEMP) (\<lambda>m. uret m ())
            }))
   }"

text \<open>Whether the page table of a page is there for the program.\<close>

definition table_present :: "w32 \<Rightarrow> bool" where
  "table_present pde \<longleftrightarrow> \<not> (pde AND PTE_P = 0 \<or> pde AND PTE_U = 0)"

fun fork_v0_loop :: "scheduler \<Rightarrow> nat \<Rightarrow> nat list \<Rightarrow> machine \<Rightarrow> w32 \<Rightarrow> unit uresult" where
  "fork_v0_loop cfg c [] m envid = uret m ()"
| "fork_v0_loop cfg c (pnum # ps) m envid = do {
     pde \<leftarrow> uvpd c m (pnum div 1024);
     if \<not> table_present pde then fork_v0_loop cfg c ps m envid
     else andthen (dup_or_share cfg c m envid pnum (PTE_P OR PTE_U OR PTE_W)) (\<lambda>m _.
       fork_v0_loop cfg c ps m envid)
   }"

text \<open>
  The loop pushes the arguments of each call at \<open>esp\<close>, an address of its stack page. After \<open>duppage\<close> has made
  that page copy-on-write, the push for the next call faults.
\<close>

fun fork_loop :: "scheduler \<Rightarrow> nat \<Rightarrow> w32 \<Rightarrow> nat list \<Rightarrow> machine \<Rightarrow> w32 \<Rightarrow> unit uresult" where
  "fork_loop cfg c esp [] m envid = uret m ()"
| "fork_loop cfg c esp (pnum # ps) m envid =
     (if pnum = PGNUM UXSTACKTOP - 1 then fork_loop cfg c esp ps m envid
      else do {
        pde \<leftarrow> uvpd c m (pnum div 1024);
        if \<not> table_present pde then fork_loop cfg c esp ps m envid
        else do {
          pte \<leftarrow> uvpt c m pnum;
          if pte AND PTE_P = 0 \<or> pte AND PTE_U = 0 then fork_loop cfg c esp ps m envid
          else andthen (touch_stack cfg c m esp) (\<lambda>m _.
            andthen (duppage cfg c m envid pnum) (\<lambda>m _. fork_loop cfg c esp ps m envid))
        }
      })"

text \<open>
  \<open>thisenv\<close> is a slot of the array \<open>envs\<close>; the result is the new \<open>thisenv\<close>, where the function changes
  it, and the value returned.
\<close>

definition fork_child :: "scheduler \<Rightarrow> nat \<Rightarrow> machine \<Rightarrow> (nat \<times> int) uresult" where
  "fork_child cfg c m = andthen (u_getenvid cfg c m) (\<lambda>m id. uret m (ENVX (word_of_int id), 0))"

definition ENV_RUNNABLE_code :: w32 where "ENV_RUNNABLE_code = 2"

definition fork_v0 :: "scheduler \<Rightarrow> nat \<Rightarrow> machine \<Rightarrow> nat \<Rightarrow> (nat \<times> int) uresult" where
  "fork_v0 cfg c m thisenv = andthen (u_exofork cfg c m) (\<lambda>m envid.
     if envid < 0 then upanic m
     else if envid = 0 then fork_child cfg c m
     else andthen (fork_v0_loop cfg c [0..<PGNUM UTOP] m (word_of_int envid)) (\<lambda>m _.
       or_panic (u_env_set_status cfg c m (word_of_int envid) ENV_RUNNABLE_code) (\<lambda>m.
         uret m (thisenv, envid))))"

text \<open>
  The parent's part of \<open>fork\<close> after \<open>sys_exofork\<close>. The push for \<open>sys_page_alloc\<close> is the first write to the
  stack after the loop; the calls that follow find the page writable.
\<close>

definition fork_parent :: "scheduler \<Rightarrow> nat \<Rightarrow> machine \<Rightarrow> w32 \<Rightarrow> nat \<Rightarrow> int \<Rightarrow> (nat \<times> int) uresult" where
  "fork_parent cfg c m esp thisenv envid =
     (let w = word_of_int envid in
      andthen (fork_loop cfg c esp [0..<PGNUM UTOP] m w) (\<lambda>m _.
        andthen (touch_stack cfg c m esp) (\<lambda>m _.
          or_panic (u_page_alloc cfg c m w (UXSTACKTOP - PGSIZE) (PTE_U OR PTE_P OR PTE_W)) (\<lambda>m.
            or_panic (u_env_set_pgfault_upcall cfg c m w (env_pgfault_upcall (envs (kst m) thisenv))) (\<lambda>m.
              or_panic (u_env_set_status cfg c m w ENV_RUNNABLE_code) (\<lambda>m. uret m (thisenv, envid)))))))"

text \<open>\<open>fork\<close>: \<open>handler\<close> is \<open>_pgfault_handler\<close>, \<open>pgf\<close> the address of \<open>pgfault\<close>.\<close>

definition fork :: "scheduler \<Rightarrow> nat \<Rightarrow> machine \<Rightarrow> w32 \<Rightarrow> w32 \<Rightarrow> w32 \<Rightarrow> w32 \<Rightarrow> nat \<Rightarrow> (w32 \<times> nat \<times> int) uresult" where
  "fork cfg c m esp upcall handler pgf thisenv =
     andthen (set_pgfault_handler cfg c m upcall handler pgf) (\<lambda>m handler.
       andthen (u_exofork cfg c m) (\<lambda>m envid.
         if envid < 0 then upanic m
         else andthen (if envid = 0 then fork_child cfg c m else fork_parent cfg c m esp thisenv envid)
           (\<lambda>m r. uret m (handler, r))))"

definition sfork :: "machine \<Rightarrow> int uresult" where "sfork m = upanic m"

subsection \<open>Messages\<close>

text \<open>
  \<open>ipc_recv\<close> after its system call returned \<open>err\<close>: the values for \<open>*from_env_store\<close> and \<open>*perm_store\<close>, and the
  result. \<open>this\<close> is the environment as it reads itself.
\<close>

definition ipc_recv_result :: "env \<Rightarrow> int \<Rightarrow> w32 \<times> w32 \<times> int" where
  "ipc_recv_result this err =
     (if err = 0 then env_ipc_from this else 0, if err = 0 then env_ipc_perm this else 0,
      if err = 0 then sint (env_ipc_value this) else err)"

definition ipc_recv :: "scheduler \<Rightarrow> nat \<Rightarrow> machine \<Rightarrow> nat \<Rightarrow> w32 \<Rightarrow> (w32 \<times> w32 \<times> int) uresult" where
  "ipc_recv cfg c m thisenv pg = andthen (u_ipc_recv cfg c m pg) (\<lambda>m err.
     uret m (ipc_recv_result (envs (kst m) thisenv) err))"

text \<open>
  \<open>ipc_send\<close>: after a yield other environments run until the caller is on the processor again;
  \<open>resume n m\<close> is the machine when the caller continues after its \<open>n\<close>-th yield.
\<close>

partial_function (option) ipc_send_loop ::
  "scheduler \<Rightarrow> nat \<Rightarrow> (nat \<Rightarrow> machine \<Rightarrow> machine) \<Rightarrow> nat \<Rightarrow> machine \<Rightarrow> int \<Rightarrow> w32 \<Rightarrow> w32 \<Rightarrow> w32 \<Rightarrow> w32 \<Rightarrow> (machine \<times> int usr) option" where
  "ipc_send_loop cfg c resume n m r to_env v pg perm =
     (if r = - E_IPC_NOT_RECV then do {
        (m, y) \<leftarrow> u_yield cfg c m;
        let m = resume n m;
        (m, x) \<leftarrow> u_ipc_try_send cfg c m to_env v pg perm;
        case x of
          Returned r \<Rightarrow> ipc_send_loop cfg c resume (n + 1) m r to_env v pg perm
        | UserPanic \<Rightarrow> Some (m, UserPanic)
        | OffCpu out \<Rightarrow> Some (m, OffCpu out)
      } else Some (m, Returned r))"

declare ipc_send_loop.simps [code]

definition ipc_send ::
  "scheduler \<Rightarrow> nat \<Rightarrow> (nat \<Rightarrow> machine \<Rightarrow> machine) \<Rightarrow> machine \<Rightarrow> w32 \<Rightarrow> w32 \<Rightarrow> w32 \<Rightarrow> w32 \<Rightarrow> unit uresult" where
  "ipc_send cfg c resume m to_env v pg perm =
     (let pg = (if pg = 0 then UTOP else pg) in
      andthen (u_ipc_try_send cfg c m to_env v pg perm) (\<lambda>m r.
        andthen (ipc_send_loop cfg c resume 0 m r to_env v pg perm) (\<lambda>m r.
          if r < 0 then upanic m else uret m ())))"

fun find_env_loop :: "(nat \<Rightarrow> env) \<Rightarrow> nat list \<Rightarrow> nat \<Rightarrow> w32" where
  "find_env_loop es [] ty = 0"
| "find_env_loop es (i # is) ty = (if env_type (es i) = ty then env_id (es i) else find_env_loop es is ty)"

definition ipc_find_env :: "machine \<Rightarrow> nat \<Rightarrow> w32" where
  "ipc_find_env m ty = find_env_loop (envs (kst m)) [0..<NENV] ty"

subsection \<open>Start and end of a program\<close>

definition uexit :: "scheduler \<Rightarrow> nat \<Rightarrow> machine \<Rightarrow> unit uresult" where
  "uexit cfg c m = andthen (u_env_destroy cfg c m 0) (\<lambda>m _. uret m ())"

text \<open>
  \<open>libmain\<close>: the program is its \<open>umain\<close>, which gets \<open>thisenv\<close>, unset when the id is negative, and
  \<open>binaryname\<close> (\<open>None\<close> for its initial value).
\<close>

definition libmain ::
  "scheduler \<Rightarrow> nat \<Rightarrow> (machine \<Rightarrow> nat option \<Rightarrow> w32 option \<Rightarrow> unit uresult) \<Rightarrow> machine \<Rightarrow> w32 list \<Rightarrow> unit uresult" where
  "libmain cfg c umain m argv = andthen (u_getenvid cfg c m) (\<lambda>m id.
     let this = (if id \<ge> 0 then Some (ENVX (word_of_int id)) else None);
         binaryname = (case argv of [] \<Rightarrow> None | a # _ \<Rightarrow> Some a)
     in andthen (umain m this binaryname) (\<lambda>m _. uexit cfg c m))"

end
