(* ===== verification/Spaces.thy ===== *)
theory Spaces
  imports PmapProps
begin

unbundle bit_operations_syntax

text \<open>
  Several address spaces in one memory. \<open>grown\<close> is what an operation on one address space may change;
  \<open>apart\<close> says that two address spaces share no page table, so that operations on one
  keep the mappings of the other (\<open>grown_apart\<close>). They may share the frames they map.
\<close>

subsection \<open>What an insertion changes\<close>

definition grown :: "pmem \<Rightarrow> nat \<Rightarrow> w32 \<Rightarrow> pmem \<Rightarrow> bool" where
  "grown s D va s' \<longleftrightarrow> npages s' = npages s \<and>
     set (free_pages s') \<subseteq> set (free_pages s) \<and>
     set (free_pages s) \<subseteq> set (free_pages s') \<union> tables s' D \<and>
     tables s' D \<subseteq> tables s D \<union> set (free_pages s) \<and>
     (\<forall>q. q \<noteq> D \<and> q \<notin> tables s D \<and> q \<notin> set (free_pages s) \<longrightarrow> phys s' q = phys s q) \<and>
     (\<forall>d. phys s' D d = phys s D d \<or>
        d = PDX va \<and> phys s D d = 0 \<and> phys s' D d AND 7 = 7)"

lemma grownD:
  assumes "grown s D va s'"
  shows "npages s' = npages s" and "x \<in> set (free_pages s') \<Longrightarrow> x \<in> set (free_pages s)"
    and "x \<in> set (free_pages s) \<Longrightarrow> x \<in> set (free_pages s') \<or> x \<in> tables s' D"
    and "x \<in> tables s' D \<Longrightarrow> x \<in> tables s D \<or> x \<in> set (free_pages s)"
    and "q \<noteq> D \<Longrightarrow> q \<notin> tables s D \<Longrightarrow> q \<notin> set (free_pages s) \<Longrightarrow> phys s' q = phys s q"
    and "d \<noteq> PDX va \<or> phys s D d \<noteq> 0 \<Longrightarrow> phys s' D d = phys s D d"
    and "phys s' D d = phys s D d \<or> phys s' D d AND 7 = 7"
  using assms unfolding grown_def by blast+

lemma grown_refl: "grown s D va s"
  by (auto simp: grown_def)

text \<open>The counts of the frames that stay free.\<close>

definition frees_kept :: "pmem \<Rightarrow> pmem \<Rightarrow> bool" where
  "frees_kept s s' \<longleftrightarrow> (\<forall>q\<in>set (free_pages s'). pp_ref s' q = pp_ref s q)"

lemma frees_kept_trans:
  "frees_kept s t \<Longrightarrow> frees_kept t u \<Longrightarrow> set (free_pages u) \<subseteq> set (free_pages t) \<Longrightarrow> frees_kept s u"
  by (auto simp: frees_kept_def)

lemma page_alloc_frames:
  assumes "pages_inv s" and "page_alloc s z = (s', Some p)"
  shows "p \<in> set (free_pages s)" and "set (free_pages s') = set (free_pages s) - {p}" and "pages_inv s'"
    and "phys s' = (if z then (phys s)(p := \<lambda>_. 0) else phys s)" and "npages s' = npages s"
    and "pp_ref s' = pp_ref s" and "pp_link s' = (pp_link s)(p := None)"
proof -
  obtain q qs where fp: "free_pages s = q # qs"
    using assms page_allocator.alloc_Nil [OF assms(1), of z] by (cases "free_pages s") auto
  have d: "distinct (free_pages s)" by (rule page_allocator.free_distinct [OF assms(1)])
  obtain s'' where s'': "page_alloc s z = (s'', Some q)" "pages_inv s''" "free_pages s'' = qs"
    using page_allocator.alloc_Cons [OF assms(1) fp, of z] by blast
  with assms(2) have eq: "s'' = s'" "q = p" by simp_all
  with s'' fp d show "p \<in> set (free_pages s)" "set (free_pages s') = set (free_pages s) - {p}" "pages_inv s'"
    by auto
  show "phys s' = (if z then (phys s)(p := \<lambda>_. 0) else phys s)" "npages s' = npages s" "pp_ref s' = pp_ref s"
    "pp_link s' = (pp_link s)(p := None)"
    using assms(2) by (auto simp: page_alloc_def Let_def split: option.splits)
qed

lemma walk_grown:
  assumes ok: "vm_ok s D" and u: "is_user va" and w: "pgdir_walk s D va True = Some (s', r)"
  shows "grown s D va s'"
proof (cases "phys s D (PDX va) = 0")
  case False
  with w have "s' = s" by (auto simp: pgdir_walk_def split: Option.bind_splits)
  then show ?thesis by (simp add: grown_refl)
next
  case True
  show ?thesis
  proof (cases "page_alloc s True")
    case (Pair s1 pr)
    show ?thesis
    proof (cases pr)
      case None
      then have "s1 = s" using Pair by (auto simp: page_alloc_def Let_def split: option.splits)
      with w True Pair None show ?thesis
        by (auto simp: pgdir_walk_def grown_refl split: Option.bind_splits if_splits)
    next
      case (Some p)
      note al = page_alloc_frames [OF vm_okD(1) [OF ok] Pair [unfolded Some]]
      let ?e = "page2pa p OR PTE_P OR PTE_W OR PTE_U"
      let ?s = "store_word (s1\<lparr>pp_ref := (pp_ref s1)(p := pp_ref s1 p + 1)\<rparr>) D (PDX va) ?e"
      have ne: "?e \<noteq> 0"
        using entry_nonzero [of p "PTE_W OR PTE_U"] by (simp add: or.assoc or.commute or.left_commute)
      have pD: "p \<noteq> D" using al(1) vm_okD(4) [OF ok] by auto
      have s': "s' = ?s"
        using w True Pair Some by (auto simp: pgdir_walk_def Let_def split: Option.bind_splits if_splits)
      have pn: "p < npages s"
        using al(1) free_chainD [OF vm_okD(1) [OF ok, unfolded pages_inv_def]] by (auto simp: free_pages_def)
      have num: "PGNUM ?e = p"
        using PGNUM_entry [OF _ PGNUM_flags, of p] pn vm_okD(2) [OF ok] by (simp add: or.assoc)
      have pde: "phys s' D d = (if d = PDX va then ?e else phys s D d)" for d
        using pD al(4) by (simp add: s' store_word_def)
      have pd: "PDX va < PDX UTOP" using u by (simp add: is_user_def)
      have tab: "tables s' D = insert p (tables s D)"
        using True ne num pd unfolding tables_def pde by (auto split: if_splits) metis
      have fr: "set (free_pages s') = set (free_pages s) - {p}"
        using al(2) by (simp add: s' store_word_def free_pages_def)
      have mem: "phys s' q = phys s q" if "q \<noteq> D" "q \<noteq> p" for q
        using that al(4) by (simp add: s' store_word_def)
      show ?thesis
        unfolding grown_def
      proof (intro conjI allI impI)
        show "npages s' = npages s" using al(5) by (simp add: s' store_word_def)
        show "set (free_pages s') \<subseteq> set (free_pages s)"
          "set (free_pages s) \<subseteq> set (free_pages s') \<union> tables s' D"
          "tables s' D \<subseteq> tables s D \<union> set (free_pages s)"
          using fr tab al(1) by auto
        show "phys s' q = phys s q" if "q \<noteq> D \<and> q \<notin> tables s D \<and> q \<notin> set (free_pages s)" for q
          using that al(1) by (intro mem) auto
        have "?e AND 7 = 7"
        proof -
          have "?e = page2pa p OR 7" by (simp add: PTE_P_def PTE_W_def PTE_U_def or.assoc)
          then show ?thesis by (simp add: bit.conj_disj_distrib2)
        qed
        then show "phys s' D d = phys s D d \<or> d = PDX va \<and> phys s D d = 0 \<and> phys s' D d AND 7 = 7" for d
          using True pde by simp
      qed
    qed
  qed
qed

lemma walk_frees:
  assumes inv: "pages_inv s" and w: "pgdir_walk s D va True = Some (s', r)"
  shows "frees_kept s s'"
proof -
  consider "s' = s" | s1 p where "page_alloc s True = (s1, Some p)" and "free_pages s' = free_pages s1"
    and "pp_ref s' = (pp_ref s1)(p := pp_ref s1 p + 1)"
    using w by (auto simp: pgdir_walk_def page_alloc_def Let_def store_word_def free_pages_def
        split: Option.bind_splits if_splits option.splits prod.splits)
  then show ?thesis
  proof cases
    case (2 s1 p)
    note al = page_alloc_frames [OF inv 2(1)]
    show ?thesis using al(2,6) 2(2,3) by (auto simp: frees_kept_def)
  qed (simp add: frees_kept_def)
qed

lemma walk_full:
  assumes "pages_inv s" and w: "pgdir_walk s D va True = Some (s', None)"
  shows "free_pages s = []"
proof (cases "free_pages s")
  case (Cons p ps)
  then obtain s1 where "page_alloc s True = (s1, Some p)" using page_alloc_Cons [OF assms(1)] by blast
  moreover have "page2pa p OR PTE_P OR PTE_W OR PTE_U \<noteq> 0"
    using entry_nonzero [of p "PTE_W OR PTE_U"] by (simp add: or.assoc or.commute or.left_commute)
  ultimately show ?thesis
    using w by (auto simp: pgdir_walk_def Let_def store_word_def split: if_splits Option.bind_splits)
qed

text \<open>Storing an entry that names an allocated frame keeps the address space well formed.\<close>

lemma tables_store:
  "t \<noteq> D \<Longrightarrow> tables (store_word s t i v) D = tables s D"
  by (simp add: tables_def store_word_def)

lemma free_pages_store [simp]: "free_pages (store_word s t i v) = free_pages s"
  by (simp add: free_pages_def store_word_def)

lemma store_vm_ok:
  assumes ok: "vm_ok s D" and u: "is_user va"
    and t: "phys s D (PDX va) \<noteq> 0" "t = PGNUM (phys s D (PDX va))"
    and v: "v \<noteq> 0 \<Longrightarrow> PGNUM v < npages s \<and> PGNUM v \<notin> set (free_pages s) \<and> PGNUM v \<notin> tables s D \<and> PGNUM v \<noteq> D"
  shows "vm_ok (store_word s t (PTX va) v) D"
proof -
  have tt: "t \<in> tables s D" using t u by (simp add: tablesI is_user_def)
  have ne: "t \<noteq> D" using vm_okD(8) [OF ok tt] .
  let ?s = "store_word s t (PTX va) v"
  have dir: "phys ?s D = phys s D" using ne by (simp add: store_word_def)
  have pte: "pte_at ?s D va' = (if same_page va va' then v else pte_at s D va')" if "is_user va'" for va'
    by (rule pte_at_store [OF ok u that t refl])
  have rest: "pages_inv ?s" "npages ?s = npages s" "pp_link ?s = pp_link s"
    using vm_okD(1) [OF ok] by (simp_all add: pages_inv_def store_word_def)
  show ?thesis
    unfolding vm_ok_def free_pages_store tables_store [OF ne] rest(2,3) dir
    using ok rest(1) v pte by (auto simp: vm_ok_def)
qed

lemma page_decref_stays:
  assumes "pp_ref s q - 1 \<noteq> 0"
  shows "page_decref s q = Some (s\<lparr>pp_ref := (pp_ref s)(q := pp_ref s q - 1)\<rparr>)"
  using assms by (simp add: page_decref_def)

lemma ref_update [simp]:
  "free_pages (s\<lparr>pp_ref := r\<rparr>) = free_pages s" "tables (s\<lparr>pp_ref := r\<rparr>) D = tables s D"
  "pte_at (s\<lparr>pp_ref := r\<rparr>) D va = pte_at s D va" "pages_inv (s\<lparr>pp_ref := r\<rparr>) = pages_inv s"
  "vm_ok (s\<lparr>pp_ref := r\<rparr>) D = vm_ok s D" "grown s0 D va (s\<lparr>pp_ref := r\<rparr>) = grown s0 D va s"
  by (simp_all add: free_pages_def tables_def pte_at_def pages_inv_def vm_ok_def grown_def Let_def)

subsection \<open>Insertion\<close>

definition refs_after :: "pmem \<Rightarrow> nat \<Rightarrow> w32 \<Rightarrow> nat \<Rightarrow> 16 word" where
  "refs_after s p old q =
     pp_ref s q + (if q = p then 1 else 0) - (if old \<noteq> 0 \<and> q = PGNUM old then 1 else 0)"

text \<open>
  Inserting a frame whose page displaces no last reference: the space maps it, everything else
  stays, and the space is well formed again.
\<close>

lemma page_insert_grown:
  assumes ok: "vm_ok s D" and u: "is_user va" and flags: "PGNUM perm = 0"
    and p: "p < npages s" "p \<notin> set (free_pages s)" "p \<notin> tables s D" "p \<noteq> D"
    and old: "pte_at s D va \<noteq> 0 \<Longrightarrow> refs_after s p (pte_at s D va) (PGNUM (pte_at s D va)) \<noteq> 0"
  obtains (full) "page_insert s D p va perm = Some (s, - E_NO_MEM)" and "free_pages s = []"
  | (mapped) s' where "page_insert s D p va perm = Some (s', 0)" and "vm_ok s' D" and "grown s D va s'"
    and "\<And>va'. is_user va' \<Longrightarrow> pte_at s' D va' =
          (if same_page va va' then page2pa p OR perm OR PTE_P else pte_at s D va')"
    and "\<And>q. q \<notin> set (free_pages s) \<Longrightarrow> pp_ref s' q = refs_after s p (pte_at s D va) q"
    and "frees_kept s s'"
proof (rule pgdir_walk_create [OF ok u])
  assume w: "pgdir_walk s D va True = Some (s, None)"
  have "page_insert s D p va perm = Some (s, - E_NO_MEM)" using w by (simp add: page_insert_def)
  then show thesis by (rule full) (rule walk_full [OF vm_okD(1) [OF ok] w])
next
  fix s1 t assume w: "pgdir_walk s D va True = Some (s1, Some (t, PTX va))"
    and ok1: "vm_ok s1 D" and t: "phys s1 D (PDX va) \<noteq> 0" "t = PGNUM (phys s1 D (PDX va))"
    and pte: "\<And>va'. is_user va' \<Longrightarrow> pte_at s1 D va' = pte_at s D va'"
    and ref: "\<And>p. p \<notin> set (free_pages s) \<Longrightarrow> pp_ref s1 p = pp_ref s p"
    and n: "npages s1 = npages s" and fr: "set (free_pages s1) \<subseteq> set (free_pages s)"
    and tb: "tables s1 D \<subseteq> tables s D \<union> set (free_pages s)"
  note g1 = walk_grown [OF ok u w]
  let ?s2 = "s1\<lparr>pp_ref := (pp_ref s1)(p := pp_ref s1 p + 1)\<rparr>"
  let ?v = "page2pa p OR perm OR PTE_P" and ?old = "pte_at s D va"
  let ?q = "PGNUM ?old"
  let ?r = "\<lambda>q. pp_ref s1 q + (if q = p then 1 else 0) - (if ?old \<noteq> 0 \<and> q = ?q then 1 else 0)"
  have tt: "t \<in> tables s1 D" using t u by (simp add: tablesI is_user_def)
  have ne: "t \<noteq> D" by (rule vm_okD(8) [OF ok1 tt])
  have look: "page_lookup ?s2 D va = Some (if ?old = 0 then None else Some (?q, t, PTX va))"
    using page_lookup_eq [OF ok1 u, of ?s2] t pte [OF u] by simp
  obtain s3 where s3: "page_remove ?s2 D va = Some s3"
    "store_word s3 t (PTX va) ?v = (store_word s1 t (PTX va) ?v)\<lparr>pp_ref := ?r\<rparr>"
  proof (cases "?old = 0")
    case True
    have "pp_ref ?s2 = ?r" using True by auto
    then have "store_word ?s2 t (PTX va) ?v = (store_word s1 t (PTX va) ?v)\<lparr>pp_ref := ?r\<rparr>"
      by (cases s1) (simp add: store_word_def)
    then show thesis using look that [of ?s2] True by (simp add: page_remove_def)
  next
    case False
    have "?q \<notin> set (free_pages s)" by (rule vm_okD(10) [OF ok u False])
    then have keep: "pp_ref ?s2 ?q - 1 \<noteq> 0" using old [OF False] ref [of ?q] False by (auto simp: refs_after_def split: if_splits)
    let ?s3 = "store_word (?s2\<lparr>pp_ref := (pp_ref ?s2)(?q := pp_ref ?s2 ?q - 1)\<rparr>) t (PTX va) 0"
    have "pp_ref ?s3 = ?r" using False by (auto simp: store_word_def)
    then have "store_word ?s3 t (PTX va) ?v = (store_word s1 t (PTX va) ?v)\<lparr>pp_ref := ?r\<rparr>"
      by (cases s1) (simp add: store_word_def)
    then show thesis
      using look that [of ?s3] page_decref_stays [OF keep] False by (simp add: page_remove_def)
  qed
  let ?s' = "(store_word s1 t (PTX va) ?v)\<lparr>pp_ref := ?r\<rparr>"
  have run: "page_insert s D p va perm = Some (?s', 0)"
    using w s3 by (simp add: page_insert_def)
  have small: "p < 2 ^ 20" using vm_okD(2) [OF ok] p(1) by simp
  have "PGNUM (perm OR PTE_P) = 0"
    using flags by (simp add: PGNUM_def PTE_P_def unat_eq_0)
  from PGNUM_entry [OF small this] have num: "PGNUM ?v = p" by (simp add: or.assoc)
  have "vm_ok (store_word s1 t (PTX va) ?v) D"
    using p fr tb by (intro store_vm_ok [OF ok1 u t]) (auto simp: num n)
  then have ok': "vm_ok ?s' D" by simp
  have "grown s D va (store_word s1 t (PTX va) ?v)"
    using g1 tt ne tb unfolding grown_def tables_store [OF ne] free_pages_store
    by (auto simp: store_word_def)
  then have g': "grown s D va ?s'" by simp
  show thesis
  proof (rule mapped [OF run ok' g'])
    fix va' assume u': "is_user va'"
    with pte_at_store [OF ok1 u u' t refl, of ?v] pte [OF u']
    show "pte_at ?s' D va' = (if same_page va va' then ?v else pte_at s D va')" by simp
  next
    have "x \<noteq> p" "?old \<noteq> 0 \<longrightarrow> x \<noteq> ?q" if "x \<in> set (free_pages s1)" for x
      using that fr p(2) vm_okD(10) [OF ok u] by blast+
    then show "frees_kept s ?s'"
      using walk_frees [OF vm_okD(1) [OF ok] w] by (auto simp: frees_kept_def)
  qed (simp add: refs_after_def ref)
qed

text \<open>Removing a mapping that is not the last reference to its frame.\<close>

lemma page_remove_grown:
  assumes ok: "vm_ok s D" and u: "is_user va" and old: "pte_at s D va \<noteq> 0"
    and keep: "pp_ref s (PGNUM (pte_at s D va)) - 1 \<noteq> 0"
  obtains s' where "page_remove s D va = Some s'" and "vm_ok s' D" and "grown s D va s'"
    and "\<And>va'. is_user va' \<Longrightarrow> pte_at s' D va' = (if same_page va va' then 0 else pte_at s D va')"
    and "pp_ref s' = (pp_ref s)(PGNUM (pte_at s D va) := pp_ref s (PGNUM (pte_at s D va)) - 1)"
    and "phys s' D = phys s D"
proof -
  let ?q = "PGNUM (pte_at s D va)" and ?t = "PGNUM (phys s D (PDX va))"
  have t: "phys s D (PDX va) \<noteq> 0" using old by (auto simp: pte_at_def Let_def)
  then have tt: "?t \<in> tables s D" using u by (simp add: tablesI is_user_def)
  have ne: "?t \<noteq> D" by (rule vm_okD(8) [OF ok tt])
  let ?s' = "(store_word s ?t (PTX va) 0)\<lparr>pp_ref := (pp_ref s)(?q := pp_ref s ?q - 1)\<rparr>"
  have "page_lookup s D va = Some (Some (?q, ?t, PTX va))"
    using page_lookup_eq [OF ok u refl refl] old by simp
  then have run: "page_remove s D va = Some ?s'"
    using page_decref_stays [OF keep] by (cases s) (simp add: page_remove_def store_word_def)
  have ok': "vm_ok (store_word s ?t (PTX va) 0) D" by (rule store_vm_ok [OF ok u t refl]) simp
  have g: "grown s D va (store_word s ?t (PTX va) 0)"
    using tt ne unfolding grown_def tables_store [OF ne] free_pages_store by (auto simp: store_word_def)
  show thesis
  proof (rule that [OF run])
    show "vm_ok ?s' D" "grown s D va ?s'" using ok' g by simp_all
    show "is_user va' \<Longrightarrow> pte_at ?s' D va' = (if same_page va va' then 0 else pte_at s D va')" for va'
      using pte_at_store [OF ok u _ t refl refl, of va' 0] by simp
    show "phys ?s' D = phys s D" using ne by (simp add: store_word_def)
  qed simp
qed

text \<open>Every directory entry of the user part that exists is open to the program for reading and writing.\<close>

definition pdes_open :: "pmem \<Rightarrow> nat \<Rightarrow> bool" where
  "pdes_open s D \<longleftrightarrow> (\<forall>d<PDX UTOP. phys s D d \<noteq> 0 \<longrightarrow> phys s D d AND 7 = 7)"

lemma grown_open: "grown s D va s' \<Longrightarrow> pdes_open s D \<Longrightarrow> pdes_open s' D"
  unfolding pdes_open_def using grownD(7) by metis

subsection \<open>Two address spaces\<close>

definition apart :: "pmem \<Rightarrow> nat \<Rightarrow> nat \<Rightarrow> bool" where
  "apart s D E \<longleftrightarrow> D \<noteq> E \<and> D \<notin> tables s E \<and> E \<notin> tables s D \<and> tables s D \<inter> tables s E = {} \<and>
     (\<forall>va. is_user va \<longrightarrow> pte_at s D va \<noteq> 0 \<longrightarrow> PGNUM (pte_at s D va) \<notin> insert E (tables s E)) \<and>
     (\<forall>va. is_user va \<longrightarrow> pte_at s E va \<noteq> 0 \<longrightarrow> PGNUM (pte_at s E va) \<notin> insert D (tables s D))"

lemma apart_sym: "apart s D E \<longleftrightarrow> apart s E D"
  by (auto simp: apart_def)

lemma apartD:
  assumes "apart s D E"
  shows "D \<noteq> E" and "D \<notin> tables s E" and "E \<notin> tables s D" and "x \<in> tables s D \<Longrightarrow> x \<notin> tables s E"
    and "is_user va \<Longrightarrow> pte_at s D va \<noteq> 0 \<Longrightarrow> PGNUM (pte_at s D va) \<notin> tables s E"
    and "is_user va \<Longrightarrow> pte_at s D va \<noteq> 0 \<Longrightarrow> PGNUM (pte_at s D va) \<noteq> E"
    and "is_user va \<Longrightarrow> pte_at s E va \<noteq> 0 \<Longrightarrow> PGNUM (pte_at s E va) \<notin> tables s D"
    and "is_user va \<Longrightarrow> pte_at s E va \<noteq> 0 \<Longrightarrow> PGNUM (pte_at s E va) \<noteq> D"
  using assms unfolding apart_def by auto

definition spaces_ok :: "pmem \<Rightarrow> nat \<Rightarrow> nat \<Rightarrow> bool" where
  "spaces_ok s D E \<longleftrightarrow> vm_ok s D \<and> vm_ok s E \<and> apart s D E"

lemma spaces_ok_sym: "spaces_ok s D E \<longleftrightarrow> spaces_ok s E D"
  using apart_sym by (auto simp: spaces_ok_def)

text \<open>The space \<open>E\<close> after \<open>D\<close> has grown.\<close>

lemma grown_other:
  assumes sp: "spaces_ok s D E" and g: "grown s D va s'"
  shows "phys s' E = phys s E" and "tables s' E = tables s E"
    and "is_user va' \<Longrightarrow> pte_at s' E va' = pte_at s E va'"
proof -
  have ok: "vm_ok s D" "vm_ok s E" and ap: "apart s D E" using sp by (simp_all add: spaces_ok_def)
  show dir: "phys s' E = phys s E"
    using apartD(1,3) [OF ap] vm_okD(4) [OF ok(2)] by (intro grownD(5) [OF g]) auto
  then show "tables s' E = tables s E" by (simp add: tables_def)
  show "pte_at s' E va' = pte_at s E va'" if "is_user va'"
  proof (cases "phys s E (PDX va') = 0")
    case False
    then have t: "PGNUM (phys s E (PDX va')) \<in> tables s E" using that by (simp add: tablesI is_user_def)
    have "phys s' (PGNUM (phys s E (PDX va'))) = phys s (PGNUM (phys s E (PDX va')))"
      using apartD(2,4) [OF ap] t vm_okD(7) [OF ok(2) t] by (intro grownD(5) [OF g]) auto
    then show ?thesis using False by (simp add: pte_at_def dir)
  qed (simp add: pte_at_def dir)
qed

lemma grown_apart:
  assumes sp: "spaces_ok s D E" and ok': "vm_ok s' D" and g: "grown s D va s'"
    and maps: "\<And>va'. is_user va' \<Longrightarrow> pte_at s' D va' \<noteq> 0 \<Longrightarrow>
      pte_at s' D va' = pte_at s D va' \<or> PGNUM (pte_at s' D va') \<notin> insert E (tables s E)"
  shows "spaces_ok s' D E"
proof -
  have ok: "vm_ok s D" "vm_ok s E" and ap: "apart s D E" using sp by (simp_all add: spaces_ok_def)
  note same = grown_other [OF sp g]
  have links: "pp_link s' q = None" if "q < npages s'" "q \<notin> set (free_pages s)" for q
    using that vm_okD(5) [OF ok'] grownD(2) [OF g] by blast
  have linksE: "\<forall>p<npages s'. p \<notin> set (free_pages s') \<longrightarrow> pp_link s' p = None"
    using vm_okD(5) [OF ok'] by blast
  have okE: "vm_ok s' E"
    unfolding vm_ok_def same(1,2)
  proof (intro conjI ballI allI impI)
    show "pages_inv s'" "npages s' \<le> 2 ^ 20" using vm_okD(1,2) [OF ok'] .
    show "E < npages s'" "E \<notin> set (free_pages s')"
      using vm_okD(3,4) [OF ok(2)] grownD(1,2) [OF g] by auto
    show "t < npages s'" "t \<notin> set (free_pages s')" "t \<noteq> E" if "t \<in> tables s E" for t
      using vm_okD(6-8) [OF ok(2) that] grownD(1,2) [OF g] by auto
    show "inj_on (\<lambda>d. PGNUM (phys s E d)) {d. d < PDX UTOP \<and> phys s E d \<noteq> 0}"
      using ok(2) by (simp add: vm_ok_def)
    fix va' assume a: "is_user va'" "pte_at s' E va' \<noteq> 0"
    then have "pte_at s E va' \<noteq> 0" "pte_at s' E va' = pte_at s E va'" using same(3) by auto
    with vm_okD(9-12) [OF ok(2) a(1)] grownD(1,2) [OF g]
    show "PGNUM (pte_at s' E va') < npages s'" "PGNUM (pte_at s' E va') \<notin> set (free_pages s')"
      "PGNUM (pte_at s' E va') \<notin> tables s E" "PGNUM (pte_at s' E va') \<noteq> E" by auto
  qed (use linksE in auto)
  have notfree: "x \<notin> set (free_pages s)" if "x \<in> insert E (tables s E)" for x
    using that vm_okD(4,7) [OF ok(2)] by auto
  have "apart s' D E"
    unfolding apart_def same(2)
  proof (intro conjI allI impI)
    show "D \<noteq> E" "D \<notin> tables s E" using apartD [OF ap] by auto
    show "E \<notin> tables s' D" using apartD(3) [OF ap] grownD(4) [OF g, of E] notfree [of E] by blast
    show "tables s' D \<inter> tables s E = {}" using apartD(4) [OF ap] grownD(4) [OF g] notfree by blast
    show "PGNUM (pte_at s' D va') \<notin> insert E (tables s E)" if "is_user va'" "pte_at s' D va' \<noteq> 0" for va'
      using maps [OF that] apartD(5,6) [OF ap that(1)] that(2) by auto
    fix va' assume a: "is_user va'" "pte_at s' E va' \<noteq> 0"
    then have b: "pte_at s E va' \<noteq> 0" "pte_at s' E va' = pte_at s E va'" using same(3) by auto
    with apartD(7,8) [OF ap a(1)] vm_okD(10) [OF ok(2) a(1)] grownD(4) [OF g]
    show "PGNUM (pte_at s' E va') \<notin> insert D (tables s' D)" by auto
  qed
  with ok' okE show ?thesis by (simp add: spaces_ok_def)
qed

subsection \<open>Writing a frame that is no table\<close>

definition set_frame :: "pmem \<Rightarrow> nat \<Rightarrow> (nat \<Rightarrow> w32) \<Rightarrow> pmem" where
  "set_frame s p f = s\<lparr>phys := (phys s)(p := f)\<rparr>"

lemma set_frame_sel [simp]:
  "free_pages (set_frame s p f) = free_pages s" "pages_inv (set_frame s p f) = pages_inv s"
  "npages (set_frame s p f) = npages s" "pp_link (set_frame s p f) = pp_link s" "pp_ref (set_frame s p f) = pp_ref s"
  "phys (set_frame s p f) = (phys s)(p := f)"
  by (simp_all add: set_frame_def free_pages_def pages_inv_def)

lemma set_frame_space:
  assumes "p \<noteq> D" and "p \<notin> tables s D"
  shows "tables (set_frame s p f) D = tables s D"
    and "is_user va \<Longrightarrow> pte_at (set_frame s p f) D va = pte_at s D va"
    and "vm_ok (set_frame s p f) D = vm_ok s D"
proof -
  show t: "tables (set_frame s p f) D = tables s D" using assms(1) by (simp add: tables_def)
  show pte: "pte_at (set_frame s p f) D va = pte_at s D va" if "is_user va" for va
  proof (cases "phys s D (PDX va) = 0")
    case False
    then have "PGNUM (phys s D (PDX va)) \<in> tables s D" using that by (simp add: tablesI is_user_def)
    then have "PGNUM (phys s D (PDX va)) \<noteq> p" using assms(2) by auto
    then show ?thesis using assms(1) by (simp add: pte_at_def Let_def)
  qed (use assms(1) in \<open>simp add: pte_at_def\<close>)
  show "vm_ok (set_frame s p f) D = vm_ok s D"
    unfolding vm_ok_def t using assms(1) pte by simp
qed

lemma set_frame_spaces:
  assumes "spaces_ok s D E" and "p \<noteq> D" "p \<notin> tables s D" "p \<noteq> E" "p \<notin> tables s E"
  shows "spaces_ok (set_frame s p f) D E"
  using assms(1) set_frame_space [of p D s] set_frame_space [of p E s] assms(2-)
  by (simp add: spaces_ok_def apart_def)

end
