(* ===== verification/ForkPages.thy ===== *)
theory ForkPages
  imports UserLib Spaces
begin

unbundle bit_operations_syntax

text \<open>
  Copy-on-write, one page at a time: what a program reads through \<open>uvpt\<close>, what the system calls of
  \<open>fork\<close> do to the page tables, and what \<open>duppage\<close> and the loop of \<open>fork\<close> make of the spaces of parent and child.
\<close>

subsection \<open>Addresses of the page table entries\<close>

lemma PDX_unat: "PDX va = unat va div 4194304"
proof -
  have "unat (drop_bit 22 va AND mask 10) = unat va div 4194304 mod 1024"
    by (simp only: take_bit_eq_mask [symmetric] unsigned_take_bit_eq unat_drop_bit_eq)
      (simp add: drop_bit_eq_div take_bit_eq_mod)
  moreover have "unat va div 4194304 < 1024" 
  proof -
    have "unat va < 2 ^ LENGTH(32)" by (rule unsigned_less)
    then show ?thesis by simp
  qed
  ultimately show ?thesis by (simp add: PDX_def mask_10)
qed

lemma PTX_unat: "PTX va = unat va div 4096 mod 1024"
proof -
  have "unat (drop_bit 12 va AND mask 10) = unat va div 4096 mod 1024"
    by (simp only: take_bit_eq_mask [symmetric] unsigned_take_bit_eq unat_drop_bit_eq)
      (simp add: drop_bit_eq_div take_bit_eq_mod)
  then show ?thesis by (simp add: PTX_def mask_10)
qed

lemma offset_unat: "unat (va AND 0xFFF :: w32) = unat va mod 4096"
  unfolding mask_12 by (simp only: take_bit_eq_mask [symmetric] unsigned_take_bit_eq) (simp add: take_bit_eq_mod)

lemma unat_page_addr: "pn < 1048576 \<Longrightarrow> unat (page_addr pn) = pn * 4096"
  by (simp add: page_addr_def push_bit_eq_mult unat_word_ariths unat_of_nat)

lemma page_addr_index:
  assumes "pn < 1048576"
  shows "PDX (page_addr pn) = pn div 1024" and "PTX (page_addr pn) = pn mod 1024"
  using assms by (simp_all add: PDX_unat PTX_unat unat_page_addr)

lemma PGNUM_UTOP: "PGNUM UTOP = 977920"
  by (simp add: PGNUM_def layout_defs)

lemma user_page:
  assumes "pn < PGNUM UTOP"
  shows "is_user (page_addr pn)" and "\<not> bad_va (page_addr pn)"
proof -
  have pn: "pn < 977920" using assms by (simp add: PGNUM_UTOP)
  then show "is_user (page_addr pn)"
    unfolding is_user_def PDX_UTOP by (simp add: page_addr_index)
  have "unat UTOP = 4005560320" by (simp add: layout_defs)
  then have "page_addr pn < UTOP" using pn by (simp add: word_less_nat_alt unat_page_addr)
  moreover have "page_addr pn mod PGSIZE = 0"
    using pn by (simp add: word_unat_eq_iff unat_mod unat_page_addr PGSIZE_def)
  ultimately show "\<not> bad_va (page_addr pn)" by (simp add: bad_va_def not_le)
qed

lemma same_page_addr:
  assumes "pn < 1048576" "pn' < 1048576"
  shows "same_page (page_addr pn) (page_addr pn') \<longleftrightarrow> pn = pn'"
proof -
  have "pn = pn'" if "pn div 1024 = pn' div 1024" "pn mod 1024 = pn' mod 1024"
    using div_mult_mod_eq [of pn 1024, unfolded that] div_mult_mod_eq [of pn' 1024] by (rule trans [OF sym])
  then show ?thesis using assms by (auto simp: same_page_def page_addr_index)
qed

text \<open>The directory entry for \<open>UVPT\<close>, through which a program reads its own tables.\<close>

definition self_map :: "pmem \<Rightarrow> nat \<Rightarrow> bool" where
  "self_map s P \<longleftrightarrow> (let e = phys s P (PDX UVPT) in PGNUM e = P \<and> e AND (PTE_P OR PTE_U) = PTE_P OR PTE_U)"

lemma UVPT_val: "UVPT = 0xEF400000" "PDX UVPT = 957"
  by (simp_all add: layout_defs PDX_def)

lemma unat_uvpt:
  assumes "n < 4194304"
  shows "unat (UVPT + word_of_nat n) = 4013948928 + n"
  using assms by (simp add: UVPT_val unat_word_ariths unat_of_nat)

lemma user_word_uvpt:
  assumes "self_map s P" and "n < 4194304" and "va = UVPT + word_of_nat n"
  shows "user_word s P va =
    (let pte = phys s P (n div 4096) in
     if pte AND (PTE_P OR PTE_U) \<noteq> PTE_P OR PTE_U then None
     else Some (phys s (PGNUM pte) (n mod 4096 div 4)))"
proof -
  have u: "unat va = 4013948928 + n" using unat_uvpt assms(2,3) by simp
  have "PDX va = 957" "PTX va = n div 4096" "unat (va AND 0xFFF) div 4 = n mod 4096 div 4"
  proof -
    have e: "4013948928 + n = n + 979968 * 4096" by simp
    have d: "(4013948928 + n) div 4096 = 979968 + n div 4096" unfolding e by (subst div_mult_self1) simp_all
    have "(979968 + n div 4096) mod 1024 = n div 4096"
    proof -
      have "979968 + n div 4096 = n div 4096 + 957 * 1024" by simp
      then show ?thesis using assms(2) by (simp only: mod_mult_self1) simp
    qed
    then show "PTX va = n div 4096" unfolding PTX_unat u d .
    show "PDX va = 957" unfolding PDX_unat u using assms(2) by linarith
    have "(n + 979968 * 4096) mod 4096 = n mod 4096" by (rule mod_mult_self1)
    then show "unat (va AND 0xFFF) div 4 = n mod 4096 div 4" unfolding offset_unat u e by simp
  qed
  then show ?thesis
    using assms(1) by (simp add: user_word_def self_map_def UVPT_val(2) Let_def)
qed

lemma and_single_bit: "(e :: w32) AND 2 ^ n = (if bit e n then 2 ^ n else 0)"
  by (rule bit_word_eqI) (auto simp: bit_simps)

lemma flag_bits:
  "e AND PTE_P = (if bit e 0 then PTE_P else 0)" "e AND PTE_W = (if bit e 1 then PTE_W else 0)"
  "e AND PTE_U = (if bit e 2 then PTE_U else 0)"
  using and_single_bit [of e 0] and_single_bit [of e 1] and_single_bit [of e 2]
  by (simp_all add: PTE_P_def PTE_W_def PTE_U_def)

lemma flag_ne [simp]: "PTE_P \<noteq> 0" "PTE_W \<noteq> 0" "PTE_U \<noteq> 0"
  by (simp_all add: PTE_P_def PTE_W_def PTE_U_def)

lemma ok_bits: "e AND (PTE_P OR PTE_U) = PTE_P OR PTE_U \<longleftrightarrow> table_present e"
proof -
  have "e AND (PTE_P OR PTE_U) = (e AND PTE_P) OR (e AND PTE_U)" by (rule bit.conj_disj_distrib)
  then show ?thesis
    by (simp add: flag_bits table_present_def) (simp add: PTE_P_def PTE_U_def)
qed

lemma and_seven: "e AND 7 = 7 \<longleftrightarrow> table_present e \<and> e AND PTE_W \<noteq> 0"
proof -
  have "(7 :: w32) = (PTE_P OR PTE_U) OR PTE_W" by (simp add: PTE_P_def PTE_W_def PTE_U_def)
  moreover have "e AND ((PTE_P OR PTE_U) OR PTE_W) = (e AND (PTE_P OR PTE_U)) OR (e AND PTE_W)"
    by (rule bit.conj_disj_distrib)
  ultimately show ?thesis
    by (simp add: bit.conj_disj_distrib flag_bits table_present_def)
      (simp add: PTE_P_def PTE_W_def PTE_U_def)
qed

lemma user_frame_eq:
  assumes "pdes_open s D" and "is_user va" and "table_present (pte_at s D va)"
    and "need = 0 \<or> need = PTE_W \<and> pte_at s D va AND PTE_W \<noteq> 0"
  shows "user_frame s D va need = Some (PGNUM (pte_at s D va))"
proof -
  have d: "phys s D (PDX va) \<noteq> 0" using assms(3) by (auto simp: pte_at_def table_present_def Let_def)
  then have "phys s D (PDX va) AND 7 = 7" using assms(1,2) by (simp add: pdes_open_def is_user_def)
  from and_seven [THEN iffD1, OF this]
  have pde: "table_present (phys s D (PDX va))" "phys s D (PDX va) AND PTE_W \<noteq> 0" by blast+
  have "e AND (PTE_P OR PTE_U OR need) = PTE_P OR PTE_U OR need"
    if "table_present e" "need = 0 \<or> need = PTE_W \<and> e AND PTE_W \<noteq> 0" for e
  proof -
    have "PTE_P OR PTE_U OR PTE_W = 7" by (simp add: PTE_P_def PTE_W_def PTE_U_def)
    then show ?thesis using that and_seven [of e] ok_bits [of e] by auto
  qed
  then show ?thesis
    using d pde assms(3,4) by (auto simp: user_frame_def pte_at_table Let_def)
qed

lemma pte_at_page: "pte_at s P (page_addr (PGNUM va)) = pte_at s P va"
  by (simp only: pte_at_def page_addr_def page_address)

text \<open>The machine with another memory.\<close>

definition with_vm :: "machine \<Rightarrow> pmem \<Rightarrow> machine" where
  "with_vm m v = m\<lparr>kst := (kst m)\<lparr>vm := v\<rparr>\<rparr>"

lemma with_vm_sel [simp]:
  "vm (kst (with_vm m v)) = v" "envs (kst (with_vm m v)) = envs (kst m)"
  "cpu_env (kst (with_vm m v)) = cpu_env (kst m)" "with_vm (with_vm m v) v' = with_vm m v'"
  "with_vm m (vm (kst m)) = m" "current_pgdir c (with_vm m v) = current_pgdir c m"
  "con (with_vm m v) = con m" "(kst m)\<lparr>vm := v\<rparr> = kst (with_vm m v)" "m\<lparr>kst := kst (with_vm m v)\<rparr> = with_vm m v"
  by (simp_all add: with_vm_def current_pgdir_def)

lemma envid2env_vm [simp]: "envid2env c (kst (with_vm m v)) envid chk = envid2env c (kst m) envid chk"
  by (simp add: envid2env_def status_def Let_def cong: if_cong)

lemma uvpt_eq:
  assumes "current_pgdir c m = Some P" and "self_map (vm (kst m)) P" and "pn < 1048576"
    and "table_present (phys (vm (kst m)) P (pn div 1024))"
  shows "uvpt c m pn = Some (pte_at (vm (kst m)) P (page_addr pn))"
proof -
  have "user_word (vm (kst m)) P (UVPT + word_of_nat (4 * pn)) =
      Some (phys (vm (kst m)) (PGNUM (phys (vm (kst m)) P (pn div 1024))) (pn mod 1024))"
  proof -
    have "4 * pn div 4096 = pn div 1024" "4 * pn mod 4096 div 4 = pn mod 1024"
      using div_mult2_eq [of "4 * pn" 4 1024] mod_mult2_eq [of "4 * pn" 4 1024] by simp_all
    then show ?thesis
      using assms(3,4) by (subst user_word_uvpt [OF assms(2) _ refl]) (simp_all add: ok_bits Let_def)
  qed
  moreover have "phys (vm (kst m)) P (pn div 1024) \<noteq> 0" using assms(4) by (auto simp: table_present_def)
  ultimately show ?thesis
    using assms(1,3) by (simp add: uvpt_def pte_at_def page_addr_index Let_def)
qed

lemma uvpd_eq:
  assumes "current_pgdir c m = Some P" and "self_map (vm (kst m)) P" and "d < 1024"
  shows "uvpd c m d = Some (phys (vm (kst m)) P d)"
proof -
  let ?s = "vm (kst m)"
  have "4 * drop_bit 12 UVPT = word_of_nat (957 * 4096)" by (simp add: UVPT_val)
  then have va: "UVPT + 4 * drop_bit 12 UVPT + 4 * word_of_nat d = UVPT + word_of_nat (4 * d + 957 * 4096)"
    by simp
  have "(4 * d + 957 * 4096) div 4096 = 957" "(4 * d + 957 * 4096) mod 4096 div 4 = d"
    using assms(3) by (simp_all only: mod_mult_self1) simp_all
  moreover have "PGNUM (phys ?s P 957) = P" "phys ?s P 957 AND (PTE_P OR PTE_U) = PTE_P OR PTE_U"
    using assms(2) by (simp_all add: self_map_def UVPT_val(2) Let_def)
  ultimately have "user_word ?s P (UVPT + word_of_nat (4 * d + 957 * 4096)) = Some (phys ?s P d)"
    using assms(3) by (subst user_word_uvpt [OF assms(2) _ refl]) (simp_all add: Let_def)
  then show ?thesis unfolding uvpd_def va using assms(1) by simp
qed

subsection \<open>The calls of \<open>fork\<close>\<close>

lemma usyscall_kernel:
  assumes "syscall cfg c [] [] m num a1 a2 a3 a4 a5 = on_kernel m (Some (k, ret r))"
    and "- (2 ^ 31) \<le> r" and "r \<le> 0"
  shows "usyscall cfg c m num check a1 a2 a3 a4 a5 = Some (m\<lparr>kst := k\<rparr>, Returned r)"
proof -
  have "sint (word_of_int r :: w32) = r"
    using assms(2,3) by (simp add: sint_sbintrunc' signed_take_bit_int_eq_self)
  then show ?thesis using assms by (simp add: usyscall_def on_kernel_def ret_def uret_def)
qed

text \<open>The check of \<open>env_page_map\<close> passes for a page that may be written, or when no writing is asked for.\<close>

lemma write_check:
  assumes "perm AND PTE_W = 0 \<or> x AND PTE_W \<noteq> 0"
  shows "(PTE_P OR PTE_U OR perm) AND PTE_W AND NOT (PTE_W AND x) = 0"
proof (cases "bit perm 1")
  case True
  then have "PTE_W AND x = PTE_W"
    using assms flag_ne by (simp add: flag_bits and.commute [of PTE_W] split: if_splits)
  then show ?thesis by (simp add: and.assoc)
next
  case False
  have bits: "(PTE_P OR PTE_U OR perm) AND PTE_W = perm AND PTE_W"
    by (simp add: flag_bits bit_simps) (simp add: PTE_P_def PTE_U_def bit_simps)
  show ?thesis using bits False by (simp add: flag_bits and.assoc [symmetric])
qed

text \<open>Mapping a page of the caller elsewhere, at the same address or not.\<close>

lemma u_page_map_ok:
  assumes "cpu_env (kst m) c = Some k" and "env_pgdir (envs (kst m) k) = Some P"
    and "envid2env c (kst m) w True = Some (0, Some e)" and "env_pgdir (envs (kst m) e) = Some E"
    and "\<not> bad_va va" and "\<not> bad_va va'"
    and "page_lookup (vm (kst m)) P va = Some (Some (p, t, i))"
    and "perm AND PTE_W = 0 \<or> phys (vm (kst m)) t i AND PTE_W \<noteq> 0"
    and "page_insert (vm (kst m)) E p va' (PTE_P OR PTE_U OR perm) = Some (v, r)"
    and "- (2 ^ 31) \<le> r" and "r \<le> 0"
  shows "u_page_map cfg c m 0 va w va' perm = Some (with_vm m v, Returned r)"
proof -
  have "(PTE_P OR PTE_U OR perm) AND PTE_W AND NOT (PTE_W AND phys (vm (kst m)) t i) = 0"
    by (rule write_check [OF assms(8)])
  then have "env_page_map (kst m) k va e va' (PTE_P OR PTE_U OR perm) = Some ((kst m)\<lparr>vm := v\<rparr>, r)"
    using assms by (simp add: env_page_map_def and.assoc)
  moreover have "envid2env c (kst m) 0 True = Some (0, Some k)" using assms(1) by (simp add: envid2env_def)
  ultimately have "sys_page_map c (kst m) 0 va w va' perm = Some (kst (with_vm m v), ret r)"
    using assms(3,5,6) by (simp add: sys_page_map_def)
  then have "syscall cfg c [] [] m 5 0 va w va' perm = on_kernel m (Some (kst (with_vm m v), ret r))"
    by (simp add: syscall_def Let_def)
  from usyscall_kernel [OF this assms(10,11)] show ?thesis by (simp add: u_page_map_def)
qed

subsection \<open>One page\<close>

text \<open>The flags and the entry that \<open>duppage\<close> gives to a page whose entry is \<open>pte\<close>.\<close>

definition cow_page :: "w32 \<Rightarrow> bool" where
  "cow_page pte \<longleftrightarrow> pte AND PTE_W \<noteq> 0 \<or> pte AND PTE_COW \<noteq> 0"

definition dup_perm :: "w32 \<Rightarrow> w32" where
  "dup_perm pte =
     (let perm = (if pte AND (PTE_PCD OR PTE_PWT) \<noteq> 0 then PTE_U OR PTE_P OR (PTE_PCD OR PTE_PWT) else PTE_U OR PTE_P)
      in if cow_page pte then perm OR PTE_COW else perm)"

definition dup_entry :: "w32 \<Rightarrow> w32" where
  "dup_entry pte = page2pa (PGNUM pte) OR dup_perm pte"

lemma dup_perm_cases:
  "dup_perm pte \<in> {0x5, 0x1D, 0x805, 0x81D}"
  by (simp add: dup_perm_def PTE_P_def PTE_U_def PTE_PCD_def PTE_PWT_def PTE_COW_def Let_def)

lemma dup_perm_facts:
  shows "dup_perm pte AND PTE_W = 0" and "PGNUM (dup_perm pte) = 0"
    and "PTE_P OR PTE_U OR dup_perm pte = dup_perm pte" and "dup_perm pte OR PTE_P = dup_perm pte"
    and "table_present (dup_perm pte)"
  using dup_perm_cases [of pte]
  by (auto simp: PTE_P_def PTE_U_def PTE_W_def PGNUM_def table_present_def)

lemma PGNUM_dup_entry: "PGNUM pte < 2 ^ 20 \<Longrightarrow> PGNUM (dup_entry pte) = PGNUM pte"
  by (simp only: dup_entry_def PGNUM_entry dup_perm_facts(2))

lemma duppage_eq:
  assumes "uvpt c m pn = Some pte" and "table_present pte"
  shows "duppage cfg c m w pn =
    or_panic (u_page_map cfg c m 0 (page_addr pn) w (page_addr pn) (dup_perm pte)) (\<lambda>m.
      if cow_page pte
      then or_panic (u_page_map cfg c m 0 (page_addr pn) 0 (page_addr pn) (dup_perm pte)) (\<lambda>m. uret m ())
      else uret m ())"
  using assms by (auto simp: duppage_def cow_page_def dup_perm_def table_present_def Let_def or.assoc)

lemma or_panic_simps [simp]:
  "or_panic (Some (m, Returned x)) k = (if x < 0 then upanic m else k m)"
  by (simp add: or_panic_def)

definition fork_ready :: "nat \<Rightarrow> machine \<Rightarrow> w32 \<Rightarrow> nat \<Rightarrow> nat \<Rightarrow> bool" where
  "fork_ready c m w P C \<longleftrightarrow> (\<exists>k e. cpu_env (kst m) c = Some k \<and> env_pgdir (envs (kst m) k) = Some P \<and>
     envid2env c (kst m) w True = Some (0, Some e) \<and> env_pgdir (envs (kst m) e) = Some C) \<and>
     spaces_ok (vm (kst m)) P C \<and> self_map (vm (kst m)) P"

lemma E_NO_MEM_range: "- E_NO_MEM < 0" "- (2 ^ 31) \<le> - E_NO_MEM"
  by (simp_all add: E_NO_MEM_def)

lemma duppage_ok:
  assumes ready: "fork_ready c m w P C" and pn: "pn < PGNUM UTOP"
  defines "s \<equiv> vm (kst m)" and "va \<equiv> page_addr pn"
  defines "pte \<equiv> pte_at s P va"
  defines "q \<equiv> PGNUM pte"
  assumes tab: "table_present (phys s P (pn div 1024))" and pres: "table_present pte"
    and free: "pte_at s C va = 0" and ref: "pp_ref s q + 1 \<noteq> 0"
  obtains (panic) m' where "duppage cfg c m w pn = Some (m', UserPanic)" and "free_pages (vm (kst m')) = []"
  | (ok) v where "duppage cfg c m w pn = Some (with_vm m v, Returned ())" and "fork_ready c (with_vm m v) w P C"
    and "\<And>va'. is_user va' \<Longrightarrow> pte_at v C va' = (if same_page va va' then dup_entry pte else pte_at s C va')"
    and "\<And>va'. is_user va' \<Longrightarrow>
      pte_at v P va' = (if same_page va va' \<and> cow_page pte then dup_entry pte else pte_at s P va')"
    and "\<And>x. x \<notin> set (free_pages s) \<Longrightarrow> pp_ref v x = pp_ref s x + (if x = q then 1 else 0)"
    and "set (free_pages v) \<subseteq> set (free_pages s)" and "phys v P = phys s P" and "frees_kept s v"
proof -
  from ready obtain k e where ke: "cpu_env (kst m) c = Some k" "env_pgdir (envs (kst m) k) = Some P"
      "envid2env c (kst m) w True = Some (0, Some e)" "env_pgdir (envs (kst m) e) = Some C"
    and sp: "spaces_ok s P C" and self: "self_map s P"
    by (auto simp: fork_ready_def s_def)
  have okP: "vm_ok s P" and okC: "vm_ok s C" and ap: "apart s P C" using sp by (simp_all add: spaces_ok_def)
  have pnb: "pn < 1048576" using pn by (simp add: PGNUM_UTOP)
  have u: "is_user va" and va: "\<not> bad_va va" using user_page [OF pn] by (simp_all add: va_def)
  have pte0: "pte \<noteq> 0" using pres by (auto simp: table_present_def)
  have q: "q < npages s" "q \<notin> set (free_pages s)" "q \<notin> tables s P" "q \<noteq> P" "q \<notin> tables s C" "q \<noteq> C"
    using vm_okD(9-12) [OF okP u] apartD(5,6) [OF ap u] pte0 by (auto simp: q_def pte_def)
  have qs: "q < 2 ^ 20" using q(1) vm_okD(2) [OF okP] by simp
  let ?perm = "PTE_P OR PTE_U OR dup_perm pte"
  have flags: "PGNUM ?perm = 0" and ent: "page2pa q OR ?perm OR PTE_P = dup_entry pte"
    by (simp_all only: dup_perm_facts(2,3,4) dup_entry_def q_def or.assoc)
  have num: "PGNUM (dup_entry pte) = q" using PGNUM_dup_entry [OF qs [unfolded q_def]] by (simp add: q_def)
  have "current_pgdir c m = Some P" using ke by (simp add: current_pgdir_def)
  then have view: "uvpt c m pn = Some pte"
    using uvpt_eq [of c m P pn] self pnb tab by (simp add: s_def pte_def va_def)
  have look: "page_lookup s P va = Some (Some (q, PGNUM (phys s P (PDX va)), PTX va))"
    using page_lookup_eq [OF okP u refl refl] pte0 by (simp add: q_def pte_def)
  have dpos: "phys s P (PDX va) \<noteq> 0"
    using tab pnb by (auto simp: va_def page_addr_index table_present_def)
  note run = duppage_eq [OF view pres, of cfg w]
  show thesis
  proof (cases rule: page_insert_grown [OF okC u flags q(1,2,5,6)])
    case 1
    then show ?case using free by simp
  next
    case 2
    have "u_page_map cfg c m 0 va w va (dup_perm pte) = Some (with_vm m s, Returned (- E_NO_MEM))"
      using ke va look dup_perm_facts(1) E_NO_MEM_range 2(1) by (intro u_page_map_ok) (auto simp: s_def)
    then show ?thesis using run panic [of "with_vm m s"] 2(2) E_NO_MEM_range by (simp add: va_def upanic_def)
  next
    case (3 v1)
    note g = 3(3) and pteC = 3(4)
    have call: "u_page_map cfg c m 0 va w va (dup_perm pte) = Some (with_vm m v1, Returned 0)"
      using ke va look dup_perm_facts(1) 3(1) by (intro u_page_map_ok) (auto simp: s_def)
    have spC: "spaces_ok s C P" using sp spaces_ok_sym by blast
    note same = grown_other [OF spC g]
    have "spaces_ok v1 C P"
    proof (rule grown_apart [OF spC 3(2) g])
      fix va' assume "is_user va'"
      then show "pte_at v1 C va' = pte_at s C va' \<or> PGNUM (pte_at v1 C va') \<notin> insert P (tables s P)"
        using pteC q(3,4) by (simp add: ent num)
    qed
    then have sp1: "spaces_ok v1 P C" using spaces_ok_sym by blast
    have ref1: "pp_ref v1 x = pp_ref s x + (if x = q then 1 else 0)" if "x \<notin> set (free_pages s)" for x
      using 3(5) [OF that] free by (simp add: refs_after_def)
    have self1: "self_map v1 P" using self same(1) by (simp add: self_map_def)
    have ready1: "fork_ready c (with_vm m v1) w P C"
      using ke sp1 self1 by (auto simp: fork_ready_def)
    have fr1: "set (free_pages v1) \<subseteq> set (free_pages s)" using grownD(2) [OF g] by auto
    note kept1 = 3(6)
    show ?thesis
    proof (cases "cow_page pte")
      case False
      show ?thesis
      proof (rule ok [OF _ ready1 _ _ ref1 fr1 same(1) 3(6)])
        show "duppage cfg c m w pn = Some (with_vm m v1, Returned ())"
          using run call False by (simp add: va_def uret_def)
      qed (use pteC same(3) False ent in simp_all)
    next
      case True
      have okP1: "vm_ok v1 P" using sp1 by (simp add: spaces_ok_def)
      have pte1: "pte_at v1 P va = pte" using same(3) [OF u] by (simp add: pte_def)
      have q1: "q < npages v1" "q \<notin> set (free_pages v1)" "q \<notin> tables v1 P" "q \<noteq> P"
        using q fr1 grownD(1) [OF g] same(2) by auto
      have look1: "page_lookup v1 P va = Some (Some (q, PGNUM (phys v1 P (PDX va)), PTX va))"
        using page_lookup_eq [OF okP1 u refl refl] pte0 pte1 by (simp add: q_def)
      have old1: "refs_after v1 q (pte_at v1 P va) (PGNUM (pte_at v1 P va)) \<noteq> 0"
        using ref ref1 [OF q(2)] pte0 by (simp add: pte1 refs_after_def q_def add.commute)
      have env0: "envid2env c (kst (with_vm m v1)) 0 True = Some (0, Some k)"
        using ke(1) by (simp add: envid2env_def)
      have call2: "u_page_map cfg c (with_vm m v1) 0 va 0 va (dup_perm pte) = Some (with_vm m v', Returned r)"
        if "page_insert v1 P q va ?perm = Some (v', r)" "- (2 ^ 31) \<le> r" "r \<le> 0" for v' r
        using u_page_map_ok [of "with_vm m v1" c k P 0 k P va va q _ _ "dup_perm pte" v' r cfg]
          ke env0 va look1 dup_perm_facts(1) that by simp
      show ?thesis
      proof (cases rule: page_insert_grown [OF okP1 u flags q1])
        case 1
        then show ?case using old1 by simp
      next
        case 2
        then show ?thesis
          using run call True panic [of "with_vm m v1"] call2 [OF 2(1)] 2(2) E_NO_MEM_range by (simp add: va_def upanic_def)
      next
        case (3 v2)
        note g2 = 3(3) and pteP = 3(4)
        have kept: "frees_kept s v2" using frees_kept_trans [OF kept1 3(6)] grownD(2) [OF g2] by auto
        have sp2: "spaces_ok v2 P C"
        proof (rule grown_apart [OF sp1 3(2) g2])
          fix va' assume u': "is_user va'"
          have "q \<notin> insert C (tables v1 C)"
            using apartD(5,6) [of v1 P C va] sp1 u pte1 pte0 by (auto simp: spaces_ok_def q_def)
          then show "pte_at v2 P va' = pte_at v1 P va' \<or> PGNUM (pte_at v2 P va') \<notin> insert C (tables v1 C)"
            using pteP [OF u'] by (simp add: ent num)
        qed
        note same2 = grown_other [OF sp1 g2]
        have dir: "phys v2 P = phys s P"
        proof
          fix d
          have "phys v2 P d = phys v1 P d" using dpos same(1) by (intro grownD(6) [OF g2]) auto
          then show "phys v2 P d = phys s P d" using same(1) by simp
        qed
        have ready2: "fork_ready c (with_vm m v2) w P C"
          using ke sp2 self dir by (auto simp: fork_ready_def self_map_def)
        show ?thesis
        proof (rule ok [OF _ ready2 _ _ _ _ dir kept])
          show "duppage cfg c m w pn = Some (with_vm m v2, Returned ())"
            using run call True call2 [OF 3(1)] by (simp add: va_def uret_def)
          show "set (free_pages v2) \<subseteq> set (free_pages s)" using fr1 grownD(2) [OF g2] by auto
          fix x assume x: "x \<notin> set (free_pages s)"
          then have "x \<notin> set (free_pages v1)" using fr1 by auto
          from 3(5) [OF this] ref1 [OF x]
          show "pp_ref v2 x = pp_ref s x + (if x = q then 1 else 0)"
            using pte0 by (simp add: refs_after_def pte1 q_def)
        next
          fix va' assume u': "is_user va'"
          show "pte_at v2 C va' = (if same_page va va' then dup_entry pte else pte_at s C va')"
            using same2(3) [OF u'] pteC [OF u'] ent by simp
          show "pte_at v2 P va' = (if same_page va va' \<and> cow_page pte then dup_entry pte else pte_at s P va')"
            using pteP [OF u'] same(3) [OF u'] ent True by simp
        qed
      qed
    qed
  qed
qed

subsection \<open>All pages\<close>

text \<open>The pages that \<open>fork\<close> copies: mapped for the program, and not its exception stack.\<close>

definition copied :: "pmem \<Rightarrow> nat \<Rightarrow> nat \<Rightarrow> bool" where
  "copied s P pn \<longleftrightarrow> pn \<noteq> PGNUM UXSTACKTOP - 1 \<and> table_present (phys s P (pn div 1024)) \<and>
     table_present (pte_at s P (page_addr pn))"

definition frame_of :: "pmem \<Rightarrow> nat \<Rightarrow> nat \<Rightarrow> nat" where
  "frame_of s P pn = PGNUM (pte_at s P (page_addr pn))"

text \<open>No reference count overflows when the pages of the list are shared.\<close>

definition refs_fit :: "pmem \<Rightarrow> nat \<Rightarrow> nat list \<Rightarrow> bool" where
  "refs_fit s P ps \<longleftrightarrow> (\<forall>pn\<in>set ps. copied s P pn \<longrightarrow>
     unat (pp_ref s (frame_of s P pn)) +
       length (filter (\<lambda>x. copied s P x \<and> frame_of s P x = frame_of s P pn) ps) < 65536)"

text \<open>The entries of parent and child after the pages of a set were shared.\<close>

definition shared_as :: "pmem \<Rightarrow> pmem \<Rightarrow> nat \<Rightarrow> nat \<Rightarrow> nat set \<Rightarrow> bool" where
  "shared_as s v P C A \<longleftrightarrow> (\<forall>pn<PGNUM UTOP.
     let old = pte_at s P (page_addr pn); hit = pn \<in> A \<and> copied s P pn in
     pte_at v C (page_addr pn) = (if hit then dup_entry old else pte_at s C (page_addr pn)) \<and>
     pte_at v P (page_addr pn) = (if hit \<and> cow_page old then dup_entry old else old))"

lemma shared_as_skip:
  "\<not> copied s P pn \<Longrightarrow> shared_as s v P C A \<Longrightarrow> shared_as s v P C (insert pn A)"
  unfolding shared_as_def Let_def by (metis insert_iff)

text \<open>The stack page can be written.\<close>

definition stack_open :: "pmem \<Rightarrow> nat \<Rightarrow> w32 \<Rightarrow> bool" where
  "stack_open s P esp \<longleftrightarrow> pdes_open s P \<and> PGNUM esp < PGNUM UTOP \<and>
     table_present (pte_at s P (page_addr (PGNUM esp))) \<and> pte_at s P (page_addr (PGNUM esp)) AND PTE_W \<noteq> 0"

lemma user_frame_page: "user_frame s P (page_addr (PGNUM va)) need = user_frame s P va need"
  by (simp only: user_frame_def page_addr_def page_address)

lemma touch_open:
  assumes "current_pgdir c m = Some P" and "stack_open (vm (kst m)) P esp"
  shows "touch_stack cfg c m esp = uret m ()"
proof -
  have o: "pdes_open (vm (kst m)) P" "PGNUM esp < PGNUM UTOP" "table_present (pte_at (vm (kst m)) P (page_addr (PGNUM esp)))"
    "pte_at (vm (kst m)) P (page_addr (PGNUM esp)) AND PTE_W \<noteq> 0"
    using assms(2) by (simp_all add: stack_open_def)
  from user_frame_eq [OF o(1) user_page(1) [OF o(2)] o(3), of PTE_W] o(4)
  have "user_frame (vm (kst m)) P esp PTE_W \<noteq> None" by (simp add: user_frame_page)
  then show ?thesis
    using assms(1) by (auto simp: touch_stack_def current_pgdir_def split: Option.bind_splits)
qed

text \<open>What the loop keeps of the counts.\<close>

definition counts_kept :: "pmem \<Rightarrow> pmem \<Rightarrow> bool" where
  "counts_kept s v \<longleftrightarrow> set (free_pages v) \<subseteq> set (free_pages s) \<and> frees_kept s v \<and>
     (\<forall>x. x \<notin> set (free_pages s) \<longrightarrow> unat (pp_ref s x) \<le> unat (pp_ref v x))"

lemma counts_kept_refl: "counts_kept s s"
  by (simp add: counts_kept_def frees_kept_def)

lemma counts_kept_trans:
  assumes "counts_kept s t" and "counts_kept t u"
  shows "counts_kept s u"
  unfolding counts_kept_def
proof (intro conjI allI impI)
  show "set (free_pages u) \<subseteq> set (free_pages s)" "frees_kept s u"
    using assms frees_kept_trans [of s t u] by (auto simp: counts_kept_def)
  fix x assume "x \<notin> set (free_pages s)"
  then have "unat (pp_ref s x) \<le> unat (pp_ref t x)" "unat (pp_ref t x) \<le> unat (pp_ref u x)"
    using assms unfolding counts_kept_def by blast+
  then show "unat (pp_ref s x) \<le> unat (pp_ref u x)" by (rule order_trans)
qed

lemma duppage_counts:
  assumes "\<And>x. x \<notin> set (free_pages s) \<Longrightarrow> pp_ref v x = pp_ref s x + (if x = q then 1 else 0)"
    and "unat (pp_ref s q + 1) = unat (pp_ref s q) + 1" and "set (free_pages v) \<subseteq> set (free_pages s)" and "frees_kept s v"
  shows "counts_kept s v"
  using assms by (simp add: counts_kept_def)

lemma fork_loop_skip:
  assumes cur: "current_pgdir c m = Some P" and self: "self_map (vm (kst m)) P" and pn: "pn < PGNUM UTOP"
    and nc: "\<not> copied (vm (kst m)) P pn"
  shows "fork_loop cfg c esp (pn # ps) m w = fork_loop cfg c esp ps m w"
proof -
  have b: "pn < 1048576" using pn by (simp add: PGNUM_UTOP)
  have pde: "uvpd c m (pn div 1024) = Some (phys (vm (kst m)) P (pn div 1024))"
    using uvpd_eq [OF cur self, of "pn div 1024"] b by simp
  show ?thesis
  proof (cases "pn = PGNUM UXSTACKTOP - 1 \<or> \<not> table_present (phys (vm (kst m)) P (pn div 1024))")
    case True
    then show ?thesis using pde by auto
  next
    case here: False
    then have "uvpt c m pn = Some (pte_at (vm (kst m)) P (page_addr pn))" by (intro uvpt_eq cur self b) simp
    with here nc pde show ?thesis by (auto simp: copied_def table_present_def)
  qed
qed

lemma fork_loop_skips:
  assumes "current_pgdir c m = Some P" and "self_map (vm (kst m)) P"
    and "\<forall>pn\<in>set ps. pn < PGNUM UTOP \<and> \<not> copied (vm (kst m)) P pn"
  shows "fork_loop cfg c esp ps m w = uret m ()"
  using assms(3)
proof (induction ps)
  case (Cons pn ps)
  then show ?case using fork_loop_skip [OF assms(1,2), of pn cfg esp ps w] by simp
qed simp

lemma fork_loop_step:
  assumes cur: "current_pgdir c m = Some P" and self: "self_map (vm (kst m)) P" and pn: "pn < PGNUM UTOP"
    and cp: "copied (vm (kst m)) P pn" and st: "stack_open (vm (kst m)) P esp"
  shows "fork_loop cfg c esp (pn # ps) m w = andthen (duppage cfg c m w pn) (\<lambda>m _. fork_loop cfg c esp ps m w)"
proof -
  have b: "pn < 1048576" using pn by (simp add: PGNUM_UTOP)
  have tab: "table_present (phys (vm (kst m)) P (pn div 1024))" and pres: "table_present (pte_at (vm (kst m)) P (page_addr pn))"
    and ne: "pn \<noteq> PGNUM UXSTACKTOP - 1" using cp by (simp_all add: copied_def)
  have "uvpd c m (pn div 1024) = Some (phys (vm (kst m)) P (pn div 1024))"
    using uvpd_eq [OF cur self, of "pn div 1024"] b by simp
  moreover have "uvpt c m pn = Some (pte_at (vm (kst m)) P (page_addr pn))" by (intro uvpt_eq cur self b tab)
  ultimately show ?thesis
    using ne tab pres touch_open [OF cur st] by (auto simp: table_present_def uret_def)
qed

lemma andthen_assoc: "andthen (andthen r f) g = andthen r (\<lambda>m x. andthen (f m x) g)"
  by (cases r; simp; case_tac a; case_tac b; simp)

lemma fork_loop_append:
  "fork_loop cfg c esp (ps @ qs) m w = andthen (fork_loop cfg c esp ps m w) (\<lambda>m _. fork_loop cfg c esp qs m w)"
proof (induction ps arbitrary: m)
  case (Cons pn ps)
  then show ?case by (auto simp: andthen_assoc split: Option.bind_splits)
qed (simp add: uret_def)

text \<open>The loop over pages other than that of the stack.\<close>

lemma fork_loop_ok:
  assumes "fork_ready c m w P C" and "distinct (ps @ qs)" and "\<forall>pn\<in>set (ps @ qs). pn < PGNUM UTOP"
    and "\<forall>pn\<in>set ps. pte_at (vm (kst m)) C (page_addr pn) = 0" and "refs_fit (vm (kst m)) P (ps @ qs)"
    and "stack_open (vm (kst m)) P esp" and "PGNUM esp \<notin> set ps"
  shows "(\<exists>m'. fork_loop cfg c esp ps m w = Some (m', UserPanic) \<and> free_pages (vm (kst m')) = []) \<or>
    (\<exists>v. fork_loop cfg c esp ps m w = Some (with_vm m v, Returned ()) \<and> fork_ready c (with_vm m v) w P C \<and>
       shared_as (vm (kst m)) v P C (set ps) \<and> phys v P = phys (vm (kst m)) P \<and> refs_fit v P qs \<and>
       counts_kept (vm (kst m)) v)"
  using assms
proof (induction ps arbitrary: m)
  case Nil
  have "shared_as (vm (kst m)) (vm (kst m)) P C {}" by (simp add: shared_as_def)
  moreover have "fork_loop cfg c esp [] m w = Some (with_vm m (vm (kst m)), Returned ())" by (simp add: uret_def)
  moreover have "fork_ready c (with_vm m (vm (kst m))) w P C" "refs_fit (vm (kst m)) P qs" using Nil(1,5) by simp_all
  ultimately show ?case using counts_kept_refl by (metis list.set(1))
next
  case (Cons pn ps)
  let ?s = "vm (kst m)"
  have pn: "pn < PGNUM UTOP" "pn < 1048576" using Cons.prems(3) by (simp_all add: PGNUM_UTOP)
  from Cons.prems(1) have cur: "current_pgdir c m = Some P" and self: "self_map ?s P"
    by (auto simp: fork_ready_def current_pgdir_def)
  show ?case
  proof (cases "copied ?s P pn")
    case False
    note skip = fork_loop_skip [OF cur self pn(1) False]
    have "refs_fit ?s P (ps @ qs)" using Cons.prems(5) False by (auto simp: refs_fit_def)
    then show ?thesis
      using Cons.IH [OF Cons.prems(1)] Cons.prems(2-4,6,7) shared_as_skip [OF False] unfolding skip by fastforce
  next
    case True
    have tab: "table_present (phys ?s P (pn div 1024))" and pres: "table_present (pte_at ?s P (page_addr pn))"
      using True by (simp_all add: copied_def)
    note step = fork_loop_step [OF cur self pn(1) True Cons.prems(6)]
    let ?q = "frame_of ?s P pn"
    have fit: "unat (pp_ref ?s ?q) + Suc (length (filter (\<lambda>x. copied ?s P x \<and> frame_of ?s P x = ?q) (ps @ qs))) < 65536"
      using Cons.prems(5) True by (simp add: refs_fit_def)
    have inc: "unat (pp_ref ?s ?q + 1) = unat (pp_ref ?s ?q) + 1"
      using fit by (simp add: unat_word_ariths)
    then have nz: "pp_ref ?s (PGNUM (pte_at ?s P (page_addr pn))) + 1 \<noteq> 0"
      unfolding frame_of_def by (metis Suc_eq_plus1 nat.distinct(1) unsigned_0)
    have zero: "pte_at ?s C (page_addr pn) = 0" using Cons.prems(4) by simp
    show ?thesis
    proof (cases rule: duppage_ok [OF Cons.prems(1) pn(1) tab pres zero nz, of cfg])
      case (1 m')
      then show ?thesis unfolding step by simp
    next
      case (2 v)
      let ?m = "with_vm m v"
      have other: "pte_at v C (page_addr x) = pte_at ?s C (page_addr x)"
        "pte_at v P (page_addr x) = pte_at ?s P (page_addr x)" if "x \<noteq> pn" "x < PGNUM UTOP" for x
        using that 2(3,4) user_page(1) [OF that(2)] same_page_addr [OF pn(2), of x] by (simp_all add: PGNUM_UTOP)
      have rest: "x \<noteq> pn" "x < PGNUM UTOP" if "x \<in> set (ps @ qs)" for x using that Cons.prems(2,3) by auto
      have cp: "copied v P x = copied ?s P x" "frame_of v P x = frame_of ?s P x" if "x \<in> set (ps @ qs)" for x
        using other(2) [OF rest [OF that]] by (simp_all add: copied_def frame_of_def 2(7))
      have refs: "refs_fit v P (ps @ qs)"
        unfolding refs_fit_def
      proof (intro ballI impI)
        fix x assume x: "x \<in> set (ps @ qs)" "copied v P x"
        then have xs: "copied ?s P x" using cp by simp
        let ?f = "frame_of ?s P x"
        have "pte_at ?s P (page_addr x) \<noteq> 0" using xs by (auto simp: copied_def table_present_def)
        then have "?f \<notin> set (free_pages ?s)"
          using Cons.prems(1) vm_okD(10) [of ?s P "page_addr x"] user_page(1) [OF rest(2) [OF x(1)]]
          by (auto simp: fork_ready_def spaces_ok_def frame_of_def)
        from 2(5) [OF this] have "unat (pp_ref v ?f) = unat (pp_ref ?s ?f) + (if ?f = ?q then 1 else 0)"
          using inc by (simp add: frame_of_def)
        moreover have "filter (\<lambda>y. copied v P y \<and> frame_of v P y = frame_of v P x) (ps @ qs) =
            filter (\<lambda>y. copied ?s P y \<and> frame_of ?s P y = ?f) (ps @ qs)"
          using cp x(1) by (intro filter_cong) simp_all
        moreover have "unat (pp_ref ?s ?f) + length (filter (\<lambda>y. copied ?s P y \<and> frame_of ?s P y = ?f) (pn # ps @ qs)) < 65536"
          using Cons.prems(5) x(1) xs by (simp add: refs_fit_def)
        ultimately show "unat (pp_ref v (frame_of v P x)) +
            length (filter (\<lambda>y. copied v P y \<and> frame_of v P y = frame_of v P x) (ps @ qs)) < 65536"
          using True cp(2) [OF x(1)] by (auto split: if_splits)
      qed
      have empty: "\<forall>x\<in>set ps. pte_at (vm (kst ?m)) C (page_addr x) = 0" using Cons.prems(4) other(1) rest by simp
      have "PGNUM esp \<noteq> pn" "PGNUM esp < PGNUM UTOP" using Cons.prems(6,7) by (auto simp: stack_open_def)
      from other(2) [OF this] have open': "stack_open (vm (kst ?m)) P esp"
        using Cons.prems(6) 2(7) by (simp add: stack_open_def pdes_open_def)
      have counts: "counts_kept ?s v"
        by (rule duppage_counts [OF 2(5) _ 2(6,8)]) (use inc in \<open>simp_all add: frame_of_def\<close>)
      have ih: "(\<exists>m'. fork_loop cfg c esp ps ?m w = Some (m', UserPanic) \<and> free_pages (vm (kst m')) = []) \<or>
        (\<exists>v'. fork_loop cfg c esp ps ?m w = Some (with_vm ?m v', Returned ()) \<and> fork_ready c (with_vm ?m v') w P C \<and>
           shared_as v v' P C (set ps) \<and> phys v' P = phys v P \<and> refs_fit v' P qs \<and> counts_kept v v')"
        using Cons.IH [OF 2(2) _ _ empty _ open'] refs Cons.prems(2,3,7) by simp
      have "shared_as ?s v' P C (set (pn # ps))" if sh: "shared_as v v' P C (set ps)" for v'
        unfolding shared_as_def Let_def
      proof (intro allI impI)
        fix x assume x: "x < PGNUM UTOP"
        note now = sh [unfolded shared_as_def Let_def, rule_format, OF x]
        show "pte_at v' C (page_addr x) = (if x \<in> set (pn # ps) \<and> copied ?s P x
              then dup_entry (pte_at ?s P (page_addr x)) else pte_at ?s C (page_addr x)) \<and>
            pte_at v' P (page_addr x) = (if (x \<in> set (pn # ps) \<and> copied ?s P x) \<and> cow_page (pte_at ?s P (page_addr x))
              then dup_entry (pte_at ?s P (page_addr x)) else pte_at ?s P (page_addr x))"
        proof (cases "x = pn")
          case eq: True
          then have "x \<notin> set ps" using Cons.prems(2) by simp
          with now True eq 2(3,4) user_page(1) [OF pn(1)] show ?thesis by (simp add: same_page_def)
        next
          case False
          with now other [OF False x] cp show ?thesis by auto
        qed
      qed
      with ih counts_kept_trans [OF counts] show ?thesis unfolding step 2(1) using 2(7) by auto
    qed
  qed
qed

end
