(* ===== verification/ForkCalls.thy ===== *)
theory ForkCalls
  imports ForkPages
begin

unbundle bit_operations_syntax

text \<open>
  The system calls of \<open>fork\<close> and of its page fault handler on a well-formed address space: a fresh page, the check of a
  mapped range, \<open>sys_page_alloc\<close>, and the calls that set the upcall and the status of the child.
\<close>

subsection \<open>A fresh page\<close>

lemma page_alloc_vm_ok:
  assumes ok: "vm_ok s D" and al: "page_alloc s z = (s', Some p)"
  shows "vm_ok s' D" and "phys s' D = phys s D" and "tables s' D = tables s D"
    and "is_user va \<Longrightarrow> pte_at s' D va = pte_at s D va"
    and "p < npages s'" and "p \<notin> set (free_pages s')" and "p \<notin> tables s D" and "p \<noteq> D"
    and "is_user va \<Longrightarrow> pte_at s D va \<noteq> 0 \<Longrightarrow> PGNUM (pte_at s D va) \<noteq> p"
proof -
  note f = page_alloc_frames [OF vm_okD(1) [OF ok] al]
  have pn: "p < npages s"
    using f(1) free_chainD [OF vm_okD(1) [OF ok, unfolded pages_inv_def]] by (auto simp: free_pages_def)
  show pD: "p \<noteq> D" using f(1) vm_okD(4) [OF ok] by auto
  show pT: "p \<notin> tables s D" using f(1) vm_okD(7) [OF ok] by auto
  show dir: "phys s' D = phys s D" using f(4) pD by simp
  then show tab: "tables s' D = tables s D" by (simp add: tables_def)
  show pM: "PGNUM (pte_at s D va) \<noteq> p" if "is_user va" "pte_at s D va \<noteq> 0" for va
    using vm_okD(10) [OF ok that] f(1) by auto
  show pte: "pte_at s' D va = pte_at s D va" if "is_user va" for va
  proof (cases "phys s D (PDX va) = 0")
    case False
    then have "PGNUM (phys s D (PDX va)) \<in> tables s D" using that by (simp add: tablesI is_user_def)
    then have "PGNUM (phys s D (PDX va)) \<noteq> p" using pT by auto
    then show ?thesis using f(4) pD by (simp add: pte_at_def Let_def)
  qed (simp add: pte_at_def dir)
  show "p < npages s'" "p \<notin> set (free_pages s')" using pn f(2,5) by simp_all
  have links: "pp_link s' x = None" if "x < npages s" "x \<notin> set (free_pages s) - {p}" for x
    using that vm_okD(5) [OF ok, of x] f(7) by (cases "x = p") auto
  show "vm_ok s' D"
    unfolding vm_ok_def tab dir f(2,5)
  proof (intro conjI ballI allI impI)
    fix va assume a: "is_user va" "pte_at s' D va \<noteq> 0"
    with pte [OF a(1)] have b: "pte_at s D va \<noteq> 0" "pte_at s' D va = pte_at s D va" by auto
    from vm_okD(9-12) [OF ok a(1) b(1)] b(2)
    show "PGNUM (pte_at s' D va) < npages s" "PGNUM (pte_at s' D va) \<notin> set (free_pages s) - {p}"
      "PGNUM (pte_at s' D va) \<notin> tables s D" "PGNUM (pte_at s' D va) \<noteq> D" by auto
  next
    show "inj_on (\<lambda>d. PGNUM (phys s D d)) {d. d < PDX UTOP \<and> phys s D d \<noteq> 0}"
      using ok by (simp add: vm_ok_def)
    show "pages_inv s'" by (rule f(3))
  qed (use vm_okD [OF ok] links in auto)
qed

lemma page_alloc_spaces:
  assumes sp: "spaces_ok s D E" and al: "page_alloc s True = (s', Some p)"
  shows "spaces_ok s' D E"
proof -
  have ok: "vm_ok s D" "vm_ok s E" and ap: "apart s D E" using sp by (simp_all add: spaces_ok_def)
  note a = page_alloc_vm_ok [OF ok(1) al] and b = page_alloc_vm_ok [OF ok(2) al]
  have "apart s' D E" using ap a(3,4) b(3,4) by (simp add: apart_def)
  with a(1) b(1) show ?thesis by (simp add: spaces_ok_def)
qed

subsection \<open>Addresses that are mapped pass the check\<close>

lemma page_addr_PGNUM: "push_bit 12 (word_of_nat k) = page_addr k"
  by (simp add: page_addr_def)

lemma user_mem_loop_passes:
  assumes ok: "vm_ok s D" and "\<forall>k\<in>set ks. k < PGNUM UTOP \<and>
    pte_at s D (page_addr k) AND (perm OR PTE_P) = perm OR PTE_P"
  shows "user_mem_loop ks s D va perm = Some (0, None)"
  using assms(2)
proof (induction ks)
  case (Cons k ks)
  then have k: "k < PGNUM UTOP" "pte_at s D (page_addr k) AND (perm OR PTE_P) = perm OR PTE_P" by simp_all
  have ne: "perm OR PTE_P \<noteq> 0"
    by (metis flag_ne(1) or_eq_0_iff)
  then have "pte_at s D (page_addr k) \<noteq> 0" using k(2) by auto
  then have d: "phys s D (PDX (page_addr k)) \<noteq> 0" by (auto simp: pte_at_def Let_def)
  have "PGNUM (phys s D (PDX (page_addr k))) < npages s"
    using vm_okD(6) [OF ok tablesI] d user_page(1) [OF k(1)] by (simp add: is_user_def)
  then have "pgdir_walk s D (page_addr k) False =
      Some (s, Some (PGNUM (phys s D (PDX (page_addr k))), PTX (page_addr k)))"
    using d by (simp add: pgdir_walk_def pa2page_def)
  then show ?case using Cons k(2) d by (simp add: page_addr_PGNUM pte_at_table)
qed simp

lemma user_mem_check_passes:
  assumes ok: "vm_ok s D" and "unat va + unat len + 4095 < 2 ^ 32" and "unat va + unat len \<le> unat UTOP"
    and "\<forall>k. unat va div 4096 \<le> k \<and> k * 4096 < unat va + unat len \<longrightarrow>
      pte_at s D (page_addr k) AND (perm OR PTE_P) = perm OR PTE_P"
  shows "user_mem_check s D va len perm = Some (0, None)"
proof -
  let ?hi = "ROUNDUP (va + len) PGSIZE"
  have sum: "unat (va + len) = unat va + unat len" using assms(2) by (simp add: unat_word_ariths)
  then have hi: "unat ?hi = (unat va + unat len + 4095) div 4096 * 4096"
    using unat_ROUNDUP [of "va + len"] assms(2) by simp
  have top: "unat UTOP = 977920 * 4096" by (simp add: layout_defs)
  have "(unat va + unat len + 4095) div 4096 \<le> 977920" using assms(3) top by linarith
  then have "unat ?hi \<le> unat UTOP" unfolding hi top by simp
  then have le: "\<not> ?hi > UTOP" by (simp add: word_less_nat_alt not_less)
  have lo: "PGNUM (ROUNDDOWN va PGSIZE) = unat va div 4096"
    by (simp add: PGNUM_div unat_ROUNDDOWN minus_mod_eq_div_mult)
  have hi': "PGNUM ?hi = (unat va + unat len + 4095) div 4096" by (simp add: PGNUM_div hi)
  have "user_mem_loop [PGNUM (ROUNDDOWN va PGSIZE)..<PGNUM ?hi] s D va perm = Some (0, None)"
  proof (rule user_mem_loop_passes [OF ok], intro ballI conjI)
    fix k assume "k \<in> set [PGNUM (ROUNDDOWN va PGSIZE)..<PGNUM ?hi]"
    then have k: "unat va div 4096 \<le> k" "k < (unat va + unat len + 4095) div 4096"
      by (simp_all add: lo hi')
    then show "k < PGNUM UTOP"
      using \<open>(unat va + unat len + 4095) div 4096 \<le> 977920\<close> by (simp add: PGNUM_UTOP)
    have "k * 4096 < unat va + unat len" using k(2) by linarith
    with k(1) assms(4) show "pte_at s D (page_addr k) AND (perm OR PTE_P) = perm OR PTE_P" by blast
  qed
  with le show ?thesis by (simp add: user_mem_check_def Let_def)
qed

subsection \<open>The other calls\<close>

definition user_rw :: w32 where "user_rw = PTE_U OR PTE_P OR PTE_W"

lemma user_rw_facts:
  "check_perm (user_rw OR PTE_U OR PTE_P) None = 0" "PGNUM (user_rw OR PTE_U OR PTE_P) = 0"
  "PTE_U OR PTE_P OR PTE_W = user_rw" "PTE_P OR PTE_U OR PTE_W = user_rw"
  by (simp_all add: user_rw_def check_perm_def PTE_SYSCALL_def PTE_AVAIL_def PTE_P_def PTE_U_def PTE_W_def
      PGNUM_def)

definition rw_entry :: "nat \<Rightarrow> w32" where "rw_entry p = page2pa p OR user_rw"

lemma rw_entry_insert:
  "page2pa p OR (user_rw OR PTE_U OR PTE_P) OR PTE_P = rw_entry p"
  "page2pa p OR (PTE_P OR PTE_U OR user_rw) OR PTE_P = rw_entry p"
  by (simp_all add: rw_entry_def user_rw_def PTE_P_def PTE_U_def PTE_W_def or.assoc)

lemma rw_entry_facts:
  assumes "p < 2 ^ 20"
  shows "PGNUM (rw_entry p) = p" and "table_present (rw_entry p)" and "rw_entry p \<noteq> 0" and "bit (rw_entry p) 1"
proof -
  have "PGNUM user_rw = 0" by (simp add: user_rw_def PGNUM_def PTE_P_def PTE_U_def PTE_W_def)
  from PGNUM_entry [OF assms this] show "PGNUM (rw_entry p) = p" by (simp add: rw_entry_def)
  have b: "bit (rw_entry p) 0" "bit (rw_entry p) 1" "bit (rw_entry p) 2"
  proof -
    have "user_rw = 7" "bit (7 :: w32) 0" "bit (7 :: w32) 1" "bit (7 :: w32) 2"
      by (simp_all add: user_rw_def PTE_P_def PTE_U_def PTE_W_def)
    then show "bit (rw_entry p) 0" "bit (rw_entry p) 1" "bit (rw_entry p) 2"
      unfolding rw_entry_def by (simp_all only: bit_or_iff simp_thms)
  qed
  then show "table_present (rw_entry p)" by (simp add: table_present_def flag_bits)
  show "bit (rw_entry p) 1" by (rule b)
  show "rw_entry p \<noteq> 0" using b(1) by auto
qed

lemma env_page_alloc_ok:
  assumes vok: "vm_ok (vm k) D" and pg: "env_pgdir (envs k e) = Some D" and u: "is_user va"
    and free: "pte_at (vm k) D va = 0"
  obtains (nomem) k' where "env_page_alloc k e va (user_rw OR PTE_U OR PTE_P) = Some (k', - E_NO_MEM)"
      and "free_pages (vm k') = []"
  | (ok) s1 v p where "env_page_alloc k e va (user_rw OR PTE_U OR PTE_P) = Some (k\<lparr>vm := v\<rparr>, 0)"
    and "page_alloc (vm k) True = (s1, Some p)" and "vm_ok v D" and "grown s1 D va v"
    and "\<And>va'. is_user va' \<Longrightarrow> pte_at v D va' = (if same_page va va' then rw_entry p else pte_at (vm k) D va')"
    and "phys v p = (\<lambda>_. 0)" and "\<And>q. q \<notin> set (free_pages s1) \<Longrightarrow> pp_ref v q = pp_ref (vm k) q + (if q = p then 1 else 0)"
proof -
  let ?f = "user_rw OR PTE_U OR PTE_P"
  have chk: "\<not> check_perm ?f None < 0" by (simp add: user_rw_facts)
  show thesis
  proof (cases "page_alloc (vm k) True")
    case (Pair s1 pr)
    show thesis
    proof (cases pr)
      case None
      then have "env_page_alloc k e va ?f = Some (k\<lparr>vm := s1\<rparr>, - E_NO_MEM)"
        using Pair chk by (simp add: env_page_alloc_def)
      moreover have "s1 = vm k" using Pair None by (auto simp: page_alloc_def Let_def split: option.splits)
      moreover have "free_pages (vm k) = []"
        using Pair None page_alloc_Cons [OF vm_okD(1) [OF vok], of _ _ True] by (cases "free_pages (vm k)") auto
      ultimately show thesis using nomem by simp
    next
      case (Some p)
      note al = Pair [unfolded Some]
      note a = page_alloc_vm_ok [OF vok al]
      have old: "pte_at s1 D va = 0" using a(4) [OF u] free by simp
      have "p < npages s1" "p \<notin> tables s1 D" using a(3,5,7) by simp_all
      note p = this(1) a(6) this(2) a(8)
      show thesis
      proof (cases rule: page_insert_grown [OF a(1) u user_rw_facts(2) p])
        case 1
        then show ?case using old by simp
      next
        case 2
        have "env_page_alloc k e va ?f = Some (k\<lparr>vm := s1\<rparr>, - E_NO_MEM)"
          using al pg chk 2(1) by (simp add: env_page_alloc_def)
        then show thesis using nomem 2(2) by simp
      next
        case (3 v)
        show thesis
        proof (rule ok [OF _ al 3(2,3)])
          show "env_page_alloc k e va ?f = Some (k\<lparr>vm := v\<rparr>, 0)"
            using al pg chk 3(1) by (simp add: env_page_alloc_def)
          show "is_user va' \<Longrightarrow> pte_at v D va' = (if same_page va va' then rw_entry p else pte_at (vm k) D va')" for va'
            using 3(4) a(4) by (simp add: rw_entry_insert)
          have "phys v p = phys s1 p" using p by (intro grownD(5) [OF 3(3)]) auto
          then show "phys v p = (\<lambda>_. 0)" using page_alloc_frames(4) [OF vm_okD(1) [OF vok] al] by simp
          show "q \<notin> set (free_pages s1) \<Longrightarrow> pp_ref v q = pp_ref (vm k) q + (if q = p then 1 else 0)" for q
            using 3(5) old page_alloc_frames(6) [OF vm_okD(1) [OF vok] al] by (simp add: refs_after_def)
        qed
      qed
    qed
  qed
qed

lemma u_page_alloc_eq:
  assumes "envid2env c (kst m) w True = Some (0, Some e)" and "\<not> bad_va va"
    and "env_page_alloc (kst m) e va (user_rw OR PTE_U OR PTE_P) = Some (k', r)"
    and "- (2 ^ 31) \<le> r" and "r \<le> 0"
  shows "u_page_alloc cfg c m w va user_rw = Some (m\<lparr>kst := k'\<rparr>, Returned r)"
proof -
  have "sys_page_alloc c (kst m) w va user_rw = Some (k', ret r)"
    using assms(1-3) by (simp add: sys_page_alloc_def)
  then have "syscall cfg c [] [] m 4 w va user_rw 0 0 = on_kernel m (Some (k', ret r))"
    by (simp add: syscall_def Let_def)
  from usyscall_kernel [OF this assms(4,5)] show ?thesis by (simp add: u_page_alloc_def)
qed

lemma u_set_upcall_eq:
  assumes "envid2env c (kst m) w True = Some (0, Some e)" and "env_pgdir (envs (kst m) e) = Some D"
    and "user_mem_check (vm (kst m)) D func PGSIZE (PTE_P OR PTE_U OR PTE_U) = Some (0, a)"
  shows "u_env_set_pgfault_upcall cfg c m w func =
    Some (m\<lparr>kst := upd_env e (\<lambda>x. x\<lparr>env_pgfault_upcall := func\<rparr>) (kst m)\<rparr>, Returned 0)"
proof -
  have "sys_env_set_pgfault_upcall cfg c (kst m) w func =
      Some (upd_env e (\<lambda>x. x\<lparr>env_pgfault_upcall := func\<rparr>) (kst m), ret 0)"
    using assms by (simp add: sys_env_set_pgfault_upcall_def user_mem_assert_def ret_def or.assoc)
  then have "syscall cfg c [] [] m 9 w func 0 0 0 =
      on_kernel m (Some (upd_env e (\<lambda>x. x\<lparr>env_pgfault_upcall := func\<rparr>) (kst m), ret 0))"
    by (simp add: syscall_def Let_def)
  from usyscall_kernel [OF this] show ?thesis by (simp add: u_env_set_pgfault_upcall_def)
qed

lemma u_set_runnable_eq:
  assumes "envid2env c (kst m) w True = Some (0, Some e)"
  shows "u_env_set_status cfg c m w ENV_RUNNABLE_code =
    Some (m\<lparr>kst := upd_env e (set_status ENV_RUNNABLE) (kst m)\<rparr>, Returned 0)"
proof -
  have "sys_env_set_status c (kst m) w ENV_RUNNABLE_code = Some (upd_env e (set_status ENV_RUNNABLE) (kst m), ret 0)"
    using assms by (simp add: sys_env_set_status_def status_of_word_def ENV_RUNNABLE_code_def ret_def)
  then have "syscall cfg c [] [] m 8 w ENV_RUNNABLE_code 0 0 0 =
      on_kernel m (Some (upd_env e (set_status ENV_RUNNABLE) (kst m), ret 0))"
    by (simp add: syscall_def Let_def)
  from usyscall_kernel [OF this] show ?thesis by (simp add: u_env_set_status_def)
qed

end
