(* ===== verification/ForkFault.thy ===== *)
theory ForkFault
  imports ForkCalls ConsoleProps
begin

unbundle bit_operations_syntax

text \<open>
  The page fault handler of \<open>fork\<close>: it gives the program a private copy of the page, while every other
  address space keeps its mappings and the frame that was shared keeps its contents.
\<close>

subsection \<open>The steps of the handler\<close>

text \<open>The check at the start never fails: a bit and a truth value are never both 1.\<close>

lemma pgfault_check_passes: "(err AND FEC_WR) AND (if c then 1 else 0) = 0"
proof -
  have "(2 :: w32) AND 1 = 0" by simp
  then show ?thesis by (simp add: FEC_WR_def and.assoc)
qed

lemma PFTEMP_page: "PFTEMP = page_addr 2047" "(2047 :: nat) < PGNUM UTOP"
  by (simp_all add: PGNUM_UTOP page_addr_def push_bit_eq_mult) (simp add: layout_defs)

lemma ROUNDDOWN_page_addr: "ROUNDDOWN va PGSIZE = page_addr (PGNUM va)"
proof -
  have b: "PGNUM va < 1048576"
  proof -
    have "unat va < 2 ^ LENGTH(32)" by (rule unsigned_less)
    then show ?thesis by (simp add: PGNUM_div less_mult_imp_div_less)
  qed
  have "unat (ROUNDDOWN va PGSIZE) = unat va div 4096 * 4096"
    unfolding unat_ROUNDDOWN by (simp add: minus_mod_eq_div_mult)
  then show ?thesis by (simp add: word_unat_eq_iff unat_page_addr [OF b [unfolded PGNUM_div]] PGNUM_div)
qed

lemma u_page_unmap_eq:
  assumes "cpu_env (kst m) c = Some k" and "env_pgdir (envs (kst m) k) = Some P" and "\<not> bad_va va"
    and "page_remove (vm (kst m)) P va = Some v"
  shows "u_page_unmap cfg c m 0 va = Some (with_vm m v, Returned 0)"
proof -
  have "envid2env c (kst m) 0 True = Some (0, Some k)" using assms(1) by (simp add: envid2env_def)
  then have "sys_page_unmap c (kst m) 0 va = Some (kst (with_vm m v), ret 0)"
    using assms by (simp add: sys_page_unmap_def ret_def)
  then have "syscall cfg c [] [] m 6 0 va 0 0 0 = on_kernel m (Some (kst (with_vm m v), ret 0))"
    by (simp add: syscall_def Let_def)
  from usyscall_kernel [OF this] show ?thesis by (simp add: u_page_unmap_def)
qed

subsection \<open>The handler\<close>

text \<open>What a fault at \<open>va\<close> changes in the space \<open>P\<close>: the page maps the new frame \<open>p\<close>, a copy of the old one.\<close>

definition private_copy :: "pmem \<Rightarrow> pmem \<Rightarrow> nat \<Rightarrow> nat \<Rightarrow> w32 \<Rightarrow> nat \<Rightarrow> bool" where
  "private_copy s v P E va p \<longleftrightarrow> (let q = PGNUM (pte_at s P va) in
     p \<in> set (free_pages s) \<and> pte_at v P va = rw_entry p \<and> pp_ref v p = 1 \<and> pp_ref v q = pp_ref s q - 1 \<and>
     (\<forall>i<1024. phys v p i = phys s q i) \<and> phys v q = phys s q \<and>
     (\<forall>va'. is_user va' \<longrightarrow> \<not> same_page va va' \<longrightarrow> pte_at v P va' = pte_at s P va') \<and>
     (\<forall>va'. is_user va' \<longrightarrow> pte_at v E va' = pte_at s E va') \<and> spaces_ok v P E)"

definition can_fault :: "nat \<Rightarrow> machine \<Rightarrow> nat \<Rightarrow> nat \<Rightarrow> w32 \<Rightarrow> bool" where
  "can_fault c m P E va \<longleftrightarrow> (let s = vm (kst m) in
     current_pgdir c m = Some P \<and> spaces_ok s P E \<and> self_map s P \<and> pdes_open s P \<and>
     (\<forall>p\<in>set (free_pages s). pp_ref s p = 0) \<and> pte_at s P PFTEMP = 0 \<and>
     PGNUM va < PGNUM UTOP \<and> table_present (pte_at s P va) \<and> 1 < unat (pp_ref s (PGNUM (pte_at s P va))))"

lemma same_page_refl [simp]: "same_page va va"
  by (simp add: same_page_def)

lemma pte_at_same: "same_page va va' \<Longrightarrow> pte_at s P va' = pte_at s P va"
  by (metis pte_at_def same_page_def)

text \<open>The copy between the first system call and the second.\<close>

lemma move_page_eq:
  assumes "current_pgdir c m = Some P" and "pdes_open (vm (kst m)) P" and "is_user src" and "is_user dst"
    and "table_present (pte_at (vm (kst m)) P src)" and "pte_at (vm (kst m)) P dst = rw_entry p" and "p < 2 ^ 20"
  shows "move_page c m dst src = Some (with_vm m (set_frame (vm (kst m)) p
     (\<lambda>i. if i < 1024 then phys (vm (kst m)) (PGNUM (pte_at (vm (kst m)) P src)) i else phys (vm (kst m)) p i)))"
proof -
  note rw = rw_entry_facts [OF assms(7)]
  have "rw_entry p AND PTE_W \<noteq> 0" using rw(4) by (simp add: flag_bits)
  with user_frame_eq [OF assms(2,4), of PTE_W] assms(6) rw
  have d: "user_frame (vm (kst m)) P dst PTE_W = Some p" by simp
  have s: "user_frame (vm (kst m)) P src 0 = Some (PGNUM (pte_at (vm (kst m)) P src))"
    by (rule user_frame_eq [OF assms(2,3,5)]) simp
  show ?thesis using assms(1) d s by (simp add: move_page_def with_vm_def set_frame_def Let_def del: with_vm_sel)
qed

lemma pgfault_ok:
  assumes can: "can_fault c m P E va" and other: "PGNUM va \<noteq> PGNUM PFTEMP"
  shows "(\<exists>m'. pgfault cfg c m va err = Some (m', UserPanic) \<and> free_pages (vm (kst m')) = []) \<or>
    (\<exists>v p. pgfault cfg c m va err = Some (with_vm m v, Returned ()) \<and>
       private_copy (vm (kst m)) v P E (page_addr (PGNUM va)) p)"
proof -
  let ?s = "vm (kst m)" and ?a = "page_addr (PGNUM va)" and ?T = "page_addr 2047"
  from can have cur: "current_pgdir c m = Some P" and sp: "spaces_ok ?s P E" and self: "self_map ?s P"
    and op: "pdes_open ?s P" and zero: "\<forall>p\<in>set (free_pages ?s). pp_ref ?s p = 0"
    and tmp: "pte_at ?s P ?T = 0" and pn: "PGNUM va < PGNUM UTOP" and pres: "table_present (pte_at ?s P ?a)"
    and ref: "1 < unat (pp_ref ?s (PGNUM (pte_at ?s P ?a)))"
    by (simp_all add: can_fault_def Let_def PFTEMP_page pte_at_page)
  define q where "q = PGNUM (pte_at ?s P ?a)"
  from cur obtain k where k: "cpu_env (kst m) c = Some k" "env_pgdir (envs (kst m) k) = Some P"
    by (auto simp: current_pgdir_def split: Option.bind_splits)
  have self_id: "envid2env c (kst (with_vm m x)) 0 True = Some (0, Some k)" for x
    using k(1) by (simp add: envid2env_def)
  note ua = user_page [OF pn] and uT = user_page [OF PFTEMP_page(2)]
  have "PGNUM PFTEMP = 2047" by (simp add: PGNUM_def layout_defs)
  then have apart': "\<not> same_page ?a ?T" "\<not> same_page ?T ?a"
    using same_page_addr [of "PGNUM va" 2047] same_page_addr [of 2047 "PGNUM va"] pn other by (auto simp: PGNUM_UTOP)
  have okP: "vm_ok ?s P" and okE: "vm_ok ?s E" using sp by (simp_all add: spaces_ok_def)
  have pte0: "pte_at ?s P ?a \<noteq> 0" using pres by (auto simp: table_present_def)
  have tabs: "table_present (phys ?s P (PGNUM va div 1024))"
  proof -
    have d: "PDX ?a = PGNUM va div 1024" using pn by (intro page_addr_index) (simp add: PGNUM_UTOP)
    have "phys ?s P (PDX ?a) \<noteq> 0" using pte0 by (auto simp: pte_at_def Let_def)
    then show ?thesis using op ua(1) and_seven by (simp add: pdes_open_def is_user_def d)
  qed
  have view: "uvpt c m (PGNUM va) = Some (pte_at ?s P ?a)"
    using pn by (intro uvpt_eq cur self tabs) (simp add: PGNUM_UTOP)
  let ?rest1 = "\<lambda>m. do {
      m \<leftarrow> move_page c m ?T ?a;
      or_panic (u_page_map cfg c m 0 ?T 0 ?a user_rw) (\<lambda>m.
        or_panic (u_page_unmap cfg c m 0 ?T) (\<lambda>m. uret m ())) }"
  have start: "pgfault cfg c m va err = or_panic (u_page_alloc cfg c m 0 ?T user_rw) ?rest1"
    using view pgfault_check_passes [of err "pte_at ?s P ?a AND PTE_COW = 0"]
    by (simp add: pgfault_def user_rw_facts Let_def PFTEMP_page ROUNDDOWN_page_addr)
  have me: "envid2env c (kst m) 0 True = Some (0, Some k)" using k(1) by (simp add: envid2env_def)
  show ?thesis
  proof (cases rule: env_page_alloc_ok [OF okP k(2) uT(1) tmp])
    case (1 k')
    from u_page_alloc_eq [OF me uT(2) 1(1), where cfg = cfg] E_NO_MEM_range start 1(2)
    show ?thesis by (simp add: upanic_def)
  next
    case (2 s1 v1 p)
    note al = 2(2) and pte1 = 2(5)
    note aP = page_alloc_vm_ok [OF okP al] and aE = page_alloc_vm_ok [OF okE al]
      and fr = page_alloc_frames [OF vm_okD(1) [OF okP] al]
    have sp1: "spaces_ok s1 P E" by (rule page_alloc_spaces [OF sp al])
    have p: "p \<in> set (free_pages ?s)" "p < 2 ^ 20"
      using fr(1) aP(5) vm_okD(2) [OF aP(1)] by simp_all
    note rw = rw_entry_facts [OF p(2)]
    have pT: "p \<notin> insert E (tables s1 E)" using aE(3,7,8) by auto
    have sp2: "spaces_ok v1 P E"
    proof (rule grown_apart [OF sp1 2(3,4)])
      fix va' assume u': "is_user va'"
      show "pte_at v1 P va' = pte_at s1 P va' \<or> PGNUM (pte_at v1 P va') \<notin> insert E (tables s1 E)"
        using pte1 [OF u'] aP(4) [OF u'] pT rw(1) by simp
    qed
    note E1 = grown_other [OF sp1 2(4)]
    have op1: "pdes_open v1 P"
      by (rule grown_open [OF 2(4)]) (use op aP(2) in \<open>simp add: pdes_open_def\<close>)
    have pa1: "pte_at v1 P ?a = pte_at ?s P ?a" and pT1: "pte_at v1 P ?T = rw_entry p"
      using pte1 [OF ua(1)] pte1 [OF uT(1)] apart' by simp_all
    have qf: "q \<notin> set (free_pages ?s)" "q \<noteq> P" "q \<notin> tables ?s P"
      unfolding q_def by (intro vm_okD(10-12) [OF okP ua(1)] pte0)+
    have pq: "p \<noteq> q" using p(1) qf(1) by auto
    have nf1: "p \<notin> set (free_pages s1)" "q \<notin> set (free_pages s1)" using fr(2) qf(1) by auto
    have r1: "pp_ref v1 p = 1" "pp_ref v1 q = pp_ref ?s q"
      using 2(7) [OF nf1(1)] 2(7) [OF nf1(2)] zero p(1) pq by simp_all
    have q1: "phys v1 q = phys ?s q"
    proof -
      have "phys v1 q = phys s1 q"
        using qf aP(3) nf1(2) by (intro grownD(5) [OF 2(4)]) auto
      then show ?thesis using fr(4) pq by simp
    qed
    let ?f = "\<lambda>i. if i < 1024 then phys v1 (PGNUM (pte_at v1 P ?a)) i else phys v1 p i"
    let ?v2 = "set_frame v1 p ?f"
    have okv1: "vm_ok v1 P" using sp2 by (simp add: spaces_ok_def)
    have pv: "p \<notin> tables v1 P" "p \<noteq> P"
      using vm_okD(11,12) [OF okv1 uT(1)] pT1 rw(1,3) by auto
    have pvE: "p \<notin> tables v1 E" "p \<noteq> E" using pT E1(2) by auto
    have call1: "u_page_alloc cfg c m 0 ?T user_rw = Some (with_vm m v1, Returned 0)"
      using u_page_alloc_eq [OF me uT(2) 2(1), where cfg = cfg] by simp
    have move: "move_page c (with_vm m v1) ?T ?a = Some (with_vm m ?v2)"
    proof -
      have "current_pgdir c (with_vm m v1) = Some P" using cur by simp
      from move_page_eq [OF this, unfolded with_vm_sel, OF op1 ua(1) uT(1) _ pT1 p(2)] pa1 pres
      show ?thesis by (simp only: with_vm_sel)
    qed
    have sp3: "spaces_ok ?v2 P E" by (rule set_frame_spaces [OF sp2 pv(2,1) pvE(2,1)])
    have ok2: "vm_ok ?v2 P" using sp3 by (simp add: spaces_ok_def)
    have pte2: "pte_at ?v2 P va' = pte_at v1 P va'" if "is_user va'" for va'
      by (rule set_frame_space(2) [OF pv(2,1) that])
    have tb2: "tables ?v2 P = tables v1 P" by (rule set_frame_space(1) [OF pv(2,1)])
    have look: "page_lookup ?v2 P ?T = Some (Some (p, PGNUM (phys ?v2 P (PDX ?T)), PTX ?T))"
      using page_lookup_eq [OF ok2 uT(1) refl refl] pte2 [OF uT(1)] pT1 rw(1,3) by simp
    have wbit: "phys ?v2 (PGNUM (phys ?v2 P (PDX ?T))) (PTX ?T) AND PTE_W \<noteq> 0"
    proof -
      have "phys ?v2 P (PDX ?T) \<noteq> 0" using pte2 [OF uT(1)] pT1 rw(3) by (auto simp: pte_at_def Let_def)
      from pte_at_table [OF this] have "phys ?v2 (PGNUM (phys ?v2 P (PDX ?T))) (PTX ?T) = rw_entry p"
        using pte2 [OF uT(1)] pT1 by simp
      then show ?thesis using rw(4) by (simp add: flag_bits)
    qed
    have flags: "PGNUM (PTE_P OR PTE_U OR user_rw) = 0"
      by (simp add: user_rw_def PTE_P_def PTE_W_def PTE_U_def PGNUM_def)
    have pin: "p < npages ?v2" "p \<notin> set (free_pages ?v2)" "p \<notin> tables ?v2 P" "p \<noteq> P"
      using vm_okD(9,10) [OF okv1 uT(1)] pT1 rw(1,3) pv tb2 by auto
    have olda: "pte_at ?v2 P ?a = pte_at ?s P ?a" using pte2 [OF ua(1)] pa1 by simp
    have keep: "refs_after ?v2 p (pte_at ?v2 P ?a) (PGNUM (pte_at ?v2 P ?a)) \<noteq> 0"
    proof -
      have "pp_ref ?s q \<noteq> 1" using ref by (auto simp: q_def)
      then show ?thesis using r1(2) pq pte0 unfolding olda by (simp add: refs_after_def q_def [symmetric])
    qed
    show ?thesis
    proof (cases rule: page_insert_grown [OF ok2 ua(1) flags pin])
      case 1
      then show ?case using keep by blast
    next
      case full: 2
      have "u_page_map cfg c (with_vm m ?v2) 0 ?T 0 ?a user_rw = Some (with_vm m ?v2, Returned (- E_NO_MEM))"
        using u_page_map_ok [of "with_vm m ?v2" c k P 0 k P ?T ?a p _ _ user_rw ?v2 "- E_NO_MEM" cfg]
          k self_id uT(2) ua(2) look wbit full(1) E_NO_MEM_range by simp
      then show ?thesis
        using start call1 move E_NO_MEM_range full(2) by (simp add: upanic_def)
    next
      case (3 v3)
      note pte3 = 3(4) and g3 = 3(3)
      have call2: "u_page_map cfg c (with_vm m ?v2) 0 ?T 0 ?a user_rw = Some (with_vm m v3, Returned 0)"
        using u_page_map_ok [of "with_vm m ?v2" c k P 0 k P ?T ?a p _ _ user_rw v3 0 cfg]
          k self_id uT(2) ua(2) look wbit 3(1) by simp
      have sp4: "spaces_ok v3 P E"
      proof (rule grown_apart [OF sp3 3(2) g3])
        fix va' assume u': "is_user va'"
        show "pte_at v3 P va' = pte_at ?v2 P va' \<or> PGNUM (pte_at v3 P va') \<notin> insert E (tables ?v2 E)"
          using pte3 [OF u'] pvE set_frame_space(1) [OF pvE(2,1)] rw(1) by (simp add: rw_entry_insert)
      qed
      note E3 = grown_other [OF sp3 g3]
      have pT3: "pte_at v3 P ?T = rw_entry p"
        using pte3 [OF uT(1)] pte2 [OF uT(1)] pT1 apart' by simp
      have nf: "p \<notin> set (free_pages ?v2)" "q \<notin> set (free_pages ?v2)"
        using pin(2) nf1(2) grownD(2) [OF 2(4)] by auto
      have r3: "pp_ref v3 p = 2" "pp_ref v3 q = pp_ref ?s q - 1"
        using 3(5) [OF nf(1)] 3(5) [OF nf(2)] r1 pq pte0 unfolding olda
        by (simp_all add: refs_after_def q_def [symmetric])
      have keepT: "pp_ref v3 (PGNUM (pte_at v3 P ?T)) - 1 \<noteq> 0" using pT3 rw(1) r3(1) by simp
      have oldT: "pte_at v3 P ?T \<noteq> 0" using pT3 rw(3) by simp
      obtain v4 where v4: "page_remove v3 P ?T = Some v4" "vm_ok v4 P" "grown v3 P ?T v4"
        "\<And>va'. is_user va' \<Longrightarrow> pte_at v4 P va' = (if same_page ?T va' then 0 else pte_at v3 P va')"
        "pp_ref v4 = (pp_ref v3)(PGNUM (pte_at v3 P ?T) := pp_ref v3 (PGNUM (pte_at v3 P ?T)) - 1)"
        "phys v4 P = phys v3 P"
        by (rule page_remove_grown [OF 3(2) uT(1) oldT keepT]) blast
      have sp5: "spaces_ok v4 P E"
        by (rule grown_apart [OF sp4 v4(2,3)]) (use v4(4) in auto)
      note E4 = grown_other [OF sp4 v4(3)]
      have run: "pgfault cfg c m va err = Some (with_vm m v4, Returned ())"
        using start call1 move call2 u_page_unmap_eq [of "with_vm m v3" c k P ?T v4 cfg] k uT(2) v4(1)
        by (simp add: uret_def)
      have stay: "phys v4 x = phys ?v2 x" if "x \<noteq> P" "x \<notin> tables v1 P" "x \<notin> set (free_pages ?v2)" for x
      proof -
        have a: "phys v3 x = phys ?v2 x" using that tb2 by (intro grownD(5) [OF g3]) simp_all
        have "x \<notin> tables v3 P" using that tb2 grownD(4) [OF g3, of x] by auto
        moreover have "x \<notin> set (free_pages v3)" using that grownD(2) [OF g3] by auto
        ultimately have "phys v4 x = phys v3 x" using that(1) by (intro grownD(5) [OF v4(3)]) simp_all
        with a show ?thesis by simp
      qed
      have qt1: "q \<notin> tables v1 P" "q \<noteq> P"
        using vm_okD(11,12) [OF okv1 ua(1)] pa1 pte0 by (auto simp: q_def)
      have "private_copy ?s v4 P E ?a p"
        unfolding private_copy_def Let_def q_def [symmetric]
      proof (intro conjI allI impI)
        show "p \<in> set (free_pages ?s)" by (rule p(1))
        show "pte_at v4 P ?a = rw_entry p"
          using v4(4) [OF ua(1)] pte3 [OF ua(1)] apart' by (simp add: rw_entry_insert)
        show "pp_ref v4 p = 1" "pp_ref v4 q = pp_ref ?s q - 1"
          using v4(5) pT3 rw(1) r3 pq by simp_all
        show "phys v4 p i = phys ?s q i" if "i < 1024" for i
          using stay [OF pv(2,1) nf(1)] that pa1 q1 by (simp add: q_def)
        show "phys v4 q = phys ?s q"
          using stay [OF qt1(2,1) nf(2)] q1 pq by simp
        show "spaces_ok v4 P E" by (rule sp5)
        fix va' assume u': "is_user va'"
        show "pte_at v4 E va' = pte_at ?s E va'"
          using E4(3) [OF u'] E3(3) [OF u'] set_frame_space(2) [OF pvE(2,1) u'] E1(3) [OF u'] aE(4) [OF u'] by simp
        assume "\<not> same_page ?a va'"
        moreover have "pte_at ?s P va' = 0" if "same_page ?T va'"
          using that tmp by (simp add: pte_at_same)
        ultimately show "pte_at v4 P va' = pte_at ?s P va'"
          using v4(4) [OF u'] pte3 [OF u'] pte2 [OF u'] pte1 [OF u'] by auto
      qed
      with run show ?thesis by blast
    qed
  qed
qed

text \<open>C29. The copy-on-write handler: when a program faults at a page that another address space maps too,
  \<open>pgfault\<close> either panics, and then no frame is left, or returns after it has given the program a new
  frame there, writable and with the contents of the old one; the old frame keeps its contents and loses
  one reference, no other page of the program changes, and the other address space keeps every mapping.
  This holds for every error code and for pages that are not marked copy-on-write: the check at the
  start of the handler, which means to refuse them, never fires.\<close>

theorem pgfault_copies_page:
  assumes "can_fault c m P E va" and "PGNUM va \<noteq> PGNUM PFTEMP"
  shows "(\<exists>m'. pgfault cfg c m va err = Some (m', UserPanic) \<and> free_pages (vm (kst m')) = []) \<or>
    (\<exists>v p. pgfault cfg c m va err = Some (with_vm m v, Returned ()) \<and>
       private_copy (vm (kst m)) v P E (page_addr (PGNUM va)) p)"
  using pgfault_ok [OF assms] .

subsection \<open>A program whose page is shared\<close>

text \<open>A space with one table, which maps one page.\<close>

lemma one_page_space:
  assumes inv: "pages_inv s" "npages s \<le> 2 ^ 20" "\<And>p. p \<notin> set (free_pages s) \<Longrightarrow> pp_link s p = None"
    and pde: "\<And>d. d < PDX UTOP \<Longrightarrow> phys s D d = (if d = 2 then t else 0)"
    and tab: "\<And>i. phys s (PGNUM t) i = (if i = 0 then e else 0)"
    and frames: "{D, PGNUM t, PGNUM e} \<subseteq> {..<npages s} - set (free_pages s)"
    and diff: "D \<noteq> PGNUM t" "PGNUM e \<noteq> PGNUM t" "PGNUM e \<noteq> D" and t: "t \<noteq> 0"
  shows "vm_ok s D" and "tables s D = {PGNUM t}"
    and "is_user va \<Longrightarrow> pte_at s D va = (if PDX va = 2 \<and> PTX va = 0 then e else 0)"
proof -
  have two: "2 < PDX UTOP" by (simp add: PDX_UTOP)
  have iff: "d < PDX UTOP \<and> phys s D d \<noteq> 0 \<longleftrightarrow> d = 2" for d using pde [of d] t two by (auto split: if_splits)
  have "tables s D = {PGNUM (phys s D d) |d. d = 2}" unfolding tables_def iff ..
  then show tb: "tables s D = {PGNUM t}" using pde [OF two] by simp
  have pte: "pte_at s D va = (if PDX va = 2 \<and> PTX va = 0 then e else 0)" if "is_user va" for va
    using that pde [of "PDX va"] tab t by (auto simp: pte_at_def is_user_def Let_def)
  then show "is_user va \<Longrightarrow> pte_at s D va = (if PDX va = 2 \<and> PTX va = 0 then e else 0)" .
  show "vm_ok s D"
    unfolding vm_ok_def tb iff
  proof (intro conjI ballI allI impI)
    fix va assume "is_user va" "pte_at s D va \<noteq> 0"
    then have "pte_at s D va = e" using pte by (auto split: if_splits)
    then show "PGNUM (pte_at s D va) < npages s" "PGNUM (pte_at s D va) \<notin> set (free_pages s)"
      "PGNUM (pte_at s D va) \<notin> {PGNUM t}" "PGNUM (pte_at s D va) \<noteq> D"
      using frames diff by simp_all
  qed (use inv frames diff in auto)
qed

text \<open>Two spaces, 5 and 7, that map frame 6 at the same page, read only and copy-on-write.\<close>

definition demo_shared :: pmem where
  "demo_shared = demo_mem\<lparr>
     phys := (\<lambda>_ _. 0)(5 := (\<lambda>_. 0)(2 := 0x4007, 957 := 0x5005), 4 := (\<lambda>_. 0)(0 := 0x6805),
       7 := (\<lambda>_. 0)(2 := 0xA007, 957 := 0x7005), 10 := (\<lambda>_. 0)(0 := 0x6805), 6 := (\<lambda>i. word_of_nat i)),
     pp_ref := (\<lambda>_. 0)(5 := 1, 4 := 1, 7 := 1, 10 := 1, 6 := 2)\<rparr>"

definition demo_faulter :: machine where
  "demo_faulter = \<lparr>kst = demo_user\<lparr>cpu_env := (\<lambda>_. None)(0 := Some 0), vm := demo_shared\<rparr>, con = demo_console\<rparr>"

lemma demo_shared_ok:
  "spaces_ok demo_shared 5 7" "free_pages demo_shared = [2, 3]"
  "is_user va \<Longrightarrow> pte_at demo_shared 5 va = (if PDX va = 2 \<and> PTX va = 0 then 0x6805 else 0)"
proof -
  show fr: "free_pages demo_shared = [2, 3]"
    using demo_mem_ok(2) by (simp add: demo_shared_def free_pages_def)
  have inv: "pages_inv demo_shared" using vm_okD(1) [OF demo_mem_ok(1)] by (simp add: demo_shared_def pages_inv_def)
  have np: "npages demo_shared = 16" by (simp add: demo_shared_def demo_mem_def)
  have links: "p \<notin> set (free_pages demo_shared) \<Longrightarrow> pp_link demo_shared p = None" for p
    unfolding fr by (simp add: demo_shared_def demo_mem_def)
  have num: "PGNUM 0x4007 = 4" "PGNUM 0xA007 = 10" "PGNUM 0x6805 = 6" by (simp_all add: PGNUM_def)
  have pde: "phys demo_shared 5 d = (if d = 2 then 0x4007 else 0)" "phys demo_shared 7 d = (if d = 2 then 0xA007 else 0)"
    if "d < PDX UTOP" for d using that by (simp_all add: demo_shared_def PDX_UTOP)
  have tab: "phys demo_shared (PGNUM 0x4007) i = (if i = 0 then 0x6805 else 0)"
    "phys demo_shared (PGNUM 0xA007) i = (if i = 0 then 0x6805 else 0)" for i
    unfolding num by (simp_all add: demo_shared_def)
  have f5: "{5, PGNUM 0x4007, PGNUM 0x6805} \<subseteq> {..<npages demo_shared} - set (free_pages demo_shared)"
    and f7: "{7, PGNUM 0xA007, PGNUM 0x6805} \<subseteq> {..<npages demo_shared} - set (free_pages demo_shared)"
    unfolding num fr np by simp_all
  note five = one_page_space [OF inv _ links pde(1) tab(1) f5, unfolded num np, simplified]
  note seven = one_page_space [OF inv _ links pde(2) tab(2) f7, unfolded num np, simplified]
  show "is_user va \<Longrightarrow> pte_at demo_shared 5 va = (if PDX va = 2 \<and> PTX va = 0 then 0x6805 else 0)"
    by (rule five(3))
  show "spaces_ok demo_shared 5 7"
    unfolding spaces_ok_def apart_def five(2) seven(2)
    using five(1,3) seven(1,3) num by auto
qed

lemma demo_can_fault: "can_fault 0 demo_faulter 5 7 0x800010"
proof -
  have u: "is_user 0x800010" "is_user PFTEMP" by (simp_all add: is_user_def PDX_UTOP layout_defs PDX_def)
  have ix: "PDX 0x800010 = 2" "PTX 0x800010 = 0" "PDX PFTEMP = 1" "PGNUM 0x6805 = 6"
    by (simp_all add: PDX_def PTX_def layout_defs PGNUM_def)
  have vm: "vm (kst demo_faulter) = demo_shared" by (simp add: demo_faulter_def)
  have pte: "pte_at demo_shared 5 0x800010 = 0x6805" "pte_at demo_shared 5 PFTEMP = 0"
    using demo_shared_ok(3) u ix by simp_all
  have "current_pgdir 0 demo_faulter = Some 5"
    by (simp add: current_pgdir_def demo_faulter_def demo_user_def demo_env0_def Let_def)
  moreover have "self_map demo_shared 5"
    by (simp add: self_map_def UVPT_val(2)) (simp add: demo_shared_def PGNUM_def PTE_P_def PTE_U_def)
  moreover have "pdes_open demo_shared 5" by (simp add: pdes_open_def demo_shared_def PDX_UTOP)
  moreover have "pp_ref demo_shared 6 = 2" "\<forall>p\<in>set (free_pages demo_shared). pp_ref demo_shared p = 0"
    unfolding demo_shared_ok(2) by (simp_all add: demo_shared_def)
  moreover have "table_present 0x6805" by (simp add: table_present_def PTE_P_def PTE_U_def)
  moreover have "PGNUM 0x800010 < PGNUM UTOP" unfolding PGNUM_UTOP by (simp add: PGNUM_def)
  ultimately show ?thesis
    using demo_shared_ok(1) unfolding can_fault_def vm Let_def pte ix by simp
qed

lemma pgfault_copies_page_witness:
  "(\<exists>m'. pgfault SCHED_PRIORITIES 0 demo_faulter 0x800010 7 = Some (m', UserPanic) \<and> free_pages (vm (kst m')) = []) \<or>
    (\<exists>v p. pgfault SCHED_PRIORITIES 0 demo_faulter 0x800010 7 = Some (with_vm demo_faulter v, Returned ()) \<and>
       private_copy demo_shared v 5 7 0x800000 p)"
proof -
  have "vm (kst demo_faulter) = demo_shared" by (simp add: demo_faulter_def)
  moreover have "PGNUM 0x800010 \<noteq> PGNUM PFTEMP" by (simp add: PGNUM_def layout_defs)
  moreover have "page_addr (PGNUM 0x800010) = 0x800000" by (simp add: PGNUM_def page_addr_def)
  ultimately show ?thesis
    using pgfault_copies_page [OF demo_can_fault, of SCHED_PRIORITIES 7] by simp
qed

end
