(* ===== verification/ForkParent.thy ===== *)
theory ForkParent
  imports ForkFault
begin

unbundle bit_operations_syntax

text \<open>
  The parent's part of \<open>fork\<close>: the loop over its pages, the fault that its next push takes on the stack page, and the
  calls that complete the child.
\<close>

subsection \<open>Fork\<close>

lemma PTE_COW_bit: "e AND PTE_COW = (if bit e 11 then PTE_COW else 0)" "PTE_COW \<noteq> 0"
  using and_single_bit [of e 11] by (simp_all add: PTE_COW_def)

lemma dup_entry_bits:
  "dup_entry pte AND PTE_W = 0" "table_present (dup_entry pte)" "dup_entry pte \<noteq> 0"
  "cow_page pte \<Longrightarrow> dup_entry pte AND PTE_COW \<noteq> 0"
proof -
  have low: "\<not> bit (page2pa (PGNUM pte)) n" if "n < 12" for n
    using that by (simp add: page2pa_def bit_simps)
  have f: "bit (dup_perm pte) 0" "\<not> bit (dup_perm pte) 1" "bit (dup_perm pte) 2"
    using dup_perm_facts(1,5) [of pte] by (simp_all add: table_present_def flag_bits split: if_splits)
  have b: "bit (dup_entry pte) 0" "\<not> bit (dup_entry pte) 1" "bit (dup_entry pte) 2"
    unfolding dup_entry_def bit_or_iff using f low [of 1] by simp_all
  then show "dup_entry pte AND PTE_W = 0" "table_present (dup_entry pte)"
    by (simp_all add: flag_bits table_present_def)
  show "dup_entry pte \<noteq> 0" using b(1) by auto
  assume "cow_page pte"
  then have "bit (dup_perm pte) 11"
    by (simp add: dup_perm_def Let_def bit_or_iff PTE_COW_def bit_simps)
  then show "dup_entry pte AND PTE_COW \<noteq> 0"
    by (simp add: dup_entry_def bit_or_iff PTE_COW_bit)
qed

lemma UXSTACK_page:
  "UXSTACKTOP - PGSIZE = page_addr (PGNUM UXSTACKTOP - 1)" "PGNUM UXSTACKTOP - 1 < PGNUM UTOP"
proof -
  have "PGNUM UXSTACKTOP = 977920" using PGNUM_UTOP by (simp add: UXSTACKTOP_def)
  then show "PGNUM UXSTACKTOP - 1 < PGNUM UTOP" "UXSTACKTOP - PGSIZE = page_addr (PGNUM UXSTACKTOP - 1)"
    by (simp_all add: PGNUM_UTOP page_addr_def push_bit_eq_mult) (simp add: layout_defs)
qed

text \<open>The loop over all pages. Nothing above the stack page is copied, so the last page that it shares is that of the stack.\<close>

lemma fork_pages_ok:
  assumes ready: "fork_ready c m w P C"
    and empty: "\<forall>pn<PGNUM UTOP. pte_at (vm (kst m)) C (page_addr pn) = 0"
    and fit: "refs_fit (vm (kst m)) P [0..<PGNUM UTOP]" and st: "stack_open (vm (kst m)) P esp"
    and cpS: "copied (vm (kst m)) P (PGNUM esp)"
    and above: "\<forall>pn. PGNUM esp < pn \<and> pn < PGNUM UTOP \<longrightarrow> \<not> copied (vm (kst m)) P pn"
  shows "(\<exists>m'. fork_loop cfg c esp [0..<PGNUM UTOP] m w = Some (m', UserPanic) \<and> free_pages (vm (kst m')) = []) \<or>
    (\<exists>v. fork_loop cfg c esp [0..<PGNUM UTOP] m w = Some (with_vm m v, Returned ()) \<and> fork_ready c (with_vm m v) w P C \<and>
       shared_as (vm (kst m)) v P C {..<PGNUM UTOP} \<and> phys v P = phys (vm (kst m)) P \<and> counts_kept (vm (kst m)) v \<and>
       unat (pp_ref (vm (kst m)) (frame_of (vm (kst m)) P (PGNUM esp))) < unat (pp_ref v (frame_of (vm (kst m)) P (PGNUM esp))))"
proof -
  let ?s = "vm (kst m)" and ?S = "PGNUM esp"
  let ?low = "[0..<?S]" and ?high = "[Suc ?S..<PGNUM UTOP]" and ?F = "frame_of (vm (kst m)) P (PGNUM esp)"
  have S: "?S < PGNUM UTOP" using st by (simp add: stack_open_def)
  have split: "[0..<PGNUM UTOP] = ?low @ ?S # ?high"
    using upt_add_eq_append [of 0 ?S "PGNUM UTOP - ?S"] S by (simp add: upt_conv_Cons)
  have dist: "distinct (?low @ ?S # ?high)" and range: "\<forall>pn\<in>set (?low @ ?S # ?high). pn < PGNUM UTOP"
    unfolding split [symmetric] by simp_all
  have fit': "refs_fit ?s P (?low @ ?S # ?high)" using fit unfolding split .
  have low0: "\<forall>pn\<in>set ?low. pte_at ?s C (page_addr pn) = 0" using empty S by simp
  have notin: "?S \<notin> set ?low" by simp
  from fork_loop_ok [OF ready dist range low0 fit' st notin, of cfg] show ?thesis
  proof (elim disjE exE conjE)
    fix m' assume "fork_loop cfg c esp ?low m w = Some (m', UserPanic)" and "free_pages (vm (kst m')) = []"
    then show ?thesis by (simp add: split fork_loop_append)
  next
    fix v assume run: "fork_loop cfg c esp ?low m w = Some (with_vm m v, Returned ())"
      and ready1: "fork_ready c (with_vm m v) w P C" and sh: "shared_as ?s v P C (set ?low)" and dir: "phys v P = phys ?s P"
      and fit1: "refs_fit v P (?S # ?high)" and counts: "counts_kept ?s v"
    let ?m = "with_vm m v"
    have sel: "vm (kst ?m) = v" by simp
    from ready1 have cur1: "current_pgdir c ?m = Some P" and self1: "self_map (vm (kst ?m)) P" and sp1: "spaces_ok v P C"
      by (auto simp: fork_ready_def current_pgdir_def)
    have up: "pte_at v C (page_addr pn) = pte_at ?s C (page_addr pn)" "pte_at v P (page_addr pn) = pte_at ?s P (page_addr pn)"
      if "pn < PGNUM UTOP" "?S \<le> pn" for pn
      using sh [unfolded shared_as_def Let_def, rule_format, OF that(1)] that(2) by simp_all
    have cp1: "copied v P pn = copied ?s P pn" if "pn < PGNUM UTOP" "?S \<le> pn" for pn
      using up(2) [OF that] by (simp add: copied_def dir)
    have st1: "stack_open (vm (kst ?m)) P esp" using st up(2) [OF S order_refl] dir by (simp add: stack_open_def pdes_open_def)
    have cp: "copied (vm (kst ?m)) P ?S" using cpS cp1 [OF S order_refl] by simp
    note step = fork_loop_step [OF cur1 self1 S cp st1]
    have tab: "table_present (phys (vm (kst ?m)) P (?S div 1024))" and pres: "table_present (pte_at (vm (kst ?m)) P (page_addr ?S))"
      using cp by (simp_all add: copied_def)
    have zero: "pte_at (vm (kst ?m)) C (page_addr ?S) = 0" using up(1) [OF S order_refl] empty S by simp
    have F: "frame_of v P ?S = ?F" by (simp add: frame_of_def up(2) [OF S order_refl])
    have "unat (pp_ref v ?F) + Suc (length (filter (\<lambda>x. copied v P x \<and> frame_of v P x = ?F) ?high)) < 65536"
      using fit1 cp F by (simp add: refs_fit_def)
    then have inc: "unat (pp_ref v ?F + 1) = unat (pp_ref v ?F) + 1" by (simp add: unat_word_ariths)
    then have nz: "pp_ref (vm (kst ?m)) (PGNUM (pte_at (vm (kst ?m)) P (page_addr ?S))) + 1 \<noteq> 0"
      unfolding sel F [unfolded frame_of_def [of v]] by (metis Suc_eq_plus1 nat.distinct(1) unsigned_0)
    have loop: "fork_loop cfg c esp [0..<PGNUM UTOP] m w =
        andthen (duppage cfg c ?m w ?S) (\<lambda>m _. fork_loop cfg c esp ?high m w)"
      unfolding split fork_loop_append run step by (simp only: andthen.simps step)
    show ?thesis
    proof (cases rule: duppage_ok [OF ready1 S tab pres zero nz, of cfg])
      case (1 m')
      then show ?thesis unfolding loop by simp
    next
      case (2 v2)
      note two = 2 [unfolded sel]
      let ?m2 = "with_vm m v2"
      have other: "pte_at v2 C (page_addr x) = pte_at v C (page_addr x)"
        "pte_at v2 P (page_addr x) = pte_at v P (page_addr x)" if "x \<noteq> ?S" "x < PGNUM UTOP" for x
        using that two(3,4) user_page(1) [OF that(2)] same_page_addr [of ?S x] S by (simp_all add: PGNUM_UTOP)
      have ready2: "fork_ready c ?m2 w P C" using two(2) by simp
      have dir2: "phys v2 P = phys ?s P" using two(7) dir by simp
      have skip: "fork_loop cfg c esp ?high ?m2 w = uret ?m2 ()"
      proof (rule fork_loop_skips)
        show "current_pgdir c ?m2 = Some P" "self_map (vm (kst ?m2)) P"
          using ready2 by (auto simp: fork_ready_def current_pgdir_def)
        show "\<forall>pn\<in>set ?high. pn < PGNUM UTOP \<and> \<not> copied (vm (kst ?m2)) P pn"
        proof
          fix pn assume "pn \<in> set ?high"
          then have pn: "?S < pn" "pn < PGNUM UTOP" by auto
          have "copied v2 P pn = copied v P pn" using other(2) [of pn] pn two(7) by (simp add: copied_def)
          then show "pn < PGNUM UTOP \<and> \<not> copied (vm (kst ?m2)) P pn" using above cp1 [of pn] pn by simp
        qed
      qed
      have done': "fork_loop cfg c esp [0..<PGNUM UTOP] m w = Some (?m2, Returned ())"
        unfolding loop two(1) using skip by (simp add: uret_def)
      have shared: "shared_as ?s v2 P C {..<PGNUM UTOP}"
        unfolding shared_as_def Let_def
      proof (intro allI impI)
        fix x assume x: "x < PGNUM UTOP"
        note now = sh [unfolded shared_as_def Let_def, rule_format, OF x]
        show "pte_at v2 C (page_addr x) = (if x \<in> {..<PGNUM UTOP} \<and> copied ?s P x
              then dup_entry (pte_at ?s P (page_addr x)) else pte_at ?s C (page_addr x)) \<and>
            pte_at v2 P (page_addr x) = (if (x \<in> {..<PGNUM UTOP} \<and> copied ?s P x) \<and> cow_page (pte_at ?s P (page_addr x))
              then dup_entry (pte_at ?s P (page_addr x)) else pte_at ?s P (page_addr x))"
        proof (cases "x = ?S")
          case True
          then show ?thesis using two(3,4) [OF user_page(1) [OF S]] cpS S up [OF S order_refl] by (simp add: same_page_def)
        next
          case False
          then show ?thesis using now other [OF False x] above x by (cases "x < ?S") auto
        qed
      qed
      have c2: "counts_kept v v2"
        by (rule duppage_counts [OF two(5) _ two(6,8)]) (use inc F in \<open>simp_all add: frame_of_def\<close>)
      have nf: "?F \<notin> set (free_pages v)"
      proof -
        have "pte_at v P (page_addr ?S) \<noteq> 0" using pres by (auto simp: table_present_def)
        from vm_okD(10) [OF _ user_page(1) [OF S] this] sp1 F show ?thesis by (simp add: spaces_ok_def frame_of_def)
      qed
      have nfs: "?F \<notin> set (free_pages ?s)"
      proof -
        have "pte_at ?s P (page_addr ?S) \<noteq> 0" using cpS by (auto simp: copied_def table_present_def)
        from vm_okD(10) [OF _ user_page(1) [OF S] this] ready show ?thesis
          by (simp add: fork_ready_def spaces_ok_def frame_of_def)
      qed
      have "unat (pp_ref v2 ?F) = unat (pp_ref v ?F) + 1"
        using two(5) [OF nf] inc F by (simp add: frame_of_def)
      moreover have "unat (pp_ref ?s ?F) \<le> unat (pp_ref v ?F)" using counts nfs by (simp add: counts_kept_def)
      ultimately have "unat (pp_ref ?s ?F) < unat (pp_ref v2 ?F)" by simp
      with done' ready2 shared dir2 counts_kept_trans [OF counts c2] show ?thesis by blast
    qed
  qed
qed

text \<open>
  The pages of parent and child after \<open>fork\<close>: \<open>S\<close> is the page of the parent's stack and \<open>f\<close> its new frame,
  \<open>q\<close> the frame of the child's exception stack.
\<close>

definition forked_pages :: "pmem \<Rightarrow> pmem \<Rightarrow> nat \<Rightarrow> nat \<Rightarrow> nat \<Rightarrow> nat \<Rightarrow> nat \<Rightarrow> bool" where
  "forked_pages s v P C S f q \<longleftrightarrow> (\<forall>pn<PGNUM UTOP.
     let old = pte_at s P (page_addr pn); par = pte_at v P (page_addr pn); chi = pte_at v C (page_addr pn) in
     if copied s P pn
     then PGNUM chi = PGNUM old \<and> chi AND PTE_W = 0 \<and> table_present chi \<and> (cow_page old \<longrightarrow> chi AND PTE_COW \<noteq> 0) \<and>
       (if pn = S then par = rw_entry f
        else PGNUM par = PGNUM old \<and> par AND PTE_W = 0 \<and> table_present par \<and> (cow_page old \<longrightarrow> par AND PTE_COW \<noteq> 0))
     else par = old \<and> chi = (if pn = PGNUM UXSTACKTOP - 1 then rw_entry q else 0)) \<and>
   (f \<noteq> frame_of s P S \<and> pp_ref v f = 1 \<and> (\<forall>i<1024. phys v f i = phys v (frame_of s P S) i)) \<and>
   phys v q = (\<lambda>_. 0) \<and> (\<forall>pn<PGNUM UTOP. pte_at v P (page_addr pn) \<noteq> 0 \<longrightarrow> PGNUM (pte_at v P (page_addr pn)) \<noteq> q)"

text \<open>
  The parent can take the fault: its stack page is writable and the last that is copied, the page of \<open>PFTEMP\<close> is not
  in use, the exception stack is mapped, and free frames have no references.
\<close>

definition fork_stack :: "pmem \<Rightarrow> nat \<Rightarrow> w32 \<Rightarrow> bool" where
  "fork_stack s P esp \<longleftrightarrow> stack_open s P esp \<and> copied s P (PGNUM esp) \<and>
     (\<forall>pn. PGNUM esp < pn \<and> pn < PGNUM UTOP \<longrightarrow> \<not> copied s P pn) \<and> 0 < unat (pp_ref s (frame_of s P (PGNUM esp))) \<and>
     PGNUM esp \<noteq> PGNUM PFTEMP \<and> pte_at s P PFTEMP = 0 \<and> (\<forall>p\<in>set (free_pages s). pp_ref s p = 0) \<and>
     pte_at s P (UXSTACKTOP - PGSIZE) AND 7 = 7"

lemma touch_faults:
  assumes k: "cpu_env (kst m) c = Some k" "env_pgdir (envs (kst m) k) = Some P" "env_pgfault_upcall (envs (kst m) k) \<noteq> 0"
    and ok: "vm_ok (vm (kst m)) P" and ex: "pte_at (vm (kst m)) P (UXSTACKTOP - PGSIZE) AND 7 = 7"
    and ro: "pte_at (vm (kst m)) P (page_addr (PGNUM esp)) AND PTE_W = 0"
  shows "touch_stack cfg c m esp = pgfault cfg c m esp 7"
proof -
  let ?s = "vm (kst m)"
  have seven: "PTE_P OR PTE_U OR PTE_W = 7" "((PTE_U OR PTE_W) OR PTE_U) OR PTE_P = 7"
    by (simp_all add: PTE_P_def PTE_W_def PTE_U_def)
  have none: "user_frame ?s P esp PTE_W = None"
  proof (cases "phys ?s P (PDX esp) = 0")
    case True
    then show ?thesis by (simp add: user_frame_def Let_def seven)
  next
    case False
    from pte_at_table [OF this] have "phys ?s (PGNUM (phys ?s P (PDX esp))) (PTX esp) AND PTE_W = 0"
      using ro by (simp add: pte_at_page)
    then have "phys ?s (PGNUM (phys ?s P (PDX esp))) (PTX esp) AND 7 \<noteq> 7" using and_seven by blast
    then show ?thesis by (simp add: user_frame_def Let_def seven)
  qed
  have "user_mem_check ?s P (UXSTACKTOP - PGSIZE) PGSIZE ((PTE_U OR PTE_W) OR PTE_U) = Some (0, None)"
  proof (rule user_mem_check_passes [OF ok])
    have v: "unat (UXSTACKTOP - PGSIZE) = 977919 * 4096" "unat PGSIZE = 4096" by (simp_all add: layout_defs PGSIZE_def)
    have "PGNUM UXSTACKTOP - 1 = 977919" using PGNUM_UTOP by (simp add: UXSTACKTOP_def)
    then have a: "page_addr 977919 = UXSTACKTOP - PGSIZE" using UXSTACK_page(1) by simp
    show "unat (UXSTACKTOP - PGSIZE) + unat PGSIZE + 4095 < 2 ^ 32" unfolding v by simp
    show "unat (UXSTACKTOP - PGSIZE) + unat PGSIZE \<le> unat UTOP" unfolding v by (simp add: layout_defs)
    show "\<forall>k. unat (UXSTACKTOP - PGSIZE) div 4096 \<le> k \<and> k * 4096 < unat (UXSTACKTOP - PGSIZE) + unat PGSIZE \<longrightarrow>
        pte_at ?s P (page_addr k) AND (((PTE_U OR PTE_W) OR PTE_U) OR PTE_P) = ((PTE_U OR PTE_W) OR PTE_U) OR PTE_P"
      unfolding v seven
    proof (intro allI impI)
      fix k :: nat assume "977919 * 4096 div 4096 \<le> k \<and> k * 4096 < 977919 * 4096 + 4096"
      then have "k = 977919" by simp
      then show "pte_at ?s P (page_addr k) AND 7 = 7" using ex a by simp
    qed
  qed
  then have "user_mem_assert cfg c (kst m) k (UXSTACKTOP - PGSIZE) PGSIZE (PTE_U OR PTE_W) = Some (kst m, None)"
    using k(2) by (simp add: user_mem_assert_def)
  with k none show ?thesis by (simp add: touch_stack_def)
qed

text \<open>The fault after the loop.\<close>

lemma fork_touch_ok:
  assumes ready: "fork_ready c (with_vm m v) w P C" and fs: "fork_stack s P esp"
    and k: "cpu_env (kst m) c = Some k" "env_pgfault_upcall (envs (kst m) k) \<noteq> 0"
    and sh: "shared_as s v P C {..<PGNUM UTOP}" and dir: "phys v P = phys s P" and counts: "counts_kept s v"
    and ref: "unat (pp_ref s (frame_of s P (PGNUM esp))) < unat (pp_ref v (frame_of s P (PGNUM esp)))"
    and small: "frame_of s P (PGNUM esp) < 2 ^ 20"
  shows "(\<exists>m'. touch_stack cfg c (with_vm m v) esp = Some (m', UserPanic) \<and> free_pages (vm (kst m')) = []) \<or>
    (\<exists>u f. touch_stack cfg c (with_vm m v) esp = Some (with_vm m u, Returned ()) \<and>
       private_copy v u P C (page_addr (PGNUM esp)) f \<and> PGNUM (pte_at v P (page_addr (PGNUM esp))) = frame_of s P (PGNUM esp))"
proof -
  let ?m = "with_vm m v" and ?S = "PGNUM esp"
  let ?old = "pte_at s P (page_addr ?S)"
  have S: "?S < PGNUM UTOP" and cp: "copied s P ?S" and W: "?old AND PTE_W \<noteq> 0" and op: "pdes_open s P"
    using fs by (simp_all add: fork_stack_def stack_open_def)
  have ent: "pte_at v P (page_addr pn) = (if copied s P pn \<and> cow_page (pte_at s P (page_addr pn))
      then dup_entry (pte_at s P (page_addr pn)) else pte_at s P (page_addr pn))" if "pn < PGNUM UTOP" for pn
    using sh [unfolded shared_as_def Let_def, rule_format, OF that] that by simp
  have new: "pte_at v P (page_addr ?S) = dup_entry ?old" using ent [OF S] cp W by (simp add: cow_page_def)
  have num: "PGNUM (pte_at v P (page_addr ?S)) = frame_of s P ?S"
    unfolding new using PGNUM_dup_entry [of ?old] small by (simp add: frame_of_def)
  have tmp: "pte_at v P PFTEMP = 0"
    using ent [OF PFTEMP_page(2)] fs by (simp add: PFTEMP_page(1) fork_stack_def copied_def table_present_def)
  have ex: "pte_at v P (UXSTACKTOP - PGSIZE) AND 7 = 7"
    using ent [OF UXSTACK_page(2)] fs by (simp add: UXSTACK_page(1) fork_stack_def copied_def)
  have zero: "\<forall>p\<in>set (free_pages v). pp_ref v p = 0"
    using fs counts by (auto simp: fork_stack_def counts_kept_def frees_kept_def)
  from ready have r: "env_pgdir (envs (kst ?m) k) = Some P" "spaces_ok v P C" "self_map v P"
    using k(1) by (auto simp: fork_ready_def)
  have cur: "current_pgdir c ?m = Some P" using k(1) r(1) by (simp add: current_pgdir_def)
  have open': "pdes_open v P" using op dir by (simp add: pdes_open_def)
  have two: "1 < unat (pp_ref v (frame_of s P ?S))" using fs ref by (simp add: fork_stack_def)
  have can: "can_fault c ?m P C esp"
    unfolding can_fault_def Let_def with_vm_sel
    using cur r open' zero tmp S two new num dup_entry_bits(2) [of ?old] pte_at_page [of v P esp] by (simp add: can_fault_def)
  have "touch_stack cfg c ?m esp = pgfault cfg c ?m esp 7"
    using k r ex dup_entry_bits(1) [of ?old] new
    by (intro touch_faults [where k = k and P = P]) (simp_all add: spaces_ok_def)
  with pgfault_ok [OF can, of cfg 7] fs num show ?thesis by (auto simp: fork_stack_def)
qed

text \<open>The calls after the fault, which give the child its exception stack, its upcall and its status.\<close>

definition finish_fork :: "scheduler \<Rightarrow> nat \<Rightarrow> machine \<Rightarrow> w32 \<Rightarrow> nat \<Rightarrow> int \<Rightarrow> (nat \<times> int) uresult" where
  "finish_fork cfg c m w this envid =
     or_panic (u_page_alloc cfg c m w (UXSTACKTOP - PGSIZE) (PTE_U OR PTE_P OR PTE_W)) (\<lambda>m.
       or_panic (u_env_set_pgfault_upcall cfg c m w (env_pgfault_upcall (envs (kst m) this))) (\<lambda>m.
         or_panic (u_env_set_status cfg c m w ENV_RUNNABLE_code) (\<lambda>m. uret m (this, envid))))"

lemma fork_parent_finish:
  "fork_parent cfg c m esp this envid = andthen (fork_loop cfg c esp [0..<PGNUM UTOP] m (word_of_int envid)) (\<lambda>m _.
     andthen (touch_stack cfg c m esp) (\<lambda>m _. finish_fork cfg c m (word_of_int envid) this envid))"
  by (simp only: fork_parent_def finish_fork_def Let_def)

definition stack_given :: "pmem \<Rightarrow> pmem \<Rightarrow> nat \<Rightarrow> nat \<Rightarrow> nat \<Rightarrow> bool" where
  "stack_given v u P C q \<longleftrightarrow> (\<forall>pn<PGNUM UTOP. pte_at u P (page_addr pn) = pte_at v P (page_addr pn) \<and>
       pte_at u C (page_addr pn) = (if pn = PGNUM UXSTACKTOP - 1 then rw_entry q else pte_at v C (page_addr pn))) \<and>
     phys u q = (\<lambda>_. 0) \<and> (\<forall>pn<PGNUM UTOP. pte_at v P (page_addr pn) \<noteq> 0 \<longrightarrow> PGNUM (pte_at v P (page_addr pn)) \<noteq> q) \<and>
     (\<forall>D\<in>{P, C}. \<forall>pn<PGNUM UTOP. pte_at v D (page_addr pn) \<noteq> 0 \<longrightarrow>
        phys u (PGNUM (pte_at v D (page_addr pn))) = phys v (PGNUM (pte_at v D (page_addr pn))) \<and>
        pp_ref u (PGNUM (pte_at v D (page_addr pn))) = pp_ref v (PGNUM (pte_at v D (page_addr pn))))"

lemma finish_fork_ok:
  assumes sp: "spaces_ok v P C" and e: "envid2env c (kst m) w True = Some (0, Some e)" "env_pgdir (envs (kst m) e) = Some C"
    and freeX: "pte_at v C (page_addr (PGNUM UXSTACKTOP - 1)) = 0" and up: "upcall = env_pgfault_upcall (envs (kst m) this)"
      "\<forall>pn. unat upcall div 4096 \<le> pn \<and> pn * 4096 < unat upcall + 4096 \<longrightarrow>
         pn < PGNUM UTOP \<and> pn \<noteq> PGNUM UXSTACKTOP - 1 \<and> table_present (pte_at v C (page_addr pn))"
  shows "(\<exists>m'. finish_fork cfg c (with_vm m v) w this envid = Some (m', UserPanic) \<and> free_pages (vm (kst m')) = []) \<or>
    (\<exists>m' q. finish_fork cfg c (with_vm m v) w this envid = Some (m', Returned (this, envid)) \<and>
       stack_given v (vm (kst m')) P C q \<and> env_status (envs (kst m') e) = ENV_RUNNABLE \<and>
       env_pgfault_upcall (envs (kst m') e) = upcall \<and> env_tf (envs (kst m') e) = env_tf (envs (kst m) e) \<and>
       env_pgdir (envs (kst m') e) = Some C \<and> env_id (envs (kst m') e) = env_id (envs (kst m) e) \<and>
       (\<forall>i. i \<noteq> e \<longrightarrow> envs (kst m') i = envs (kst m) i))"
proof -
  let ?X = "PGNUM UXSTACKTOP - 1"
  have okP: "vm_ok v P" and okC: "vm_ok v C" and ap: "apart v P C" using sp by (simp_all add: spaces_ok_def)
  note X = UXSTACK_page user_page [OF UXSTACK_page(2)]
  have wX: "envid2env c (kst (with_vm m x)) w True = Some (0, Some e)" for x using e(1) by simp
  have start: "finish_fork cfg c (with_vm m v) w this envid =
      or_panic (u_page_alloc cfg c (with_vm m v) w (page_addr ?X) user_rw) (\<lambda>m.
        or_panic (u_env_set_pgfault_upcall cfg c m w (env_pgfault_upcall (envs (kst m) this))) (\<lambda>m.
          or_panic (u_env_set_status cfg c m w ENV_RUNNABLE_code) (\<lambda>m. uret m (this, envid))))"
    by (simp add: finish_fork_def user_rw_facts X(1))
  have freeX': "pte_at (vm (kst (with_vm m v))) C (page_addr ?X) = 0" using freeX by simp
  have okC': "vm_ok (vm (kst (with_vm m v))) C" and pgC: "env_pgdir (envs (kst (with_vm m v)) e) = Some C"
    using okC e(2) by simp_all
  show ?thesis
  proof (cases rule: env_page_alloc_ok [OF okC' pgC X(3) freeX'])
    case (1 k')
    from u_page_alloc_eq [OF wX X(4) 1(1), where cfg = cfg] E_NO_MEM_range
    have "u_page_alloc cfg c (with_vm m v) w (page_addr ?X) user_rw =
        Some ((with_vm m v)\<lparr>kst := k'\<rparr>, Returned (- E_NO_MEM))" by simp
    then show ?thesis using start E_NO_MEM_range 1(2) by (simp add: upanic_def)
  next
    case (2 s1 v2 q)
    note al = 2(2) [simplified] and pteC = 2(5) [simplified]
    from u_page_alloc_eq [OF wX X(4) 2(1), where cfg = cfg]
    have call1: "u_page_alloc cfg c (with_vm m v) w (page_addr ?X) user_rw = Some (with_vm m v2, Returned 0)" by simp
    note aP = page_alloc_vm_ok [OF okP al] and aC = page_alloc_vm_ok [OF okC al]
      and fr = page_alloc_frames [OF vm_okD(1) [OF okC] al]
    have spC: "spaces_ok s1 C P" using page_alloc_spaces [OF sp al] spaces_ok_sym by blast
    note same = grown_other [OF spC 2(4)]
    have parent2: "pte_at v2 P (page_addr pn) = pte_at v P (page_addr pn)" if "pn < PGNUM UTOP" for pn
      using same(3) [OF user_page(1) [OF that]] aP(4) [OF user_page(1) [OF that]] by simp
    have child2: "pte_at v2 C (page_addr pn) = (if pn = ?X then rw_entry q else pte_at v C (page_addr pn))"
      if "pn < PGNUM UTOP" for pn
      using pteC [OF user_page(1) [OF that]] same_page_addr [of ?X pn] that X(2) by (simp add: PGNUM_UTOP)
    have bits: "(PTE_P OR PTE_U OR PTE_U) OR PTE_P = PTE_P OR PTE_U" by (simp add: PTE_P_def PTE_U_def)
    have upmap: "pte_at v2 C (page_addr pn) AND ((PTE_P OR PTE_U OR PTE_U) OR PTE_P) = (PTE_P OR PTE_U OR PTE_U) OR PTE_P"
      if "unat upcall div 4096 \<le> pn \<and> pn * 4096 < unat upcall + unat PGSIZE" for pn
    proof -
      have "pn < PGNUM UTOP" "pn \<noteq> ?X" "table_present (pte_at v C (page_addr pn))"
        using up(2) that by (simp_all add: PGSIZE_def)
      then show ?thesis unfolding bits ok_bits using child2 by simp
    qed
    have last: "(unat upcall + 4095) div 4096 < PGNUM UTOP"
      by (rule conjunct1 [OF up(2) [rule_format]]) linarith
    have top: "unat UTOP = 977920 * 4096" by (simp add: layout_defs)
    have "unat upcall + unat PGSIZE \<le> unat UTOP"
      using last unfolding top PGNUM_UTOP by (simp add: PGSIZE_def)
    moreover from this have "unat upcall + unat PGSIZE + 4095 < 2 ^ 32" unfolding top by simp
    ultimately have "user_mem_check v2 C upcall PGSIZE (PTE_P OR PTE_U OR PTE_U) = Some (0, None)"
      using upmap by (intro user_mem_check_passes [OF 2(3)]) blast+
    then have call2: "u_env_set_pgfault_upcall cfg c (with_vm m v2) w upcall =
        Some ((with_vm m v2)\<lparr>kst := upd_env e (\<lambda>x. x\<lparr>env_pgfault_upcall := upcall\<rparr>) (kst (with_vm m v2))\<rparr>, Returned 0)"
      by (intro u_set_upcall_eq wX) (simp_all add: e(2))
    let ?m3 = "(with_vm m v2)\<lparr>kst := upd_env e (\<lambda>x. x\<lparr>env_pgfault_upcall := upcall\<rparr>) (kst (with_vm m v2))\<rparr>"
    let ?m4 = "?m3\<lparr>kst := upd_env e (set_status ENV_RUNNABLE) (kst ?m3)\<rparr>"
    have "envid2env c (kst ?m3) w True = Some (0, Some e)"
      using wX [of v2] by (auto simp: envid2env_def status_def Let_def split: if_splits Option.bind_splits)
    from u_set_runnable_eq [OF this]
    have call3: "u_env_set_status cfg c ?m3 w ENV_RUNNABLE_code = Some (?m4, Returned 0)" .
    have run: "finish_fork cfg c (with_vm m v) w this envid = Some (?m4, Returned (this, envid))"
      using start call1 call2 call3 up(1) by (simp add: uret_def)
    have frames: "phys v2 x = phys v x \<and> pp_ref v2 x = pp_ref v x"
      if x: "x \<notin> set (free_pages v)" "x \<notin> tables v C" "x \<noteq> C" for x
    proof -
      have "x \<notin> set (free_pages s1)" "x \<noteq> q" using x(1) fr(1,2) by auto
      then show ?thesis
        using grownD(5) [OF 2(4), of x] 2(7) [of x] x(2,3) aC(3) fr(4) by simp
    qed
    have kept: "phys v2 (PGNUM (pte_at v D (page_addr pn))) = phys v (PGNUM (pte_at v D (page_addr pn))) \<and>
        pp_ref v2 (PGNUM (pte_at v D (page_addr pn))) = pp_ref v (PGNUM (pte_at v D (page_addr pn)))"
      if "D \<in> {P, C}" "pn < PGNUM UTOP" "pte_at v D (page_addr pn) \<noteq> 0" for D pn
    proof (rule frames)
      note u = user_page(1) [OF that(2)]
      show "PGNUM (pte_at v D (page_addr pn)) \<notin> set (free_pages v)"
        using that vm_okD(10) [OF okP u] vm_okD(10) [OF okC u] by auto
      show "PGNUM (pte_at v D (page_addr pn)) \<notin> tables v C"
        using that apartD(5) [OF ap u] vm_okD(11) [OF okC u] by auto
      show "PGNUM (pte_at v D (page_addr pn)) \<noteq> C"
        using that apartD(6) [OF ap u] vm_okD(12) [OF okC u] by auto
    qed
    have "stack_given v v2 P C q"
      unfolding stack_given_def
    proof (intro conjI allI impI ballI)
      fix pn assume pn: "pn < PGNUM UTOP"
      show "pte_at v2 P (page_addr pn) = pte_at v P (page_addr pn)" by (rule parent2 [OF pn])
      show "pte_at v2 C (page_addr pn) = (if pn = ?X then rw_entry q else pte_at v C (page_addr pn))" by (rule child2 [OF pn])
      show "PGNUM (pte_at v P (page_addr pn)) \<noteq> q" if "pte_at v P (page_addr pn) \<noteq> 0"
        by (rule aP(9) [OF user_page(1) [OF pn] that])
    next
      show "phys v2 q = (\<lambda>_. 0)" by (rule 2(6))
    next
      fix D pn assume "D \<in> {P, C}" "pn < PGNUM UTOP" "pte_at v D (page_addr pn) \<noteq> 0"
      from kept [OF this]
      show "phys v2 (PGNUM (pte_at v D (page_addr pn))) = phys v (PGNUM (pte_at v D (page_addr pn)))"
        "pp_ref v2 (PGNUM (pte_at v D (page_addr pn))) = pp_ref v (PGNUM (pte_at v D (page_addr pn)))" by blast+
    qed
    then have pages: "stack_given v (vm (kst ?m4)) P C q" by simp
    have "env_status (envs (kst ?m4) e) = ENV_RUNNABLE"
      "env_pgfault_upcall (envs (kst ?m4) e) = upcall" "env_tf (envs (kst ?m4) e) = env_tf (envs (kst m) e)"
      "env_pgdir (envs (kst ?m4) e) = Some C" "env_id (envs (kst ?m4) e) = env_id (envs (kst m) e)"
      "\<forall>i. i \<noteq> e \<longrightarrow> envs (kst ?m4) i = envs (kst m) i"
      by (simp_all add: set_status_def e(2))
    with run pages show ?thesis by (intro disjI2 exI [of _ ?m4] exI [of _ q] conjI)
  qed
qed

text \<open>The three stages together.\<close>

lemma forked_pages_made:
  assumes S: "S < PGNUM UTOP" "copied s P S"
    and small: "\<And>pn. pn < PGNUM UTOP \<Longrightarrow> copied s P pn \<Longrightarrow> PGNUM (pte_at s P (page_addr pn)) < 2 ^ 20"
    and child: "\<And>pn. pn < PGNUM UTOP \<Longrightarrow>
      pte_at v0 C (page_addr pn) = (if copied s P pn then dup_entry (pte_at s P (page_addr pn)) else 0)"
    and parent: "\<And>pn. pn < PGNUM UTOP \<Longrightarrow> pte_at v0 P (page_addr pn) =
      (if copied s P pn \<and> cow_page (pte_at s P (page_addr pn)) then dup_entry (pte_at s P (page_addr pn)) else pte_at s P (page_addr pn))"
    and oldF: "PGNUM (pte_at v0 P (page_addr S)) = frame_of s P S"
    and pc: "private_copy v0 v P C (page_addr S) f" and f: "f < 2 ^ 20" and ne: "f \<noteq> frame_of s P S"
    and sg: "stack_given v u P C q"
  shows "forked_pages s u P C S f q"
proof -
  note p = pc [unfolded private_copy_def Let_def oldF]
  have vS: "pte_at v P (page_addr S) = rw_entry f" and vref: "pp_ref v f = 1"
    and vf: "\<forall>i<1024. phys v f i = phys v0 (frame_of s P S) i" "phys v (frame_of s P S) = phys v0 (frame_of s P S)"
    using p by blast+
  have vP: "pte_at v P (page_addr pn) = (if pn = S then rw_entry f else pte_at v0 P (page_addr pn))"
    and vC: "pte_at v C (page_addr pn) = pte_at v0 C (page_addr pn)" if "pn < PGNUM UTOP" for pn
    using p user_page(1) [OF that] same_page_addr [of S pn] S(1) that by (auto simp: PGNUM_UTOP)
  note g = sg [unfolded stack_given_def]
  have uP: "pte_at u P (page_addr pn) = pte_at v P (page_addr pn)"
    and uC: "pte_at u C (page_addr pn) = (if pn = PGNUM UXSTACKTOP - 1 then rw_entry q else pte_at v C (page_addr pn))"
    if "pn < PGNUM UTOP" for pn using g that by blast+
  have keep: "phys u (PGNUM (pte_at v D (page_addr S))) = phys v (PGNUM (pte_at v D (page_addr S)))"
    "pp_ref u (PGNUM (pte_at v D (page_addr S))) = pp_ref v (PGNUM (pte_at v D (page_addr S)))"
    if "D \<in> {P, C}" "pte_at v D (page_addr S) \<noteq> 0" for D using g that S(1) by blast+
  note rw = rw_entry_facts [OF f]
  have vCS: "pte_at v C (page_addr S) = dup_entry (pte_at s P (page_addr S))" using vC [OF S(1)] child [OF S(1)] S(2) by simp
  have F: "PGNUM (pte_at v C (page_addr S)) = frame_of s P S" "pte_at v C (page_addr S) \<noteq> 0"
    using vCS PGNUM_dup_entry [OF small [OF S]] dup_entry_bits(3) by (simp_all add: frame_of_def)
  have "phys u f = phys v f" "pp_ref u f = 1" "phys u (frame_of s P S) = phys v (frame_of s P S)"
    using keep [of P] keep [of C] F rw vref by (simp_all add: vS)
  then have copy: "pp_ref u f = 1" "\<forall>i<1024. phys u f i = phys u (frame_of s P S) i" using vf by simp_all
  show ?thesis
    unfolding forked_pages_def Let_def
  proof (intro conjI allI impI)
    fix pn assume pn: "pn < PGNUM UTOP"
    let ?old = "pte_at s P (page_addr pn)"
    show "if copied s P pn
      then PGNUM (pte_at u C (page_addr pn)) = PGNUM ?old \<and> pte_at u C (page_addr pn) AND PTE_W = 0 \<and>
        table_present (pte_at u C (page_addr pn)) \<and> (cow_page ?old \<longrightarrow> pte_at u C (page_addr pn) AND PTE_COW \<noteq> 0) \<and>
        (if pn = S then pte_at u P (page_addr pn) = rw_entry f
         else PGNUM (pte_at u P (page_addr pn)) = PGNUM ?old \<and> pte_at u P (page_addr pn) AND PTE_W = 0 \<and>
           table_present (pte_at u P (page_addr pn)) \<and> (cow_page ?old \<longrightarrow> pte_at u P (page_addr pn) AND PTE_COW \<noteq> 0))
      else pte_at u P (page_addr pn) = ?old \<and> pte_at u C (page_addr pn) = (if pn = PGNUM UXSTACKTOP - 1 then rw_entry q else 0)"
    proof (cases "copied s P pn")
      case False
      then have "pn \<noteq> S" using S(2) by auto
      with False show ?thesis using uP [OF pn] uC [OF pn] vP [OF pn] vC [OF pn] parent [OF pn] child [OF pn] by simp
    next
      case True
      then have pres: "table_present ?old" and nX: "pn \<noteq> PGNUM UXSTACKTOP - 1" by (simp_all add: copied_def)
      have "PGNUM (dup_entry ?old) = PGNUM ?old" by (rule PGNUM_dup_entry [OF small [OF pn True]])
      with True nX uP [OF pn] uC [OF pn] vP [OF pn] vC [OF pn] parent [OF pn] child [OF pn] pres dup_entry_bits [of ?old]
      show ?thesis by (auto simp: cow_page_def)
    qed
    show "PGNUM (pte_at u P (page_addr pn)) \<noteq> q" if "pte_at u P (page_addr pn) \<noteq> 0" using g that pn by auto
  next
    show "phys u q = (\<lambda>_. 0)" using g by blast
  qed (use copy ne in auto)
qed

lemma fork_parent_ok:
  assumes ready: "fork_ready c m w P C" and w: "w = word_of_int envid"
    and empty: "\<forall>pn<PGNUM UTOP. pte_at (vm (kst m)) C (page_addr pn) = 0"
    and fit: "refs_fit (vm (kst m)) P [0..<PGNUM UTOP]"
    and fs: "fork_stack (vm (kst m)) P esp" and cur: "cpu_env (kst m) c = Some this"
    and up: "upcall = env_pgfault_upcall (envs (kst m) this)" "upcall \<noteq> 0"
      "\<forall>pn. unat upcall div 4096 \<le> pn \<and> pn * 4096 < unat upcall + 4096 \<longrightarrow>
         pn < PGNUM UTOP \<and> copied (vm (kst m)) P pn"
  shows "(\<exists>m'. fork_parent cfg c m esp this envid = Some (m', UserPanic) \<and> free_pages (vm (kst m')) = []) \<or>
    (\<exists>m' f q e. fork_parent cfg c m esp this envid = Some (m', Returned (this, envid)) \<and>
       envid2env c (kst m) w True = Some (0, Some e) \<and> forked_pages (vm (kst m)) (vm (kst m')) P C (PGNUM esp) f q \<and>
       env_status (envs (kst m') e) = ENV_RUNNABLE \<and> env_pgfault_upcall (envs (kst m') e) = upcall \<and>
       env_tf (envs (kst m') e) = env_tf (envs (kst m) e) \<and> env_pgdir (envs (kst m') e) = Some C \<and>
       env_id (envs (kst m') e) = env_id (envs (kst m) e) \<and>
       (\<forall>i. i \<noteq> e \<longrightarrow> envs (kst m') i = envs (kst m) i))"
proof -
  let ?s = "vm (kst m)" and ?X = "PGNUM UXSTACKTOP - 1" and ?S = "PGNUM esp"
  let ?F = "frame_of ?s P ?S"
  have st: "stack_open ?s P esp" and cpS: "copied ?s P ?S" and S: "?S < PGNUM UTOP"
    and above: "\<forall>pn. ?S < pn \<and> pn < PGNUM UTOP \<longrightarrow> \<not> copied ?s P pn"
    using fs by (simp_all add: fork_stack_def stack_open_def)
  from ready obtain e where ke: "env_pgdir (envs (kst m) this) = Some P"
    "envid2env c (kst m) w True = Some (0, Some e)" "env_pgdir (envs (kst m) e) = Some C"
    using cur by (auto simp: fork_ready_def)
  have okS: "vm_ok ?s P" using ready by (simp add: fork_ready_def spaces_ok_def)
  have small: "frame_of ?s P pn < 2 ^ 20" if "pn < PGNUM UTOP" "copied ?s P pn" for pn
    using that vm_okD(2,9) [OF okS] user_page(1) [OF that(1)]
    by (force simp: frame_of_def copied_def table_present_def)
  from fork_pages_ok [OF ready empty fit st cpS above, of cfg]
  show ?thesis
  proof (elim disjE exE conjE)
    fix m' assume "fork_loop cfg c esp [0..<PGNUM UTOP] m w = Some (m', UserPanic)" and "free_pages (vm (kst m')) = []"
    moreover from this have "fork_parent cfg c m esp this envid = Some (m', UserPanic)" using w by (simp add: fork_parent_finish)
    ultimately show ?thesis by blast
  next
    fix v0 assume loop: "fork_loop cfg c esp [0..<PGNUM UTOP] m w = Some (with_vm m v0, Returned ())"
      and ready0: "fork_ready c (with_vm m v0) w P C" and sh: "shared_as ?s v0 P C {..<PGNUM UTOP}"
      and dir0: "phys v0 P = phys ?s P" and counts: "counts_kept ?s v0"
      and ref: "unat (pp_ref ?s ?F) < unat (pp_ref v0 ?F)"
    have upc: "env_pgfault_upcall (envs (kst m) this) \<noteq> 0" using up(1,2) by simp
    have child0: "pte_at v0 C (page_addr pn) = (if copied ?s P pn then dup_entry (pte_at ?s P (page_addr pn)) else 0)"
      and parent0: "pte_at v0 P (page_addr pn) = (if copied ?s P pn \<and> cow_page (pte_at ?s P (page_addr pn))
        then dup_entry (pte_at ?s P (page_addr pn)) else pte_at ?s P (page_addr pn))"
      if "pn < PGNUM UTOP" for pn
      using sh [unfolded shared_as_def Let_def, rule_format, OF that] that empty by simp_all
    from fork_touch_ok [OF ready0 fs cur upc sh dir0 counts ref small [OF S cpS], of cfg]
    show ?thesis
    proof (elim disjE exE conjE)
      fix m' assume "touch_stack cfg c (with_vm m v0) esp = Some (m', UserPanic)" and "free_pages (vm (kst m')) = []"
      then show ?thesis using loop w by (simp add: fork_parent_finish)
    next
      fix v f assume touch: "touch_stack cfg c (with_vm m v0) esp = Some (with_vm m v, Returned ())"
        and pc: "private_copy v0 v P C (page_addr ?S) f" and oldF: "PGNUM (pte_at v0 P (page_addr ?S)) = ?F"
      have sp: "spaces_ok v P C" using pc by (simp add: private_copy_def Let_def)
      have vC: "pte_at v C (page_addr pn) = pte_at v0 C (page_addr pn)" if "pn < PGNUM UTOP" for pn
        using pc user_page(1) [OF that] by (simp add: private_copy_def Let_def)
      have noX: "\<not> copied ?s P ?X" by (simp add: copied_def)
      have freeX: "pte_at v C (page_addr ?X) = 0"
        using vC [OF UXSTACK_page(2)] child0 [OF UXSTACK_page(2)] noX by simp
      have upm: "\<forall>pn. unat upcall div 4096 \<le> pn \<and> pn * 4096 < unat upcall + 4096 \<longrightarrow>
         pn < PGNUM UTOP \<and> pn \<noteq> ?X \<and> table_present (pte_at v C (page_addr pn))"
      proof (intro allI impI)
        fix pn assume "unat upcall div 4096 \<le> pn \<and> pn * 4096 < unat upcall + 4096"
        then have "pn < PGNUM UTOP" "copied ?s P pn" using up(3) by blast+
        then show "pn < PGNUM UTOP \<and> pn \<noteq> ?X \<and> table_present (pte_at v C (page_addr pn))"
          using vC child0 noX dup_entry_bits(2) by auto
      qed
      have step: "fork_parent cfg c m esp this envid = finish_fork cfg c (with_vm m v) w this envid"
        using loop touch w by (simp add: fork_parent_finish)
      have smallp: "PGNUM (pte_at ?s P (page_addr pn)) < 2 ^ 20" if "pn < PGNUM UTOP" "copied ?s P pn" for pn
        using small [OF that] by (simp add: frame_of_def)
      have okv0: "vm_ok v0 P" using ready0 by (simp add: fork_ready_def spaces_ok_def)
      have f: "f \<in> set (free_pages v0)" using pc by (simp add: private_copy_def Let_def)
      then have "f < npages v0" using free_chainD [OF vm_okD(1) [OF okv0, unfolded pages_inv_def]] by (auto simp: free_pages_def)
      then have fs20: "f < 2 ^ 20" using vm_okD(2) [OF okv0] by simp
      have "pte_at v0 P (page_addr ?S) \<noteq> 0"
        using parent0 [OF S] cpS dup_entry_bits(3) by (auto simp: copied_def table_present_def)
      then have "?F \<notin> set (free_pages v0)" using vm_okD(10) [OF okv0 user_page(1) [OF S]] oldF by simp
      then have fF: "f \<noteq> ?F" using f by auto
      from finish_fork_ok [OF sp ke(2,3) freeX up(1) upm, of cfg envid]
      show ?thesis
      proof (elim disjE exE conjE)
        fix m' assume "finish_fork cfg c (with_vm m v) w this envid = Some (m', UserPanic)" "free_pages (vm (kst m')) = []"
        then show ?thesis using step by simp
      next
        fix m' q
        assume run: "finish_fork cfg c (with_vm m v) w this envid = Some (m', Returned (this, envid))"
          and sg: "stack_given v (vm (kst m')) P C q" and rest: "env_status (envs (kst m') e) = ENV_RUNNABLE"
          "env_pgfault_upcall (envs (kst m') e) = upcall" "env_tf (envs (kst m') e) = env_tf (envs (kst m) e)"
          "env_pgdir (envs (kst m') e) = Some C" "env_id (envs (kst m') e) = env_id (envs (kst m) e)"
          "\<forall>i. i \<noteq> e \<longrightarrow> envs (kst m') i = envs (kst m) i"
        have "forked_pages ?s (vm (kst m')) P C ?S f q"
          by (rule forked_pages_made [OF S cpS smallp child0 parent0 oldF pc fs20 fF sg])
        with step run rest ke(2) show ?thesis by metis
      qed
    qed
  qed
qed

end
