(* ===== verification/ForkProps.thy ===== *)
theory ForkProps
  imports ForkParent
begin

unbundle bit_operations_syntax

text \<open>
  The properties of \<open>fork\<close>, of the page fault handler and of messages: the whole of \<open>fork\<close> from the
  call to its return in the parent, and the copy a write to a shared page makes.
\<close>

subsection \<open>The new address space\<close>

lemma sched_push_env_queues_only:
  assumes "sched_push_env s eid n = Some s'"
  shows "queues_only s s'"
proof -
  have "queues_only s (upd_env (ENVX eid) (\<lambda>e. e\<lparr>current_queue := n\<rparr>) s)"
    unfolding queues_only_def
    by (intro exI [of _ "\<lambda>i. if i = ENVX eid then n else current_queue (envs s i)"] exI [of _ "mlfq s"])
      (simp add: upd_env_def fun_eq_iff)
  with assms show ?thesis
    by (auto simp: sched_push_env_def split: Option.bind_splits)
qed

lemma queues_only_fields:
  "queues_only s s' \<Longrightarrow> env_tf (envs s' i) = env_tf (envs s i) \<and>
     env_pgfault_upcall (envs s' i) = env_pgfault_upcall (envs s i)"
  by (auto simp: queues_only_def)

text \<open>The memory of a new address space.\<close>

definition setup_memory :: "pmem \<Rightarrow> nat \<Rightarrow> pmem" where
  "setup_memory m p = store_word (m\<lparr>phys := (phys m)(p := phys m (kern_pgdir m)),
     pp_ref := (pp_ref m)(p := pp_ref m p + 1)\<rparr>) p (PDX UVPT) (page2pa p OR PTE_P OR PTE_U)"

lemma env_setup_vm_memory:
  assumes "page_alloc (vm s) True = (m, Some p)"
  shows "env_setup_vm s e = (upd_env e (\<lambda>e. e\<lparr>env_pgdir := Some p\<rparr>) (s\<lparr>vm := setup_memory m p\<rparr>), 0)"
  using assms by (simp add: env_setup_vm_def setup_memory_def Let_def)

lemma env_alloc_memory:
  assumes run: "env_alloc c s parent = Some (s', 0, Some e)" and al: "page_alloc (vm s) True = (m, Some p)"
  shows "vm s' = setup_memory m p" and "env_pgdir (envs s' e) = Some p"
    and "i \<noteq> e \<Longrightarrow> env_pgdir (envs s' i) = env_pgdir (envs s i)"
    and "i \<noteq> e \<Longrightarrow> env_tf (envs s' i) = env_tf (envs s i)"
    and "i \<noteq> e \<Longrightarrow> env_pgfault_upcall (envs s' i) = env_pgfault_upcall (envs s i)"
proof -
  let ?s1 = "upd_env e (\<lambda>e. e\<lparr>env_pgdir := Some p\<rparr>) (s\<lparr>vm := setup_memory m p\<rparr>)"
  let ?s2 = "upd_env e (\<lambda>x. x\<lparr>env_id := next_env_id (env_id x) e, env_parent_id := parent, env_type := 0,
      env_status := ENV_RUNNABLE, env_runs := 0, env_tf := user_tf, env_pgfault_upcall := 0,
      env_ipc_recving := False\<rparr>) ?s1"
  let ?s3 = "upd_env e (\<lambda>x. x\<lparr>executions := 0\<rparr>) (env_take ?s2 e)"
  from run obtain eid lev where "sched_push_env ?s3 eid lev = Some s'"
    by (auto simp: env_alloc_def env_setup_vm_memory [OF al] Let_def split: option.splits Option.bind_splits)
  then have q: "queues_only ?s3 s'" by (rule sched_push_env_queues_only)
  note d = queues_onlyD(2,5) [OF q] and f = queues_only_fields [OF q]
  show "vm s' = setup_memory m p" using d(2) by simp
  show "env_pgdir (envs s' e) = Some p" using d(1) by simp
  show "i \<noteq> e \<Longrightarrow> env_pgdir (envs s' i) = env_pgdir (envs s i)"
    "i \<noteq> e \<Longrightarrow> env_tf (envs s' i) = env_tf (envs s i)"
    "i \<noteq> e \<Longrightarrow> env_pgfault_upcall (envs s' i) = env_pgfault_upcall (envs s i)"
    using d(1) f by simp_all
qed

lemma setup_spaces:
  assumes ok: "vm_ok s P" and al: "page_alloc s True = (m, Some p)"
    and kern: "\<forall>d<PDX UTOP. phys s (kern_pgdir s) d = 0" "kern_pgdir s \<notin> set (free_pages s)"
  defines "v \<equiv> setup_memory m p"
  shows "spaces_ok v P p" and "is_user va \<Longrightarrow> pte_at v p va = 0" and "is_user va \<Longrightarrow> pte_at v P va = pte_at s P va"
    and "phys v P = phys s P" and "x \<noteq> p \<Longrightarrow> pp_ref v x = pp_ref s x"
    and "is_user va \<Longrightarrow> pte_at s P va \<noteq> 0 \<Longrightarrow> PGNUM (pte_at s P va) \<noteq> p"
    and "set (free_pages v) = set (free_pages s) - {p}"
proof -
  note f = page_alloc_frames [OF vm_okD(1) [OF ok] al] and a = page_alloc_vm_ok [OF ok al]
  have kd: "kern_pgdir m = kern_pgdir s" using al by (auto simp: page_alloc_def Let_def split: option.splits)
  have nk: "kern_pgdir s \<noteq> p" using kern(2) f(1) by auto
  have mem: "phys v x = phys m x" if "x \<noteq> p" for x
    using that by (simp add: v_def setup_memory_def store_word_def)
  have dir: "phys v p d = (if d = PDX UVPT then page2pa p OR PTE_P OR PTE_U else phys s (kern_pgdir s) d)" for d
    using nk f(4) by (simp add: v_def setup_memory_def store_word_def kd)
  have np: "npages v = npages m" and fp: "free_pages v = free_pages m" and li: "pp_link v = pp_link m"
    and iv: "pages_inv v"
    using f(3) by (simp_all add: v_def setup_memory_def store_word_def free_pages_def pages_inv_def)
  show "set (free_pages v) = set (free_pages s) - {p}" using fp f(2) by simp
  show vP: "phys v P = phys s P" using mem [of P] a(2,8) by simp
  have tP: "tables v P = tables s P" using vP by (simp add: tables_def)
  show pteP: "pte_at v P va = pte_at s P va" if "is_user va" for va
  proof (cases "phys s P (PDX va) = 0")
    case False
    then have "PGNUM (phys s P (PDX va)) \<in> tables s P" using that by (simp add: tablesI is_user_def)
    then have "PGNUM (phys s P (PDX va)) \<noteq> p" using a(7) by auto
    then have "pte_at v P va = pte_at m P va" using vP a(2) mem by (simp add: pte_at_def Let_def)
    with a(4) [OF that] show ?thesis by simp
  qed (simp add: pte_at_def vP)
  have tC: "tables v p = {}"
  proof -
    have "phys v p d = 0" if "d < PDX UTOP" for d
      using that kern(1) dir [of d] by (simp add: UVPT_val(2) PDX_UTOP)
    then show ?thesis by (auto simp: tables_def)
  qed
  show pteC: "pte_at v p va = 0" if "is_user va" for va
    using that kern(1) dir [of "PDX va"] by (auto simp: pte_at_def is_user_def UVPT_val(2) PDX_UTOP)
  show "x \<noteq> p \<Longrightarrow> pp_ref v x = pp_ref s x"
    using f(6) by (simp add: v_def setup_memory_def store_word_def)
  show fresh: "PGNUM (pte_at s P va) \<noteq> p" if "is_user va" "pte_at s P va \<noteq> 0" for va by (rule a(9) [OF that])
  have "vm_ok v P"
    unfolding vm_ok_def tP vP np fp li
    using a(1) iv pteP a(4) by (simp add: vm_ok_def a(2,3))
  moreover have "vm_ok v p"
  proof -
    have e: "{d. d < PDX UTOP \<and> phys v p d \<noteq> 0} = {}" using tC by (auto simp: tables_def)
    show ?thesis
      unfolding vm_ok_def tC np fp li e
      using a(1,5,6) iv pteC by (simp add: vm_ok_def)
  qed
  moreover have "apart v P p"
    unfolding apart_def tP tC using a(7,8) fresh pteP pteC by auto
  ultimately show "spaces_ok v P p" by (simp add: spaces_ok_def)
qed

subsection \<open>The call of \<open>sys_exofork\<close>\<close>

text \<open>The parent: it has a place in the table, a well-formed address space that maps itself at \<open>UVPT\<close>, its stack
  at \<open>esp\<close> (\<open>fork_stack\<close>), a page fault upcall on pages that \<open>fork\<close> copies, and room in its queue for a child.\<close>

definition can_fork :: "nat \<Rightarrow> machine \<Rightarrow> w32 \<Rightarrow> nat \<Rightarrow> nat \<Rightarrow> bool" where
  "can_fork c m esp k P \<longleftrightarrow> (let s = kst m; up = env_pgfault_upcall (envs s k) in
     cpu_env s c = Some k \<and> k < NENV \<and> status s k \<noteq> ENV_FREE \<and> env_pgdir (envs s k) = Some P \<and> env_table_ok s \<and>
     vm_ok (vm s) P \<and> self_map (vm s) P \<and> refs_fit (vm s) P [0..<PGNUM UTOP] \<and>
     (\<forall>d<PDX UTOP. phys (vm s) (kern_pgdir (vm s)) d = 0) \<and> kern_pgdir (vm s) \<notin> set (free_pages (vm s)) \<and>
     fork_stack (vm s) P esp \<and> up \<noteq> 0 \<and>
     (\<forall>pn. unat up div 4096 \<le> pn \<and> pn * 4096 < unat up + 4096 \<longrightarrow> pn < PGNUM UTOP \<and> copied (vm s) P pn) \<and>
     (\<exists>q. get_queue (mlfq s) (child_level c s (env_id (envs s k))) = Some q \<and> queue_ok q \<and>
        length (qlist q) < NENV \<and> q_last q + 1 < 2 ^ 31))"

lemma fork_stack_cong:
  assumes fs: "fork_stack s P esp" and pte: "\<And>va. is_user va \<Longrightarrow> pte_at v P va = pte_at s P va"
    and dir: "phys v P = phys s P" and used: "\<And>va. is_user va \<Longrightarrow> pte_at s P va \<noteq> 0 \<Longrightarrow>
      pp_ref v (PGNUM (pte_at s P va)) = pp_ref s (PGNUM (pte_at s P va))"
    and free: "\<And>p. p \<in> set (free_pages v) \<Longrightarrow> p \<in> set (free_pages s) \<and> pp_ref v p = pp_ref s p"
  shows "fork_stack v P esp"
proof -
  have S: "PGNUM esp < PGNUM UTOP" and pres: "table_present (pte_at s P (page_addr (PGNUM esp)))"
    using fs by (simp_all add: fork_stack_def stack_open_def)
  have page: "pte_at v P (page_addr pn) = pte_at s P (page_addr pn)" if "pn < PGNUM UTOP" for pn
    by (rule pte [OF user_page(1) [OF that]])
  have cp: "copied v P pn = copied s P pn" if "pn < PGNUM UTOP" for pn
    using page [OF that] by (simp add: copied_def dir)
  have "pte_at s P (page_addr (PGNUM esp)) \<noteq> 0" using pres by (auto simp: table_present_def)
  from used [OF user_page(1) [OF S] this]
  have "pp_ref v (frame_of v P (PGNUM esp)) = pp_ref s (frame_of s P (PGNUM esp))"
    by (simp add: frame_of_def page [OF S])
  moreover have "stack_open v P esp" using fs S page [OF S] by (simp add: fork_stack_def stack_open_def pdes_open_def dir)
  moreover have "\<forall>p\<in>set (free_pages v). pp_ref v p = 0" using fs free by (simp add: fork_stack_def)
  ultimately show ?thesis
    using fs cp S page [OF PFTEMP_page(2)] page [OF UXSTACK_page(2)]
    by (simp add: fork_stack_def PFTEMP_page(1) UXSTACK_page(1))
qed

lemma u_exofork_eq:
  assumes "sys_exofork c (kst m) = Some (k', Ret w)"
  shows "u_exofork cfg c m = Some (m\<lparr>kst := k'\<rparr>, Returned (sint w))"
  using assms by (simp add: u_exofork_def usyscall_def syscall_def on_kernel_def uret_def Let_def)

lemma exofork_fails:
  assumes "cpu_env (kst m) c = Some k" and "env_alloc c (kst m) (env_id (envs (kst m) k)) = Some (k', r, None)"
    and "r < 0" and "- (2 ^ 31) \<le> r"
  shows "u_exofork cfg c m = Some (m\<lparr>kst := k'\<rparr>, Returned r)"
proof -
  have "sint (word_of_int r :: w32) = r"
    using assms(3,4) by (simp add: sint_sbintrunc' signed_take_bit_int_eq_self)
  moreover have "sys_exofork c (kst m) = Some (k', Ret (word_of_int r))"
    using assms by (simp add: sys_exofork_def ret_def)
  ultimately show ?thesis using u_exofork_eq [of c m k' "word_of_int r" cfg] by simp
qed

text \<open>Either there is no slot or no page, or the child exists and is ready to be filled.\<close>

lemma exofork_ok:
  assumes "can_fork c m esp k P"
  obtains (fails) m' r where "u_exofork cfg c m = Some (m', Returned r)" and "r < 0"
      and "free_envs (kst m') = [] \<or> free_pages (vm (kst m')) = []"
  | (child) m1 e C w where "u_exofork cfg c m = Some (m1, Returned (sint w))" and "0 < sint w"
    and "fork_ready c m1 w P C" and "envid2env c (kst m1) w True = Some (0, Some e)" and "e \<noteq> k"
    and "\<And>pn. pn < PGNUM UTOP \<Longrightarrow> pte_at (vm (kst m1)) C (page_addr pn) = 0"
    and "\<And>pn. pn < PGNUM UTOP \<Longrightarrow> pte_at (vm (kst m1)) P (page_addr pn) = pte_at (vm (kst m)) P (page_addr pn)"
    and "phys (vm (kst m1)) P = phys (vm (kst m)) P" and "refs_fit (vm (kst m1)) P [0..<PGNUM UTOP]"
    and "env_pgfault_upcall (envs (kst m1) k) = env_pgfault_upcall (envs (kst m) k)"
    and "env_tf (envs (kst m1) e) = (env_tf (envs (kst m) k))\<lparr>reg_eax := 0\<rparr>"
    and "fork_stack (vm (kst m1)) P esp" and "cpu_env (kst m1) c = Some k"
proof -
  let ?s = "kst m" and ?id = "env_id (envs (kst m) k)"
  from assms have cur: "cpu_env ?s c = Some k" and k: "k < NENV" "status ?s k \<noteq> ENV_FREE"
    and pg: "env_pgdir (envs ?s k) = Some P" and tab: "env_table_ok ?s" and ok: "vm_ok (vm ?s) P"
    and self: "self_map (vm ?s) P" and fit: "refs_fit (vm ?s) P [0..<PGNUM UTOP]"
    and kern: "\<forall>d<PDX UTOP. phys (vm ?s) (kern_pgdir (vm ?s)) d = 0" "kern_pgdir (vm ?s) \<notin> set (free_pages (vm ?s))"
    and fs: "fork_stack (vm ?s) P esp"
    by (simp_all add: can_fork_def Let_def)
  from assms obtain q where q: "get_queue (mlfq ?s) (child_level c ?s ?id) = Some q" "queue_ok q"
      "length (qlist q) < NENV" "q_last q + 1 < 2 ^ 31"
    by (auto simp: can_fork_def Let_def)
  show thesis
  proof (cases "free_envs ?s")
    case Nil
    then have "env_free_list ?s = None"
      using free_chain_empty [of "\<lambda>i. env_link (envs ?s i)" "env_free_list ?s" NENV] env_table_okD(1) [OF tab]
      by (simp add: env_list_inv_def free_envs_def)
    then have "env_alloc c ?s ?id = Some (?s, - E_NO_FREE_ENV, None)" by (simp add: env_alloc_def)
    from exofork_fails [OF cur this, of cfg] Nil show thesis using fails by (simp add: E_NO_FREE_ENV_def)
  next
    case (Cons e es)
    have head: "env_free_list ?s = Some e" using free_envs_take [OF env_table_okD(1) [OF tab] Cons] by simp
    have e: "e < NENV" using free_envs_bound [OF env_table_okD(1) [OF tab]] Cons by simp
    have ek: "e \<noteq> k" using env_table_okD(2) [OF tab k(1)] Cons k(2) by auto
    show thesis
    proof (cases "free_pages (vm ?s)")
      case Nil
      then have "page_alloc (vm ?s) True = (vm ?s, None)" by (rule page_allocator.alloc_Nil [OF vm_okD(1) [OF ok]])
      then have "env_alloc c ?s ?id = Some (?s\<lparr>vm := vm ?s\<rparr>, - E_NO_MEM, None)"
        using head by (simp add: env_alloc_def env_setup_vm_def E_NO_MEM_def)
      from exofork_fails [OF cur this, of cfg] Nil show thesis using fails by (simp add: E_NO_MEM_def)
    next
      case page: (Cons C ps)
      have cur': "cpu_env ?s c \<noteq> Some e" using cur ek by simp
      have slot: "?id = 0 \<or> ENVX ?id \<noteq> e" using env_table_okD(4) [OF tab k] ek by simp
      obtain s' q' where r: "env_alloc c ?s ?id = Some (s', 0, Some e)" "status s' e = ENV_RUNNABLE"
          "env_id (envs s' e) = next_env_id (env_id (envs ?s e)) e" "env_parent_id (envs s' e) = ?id"
          "\<forall>i. i \<noteq> e \<longrightarrow> status s' i = status ?s i \<and> env_id (envs s' i) = env_id (envs ?s i)"
          "cpu_env s' = cpu_env ?s"
        by (insert env_alloc_ok [OF tab Cons vm_okD(1) [OF ok] page cur' slot q])
          (elim exE conjE, rule that, assumption+)
      obtain mm where al: "page_alloc (vm ?s) True = (mm, Some C)"
        using page_alloc_Cons [OF vm_okD(1) [OF ok] page] by blast
      note mem = env_alloc_memory [OF r(1) al] and sp = setup_spaces [OF ok al kern]
      let ?s1 = "upd_env e (set_status ENV_NOT_RUNNABLE) s'"
      let ?s2 = "upd_env e (\<lambda>x. x\<lparr>env_tf := (env_tf (envs ?s1 k))\<lparr>reg_eax := 0\<rparr>\<rparr>) ?s1"
      let ?w = "env_id (envs s' e)" and ?m1 = "m\<lparr>kst := ?s2\<rparr>"
      have id2: "env_id (envs ?s2 e) = ?w" by (simp add: set_status_def)
      have "sys_exofork c ?s = Some (?s2, Ret ?w)"
        using cur r(1) id2 by (simp add: sys_exofork_def)
      then have run: "u_exofork cfg c m = Some (?m1, Returned (sint ?w))" by (rule u_exofork_eq)
      note new = next_env_id_ok(1,2) [OF e, of "env_id (envs ?s e)", folded r(3)]
      have "?w \<noteq> 0" using new(2) by auto
      moreover have "status ?s2 e = ENV_NOT_RUNNABLE" by (simp add: status_def set_status_def)
      moreover have "env_parent_id (envs ?s2 e) = env_id (envs ?s2 k)"
        using ek r(4,5) by (simp add: set_status_def)
      moreover have "cpu_env ?s2 c = Some k" using r(6) cur by simp
      ultimately have res: "envid2env c (kst ?m1) ?w True = Some (0, Some e)"
        using new(1) id2 by (simp add: envid2env_def)
      have vm2: "vm (kst ?m1) = setup_memory mm C" using mem(1) by simp
      have pgs: "env_pgdir (envs ?s2 e) = Some C" "env_pgdir (envs ?s2 k) = Some P"
        using mem(2,3) ek pg by (simp_all add: set_status_def)
      have self2: "self_map (setup_memory mm C) P" using self sp(4) by (simp add: self_map_def)
      have ready: "fork_ready c ?m1 ?w P C"
        unfolding fork_ready_def vm2 using \<open>cpu_env ?s2 c = Some k\<close> pgs res sp(1) self2 by auto
      have cp: "copied (setup_memory mm C) P pn = copied (vm ?s) P pn"
        "frame_of (setup_memory mm C) P pn = frame_of (vm ?s) P pn" if "pn < PGNUM UTOP" for pn
        using sp(3) [OF user_page(1) [OF that]] by (simp_all add: copied_def frame_of_def sp(4))
      have fit2: "refs_fit (vm (kst ?m1)) P [0..<PGNUM UTOP]"
        unfolding refs_fit_def vm2
      proof (intro ballI impI)
        fix x assume x: "x \<in> set [0..<PGNUM UTOP]" "copied (setup_memory mm C) P x"
        then have xs: "x < PGNUM UTOP" "copied (vm ?s) P x" using cp by simp_all
        then have "pte_at (vm ?s) P (page_addr x) \<noteq> 0" by (auto simp: copied_def table_present_def)
        then have "frame_of (vm ?s) P x \<noteq> C"
          using sp(6) [OF user_page(1) [OF xs(1)]] by (simp add: frame_of_def)
        moreover have "filter (\<lambda>y. copied (setup_memory mm C) P y \<and> frame_of (setup_memory mm C) P y = frame_of (vm ?s) P x) [0..<PGNUM UTOP] =
            filter (\<lambda>y. copied (vm ?s) P y \<and> frame_of (vm ?s) P y = frame_of (vm ?s) P x) [0..<PGNUM UTOP]"
          using cp by (intro filter_cong) simp_all
        moreover have "unat (pp_ref (vm ?s) (frame_of (vm ?s) P x)) +
            length (filter (\<lambda>y. copied (vm ?s) P y \<and> frame_of (vm ?s) P y = frame_of (vm ?s) P x) [0..<PGNUM UTOP]) < 65536"
          using fit x(1) xs(2) unfolding refs_fit_def by blast
        ultimately show "unat (pp_ref (setup_memory mm C) (frame_of (setup_memory mm C) P x)) +
            length (filter (\<lambda>y. copied (setup_memory mm C) P y \<and> frame_of (setup_memory mm C) P y = frame_of (setup_memory mm C) P x) [0..<PGNUM UTOP]) < 65536"
          using sp(5) cp(2) [OF xs(1)] by simp
      qed
      show thesis
      proof (rule child [OF run new(2) ready res ek _ _ _ fit2])
        show "pte_at (vm (kst ?m1)) C (page_addr pn) = 0" if "pn < PGNUM UTOP" for pn
          unfolding vm2 by (rule sp(2) [OF user_page(1) [OF that]])
        show "pte_at (vm (kst ?m1)) P (page_addr pn) = pte_at (vm ?s) P (page_addr pn)" if "pn < PGNUM UTOP" for pn
          unfolding vm2 by (rule sp(3) [OF user_page(1) [OF that]])
        show "phys (vm (kst ?m1)) P = phys (vm ?s) P" unfolding vm2 by (rule sp(4))
        show "env_pgfault_upcall (envs (kst ?m1) k) = env_pgfault_upcall (envs ?s k)"
          using mem(5) ek by simp
        show "env_tf (envs (kst ?m1) e) = (env_tf (envs ?s k))\<lparr>reg_eax := 0\<rparr>"
          using mem(4) ek by simp
        show "fork_stack (vm (kst ?m1)) P esp"
          unfolding vm2 by (rule fork_stack_cong [OF fs sp(3) sp(4)]) (use sp(5-7) in auto)
        show "cpu_env (kst ?m1) c = Some k" using \<open>cpu_env ?s2 c = Some k\<close> by simp
      qed
    qed
  qed
qed

subsection \<open>Fork\<close>

lemma forked_pages_cong:
  assumes "\<And>pn. pn < PGNUM UTOP \<Longrightarrow> pte_at s' P (page_addr pn) = pte_at s P (page_addr pn)"
    and "phys s' P = phys s P" and "S < PGNUM UTOP" and "forked_pages s' v P C S f q"
  shows "forked_pages s v P C S f q"
proof -
  have "copied s' P pn = copied s P pn" if "pn < PGNUM UTOP" for pn
    using assms(1) [OF that] by (simp add: copied_def assms(2))
  moreover have "frame_of s' P S = frame_of s P S" using assms(1) [OF assms(3)] by (simp add: frame_of_def)
  ultimately show ?thesis using assms(1,4) by (simp add: forked_pages_def Let_def)
qed

text \<open>C28. Calling \<open>fork\<close> with the page fault handler in place either panics, and then there is no free slot or no
  free page left, or returns the id of a new environment in the parent. The child then is runnable, continues with the
  parent's registers except that the call returns 0 to it, and has the parent's upcall. Every page of
  the parent that \<open>fork\<close> copies (every present user page but the exception stack) is mapped to its old frame in the
  child, and in the parent too except for the page of the parent's stack; these entries are not writable, and marked
  copy-on-write when the page was writable or so marked before, whatever its other bits. The first push of the parent
  after the loop faults on the stack page: the parent's entry of it is then writable and maps a
  new frame with one reference and the contents of the old one, which the child keeps, copy-on-write.
  The child has a zeroed exception stack of its own, and nothing else. Assumed of the parent's stack: the page of
  \<open>esp\<close> is writable when \<open>fork\<close> is called, it is the last page that is copied and not that of \<open>PFTEMP\<close>, which is
  not mapped, and the exception stack is mapped; and free frames have no references.\<close>

theorem fork_copies_on_write:
  assumes "can_fork c m esp k P" and "handler \<noteq> 0"
  shows "(\<exists>m'. fork cfg c m esp upcall handler pgf k = Some (m', UserPanic) \<and>
       (free_envs (kst m') = [] \<or> free_pages (vm (kst m')) = [])) \<or>
    (\<exists>m' e C f q. fork cfg c m esp upcall handler pgf k =
         Some (m', Returned (pgf, k, sint (env_id (envs (kst m') e)))) \<and>
       0 < sint (env_id (envs (kst m') e)) \<and> e \<noteq> k \<and>
       env_status (envs (kst m') e) = ENV_RUNNABLE \<and> env_pgdir (envs (kst m') e) = Some C \<and>
       env_tf (envs (kst m') e) = (env_tf (envs (kst m) k))\<lparr>reg_eax := 0\<rparr> \<and>
       env_pgfault_upcall (envs (kst m') e) = env_pgfault_upcall (envs (kst m) k) \<and>
       forked_pages (vm (kst m)) (vm (kst m')) P C (PGNUM esp) f q)"
proof (cases rule: exofork_ok [OF assms(1), of cfg])
  case (1 m' r)
  then have "fork cfg c m esp upcall handler pgf k = Some (m', UserPanic)"
    using assms(2) by (simp add: fork_def set_pgfault_handler_def uret_def upanic_def)
  then show ?thesis using 1(3) by blast
next
  case (2 m1 e C w)
  have step: "fork cfg c m esp upcall handler pgf k =
      andthen (fork_parent cfg c m1 esp k (sint w)) (\<lambda>m r. uret m (pgf, r))"
    using assms(2) 2(1,2) by (simp add: fork_def set_pgfault_handler_def uret_def)
  have w: "w = word_of_int (sint w)" by simp
  have empty: "\<forall>pn<PGNUM UTOP. pte_at (vm (kst m1)) C (page_addr pn) = 0" using 2(6) by blast
  have S: "PGNUM esp < PGNUM UTOP" using 2(12) by (simp add: fork_stack_def stack_open_def)
  have cp: "copied (vm (kst m1)) P pn = copied (vm (kst m)) P pn" if "pn < PGNUM UTOP" for pn
    using 2(7) [OF that] by (simp add: copied_def 2(8))
  have nz: "env_pgfault_upcall (envs (kst m1) k) \<noteq> 0" using assms(1) 2(10) by (simp add: can_fork_def Let_def)
  have up: "\<forall>pn. unat (env_pgfault_upcall (envs (kst m1) k)) div 4096 \<le> pn \<and>
      pn * 4096 < unat (env_pgfault_upcall (envs (kst m1) k)) + 4096 \<longrightarrow>
      pn < PGNUM UTOP \<and> copied (vm (kst m1)) P pn"
    using assms(1) cp unfolding can_fork_def Let_def 2(10) by blast
  from fork_parent_ok [OF 2(3) w empty 2(9,12,13) refl nz up, of cfg] show ?thesis
  proof (elim disjE exE conjE)
    fix m' assume "fork_parent cfg c m1 esp k (sint w) = Some (m', UserPanic)" "free_pages (vm (kst m')) = []"
    with step show ?thesis by simp
  next
    fix m' f q e'
    assume run: "fork_parent cfg c m1 esp k (sint w) = Some (m', Returned (k, sint w))"
      and e': "envid2env c (kst m1) w True = Some (0, Some e')"
      and pages: "forked_pages (vm (kst m1)) (vm (kst m')) P C (PGNUM esp) f q"
      and st: "env_status (envs (kst m') e') = ENV_RUNNABLE"
        "env_pgfault_upcall (envs (kst m') e') = env_pgfault_upcall (envs (kst m1) k)"
        "env_tf (envs (kst m') e') = env_tf (envs (kst m1) e')" "env_pgdir (envs (kst m') e') = Some C"
        "env_id (envs (kst m') e') = env_id (envs (kst m1) e')"
    have e: "e' = e" using e' 2(4) by simp
    have "w \<noteq> 0" using 2(2) by auto
    then have id: "env_id (envs (kst m1) e) = w"
      using 2(4) by (auto simp: envid2env_def Let_def E_BAD_ENV_def split: if_splits Option.bind_splits)
    have "forked_pages (vm (kst m)) (vm (kst m')) P C (PGNUM esp) f q"
      by (rule forked_pages_cong [OF _ _ S pages]) (use 2(7,8) in simp_all)
    moreover have "fork cfg c m esp upcall handler pgf k = Some (m', Returned (pgf, k, sint w))"
      using step run by (simp add: uret_def)
    ultimately show ?thesis using st 2(2,5,10,11) id e by fastforce
  qed
qed

text \<open>Environment 0 with a page that holds its upcall, its stack and its exception stack, and seven free pages.\<close>

definition demo_fork_space :: pmem where
  "demo_fork_space = demo_mem\<lparr>pp_link := (\<lambda>_. None)(2 := Some 3, 3 := Some 8, 8 := Some 9, 9 := Some 12, 12 := Some 13, 13 := Some 14),
     phys := (\<lambda>_ _. 0)(5 := (\<lambda>_. 0)(2 := 0x4007, 954 := 0x7007, 957 := 0x5005), 4 := (\<lambda>_. 0)(0 := 0x6007),
       7 := (\<lambda>_. 0)(1021 := 0xA007, 1023 := 0xB007)),
     pp_ref := (\<lambda>_. 0)(5 := 1, 4 := 1, 7 := 1, 6 := 1, 10 := 1, 11 := 1)\<rparr>"

definition demo_esp :: w32 where "demo_esp = 0xEEBFDFF0"

definition demo_forker :: machine where
  "demo_forker = \<lparr>kst = demo_user\<lparr>envs := (envs demo_user)(0 := demo_env0\<lparr>env_pgfault_upcall := 0x800000\<rparr>),
     cpu_env := (\<lambda>_. None)(0 := Some 0), vm := demo_fork_space\<rparr>, con = demo_console\<rparr>"

lemma demo_fork_pte:
  assumes "is_user va"
  shows "pte_at demo_fork_space 5 va = (if PDX va = 2 \<and> PTX va = 0 then 0x6007
     else if PDX va = 954 \<and> PTX va = 1021 then 0xA007 else if PDX va = 954 \<and> PTX va = 1023 then 0xB007 else 0)"
proof -
  have "PDX va \<noteq> 957" using assms by (simp add: is_user_def PDX_UTOP)
  moreover have "PGNUM 0x4007 = 4" "PGNUM 0x7007 = 7" by (simp_all add: PGNUM_def)
  ultimately show ?thesis by (simp add: pte_at_def demo_fork_space_def Let_def)
qed

lemma demo_fork_page:
  assumes "pn < PGNUM UTOP"
  shows "pte_at demo_fork_space 5 (page_addr pn) = (if pn = 2048 then 0x6007 else if pn = 977917 then 0xA007
     else if pn = 977919 then 0xB007 else 0)"
proof -
  have b: "pn < 1048576" using assms by (simp add: PGNUM_UTOP)
  have "pn div 1024 = a \<and> pn mod 1024 = r \<longleftrightarrow> pn = a * 1024 + r" if "r < 1024" for a r
  proof
    assume "pn = a * 1024 + r"
    then show "pn div 1024 = a \<and> pn mod 1024 = r" using that by simp
  next
    assume "pn div 1024 = a \<and> pn mod 1024 = r"
    then show "pn = a * 1024 + r" using div_mult_mod_eq [of pn 1024] by simp
  qed
  from this [of 0 2] this [of 1021 954] this [of 1023 954]
  have "pn div 1024 = 2 \<and> pn mod 1024 = 0 \<longleftrightarrow> pn = 2048" "pn div 1024 = 954 \<and> pn mod 1024 = 1021 \<longleftrightarrow> pn = 977917"
    "pn div 1024 = 954 \<and> pn mod 1024 = 1023 \<longleftrightarrow> pn = 977919"
    by simp_all
  then show ?thesis
    using demo_fork_pte [OF user_page(1) [OF assms]] unfolding page_addr_index [OF b] by simp
qed

lemma demo_fork_free: "free_pages demo_fork_space = [2, 3, 8, 9, 12, 13, 14]" "pages_inv demo_fork_space"
proof -
  have "chain (pp_link demo_fork_space) (page_free_list demo_fork_space) [2, 3, 8, 9, 12, 13, 14]"
    by (simp add: demo_fork_space_def demo_mem_def)
  from free_chainI [OF this, of 16]
  show "free_pages demo_fork_space = [2, 3, 8, 9, 12, 13, 14]" "pages_inv demo_fork_space"
    by (simp_all add: pages_inv_def free_pages_def demo_fork_space_def demo_mem_def)
qed

lemma demo_page_frames: "PGNUM 0x6007 = 6" "PGNUM 0xA007 = 10" "PGNUM 0xB007 = 11"
  by (simp_all add: PGNUM_def)

lemma demo_fork_ok: "vm_ok demo_fork_space 5" "self_map demo_fork_space 5"
proof -
  have pde: "d < PDX UTOP \<and> phys demo_fork_space 5 d \<noteq> 0 \<longleftrightarrow> d = 2 \<or> d = 954" for d
    by (auto simp: demo_fork_space_def PDX_UTOP)
  have two: "PGNUM (phys demo_fork_space 5 2) = 4" "PGNUM (phys demo_fork_space 5 954) = 7"
    by (simp_all add: demo_fork_space_def PGNUM_def)
  have tab: "tables demo_fork_space 5 = {4, 7}"
  proof -
    have "tables demo_fork_space 5 = {PGNUM (phys demo_fork_space 5 d) |d. d = 2 \<or> d = 954}"
      unfolding tables_def pde ..
    then show ?thesis using two by auto
  qed
  have np: "npages demo_fork_space = 16" by (simp add: demo_fork_space_def demo_mem_def)
  have links: "pp_link demo_fork_space p = None" if "p \<notin> {2, 3, 8, 9, 12, 13, 14}" for p
    using that by (simp add: demo_fork_space_def)
  show "vm_ok demo_fork_space 5"
    unfolding vm_ok_def tab np pde demo_fork_free(1)
  proof (intro conjI ballI allI impI)
    fix va assume "is_user va" "pte_at demo_fork_space 5 va \<noteq> 0"
    then have "pte_at demo_fork_space 5 va \<in> {0x6007, 0xA007, 0xB007}" using demo_fork_pte by (auto split: if_splits)
    then have "PGNUM (pte_at demo_fork_space 5 va) \<in> {6, 10, 11}" using demo_page_frames by auto
    then show "PGNUM (pte_at demo_fork_space 5 va) < 16" "PGNUM (pte_at demo_fork_space 5 va) \<notin> set [2, 3, 8, 9, 12, 13, 14]"
      "PGNUM (pte_at demo_fork_space 5 va) \<notin> {4, 7}" "PGNUM (pte_at demo_fork_space 5 va) \<noteq> 5"
      by auto
  next
    show "inj_on (\<lambda>d. PGNUM (phys demo_fork_space 5 d)) {d. d = 2 \<or> d = 954}" using two by (auto simp: inj_on_def)
  qed (use demo_fork_free(2) links in auto)
  show "self_map demo_fork_space 5"
    by (simp add: self_map_def UVPT_val(2)) (simp add: demo_fork_space_def PGNUM_def PTE_P_def PTE_U_def)
qed

lemma demo_fork_copied: "pn < PGNUM UTOP \<Longrightarrow> copied demo_fork_space 5 pn \<longleftrightarrow> pn = 2048 \<or> pn = 977917"
proof -
  assume pn: "pn < PGNUM UTOP"
  have "table_present 0x6007" "\<not> table_present 0" "table_present 0x4007" "table_present 0x7007" "table_present 0xA007"
    by (simp_all add: table_present_def PTE_P_def PTE_U_def)
  moreover have "PGNUM UXSTACKTOP - 1 = 977919" using PGNUM_UTOP by (simp add: UXSTACKTOP_def)
  moreover have "phys demo_fork_space 5 2 = 0x4007" "phys demo_fork_space 5 954 = 0x7007" by (simp_all add: demo_fork_space_def)
  ultimately show ?thesis using demo_fork_page [OF pn] by (auto simp: copied_def)
qed

lemma demo_fork_frames: "frame_of demo_fork_space 5 2048 = 6" "frame_of demo_fork_space 5 977917 = 10"
  using demo_fork_page [of 2048] demo_fork_page [of 977917] demo_page_frames by (simp_all add: frame_of_def PGNUM_UTOP)

lemma refs_fit_distinct:
  assumes "\<And>x y. x \<in> set ps \<Longrightarrow> y \<in> set ps \<Longrightarrow> copied s P x \<Longrightarrow> copied s P y \<Longrightarrow> frame_of s P x = frame_of s P y \<Longrightarrow> x = y"
    and "distinct ps" and "\<And>x. x \<in> set ps \<Longrightarrow> copied s P x \<Longrightarrow> unat (pp_ref s (frame_of s P x)) < 65535"
  shows "refs_fit s P ps"
  unfolding refs_fit_def
proof (intro ballI impI)
  fix pn assume pn: "pn \<in> set ps" "copied s P pn"
  let ?l = "filter (\<lambda>x. copied s P x \<and> frame_of s P x = frame_of s P pn) ps"
  have "set ?l \<subseteq> {pn}" using assms(1) pn by auto
  then have "card (set ?l) \<le> 1" using card_mono [of "{pn}" "set ?l"] by simp
  moreover have "length ?l = card (set ?l)" using assms(2) by (intro distinct_card [symmetric]) simp
  ultimately have "length ?l \<le> 1" by simp
  then show "unat (pp_ref s (frame_of s P pn)) + length ?l < 65536" using assms(3) [OF pn] by simp
qed

lemma demo_refs_fit: "refs_fit demo_fork_space 5 [0..<PGNUM UTOP]"
proof (rule refs_fit_distinct)
  show "x = y" if "x \<in> set [0..<PGNUM UTOP]" "y \<in> set [0..<PGNUM UTOP]" "copied demo_fork_space 5 x"
    "copied demo_fork_space 5 y" "frame_of demo_fork_space 5 x = frame_of demo_fork_space 5 y" for x y
    using that demo_fork_copied demo_fork_frames by auto
  have "unat (pp_ref demo_fork_space 6) = 1" "unat (pp_ref demo_fork_space 10) = 1"
    by (simp_all add: demo_fork_space_def)
  then show "unat (pp_ref demo_fork_space (frame_of demo_fork_space 5 x)) < 65535"
    if "x \<in> set [0..<PGNUM UTOP]" "copied demo_fork_space 5 x" for x
    using that demo_fork_copied [of x] demo_fork_frames by auto
qed simp

lemma demo_fork_stack: "fork_stack demo_fork_space 5 demo_esp"
proof -
  have esp: "PGNUM demo_esp = 977917" by (simp add: demo_esp_def PGNUM_def)
  have top: "PGNUM UXSTACKTOP - 1 = 977919" using PGNUM_UTOP by (simp add: UXSTACKTOP_def)
  have "pdes_open demo_fork_space 5" by (simp add: pdes_open_def demo_fork_space_def PDX_UTOP)
  moreover have "table_present 0xA007" "(0xA007 :: w32) AND PTE_W \<noteq> 0" "(0xB007 :: w32) AND 7 = 7"
    by (simp_all add: table_present_def PTE_P_def PTE_U_def PTE_W_def)
  moreover have "PGNUM PFTEMP = 2047" by (simp add: layout_defs PGNUM_def)
  moreover have "pp_ref demo_fork_space 10 = 1" "\<forall>p\<in>set (free_pages demo_fork_space). pp_ref demo_fork_space p = 0"
    unfolding demo_fork_free(1) by (simp_all add: demo_fork_space_def)
  ultimately show ?thesis
    unfolding fork_stack_def stack_open_def esp demo_fork_frames PFTEMP_page(1) UXSTACK_page(1) top
    using demo_fork_page [of 977917] demo_fork_page [of 2047] demo_fork_page [of 977919] demo_fork_copied
    by (simp add: PGNUM_UTOP)
qed

lemma demo_can_fork: "can_fork 0 demo_forker demo_esp 0 5"
proof -
  let ?s = "kst demo_forker"
  have sel: "cpu_env ?s 0 = Some 0" "vm ?s = demo_fork_space" "mlfq ?s = mlfq demo_kern"
    "envs ?s 0 = demo_env0\<lparr>env_pgfault_upcall := 0x800000\<rparr>"
    by (simp_all add: demo_forker_def demo_user_def Let_def env_init_def)
  have same: "status ?s i = status demo_user i" "env_id (envs ?s i) = env_id (envs demo_user i)"
    "env_link (envs ?s i) = env_link (envs demo_user i)" for i
    by (simp_all add: demo_forker_def demo_user_def status_def Let_def)
  have fl: "env_free_list ?s = env_free_list demo_user" by (simp add: demo_forker_def)
  have "env_table_ok ?s"
    using demo_user_table(1) env_list_cong [OF same(3) fl] by (simp add: env_table_ok_def same(1,2))
  moreover have "child_level 0 ?s (env_id (envs ?s 0)) = 2"
    by (simp add: child_level_def envid2env_def Let_def sel status_def demo_env0_def ENVX_def)
  moreover have "get_queue (mlfq demo_kern) 2 = Some (q2 (mlfq demo_kern))" by (simp add: get_queue_def)
  moreover have "queue_ok (q2 (mlfq demo_kern))" "length (qlist (q2 (mlfq demo_kern))) < NENV"
    "q_last (q2 (mlfq demo_kern)) + 1 < 2 ^ 31"
    by (simp_all add: demo_kern_def queue_ok_def qlist_def positions_def NENV_def)
  moreover have "phys demo_fork_space (kern_pgdir demo_fork_space) d = 0" for d
    by (simp add: demo_fork_space_def demo_mem_def)
  moreover have "kern_pgdir demo_fork_space \<notin> set (free_pages demo_fork_space)"
    unfolding demo_fork_free(1) by (simp add: demo_fork_space_def demo_mem_def)
  moreover have "pn < PGNUM UTOP \<and> copied demo_fork_space 5 pn"
    if "8388608 div 4096 \<le> pn" "pn * 4096 < 8388608 + 4096" for pn
  proof -
    have "pn = 2048" using that by simp
    then show ?thesis using demo_fork_copied [of 2048] by (simp add: PGNUM_UTOP)
  qed
  moreover have "status ?s 0 \<noteq> ENV_FREE" by (simp add: status_def sel demo_env0_def)
  ultimately show ?thesis
    using demo_fork_ok demo_refs_fit demo_fork_stack unfolding can_fork_def Let_def sel
    by (simp add: NENV_def demo_env0_def)
qed

lemma fork_copies_on_write_witness:
  "(\<exists>m'. fork SCHED_PRIORITIES 0 demo_forker demo_esp 0x800000 0x800100 0x800100 0 = Some (m', UserPanic) \<and>
       (free_envs (kst m') = [] \<or> free_pages (vm (kst m')) = [])) \<or>
    (\<exists>m' e C f q. fork SCHED_PRIORITIES 0 demo_forker demo_esp 0x800000 0x800100 0x800100 0 =
         Some (m', Returned (0x800100, 0, sint (env_id (envs (kst m') e)))) \<and> e \<noteq> 0 \<and>
       env_pgdir (envs (kst m') e) = Some C \<and> forked_pages demo_fork_space (vm (kst m')) 5 C (PGNUM demo_esp) f q)"
proof -
  have vm: "vm (kst demo_forker) = demo_fork_space" by (simp add: demo_forker_def)
  have "(0x800100 :: w32) \<noteq> 0" by simp
  from fork_copies_on_write [OF demo_can_fork this, of SCHED_PRIORITIES "0x800000" "0x800100"]
  show ?thesis unfolding vm by blast
qed

end
