(* ===== verification/MapPerm.thy ===== *)
theory MapPerm
  imports ForkFault
begin

unbundle bit_operations_syntax

text \<open>
  What the unchecked permission word of \<open>sys_page_map\<close> lets a program do. The comment of the system call
  restricts it as for \<open>sys_page_alloc\<close>, but only \<open>PTE_W\<close> is looked at, and \<open>page_insert\<close> joins the word to
  the entry with the address of the frame: its high bits move the mapping to another frame.
\<close>

lemma good_va_user: "\<not> bad_va va \<Longrightarrow> is_user va"
proof -
  assume "\<not> bad_va va"
  then have "unat va < 4005560320" by (simp add: bad_va_def not_le word_less_nat_alt layout_defs)
  then show ?thesis unfolding is_user_def PDX_UTOP by (simp add: PDX_unat less_mult_imp_div_less)
qed

lemma or_absorb: "(x :: w32) AND y = x \<Longrightarrow> x OR y = y"
  by (simp add: bit_eq_iff bit_simps) blast

text \<open>The entry that \<open>page_insert\<close> writes for a frame whose number has no bit that \<open>f\<close> has not.\<close>

lemma joined_entry:
  assumes "page2pa p AND page2pa f = page2pa p"
  shows "page2pa p OR (PTE_P OR PTE_U OR (page2pa f OR PTE_W)) OR PTE_P = rw_entry f"
proof -
  have "page2pa p OR page2pa f = page2pa f" by (rule or_absorb [OF assms])
  then show ?thesis by (simp add: rw_entry_def user_rw_def or.assoc or.commute or.left_commute)
qed

text \<open>C30. A program that has one writable page can map other frames, writable, through \<open>sys_page_map\<close>: when
  the bits of its frame's number are among those of \<open>f\<close>, it asks for the permission word
  \<open>page2pa f OR PTE_W\<close>, and the call either lacks memory for a page table or makes the address map the
  frame \<open>f\<close>, whoever owns it and however many references it has.\<close>

theorem sys_page_map_reaches_frame:
  assumes "cpu_env s c = Some e" and "env_pgdir (envs s e) = Some P" and "vm_ok (vm s) P"
    and "\<not> bad_va src" and "\<not> bad_va dst" and "pte_at (vm s) P src AND PTE_W \<noteq> 0"
    and "page2pa (PGNUM (pte_at (vm s) P src)) AND page2pa f = page2pa (PGNUM (pte_at (vm s) P src))"
    and "f < 2 ^ 20"
  shows "sys_page_map c s 0 src 0 dst (page2pa f OR PTE_W) = Some (s, ret (- E_NO_MEM)) \<and>
       free_pages (vm s) = [] \<or>
    (\<exists>v. sys_page_map c s 0 src 0 dst (page2pa f OR PTE_W) = Some (s\<lparr>vm := v\<rparr>, ret 0) \<and>
       PGNUM (pte_at v P dst) = f \<and> table_present (pte_at v P dst) \<and> pte_at v P dst AND PTE_W \<noteq> 0)"
proof -
  let ?w = "pte_at (vm s) P src" and ?perm = "PTE_P OR PTE_U OR (page2pa f OR PTE_W)"
  let ?p = "PGNUM ?w" and ?t = "PGNUM (phys (vm s) P (PDX src))"
  note u = good_va_user [OF assms(4)] good_va_user [OF assms(5)]
  have w: "?w \<noteq> 0" using assms(6) by auto
  have me: "envid2env c s 0 True = Some (0, Some e)" using assms(1) by (simp add: envid2env_def)
  have look: "page_lookup (vm s) P src = Some (Some (?p, ?t, PTX src))"
    using page_lookup_eq [OF assms(3) u(1) refl refl] w by simp
  have "phys (vm s) ?t (PTX src) = ?w" using w by (auto simp: pte_at_def Let_def)
  then have "?perm AND PTE_W AND NOT (PTE_W AND phys (vm s) ?t (PTX src)) = 0"
    using assms(6) by (intro write_check) simp
  then have run: "sys_page_map c s 0 src 0 dst (page2pa f OR PTE_W) =
      (case page_insert (vm s) P ?p dst ?perm of None \<Rightarrow> None | Some (v, r) \<Rightarrow> Some (s\<lparr>vm := v\<rparr>, ret r))"
    using assms(2,4,5) me look by (auto simp: sys_page_map_def env_page_map_def split: Option.bind_splits option.splits)
  have p: "?p < npages (vm s)" "?p \<notin> set (free_pages (vm s))" using vm_okD(9,10) [OF assms(3) u(1) w] .
  note rw = rw_entry_facts [OF assms(8)]
  show ?thesis
  proof (cases rule: page_insert_ok [OF assms(3) u(2) p, of ?perm])
    case 1
    have "pgdir_walk (vm s) P dst True = Some (vm s, None)"
      using 1 by (auto simp: page_insert_def E_NO_MEM_def split: Option.bind_splits option.splits)
    from 1 walk_full [OF vm_okD(1) [OF assms(3)] this] show ?thesis using run by simp
  next
    case (2 v)
    have "pte_at v P dst = rw_entry f" using 2(2) [OF u(2)] joined_entry [OF assms(7)] by simp
    then show ?thesis using run 2(1) rw by (intro disjI2 exI [of _ v]) (simp add: flag_bits)
  qed
qed

text \<open>A program whose page is frame 4 makes its own page directory, frame 5, a writable page at 0x801000.\<close>

definition demo_mapper :: kern where
  "demo_mapper = demo_user\<lparr>cpu_env := (\<lambda>_. None)(0 := Some 0), vm := demo_mem\<lparr>
     phys := (\<lambda>_ _. 0)(5 := (\<lambda>_. 0)(2 := 0x6007), 6 := (\<lambda>_. 0)(0 := 0x4007)),
     pp_ref := (\<lambda>_. 0)(5 := 1, 4 := 1, 6 := 1)\<rparr>\<rparr>"

lemma sys_page_map_reaches_frame_witness:
  "\<exists>v. sys_page_map 0 demo_mapper 0 0x800000 0 0x801000 (0x5000 OR PTE_W) = Some (demo_mapper\<lparr>vm := v\<rparr>, ret 0) \<and>
     PGNUM (pte_at v 5 0x801000) = 5 \<and> table_present (pte_at v 5 0x801000) \<and> pte_at v 5 0x801000 AND PTE_W \<noteq> 0"
proof -
  let ?s = "vm demo_mapper"
  have vm: "?s = demo_mem\<lparr>phys := (\<lambda>_ _. 0)(5 := (\<lambda>_. 0)(2 := 0x6007), 6 := (\<lambda>_. 0)(0 := 0x4007)),
     pp_ref := (\<lambda>_. 0)(5 := 1, 4 := 1, 6 := 1)\<rparr>" by (simp add: demo_mapper_def)
  have fr: "free_pages ?s = [2, 3]" using demo_mem_ok(2) unfolding vm by (simp add: free_pages_def)
  have inv: "pages_inv ?s" using vm_okD(1) [OF demo_mem_ok(1)] unfolding vm by (simp add: pages_inv_def)
  have np: "npages ?s = 16" unfolding vm by (simp add: demo_mem_def)
  have "p \<notin> {2, 3} \<Longrightarrow> pp_link ?s p = None" for p unfolding vm by (simp add: demo_mem_def)
  then have links: "p \<notin> set (free_pages ?s) \<Longrightarrow> pp_link ?s p = None" for p unfolding fr by simp
  have num: "PGNUM 0x6007 = 6" "PGNUM 0x4007 = 4" by (simp_all add: PGNUM_def)
  have pde: "phys ?s 5 d = (if d = 2 then 0x6007 else 0)" for d unfolding vm by simp
  have tab: "phys ?s (PGNUM 0x6007) i = (if i = 0 then 0x4007 else 0)" for i unfolding num vm by simp
  have frames: "{5, PGNUM 0x6007, PGNUM 0x4007} \<subseteq> {..<npages ?s} - set (free_pages ?s)"
    unfolding num fr np by simp
  note five = one_page_space [OF inv _ links pde tab frames, unfolded num np, simplified]
  have good: "\<not> bad_va 0x800000" "\<not> bad_va 0x801000" by (simp_all add: bad_va_def layout_defs)
  have "PDX 0x800000 = 2" "PTX 0x800000 = 0" by (simp_all add: PDX_def PTX_def)
  then have pte: "pte_at ?s 5 0x800000 = 0x4007" using five(3) [OF good_va_user [OF good(1)]] by simp
  have w: "pte_at ?s 5 0x800000 AND PTE_W \<noteq> 0" unfolding pte by (simp add: PTE_W_def)
  have sub: "page2pa (PGNUM (pte_at ?s 5 0x800000)) AND page2pa 5 = page2pa (PGNUM (pte_at ?s 5 0x800000))"
    unfolding pte num by (simp add: page2pa_def push_bit_eq_mult)
  have cur: "cpu_env demo_mapper 0 = Some 0" "env_pgdir (envs demo_mapper 0) = Some 5"
    by (simp_all add: demo_mapper_def demo_user_def demo_env0_def Let_def)
  have five_pa: "page2pa 5 = 0x5000" by (simp add: page2pa_def push_bit_eq_mult)
  from sys_page_map_reaches_frame [OF cur five(1) good w sub] fr show ?thesis by (simp add: five_pa)
qed

end
