(* ===== verification/IpcProps.thy ===== *)
theory IpcProps
  imports ForkPages
begin

unbundle bit_operations_syntax

text \<open>
  Messages as the programs see them: \<open>ipc_send\<close> repeats its system call until the receiver waits. What
  the other environments do while the sender has yielded is an argument of \<open>ipc_send\<close>.
\<close>

text \<open>The machine before the \<open>n\<close>-th repetition: \<open>n\<close> yields, each followed by a run of the others.\<close>

fun after_yields :: "scheduler \<Rightarrow> nat \<Rightarrow> (nat \<Rightarrow> machine \<Rightarrow> machine) \<Rightarrow> machine \<Rightarrow> nat \<Rightarrow> machine option" where
  "after_yields cfg c resume m 0 = Some m"
| "after_yields cfg c resume m (Suc n) = do {
     m \<leftarrow> after_yields cfg c resume m n;
     (m, _) \<leftarrow> u_yield cfg c m;
     Some (resume n m) }"

text \<open>The receiver \<open>e\<close> of the id \<open>to_env\<close> exists, waits or not, and the sender \<open>k\<close> is on the processor.\<close>

definition ipc_ready :: "nat \<Rightarrow> machine \<Rightarrow> nat \<Rightarrow> w32 \<Rightarrow> nat \<Rightarrow> bool \<Rightarrow> bool" where
  "ipc_ready c m k to_env e waits \<longleftrightarrow> cpu_env (kst m) c = Some k \<and>
     envid2env c (kst m) to_env False = Some (0, Some e) \<and> env_ipc_recving (envs (kst m) e) = waits"

lemma E_IPC_NOT_RECV_range: "- (2 ^ 31) \<le> - E_IPC_NOT_RECV" "- E_IPC_NOT_RECV \<le> 0" "E_IPC_NOT_RECV \<noteq> 0"
  by (simp_all add: E_IPC_NOT_RECV_def)

lemma try_send_refused:
  assumes "ipc_ready c m k to_env e False"
  shows "u_ipc_try_send cfg c m to_env v pg perm = Some (m, Returned (- E_IPC_NOT_RECV))"
proof -
  have "sys_ipc_try_send c (kst m) to_env v pg perm = Some (kst m, ret (- E_IPC_NOT_RECV))"
    using assms by (simp add: ipc_ready_def sys_ipc_try_send_def)
  then have "syscall cfg c [] [] m 11 to_env v pg perm 0 = on_kernel m (Some (kst m, ret (- E_IPC_NOT_RECV)))"
    by (simp add: syscall_def Let_def)
  from usyscall_kernel [OF this E_IPC_NOT_RECV_range(1,2)] show ?thesis by (simp add: u_ipc_try_send_def)
qed

text \<open>The machine after the message of \<open>k\<close> has reached \<open>e\<close>.\<close>

definition delivered :: "machine \<Rightarrow> machine \<Rightarrow> nat \<Rightarrow> nat \<Rightarrow> w32 \<Rightarrow> bool" where
  "delivered m m' k e v \<longleftrightarrow>
     envs (kst m') e = (envs (kst m) e)\<lparr>env_ipc_from := env_id (envs (kst m) k), env_ipc_recving := False,
       env_ipc_value := v, env_ipc_perm := 0, env_tf := (env_tf (envs (kst m) e))\<lparr>reg_eax := 0\<rparr>,
       env_status := ENV_RUNNABLE\<rparr> \<and>
     (\<forall>i. i \<noteq> e \<longrightarrow> envs (kst m') i = envs (kst m) i) \<and> vm (kst m') = vm (kst m)"

lemma try_send_accepted:
  assumes "ipc_ready c m k to_env e True" and "to_env \<noteq> 0"
  obtains m' where "u_ipc_try_send cfg c m to_env v UTOP perm = Some (m', Returned 0)" and "delivered m m' k e v"
proof -
  from ipc_send_ok [of "kst m" c k to_env e UTOP v perm] assms
  obtain s' where s': "sys_ipc_try_send c (kst m) to_env v UTOP perm = Some (s', Ret 0)"
    "delivered m (m\<lparr>kst := s'\<rparr>) k e v"
    unfolding ipc_ready_def delivered_def by auto
  then have "syscall cfg c [] [] m 11 to_env v UTOP perm 0 = on_kernel m (Some (s', ret 0))"
    by (simp add: syscall_def Let_def ret_def)
  from usyscall_kernel [OF this, where check = False] s'(2) that show ?thesis by (simp add: u_ipc_try_send_def)
qed

lemma ipc_send_loop_waits:
  assumes "\<And>i mi. i < n \<Longrightarrow> after_yields cfg c resume m (k0 + i) = Some mi \<Longrightarrow> ipc_ready c mi k to_env e False"
    and "after_yields cfg c resume m (k0 + n) = Some mN" and "ipc_ready c mN k to_env e True" and "to_env \<noteq> 0"
    and "0 < n" and "after_yields cfg c resume m k0 = Some m0"
  shows "\<exists>m'. ipc_send_loop cfg c resume k0 m0 (- E_IPC_NOT_RECV) to_env v UTOP perm = Some (m', Returned 0) \<and>
     delivered mN m' k e v"
  using assms(1,2,5,6)
proof (induction n arbitrary: k0 m0)
  case (Suc n)
  have "after_yields cfg c resume m (Suc k0) \<noteq> None"
  proof -
    have "after_yields cfg c resume m (Suc k0 + j) = None" if "after_yields cfg c resume m (Suc k0) = None" for j
      using that by (induction j) simp_all
    then show ?thesis using Suc.prems(2) by (metis add_Suc_shift option.distinct(1))
  qed
  then obtain m1 where m1: "after_yields cfg c resume m (Suc k0) = Some m1" by blast
  then obtain my y where y: "u_yield cfg c m0 = Some (my, y)" "m1 = resume k0 my"
    using Suc.prems(4) by (auto split: Option.bind_splits)
  show ?case
  proof (cases n)
    case 0
    then have "m1 = mN" using m1 Suc.prems(2) by (simp del: after_yields.simps)
    moreover obtain m' where "u_ipc_try_send cfg c mN to_env v UTOP perm = Some (m', Returned 0)" "delivered mN m' k e v"
      by (rule try_send_accepted [OF assms(3,4)])
    ultimately show ?thesis
      using y E_IPC_NOT_RECV_range(3) by (simp add: ipc_send_loop.simps)
  next
    case (Suc j)
    then have "ipc_ready c m1 k to_env e False" using Suc.prems(1) [of 1 m1] m1 by simp
    from try_send_refused [OF this] y
    have step: "ipc_send_loop cfg c resume k0 m0 (- E_IPC_NOT_RECV) to_env v UTOP perm =
        ipc_send_loop cfg c resume (Suc k0) m1 (- E_IPC_NOT_RECV) to_env v UTOP perm"
      by (subst ipc_send_loop.simps) simp
    have wait: "ipc_ready c mi k to_env e False" if "i < n" "after_yields cfg c resume m (Suc k0 + i) = Some mi" for i mi
      using Suc.prems(1) [of "Suc i" mi] that by (simp del: after_yields.simps)
    have "after_yields cfg c resume m (Suc k0 + n) = Some mN" using Suc.prems(2) by (simp del: after_yields.simps)
    from Suc.IH [OF wait this _ m1] Suc show ?thesis unfolding step by simp
  qed
qed simp

text \<open>C31. A message without a page (\<open>pg\<close> is 0) arrives when the receiver waits at last: if the receiver does not wait at
  the first \<open>n\<close> attempts and waits at the next one, and the scheduler brings the sender back after each of
  the \<open>n\<close> yields, then \<open>ipc_send\<close> returns, the receiver has the value and the sender's id and is runnable,
  and no other environment and no memory has changed since that attempt.\<close>

theorem ipc_send_delivers:
  assumes "\<And>i mi. i < n \<Longrightarrow> after_yields cfg c resume m i = Some mi \<Longrightarrow> ipc_ready c mi k to_env e False"
    and "after_yields cfg c resume m n = Some mN" and "ipc_ready c mN k to_env e True" and "to_env \<noteq> 0"
  shows "\<exists>m'. ipc_send cfg c resume m to_env v 0 perm = Some (m', Returned ()) \<and> delivered mN m' k e v"
proof (cases "n = 0")
  case True
  then have "ipc_ready c m k to_env e True" using assms(2,3) by simp
  from try_send_accepted [OF this assms(4)] obtain m'
    where "u_ipc_try_send cfg c m to_env v UTOP perm = Some (m', Returned 0)" "delivered m m' k e v" by blast
  then show ?thesis
    using True assms(2) E_IPC_NOT_RECV_range(3) by (simp add: ipc_send_def ipc_send_loop.simps uret_def)
next
  case False
  then have "ipc_ready c m k to_env e False" using assms(1) [of 0 m] by simp
  from try_send_refused [OF this, of cfg v UTOP perm]
  have first: "u_ipc_try_send cfg c m to_env v UTOP perm = Some (m, Returned (- E_IPC_NOT_RECV))" .
  obtain m' where "ipc_send_loop cfg c resume 0 m (- E_IPC_NOT_RECV) to_env v UTOP perm = Some (m', Returned 0)"
    "delivered mN m' k e v"
    using ipc_send_loop_waits [of n cfg c "resume" m 0 k to_env e mN m v perm] assms False by auto
  then show ?thesis using first by (simp add: ipc_send_def uret_def)
qed

text \<open>A sender that has to yield once: the receiver starts to wait while others run.\<close>

definition demo_sender :: machine where
  "demo_sender = \<lparr>kst = upd_env 1 (\<lambda>x. x\<lparr>env_ipc_recving := False\<rparr>) demo_three, con = demo_console\<rparr>"

lemma demo_sender_ready:
  "ipc_ready 0 demo_sender 0 0x1001 1 False" "ipc_ready 0 \<lparr>kst = demo_three, con = demo_console\<rparr> 0 0x1001 1 True"
  using envid2env_live [of demo_three "0x1001" 0, unfolded demo_slots demo_three_sel]
    envid2env_live [of "kst demo_sender" "0x1001" 0, unfolded demo_slots]
  by (simp_all add: ipc_ready_def demo_three_sel demo_sender_def status_def) (simp_all add: demo_three_def)

lemma demo_sender_dirs: "dirs_ok (kst demo_sender)"
proof -
  have "status (kst demo_sender) i = (if i \<in> {0, 2} then ENV_RUNNING else if i = 1 then ENV_NOT_RUNNABLE else status demo_kern i)"
    for i by (simp add: demo_sender_def demo_three_def demo_caller_def demo_env0_def status_def)
  then show ?thesis
    by (auto simp: dirs_ok_def demo_status) (simp_all add: demo_sender_def demo_three_def demo_env0_def demo_caller_def demo_kern_def)
qed

lemma ipc_send_delivers_witness:
  "\<exists>m'. ipc_send SCHED_ROUND_ROBIN 0 (\<lambda>_ _. \<lparr>kst = demo_three, con = demo_console\<rparr>) demo_sender 0x1001 42 0 0 =
       Some (m', Returned ()) \<and>
     env_ipc_value (envs (kst m') 1) = 42 \<and> env_ipc_from (envs (kst m') 1) = 0x1000"
proof -
  let ?m = "\<lparr>kst = demo_three, con = demo_console\<rparr>" and ?resume = "\<lambda>(_ :: nat) (_ :: machine). \<lparr>kst = demo_three, con = demo_console\<rparr>"
  obtain s' r where "sched_yield SCHED_ROUND_ROBIN 0 (kst demo_sender) = Some (s', r)"
    using round_robin_ok [OF demo_sender_dirs refl, of 0] by blast
  then have "u_yield SCHED_ROUND_ROBIN 0 demo_sender = Some (demo_sender\<lparr>kst := s'\<rparr>, OffCpu r)"
    by (simp add: u_yield_def usyscall_def syscall_def sys_yield_def on_kernel_def Let_def)
  then have one: "after_yields SCHED_ROUND_ROBIN 0 ?resume demo_sender 1 = Some ?m" by simp
  have "\<exists>m'. ipc_send SCHED_ROUND_ROBIN 0 ?resume demo_sender 0x1001 42 0 0 = Some (m', Returned ()) \<and>
     delivered ?m m' 0 1 42"
    by (rule ipc_send_delivers [where n = 1, OF _ one demo_sender_ready(2)]) (use demo_sender_ready(1) in auto)
  then show ?thesis by (auto simp: delivered_def demo_three_sel)
qed

end
