(* ===== verification/MemInit.thy ===== *)
theory MemInit
  imports Kernel FreeList
begin

unbundle bit_operations_syntax

text \<open>
  The start of the memory management (\<open>sched/kern/pmap.c\<close>): the size of the memory as the clock chip
  reports it, \<open>mem_init\<close>, and the self tests that it runs. A failed \<open>assert\<close> is \<open>None\<close>.
\<close>

definition check :: "bool \<Rightarrow> unit option" where "check b = (if b then Some () else None)"

lemma check_simps [simp]: "check True = Some ()" "check False = None" "check b = Some u \<longleftrightarrow> b"
  by (simp_all add: check_def)

subsection \<open>The size of the memory\<close>

definition NVRAM_BASELO :: nat where "NVRAM_BASELO = 14 + 7"
definition NVRAM_EXTLO :: nat where "NVRAM_EXTLO = 14 + 9"
definition NVRAM_EXT16LO :: nat where "NVRAM_EXT16LO = 14 + 38"

text \<open>\<open>nvram\<close> is what \<open>mc146818_read\<close> returns for a register.\<close>

definition nvram_read :: "(nat \<Rightarrow> w8) \<Rightarrow> nat \<Rightarrow> nat" where
  "nvram_read nvram r = unat (nvram r) + 256 * unat (nvram (r + 1))"

definition i386_detect_memory :: "(nat \<Rightarrow> w8) \<Rightarrow> nat \<times> nat" where
  "i386_detect_memory nvram =
     (let basemem = nvram_read nvram NVRAM_BASELO; extmem = nvram_read nvram NVRAM_EXTLO;
          ext16mem = nvram_read nvram NVRAM_EXT16LO * 64;
          totalmem = (if ext16mem \<noteq> 0 then 16 * 1024 + ext16mem
                      else if extmem \<noteq> 0 then 1 * 1024 + extmem else basemem)
      in (totalmem div 4, basemem div 4))"

subsection \<open>The self tests\<close>

definition page2kva :: "pmem \<Rightarrow> nat \<Rightarrow> w32 option" where
  "page2kva s p = KADDR (npages s) (page2pa p)"

text \<open>\<open>memset\<close> of the first \<open>n\<close> words of a frame, through its kernel address.\<close>

definition fill_frame :: "pmem \<Rightarrow> nat \<Rightarrow> nat \<Rightarrow> w32 \<Rightarrow> pmem option" where
  "fill_frame s p n w = do {
     _ \<leftarrow> page2kva s p;
     Some (s\<lparr>phys := (phys s)(p := \<lambda>i. if i < n then w else phys s p i)\<rparr>)
   }"

definition check_va2pa :: "pmem \<Rightarrow> nat \<Rightarrow> w32 \<Rightarrow> w32 option" where
  "check_va2pa s pgdir va =
     (let pde = phys s pgdir (PDX va) in
      if pde AND PTE_P = 0 then Some (- 1)
      else if pde AND PTE_PS \<noteq> 0 then Some (PGADDR (PDX pde) (PTX va) (va AND 0xFFF))
      else do {
        _ \<leftarrow> KADDR (npages s) (PTE_ADDR pde);
        let e = phys s (PGNUM pde) (PTX va);
        if e AND PTE_P = 0 then Some (- 1) else Some (PTE_ADDR e)
      })"

text \<open>
  \<open>check_page_free_list\<close> first splits the list. A place that the loop writes through \<open>tp\<close> is one of the two
  local heads or the link of a page. The list has at most \<open>npages\<close> elements; a longer walk is
  a cycle, in which the loop would not end.
\<close>

datatype link_slot = Head bool | LinkOf nat

record splitting =
  sp_link :: "nat \<Rightarrow> nat option"
  sp_pp1 :: "nat option"
  sp_pp2 :: "nat option"
  sp_tp0 :: link_slot
  sp_tp1 :: link_slot

definition put_slot :: "link_slot \<Rightarrow> nat option \<Rightarrow> splitting \<Rightarrow> splitting" where
  "put_slot t x r = (case t of
     Head False \<Rightarrow> r\<lparr>sp_pp1 := x\<rparr>
   | Head True \<Rightarrow> r\<lparr>sp_pp2 := x\<rparr>
   | LinkOf p \<Rightarrow> r\<lparr>sp_link := (sp_link r)(p := x)\<rparr>)"

fun split_loop :: "nat \<Rightarrow> nat \<Rightarrow> nat option \<Rightarrow> splitting \<Rightarrow> splitting option" where
  "split_loop lim n None r = Some r"
| "split_loop lim 0 (Some p) r = None"
| "split_loop lim (Suc n) (Some p) r =
     (if lim \<le> PDX (page2pa p)
      then (let r = put_slot (sp_tp1 r) (Some p) r in
            split_loop lim n (sp_link r p) (r\<lparr>sp_tp1 := LinkOf p\<rparr>))
      else (let r = put_slot (sp_tp0 r) (Some p) r in
            split_loop lim n (sp_link r p) (r\<lparr>sp_tp0 := LinkOf p\<rparr>)))"

definition low_pages_first :: "nat \<Rightarrow> pmem \<Rightarrow> pmem option" where
  "low_pages_first lim s = do {
     r \<leftarrow> split_loop lim (npages s) (page_free_list s)
       \<lparr>sp_link = pp_link s, sp_pp1 = None, sp_pp2 = None, sp_tp0 = Head False, sp_tp1 = Head True\<rparr>;
     let r = put_slot (sp_tp1 r) None r;
     let r = put_slot (sp_tp0 r) (sp_pp2 r) r;
     Some (s\<lparr>pp_link := sp_link r, page_free_list := sp_pp1 r\<rparr>)
   }"

fun trouble_loop :: "nat \<Rightarrow> nat \<Rightarrow> nat option \<Rightarrow> pmem \<Rightarrow> pmem option" where
  "trouble_loop lim n None s = Some s"
| "trouble_loop lim 0 (Some p) s = None"
| "trouble_loop lim (Suc n) (Some p) s = do {
     s \<leftarrow> (if PDX (page2pa p) < lim then fill_frame s p 32 0x97979797 else Some s);
     trouble_loop lim n (pp_link s p) s
   }"

text \<open>The checks of one page of the list; the pointer arithmetic on \<open>pages\<close> leaves \<open>p < npages\<close>.\<close>

definition free_page_ok :: "pmem \<Rightarrow> w32 \<Rightarrow> nat \<Rightarrow> unit option" where
  "free_page_ok s first_free p = do {
     _ \<leftarrow> check (p < npages s);
     _ \<leftarrow> check (page2pa p \<noteq> 0);
     _ \<leftarrow> check (page2pa p \<noteq> IOPHYSMEM);
     _ \<leftarrow> check (page2pa p \<noteq> EXTPHYSMEM - PGSIZE);
     _ \<leftarrow> check (page2pa p \<noteq> EXTPHYSMEM);
     _ \<leftarrow> (if page2pa p < EXTPHYSMEM then Some ()
           else do { kva \<leftarrow> page2kva s p; check (first_free \<le> kva) });
     check (page2pa p \<noteq> MPENTRY_PADDR)
   }"

fun count_free_loop :: "nat \<Rightarrow> w32 \<Rightarrow> pmem \<Rightarrow> nat option \<Rightarrow> nat \<times> nat \<Rightarrow> (nat \<times> nat) option" where
  "count_free_loop n ff s None cs = Some cs"
| "count_free_loop 0 ff s (Some p) cs = None"
| "count_free_loop (Suc n) ff s (Some p) cs = do {
     _ \<leftarrow> free_page_ok s ff p;
     count_free_loop n ff s (pp_link s p)
       (if page2pa p < EXTPHYSMEM then (fst cs + 1, snd cs) else (fst cs, snd cs + 1))
   }"

definition check_page_free_list :: "w32 \<Rightarrow> w32 \<Rightarrow> bool \<Rightarrow> pmem \<Rightarrow> pmem option" where
  "check_page_free_list kend nextfree only_low s = do {
     let pdx_limit = (if only_low then 1 else 1024);
     _ \<leftarrow> check (page_free_list s \<noteq> None);
     s \<leftarrow> (if only_low then low_pages_first pdx_limit s else Some s);
     s \<leftarrow> trouble_loop pdx_limit (npages s) (page_free_list s) s;
     (first_free, _) \<leftarrow> boot_alloc (npages s) kend nextfree 0;
     (base, ext) \<leftarrow> count_free_loop (npages s) first_free s (page_free_list s) (0, 0);
     _ \<leftarrow> check (base > 0);
     _ \<leftarrow> check (ext > 0);
     Some s
   }"

text \<open>\<open>assert((pp = page_alloc(0)))\<close> and \<open>assert(!page_alloc(0))\<close>.\<close>

definition must_alloc :: "bool \<Rightarrow> pmem \<Rightarrow> (pmem \<times> nat) option" where
  "must_alloc z s = (case page_alloc s z of (s, Some p) \<Rightarrow> Some (s, p) | (s, None) \<Rightarrow> None)"

definition must_be_full :: "pmem \<Rightarrow> pmem option" where
  "must_be_full s = (case page_alloc s False of (s, None) \<Rightarrow> Some s | (s, Some p) \<Rightarrow> None)"

fun count_list :: "nat \<Rightarrow> pmem \<Rightarrow> nat option \<Rightarrow> nat \<Rightarrow> nat option" where
  "count_list n s None k = Some k"
| "count_list 0 s (Some p) k = None"
| "count_list (Suc n) s (Some p) k = count_list n s (pp_link s p) (k + 1)"

text \<open>Three pages, different from each other.\<close>

definition alloc_three :: "pmem \<Rightarrow> (pmem \<times> nat \<times> nat \<times> nat) option" where
  "alloc_three s = do {
     (s, p0) \<leftarrow> must_alloc False s;
     (s, p1) \<leftarrow> must_alloc False s;
     (s, p2) \<leftarrow> must_alloc False s;
     _ \<leftarrow> check (p1 \<noteq> p0);
     _ \<leftarrow> check (p2 \<noteq> p1 \<and> p2 \<noteq> p0);
     Some (s, p0, p1, p2)
   }"

definition free_three :: "pmem \<Rightarrow> nat \<Rightarrow> nat \<Rightarrow> nat \<Rightarrow> pmem option" where
  "free_three s p0 p1 p2 = do { s \<leftarrow> page_free s p0; s \<leftarrow> page_free s p1; page_free s p2 }"

definition check_page_alloc :: "pmem \<Rightarrow> pmem option" where
  "check_page_alloc s = do {
     nfree \<leftarrow> count_list (npages s) s (page_free_list s) 0;
     (s, p0, p1, p2) \<leftarrow> alloc_three s;
     let top = PGSIZE * word_of_nat (npages s);
     _ \<leftarrow> check (page2pa p0 < top);
     _ \<leftarrow> check (page2pa p1 < top);
     _ \<leftarrow> check (page2pa p2 < top);
     let fl = page_free_list s;
     let s = s\<lparr>page_free_list := None\<rparr>;
     s \<leftarrow> must_be_full s;
     s \<leftarrow> free_three s p0 p1 p2;
     (s, p0, p1, p2) \<leftarrow> alloc_three s;
     s \<leftarrow> must_be_full s;
     s \<leftarrow> fill_frame s p0 1024 0x01010101;
     s \<leftarrow> page_free s p0;
     (s, p) \<leftarrow> must_alloc True s;
     _ \<leftarrow> check (p0 = p);
     _ \<leftarrow> check (list_all (\<lambda>i. phys s p i = 0) [0..<1024]);
     let s = s\<lparr>page_free_list := fl\<rparr>;
     s \<leftarrow> free_three s p0 p1 p2;
     left \<leftarrow> count_list (npages s) s (page_free_list s) 0;
     _ \<leftarrow> check (nfree = left);
     Some s
   }"

text \<open>The assertions of \<open>check_page\<close>, on the kernel's page directory.\<close>

definition maps_to :: "pmem \<Rightarrow> w32 \<Rightarrow> w32 \<Rightarrow> unit option" where
  "maps_to s va pa = do { x \<leftarrow> check_va2pa s (kern_pgdir s) va; check (x = pa) }"

definition insert_ok :: "pmem \<Rightarrow> nat \<Rightarrow> w32 \<Rightarrow> w32 \<Rightarrow> pmem option" where
  "insert_ok s p va perm = do { (s, r) \<leftarrow> page_insert s (kern_pgdir s) p va perm; _ \<leftarrow> check (r = 0); Some s }"

definition insert_fails :: "pmem \<Rightarrow> nat \<Rightarrow> w32 \<Rightarrow> w32 \<Rightarrow> pmem option" where
  "insert_fails s p va perm = do { (s, r) \<leftarrow> page_insert s (kern_pgdir s) p va perm; _ \<leftarrow> check (r < 0); Some s }"

text \<open>\<open>*pgdir_walk(kern_pgdir, va, 0)\<close>, read and written.\<close>

definition walk_entry :: "pmem \<Rightarrow> w32 \<Rightarrow> (nat \<times> nat) option" where
  "walk_entry s va = do { (_, pte) \<leftarrow> pgdir_walk s (kern_pgdir s) va False; pte }"

definition entry_word :: "pmem \<Rightarrow> w32 \<Rightarrow> w32 option" where
  "entry_word s va = do { (t, i) \<leftarrow> walk_entry s va; Some (phys s t i) }"

definition clear_entry :: "pmem \<Rightarrow> w32 \<Rightarrow> pmem option" where
  "clear_entry s va = do { (t, i) \<leftarrow> walk_entry s va; Some (store_word s t i 0) }"

text \<open>The entry that \<open>pgdir_walk\<close> found lies in the table that the page directory names.\<close>

definition walk_agrees :: "pmem \<Rightarrow> w32 \<Rightarrow> nat \<times> nat \<Rightarrow> unit option" where
  "walk_agrees s va pte = do {
     _ \<leftarrow> KADDR (npages s) (PTE_ADDR (phys s (kern_pgdir s) (PDX va)));
     check (pte = (PGNUM (phys s (kern_pgdir s) (PDX va)), PTX va)) }"

definition set_ref :: "pmem \<Rightarrow> nat \<Rightarrow> w16 \<Rightarrow> pmem" where
  "set_ref s p r = s\<lparr>pp_ref := (pp_ref s)(p := r)\<rparr>"

text \<open>From the start to the mapping of the second page at \<open>PGSIZE\<close>.\<close>

definition check_insert :: "pmem \<Rightarrow> nat \<Rightarrow> nat \<Rightarrow> nat \<Rightarrow> pmem option" where
  "check_insert s p0 p1 p2 = do {
     s \<leftarrow> must_be_full s;
     found \<leftarrow> page_lookup s (kern_pgdir s) 0;
     _ \<leftarrow> check (found = None);
     s \<leftarrow> insert_fails s p1 0 PTE_W;
     s \<leftarrow> page_free s p0;
     s \<leftarrow> insert_ok s p1 0 PTE_W;
     _ \<leftarrow> check (PTE_ADDR (phys s (kern_pgdir s) 0) = page2pa p0);
     _ \<leftarrow> maps_to s 0 (page2pa p1);
     _ \<leftarrow> check (pp_ref s p1 = 1);
     _ \<leftarrow> check (pp_ref s p0 = 1);
     s \<leftarrow> insert_ok s p2 PGSIZE PTE_W;
     _ \<leftarrow> maps_to s PGSIZE (page2pa p2);
     _ \<leftarrow> check (pp_ref s p2 = 1);
     must_be_full s
   }"

text \<open>Mapping it again with other permissions.\<close>

definition check_permissions :: "pmem \<Rightarrow> nat \<Rightarrow> nat \<Rightarrow> nat \<Rightarrow> pmem option" where
  "check_permissions s p0 p1 p2 = do {
     s \<leftarrow> insert_ok s p2 PGSIZE PTE_W;
     _ \<leftarrow> maps_to s PGSIZE (page2pa p2);
     _ \<leftarrow> check (pp_ref s p2 = 1);
     s \<leftarrow> must_be_full s;
     pte \<leftarrow> walk_entry s PGSIZE;
     _ \<leftarrow> walk_agrees s PGSIZE pte;
     s \<leftarrow> insert_ok s p2 PGSIZE (PTE_W OR PTE_U);
     _ \<leftarrow> maps_to s PGSIZE (page2pa p2);
     _ \<leftarrow> check (pp_ref s p2 = 1);
     e \<leftarrow> entry_word s PGSIZE;
     _ \<leftarrow> check (e AND PTE_U \<noteq> 0);
     _ \<leftarrow> check (phys s (kern_pgdir s) 0 AND PTE_U \<noteq> 0);
     s \<leftarrow> insert_ok s p2 PGSIZE PTE_W;
     e \<leftarrow> entry_word s PGSIZE;
     _ \<leftarrow> check (e AND PTE_W \<noteq> 0);
     _ \<leftarrow> check (e AND PTE_U = 0);
     insert_fails s p0 PTSIZE PTE_W
   }"

text \<open>Two mappings of one page, and their removal.\<close>

definition check_replace :: "pmem \<Rightarrow> nat \<Rightarrow> nat \<Rightarrow> nat \<Rightarrow> pmem option" where
  "check_replace s p0 p1 p2 = do {
     s \<leftarrow> insert_ok s p1 PGSIZE PTE_W;
     e \<leftarrow> entry_word s PGSIZE;
     _ \<leftarrow> check (e AND PTE_U = 0);
     _ \<leftarrow> maps_to s 0 (page2pa p1);
     _ \<leftarrow> maps_to s PGSIZE (page2pa p1);
     _ \<leftarrow> check (pp_ref s p1 = 2);
     _ \<leftarrow> check (pp_ref s p2 = 0);
     (s, p) \<leftarrow> must_alloc False s;
     _ \<leftarrow> check (p = p2);
     s \<leftarrow> page_remove s (kern_pgdir s) 0;
     _ \<leftarrow> maps_to s 0 (- 1);
     _ \<leftarrow> maps_to s PGSIZE (page2pa p1);
     _ \<leftarrow> check (pp_ref s p1 = 1);
     _ \<leftarrow> check (pp_ref s p2 = 0);
     s \<leftarrow> insert_ok s p1 PGSIZE 0;
     _ \<leftarrow> check (pp_ref s p1 \<noteq> 0);
     _ \<leftarrow> check (pp_link s p1 = None);
     s \<leftarrow> page_remove s (kern_pgdir s) PGSIZE;
     _ \<leftarrow> maps_to s 0 (- 1);
     _ \<leftarrow> maps_to s PGSIZE (- 1);
     _ \<leftarrow> check (pp_ref s p1 = 0);
     _ \<leftarrow> check (pp_ref s p2 = 0);
     (s, p) \<leftarrow> must_alloc False s;
     _ \<leftarrow> check (p = p1);
     must_be_full s
   }"

text \<open>The table taken back, and new tables.\<close>

definition check_tables :: "pmem \<Rightarrow> nat \<Rightarrow> pmem option" where
  "check_tables s p0 = do {
     _ \<leftarrow> check (PTE_ADDR (phys s (kern_pgdir s) 0) = page2pa p0);
     let s = store_word s (kern_pgdir s) 0 0;
     _ \<leftarrow> check (pp_ref s p0 = 1);
     let s = set_ref s p0 0;
     s \<leftarrow> page_free s p0;
     let va = PGSIZE * 1024 + PGSIZE;
     (s, pte) \<leftarrow> pgdir_walk s (kern_pgdir s) va True;
     pte \<leftarrow> pte;
     _ \<leftarrow> walk_agrees s va pte;
     let s = set_ref (store_word s (kern_pgdir s) (PDX va) 0) p0 0;
     s \<leftarrow> fill_frame s p0 1024 0xFFFFFFFF;
     s \<leftarrow> page_free s p0;
     (s, _) \<leftarrow> pgdir_walk s (kern_pgdir s) 0 True;
     _ \<leftarrow> page2kva s p0;
     _ \<leftarrow> check (list_all (\<lambda>i. phys s p0 i AND PTE_P = 0) [0..<1024]);
     Some (set_ref (store_word s (kern_pgdir s) 0 0) p0 0)
   }"

definition check_mmio :: "pmem \<Rightarrow> pmem option" where
  "check_mmio s = do {
     (s, mm1) \<leftarrow> mmio_map_region s 0 4097;
     (s, mm2) \<leftarrow> mmio_map_region s 0 4096;
     _ \<leftarrow> check (MMIOBASE \<le> mm1 \<and> mm1 + 8096 < MMIOLIM);
     _ \<leftarrow> check (MMIOBASE \<le> mm2 \<and> mm2 + 8096 < MMIOLIM);
     _ \<leftarrow> check (mm1 mod PGSIZE = 0 \<and> mm2 mod PGSIZE = 0);
     _ \<leftarrow> check (mm1 + 8096 \<le> mm2);
     _ \<leftarrow> maps_to s mm1 0;
     _ \<leftarrow> maps_to s (mm1 + PGSIZE) PGSIZE;
     _ \<leftarrow> maps_to s mm2 0;
     _ \<leftarrow> maps_to s (mm2 + PGSIZE) (- 1);
     e \<leftarrow> entry_word s mm1;
     _ \<leftarrow> check (e AND (PTE_W OR PTE_PWT OR PTE_PCD) \<noteq> 0);
     _ \<leftarrow> check (e AND PTE_U = 0);
     s \<leftarrow> clear_entry s mm1;
     s \<leftarrow> clear_entry s (mm1 + PGSIZE);
     clear_entry s mm2
   }"

definition check_page :: "pmem \<Rightarrow> pmem option" where
  "check_page s = do {
     (s, p0, p1, p2) \<leftarrow> alloc_three s;
     let fl = page_free_list s;
     let s = s\<lparr>page_free_list := None\<rparr>;
     s \<leftarrow> check_insert s p0 p1 p2;
     s \<leftarrow> check_permissions s p0 p1 p2;
     s \<leftarrow> check_replace s p0 p1 p2;
     s \<leftarrow> check_tables s p0;
     let s = s\<lparr>page_free_list := fl\<rparr>;
     s \<leftarrow> free_three s p0 p1 p2;
     check_mmio s
   }"

subsection \<open>The kernel's address space\<close>

definition sizeof_PageInfo :: nat where "sizeof_PageInfo = 8"
definition sizeof_Env :: nat where "sizeof_Env = 132"
definition NENV_words :: w32 where "NENV_words = 1024 * word_of_nat sizeof_Env"

text \<open>\<open>for (i = 0; i < n; i += PGSIZE) assert(check_va2pa(pgdir, va + i) == pa + i)\<close>, over the numbers of the pages.\<close>

definition region_maps :: "pmem \<Rightarrow> w32 \<Rightarrow> w32 \<Rightarrow> w32 \<Rightarrow> unit option" where
  "region_maps s va n pa = (let page = (\<lambda>k. PGSIZE * word_of_nat k) in
     if list_all (\<lambda>k. maps_to s (va + page k) (pa + page k) = Some ()) [0..<(unat n + 4095) div 4096]
     then Some () else None)"

definition region_unmapped :: "pmem \<Rightarrow> w32 \<Rightarrow> w32 \<Rightarrow> unit option" where
  "region_unmapped s va n =
     (if list_all (\<lambda>k. maps_to s (va + PGSIZE * word_of_nat k) (- 1) = Some ()) [0..<(unat n + 4095) div 4096]
      then Some () else None)"

fun check_stacks :: "nat list \<Rightarrow> (nat \<Rightarrow> w32) \<Rightarrow> pmem \<Rightarrow> unit option" where
  "check_stacks [] stacks s = Some ()"
| "check_stacks (n # ns) stacks s = do {
     let base = KSTACKTOP - (KSTKSIZE + KSTKGAP) * word_of_nat (n + 1);
     pa \<leftarrow> PADDR (stacks n);
     _ \<leftarrow> region_maps s (base + KSTKGAP) KSTKSIZE pa;
     _ \<leftarrow> region_unmapped s base KSTKGAP;
     check_stacks ns stacks s
   }"

definition pde_ok :: "pmem \<Rightarrow> nat \<Rightarrow> bool" where
  "pde_ok s i =
     (let pde = phys s (kern_pgdir s) i in
      if i \<in> {PDX UVPT, PDX (KSTACKTOP - 1), PDX UPAGES, PDX UENVS, PDX MMIOBASE} then pde AND PTE_P \<noteq> 0
      else if PDX KERNBASE \<le> i then pde AND PTE_P \<noteq> 0 \<and> pde AND PTE_W \<noteq> 0
      else pde = 0)"

definition check_kern_pgdir :: "w32 \<Rightarrow> w32 \<Rightarrow> (nat \<Rightarrow> w32) \<Rightarrow> pmem \<Rightarrow> unit option" where
  "check_kern_pgdir pages_va envs_va stacks s = do {
     pages_pa \<leftarrow> PADDR pages_va;
     _ \<leftarrow> region_maps s UPAGES (ROUNDUP (word_of_nat (npages s * sizeof_PageInfo)) PGSIZE) pages_pa;
     envs_pa \<leftarrow> PADDR envs_va;
     _ \<leftarrow> region_maps s UENVS (ROUNDUP NENV_words PGSIZE) envs_pa;
     _ \<leftarrow> region_maps s KERNBASE (word_of_nat (npages s) * PGSIZE) 0;
     _ \<leftarrow> check_stacks [0..<NCPU] stacks s;
     check (list_all (pde_ok s) [0..<1024])
   }"

text \<open>A word of memory as the kernel accesses it.\<close>

definition kernel_word :: "pmem \<Rightarrow> w32 \<Rightarrow> (nat \<times> nat) option" where
  "kernel_word s va =
     (let pde = phys s (kern_pgdir s) (PDX va); e = phys s (PGNUM pde) (PTX va) in
      if pde AND PTE_P = 0 \<or> e AND PTE_P = 0 then None else Some (PGNUM e, unat (va AND 0xFFF) div 4))"

definition load_kernel_word :: "pmem \<Rightarrow> w32 \<Rightarrow> w32 option" where
  "load_kernel_word s va = do { (p, i) \<leftarrow> kernel_word s va; Some (phys s p i) }"

text \<open>The results of the two first insertions are not looked at.\<close>

definition check_page_installed_pgdir :: "pmem \<Rightarrow> pmem option" where
  "check_page_installed_pgdir s = do {
     (s, p0) \<leftarrow> must_alloc False s;
     (s, p1) \<leftarrow> must_alloc False s;
     (s, p2) \<leftarrow> must_alloc False s;
     s \<leftarrow> page_free s p0;
     s \<leftarrow> fill_frame s p1 1024 0x01010101;
     s \<leftarrow> fill_frame s p2 1024 0x02020202;
     (s, _) \<leftarrow> page_insert s (kern_pgdir s) p1 PGSIZE PTE_W;
     _ \<leftarrow> check (pp_ref s p1 = 1);
     w \<leftarrow> load_kernel_word s PGSIZE;
     _ \<leftarrow> check (w = 0x01010101);
     (s, _) \<leftarrow> page_insert s (kern_pgdir s) p2 PGSIZE PTE_W;
     w \<leftarrow> load_kernel_word s PGSIZE;
     _ \<leftarrow> check (w = 0x02020202);
     _ \<leftarrow> check (pp_ref s p2 = 1);
     _ \<leftarrow> check (pp_ref s p1 = 0);
     (p, i) \<leftarrow> kernel_word s PGSIZE;
     let s = store_word s p i 0x03030303;
     _ \<leftarrow> page2kva s p2;
     _ \<leftarrow> check (phys s p2 0 = 0x03030303);
     s \<leftarrow> page_remove s (kern_pgdir s) PGSIZE;
     _ \<leftarrow> check (pp_ref s p2 = 0);
     _ \<leftarrow> check (PTE_ADDR (phys s (kern_pgdir s) 0) = page2pa p0);
     let s = store_word s (kern_pgdir s) 0 0;
     _ \<leftarrow> check (pp_ref s p0 = 1);
     page_free (set_ref s p0 0) p0
   }"

text \<open>
  \<open>mem_init\<close>: \<open>kend\<close> is the linker's \<open>end\<close> and \<open>stacks i\<close> the address of \<open>percpu_kstacks[i]\<close>. The result has the
  addresses of \<open>pages\<close> and \<open>envs\<close>. The frames of these two arrays are the fields \<open>pp_link\<close> and \<open>pp_ref\<close> and the
  environments of the model, so clearing them clears those. Loading \<open>cr3\<close> and \<open>cr0\<close> leaves the memory
  as it is.
\<close>

definition create_directory :: "nat \<Rightarrow> w32 \<Rightarrow> pmem \<Rightarrow> (pmem \<times> w32) option" where
  "create_directory np kend s = do {
     (dir, nextfree) \<leftarrow> boot_alloc np kend 0 PGSIZE;
     pa \<leftarrow> PADDR dir;
     let k = PGNUM pa;
     let s = s\<lparr>npages := np, kern_pgdir := k, phys := (phys s)(k := \<lambda>_. 0)\<rparr>;
     Some (store_word s k (PDX UVPT) (pa OR PTE_U OR PTE_P), nextfree)
   }"

definition map_kernel :: "w32 \<Rightarrow> w32 \<Rightarrow> (nat \<Rightarrow> w32) \<Rightarrow> pmem \<Rightarrow> pmem option" where
  "map_kernel pages_va envs_va stacks s = do {
     pages_pa \<leftarrow> PADDR pages_va;
     s \<leftarrow> boot_map_region s (kern_pgdir s) UPAGES (ROUNDUP (word_of_nat (npages s * sizeof_PageInfo)) PGSIZE)
       pages_pa (PTE_U OR PTE_P);
     envs_pa \<leftarrow> PADDR envs_va;
     s \<leftarrow> boot_map_region s (kern_pgdir s) UENVS (ROUNDUP NENV_words PGSIZE) envs_pa (PTE_U OR PTE_P);
     s \<leftarrow> boot_map_region s (kern_pgdir s) KERNBASE 0x10000000 0 (PTE_W OR PTE_P);
     mem_init_mp [0..<NCPU] stacks s
   }"

definition mem_init :: "(nat \<Rightarrow> w8) \<Rightarrow> w32 \<Rightarrow> (nat \<Rightarrow> w32) \<Rightarrow> pmem \<Rightarrow> (pmem \<times> w32 \<times> w32) option" where
  "mem_init nvram kend stacks s = do {
     let np = fst (i386_detect_memory nvram);
     (s, nextfree) \<leftarrow> create_directory np kend s;
     (pages_va, nextfree) \<leftarrow> boot_alloc np kend nextfree (word_of_nat (np * sizeof_PageInfo));
     let s = s\<lparr>pp_link := \<lambda>_. None, pp_ref := \<lambda>_. 0\<rparr>;
     (envs_va, nextfree) \<leftarrow> boot_alloc np kend nextfree NENV_words;
     (first_free, _) \<leftarrow> boot_alloc np kend nextfree 0;
     pa \<leftarrow> PADDR first_free;
     let s = page_init (PGNUM pa) s;
     s \<leftarrow> check_page_free_list kend nextfree True s;
     s \<leftarrow> check_page_alloc s;
     s \<leftarrow> check_page s;
     s \<leftarrow> map_kernel pages_va envs_va stacks s;
     _ \<leftarrow> check_kern_pgdir pages_va envs_va stacks s;
     s \<leftarrow> check_page_free_list kend nextfree False s;
     s \<leftarrow> check_page_installed_pgdir s;
     Some (s, pages_va, envs_va)
   }"

end
