(* ===== verification/KernDir.thy ===== *)
theory KernDir
  imports MemInit ForkPages
begin

unbundle bit_operations_syntax

text \<open>
  The kernel's page directory while it is built: all entries but the one of \<open>UVPT\<close> are empty or name
  a table of their own. The lemmas say what the operations of \<open>Pmap\<close> do to such a directory,
  for every address outside \<open>UVPT\<close>.
\<close>

definition table_entry :: "nat \<Rightarrow> w32" where "table_entry p = page2pa p OR PTE_P OR PTE_W OR PTE_U"

definition kern_va :: "w32 \<Rightarrow> bool" where "kern_va va \<longleftrightarrow> PDX va \<noteq> PDX UVPT"

definition ktabs :: "pmem \<Rightarrow> nat \<Rightarrow> nat set" where
  "ktabs s K = {d. d < 1024 \<and> d \<noteq> PDX UVPT \<and> phys s K d \<noteq> 0}"

text \<open>The frames of the firmware, of the devices and of the code for the other processors, which are never handed out.\<close>

definition fixed_frame :: "nat \<Rightarrow> bool" where
  "fixed_frame q \<longleftrightarrow> page_reserved (PGNUM EXTPHYSMEM) q"

definition kdir_ok :: "pmem \<Rightarrow> nat \<Rightarrow> bool" where
  "kdir_ok s K \<longleftrightarrow> pages_inv s \<and> npages s \<le> 2 ^ 20 \<and> K < npages s \<and> K \<notin> set (free_pages s) \<and> \<not> fixed_frame K \<and>
     (\<forall>p\<in>set (free_pages s). pp_ref s p = 0 \<and> \<not> fixed_frame p) \<and>
     (\<forall>d\<in>ktabs s K. phys s K d = table_entry (PGNUM (phys s K d)) \<and> PGNUM (phys s K d) < npages s \<and>
        PGNUM (phys s K d) \<notin> set (free_pages s) \<and> PGNUM (phys s K d) \<noteq> K \<and>
        \<not> fixed_frame (PGNUM (phys s K d))) \<and>
     inj_on (\<lambda>d. PGNUM (phys s K d)) (ktabs s K)"

lemma kdirD:
  assumes "kdir_ok s K"
  shows "pages_inv s" and "npages s \<le> 2 ^ 20" and "K < npages s" and "K \<notin> set (free_pages s)"
    and "p \<in> set (free_pages s) \<Longrightarrow> pp_ref s p = 0"
    and "d \<in> ktabs s K \<Longrightarrow> phys s K d = table_entry (PGNUM (phys s K d))"
    and "d \<in> ktabs s K \<Longrightarrow> PGNUM (phys s K d) < npages s"
    and "d \<in> ktabs s K \<Longrightarrow> PGNUM (phys s K d) \<notin> set (free_pages s)"
    and "d \<in> ktabs s K \<Longrightarrow> PGNUM (phys s K d) \<noteq> K"
    and "d \<in> ktabs s K \<Longrightarrow> d' \<in> ktabs s K \<Longrightarrow> PGNUM (phys s K d) = PGNUM (phys s K d') \<Longrightarrow> d = d'"
    and "\<not> fixed_frame K" and "p \<in> set (free_pages s) \<Longrightarrow> \<not> fixed_frame p"
    and "d \<in> ktabs s K \<Longrightarrow> \<not> fixed_frame (PGNUM (phys s K d))"
  using assms unfolding kdir_ok_def inj_on_def by blast+

lemma PDX_small: "PDX va < 1024"
proof -
  have "unat va < 2 ^ LENGTH(32)" by (rule unsigned_less)
  then show ?thesis by (simp add: PDX_unat)
qed

lemma PTX_small: "PTX va < 1024"
  by (simp add: PTX_unat)

lemma ktabs_iff: "PDX va \<in> ktabs s K \<longleftrightarrow> kern_va va \<and> phys s K (PDX va) \<noteq> 0"
  by (auto simp: ktabs_def kern_va_def PDX_small)

lemma table_entry_facts:
  assumes "p < 2 ^ 20"
  shows "PGNUM (table_entry p) = p" and "table_entry p \<noteq> 0" and "table_entry p AND PTE_P \<noteq> 0"
    and "table_entry p AND PTE_W \<noteq> 0" and "table_entry p AND PTE_U \<noteq> 0" and "table_entry p AND PTE_PS = 0"
proof -
  have "PGNUM (PTE_P OR PTE_W OR PTE_U) = 0" by (simp add: PGNUM_def PTE_P_def PTE_W_def PTE_U_def)
  from PGNUM_entry [OF assms this] show "PGNUM (table_entry p) = p" by (simp add: table_entry_def or.assoc)
  have bits: "bit (page2pa p) i = False" if "i < 12" for i using that by (simp add: page2pa_def bit_simps)
  show "table_entry p AND PTE_P \<noteq> 0" "table_entry p AND PTE_W \<noteq> 0" "table_entry p AND PTE_U \<noteq> 0"
    by (simp_all add: flag_bits table_entry_def bit_simps) (simp_all add: PTE_P_def PTE_W_def PTE_U_def bit_simps)
  then show "table_entry p \<noteq> 0" by auto
  have "table_entry p AND 2 ^ 7 = 0"
    unfolding and_single_bit by (simp add: table_entry_def bit_simps bits) (simp add: PTE_P_def PTE_W_def PTE_U_def bit_simps)
  then show "table_entry p AND PTE_PS = 0" by (simp add: PTE_PS_def)
qed

text \<open>The frames that are linked but not in the free list.\<close>

definition stray :: "pmem \<Rightarrow> nat set" where
  "stray s = {p. pp_link s p \<noteq> None} - set (free_pages s)"

lemma stray_update [simp]:
  "stray (s\<lparr>phys := f\<rparr>) = stray s" "stray (s\<lparr>pp_ref := r\<rparr>) = stray s" "stray (s\<lparr>mmio_base := b\<rparr>) = stray s"
  "stray (store_word s q i v) = stray s"
  by (simp_all add: stray_def free_pages_def store_word_def)

lemma strayI: "pp_link s' = pp_link s \<Longrightarrow> set (free_pages s) \<subseteq> set (free_pages s') \<Longrightarrow> stray s' \<subseteq> stray s"
  by (auto simp: stray_def)

text \<open>The parts of the state that mapping leaves alone; no frame outside of the free list becomes linked, and the fixed
  frames keep their contents.\<close>

definition same_setup :: "pmem \<Rightarrow> pmem \<Rightarrow> bool" where
  "same_setup s s' \<longleftrightarrow> npages s' = npages s \<and> kern_pgdir s' = kern_pgdir s \<and> mmio_base s' = mmio_base s \<and> stray s' \<subseteq> stray s \<and>
     (\<forall>q. fixed_frame q \<longrightarrow> phys s' q = phys s q)"

lemma same_setupD [dest]:
  "same_setup s s' \<Longrightarrow> npages s' = npages s" "same_setup s s' \<Longrightarrow> kern_pgdir s' = kern_pgdir s"
  "same_setup s s' \<Longrightarrow> mmio_base s' = mmio_base s"
  by (simp_all add: same_setup_def)

lemma same_setup_stray: "same_setup s s' \<Longrightarrow> stray s' \<subseteq> stray s"
  by (simp add: same_setup_def)

lemma same_setup_fixed: "same_setup s s' \<Longrightarrow> fixed_frame q \<Longrightarrow> phys s' q = phys s q"
  by (simp add: same_setup_def)

lemma same_setup_store [simp]: "\<not> fixed_frame p \<Longrightarrow> same_setup s (store_word s' p i v) = same_setup s s'"
  by (auto simp: same_setup_def store_word_def)

lemma same_setup_refl [simp]: "same_setup s s" by (simp add: same_setup_def)

lemma same_setup_trans [trans]: "same_setup a b \<Longrightarrow> same_setup b c \<Longrightarrow> same_setup a c"
  unfolding same_setup_def by (intro conjI) (simp_all, blast)

lemma table_not_fixed: "kdir_ok s K \<Longrightarrow> kern_va va \<Longrightarrow> phys s K (PDX va) \<noteq> 0 \<Longrightarrow> \<not> fixed_frame (PGNUM (phys s K (PDX va)))"
  by (simp add: kdirD(13) ktabs_iff)

subsection \<open>Walking\<close>

lemma pa2page_small: "PGNUM e < npages s \<Longrightarrow> pa2page s (PTE_ADDR e) = Some (PGNUM e)"
  by (simp add: pa2page_def)

lemma kwalk_present:
  assumes "kdir_ok s K" and "kern_va va" and "phys s K (PDX va) \<noteq> 0"
  shows "pgdir_walk s K va c = Some (s, Some (PGNUM (phys s K (PDX va)), PTX va))"
  using assms kdirD(7) [OF assms(1)] ktabs_iff [of va s K] by (simp add: pgdir_walk_def pa2page_small Let_def)

lemma kwalk_absent:
  assumes "phys s K (PDX va) = 0" and "\<not> c \<or> page_free_list s = None"
  shows "pgdir_walk s K va c = Some (s, None)"
  using assms by (auto simp: pgdir_walk_def page_alloc_def Let_def)

lemma ktabs_cong: "phys s' K = phys s K \<Longrightarrow> ktabs s' K = ktabs s K" by (simp add: ktabs_def)

text \<open>Frames that are neither the directory nor a table may change.\<close>

lemma kdir_frames:
  assumes ok: "kdir_ok s K" and same: "phys s' K = phys s K" "\<And>d. d \<in> ktabs s K \<Longrightarrow> phys s' (PGNUM (phys s K d)) = phys s (PGNUM (phys s K d))"
  shows "kern_va va \<Longrightarrow> pte_at s' K va = pte_at s K va"
  using same ktabs_iff [of va s K] by (auto simp: pte_at_def Let_def)

lemma kdir_free_list:
  assumes ok: "kdir_ok s K" and "phys s' K = phys s K" "npages s' = npages s"
    and "pages_inv s'" and "\<And>p. p \<in> set (free_pages s') \<Longrightarrow> pp_ref s' p = 0 \<and> \<not> fixed_frame p \<and> p \<noteq> K \<and> (\<forall>d\<in>ktabs s K. PGNUM (phys s K d) \<noteq> p)"
  shows "kdir_ok s' K"
proof -
  have "\<forall>d\<in>ktabs s K. PGNUM (phys s K d) \<notin> set (free_pages s')" "K \<notin> set (free_pages s')"
    using assms(5) by blast+
  moreover have "\<forall>p\<in>set (free_pages s'). pp_ref s' p = 0 \<and> \<not> fixed_frame p" using assms(5) by blast
  ultimately show ?thesis
    using ok assms(4) unfolding kdir_ok_def ktabs_cong [OF assms(2)] assms(2,3) by simp
qed

lemma kdir_alloc:
  assumes ok: "kdir_ok s K" and free: "free_pages s = p # ps"
  obtains s' where "page_alloc s z = (s', Some p)" and "kdir_ok s' K" and "free_pages s' = ps" and "same_setup s s'"
    and "pp_ref s' = pp_ref s" and "pp_link s' = (pp_link s)(p := None)"
    and "phys s' = (if z then (phys s)(p := \<lambda>_. 0) else phys s)"
    and "\<And>va. kern_va va \<Longrightarrow> pte_at s' K va = pte_at s K va"
proof -
  from page_alloc_Cons [OF kdirD(1) [OF ok] free, of z] obtain s' where
    s': "page_alloc s z = (s', Some p)" "pages_inv s'" "free_pages s' = ps" by blast
  then have sel: "npages s' = npages s" "kern_pgdir s' = kern_pgdir s" "mmio_base s' = mmio_base s"
    "pp_ref s' = pp_ref s" "pp_link s' = (pp_link s)(p := None)"
    "phys s' = (if z then (phys s)(p := \<lambda>_. 0) else phys s)"
    by (auto simp: page_alloc_def Let_def split: option.splits)
  have "stray s' \<subseteq> stray s" using sel(5) s'(3) free by (auto simp: stray_def)
  moreover have "\<not> fixed_frame p" using kdirD(12) [OF ok] free by simp
  ultimately have su: "same_setup s s'" using sel(1-3,6) by (auto simp: same_setup_def)
  have K: "K \<noteq> p" using kdirD(4) [OF ok] free by auto
  have T: "PGNUM (phys s K d) \<noteq> p" if "d \<in> ktabs s K" for d using kdirD(8) [OF ok that] free by auto
  have "kdir_ok s' K"
  proof (rule kdir_free_list [OF ok])
    fix q assume "q \<in> set (free_pages s')"
    then have "q \<in> set (free_pages s)" using s'(3) free by simp
    then show "pp_ref s' q = 0 \<and> \<not> fixed_frame q \<and> q \<noteq> K \<and> (\<forall>d\<in>ktabs s K. PGNUM (phys s K d) \<noteq> q)"
      using kdirD(4,5,8,12) [OF ok] sel(4) by auto
  qed (use sel K s' in \<open>auto simp: same_setup_def\<close>)
  moreover have "pte_at s' K va = pte_at s K va" if "kern_va va" for va
    by (rule kdir_frames [OF ok _ _ that]) (use K T sel(6) in auto)
  ultimately show thesis using that s' sel(4-6) su by blast
qed

text \<open>A new page table for the address.\<close>

lemma kwalk_new:
  assumes ok: "kdir_ok s K" and va: "kern_va va" and none: "phys s K (PDX va) = 0" and free: "free_pages s = p # ps"
  obtains s' where "pgdir_walk s K va True = Some (s', Some (p, PTX va))" and "kdir_ok s' K" and "free_pages s' = ps"
    and "same_setup s s'" and "pp_ref s' = (pp_ref s)(p := 1)" and "pp_link s' = (pp_link s)(p := None)"
    and "phys s' = (phys s)(p := \<lambda>_. 0, K := (phys s K)(PDX va := table_entry p))"
    and "\<And>va. kern_va va \<Longrightarrow> pte_at s' K va = pte_at s K va" and "p < npages s" and "p \<noteq> K"
proof -
  obtain s1 where s1: "page_alloc s True = (s1, Some p)" "kdir_ok s1 K" "free_pages s1 = ps" "same_setup s s1"
    "pp_ref s1 = pp_ref s" "pp_link s1 = (pp_link s)(p := None)" "phys s1 = (phys s)(p := \<lambda>_. 0)"
    "\<And>va. kern_va va \<Longrightarrow> pte_at s1 K va = pte_at s K va"
    using kdir_alloc [OF ok free, of True] by (metis (full_types))
  let ?s = "store_word (s1\<lparr>pp_ref := (pp_ref s1)(p := pp_ref s1 p + 1)\<rparr>) K (PDX va) (table_entry p)"
  have p: "p < npages s" "p \<notin> set ps" "p \<noteq> K"
    using free_chainD(2,3) [OF kdirD(1) [OF ok, unfolded pages_inv_def]] kdirD(4) [OF ok] free
    by (auto simp: free_pages_def)
  have small: "p < 2 ^ 20" using p(1) kdirD(2) [OF ok] by simp
  note e = table_entry_facts [OF small]
  have ref: "pp_ref s p = 0" using kdirD(5) [OF ok] free by simp
  have inv: "pages_inv ?s" "free_pages ?s = ps"
    using kdirD(1) [OF s1(2)] s1(3) by (simp_all add: pages_inv_def free_pages_def store_word_def)
  have physK: "phys ?s K = (phys s K)(PDX va := table_entry p)" using s1(7) p(3) by (simp add: store_word_def)
  have d: "PDX va < 1024" "PDX va \<noteq> PDX UVPT" using va PDX_small by (simp_all add: kern_va_def)
  have tabs: "ktabs ?s K = insert (PDX va) (ktabs s K)"
    unfolding ktabs_def physK using d e(2) by auto
  have old: "PDX va \<notin> ktabs s K" using none by (simp add: ktabs_def)
  have T: "PGNUM (phys s K x) \<noteq> p" if "x \<in> ktabs s K" for x using kdirD(8) [OF ok that] free by auto
  have run: "pgdir_walk s K va True = Some (?s, Some (p, PTX va))"
  proof -
    have "npages s1 = npages s" using s1(4) by auto
    then show ?thesis
      using none s1(1,7) e(1,2) p(1,3) by (simp add: pgdir_walk_def pa2page_small Let_def store_word_def table_entry_def)
  qed
  have "kdir_ok ?s K"
    unfolding kdir_ok_def tabs inv(2) physK
  proof (intro conjI ballI)
    show "pages_inv ?s" by (rule inv(1))
    show "npages ?s \<le> 2 ^ 20" "K < npages ?s" "K \<notin> set ps" "\<not> fixed_frame K"
      using kdirD(2-4,11) [OF s1(2)] s1(3) by (simp_all add: store_word_def)
    show "\<not> fixed_frame q" if "q \<in> set ps" for q using that kdirD(12) [OF s1(2)] s1(3) by simp
    show "pp_ref ?s q = 0" if "q \<in> set ps" for q
      using that p(2) kdirD(5) [OF s1(2)] s1(3) by (auto simp: store_word_def)
    have np: "npages ?s = npages s" using s1(4) by (auto simp: store_word_def)
    fix x assume "x \<in> insert (PDX va) (ktabs s K)"
    then show "((phys s K)(PDX va := table_entry p)) x = table_entry (PGNUM (((phys s K)(PDX va := table_entry p)) x))"
      "PGNUM (((phys s K)(PDX va := table_entry p)) x) < npages ?s"
      "PGNUM (((phys s K)(PDX va := table_entry p)) x) \<notin> set ps"
      "PGNUM (((phys s K)(PDX va := table_entry p)) x) \<noteq> K"
      "\<not> fixed_frame (PGNUM (((phys s K)(PDX va := table_entry p)) x))"
      unfolding np using old e(1) p kdirD(6-9,13) [OF ok, of x] kdirD(12) [OF ok, of p] free by auto
  next
    show "inj_on (\<lambda>x. PGNUM (((phys s K)(PDX va := table_entry p)) x)) (insert (PDX va) (ktabs s K))"
      using old e(1) T kdirD(10) [OF ok] by (auto simp: inj_on_def)
  qed
  moreover have "pte_at ?s K va' = pte_at s K va'" if "kern_va va'" for va'
  proof (cases "PDX va' = PDX va")
    case True
    then show ?thesis using none e(1,2) s1(7) p(3) by (simp add: pte_at_def physK) (simp add: store_word_def)
  next
    case False
    then show ?thesis
      using T [of "PDX va'"] that kdirD(9) [OF ok, of "PDX va'"] s1(7) p(3) by (auto simp: pte_at_def physK ktabs_iff Let_def store_word_def)
  qed
  moreover have "same_setup s ?s" using s1(4) kdirD(11) [OF ok] by (auto simp: same_setup_def store_word_def)
  moreover have "pp_ref ?s = (pp_ref s)(p := 1)" "pp_link ?s = (pp_link s)(p := None)"
    "phys ?s = (phys s)(p := \<lambda>_. 0, K := (phys s K)(PDX va := table_entry p))"
    using s1(5-7) ref p(3) by (simp_all add: store_word_def)
  ultimately show thesis using that run inv(2) p(1,3) by blast
qed

subsection \<open>Storing, freeing\<close>

lemma kdir_store:
  assumes ok: "kdir_ok s K" and va: "kern_va va" and t: "phys s K (PDX va) \<noteq> 0"
  shows "kdir_ok (store_word s (PGNUM (phys s K (PDX va))) (PTX va) v) K"
    and "kern_va va' \<Longrightarrow> pte_at (store_word s (PGNUM (phys s K (PDX va))) (PTX va) v) K va' =
      (if same_page va va' then v else pte_at s K va')"
proof -
  let ?t = "PGNUM (phys s K (PDX va))"
  let ?s = "store_word s ?t (PTX va) v"
  have d: "PDX va \<in> ktabs s K" using va t by (simp add: ktabs_iff)
  have K: "?t \<noteq> K" by (rule kdirD(9) [OF ok d])
  then have physK: "phys ?s K = phys s K" by (simp add: store_word_def)
  have inv: "pages_inv ?s" "free_pages ?s = free_pages s"
    using kdirD(1) [OF ok] by (simp_all add: pages_inv_def free_pages_def store_word_def)
  show "kdir_ok ?s K"
    by (rule kdir_free_list [OF ok physK])
      (use inv kdirD(4,5,8,12) [OF ok] in \<open>auto simp: store_word_def\<close>)
  assume va': "kern_va va'"
  have "PGNUM (phys s K (PDX va')) = ?t \<longleftrightarrow> PDX va' = PDX va" if "phys s K (PDX va') \<noteq> 0"
    using kdirD(10) [OF ok, of "PDX va'" "PDX va"] d that va' by (auto simp: ktabs_iff)
  then show "pte_at ?s K va' = (if same_page va va' then v else pte_at s K va')"
    using t K by (auto simp: pte_at_def physK same_page_def Let_def store_word_def)
qed

lemma kdir_page_free:
  assumes ok: "kdir_ok s K" and p: "p < npages s" "pp_ref s p = 0" "pp_link s p = None" "p \<notin> set (free_pages s)"
    and K: "p \<noteq> K" "\<not> fixed_frame p" and T: "\<And>d. d \<in> ktabs s K \<Longrightarrow> PGNUM (phys s K d) \<noteq> p"
  obtains s' where "page_free s p = Some s'" and "kdir_ok s' K" and "free_pages s' = p # free_pages s"
    and "same_setup s s'" and "pp_ref s' = pp_ref s" and "phys s' = phys s"
    and "pp_link s' = (pp_link s)(p := page_free_list s)"
proof -
  have "page_releasable s p" using p by (simp add: page_releasable_def)
  from page_free_ok [OF kdirD(1) [OF ok] this p(4)] obtain s' where
    s': "page_free s p = Some s'" "pages_inv s'" "free_pages s' = p # free_pages s" by blast
  then have same: "npages s' = npages s" "kern_pgdir s' = kern_pgdir s" "mmio_base s' = mmio_base s"
    and sel: "pp_ref s' = pp_ref s" "phys s' = phys s" "pp_link s' = (pp_link s)(p := page_free_list s)"
    using p by (auto simp: page_free_def)
  have "stray s' \<subseteq> stray s" using sel(3) s'(3) by (auto simp: stray_def)
  then have su: "same_setup s s'" using same sel(2) by (simp add: same_setup_def)
  have "kdir_ok s' K"
    by (rule kdir_free_list [OF ok])
      (use sel same s' K T p(2) kdirD(4,5,8,12) [OF ok] in \<open>auto simp: same_setup_def\<close>)
  then show thesis using that s' sel su by blast
qed

lemma table_frames_differ:
  assumes "kdir_ok s K" and "p \<in> set (free_pages s)"
  shows "p \<noteq> K" and "d \<in> ktabs s K \<Longrightarrow> PGNUM (phys s K d) \<noteq> p" and "p < npages s" and "\<not> fixed_frame p"
  using kdirD(4,8,12) [OF assms(1)] assms free_chainD(3) [of "pp_link s" "page_free_list s" "npages s"] kdirD(1) [OF assms(1)]
  by (auto simp: pages_inv_def free_pages_def)

lemma klookup:
  assumes ok: "kdir_ok s K" and va: "kern_va va"
    and n: "npages s' = npages s" "phys s' = phys s"
    and frame: "pte_at s K va \<noteq> 0 \<Longrightarrow> PGNUM (pte_at s K va) < npages s"
  shows "page_lookup s' K va = Some (if pte_at s K va = 0 then None
           else Some (PGNUM (pte_at s K va), PGNUM (phys s K (PDX va)), PTX va))"
proof (cases "phys s K (PDX va) = 0")
  case True
  then show ?thesis by (simp add: page_lookup_def pgdir_walk_def pte_at_def n)
next
  case False
  have "PGNUM (phys s K (PDX va)) < npages s" using kdirD(7) [OF ok] False va by (simp add: ktabs_iff)
  then show ?thesis
    using False frame by (cases "pte_at s K va = 0") (simp_all add: page_lookup_def pgdir_walk_def pte_at_def pa2page_def n Let_def)
qed

subsection \<open>Regions\<close>

lemma same_page_PGNUM: "same_page va va' \<longleftrightarrow> PGNUM va = PGNUM va'"
proof -
  have "PDX x = PGNUM x div 1024" "PTX x = PGNUM x mod 1024" for x
    by (simp_all add: PDX_unat PTX_unat PGNUM_div div_mult2_eq [symmetric])
  then show ?thesis unfolding same_page_def by (metis div_mult_mod_eq)
qed

lemma page_addr_add: "page_addr v + PGSIZE * word_of_nat k = page_addr (v + k)"
  by (simp add: page_addr_def PGSIZE_def push_bit_eq_mult algebra_simps)

lemma PGNUM_page_addr: "n < 1048576 \<Longrightarrow> PGNUM (page_addr n) = n"
  by (simp add: PGNUM_div unat_page_addr)

text \<open>
  \<open>boot_map_region\<close> over pages that are not mapped: one new table for each directory entry of the
  region that is still empty.
\<close>

definition new_tables :: "pmem \<Rightarrow> nat \<Rightarrow> nat set \<Rightarrow> nat set" where
  "new_tables s K D = {d\<in>D. phys s K d = 0}"

definition mapped_region :: "pmem \<Rightarrow> pmem \<Rightarrow> nat \<Rightarrow> nat \<Rightarrow> nat set \<Rightarrow> w32 \<Rightarrow> w32 \<Rightarrow> bool" where
  "mapped_region s s' K v A pa perm \<longleftrightarrow> kdir_ok s' K \<and> same_setup s s' \<and>
     free_pages s' = drop (card (new_tables s K ((\<lambda>k. (v + k) div 1024) ` A))) (free_pages s) \<and>
     (\<forall>d. phys s' K d \<noteq> 0 \<longleftrightarrow> phys s K d \<noteq> 0 \<or> d \<in> (\<lambda>k. (v + k) div 1024) ` A) \<and>
     (\<forall>d. phys s K d \<noteq> 0 \<longrightarrow> phys s' K d = phys s K d) \<and>
     (\<forall>va. kern_va va \<longrightarrow> pte_at s' K va =
        (if PGNUM va \<in> (\<lambda>k. v + k) ` A then (pa + PGSIZE * word_of_nat (PGNUM va - v)) OR perm OR PTE_P
         else pte_at s K va))"

lemma mapped_regionD:
  assumes "mapped_region s s' K v A pa perm"
  shows "kdir_ok s' K" and "same_setup s s'"
    and "free_pages s' = drop (card (new_tables s K ((\<lambda>k. (v + k) div 1024) ` A))) (free_pages s)"
    and "phys s' K d \<noteq> 0 \<longleftrightarrow> phys s K d \<noteq> 0 \<or> d \<in> (\<lambda>k. (v + k) div 1024) ` A"
    and "phys s K d \<noteq> 0 \<Longrightarrow> phys s' K d = phys s K d"
    and "kern_va va \<Longrightarrow> pte_at s' K va =
        (if PGNUM va \<in> (\<lambda>k. v + k) ` A then (pa + PGSIZE * word_of_nat (PGNUM va - v)) OR perm OR PTE_P
         else pte_at s K va)"
  using assms unfolding mapped_region_def by blast+

text \<open>One page.\<close>

lemma boot_map_step:
  assumes ok: "kdir_ok s K" and n: "v + k < 1048576" and va: "kern_va (page_addr (v + k))"
    and none: "pte_at s K (page_addr (v + k)) = 0"
    and room: "phys s K ((v + k) div 1024) = 0 \<Longrightarrow> free_pages s \<noteq> []"
  obtains s1 where "\<And>ks. boot_map_loop (k # ks) s K (page_addr v) pa perm = boot_map_loop ks s1 K (page_addr v) pa perm"
    and "mapped_region s s1 K v {k} pa perm"
proof -
  note result = that
  let ?va = "page_addr (v + k)" and ?e = "(pa + PGSIZE * word_of_nat k) OR perm OR PTE_P"
  have ix: "PDX ?va = (v + k) div 1024" "PGNUM ?va = v + k"
    using n by (simp_all add: page_addr_index PGNUM_page_addr)
  have finish: thesis
    if w: "pgdir_walk s K ?va True = Some (s0, Some (PGNUM (phys s0 K (PDX ?va)), PTX ?va))"
      and ok0: "kdir_ok s0 K" and ne: "phys s0 K (PDX ?va) \<noteq> 0" and su: "same_setup s s0"
      and fr: "free_pages s0 = drop (card (new_tables s K {(v + k) div 1024})) (free_pages s)"
      and pde: "phys s0 K = (if phys s K (PDX ?va) = 0 then (phys s K)(PDX ?va := phys s0 K (PDX ?va)) else phys s K)"
      and pte: "\<And>va. kern_va va \<Longrightarrow> pte_at s0 K va = pte_at s K va" for s0
  proof -
    let ?t = "PGNUM (phys s0 K (PDX ?va))"
    let ?s1 = "store_word s0 ?t (PTX ?va) ?e"
    have z: "pte_at s0 K ?va = 0" using pte [OF va] none by simp
    have rem: "page_remove s0 K ?va = Some s0"
      using klookup [OF ok0 va refl refl] z by (simp add: page_remove_def)
    note st = kdir_store [OF ok0 va ne, where v = ?e]
    have "?t \<noteq> K" using kdirD(9) [OF ok0, of "PDX ?va"] ne va by (simp add: ktabs_iff)
    then have physK: "phys ?s1 K = phys s0 K" by (simp add: store_word_def)
    have "mapped_region s ?s1 K v {k} pa perm"
      unfolding mapped_region_def
    proof (intro conjI allI impI)
      show "kdir_ok ?s1 K" by (rule st(1))
      have "\<not> fixed_frame ?t" using kdirD(13) [OF ok0, of "PDX ?va"] ne va by (simp add: ktabs_iff)
      then show "same_setup s ?s1" using su by simp
      show "free_pages ?s1 = drop (card (new_tables s K ((\<lambda>k. (v + k) div 1024) ` {k}))) (free_pages s)"
        using fr by (simp add: free_pages_def store_word_def)
      show "phys ?s1 K d \<noteq> 0 \<longleftrightarrow> phys s K d \<noteq> 0 \<or> d \<in> (\<lambda>k. (v + k) div 1024) ` {k}" for d
        unfolding physK using pde ne ix(1) by (metis (no_types, lifting) fun_upd_apply image_empty image_insert singletonD singletonI)
      show "phys s K d \<noteq> 0 \<Longrightarrow> phys ?s1 K d = phys s K d" for d
        unfolding physK using pde by (metis fun_upd_apply)
      fix va' assume "kern_va va'"
      with st(2) pte [of va'] ix(2)
      show "pte_at ?s1 K va' = (if PGNUM va' \<in> (\<lambda>k. v + k) ` {k}
          then (pa + PGSIZE * word_of_nat (PGNUM va' - v)) OR perm OR PTE_P else pte_at s K va')"
        by (auto simp: same_page_PGNUM)
    qed
    moreover have "boot_map_loop (k # ks) s K (page_addr v) pa perm = boot_map_loop ks ?s1 K (page_addr v) pa perm" for ks
      using w rem by (simp add: page_addr_add Let_def)
    ultimately show thesis using result by blast
  qed
  show thesis
  proof (cases "phys s K (PDX ?va) = 0")
    case False
    have "new_tables s K {(v + k) div 1024} = {}" using False by (auto simp: new_tables_def ix)
    then show thesis by (intro finish [OF kwalk_present [OF ok va False] ok False]) (use False in auto)
  next
    case True
    from room True obtain p ps where free: "free_pages s = p # ps" by (cases "free_pages s") (auto simp: ix)
    obtain s0 where s0: "pgdir_walk s K ?va True = Some (s0, Some (p, PTX ?va))" "kdir_ok s0 K" "free_pages s0 = ps"
      "same_setup s s0" "phys s0 = (phys s)(p := \<lambda>_. 0, K := (phys s K)(PDX ?va := table_entry p))"
      "\<And>va. kern_va va \<Longrightarrow> pte_at s0 K va = pte_at s K va" "p < npages s"
      using kwalk_new [OF ok va True free] by metis
    have small: "p < 2 ^ 20" using s0(7) kdirD(2) [OF ok] by simp
    have "new_tables s K {(v + k) div 1024} = {(v + k) div 1024}" using True by (auto simp: new_tables_def ix)
    then have fr: "free_pages s0 = drop (card (new_tables s K {(v + k) div 1024})) (free_pages s)" using s0(3) free by simp
    show thesis
      by (rule finish [of s0]) (use s0 table_entry_facts(1,2) [OF small] fr True in auto)
  qed
qed

lemma new_tables_step:
  assumes "mapped_region s s1 K v {k} pa perm" and "finite A"
  shows "card (new_tables s K ((\<lambda>k. (v + k) div 1024) ` insert k A)) =
    card (new_tables s K {(v + k) div 1024}) + card (new_tables s1 K ((\<lambda>k. (v + k) div 1024) ` A))"
proof -
  let ?d = "(v + k) div 1024" and ?D = "(\<lambda>k. (v + k) div 1024) ` A"
  have "phys s1 K d \<noteq> 0 \<longleftrightarrow> phys s K d \<noteq> 0 \<or> d = ?d" for d
    using mapped_regionD(4) [OF assms(1), of d] by simp
  then have "new_tables s K (insert ?d ?D) = new_tables s K {?d} \<union> new_tables s1 K ?D"
    "new_tables s K {?d} \<inter> new_tables s1 K ?D = {}"
    by (auto simp: new_tables_def)
  moreover have "finite (new_tables s K {?d})" "finite (new_tables s1 K ?D)"
    using assms(2) by (simp_all add: new_tables_def)
  ultimately show ?thesis by (simp add: card_Un_disjoint)
qed

lemma mapped_region_insert:
  assumes a: "mapped_region s s1 K v {k} pa perm" and b: "mapped_region s1 s' K v A pa perm" and "finite A" "k \<notin> A"
  shows "mapped_region s s' K v (insert k A) pa perm"
  unfolding mapped_region_def
proof (intro conjI allI impI)
  show "kdir_ok s' K" by (rule mapped_regionD(1) [OF b])
  show "same_setup s s'" using mapped_regionD(2) [OF a] mapped_regionD(2) [OF b] by (rule same_setup_trans)
  show "free_pages s' = drop (card (new_tables s K ((\<lambda>k. (v + k) div 1024) ` insert k A))) (free_pages s)"
    using mapped_regionD(3) [OF a] mapped_regionD(3) [OF b] new_tables_step [OF a assms(3)] by (simp add: add.commute)
  fix d
  show "phys s' K d \<noteq> 0 \<longleftrightarrow> phys s K d \<noteq> 0 \<or> d \<in> (\<lambda>k. (v + k) div 1024) ` insert k A"
    using mapped_regionD(4) [OF a, of d] mapped_regionD(4) [OF b, of d] by auto
  assume "phys s K d \<noteq> 0"
  then show "phys s' K d = phys s K d"
    using mapped_regionD(4,5) [OF a, of d] mapped_regionD(5) [OF b, of d] by simp
next
  fix va assume "kern_va va"
  then show "pte_at s' K va = (if PGNUM va \<in> (\<lambda>k. v + k) ` insert k A
      then (pa + PGSIZE * word_of_nat (PGNUM va - v)) OR perm OR PTE_P else pte_at s K va)"
    using mapped_regionD(6) [OF a, of va] mapped_regionD(6) [OF b, of va] by auto
qed

lemma mapped_region_empty: "kdir_ok s K \<Longrightarrow> mapped_region s s K v {} pa perm"
  by (simp add: mapped_region_def new_tables_def)

lemma boot_map_loop_ok:
  assumes "kdir_ok s K" and "distinct ks" and "\<And>k. k \<in> set ks \<Longrightarrow> v + k < 1048576"
    and "\<And>k. k \<in> set ks \<Longrightarrow> kern_va (page_addr (v + k)) \<and> pte_at s K (page_addr (v + k)) = 0"
    and "card (new_tables s K ((\<lambda>k. (v + k) div 1024) ` set ks)) \<le> length (free_pages s)"
  shows "\<exists>s'. boot_map_loop ks s K (page_addr v) pa perm = Some s' \<and> mapped_region s s' K v (set ks) pa perm"
  using assms
proof (induction ks arbitrary: s)
  case Nil
  then show ?case by (simp add: mapped_region_empty)
next
  case (Cons k ks)
  let ?D = "\<lambda>A. (\<lambda>k. (v + k) div 1024) ` A"
  have n: "v + k < 1048576" "kern_va (page_addr (v + k))" "pte_at s K (page_addr (v + k)) = 0"
    using Cons.prems(3,4) [of k] by simp_all
  have room: "free_pages s \<noteq> []" if "phys s K ((v + k) div 1024) = 0"
  proof -
    have "(v + k) div 1024 \<in> new_tables s K (?D (set (k # ks)))" using that by (simp add: new_tables_def)
    moreover have "finite (new_tables s K (?D (set (k # ks))))" by (simp add: new_tables_def)
    ultimately have "card (new_tables s K (?D (set (k # ks)))) > 0" by (auto simp: card_gt_0_iff)
    then show ?thesis using Cons.prems(5) by auto
  qed
  obtain s1 where s1: "boot_map_loop (k # ks) s K (page_addr v) pa perm = boot_map_loop ks s1 K (page_addr v) pa perm"
    "mapped_region s s1 K v {k} pa perm"
    using boot_map_step [OF Cons.prems(1) n room] by metis
  note m = mapped_regionD [OF s1(2)]
  have "pte_at s1 K (page_addr (v + j)) = 0" if "j \<in> set ks" for j
  proof -
    have "v + j \<noteq> v + k" using Cons.prems(2) that by auto
    then show ?thesis
      using m(6) [of "page_addr (v + j)"] Cons.prems(3,4) [of j] that by (simp add: PGNUM_page_addr)
  qed
  moreover have "card (new_tables s1 K (?D (set ks))) \<le> length (free_pages s1)"
    using Cons.prems(5) new_tables_step [OF s1(2), of "set ks"] m(3) by simp
  ultimately obtain s' where "boot_map_loop ks s1 K (page_addr v) pa perm = Some s'" "mapped_region s1 s' K v (set ks) pa perm"
    using Cons.IH [OF m(1)] Cons.prems(2-4) by (metis distinct.simps(2) list.set_intros(2))
  then show ?case using s1 mapped_region_insert [OF s1(2)] Cons.prems(2) by auto
qed

lemma boot_map_region_ok:
  assumes "kdir_ok s K" and "unat sz = 4096 * n" and "v + n \<le> 1048576"
    and "\<And>k. k < n \<Longrightarrow> kern_va (page_addr (v + k)) \<and> pte_at s K (page_addr (v + k)) = 0"
    and "card (new_tables s K ((\<lambda>k. (v + k) div 1024) ` {..<n})) \<le> length (free_pages s)"
  obtains s' where "boot_map_region s K (page_addr v) sz pa perm = Some s'" and "mapped_region s s' K v {..<n} pa perm"
proof -
  have "(4096 * n + 4095) div 4096 = n" by simp
  moreover have "set [0..<n] = {..<n}" by auto
  ultimately show thesis
    using boot_map_loop_ok [OF assms(1), of "[0..<n]" v pa perm] assms(2-5) that
    by (auto simp: boot_map_region_def)
qed

end
