(* ===== verification/MemTests.thy ===== *)
theory MemTests
  imports KernDir
begin

unbundle bit_operations_syntax

text \<open>
  The self tests of the allocator pass: \<open>check_page_free_list\<close> and \<open>check_page_alloc\<close>, on any directory
  that is \<open>kdir_ok\<close>; and what they leave behind.
\<close>

subsection \<open>Taking the list away and giving it back\<close>

definition unused :: "pmem \<Rightarrow> nat \<Rightarrow> nat \<Rightarrow> bool" where
  "unused s K p \<longleftrightarrow> p < npages s \<and> p \<noteq> K \<and> \<not> fixed_frame p \<and> (\<forall>d\<in>ktabs s K. PGNUM (phys s K d) \<noteq> p)"

lemma free_unused: "kdir_ok s K \<Longrightarrow> p \<in> set (free_pages s) \<Longrightarrow> unused s K p"
  using table_frames_differ [of s K p] by (auto simp: unused_def)

lemma free_list_chain: "kdir_ok s K \<Longrightarrow> chain (pp_link s) (page_free_list s) (free_pages s) \<and> distinct (free_pages s)"
  using kdirD(1) [of s K] free_chainD [of "pp_link s" "page_free_list s" "npages s"]
  by (simp add: pages_inv_def free_pages_def)

lemma free_list_empty: "kdir_ok s K \<Longrightarrow> free_pages s = [] \<longleftrightarrow> page_free_list s = None"
  using free_list_chain [of s K] by (metis chain.simps(1) free_pages_def walk_None)

lemma kdir_list:
  assumes ok: "kdir_ok s K" and "chain (pp_link s) fl ps" "distinct ps"
    and "\<And>p. p \<in> set ps \<Longrightarrow> unused s K p \<and> pp_ref s p = 0"
  shows "kdir_ok (s\<lparr>page_free_list := fl\<rparr>) K" and "free_pages (s\<lparr>page_free_list := fl\<rparr>) = ps"
proof -
  have "\<forall>p\<in>set ps. p < npages s" using assms(4) by (simp add: unused_def)
  from free_chainI [OF assms(2,3) this] show fr: "free_pages (s\<lparr>page_free_list := fl\<rparr>) = ps"
    by (simp add: free_pages_def)
  have "pages_inv (s\<lparr>page_free_list := fl\<rparr>)"
    using free_chainI [OF assms(2,3) \<open>\<forall>p\<in>set ps. p < npages s\<close>] by (simp add: pages_inv_def)
  then show "kdir_ok (s\<lparr>page_free_list := fl\<rparr>) K"
    by (intro kdir_free_list [OF ok]) (use assms(4) fr in \<open>auto simp: unused_def\<close>)
qed

lemma pte_at_list [simp]: "pte_at (s\<lparr>page_free_list := fl\<rparr>) K va = pte_at s K va"
  by (simp add: pte_at_def Let_def)

lemma kdir_steal:
  assumes "kdir_ok s K"
  shows "kdir_ok (s\<lparr>page_free_list := None\<rparr>) K" and "free_pages (s\<lparr>page_free_list := None\<rparr>) = []"
  using kdir_list [OF assms, of None "[]"] by simp_all

lemma unused_cong: "phys s' K = phys s K \<Longrightarrow> npages s' = npages s \<Longrightarrow> unused s' K p = unused s K p"
  by (simp add: unused_def ktabs_def)

text \<open>The rest of the list stays a chain while its pages keep their links.\<close>

lemma chain_cong: "(\<And>p. p \<in> set ps \<Longrightarrow> f p = g p) \<Longrightarrow> chain f x ps = chain g x ps"
  by (induction ps arbitrary: x) auto

lemma alloc_three_ok:
  assumes ok: "kdir_ok s K" and free: "free_pages s = a # b # c # ps"
  obtains s' where "alloc_three s = Some (s', a, b, c)" and "kdir_ok s' K" and "free_pages s' = ps"
    and "same_setup s s'" and "pp_ref s' = pp_ref s" and "phys s' = phys s"
    and "pp_link s' = (pp_link s)(a := None, b := None, c := None)"
proof -
  have dist: "distinct (a # b # c # ps)" using free_list_chain [OF ok] free by simp
  obtain s1 where s1: "page_alloc s False = (s1, Some a)" "kdir_ok s1 K" "free_pages s1 = b # c # ps" "same_setup s s1"
    "pp_ref s1 = pp_ref s" "pp_link s1 = (pp_link s)(a := None)" "phys s1 = phys s"
    using kdir_alloc [OF ok free, of False] by (metis (full_types))
  obtain s2 where s2: "page_alloc s1 False = (s2, Some b)" "kdir_ok s2 K" "free_pages s2 = c # ps" "same_setup s1 s2"
    "pp_ref s2 = pp_ref s1" "pp_link s2 = (pp_link s1)(b := None)" "phys s2 = phys s1"
    using kdir_alloc [OF s1(2,3), of False] by (metis (full_types))
  obtain s3 where s3: "page_alloc s2 False = (s3, Some c)" "kdir_ok s3 K" "free_pages s3 = ps" "same_setup s2 s3"
    "pp_ref s3 = pp_ref s2" "pp_link s3 = (pp_link s2)(c := None)" "phys s3 = phys s2"
    using kdir_alloc [OF s2(2,3), of False] by (metis (full_types))
  show thesis
  proof (rule that [OF _ s3(2,3)])
    show "alloc_three s = Some (s3, a, b, c)"
      using s1(1) s2(1) s3(1) dist by (simp add: alloc_three_def must_alloc_def)
    show "same_setup s s3" by (rule same_setup_trans [OF same_setup_trans [OF s1(4) s2(4)] s3(4)])
  qed (use s1 s2 s3 in simp_all)
qed

lemma free_three_ok:
  assumes ok: "kdir_ok s K" and dist: "distinct (a # b # c # free_pages s)"
    and un: "\<And>p. p \<in> {a, b, c} \<Longrightarrow> unused s K p \<and> pp_ref s p = 0 \<and> pp_link s p = None"
  obtains s' where "free_three s a b c = Some s'" and "kdir_ok s' K" and "free_pages s' = c # b # a # free_pages s"
    and "same_setup s s'" and "pp_ref s' = pp_ref s" and "phys s' = phys s"
    and "\<And>q. q \<notin> {a, b, c} \<Longrightarrow> pp_link s' q = pp_link s q"
proof -
  obtain s1 where s1: "page_free s a = Some s1" "kdir_ok s1 K" "free_pages s1 = a # free_pages s" "same_setup s s1"
    "pp_ref s1 = pp_ref s" "phys s1 = phys s" "pp_link s1 = (pp_link s)(a := page_free_list s)"
    by (rule kdir_page_free [OF ok, of a]) (use un dist in \<open>auto simp: unused_def\<close>)
  have np1: "npages s1 = npages s" using s1(4) by auto
  have un1: "unused s1 K p = unused s K p" for p by (rule unused_cong) (simp_all add: s1(6) np1)
  obtain s2 where s2: "page_free s1 b = Some s2" "kdir_ok s2 K" "free_pages s2 = b # a # free_pages s" "same_setup s1 s2"
    "pp_ref s2 = pp_ref s1" "phys s2 = phys s1" "pp_link s2 = (pp_link s1)(b := page_free_list s1)"
    by (rule kdir_page_free [OF s1(2), of b])
      (use un [of b] un1 [of b] dist s1 in \<open>auto simp: unused_def\<close>)
  have un2: "unused s2 K p = unused s K p" for p
    using s2(4) un1 [of p] unused_cong [of s2 K s1 p] s2(6) by auto
  obtain s3 where s3: "page_free s2 c = Some s3" "kdir_ok s3 K" "free_pages s3 = c # b # a # free_pages s" "same_setup s2 s3"
    "pp_ref s3 = pp_ref s2" "phys s3 = phys s2" "pp_link s3 = (pp_link s2)(c := page_free_list s2)"
    by (rule kdir_page_free [OF s2(2), of c])
      (use un [of c] un2 [of c] dist s1 s2 in \<open>auto simp: unused_def\<close>)
  show thesis
  proof (rule that [OF _ s3(2,3)])
    show "free_three s a b c = Some s3" using s1(1) s2(1) s3(1) by (simp add: free_three_def)
    show "same_setup s s3" by (rule same_setup_trans [OF same_setup_trans [OF s1(4) s2(4)] s3(4)])
  qed (use s1 s2 s3 in simp_all)
qed

lemma page2kva_some: "p < npages s \<Longrightarrow> npages s \<le> 2 ^ 20 \<Longrightarrow> page2kva s p = Some (page2pa p + KERNBASE)"
proof -
  assume a: "p < npages s" "npages s \<le> 2 ^ 20"
  then have "PGNUM (page2pa p) = p" using PGNUM_page_addr [of p] by (simp add: page2pa_def page_addr_def)
  then show ?thesis using a by (simp add: page2kva_def KADDR_def)
qed

lemma fill_frame_ok:
  assumes "kdir_ok s K" and "unused s K p"
  shows "fill_frame s p n w = Some (s\<lparr>phys := (phys s)(p := \<lambda>i. if i < n then w else phys s p i)\<rparr>)"
    and "kdir_ok (s\<lparr>phys := (phys s)(p := f)\<rparr>) K"
    and "free_pages (s\<lparr>phys := (phys s)(p := f)\<rparr>) = free_pages s"
    and "kern_va va \<Longrightarrow> pte_at (s\<lparr>phys := (phys s)(p := f)\<rparr>) K va = pte_at s K va"
proof -
  let ?s = "s\<lparr>phys := (phys s)(p := f)\<rparr>"
  have p: "p < npages s" "p \<noteq> K" "\<And>d. d \<in> ktabs s K \<Longrightarrow> PGNUM (phys s K d) \<noteq> p" using assms(2) by (auto simp: unused_def)
  show "fill_frame s p n w = Some (s\<lparr>phys := (phys s)(p := \<lambda>i. if i < n then w else phys s p i)\<rparr>)"
    using page2kva_some [OF p(1) kdirD(2) [OF assms(1)]] by (simp add: fill_frame_def)
  show fr: "free_pages ?s = free_pages s" by (simp add: free_pages_def)
  show "kdir_ok ?s K"
    by (rule kdir_free_list [OF assms(1)])
      (use p fr kdirD(1,4,5,8,12) [OF assms(1)] in \<open>auto simp: pages_inv_def\<close>)
  show "kern_va va \<Longrightarrow> pte_at ?s K va = pte_at s K va"
    by (rule kdir_frames [OF assms(1)]) (use p in auto)
qed

subsection \<open>\<open>check_page_alloc\<close>\<close>

lemma count_list_chain: "chain (pp_link s) x ps \<Longrightarrow> length ps \<le> n \<Longrightarrow> count_list n s x k = Some (k + length ps)"
proof (induction ps arbitrary: x n k)
  case (Cons p ps)
  then show ?case by (cases n) auto
qed simp

lemma count_free:
  assumes "kdir_ok s K"
  shows "count_list (npages s) s (page_free_list s) 0 = Some (length (free_pages s))"
proof -
  have "length (free_pages s) \<le> npages s"
    using free_list_chain [OF assms] table_frames_differ(3) [OF assms] by (intro length_bounded) auto
  then show ?thesis using count_list_chain [of s _ "free_pages s"] free_list_chain [OF assms] by simp
qed

lemma must_be_full_ok: "kdir_ok s K \<Longrightarrow> free_pages s = [] \<Longrightarrow> must_be_full s = Some s"
  using free_list_empty [of s K] by (simp add: must_be_full_def page_alloc_def)

lemma page2pa_top:
  assumes "p < n" and "n < 2 ^ 20"
  shows "page2pa p < PGSIZE * word_of_nat n"
proof -
  have "unat (page2pa p) = p * 4096" using unat_page_addr [of p] assms by (simp add: page2pa_def page_addr_def)
  moreover have "unat (PGSIZE * word_of_nat n) = 4096 * n" using assms(2) by (simp add: PGSIZE_def unat_word_ariths unat_of_nat)
  ultimately show ?thesis using assms(1) by (simp add: word_less_nat_alt)
qed

lemma check_page_alloc_ok:
  assumes ok: "kdir_ok s K" and free: "free_pages s = a # b # c # ps" and small: "npages s < 2 ^ 20"
  obtains s' where "check_page_alloc s = Some s'" and "kdir_ok s' K" and "free_pages s' = free_pages s"
    and "same_setup s s'" and "pp_ref s' = pp_ref s" and "\<And>va. kern_va va \<Longrightarrow> pte_at s' K va = pte_at s K va"
    and "phys s' K = phys s K"
proof -
  have un0: "unused s K p" "pp_ref s p = 0" if "p \<in> set (a # b # c # ps)" for p
    using that free_unused [OF ok] kdirD(5) [OF ok] unfolding free by blast+
  have dist: "distinct (a # b # c # ps)" using free_list_chain [OF ok] free by simp
  obtain s1 where s1: "alloc_three s = Some (s1, a, b, c)" "kdir_ok s1 K" "free_pages s1 = ps" "same_setup s s1"
    "pp_ref s1 = pp_ref s" "phys s1 = phys s" "pp_link s1 = (pp_link s)(a := None, b := None, c := None)"
    by (rule alloc_three_ok [OF ok free])
  define fl where "fl = page_free_list s1"
  have fl: "chain (pp_link s1) fl ps" using free_list_chain [OF s1(2)] s1(3) by (simp add: fl_def)
  have np1: "npages s1 = npages s" using s1(4) by auto
  have un1: "unused s1 K p = unused s K p" for p by (rule unused_cong) (simp_all add: s1(6) np1)
  let ?s2 = "s1\<lparr>page_free_list := None\<rparr>"
  note s2 = kdir_steal [OF s1(2)]
  note full2 = must_be_full_ok [OF s2]
  have un2: "unused ?s2 K p = unused s K p" for p using un1 [of p] by (simp add: unused_def ktabs_def)
  obtain s3 where s3: "free_three ?s2 a b c = Some s3" "kdir_ok s3 K" "free_pages s3 = [c, b, a]" "same_setup ?s2 s3"
    "pp_ref s3 = pp_ref s1" "phys s3 = phys s1" "\<And>q. q \<notin> {a, b, c} \<Longrightarrow> pp_link s3 q = pp_link s1 q"
    by (rule free_three_ok [OF s2(1), of a b c])
      (use dist s1 un0 un2 s2(2) in auto)
  obtain s4 where s4: "alloc_three s3 = Some (s4, c, b, a)" "kdir_ok s4 K" "free_pages s4 = []" "same_setup s3 s4"
    "pp_ref s4 = pp_ref s3" "phys s4 = phys s3" "pp_link s4 = (pp_link s3)(c := None, b := None, a := None)"
    by (rule alloc_three_ok [OF s3(2,3)])
  have np4: "npages s4 = npages s" "phys s4 = phys s" using s4(4,6) s3(4,6) s1(6) np1 by (simp_all add: same_setup_def)
  have un4: "unused s4 K p = unused s K p" for p by (rule unused_cong) (simp_all add: np4)
  have c: "unused s4 K c" "pp_ref s4 c = 0" "pp_link s4 c = None"
    using un0 un4 s4 s3 s1 by auto
  define s5 where "s5 = s4\<lparr>phys := (phys s4)(c := \<lambda>i. if i < 1024 then 0x01010101 else phys s4 c i)\<rparr>"
  note fill = fill_frame_ok [OF s4(2) c(1)]
  have s5: "fill_frame s4 c 1024 0x01010101 = Some s5" "kdir_ok s5 K" "free_pages s5 = []"
    using fill(1) fill(2,3) s4(3) by (simp_all add: s5_def)
  have un5: "unused s5 K p = unused s K p" for p
    using un4 [of p] unused_cong [of s5 K s4 p] c(1) by (simp add: s5_def unused_def)
  obtain s6 where s6: "page_free s5 c = Some s6" "kdir_ok s6 K" "free_pages s6 = [c]" "same_setup s5 s6"
    "pp_ref s6 = pp_ref s5" "phys s6 = phys s5" "pp_link s6 = (pp_link s5)(c := page_free_list s5)"
    by (rule kdir_page_free [OF s5(2), of c]) (use c un5 un0 s5(3) in \<open>auto simp: unused_def s5_def\<close>)
  obtain s7 where s7: "page_alloc s6 True = (s7, Some c)" "kdir_ok s7 K" "free_pages s7 = []" "same_setup s6 s7"
    "pp_ref s7 = pp_ref s6" "pp_link s7 = (pp_link s6)(c := None)" "phys s7 = (phys s6)(c := \<lambda>_. 0)"
    using kdir_alloc [OF s6(2,3), of True] by (metis (full_types))
  have zero: "list_all (\<lambda>i. phys s7 c i = 0) [0..<1024]" by (simp add: s7(7) list_all_iff)
  have K: "c \<noteq> K" using c(1) by (simp add: unused_def)
  have np7: "npages s7 = npages s" "phys s7 K = phys s K" "kern_pgdir s7 = kern_pgdir s" "mmio_base s7 = mmio_base s"
    using s7(4,7) s6(4,6) np4 s4(4) s3(4) s1(4) K by (auto simp: s5_def same_setup_def)
  have un7: "unused s7 K p = unused s K p" for p by (rule unused_cong) (simp_all add: np7)
  have ref7: "pp_ref s7 = pp_ref s" using s7(5) s6(5) s4(5) s3(5) s1(5) by (simp add: s5_def)
  have chain7: "chain (pp_link s7) fl ps"
  proof -
    have "pp_link s7 q = pp_link s1 q" if "q \<in> set ps" for q
      using that dist s7(6) s6(7) s4(7) s3(7) [of q] by (auto simp: s5_def)
    then show ?thesis using fl chain_cong [of ps "pp_link s7" "pp_link s1"] by simp
  qed
  let ?s8 = "s7\<lparr>page_free_list := fl\<rparr>"
  have s8: "kdir_ok ?s8 K" "free_pages ?s8 = ps"
    using kdir_list [OF s7(2) chain7] dist un7 un0 ref7 by auto
  have un8: "unused ?s8 K p = unused s K p" for p using un7 [of p] by (simp add: unused_def ktabs_def)
  have dist8: "distinct (c # b # a # free_pages ?s8)" using dist s8(2) by auto
  have three8: "unused ?s8 K p \<and> pp_ref ?s8 p = 0 \<and> pp_link ?s8 p = None" if "p \<in> {c, b, a}" for p
    using that un8 [of p] un0 [of p] ref7 s7(6) s6(7) s4(7) by (auto simp: s5_def)
  obtain s9 where r9: "free_three ?s8 c b a = Some s9" "kdir_ok s9 K" "free_pages s9 = a # b # c # free_pages ?s8" "same_setup ?s8 s9"
    "pp_ref s9 = pp_ref ?s8" "phys s9 = phys ?s8" "\<And>q. q \<notin> {c, b, a} \<Longrightarrow> pp_link s9 q = pp_link ?s8 q"
    by (rule free_three_ok [OF s8(1) dist8 three8]) (assumption, rule that)
  have s9: "free_three ?s8 c b a = Some s9" "kdir_ok s9 K" "free_pages s9 = a # b # c # ps" "same_setup ?s8 s9"
    "pp_ref s9 = pp_ref s7" "phys s9 = phys s7" using r9(1-6) s8(2) by simp_all
  have link9: "pp_link s9 q = pp_link s7 q" if "q \<notin> {c, b, a}" for q using r9(7) [OF that] by simp
  have np9: "npages s9 = npages s" using s9(4) np7(1) by (auto simp: same_setup_def)
  show thesis
  proof (rule that [OF _ s9(2)])
    have "page2pa p < PGSIZE * word_of_nat (npages s1)" if "p \<in> {a, b, c}" for p
      using that un0 small np1 by (intro page2pa_top) (auto simp: unused_def)
    then show "check_page_alloc s = Some s9"
      using s1(1) full2 s3(1) s4(1) must_be_full_ok [OF s4(2,3)] s5(1) s6(1) s7(1) zero s9(1)
        count_free [OF ok] count_free [OF s9(2)] s9(3) free
      by (simp add: check_page_alloc_def must_alloc_def fl_def np9 Let_def)
    show "free_pages s9 = free_pages s" using s9(3) free by simp
    have "pp_link s9 q = pp_link s q" if "q \<notin> {a, b, c}" for q
      using that link9 [of q] s7(6) s6(7) s4(7) s3(7) [of q] s1(7) by (simp add: s5_def)
    then have "stray s9 \<subseteq> stray s" using s9(3) free by (auto simp: stray_def)
    moreover have "phys s9 q = phys s q" if "fixed_frame q" for q
    proof -
      have "q \<noteq> c" using that un0(1) [of c] by (auto simp: unused_def)
      then show ?thesis using s9(6) s7(7) s6(6) np4(2) by (simp add: s5_def)
    qed
    ultimately show "same_setup s s9" using s9(4) np7 by (auto simp: same_setup_def)
    show "pp_ref s9 = pp_ref s" "phys s9 K = phys s K" using s9(5,6) ref7 np7 by simp_all
    show "pte_at s9 K va = pte_at s K va" if "kern_va va" for va
    proof (rule kdir_frames [OF ok _ _ that])
      show "phys s9 K = phys s K" using s9(6) np7 by simp
      fix d assume d: "d \<in> ktabs s K"
      then have "PGNUM (phys s K d) \<noteq> c" using un0 [of c] by (auto simp: unused_def)
      then show "phys s9 (PGNUM (phys s K d)) = phys s (PGNUM (phys s K d))"
        using s9(6) s7(7) s6(6) np4(2) by (simp add: s5_def)
    qed
  qed
qed

subsection \<open>The order of the free list\<close>

text \<open>A chain whose last link may be anything, and the place of that link.\<close>

fun open_chain :: "(nat \<Rightarrow> nat option) \<Rightarrow> nat option \<Rightarrow> nat list \<Rightarrow> bool" where
  "open_chain f x [] \<longleftrightarrow> True"
| "open_chain f x (p # ps) \<longleftrightarrow> x = Some p \<and> open_chain f (f p) ps"

definition end_slot :: "bool \<Rightarrow> nat list \<Rightarrow> link_slot" where
  "end_slot h ps = (if ps = [] then Head h else LinkOf (last ps))"

lemma open_chain_upd: "q \<notin> set ps \<Longrightarrow> open_chain (f(q := x)) y ps = open_chain f y ps"
  by (induction ps arbitrary: y) auto

lemma open_chain_last:
  "ps \<noteq> [] \<Longrightarrow> distinct ps \<Longrightarrow> open_chain (f(last ps := y)) x ps = open_chain f x ps"
proof (induction ps arbitrary: x)
  case (Cons p ps)
  show ?case
  proof (cases "ps = []")
    case False
    then have "last ps \<in> set ps" by simp
    then have "last ps \<noteq> p" using Cons.prems(2) by auto
    then show ?thesis using Cons.IH [OF False] Cons.prems(2) False by simp
  qed simp
qed simp

lemma open_chain_close:
  "ps \<noteq> [] \<Longrightarrow> open_chain f x ps \<Longrightarrow> chain f (f (last ps)) qs \<Longrightarrow> chain f x (ps @ qs)"
proof (induction ps arbitrary: x)
  case (Cons p ps)
  then show ?case by (cases ps) auto
qed simp

lemma open_chain_snoc: "ps \<noteq> [] \<Longrightarrow> open_chain f x (ps @ [p]) \<longleftrightarrow> open_chain f x ps \<and> f (last ps) = Some p"
proof (induction ps arbitrary: x)
  case (Cons q ps)
  then show ?case by (cases ps) auto
qed simp

definition split_inv :: "splitting \<Rightarrow> nat list \<Rightarrow> nat list \<Rightarrow> bool" where
  "split_inv r lo hi \<longleftrightarrow> open_chain (sp_link r) (sp_pp1 r) lo \<and> open_chain (sp_link r) (sp_pp2 r) hi \<and>
     sp_tp0 r = end_slot False lo \<and> sp_tp1 r = end_slot True hi"

lemma split_inv_high:
  assumes "split_inv r lo hi" and "distinct (lo @ hi @ p # rest)"
  shows "split_inv ((put_slot (sp_tp1 r) (Some p) r)\<lparr>sp_tp1 := LinkOf p\<rparr>) lo (hi @ [p])"
    and "chain (sp_link (put_slot (sp_tp1 r) (Some p) r)) x rest = chain (sp_link r) x rest"
    and "sp_link (put_slot (sp_tp1 r) (Some p) r) p = sp_link r p"
proof -
  have lasts: "hi \<noteq> [] \<Longrightarrow> last hi \<notin> set lo" "hi \<noteq> [] \<Longrightarrow> last hi \<notin> set rest" "hi \<noteq> [] \<Longrightarrow> last hi \<noteq> p"
    "distinct hi"
    using assms(2) last_in_set [of hi] by (auto simp: disjoint_iff)
  show "split_inv ((put_slot (sp_tp1 r) (Some p) r)\<lparr>sp_tp1 := LinkOf p\<rparr>) lo (hi @ [p])"
    using assms(1) lasts
    by (auto simp: split_inv_def put_slot_def end_slot_def open_chain_snoc open_chain_upd open_chain_last)
  show "chain (sp_link (put_slot (sp_tp1 r) (Some p) r)) x rest = chain (sp_link r) x rest"
    "sp_link (put_slot (sp_tp1 r) (Some p) r) p = sp_link r p"
    using assms(1) lasts by (auto simp: split_inv_def put_slot_def end_slot_def chain_upd_other)
qed

lemma split_inv_low:
  assumes "split_inv r lo hi" and "distinct (lo @ hi @ p # rest)"
  shows "split_inv ((put_slot (sp_tp0 r) (Some p) r)\<lparr>sp_tp0 := LinkOf p\<rparr>) (lo @ [p]) hi"
    and "chain (sp_link (put_slot (sp_tp0 r) (Some p) r)) x rest = chain (sp_link r) x rest"
    and "sp_link (put_slot (sp_tp0 r) (Some p) r) p = sp_link r p"
proof -
  have lasts: "lo \<noteq> [] \<Longrightarrow> last lo \<notin> set hi" "lo \<noteq> [] \<Longrightarrow> last lo \<notin> set rest" "lo \<noteq> [] \<Longrightarrow> last lo \<noteq> p"
    "distinct lo"
    using assms(2) last_in_set [of lo] by (auto simp: disjoint_iff)
  show "split_inv ((put_slot (sp_tp0 r) (Some p) r)\<lparr>sp_tp0 := LinkOf p\<rparr>) (lo @ [p]) hi"
    using assms(1) lasts
    by (auto simp: split_inv_def put_slot_def end_slot_def open_chain_snoc open_chain_upd open_chain_last)
  show "chain (sp_link (put_slot (sp_tp0 r) (Some p) r)) x rest = chain (sp_link r) x rest"
    "sp_link (put_slot (sp_tp0 r) (Some p) r) p = sp_link r p"
    using assms(1) lasts by (auto simp: split_inv_def put_slot_def end_slot_def chain_upd_other)
qed

definition low_page :: "nat \<Rightarrow> nat \<Rightarrow> bool" where "low_page lim p \<longleftrightarrow> PDX (page2pa p) < lim"

lemma put_end_slot: "q \<notin> set l \<Longrightarrow> sp_link (put_slot (end_slot b l) v r) q = sp_link r q"
  by (cases b) (auto simp: put_slot_def end_slot_def)

lemma split_loop_ok:
  assumes "split_inv r lo hi" and "chain (sp_link r) x rest" and "distinct (lo @ hi @ rest)" and "length rest \<le> n"
  shows "\<exists>r'. split_loop lim n x r = Some r' \<and>
     split_inv r' (lo @ filter (low_page lim) rest) (hi @ filter (\<lambda>p. \<not> low_page lim p) rest) \<and>
     (\<forall>q. q \<notin> set (lo @ hi @ rest) \<longrightarrow> sp_link r' q = sp_link r q)"
  using assms
proof (induction rest arbitrary: r lo hi x n)
  case Nil
  then show ?case by (cases n) auto
next
  case (Cons p rest)
  then obtain n' where n: "n = Suc n'" "x = Some p" by (cases n) auto
  note inv = Cons.prems(1)
  show ?case
  proof (cases "low_page lim p")
    case False
    let ?r = "(put_slot (sp_tp1 r) (Some p) r)\<lparr>sp_tp1 := LinkOf p\<rparr>"
    note h = split_inv_high [OF inv Cons.prems(3)]
    have "chain (sp_link ?r) (sp_link r p) rest" using h(2) Cons.prems(2) by simp
    moreover have "q \<notin> set hi \<Longrightarrow> sp_link ?r q = sp_link r q" for q
      using inv by (simp add: split_inv_def put_end_slot)
    ultimately show ?thesis using Cons.IH [OF h(1), of "sp_link r p" n'] Cons.prems(3,4) n False h(3)
      by (auto simp: low_page_def Let_def)
  next
    case True
    let ?r = "(put_slot (sp_tp0 r) (Some p) r)\<lparr>sp_tp0 := LinkOf p\<rparr>"
    note h = split_inv_low [OF inv Cons.prems(3)]
    have "chain (sp_link ?r) (sp_link r p) rest" using h(2) Cons.prems(2) by simp
    moreover have "q \<notin> set lo \<Longrightarrow> sp_link ?r q = sp_link r q" for q
      using inv by (simp add: split_inv_def put_end_slot)
    ultimately show ?thesis using Cons.IH [OF h(1), of "sp_link r p" n'] Cons.prems(3,4) n True h(3)
      by (auto simp: low_page_def Let_def)
  qed
qed

text \<open>The low pages come first, in their order, then the others.\<close>

definition low_first :: "nat \<Rightarrow> nat list \<Rightarrow> nat list" where
  "low_first lim ps = filter (low_page lim) ps @ filter (\<lambda>p. \<not> low_page lim p) ps"

lemma set_low_first [simp]: "set (low_first lim ps) = set ps"
  by (auto simp: low_first_def)

lemma low_pages_first_ok:
  assumes ok: "kdir_ok s K"
  obtains s' where "low_pages_first lim s = Some s'" and "kdir_ok s' K"
    and "free_pages s' = low_first lim (free_pages s)" and "same_setup s s'" and "pp_ref s' = pp_ref s" and "phys s' = phys s"
proof -
  let ?r0 = "\<lparr>sp_link = pp_link s, sp_pp1 = None, sp_pp2 = None, sp_tp0 = Head False, sp_tp1 = Head True\<rparr>"
  let ?lo = "filter (low_page lim) (free_pages s)" and ?hi = "filter (\<lambda>p. \<not> low_page lim p) (free_pages s)"
  have ch: "chain (sp_link ?r0) (page_free_list s) (free_pages s)" "distinct ([] @ [] @ free_pages s)"
    using free_list_chain [OF ok] by simp_all
  have inv0: "split_inv ?r0 [] []" by (simp add: split_inv_def end_slot_def)
  have len: "length (free_pages s) \<le> npages s"
    using free_list_chain [OF ok] table_frames_differ(3) [OF ok] by (intro length_bounded) auto
  from split_loop_ok [OF inv0 ch len, of lim] obtain r where
    r: "split_loop lim (npages s) (page_free_list s) ?r0 = Some r" "split_inv r ?lo ?hi"
    and rest: "q \<notin> set (free_pages s) \<Longrightarrow> sp_link r q = pp_link s q" for q by auto
  have dist: "distinct (?lo @ ?hi)" using free_list_chain [OF ok] by auto
  let ?r1 = "put_slot (sp_tp1 r) None r"
  let ?r2 = "put_slot (sp_tp0 ?r1) (sp_pp2 ?r1) ?r1"
  have lasts: "?hi \<noteq> [] \<Longrightarrow> last ?hi \<notin> set ?lo" "?lo \<noteq> [] \<Longrightarrow> last ?lo \<notin> set ?hi"
    using dist last_in_set [of ?hi] last_in_set [of ?lo] by auto
  have r1: "chain (sp_link ?r1) (sp_pp2 ?r1) ?hi" "open_chain (sp_link ?r1) (sp_pp1 ?r1) ?lo" "sp_tp0 ?r1 = end_slot False ?lo"
  proof -
    have "distinct ?hi" using dist by simp
    then show "chain (sp_link ?r1) (sp_pp2 ?r1) ?hi"
      using r(2) open_chain_close [of ?hi "(sp_link r)(last ?hi := None)" "sp_pp2 r" "[]"]
      by (cases "?hi = []") (simp_all add: split_inv_def put_slot_def end_slot_def open_chain_last)
    show "open_chain (sp_link ?r1) (sp_pp1 ?r1) ?lo" "sp_tp0 ?r1 = end_slot False ?lo"
      using r(2) lasts(1) by (cases "?hi = []"; simp add: split_inv_def put_slot_def end_slot_def open_chain_upd)+
  qed
  have r2: "chain (sp_link ?r2) (sp_pp1 ?r2) (?lo @ ?hi)"
  proof (cases "?lo = []")
    case True
    then show ?thesis using r1 by (simp add: put_slot_def end_slot_def)
  next
    case False
    have d: "distinct ?lo" using dist by simp
    let ?f = "(sp_link ?r1)(last ?lo := sp_pp2 ?r1)"
    have "chain ?f (sp_pp1 ?r1) (?lo @ ?hi)"
      using r1 lasts(2) False by (intro open_chain_close) (simp_all add: open_chain_last [OF False d] chain_upd_other)
    then show ?thesis using False r1(3) by (simp add: put_slot_def end_slot_def)
  qed
  let ?s = "s\<lparr>pp_link := sp_link ?r2, page_free_list := sp_pp1 ?r2\<rparr>"
  have bound: "\<forall>p\<in>set (?lo @ ?hi). p < npages s" using table_frames_differ(3) [OF ok] by auto
  have fr: "free_pages ?s = low_first lim (free_pages s)" "pages_inv ?s"
    using free_chainI [OF r2 dist bound] by (simp_all add: free_pages_def pages_inv_def low_first_def)
  have "kdir_ok ?s K"
    by (rule kdir_free_list [OF ok]) (use fr kdirD(4,5,8,12) [OF ok] in auto)
  moreover have "stray ?s \<subseteq> stray s"
  proof -
    have "sp_link ?r2 q = pp_link s q" if "q \<notin> set (free_pages s)" for q
    proof -
      have "sp_link ?r1 q = sp_link r q" using that r(2) by (simp add: split_inv_def put_end_slot)
      moreover have "sp_link ?r2 q = sp_link ?r1 q" using that unfolding r1(3) by (intro put_end_slot) simp
      ultimately show ?thesis using rest [OF that] by simp
    qed
    then show ?thesis using fr(1) by (auto simp: stray_def)
  qed
  ultimately show thesis using that [of ?s] r(1) fr by (simp add: low_pages_first_def same_setup_def Let_def)
qed

subsection \<open>\<open>check_page_free_list\<close>\<close>

text \<open>What a test leaves of the directory: nothing of it changes but unused frames.\<close>

definition keeps_dir :: "pmem \<Rightarrow> pmem \<Rightarrow> nat \<Rightarrow> bool" where
  "keeps_dir s s' K \<longleftrightarrow> same_setup s s' \<and> pp_ref s' = pp_ref s \<and> phys s' K = phys s K \<and>
     (\<forall>va. kern_va va \<longrightarrow> pte_at s' K va = pte_at s K va)"

lemma keeps_dir_refl [simp]: "keeps_dir s s K" by (simp add: keeps_dir_def)

lemma keeps_dir_trans: "keeps_dir a b K \<Longrightarrow> keeps_dir b c K \<Longrightarrow> keeps_dir a c K"
  using same_setup_trans [of a b c] by (simp add: keeps_dir_def)

lemma trouble_loop_ok:
  assumes "kdir_ok s K" and "chain (pp_link s) x ps" and "\<forall>p\<in>set ps. unused s K p" and "length ps \<le> n"
  shows "\<exists>s'. trouble_loop lim n x s = Some s' \<and> kdir_ok s' K \<and> free_pages s' = free_pages s \<and> keeps_dir s s' K \<and>
     pp_link s' = pp_link s \<and> page_free_list s' = page_free_list s"
  using assms
proof (induction ps arbitrary: s x n)
  case Nil
  then show ?case by (cases n) auto
next
  case (Cons p ps)
  then obtain n' where n: "n = Suc n'" "x = Some p" by (cases n) auto
  let ?s1 = "if PDX (page2pa p) < lim then s\<lparr>phys := (phys s)(p := \<lambda>i. if i < 32 then 0x97979797 else phys s p i)\<rparr> else s"
  have u: "unused s K p" using Cons.prems(3) by simp
  then have K: "p \<noteq> K" "\<not> fixed_frame p" by (simp_all add: unused_def)
  note fill = fill_frame_ok [OF Cons.prems(1) u]
  have step: "trouble_loop lim n x s = trouble_loop lim n' (pp_link s p) ?s1"
    using fill(1) n by simp
  have s1: "kdir_ok ?s1 K" "free_pages ?s1 = free_pages s" "keeps_dir s ?s1 K" "pp_link ?s1 = pp_link s" "page_free_list ?s1 = page_free_list s"
    using fill(2-4) Cons.prems(1) K by (auto simp: keeps_dir_def same_setup_def)
  have "unused ?s1 K q = unused s K q" for q by (rule unused_cong) (use K in simp_all)
  then obtain s' where "trouble_loop lim n' (pp_link s p) ?s1 = Some s'" "kdir_ok s' K" "free_pages s' = free_pages ?s1" "keeps_dir ?s1 s' K"
    "pp_link s' = pp_link ?s1" "page_free_list s' = page_free_list ?s1"
    using Cons.IH [OF s1(1), of "pp_link s p" n'] Cons.prems s1(4) n by auto
  then show ?case using step s1 keeps_dir_trans [OF s1(3)] by auto
qed

definition wellplaced :: "pmem \<Rightarrow> nat \<Rightarrow> nat \<Rightarrow> bool" where
  "wellplaced s first p \<longleftrightarrow> p < npages s \<and> \<not> page_reserved first p"

lemma page2pa_values: "p < 2 ^ 20 \<Longrightarrow> unat (page2pa p) = p * 4096"
  using unat_page_addr [of p] by (simp add: page2pa_def page_addr_def)

lemma free_page_ok_passes:
  assumes "wellplaced s first p" and "npages s \<le> 65536" and "first < 65536" and "256 < first"
  shows "free_page_ok s (page_addr first + KERNBASE) p = Some ()"
proof -
  have p: "p < 65536" "p < npages s" "p \<noteq> 0" "p \<noteq> 7" "\<not> (160 \<le> p \<and> p < 256)" "256 \<le> p \<Longrightarrow> first \<le> p"
    using assms(1,2) by (auto simp: wellplaced_def page_reserved_def layout_defs PGNUM_def)
  have u: "unat (page2pa p) = p * 4096" using p(1) by (simp add: page2pa_values)
  have ext: "page2pa p < EXTPHYSMEM \<longleftrightarrow> p < 256" using u by (simp add: word_less_nat_alt layout_defs)
  have kva: "page2kva s p = Some (page2pa p + KERNBASE)" using page2kva_some p(2) assms(2) by simp
  have base: "unat KERNBASE = 4026531840" by (simp add: layout_defs)
  have "unat (page2pa p + KERNBASE) = p * 4096 + 4026531840"
    using u p(1) base by (simp add: unat_word_ariths)
  moreover have "unat (page_addr first + KERNBASE) = first * 4096 + 4026531840"
    using assms(3) base by (simp add: unat_word_ariths unat_page_addr)
  ultimately have ge: "page_addr first + KERNBASE \<le> page2pa p + KERNBASE" if "256 \<le> p"
    using p(6) [OF that] by (simp add: word_le_nat_alt)
  have ne: "page2pa p \<noteq> 0" "page2pa p \<noteq> IOPHYSMEM" "page2pa p \<noteq> EXTPHYSMEM - PGSIZE" "page2pa p \<noteq> EXTPHYSMEM" "page2pa p \<noteq> MPENTRY_PADDR"
    using u p assms(4) by (auto simp: word_unat_eq_iff layout_defs)
  show ?thesis
    using p(2) ne ext kva ge by (simp add: free_page_ok_def not_less)
qed

lemma count_free_loop_ok:
  assumes "\<forall>p\<in>set ps. free_page_ok s ff p = Some ()" and "chain (pp_link s) x ps" and "length ps \<le> n"
  shows "count_free_loop n ff s x (b, e) = Some (b + length (filter (\<lambda>p. page2pa p < EXTPHYSMEM) ps),
     e + length (filter (\<lambda>p. \<not> page2pa p < EXTPHYSMEM) ps))"
  using assms
proof (induction ps arbitrary: x n b e)
  case Nil
  then show ?case by (cases n) auto
next
  case (Cons p ps)
  then obtain n' where n: "n = Suc n'" "x = Some p" by (cases n) auto
  show ?case
    using Cons.IH [of "pp_link s p" n'] Cons.prems n by simp
qed

lemma check_page_free_list_ok:
  assumes ok: "kdir_ok s K" and np: "npages s \<le> 65536" and first: "256 < first" "first < 65536"
    and boot: "boot_alloc (npages s) kend nextfree 0 = Some (page_addr first + KERNBASE, nf)"
    and placed: "\<And>p. p \<in> set (free_pages s) \<Longrightarrow> wellplaced s first p"
    and low: "p \<in> set (free_pages s)" "p < 256" and high: "q \<in> set (free_pages s)" "256 \<le> q"
  obtains s' where "check_page_free_list kend nextfree b s = Some s'" and "kdir_ok s' K" and "keeps_dir s s' K"
    and "free_pages s' = (if b then low_first 1 (free_pages s) else free_pages s)"
proof -
  let ?lim = "if b then 1 else 1024 :: nat"
  have ne: "page_free_list s \<noteq> None" using low(1) free_list_empty [OF ok] by auto
  obtain s1 where s1: "(if b then low_pages_first ?lim s else Some s) = Some s1" "kdir_ok s1 K" "keeps_dir s s1 K"
    "free_pages s1 = (if b then low_first 1 (free_pages s) else free_pages s)"
  proof (cases b)
    case True
    obtain s' where "low_pages_first 1 s = Some s'" "kdir_ok s' K" "free_pages s' = low_first 1 (free_pages s)"
      "same_setup s s'" "pp_ref s' = pp_ref s" "phys s' = phys s"
      by (rule low_pages_first_ok [OF ok])
    then show thesis using that [of s'] True by (simp add: keeps_dir_def pte_at_def Let_def)
  next
    case False
    then show thesis using that [of s] ok by simp
  qed
  have set1: "set (free_pages s1) = set (free_pages s)" using s1(4) by (cases b) auto
  have np1: "npages s1 = npages s" using s1(3) by (auto simp: keeps_dir_def)
  have len: "length (free_pages s1) \<le> npages s1"
    using free_list_chain [OF s1(2)] table_frames_differ(3) [OF s1(2)] by (intro length_bounded) auto
  have ch: "chain (pp_link s1) (page_free_list s1) (free_pages s1)" using free_list_chain [OF s1(2)] by simp
  have "\<forall>p\<in>set (free_pages s1). unused s1 K p" using free_unused [OF s1(2)] by blast
  from trouble_loop_ok [OF s1(2) ch this len, of ?lim] obtain s2 where
    s2: "trouble_loop ?lim (npages s1) (page_free_list s1) s1 = Some s2" "kdir_ok s2 K" "free_pages s2 = free_pages s1"
      "keeps_dir s1 s2 K" "pp_link s2 = pp_link s1" "page_free_list s2 = page_free_list s1" by blast
  have np2: "npages s2 = npages s" using s2(4) np1 by (auto simp: keeps_dir_def)
  have good: "\<forall>p\<in>set (free_pages s2). free_page_ok s2 (page_addr first + KERNBASE) p = Some ()"
    using free_page_ok_passes [of s2 first] placed set1 s2(3) np2 np first by (auto simp: wellplaced_def)
  have count: "count_free_loop (npages s2) (page_addr first + KERNBASE) s2 (page_free_list s2) (0, 0) =
      Some (length (filter (\<lambda>p. page2pa p < EXTPHYSMEM) (free_pages s2)), length (filter (\<lambda>p. \<not> page2pa p < EXTPHYSMEM) (free_pages s2)))"
    using count_free_loop_ok [OF good, of "page_free_list s2" "npages s2" 0 0] ch len s2 np1 np2 by simp
  have small: "x < 65536" if "x \<in> set (free_pages s)" for x using placed [OF that] np by (simp add: wellplaced_def)
  have "page2pa p < EXTPHYSMEM" "\<not> page2pa q < EXTPHYSMEM"
    using page2pa_values [of p] page2pa_values [of q] low(2) high(2) small [OF low(1)] small [OF high(1)]
    by (simp_all add: word_less_nat_alt layout_defs)
  moreover have "p \<in> set (free_pages s2)" "q \<in> set (free_pages s2)" using low(1) high(1) set1 s2(3) by simp_all
  ultimately have pos: "length (filter (\<lambda>p. page2pa p < EXTPHYSMEM) (free_pages s2)) > 0"
    "length (filter (\<lambda>p. \<not> page2pa p < EXTPHYSMEM) (free_pages s2)) > 0"
    by (auto simp: filter_empty_conv)
  define n1 n2 where "n1 = length (filter (\<lambda>p. page2pa p < EXTPHYSMEM) (free_pages s2))"
    and "n2 = length (filter (\<lambda>p. \<not> page2pa p < EXTPHYSMEM) (free_pages s2))"
  have s2': "trouble_loop ?lim (npages s) (page_free_list s1) s1 = Some s2" using s2(1) np1 by simp
  have "check_page_free_list kend nextfree b s = Some s2"
  proof (cases b)
    case True
    then show ?thesis
      using s1(1) s2' count [folded n1_def n2_def] pos [folded n1_def n2_def]
      by (simp add: check_page_free_list_def ne np1 np2 boot)
  next
    case False
    then have "s1 = s" using s1(1) by simp
    then show ?thesis
      using False s2' count [folded n1_def n2_def] pos [folded n1_def n2_def]
      by (simp add: check_page_free_list_def ne np2 boot)
  qed
  then show thesis using that s2(2,3) keeps_dir_trans [OF s1(3) s2(4)] s1(4) by simp
qed

end
