(* ===== verification/MemPage.thy ===== *)
theory MemPage
  imports MemTests
begin

unbundle bit_operations_syntax

text \<open>
  The self tests of the page tables, \<open>check_page\<close> and \<open>check_page_installed_pgdir\<close>, pass.
\<close>

subsection \<open>Mapping and unmapping in a table that exists\<close>

lemma kdir_refs:
  assumes "kdir_ok s K" and "\<And>p. p \<in> set (free_pages s) \<Longrightarrow> r p = 0"
  shows "kdir_ok (s\<lparr>pp_ref := r\<rparr>) K" and "free_pages (s\<lparr>pp_ref := r\<rparr>) = free_pages s"
proof -
  show fr: "free_pages (s\<lparr>pp_ref := r\<rparr>) = free_pages s" by (simp add: free_pages_def)
  show "kdir_ok (s\<lparr>pp_ref := r\<rparr>) K"
    by (rule kdir_free_list [OF assms(1)])
      (use fr assms(2) kdirD(1,4,8,12) [OF assms(1)] in \<open>auto simp: pages_inv_def\<close>)
qed

lemma same_setup_set_ref [simp]: "same_setup s (set_ref s' p n) = same_setup s s'"
  by (simp add: same_setup_def set_ref_def)

lemma kremove_present:
  assumes ok: "kdir_ok s K" and va: "kern_va va" and e: "pte_at s K va \<noteq> 0" and q: "q = PGNUM (pte_at s K va)"
    and un: "unused s K q" "q \<notin> set (free_pages s)" "pp_link s q = None"
  obtains s' where "page_remove s K va = Some s'" and "kdir_ok s' K" and "same_setup s s'"
    and "pp_ref s' = (pp_ref s)(q := pp_ref s q - 1)"
    and "free_pages s' = (if pp_ref s q = 1 then q # free_pages s else free_pages s)"
    and "phys s' = phys (store_word s (PGNUM (phys s K (PDX va))) (PTX va) 0)"
    and "pp_link s' = (if pp_ref s q = 1 then (pp_link s)(q := page_free_list s) else pp_link s)"
proof -
  have t: "phys s K (PDX va) \<noteq> 0" using e by (auto simp: pte_at_def Let_def)
  have qn: "q < npages s" "q \<noteq> K" "\<And>d. d \<in> ktabs s K \<Longrightarrow> PGNUM (phys s K d) \<noteq> q" "\<not> fixed_frame q" using un(1) by (auto simp: unused_def)
  have look: "page_lookup s K va = Some (Some (q, PGNUM (phys s K (PDX va)), PTX va))"
    using klookup [OF ok va refl refl] e qn(1) q by simp
  let ?s1 = "s\<lparr>pp_ref := (pp_ref s)(q := pp_ref s q - 1)\<rparr>"
  have ok1: "kdir_ok ?s1 K" "free_pages ?s1 = free_pages s"
    by (rule kdir_refs [OF ok]; use un(2) kdirD(5) [OF ok] in auto)+
  obtain s2 where s2: "page_decref s q = Some s2" "kdir_ok s2 K" "same_setup s s2" "pp_ref s2 = pp_ref ?s1" "phys s2 = phys s"
    "free_pages s2 = (if pp_ref s q = 1 then q # free_pages s else free_pages s)"
    "pp_link s2 = (if pp_ref s q = 1 then (pp_link s)(q := page_free_list s) else pp_link s)"
  proof (cases "pp_ref s q = 1")
    case True
    obtain s2 where "page_free ?s1 q = Some s2" "kdir_ok s2 K" "free_pages s2 = q # free_pages ?s1" "same_setup ?s1 s2"
      "pp_ref s2 = pp_ref ?s1" "phys s2 = phys ?s1" "pp_link s2 = (pp_link ?s1)(q := page_free_list ?s1)"
      by (rule kdir_page_free [OF ok1(1), of q]) (use True qn un ok1(2) in \<open>auto simp: ktabs_def\<close>)
    then show thesis using that [of s2] True ok1(2) by (simp add: page_decref_def same_setup_def Let_def)
  next
    case False
    then have "pp_ref s q - 1 \<noteq> 0" by simp
    then show thesis using that [of ?s1] False ok1 by (simp add: page_decref_def same_setup_def Let_def)
  qed
  let ?t = "PGNUM (phys s K (PDX va))"
  let ?s' = "store_word s2 ?t (PTX va) 0"
  have t2: "phys s2 K (PDX va) \<noteq> 0" using t s2(5) by simp
  have "kdir_ok ?s' K" using kdir_store(1) [OF s2(2) va t2, of 0] s2(5) by simp
  moreover have "page_remove s K va = Some ?s'" using look s2(1) by (simp add: page_remove_def)
  ultimately show thesis
    using that [of ?s'] s2(3-7) table_not_fixed [OF ok va t] by simp (simp add: store_word_def free_pages_def)
qed

lemma kremove_absent:
  assumes ok: "kdir_ok s K" and va: "kern_va va" and e: "pte_at s K va = 0"
  shows "page_remove s K va = Some s"
  using klookup [OF ok va refl refl] e by (simp add: page_remove_def)

lemma kinsert_present:
  assumes ok: "kdir_ok s K" and va: "kern_va va" and t: "phys s K (PDX va) \<noteq> 0" and p: "p \<notin> set (free_pages s)"
    and old: "pte_at s K va \<noteq> 0 \<Longrightarrow> unused s K (PGNUM (pte_at s K va)) \<and>
      PGNUM (pte_at s K va) \<notin> set (free_pages s) \<and> pp_link s (PGNUM (pte_at s K va)) = None"
    and r: "r = (pp_ref s)(p := pp_ref s p + 1)"
    and R: "R = (if pte_at s K va = 0 then r else r(PGNUM (pte_at s K va) := r (PGNUM (pte_at s K va)) - 1))"
    and freed: "freed \<longleftrightarrow> pte_at s K va \<noteq> 0 \<and> r (PGNUM (pte_at s K va)) = 1"
  obtains s' where "page_insert s K p va perm = Some (s', 0)" and "kdir_ok s' K" and "same_setup s s'" and "pp_ref s' = R"
    and "free_pages s' = (if freed then PGNUM (pte_at s K va) # free_pages s else free_pages s)"
    and "phys s' = phys (store_word s (PGNUM (phys s K (PDX va))) (PTX va) (page2pa p OR perm OR PTE_P))"
    and "pp_link s' = (if freed then (pp_link s)(PGNUM (pte_at s K va) := page_free_list s) else pp_link s)"
proof -
  let ?t = "PGNUM (phys s K (PDX va))" and ?v = "page2pa p OR perm OR PTE_P"
  let ?s1 = "s\<lparr>pp_ref := r\<rparr>"
  have ok1: "kdir_ok ?s1 K" "free_pages ?s1 = free_pages s"
    by (rule kdir_refs [OF ok]; use p kdirD(5) [OF ok] r in auto)+
  have e1: "pte_at ?s1 K va = pte_at s K va" by (simp add: pte_at_def Let_def)
  obtain s2 where s2: "page_remove ?s1 K va = Some s2" "kdir_ok s2 K" "same_setup s s2" "pp_ref s2 = R"
    "free_pages s2 = (if freed then PGNUM (pte_at s K va) # free_pages s else free_pages s)"
    "phys s2 = phys s \<or> phys s2 = phys (store_word s ?t (PTX va) 0)"
    "pp_link s2 = (if freed then (pp_link s)(PGNUM (pte_at s K va) := page_free_list s) else pp_link s)"
  proof (cases "pte_at s K va = 0")
    case True
    then show thesis
      using that [of ?s1] kremove_absent [OF ok1(1) va] e1 ok1 R freed by (simp add: same_setup_def)
  next
    case False
    have un: "unused ?s1 K (PGNUM (pte_at s K va))" using old [OF False] by (simp add: unused_def ktabs_def)
    obtain s2 where "page_remove ?s1 K va = Some s2" "kdir_ok s2 K" "same_setup ?s1 s2"
      "pp_ref s2 = (pp_ref ?s1)(PGNUM (pte_at s K va) := pp_ref ?s1 (PGNUM (pte_at s K va)) - 1)"
      "free_pages s2 = (if pp_ref ?s1 (PGNUM (pte_at s K va)) = 1 then PGNUM (pte_at s K va) # free_pages ?s1 else free_pages ?s1)"
      "phys s2 = phys (store_word ?s1 ?t (PTX va) 0)"
      "pp_link s2 = (if pp_ref ?s1 (PGNUM (pte_at s K va)) = 1 then (pp_link ?s1)(PGNUM (pte_at s K va) := page_free_list ?s1) else pp_link ?s1)"
      by (rule kremove_present [OF ok1(1) va, of "PGNUM (pte_at s K va)"]) (use False e1 un old [OF False] ok1(2) in auto)
    then show thesis
      using that [of s2] False ok1(2) R freed by (simp add: same_setup_def store_word_def)
  qed
  have K: "?t \<noteq> K" using kdirD(9) [OF ok, of "PDX va"] t va by (simp add: ktabs_iff)
  then have pde2: "phys s2 K = phys s K" using s2(6) by (auto simp: store_word_def)
  let ?s' = "store_word s2 ?t (PTX va) ?v"
  have "kdir_ok ?s' K" using kdir_store(1) [OF s2(2) va, of ?v] t pde2 by simp
  moreover have "page_insert s K p va perm = Some (?s', 0)"
    using kwalk_present [OF ok va t] s2(1) r by (simp add: page_insert_def)
  moreover have "phys ?s' = phys (store_word s ?t (PTX va) ?v)" using s2(6) by (auto simp: store_word_def)
  moreover have "same_setup s ?s'" using s2(3) table_not_fixed [OF ok va t] by simp
  ultimately show thesis using that [of ?s'] s2(4,5,7) by (simp add: free_pages_def) (simp add: store_word_def)
qed

subsection \<open>The two pages of the test\<close>

text \<open>
  The state of \<open>check_page\<close> after its first insertion: the page \<open>a\<close> is the table of the first 4 MB, which
  maps \<open>x\<close> at 0 and \<open>y\<close> at \<open>PGSIZE\<close>; \<open>F\<close> is the free list and \<open>r\<close> the reference counts. Everything
  else is as in \<open>s0\<close>.
\<close>

definition testing :: "pmem \<Rightarrow> nat \<Rightarrow> nat \<Rightarrow> nat set \<Rightarrow> pmem \<Rightarrow> nat list \<Rightarrow> (nat \<Rightarrow> w16) \<Rightarrow> w32 \<Rightarrow> w32 \<Rightarrow> bool" where
  "testing s0 K a P s F r x y \<longleftrightarrow> kdir_ok s K \<and> same_setup s0 s \<and> kern_pgdir s = K \<and> free_pages s = F \<and>
     pp_ref s = r \<and> (\<forall>q. q \<notin> P \<longrightarrow> pp_link s q = pp_link s0 q) \<and> (\<forall>q\<in>P. q \<notin> set F \<longrightarrow> pp_link s q = None) \<and>
     phys s K = (phys s0 K)(0 := table_entry a) \<and> pte_at s K 0 = x \<and> pte_at s K PGSIZE = y \<and>
     (\<forall>va. kern_va va \<longrightarrow> PDX va \<noteq> 0 \<longrightarrow> pte_at s K va = pte_at s0 K va)"

lemma testingD:
  assumes "testing s0 K a P s F r x y"
  shows "kdir_ok s K" and "same_setup s0 s" and "kern_pgdir s = K" and "free_pages s = F" and "pp_ref s = r"
    and "q \<notin> P \<Longrightarrow> pp_link s q = pp_link s0 q" and "q \<in> P \<Longrightarrow> q \<notin> set F \<Longrightarrow> pp_link s q = None"
    and "phys s K = (phys s0 K)(0 := table_entry a)" and "pte_at s K 0 = x" and "pte_at s K PGSIZE = y"
    and "kern_va va \<Longrightarrow> PDX va \<noteq> 0 \<Longrightarrow> pte_at s K va = pte_at s0 K va"
  using assms by (simp_all add: testing_def)

lemma pte_at_phys: "phys s' = phys t \<Longrightarrow> pte_at s' K va = pte_at t K va"
  by (simp only: pte_at_def)

text \<open>What the test takes for granted of the pages \<open>P\<close>: they are neither the directory nor tables of \<open>s0\<close>.\<close>

definition test_pages :: "pmem \<Rightarrow> nat \<Rightarrow> nat \<Rightarrow> nat set \<Rightarrow> bool" where
  "test_pages s0 K a P \<longleftrightarrow> a \<in> P \<and> phys s0 K 0 = 0 \<and> npages s0 \<le> 2 ^ 20 \<and>
     (\<forall>p\<in>P. p < npages s0 \<and> p \<noteq> K \<and> \<not> fixed_frame p \<and> (\<forall>d\<in>ktabs s0 K. PGNUM (phys s0 K d) \<noteq> p))"

lemma two_pages:
  "PDX 0 = 0" "PTX 0 = 0" "PDX PGSIZE = 0" "PTX PGSIZE = 1" "kern_va 0" "kern_va PGSIZE"
  by (simp_all add: kern_va_def UVPT_val(2)) (simp_all add: PDX_def PTX_def PGSIZE_def)

lemma testing_unused:
  assumes "testing s0 K a P s F r x y" and "test_pages s0 K a P" and "p \<in> P" and "p \<noteq> a"
  shows "unused s K p" and "p < 2 ^ 20"
proof -
  have np: "npages s = npages s0" using testingD(2) [OF assms(1)] by auto
  have a: "a < 2 ^ 20" using assms(2) by (auto simp: test_pages_def)
  have "PGNUM (phys s K d) \<noteq> p" if "d \<in> ktabs s K" for d
    using that assms(2-4) table_entry_facts(1) [OF a] testingD(8) [OF assms(1)]
    by (cases "d = 0") (auto simp: test_pages_def ktabs_def)
  then show "unused s K p" using assms(2,3) np by (auto simp: unused_def test_pages_def)
  show "p < 2 ^ 20" using assms(2,3) by (auto simp: test_pages_def)
qed

lemma PTE_ADDR_page2pa: "PTE_ADDR e = page2pa (PGNUM e)"
proof -
  have "e AND NOT (mask 12) = push_bit 12 (drop_bit 12 e)"
    by (rule bit_word_eqI) (auto simp: bit_simps dest: bit_imp_le_length)
  then show ?thesis by (simp add: PTE_ADDR_def page2pa_def PGNUM_def mask_12)
qed

lemma data_entry:
  assumes "p < 2 ^ 20" and "PGNUM perm = 0"
  shows "PGNUM (page2pa p OR perm OR PTE_P) = p" and "page2pa p OR perm OR PTE_P \<noteq> 0"
    and "(page2pa p OR perm OR PTE_P) AND PTE_P \<noteq> 0" and "PTE_ADDR (page2pa p OR perm OR PTE_P) = page2pa p"
proof -
  have fl: "PGNUM (perm OR PTE_P) = 0" using assms(2) by (simp add: PGNUM_def PTE_P_def unat_eq_0)
  from PGNUM_entry [OF assms(1) this] show n: "PGNUM (page2pa p OR perm OR PTE_P) = p" by (simp add: or.assoc)
  show "(page2pa p OR perm OR PTE_P) AND PTE_P \<noteq> 0"
    by (simp add: flag_bits bit_simps) (simp add: PTE_P_def bit_simps)
  then show "page2pa p OR perm OR PTE_P \<noteq> 0" by auto
  show "PTE_ADDR (page2pa p OR perm OR PTE_P) = page2pa p" by (simp only: PTE_ADDR_page2pa n)
qed

lemma testing_insert:
  assumes t: "testing s0 K a P s F r x y" and tp: "test_pages s0 K a P" and va: "va = 0 \<or> va = PGSIZE"
    and p: "p \<in> P" "p \<noteq> a" "p \<notin> set F"
    and old: "e = (if va = 0 then x else y)" "e = 0 \<or> PGNUM e \<in> P - {a} - set F"
    and rp: "rp = r(p := r p + 1)" and R: "R = (if e = 0 then rp else rp(PGNUM e := rp (PGNUM e) - 1))"
    and F': "F' = (if e \<noteq> 0 \<and> rp (PGNUM e) = 1 then PGNUM e # F else F)"
  obtains s' where "insert_ok s p va perm = Some s'"
    and "testing s0 K a P s' F' R (if va = 0 then page2pa p OR perm OR PTE_P else x)
           (if va = 0 then y else page2pa p OR perm OR PTE_P)"
    and "\<And>q. q \<noteq> a \<Longrightarrow> phys s' q = phys s q"
proof -
  note d = testingD [OF t]
  have kva: "kern_va va" "PDX va = 0" using va two_pages by auto
  have e: "pte_at s K va = e" using va old(1) d(9,10) by (auto simp: PGSIZE_def)
  have a: "a < 2 ^ 20" using tp by (auto simp: test_pages_def)
  have tab: "phys s K (PDX va) \<noteq> 0" using d(8) kva(2) table_entry_facts(2) [OF a] by simp
  let ?v = "page2pa p OR perm OR PTE_P" and ?t = "PGNUM (phys s K (PDX va))"
  have oldq: "unused s K (PGNUM e) \<and> PGNUM e \<notin> set (free_pages s) \<and> pp_link s (PGNUM e) = None" if "e \<noteq> 0"
    using that old(2) testing_unused(1) [OF t tp] d(4,7) by auto
  obtain s' where s': "page_insert s K p va perm = Some (s', 0)" "kdir_ok s' K" "same_setup s s'" "pp_ref s' = R"
    "free_pages s' = F'" "phys s' = phys (store_word s ?t (PTX va) ?v)"
    "pp_link s' = (if e \<noteq> 0 \<and> rp (PGNUM e) = 1 then (pp_link s)(PGNUM e := page_free_list s) else pp_link s)"
    by (rule kinsert_present [OF d(1) kva(1) tab, of p rp R "e \<noteq> 0 \<and> rp (PGNUM e) = 1" perm])
      (use e oldq p rp R F' d(4,5) in auto)
  have tK: "?t \<noteq> K" using kdirD(9) [OF d(1), of "PDX va"] ktabs_iff [of va s K] tab kva(1) by simp
  have pte: "pte_at s' K va' = (if same_page va va' then ?v else pte_at s K va')" if "kern_va va'" for va'
    using kdir_store(2) [OF d(1) kva(1) tab that, of ?v] pte_at_phys [OF s'(6)] by simp
  have diff: "same_page 0 0" "same_page PGSIZE PGSIZE" "\<not> same_page 0 PGSIZE" "\<not> same_page PGSIZE 0"
    by (simp_all add: same_page_def two_pages)
  have "testing s0 K a P s' F' R (if va = 0 then ?v else x) (if va = 0 then y else ?v)"
    unfolding testing_def
  proof (intro conjI allI ballI impI)
    show "same_setup s0 s'" using d(2) s'(3) by (rule same_setup_trans)
    show "kern_pgdir s' = K" using s'(3) d(3) by auto
    show "pp_link s' q = pp_link s0 q" if "q \<notin> P" for q
      using that s'(7) d(6) old(2) by auto
    show "pp_link s' q = None" if "q \<in> P" "q \<notin> set F'" for q
      using that s'(7) F' d(7) by (auto split: if_splits)
    show "phys s' K = (phys s0 K)(0 := table_entry a)" using s'(6) tK d(8) by (simp add: store_word_def)
    show "pte_at s' K 0 = (if va = 0 then ?v else x)" "pte_at s' K PGSIZE = (if va = 0 then y else ?v)"
      using va pte [OF two_pages(5)] pte [OF two_pages(6)] d(9,10) diff by (auto simp: PGSIZE_def)
    show "pte_at s' K va' = pte_at s0 K va'" if "kern_va va'" "PDX va' \<noteq> 0" for va'
      using pte [OF that(1)] that d(11) kva(2) by (simp add: same_page_def)
  qed (use s' in auto)
  moreover have "insert_ok s p va perm = Some s'" using s'(1) d(3) by (simp add: insert_ok_def)
  moreover have "?t = a" using d(8) kva(2) table_entry_facts(1) [OF a] by simp
  then have "phys s' q = phys s q" if "q \<noteq> a" for q using that s'(6) by (simp add: store_word_def)
  ultimately show thesis using that by blast
qed

lemma testing_remove:
  assumes t: "testing s0 K a P s F r x y" and tp: "test_pages s0 K a P" and va: "va = 0 \<or> va = PGSIZE"
    and old: "e = (if va = 0 then x else y)" "e \<noteq> 0" "PGNUM e = q" "q \<in> P - {a} - set F"
    and F': "F' = (if r q = 1 then q # F else F)"
  obtains s' where "page_remove s K va = Some s'"
    and "testing s0 K a P s' F' (r(q := r q - 1)) (if va = 0 then 0 else x) (if va = 0 then y else 0)"
proof -
  note d = testingD [OF t]
  have kva: "kern_va va" "PDX va = 0" using va two_pages by auto
  have e: "pte_at s K va = e" using va old(1) d(9,10) by (auto simp: PGSIZE_def)
  have a: "a < 2 ^ 20" using tp by (auto simp: test_pages_def)
  have tab: "phys s K (PDX va) \<noteq> 0" using d(8) kva(2) table_entry_facts(2) [OF a] by simp
  let ?t = "PGNUM (phys s K (PDX va))"
  obtain s' where s': "page_remove s K va = Some s'" "kdir_ok s' K" "same_setup s s'" "pp_ref s' = r(q := r q - 1)"
    "free_pages s' = F'" "phys s' = phys (store_word s ?t (PTX va) 0)"
    "pp_link s' = (if r q = 1 then (pp_link s)(q := page_free_list s) else pp_link s)"
    by (rule kremove_present [OF d(1) kva(1), of q]) (use e old F' d(4,5,7) testing_unused(1) [OF t tp] in auto)
  have tK: "?t \<noteq> K" using kdirD(9) [OF d(1), of "PDX va"] ktabs_iff [of va s K] tab kva(1) by simp
  have pte: "pte_at s' K va' = (if same_page va va' then 0 else pte_at s K va')" if "kern_va va'" for va'
    using kdir_store(2) [OF d(1) kva(1) tab that, of 0] pte_at_phys [OF s'(6)] by simp
  have diff: "same_page 0 0" "same_page PGSIZE PGSIZE" "\<not> same_page 0 PGSIZE" "\<not> same_page PGSIZE 0"
    by (simp_all add: same_page_def two_pages)
  have "testing s0 K a P s' F' (r(q := r q - 1)) (if va = 0 then 0 else x) (if va = 0 then y else 0)"
    unfolding testing_def
  proof (intro conjI allI ballI impI)
    show "same_setup s0 s'" using d(2) s'(3) by (rule same_setup_trans)
    show "kern_pgdir s' = K" using s'(3) d(3) by auto
    show "pp_link s' q' = pp_link s0 q'" if "q' \<notin> P" for q'
      using that s'(7) d(6) old(4) by auto
    show "pp_link s' q' = None" if "q' \<in> P" "q' \<notin> set F'" for q'
      using that s'(7) F' d(7) by (auto split: if_splits)
    show "phys s' K = (phys s0 K)(0 := table_entry a)" using s'(6) tK d(8) by (simp add: store_word_def)
    show "pte_at s' K 0 = (if va = 0 then 0 else x)" "pte_at s' K PGSIZE = (if va = 0 then y else 0)"
      using va pte [OF two_pages(5)] pte [OF two_pages(6)] d(9,10) diff by (auto simp: PGSIZE_def)
    show "pte_at s' K va' = pte_at s0 K va'" if "kern_va va'" "PDX va' \<noteq> 0" for va'
      using pte [OF that(1)] that d(11) kva(2) by (simp add: same_page_def)
  qed (use s' in auto)
  then show thesis using that s'(1) by blast
qed

lemma testing_alloc:
  assumes t: "testing s0 K a P s (p # F) r x y" and p: "p \<in> P"
  obtains s' where "must_alloc False s = Some (s', p)" and "testing s0 K a P s' F r x y"
proof -
  note d = testingD [OF t]
  obtain s' where s': "page_alloc s False = (s', Some p)" "kdir_ok s' K" "free_pages s' = F" "same_setup s s'"
    "pp_ref s' = pp_ref s" "pp_link s' = (pp_link s)(p := None)" "phys s' = phys s"
    "\<And>va. kern_va va \<Longrightarrow> pte_at s' K va = pte_at s K va"
    using kdir_alloc [OF d(1,4), of False] by (metis (full_types))
  have "testing s0 K a P s' F r x y"
    unfolding testing_def
  proof (intro conjI allI ballI impI)
    show "same_setup s0 s'" using d(2) s'(4) by (rule same_setup_trans)
    show "kern_pgdir s' = K" using s'(4) d(3) by auto
    show "pp_link s' q = pp_link s0 q" if "q \<notin> P" for q using that s'(6) d(6) p by auto
    show "pp_link s' q = None" if "q \<in> P" "q \<notin> set F" for q using that s'(6) d(7) by auto
  qed (use s' d two_pages in auto)
  then show thesis using that s'(1) by (simp add: must_alloc_def)
qed

text \<open>What the assertions see.\<close>

lemma KADDR_table:
  assumes "PGNUM e < n" shows "\<exists>kva. KADDR n (PTE_ADDR e) = Some kva"
  using assms by (simp add: KADDR_def)

lemma check_va2pa_present:
  assumes ok: "kdir_ok s K" and va: "kern_va va" and t: "phys s K (PDX va) \<noteq> 0"
  shows "check_va2pa s K va = Some (if pte_at s K va AND PTE_P = 0 then - 1 else PTE_ADDR (pte_at s K va))"
proof -
  have d: "PDX va \<in> ktabs s K" using va t by (simp add: ktabs_iff)
  have n: "PGNUM (phys s K (PDX va)) < npages s" by (rule kdirD(7) [OF ok d])
  then have small: "PGNUM (phys s K (PDX va)) < 2 ^ 20" using kdirD(2) [OF ok] by simp
  from table_entry_facts(3,6) [OF small] kdirD(6) [OF ok d]
  have "phys s K (PDX va) AND PTE_P \<noteq> 0" "phys s K (PDX va) AND PTE_PS = 0" by metis+
  then show ?thesis using n t by (simp add: check_va2pa_def KADDR_def pte_at_def Let_def)
qed

lemma testing_sees:
  assumes t: "testing s0 K a P s F r x y" and tp: "test_pages s0 K a P"
  shows "check_va2pa s K 0 = Some (if x AND PTE_P = 0 then - 1 else PTE_ADDR x)"
    and "check_va2pa s K PGSIZE = Some (if y AND PTE_P = 0 then - 1 else PTE_ADDR y)"
    and "walk_entry s PGSIZE = Some (a, 1)" and "entry_word s PGSIZE = Some y"
    and "walk_agrees s PGSIZE (a, 1) = Some ()" and "phys s K 0 = table_entry a" and "PGNUM (table_entry a) = a"
    and "F = [] \<Longrightarrow> must_be_full s = Some s"
proof -
  note d = testingD [OF t]
  have a: "a < 2 ^ 20" using tp by (auto simp: test_pages_def)
  have np: "npages s = npages s0" using d(2) by auto
  show tab: "phys s K 0 = table_entry a" "PGNUM (table_entry a) = a" using d(8) table_entry_facts(1) [OF a] by simp_all
  have ne: "phys s K 0 \<noteq> 0" using tab(1) table_entry_facts(2) [OF a] by simp
  have "phys s K (PDX 0) \<noteq> 0" "phys s K (PDX PGSIZE) \<noteq> 0" using ne two_pages by simp_all
  from check_va2pa_present [OF d(1) two_pages(5) this(1)] check_va2pa_present [OF d(1) two_pages(6) this(2)] d(9,10)
  show "check_va2pa s K 0 = Some (if x AND PTE_P = 0 then - 1 else PTE_ADDR x)"
    "check_va2pa s K PGSIZE = Some (if y AND PTE_P = 0 then - 1 else PTE_ADDR y)" by simp_all
  have w: "pgdir_walk s K PGSIZE False = Some (s, Some (a, 1))"
    using kwalk_present [OF d(1) two_pages(6), of False] ne two_pages tab by simp
  then show we: "walk_entry s PGSIZE = Some (a, 1)" using d(3) by (simp add: walk_entry_def)
  have "phys s a 1 = y" using d(10) ne two_pages tab by (simp add: pte_at_def Let_def)
  then show "entry_word s PGSIZE = Some y" using we by (simp add: entry_word_def)
  have "a < npages s" using tp np by (auto simp: test_pages_def)
  then show "walk_agrees s PGSIZE (a, 1) = Some ()" using d(3) two_pages tab by (simp add: walk_agrees_def KADDR_def)
  show "F = [] \<Longrightarrow> must_be_full s = Some s" using must_be_full_ok [OF d(1)] d(4) by simp
qed

subsection \<open>The parts of \<open>check_page\<close>\<close>

definition plain_entry :: "nat \<Rightarrow> w32" where "plain_entry p = page2pa p OR PTE_W OR PTE_P"

lemma plain_entry_facts:
  assumes "p < 2 ^ 20"
  shows "PGNUM (plain_entry p) = p" and "plain_entry p \<noteq> 0" and "plain_entry p AND PTE_P \<noteq> 0"
    and "PTE_ADDR (plain_entry p) = page2pa p" and "plain_entry p AND PTE_W \<noteq> 0" and "plain_entry p AND PTE_U = 0"
proof -
  have "PGNUM PTE_W = 0" by (simp add: PGNUM_def PTE_W_def)
  from data_entry [OF assms this] show "PGNUM (plain_entry p) = p" "plain_entry p \<noteq> 0" "plain_entry p AND PTE_P \<noteq> 0"
    "PTE_ADDR (plain_entry p) = page2pa p" unfolding plain_entry_def by blast+
  have bits: "bit (page2pa p) i = False" if "i < 12" for i using that by (simp add: page2pa_def bit_simps)
  have "bit (plain_entry p) 1" "\<not> bit (plain_entry p) 2"
    by (simp_all add: plain_entry_def bit_simps bits) (simp_all add: PTE_W_def PTE_P_def bit_simps)
  then show "plain_entry p AND PTE_W \<noteq> 0" "plain_entry p AND PTE_U = 0" by (simp_all add: flag_bits)
qed

lemma insert_full:
  assumes "kern_pgdir s = K" and "phys s K (PDX va) = 0" and "page_free_list s = None"
  shows "insert_fails s p va perm = Some s"
  using kwalk_absent [OF assms(2), of True] assms by (simp add: insert_fails_def page_insert_def E_NO_MEM_def)

text \<open>The state in which the test starts: three pages taken, the list stolen.\<close>

definition test_start :: "pmem \<Rightarrow> nat \<Rightarrow> nat \<Rightarrow> nat \<Rightarrow> nat \<Rightarrow> bool" where
  "test_start s K a b c \<longleftrightarrow> kdir_ok s K \<and> kern_pgdir s = K \<and> free_pages s = [] \<and> distinct [a, b, c] \<and>
     test_pages s K a {a, b, c} \<and> phys s K 1 = 0 \<and>
     (\<forall>p\<in>{a, b, c}. pp_ref s p = 0 \<and> pp_link s p = None)"

lemma test_startD:
  assumes "test_start s K a b c"
  shows "kdir_ok s K" and "kern_pgdir s = K" and "free_pages s = []" and "distinct [a, b, c]"
    and "test_pages s K a {a, b, c}" and "phys s K 1 = 0" and "p \<in> {a, b, c} \<Longrightarrow> pp_ref s p = 0"
    and "p \<in> {a, b, c} \<Longrightarrow> pp_link s p = None" and "p \<in> {a, b, c} \<Longrightarrow> unused s K p" and "phys s K 0 = 0"
    and "a < 2 ^ 20" "b < 2 ^ 20" "c < 2 ^ 20"
  using assms unfolding test_start_def test_pages_def unused_def by auto

text \<open>The first insertion makes the page \<open>a\<close> the table.\<close>

lemma testing_begin:
  assumes ok: "kdir_ok u K" and su: "same_setup s0 u" and kd: "kern_pgdir s0 = K" and free: "free_pages u = a # F"
    and z: "phys s0 K 0 = 0" and K: "phys u K = phys s0 K" and a: "a \<in> P" and va: "va = 0 \<or> va = PGSIZE"
    and links: "\<And>q. q \<notin> P \<Longrightarrow> pp_link u q = pp_link s0 q" "\<And>q. q \<in> P \<Longrightarrow> q \<notin> set (a # F) \<Longrightarrow> pp_link u q = None"
    and pte: "\<And>va. kern_va va \<Longrightarrow> pte_at u K va = pte_at s0 K va"
  obtains u' where "\<And>p perm. insert_ok u p va perm = insert_ok u' p va perm"
    and "\<And>p perm. page_insert u K p va perm = page_insert u' K p va perm"
    and "testing s0 K a P u' F ((pp_ref u)(a := 1)) 0 0" and "\<And>q. q \<noteq> a \<Longrightarrow> q \<noteq> K \<Longrightarrow> phys u' q = phys u q"
proof -
  have kva: "kern_va va" "PDX va = 0" using va two_pages by auto
  have zu: "phys u K (PDX va) = 0" using K z kva by simp
  obtain u' where u': "pgdir_walk u K va True = Some (u', Some (a, PTX va))" "kdir_ok u' K" "free_pages u' = F"
    "same_setup u u'" "pp_ref u' = (pp_ref u)(a := 1)" "pp_link u' = (pp_link u)(a := None)"
    "phys u' = (phys u)(a := \<lambda>_. 0, K := (phys u K)(PDX va := table_entry a))"
    "\<And>va. kern_va va \<Longrightarrow> pte_at u' K va = pte_at u K va" "a < npages u" "a \<noteq> K"
    using kwalk_new [OF ok kva(1) zu free] by metis
  have e0: "pte_at s0 K 0 = 0" "pte_at s0 K PGSIZE = 0" using z two_pages by (simp_all add: pte_at_def)
  have t: "testing s0 K a P u' F ((pp_ref u)(a := 1)) 0 0"
    unfolding testing_def
  proof (intro conjI allI ballI impI)
    show "same_setup s0 u'" using su u'(4) by (rule same_setup_trans)
    then show "kern_pgdir u' = K" using kd by auto
    show "pp_link u' q = pp_link s0 q" if "q \<notin> P" for q using that links(1) [OF that] u'(6) a by auto
    show "pp_link u' q = None" if "q \<in> P" "q \<notin> set F" for q using links(2) [OF that(1)] that(2) u'(6) by auto
    show "phys u' K = (phys s0 K)(0 := table_entry a)" using u'(7) K kva by simp
  qed (use u' pte e0 two_pages in auto)
  have small: "a < 2 ^ 20" using u'(9) kdirD(2) [OF ok] by simp
  have "phys u' K (PDX va) = table_entry a" using testingD(8) [OF t] kva by simp
  then have w: "pgdir_walk u' K va True = Some (u', Some (a, PTX va))"
    using kwalk_present [OF u'(2) kva(1), of True] table_entry_facts(1,2) [OF small] by simp
  have kds: "kern_pgdir u = K" "kern_pgdir u' = K" using su kd testingD(3) [OF t] by auto
  have "page_insert u K p va perm = page_insert u' K p va perm" for p perm
    using u'(1) w by (simp add: page_insert_def)
  moreover from this have "insert_ok u p va perm = insert_ok u' p va perm" for p perm
    using kds by (simp add: insert_ok_def)
  moreover have "phys u' q = phys u q" if "q \<noteq> a" "q \<noteq> K" for q using that u'(7) by simp
  ultimately show thesis using that t by blast
qed

lemma check_insert_ok:
  assumes st: "test_start s K a b c"
  obtains s' where "check_insert s a b c = Some s'"
    and "testing s K a {a, b, c} s' [] ((pp_ref s)(a := 1, b := 1, c := 1)) (plain_entry b) (plain_entry c)"
proof -
  note d = test_startD [OF st]
  have none: "page_free_list s = None" using free_list_empty [OF d(1)] d(3) by simp
  have e0: "pte_at s K 0 = 0" "pte_at s K PGSIZE = 0" using d(10) two_pages by (simp_all add: pte_at_def)
  have look: "page_lookup s K 0 = Some None" using klookup [OF d(1) two_pages(5) refl refl] e0 by simp
  have fails: "insert_fails s b 0 PTE_W = Some s" using insert_full [OF d(2) _ none, of 0] d(10) two_pages by simp
  obtain s1 where s1: "page_free s a = Some s1" "kdir_ok s1 K" "free_pages s1 = [a]" "same_setup s s1"
    "pp_ref s1 = pp_ref s" "phys s1 = phys s" "pp_link s1 = (pp_link s)(a := page_free_list s)"
    by (rule kdir_page_free [OF d(1), of a]) (use d(3) d(7-9) [of a] in \<open>auto simp: unused_def\<close>)
  have pte1: "pte_at s1 K va = pte_at s K va" for va using s1(6) by (rule pte_at_phys)
  have links: "pp_link s1 q = pp_link s q" if "q \<notin> {a, b, c}" for q using that s1(7) by auto
  have nolinks: "pp_link s1 q = None" if "q \<in> {a, b, c}" "q \<notin> set [a]" for q using d(8) [OF that(1)] that(2) s1(7) by auto
  obtain s2 where same: "insert_ok s1 b 0 PTE_W = insert_ok s2 b 0 PTE_W"
    and t2: "testing s K a {a, b, c} s2 [] ((pp_ref s)(a := 1)) 0 0"
    by (rule testing_begin [OF s1(2,4) d(2) s1(3) d(10) _ _ _ links nolinks pte1, where va = 0 and P = "{a, b, c}"]) (use s1(5,6) in auto)
  obtain s3 where s3: "insert_ok s2 b 0 PTE_W = Some s3"
    "testing s K a {a, b, c} s3 [] ((pp_ref s)(a := 1, b := 1)) (plain_entry b) 0"
    by (rule testing_insert [OF t2 d(5), where va = 0 and p = b and e = 0 and perm = PTE_W])
      (use d(4,7) in \<open>auto simp: plain_entry_def\<close>)
  note sees3 = testing_sees [OF s3(2) d(5)]
  obtain s4 where s4: "insert_ok s3 c PGSIZE PTE_W = Some s4"
    "testing s K a {a, b, c} s4 [] ((pp_ref s)(a := 1, b := 1, c := 1)) (plain_entry b) (plain_entry c)"
    by (rule testing_insert [OF s3(2) d(5), where va = PGSIZE and p = c and e = 0 and perm = PTE_W])
      (use d(4,7) in \<open>auto simp: plain_entry_def PGSIZE_def\<close>)
  note sees4 = testing_sees [OF s4(2) d(5)]
  note pb = plain_entry_facts [OF d(12)] and pc = plain_entry_facts [OF d(13)]
  have dist: "a \<noteq> b" "a \<noteq> c" "b \<noteq> c" using d(4) by auto
  have "check_insert s a b c = Some s4"
    using must_be_full_ok [OF d(1,3)] look fails s1(1) same s3(1) s4(1) sees3(1,6,7) sees4(2,8) pb(3,4) pc(3,4) dist
      testingD(3,5) [OF s3(2)] testingD(3,5) [OF s4(2)] d(2)
    by (simp add: check_insert_def maps_to_def PTE_ADDR_page2pa)
  then show thesis using that s4(2) by blast
qed

lemma check_permissions_ok:
  assumes st: "test_start s0 K a b c"
    and t: "testing s0 K a {a, b, c} s [] ((pp_ref s0)(a := 1, b := 1, c := 1)) (plain_entry b) (plain_entry c)"
  obtains s' where "check_permissions s a b c = Some s'"
    and "testing s0 K a {a, b, c} s' [] ((pp_ref s0)(a := 1, b := 1, c := 1)) (plain_entry b) (plain_entry c)"
proof -
  note d = test_startD [OF st]
  note pc = plain_entry_facts [OF d(13)]
  let ?r = "(pp_ref s0)(a := 1, b := 1, c := 1)"
  have dist: "a \<noteq> b" "a \<noteq> c" "b \<noteq> c" using d(4) by auto
  have again: thesis'
    if "testing s0 K a {a, b, c} u [] ?r (plain_entry b) e" "e \<noteq> 0" "PGNUM e = c"
      "\<And>s'. insert_ok u c PGSIZE perm = Some s' \<Longrightarrow>
        testing s0 K a {a, b, c} s' [] ?r (plain_entry b) (page2pa c OR perm OR PTE_P) \<Longrightarrow> thesis'" for thesis' u e perm
    by (rule testing_insert [OF that(1) d(5), where va = PGSIZE and p = c and e = e and perm = perm
          and rp = "?r(c := 2)" and R = ?r and F' = "[]"])
      (use that dist in \<open>auto simp: PGSIZE_def fun_eq_iff\<close>)
  obtain s1 where s1: "insert_ok s c PGSIZE PTE_W = Some s1"
    "testing s0 K a {a, b, c} s1 [] ?r (plain_entry b) (plain_entry c)"
    by (rule again [OF t pc(2,1), of PTE_W]) (simp add: plain_entry_def)
  note sees1 = testing_sees [OF s1(2) d(5)]
  let ?e = "page2pa c OR (PTE_W OR PTE_U) OR PTE_P"
  have "PGNUM (PTE_W OR PTE_U) = 0" by (simp add: PGNUM_def PTE_W_def PTE_U_def)
  note e = data_entry [OF d(13) this]
  have eU: "?e AND PTE_U \<noteq> 0" by (simp add: flag_bits bit_simps) (simp add: PTE_U_def bit_simps)
  obtain s2 where s2: "insert_ok s1 c PGSIZE (PTE_W OR PTE_U) = Some s2"
    "testing s0 K a {a, b, c} s2 [] ?r (plain_entry b) ?e"
    by (rule again [OF s1(2) pc(2,1)])
  note sees2 = testing_sees [OF s2(2) d(5)]
  obtain s3 where s3: "insert_ok s2 c PGSIZE PTE_W = Some s3"
    "testing s0 K a {a, b, c} s3 [] ?r (plain_entry b) (plain_entry c)"
    by (rule again [OF s2(2) e(2,1), of PTE_W]) (simp add: plain_entry_def)
  note sees3 = testing_sees [OF s3(2) d(5)] and d3 = testingD [OF s3(2)]
  have "PDX PTSIZE = 1" by (simp add: PDX_def layout_defs)
  then have "phys s3 K (PDX PTSIZE) = 0" using d3(8) d(6) by simp
  moreover have "page_free_list s3 = None" using free_list_empty [OF d3(1)] d3(4) by simp
  ultimately have full: "insert_fails s3 a PTSIZE PTE_W = Some s3" by (rule insert_full [OF d3(3)])
  have "check_permissions s a b c = Some s3"
    using s1(1) s2(1) s3(1) full sees1(2-5,8) sees2(2,4,6) sees3(4) pc(3-6) e(3,4) eU dist
      table_entry_facts(5) [OF d(11)] testingD(3,5) [OF s1(2)] testingD(3,5) [OF s2(2)]
    by (simp add: check_permissions_def maps_to_def)
  then show thesis using that s3(2) by blast
qed

lemma check_replace_ok:
  assumes st: "test_start s0 K a b c"
    and t: "testing s0 K a {a, b, c} s [] ((pp_ref s0)(a := 1, b := 1, c := 1)) (plain_entry b) (plain_entry c)"
  obtains s' where "check_replace s a b c = Some s'"
    and "testing s0 K a {a, b, c} s' [] ((pp_ref s0)(a := 1)) 0 0"
proof -
  note d = test_startD [OF st]
  note pb = plain_entry_facts [OF d(12)] and pc = plain_entry_facts [OF d(13)]
  have dist: "a \<noteq> b" "a \<noteq> c" "b \<noteq> c" using d(4) by auto
  have z: "pp_ref s0 b = 0" "pp_ref s0 c = 0" using d(7) by auto
  have r_eq: "(pp_ref s0)(a := 1, b := 2, c := 0) = (pp_ref s0)(a := 1, b := 2)"
    "(pp_ref s0)(a := 1, b := 0) = (pp_ref s0)(a := 1)" using z dist by (auto simp: fun_eq_iff)
  obtain s1 where s1: "insert_ok s b PGSIZE PTE_W = Some s1"
    "testing s0 K a {a, b, c} s1 [c] ((pp_ref s0)(a := 1, b := 2)) (plain_entry b) (plain_entry b)"
    by (rule testing_insert [OF t d(5), where va = PGSIZE and p = b and e = "plain_entry c" and perm = PTE_W
        and rp = "(pp_ref s0)(a := 1, b := 2, c := 1)" and R = "(pp_ref s0)(a := 1, b := 2)" and F' = "[c]"])
      (use dist pc(1,2) z in \<open>auto simp: PGSIZE_def fun_eq_iff plain_entry_def\<close>)
  note sees1 = testing_sees [OF s1(2) d(5)]
  obtain s2 where s2: "must_alloc False s1 = Some (s2, c)"
    "testing s0 K a {a, b, c} s2 [] ((pp_ref s0)(a := 1, b := 2)) (plain_entry b) (plain_entry b)"
    by (rule testing_alloc [OF s1(2)]) simp
  obtain s3 where s3: "page_remove s2 K 0 = Some s3"
    "testing s0 K a {a, b, c} s3 [] ((pp_ref s0)(a := 1, b := 1)) 0 (plain_entry b)"
    by (rule testing_remove [OF s2(2) d(5), where va = 0 and q = b and e = "plain_entry b" and F' = "[]"])
      (use dist pb(1,2) in auto)
  note sees3 = testing_sees [OF s3(2) d(5)]
  let ?e = "page2pa b OR 0 OR PTE_P"
  have "PGNUM 0 = 0" by (simp add: PGNUM_def)
  note e = data_entry [OF d(12) this]
  obtain s4 where s4: "insert_ok s3 b PGSIZE 0 = Some s4"
    "testing s0 K a {a, b, c} s4 [] ((pp_ref s0)(a := 1, b := 1)) 0 ?e"
    by (rule testing_insert [OF s3(2) d(5), where va = PGSIZE and p = b and e = "plain_entry b" and perm = 0
        and rp = "(pp_ref s0)(a := 1, b := 2)" and R = "(pp_ref s0)(a := 1, b := 1)" and F' = "[]"])
      (use dist pb(1,2) in \<open>auto simp: PGSIZE_def fun_eq_iff\<close>)
  obtain s5 where s5: "page_remove s4 K PGSIZE = Some s5"
    "testing s0 K a {a, b, c} s5 [b] ((pp_ref s0)(a := 1)) 0 0"
    by (rule testing_remove [OF s4(2) d(5), where va = PGSIZE and q = b and e = ?e and F' = "[b]"])
      (use dist e(1,2) r_eq in \<open>auto simp: PGSIZE_def\<close>)
  note sees5 = testing_sees [OF s5(2) d(5)]
  obtain s6 where s6: "must_alloc False s5 = Some (s6, b)"
    "testing s0 K a {a, b, c} s6 [] ((pp_ref s0)(a := 1)) 0 0"
    by (rule testing_alloc [OF s5(2)]) simp
  have "pp_link s4 b = None" using testingD(7) [OF s4(2), of b] by simp
  then have "check_replace s a b c = Some s6"
    using s1(1) s2(1) s3(1) s4(1) s5(1) s6(1) sees1(1,2,4) sees3(1,2) sees5(1,2) testing_sees(8) [OF s6(2) d(5) refl]
      pb(3,4,6) dist z testingD(3,5) [OF s1(2)] testingD(3,5) [OF s2(2)] testingD(3,5) [OF s3(2)]
      testingD(3,5) [OF s4(2)] testingD(3,5) [OF s5(2)]
    by (simp add: check_replace_def maps_to_def)
  then show thesis using that s6(2) by blast
qed

subsection \<open>Tables made and taken back\<close>

lemma kdir_drop_table:
  assumes ok: "kdir_ok s K" and t: "t < 2 ^ 20" "phys s K d = table_entry t" "d < 1024" "d \<noteq> PDX UVPT"
    and s': "s' = set_ref (store_word s K d 0) t 0"
  shows "kdir_ok s' K" and "free_pages s' = free_pages s" and "unused s' K t"
    and "kern_va va \<Longrightarrow> PDX va \<noteq> d \<Longrightarrow> pte_at s' K va = pte_at s K va" and "phys s' K = (phys s K)(d := 0)"
proof -
  note te = table_entry_facts [OF t(1)]
  have d: "d \<in> ktabs s K" using t te(2) by (simp add: ktabs_def)
  have tn: "t < npages s" "t \<notin> set (free_pages s)" "t \<noteq> K" using kdirD(7-9) [OF ok d] te(1) t(2) by simp_all
  have tabs: "ktabs s' K = ktabs s K - {d}" unfolding s' by (auto simp: ktabs_def set_ref_def store_word_def)
  have sel: "phys s' K = (phys s K)(d := 0)" "npages s' = npages s" "pp_ref s' = (pp_ref s)(t := 0)"
    "\<And>q. q \<noteq> K \<Longrightarrow> phys s' q = phys s q"
    by (simp_all add: s' set_ref_def store_word_def)
  show fr: "free_pages s' = free_pages s" by (simp add: s' free_pages_def set_ref_def store_word_def)
  have inv: "pages_inv s'" using kdirD(1) [OF ok] by (simp add: s' pages_inv_def set_ref_def store_word_def)
  show "kdir_ok s' K"
    unfolding kdir_ok_def tabs fr sel(1-3)
  proof (intro conjI ballI)
    show "pages_inv s'" by (rule inv)
    show "npages s \<le> 2 ^ 20" "K < npages s" "K \<notin> set (free_pages s)" using kdirD(2-4) [OF ok] by simp_all
    show "\<not> fixed_frame K" by (rule kdirD(11) [OF ok])
    show "\<not> fixed_frame p" if "p \<in> set (free_pages s)" for p by (rule kdirD(12) [OF ok that])
    show "((pp_ref s)(t := 0)) p = 0" if "p \<in> set (free_pages s)" for p using kdirD(5) [OF ok that] by simp
    show "inj_on (\<lambda>x. PGNUM (((phys s K)(d := 0)) x)) (ktabs s K - {d})"
      using kdirD(10) [OF ok] by (auto simp: inj_on_def)
    fix x assume "x \<in> ktabs s K - {d}"
    then show "((phys s K)(d := 0)) x = table_entry (PGNUM (((phys s K)(d := 0)) x))"
      "PGNUM (((phys s K)(d := 0)) x) < npages s" "PGNUM (((phys s K)(d := 0)) x) \<notin> set (free_pages s)"
      "PGNUM (((phys s K)(d := 0)) x) \<noteq> K" "\<not> fixed_frame (PGNUM (((phys s K)(d := 0)) x))"
      using kdirD(6-9,13) [OF ok, of x] by auto
  qed
  have "PGNUM (phys s' K x) \<noteq> t" if "x \<in> ktabs s' K" for x
    using that kdirD(10) [OF ok _ d, of x] te(1) t(2) unfolding tabs by (auto simp: sel(1))
  moreover have "\<not> fixed_frame t" using kdirD(13) [OF ok d] te(1) t(2) by simp
  ultimately show "unused s' K t" using tn sel(2) by (auto simp: unused_def)
  show "phys s' K = (phys s K)(d := 0)" by (rule sel(1))
  assume va: "kern_va va" "PDX va \<noteq> d"
  show "pte_at s' K va = pte_at s K va"
  proof (cases "phys s K (PDX va) = 0")
    case True
    then show ?thesis using va by (simp add: pte_at_def sel(1))
  next
    case False
    then have "PGNUM (phys s K (PDX va)) \<noteq> K" using kdirD(9) [OF ok, of "PDX va"] va by (simp add: ktabs_iff)
    then show ?thesis using va by (simp add: pte_at_def sel(1,4) Let_def)
  qed
qed

text \<open>The page \<open>a\<close> becomes the table of an address and is taken back.\<close>

lemma table_round:
  assumes ok: "kdir_ok s K" and kd: "kern_pgdir s = K" and free: "free_pages s = []"
    and a: "unused s K a" "pp_ref s a = 0" "pp_link s a = None" and va: "kern_va va" "phys s K (PDX va) = 0"
  obtains s1 s2 s3 where "page_free s a = Some s1" and "pgdir_walk s1 K va True = Some (s2, Some (a, PTX va))"
    and "kern_pgdir s1 = K" and "kern_pgdir s2 = K" and "walk_agrees s2 va (a, PTX va) = Some ()" and "\<And>i. phys s2 a i = 0"
    and "a < npages s2" and "npages s2 \<le> 2 ^ 20" and "s3 = set_ref (store_word s2 K (PDX va) 0) a 0"
    and "kdir_ok s3 K" and "free_pages s3 = []" and "unused s3 K a" and "same_setup s s3" and "pp_ref s3 = pp_ref s"
    and "pp_link s3 = pp_link s" and "phys s3 K = phys s K" and "\<And>va. kern_va va \<Longrightarrow> pte_at s3 K va = pte_at s K va"
proof -
  have an: "a < npages s" "a \<noteq> K" using a(1) by (simp_all add: unused_def)
  obtain s1 where s1: "page_free s a = Some s1" "kdir_ok s1 K" "free_pages s1 = [a]" "same_setup s s1"
    "pp_ref s1 = pp_ref s" "phys s1 = phys s" "pp_link s1 = (pp_link s)(a := page_free_list s)"
    by (rule kdir_page_free [OF ok, of a]) (use a free in \<open>auto simp: unused_def\<close>)
  have z: "phys s1 K (PDX va) = 0" using va(2) s1(6) by simp
  obtain s2 where s2: "pgdir_walk s1 K va True = Some (s2, Some (a, PTX va))" "kdir_ok s2 K" "free_pages s2 = []"
    "same_setup s1 s2" "pp_ref s2 = (pp_ref s1)(a := 1)" "pp_link s2 = (pp_link s1)(a := None)"
    "phys s2 = (phys s1)(a := \<lambda>_. 0, K := (phys s1 K)(PDX va := table_entry a))"
    "\<And>va. kern_va va \<Longrightarrow> pte_at s2 K va = pte_at s1 K va"
    using kwalk_new [OF s1(2) va(1) z s1(3)] by metis
  have su: "same_setup s s2" using s1(4) s2(4) by (rule same_setup_trans)
  have small: "a < 2 ^ 20" using an kdirD(2) [OF ok] by simp
  have pde: "phys s2 K (PDX va) = table_entry a" using s2(7) by simp
  have dva: "PDX va < 1024" "PDX va \<noteq> PDX UVPT" using va(1) PDX_small by (simp_all add: kern_va_def)
  define s3 where "s3 = set_ref (store_word s2 K (PDX va) 0) a 0"
  note drop = kdir_drop_table [OF s2(2) small pde dva s3_def]
  have physK: "phys s3 K = phys s K" using drop(5) s2(7) s1(6) va(2) by (auto simp: fun_eq_iff)
  show thesis
  proof (rule that [OF s1(1) s2(1) _ _ _ _ _ _ s3_def drop(1) _ drop(3)])
    show "kern_pgdir s1 = K" "kern_pgdir s2 = K" using su s1(4) kd by auto
    show "walk_agrees s2 va (a, PTX va) = Some ()"
      using same_setupD [OF su] kd pde table_entry_facts(1) [OF small] an by (simp add: walk_agrees_def KADDR_def)
    show "phys s2 a i = 0" for i using s2(7) an by simp
    show "a < npages s2" "npages s2 \<le> 2 ^ 20" using su an kdirD(2) [OF ok] by auto
    show "free_pages s3 = []" using drop(2) s2(3) by simp
    show "same_setup s s3" using su kdirD(11) [OF ok] by (simp add: s3_def)
    show "pp_ref s3 = pp_ref s" using s2(5) s1(5) a(2) by (auto simp: s3_def set_ref_def store_word_def fun_eq_iff)
    show "pp_link s3 = pp_link s" using s2(6) s1(7) a(3) by (auto simp: s3_def set_ref_def store_word_def fun_eq_iff)
    show "phys s3 K = phys s K" by (rule physK)
    show "pte_at s3 K va' = pte_at s K va'" if "kern_va va'" for va'
    proof (cases "PDX va' = PDX va")
      case True
      then show ?thesis using va(2) by (simp add: pte_at_def physK)
    next
      case False
      then show ?thesis using drop(4) [OF that False] s2(8) [OF that] pte_at_phys [OF s1(6)] by simp
    qed
  qed
qed

lemma check_tables_ok:
  assumes st: "test_start s0 K a b c" and t: "testing s0 K a {a, b, c} s [] ((pp_ref s0)(a := 1)) 0 0"
  obtains s' where "check_tables s a = Some s'" and "kdir_ok s' K" and "free_pages s' = []" and "same_setup s0 s'"
    and "pp_ref s' = pp_ref s0" and "phys s' K = phys s0 K" and "pp_link s' = pp_link s0"
    and "\<And>va. kern_va va \<Longrightarrow> pte_at s' K va = pte_at s0 K va"
proof -
  note d = test_startD [OF st] and dt = testingD [OF t]
  have uv: "PDX UVPT = 957" by (rule UVPT_val(2))
  have pde: "phys s K 0 = table_entry a" using dt(8) by simp
  define s1 where "s1 = set_ref (store_word s K 0 0) a 0"
  have "0 < (1024 :: nat)" "0 \<noteq> PDX UVPT" using uv by simp_all
  note drop = kdir_drop_table [OF dt(1) d(11) pde this s1_def]
  have K1: "phys s1 K = phys s0 K" using drop(5) dt(8) d(10) by (auto simp: fun_eq_iff)
  have ref1: "pp_ref s1 = pp_ref s0" using dt(5) d(7) [of a] by (auto simp: s1_def set_ref_def store_word_def fun_eq_iff)
  have link1: "pp_link s1 = pp_link s0"
  proof
    fix q
    have "pp_link s q = pp_link s0 q" using dt(6) [of q] dt(7) [of q] d(8) [of q] by (cases "q \<in> {a, b, c}") simp_all
    then show "pp_link s1 q = pp_link s0 q" by (simp add: s1_def set_ref_def store_word_def)
  qed
  have su1: "same_setup s0 s1" using dt(2) kdirD(11) [OF d(1)] by (simp add: s1_def)
  have kd1: "kern_pgdir s1 = K" using su1 d(2) by auto
  have fr1: "free_pages s1 = []" using drop(2) dt(4) by simp
  have pte1: "pte_at s1 K va = pte_at s0 K va" if "kern_va va" for va
  proof (cases "PDX va = 0")
    case True
    then show ?thesis using d(10) by (simp add: pte_at_def K1)
  next
    case False
    then show ?thesis using drop(4) [OF that False] dt(11) [OF that False] by simp
  qed
  let ?va = "PGSIZE * 1024 + PGSIZE"
  have va: "PDX ?va = 1" "kern_va ?va" by (simp_all add: kern_va_def uv) (simp_all add: PDX_def PGSIZE_def)
  have z1: "phys s1 K (PDX ?va) = 0" using K1 d(6) va(1) by simp
  have r1: "pp_ref s1 a = 0" "pp_link s1 a = None" using ref1 link1 d(7,8) by simp_all
  obtain u1 u2 u3 where u: "page_free s1 a = Some u1" "pgdir_walk u1 K ?va True = Some (u2, Some (a, PTX ?va))"
    "kern_pgdir u1 = K" "kern_pgdir u2 = K" "walk_agrees u2 ?va (a, PTX ?va) = Some ()"
    "u3 = set_ref (store_word u2 K (PDX ?va) 0) a 0" "kdir_ok u3 K" "free_pages u3 = []" "unused u3 K a" "same_setup s1 u3"
    "pp_ref u3 = pp_ref s1" "pp_link u3 = pp_link s1" "phys u3 K = phys s1 K"
    "\<And>va. kern_va va \<Longrightarrow> pte_at u3 K va = pte_at s1 K va"
    by (rule table_round [OF drop(1) kd1 fr1 drop(3) r1 va(2) z1]) blast
  define u4 where "u4 = u3\<lparr>phys := (phys u3)(a := \<lambda>i. if i < 1024 then 0xFFFFFFFF else phys u3 a i)\<rparr>"
  note fill = fill_frame_ok [OF u(7,9)]
  have aK: "a \<noteq> K" and aF: "\<not> fixed_frame a" using u(9) by (simp_all add: unused_def)
  have u4: "fill_frame u3 a 1024 0xFFFFFFFF = Some u4" "kdir_ok u4 K" "free_pages u4 = []" "phys u4 K = phys s0 K"
    "\<And>va. kern_va va \<Longrightarrow> pte_at u4 K va = pte_at s0 K va" "kern_pgdir u4 = K" "pp_ref u4 = pp_ref s0" "pp_link u4 = pp_link s0"
    "same_setup s0 u4"
    using fill u(8,10-14) aK K1 pte1 ref1 link1 su1 kd1 aF by (auto simp: u4_def same_setup_def)
  have un4: "unused u4 K a" using u(9) unused_cong [of u4 K u3 a] aK by (simp add: u4_def)
  have z4: "phys u4 K (PDX 0) = 0" using u4(4) d(10) two_pages by simp
  have r4: "pp_ref u4 a = 0" "pp_link u4 a = None" using u4(7,8) d(7,8) by simp_all
  obtain w1 w2 w3 where w: "page_free u4 a = Some w1" "pgdir_walk w1 K 0 True = Some (w2, Some (a, PTX 0))"
    "kern_pgdir w1 = K" "kern_pgdir w2 = K" "\<And>i. phys w2 a i = 0" "a < npages w2" "npages w2 \<le> 2 ^ 20"
    "w3 = set_ref (store_word w2 K (PDX 0) 0) a 0" "kdir_ok w3 K" "free_pages w3 = []" "same_setup u4 w3"
    "pp_ref w3 = pp_ref u4" "pp_link w3 = pp_link u4" "phys w3 K = phys u4 K"
    "\<And>va. kern_va va \<Longrightarrow> pte_at w3 K va = pte_at u4 K va"
    by (rule table_round [OF u4(2,6,3) un4 r4 two_pages(5) z4]) blast
  have zero: "list_all (\<lambda>i. phys w2 a i AND PTE_P = 0) [0..<1024]" using w(5) by (simp add: list_all_iff)
  have "check_tables s a = Some w3"
    using dt(3,5) pde table_entry_facts(1) [OF d(11)] s1_def [symmetric] u(1-4) u(5) u(6) [symmetric] u4(1) w(1-4) w(8) [symmetric]
      zero page2kva_some [OF w(6,7)] kd1 va(1) two_pages(1)
    by (simp add: check_tables_def PTE_ADDR_page2pa set_ref_def store_word_def Let_def)
  then show thesis
    using that [of w3] w(9-15) u4(4,5,7-9) same_setup_trans [of s0 u4 w3] by simp
qed

subsection \<open>The region of the devices\<close>

lemma kdir_mmio [simp]:
  "kdir_ok (s\<lparr>mmio_base := x\<rparr>) K = kdir_ok s K" "free_pages (s\<lparr>mmio_base := x\<rparr>) = free_pages s"
  "pte_at (s\<lparr>mmio_base := x\<rparr>) K va = pte_at s K va"
  by (simp_all add: kdir_ok_def pages_inv_def free_pages_def ktabs_def pte_at_def Let_def)

lemma clear_entry_ok:
  assumes ok: "kdir_ok s K" and kd: "kern_pgdir s = K" and va: "kern_va va" and t: "phys s K (PDX va) \<noteq> 0"
  obtains s' where "clear_entry s va = Some s'" and "kdir_ok s' K" and "free_pages s' = free_pages s" and "same_setup s s'"
    and "phys s' K = phys s K" and "\<And>va'. kern_va va' \<Longrightarrow> pte_at s' K va' = (if PGNUM va = PGNUM va' then 0 else pte_at s K va')"
proof -
  let ?s = "store_word s (PGNUM (phys s K (PDX va))) (PTX va) 0"
  have "clear_entry s va = Some ?s" using kwalk_present [OF ok va t, of False] kd by (simp add: clear_entry_def walk_entry_def)
  moreover have "PGNUM (phys s K (PDX va)) \<noteq> K" using kdirD(9) [OF ok, of "PDX va"] ktabs_iff [of va s K] va t by simp
  then have "phys ?s K = phys s K" by (simp add: store_word_def)
  moreover have "free_pages ?s = free_pages s" by (simp add: free_pages_def store_word_def)
  moreover have "same_setup s ?s" using table_not_fixed [OF ok va t] by simp
  ultimately show thesis
    using that [of ?s] kdir_store(1) [OF ok va t, of 0] kdir_store(2) [OF ok va t, where v = 0] by (simp add: same_page_PGNUM)
qed

lemma entry_word_ok:
  assumes ok: "kdir_ok s K" and kd: "kern_pgdir s = K" and va: "kern_va va" and t: "phys s K (PDX va) \<noteq> 0"
  shows "entry_word s va = Some (pte_at s K va)"
  using kwalk_present [OF ok va t, of False] kd t by (simp add: entry_word_def walk_entry_def pte_at_def Let_def)

lemma mmio_addresses:
  "MMIOBASE = page_addr 980992" "MMIOBASE + PGSIZE = page_addr 980993" "MMIOBASE + 8192 = page_addr 980994"
  "MMIOBASE + 8192 + PGSIZE = page_addr 980995"
  by (simp_all add: page_addr_def push_bit_eq_mult layout_defs)

lemma mmio_pages:
  assumes "980992 \<le> n" "n < 982016"
  shows "PDX (page_addr n) = 958" and "kern_va (page_addr n)" and "PGNUM (page_addr n) = n"
  using assms by (simp_all add: page_addr_index kern_va_def UVPT_val(2) PGNUM_page_addr)

definition mmio_perm :: w32 where "mmio_perm = PTE_W OR PTE_P OR PTE_PCD OR PTE_PWT"

lemma mmio_perm_facts:
  "PGNUM mmio_perm = 0" "(page2pa k OR mmio_perm OR PTE_P) AND (PTE_W OR PTE_PWT OR PTE_PCD) \<noteq> 0"
  "(page2pa k OR mmio_perm OR PTE_P) AND PTE_U = 0"
proof -
  show "PGNUM mmio_perm = 0" by (simp add: mmio_perm_def PGNUM_def PTE_W_def PTE_P_def PTE_PCD_def PTE_PWT_def)
  have m: "mmio_perm OR PTE_P = 0x1B" by (simp add: mmio_perm_def PTE_W_def PTE_P_def PTE_PCD_def PTE_PWT_def)
  have low: "bit (page2pa k) i = False" if "i < 12" for i using that by (simp add: page2pa_def bit_simps)
  let ?e = "page2pa k OR mmio_perm OR PTE_P"
  have b: "bit ?e 1" "\<not> bit ?e 2" unfolding m by (simp_all add: bit_simps low)
  then show "?e AND PTE_U = 0" by (simp add: flag_bits)
  have "bit (?e AND (PTE_W OR PTE_PWT OR PTE_PCD)) 1" using b(1) by (simp add: bit_simps PTE_W_def)
  then show "?e AND (PTE_W OR PTE_PWT OR PTE_PCD) \<noteq> 0" by auto
qed

lemma mmio_map_at:
  assumes ok: "kdir_ok s K" and kd: "kern_pgdir s = K" and base: "mmio_base s = page_addr v" "980992 \<le> v" "v + n < 982016"
    and n: "unat (ROUNDUP sz PGSIZE) = 4096 * n"
    and none: "\<And>k. k < n \<Longrightarrow> pte_at s K (page_addr (v + k)) = 0" and room: "phys s K 958 = 0 \<Longrightarrow> free_pages s \<noteq> []"
  obtains s' where "mmio_map_region s pa sz = Some (s'\<lparr>mmio_base := page_addr (v + n)\<rparr>, page_addr v)"
    and "mapped_region s s' K v {..<n} (ROUNDDOWN pa PGSIZE) mmio_perm"
proof -
  have sz: "ROUNDUP sz PGSIZE = word_of_nat (4096 * n)" by (subst n [symmetric]) simp
  have add: "page_addr v + ROUNDUP sz PGSIZE = page_addr (v + n)"
    unfolding sz using page_addr_add [of v n] by (simp add: PGSIZE_def)
  have "page_addr (v + n) < MMIOLIM"
  proof -
    have "unat MMIOLIM = 982016 * 4096" by (simp add: layout_defs)
    then show ?thesis using base by (simp add: word_less_nat_alt unat_page_addr)
  qed
  then have fits: "\<not> MMIOLIM \<le> page_addr v + ROUNDUP sz PGSIZE" unfolding add by simp
  have pages: "kern_va (page_addr (v + k)) \<and> pte_at s K (page_addr (v + k)) = 0" if "k < n" for k
    using mmio_pages(2) [of "v + k"] base none [OF that] that by simp
  have "new_tables s K ((\<lambda>k. (v + k) div 1024) ` {..<n}) \<subseteq> (if phys s K 958 = 0 then {958} else {})"
  proof -
    have "(v + k) div 1024 = 958" if "k < n" for k using that base by linarith
    then show ?thesis by (auto simp: new_tables_def)
  qed
  then have "card (new_tables s K ((\<lambda>k. (v + k) div 1024) ` {..<n})) \<le> card (if phys s K 958 = 0 then {958} else {} :: nat set)"
    by (intro card_mono) auto
  also have "\<dots> \<le> length (free_pages s)" using room by (cases "free_pages s") auto
  finally have enough: "card (new_tables s K ((\<lambda>k. (v + k) div 1024) ` {..<n})) \<le> length (free_pages s)" .
  obtain s' where s': "boot_map_region s K (page_addr v) (ROUNDUP sz PGSIZE) (ROUNDDOWN pa PGSIZE) mmio_perm = Some s'"
    "mapped_region s s' K v {..<n} (ROUNDDOWN pa PGSIZE) mmio_perm"
    by (rule boot_map_region_ok [OF ok n, of v "ROUNDDOWN pa PGSIZE" mmio_perm]) (use pages base enough in auto)
  have mb: "mmio_base s' = page_addr v" using mapped_regionD(2) [OF s'(2)] base(1) by auto
  have less: "page_addr (v + n) - ROUNDUP sz PGSIZE = page_addr v" unfolding add [symmetric] by simp
  have "mmio_map_region s pa sz = Some (s'\<lparr>mmio_base := page_addr (v + n)\<rparr>, page_addr v)"
    using s'(1) fits base(1) kd mb less by (simp add: mmio_map_region_def mmio_perm_def Let_def add)
  then show thesis using that s'(2) by blast
qed

lemma mmio_map_ok:
  assumes ok: "kdir_ok s K" and kd: "kern_pgdir s = K" and base: "mmio_base s = page_addr v" "980992 \<le> v" "v + n < 982016"
    and n: "unat (ROUNDUP sz PGSIZE) = 4096 * n"
    and none: "\<And>k. k < n \<Longrightarrow> pte_at s K (page_addr (v + k)) = 0" and room: "phys s K 958 = 0 \<Longrightarrow> free_pages s \<noteq> []"
  obtains s' where "mmio_map_region s 0 sz = Some (s'\<lparr>mmio_base := page_addr (v + n)\<rparr>, page_addr v)"
    and "mapped_region s s' K v {..<n} 0 mmio_perm"
proof -
  have "ROUNDDOWN 0 PGSIZE = 0" by (simp add: ROUNDDOWN_def)
  then show thesis using mmio_map_at [OF assms, of 0] that by metis
qed

text \<open>What a region mapping leaves in the pages of the devices.\<close>

lemma mapped_page:
  assumes m: "mapped_region s s' K v {..<n} 0 perm" and k: "k < n" and va: "kern_va (page_addr (v + k))" and n: "v + k < 1048576"
  shows "pte_at s' K (page_addr (v + k)) = page2pa k OR perm OR PTE_P"
proof -
  have "v + k \<in> (\<lambda>k. v + k) ` {..<n}" using k by simp
  moreover have "PGSIZE * word_of_nat k = page2pa k" by (simp add: PGSIZE_def page2pa_def push_bit_eq_mult)
  ultimately show ?thesis using mapped_regionD(6) [OF m va] by (simp add: PGNUM_page_addr [OF n])
qed

lemma check_mmio_ok:
  assumes ok: "kdir_ok s K" and kd: "kern_pgdir s = K" and base: "mmio_base s = MMIOBASE" and none: "phys s K 958 = 0"
    and free: "free_pages s \<noteq> []"
  obtains s' where "check_mmio s = Some s'" and "kdir_ok s' K" and "free_pages s' = tl (free_pages s)"
    and "npages s' = npages s" "kern_pgdir s' = K" and "\<And>d. phys s' K d \<noteq> 0 \<longleftrightarrow> phys s K d \<noteq> 0 \<or> d = 958"
    and "\<And>d. phys s K d \<noteq> 0 \<Longrightarrow> phys s' K d = phys s K d"
    and "\<And>va. kern_va va \<Longrightarrow> pte_at s' K va = pte_at s K va" and "stray s' \<subseteq> stray s"
    and "\<And>q. fixed_frame q \<Longrightarrow> phys s' q = phys s q" and "mmio_base s' = page_addr 980995"
proof -
  note ad = mmio_addresses
  have z: "pte_at s K (page_addr n) = 0" if "980992 \<le> n" "n < 982016" for n
    using none mmio_pages(1) [OF that] by (simp add: pte_at_def)
  have r1: "unat (ROUNDUP 4097 PGSIZE) = 4096 * 2" and r2: "unat (ROUNDUP 4096 PGSIZE) = 4096 * 1"
    by (simp_all add: ROUNDUP_def ROUNDDOWN_def PGSIZE_def)
  obtain s1 where s1: "mmio_map_region s 0 4097 = Some (s1\<lparr>mmio_base := page_addr (980992 + 2)\<rparr>, page_addr 980992)"
    "mapped_region s s1 K 980992 {..<2} 0 mmio_perm"
    by (rule mmio_map_ok [OF ok kd, of 980992 2 4097]) (use base ad r1 z free in auto)
  note m1 = mapped_regionD [OF s1(2)]
  let ?s1 = "s1\<lparr>mmio_base := page_addr (980992 + 2)\<rparr>"
  have two: "{..<2 :: nat} = {0, 1}" by auto
  have d1: "(\<lambda>k. (980992 + k) div 1024) ` {..<2 :: nat} = {958}" unfolding two by simp
  have ne1: "phys s1 K 958 \<noteq> 0" using m1(4) [of 958] unfolding d1 by simp
  have z1: "pte_at s1 K (page_addr n) = 0" if "980994 \<le> n" "n < 982016" for n
    using m1(6) [of "page_addr n"] mmio_pages [of n] z [of n] that unfolding two by auto
  have kd1: "kern_pgdir s1 = K" using m1(2) kd by auto
  obtain s2 where s2: "mmio_map_region ?s1 0 4096 = Some (s2\<lparr>mmio_base := page_addr (980994 + 1)\<rparr>, page_addr 980994)"
    "mapped_region ?s1 s2 K 980994 {..<1} 0 mmio_perm"
    by (rule mmio_map_ok [of ?s1 K 980994 1 4096]) (use m1(1) kd1 r2 z1 ne1 in auto)
  note m2 = mapped_regionD [OF s2(2)]
  let ?s2 = "s2\<lparr>mmio_base := page_addr (980994 + 1)\<rparr>"
  have d2: "(\<lambda>k. (980994 + k) div 1024) ` {..<1 :: nat} = {958}" by auto
  have ne2: "phys s2 K 958 \<noteq> 0" using m2(4) [of 958] ne1 by simp
  have kd2: "kern_pgdir s2 = K" using m2(2) kd1 by (auto simp: same_setup_def)
  have pg: "PDX (page_addr n) = 958" "kern_va (page_addr n)" "PGNUM (page_addr n) = n" if "980992 \<le> n" "n < 982016" for n
    using mmio_pages [OF that] .
  have pa: "page2pa 0 = 0" "page2pa 1 = PGSIZE" by (simp_all add: page2pa_def PGSIZE_def push_bit_eq_mult)
  have one: "{..<1 :: nat} = {0}" by auto
  have m2v: "pte_at s2 K va = (if PGNUM va = 980994 then page2pa 0 OR mmio_perm OR PTE_P else pte_at s1 K va)"
    if "kern_va va" for va using m2(6) [OF that] pa unfolding one by auto
  have m1v: "pte_at s1 K va = pte_at s K va" if "kern_va va" "PGNUM va \<notin> {980992, 980993}" for va
    using m1(6) [OF that(1)] that(2) unfolding two by auto
  have e: "pte_at s2 K (page_addr 980992) = page2pa 0 OR mmio_perm OR PTE_P"
    "pte_at s2 K (page_addr 980993) = page2pa 1 OR mmio_perm OR PTE_P"
    "pte_at s2 K (page_addr 980994) = page2pa 0 OR mmio_perm OR PTE_P" "pte_at s2 K (page_addr 980995) = 0"
    using mapped_page [OF s1(2), of 0] mapped_page [OF s1(2), of 1] mapped_page [OF s2(2), of 0] z1 [of 980995]
      m2v [of "page_addr 980992"] m2v [of "page_addr 980993"] m2v [of "page_addr 980995"]
      pg [of 980992] pg [of 980993] pg [of 980994] pg [of 980995] by simp_all
  have sees: "check_va2pa ?s2 K (page_addr n) = Some (if pte_at s2 K (page_addr n) AND PTE_P = 0 then - 1 else PTE_ADDR (pte_at s2 K (page_addr n)))"
    if "980992 \<le> n" "n < 982016" for n
    using check_va2pa_present [of ?s2 K "page_addr n"] m2(1) pg [OF that] ne2 by simp
  have small: "(0 :: nat) < 2 ^ 20" "(1 :: nat) < 2 ^ 20" by simp_all
  note de0 = data_entry [OF small(1) mmio_perm_facts(1)] and de1 = data_entry [OF small(2) mmio_perm_facts(1)]
  have word: "entry_word ?s2 (page_addr 980992) = Some (page2pa 0 OR mmio_perm OR PTE_P)"
    using entry_word_ok [of ?s2 K "page_addr 980992"] m2(1) kd2 pg [of 980992] ne2 e(1) by simp
  obtain s3 where s3: "clear_entry ?s2 (page_addr 980992) = Some s3" "kdir_ok s3 K" "free_pages s3 = free_pages ?s2" "same_setup ?s2 s3"
    "phys s3 K = phys ?s2 K" "\<And>va'. kern_va va' \<Longrightarrow> pte_at s3 K va' = (if PGNUM (page_addr 980992) = PGNUM va' then 0 else pte_at ?s2 K va')"
    by (rule clear_entry_ok [of ?s2 K "page_addr 980992"]) (use m2(1) kd2 pg [of 980992] ne2 in auto)
  have kd3: "kern_pgdir s3 = K" using s3(4) kd2 by (simp add: same_setup_def)
  obtain s4 where s4: "clear_entry s3 (page_addr 980993) = Some s4" "kdir_ok s4 K" "free_pages s4 = free_pages s3" "same_setup s3 s4"
    "phys s4 K = phys s3 K" "\<And>va'. kern_va va' \<Longrightarrow> pte_at s4 K va' = (if PGNUM (page_addr 980993) = PGNUM va' then 0 else pte_at s3 K va')"
    by (rule clear_entry_ok [OF s3(2) kd3, of "page_addr 980993"]) (use pg [of 980993] ne2 s3(5) in auto)
  have kd4: "kern_pgdir s4 = K" using s4(4) kd3 by auto
  obtain s5 where s5: "clear_entry s4 (page_addr 980994) = Some s5" "kdir_ok s5 K" "free_pages s5 = free_pages s4" "same_setup s4 s5"
    "phys s5 K = phys s4 K" "\<And>va'. kern_va va' \<Longrightarrow> pte_at s5 K va' = (if PGNUM (page_addr 980994) = PGNUM va' then 0 else pte_at s4 K va')"
    by (rule clear_entry_ok [OF s4(2) kd4, of "page_addr 980994"]) (use pg [of 980994] ne2 s3(5) s4(5) in auto)
  have run: "check_mmio s = Some s5"
  proof -
    have lim: "page_addr 980992 + 8096 < MMIOLIM" "page_addr 980994 + 8096 < MMIOLIM" "MMIOBASE \<le> page_addr 980994"
      "page_addr 980992 mod PGSIZE = 0" "page_addr 980994 mod PGSIZE = 0" "page_addr 980992 + 8096 \<le> page_addr 980994"
      "page_addr 980992 + PGSIZE = page_addr 980993" "page_addr 980994 + PGSIZE = page_addr 980995"
      by (simp_all add: page_addr_def push_bit_eq_mult layout_defs)
    have "maps_to ?s2 (page_addr 980992) 0 = Some ()" "maps_to ?s2 (page_addr 980993) PGSIZE = Some ()"
      "maps_to ?s2 (page_addr 980994) 0 = Some ()" "maps_to ?s2 (page_addr 980995) (- 1) = Some ()"
      using sees [of 980992] sees [of 980993] sees [of 980994] sees [of 980995] e de0(3,4) de1(3,4) pa kd2
      by (simp_all add: maps_to_def)
    then show ?thesis
      using s1(1) s2(1) word mmio_perm_facts(2,3) [of 0] s3(1) s4(1) s5(1) lim ad(1)
      by (simp add: check_mmio_def)
  qed
  show thesis
  proof (rule that [OF run s5(2)])
    have "new_tables s K {958} = {958}" using none by (auto simp: new_tables_def)
    then have "free_pages s1 = tl (free_pages s)" using m1(3) unfolding d1 by (simp add: drop_Suc)
    moreover have "new_tables ?s1 K {958} = {}" using ne1 by (simp add: new_tables_def)
    then have "free_pages s2 = free_pages s1" using m2(3) unfolding d2 by simp
    ultimately show "free_pages s5 = tl (free_pages s)" using s3(3) s4(3) s5(3) by simp
    show "npages s5 = npages s" "kern_pgdir s5 = K"
      using s5(4) s4(4) s3(4) m2(2) m1(2) kd by (simp_all add: same_setup_def)
    have K5: "phys s5 K = phys s2 K" using s5(5) s4(5) s3(5) by simp
    show "phys s5 K d \<noteq> 0 \<longleftrightarrow> phys s K d \<noteq> 0 \<or> d = 958" for d
      unfolding K5 using m2(4) [of d] m1(4) [of d] unfolding d1 d2 by simp
    show "phys s K d \<noteq> 0 \<Longrightarrow> phys s5 K d = phys s K d" for d
      unfolding K5 using m2(5) [of d] m1(4,5) [of d] by simp
    show "stray s5 \<subseteq> stray s"
      using same_setup_stray [OF s5(4)] same_setup_stray [OF s4(4)] same_setup_stray [OF s3(4)]
        same_setup_stray [OF m2(2)] same_setup_stray [OF m1(2)] by (simp add: subset_iff)
    show "mmio_base s5 = page_addr 980995" using s5(4) s4(4) s3(4) by (simp add: same_setup_def)
    show "phys s5 q = phys s q" if "fixed_frame q" for q
      using same_setup_fixed [OF s5(4) that] same_setup_fixed [OF s4(4) that] same_setup_fixed [OF s3(4) that]
        same_setup_fixed [OF m2(2) that] same_setup_fixed [OF m1(2) that] by simp
    fix va assume va: "kern_va va"
    have zv: "pte_at s K va = 0" if "PGNUM va \<in> {980992, 980993, 980994}"
    proof -
      have "PDX va = PGNUM va div 1024" by (simp add: PDX_unat PGNUM_div div_mult2_eq [symmetric])
      then have "PDX va = 958" using that by auto
      then show ?thesis using none by (simp add: pte_at_def)
    qed
    show "pte_at s5 K va = pte_at s K va"
      using s5(6) [OF va] s4(6) [OF va] s3(6) [OF va] m2v [OF va] m1v [OF va] zv pg(3) [of 980992] pg(3) [of 980993] pg(3) [of 980994] by auto
  qed
qed

subsection \<open>\<open>check_page\<close>\<close>

lemma check_page_ok:
  assumes ok: "kdir_ok s K" and kd: "kern_pgdir s = K" and base: "mmio_base s = MMIOBASE"
    and none: "phys s K 0 = 0" "phys s K 1 = 0" "phys s K 958 = 0" and free: "free_pages s = a # b # c # ps"
  obtains s' where "check_page s = Some s'" and "kdir_ok s' K" and "free_pages s' = b # a # ps"
    and "npages s' = npages s" "kern_pgdir s' = K" and "\<And>d. phys s' K d \<noteq> 0 \<longleftrightarrow> phys s K d \<noteq> 0 \<or> d = 958"
    and "\<And>d. phys s K d \<noteq> 0 \<Longrightarrow> phys s' K d = phys s K d"
    and "\<And>va. kern_va va \<Longrightarrow> pte_at s' K va = pte_at s K va" and "stray s' \<subseteq> stray s"
    and "\<And>q. fixed_frame q \<Longrightarrow> phys s' q = phys s q" and "mmio_base s' = page_addr 980995"
proof -
  have dist: "distinct (a # b # c # ps)" using free_list_chain [OF ok] free by simp
  have un: "unused s K p" "pp_ref s p = 0" if "p \<in> set (a # b # c # ps)" for p
    using that free_unused [OF ok] kdirD(5) [OF ok] unfolding free by blast+
  obtain s1 where s1: "alloc_three s = Some (s1, a, b, c)" "kdir_ok s1 K" "free_pages s1 = ps" "same_setup s s1"
    "pp_ref s1 = pp_ref s" "phys s1 = phys s" "pp_link s1 = (pp_link s)(a := None, b := None, c := None)"
    by (rule alloc_three_ok [OF ok free])
  define s2 where "s2 = s1\<lparr>page_free_list := None\<rparr>"
  have s2: "kdir_ok s2 K" "free_pages s2 = []" using kdir_steal [OF s1(2)] by (simp_all add: s2_def)
  have sel2: "npages s2 = npages s" "kern_pgdir s2 = K" "mmio_base s2 = MMIOBASE" "pp_ref s2 = pp_ref s" "phys s2 = phys s"
    "pp_link s2 = pp_link s1"
    using same_setupD [OF s1(4)] s1(5,6) kd base by (simp_all add: s2_def)
  have un2: "unused s2 K p = unused s K p" for p by (rule unused_cong) (simp_all add: sel2)
  have abc: "unused s K p" "pp_ref s2 p = 0" "pp_link s2 p = None" if "p \<in> {a, b, c}" for p
    using that un [of p] s1(7) sel2 by auto
  have st: "test_start s2 K a b c"
    using s2 sel2 dist none abc kdirD(2) [OF ok]
    by (auto simp: test_start_def test_pages_def unused_def ktabs_def)
  obtain s3 where s3: "check_insert s2 a b c = Some s3"
    "testing s2 K a {a, b, c} s3 [] ((pp_ref s2)(a := 1, b := 1, c := 1)) (plain_entry b) (plain_entry c)"
    by (rule check_insert_ok [OF st])
  obtain s4 where s4: "check_permissions s3 a b c = Some s4"
    "testing s2 K a {a, b, c} s4 [] ((pp_ref s2)(a := 1, b := 1, c := 1)) (plain_entry b) (plain_entry c)"
    by (rule check_permissions_ok [OF st s3(2)])
  obtain s5 where s5: "check_replace s4 a b c = Some s5" "testing s2 K a {a, b, c} s5 [] ((pp_ref s2)(a := 1)) 0 0"
    by (rule check_replace_ok [OF st s4(2)])
  obtain s6 where s6: "check_tables s5 a = Some s6" "kdir_ok s6 K" "free_pages s6 = []" "same_setup s2 s6"
    "pp_ref s6 = pp_ref s2" "phys s6 K = phys s2 K" "pp_link s6 = pp_link s2"
    "\<And>va. kern_va va \<Longrightarrow> pte_at s6 K va = pte_at s2 K va"
    by (rule check_tables_ok [OF st s5(2)]) blast
  have np6: "npages s6 = npages s" "kern_pgdir s6 = K" "mmio_base s6 = MMIOBASE" using same_setupD [OF s6(4)] sel2 by simp_all
  have un6: "unused s6 K p = unused s K p" for p by (rule unused_cong) (simp_all add: np6 s6(6) sel2)
  let ?fl = "page_free_list s1"
  have ch: "chain (pp_link s6) ?fl ps" using free_list_chain [OF s1(2)] s1(3) s6(7) sel2(6) by simp
  have s7: "kdir_ok (s6\<lparr>page_free_list := ?fl\<rparr>) K" "free_pages (s6\<lparr>page_free_list := ?fl\<rparr>) = ps"
    using kdir_list [OF s6(2) ch] dist un un6 s6(5) sel2(4) by auto
  have un7: "unused (s6\<lparr>page_free_list := ?fl\<rparr>) K p = unused s K p" for p
    using un6 [of p] by (simp add: unused_def ktabs_def)
  have dist7: "distinct (a # b # c # free_pages (s6\<lparr>page_free_list := ?fl\<rparr>))" using dist s7(2) by simp
  have three7: "unused (s6\<lparr>page_free_list := ?fl\<rparr>) K p \<and> pp_ref (s6\<lparr>page_free_list := ?fl\<rparr>) p = 0 \<and> pp_link (s6\<lparr>page_free_list := ?fl\<rparr>) p = None"
    if "p \<in> {a, b, c}" for p using that un7 [of p] abc [OF that] s6(5,7) by simp
  obtain s8 where s8: "free_three (s6\<lparr>page_free_list := ?fl\<rparr>) a b c = Some s8" "kdir_ok s8 K"
    "free_pages s8 = c # b # a # free_pages (s6\<lparr>page_free_list := ?fl\<rparr>)" "same_setup (s6\<lparr>page_free_list := ?fl\<rparr>) s8"
    "pp_ref s8 = pp_ref (s6\<lparr>page_free_list := ?fl\<rparr>)" "phys s8 = phys (s6\<lparr>page_free_list := ?fl\<rparr>)"
    "\<And>q. q \<notin> {a, b, c} \<Longrightarrow> pp_link s8 q = pp_link (s6\<lparr>page_free_list := ?fl\<rparr>) q"
    by (rule free_three_ok [OF s7(1) dist7 three7]) (assumption, rule that)
  have free8: "free_pages s8 = c # b # a # ps" and ph8: "phys s8 = phys s6" using s8(3,6) s7(2) by simp_all
  have "pp_link s8 q = pp_link s q" if "q \<notin> {a, b, c}" for q
    using s8(7) [OF that] s6(7) sel2(6) s1(7) that by simp
  then have stray8: "stray s8 \<subseteq> stray s" using free8 free by (auto simp: stray_def)
  have np8: "npages s8 = npages s" "kern_pgdir s8 = K" "mmio_base s8 = MMIOBASE" using s8(4) np6 by (simp_all add: same_setup_def)
  have K8: "phys s8 K = phys s K" using ph8 s6(6) sel2(5) by simp
  have pte8: "pte_at s8 K va = pte_at s K va" if "kern_va va" for va
    using s6(8) [OF that] pte_at_phys [OF ph8] pte_at_phys [OF sel2(5)] by simp
  have "phys s8 K 958 = 0" "free_pages s8 \<noteq> []" using K8 none(3) free8 by simp_all
  obtain s' where s': "check_mmio s8 = Some s'" "kdir_ok s' K" "free_pages s' = tl (free_pages s8)"
    "npages s' = npages s8" "kern_pgdir s' = K" "\<And>d. phys s' K d \<noteq> 0 \<longleftrightarrow> phys s8 K d \<noteq> 0 \<or> d = 958"
    "\<And>d. phys s8 K d \<noteq> 0 \<Longrightarrow> phys s' K d = phys s8 K d" "\<And>va. kern_va va \<Longrightarrow> pte_at s' K va = pte_at s8 K va"
    "stray s' \<subseteq> stray s8" "\<And>q. fixed_frame q \<Longrightarrow> phys s' q = phys s8 q" "mmio_base s' = page_addr 980995"
    by (rule check_mmio_ok [OF s8(2) np8(2,3) \<open>phys s8 K 958 = 0\<close> \<open>free_pages s8 \<noteq> []\<close>]) blast
  have "check_page s = Some s'"
    using s1(1) s3(1) s4(1) s5(1) s6(1) s8(1) s'(1) by (simp add: check_page_def s2_def Let_def)
  moreover have "phys s' q = phys s q" if "fixed_frame q" for q
    using s'(10) [OF that] ph8 same_setup_fixed [OF s6(4) that] sel2(5) by simp
  ultimately show thesis using that s'(2-8,11) free8 np8(1) K8 pte8 subset_trans [OF s'(9) stray8] by simp
qed

subsection \<open>\<open>check_page_installed_pgdir\<close>\<close>

lemma testing_kernel_word:
  assumes t: "testing s0 K a P s F r x y" and tp: "test_pages s0 K a P" and y: "y AND PTE_P \<noteq> 0"
  shows "kernel_word s PGSIZE = Some (PGNUM y, 0)"
proof -
  note sees = testing_sees [OF t tp]
  have a: "a < 2 ^ 20" using tp by (auto simp: test_pages_def)
  have ne: "phys s K 0 \<noteq> 0" using sees(6) table_entry_facts(2) [OF a] by simp
  then have "phys s a 1 = y" using testingD(10) [OF t] two_pages sees(6,7) by (simp add: pte_at_def Let_def)
  moreover have "PGSIZE AND 0xFFF = (0 :: w32)" by (simp add: PGSIZE_def)
  ultimately show ?thesis
    using testingD(3) [OF t] two_pages sees(6,7) table_entry_facts(3) [OF a] y by (simp add: kernel_word_def Let_def)
qed

lemma testing_store:
  assumes t: "testing s0 K a P s F r x y" and tp: "test_pages s0 K a P" and p: "p \<in> P" "p \<noteq> a"
  shows "testing s0 K a P (store_word s p i v) F r x y"
proof -
  note d = testingD [OF t]
  have un: "unused s K p" by (rule testing_unused(1) [OF t tp p])
  have eq: "store_word s p i v = s\<lparr>phys := (phys s)(p := (phys s p)(i := v))\<rparr>" by (simp add: store_word_def)
  note f = fill_frame_ok [OF d(1) un]
  have "p \<noteq> K" using un by (simp add: unused_def)
  moreover have "same_setup s0 (s\<lparr>phys := (phys s)(p := (phys s p)(i := v))\<rparr>)"
    using d(2) un by (auto simp: same_setup_def unused_def)
  ultimately show ?thesis
    unfolding eq testing_def using d f(2-4) two_pages by auto
qed

lemma check_page_installed_ok:
  assumes ok: "kdir_ok s K" and kd: "kern_pgdir s = K" and none: "phys s K 0 = 0" and free: "free_pages s = a # b # c # ps"
  obtains s' where "check_page_installed_pgdir s = Some s'" and "kdir_ok s' K" and "free_pages s' = a # c # b # ps"
    and "same_setup s s'" and "pp_ref s' = pp_ref s" and "phys s' K = phys s K"
    and "\<And>va. kern_va va \<Longrightarrow> pte_at s' K va = pte_at s K va"
proof -
  let ?P = "{a, b, c}"
  have dist: "distinct (a # b # c # ps)" using free_list_chain [OF ok] free by simp
  then have ne: "a \<noteq> b" "a \<noteq> c" "b \<noteq> c" "a \<notin> set ps" "b \<notin> set ps" "c \<notin> set ps" by auto
  have un: "unused s K p" "pp_ref s p = 0" if "p \<in> set (a # b # c # ps)" for p
    using that free_unused [OF ok] kdirD(5) [OF ok] unfolding free by blast+
  have K: "p < npages s" "p \<noteq> K" "\<not> fixed_frame p" if "p \<in> ?P" for p using that un(1) [of p] by (auto simp: unused_def)
  obtain s1 where s1: "page_alloc s False = (s1, Some a)" "kdir_ok s1 K" "free_pages s1 = b # c # ps" "same_setup s s1"
    "pp_ref s1 = pp_ref s" "pp_link s1 = (pp_link s)(a := None)" "phys s1 = phys s"
    using kdir_alloc [OF ok free, of False] by (metis (full_types))
  obtain s2 where s2: "page_alloc s1 False = (s2, Some b)" "kdir_ok s2 K" "free_pages s2 = c # ps" "same_setup s1 s2"
    "pp_ref s2 = pp_ref s1" "pp_link s2 = (pp_link s1)(b := None)" "phys s2 = phys s1"
    using kdir_alloc [OF s1(2,3), of False] by (metis (full_types))
  obtain s3 where s3: "page_alloc s2 False = (s3, Some c)" "kdir_ok s3 K" "free_pages s3 = ps" "same_setup s2 s3"
    "pp_ref s3 = pp_ref s2" "pp_link s3 = (pp_link s2)(c := None)" "phys s3 = phys s2"
    using kdir_alloc [OF s2(2,3), of False] by (metis (full_types))
  have sel3: "npages s3 = npages s" "kern_pgdir s3 = K" "mmio_base s3 = mmio_base s" "pp_ref s3 = pp_ref s" "phys s3 = phys s"
    "pp_link s3 p = None" if "p \<in> ?P" for p
    using same_setupD [OF s1(4)] same_setupD [OF s2(4)] same_setupD [OF s3(4)] s1 s2 s3 kd that by auto
  note sel3 = sel3 [of a, simplified] sel3(6)
  have un3: "unused s3 K p = unused s K p" for p by (rule unused_cong) (simp_all add: sel3)
  obtain s4 where s4: "page_free s3 a = Some s4" "kdir_ok s4 K" "free_pages s4 = a # ps" "same_setup s3 s4"
    "pp_ref s4 = pp_ref s3" "phys s4 = phys s3" "pp_link s4 = (pp_link s3)(a := page_free_list s3)"
    by (rule kdir_page_free [OF s3(2), of a]) (use un [of a] un3 [of a] sel3 s3(3) ne in \<open>auto simp: unused_def\<close>)
  have np4: "npages s4 = npages s" using same_setupD [OF s4(4)] sel3 by simp
  have un4: "unused s4 K p = unused s K p" for p by (rule unused_cong) (simp_all add: np4 s4(6) sel3)
  define s5 where "s5 = s4\<lparr>phys := (phys s4)(b := \<lambda>i. if i < 1024 then 0x01010101 else phys s4 b i)\<rparr>"
  have ub: "unused s4 K b" using un4 un(1) [of b] by simp
  note f5 = fill_frame_ok [OF s4(2) ub]
  have s5: "fill_frame s4 b 1024 0x01010101 = Some s5" "kdir_ok s5 K" "free_pages s5 = a # ps"
    using f5(1) f5(2,3) s4(3) by (simp_all add: s5_def)
  have un5: "unused s5 K p = unused s K p" for p
    using un4 [of p] unused_cong [of s5 K s4 p] K(2) [of b] by (simp add: s5_def)
  define s6 where "s6 = s5\<lparr>phys := (phys s5)(c := \<lambda>i. if i < 1024 then 0x02020202 else phys s5 c i)\<rparr>"
  have uc: "unused s5 K c" using un5 un(1) [of c] by simp
  note f6 = fill_frame_ok [OF s5(2) uc]
  have s6: "fill_frame s5 c 1024 0x02020202 = Some s6" "kdir_ok s6 K" "free_pages s6 = a # ps"
    using f6(1) f6(2,3) s5(3) by (simp_all add: s6_def)
  have sel6: "same_setup s3 s6" "pp_ref s6 = pp_ref s" "pp_link s6 = pp_link s4" "phys s6 K = phys s K"
    "phys s6 b 0 = 0x01010101" "phys s6 c 0 = 0x02020202"
    using s4(4-6) sel3 K(2,3) [of b] K(2,3) [of c] ne by (auto simp: s6_def s5_def same_setup_def)
  have pte6: "pte_at s6 K va = pte_at s K va" if "kern_va va" for va
    using f6(4) [OF that] f5(4) [OF that] pte_at_phys [OF s4(6)] pte_at_phys [of s3 s, OF sel3(5)] by (simp add: s6_def s5_def)
  have tp: "test_pages s3 K a ?P"
    using none sel3 kdirD(2) [OF ok] un un3 by (auto simp: test_pages_def unused_def ktabs_def)
  have links: "pp_link s6 q = pp_link s3 q" if "q \<notin> ?P" for q using that sel6(3) s4(7) by auto
  have nolinks: "pp_link s6 q = None" if "q \<in> ?P" "q \<notin> set (a # ps)" for q
    using that sel6(3) s4(7) sel3(7) [of q] by auto
  obtain s7 where s7: "\<And>p perm. page_insert s6 K p PGSIZE perm = page_insert s7 K p PGSIZE perm"
    "\<And>p perm. insert_ok s6 p PGSIZE perm = insert_ok s7 p PGSIZE perm"
    "testing s3 K a ?P s7 ps ((pp_ref s)(a := 1)) 0 0" "\<And>q. q \<noteq> a \<Longrightarrow> q \<noteq> K \<Longrightarrow> phys s7 q = phys s6 q"
    by (rule testing_begin [OF s6(2) sel6(1) sel3(2) s6(3) _ _ _ _ links nolinks, where va = PGSIZE and P = "{a, b, c}"])
      (use none sel3 sel6 pte6 pte_at_phys [of s3 s, OF sel3(5)] in auto)
  have small: "b < 2 ^ 20" "c < 2 ^ 20" using K(1) [of b] K(1) [of c] kdirD(2) [OF ok] by simp_all
  note pb = plain_entry_facts [OF small(1)] and pc = plain_entry_facts [OF small(2)]
  have z: "pp_ref s a = 0" "pp_ref s b = 0" "pp_ref s c = 0" using un(2) by auto
  obtain s8 where s8: "insert_ok s7 b PGSIZE PTE_W = Some s8"
    "testing s3 K a ?P s8 ps ((pp_ref s)(a := 1, b := 1)) 0 (plain_entry b)" "\<And>q. q \<noteq> a \<Longrightarrow> phys s8 q = phys s7 q"
    by (rule testing_insert [OF s7(3) tp, where va = PGSIZE and p = b and e = 0 and perm = PTE_W and F' = ps
          and R = "(pp_ref s)(a := 1, b := 1)" and rp = "(pp_ref s)(a := 1, b := 1)"])
      (use ne z in \<open>auto simp: PGSIZE_def plain_entry_def\<close>)
  note kw8 = testing_kernel_word [OF s8(2) tp pb(3)]
  obtain s9 where s9: "insert_ok s8 c PGSIZE PTE_W = Some s9"
    "testing s3 K a ?P s9 (b # ps) ((pp_ref s)(a := 1, c := 1)) 0 (plain_entry c)" "\<And>q. q \<noteq> a \<Longrightarrow> phys s9 q = phys s8 q"
    by (rule testing_insert [OF s8(2) tp, where va = PGSIZE and p = c and e = "plain_entry b" and perm = PTE_W and F' = "b # ps"
          and R = "(pp_ref s)(a := 1, c := 1)" and rp = "(pp_ref s)(a := 1, b := 1, c := 1)"])
      (use ne z pb(1,2) in \<open>auto simp: PGSIZE_def plain_entry_def fun_eq_iff\<close>)
  note kw9 = testing_kernel_word [OF s9(2) tp pc(3)]
  let ?s10 = "store_word s9 c 0 0x03030303"
  have s10: "testing s3 K a ?P ?s10 (b # ps) ((pp_ref s)(a := 1, c := 1)) 0 (plain_entry c)"
    by (rule testing_store [OF s9(2) tp]) (use ne in auto)
  obtain s11 where s11: "page_remove ?s10 K PGSIZE = Some s11"
    "testing s3 K a ?P s11 (c # b # ps) ((pp_ref s)(a := 1)) 0 0"
    by (rule testing_remove [OF s10 tp, where va = PGSIZE and q = c and e = "plain_entry c" and F' = "c # b # ps"])
      (use ne z pc(1,2) in \<open>auto simp: PGSIZE_def fun_upd_idem\<close>)
  note d11 = testingD [OF s11(2)] and sees11 = testing_sees [OF s11(2) tp]
  have a20: "a < 2 ^ 20" using K(1) [of a] kdirD(2) [OF ok] by simp
  define s12 where "s12 = set_ref (store_word s11 K 0 0) a 0"
  have "0 < (1024 :: nat)" "0 \<noteq> PDX UVPT" by (simp_all add: UVPT_val(2))
  note drop = kdir_drop_table [OF d11(1) a20 sees11(6) this s12_def]
  have ref12: "pp_ref s12 = pp_ref s" using d11(5) z by (auto simp: s12_def set_ref_def store_word_def fun_eq_iff)
  have link12: "pp_link s12 a = None" using d11(7) [of a] ne by (simp add: s12_def set_ref_def store_word_def)
  have K12: "phys s12 K = phys s K" using drop(5) d11(8) sel3(5) none by (auto simp: fun_eq_iff)
  have su12: "same_setup s s12"
  proof -
    have "same_setup s s3" by (rule same_setup_trans [OF same_setup_trans [OF s1(4) s2(4)] s3(4)])
    then have "same_setup s s11" using d11(2) by (rule same_setup_trans)
    then show ?thesis using kdirD(11) [OF ok] by (simp add: s12_def)
  qed
  have pte12: "pte_at s12 K va = pte_at s K va" if "kern_va va" for va
  proof (cases "PDX va = 0")
    case True
    then show ?thesis using none by (simp add: pte_at_def K12)
  next
    case False
    then show ?thesis using drop(4) [OF that False] d11(11) [OF that False] pte_at_phys [of s3 s, OF sel3(5)] by simp
  qed
  have "a < npages s12" "a \<noteq> K" using drop(3) by (simp_all add: unused_def)
  obtain s13 where s13: "page_free s12 a = Some s13" "kdir_ok s13 K" "free_pages s13 = a # free_pages s12" "same_setup s12 s13"
    "pp_ref s13 = pp_ref s12" "phys s13 = phys s12"
    by (rule kdir_page_free [OF drop(1), of a]) (use drop(2,3) link12 ref12 z d11(4) ne in \<open>auto simp: unused_def\<close>)
  have kds: "kern_pgdir s6 = K" "kern_pgdir s7 = K" "kern_pgdir s8 = K" "kern_pgdir s9 = K" "kern_pgdir ?s10 = K" "kern_pgdir s11 = K"
    using sel6(1) sel3(2) testingD(3) [OF s7(3)] testingD(3) [OF s8(2)] testingD(3) [OF s9(2)] testingD(3) [OF s10] d11(3) by auto
  have ins8: "page_insert s6 K b PGSIZE PTE_W = Some (s8, 0)" and ins9: "page_insert s8 K c PGSIZE PTE_W = Some (s9, 0)"
    using s7(1) s8(1) s9(1) kds by (auto simp: insert_ok_def split: Option.bind_splits)
  have words: "phys s8 b 0 = 0x01010101" "phys s9 c 0 = 0x02020202"
    using s8(3) s9(3) s7(4) sel6(5,6) ne K(2) by auto
  have kva: "\<exists>kva. page2kva ?s10 c = Some kva"
    using page2kva_some [of c ?s10] K(1) [of c] testingD(2) [OF s10] sel3(1) kdirD(2) [OF ok] by (auto simp: same_setup_def)
  then obtain kva where kva: "page2kva ?s10 c = Some kva" by blast
  have "phys ?s10 c 0 = 0x03030303" by (simp add: store_word_def)
  moreover have "pp_ref s8 b = 1" "pp_ref s9 c = 1" "pp_ref s9 b = 0" "pp_ref s11 c = 0" "pp_ref (store_word s11 K 0 0) a = 1"
    using testingD(5) [OF s8(2)] testingD(5) [OF s9(2)] d11(5) ne z by (simp_all add: store_word_def)
  ultimately have "check_page_installed_pgdir s = Some s13"
    using s1(1) s2(1) s3(1) s4(1) s5(1) s6(1) ins8 ins9 kw8 kw9 words kva s11(1) sees11(6,7) pb(1) pc(1) kds s12_def [symmetric] s13(1)
    by (simp add: check_page_installed_pgdir_def must_alloc_def load_kernel_word_def PTE_ADDR_page2pa Let_def)
  then show thesis
    using that [of s13] s13(2-6) drop(2) d11(4) su12 ref12 K12 pte12 same_setup_trans [OF su12 s13(4)] pte_at_phys [OF s13(6)] by simp
qed

end
