(* ===== verification/MemBoot.thy ===== *)
theory MemBoot
  imports MemPage
begin

unbundle bit_operations_syntax

text \<open>
  The whole of \<open>mem_init\<close>: the address space that it builds, as a function from page numbers to entries,
  and that none of its self tests stops the kernel.
\<close>

subsection \<open>The directory as a view\<close>

text \<open>The directory entries that are not empty, and the entry of every page outside \<open>UVPT\<close>.\<close>

definition kview :: "pmem \<Rightarrow> nat \<Rightarrow> nat set \<Rightarrow> (nat \<Rightarrow> w32) \<Rightarrow> bool" where
  "kview s K D E \<longleftrightarrow> kdir_ok s K \<and> {d. phys s K d \<noteq> 0} = D \<and> (\<forall>va. kern_va va \<longrightarrow> pte_at s K va = E (PGNUM va))"

lemma kviewD:
  assumes "kview s K D E"
  shows "kdir_ok s K" and "phys s K d \<noteq> 0 \<longleftrightarrow> d \<in> D" and "kern_va va \<Longrightarrow> pte_at s K va = E (PGNUM va)"
  using assms unfolding kview_def by blast+

lemma PGNUM_small: "PGNUM va < 1048576"
proof -
  have "unat va < 2 ^ LENGTH(32)" by (rule unsigned_less)
  then show ?thesis by (simp add: PGNUM_div)
qed

lemma kview_cong: "kview s K D E \<Longrightarrow> (\<And>p. p < 1048576 \<Longrightarrow> E p = E' p) \<Longrightarrow> kview s K D E'"
  using PGNUM_small unfolding kview_def by metis

lemma kern_page: "n < 1048576 \<Longrightarrow> n div 1024 \<noteq> 957 \<Longrightarrow> kern_va (page_addr n)"
  by (simp add: page_addr_index kern_va_def UVPT_val(2))

lemma region_tables:
  fixes v n :: nat
  assumes "n > 0"
  shows "(\<lambda>k. (v + k) div 1024) ` {..<n} = {v div 1024..(v + n - 1) div 1024}"
proof (intro equalityI subsetI)
  fix d assume d: "d \<in> {v div 1024..(v + n - 1) div 1024}"
  let ?k = "1024 * d - v"
  have "(v + ?k) div 1024 = d" "?k < n"
    using d assms by (cases "v \<le> 1024 * d"; simp; linarith)+
  then show "d \<in> (\<lambda>k. (v + k) div 1024) ` {..<n}" by force
next
  fix d assume "d \<in> (\<lambda>k. (v + k) div 1024) ` {..<n}"
  then obtain k where "d = (v + k) div 1024" "k < n" by auto
  then show "d \<in> {v div 1024..(v + n - 1) div 1024}" by (auto intro!: div_le_mono)
qed

text \<open>Mapping \<open>n\<close> frames from \<open>f\<close> on at the pages from \<open>v\<close> on.\<close>

definition frames_at :: "nat \<Rightarrow> nat \<Rightarrow> nat \<Rightarrow> w32 \<Rightarrow> (nat \<Rightarrow> w32) \<Rightarrow> nat \<Rightarrow> w32" where
  "frames_at v n f perm E p = (if v \<le> p \<and> p < v + n then page2pa (f + (p - v)) OR perm OR PTE_P else E p)"

definition region_free :: "nat \<Rightarrow> nat \<Rightarrow> (nat \<Rightarrow> w32) \<Rightarrow> bool" where
  "region_free v n E \<longleftrightarrow> (\<forall>p. v \<le> p \<longrightarrow> p < v + n \<longrightarrow> p div 1024 \<noteq> 957 \<and> E p = 0)"

lemma kview_map:
  assumes view: "kview s K D E" and sz: "unat sz = 4096 * n" and n: "0 < n" "v + n \<le> 1048576"
    and none: "region_free v n E"
    and room: "card ({v div 1024..(v + n - 1) div 1024} - D) \<le> length (free_pages s)"
  obtains s' where "boot_map_region s K (page_addr v) sz (page_addr f) perm = Some s'" and "same_setup s s'"
    and "kview s' K (D \<union> {v div 1024..(v + n - 1) div 1024}) (frames_at v n f perm E)"
    and "free_pages s' = drop (card ({v div 1024..(v + n - 1) div 1024} - D)) (free_pages s)"
    and "\<forall>d\<in>D. phys s' K d = phys s K d"
proof -
  note vw = kviewD [OF view]
  have new: "new_tables s K ((\<lambda>k. (v + k) div 1024) ` {..<n}) = {v div 1024..(v + n - 1) div 1024} - D"
    unfolding new_tables_def region_tables [OF n(1)] using vw(2) by blast
  have pg: "kern_va (page_addr (v + k)) \<and> pte_at s K (page_addr (v + k)) = 0" if "k < n" for k
  proof -
    have lt: "v + k < 1048576" using n(2) that by simp
    have "(v + k) div 1024 \<noteq> 957" "E (v + k) = 0" using none that by (auto simp: region_free_def)
    then show ?thesis using kern_page [OF lt] vw(3) by (simp add: PGNUM_page_addr [OF lt])
  qed
  from room have enough: "card (new_tables s K ((\<lambda>k. (v + k) div 1024) ` {..<n})) \<le> length (free_pages s)"
    unfolding new .
  obtain s' where s': "boot_map_region s K (page_addr v) sz (page_addr f) perm = Some s'"
    "mapped_region s s' K v {..<n} (page_addr f) perm"
    by (rule boot_map_region_ok [OF vw(1) sz n(2) pg enough])
  note m = mapped_regionD [OF s'(2)]
  have D: "{d. phys s' K d \<noteq> 0} = D \<union> {v div 1024..(v + n - 1) div 1024}"
    using m(4) vw(2) unfolding region_tables [OF n(1)] by blast
  have "pte_at s' K va = frames_at v n f perm E (PGNUM va)" if "kern_va va" for va
  proof -
    have i: "PGNUM va \<in> (\<lambda>k. v + k) ` {..<n} \<longleftrightarrow> v \<le> PGNUM va \<and> PGNUM va < v + n"
      by (auto simp: image_iff intro!: bexI [of _ "PGNUM va - v"])
    have e: "page_addr f + PGSIZE * word_of_nat k = page2pa (f + k)" for k
      unfolding page_addr_add by (simp add: page_addr_def page2pa_def)
    show ?thesis unfolding frames_at_def m(6) [OF that] vw(3) [OF that] i e by (rule refl)
  qed
  then have "kview s' K (D \<union> {v div 1024..(v + n - 1) div 1024}) (frames_at v n f perm E)"
    unfolding kview_def D [symmetric] using m(1) by blast
  then show thesis using that s'(1) m(2,3,5) vw(2) new by simp
qed

subsection \<open>The regions of the kernel\<close>

lemma PADDR_frame: "f < 65536 \<Longrightarrow> PADDR (page_addr f + KERNBASE) = Some (page_addr f)"
proof -
  assume f: "f < 65536"
  have "unat (page_addr f + KERNBASE) = f * 4096 + 0xF0000000"
    using f unat_page_addr [of f] by (simp add: unat_word_ariths KERNBASE_def)
  then show ?thesis by (simp add: PADDR_def word_less_nat_alt KERNBASE_def)
qed

lemma region_numbers:
  "PGNUM UENVS = 977920" "PGNUM UPAGES = 978944" "PGNUM KERNBASE = 983040" "PGNUM KSTACKTOP = 983040"
  "UENVS = page_addr 977920" "UPAGES = page_addr 978944" "KERNBASE = page_addr 983040"
  by (simp_all add: PGNUM_def page_addr_def push_bit_eq_mult layout_defs)

text \<open>The stack of CPU \<open>i\<close> is the upper half of sixteen pages.\<close>

definition stack_at :: "nat \<Rightarrow> nat" where "stack_at i = 983032 - 16 * i"

fun stack_map :: "(nat \<Rightarrow> nat) \<Rightarrow> nat list \<Rightarrow> (nat \<Rightarrow> w32) \<Rightarrow> nat \<Rightarrow> w32" where
  "stack_map st [] E = E"
| "stack_map st (i # is) E = stack_map st is (frames_at (stack_at i) 8 (st i) (PTE_W OR PTE_P) E)"

lemma stack_address: "i < 8 \<Longrightarrow> KSTACKTOP - word_of_nat i * (KSTKSIZE + KSTKGAP) - KSTKSIZE = page_addr (stack_at i)"
proof -
  assume "i < 8"
  then have "i = 0 \<or> i = 1 \<or> i = 2 \<or> i = 3 \<or> i = 4 \<or> i = 5 \<or> i = 6 \<or> i = 7" by arith
  then show ?thesis
    by (elim disjE) (simp_all add: stack_at_def page_addr_def push_bit_eq_mult layout_defs)
qed

lemma stack_region: "i < 8 \<Longrightarrow> {stack_at i div 1024..(stack_at i + 8 - 1) div 1024} = {959}"
proof -
  assume "i < 8"
  then have "stack_at i div 1024 = 959" "(stack_at i + 8 - 1) div 1024 = 959" by (simp_all add: stack_at_def)
  then show ?thesis by simp
qed

definition kva_frame :: "w32 \<Rightarrow> nat \<Rightarrow> bool" where "kva_frame va f \<longleftrightarrow> va = page_addr f + KERNBASE \<and> f < 65536"

lemma stacks_ok:
  assumes "kview s K D E" and "kern_pgdir s = K" and "distinct is"
    and "\<And>i. i \<in> set is \<Longrightarrow> i < 8 \<and> kva_frame (stacks i) (st i) \<and> region_free (stack_at i) 8 E"
    and "959 \<in> D \<or> free_pages s \<noteq> []"
  shows "\<exists>s'. mem_init_mp is stacks s = Some s' \<and> same_setup s s' \<and> kview s' K (D \<union> (\<lambda>_. 959) ` set is) (stack_map st is E) \<and>
     free_pages s' = drop (card ((\<lambda>_. 959) ` set is - D)) (free_pages s) \<and> (\<forall>d\<in>D. phys s' K d = phys s K d)"
  using assms
proof (induction "is" arbitrary: s D E)
  case Nil
  then show ?case by simp
next
  case (Cons i "is")
  let ?E = "frames_at (stack_at i) 8 (st i) (PTE_W OR PTE_P) E"
  have i: "i < 8" "kva_frame (stacks i) (st i)" "region_free (stack_at i) 8 E" using Cons.prems(4) [of i] by simp_all
  have sz: "unat KSTKSIZE = 4096 * 8" by (simp add: layout_defs)
  have top: "stack_at i + 8 \<le> 1048576" by (simp add: stack_at_def)
  have room: "card ({stack_at i div 1024..(stack_at i + 8 - 1) div 1024} - D) \<le> length (free_pages s)"
    unfolding stack_region [OF i(1)] using Cons.prems(5) by (cases "free_pages s") (auto simp: insert_Diff_if)
  obtain s1 where s1: "boot_map_region s K (page_addr (stack_at i)) KSTKSIZE (page_addr (st i)) (PTE_W OR PTE_P) = Some s1"
    "same_setup s s1" "kview s1 K (D \<union> {959}) ?E" "free_pages s1 = drop (card ({959} - D)) (free_pages s)"
    "\<forall>d\<in>D. phys s1 K d = phys s K d"
    using kview_map [OF Cons.prems(1) sz _ top i(3) room] unfolding stack_region [OF i(1)] by (metis zero_less_numeral)
  have step: "mem_init_mp (i # is) stacks s = mem_init_mp is stacks s1"
    using s1(1) Cons.prems(2) i(2) by (simp add: stack_address [OF i(1)] PADDR_frame kva_frame_def Let_def)
  have kd: "kern_pgdir s1 = K" using s1(2) Cons.prems(2) by auto
  have rest: "j < 8 \<and> kva_frame (stacks j) (st j) \<and> region_free (stack_at j) 8 ?E" if "j \<in> set is" for j
  proof -
    have j: "j < 8" "kva_frame (stacks j) (st j)" "region_free (stack_at j) 8 E" "j \<noteq> i"
      using Cons.prems(3,4) that by auto
    have "\<not> (stack_at i \<le> p \<and> p < stack_at i + 8)" if "stack_at j \<le> p" "p < stack_at j + 8" for p
      using that i(1) j(1,4) by (simp add: stack_at_def) arith
    then show ?thesis using j by (auto simp: region_free_def frames_at_def)
  qed
  obtain s' where s': "mem_init_mp is stacks s1 = Some s'" "same_setup s1 s'"
    "kview s' K (D \<union> {959} \<union> (\<lambda>_. 959) ` set is) (stack_map st is ?E)"
    "free_pages s' = drop (card ((\<lambda>_. 959) ` set is - (D \<union> {959}))) (free_pages s1)"
    "\<forall>d\<in>D \<union> {959}. phys s' K d = phys s1 K d"
    using Cons.IH [OF s1(3) kd _ rest] Cons.prems(3) by auto
  have D: "D \<union> {959} \<union> (\<lambda>_. 959) ` set is = D \<union> (\<lambda>_. 959) ` set (i # is)"
    "(\<lambda>_. 959) ` set is - (D \<union> {959}) = {}" "(\<lambda>_. 959) ` set (i # is) - D = {959} - D" by auto
  show ?case
    using s' s1(4,5) same_setup_trans [OF s1(2) s'(2)] unfolding D step by simp
qed

lemma half_of_sixteen: "m div 16 = i \<and> m mod 16 < 8 \<longleftrightarrow> 16 * i \<le> m \<and> m < 16 * i + (8 :: nat)"
proof
  have m: "m = 16 * (m div 16) + m mod 16" by simp
  assume "m div 16 = i \<and> m mod 16 < 8"
  then show "16 * i \<le> m \<and> m < 16 * i + 8" using m by linarith
next
  assume h: "16 * i \<le> m \<and> m < 16 * i + 8"
  then have "m div 16 = i" by (intro div_nat_eqI) auto
  moreover have "m mod 16 = m - 16 * (m div 16)" by (rule modulo_nat_def [unfolded mult.commute [of "_ div _"]])
  ultimately show "m div 16 = i \<and> m mod 16 < 8" using h by auto
qed

lemma stack_place:
  assumes "i < 8"
  shows "stack_at i \<le> p \<and> p < stack_at i + 8 \<longleftrightarrow>
      982912 \<le> p \<and> p < 983040 \<and> (983039 - p) div 16 = i \<and> (983039 - p) mod 16 < 8"
    and "stack_at i \<le> p \<and> p < stack_at i + 8 \<Longrightarrow> p - stack_at i = 7 - (983039 - p) mod 16"
proof -
  show place: "stack_at i \<le> p \<and> p < stack_at i + 8 \<longleftrightarrow>
      982912 \<le> p \<and> p < 983040 \<and> (983039 - p) div 16 = i \<and> (983039 - p) mod 16 < 8"
    unfolding half_of_sixteen using assms by (auto simp: stack_at_def)
  assume h: "stack_at i \<le> p \<and> p < stack_at i + 8"
  then have "(983039 - p) div 16 = i" unfolding place by blast
  moreover have "983039 - p = 16 * ((983039 - p) div 16) + (983039 - p) mod 16" by simp
  ultimately have "983039 - p = 16 * i + (983039 - p) mod 16" by metis
  moreover obtain r where "r = (983039 - p) mod 16" by simp
  ultimately show "p - stack_at i = 7 - (983039 - p) mod 16"
    using h assms unfolding stack_at_def by linarith
qed

lemma stack_map_eq:
  assumes "distinct is" and "\<And>i. i \<in> set is \<Longrightarrow> i < 8"
  shows "stack_map st is E p =
    (if 982912 \<le> p \<and> p < 983040 \<and> (983039 - p) div 16 \<in> set is \<and> (983039 - p) mod 16 < 8
     then page2pa (st ((983039 - p) div 16) + (7 - (983039 - p) mod 16)) OR (PTE_W OR PTE_P) OR PTE_P else E p)"
  using assms
proof (induction "is" arbitrary: E)
  case (Cons i "is")
  have i: "i < 8" using Cons.prems(2) by simp
  have iff: "stack_at i \<le> p \<and> p < stack_at i + 8 \<longleftrightarrow>
      982912 \<le> p \<and> p < 983040 \<and> (983039 - p) div 16 = i \<and> (983039 - p) mod 16 < 8"
    using stack_place [OF i] by blast
  have off: "p - stack_at i = 7 - (983039 - p) mod 16" if "stack_at i \<le> p" "p < stack_at i + 8"
    using stack_place [OF i] that by blast
  have IH: "stack_map st is E' p =
    (if 982912 \<le> p \<and> p < 983040 \<and> (983039 - p) div 16 \<in> set is \<and> (983039 - p) mod 16 < 8
     then page2pa (st ((983039 - p) div 16) + (7 - (983039 - p) mod 16)) OR (PTE_W OR PTE_P) OR PTE_P else E' p)" for E'
    by (rule Cons.IH) (use Cons.prems in auto)
  have iff': "P \<and> Q \<and> (983039 - p) div 16 \<in> set (i # is) \<and> R \<longleftrightarrow>
      (P \<and> Q \<and> (983039 - p) div 16 = i \<and> R) \<or> (P \<and> Q \<and> (983039 - p) div 16 \<in> set is \<and> R)" for P Q R by auto
  have new: "i \<notin> set is" using Cons.prems(1) by simp
  show ?case
    unfolding stack_map.simps IH iff' frames_at_def iff [symmetric]
    using new off iff by auto
qed simp

text \<open>
  The entry of every page after \<open>mem_init\<close>: \<open>UPAGES\<close> shows the array \<open>pages\<close> at frame \<open>a\<close> and \<open>UENVS\<close> the array
  \<open>envs\<close> at frame \<open>b\<close>, both read-only for the user; the stacks of the CPUs have a gap of unmapped pages below
  each; and \<open>KERNBASE\<close> has all the memory.
\<close>

definition kernel_map :: "nat \<Rightarrow> nat \<Rightarrow> nat \<Rightarrow> (nat \<Rightarrow> nat) \<Rightarrow> nat \<Rightarrow> w32" where
  "kernel_map np a b st p =
     (let j = PGNUM KSTACKTOP - 1 - p in
      if PGNUM UENVS \<le> p \<and> p < PGNUM UENVS + 33 then page2pa (b + (p - PGNUM UENVS)) OR PTE_U OR PTE_P
      else if PGNUM UPAGES \<le> p \<and> p < PGNUM UPAGES + (np + 511) div 512 then page2pa (a + (p - PGNUM UPAGES)) OR PTE_U OR PTE_P
      else if PGNUM KERNBASE \<le> p then page2pa (p - PGNUM KERNBASE) OR PTE_W OR PTE_P
      else if PGNUM KSTACKTOP - 16 * NCPU \<le> p \<and> j mod 16 < 8
      then page2pa (st (j div 16) + (7 - j mod 16)) OR PTE_W OR PTE_P
      else 0)"

lemma region_sizes:
  "np \<le> 65536 \<Longrightarrow> unat (ROUNDUP (word_of_nat (np * sizeof_PageInfo)) PGSIZE) = 4096 * ((np + 511) div 512)"
  "unat (ROUNDUP NENV_words PGSIZE) = 4096 * 33" "unat (0x10000000 :: w32) = 4096 * 65536"
proof -
  assume "np \<le> 65536"
  then have sz: "unat (word_of_nat (np * sizeof_PageInfo) :: w32) = np * 8" unfolding sizeof_PageInfo_def unat_of_nat by simp
  have "unat (ROUNDUP (word_of_nat (np * sizeof_PageInfo)) PGSIZE) = (np * 8 + 4095) div 4096 * 4096"
    using \<open>np \<le> 65536\<close> unat_ROUNDUP [of "word_of_nat (np * sizeof_PageInfo)"] unfolding sz by simp
  moreover have "(np * 8 + 4095) div 4096 = (np + 511) div 512" by linarith
  ultimately show "unat (ROUNDUP (word_of_nat (np * sizeof_PageInfo)) PGSIZE) = 4096 * ((np + 511) div 512)"
    by (simp only: mult.commute)
next
  show "unat (ROUNDUP NENV_words PGSIZE) = 4096 * 33"
    by (simp add: ROUNDUP_def ROUNDDOWN_def NENV_words_def sizeof_Env_def PGSIZE_def)
qed simp

lemma same_setup_region:
  assumes "same_setup s s'" and "kern_pgdir s = K" and "npages s = np"
  shows "kern_pgdir s' = K" and "npages s' = np"
  using assms by auto

lemma kernel_tables:
  fixes np :: nat
  assumes "0 < np" and "np \<le> 65536"
  defines "P \<equiv> (np + 511) div 512"
  shows "0 < P" and "P \<le> 128" and "{978944 div 1024..(978944 + P - 1) div 1024} = {956}"
    and "{977920 div 1024..(977920 + 33 - 1) div 1024} = {955 :: nat}"
    and "{983040 div 1024..(983040 + 65536 - 1) div 1024} = {960..1023 :: nat}"
proof -
  show P: "0 < P" "P \<le> 128" using assms by (simp_all add: P_def)
  have "(978944 + P - 1) div 1024 = 956" using P by (intro div_nat_eqI) auto
  then show "{978944 div 1024..(978944 + P - 1) div 1024} = {956}" by simp
qed simp_all

lemma regions_in_order:
  fixes p n :: nat and A B C D :: w32
  assumes "n \<le> 128" and "982912 \<le> p \<Longrightarrow> q"
  shows "(if 982912 \<le> p \<and> p < 983040 \<and> q \<and> r then A else if 983040 \<le> p \<and> p < 983040 + 65536 then B
      else if 977920 \<le> p \<and> p < 977920 + 33 then C else if 978944 \<le> p \<and> p < 978944 + n then D else 0) =
    (if p < 1048576 then if 977920 \<le> p \<and> p < 977920 + 33 then C else if 978944 \<le> p \<and> p < 978944 + n then D
      else if 983040 \<le> p then B else if 982912 \<le> p \<and> r then A else 0 else 0)"
proof (cases "982912 \<le> p")
  case True
  then show ?thesis using assms by (cases "p < 983040") simp_all
next
  case False
  then show ?thesis using assms(1) by simp
qed

lemma kernel_map_regions:
  assumes P: "(np + 511) div 512 \<le> (128 :: nat)"
  shows "stack_map st [0..<8] (frames_at 983040 65536 0 (PTE_W OR PTE_P) (frames_at 977920 33 b (PTE_U OR PTE_P)
      (frames_at 978944 ((np + 511) div 512) a (PTE_U OR PTE_P) (\<lambda>_. 0)))) p =
    (if p < 1048576 then kernel_map np a b st p else 0)"
proof -
  have st: "stack_map st [0..<8] E p = (if 982912 \<le> p \<and> p < 983040 \<and> (983039 - p) div 16 \<in> set [0..<8] \<and> (983039 - p) mod 16 < 8
     then page2pa (st ((983039 - p) div 16) + (7 - (983039 - p) mod 16)) OR (PTE_W OR PTE_P) OR PTE_P else E p)" for E
    by (rule stack_map_eq) auto
  have low: "(983039 - p) div 16 \<in> set [0..<8]" if "982912 \<le> p" using that by simp
  have one: "983040 - 1 - p = 983039 - p" "(983040 :: nat) - 16 * 8 = 982912" "0 + (p - 983040) = p - 983040" by simp_all
  show ?thesis
    unfolding st kernel_map_def Let_def region_numbers(1-4) NCPU_def frames_at_def one or.assoc or.idem
    using P low by (rule regions_in_order)
qed

lemma map_kernel_ok:
  assumes view: "kview s K {957, 958} (\<lambda>_. 0)" and kd: "kern_pgdir s = K" and np: "npages s = np" "0 < np" "np \<le> 65536"
    and pa: "kva_frame pages_va a" "kva_frame envs_va b" and st: "\<forall>i<NCPU. kva_frame (stacks i) (st i)"
    and room: "67 \<le> length (free_pages s)"
  obtains s' where "map_kernel pages_va envs_va stacks s = Some s'" and "same_setup s s'"
    and "kview s' K {955..1023} (kernel_map np a b st)" and "free_pages s' = drop 67 (free_pages s)"
    and "phys s' K 957 = phys s K 957"
proof -
  let ?P = "(np + 511) div 512"
  note tb = kernel_tables [OF np(2,3)] and sz = region_sizes and nums = region_numbers(5-7)
  have pad: "PADDR pages_va = Some (page_addr a)" "PADDR envs_va = Some (page_addr b)"
    using pa PADDR_frame by (auto simp: kva_frame_def)
  let ?E1 = "frames_at 978944 ?P a (PTE_U OR PTE_P) (\<lambda>_. 0)"
  let ?E2 = "frames_at 977920 33 b (PTE_U OR PTE_P) ?E1"
  let ?E3 = "frames_at 983040 65536 0 (PTE_W OR PTE_P) ?E2"
  have top: "978944 + ?P \<le> 1048576" using tb(2) by simp
  have f1: "region_free 978944 ?P (\<lambda>_. 0)" using tb(2) by (auto simp: region_free_def)
  have f2: "region_free 977920 33 ?E1" by (auto simp: region_free_def frames_at_def)
  have f3: "region_free 983040 65536 ?E2" using tb(2) by (auto simp: region_free_def frames_at_def)
  have f4: "region_free (stack_at i) 8 ?E3" if "i < 8" for i
    using tb(2) that by (auto simp: region_free_def frames_at_def stack_at_def)
  obtain s1 where s1: "boot_map_region s K UPAGES (ROUNDUP (word_of_nat (np * sizeof_PageInfo)) PGSIZE) (page_addr a) (PTE_U OR PTE_P) = Some s1"
    "same_setup s s1" "kview s1 K ({957, 958} \<union> {956}) ?E1" "free_pages s1 = drop 1 (free_pages s)" "phys s1 K 957 = phys s K 957"
    using kview_map [OF view sz(1) [OF np(3)] tb(1) top f1, of a "PTE_U OR PTE_P"] room unfolding tb(3) nums [symmetric] by auto
  have c2: "card ({955} - ({957, 958} \<union> {956 :: nat})) = 1" by simp
  have r2: "card ({977920 div 1024 :: nat..(977920 + 33 - 1) div 1024} - ({957, 958} \<union> {956})) \<le> length (free_pages s1)"
    unfolding tb(4) c2 using room s1(4) by simp
  obtain s2 where s2: "boot_map_region s1 K UENVS (ROUNDUP NENV_words PGSIZE) (page_addr b) (PTE_U OR PTE_P) = Some s2"
    "same_setup s1 s2" "kview s2 K ({957, 958} \<union> {956} \<union> {955}) ?E2" "free_pages s2 = drop 2 (free_pages s)" "phys s2 K 957 = phys s K 957"
    using kview_map [OF s1(3) sz(2) _ _ f2 r2, of b "PTE_U OR PTE_P"] s1(4,5) unfolding tb(4) nums [symmetric]
    by (auto simp: numeral_2_eq_2)
  have c3: "card ({960..1023} - ({957, 958} \<union> {956} \<union> {955 :: nat})) = 64"
  proof -
    have "{960..1023} - ({957, 958} \<union> {956} \<union> {955 :: nat}) = {960..1023}" by auto
    then show ?thesis by simp
  qed
  have r3: "card ({983040 div 1024 :: nat..(983040 + 65536 - 1) div 1024} - ({957, 958} \<union> {956} \<union> {955})) \<le> length (free_pages s2)"
    unfolding tb(5) c3 using room s2(4) by simp
  obtain s3 where s3: "boot_map_region s2 K KERNBASE 0x10000000 0 (PTE_W OR PTE_P) = Some s3"
    "same_setup s2 s3" "kview s3 K ({957, 958} \<union> {956} \<union> {955} \<union> {960..1023}) ?E3" "free_pages s3 = drop 66 (free_pages s)" "phys s3 K 957 = phys s K 957"
    using kview_map [OF s2(3) sz(3) _ _ f3 r3, of 0 "PTE_W OR PTE_P"] s2(4,5) unfolding tb(5) nums [symmetric] c3 by (auto simp: page_addr_def)
  have kd': "kern_pgdir s1 = K" "kern_pgdir s2 = K" "kern_pgdir s3 = K"
    using kd s1(2) s2(2) s3(2) by (simp_all add: same_setup_def)
  have stk: "i < 8 \<and> kva_frame (stacks i) (st i) \<and> region_free (stack_at i) 8 ?E3" if "i \<in> set [0..<8]" for i
    using that st f4 by (simp add: NCPU_def)
  have ne: "959 \<in> {957, 958} \<union> {956} \<union> {955} \<union> {960..1023 :: nat} \<or> free_pages s3 \<noteq> []" using room s3(4) by simp
  obtain s4 where s4: "mem_init_mp [0..<8] stacks s3 = Some s4" "same_setup s3 s4"
    "kview s4 K ({957, 958} \<union> {956} \<union> {955} \<union> {960..1023} \<union> (\<lambda>_. 959) ` set [0..<8]) (stack_map st [0..<8] ?E3)"
    "free_pages s4 = drop (card ((\<lambda>_. 959 :: nat) ` set [0..<8] - ({957, 958} \<union> {956} \<union> {955} \<union> {960..1023}))) (free_pages s3)"
    "\<forall>d\<in>{957, 958} \<union> {956} \<union> {955} \<union> {960..1023}. phys s4 K d = phys s3 K d"
    using stacks_ok [OF s3(3) kd'(3) distinct_upt stk ne] by blast
  have "phys s4 K 957 = phys s3 K 957" using s4(5) by simp
  note s4 = s4(1-4) this
  have img: "(\<lambda>_. 959 :: nat) ` set [0..<8] = {959}" by (simp add: image_constant_conv)
  have D: "{957, 958} \<union> {956} \<union> {955} \<union> {960..1023} \<union> {959} = {955..1023 :: nat}" by auto
  have c4: "card ({959} - ({957, 958} \<union> {956} \<union> {955} \<union> {960..1023 :: nat})) = 1" by (subst Diff_triv) auto
  have view: "kview s4 K {955..1023} (kernel_map np a b st)"
    using s4(3) unfolding img D by (rule kview_cong) (simp add: kernel_map_regions [OF tb(2)])
  have run: "map_kernel pages_va envs_va stacks s = Some s4"
    using s1(1) s2(1) s3(1) s4(1) kd kd' np(1) by (simp add: map_kernel_def pad NCPU_def)
  show thesis
    by (rule that [OF run])
      (use view s4(4,5) s3(4,5) same_setup_trans [OF same_setup_trans [OF same_setup_trans [OF s1(2) s2(2)] s3(2)] s4(2)] in
        \<open>simp_all only: img c4 drop_drop\<close>, simp)
qed

subsection \<open>The check of the kernel's address space\<close>

lemma pages_small: "np \<le> 65536 \<Longrightarrow> (np + 511) div 512 \<le> (128 :: nat)"
  by simp

lemma kernel_map_at:
  "k < 33 \<Longrightarrow> kernel_map np a b st (977920 + k) = page2pa (b + k) OR PTE_U OR PTE_P"
  "k < (np + 511) div 512 \<Longrightarrow> np \<le> 65536 \<Longrightarrow> kernel_map np a b st (978944 + k) = page2pa (a + k) OR PTE_U OR PTE_P"
  "np \<le> 65536 \<Longrightarrow> kernel_map np a b st (983040 + k) = page2pa k OR PTE_W OR PTE_P"
  using pages_small [of np] by (simp_all add: kernel_map_def region_numbers(1-4) Let_def)

lemma kernel_map_stack:
  assumes "i < 8" and "k < 8" and "np \<le> 65536"
  shows "kernel_map np a b st (stack_at i + k) = page2pa (st i + k) OR PTE_W OR PTE_P"
    and "kernel_map np a b st (stack_at i - 8 + k) = 0"
proof -
  let ?p = "stack_at i + k"
  have p: "stack_at i \<le> ?p \<and> ?p < stack_at i + 8" using assms by simp
  note pl = stack_place(1) [OF assms(1), of ?p, THEN iffD1, OF p] stack_place(2) [OF assms(1) p]
  have "7 - (983039 - ?p) mod 16 = k" using pl(2) by simp
  moreover have "\<not> ?p < 978944 + (np + 511) div 512" using pl(1) pages_small [OF assms(3)] by linarith
  ultimately show "kernel_map np a b st ?p = page2pa (st i + k) OR PTE_W OR PTE_P"
    using pl(1) by (simp add: kernel_map_def region_numbers(1-4) NCPU_def Let_def)
  let ?q = "stack_at i - 8 + k"
  have q: "982912 \<le> ?q" "?q < 983040" "983039 - ?q = 16 * i + (15 - k)" using assms by (simp_all add: stack_at_def)
  have "(983039 - ?q) mod 16 = (15 - k) mod 16" unfolding q(3) by (rule mod_mult_self4)
  then have m: "\<not> (983039 - ?q) mod 16 < 8" using assms(2) by simp
  have "\<not> ?q < 978944 + (np + 511) div 512" using q(1) pages_small [OF assms(3)] by linarith
  then show "kernel_map np a b st ?q = 0"
    using q(1,2) m by (simp add: kernel_map_def region_numbers(1-4) NCPU_def Let_def)
qed

lemma flag_entry:
  assumes "f < 1048576" and "perm = PTE_U \<or> perm = PTE_W"
  shows "PTE_ADDR (page2pa f OR perm OR PTE_P) = page2pa f" and "(page2pa f OR perm OR PTE_P) AND PTE_P \<noteq> 0"
proof -
  have "PGNUM (perm OR PTE_P) = 0" using assms(2) by (auto simp: PGNUM_def PTE_P_def PTE_W_def PTE_U_def)
  then show "PTE_ADDR (page2pa f OR perm OR PTE_P) = page2pa f"
    unfolding PTE_ADDR_page2pa using PGNUM_entry [of f "perm OR PTE_P"] assms(1) by simp
  show "(page2pa f OR perm OR PTE_P) AND PTE_P \<noteq> 0" by (simp add: flag_bits bit_simps) (simp add: PTE_P_def bit_simps)
qed

lemma view_maps:
  assumes view: "kview s K D E" and kd: "kern_pgdir s = K" and p: "p < 1048576" "p div 1024 \<noteq> 957" "p div 1024 \<in> D"
  shows "check_va2pa s (kern_pgdir s) (page_addr p) = Some (if E p AND PTE_P = 0 then - 1 else PTE_ADDR (E p))"
proof -
  have "phys s K (PDX (page_addr p)) \<noteq> 0" using kviewD(2) [OF view] p by (simp add: page_addr_index)
  then show ?thesis
    using check_va2pa_present [OF kviewD(1) [OF view] kern_page [OF p(1,2)]] kviewD(3) [OF view kern_page [OF p(1,2)]] kd p(1)
    by (simp add: PGNUM_page_addr)
qed

lemma region_maps_ok:
  assumes view: "kview s K D E" and kd: "kern_pgdir s = K" and sz: "unat sz = 4096 * m" and perm: "perm = PTE_U \<or> perm = PTE_W"
    and f: "f + m \<le> 1048576"
    and pages: "\<And>k. k < m \<Longrightarrow> v + k < 1048576 \<and> (v + k) div 1024 \<noteq> 957 \<and> (v + k) div 1024 \<in> D \<and> E (v + k) = page2pa (f + k) OR perm OR PTE_P"
  shows "region_maps s (page_addr v) sz (page_addr f) = Some ()"
proof -
  have m: "(4096 * m + 4095) div 4096 = m" by simp
  have "maps_to s (page_addr v + PGSIZE * word_of_nat k) (page_addr f + PGSIZE * word_of_nat k) = Some ()" if "k < m" for k
  proof -
    note pg = pages [OF that]
    have fk: "f + k < 1048576" using f that by simp
    have "page_addr (f + k) = page2pa (f + k)" by (simp add: page_addr_def page2pa_def)
    then show ?thesis
      unfolding page_addr_add maps_to_def
      using view_maps [OF view kd, of "v + k"] pg flag_entry [OF fk perm] by simp
  qed
  then show ?thesis by (simp add: region_maps_def sz m list_all_iff)
qed

lemma region_unmapped_ok:
  assumes view: "kview s K D E" and kd: "kern_pgdir s = K" and sz: "unat sz = 4096 * m"
    and pages: "\<And>k. k < m \<Longrightarrow> v + k < 1048576 \<and> (v + k) div 1024 \<noteq> 957 \<and> (v + k) div 1024 \<in> D \<and> E (v + k) = 0"
  shows "region_unmapped s (page_addr v) sz = Some ()"
proof -
  have m: "(4096 * m + 4095) div 4096 = m" by simp
  have "maps_to s (page_addr v + PGSIZE * word_of_nat k) (- 1) = Some ()" if "k < m" for k
    unfolding page_addr_add maps_to_def using view_maps [OF view kd, of "v + k"] pages [OF that] by simp
  then show ?thesis by (simp add: region_unmapped_def sz m list_all_iff)
qed

lemma pdes_ok:
  assumes view: "kview s K {955..1023} E" and kd: "kern_pgdir s = K" and uvpt: "phys s K 957 AND PTE_P \<noteq> 0" and i: "i < 1024"
  shows "pde_ok s i"
proof -
  note vw = kviewD [OF view]
  have nums: "PDX UVPT = 957" "PDX (KSTACKTOP - 1) = 959" "PDX UPAGES = 956" "PDX UENVS = 955" "PDX MMIOBASE = 958" "PDX KERNBASE = 960"
    by (simp_all add: PDX_unat layout_defs)
  show ?thesis
  proof (cases "955 \<le> i \<and> i \<noteq> 957")
    case True
    have "phys s K i \<noteq> 0" unfolding vw(2) using True i by simp
    then have d: "i \<in> ktabs s K" using True i by (simp add: ktabs_def nums)
    have "PGNUM (phys s K i) < 2 ^ 20" using kdirD(7) [OF vw(1) d] kdirD(2) [OF vw(1)] by simp
    from table_entry_facts(3,4) [OF this] kdirD(6) [OF vw(1) d]
    have "phys s K i AND PTE_P \<noteq> 0" "phys s K i AND PTE_W \<noteq> 0" by metis+
    then show ?thesis using True by (auto simp: pde_ok_def nums kd Let_def)
  next
    case False
    then have "i = 957 \<or> phys s K i = 0 \<and> i < 955" using vw(2) [of i] i by auto
    then show ?thesis using uvpt by (auto simp: pde_ok_def nums kd Let_def)
  qed
qed

lemma check_stacks_ok:
  assumes view: "kview s K {955..1023} (kernel_map np a b st)" and kd: "kern_pgdir s = K" and np: "np \<le> 65536"
    and st: "\<And>i. i \<in> set is \<Longrightarrow> i < 8 \<and> kva_frame (stacks i) (st i)"
  shows "check_stacks is stacks s = Some ()"
  using st
proof (induction "is")
  case (Cons i "is")
  have i: "i < 8" "kva_frame (stacks i) (st i)" using Cons.prems [of i] by simp_all
  have base: "KSTACKTOP - (KSTKSIZE + KSTKGAP) * word_of_nat (i + 1) = page_addr (stack_at i - 8)"
  proof -
    have "KSTACKTOP - (KSTKSIZE + KSTKGAP) * word_of_nat (i + 1) = KSTACKTOP - word_of_nat i * (KSTKSIZE + KSTKGAP) - KSTKSIZE - 8 * PGSIZE"
      by (simp add: layout_defs algebra_simps)
    also have "\<dots> = page_addr (stack_at i - 8)"
      unfolding stack_address [OF i(1)] using page_addr_add [of "stack_at i - 8" 8] i(1) by (simp add: stack_at_def) (simp add: algebra_simps)
    finally show ?thesis .
  qed
  have gap: "page_addr (stack_at i - 8) + KSTKGAP = page_addr (stack_at i)"
    using page_addr_add [of "stack_at i - 8" 8] i(1) by (simp add: stack_at_def KSTKGAP_def algebra_simps)
  have sz: "unat KSTKSIZE = 4096 * 8" "unat KSTKGAP = 4096 * 8" by (simp_all add: layout_defs)
  have places: "stack_at i + k < 1048576" "(stack_at i + k) div 1024 = 959" "stack_at i - 8 + k < 1048576" "(stack_at i - 8 + k) div 1024 = 959"
    if "k < 8" for k
    using i(1) that by (simp_all add: stack_at_def)
  have m: "region_maps s (page_addr (stack_at i)) KSTKSIZE (page_addr (st i)) = Some ()"
    by (rule region_maps_ok [OF view kd sz(1), of PTE_W])
      (use i kernel_map_stack(1) [OF i(1) _ np] places in \<open>auto simp: kva_frame_def\<close>)
  have u: "region_unmapped s (page_addr (stack_at i - 8)) KSTKGAP = Some ()"
    by (rule region_unmapped_ok [OF view kd sz(2)]) (use kernel_map_stack(2) [OF i(1) _ np] places in auto)
  have pa: "PADDR (stacks i) = Some (page_addr (st i))" using i(2) PADDR_frame by (simp add: kva_frame_def)
  show ?case using Cons.IH Cons.prems m u unfolding check_stacks.simps Let_def base gap by (simp add: pa)
qed simp

lemma check_kern_pgdir_ok:
  assumes view: "kview s K {955..1023} (kernel_map np a b st)" and kd: "kern_pgdir s = K" and np: "npages s = np" "0 < np" "np \<le> 65536"
    and pa: "kva_frame pages_va a" "kva_frame envs_va b" and st: "\<forall>i<NCPU. kva_frame (stacks i) (st i)"
    and uvpt: "phys s K 957 AND PTE_P \<noteq> 0"
  shows "check_kern_pgdir pages_va envs_va stacks s = Some ()"
proof -
  note sz = region_sizes
  have small: "a < 65536" "b < 65536" using pa by (simp_all add: kva_frame_def)
  have pad: "PADDR pages_va = Some (page_addr a)" "PADDR envs_va = Some (page_addr b)"
    using pa PADDR_frame by (auto simp: kva_frame_def)
  have P: "(np + 511) div 512 \<le> 128" by (rule pages_small [OF np(3)])
  have r1: "region_maps s UPAGES (ROUNDUP (word_of_nat (npages s * sizeof_PageInfo)) PGSIZE) (page_addr a) = Some ()"
    unfolding region_numbers np(1)
    by (rule region_maps_ok [OF view kd sz(1) [OF np(3)], of PTE_U]) (use small P kernel_map_at(2) np(3) in auto)
  have r2: "region_maps s UENVS (ROUNDUP NENV_words PGSIZE) (page_addr b) = Some ()"
    unfolding region_numbers
    by (rule region_maps_ok [OF view kd sz(2), of PTE_U]) (use small kernel_map_at(1) in auto)
  have n: "unat (word_of_nat (npages s) * PGSIZE) = 4096 * np"
    using np by (simp add: PGSIZE_def unat_word_ariths unat_of_nat)
  have "region_maps s (page_addr 983040) (word_of_nat (npages s) * PGSIZE) (page_addr 0) = Some ()"
    by (rule region_maps_ok [OF view kd n, of PTE_W]) (use np kernel_map_at(3) [OF np(3)] in auto)
  then have r3: "region_maps s KERNBASE (word_of_nat (npages s) * PGSIZE) 0 = Some ()"
    unfolding region_numbers by (simp add: page_addr_def)
  have r4: "check_stacks [0..<NCPU] stacks s = Some ()"
    by (rule check_stacks_ok [OF view kd np(3)]) (use st in \<open>auto simp: NCPU_def\<close>)
  have "list_all (pde_ok s) [0..<1024]" using pdes_ok [OF view kd uvpt] by (auto simp: list_all_iff)
  then show ?thesis by (simp add: check_kern_pgdir_def pad r1 r2 r3 r4 del: of_nat_mult)
qed

subsection \<open>The start\<close>

lemma unat_kernel_frame: "f < 65536 \<Longrightarrow> unat (page_addr f + KERNBASE) = f * 4096 + 0xF0000000"
  using unat_page_addr [of f] by (simp add: unat_word_ariths KERNBASE_def)

text \<open>\<open>boot_alloc\<close> gives out frames one after the other.\<close>

lemma boot_alloc_frames:
  assumes start: "(if nextfree = 0 then ROUNDUP kend PGSIZE else nextfree) = page_addr k + KERNBASE"
    and np: "np \<le> 65536" and fits: "k + (unat n + 4095) div 4096 < np"
  shows "boot_alloc np kend nextfree n = Some (page_addr k + KERNBASE, page_addr (k + (unat n + 4095) div 4096) + KERNBASE)"
proof -
  let ?c = "(unat n + 4095) div 4096"
  let ?e = "page_addr k + KERNBASE + n"
  have n: "unat n \<le> ?c * 4096" by linarith
  have k: "k < 65536" using np fits by simp
  have e: "unat ?e = k * 4096 + 0xF0000000 + unat n"
    using unat_kernel_frame [OF k] n np fits by (simp add: unat_word_ariths)
  have pa: "unat (?e - KERNBASE) = k * 4096 + unat n"
    using unat_page_addr [of k] k n np fits by (simp add: unat_word_ariths)
  have p: "PADDR ?e = Some (?e - KERNBASE)" using e by (simp add: PADDR_def word_less_nat_alt KERNBASE_def)
  have lim: "unat (PGSIZE * word_of_nat np) = 4096 * np" using np by (simp add: PGSIZE_def unat_word_ariths unat_of_nat)
  have less: "k * 4096 + unat n < 4096 * np" using n fits by simp
  then have "\<not> ?e - KERNBASE \<ge> PGSIZE * word_of_nat np" using pa lim by (simp add: word_le_nat_alt)
  moreover have "KADDR np (?e - KERNBASE) = Some ?e" using pa less by (simp add: KADDR_def PGNUM_div)
  moreover have "ROUNDUP ?e PGSIZE = page_addr (k + ?c) + KERNBASE"
  proof -
    have "unat ?e + 4095 < 2 ^ 32" using e n np fits by simp
    then have "unat (ROUNDUP ?e PGSIZE) = (unat ?e + 4095) div 4096 * 4096" by (rule unat_ROUNDUP)
    also have "(unat ?e + 4095) div 4096 = k + ?c + 0xF0000" unfolding e by linarith
    finally have "unat (ROUNDUP ?e PGSIZE) = unat (page_addr (k + ?c) + KERNBASE)"
      using unat_kernel_frame [of "k + ?c"] np fits by simp
    then show ?thesis by (rule word_unat_eq_iff [THEN iffD2])
  qed
  ultimately show ?thesis using start p by (simp add: boot_alloc_def Let_def)
qed

text \<open>What \<open>page_init\<close> does not change.\<close>

lemma page_init_loop_links:
  "pp_link (page_init_loop ff is s) q \<noteq> None \<Longrightarrow> pp_link s q \<noteq> None \<or> q \<in> set is \<and> \<not> page_reserved ff q"
proof (induction "is" arbitrary: s)
  case (Cons i "is")
  show ?case
  proof (cases "page_reserved ff i")
    case True
    then show ?thesis using Cons.IH [of "s\<lparr>pp_link := (pp_link s)(i := None)\<rparr>"] Cons.prems by (cases "q = i") simp_all
  next
    case False
    then show ?thesis
      using Cons.IH [of "s\<lparr>pp_link := (pp_link s)(i := page_free_list s), pp_ref := (pp_ref s)(i := 0), page_free_list := Some i\<rparr>"] Cons.prems
      by (cases "q = i") simp_all
  qed
qed simp

lemma page_init_loop_other:
  "(\<forall>p. pp_ref s p = 0) \<Longrightarrow> (\<forall>p. pp_ref (page_init_loop ff is s) p = 0) \<and>
    npages (page_init_loop ff is s) = npages s \<and> kern_pgdir (page_init_loop ff is s) = kern_pgdir s \<and>
    mmio_base (page_init_loop ff is s) = mmio_base s \<and> phys (page_init_loop ff is s) = phys s"
proof (induction "is" arbitrary: s)
  case (Cons i "is")
  show ?case
    using Cons.IH [of "s\<lparr>pp_link := (pp_link s)(i := None)\<rparr>"] Cons.prems
      Cons.IH [of "s\<lparr>pp_link := (pp_link s)(i := page_free_list s), pp_ref := (pp_ref s)(i := 0), page_free_list := Some i\<rparr>"]
    by (simp add: Let_def)
qed simp

text \<open>The list after \<open>page_init\<close> and the sorting: more than 150 pages below 640 KB at its start.\<close>

definition start_list :: "nat \<Rightarrow> nat \<Rightarrow> nat list" where
  "start_list np first = rev (filter (\<lambda>i. \<not> page_reserved first i) [0..<np])"

lemma page_numbers: "PGNUM MPENTRY_PADDR = 7" "PGNUM IOPHYSMEM = 160" "PGNUM EXTPHYSMEM = 256"
  by (simp_all add: PGNUM_def layout_defs)

lemma three_first: "3 \<le> length l \<Longrightarrow> \<exists>a b c xs. l = a # b # c # xs"
  by (auto simp: Suc_le_length_iff numeral_3_eq_3)

lemma start_list_low:
  assumes "1024 < np" and "np \<le> 65536" and "256 < first" and "first < np"
  obtains a b c xs hs where "low_first 1 (start_list np first) = a # b # c # xs @ 1 # hs" and "150 \<le> length xs"
    and "np - 1 \<in> set hs"
proof -
  let ?ok = "\<lambda>i. \<not> page_reserved first i"
  have lp: "low_page 1 p \<longleftrightarrow> p < 1024" if "p < np" for p
  proof -
    have "PDX (page2pa p) = p div 1024" using page_addr_index [of p] that assms(2) by (simp add: page2pa_def page_addr_def)
    then show ?thesis unfolding low_page_def by linarith
  qed
  let ?rest = "filter (\<lambda>i. ?ok i \<and> low_page 1 i) [2..<np]"
  have one: "low_page 1 1" "?ok 1" using lp [of 1] assms by (simp_all add: page_reserved_def page_numbers)
  have split: "[0..<np] = 0 # 1 # [2..<np]" 
    using upt_conv_Cons [of 0 np] upt_conv_Cons [of "Suc 0" np] assms(1) by (simp add: numeral_2_eq_2)
  have zero: "page_reserved first 0" by (simp add: page_reserved_def)
  have lows: "filter (low_page 1) (start_list np first) = rev ?rest @ [1]"
    using one zero unfolding start_list_def rev_filter [symmetric] filter_filter split by simp
  have "{2..<160} - {7} \<subseteq> set ?rest"
    using assms(1) lp by (auto simp: page_reserved_def page_numbers)
  then have "card ({2..<160} - {7 :: nat}) \<le> card (set ?rest)" by (intro card_mono) auto
  also have "card (set ?rest) = length ?rest" by (intro distinct_card) simp
  finally have len: "157 \<le> length (rev ?rest)" by simp
  then obtain a b c xs where r: "rev ?rest = a # b # c # xs" using three_first [of "rev ?rest"] by auto
  then have "low_first 1 (start_list np first) = a # b # c # xs @ 1 # filter (\<lambda>p. \<not> low_page 1 p) (start_list np first)"
    using lows by (simp add: low_first_def)
  moreover have "150 \<le> length xs" using len r by simp
  moreover have "np - 1 \<in> set (filter (\<lambda>p. \<not> low_page 1 p) (start_list np first))"
    using assms lp [of "np - 1"] by (auto simp: start_list_def page_reserved_def page_numbers)
  ultimately show thesis using that by blast
qed

subsection \<open>The whole of \<open>mem_init\<close>\<close>

lemma kernel_end_frame:
  assumes "e < 0x10000000 - 4096"
  shows "ROUNDUP (KERNBASE + word_of_nat e) PGSIZE = page_addr ((e + 4095) div 4096) + KERNBASE"
proof -
  have e: "unat (KERNBASE + word_of_nat e) = 0xF0000000 + e"
    using assms by (simp add: KERNBASE_def unat_word_ariths unat_of_nat)
  have "unat (ROUNDUP (KERNBASE + word_of_nat e) PGSIZE) = (0xF0000000 + e + 4095) div 4096 * 4096"
    using unat_ROUNDUP [of "KERNBASE + word_of_nat e"] assms unfolding e by simp
  also have "0xF0000000 + e + 4095 = (e + 4095) + 4096 * 983040" by simp
  also have "((e + 4095) + 4096 * 983040) div 4096 * 4096 = (e + 4095) div 4096 * 4096 + 0xF0000000"
    unfolding div_mult_self2 [OF numeral_neq_zero] by simp
  also have "\<dots> = unat (page_addr ((e + 4095) div 4096) + KERNBASE)"
    using unat_kernel_frame [of "(e + 4095) div 4096"] assms by simp
  finally show ?thesis by (rule word_unat_eq_iff [THEN iffD2])
qed

lemma create_directory_ok:
  assumes "ROUNDUP kend PGSIZE = page_addr k + KERNBASE" and "np \<le> 65536" and "k + 1 < np"
  shows "create_directory np kend s = Some (store_word (s\<lparr>npages := np, kern_pgdir := k, phys := (phys s)(k := \<lambda>_. 0)\<rparr>) k 957
           (page_addr k OR PTE_U OR PTE_P), page_addr (k + 1) + KERNBASE)"
proof -
  have "boot_alloc np kend 0 PGSIZE = Some (page_addr k + KERNBASE, page_addr (k + 1) + KERNBASE)"
    using boot_alloc_frames [of 0 kend k np PGSIZE] assms by (simp add: PGSIZE_def)
  moreover have "PGNUM (page_addr k) = k" using assms by (intro PGNUM_page_addr) simp
  ultimately show ?thesis
    using PADDR_frame [of k] assms by (simp add: create_directory_def UVPT_val(2) Let_def)
qed

text \<open>The frames of the kernel's arrays: the directory is at the first frame \<open>k\<close> after the kernel, and the pages that are
  free from the start lie after them.\<close>

definition kernel_frame :: "nat \<Rightarrow> nat" where "kernel_frame e = (e + 4095) div 4096"
definition envs_frame :: "nat \<Rightarrow> nat \<Rightarrow> nat" where "envs_frame np e = kernel_frame e + 1 + (np + 511) div 512"
definition first_free_frame :: "nat \<Rightarrow> nat \<Rightarrow> nat" where "first_free_frame np e = envs_frame np e + 33"

text \<open>The state when the first test starts.\<close>

definition booted :: "nat \<Rightarrow> nat \<Rightarrow> pmem \<Rightarrow> pmem" where
  "booted np e s = (let k = kernel_frame e in
     page_init (first_free_frame np e) (store_word (s\<lparr>npages := np, kern_pgdir := k, phys := (phys s)(k := \<lambda>_. 0)\<rparr>) k 957
       (page_addr k OR PTE_U OR PTE_P)\<lparr>pp_link := \<lambda>_. None, pp_ref := \<lambda>_. 0\<rparr>))"

lemma booted_ok:
  assumes np: "np \<le> 65536" "first_free_frame np e < np" and e: "0x100000 < e" and none: "page_free_list s = None"
  shows "kdir_ok (booted np e s) (kernel_frame e)" and "free_pages (booted np e s) = start_list np (first_free_frame np e)"
    and "kern_pgdir (booted np e s) = kernel_frame e" and "npages (booted np e s) = np" and "mmio_base (booted np e s) = mmio_base s"
    and "phys (booted np e s) (kernel_frame e) = (\<lambda>_. 0)(957 := page_addr (kernel_frame e) OR PTE_U OR PTE_P)"
    and "stray (booted np e s) = {}" and "\<And>q. fixed_frame q \<Longrightarrow> phys (booted np e s) q = phys s q"
proof -
  let ?k = "kernel_frame e" and ?first = "first_free_frame np e"
  let ?s = "store_word (s\<lparr>npages := np, kern_pgdir := ?k, phys := (phys s)(?k := \<lambda>_. 0)\<rparr>) ?k 957
       (page_addr ?k OR PTE_U OR PTE_P)\<lparr>pp_link := \<lambda>_. None, pp_ref := \<lambda>_. 0\<rparr>"
  have b: "booted np e s = page_init ?first ?s" by (simp add: booted_def Let_def)
  have n: "page_free_list ?s = None" using none by (simp add: store_word_def)
  note init = page_init_free [OF n, of ?first] and rest = page_init_loop_other [of ?s ?first "[0..<npages ?s]", folded page_init_def]
  have same: "npages (booted np e s) = npages ?s \<and> kern_pgdir (booted np e s) = kern_pgdir ?s \<and> mmio_base (booted np e s) = mmio_base ?s" "phys (booted np e s) = phys ?s" "\<forall>p. pp_ref (booted np e s) p = 0"
    using rest unfolding b by simp_all
  show free: "free_pages (booted np e s) = start_list np ?first"
    using init(2) unfolding b start_list_def by (simp add: store_word_def)
  show kd: "kern_pgdir (booted np e s) = ?k" and npg: "npages (booted np e s) = np" and "mmio_base (booted np e s) = mmio_base s"
    using same(1) by (simp_all add: store_word_def)
  show ph: "phys (booted np e s) ?k = (\<lambda>_. 0)(957 := page_addr ?k OR PTE_U OR PTE_P)"
    unfolding same(2) by (simp add: store_word_def)
  have "q \<in> set (free_pages (booted np e s))" if "pp_link (booted np e s) q \<noteq> None" for q
  proof -
    have "q \<in> set [0..<npages ?s] \<and> \<not> page_reserved ?first q"
      using page_init_loop_links [of ?first "[0..<npages ?s]" ?s q] that unfolding b page_init_def by (simp add: store_word_def)
    then show ?thesis unfolding free by (simp add: start_list_def store_word_def)
  qed
  then show "stray (booted np e s) = {}" by (auto simp: stray_def)
  have "fixed_frame q \<Longrightarrow> q \<noteq> ?k" for q
    using e by (auto simp: fixed_frame_def page_reserved_def page_numbers kernel_frame_def)
  then show "phys (booted np e s) q = phys s q" if "fixed_frame q" for q
    using that unfolding same(2) by (simp add: store_word_def)
  have k: "256 < ?k" "?k < ?first" using e by (simp_all add: kernel_frame_def first_free_frame_def envs_frame_def) 
  then have "page_reserved ?first ?k" by (simp add: page_reserved_def page_numbers)
  moreover have "ktabs (booted np e s) ?k = {}" unfolding ktabs_def ph by (auto simp: UVPT_val(2))
  moreover have "\<not> fixed_frame ?k" "\<And>p. \<not> page_reserved ?first p \<Longrightarrow> \<not> fixed_frame p"
    using k by (auto simp: fixed_frame_def page_reserved_def page_numbers)
  ultimately show "kdir_ok (booted np e s) ?k"
    using init(1) np k same(3) unfolding kdir_ok_def free npg b [symmetric] by (simp add: start_list_def)
qed

lemma keeps_dirD:
  assumes "keeps_dir s s' K"
  shows "npages s' = npages s" and "kern_pgdir s' = kern_pgdir s" and "mmio_base s' = mmio_base s" and "phys s' K = phys s K"
    and "kern_va va \<Longrightarrow> pte_at s' K va = pte_at s K va"
  using assms by (auto simp: keeps_dir_def same_setup_def)

text \<open>The tests before the address space is built take one frame, for the table of the devices.\<close>

lemma early_tests_ok:
  assumes np: "np \<le> 65536" "1024 < np" "first_free_frame np e < np" and e: "0x100000 < e" and none: "page_free_list s = None"
    and base: "mmio_base s = MMIOBASE"
    and boot: "boot_alloc np kend nextfree 0 = Some (page_addr (first_free_frame np e) + KERNBASE, nf)"
  obtains s1 s2 s3 xs hs where "check_page_free_list kend nextfree True (booted np e s) = Some s1" and "check_page_alloc s1 = Some s2"
    and "check_page s2 = Some s3" and "kview s3 (kernel_frame e) {957, 958} (\<lambda>_. 0)" and "kern_pgdir s3 = kernel_frame e" and "npages s3 = np"
    and "phys s3 (kernel_frame e) 957 = page_addr (kernel_frame e) OR PTE_U OR PTE_P"
    and "free_pages s3 = xs @ 1 # hs" and "152 \<le> length xs" and "np - 1 \<in> set hs"
    and "length (free_pages s3) + 1 = length (start_list np (first_free_frame np e))"
    and "set (free_pages s3) \<subseteq> set (start_list np (first_free_frame np e))" and "stray s3 = {}"
    and "\<And>q. fixed_frame q \<Longrightarrow> phys s3 q = phys s q" and "mmio_base s3 = page_addr 980995"
proof -
  let ?K = "kernel_frame e" and ?first = "first_free_frame np e"
  let ?s0 = "booted np e s"
  note b = booted_ok [OF np(1,3) e none]
  have first: "256 < ?first" "?first < 65536" using e np by (simp_all add: kernel_frame_def first_free_frame_def envs_frame_def)
  obtain a b' c xs hs where l: "low_first 1 (start_list np ?first) = a # b' # c # xs @ 1 # hs" "150 \<le> length xs" "np - 1 \<in> set hs"
    using start_list_low [OF np(2,1) first(1) np(3)] by metis
  have in0: "1 \<in> set (free_pages ?s0)" "np - 1 \<in> set (free_pages ?s0)"
    using l(1,3) set_low_first [of 1 "start_list np ?first"] unfolding b(2) by auto
  have len0: "length (low_first 1 (start_list np ?first)) = length (start_list np ?first)"
    by (simp add: low_first_def sum_length_filter_compl)
  have placed: "wellplaced ?s0 ?first p" if "p \<in> set (free_pages ?s0)" for p
    using that unfolding b(2) wellplaced_def b(4) by (auto simp: start_list_def)
  have np0: "npages ?s0 \<le> 65536" using np(1) b(4) by simp
  have boot0: "boot_alloc (npages ?s0) kend nextfree 0 = Some (page_addr ?first + KERNBASE, nf)" using boot b(4) by simp
  obtain s1 where s1: "check_page_free_list kend nextfree True ?s0 = Some s1" "kdir_ok s1 ?K" "keeps_dir ?s0 s1 ?K"
    "free_pages s1 = a # b' # c # xs @ 1 # hs"
    by (rule check_page_free_list_ok [OF b(1) np0 first boot0 placed in0(1) _ in0(2), where b = True]) (use b(2) l(1) np(2) in auto)
  note k1 = keeps_dirD [OF s1(3)]
  have small: "npages s1 < 2 ^ 20" using k1(1) b(4) np(1) by simp
  obtain s2 where s2: "check_page_alloc s1 = Some s2" "kdir_ok s2 ?K" "free_pages s2 = free_pages s1" "same_setup s1 s2"
    "pp_ref s2 = pp_ref s1" "\<And>va. kern_va va \<Longrightarrow> pte_at s2 ?K va = pte_at s1 ?K va" "phys s2 ?K = phys s1 ?K"
    by (rule check_page_alloc_ok [OF s1(2,4) small]) (rule that)
  have ph2: "phys s2 ?K = (\<lambda>_. 0)(957 := page_addr ?K OR PTE_U OR PTE_P)" using s2(7) k1(4) b(6) by simp
  have kd2: "kern_pgdir s2 = ?K" "mmio_base s2 = MMIOBASE" "npages s2 = np"
    using s2(4) k1(1-3) b(3-5) base by (simp_all add: same_setup_def)
  have free2: "free_pages s2 = a # b' # c # xs @ 1 # hs" using s2(3) s1(4) by simp
  obtain s3 where s3: "check_page s2 = Some s3" "kdir_ok s3 ?K" "free_pages s3 = b' # a # xs @ 1 # hs" "npages s3 = npages s2"
    "kern_pgdir s3 = ?K" "\<And>d. phys s3 ?K d \<noteq> 0 \<longleftrightarrow> phys s2 ?K d \<noteq> 0 \<or> d = 958"
    "\<And>d. phys s2 ?K d \<noteq> 0 \<Longrightarrow> phys s3 ?K d = phys s2 ?K d" "\<And>va. kern_va va \<Longrightarrow> pte_at s3 ?K va = pte_at s2 ?K va"
    "stray s3 \<subseteq> stray s2" "\<And>q. fixed_frame q \<Longrightarrow> phys s3 q = phys s2 q"
    "mmio_base s3 = page_addr 980995"
    by (rule check_page_ok [OF s2(2) kd2(1,2) _ _ _ free2]) (use ph2 in auto)
  have uvpt: "page_addr ?K OR PTE_U OR PTE_P \<noteq> 0"
    using flag_entry(2) [of ?K PTE_U] np(3) np(1) by (auto simp: page_addr_def page2pa_def first_free_frame_def envs_frame_def)
  have "pte_at s3 ?K va = 0" if "kern_va va" for va
    using s3(8) [OF that] ph2 that by (simp add: pte_at_def kern_va_def UVPT_val(2))
  moreover have "{d. phys s3 ?K d \<noteq> 0} = {957, 958}" using s3(6) ph2 uvpt by auto
  ultimately have view: "kview s3 ?K {957, 958} (\<lambda>_. 0)" using s3(2) by (simp add: kview_def)
  have len: "length (free_pages s3) + 1 = length (start_list np ?first)" using s3(3) l(1) len0 by simp
  have sub: "set (free_pages s3) \<subseteq> set (start_list np ?first)"
    using s3(3) l(1) set_low_first [of 1 "start_list np ?first"] by auto
  have "same_setup ?s0 s1" using s1(3) by (simp add: keeps_dir_def)
  then have fixed: "stray s3 = {}" "\<And>q. fixed_frame q \<Longrightarrow> phys s3 q = phys s q"
    using same_setup_stray [of ?s0 s1] same_setup_stray [OF s2(4)] s3(9) b(7) same_setup_fixed [of ?s0 s1] same_setup_fixed [OF s2(4)]
      s3(10) b(8) by auto
  show thesis
    by (intro that [OF s1(1) s2(1) s3(1) view s3(5) _ _ _ _ l(3) len sub, where xs = "b' # a # xs"])
      (use s3(3,4,7) kd2(3) ph2 uvpt l(2) fixed s3(11) in auto)
qed

lemma late_tests_ok:
  assumes view: "kview s K {957, 958} (\<lambda>_. 0)" and kd: "kern_pgdir s = K" "npages s = np" and np: "np \<le> 65536" "1024 < np"
    and uvpt: "phys s K 957 AND PTE_P \<noteq> 0" and free: "free_pages s = xs @ 1 # hs" "152 \<le> length xs" "np - 1 \<in> set hs"
    and first: "256 < first" "first < np" and set: "set (free_pages s) \<subseteq> set (start_list np first)"
    and pa: "kva_frame pages_va a" "kva_frame envs_va b" and st: "\<forall>i<NCPU. kva_frame (stacks i) (st i)"
    and boot: "boot_alloc np kend nextfree 0 = Some (page_addr first + KERNBASE, nf)"
  obtains s1 s2 s3 where "map_kernel pages_va envs_va stacks s = Some s1" and "check_kern_pgdir pages_va envs_va stacks s1 = Some ()"
    and "check_page_free_list kend nextfree False s1 = Some s2" and "check_page_installed_pgdir s2 = Some s3"
    and "kview s3 K {955..1023} (kernel_map np a b st)" and "kern_pgdir s3 = K" and "npages s3 = np"
    and "length (free_pages s3) + 67 = length (free_pages s)" and "set (free_pages s3) \<subseteq> set (start_list np first)"
    and "stray s3 \<subseteq> stray s" and "\<And>q. fixed_frame q \<Longrightarrow> phys s3 q = phys s q" and "mmio_base s3 = mmio_base s"
proof -
  have np0: "0 < np" using np(2) by simp
  have room: "67 \<le> length (free_pages s)" using free by simp
  obtain s1 where s1: "map_kernel pages_va envs_va stacks s = Some s1" "same_setup s s1"
    "kview s1 K {955..1023} (kernel_map np a b st)" "free_pages s1 = drop 67 (free_pages s)" "phys s1 K 957 = phys s K 957"
    by (rule map_kernel_ok [OF view kd np0 np(1) pa st room]) (rule that)
  have kd1: "kern_pgdir s1 = K" "npages s1 = np" using s1(2) kd by (simp_all add: same_setup_def)
  note vw = kviewD [OF s1(3)]
  have checked: "check_kern_pgdir pages_va envs_va stacks s1 = Some ()"
    by (rule check_kern_pgdir_ok [OF s1(3) kd1 np0 np(1) pa st]) (use uvpt s1(5) in simp)
  have free1: "free_pages s1 = drop 67 xs @ 1 # hs" using s1(4) free(1,2) by simp
  have sub: "set (free_pages s1) \<subseteq> set (start_list np first)" using set s1(4) set_drop_subset [of 67 "free_pages s"] by auto
  have placed: "wellplaced s1 first p" if "p \<in> set (free_pages s1)" for p
    using that sub unfolding wellplaced_def kd1(2) by (auto simp: start_list_def)
  have bound: "npages s1 \<le> 65536" "first < 65536" using kd1(2) np(1) first(2) by simp_all
  have boot1: "boot_alloc (npages s1) kend nextfree 0 = Some (page_addr first + KERNBASE, nf)" using boot kd1(2) by simp
  have ends: "1 \<in> set (free_pages s1)" "np - 1 \<in> set (free_pages s1)" using free1 free(3) by simp_all
  obtain s2 where s2: "check_page_free_list kend nextfree False s1 = Some s2" "kdir_ok s2 K" "keeps_dir s1 s2 K" "free_pages s2 = free_pages s1"
    by (rule check_page_free_list_ok [OF vw(1) bound(1) first(1) bound(2) boot1 placed ends(1) _ ends(2), where b = False]) (use np(2) in auto)
  note k2 = keeps_dirD [OF s2(3)]
  have "3 \<le> length (free_pages s2)" using s2(4) free1 free(2) by simp
  then obtain x y z rest where f2: "free_pages s2 = x # y # z # rest" using three_first by blast
  have kd2: "kern_pgdir s2 = K" "npages s2 = np" using k2(1,2) kd1 by simp_all
  have none: "phys s2 K 0 = 0" using k2(4) vw(2) [of 0] by simp
  obtain s3 where s3: "check_page_installed_pgdir s2 = Some s3" "kdir_ok s3 K" "free_pages s3 = x # z # y # rest"
    "same_setup s2 s3" "pp_ref s3 = pp_ref s2" "phys s3 K = phys s2 K" "\<And>va. kern_va va \<Longrightarrow> pte_at s3 K va = pte_at s2 K va"
    by (rule check_page_installed_ok [OF s2(2) kd2(1) none f2]) (rule that)
  have "kview s3 K {955..1023} (kernel_map np a b st)"
    using s1(3) s3(2,6,7) k2(4,5) unfolding kview_def by simp
  moreover have "kern_pgdir s3 = K" "npages s3 = np" using s3(4) kd2 by (simp_all add: same_setup_def)
  moreover have "length (free_pages s3) + 67 = length (free_pages s)"
  proof -
    have "length (free_pages s1) + 67 = length (free_pages s)" using s1(4) room by simp
    then show ?thesis using s3(3) f2 s2(4) by simp
  qed
  moreover have "set (free_pages s3) \<subseteq> set (start_list np first)" using s3(3) f2 s2(4) sub by auto
  moreover have "same_setup s1 s2" using s2(3) by (simp add: keeps_dir_def)
  then have "stray s3 \<subseteq> stray s" "\<And>q. fixed_frame q \<Longrightarrow> phys s3 q = phys s q"
    using same_setup_stray [OF s1(2)] same_setup_stray [of s1 s2] same_setup_stray [OF s3(4)]
      same_setup_fixed [OF s1(2)] same_setup_fixed [of s1 s2] same_setup_fixed [OF s3(4)] by auto
  moreover have "mmio_base s3 = mmio_base s" using s1(2) k2(3) s3(4) by (simp add: same_setup_def)
  ultimately show thesis using that s1(1) checked s2(1) s3(1) by blast
qed

text \<open>The state that \<open>mem_init\<close> leaves: the address space, no stray links, the fixed frames as they were, and the next
  address for a device.\<close>

definition kernel_space :: "nat \<Rightarrow> nat \<Rightarrow> (nat \<Rightarrow> nat) \<Rightarrow> pmem \<Rightarrow> pmem \<Rightarrow> bool" where
  "kernel_space np e st s s' \<longleftrightarrow> npages s' = np \<and> kern_pgdir s' = kernel_frame e \<and>
     kview s' (kernel_frame e) {955..1023} (kernel_map np (kernel_frame e + 1) (envs_frame np e) st) \<and>
     stray s' = {} \<and> (\<forall>q. fixed_frame q \<longrightarrow> phys s' q = phys s q) \<and> mmio_base s' = page_addr 980995 \<and>
     set (free_pages s') \<subseteq> set (start_list np (first_free_frame np e)) \<and>
     length (free_pages s') + 68 = length (start_list np (first_free_frame np e))"

lemma mem_init_ok:
  assumes memory: "fst (i386_detect_memory nvram) = np" "1024 < np" "np \<le> 65536"
    and kernel: "kend = KERNBASE + word_of_nat e" "0x100000 < e" "first_free_frame np e < np"
    and start: "page_free_list s = None" "mmio_base s = MMIOBASE"
    and st: "\<forall>i<NCPU. kva_frame (stacks i) (st i)"
  obtains s' where "mem_init nvram kend stacks s = Some (s', page_addr (kernel_frame e + 1) + KERNBASE, page_addr (envs_frame np e) + KERNBASE)"
    and "kernel_space np e st s s'"
proof -
  let ?k = "kernel_frame e" and ?b = "envs_frame np e" and ?first = "first_free_frame np e"
  let ?at = "\<lambda>f. page_addr f + KERNBASE"
  have k: "?k + 1 < np" "?b < np" "?first < 65536" "256 < ?first" "?k < 65535"
    using kernel memory by (simp_all add: first_free_frame_def envs_frame_def kernel_frame_def)
  have "e < 0x10000000 - 4096" using k(5) by (simp add: kernel_frame_def) 
  from kernel_end_frame [OF this] have kend: "ROUNDUP kend PGSIZE = ?at ?k" by (simp add: kernel(1) kernel_frame_def)
  have next0: "(if ?at f = 0 then ROUNDUP kend PGSIZE else ?at f) = ?at f" if "f < 65536" for f
    using unat_kernel_frame [OF that] by (metis add_eq_0_iff_both_eq_0 unat_0 zero_neq_numeral)
  have n1: "unat (word_of_nat (np * sizeof_PageInfo) :: w32) = np * 8" "(np * 8 + 4095) div 4096 = (np + 511) div 512"
    using memory(3) unfolding sizeof_PageInfo_def unat_of_nat by simp_all
  have n2: "unat NENV_words = 135168" by (simp add: NENV_words_def sizeof_Env_def)
  have b1: "boot_alloc np kend (?at (?k + 1)) (word_of_nat (np * sizeof_PageInfo)) = Some (?at (?k + 1), ?at ?b)"
    using boot_alloc_frames [OF next0 [of "?k + 1"] memory(3), of "word_of_nat (np * sizeof_PageInfo)"] k
    unfolding n1 by (simp add: envs_frame_def)
  have b2: "boot_alloc np kend (?at ?b) NENV_words = Some (?at ?b, ?at ?first)"
    using boot_alloc_frames [OF next0 [of ?b] memory(3), of NENV_words] k kernel(3) unfolding n2 by (simp add: first_free_frame_def)
  have b3: "boot_alloc np kend (?at ?first) 0 = Some (?at ?first, ?at ?first)"
    using boot_alloc_frames [OF next0 [of ?first] memory(3), of 0] k kernel(3) by simp
  obtain s1 s2 s3 xs hs where early: "check_page_free_list kend (?at ?first) True (booted np e s) = Some s1" "check_page_alloc s1 = Some s2"
    "check_page s2 = Some s3" and e3: "kview s3 ?k {957, 958} (\<lambda>_. 0)" "kern_pgdir s3 = ?k" "npages s3 = np"
    "phys s3 ?k 957 = page_addr ?k OR PTE_U OR PTE_P" "free_pages s3 = xs @ 1 # hs" "152 \<le> length xs" "np - 1 \<in> set hs"
    "length (free_pages s3) + 1 = length (start_list np ?first)" "set (free_pages s3) \<subseteq> set (start_list np ?first)"
    "stray s3 = {}" "\<And>q. fixed_frame q \<Longrightarrow> phys s3 q = phys s q" "mmio_base s3 = page_addr 980995"
    by (rule early_tests_ok [OF memory(3,2) kernel(3,2) start b3]) (rule that)
  have uvpt: "phys s3 ?k 957 AND PTE_P \<noteq> 0"
    unfolding e3(4) using flag_entry(2) [of ?k PTE_U] k(5) by (simp add: page_addr_def page2pa_def)
  have fr: "kva_frame (?at (?k + 1)) (?k + 1)" "kva_frame (?at ?b) ?b" using k memory(3) by (simp_all add: kva_frame_def)
  obtain s4 s5 s6 where late: "map_kernel (?at (?k + 1)) (?at ?b) stacks s3 = Some s4" "check_kern_pgdir (?at (?k + 1)) (?at ?b) stacks s4 = Some ()"
    "check_page_free_list kend (?at ?first) False s4 = Some s5" "check_page_installed_pgdir s5 = Some s6"
    and e6: "kview s6 ?k {955..1023} (kernel_map np (?k + 1) ?b st)" "kern_pgdir s6 = ?k" "npages s6 = np"
    "length (free_pages s6) + 67 = length (free_pages s3)" "set (free_pages s6) \<subseteq> set (start_list np ?first)"
    "stray s6 \<subseteq> stray s3" "\<And>q. fixed_frame q \<Longrightarrow> phys s6 q = phys s3 q" "mmio_base s6 = mmio_base s3"
    by (rule late_tests_ok [OF e3(1-3) memory(3,2) uvpt e3(5-7) k(4) kernel(3) e3(9) fr st b3]) (rule that)
  have pf: "PADDR (?at ?first) = Some (page_addr ?first)" "PGNUM (page_addr ?first) = ?first"
    using PADDR_frame k(3) by (simp_all add: PGNUM_page_addr)
  have run: "mem_init nvram kend stacks s = Some (s6, ?at (?k + 1), ?at ?b)"
    unfolding mem_init_def memory(1) Let_def create_directory_ok [OF kend memory(3) k(1)]
    using early late pf by (simp add: b1 b2 b3 booted_def Let_def del: of_nat_mult One_nat_def)
  have "kernel_space np e st s s6"
    using e6 e3(8,10-12) by (auto simp: kernel_space_def)
  with run show thesis by (rule that)
qed

text \<open>C16. \<open>mem_init\<close> never stops in one of its self tests, on any memory of more than 4 MB and at most 256 MB that
  has room for the kernel and its arrays: it builds the address space \<open>kernel_map\<close> (all of memory at \<open>KERNBASE\<close>,
  \<open>pages\<close> and \<open>envs\<close> readable by the user, eight stacks with their gaps), has taken 68 frames for the tables, and
  every frame that is left free is none of the reserved ones. No frame outside of the free list is linked, and no table
  covers addresses below \<open>UTOP\<close>.\<close>

theorem mem_init_passes_its_tests:
  assumes memory: "fst (i386_detect_memory nvram) = np" "1024 < np" "np \<le> 65536"
    and kernel: "kend = KERNBASE + word_of_nat e" "0x100000 < e" "first_free_frame np e < np"
    and start: "page_free_list s = None" "mmio_base s = MMIOBASE"
    and st: "\<forall>i<NCPU. kva_frame (stacks i) (st i)"
  shows "\<exists>s'. mem_init nvram kend stacks s = Some (s', page_addr (kernel_frame e + 1) + KERNBASE, page_addr (envs_frame np e) + KERNBASE) \<and>
    npages s' = np \<and> kern_pgdir s' = kernel_frame e \<and> pages_inv s' \<and>
    (\<forall>va. PDX va \<noteq> PDX UVPT \<longrightarrow>
       pte_at s' (kernel_frame e) va = kernel_map np (kernel_frame e + 1) (envs_frame np e) st (PGNUM va)) \<and>
    (\<forall>p\<in>set (free_pages s'). p < np \<and> \<not> page_reserved (first_free_frame np e) p \<and> pp_ref s' p = 0) \<and>
    (\<forall>p. pp_link s' p \<noteq> None \<longrightarrow> p \<in> set (free_pages s')) \<and> (\<forall>d<PDX UTOP. phys s' (kernel_frame e) d = 0) \<and>
    length (free_pages s') + 68 = length (filter (\<lambda>p. \<not> page_reserved (first_free_frame np e) p) [0..<np])"
proof -
  let ?k = "kernel_frame e" and ?first = "first_free_frame np e"
  obtain s' where run: "mem_init nvram kend stacks s = Some (s', page_addr (?k + 1) + KERNBASE, page_addr (envs_frame np e) + KERNBASE)"
    and sp: "kernel_space np e st s s'" by (rule mem_init_ok [OF assms])
  note sp = sp [unfolded kernel_space_def]
  have view: "kview s' ?k {955..1023} (kernel_map np (?k + 1) (envs_frame np e) st)" using sp by blast
  note vw = kviewD [OF view]
  have "pages_inv s'" "\<forall>p\<in>set (free_pages s'). p < np \<and> \<not> page_reserved ?first p \<and> pp_ref s' p = 0"
    using kdirD(1,5) [OF vw(1)] sp by (auto simp: start_list_def)
  moreover have "length (free_pages s') + 68 = length (filter (\<lambda>p. \<not> page_reserved ?first p) [0..<np])"
    using sp by (simp add: start_list_def)
  moreover have "\<forall>p. pp_link s' p \<noteq> None \<longrightarrow> p \<in> set (free_pages s')" using sp by (auto simp: stray_def)
  moreover have "phys s' ?k d = 0" if "d < PDX UTOP" for d using that vw(2) [of d] by (simp add: PDX_UTOP)
  ultimately show ?thesis using sp run vw(3) unfolding kern_va_def by blast
qed

text \<open>128 MB, as the clock chip of the emulator reports them, and a kernel that ends 356 pages up.\<close>

definition demo_nvram :: "nat \<Rightarrow> w8" where "demo_nvram = (\<lambda>_. 0)(NVRAM_EXT16LO + 1 := 7)"
definition demo_stacks :: "nat \<Rightarrow> w32" where "demo_stacks i = page_addr (300 + 8 * i) + KERNBASE"
definition demo_start :: pmem where
  "demo_start = \<lparr>npages = 0, phys = \<lambda>_ _. 0, pp_link = \<lambda>_. None, pp_ref = \<lambda>_. 0, page_free_list = None, kern_pgdir = 0,
     mmio_base = MMIOBASE\<rparr>"

theorem mem_init_passes_its_tests_witness:
  "i386_detect_memory demo_nvram = (32768, 0) \<and>
   (\<exists>s'. mem_init demo_nvram 0xF0164000 demo_stacks demo_start = Some (s', 0xF0165000, 0xF01A5000) \<and>
      kern_pgdir s' = 0x164 \<and> pte_at s' 0x164 0xF0001000 = 0x1003 \<and> pte_at s' 0x164 0xEFFFF000 = 0x133003 \<and>
      pte_at s' 0x164 0xEFFF7000 = 0 \<and> pte_at s' 0x164 0xEF001000 = 0x166005)"
proof -
  have det: "i386_detect_memory demo_nvram = (32768, 0)"
    by (simp add: i386_detect_memory_def nvram_read_def demo_nvram_def NVRAM_EXT16LO_def NVRAM_EXTLO_def NVRAM_BASELO_def Let_def)
  have fr: "kernel_frame 0x164000 = 356" "envs_frame 32768 0x164000 = 421" "first_free_frame 32768 0x164000 = 454"
    by (simp_all add: kernel_frame_def envs_frame_def first_free_frame_def)
  have ad: "page_addr (356 + 1) + KERNBASE = 0xF0165000" "page_addr 421 + KERNBASE = 0xF01A5000"
    by (simp_all add: page_addr_def push_bit_eq_mult KERNBASE_def)
  have "\<exists>s'. mem_init demo_nvram 0xF0164000 demo_stacks demo_start = Some (s', page_addr (kernel_frame 0x164000 + 1) + KERNBASE,
        page_addr (envs_frame 32768 0x164000) + KERNBASE) \<and>
      npages s' = 32768 \<and> kern_pgdir s' = kernel_frame 0x164000 \<and> pages_inv s' \<and>
      (\<forall>va. PDX va \<noteq> PDX UVPT \<longrightarrow> pte_at s' (kernel_frame 0x164000) va =
         kernel_map 32768 (kernel_frame 0x164000 + 1) (envs_frame 32768 0x164000) (\<lambda>i. 300 + 8 * i) (PGNUM va)) \<and>
      (\<forall>p\<in>set (free_pages s'). p < 32768 \<and> \<not> page_reserved (first_free_frame 32768 0x164000) p \<and> pp_ref s' p = 0) \<and>
      (\<forall>p. pp_link s' p \<noteq> None \<longrightarrow> p \<in> set (free_pages s')) \<and> (\<forall>d<PDX UTOP. phys s' (kernel_frame 0x164000) d = 0) \<and>
      length (free_pages s') + 68 = length (filter (\<lambda>p. \<not> page_reserved (first_free_frame 32768 0x164000) p) [0..<32768])"
    by (rule mem_init_passes_its_tests)
      (simp_all add: det fr demo_start_def demo_stacks_def kva_frame_def NCPU_def KERNBASE_def)
  then obtain s' where s': "mem_init demo_nvram 0xF0164000 demo_stacks demo_start = Some (s', 0xF0165000, 0xF01A5000)"
    "kern_pgdir s' = 356" "\<And>va. PDX va \<noteq> PDX UVPT \<Longrightarrow> pte_at s' 356 va = kernel_map 32768 (356 + 1) 421 (\<lambda>i. 300 + 8 * i) (PGNUM va)"
    unfolding fr ad by blast
  have ix: "PDX 0xF0001000 \<noteq> PDX UVPT" "PDX 0xEFFFF000 \<noteq> PDX UVPT" "PDX 0xEFFF7000 \<noteq> PDX UVPT" "PDX 0xEF001000 \<noteq> PDX UVPT"
    "PGNUM 0xF0001000 = 983041" "PGNUM 0xEFFFF000 = 983039" "PGNUM 0xEFFF7000 = 983031" "PGNUM 0xEF001000 = 978945"
    unfolding UVPT_val by (simp_all add: PDX_unat PGNUM_div)
  note at = s'(3) [OF ix(1)] s'(3) [OF ix(2)] s'(3) [OF ix(3)] s'(3) [OF ix(4)]
  have "pte_at s' 356 0xF0001000 = 0x1003" "pte_at s' 356 0xEFFFF000 = 0x133003" "pte_at s' 356 0xEFFF7000 = 0" "pte_at s' 356 0xEF001000 = 0x166005"
    unfolding at ix kernel_map_def region_numbers(1-4) NCPU_def Let_def
    by (simp_all add: page2pa_def push_bit_eq_mult PTE_P_def PTE_W_def PTE_U_def)
  then show ?thesis using det s'(1,2) by simp
qed

end
