(* ===== verification/ElfLoad.thy ===== *)
theory ElfLoad
  imports Syscall
begin

unbundle bit_operations_syntax

text \<open>
  Loading a program (\<open>load_icode\<close> and \<open>env_create\<close> of \<open>sched/kern/env.c\<close>, \<open>inc/elf.h\<close>). The binary is the list of
  its bytes; reading past its end is \<open>None\<close>. The kernel writes the segments byte by byte through the page tables of the
  new environment, where a page that is not present or not writable is a fault of the kernel, \<open>None\<close>.
\<close>

subsection \<open>The file\<close>

definition ELF_MAGIC :: w32 where "ELF_MAGIC = 0x464C457F"
definition ELF_PROG_LOAD :: w32 where "ELF_PROG_LOAD = 1"

definition file_byte :: "w8 list \<Rightarrow> nat \<Rightarrow> w8 option" where
  "file_byte bin i = (if i < length bin then Some (bin ! i) else None)"

definition file_half :: "w8 list \<Rightarrow> nat \<Rightarrow> w16 option" where
  "file_half bin i = do {
     a \<leftarrow> file_byte bin i; b \<leftarrow> file_byte bin (i + 1);
     Some (ucast a OR push_bit 8 (ucast b)) }"

definition file_word :: "w8 list \<Rightarrow> nat \<Rightarrow> w32 option" where
  "file_word bin i = do {
     a \<leftarrow> file_half bin i; b \<leftarrow> file_half bin (i + 2);
     Some (ucast a OR push_bit 16 (ucast b)) }"

text \<open>Of \<open>struct Elf\<close> and \<open>struct Proghdr\<close> the fields that the loader reads; the readers below have the offsets of the layout.\<close>

record elf =
  e_magic :: w32
  e_entry :: w32
  e_phoff :: w32
  e_phnum :: w16

record proghdr =
  p_type :: w32
  p_offset :: w32
  p_va :: w32
  p_filesz :: w32
  p_memsz :: w32

definition read_elf :: "w8 list \<Rightarrow> elf option" where
  "read_elf bin = do {
     magic \<leftarrow> file_word bin 0;
     entry \<leftarrow> file_word bin 24;
     phoff \<leftarrow> file_word bin 28;
     phnum \<leftarrow> file_half bin 44;
     Some \<lparr>e_magic = magic, e_entry = entry, e_phoff = phoff, e_phnum = phnum\<rparr> }"

text \<open>The header number \<open>k\<close>; a header has 32 bytes.\<close>

definition read_proghdr :: "w8 list \<Rightarrow> elf \<Rightarrow> nat \<Rightarrow> proghdr option" where
  "read_proghdr bin el k = do {
     let base = unat (e_phoff el) + 32 * k;
     type \<leftarrow> file_word bin base;
     offset \<leftarrow> file_word bin (base + 4);
     va \<leftarrow> file_word bin (base + 8);
     filesz \<leftarrow> file_word bin (base + 16);
     memsz \<leftarrow> file_word bin (base + 20);
     Some \<lparr>p_type = type, p_offset = offset, p_va = va, p_filesz = filesz, p_memsz = memsz\<rparr> }"

subsection \<open>Bytes of an address space\<close>

definition get_byte :: "w32 \<Rightarrow> nat \<Rightarrow> w8" where "get_byte w j = ucast (drop_bit (8 * j) w)"

definition set_byte :: "w32 \<Rightarrow> nat \<Rightarrow> w8 \<Rightarrow> w32" where
  "set_byte w j b = (w AND NOT (push_bit (8 * j) 0xFF)) OR push_bit (8 * j) (ucast b)"

text \<open>The frame that the processor finds for a write of the kernel; \<open>mem_init\<close> sets \<open>CR0_WP\<close>, so it honours \<open>PTE_W\<close>.
  Bytes are read by \<open>load_byte\<close> of \<open>Syscall\<close>.\<close>

definition written_frame :: "pmem \<Rightarrow> nat \<Rightarrow> w32 \<Rightarrow> nat option" where
  "written_frame s pgdir va =
     (let pde = phys s pgdir (PDX va); pte = phys s (PGNUM pde) (PTX va); ok = PTE_P OR PTE_W in
      if pde AND ok \<noteq> ok \<or> pte AND ok \<noteq> ok then None else Some (PGNUM pte))"

definition word_slot :: "w32 \<Rightarrow> nat" where "word_slot va = unat (va AND 0xFFF) div 4"
definition byte_lane :: "w32 \<Rightarrow> nat" where "byte_lane va = unat (va AND 0xFFF) mod 4"

definition store_byte :: "pmem \<Rightarrow> nat \<Rightarrow> w32 \<Rightarrow> w8 \<Rightarrow> pmem option" where
  "store_byte s pgdir va b = do {
     p \<leftarrow> written_frame s pgdir va;
     Some (store_word s p (word_slot va) (set_byte (phys s p (word_slot va)) (byte_lane va) b)) }"

text \<open>\<open>memset\<close> and \<open>memcpy\<close> to the address space: the byte for each offset comes from \<open>src\<close>.\<close>

fun copy_bytes :: "nat list \<Rightarrow> (nat \<Rightarrow> w8 option) \<Rightarrow> nat \<Rightarrow> w32 \<Rightarrow> pmem \<Rightarrow> pmem option" where
  "copy_bytes [] src pgdir va s = Some s"
| "copy_bytes (k # ks) src pgdir va s = do {
     b \<leftarrow> src k;
     s \<leftarrow> store_byte s pgdir (va + word_of_nat k) b;
     copy_bytes ks src pgdir va s }"

subsection \<open>The loader\<close>

definition load_segment :: "w8 list \<Rightarrow> nat \<Rightarrow> proghdr \<Rightarrow> kern \<Rightarrow> kern option" where
  "load_segment bin e ph s =
     (if p_type ph \<noteq> ELF_PROG_LOAD then Some s
      else do {
        s \<leftarrow> region_alloc s e (p_va ph) (p_memsz ph);
        pgdir \<leftarrow> env_pgdir (envs s e);
        m \<leftarrow> copy_bytes [0..<unat (p_memsz ph)] (\<lambda>_. Some 0) pgdir (p_va ph) (vm s);
        m \<leftarrow> copy_bytes [0..<unat (p_filesz ph)] (\<lambda>k. file_byte bin (unat (p_offset ph) + k)) pgdir (p_va ph) m;
        Some (s\<lparr>vm := m\<rparr>)
      })"

fun load_segments :: "nat list \<Rightarrow> w8 list \<Rightarrow> elf \<Rightarrow> nat \<Rightarrow> kern \<Rightarrow> kern option" where
  "load_segments [] bin el e s = Some s"
| "load_segments (k # ks) bin el e s = do {
     ph \<leftarrow> read_proghdr bin el k;
     s \<leftarrow> load_segment bin e ph s;
     load_segments ks bin el e s }"

definition load_icode :: "nat \<Rightarrow> w8 list \<Rightarrow> nat \<Rightarrow> kern \<Rightarrow> kern option" where
  "load_icode c bin e s = do {
     el \<leftarrow> read_elf bin;
     if e_magic el \<noteq> ELF_MAGIC then None
     else do {
       pgdir \<leftarrow> env_pgdir (envs s e);
       let s = s\<lparr>cpu_cr3 := (cpu_cr3 s)(c := pgdir)\<rparr>;
       s \<leftarrow> load_segments [0..<unat (e_phnum el)] bin el e s;
       s \<leftarrow> region_alloc s e (USTACKTOP - PGSIZE) PGSIZE;
       let s = upd_env e (\<lambda>x. x\<lparr>env_tf := (env_tf x)\<lparr>tf_eip := e_entry el\<rparr>\<rparr>) s;
       Some (s\<lparr>cpu_cr3 := (cpu_cr3 s)(c := kern_pgdir (vm s))\<rparr>)
     }
   }"

definition env_create :: "nat \<Rightarrow> w8 list \<Rightarrow> nat \<Rightarrow> kern \<Rightarrow> (kern \<times> nat) option" where
  "env_create c bin type s = do {
     (s, r, new) \<leftarrow> env_alloc c s 0;
     if r < 0 then None
     else do {
       e \<leftarrow> new;
       s \<leftarrow> load_icode c bin e s;
       Some (upd_env e (\<lambda>x. x\<lparr>env_type := type\<rparr>) s, e)
     }
   }"

end
