(* ===== verification/ElfProps.thy ===== *)
theory ElfProps
  imports ElfLoad KernDir ForkFault
begin

unbundle bit_operations_syntax

text \<open>
  What the loader does to an address space: the bytes of every segment are where the file says, the rest of a segment is
  zero, and no frame that another part of the kernel uses changes.
\<close>

subsection \<open>Bytes and words\<close>

lemma get_set_lane:
  assumes "j < 4" and "j' < 4"
  shows "get_byte (set_byte w j b) j' = (if j = j' then b else get_byte w j')"
proof (rule bit_word_eqI)
  fix i assume i: "i < LENGTH(8)"
  have ff: "bit (0xFF :: w32) n \<longleftrightarrow> n < 8" for n
  proof -
    have "(0xFF :: w32) = mask 8" by (simp add: mask_eq_exp_minus_1)
    then show ?thesis by (simp only: bit_mask_iff) auto
  qed
  have lo: "bit b n = False" if "8 \<le> n" for n using that bit_imp_le_length [of b n] by auto
  have n: "8 * j' + i < 32" using assms(2) i by simp
  show "bit (get_byte (set_byte w j b) j') i = bit (if j = j' then b else get_byte w j') i"
  proof (cases "j = j'")
    case True
    then show ?thesis using n i ff [of i] by (auto simp: get_byte_def set_byte_def bit_simps)
  next
    case False
    then consider "8 * j' + i < 8 * j" | "8 * j + 8 \<le> 8 * j' + i" using i by (cases "j < j'") auto
    then show ?thesis
      by cases (use False n i lo ff [of "8 * j' + i - 8 * j"] in \<open>auto simp: get_byte_def set_byte_def bit_simps\<close>)
  qed
qed

lemma word_slot_unat: "word_slot va = unat va mod 4096 div 4"
  by (simp add: word_slot_def offset_unat)

lemma word_slot_less: "word_slot va < 1024"
  by (simp add: word_slot_unat)

lemma byte_address:
  assumes "PGNUM va = PGNUM va'" and "word_slot va = word_slot va'" and "byte_lane va = byte_lane va'"
  shows "va = va'"
proof -
  have parts: "unat x = 4096 * PGNUM x + 4 * word_slot x + byte_lane x" for x :: w32
  proof -
    have "unat x = 4096 * (unat x div 4096) + unat x mod 4096" by simp
    also have "unat x mod 4096 = 4 * (unat x mod 4096 div 4) + unat x mod 4096 mod 4" by (simp only: mult_div_mod_eq)
    finally show ?thesis by (simp add: PGNUM_div word_slot_unat byte_lane_def offset_unat)
  qed
  show ?thesis using parts [of va] parts [of va'] assms by (simp add: word_unat_eq_iff)
qed

subsection \<open>A space in which programs are loaded\<close>

text \<open>Every page of it is open to the program, and no two pages share a frame.\<close>

definition loading :: "pmem \<Rightarrow> nat \<Rightarrow> bool" where
  "loading s D \<longleftrightarrow> vm_ok s D \<and> pdes_open s D \<and>
     (\<forall>va. is_user va \<longrightarrow> pte_at s D va \<noteq> 0 \<longrightarrow> pte_at s D va AND 7 = 7) \<and>
     (\<forall>va va'. is_user va \<longrightarrow> is_user va' \<longrightarrow> pte_at s D va \<noteq> 0 \<longrightarrow> pte_at s D va' \<noteq> 0 \<longrightarrow>
        PGNUM (pte_at s D va) = PGNUM (pte_at s D va') \<longrightarrow> PGNUM va = PGNUM va')"

lemma loadingD:
  assumes "loading s D"
  shows "vm_ok s D" and "pdes_open s D" and "is_user va \<Longrightarrow> pte_at s D va \<noteq> 0 \<Longrightarrow> pte_at s D va AND 7 = 7"
    and "is_user va \<Longrightarrow> is_user va' \<Longrightarrow> pte_at s D va \<noteq> 0 \<Longrightarrow> pte_at s D va' \<noteq> 0 \<Longrightarrow>
        PGNUM (pte_at s D va) = PGNUM (pte_at s D va') \<Longrightarrow> PGNUM va = PGNUM va'"
  using assms unfolding loading_def by blast+

text \<open>The frames that loading may write.\<close>

definition loadable :: "pmem \<Rightarrow> nat \<Rightarrow> nat \<Rightarrow> bool" where
  "loadable s D q \<longleftrightarrow> q = D \<or> q \<in> tables s D \<or> q \<in> set (free_pages s) \<or>
     (\<exists>va. is_user va \<and> pte_at s D va \<noteq> 0 \<and> PGNUM (pte_at s D va) = q)"

definition same_area :: "pmem \<Rightarrow> pmem \<Rightarrow> bool" where
  "same_area s s' \<longleftrightarrow> npages s' = npages s \<and> kern_pgdir s' = kern_pgdir s \<and> mmio_base s' = mmio_base s"

lemma same_area_refl [simp]: "same_area s s"
  by (simp add: same_area_def)

lemma same_area_trans: "same_area a b \<Longrightarrow> same_area b c \<Longrightarrow> same_area a c"
  by (simp add: same_area_def)

definition load_step :: "pmem \<Rightarrow> pmem \<Rightarrow> nat \<Rightarrow> bool" where
  "load_step s s' D \<longleftrightarrow> loading s' D \<and> same_area s s' \<and> set (free_pages s') \<subseteq> set (free_pages s) \<and>
     (\<forall>q. \<not> loadable s D q \<longrightarrow> \<not> loadable s' D q \<and> phys s' q = phys s q)"

lemma load_stepD:
  assumes "load_step s s' D"
  shows "loading s' D" and "same_area s s'" and "set (free_pages s') \<subseteq> set (free_pages s)"
    and "\<not> loadable s D q \<Longrightarrow> \<not> loadable s' D q" and "\<not> loadable s D q \<Longrightarrow> phys s' q = phys s q"
  using assms unfolding load_step_def by blast+

lemma load_step_refl: "loading s D \<Longrightarrow> load_step s s D"
  by (simp add: load_step_def)

lemma load_step_trans: "load_step a b D \<Longrightarrow> load_step b c D \<Longrightarrow> load_step a c D"
  unfolding load_step_def using same_area_trans [of a b c] by (metis subset_trans)

lemma written_frame_eq:
  assumes ok: "loading s D" and u: "is_user va"
  shows "written_frame s D va = (if pte_at s D va = 0 then None else Some (PGNUM (pte_at s D va)))"
    and "load_byte s D va = (if pte_at s D va = 0 then None
      else Some (get_byte (phys s (PGNUM (pte_at s D va)) (word_slot va)) (byte_lane va)))"
proof -
  have bits: "e AND (PTE_P OR PTE_W) = PTE_P OR PTE_W" "e AND PTE_P \<noteq> 0" if "e AND 7 = 7" for e
  proof -
    have "(e AND 7) AND (PTE_P OR PTE_W) = 3" "(e AND 7) AND PTE_P = 1" unfolding that by (simp_all add: PTE_P_def PTE_W_def)
    then show "e AND (PTE_P OR PTE_W) = PTE_P OR PTE_W" "e AND PTE_P \<noteq> 0"
      by (simp_all add: and.assoc PTE_P_def PTE_W_def)
  qed
  have ne: "PTE_P OR PTE_W \<noteq> 0" by (simp add: PTE_P_def PTE_W_def)
  have pde: "phys s D (PDX va) AND 7 = 7" if "phys s D (PDX va) \<noteq> 0"
    using that loadingD(2) [OF ok] u by (simp add: pdes_open_def is_user_def)
  show "written_frame s D va = (if pte_at s D va = 0 then None else Some (PGNUM (pte_at s D va)))"
    using ne bits [OF pde] bits [OF loadingD(3) [OF ok u]]
    by (cases "phys s D (PDX va) = 0") (auto simp: written_frame_def pte_at_table pte_at_def Let_def)
  show "load_byte s D va = (if pte_at s D va = 0 then None
      else Some (get_byte (phys s (PGNUM (pte_at s D va)) (word_slot va)) (byte_lane va)))"
    using bits(2) [OF pde] bits(2) [OF loadingD(3) [OF ok u]]
    by (cases "phys s D (PDX va) = 0")
      (auto simp: load_byte_def pte_at_table pte_at_def Let_def get_byte_def word_slot_def byte_lane_def)
qed

lemmas load_byte_eq = written_frame_eq(2)

lemma loading_frame:
  assumes ok: "loading s D" and u: "is_user va" and m: "pte_at s D va \<noteq> 0"
  shows "PGNUM (pte_at s D va) \<noteq> D" and "PGNUM (pte_at s D va) \<notin> tables s D"
  using vm_okD(11,12) [OF loadingD(1) [OF ok] u m] by simp_all

lemma loading_cong:
  assumes ok: "loading s D" and "vm_ok s' D" and "phys s' D = phys s D"
    and same: "\<And>va. is_user va \<Longrightarrow> pte_at s' D va = pte_at s D va"
  shows "loading s' D"
proof -
  have "pdes_open s' D" using loadingD(2) [OF ok] assms(3) by (simp add: pdes_open_def)
  moreover have "pte_at s' D va AND 7 = 7" if "is_user va" "pte_at s' D va \<noteq> 0" for va
    using loadingD(3) [OF ok that(1)] that(2) unfolding same [OF that(1)] by blast
  moreover have "PGNUM va = PGNUM va'"
    if "is_user va" "is_user va'" "pte_at s' D va \<noteq> 0" "pte_at s' D va' \<noteq> 0" "PGNUM (pte_at s' D va) = PGNUM (pte_at s' D va')" for va va'
    using loadingD(4) [OF ok that(1,2)] that(3-5) unfolding same [OF that(1)] same [OF that(2)] by blast
  ultimately show ?thesis using assms(2) unfolding loading_def by blast
qed

lemma store_byte_lane:
  assumes ok: "loading s D" and u: "is_user va" and m: "pte_at s D va \<noteq> 0"
  obtains s' where "store_byte s D va b = Some s'" and "load_step s s' D" and "free_pages s' = free_pages s"
    and "\<And>va'. is_user va' \<Longrightarrow> pte_at s' D va' = pte_at s D va'"
    and "\<And>va'. is_user va' \<Longrightarrow> load_byte s' D va' = (if va' = va then Some b else load_byte s D va')"
proof -
  let ?p = "PGNUM (pte_at s D va)" and ?i = "word_slot va"
  let ?f = "(phys s ?p)(?i := set_byte (phys s ?p ?i) (byte_lane va) b)"
  let ?s = "set_frame s ?p ?f"
  note fr = loading_frame [OF ok u m]
  note sf = set_frame_space [OF fr, where f = ?f]
  have run: "store_byte s D va b = Some ?s"
    using written_frame_eq(1) [OF ok u] m by (simp add: store_byte_def set_frame_def store_word_def)
  have D: "phys ?s D = phys s D" using fr(1) by simp
  have ok': "loading ?s D"
    by (rule loading_cong [OF ok _ D]) (use sf(2,3) loadingD(1) [OF ok] in blast)+
  have step: "load_step s ?s D"
    unfolding load_step_def
  proof (intro conjI allI impI)
    show "loading ?s D" by (rule ok')
    show "same_area s ?s" by (simp add: same_area_def set_frame_def)
    show "set (free_pages ?s) \<subseteq> set (free_pages s)" by simp
    fix q assume q: "\<not> loadable s D q"
    then show "\<not> loadable ?s D q" using sf(1,2) by (auto simp: loadable_def)
    have "q \<noteq> ?p" using q u m by (auto simp: loadable_def)
    then show "phys ?s q = phys s q" by simp
  qed
  have "load_byte ?s D va' = (if va' = va then Some b else load_byte s D va')" if u': "is_user va'" for va'
  proof (cases "pte_at s D va' = 0")
    case True
    then show ?thesis using m load_byte_eq [OF ok u'] load_byte_eq [OF ok' u'] sf(2) [OF u'] by auto
  next
    case False
    have lane: "byte_lane x < 4" for x by (simp add: byte_lane_def)
    show ?thesis
    proof (cases "PGNUM (pte_at s D va') = ?p")
      case True
      then have "PGNUM va' = PGNUM va" using loadingD(4) [OF ok u' u False m] by simp
      then have "va' = va \<longleftrightarrow> word_slot va' = ?i \<and> byte_lane va' = byte_lane va" using byte_address by blast
      then show ?thesis
        using load_byte_eq [OF ok u'] load_byte_eq [OF ok' u'] sf(2) [OF u'] True False get_set_lane [OF lane [of va] lane [of va']]
        by auto
    next
      case other: False
      then show ?thesis using load_byte_eq [OF ok u'] load_byte_eq [OF ok' u'] sf(2) [OF u'] False by auto
    qed
  qed
  then show thesis using that run step sf(2) by simp
qed

text \<open>A loop of byte stores.\<close>

lemma user_range:
  assumes "unat va + k < unat UTOP"
  shows "unat (va + word_of_nat k) = unat va + k" and "is_user (va + word_of_nat k)"
proof -
  have top: "unat UTOP = 955 * 4194304" by (simp add: layout_defs)
  show u: "unat (va + word_of_nat k) = unat va + k" using assms top by (simp add: unat_word_ariths unat_of_nat)
  have "(unat va + k) div 4194304 < 955" using assms top by (simp add: less_mult_imp_div_less)
  then show "is_user (va + word_of_nat k)" by (simp add: is_user_def PDX_UTOP) (simp add: PDX_unat u)
qed

lemma copy_bytes_ok:
  assumes "loading s D" and "distinct ks"
    and "\<And>k. k \<in> set ks \<Longrightarrow> unat va + k < unat UTOP \<and> pte_at s D (va + word_of_nat k) \<noteq> 0 \<and> src k = Some (f k)"
  shows "\<exists>s'. copy_bytes ks src D va s = Some s' \<and> load_step s s' D \<and> free_pages s' = free_pages s \<and>
     (\<forall>x. is_user x \<longrightarrow> pte_at s' D x = pte_at s D x \<and>
        load_byte s' D x = (if unat va \<le> unat x \<and> unat x - unat va \<in> set ks then Some (f (unat x - unat va)) else load_byte s D x))"
  using assms
proof (induction ks arbitrary: s)
  case Nil
  then show ?case by (simp add: load_step_refl)
next
  case (Cons k ks)
  let ?a = "va + word_of_nat k"
  have k: "unat va + k < unat UTOP" "pte_at s D ?a \<noteq> 0" "src k = Some (f k)" using Cons.prems(3) [of k] by simp_all
  note ur = user_range [OF k(1)]
  obtain s1 where s1: "store_byte s D ?a (f k) = Some s1" "load_step s s1 D" "free_pages s1 = free_pages s"
    "\<And>x. is_user x \<Longrightarrow> pte_at s1 D x = pte_at s D x"
    "\<And>x. is_user x \<Longrightarrow> load_byte s1 D x = (if x = ?a then Some (f k) else load_byte s D x)"
    by (rule store_byte_lane [OF Cons.prems(1) ur(2) k(2), of "f k"]) (rule that)
  have rest: "unat va + j < unat UTOP \<and> pte_at s1 D (va + word_of_nat j) \<noteq> 0 \<and> src j = Some (f j)" if "j \<in> set ks" for j
  proof -
    have j: "unat va + j < unat UTOP" "pte_at s D (va + word_of_nat j) \<noteq> 0" "src j = Some (f j)"
      using Cons.prems(3) [of j] that by simp_all
    show ?thesis unfolding s1(4) [OF user_range(2) [OF j(1)]] using j by blast
  qed
  obtain s' where s': "copy_bytes ks src D va s1 = Some s'" "load_step s1 s' D" "free_pages s' = free_pages s1"
    "\<forall>x. is_user x \<longrightarrow> pte_at s' D x = pte_at s1 D x \<and>
        load_byte s' D x = (if unat va \<le> unat x \<and> unat x - unat va \<in> set ks then Some (f (unat x - unat va)) else load_byte s1 D x)"
    using Cons.IH [OF load_stepD(1) [OF s1(2)] _ rest] Cons.prems(2) unfolding distinct.simps by blast
  have "x = ?a \<longleftrightarrow> unat va \<le> unat x \<and> unat x - unat va = k" for x
    using ur(1) by (auto simp: word_unat_eq_iff)
  then have "load_byte s' D x = (if unat va \<le> unat x \<and> unat x - unat va \<in> set (k # ks) then Some (f (unat x - unat va)) else load_byte s D x)"
    if "is_user x" for x
    using s'(4) s1(5) [OF that] that by auto
  then show ?case
    using s'(1,3,4) s1(1,3,4) load_step_trans [OF s1(2) s'(2)] k(3) by auto
qed

subsection \<open>Pages for a segment\<close>

lemma page_alloc_setup: "page_alloc s z = (s', r) \<Longrightarrow> same_area s s'"
  by (auto simp: page_alloc_def same_area_def Let_def split: option.splits)

lemma store_word_setup [simp]: "same_area s (store_word t q i v) = same_area s t"
  by (simp add: same_area_def store_word_def)

lemma ref_setup [simp]: "same_area s (t\<lparr>pp_ref := r\<rparr>) = same_area s t"
  by (simp add: same_area_def)

lemma pgdir_walk_setup: "pgdir_walk s D va c = Some (s', r) \<Longrightarrow> same_area s s'"
  by (auto simp: pgdir_walk_def Let_def split: if_splits prod.splits option.splits Option.bind_splits dest: page_alloc_setup)

lemma page_free_setup: "page_free s p = Some s' \<Longrightarrow> same_area s s'"
  by (auto simp: page_free_def same_area_def split: if_splits)

lemma page_decref_setup: "page_decref s p = Some s' \<Longrightarrow> same_area s s'"
  using page_free_setup [of "s\<lparr>pp_ref := (pp_ref s)(p := pp_ref s p - 1)\<rparr>" p s']
  by (auto simp: page_decref_def same_area_def Let_def split: if_splits)

lemma page_remove_setup: "page_remove s D va = Some s' \<Longrightarrow> same_area s s'"
  by (auto simp: page_remove_def split: Option.bind_splits option.splits) (erule page_decref_setup)

lemma page_insert_setup:
  assumes "page_insert s D p va perm = Some (s', r)"
  shows "same_area s s'"
proof -
  from assms obtain s1 pte where w: "pgdir_walk s D va True = Some (s1, pte)"
    and rest: "(case pte of None \<Rightarrow> Some (s1, - E_NO_MEM) | Some (t, i) \<Rightarrow> do {
         let s = s1\<lparr>pp_ref := (pp_ref s1)(p := pp_ref s1 p + 1)\<rparr>;
         s \<leftarrow> page_remove s D va; Some (store_word s t i (page2pa p OR perm OR PTE_P), 0) }) = Some (s', r)"
    by (auto simp: page_insert_def split: Option.bind_splits)
  have "same_area s1 s'"
    using rest by (auto split: option.splits Option.bind_splits dest!: page_remove_setup simp: same_area_def store_word_def)
  with pgdir_walk_setup [OF w] show ?thesis by (rule same_area_trans)
qed

lemma new_entry_open:
  assumes "p < 2 ^ 20"
  shows "(page2pa p OR (PTE_U OR PTE_W) OR PTE_P) AND 7 = 7" and "PGNUM (page2pa p OR (PTE_U OR PTE_W) OR PTE_P) = p"
    and "page2pa p OR (PTE_U OR PTE_W) OR PTE_P \<noteq> 0"
proof -
  have f: "(PTE_U OR PTE_W) OR PTE_P = 7" by (simp add: PTE_U_def PTE_W_def PTE_P_def)
  then show "(page2pa p OR (PTE_U OR PTE_W) OR PTE_P) AND 7 = 7"
    by (simp add: or.assoc and.commute bit.conj_disj_distrib2)
  then show "page2pa p OR (PTE_U OR PTE_W) OR PTE_P \<noteq> 0" by auto
  have "PGNUM 7 = 0" by (simp add: PGNUM_def)
  then show "PGNUM (page2pa p OR (PTE_U OR PTE_W) OR PTE_P) = p" using PGNUM_entry [OF assms, of 7] f by (simp add: or.assoc)
qed

text \<open>An insertion takes at most one frame, for a table.\<close>

lemma grown_length:
  assumes ok: "vm_ok s D" and ok': "vm_ok s' D" and g: "grown s D va s'"
  shows "length (free_pages s) \<le> length (free_pages s') + 1"
proof -
  let ?t = "PGNUM (phys s' D (PDX va))"
  have d: "distinct (free_pages s)" "distinct (free_pages s')"
    using page_allocator.free_distinct [OF vm_okD(1) [OF ok]] page_allocator.free_distinct [OF vm_okD(1) [OF ok']] by simp_all
  have "x \<in> insert ?t (set (free_pages s'))" if x: "x \<in> set (free_pages s)" for x
  proof (cases "x \<in> set (free_pages s')")
    case False
    then have "x \<in> tables s' D" using grownD(3) [OF g x] by simp
    then obtain d where d: "d < PDX UTOP" "phys s' D d \<noteq> 0" "x = PGNUM (phys s' D d)" by (auto simp: tables_def)
    have "d = PDX va"
    proof (rule ccontr)
      assume "d \<noteq> PDX va"
      then have "phys s' D d = phys s D d" using grownD(6) [OF g] by simp
      then have "x \<in> tables s D" using d tablesI [of d s D] by simp
      then show False using vm_okD(7) [OF ok] x by blast
    qed
    then show ?thesis using d by simp
  qed simp
  then have "card (set (free_pages s)) \<le> card (insert ?t (set (free_pages s')))" by (intro card_mono) auto
  also have "\<dots> \<le> card (set (free_pages s')) + 1" by (simp add: card_insert_if)
  finally show ?thesis using d by (simp add: distinct_card)
qed

lemma load_page:
  assumes ok: "loading s D" and k: "k < PGNUM UTOP" and none: "pte_at s D (page_addr k) = 0"
    and room: "2 \<le> length (free_pages s)"
  obtains s1 p s' where "page_alloc s False = (s1, Some p)" and "page_insert s1 D p (page_addr k) (PTE_U OR PTE_W) = Some (s', 0)"
    and "load_step s s' D" and "length (free_pages s) \<le> length (free_pages s') + 2"
    and "\<And>x. is_user x \<Longrightarrow> pte_at s' D x \<noteq> 0 \<longleftrightarrow> PGNUM x = k \<or> pte_at s D x \<noteq> 0"
    and "\<And>x. is_user x \<Longrightarrow> PGNUM x \<noteq> k \<Longrightarrow> load_byte s' D x = load_byte s D x"
proof -
  note result = that
  note vok = loadingD(1) [OF ok]
  obtain s1 p where al: "page_alloc s False = (s1, Some p)"
    using page_alloc_Cons [OF vm_okD(1) [OF vok], of _ _ False] room by (cases "free_pages s") auto
  note f = page_alloc_frames [OF vm_okD(1) [OF vok] al] and a = page_alloc_vm_ok [OF vok al]
  note u = user_page(1) [OF k]
  have none1: "pte_at s1 D (page_addr k) = 0" using a(4) [OF u] none by simp
  have np1: "npages s1 = npages s" by (rule f(5))
  have small: "p < 2 ^ 20" using a(5) vm_okD(2) [OF a(1)] by simp
  note en = new_entry_open [OF small]
  have tab: "p \<notin> tables s1 D" using a(3,7) by simp
  have flags: "PGNUM (PTE_U OR PTE_W) = 0" by (simp add: PGNUM_def PTE_U_def PTE_W_def)
  have d0: "distinct (free_pages s)" "distinct (free_pages s1)"
    using page_allocator.free_distinct [OF vm_okD(1) [OF vok]] page_allocator.free_distinct [OF f(3)] by simp_all
  have len1: "length (free_pages s) = length (free_pages s1) + 1"
    using f(1,2) d0 card_Suc_Diff1 [of "set (free_pages s)" p] by (simp add: distinct_card [symmetric])
  obtain s' where run: "page_insert s1 D p (page_addr k) (PTE_U OR PTE_W) = Some (s', 0)" and ok': "vm_ok s' D"
    and g: "grown s1 D (page_addr k) s'"
    and pte: "\<And>x. is_user x \<Longrightarrow> pte_at s' D x = (if same_page (page_addr k) x then page2pa p OR (PTE_U OR PTE_W) OR PTE_P else pte_at s1 D x)"
  proof (cases rule: page_insert_grown [OF a(1) u flags a(5,6) tab a(8)])
    case 1
    then show ?case using none1 by simp
  next
    case 2
    then show thesis using len1 room by simp
  next
    case (3 s')
    then show thesis using that by blast
  qed
  have k': "k < 1048576" using k by (simp add: PGNUM_UTOP)
  have pte': "pte_at s' D x = (if PGNUM x = k then page2pa p OR (PTE_U OR PTE_W) OR PTE_P else pte_at s D x)" if "is_user x" for x
    using pte [OF that] a(4) [OF that] by (auto simp: same_page_PGNUM PGNUM_page_addr [OF k'])
  have ld: "loading s' D"
    unfolding loading_def
  proof (intro conjI allI impI)
    show "vm_ok s' D" by (rule ok')
    show "pdes_open s' D" using loadingD(2) [OF ok] grown_open [OF g] a(2) by (simp add: pdes_open_def)
    show "pte_at s' D va AND 7 = 7" if "is_user va" "pte_at s' D va \<noteq> 0" for va
      using that pte' [OF that(1)] en(1) loadingD(3) [OF ok that(1)] by auto
    fix va va' assume x: "is_user va" "is_user va'" "pte_at s' D va \<noteq> 0" "pte_at s' D va' \<noteq> 0"
      "PGNUM (pte_at s' D va) = PGNUM (pte_at s' D va')"
    then show "PGNUM va = PGNUM va'"
      using pte' [OF x(1)] pte' [OF x(2)] en(2) a(9) [OF x(1)] a(9) [OF x(2)] loadingD(4) [OF ok x(1,2)]
      by (auto split: if_splits)
  qed
  have keep: "phys s' q = phys s q" if "q \<noteq> D" "q \<notin> tables s D" "q \<notin> set (free_pages s)" for q
    using grownD(5) [OF g, of q] that f(2,4) a(3) by simp
  have sub: "set (free_pages s') \<subseteq> set (free_pages s)" using grownD(2) [OF g] f(2) by auto
  have "load_step s s' D"
    unfolding load_step_def
  proof (intro conjI allI impI)
    show "loading s' D" by (rule ld)
    show "same_area s s'" using page_alloc_setup [OF al] page_insert_setup [OF run] by (rule same_area_trans)
    show "set (free_pages s') \<subseteq> set (free_pages s)" by (rule sub)
    fix q assume q: "\<not> loadable s D q"
    then have n: "q \<noteq> D" "q \<notin> tables s D" "q \<notin> set (free_pages s)" by (simp_all add: loadable_def)
    then show "phys s' q = phys s q" by (rule keep)
    have "q \<notin> tables s' D" using grownD(4) [OF g, of q] n a(3) f(2) by auto
    moreover have "PGNUM (pte_at s' D x) \<noteq> q" if "is_user x" "pte_at s' D x \<noteq> 0" for x
      using that pte' [OF that(1)] en(2) f(1) n(3) q by (auto simp: loadable_def split: if_splits)
    ultimately show "\<not> loadable s' D q" using n sub by (auto simp: loadable_def)
  qed
  moreover have "length (free_pages s) \<le> length (free_pages s') + 2"
    using grown_length [OF a(1) ok' g] len1 by simp
  moreover have "load_byte s' D x = load_byte s D x" if x: "is_user x" "PGNUM x \<noteq> k" for x
  proof (cases "pte_at s D x = 0")
    case True
    then show ?thesis using load_byte_eq [OF ok x(1)] load_byte_eq [OF ld x(1)] pte' [OF x(1)] x(2) by simp
  next
    case False
    have "phys s' (PGNUM (pte_at s D x)) = phys s (PGNUM (pte_at s D x))"
      using loading_frame [OF ok x(1) False] vm_okD(10) [OF vok x(1) False] by (intro keep)
    then show ?thesis using load_byte_eq [OF ok x(1)] load_byte_eq [OF ld x(1)] pte' [OF x(1)] x(2) by simp
  qed
  moreover have "pte_at s' D x \<noteq> 0 \<longleftrightarrow> PGNUM x = k \<or> pte_at s D x \<noteq> 0" if "is_user x" for x
    using pte' [OF that] en(3) by simp
  ultimately show thesis using result al run by blast
qed

text \<open>What loading into the pages \<open>ks\<close> does: they are mapped, the others stay as they are.\<close>

definition mapped_pages :: "pmem \<Rightarrow> pmem \<Rightarrow> nat \<Rightarrow> nat list \<Rightarrow> bool" where
  "mapped_pages s s' D ks \<longleftrightarrow> load_step s s' D \<and> length (free_pages s) \<le> length (free_pages s') + 2 * length ks \<and>
     (\<forall>x. is_user x \<longrightarrow> (pte_at s' D x \<noteq> 0 \<longleftrightarrow> PGNUM x \<in> set ks \<or> pte_at s D x \<noteq> 0)) \<and>
     (\<forall>x. is_user x \<longrightarrow> PGNUM x \<notin> set ks \<longrightarrow> load_byte s' D x = load_byte s D x)"

lemma mapped_pagesD:
  assumes "mapped_pages s s' D ks"
  shows "load_step s s' D" and "length (free_pages s) \<le> length (free_pages s') + 2 * length ks"
    and "is_user x \<Longrightarrow> pte_at s' D x \<noteq> 0 \<longleftrightarrow> PGNUM x \<in> set ks \<or> pte_at s D x \<noteq> 0"
    and "is_user x \<Longrightarrow> PGNUM x \<notin> set ks \<Longrightarrow> load_byte s' D x = load_byte s D x"
  using assms unfolding mapped_pages_def by blast+

lemma mapped_pages_trans:
  assumes a: "mapped_pages s s1 D ks" and b: "mapped_pages s1 s' D ls"
  shows "mapped_pages s s' D (ks @ ls)"
  unfolding mapped_pages_def
proof (intro conjI allI impI)
  show "load_step s s' D" using mapped_pagesD(1) [OF a] mapped_pagesD(1) [OF b] by (rule load_step_trans)
  show "length (free_pages s) \<le> length (free_pages s') + 2 * length (ks @ ls)"
    using mapped_pagesD(2) [OF a] mapped_pagesD(2) [OF b] by simp
  fix x assume u: "is_user x"
  show "pte_at s' D x \<noteq> 0 \<longleftrightarrow> PGNUM x \<in> set (ks @ ls) \<or> pte_at s D x \<noteq> 0"
    using mapped_pagesD(3) [OF a u] mapped_pagesD(3) [OF b u] by auto
  assume "PGNUM x \<notin> set (ks @ ls)"
  then show "load_byte s' D x = load_byte s D x" using mapped_pagesD(4) [OF a u] mapped_pagesD(4) [OF b u] by simp
qed

lemma mapped_pages_refl: "loading s D \<Longrightarrow> mapped_pages s s D []"
  by (simp add: mapped_pages_def load_step_refl)

definition unmapped :: "pmem \<Rightarrow> nat \<Rightarrow> nat set \<Rightarrow> bool" where
  "unmapped s D A \<longleftrightarrow> (\<forall>k\<in>A. k < PGNUM UTOP \<and> pte_at s D (page_addr k) = 0)"

lemma unmapped_step:
  assumes m: "mapped_pages s s' D ks" and un: "unmapped s D A" and "A \<inter> set ks = {}"
  shows "unmapped s' D A"
  unfolding unmapped_def
proof (intro ballI conjI)
  fix k assume k: "k \<in> A"
  then show lt: "k < PGNUM UTOP" using un by (simp add: unmapped_def)
  have "PGNUM (page_addr k) = k" using lt by (intro PGNUM_page_addr) (simp add: PGNUM_UTOP)
  then show "pte_at s' D (page_addr k) = 0"
    using mapped_pagesD(3) [OF m user_page(1) [OF lt]] k un assms(3) by (auto simp: unmapped_def)
qed

lemma region_loop_ok:
  assumes "loading s D" and "distinct ks" and "unmapped s D (set ks)" and "2 * length ks \<le> length (free_pages s)"
  shows "\<exists>s'. region_alloc_loop ks D s = Some s' \<and> mapped_pages s s' D ks"
  using assms
proof (induction ks arbitrary: s)
  case Nil
  then show ?case by (simp add: mapped_pages_refl)
next
  case (Cons k ks)
  have k: "k < PGNUM UTOP" "pte_at s D (page_addr k) = 0" using Cons.prems(3) by (simp_all add: unmapped_def)
  have room: "2 \<le> length (free_pages s)" using Cons.prems(4) by simp
  obtain s1 p s2 where s2: "page_alloc s False = (s1, Some p)" "page_insert s1 D p (page_addr k) (PTE_U OR PTE_W) = Some (s2, 0)"
    "load_step s s2 D" "length (free_pages s) \<le> length (free_pages s2) + 2"
    "\<And>x. is_user x \<Longrightarrow> pte_at s2 D x \<noteq> 0 \<longleftrightarrow> PGNUM x = k \<or> pte_at s D x \<noteq> 0"
    "\<And>x. is_user x \<Longrightarrow> PGNUM x \<noteq> k \<Longrightarrow> load_byte s2 D x = load_byte s D x"
    by (rule load_page [OF Cons.prems(1) k room]) (rule that)
  have one: "mapped_pages s s2 D [k]" using s2(3-6) by (simp add: mapped_pages_def)
  have "unmapped s2 D (set ks)"
    using Cons.prems(2,3) by (intro unmapped_step [OF one]) (auto simp: unmapped_def)
  moreover have "2 * length ks \<le> length (free_pages s2)" using Cons.prems(4) s2(4) by simp
  ultimately obtain s' where s': "region_alloc_loop ks D s2 = Some s'" "mapped_pages s2 s' D ks"
    using Cons.IH [OF load_stepD(1) [OF s2(3)]] Cons.prems(2) by auto
  have "region_alloc_loop (k # ks) D s = region_alloc_loop ks D s2"
    using s2(1,2) by (simp add: page_addr_def)
  then show ?case using s'(1) mapped_pages_trans [OF one s'(2)] by simp
qed

subsection \<open>The segments\<close>

definition region_pages :: "nat \<Rightarrow> nat \<Rightarrow> nat list" where
  "region_pages va len = [va div 4096..<(va + len + 4095) div 4096]"

lemma region_alloc_ok:
  assumes ok: "loading (vm s) D" and e: "env_pgdir (envs s e) = Some D" and fits: "unat va + unat len \<le> unat UTOP"
    and un: "unmapped (vm s) D (set (region_pages (unat va) (unat len)))"
    and room: "2 * length (region_pages (unat va) (unat len)) \<le> length (free_pages (vm s))"
  obtains m where "region_alloc s e va len = Some (s\<lparr>vm := m\<rparr>)" and "mapped_pages (vm s) m D (region_pages (unat va) (unat len))"
proof -
  have top: "unat UTOP = 4005560320" by (simp add: layout_defs)
  have sum: "unat (va + len) = unat va + unat len" using fits top by (simp add: unat_word_ariths)
  have hi: "unat (ROUNDUP (va + len) PGSIZE) = (unat va + unat len + 4095) div 4096 * 4096"
    using unat_ROUNDUP [of "va + len"] fits top unfolding sum by simp
  have "\<not> ROUNDUP (va + len) PGSIZE > UTOP"
    using fits top by (simp add: word_less_nat_alt hi)
  moreover have "PGNUM (ROUNDUP (va + len) PGSIZE) = (unat va + unat len + 4095) div 4096" by (simp add: PGNUM_div hi)
  moreover have "PGNUM (ROUNDDOWN va PGSIZE) = unat va div 4096"
    by (simp add: PGNUM_div unat_ROUNDDOWN minus_mod_eq_div_mult)
  moreover obtain m where "region_alloc_loop (region_pages (unat va) (unat len)) D (vm s) = Some m"
    "mapped_pages (vm s) m D (region_pages (unat va) (unat len))"
    using region_loop_ok [OF ok _ un room] by (auto simp: region_pages_def)
  ultimately show thesis using that [of m] e by (simp add: region_alloc_def region_pages_def Let_def)
qed

definition segment_pages :: "proghdr \<Rightarrow> nat list" where
  "segment_pages ph = (if p_type ph = ELF_PROG_LOAD then region_pages (unat (p_va ph)) (unat (p_memsz ph)) else [])"

definition segment_byte :: "w8 list \<Rightarrow> proghdr \<Rightarrow> nat \<Rightarrow> w8" where
  "segment_byte bin ph i = (if i < unat (p_filesz ph) then bin ! (unat (p_offset ph) + i) else 0)"

text \<open>A segment that lies below the stack and whose bytes are in the file.\<close>

definition segment_ok :: "w8 list \<Rightarrow> proghdr \<Rightarrow> bool" where
  "segment_ok bin ph \<longleftrightarrow> unat (p_va ph) + unat (p_memsz ph) \<le> unat (USTACKTOP - PGSIZE) \<and>
     unat (p_filesz ph) \<le> unat (p_memsz ph) \<and> unat (p_offset ph) + unat (p_filesz ph) \<le> length bin"

definition segment_loaded :: "w8 list \<Rightarrow> proghdr \<Rightarrow> pmem \<Rightarrow> nat \<Rightarrow> bool" where
  "segment_loaded bin ph m D \<longleftrightarrow> (p_type ph = ELF_PROG_LOAD \<longrightarrow>
     (\<forall>i<unat (p_memsz ph). load_byte m D (p_va ph + word_of_nat i) = Some (segment_byte bin ph i)))"

lemma stack_page: "unat (USTACKTOP - PGSIZE) = 977917 * 4096" "USTACKTOP - PGSIZE = page_addr 977917" "unat UTOP = 977920 * 4096"
  by (simp_all add: layout_defs page_addr_def push_bit_eq_mult)

lemma in_region:
  assumes "i < len"
  shows "(va + i) div 4096 \<in> set (region_pages va len)"
proof -
  have "va div 4096 \<le> (va + i) div 4096" by (rule div_le_mono) simp
  moreover have "va + i + 4096 \<le> va + len + 4095" using assms by simp
  then have "(va + i + 4096) div 4096 \<le> (va + len + 4095) div 4096" by (rule div_le_mono)
  ultimately show ?thesis by (simp add: region_pages_def)
qed

lemma load_segment_ok:
  assumes ok: "loading (vm s) D" and e: "env_pgdir (envs s e) = Some D"
    and fits: "p_type ph = ELF_PROG_LOAD \<Longrightarrow> segment_ok bin ph" and un: "unmapped (vm s) D (set (segment_pages ph))"
    and room: "2 * length (segment_pages ph) \<le> length (free_pages (vm s))"
  obtains m where "load_segment bin e ph s = Some (s\<lparr>vm := m\<rparr>)" and "mapped_pages (vm s) m D (segment_pages ph)"
    and "segment_loaded bin ph m D"
proof (cases "p_type ph = ELF_PROG_LOAD")
  case False
  then show thesis
    using that [of "vm s"] mapped_pages_refl [OF ok] by (simp add: load_segment_def segment_pages_def segment_loaded_def)
next
  case True
  let ?va = "p_va ph" and ?n = "unat (p_memsz ph)" and ?f = "unat (p_filesz ph)"
  let ?ks = "region_pages (unat ?va) ?n"
  have ks: "segment_pages ph = ?ks" using True by (simp add: segment_pages_def)
  have bounds: "unat ?va + ?n \<le> unat UTOP" "unat ?va + ?n \<le> 977917 * 4096" "?f \<le> ?n" "unat (p_offset ph) + ?f \<le> length bin"
    using fits [OF True] stack_page by (simp_all add: segment_ok_def)
  obtain m1 where m1: "region_alloc s e ?va (p_memsz ph) = Some (s\<lparr>vm := m1\<rparr>)" "mapped_pages (vm s) m1 D ?ks"
    by (rule region_alloc_ok [OF ok e bounds(1)]) (use un room ks that in auto)
  have at: "unat ?va + i < unat UTOP" if "i < ?n" for i using that bounds(1) by simp
  have mapped: "pte_at m1 D (?va + word_of_nat i) \<noteq> 0" if "i < ?n" for i
    using mapped_pagesD(3) [OF m1(2) user_range(2) [OF at [OF that]]] in_region [OF that, of "unat ?va"]
      user_range(1) [OF at [OF that]] by (simp add: PGNUM_div)
  obtain m2 where m2: "copy_bytes [0..<?n] (\<lambda>_. Some 0) D ?va m1 = Some m2" "load_step m1 m2 D" "free_pages m2 = free_pages m1"
    "\<forall>x. is_user x \<longrightarrow> pte_at m2 D x = pte_at m1 D x \<and>
        load_byte m2 D x = (if unat ?va \<le> unat x \<and> unat x - unat ?va \<in> set [0..<?n] then Some 0 else load_byte m1 D x)"
    using copy_bytes_ok [OF load_stepD(1) [OF mapped_pagesD(1) [OF m1(2)]], of "[0..<?n]" ?va "\<lambda>_. Some 0" "\<lambda>_. 0"] at mapped
    by auto
  have mapped2: "pte_at m2 D (?va + word_of_nat i) \<noteq> 0" if "i < ?n" for i
    using m2(4) user_range(2) [OF at [OF that]] mapped [OF that] by simp
  let ?src = "\<lambda>k. file_byte bin (unat (p_offset ph) + k)"
  have src: "unat ?va + k < unat UTOP \<and> pte_at m2 D (?va + word_of_nat k) \<noteq> 0 \<and> ?src k = Some (bin ! (unat (p_offset ph) + k))"
    if "k \<in> set [0..<?f]" for k
  proof -
    have k: "k < ?f" "k < ?n" using that bounds(3) by simp_all
    show ?thesis using at [OF k(2)] mapped2 [OF k(2)] k(1) bounds(4) by (simp add: file_byte_def)
  qed
  obtain m where m: "copy_bytes [0..<?f] ?src D ?va m2 = Some m" "load_step m2 m D" "free_pages m = free_pages m2"
    "\<forall>x. is_user x \<longrightarrow> pte_at m D x = pte_at m2 D x \<and>
        load_byte m D x = (if unat ?va \<le> unat x \<and> unat x - unat ?va \<in> set [0..<?f]
          then Some (bin ! (unat (p_offset ph) + (unat x - unat ?va))) else load_byte m2 D x)"
    using copy_bytes_ok [OF load_stepD(1) [OF m2(2)] distinct_upt src] by blast
  have run: "load_segment bin e ph s = Some (s\<lparr>vm := m\<rparr>)"
    using True m1(1) m2(1) m(1) e by (simp add: load_segment_def)
  have pages: "mapped_pages (vm s) m D (segment_pages ph)"
    unfolding mapped_pages_def ks
  proof (intro conjI allI impI)
    show "load_step (vm s) m D"
      by (rule load_step_trans [OF mapped_pagesD(1) [OF m1(2)] load_step_trans [OF m2(2) m(2)]])
    show "length (free_pages (vm s)) \<le> length (free_pages m) + 2 * length ?ks"
      using mapped_pagesD(2) [OF m1(2)] m2(3) m(3) by simp
    fix x assume u: "is_user x"
    show "pte_at m D x \<noteq> 0 \<longleftrightarrow> PGNUM x \<in> set ?ks \<or> pte_at (vm s) D x \<noteq> 0"
      using mapped_pagesD(3) [OF m1(2) u] m2(4) m(4) u by simp
    assume x: "PGNUM x \<notin> set ?ks"
    have "\<not> (unat ?va \<le> unat x \<and> unat x - unat ?va < ?n)"
    proof
      assume h: "unat ?va \<le> unat x \<and> unat x - unat ?va < ?n"
      then have "(unat ?va + (unat x - unat ?va)) div 4096 \<in> set ?ks" by (intro in_region) simp
      then show False using x h by (simp add: PGNUM_div)
    qed
    then show "load_byte m D x = load_byte (vm s) D x"
      using mapped_pagesD(4) [OF m1(2) u x] m2(4) m(4) u bounds(3) by auto
  qed
  have "load_byte m D (?va + word_of_nat i) = Some (segment_byte bin ph i)" if i: "i < ?n" for i
    using m2(4) m(4) user_range [OF at [OF i]] i by (simp add: segment_byte_def)
  then have "segment_loaded bin ph m D" by (simp add: segment_loaded_def)
  then show thesis using that run pages by blast
qed

lemma segment_stays:
  assumes l: "segment_loaded bin ph m D" and ok: "p_type ph = ELF_PROG_LOAD \<Longrightarrow> segment_ok bin ph"
    and m: "mapped_pages m m' D ks" and "set (segment_pages ph) \<inter> set ks = {}"
  shows "segment_loaded bin ph m' D"
  unfolding segment_loaded_def
proof (intro impI allI)
  fix i assume t: "p_type ph = ELF_PROG_LOAD" and i: "i < unat (p_memsz ph)"
  have at: "unat (p_va ph) + i < unat UTOP" using ok [OF t] i stack_page by (simp add: segment_ok_def)
  note ur = user_range [OF at]
  have "PGNUM (p_va ph + word_of_nat i) \<in> set (segment_pages ph)"
    using in_region [OF i, of "unat (p_va ph)"] t by (simp add: segment_pages_def PGNUM_div ur(1))
  then have "PGNUM (p_va ph + word_of_nat i) \<notin> set ks" using assms(4) by auto
  from mapped_pagesD(4) [OF m ur(2) this] l t i
  show "load_byte m' D (p_va ph + word_of_nat i) = Some (segment_byte bin ph i)" by (simp add: segment_loaded_def)
qed

lemma load_segments_ok:
  assumes "loading (vm s) D" and "env_pgdir (envs s e) = Some D"
    and "\<And>k. k \<in> set ks \<Longrightarrow> read_proghdr bin el k = Some (h k) \<and> (p_type (h k) = ELF_PROG_LOAD \<longrightarrow> segment_ok bin (h k))"
    and "distinct (concat (map (\<lambda>k. segment_pages (h k)) ks))"
    and "unmapped (vm s) D (set (concat (map (\<lambda>k. segment_pages (h k)) ks)))"
    and "2 * length (concat (map (\<lambda>k. segment_pages (h k)) ks)) \<le> length (free_pages (vm s))"
  shows "\<exists>m. load_segments ks bin el e s = Some (s\<lparr>vm := m\<rparr>) \<and>
     mapped_pages (vm s) m D (concat (map (\<lambda>k. segment_pages (h k)) ks)) \<and> (\<forall>k\<in>set ks. segment_loaded bin (h k) m D)"
  using assms
proof (induction ks arbitrary: s)
  case Nil
  show ?case using mapped_pages_refl [OF Nil.prems(1)] by (intro exI [of _ "vm s"]) simp
next
  case (Cons k ks)
  let ?rest = "concat (map (\<lambda>k. segment_pages (h k)) ks)"
  have hd: "read_proghdr bin el k = Some (h k)" "p_type (h k) = ELF_PROG_LOAD \<Longrightarrow> segment_ok bin (h k)"
    using Cons.prems(3) [of k] by simp_all
  have un: "unmapped (vm s) D (set (segment_pages (h k)))" "unmapped (vm s) D (set ?rest)"
    using Cons.prems(5) by (simp_all add: unmapped_def)
  have apart: "set (segment_pages (h k)) \<inter> set ?rest = {}" "distinct ?rest" using Cons.prems(4) by simp_all
  have room: "2 * length (segment_pages (h k)) \<le> length (free_pages (vm s))" using Cons.prems(6) by simp
  obtain m1 where m1: "load_segment bin e (h k) s = Some (s\<lparr>vm := m1\<rparr>)" "mapped_pages (vm s) m1 D (segment_pages (h k))"
    "segment_loaded bin (h k) m1 D"
    using load_segment_ok [OF Cons.prems(1,2) hd(2) un(1) room] by metis
  let ?s1 = "s\<lparr>vm := m1\<rparr>"
  have "unmapped (vm ?s1) D (set ?rest)" using unmapped_step [OF m1(2) un(2)] apart(1) by auto
  moreover have "2 * length ?rest \<le> length (free_pages (vm ?s1))" using Cons.prems(6) mapped_pagesD(2) [OF m1(2)] by simp
  moreover have "loading (vm ?s1) D" using load_stepD(1) [OF mapped_pagesD(1) [OF m1(2)]] by simp
  ultimately obtain m where m: "load_segments ks bin el e ?s1 = Some (?s1\<lparr>vm := m\<rparr>)" "mapped_pages m1 m D ?rest"
    "\<forall>k\<in>set ks. segment_loaded bin (h k) m D"
    using Cons.IH [of ?s1] Cons.prems(2,3) apart(2) by auto
  have "segment_loaded bin (h k) m D" by (rule segment_stays [OF m1(3) hd(2) m(2) apart(1)])
  then show ?case using hd(1) m1(1) m mapped_pages_trans [OF m1(2) m(2)] by (intro exI [of _ m]) simp
qed

subsection \<open>The program\<close>

text \<open>A file that the loader accepts: its program headers are \<open>hs\<close>, and no two segments touch the same page.\<close>

definition image_pages :: "proghdr list \<Rightarrow> nat list" where
  "image_pages hs = concat (map segment_pages hs)"

definition program_image :: "w8 list \<Rightarrow> elf \<Rightarrow> proghdr list \<Rightarrow> bool" where
  "program_image bin el hs \<longleftrightarrow> read_elf bin = Some el \<and> e_magic el = ELF_MAGIC \<and> length hs = unat (e_phnum el) \<and>
     (\<forall>k<length hs. read_proghdr bin el k = Some (hs ! k)) \<and>
     (\<forall>ph\<in>set hs. p_type ph = ELF_PROG_LOAD \<longrightarrow> segment_ok bin ph) \<and> distinct (image_pages hs)"

definition fresh_space :: "pmem \<Rightarrow> nat \<Rightarrow> bool" where
  "fresh_space s D \<longleftrightarrow> vm_ok s D \<and> (\<forall>d<PDX UTOP. phys s D d = 0)"

lemma fresh_space_loading:
  assumes "fresh_space s D"
  shows "loading s D" and "is_user va \<Longrightarrow> pte_at s D va = 0" and "tables s D = {}"
    and "loadable s D q \<longleftrightarrow> q = D \<or> q \<in> set (free_pages s)"
proof -
  show z: "pte_at s D va = 0" if "is_user va" for va using assms that by (simp add: fresh_space_def is_user_def pte_at_def)
  then show "loading s D" using assms by (simp add: loading_def fresh_space_def pdes_open_def)
  show tab: "tables s D = {}" using assms by (auto simp: tables_def fresh_space_def)
  show "loadable s D q \<longleftrightarrow> q = D \<or> q \<in> set (free_pages s)" using z tab by (auto simp: loadable_def)
qed

lemma image_below_stack:
  assumes "program_image bin el hs" and "k \<in> set (image_pages hs)"
  shows "k < 977917"
proof -
  obtain ph where ph: "ph \<in> set hs" "k \<in> set (segment_pages ph)" using assms(2) by (auto simp: image_pages_def)
  then have t: "p_type ph = ELF_PROG_LOAD" by (auto simp: segment_pages_def split: if_splits)
  then have "segment_ok bin ph" using assms(1) ph(1) by (simp add: program_image_def)
  then have "unat (p_va ph) + unat (p_memsz ph) \<le> 977917 * 4096" using stack_page by (simp add: segment_ok_def)
  then have "(unat (p_va ph) + unat (p_memsz ph) + 4095) div 4096 \<le> 977917" by simp
  then show ?thesis using ph(2) t by (simp add: segment_pages_def region_pages_def)
qed

lemma load_icode_ok:
  assumes im: "program_image bin el hs" and e: "env_pgdir (envs s e) = Some D" and fresh: "fresh_space (vm s) D"
    and room: "2 * length (image_pages hs) + 2 \<le> length (free_pages (vm s))"
  obtains m where "load_icode c bin e s = Some (upd_env e (\<lambda>x. x\<lparr>env_tf := (env_tf x)\<lparr>tf_eip := e_entry el\<rparr>\<rparr>)
      (s\<lparr>cpu_cr3 := (cpu_cr3 s)(c := kern_pgdir (vm s)), vm := m\<rparr>))"
    and "mapped_pages (vm s) m D (image_pages hs @ [977917])" and "\<forall>ph\<in>set hs. segment_loaded bin ph m D"
proof -
  let ?s0 = "s\<lparr>cpu_cr3 := (cpu_cr3 s)(c := D)\<rparr>"
  let ?n = "length hs"
  note fs = fresh_space_loading [OF fresh]
  have map: "map (\<lambda>k. segment_pages (hs ! k)) [0..<?n] = map segment_pages hs" by (rule nth_equalityI) auto
  have un: "unmapped (vm s) D A" if "\<And>k. k \<in> A \<Longrightarrow> k \<le> 977917" for A
    unfolding unmapped_def
  proof (intro ballI conjI)
    fix k assume "k \<in> A"
    then show lt: "k < PGNUM UTOP" using that [of k] by (simp add: PGNUM_UTOP)
    show "pte_at (vm s) D (page_addr k) = 0" by (rule fs(2) [OF user_page(1) [OF lt]])
  qed
  have hdrs: "read_proghdr bin el k = Some (hs ! k) \<and> (p_type (hs ! k) = ELF_PROG_LOAD \<longrightarrow> segment_ok bin (hs ! k))"
    if "k \<in> set [0..<?n]" for k using im that by (simp add: program_image_def)
  have dist: "distinct (concat (map (\<lambda>k. segment_pages (hs ! k)) [0..<?n]))"
    unfolding map using im by (simp add: program_image_def image_pages_def)
  have unp: "unmapped (vm ?s0) D (set (concat (map (\<lambda>k. segment_pages (hs ! k)) [0..<?n])))"
    unfolding map image_pages_def [symmetric] 
  proof -
    have "unmapped (vm s) D (set (image_pages hs))" by (rule un) (use image_below_stack [OF im] in force)
    then show "unmapped (vm ?s0) D (set (image_pages hs))" by simp
  qed
  have rm: "2 * length (concat (map (\<lambda>k. segment_pages (hs ! k)) [0..<?n])) \<le> length (free_pages (vm ?s0))"
    unfolding map image_pages_def [symmetric] using room by simp
  have ld0: "loading (vm ?s0) D" and e0: "env_pgdir (envs ?s0 e) = Some D" using fs(1) e by simp_all
  obtain m1 where m1: "load_segments [0..<?n] bin el e ?s0 = Some (?s0\<lparr>vm := m1\<rparr>)" "mapped_pages (vm s) m1 D (image_pages hs)"
    "\<forall>k\<in>set [0..<?n]. segment_loaded bin (hs ! k) m1 D"
    using load_segments_ok [OF ld0 e0 hdrs dist unp rm] unfolding map image_pages_def [symmetric] by auto
  let ?s1 = "?s0\<lparr>vm := m1\<rparr>"
  have ks: "region_pages (unat (USTACKTOP - PGSIZE)) (unat PGSIZE) = [977917]"
    unfolding stack_page(1) by (simp add: region_pages_def PGSIZE_def)
  have ld1: "loading (vm ?s1) D" and e1: "env_pgdir (envs ?s1 e) = Some D"
    using load_stepD(1) [OF mapped_pagesD(1) [OF m1(2)]] e by simp_all
  have fits: "unat (USTACKTOP - PGSIZE) + unat PGSIZE \<le> unat UTOP" unfolding stack_page(1,3) by (simp add: PGSIZE_def)
  have un1: "unmapped (vm ?s1) D (set (region_pages (unat (USTACKTOP - PGSIZE)) (unat PGSIZE)))"
    unfolding ks using unmapped_step [OF m1(2) un, of "{977917}"] image_below_stack [OF im] by force
  have room1: "2 * length (region_pages (unat (USTACKTOP - PGSIZE)) (unat PGSIZE)) \<le> length (free_pages (vm ?s1))"
    unfolding ks using mapped_pagesD(2) [OF m1(2)] room by simp
  obtain m where m: "region_alloc ?s1 e (USTACKTOP - PGSIZE) PGSIZE = Some (?s1\<lparr>vm := m\<rparr>)" "mapped_pages m1 m D [977917]"
    using region_alloc_ok [OF ld1 e1 fits un1 room1] unfolding ks by auto
  have mp: "mapped_pages (vm s) m D (image_pages hs @ [977917])" by (rule mapped_pages_trans [OF m1(2) m(2)])
  have kd: "kern_pgdir m = kern_pgdir (vm s)" using load_stepD(2) [OF mapped_pagesD(1) [OF mp]] by (simp add: same_area_def)
  have n: "unat (e_phnum el) = ?n" "read_elf bin = Some el" "e_magic el = ELF_MAGIC" using im by (simp_all add: program_image_def)
  have "load_icode c bin e s = Some (upd_env e (\<lambda>x. x\<lparr>env_tf := (env_tf x)\<lparr>tf_eip := e_entry el\<rparr>\<rparr>)
      (s\<lparr>cpu_cr3 := (cpu_cr3 s)(c := kern_pgdir (vm s)), vm := m\<rparr>))"
    using e m1(1) m(1) by (simp add: load_icode_def n kd upd_env_def)
  moreover have "segment_loaded bin ph m D" if mem: "ph \<in> set hs" for ph
  proof -
    obtain k where k: "k < ?n" "ph = hs ! k" using mem unfolding in_set_conv_nth by blast
    have "set (segment_pages ph) \<subseteq> set (image_pages hs)" using mem by (auto simp: image_pages_def)
    then have "set (segment_pages ph) \<inter> set [977917] = {}" using image_below_stack [OF im] by force
    then show ?thesis using m1(3) k im by (intro segment_stays [OF _ _ m(2)]) (auto simp: program_image_def)
  qed
  ultimately show thesis using that mp by blast
qed

text \<open>C18. \<open>load_icode\<close> loads a program: for every file whose segments lie below the stack, are in the file and touch no
  common page, with two free frames for each page, it returns; every byte of a segment is the byte of the file, or zero
  after the part that the file holds; the pages of the segments and the page of the stack, and no others, are mapped and
  open to the program; the program will start at the entry point; and no frame that was in use has changed.\<close>

theorem load_icode_loads:
  assumes image: "program_image bin el hs" and e: "env_pgdir (envs s e) = Some D" and fresh: "fresh_space (vm s) D"
    and room: "2 * length (image_pages hs) + 2 \<le> length (free_pages (vm s))"
  shows "\<exists>s'. load_icode c bin e s = Some s' \<and> tf_eip (env_tf (envs s' e)) = e_entry el \<and> cpu_cr3 s' c = kern_pgdir (vm s) \<and>
    (\<forall>ph\<in>set hs. p_type ph = ELF_PROG_LOAD \<longrightarrow> (\<forall>i<unat (p_memsz ph). load_byte (vm s') D (p_va ph + word_of_nat i) =
       Some (if i < unat (p_filesz ph) then bin ! (unat (p_offset ph) + i) else 0))) \<and>
    (\<forall>x. is_user x \<longrightarrow> (pte_at (vm s') D x \<noteq> 0 \<longleftrightarrow> PGNUM x \<in> set (image_pages hs) \<or> PGNUM x = PGNUM (USTACKTOP - PGSIZE)) \<and>
       (pte_at (vm s') D x \<noteq> 0 \<longrightarrow> pte_at (vm s') D x AND (PTE_P OR PTE_W OR PTE_U) = PTE_P OR PTE_W OR PTE_U)) \<and>
    (\<forall>q. q \<noteq> D \<longrightarrow> q \<notin> set (free_pages (vm s)) \<longrightarrow> phys (vm s') q = phys (vm s) q)"
proof -
  obtain m where m: "load_icode c bin e s = Some (upd_env e (\<lambda>x. x\<lparr>env_tf := (env_tf x)\<lparr>tf_eip := e_entry el\<rparr>\<rparr>)
      (s\<lparr>cpu_cr3 := (cpu_cr3 s)(c := kern_pgdir (vm s)), vm := m\<rparr>))"
    "mapped_pages (vm s) m D (image_pages hs @ [977917])" "\<forall>ph\<in>set hs. segment_loaded bin ph m D"
    by (rule load_icode_ok [OF image e fresh room]) (rule that)
  note st = load_stepD [OF mapped_pagesD(1) [OF m(2)]] and fs = fresh_space_loading [OF fresh]
  have seven: "PTE_P OR PTE_W OR PTE_U = 7" by (simp add: PTE_P_def PTE_W_def PTE_U_def)
  have stack: "PGNUM (USTACKTOP - PGSIZE) = 977917" unfolding PGNUM_div stack_page(1) by simp
  have "\<forall>x. is_user x \<longrightarrow> (pte_at m D x \<noteq> 0 \<longleftrightarrow> PGNUM x \<in> set (image_pages hs) \<or> PGNUM x = 977917) \<and>
      (pte_at m D x \<noteq> 0 \<longrightarrow> pte_at m D x AND 7 = 7)"
    using mapped_pagesD(3) [OF m(2)] fs(2) loadingD(3) [OF st(1)] by auto
  moreover have "\<forall>q. q \<noteq> D \<longrightarrow> q \<notin> set (free_pages (vm s)) \<longrightarrow> phys m q = phys (vm s) q" using st(5) fs(4) by blast
  moreover have "\<forall>ph\<in>set hs. p_type ph = ELF_PROG_LOAD \<longrightarrow> (\<forall>i<unat (p_memsz ph). load_byte m D (p_va ph + word_of_nat i) =
       Some (if i < unat (p_filesz ph) then bin ! (unat (p_offset ph) + i) else 0))"
    using m(3) by (auto simp: segment_loaded_def segment_byte_def)
  ultimately show ?thesis unfolding m(1) seven stack
    by (intro exI [of _ "upd_env e (\<lambda>x. x\<lparr>env_tf := (env_tf x)\<lparr>tf_eip := e_entry el\<rparr>\<rparr>)
      (s\<lparr>cpu_cr3 := (cpu_cr3 s)(c := kern_pgdir (vm s)), vm := m\<rparr>)"] conjI) (simp_all add: upd_env_def)
qed

text \<open>A file of one segment: five bytes of memory at \<open>0x800020\<close>, of which the file holds three.\<close>

definition demo_program :: "w8 list" where
  "demo_program = [0x7F, 0x45, 0x4C, 0x46] @ replicate 20 0 @ [0x20, 0, 0x80, 0, 52, 0, 0, 0] @ replicate 12 0 @ [1, 0] @ replicate 6 0 @
     [1, 0, 0, 0, 84, 0, 0, 0, 0x20, 0, 0x80, 0, 0x20, 0, 0x80, 0, 3, 0, 0, 0, 5, 0, 0, 0] @ replicate 8 0 @ [11, 12, 13]"

definition demo_segment :: proghdr where
  "demo_segment = \<lparr>p_type = ELF_PROG_LOAD, p_offset = 84, p_va = 0x800020, p_filesz = 3, p_memsz = 5\<rparr>"

definition demo_empty_space :: pmem where
  "demo_empty_space = demo_mem\<lparr>pp_link := (\<lambda>_. None)(2 := Some 3, 3 := Some 8, 8 := Some 9)\<rparr>"

lemma demo_program_image:
  "program_image demo_program \<lparr>e_magic = ELF_MAGIC, e_entry = 0x800020, e_phoff = 52, e_phnum = 1\<rparr> [demo_segment]"
proof -
  have len: "length demo_program = 87" by (simp add: demo_program_def)
  have "read_elf demo_program = Some \<lparr>e_magic = ELF_MAGIC, e_entry = 0x800020, e_phoff = 52, e_phnum = 1\<rparr>"
    by (simp add: read_elf_def file_word_def file_half_def file_byte_def len ELF_MAGIC_def)
      (simp add: demo_program_def nth_append nth_Cons')
  moreover have "read_proghdr demo_program \<lparr>e_magic = ELF_MAGIC, e_entry = 0x800020, e_phoff = 52, e_phnum = 1\<rparr> 0 = Some demo_segment"
    by (simp add: read_proghdr_def file_word_def file_half_def file_byte_def len demo_segment_def ELF_PROG_LOAD_def)
      (simp add: demo_program_def nth_append nth_Cons')
  ultimately show ?thesis
    by (simp add: program_image_def image_pages_def segment_pages_def region_pages_def segment_ok_def stack_page(1) len demo_segment_def)
qed

lemma demo_empty_fresh: "fresh_space demo_empty_space 5" "free_pages demo_empty_space = [2, 3, 8, 9]"
proof -
  have "chain (pp_link demo_empty_space) (page_free_list demo_empty_space) [2, 3, 8, 9]"
    by (simp add: demo_empty_space_def demo_mem_def)
  from free_chainI [OF this, of 16]
  have fr: "free_pages demo_empty_space = [2, 3, 8, 9]" and inv: "pages_inv demo_empty_space"
    by (simp_all add: pages_inv_def free_pages_def demo_empty_space_def demo_mem_def)
  then show "free_pages demo_empty_space = [2, 3, 8, 9]" by simp
  have none: "phys demo_empty_space p i = 0" for p i by (simp add: demo_empty_space_def demo_mem_def)
  have "tables demo_empty_space 5 = {}" "pte_at demo_empty_space 5 va = 0" for va
    by (simp_all add: tables_def pte_at_def none)
  moreover have "npages demo_empty_space = 16" by (simp add: demo_empty_space_def demo_mem_def)
  moreover have "p \<notin> {2, 3, 8, 9} \<Longrightarrow> pp_link demo_empty_space p = None" for p by (simp add: demo_empty_space_def)
  ultimately show "fresh_space demo_empty_space 5" using inv by (simp add: fresh_space_def vm_ok_def fr none)
qed

lemma load_icode_loads_witness:
  "\<exists>s'. load_icode 0 demo_program 0 (demo_user\<lparr>vm := demo_empty_space\<rparr>) = Some s' \<and> tf_eip (env_tf (envs s' 0)) = 0x800020 \<and>
     load_byte (vm s') 5 0x800022 = Some 13 \<and> load_byte (vm s') 5 0x800024 = Some 0"
proof -
  let ?s = "demo_user\<lparr>vm := demo_empty_space\<rparr>"
  have e: "env_pgdir (envs ?s 0) = Some 5" by (simp add: demo_user_def demo_env0_def Let_def)
  have fresh: "fresh_space (vm ?s) 5" using demo_empty_fresh(1) by simp
  have room: "2 * length (image_pages [demo_segment]) + 2 \<le> length (free_pages (vm ?s))"
    by (simp add: demo_empty_fresh(2) image_pages_def segment_pages_def region_pages_def demo_segment_def)
  obtain s' where s': "load_icode 0 demo_program 0 ?s = Some s'" "tf_eip (env_tf (envs s' 0)) = 0x800020"
    "\<forall>ph\<in>set [demo_segment]. p_type ph = ELF_PROG_LOAD \<longrightarrow> (\<forall>i<unat (p_memsz ph). load_byte (vm s') 5 (p_va ph + word_of_nat i) =
       Some (if i < unat (p_filesz ph) then demo_program ! (unat (p_offset ph) + i) else 0))"
    using load_icode_loads [OF demo_program_image e fresh room, of 0] by auto
  have seg: "i < 5 \<Longrightarrow> load_byte (vm s') 5 (0x800020 + word_of_nat i) = Some (if i < 3 then demo_program ! (84 + i) else 0)" for i
  proof -
    assume "i < 5"
    moreover have "p_type demo_segment = ELF_PROG_LOAD" "unat (p_memsz demo_segment) = 5" by (simp_all add: demo_segment_def)
    ultimately have "load_byte (vm s') 5 (p_va demo_segment + word_of_nat i) =
       Some (if i < unat (p_filesz demo_segment) then demo_program ! (unat (p_offset demo_segment) + i) else 0)"
      using bspec [OF s'(3), of demo_segment] by simp
    then show ?thesis by (simp add: demo_segment_def)
  qed
  have "demo_program ! 86 = 13" by (simp add: demo_program_def nth_append nth_Cons')
  then have "load_byte (vm s') 5 0x800022 = Some 13" "load_byte (vm s') 5 0x800024 = Some 0"
    using seg [of 2] seg [of 4] by simp_all
  with s'(1,2) show ?thesis by blast
qed

end
