(* ===== verification/Monitor.thy ===== *)
theory Monitor
  imports PrintFmt
begin

unbundle bit_operations_syntax

text \<open>
  The line reader (\<open>sched/lib/readline.c\<close>), which the kernel and its programs share, and the kernel monitor
  (\<open>sched/kern/monitor.c\<close>). Where a line comes from is the argument \<open>get\<close>, which gives the next character; the output is
  the list of characters. \<open>None\<close> is an access to memory that is not there, or waiting for ever. The place of a
  string literal is the argument \<open>lit\<close>.
\<close>

subsection \<open>Reading a character\<close>

text \<open>\<open>getchar\<close> of the kernel polls the devices until there is a character; each poll finds something at the serial
  port and at the keyboard.\<close>

type_synonym polls = "(reading list \<times> reading list) list"

fun getchar :: "polls \<times> console \<Rightarrow> (int \<times> (polls \<times> console)) option" where
  "getchar ([], s) = None"
| "getchar ((serial, kbd) # ps, s) =
     (case cons_getc serial kbd s of (s, c) \<Rightarrow> if c = 0 then getchar (ps, s) else Some (uint c, (ps, s)))"

definition iscons :: "int \<Rightarrow> int" where "iscons fdnum = 1"

subsection \<open>Reading a line\<close>

definition LINE_BUFLEN :: nat where "LINE_BUFLEN = 1024"

text \<open>The output, the memory, the source of characters and whether a line was read; \<open>i\<close> is the length of the line so far.\<close>

partial_function (option) readline_loop ::
  "('s \<Rightarrow> (int \<times> 's) option) \<Rightarrow> bool \<Rightarrow> w32 \<Rightarrow> nat \<Rightarrow> 's \<Rightarrow> bytes \<Rightarrow> w32 list \<Rightarrow> ('s \<times> bytes \<times> w32 list \<times> bool) option" where
  "readline_loop get echoing buf i st m out = do {
     (c, st) \<leftarrow> get st;
     if c < 0 then do {
       t \<leftarrow> cprintf_text (''read error: %e'' @ newline) [word_of_int c];
       Some (st, m, out @ t, False) }
     else if (c = 8 \<or> c = 0x7F) \<and> i > 0
       then readline_loop get echoing buf (i - 1) st m (if echoing then out @ [8] else out)
     else if c \<ge> 32 \<and> i < LINE_BUFLEN - 1 then do {
       m \<leftarrow> store (buf + word_of_nat i) (word_of_int c) m;
       readline_loop get echoing buf (i + 1) st m (if echoing then out @ [word_of_int c] else out) }
     else if c = 10 \<or> c = 13 then do {
       m \<leftarrow> store (buf + word_of_nat i) 0 m;
       Some (st, m, if echoing then out @ [10] else out, True) }
     else readline_loop get echoing buf i st m out }"

declare readline_loop.simps [simp del, code]

definition readline :: "('s \<Rightarrow> (int \<times> 's) option) \<Rightarrow> w32 \<Rightarrow> w32 \<Rightarrow> 's \<Rightarrow> bytes \<Rightarrow> ('s \<times> bytes \<times> w32 list \<times> bool) option" where
  "readline get buf prompt st m = do {
     p \<leftarrow> (if prompt \<noteq> 0 then vprintfmt m (chars ''%s'' @ [0]) [prompt] else Some []);
     readline_loop get (iscons 0 \<noteq> 0) buf 0 st m p }"

subsection \<open>The commands\<close>

datatype mon_command = Mon_help | Mon_kerninfo

definition command_table :: "(string \<times> string \<times> mon_command) list" where
  "command_table =
     [(''help'', ''Display this list of commands'', Mon_help),
      (''kerninfo'', ''Display information about the kernel'', Mon_kerninfo)]"

text \<open>The addresses that the linker gives.\<close>

record kernel_symbols =
  sym_start :: w32
  sym_entry :: w32
  sym_etext :: w32
  sym_edata :: w32
  sym_end :: w32

fun help_loop :: "(string \<Rightarrow> w32) \<Rightarrow> (string \<times> string \<times> mon_command) list \<Rightarrow> bytes \<Rightarrow> w32 list option" where
  "help_loop lit [] m = Some []"
| "help_loop lit ((name, desc, f) # cs) m = do {
     t \<leftarrow> vprintfmt m (chars (''%s - %s'' @ newline) @ [0]) [lit name, lit desc];
     r \<leftarrow> help_loop lit cs m;
     Some (t @ r) }"

definition mon_help :: "(string \<Rightarrow> w32) \<Rightarrow> bytes \<Rightarrow> (int \<times> w32 list) option" where
  "mon_help lit m = map_option (\<lambda>t. (0, t)) (help_loop lit command_table m)"

text \<open>The difference of two pointers is an \<open>int\<close>, and so is what \<open>ROUNDUP\<close> makes of it.\<close>

definition footprint :: "kernel_symbols \<Rightarrow> w32" where
  "footprint k = (let n = sint (ROUNDUP (sym_end k - sym_entry k) 1024)
     in word_of_int (if n < 0 then - (- n div 1024) else n div 1024))"

fun kerninfo_lines :: "(string \<times> w32) list \<Rightarrow> w32 list option" where
  "kerninfo_lines [] = Some []"
| "kerninfo_lines ((name, a) # ls) = do {
     t \<leftarrow> cprintf_text (''  '' @ name @ ''  %08x (virt)  %08x (phys)'' @ newline) [a, a - KERNBASE];
     r \<leftarrow> kerninfo_lines ls;
     Some (t @ r) }"

definition mon_kerninfo :: "kernel_symbols \<Rightarrow> (int \<times> w32 list) option" where
  "mon_kerninfo k = do {
     first \<leftarrow> cprintf_text (''Special kernel symbols:'' @ newline) [];
     start \<leftarrow> cprintf_text (''  _start                  %08x (phys)'' @ newline) [sym_start k];
     ls \<leftarrow> kerninfo_lines [(''entry'', sym_entry k), (''etext'', sym_etext k), (''edata'', sym_edata k), (''end  '', sym_end k)];
     foot \<leftarrow> cprintf_text (''Kernel executable memory footprint: %dKB'' @ newline) [footprint k];
     Some (0, first @ start @ ls @ foot) }"

text \<open>\<open>mon_backtrace\<close> prints nothing and is in no command.\<close>

definition mon_backtrace :: "int \<times> w32 list" where "mon_backtrace = (0, [])"

fun run_command :: "(string \<Rightarrow> w32) \<Rightarrow> kernel_symbols \<Rightarrow> mon_command \<Rightarrow> bytes \<Rightarrow> (int \<times> w32 list) option" where
  "run_command lit k Mon_help m = mon_help lit m"
| "run_command lit k Mon_kerninfo m = mon_kerninfo k"

subsection \<open>The interpreter\<close>

definition WHITESPACE :: string where "WHITESPACE = [CHR 0x09, CHR 0x0D, CHR 0x0A, CHR '' '']"
definition MON_MAXARGS :: nat where "MON_MAXARGS = 16"

text \<open>The blanks before a word are overwritten with NULs.\<close>

partial_function (option) gobble :: "w32 \<Rightarrow> w32 \<Rightarrow> bytes \<Rightarrow> (w32 \<times> bytes) option" where
  "gobble ws p m = do {
     c \<leftarrow> m p;
     if c = 0 then Some (p, m)
     else do {
       r \<leftarrow> strchr m ws c;
       if r \<noteq> 0 then do { m \<leftarrow> store p 0 m; gobble ws (p + 1) m } else Some (p, m) } }"

partial_function (option) word_end :: "w32 \<Rightarrow> bytes \<Rightarrow> w32 \<Rightarrow> w32 option" where
  "word_end ws m p = do {
     c \<leftarrow> m p;
     if c = 0 then Some p
     else do { r \<leftarrow> strchr m ws c; if r = 0 then word_end ws m (p + 1) else Some p } }"

text \<open>The arguments, and the memory; too many arguments are \<open>None\<close>.\<close>

partial_function (option) split_args :: "w32 \<Rightarrow> w32 \<Rightarrow> w32 list \<Rightarrow> bytes \<Rightarrow> (w32 list option \<times> bytes) option" where
  "split_args ws p argv m = do {
     (p, m) \<leftarrow> gobble ws p m;
     c \<leftarrow> m p;
     if c = 0 then Some (Some argv, m)
     else if length argv = MON_MAXARGS - 1 then Some (None, m)
     else do { q \<leftarrow> word_end ws m p; split_args ws q (argv @ [p]) m } }"

declare gobble.simps [simp del, code] word_end.simps [simp del, code] split_args.simps [simp del, code]

fun find_command ::
  "(string \<Rightarrow> w32) \<Rightarrow> bytes \<Rightarrow> w32 \<Rightarrow> (string \<times> string \<times> mon_command) list \<Rightarrow> mon_command option option" where
  "find_command lit m p [] = Some None"
| "find_command lit m p ((name, desc, f) # cs) = do {
     r \<leftarrow> strcmp m p (lit name);
     if r = 0 then Some (Some f) else find_command lit m p cs }"

definition runcmd :: "(string \<Rightarrow> w32) \<Rightarrow> kernel_symbols \<Rightarrow> w32 \<Rightarrow> bytes \<Rightarrow> (int \<times> bytes \<times> w32 list) option" where
  "runcmd lit k buf m = do {
     (args, m) \<leftarrow> split_args (lit WHITESPACE) buf [] m;
     case args of
       None \<Rightarrow> map_option (\<lambda>t. (0, m, t)) (cprintf_text (''Too many arguments (max %d)'' @ newline) [word_of_nat MON_MAXARGS])
     | Some [] \<Rightarrow> Some (0, m, [])
     | Some (p # _) \<Rightarrow> do {
         f \<leftarrow> find_command lit m p command_table;
         case f of
           Some f \<Rightarrow> map_option (\<lambda>(r, t). (r, m, t)) (run_command lit k f m)
         | None \<Rightarrow> map_option (\<lambda>t. (0, m, t)) (vprintfmt m (chars (''Unknown command '' @ [CHR 0x27] @ ''%s'' @ [CHR 0x27] @ newline) @ [0]) [p]) } }"

text \<open>One round of the loop of \<open>monitor\<close>; the last result says whether the loop ends.\<close>

definition monitor_round ::
  "('s \<Rightarrow> (int \<times> 's) option) \<Rightarrow> (string \<Rightarrow> w32) \<Rightarrow> kernel_symbols \<Rightarrow> w32 \<Rightarrow> 's \<times> bytes \<times> w32 list \<Rightarrow>
     (('s \<times> bytes \<times> w32 list) \<times> bool) option" where
  "monitor_round get lit k buf = (\<lambda>(st, m, out). do {
     (st, m, t, line) \<leftarrow> readline get buf (lit ''K> '') st m;
     if line then do {
       (r, m, t') \<leftarrow> runcmd lit k buf m;
       Some ((st, m, out @ t @ t'), r < 0) }
     else Some ((st, m, out @ t), False) })"

partial_function (option) monitor_loop ::
  "('s \<Rightarrow> (int \<times> 's) option) \<Rightarrow> (string \<Rightarrow> w32) \<Rightarrow> kernel_symbols \<Rightarrow> w32 \<Rightarrow> 's \<times> bytes \<times> w32 list \<Rightarrow> ('s \<times> bytes \<times> w32 list) option" where
  "monitor_loop get lit k buf s = do {
     (s, stop) \<leftarrow> monitor_round get lit k buf s;
     if stop then Some s else monitor_loop get lit k buf s }"

declare monitor_loop.simps [simp del, code]

text \<open>\<open>frame\<close> is what \<open>print_trapframe\<close> takes, if there is a trap frame.\<close>

definition monitor_greeting :: "(w32 \<times> w32 \<times> bool \<times> w32 \<times> trapframe) option \<Rightarrow> w32 list option" where
  "monitor_greeting frame = do {
     a \<leftarrow> cprintf_text (''Welcome to the JOS kernel monitor!'' @ newline) [];
     b \<leftarrow> cprintf_text (''Type '' @ [CHR 0x27] @ ''help'' @ [CHR 0x27] @ '' for a list of commands.'' @ newline) [];
     t \<leftarrow> (case frame of None \<Rightarrow> Some [] | Some (addr, cpu, is_last, cr2, tf) \<Rightarrow> print_trapframe addr cpu is_last cr2 tf);
     Some (a @ b @ t) }"

definition monitor ::
  "('s \<Rightarrow> (int \<times> 's) option) \<Rightarrow> (string \<Rightarrow> w32) \<Rightarrow> kernel_symbols \<Rightarrow> w32 \<Rightarrow> (w32 \<times> w32 \<times> bool \<times> w32 \<times> trapframe) option \<Rightarrow>
     's \<Rightarrow> bytes \<Rightarrow> ('s \<times> bytes \<times> w32 list) option" where
  "monitor get lit k buf frame st m = do {
     g \<leftarrow> monitor_greeting frame;
     monitor_loop get lit k buf (st, m, g) }"

end
