(* ===== verification/MonitorProps.thy ===== *)
theory MonitorProps
  imports Monitor PrintProps ConsoleProps
begin

unbundle bit_operations_syntax

text \<open>
  The line that is read is the text that was typed, with its corrections; the monitor splits it into words and answers
  with the output of the command.
\<close>

subsection \<open>Memory outside of the line\<close>

definition outside :: "w32 \<Rightarrow> w32 \<Rightarrow> bool" where
  "outside buf a \<longleftrightarrow> LINE_BUFLEN \<le> unat (a - buf)"

definition keeps :: "w32 \<Rightarrow> bytes \<Rightarrow> bytes \<Rightarrow> bool" where
  "keeps buf m m' \<longleftrightarrow> (\<forall>a. outside buf a \<longrightarrow> m' a = m a) \<and> (\<forall>a. m' a = None \<longleftrightarrow> m a = None)"

definition line_room :: "w32 \<Rightarrow> bytes \<Rightarrow> bool" where
  "line_room buf m \<longleftrightarrow> (\<forall>i<LINE_BUFLEN. m (buf + word_of_nat i) \<noteq> None)"

text \<open>A string that no line overwrites.\<close>

definition literal :: "w32 \<Rightarrow> bytes \<Rightarrow> w32 \<Rightarrow> w8 list \<Rightarrow> bool" where
  "literal buf m p s \<longleftrightarrow> cstr m p s \<and> (\<forall>i\<le>length s. p + word_of_nat i \<noteq> 0 \<and> outside buf (p + word_of_nat i))"

lemma keeps_refl: "keeps buf m m"
  by (simp add: keeps_def)

lemma keeps_trans: "keeps buf m m1 \<Longrightarrow> keeps buf m1 m2 \<Longrightarrow> keeps buf m m2"
  by (simp add: keeps_def)

lemma keeps_room: "keeps buf m m' \<Longrightarrow> line_room buf m \<Longrightarrow> line_room buf m'"
  by (simp add: keeps_def line_room_def)

lemma literal_keeps: "literal buf m p s \<Longrightarrow> keeps buf m m' \<Longrightarrow> literal buf m' p s"
  by (simp add: literal_def keeps_def cstr_def lies_def)

lemma line_offset: "i < LINE_BUFLEN \<Longrightarrow> unat (buf + word_of_nat i - buf) = i" for buf :: w32
  by (simp add: LINE_BUFLEN_def unsigned_of_nat take_bit_nat_eq_self)

lemma line_inj:
  fixes buf :: w32
  assumes "i < LINE_BUFLEN" and "j < LINE_BUFLEN"
  shows "buf + word_of_nat i = buf + word_of_nat j \<longleftrightarrow> i = j"
proof
  assume "buf + word_of_nat i = buf + word_of_nat j"
  then have "unat (buf + word_of_nat i - buf) = unat (buf + word_of_nat j - buf)" by (simp only:)
  then show "i = j" unfolding line_offset [OF assms(1)] line_offset [OF assms(2)] .
qed simp

lemma keeps_store: "i < LINE_BUFLEN \<Longrightarrow> line_room buf m \<Longrightarrow> keeps buf m (m(buf + word_of_nat i \<mapsto> b))"
  using line_offset [of i buf] by (auto simp: keeps_def outside_def line_room_def)

lemma lies_snoc:
  assumes "length l < LINE_BUFLEN" and "lies m buf l"
  shows "lies (m(buf + word_of_nat (length l) \<mapsto> c)) buf (l @ [c])"
  unfolding lies_def
proof (intro allI impI)
  fix i assume "i < length (l @ [c])"
  then have "i = length l \<or> i < length l" by auto
  then show "(m(buf + word_of_nat (length l) \<mapsto> c)) (buf + word_of_nat i) = Some ((l @ [c]) ! i)"
    using assms line_inj [of i "length l" buf] by (auto simp: lies_def nth_append)
qed

subsection \<open>Reading a line\<close>

definition edit :: "w8 list \<Rightarrow> w8 \<Rightarrow> w8 list" where
  "edit l c = (if (c = 8 \<or> c = 0x7F) \<and> l \<noteq> [] then butlast l
     else if 32 \<le> c \<and> length l < 1023 then l @ [c] else l)"

fun echoes :: "w8 list \<Rightarrow> w8 list \<Rightarrow> w32 list" where
  "echoes l [] = []"
| "echoes l (c # cs) = (if (c = 8 \<or> c = 0x7F) \<and> l \<noteq> [] then [8]
     else if 32 \<le> c \<and> length l < 1023 then [ucast c] else []) @ echoes (edit l c) cs"

definition typed :: "w8 list \<Rightarrow> w8 list" where "typed keys = foldl edit [] keys"

text \<open>The characters that \<open>get\<close> gives one after the other.\<close>

fun feeds :: "('s \<Rightarrow> (int \<times> 's) option) \<Rightarrow> 's \<Rightarrow> w8 list \<Rightarrow> 's \<Rightarrow> bool" where
  "feeds get st [] st' \<longleftrightarrow> st = st'"
| "feeds get st (c # cs) st' \<longleftrightarrow> (case get st of None \<Rightarrow> False | Some (x, st1) \<Rightarrow> x = uint c \<and> feeds get st1 cs st')"

lemma feeds_append: "feeds get st (a @ b) st' \<longleftrightarrow> (\<exists>st1. feeds get st a st1 \<and> feeds get st1 b st')"
  by (induction a arbitrary: st) (auto split: option.splits)

lemma edit_ok: "0 \<notin> set l \<Longrightarrow> length l \<le> 1023 \<Longrightarrow> 0 \<notin> set (edit l c) \<and> length (edit l c) \<le> 1023"
  by (auto simp: edit_def dest: in_set_butlastD)

lemma uint_consts: "uint c = 8 \<longleftrightarrow> c = 8" "uint c = 127 \<longleftrightarrow> c = 127" "uint c = 10 \<longleftrightarrow> c = 10" "uint c = 13 \<longleftrightarrow> c = 13"
  "32 \<le> uint c \<longleftrightarrow> 32 \<le> c" "\<not> uint c < 0" for c :: w8
  by (simp_all add: word_uint_eq_iff word_le_def)

lemma readline_loop_ok:
  assumes "feeds get st (keys @ [e]) st'" and "e = 10 \<or> e = 13" and "\<And>c. c \<in> set keys \<Longrightarrow> c \<noteq> 10 \<and> c \<noteq> 13"
    and "line_room buf m" and "lies m buf l" and "0 \<notin> set l" and "length l \<le> 1023"
  shows "\<exists>m'. readline_loop get True buf (length l) st m out = Some (st', m', out @ echoes l keys @ [10], True) \<and>
     cstr m' buf (foldl edit l keys) \<and> keeps buf m m'"
  using assms(1,3-7)
proof (induction keys arbitrary: st m l out)
  case Nil
  have len: "length l < LINE_BUFLEN" using Nil.prems(6) by (simp add: LINE_BUFLEN_def)
  obtain y where y: "m (buf + word_of_nat (length l)) = Some y" using Nil.prems(3) len by (auto simp: line_room_def)
  have g: "get st = Some (uint e, st')" using Nil.prems(1) by (auto split: option.splits)
  have "cstr (m(buf + word_of_nat (length l) \<mapsto> 0)) buf l" using lies_snoc [OF len Nil.prems(4)] Nil.prems(5) by (simp add: cstr_def)
  moreover have "readline_loop get True buf (length l) st m out =
      Some (st', m(buf + word_of_nat (length l) \<mapsto> 0), out @ [10], True)"
    using g y assms(2) by (subst readline_loop.simps) (auto simp: uint_consts store_def)
  ultimately show ?case using keeps_store [OF len Nil.prems(3)] by auto
next
  case (Cons c keys)
  have c: "c \<noteq> 10" "c \<noteq> 13" using Cons.prems(2) [of c] by simp_all
  obtain st1 where g: "get st = Some (uint c, st1)" "feeds get st1 (keys @ [e]) st'"
    using Cons.prems(1) by (auto split: option.splits)
  have rest: "\<And>c. c \<in> set keys \<Longrightarrow> c \<noteq> 10 \<and> c \<noteq> 13" using Cons.prems(2) by simp
  have step: "\<exists>m'. readline_loop get True buf (length (edit l c)) st1 m1 out1 =
        Some (st', m', out1 @ echoes (edit l c) keys @ [10], True) \<and> cstr m' buf (foldl edit (edit l c) keys) \<and> keeps buf m1 m'"
    if "line_room buf m1" "lies m1 buf (edit l c)" for m1 out1
    using Cons.IH [OF g(2) rest that] edit_ok [OF Cons.prems(5,6)] by blast
  consider (erase) "c = 8 \<or> c = 127" "l \<noteq> []" | (add) "\<not> ((c = 8 \<or> c = 127) \<and> l \<noteq> [])" "32 \<le> c" "length l < 1023"
    | (ignore) "\<not> ((c = 8 \<or> c = 127) \<and> l \<noteq> [])" "\<not> (32 \<le> c \<and> length l < 1023)" by blast
  then show ?case
  proof cases
    case erase
    have ed: "edit l c = butlast l" using erase by (simp add: edit_def)
    have "lies m buf (edit l c)" unfolding ed using Cons.prems(4) by (auto simp: lies_def nth_butlast)
    moreover have "length (edit l c) = length l - 1" unfolding ed by simp
    ultimately show ?thesis using step [OF Cons.prems(3), of "out @ [8]"]
      unfolding readline_loop.simps [of get True buf "length l" st] using erase g(1) by (auto simp: uint_consts)
  next
    case add
    have len: "length l < LINE_BUFLEN" using add(3) by (simp add: LINE_BUFLEN_def)
    have ed: "edit l c = l @ [c]" using add by (auto simp: edit_def)
    obtain y where y: "m (buf + word_of_nat (length l)) = Some y" using Cons.prems(3) len by (auto simp: line_room_def)
    let ?m1 = "m(buf + word_of_nat (length l) \<mapsto> c)"
    have k: "keeps buf m ?m1" by (rule keeps_store [OF len Cons.prems(3)])
    have "lies ?m1 buf (edit l c)" unfolding ed by (rule lies_snoc [OF len Cons.prems(4)])
    from step [OF keeps_room [OF k Cons.prems(3)] this, of "out @ [ucast c]"]
    obtain m' where m': "readline_loop get True buf (Suc (length l)) st1 ?m1 (out @ [ucast c]) =
        Some (st', m', (out @ [ucast c]) @ echoes (edit l c) keys @ [10], True)"
      "cstr m' buf (foldl edit (edit l c) keys)" "keeps buf ?m1 m'" unfolding ed by auto
    have "readline_loop get True buf (length l) st m out = readline_loop get True buf (Suc (length l)) st1 ?m1 (out @ [ucast c])"
      using add g(1) y by (subst readline_loop.simps) (auto simp: uint_consts store_def LINE_BUFLEN_def word_of_int_uint)
    then show ?thesis using m' keeps_trans [OF k m'(3)] add by auto
  next
    case ignore
    have ed: "edit l c = l" using ignore by (auto simp: edit_def)
    have "readline_loop get True buf (length l) st m out = readline_loop get True buf (length l) st1 m out"
      using ignore c g(1) by (subst readline_loop.simps) (auto simp: uint_consts LINE_BUFLEN_def)
    moreover have "echoes l (c # keys) = echoes l keys"
      unfolding echoes.simps ed using ignore by (simp only: if_not_P append_Nil if_False)
    moreover have "foldl edit l (c # keys) = foldl edit l keys" by (simp only: foldl_Cons ed)
    ultimately show ?thesis using step [of m out] Cons.prems(3,4) unfolding ed by (simp only:)
  qed
qed

lemma readline_ok:
  assumes "feeds get st (keys @ [e]) st'" and "e = 10 \<or> e = 13" and "\<And>c. c \<in> set keys \<Longrightarrow> c \<noteq> 10 \<and> c \<noteq> 13"
    and "line_room buf m"
  shows "\<exists>m'. readline_loop get True buf 0 st m out = Some (st', m', out @ echoes [] keys @ [10], True) \<and>
     cstr m' buf (typed keys) \<and> length (typed keys) \<le> 1023 \<and> keeps buf m m'"
proof -
  have "0 \<notin> set l \<Longrightarrow> length l \<le> 1023 \<Longrightarrow> length (foldl edit l ks) \<le> 1023" for l ks
    by (induction ks arbitrary: l) (use edit_ok in auto)
  then show ?thesis using readline_loop_ok [OF assms, of "[]"] by (auto simp: typed_def)
qed

text \<open>Text without corrections is read as it is, up to the size of the buffer.\<close>

lemma typed_text:
  assumes "\<And>c. c \<in> set keys \<Longrightarrow> 32 \<le> c \<and> c \<noteq> 0x7F"
  shows "typed keys = take 1023 keys"
proof -
  have "length l \<le> 1023 \<Longrightarrow> foldl edit l keys = l @ take (1023 - length l) keys" for l
    using assms
  proof (induction keys arbitrary: l)
    case (Cons c keys)
    have c: "32 \<le> c" "c \<noteq> 0x7F" using Cons.prems(2) [of c] by simp_all
    then have "c \<noteq> 8" by auto
    with c have "edit l c = (if length l < 1023 then l @ [c] else l)" by (simp add: edit_def)
    then show ?case using Cons.IH [of "edit l c"] Cons.prems by (auto simp: take_Cons' Suc_diff_Suc)
  qed simp
  from this [of "[]"] show ?thesis by (simp add: typed_def)
qed

subsection \<open>Splitting a line\<close>

definition blank :: "w8 \<Rightarrow> bool" where "blank c \<longleftrightarrow> c \<in> set (chars WHITESPACE)"

function line_words :: "w8 list \<Rightarrow> w8 list list" where
  "line_words l = (let s = dropWhile blank l in
     if s = [] then [] else takeWhile (\<lambda>c. \<not> blank c) s # line_words (dropWhile (\<lambda>c. \<not> blank c) s))"
  by pat_completeness auto

lemma dropWhile_shorter: "length (dropWhile P l) \<le> length l"
  by (induction l) auto

termination line_words
proof (relation "measure length")
  fix l and s :: "w8 list" assume s: "s = dropWhile blank l" "s \<noteq> []"
  then have "\<not> blank (hd s)" using hd_dropWhile [of blank l] by simp
  then have "length (dropWhile (\<lambda>c. \<not> blank c) s) < length s" using s(2) dropWhile_shorter [of "\<lambda>c. \<not> blank c" "tl s"]
    by (cases s) (auto simp: less_Suc_eq_le)
  then show "(dropWhile (\<lambda>c. \<not> blank c) s, l) \<in> measure length" using dropWhile_shorter [of blank l] s(1) by simp
qed simp

declare line_words.simps [simp del]

lemma strchr_blank:
  assumes "literal buf m ws (chars WHITESPACE)" and "c \<noteq> 0"
  shows "\<exists>r. strchr m ws c = Some r \<and> (r \<noteq> 0 \<longleftrightarrow> blank c)"
proof -
  have "length (takeWhile (\<lambda>x. x \<noteq> c) (chars WHITESPACE)) \<le> length (chars WHITESPACE)" by (rule length_takeWhile_le)
  then show ?thesis using strchr_cstr [of m ws "chars WHITESPACE" c] assms by (auto simp: literal_def blank_def)
qed

text \<open>Only bytes of the line from position \<open>k\<close> on have changed, and they are NUL now.\<close>

definition cleared :: "w32 \<Rightarrow> nat \<Rightarrow> bytes \<Rightarrow> bytes \<Rightarrow> bool" where
  "cleared buf k m m' \<longleftrightarrow> (\<forall>a. m' a = m a \<or> k \<le> unat (a - buf) \<and> unat (a - buf) < LINE_BUFLEN \<and> m a \<noteq> None \<and> m' a = Some 0)"

lemma cleared_refl: "cleared buf k m m"
  by (simp add: cleared_def)

lemma clearedD:
  "cleared buf k m m' \<Longrightarrow> m' a = m a \<or> k \<le> unat (a - buf) \<and> unat (a - buf) < LINE_BUFLEN \<and> m a \<noteq> None \<and> m' a = Some 0"
  by (simp add: cleared_def)

lemma cleared_trans:
  assumes "cleared buf k m m1" and "cleared buf k' m1 m2" and "k \<le> k'"
  shows "cleared buf k m m2"
  unfolding cleared_def
proof
  fix a
  show "m2 a = m a \<or> k \<le> unat (a - buf) \<and> unat (a - buf) < LINE_BUFLEN \<and> m a \<noteq> None \<and> m2 a = Some 0"
    using clearedD [OF assms(1), of a] clearedD [OF assms(2), of a] assms(3) by (cases "m1 a = m a") auto
qed

lemma cleared_keeps:
  assumes "cleared buf k m m'"
  shows "keeps buf m m'"
proof -
  have "m' a = m a" if "outside buf a" for a using clearedD [OF assms, of a] that by (auto simp: outside_def)
  moreover have "m' a = None \<longleftrightarrow> m a = None" for a using clearedD [OF assms, of a] by auto
  ultimately show ?thesis by (simp add: keeps_def)
qed

lemma cleared_before:
  assumes "cleared buf k m m'" and "i < k" and "k < LINE_BUFLEN"
  shows "m' (buf + word_of_nat i) = m (buf + word_of_nat i)"
  using clearedD [OF assms(1), of "buf + word_of_nat i"] line_offset [of i buf] assms(2,3) by auto

lemma cleared_zero: "cleared buf k m m' \<Longrightarrow> m a = Some 0 \<Longrightarrow> m' a = Some 0"
  using clearedD [of buf k m m' a] by auto

lemma gobble_ok:
  assumes "cstr m (buf + word_of_nat k) s" and "k + length s < LINE_BUFLEN" and "literal buf m ws (chars WHITESPACE)"
  shows "\<exists>m' b. gobble ws (buf + word_of_nat k) m = Some (buf + word_of_nat (k + b), m') \<and> b + length (dropWhile blank s) = length s \<and>
     cstr m' (buf + word_of_nat (k + b)) (dropWhile blank s) \<and> cleared buf k m m' \<and>
     (s = [] \<or> blank (hd s) \<longrightarrow> m' (buf + word_of_nat k) = Some 0)"
  using assms
proof (induction s arbitrary: k m)
  case Nil
  then show ?case by (intro exI [of _ m] exI [of _ 0]) (subst gobble.simps, simp add: cleared_refl)
next
  case (Cons c s)
  have c: "c \<noteq> 0" "m (buf + word_of_nat k) = Some c" "cstr m (buf + word_of_nat (Suc k)) s"
    using Cons.prems(1) by (simp_all add: algebra_simps)
  have k: "k < LINE_BUFLEN" using Cons.prems(2) by simp
  obtain r where r: "strchr m ws c = Some r" "r \<noteq> 0 \<longleftrightarrow> blank c" using strchr_blank [OF Cons.prems(3) c(1)] by auto
  show ?case
  proof (cases "blank c")
    case False
    then show ?thesis using c r Cons.prems(1)
      by (intro exI [of _ m] exI [of _ 0]) (subst gobble.simps, simp add: cleared_refl)
  next
    case True
    let ?m1 = "m(buf + word_of_nat k \<mapsto> 0)"
    have cl: "cleared buf k m ?m1" using line_offset [OF k, of buf] k c(2) by (simp add: cleared_def)
    have str: "cstr ?m1 (buf + word_of_nat (Suc k)) s"
    proof -
      have "buf + word_of_nat (Suc k) + word_of_nat i \<noteq> buf + word_of_nat k" if "i \<le> length s" for i
        using line_inj [of "Suc k + i" k buf] that Cons.prems(2) by (simp add: algebra_simps)
      then show ?thesis using c(3) by (simp add: cstr_def lies_def)
    qed
    have len: "Suc k + length s < LINE_BUFLEN" using Cons.prems(2) by simp
    obtain m' b where m': "gobble ws (buf + word_of_nat (Suc k)) ?m1 = Some (buf + word_of_nat (Suc k + b), m')"
      "b + length (dropWhile blank s) = length s" "cstr m' (buf + word_of_nat (Suc k + b)) (dropWhile blank s)"
      "cleared buf (Suc k) ?m1 m'"
      using Cons.IH [OF str len literal_keeps [OF Cons.prems(3) cleared_keeps [OF cl]]] by blast
    have "gobble ws (buf + word_of_nat k) m = gobble ws (buf + word_of_nat (Suc k)) ?m1"
      using True c r by (subst gobble.simps) (simp add: store_def algebra_simps)
    moreover have "m' (buf + word_of_nat k) = Some 0" by (rule cleared_zero [OF m'(4)]) simp
    ultimately show ?thesis using m' True cleared_trans [OF cl m'(4)]
      by (intro exI [of _ m'] exI [of _ "Suc b"]) simp
  qed
qed

lemma word_end_ok:
  assumes "cstr m p s" and "literal buf m ws (chars WHITESPACE)"
  shows "word_end ws m p = Some (p + word_of_nat (length (takeWhile (\<lambda>c. \<not> blank c) s)))"
  using assms(1)
proof (induction s arbitrary: p)
  case Nil
  then show ?case by (subst word_end.simps) simp
next
  case (Cons c s)
  have c: "c \<noteq> 0" "m p = Some c" "cstr m (p + 1) s" using Cons.prems by simp_all
  obtain r where r: "strchr m ws c = Some r" "r \<noteq> 0 \<longleftrightarrow> blank c" using strchr_blank [OF assms(2) c(1)] by auto
  show ?case using Cons.IH [OF c(3)] c(1,2) r by (subst word_end.simps) (auto simp: algebra_simps)
qed

lemma cstr_drop: "cstr m p (a @ b) \<Longrightarrow> cstr m (p + word_of_nat (length a)) b"
proof (induction a arbitrary: p)
  case (Cons x a)
  then show ?case using Cons.IH [of "p + 1"] by (simp add: add.assoc)
qed simp

text \<open>The words of the rest of the line, from position \<open>k\<close> on, follow the arguments already found.\<close>

lemma split_args_ok:
  assumes "cstr m (buf + word_of_nat k) s" and "k + length s < LINE_BUFLEN" and "literal buf m ws (chars WHITESPACE)"
    and "length argv \<le> 15"
  shows "\<exists>m' ps. split_args ws (buf + word_of_nat k) argv m =
       Some (if length argv + length (line_words s) \<le> 15 then Some (argv @ ps) else None, m') \<and>
     (length argv + length (line_words s) \<le> 15 \<longrightarrow> list_all2 (cstr m') ps (line_words s)) \<and>
     (\<forall>p\<in>set ps. \<exists>i<LINE_BUFLEN. p = buf + word_of_nat i) \<and> cleared buf k m m' \<and>
     (s = [] \<or> blank (hd s) \<longrightarrow> m' (buf + word_of_nat k) = Some 0)"
  using assms
proof (induction s arbitrary: k m argv rule: line_words.induct)
  case (1 s)
  let ?s1 = "dropWhile blank s" and ?word = "\<lambda>c. \<not> blank c"
  obtain m1 b where g: "gobble ws (buf + word_of_nat k) m = Some (buf + word_of_nat (k + b), m1)"
    "b + length ?s1 = length s" "cstr m1 (buf + word_of_nat (k + b)) ?s1" "cleared buf k m m1"
    "s = [] \<or> blank (hd s) \<longrightarrow> m1 (buf + word_of_nat k) = Some 0"
    using gobble_ok [OF "1.prems"(1-3)] by blast
  show ?case
  proof (cases "?s1 = []")
    case True
    then have "m1 (buf + word_of_nat (k + b)) = Some 0" using g(3) unfolding True by simp
    moreover have "line_words s = []" using True by (subst line_words.simps) simp
    ultimately show ?thesis using g "1.prems"(4)
      by (intro exI [of _ m1] exI [of _ "[]"]) (subst split_args.simps, simp)
  next
    case False
    let ?w = "takeWhile ?word ?s1" and ?r = "dropWhile ?word ?s1"
    let ?q = "k + b + length ?w"
    have words: "line_words s = ?w # line_words ?r" using False by (subst line_words.simps) (simp add: Let_def)
    have split: "?s1 = ?w @ ?r" by simp
    have len: "length ?s1 = length ?w + length ?r" using arg_cong [OF split, of length] by (simp only: length_append)
    obtain c where c: "m1 (buf + word_of_nat (k + b)) = Some c" "c \<noteq> 0" using g(3) False by (cases ?s1) auto
    have lit: "literal buf m1 ws (chars WHITESPACE)" by (rule literal_keeps [OF "1.prems"(3) cleared_keeps [OF g(4)]])
    have step: "split_args ws (buf + word_of_nat k) argv m = (if length argv = 15 then Some (None, m1)
        else split_args ws (buf + word_of_nat ?q) (argv @ [buf + word_of_nat (k + b)]) m1)"
      using g(1) c word_end_ok [OF g(3) lit]
      by (subst split_args.simps) (simp add: MON_MAXARGS_def add.assoc)
    show ?thesis
    proof (cases "length argv = 15")
      case full: True
      then show ?thesis using step g(4,5) words by (intro exI [of _ m1] exI [of _ "[]"]) simp
    next
      case room: False
      have "cstr m1 (buf + word_of_nat ?q) ?r"
      proof -
        have "cstr m1 (buf + word_of_nat (k + b)) (?w @ ?r)" using g(3) unfolding split [symmetric] .
        from cstr_drop [OF this] show ?thesis by (simp add: add.assoc)
      qed
      moreover have q: "?q + length ?r < LINE_BUFLEN" using "1.prems"(2) g(2) len by simp
      moreover have "length (argv @ [buf + word_of_nat (k + b)]) \<le> 15" using room "1.prems"(4) by simp
      ultimately obtain m' ps where ih: "split_args ws (buf + word_of_nat ?q) (argv @ [buf + word_of_nat (k + b)]) m1 =
          Some (if length (argv @ [buf + word_of_nat (k + b)]) + length (line_words ?r) \<le> 15
            then Some ((argv @ [buf + word_of_nat (k + b)]) @ ps) else None, m')"
        "length (argv @ [buf + word_of_nat (k + b)]) + length (line_words ?r) \<le> 15 \<longrightarrow> list_all2 (cstr m') ps (line_words ?r)"
        "\<forall>p\<in>set ps. \<exists>i<LINE_BUFLEN. p = buf + word_of_nat i" "cleared buf ?q m1 m'"
        "?r = [] \<or> blank (hd ?r) \<longrightarrow> m' (buf + word_of_nat ?q) = Some 0"
        using "1.IH" [OF refl False _ _ lit] by blast
      have "?r = [] \<or> blank (hd ?r)" using hd_dropWhile [of ?word ?s1] by blast
      then have zero: "m' (buf + word_of_nat ?q) = Some 0" using ih(5) by blast
      have "cstr m' (buf + word_of_nat (k + b)) ?w"
        unfolding cstr_def lies_def
      proof (intro conjI allI impI)
        show "0 \<notin> set ?w" using g(3) by (auto simp: cstr_def dest: set_takeWhileD)
        fix i assume i: "i < length (?w @ [0])"
        show "m' (buf + word_of_nat (k + b) + word_of_nat i) = Some ((?w @ [0]) ! i)"
        proof (cases "i = length ?w")
          case True
          then show ?thesis using zero by (simp add: add.assoc)
        next
          case False
          then have lt: "i < length ?w" using i by simp
          have "m' (buf + word_of_nat (k + b + i)) = m1 (buf + word_of_nat (k + b + i))"
            by (rule cleared_before [OF ih(4)]) (use lt q in simp_all)
          moreover have "m1 (buf + word_of_nat (k + b) + word_of_nat i) = Some ((?s1 @ [0]) ! i)"
            using g(3) lt len unfolding cstr_def lies_def by simp
          moreover have "(?s1 @ [0]) ! i = (?w @ [0]) ! i"
            using lt len split by (simp add: nth_append takeWhile_nth)
          ultimately show ?thesis by (simp add: add.assoc)
        qed
      qed
      moreover have "cleared buf k m m'" by (rule cleared_trans [OF g(4) ih(4)]) simp
      moreover have "s = [] \<or> blank (hd s) \<longrightarrow> m' (buf + word_of_nat k) = Some 0" using g(5) cleared_zero [OF ih(4)] by blast
      moreover have "k + b < LINE_BUFLEN" using q by simp
      ultimately show ?thesis using step ih(1-3) room words
        by (intro exI [of _ m'] exI [of _ "(buf + word_of_nat (k + b)) # ps"]) (auto simp del: of_nat_add)
    qed
  qed
qed

subsection \<open>The output of the commands\<close>

lemma put_unlimited_cstr: "cstr m p s \<Longrightarrow> put_unlimited m p = Some s"
proof (induction s arbitrary: p)
  case Nil
  then show ?case by (subst put_unlimited.simps) simp
next
  case (Cons b s)
  then show ?case by (subst put_unlimited.simps) simp
qed

lemma shown_all [simp]: "map (shown False) s = s"
  by (induction s) (simp_all add: shown_def)

lemma conversion_s:
  assumes "cstr m p s" and "p \<noteq> 0"
  shows "conversion m (0x73 # rest) (p # args) = Some (map scast s, rest, args)"
  using put_unlimited_cstr [OF assms(1)] assms(2)
  by (simp add: conversion_def no_flags_def is_digit_def va_int_def format_string_def arg_chars_def pads_def)

text \<open>The literals and the static buffer of \<open>readline\<close>; the buffer does not wrap around.\<close>

definition monitor_literals :: "string list" where
  "monitor_literals = [''K> '', WHITESPACE, ''help'', ''Display this list of commands'', ''kerninfo'',
     ''Display information about the kernel'']"

definition monitor_memory :: "(string \<Rightarrow> w32) \<Rightarrow> w32 \<Rightarrow> bytes \<Rightarrow> bool" where
  "monitor_memory lit buf m \<longleftrightarrow> line_room buf m \<and> (\<forall>i<LINE_BUFLEN. buf + word_of_nat i \<noteq> 0) \<and>
     (\<forall>s\<in>set monitor_literals. literal buf m (lit s) (chars s))"

lemma monitor_memoryD:
  assumes "monitor_memory lit buf m" and "s \<in> set monitor_literals"
  shows "literal buf m (lit s) (chars s)" and "cstr m (lit s) (chars s)" and "lit s \<noteq> 0"
proof -
  show l: "literal buf m (lit s) (chars s)" using assms by (simp add: monitor_memory_def)
  then show "cstr m (lit s) (chars s)" by (simp add: literal_def)
  show "lit s \<noteq> 0" using l spec [of _ 0] unfolding literal_def by fastforce
qed

lemma monitor_memory_keeps: "monitor_memory lit buf m \<Longrightarrow> keeps buf m m' \<Longrightarrow> monitor_memory lit buf m'"
  by (auto simp: monitor_memory_def intro: keeps_room literal_keeps)

lemma in_literals: "''K> '' \<in> set monitor_literals" "WHITESPACE \<in> set monitor_literals" "''help'' \<in> set monitor_literals"
  "''Display this list of commands'' \<in> set monitor_literals" "''kerninfo'' \<in> set monitor_literals"
  "''Display information about the kernel'' \<in> set monitor_literals"
  by (simp_all add: monitor_literals_def)

definition help_text :: "w32 list" where
  "help_text = plain (''help - Display this list of commands'' @ newline @
     ''kerninfo - Display information about the kernel'' @ newline)"

definition unknown_text :: "w8 list \<Rightarrow> w32 list" where
  "unknown_text w = plain (''Unknown command '' @ [CHR 0x27]) @ map scast w @ plain ([CHR 0x27] @ newline)"

definition too_many_text :: "w32 list" where
  "too_many_text = plain (''Too many arguments (max 16)'' @ newline)"

lemma help_ok:
  assumes "monitor_memory lit buf m"
  shows "mon_help lit m = Some (0, help_text)"
proof -
  note lits = in_literals(3-6) [THEN monitor_memoryD(2) [OF assms]] in_literals(3-6) [THEN monitor_memoryD(3) [OF assms]]
  show ?thesis
    by (simp add: mon_help_def command_table_def chars_def newline_def conversion_s [OF lits(1) lits(5)] 
      conversion_s [OF lits(2) lits(6)] conversion_s [OF lits(3) lits(7)] conversion_s [OF lits(4) lits(8)])
      (simp add: help_text_def plain_def chars_def newline_def asc_def)
qed

lemma unknown_ok:
  assumes "cstr m p w" and "p \<noteq> 0"
  shows "vprintfmt m (chars (''Unknown command '' @ [CHR 0x27] @ ''%s'' @ [CHR 0x27] @ newline) @ [0]) [p] = Some (unknown_text w)"
  by (simp add: chars_def newline_def asc_def conversion_s [OF assms])
    (simp add: unknown_text_def plain_def chars_def newline_def asc_def)

lemma conversion_d: "conversion m (0x64 # rest) (w # args) = Some (map ucast (decimal (sint w)), rest, args)"
proof -
  let ?x = "scast w :: 64 word"
  have "printnum (if sint ?x < 0 then - ?x else ?x) 10 (- 1) 0x20 = Some (map dchar (base_digits 10 (nat \<bar>sint w\<bar>)))"
    using printnum_spec [of 10 "if sint ?x < 0 then - ?x else ?x" "- 1" "0x20"]
    unfolding unat_abs by (simp add: sint_scast_64 pads_def)
  then show ?thesis by (simp add: conversion_def no_flags_def is_digit_def sint_scast_64 decimal_def)
qed

definition hex8 :: "w32 \<Rightarrow> w8 list" where
  "hex8 w = replicate (8 - length (base_digits 16 (unat w))) 0x30 @ map dchar (base_digits 16 (unat w))"

lemma conversion_08x: "conversion m (0x30 # 0x38 # 0x78 # rest) (w # args) = Some (map ucast (hex8 w), rest, args)"
proof -
  have u: "unat (ucast w :: 64 word) = unat w" using unat_bound [of w] by (simp add: unsigned_ucast_eq take_bit_nat_eq_self)
  have "printnum (ucast w) 16 8 0x30 = Some (hex8 w)"
    using printnum_spec [of 16 "ucast w" 8 "0x30"] unfolding u by (simp add: pads_def hex8_def nat_diff_distrib')
  then show ?thesis by (simp add: conversion_def no_flags_def is_digit_def in_int_def process_precision_def)
qed

lemma too_many_ok: "cprintf_text (''Too many arguments (max %d)'' @ newline) [word_of_nat MON_MAXARGS] = Some too_many_text"
proof -
  have "base_digits 10 16 = [1, 6]" by (simp add: base_digits.simps)
  then have "decimal 16 = [0x31, 0x36]" by (simp add: decimal_def dchar_def hex_digits_def asc_def)
  then show ?thesis
    by (simp add: cprintf_text_def chars_def newline_def conversion_d MON_MAXARGS_def asc_def)
      (simp add: too_many_text_def plain_def chars_def newline_def asc_def)
qed

lemmas too_many = too_many_ok [simplified]

definition symbol_text :: "string \<Rightarrow> w32 \<Rightarrow> w32 list" where
  "symbol_text name a = plain (''  '' @ name @ ''  '') @ map ucast (hex8 a) @ plain '' (virt)  '' @ map ucast (hex8 (a - KERNBASE)) @
     plain ('' (phys)'' @ newline)"

definition kerninfo_text :: "kernel_symbols \<Rightarrow> w32 list" where
  "kerninfo_text k = plain (''Special kernel symbols:'' @ newline) @
     plain ''  _start                  '' @ map ucast (hex8 (sym_start k)) @ plain ('' (phys)'' @ newline) @
     symbol_text ''entry'' (sym_entry k) @ symbol_text ''etext'' (sym_etext k) @ symbol_text ''edata'' (sym_edata k) @
     symbol_text ''end  '' (sym_end k) @
     plain ''Kernel executable memory footprint: '' @ map ucast (decimal (sint (footprint k))) @ plain (''KB'' @ newline)"

lemma kerninfo_ok: "mon_kerninfo k = Some (0, kerninfo_text k)"
proof -
  have "cprintf_text (''Special kernel symbols:'' @ newline) [] = Some (plain (''Special kernel symbols:'' @ newline))"
    by (simp add: cprintf_text_def plain_def chars_def newline_def asc_def)
  moreover have "cprintf_text (''  _start                  %08x (phys)'' @ newline) [a] =
      Some (plain ''  _start                  '' @ map ucast (hex8 a) @ plain ('' (phys)'' @ newline))" for a
    by (simp add: cprintf_text_def chars_def newline_def conversion_08x asc_def) (simp add: plain_def chars_def newline_def asc_def)
  moreover have "cprintf_text (''Kernel executable memory footprint: %dKB'' @ newline) [a] =
      Some (plain ''Kernel executable memory footprint: '' @ map ucast (decimal (sint a)) @ plain (''KB'' @ newline))" for a
    by (simp add: cprintf_text_def chars_def newline_def conversion_d asc_def) (simp add: plain_def chars_def newline_def asc_def)
  moreover have "cprintf_text (''  '' @ name @ ''  %08x (virt)  %08x (phys)'' @ newline) [a, a - KERNBASE] = Some (symbol_text name a)"
    if "name \<in> {''entry'', ''etext'', ''edata'', ''end  ''}" for name a
    using that by (elim insertE emptyE)
     (simp_all add: cprintf_text_def chars_def newline_def conversion_08x asc_def symbol_text_def plain_def)
  ultimately show ?thesis by (simp add: mon_kerninfo_def kerninfo_text_def del: append.simps)
qed

lemma strcmp_cstr:
  assumes "cstr m p s" and "cstr m q t"
  shows "\<exists>r. strcmp m p q = Some r \<and> (r = 0 \<longleftrightarrow> s = t)"
  using assms
proof (induction s arbitrary: p q t)
  case Nil
  then show ?case by (cases t) (simp_all add: strcmp.simps [of m p q])
next
  case (Cons b s)
  then show ?case by (cases t) (auto simp: strcmp.simps [of m p q])
qed

definition named_command :: "w8 list \<Rightarrow> mon_command option" where
  "named_command w = (if w = chars ''help'' then Some Mon_help else if w = chars ''kerninfo'' then Some Mon_kerninfo else None)"

lemma find_command_ok:
  assumes mem: "monitor_memory lit buf m" and w: "cstr m p w"
  shows "find_command lit m p command_table = Some (named_command w)"
proof -
  obtain r1 r2 where "strcmp m p (lit ''help'') = Some r1" "r1 = 0 \<longleftrightarrow> w = chars ''help''"
    "strcmp m p (lit ''kerninfo'') = Some r2" "r2 = 0 \<longleftrightarrow> w = chars ''kerninfo''"
    using strcmp_cstr [OF w monitor_memoryD(2) [OF mem in_literals(3)]] strcmp_cstr [OF w monitor_memoryD(2) [OF mem in_literals(5)]]
    by blast
  then show ?thesis by (simp add: command_table_def named_command_def)
qed

subsection \<open>The answers\<close>

definition answer :: "kernel_symbols \<Rightarrow> w8 list list \<Rightarrow> w32 list" where
  "answer k ws =
     (case ws of
        [] \<Rightarrow> []
      | w # _ \<Rightarrow>
          if length ws > 15 then too_many_text
          else case named_command w of
            Some Mon_help \<Rightarrow> help_text
          | Some Mon_kerninfo \<Rightarrow> kerninfo_text k
          | None \<Rightarrow> unknown_text w)"

lemma runcmd_ok:
  assumes mem: "monitor_memory lit buf m" and line: "cstr m buf s" "length s \<le> 1023"
  shows "\<exists>m'. runcmd lit k buf m = Some (0, m', answer k (line_words s)) \<and> keeps buf m m'"
proof -
  let ?ws = "line_words s"
  have "cstr m (buf + word_of_nat 0) s" "0 + length s < LINE_BUFLEN" using line by (simp_all add: LINE_BUFLEN_def)
  from split_args_ok [OF this monitor_memoryD(1) [OF mem in_literals(2)], of "[]"]
  obtain m' ps where sp: "split_args (lit WHITESPACE) buf [] m = Some (if length ?ws \<le> 15 then Some ps else None, m')"
    "length ?ws \<le> 15 \<longrightarrow> list_all2 (cstr m') ps ?ws" "\<forall>p\<in>set ps. \<exists>i<LINE_BUFLEN. p = buf + word_of_nat i" "cleared buf 0 m m'"
    by auto
  have k: "keeps buf m m'" by (rule cleared_keeps [OF sp(4)])
  have mem': "monitor_memory lit buf m'" by (rule monitor_memory_keeps [OF mem k])
  show ?thesis
  proof (cases "length ?ws \<le> 15")
    case False
    then have "answer k ?ws = too_many_text" by (cases ?ws) (simp_all add: answer_def)
    then show ?thesis using sp(1) False k by (simp add: runcmd_def too_many)
  next
    case True
    then have all: "list_all2 (cstr m') ps ?ws" using sp(2) by simp
    show ?thesis
    proof (cases ps)
      case Nil
      then show ?thesis using all sp(1) True k by (simp add: runcmd_def answer_def)
    next
      case (Cons p ps')
      then obtain w ws' where w: "?ws = w # ws'" "cstr m' p w" using all by (auto simp: list_all2_Cons1)
      have p: "p \<noteq> 0" using sp(3) mem Cons by (auto simp: monitor_memory_def)
      show ?thesis
        using sp(1) True k Cons w(1) find_command_ok [OF mem' w(2)] unknown_ok [OF w(2) p] help_ok [OF mem'] kerninfo_ok [of k]
        by (auto simp: runcmd_def answer_def split: option.splits mon_command.splits)
    qed
  qed
qed

lemma monitor_round_ok:
  assumes mem: "monitor_memory lit buf m" and "feeds get st (keys @ [e]) st'" and "e = 10 \<or> e = 13"
    and "\<And>c. c \<in> set keys \<Longrightarrow> c \<noteq> 10 \<and> c \<noteq> 13"
  shows "\<exists>m'. monitor_round get lit k buf (st, m, out) =
       Some ((st', m', out @ plain ''K> '' @ echoes [] keys @ [10] @ answer k (line_words (typed keys))), False) \<and>
     monitor_memory lit buf m'"
proof -
  have "vprintfmt m (chars ''%s'' @ [0]) [lit ''K> ''] = Some (plain ''K> '')"
    using conversion_s [OF monitor_memoryD(2,3) [OF mem in_literals(1)]]
    by (simp add: chars_def) (simp add: plain_def chars_def asc_def)
  moreover have "line_room buf m" using mem by (simp add: monitor_memory_def)
  from readline_ok [OF assms(2-4) this, of "plain ''K> ''"]
  obtain m1 where m1: "readline_loop get True buf 0 st m (plain ''K> '') = Some (st', m1, plain ''K> '' @ echoes [] keys @ [10], True)"
    "cstr m1 buf (typed keys)" "length (typed keys) \<le> 1023" "keeps buf m m1" by blast
  ultimately have "readline get buf (lit ''K> '') st m = Some (st', m1, plain ''K> '' @ echoes [] keys @ [10], True)"
    using monitor_memoryD(3) [OF mem in_literals(1)] by (simp add: readline_def iscons_def)
  moreover have mem1: "monitor_memory lit buf m1" by (rule monitor_memory_keeps [OF mem m1(4)])
  ultimately show ?thesis using runcmd_ok [OF mem1 m1(2,3), of k] monitor_memory_keeps [OF mem1]
    by (auto simp: monitor_round_def)
qed

subsection \<open>A session\<close>

fun rounds :: "nat \<Rightarrow> ('a \<Rightarrow> ('a \<times> bool) option) \<Rightarrow> 'a \<Rightarrow> ('a \<times> bool) option" where
  "rounds 0 f s = Some (s, False)"
| "rounds (Suc n) f s = (case f s of None \<Rightarrow> None | Some (s, stop) \<Rightarrow> if stop then Some (s, True) else rounds n f s)"

definition response :: "kernel_symbols \<Rightarrow> w8 list \<Rightarrow> w32 list" where
  "response k l = plain ''K> '' @ echoes [] l @ [10] @ answer k (line_words (typed l))"

text \<open>C23. For every sequence of typed lines the monitor answers each with the prompt, the echo of the typing and the
  output of the command that the first word of the line names, or with the message for an unknown command or for more
  than 15 words, where the line is what the typing leaves after its corrections; and it waits for the next line.\<close>

theorem monitor_answers_lines:
  assumes "monitor_memory lit buf m" and "feeds get st (concat (map (\<lambda>l. l @ [10]) lines)) st'"
    and "\<forall>l\<in>set lines. 10 \<notin> set l \<and> 13 \<notin> set l"
  shows "\<exists>m'. rounds (length lines) (monitor_round get lit k buf) (st, m, out) =
     Some ((st', m', out @ concat (map (response k) lines)), False)"
  using assms
proof (induction lines arbitrary: st m out)
  case (Cons l lines)
  obtain st1 where f: "feeds get st (l @ [10]) st1" "feeds get st1 (concat (map (\<lambda>l. l @ [10]) lines)) st'"
    using Cons.prems(2) feeds_append [of get st "l @ [10]" "concat (map (\<lambda>l. l @ [10]) lines)" st'] by auto
  have "\<And>c. c \<in> set l \<Longrightarrow> c \<noteq> 10 \<and> c \<noteq> 13" using Cons.prems(3) by auto
  from monitor_round_ok [OF Cons.prems(1) f(1) _ this, of k out]
  obtain m1 where m1: "monitor_round get lit k buf (st, m, out) = Some ((st1, m1, out @ response k l), False)" "monitor_memory lit buf m1"
    by (auto simp: response_def)
  show ?case using Cons.IH [OF m1(2) f(2), of "out @ response k l"] Cons.prems(3) m1(1) by simp
qed simp

text \<open>No command asks to leave, so the monitor never returns to what called it, the handler of a breakpoint among others.\<close>

lemma runcmd_zero: "runcmd lit k buf m = Some (r, m', t) \<Longrightarrow> r = 0"
proof -
  have "run_command lit k f m = Some (r, t) \<Longrightarrow> r = 0" for f m r t
    by (cases f) (auto simp: mon_help_def mon_kerninfo_def split: Option.bind_splits)
  then show "runcmd lit k buf m = Some (r, m', t) \<Longrightarrow> r = 0"
    by (auto simp: runcmd_def split: Option.bind_splits option.splits list.splits)
qed

lemma monitor_round_goes_on: "monitor_round get lit k buf s = Some (s', stop) \<Longrightarrow> stop = False"
  by (cases s) (auto simp: monitor_round_def dest!: runcmd_zero split: Option.bind_splits if_splits)

lemma monitor_round_stops: "monitor_round get lit k buf s = Some (s', True) \<longleftrightarrow> False"
  using monitor_round_goes_on [of get lit k buf s s' True] by auto

lemma monitor_never_returns: "monitor get lit k buf frame st m = None"
proof -
  have "False" if "monitor_loop get lit k buf s = Some r" for s r
    by (rule monitor_loop.raw_induct [where P = "\<lambda>_ _ _ _ _ _. False", OF _ that])
      (auto split: Option.bind_splits if_splits simp: monitor_round_stops)
  then have "monitor_loop get lit k buf s = None" for s by (cases "monitor_loop get lit k buf s") (simp, blast)
  then show ?thesis by (auto simp: monitor_def split: Option.bind_splits)
qed

text \<open>On an empty line a DEL is no correction: it becomes a character of the line.\<close>

lemma del_is_read: "typed [0x7F] = [0x7F]" "typed [8] = []"
  by (simp_all add: typed_def edit_def)

text \<open>What waits in the ring of the console is what \<open>getchar\<close> gives.\<close>

lemma feeds_getchar:
  assumes "cons_ok s" and "waiting s = cs" and "0 \<notin> set cs"
  shows "\<exists>s'. feeds getchar (replicate (length cs) ([], []), s) cs ([], s') \<and> cons_ok s' \<and> waiting s' = []"
  using assms
proof (induction cs arbitrary: s)
  case (Cons c cs)
  obtain s1 where "cons_take s = (s1, c)" "cons_ok s1" "waiting s1 = cs" using cons_take_ok [OF Cons.prems(1,2)] by blast
  then show ?case using Cons.IH [of s1] Cons.prems(3) by (auto simp: cons_getc_idle)
qed simp

text \<open>A memory with the literals at the multiples of 256 and the buffer at 0x1000, and a console on which a line waits.\<close>

definition demo_literal :: "string \<Rightarrow> w32" where
  "demo_literal s = word_of_nat (256 * Suc (length (takeWhile (\<lambda>x. x \<noteq> s) monitor_literals)))"

definition demo_text :: bytes where
  "demo_text a = (let n = unat a div 256; s = chars (monitor_literals ! (n - 1)); i = unat a mod 256 in
     if 16 \<le> n \<and> n < 20 then Some 0
     else if n = 0 \<or> n > 6 \<or> i > length s then None
     else Some ((s @ [0]) ! i))"

lemma demo_text_memory: "monitor_memory demo_literal 0x1000 demo_text"
proof -
  have un: "unat (word_of_nat n :: w32) = n" if "n < 8192" for n using that by (simp add: unsigned_of_nat take_bit_nat_eq_self)
  have buf: "(0x1000 :: w32) + word_of_nat i = word_of_nat (4096 + i)" for i by simp
  have lit: "literal 0x1000 demo_text (demo_literal s) (chars s)" if mem: "s \<in> set monitor_literals" for s
  proof -
    let ?j = "length (takeWhile (\<lambda>x. x \<noteq> s) monitor_literals)"
    have six: "length monitor_literals = 6" by (simp add: monitor_literals_def)
    have "dropWhile (\<lambda>x. x \<noteq> s) monitor_literals \<noteq> []" using mem by (auto simp: dropWhile_eq_Nil_conv)
    moreover have "length (takeWhile (\<lambda>x. x \<noteq> s) monitor_literals) + length (dropWhile (\<lambda>x. x \<noteq> s) monitor_literals) = 6"
      unfolding length_append [symmetric] takeWhile_dropWhile_id six ..
    ultimately have j: "?j < 6" by (cases "dropWhile (\<lambda>x. x \<noteq> s) monitor_literals") simp_all
    have s: "monitor_literals ! ?j = s" using nth_length_takeWhile [of "\<lambda>x. x \<noteq> s" monitor_literals] j six by auto
    have small: "\<forall>s\<in>set monitor_literals. length (chars s) < 64 \<and> 0 \<notin> set (chars s)"
      by (simp add: monitor_literals_def WHITESPACE_def chars_def asc_def)
    have at: "demo_literal s + word_of_nat i = word_of_nat (256 * Suc ?j + i)" for i by (simp add: demo_literal_def)
    have len: "length (chars s) < 64" using small mem by blast
    have split: "(256 * n + i) div 256 = n" "(256 * n + i) mod 256 = i" if "i < 256" for n i :: nat using that by simp_all
    have parts: "(256 * Suc ?j + i) div 256 = Suc ?j" "(256 * Suc ?j + i) mod 256 = i" "256 * Suc ?j + i < 2048" if "i \<le> length (chars s)" for i
      using split [of i "Suc ?j"] that len j by simp_all
    have byte: "demo_text (demo_literal s + word_of_nat i) = Some ((chars s @ [0]) ! i)" if "i \<le> length (chars s)" for i
    proof -
      have "256 * Suc ?j + i < 8192" using parts(3) [OF that] by linarith
      note u = un [OF this]
      show ?thesis unfolding at demo_text_def u parts(1,2) [OF that] using that j s by (simp add: Let_def)
    qed
    have off: "unat (demo_literal s + word_of_nat i) = 256 * Suc ?j + i" if "i \<le> length (chars s)" for i
      unfolding at by (rule un) (use parts(3) [OF that] in linarith)
    show ?thesis
      unfolding literal_def cstr_def lies_def
    proof (intro conjI allI impI)
      show "0 \<notin> set (chars s)" using small mem by blast
      show "i < length (chars s @ [0]) \<Longrightarrow> demo_text (demo_literal s + word_of_nat i) = Some ((chars s @ [0]) ! i)" for i
        using byte [of i] by simp
      fix i assume i: "i \<le> length (chars s)"
      show "demo_literal s + word_of_nat i \<noteq> 0" using off [OF i] by auto
      have "unat (demo_literal s + word_of_nat i) < 2048" using off [OF i] parts(3) [OF i] by simp
      then show "outside 0x1000 (demo_literal s + word_of_nat i)"
        by (simp add: outside_def LINE_BUFLEN_def unat_sub_if_size word_le_nat_alt word_size)
    qed
  qed
  have room: "line_room 0x1000 demo_text"
    unfolding line_room_def LINE_BUFLEN_def buf
  proof (intro allI impI)
    fix i :: nat assume i: "i < 1024"
    then have "16 \<le> (4096 + i) div 256" "(4096 + i) div 256 < 20" by simp_all
    then show "demo_text (word_of_nat (4096 + i)) \<noteq> None" unfolding demo_text_def using un [of "4096 + i"] i by (simp add: Let_def del: of_nat_add)
  qed
  have "0x1000 + word_of_nat i \<noteq> (0 :: w32)" if "i < LINE_BUFLEN" for i
    unfolding buf
  proof
    assume "word_of_nat (4096 + i) = (0 :: w32)"
    then have "unat (word_of_nat (4096 + i) :: w32) = 0" by (simp only: unat_0)
    moreover have "unat (word_of_nat (4096 + i) :: w32) = 4096 + i" by (rule un) (use that in \<open>simp add: LINE_BUFLEN_def\<close>)
    ultimately show False by linarith
  qed
  then show ?thesis using room lit by (simp add: monitor_memory_def)
qed

lemma monitor_answers_lines_witness:
  "\<forall>k. (\<exists>st' m'. rounds 1 (monitor_round getchar demo_literal k 0x1000)
       ((replicate 8 ([], []), put_list cons_put (chars '' helq'' @ [8, 0x70, 10]) demo_console), demo_text, []) =
     Some ((st', m', response k (chars '' helq'' @ [8, 0x70])), False)) \<and>
   answer k (line_words (typed (chars '' helq'' @ [8, 0x70]))) = help_text"
proof (rule allI)
  fix k
  let ?keys = "chars '' helq'' @ [8, 0x70]" and ?c = "put_list cons_put (chars '' helq'' @ [8, 0x70, 10]) demo_console"
  have demo: "cons_ok demo_console" "waiting demo_console = []"
    by (simp_all add: cons_ok_def demo_console_def CONSBUFSIZE_def waiting_def pending_def)
  have "cons_ok ?c" "waiting ?c = ?keys @ [10]"
    using cons_ring.put_list_ok [OF demo(1), of "?keys @ [10]"] demo(2) by (simp_all add: chars_def CONSBUFSIZE_def)
  moreover have "0 \<notin> set (?keys @ [10])" "length (?keys @ [10]) = 8" by (simp_all add: chars_def asc_def)
  ultimately obtain s' where f: "feeds getchar (replicate 8 ([], []), ?c) (?keys @ [10]) ([], s')"
    using feeds_getchar [of ?c "?keys @ [10]"] by metis
  have keys: "\<forall>l\<in>set [?keys]. 10 \<notin> set l \<and> 13 \<notin> set l" by (simp add: chars_def asc_def)
  have "feeds getchar (replicate 8 ([], []), ?c) (concat (map (\<lambda>l. l @ [10]) [?keys])) ([], s')" using f by simp
  from monitor_answers_lines [OF demo_text_memory this keys, of k "[]"]
  have "\<exists>m'. rounds 1 (monitor_round getchar demo_literal k 0x1000) ((replicate 8 ([], []), ?c), demo_text, []) =
      Some ((([], s'), m', response k ?keys), False)" by simp
  moreover have "typed ?keys = chars '' help''" by (simp add: typed_def edit_def chars_def asc_def)
  moreover have "line_words (chars '' help'') = [chars ''help'']"
    by (simp add: line_words.simps chars_def blank_def WHITESPACE_def asc_def)
  then have "answer k (line_words (chars '' help'')) = help_text" by (simp add: answer_def named_command_def)
  ultimately show "(\<exists>st' m'. rounds 1 (monitor_round getchar demo_literal k 0x1000)
       ((replicate 8 ([], []), put_list cons_put (chars '' helq'' @ [8, 0x70, 10]) demo_console), demo_text, []) =
     Some ((st', m', response k (chars '' helq'' @ [8, 0x70])), False)) \<and>
   answer k (line_words (typed (chars '' helq'' @ [8, 0x70]))) = help_text" by metis
qed

end
