(* ===== verification/MpConfig.thy ===== *)
theory MpConfig
  imports Kernel ElfLoad MemInit
begin

unbundle bit_operations_syntax

text \<open>
  The multiprocessor tables of the firmware (\<open>sched/kern/mpconfig.c\<close>). A pointer of the code is \<open>KERNBASE\<close> plus a
  physical address; here it is the physical address, and \<open>KADDR\<close> checks that it is in memory. A byte outside of
  memory is \<open>None\<close>, as is a panic. What is printed is left out, the ports that are written are a result.
\<close>

subsection \<open>Bytes of physical memory\<close>

definition phys_byte :: "pmem \<Rightarrow> w32 \<Rightarrow> w8 option" where
  "phys_byte s a = (if PGNUM a < npages s then Some (get_byte (phys s (PGNUM a) (word_slot a)) (byte_lane a)) else None)"

definition phys_half :: "pmem \<Rightarrow> w32 \<Rightarrow> w16 option" where
  "phys_half s a = do {
     x \<leftarrow> phys_byte s a; y \<leftarrow> phys_byte s (a + 1);
     Some (ucast x OR push_bit 8 (ucast y)) }"

definition phys_word :: "pmem \<Rightarrow> w32 \<Rightarrow> w32 option" where
  "phys_word s a = do {
     x \<leftarrow> phys_half s a; y \<leftarrow> phys_half s (a + 2);
     Some (ucast x OR push_bit 16 (ucast y)) }"

text \<open>\<open>memcmp\<close> with a signature, up to the first byte that differs.\<close>

fun phys_match :: "pmem \<Rightarrow> w32 \<Rightarrow> w8 list \<Rightarrow> bool option" where
  "phys_match s a [] = Some True"
| "phys_match s a (x # xs) = do { b \<leftarrow> phys_byte s a; if b = x then phys_match s (a + 1) xs else Some False }"

text \<open>The sum is an \<open>int\<close> that \<open>return\<close> cuts to a byte; the lengths of the tables are too small for an overflow.\<close>

fun sum_loop :: "pmem \<Rightarrow> w32 \<Rightarrow> nat \<Rightarrow> int \<Rightarrow> int option" where
  "sum_loop s a 0 acc = Some acc"
| "sum_loop s a (Suc n) acc = do { b \<leftarrow> phys_byte s a; sum_loop s (a + 1) n (acc + uint b) }"

definition mp_sum :: "pmem \<Rightarrow> w32 \<Rightarrow> nat \<Rightarrow> w8 option" where
  "mp_sum s a len = map_option word_of_int (sum_loop s a len 0)"

subsection \<open>The floating pointer\<close>

record mp_pointer =
  mp_physaddr :: w32
  mp_type :: w8
  mp_imcrp :: w8

definition MP_SIGNATURE :: "w8 list" where "MP_SIGNATURE = [0x5F, 0x4D, 0x50, 0x5F]"
definition PCMP_SIGNATURE :: "w8 list" where "PCMP_SIGNATURE = [0x50, 0x43, 0x4D, 0x50]"

definition read_mp :: "pmem \<Rightarrow> w32 \<Rightarrow> mp_pointer option" where
  "read_mp s a = do {
     pa \<leftarrow> phys_word s (a + 4);
     t \<leftarrow> phys_byte s (a + 11);
     i \<leftarrow> phys_byte s (a + 12);
     Some \<lparr>mp_physaddr = pa, mp_type = t, mp_imcrp = i\<rparr> }"

definition is_mp :: "pmem \<Rightarrow> w32 \<Rightarrow> bool option" where
  "is_mp s a = do {
     same \<leftarrow> phys_match s a MP_SIGNATURE;
     if same then map_option (\<lambda>c. c = 0) (mp_sum s a 16) else Some False }"

text \<open>The address of the structure, if there is one, in steps of its size.\<close>

fun mpsearch_loop :: "nat \<Rightarrow> pmem \<Rightarrow> w32 \<Rightarrow> w32 option option" where
  "mpsearch_loop 0 s a = Some None"
| "mpsearch_loop (Suc n) s a = do {
     found \<leftarrow> is_mp s a;
     if found then Some (Some a) else mpsearch_loop n s (a + 16) }"

definition mpsearch1 :: "pmem \<Rightarrow> w32 \<Rightarrow> nat \<Rightarrow> w32 option option" where
  "mpsearch1 s a len = do {
     _ \<leftarrow> KADDR (npages s) a;
     _ \<leftarrow> KADDR (npages s) (a + word_of_nat len);
     mpsearch_loop ((len + 15) div 16) s a }"

definition mpsearch :: "pmem \<Rightarrow> w32 option option" where
  "mpsearch s = do {
     _ \<leftarrow> KADDR (npages s) 0x400;
     ebda \<leftarrow> phys_half s (0x400 + 0x0E);
     first \<leftarrow> (if ebda \<noteq> 0 then mpsearch1 s (push_bit 4 (ucast ebda)) 1024
       else do {
         kb \<leftarrow> phys_half s (0x400 + 0x13);
         mpsearch1 s (ucast kb * 1024 - 1024) 1024 });
     case first of Some a \<Rightarrow> Some (Some a) | None \<Rightarrow> mpsearch1 s 0xF0000 0x10000 }"

subsection \<open>The configuration table\<close>

record mp_conf =
  conf_length :: w16
  conf_version :: w8
  conf_entry :: w16
  conf_lapicaddr :: w32
  conf_xlength :: w16
  conf_xchecksum :: w8

definition read_conf :: "pmem \<Rightarrow> w32 \<Rightarrow> mp_conf option" where
  "read_conf s a = do {
     len \<leftarrow> phys_half s (a + 4);
     ver \<leftarrow> phys_byte s (a + 6);
     entry \<leftarrow> phys_half s (a + 34);
     lapic \<leftarrow> phys_word s (a + 36);
     xlen \<leftarrow> phys_half s (a + 40);
     xsum \<leftarrow> phys_byte s (a + 42);
     Some \<lparr>conf_length = len, conf_version = ver, conf_entry = entry, conf_lapicaddr = lapic,
       conf_xlength = xlen, conf_xchecksum = xsum\<rparr> }"

text \<open>The result is the floating pointer, the address of the table and its header.\<close>

definition mpconfig :: "pmem \<Rightarrow> (mp_pointer \<times> w32 \<times> mp_conf) option option" where
  "mpconfig s = do {
     found \<leftarrow> mpsearch s;
     case found of
       None \<Rightarrow> Some None
     | Some a \<Rightarrow> do {
         mp \<leftarrow> read_mp s a;
         if mp_physaddr mp = 0 \<or> mp_type mp \<noteq> 0 then Some None
         else do {
           let conf = mp_physaddr mp;
           _ \<leftarrow> KADDR (npages s) conf;
           same \<leftarrow> phys_match s conf PCMP_SIGNATURE;
           if \<not> same then Some None
           else do {
             c \<leftarrow> read_conf s conf;
             sum \<leftarrow> mp_sum s conf (unat (conf_length c));
             if sum \<noteq> 0 then Some None
             else if conf_version c \<noteq> 1 \<and> conf_version c \<noteq> 4 then Some None
             else do {
               xsum \<leftarrow> mp_sum s (conf + ucast (conf_length c)) (unat (conf_xlength c));
               if xsum + conf_xchecksum c \<noteq> 0 then Some None
               else Some (Some (mp, conf, c)) } } } } }"

subsection \<open>The processors\<close>

definition MPPROC_BOOT :: w8 where "MPPROC_BOOT = 0x02"
definition MPPROC :: w8 where "MPPROC = 0x00"
definition MPBUS :: w8 where "MPBUS = 0x01"
definition MPIOAPIC :: w8 where "MPIOAPIC = 0x02"
definition MPIOINTR :: w8 where "MPIOINTR = 0x03"
definition MPLINTR :: w8 where "MPLINTR = 0x04"

text \<open>The variables of \<open>mpconfig.c\<close>; \<open>bootcpu\<close> is an index into \<open>cpus\<close>, which may be the one past its end.\<close>

record mp_state =
  bootcpu :: nat
  ismp :: bool
  ncpu :: nat
  lapicaddr :: w32
  cpu_id :: "nat \<Rightarrow> nat"
  mp_status :: "nat \<Rightarrow> cpu_state"

definition mp_processor :: "w8 \<Rightarrow> mp_state \<Rightarrow> mp_state" where
  "mp_processor flags st =
     (let st = (if flags AND MPPROC_BOOT \<noteq> 0 then st\<lparr>bootcpu := ncpu st\<rparr> else st)
      in if ncpu st < NCPU then st\<lparr>cpu_id := (cpu_id st)(ncpu st := ncpu st), ncpu := ncpu st + 1\<rparr> else st)"

text \<open>\<open>n\<close> entries are left; an unknown entry ends the loop.\<close>

fun mp_entries :: "nat \<Rightarrow> pmem \<Rightarrow> w32 \<Rightarrow> mp_state \<Rightarrow> mp_state option" where
  "mp_entries 0 s p st = Some st"
| "mp_entries (Suc n) s p st = do {
     type \<leftarrow> phys_byte s p;
     if type = MPPROC then do {
       flags \<leftarrow> phys_byte s (p + 3);
       mp_entries n s (p + 20) (mp_processor flags st) }
     else if type \<in> {MPBUS, MPIOAPIC, MPIOINTR, MPLINTR} then mp_entries n s (p + 8) st
     else Some (st\<lparr>ismp := False\<rparr>) }"

text \<open>\<open>imcr\<close> is what port 0x23 answers; the result has the writes to ports.\<close>

definition mp_init :: "w8 \<Rightarrow> pmem \<Rightarrow> mp_state \<Rightarrow> (mp_state \<times> (w16 \<times> w8) list) option" where
  "mp_init imcr s st = do {
     let st = st\<lparr>bootcpu := 0\<rparr>;
     found \<leftarrow> mpconfig s;
     case found of
       None \<Rightarrow> Some (st, [])
     | Some (mp, conf, c) \<Rightarrow> do {
         let st = st\<lparr>ismp := True, lapicaddr := conf_lapicaddr c\<rparr>;
         st \<leftarrow> mp_entries (unat (conf_entry c)) s (conf + 44) st;
         if bootcpu st \<ge> NCPU then None
         else do {
           let st = st\<lparr>mp_status := (mp_status st)(bootcpu st := CPU_STARTED)\<rparr>;
           if \<not> ismp st then Some (st\<lparr>ncpu := 1, lapicaddr := 0\<rparr>, [])
           else if mp_imcrp mp \<noteq> 0 then Some (st, [(0x22, 0x70), (0x23, imcr OR 1)])
           else Some (st, []) } } }"

end
