(* ===== verification/MpProps.thy ===== *)
theory MpProps
  imports MpConfig PmapProps
begin

unbundle bit_operations_syntax

text \<open>
  What \<open>mp_init\<close> finds: the first floating pointer in the areas of the specification, and the processors that the
  table lists.
\<close>

subsection \<open>The search\<close>

definition valid_mp :: "pmem \<Rightarrow> w32 \<Rightarrow> bool" where "valid_mp s a \<longleftrightarrow> is_mp s a = Some True"

text \<open>The places where a floating pointer can be, in order.\<close>

definition steps16 :: "w32 \<Rightarrow> nat \<Rightarrow> w32 list" where
  "steps16 a n = map (\<lambda>i. a + 16 * word_of_nat i) [0..<n]"

definition mp_candidates :: "w16 \<Rightarrow> w16 \<Rightarrow> w32 list" where
  "mp_candidates ebda kb = steps16 (if ebda \<noteq> 0 then push_bit 4 (ucast ebda) else ucast kb * 1024 - 1024) 64 @ steps16 0xF0000 4096"

lemma steps16_Suc: "steps16 a (Suc n) = a # steps16 (a + 16) n"
proof -
  have "[0..<Suc n] = 0 # map Suc [0..<n]" by (simp add: upt_conv_Cons map_Suc_upt del: upt_Suc)
  then show ?thesis by (simp add: steps16_def algebra_simps del: upt_Suc)
qed

lemma mpsearch_loop_ok:
  assumes "\<forall>c\<in>set (steps16 a n). is_mp s c \<noteq> None"
  shows "mpsearch_loop n s a = Some (find (valid_mp s) (steps16 a n))"
  using assms
proof (induction n arbitrary: a)
  case 0
  then show ?case by (simp add: steps16_def)
next
  case (Suc n)
  then show ?case by (auto simp: steps16_Suc valid_mp_def)
qed

text \<open>The firmware data that the search reads, and memory up to 1 MB and at the areas.\<close>

definition firmware_area :: "pmem \<Rightarrow> w16 \<Rightarrow> w16 \<Rightarrow> bool" where
  "firmware_area s ebda kb \<longleftrightarrow> 256 < npages s \<and> phys_half s 0x40E = Some ebda \<and> phys_half s 0x413 = Some kb \<and>
     (ebda = 0 \<longrightarrow> PGNUM (ucast kb * 1024 - 1024) < npages s \<and> PGNUM (ucast kb * 1024) < npages s) \<and>
     (ebda \<noteq> 0 \<longrightarrow> PGNUM (push_bit 4 (ucast ebda)) < npages s \<and> PGNUM (push_bit 4 (ucast ebda) + 1024) < npages s) \<and>
     (\<forall>c\<in>set (mp_candidates ebda kb). is_mp s c \<noteq> None)"

lemma find_append: "find P (xs @ ys) = (case find P xs of None \<Rightarrow> find P ys | Some x \<Rightarrow> Some x)"
  by (induction xs) auto

lemma mpsearch_ok:
  assumes "firmware_area s ebda kb"
  shows "mpsearch s = Some (find (valid_mp s) (mp_candidates ebda kb))"
proof -
  let ?a = "if ebda \<noteq> 0 then push_bit 4 (ucast ebda) else ucast kb * 1024 - 1024 :: w32"
  have np: "256 < npages s" and h: "phys_half s 0x40E = Some ebda" "phys_half s 0x413 = Some kb"
    and pg: "PGNUM ?a < npages s" "PGNUM (?a + 1024) < npages s"
    using assms by (auto simp: firmware_area_def)
  have c: "\<forall>c\<in>set (steps16 ?a 64). is_mp s c \<noteq> None" "\<forall>c\<in>set (steps16 0xF0000 4096). is_mp s c \<noteq> None"
    using assms by (auto simp: firmware_area_def mp_candidates_def)
  have k: "PGNUM 0x400 = 0" "PGNUM 0xF0000 = 240" "PGNUM 0x100000 = 256" by (simp_all add: PGNUM_def)
  have one: "mpsearch1 s ?a 1024 = Some (find (valid_mp s) (steps16 ?a 64))"
    using pg mpsearch_loop_ok [OF c(1)] by (simp add: mpsearch1_def KADDR_def)
  have two: "mpsearch1 s 0xF0000 0x10000 = Some (find (valid_mp s) (steps16 0xF0000 4096))"
    using np mpsearch_loop_ok [OF c(2)] by (simp add: mpsearch1_def KADDR_def k)
  show ?thesis
    using np h one two by (auto simp: mpsearch_def KADDR_def k mp_candidates_def find_append split: option.splits)
qed

subsection \<open>The entries\<close>

text \<open>An entry is a processor with its flags, or something else.\<close>

datatype mp_item = Processor w8 | Device

fun item_size :: "mp_item \<Rightarrow> w32" where
  "item_size (Processor f) = 20"
| "item_size Device = 8"

fun item_at :: "pmem \<Rightarrow> w32 \<Rightarrow> mp_item \<Rightarrow> bool" where
  "item_at s p (Processor f) \<longleftrightarrow> phys_byte s p = Some MPPROC \<and> phys_byte s (p + 3) = Some f"
| "item_at s p Device \<longleftrightarrow> (\<exists>t\<in>{MPBUS, MPIOAPIC, MPIOINTR, MPLINTR}. phys_byte s p = Some t)"

fun items_at :: "pmem \<Rightarrow> w32 \<Rightarrow> mp_item list \<Rightarrow> bool" where
  "items_at s p [] \<longleftrightarrow> True"
| "items_at s p (i # is) \<longleftrightarrow> item_at s p i \<and> items_at s (p + item_size i) is"

fun processors :: "mp_item list \<Rightarrow> w8 list" where
  "processors [] = []"
| "processors (Processor f # is) = f # processors is"
| "processors (Device # is) = processors is"

lemma mp_entries_ok: "items_at s p is \<Longrightarrow> mp_entries (length is) s p st = Some (fold mp_processor (processors is) st)"
proof (induction "is" arbitrary: p st)
  case (Cons i "is")
  then show ?case by (cases i) (auto simp: MPPROC_def MPBUS_def MPIOAPIC_def MPIOINTR_def MPLINTR_def)
qed simp

definition boot_flags :: "w8 list \<Rightarrow> nat list" where
  "boot_flags fs = filter (\<lambda>i. fs ! i AND MPPROC_BOOT \<noteq> 0) [0..<length fs]"

definition boot_index :: "w8 list \<Rightarrow> nat" where
  "boot_index fs = (if boot_flags fs = [] then 0 else min NCPU (last (boot_flags fs)))"

lemma boot_flags_snoc: "boot_flags (fs @ [f]) = boot_flags fs @ (if f AND MPPROC_BOOT \<noteq> 0 then [length fs] else [])"
proof -
  have "filter (\<lambda>i. (fs @ [f]) ! i AND MPPROC_BOOT \<noteq> 0) [0..<length fs] = boot_flags fs"
    unfolding boot_flags_def by (rule filter_cong) (auto simp: nth_append)
  then show ?thesis by (simp add: boot_flags_def)
qed

lemma processors_counted:
  assumes "ncpu st = 0" and "bootcpu st = 0"
  shows "ncpu (fold mp_processor fs st) = min NCPU (length fs) \<and> bootcpu (fold mp_processor fs st) = boot_index fs \<and>
    (\<forall>i<min NCPU (length fs). cpu_id (fold mp_processor fs st) i = i) \<and>
    ismp (fold mp_processor fs st) = ismp st \<and> lapicaddr (fold mp_processor fs st) = lapicaddr st \<and>
    mp_status (fold mp_processor fs st) = mp_status st"
proof (induction fs rule: rev_induct)
  case Nil
  then show ?case using assms by (simp add: boot_index_def boot_flags_def)
next
  case (snoc f fs)
  then show ?case
    by (auto simp: mp_processor_def Let_def boot_index_def boot_flags_snoc less_Suc_eq min_def)
qed

subsection \<open>The whole\<close>

text \<open>A configuration table at \<open>conf\<close> that passes the checks, with its entries.\<close>

definition valid_conf :: "pmem \<Rightarrow> w32 \<Rightarrow> mp_conf \<Rightarrow> mp_item list \<Rightarrow> bool" where
  "valid_conf s conf c is \<longleftrightarrow> PGNUM conf < npages s \<and> phys_match s conf PCMP_SIGNATURE = Some True \<and> read_conf s conf = Some c \<and>
     mp_sum s conf (unat (conf_length c)) = Some 0 \<and> conf_version c \<in> {1, 4} \<and>
     (\<exists>x. mp_sum s (conf + ucast (conf_length c)) (unat (conf_xlength c)) = Some x \<and> x + conf_xchecksum c = 0) \<and>
     items_at s (conf + 44) is \<and> length is = unat (conf_entry c)"

definition boot_state :: "mp_state \<Rightarrow> bool" where
  "boot_state st \<longleftrightarrow> ncpu st = 0 \<and> \<not> ismp st"

lemma mpconfig_ok:
  assumes "firmware_area s ebda kb" and "find (valid_mp s) (mp_candidates ebda kb) = Some a" and "read_mp s a = Some mp"
    and "mp_type mp = 0" and "mp_physaddr mp \<noteq> 0" and "valid_conf s (mp_physaddr mp) c is"
  shows "mpconfig s = Some (Some (mp, mp_physaddr mp, c))"
  using assms(2-6) mpsearch_ok [OF assms(1)] by (auto simp: mpconfig_def valid_conf_def KADDR_def Let_def)

text \<open>C22. \<open>mp_init\<close> finds the processors: from the first valid floating pointer in the areas that the code searches
  (the EBDA or the last kilobyte of base memory, then \<open>0xF0000\<close> to \<open>0xFFFFF\<close>; the comment at
  \<open>mpsearch\<close> also names \<open>0xE0000\<close> to \<open>0xEFFFF\<close>) and a valid table, it counts the processor entries, up to 8, gives them the numbers from 0 on in the order of the
  table, takes the last entry with the boot flag as the boot processor and marks it as started. The flag must not be
  on a processor after the eighth (\<open>boot_flag_past_cpus\<close>).\<close>

theorem mp_init_finds_processors:
  assumes "boot_state st" and "firmware_area s ebda kb" and "find (valid_mp s) (mp_candidates ebda kb) = Some a" and "read_mp s a = Some mp"
    and "mp_type mp = 0" and "mp_physaddr mp \<noteq> 0" and "valid_conf s (mp_physaddr mp) c is"
    and "boot_index (processors is) < NCPU"
  shows "\<exists>st' ports. mp_init imcr s st = Some (st', ports) \<and> ismp st' \<and> lapicaddr st' = conf_lapicaddr c \<and>
     ncpu st' = min NCPU (length (processors is)) \<and> (\<forall>i<ncpu st'. cpu_id st' i = i) \<and>
     bootcpu st' = boot_index (processors is) \<and> mp_status st' = (mp_status st)(boot_index (processors is) := CPU_STARTED) \<and>
     ports = (if mp_imcrp mp \<noteq> 0 then [(0x22, 0x70), (0x23, imcr OR 1)] else [])"
proof -
  let ?st = "st\<lparr>bootcpu := 0, ismp := True, lapicaddr := conf_lapicaddr c\<rparr>"
  note conf = mpconfig_ok [OF assms(2-7)]
  have "items_at s (mp_physaddr mp + 44) is" "length is = unat (conf_entry c)" using assms(7) by (simp_all add: valid_conf_def)
  then have run: "mp_entries (unat (conf_entry c)) s (mp_physaddr mp + 44) ?st = Some (fold mp_processor (processors is) ?st)"
    using mp_entries_ok [of s "mp_physaddr mp + 44" "is" ?st] by simp
  have "ncpu ?st = 0" "bootcpu ?st = 0" using assms(1) by (simp_all add: boot_state_def)
  note counted = processors_counted [OF this, of "processors is"]
  show ?thesis using conf run counted assms(8) by (auto simp: mp_init_def not_le)
qed

text \<open>With the boot flag on the ninth processor the status is written past the end of \<open>cpus\<close>.\<close>

lemma boot_flag_past_cpus:
  assumes "boot_state st" and "firmware_area s ebda kb" and "find (valid_mp s) (mp_candidates ebda kb) = Some a" and "read_mp s a = Some mp"
    and "mp_type mp = 0" and "mp_physaddr mp \<noteq> 0" and "valid_conf s (mp_physaddr mp) c is" and "boot_index (processors is) = NCPU"
  shows "mp_init imcr s st = None"
proof -
  let ?st = "st\<lparr>bootcpu := 0, ismp := True, lapicaddr := conf_lapicaddr c\<rparr>"
  have "items_at s (mp_physaddr mp + 44) is" "length is = unat (conf_entry c)" using assms(7) by (simp_all add: valid_conf_def)
  then have run: "mp_entries (unat (conf_entry c)) s (mp_physaddr mp + 44) ?st = Some (fold mp_processor (processors is) ?st)"
    using mp_entries_ok [of s "mp_physaddr mp + 44" "is" ?st] by simp
  have "ncpu ?st = 0" "bootcpu ?st = 0" using assms(1) by (simp_all add: boot_state_def)
  with run processors_counted [OF this, of "processors is"] mpconfig_ok [OF assms(2-7)] assms(8)
  show ?thesis by (auto simp: mp_init_def)
qed

text \<open>Without a table nothing is counted: \<open>ncpu\<close> stays 0.\<close>

lemma no_table_no_processor:
  assumes "boot_state st" and "firmware_area s ebda kb" and "find (valid_mp s) (mp_candidates ebda kb) = None"
  shows "mp_init imcr s st = Some (st\<lparr>bootcpu := 0\<rparr>, [])"
  using mpsearch_ok [OF assms(2)] assms(3) by (simp add: mp_init_def mpconfig_def)

text \<open>Firmware with one processor and one bus: the pointer in the last kilobyte below 640 KB, the table at 0x9F000.\<close>

definition demo_table_words :: "nat \<Rightarrow> w32" where
  "demo_table_words i = (if i < 18
     then [0x504D4350, 0x8C040048, 0, 0, 0, 0, 0, 0, 0x20000, 0xFEE00000, 0, 0x03140000, 0, 0, 0, 0, 1, 0] ! i
     else if i \<in> {768..771} then [0x5F504D5F, 0x9F000, 0x270401, 0x80] ! (i - 768) else 0)"

definition demo_firmware :: pmem where
  "demo_firmware = demo_mem\<lparr>npages := 257, phys := \<lambda>q i. if q = 0 then (if i = 260 then 0x80000000 else if i = 261 then 2 else 0)
     else if q = 0x9F then demo_table_words i else 0\<rparr>"

lemma sum_step: "0 < n \<Longrightarrow> sum_loop s a n acc = do { b \<leftarrow> phys_byte s a; sum_loop s (a + 1) (n - 1) (acc + uint b) }"
  by (cases n) simp_all

lemma demo_byte: "phys_byte demo_firmware a = (if PGNUM a < 257 then Some (get_byte (if PGNUM a = 0 then
      (if word_slot a = 260 then 0x80000000 else if word_slot a = 261 then 2 else 0)
     else if PGNUM a = 0x9F then demo_table_words (word_slot a) else 0) (byte_lane a)) else None)"
  by (simp add: phys_byte_def demo_firmware_def)

lemmas demo_eval = demo_byte demo_table_words_def PGNUM_def word_slot_def byte_lane_def get_byte_def

lemma demo_mp:
  "is_mp demo_firmware 0x9FC00 = Some True" "read_mp demo_firmware 0x9FC00 = Some \<lparr>mp_physaddr = 0x9F000, mp_type = 0, mp_imcrp = 0x80\<rparr>"
  "phys_half demo_firmware 0x40E = Some 0" "phys_half demo_firmware 0x413 = Some 640"
  by (simp_all add: is_mp_def MP_SIGNATURE_def mp_sum_def sum_step read_mp_def phys_word_def phys_half_def demo_eval)

definition demo_conf :: mp_conf where
  "demo_conf = \<lparr>conf_length = 72, conf_version = 4, conf_entry = 2, conf_lapicaddr = 0xFEE00000, conf_xlength = 0, conf_xchecksum = 0\<rparr>"

lemma demo_sum: "mp_sum demo_firmware 0x9F000 72 = Some 0"
  by (simp add: mp_sum_def sum_step demo_eval)

lemma demo_conf_ok: "valid_conf demo_firmware 0x9F000 demo_conf [Processor 3, Device]"
proof -
  have "phys_match demo_firmware 0x9F000 PCMP_SIGNATURE = Some True" by (simp add: PCMP_SIGNATURE_def demo_eval)
  moreover have "read_conf demo_firmware 0x9F000 = Some demo_conf"
    by (simp add: read_conf_def phys_word_def phys_half_def demo_eval demo_conf_def)
  moreover have "items_at demo_firmware (0x9F000 + 44) [Processor 3, Device]"
    by (simp add: demo_eval MPPROC_def MPBUS_def)
  moreover have "PGNUM 0x9F000 < npages demo_firmware" by (simp add: demo_firmware_def PGNUM_def)
  ultimately show ?thesis using demo_sum by (simp add: valid_conf_def demo_conf_def mp_sum_def)
qed

lemma byte_there: "PGNUM a < npages s \<Longrightarrow> \<exists>b. phys_byte s a = Some b"
  by (simp add: phys_byte_def)

lemma is_mp_reads:
  assumes "\<And>i. i < 16 \<Longrightarrow> PGNUM (a + word_of_nat i) < npages s"
  shows "is_mp s a \<noteq> None"
proof -
  have sum: "sum_loop s b n acc \<noteq> None" if "\<And>i. i < n \<Longrightarrow> PGNUM (b + word_of_nat i) < npages s" for b n acc
    using that
  proof (induction n arbitrary: b acc)
    case (Suc n)
    obtain x where "phys_byte s b = Some x" using byte_there [of b s] Suc.prems [of 0] by auto
    moreover have "PGNUM (b + 1 + word_of_nat i) < npages s" if "i < n" for i
      using Suc.prems [of "Suc i"] that by (simp add: algebra_simps)
    ultimately show ?case using Suc.IH [of "b + 1"] by simp
  qed simp
  have "phys_match s b xs \<noteq> None" if "\<And>i. i < length xs \<Longrightarrow> PGNUM (b + word_of_nat i) < npages s" for b xs
    using that
  proof (induction xs arbitrary: b)
    case (Cons y xs)
    obtain x where "phys_byte s b = Some x" using byte_there [of b s] Cons.prems [of 0] by auto
    moreover have "PGNUM (b + 1 + word_of_nat i) < npages s" if "i < length xs" for i
      using Cons.prems [of "Suc i"] that by (simp add: algebra_simps)
    ultimately show ?case using Cons.IH [of "b + 1"] by (cases "x = y") simp_all
  qed simp
  from this [of MP_SIGNATURE a] assms obtain r where "phys_match s a MP_SIGNATURE = Some r" by (auto simp: MP_SIGNATURE_def simp del: phys_match.simps)
  moreover obtain t where "sum_loop s a 16 0 = Some t" using sum [of 16 a 0] assms by auto
  ultimately show ?thesis by (cases r) (simp_all add: is_mp_def mp_sum_def)
qed

lemma demo_area: "firmware_area demo_firmware 0 640"
proof -
  have "is_mp demo_firmware c \<noteq> None" if c: "c \<in> set (steps16 a n)" and a: "unat a + 16 * n \<le> 1048576" for a c n
  proof (rule is_mp_reads)
    fix i :: nat assume i: "i < 16"
    obtain k where k: "k < n" "c = a + 16 * word_of_nat k" using c by (auto simp: steps16_def)
    have "unat (c + word_of_nat i) = unat a + 16 * k + i"
    proof -
      have "c + word_of_nat i = word_of_nat (unat a + 16 * k + i)" using k(2) by simp
      moreover have "unat a + 16 * k + i < 2 ^ 32" using k(1) i a by simp
      then have "unat (word_of_nat (unat a + 16 * k + i) :: w32) = unat a + 16 * k + i"
        by (simp add: unsigned_of_nat take_bit_nat_eq_self del: of_nat_add of_nat_mult)
      ultimately show ?thesis by (simp only:)
    qed
    moreover have "unat a + 16 * k + i < 1048576" using k(1) i a by simp
    ultimately have "PGNUM (c + word_of_nat i) < 256" by (simp add: PGNUM_div)
    then show "PGNUM (c + word_of_nat i) < npages demo_firmware" by (simp add: demo_firmware_def)
  qed
  note area = this [of _ "0x9FC00" 64] this [of _ "0xF0000" 4096]
  have "\<forall>c\<in>set (mp_candidates 0 640). is_mp demo_firmware c \<noteq> None" using area by (auto simp: mp_candidates_def)
  then show ?thesis using demo_mp(3,4) by (simp add: firmware_area_def PGNUM_def) (simp add: demo_firmware_def)
qed

lemma mp_init_finds_processors_witness:
  "\<exists>st'. mp_init 0 demo_firmware \<lparr>bootcpu = 0, ismp = False, ncpu = 0, lapicaddr = 0, cpu_id = \<lambda>_. 0, mp_status = \<lambda>_. CPU_UNUSED\<rparr> =
     Some (st', [(0x22, 0x70), (0x23, 1)]) \<and> ncpu st' = 1 \<and> bootcpu st' = 0 \<and> lapicaddr st' = 0xFEE00000 \<and> mp_status st' 0 = CPU_STARTED"
proof -
  let ?st = "\<lparr>bootcpu = 0, ismp = False, ncpu = 0, lapicaddr = 0, cpu_id = \<lambda>_. 0, mp_status = \<lambda>_. CPU_UNUSED\<rparr>"
  have "steps16 0x9FC00 64 = 0x9FC00 # steps16 (0x9FC00 + 16) 63" using steps16_Suc [of "0x9FC00" 63] by simp
  then have found: "find (valid_mp demo_firmware) (mp_candidates 0 640) = Some 0x9FC00"
    using demo_mp(1) by (simp add: mp_candidates_def valid_mp_def)
  have boot: "boot_index (processors [Processor 3, Device]) = 0" by (simp add: boot_index_def boot_flags_def MPPROC_BOOT_def)
  have "boot_state ?st" by (simp add: boot_state_def)
  from mp_init_finds_processors [OF this demo_area found demo_mp(2) _ _ _, of demo_conf "[Processor 3, Device]" 0]
  show ?thesis using demo_conf_ok boot by (auto simp: NCPU_def demo_conf_def)
qed

end
