(* ===== verification/Devices.thy ===== *)
theory Devices
  imports Trap MpConfig
begin

unbundle bit_operations_syntax

text \<open>
  The devices and the processor while the kernel starts: the interrupt controllers (\<open>picirq.c\<close>, \<open>lapic.c\<close>), the clock
  (\<open>kclock.c\<close>), the initialisation of the console (\<open>console.c\<close>), and the segments of a processor (\<open>env.c\<close>, \<open>trap.c\<close>,
  \<open>mmu.h\<close>). What a device answers is an argument; what is written to ports and to registers of the local APIC is a
  result, in the order of the writes. The numbers that \<open>irq_setmask_8259A\<close> prints are a function of their own.
\<close>

datatype bus_write = Outb w16 w8 | Lapicw nat w32

subsection \<open>The clock chip and the 8259A controllers\<close>

definition IO_RTC :: w16 where "IO_RTC = 0x70"
definition IO_PIC1 :: w16 where "IO_PIC1 = 0x20"
definition IO_PIC2 :: w16 where "IO_PIC2 = 0xA0"
definition IRQ_SLAVE :: nat where "IRQ_SLAVE = 2"
definition IRQ_KBD :: nat where "IRQ_KBD = 1"
definition IRQ_ERROR :: w32 where "IRQ_ERROR = 19"

definition mc146818_read :: "(nat \<Rightarrow> w8) \<Rightarrow> nat \<Rightarrow> w8 \<times> bus_write list" where
  "mc146818_read chip r = (chip r, [Outb IO_RTC (word_of_nat r)])"

definition mc146818_write :: "nat \<Rightarrow> w8 \<Rightarrow> bus_write list" where
  "mc146818_write r datum = [Outb IO_RTC (word_of_nat r), Outb (IO_RTC + 1) datum]"

record pic =
  irq_mask_8259A :: w16
  didinit :: bool

definition initial_pic :: pic where
  "initial_pic = \<lparr>irq_mask_8259A = 0xFFFF AND NOT (push_bit IRQ_SLAVE 1), didinit = False\<rparr>"

definition irq_setmask_8259A :: "w16 \<Rightarrow> pic \<Rightarrow> pic \<times> bus_write list" where
  "irq_setmask_8259A msk p =
     (let p = p\<lparr>irq_mask_8259A := msk\<rparr>
      in (p, if didinit p then [Outb (IO_PIC1 + 1) (ucast msk), Outb (IO_PIC2 + 1) (ucast (drop_bit 8 msk))] else []))"

text \<open>The interrupts that it prints.\<close>

definition enabled_interrupts :: "w16 \<Rightarrow> nat list" where
  "enabled_interrupts msk = filter (\<lambda>i. NOT msk AND push_bit i 1 \<noteq> 0) [0..<16]"

definition pic_init :: "pic \<Rightarrow> pic \<times> bus_write list" where
  "pic_init p =
     (let p = p\<lparr>didinit := True\<rparr>;
          ws = [Outb (IO_PIC1 + 1) 0xFF, Outb (IO_PIC2 + 1) 0xFF,
                Outb IO_PIC1 0x11, Outb (IO_PIC1 + 1) (ucast IRQ_OFFSET), Outb (IO_PIC1 + 1) (push_bit IRQ_SLAVE 1),
                Outb (IO_PIC1 + 1) 0x3,
                Outb IO_PIC2 0x11, Outb (IO_PIC2 + 1) (ucast IRQ_OFFSET + 8), Outb (IO_PIC2 + 1) (word_of_nat IRQ_SLAVE),
                Outb (IO_PIC2 + 1) 0x01,
                Outb IO_PIC1 0x68, Outb IO_PIC1 0x0A, Outb IO_PIC2 0x68, Outb IO_PIC2 0x0A]
      in if irq_mask_8259A p \<noteq> 0xFFFF
         then (case irq_setmask_8259A (irq_mask_8259A p) p of (p, ws') \<Rightarrow> (p, ws @ ws'))
         else (p, ws))"

subsection \<open>The local APIC\<close>

text \<open>The register numbers and bits of \<open>lapic.c\<close>; a register is named by its index in the array of words.\<close>

definition LAPIC_ID :: nat where "LAPIC_ID = 0x20 div 4"
definition LAPIC_VER :: nat where "LAPIC_VER = 0x30 div 4"
definition LAPIC_TPR :: nat where "LAPIC_TPR = 0x80 div 4"
definition LAPIC_EOI :: nat where "LAPIC_EOI = 0xB0 div 4"
definition LAPIC_SVR :: nat where "LAPIC_SVR = 0xF0 div 4"
definition LAPIC_ENABLE :: w32 where "LAPIC_ENABLE = 0x100"
definition LAPIC_ESR :: nat where "LAPIC_ESR = 0x280 div 4"
definition LAPIC_ICRLO :: nat where "LAPIC_ICRLO = 0x300 div 4"
definition LAPIC_INIT :: w32 where "LAPIC_INIT = 0x500"
definition LAPIC_STARTUP :: w32 where "LAPIC_STARTUP = 0x600"
definition LAPIC_DELIVS :: w32 where "LAPIC_DELIVS = 0x1000"
definition LAPIC_ASSERT :: w32 where "LAPIC_ASSERT = 0x4000"
definition LAPIC_LEVEL :: w32 where "LAPIC_LEVEL = 0x8000"
definition LAPIC_BCAST :: w32 where "LAPIC_BCAST = 0x80000"
definition LAPIC_OTHERS :: w32 where "LAPIC_OTHERS = 0xC0000"
definition LAPIC_FIXED :: w32 where "LAPIC_FIXED = 0"
definition LAPIC_ICRHI :: nat where "LAPIC_ICRHI = 0x310 div 4"
definition LAPIC_TIMER :: nat where "LAPIC_TIMER = 0x320 div 4"
definition LAPIC_X1 :: w32 where "LAPIC_X1 = 0xB"
definition LAPIC_PERIODIC :: w32 where "LAPIC_PERIODIC = 0x20000"
definition LAPIC_PCINT :: nat where "LAPIC_PCINT = 0x340 div 4"
definition LAPIC_LINT0 :: nat where "LAPIC_LINT0 = 0x350 div 4"
definition LAPIC_LINT1 :: nat where "LAPIC_LINT1 = 0x360 div 4"
definition LAPIC_ERROR :: nat where "LAPIC_ERROR = 0x370 div 4"
definition LAPIC_MASKED :: w32 where "LAPIC_MASKED = 0x10000"
definition LAPIC_TICR :: nat where "LAPIC_TICR = 0x380 div 4"
definition LAPIC_TDCR :: nat where "LAPIC_TDCR = 0x3E0 div 4"

text \<open>\<open>lapic\<close> is the address where the registers are mapped, 0 before that; \<open>idreg\<close> is what the register answers to the
  processor that reads it.\<close>

definition cpunum :: "w32 \<Rightarrow> w32 \<Rightarrow> nat" where
  "cpunum lapic idreg = (if lapic \<noteq> 0 then unat (drop_bit 24 idreg) else 0)"

text \<open>Waiting for a delivery; \<open>polls\<close> are the answers of the register. With no answer left the loop does not end.\<close>

fun wait_delivered :: "w32 list \<Rightarrow> unit option" where
  "wait_delivered [] = None"
| "wait_delivered (r # rs) = (if r AND LAPIC_DELIVS \<noteq> 0 then wait_delivered rs else Some ())"

text \<open>What the local APIC of a processor answers.\<close>

record apic =
  apic_id :: w32
  apic_version :: w32
  icr_polls :: "w32 list"

definition lapic_init :: "apic \<Rightarrow> nat \<Rightarrow> w32 \<Rightarrow> pmem \<times> w32 \<Rightarrow> ((pmem \<times> w32) \<times> bus_write list) option" where
  "lapic_init a boot addr = (\<lambda>(m, lapic).
     if addr = 0 then Some ((m, lapic), [])
     else do {
       (m, lapic) \<leftarrow> mmio_map_region m addr 4096;
       _ \<leftarrow> wait_delivered (icr_polls a);
       Some ((m, lapic),
         [Lapicw LAPIC_SVR (LAPIC_ENABLE OR (IRQ_OFFSET + IRQ_SPURIOUS)),
          Lapicw LAPIC_TDCR LAPIC_X1,
          Lapicw LAPIC_TIMER (LAPIC_PERIODIC OR (IRQ_OFFSET + IRQ_TIMER)),
          Lapicw LAPIC_TICR 10000000] @
         (if cpunum lapic (apic_id a) \<noteq> boot then [Lapicw LAPIC_LINT0 LAPIC_MASKED] else []) @
         [Lapicw LAPIC_LINT1 LAPIC_MASKED] @
         (if 4 \<le> drop_bit 16 (apic_version a) AND 0xFF then [Lapicw LAPIC_PCINT LAPIC_MASKED] else []) @
         [Lapicw LAPIC_ERROR (IRQ_OFFSET + IRQ_ERROR),
          Lapicw LAPIC_ESR 0, Lapicw LAPIC_ESR 0,
          Lapicw LAPIC_EOI 0,
          Lapicw LAPIC_ICRHI 0,
          Lapicw LAPIC_ICRLO (LAPIC_BCAST OR LAPIC_INIT OR LAPIC_LEVEL),
          Lapicw LAPIC_TPR 0]) })"

definition lapic_eoi :: "w32 \<Rightarrow> bus_write list" where
  "lapic_eoi lapic = (if lapic \<noteq> 0 then [Lapicw LAPIC_EOI 0] else [])"

definition lapic_ipi :: "w32 \<Rightarrow> w32 list \<Rightarrow> w32 \<Rightarrow> bus_write list option" where
  "lapic_ipi lapic polls vector =
     (if lapic = 0 then None
      else do { _ \<leftarrow> wait_delivered polls; Some [Lapicw LAPIC_ICRLO (LAPIC_OTHERS OR LAPIC_FIXED OR vector)] })"

text \<open>A byte of physical memory through its kernel address.\<close>

definition phys_set_byte :: "pmem \<Rightarrow> w32 \<Rightarrow> w8 \<Rightarrow> pmem option" where
  "phys_set_byte s a b = (if PGNUM a < npages s
     then Some (store_word s (PGNUM a) (word_slot a) (set_byte (phys s (PGNUM a) (word_slot a)) (byte_lane a) b)) else None)"

fun phys_set_bytes :: "pmem \<Rightarrow> w32 \<Rightarrow> w8 list \<Rightarrow> pmem option" where
  "phys_set_bytes s a [] = Some s"
| "phys_set_bytes s a (b # bs) = do { s \<leftarrow> phys_set_byte s a b; phys_set_bytes s (a + 1) bs }"

text \<open>The warm reset vector is two 16-bit words, of which the first is 0; \<open>microdelay\<close> does nothing.\<close>

definition lapic_startap :: "w32 \<Rightarrow> nat \<Rightarrow> w32 \<Rightarrow> pmem \<Rightarrow> (pmem \<times> bus_write list) option" where
  "lapic_startap lapic apicid addr m = do {
     _ \<leftarrow> KADDR (npages m) (0x400 OR 0x67);
     let segment = (ucast (drop_bit 4 addr) :: w16);
     m \<leftarrow> phys_set_bytes m (0x400 OR 0x67) [0, 0, ucast segment, ucast (drop_bit 8 segment)];
     let target = push_bit 24 (word_of_nat apicid);
     if lapic = 0 then None
     else Some (m, [Outb IO_RTC 0xF, Outb (IO_RTC + 1) 0x0A,
       Lapicw LAPIC_ICRHI target,
       Lapicw LAPIC_ICRLO (LAPIC_INIT OR LAPIC_LEVEL OR LAPIC_ASSERT),
       Lapicw LAPIC_ICRLO (LAPIC_INIT OR LAPIC_LEVEL)] @
       concat (replicate 2 [Lapicw LAPIC_ICRHI target, Lapicw LAPIC_ICRLO (LAPIC_STARTUP OR drop_bit 12 addr)])) }"

subsection \<open>The console\<close>

definition COM1 :: w16 where "COM1 = 0x3F8"
definition CGA_BASE :: w16 where "CGA_BASE = 0x3D4"
definition MONO_BASE :: w16 where "MONO_BASE = 0x3B4"

text \<open>\<open>lsr\<close> is the answer of the line status register.\<close>

definition serial_init :: "w8 \<Rightarrow> console \<Rightarrow> console \<times> bus_write list" where
  "serial_init lsr c = (c\<lparr>serial_exists := (lsr \<noteq> 0xFF)\<rparr>,
     [Outb (COM1 + 2) 0, Outb (COM1 + 3) 0x80, Outb COM1 (115200 div 9600), Outb (COM1 + 1) 0,
      Outb (COM1 + 3) (0x03 AND NOT 0x80), Outb (COM1 + 4) 0, Outb (COM1 + 1) 0x01])"

text \<open>\<open>back\<close> is what is read after the test pattern was written to the memory of the colour display; the cursor is the
  answer of the display's registers. The result has the base port of the display and the position.\<close>

definition cga_init :: "w16 \<Rightarrow> w8 \<times> w8 \<Rightarrow> (w16 \<times> w16) \<times> bus_write list" where
  "cga_init readback cursor =
     (let base = (if readback \<noteq> 0xA55A then MONO_BASE else CGA_BASE)
      in ((base, push_bit 8 (ucast (fst cursor)) OR ucast (snd cursor)), [Outb base 14, Outb base 15]))"

definition kbd_init :: "reading list \<Rightarrow> console \<Rightarrow> pic \<Rightarrow> (console \<times> pic) \<times> bus_write list" where
  "kbd_init kbd c p =
     (case irq_setmask_8259A (irq_mask_8259A p AND NOT (push_bit IRQ_KBD 1)) p of
        (p, ws) \<Rightarrow> ((fst (kbd_intr kbd c), p), ws))"

text \<open>What the devices of the console answer.\<close>

record console_answers =
  cga_readback :: w16
  cga_cursor :: "w8 \<times> w8"
  kbd_pending :: "reading list"
  com_lsr :: w8

definition cons_init :: "console_answers \<Rightarrow> console \<Rightarrow> pic \<Rightarrow> (console \<times> pic \<times> w16 \<times> w16) \<times> bus_write list" where
  "cons_init an c p =
     (case cga_init (cga_readback an) (cga_cursor an) of ((base, pos), ws1) \<Rightarrow>
      case kbd_init (kbd_pending an) c p of ((c, p), ws2) \<Rightarrow>
      case serial_init (com_lsr an) c of (c, ws3) \<Rightarrow>
        ((c, p, base, pos), ws1 @ ws2 @ ws3))"

subsection \<open>Segments\<close>

definition GD_KD :: w16 where "GD_KD = 0x10"
definition GD_TSS0 :: w16 where "GD_TSS0 = 0x28"

record segdesc =
  sd_lim_15_0 :: w16
  sd_base_15_0 :: w16
  sd_base_23_16 :: w8
  sd_type :: w8
  sd_s :: bool
  sd_dpl :: nat
  sd_p :: bool
  sd_lim_19_16 :: "4 word"
  sd_avl :: bool
  sd_rsv1 :: bool
  sd_db :: bool
  sd_g :: bool
  sd_base_31_24 :: w8

definition SEG_NULL :: segdesc where
  "SEG_NULL = \<lparr>sd_lim_15_0 = 0, sd_base_15_0 = 0, sd_base_23_16 = 0, sd_type = 0, sd_s = False, sd_dpl = 0, sd_p = False,
     sd_lim_19_16 = 0, sd_avl = False, sd_rsv1 = False, sd_db = False, sd_g = False, sd_base_31_24 = 0\<rparr>"

definition SEG :: "w8 \<Rightarrow> w32 \<Rightarrow> w32 \<Rightarrow> nat \<Rightarrow> segdesc" where
  "SEG type base lim dpl = \<lparr>sd_lim_15_0 = ucast (drop_bit 12 lim AND 0xFFFF), sd_base_15_0 = ucast (base AND 0xFFFF),
     sd_base_23_16 = ucast (drop_bit 16 base AND 0xFF), sd_type = type, sd_s = True, sd_dpl = dpl, sd_p = True,
     sd_lim_19_16 = ucast (drop_bit 28 lim), sd_avl = False, sd_rsv1 = False, sd_db = True, sd_g = True,
     sd_base_31_24 = ucast (drop_bit 24 base)\<rparr>"

definition SEG16 :: "w8 \<Rightarrow> w32 \<Rightarrow> w32 \<Rightarrow> nat \<Rightarrow> segdesc" where
  "SEG16 type base lim dpl = \<lparr>sd_lim_15_0 = ucast (lim AND 0xFFFF), sd_base_15_0 = ucast (base AND 0xFFFF),
     sd_base_23_16 = ucast (drop_bit 16 base AND 0xFF), sd_type = type, sd_s = True, sd_dpl = dpl, sd_p = True,
     sd_lim_19_16 = ucast (drop_bit 16 lim), sd_avl = False, sd_rsv1 = False, sd_db = True, sd_g = False,
     sd_base_31_24 = ucast (drop_bit 24 base)\<rparr>"

definition STA_X :: w8 where "STA_X = 0x8"
definition STA_W :: w8 where "STA_W = 0x2"
definition STA_R :: w8 where "STA_R = 0x2"
definition STS_T32A :: w8 where "STS_T32A = 0x9"

text \<open>The descriptors by index, a selector divided by 8. The table has \<open>NCPU + 5\<close> entries.\<close>

definition initial_gdt :: "nat \<Rightarrow> segdesc" where
  "initial_gdt = (\<lambda>_. SEG_NULL)(
     1 := SEG (STA_X OR STA_R) 0 0xFFFFFFFF 0,
     2 := SEG STA_W 0 0xFFFFFFFF 0,
     3 := SEG (STA_X OR STA_R) 0 0xFFFFFFFF 3,
     4 := SEG STA_W 0 0xFFFFFFFF 3)"

text \<open>The fields of \<open>struct Taskstate\<close> that are written, and the registers of a processor.\<close>

record taskstate =
  ts_esp0 :: w32
  ts_ss0 :: w16
  ts_iomb :: w16

record cpu_regs =
  gdtr_limit :: w16
  idtr_limit :: w16
  seg_gs :: w16
  seg_fs :: w16
  seg_es :: w16
  seg_ds :: w16
  seg_ss :: w16
  seg_cs :: w16
  ldtr :: w16
  task_register :: w16

definition env_init_percpu :: "cpu_regs \<Rightarrow> cpu_regs" where
  "env_init_percpu r = r\<lparr>gdtr_limit := word_of_nat ((NCPU + 5) * 8 - 1), seg_gs := GD_UD OR 3, seg_fs := GD_UD OR 3,
     seg_es := GD_KD, seg_ds := GD_KD, seg_ss := GD_KD, seg_cs := GD_KT, ldtr := 0\<rparr>"

definition sizeof_Taskstate :: w32 where "sizeof_Taskstate = 104"

text \<open>\<open>thisid\<close> is \<open>cpu_id\<close> of the processor, \<open>ts\<close> the address of its task state.\<close>

definition trap_init_percpu :: "nat \<Rightarrow> w32 \<Rightarrow> (nat \<Rightarrow> segdesc) \<times> cpu_regs \<Rightarrow> ((nat \<Rightarrow> segdesc) \<times> cpu_regs \<times> taskstate) option" where
  "trap_init_percpu thisid ts = (\<lambda>(gdt, r).
     if 5 + thisid \<ge> NCPU + 5 then None
     else Some (gdt(5 + thisid := (SEG16 STS_T32A ts (sizeof_Taskstate - 1) 0)\<lparr>sd_s := False\<rparr>),
       r\<lparr>task_register := GD_TSS0 + push_bit 3 (word_of_nat thisid), idtr_limit := word_of_nat (256 * 8 - 1)\<rparr>,
       \<lparr>ts_esp0 = kstack_top thisid, ts_ss0 = GD_KD, ts_iomb = ucast sizeof_Taskstate\<rparr>))"

text \<open>The directory with which the processor starts: 4 MB pages at address 0 and at \<open>KERNBASE\<close>.\<close>

definition entry_pgdir :: "nat \<Rightarrow> w32" where
  "entry_pgdir = (\<lambda>_. 0)(0 := 0 + PTE_P + PTE_PS, PDX KERNBASE := 0 + PTE_P + PTE_W + PTE_PS)"

end
