(* ===== verification/Boot.thy ===== *)
theory Boot
  imports Devices ElfLoad
begin

unbundle bit_operations_syntax

text \<open>
  The start of the kernel (\<open>sched/kern/init.c\<close>). The statics of the kernel are one record; at the start, when the
  \<open>bss\<close> has been cleared, they are zero, and only memory has contents. The answers of the devices and the addresses
  that the linker chooses are arguments. \<open>None\<close> is a panic, or waiting for a processor that does not start. The other
  processors wait for the kernel lock at the end of what they do here, so the boot processor is the only one that goes on.
  Left out: the lines that are printed, and \<open>mpentry_kstack\<close>, which only the assembly of \<open>mpentry.S\<close> reads.
\<close>

record boot_machine =
  m_kern :: kern
  m_mp :: mp_state
  m_lapic :: w32
  m_pic :: pic
  m_console :: console
  m_crt :: "w16 \<times> w16"
  m_gdt :: "nat \<Rightarrow> segdesc"
  m_tss :: "nat \<Rightarrow> taskstate"
  m_regs :: "nat \<Rightarrow> cpu_regs"
  m_idt :: "(nat \<times> nat) list"
  m_bus :: "bus_write list"

text \<open>The answers: the clock chip, the console, port 0x23, and the local APIC of the boot processor and of each other
  processor, with whether that one starts.\<close>

record hardware =
  hw_nvram :: "nat \<Rightarrow> w8"
  hw_console :: console_answers
  hw_imcr :: w8
  hw_boot :: apic
  hw_aps :: "nat \<Rightarrow> apic option"

record linked =
  kernel_end :: w32
  cpu_stacks :: "nat \<Rightarrow> w32"
  cpu_tss :: "nat \<Rightarrow> w32"
  mpentry_code :: "w8 list"

definition on_bus :: "bus_write list \<Rightarrow> boot_machine \<Rightarrow> boot_machine" where
  "on_bus ws m = m\<lparr>m_bus := m_bus m @ ws\<rparr>"

subsection \<open>The state at the start\<close>

definition zero_env :: env where
  "zero_env = \<lparr>env_tf = zero_tf, env_link = None, env_id = 0, env_parent_id = 0, env_type = 0, env_status = ENV_FREE,
     env_runs = 0, env_cpunum = 0, env_pgdir = None, env_pgfault_upcall = 0, env_ipc_recving = False, env_ipc_dstva = 0,
     env_ipc_value = 0, env_ipc_from = 0, env_ipc_perm = 0, current_queue = 0, executions = 0\<rparr>"

definition cleared_memory :: "(nat \<Rightarrow> nat \<Rightarrow> w32) \<Rightarrow> pmem" where
  "cleared_memory contents = \<lparr>npages = 0, phys = contents, pp_link = \<lambda>_. None, pp_ref = \<lambda>_. 0, page_free_list = None,
     kern_pgdir = 0, mmio_base = MMIOBASE\<rparr>"

definition cleared_kern :: "pmem \<Rightarrow> kern" where
  "cleared_kern v = \<lparr>envs = \<lambda>_. zero_env, env_free_list = None, cpu_env = \<lambda>_. None, cpu_status = \<lambda>_. CPU_UNUSED,
     cpu_cr3 = \<lambda>_. 0, kernel_locked = False, mlfq = initial_mlfq, sched_runs = 0, vm = v\<rparr>"

definition zero_regs :: cpu_regs where
  "zero_regs = \<lparr>gdtr_limit = 0, idtr_limit = 0, seg_gs = 0, seg_fs = 0, seg_es = 0, seg_ds = 0, seg_ss = 0, seg_cs = 0,
     ldtr = 0, task_register = 0\<rparr>"

definition cleared_machine :: "(nat \<Rightarrow> nat \<Rightarrow> w32) \<Rightarrow> boot_machine" where
  "cleared_machine contents = \<lparr>m_kern = cleared_kern (cleared_memory contents),
     m_mp = \<lparr>bootcpu = 0, ismp = False, ncpu = 0, lapicaddr = 0, cpu_id = \<lambda>_. 0, mp_status = \<lambda>_. CPU_UNUSED\<rparr>,
     m_lapic = 0, m_pic = initial_pic,
     m_console = \<lparr>c_buf = replicate CONSBUFSIZE 0, rpos = 0, wpos = 0, kbd_shift = 0, serial_exists = False, rebooted = False\<rparr>,
     m_crt = (0, 0), m_gdt = initial_gdt, m_tss = \<lambda>_. \<lparr>ts_esp0 = 0, ts_ss0 = 0, ts_iomb = 0\<rparr>,
     m_regs = \<lambda>_. zero_regs, m_idt = [], m_bus = []\<rparr>"

subsection \<open>The steps\<close>

definition boot_console :: "hardware \<Rightarrow> boot_machine \<Rightarrow> boot_machine" where
  "boot_console h m =
     (case cons_init (hw_console h) (m_console m) (m_pic m) of ((c, p, crt), ws) \<Rightarrow>
        on_bus ws (m\<lparr>m_console := c, m_pic := p, m_crt := crt\<rparr>))"

text \<open>The processor whose registers are set is the one with the number that \<open>cpunum\<close> gives.\<close>

definition boot_cpu :: "hardware \<Rightarrow> boot_machine \<Rightarrow> nat" where
  "boot_cpu h m = cpunum (m_lapic m) (apic_id (hw_boot h))"

definition boot_memory :: "linked \<Rightarrow> hardware \<Rightarrow> boot_machine \<Rightarrow> boot_machine option" where
  "boot_memory k h m = do {
     (v, _, _) \<leftarrow> mem_init (hw_nvram h) (kernel_end k) (cpu_stacks k) (vm (m_kern m));
     Some (m\<lparr>m_kern := (m_kern m)\<lparr>vm := v, cpu_cr3 := (cpu_cr3 (m_kern m))(boot_cpu h m := kern_pgdir v)\<rparr>\<rparr>) }"

definition segments_percpu :: "nat \<Rightarrow> boot_machine \<Rightarrow> boot_machine" where
  "segments_percpu c m = m\<lparr>m_regs := (m_regs m)(c := env_init_percpu (m_regs m c))\<rparr>"

definition traps_percpu :: "linked \<Rightarrow> nat \<Rightarrow> boot_machine \<Rightarrow> boot_machine option" where
  "traps_percpu k c m = do {
     (gdt, r, ts) \<leftarrow> trap_init_percpu (cpu_id (m_mp m) c) (cpu_tss k c) (m_gdt m, m_regs m c);
     Some (m\<lparr>m_gdt := gdt, m_regs := (m_regs m)(c := r), m_tss := (m_tss m)(c := ts)\<rparr>) }"

definition boot_envs :: "linked \<Rightarrow> hardware \<Rightarrow> boot_machine \<Rightarrow> boot_machine option" where
  "boot_envs k h m = do {
     let m = segments_percpu (boot_cpu h m) (m\<lparr>m_kern := env_init (m_kern m)\<rparr>);
     traps_percpu k (boot_cpu h m) (m\<lparr>m_idt := trap_init\<rparr>) }"

definition boot_mp :: "hardware \<Rightarrow> boot_machine \<Rightarrow> boot_machine option" where
  "boot_mp h m = do {
     (st, ports) \<leftarrow> mp_init (hw_imcr h) (vm (m_kern m)) (m_mp m);
     Some (on_bus (map (\<lambda>(p, b). Outb p b) ports)
       (m\<lparr>m_mp := st, m_kern := (m_kern m)\<lparr>cpu_status := mp_status st\<rparr>\<rparr>)) }"

definition boot_lapic :: "apic \<Rightarrow> boot_machine \<Rightarrow> boot_machine option" where
  "boot_lapic a m = do {
     ((v, l), ws) \<leftarrow> lapic_init a (bootcpu (m_mp m)) (lapicaddr (m_mp m)) (vm (m_kern m), m_lapic m);
     Some (on_bus ws (m\<lparr>m_kern := (m_kern m)\<lparr>vm := v\<rparr>, m_lapic := l\<rparr>)) }"

definition boot_pic :: "boot_machine \<Rightarrow> boot_machine" where
  "boot_pic m = (case pic_init (m_pic m) of (p, ws) \<Rightarrow> on_bus ws (m\<lparr>m_pic := p\<rparr>))"

definition boot_lock :: "boot_machine \<Rightarrow> boot_machine option" where
  "boot_lock m = do { s \<leftarrow> lock_kernel (m_kern m); Some (m\<lparr>m_kern := s\<rparr>) }"

subsection \<open>The other processors\<close>

text \<open>\<open>mp_main\<close> up to the lock, on the processor with the local APIC \<open>a\<close>. Its status has two copies in the model,
  the one of \<open>mp_init\<close> and the one of the scheduler.\<close>

definition mp_main :: "linked \<Rightarrow> apic \<Rightarrow> boot_machine \<Rightarrow> boot_machine option" where
  "mp_main k a m = do {
     let c = cpunum (m_lapic m) (apic_id a);
     let m = m\<lparr>m_kern := (m_kern m)\<lparr>cpu_cr3 := (cpu_cr3 (m_kern m))(c := kern_pgdir (vm (m_kern m)))\<rparr>\<rparr>;
     m \<leftarrow> boot_lapic a m;
     let m = segments_percpu c m;
     m \<leftarrow> traps_percpu k c m;
     Some (m\<lparr>m_mp := (m_mp m)\<lparr>mp_status := (mp_status (m_mp m))(c := CPU_STARTED)\<rparr>,
       m_kern := (m_kern m)\<lparr>cpu_status := (cpu_status (m_kern m))(c := CPU_STARTED)\<rparr>\<rparr>) }"

text \<open>The boot processor starts processor \<open>c\<close> and waits until its status says that it has.\<close>

fun start_aps :: "linked \<Rightarrow> hardware \<Rightarrow> nat list \<Rightarrow> boot_machine \<Rightarrow> boot_machine option" where
  "start_aps k h [] m = Some m"
| "start_aps k h (c # cs) m =
     (if c = boot_cpu h m then start_aps k h cs m
      else do {
        (v, ws) \<leftarrow> lapic_startap (m_lapic m) (cpu_id (m_mp m) c) MPENTRY_PADDR (vm (m_kern m));
        a \<leftarrow> hw_aps h c;
        m \<leftarrow> mp_main k a (on_bus ws (m\<lparr>m_kern := (m_kern m)\<lparr>vm := v\<rparr>\<rparr>));
        if mp_status (m_mp m) c \<noteq> CPU_STARTED then None else start_aps k h cs m })"

definition boot_aps :: "linked \<Rightarrow> hardware \<Rightarrow> boot_machine \<Rightarrow> boot_machine option" where
  "boot_aps k h m = do {
     _ \<leftarrow> KADDR (npages (vm (m_kern m))) MPENTRY_PADDR;
     v \<leftarrow> phys_set_bytes (vm (m_kern m)) MPENTRY_PADDR (mpentry_code k);
     start_aps k h [0..<ncpu (m_mp m)] (m\<lparr>m_kern := (m_kern m)\<lparr>vm := v\<rparr>\<rparr>) }"

subsection \<open>The first programs\<close>

definition ENV_TYPE_USER :: nat where "ENV_TYPE_USER = 0"

text \<open>The calls of \<open>ENV_CREATE\<close>, for a list of programs.\<close>

fun create_envs :: "nat \<Rightarrow> w8 list list \<Rightarrow> kern \<Rightarrow> kern option" where
  "create_envs c [] s = Some s"
| "create_envs c (bin # bins) s = do { (s, _) \<leftarrow> env_create c bin ENV_TYPE_USER s; create_envs c bins s }"

definition boot_programs :: "scheduler \<Rightarrow> nat \<Rightarrow> w8 list list \<Rightarrow> kern \<Rightarrow> (kern \<times> outcome) option" where
  "boot_programs cfg c bins s = do { s \<leftarrow> create_envs c bins s; sched_yield cfg c s }"

definition i386_init :: "scheduler \<Rightarrow> linked \<Rightarrow> hardware \<Rightarrow> w8 list list \<Rightarrow> boot_machine \<Rightarrow> (boot_machine \<times> outcome) option" where
  "i386_init cfg k h bins m = do {
     m \<leftarrow> boot_memory k h (boot_console h m);
     m \<leftarrow> boot_envs k h m;
     m \<leftarrow> boot_mp h m;
     m \<leftarrow> boot_lapic (hw_boot h) m;
     m \<leftarrow> boot_lock (boot_pic m);
     m \<leftarrow> boot_aps k h m;
     (s, r) \<leftarrow> boot_programs cfg (boot_cpu h m) bins (m_kern m);
     Some (m\<lparr>m_kern := s\<rparr>, r) }"

end
