(* ===== verification/BootEnvs.thy ===== *)
theory BootEnvs
  imports Boot ElfProps EnvProps SchedProps
begin

unbundle bit_operations_syntax

text \<open>
  The first programs: creating them one after the other over the address space that \<open>mem_init\<close> leaves. Each program is
  loaded in a space of its own, and the spaces share no frame, so that what was loaded stays as it was. Then the scheduler
  starts the first one.
\<close>

subsection \<open>A memory in which address spaces can be made\<close>

definition ready_space :: "pmem \<Rightarrow> bool" where
  "ready_space m \<longleftrightarrow> pages_inv m \<and> npages m \<le> 2 ^ 20 \<and> kern_pgdir m < npages m \<and> kern_pgdir m \<notin> set (free_pages m) \<and>
     (\<forall>p<npages m. p \<notin> set (free_pages m) \<longrightarrow> pp_link m p = None) \<and> (\<forall>d<PDX UTOP. phys m (kern_pgdir m) d = 0)"

lemma ready_spaceD:
  assumes "ready_space m"
  shows "pages_inv m" and "npages m \<le> 2 ^ 20" and "kern_pgdir m < npages m" and "kern_pgdir m \<notin> set (free_pages m)"
    and "p < npages m \<Longrightarrow> p \<notin> set (free_pages m) \<Longrightarrow> pp_link m p = None" and "d < PDX UTOP \<Longrightarrow> phys m (kern_pgdir m) d = 0"
  using assms unfolding ready_space_def by blast+

lemma free_page_bound: "pages_inv m \<Longrightarrow> p \<in> set (free_pages m) \<Longrightarrow> p < npages m"
  using free_chainD(3) by (auto simp: pages_inv_def free_pages_def)

text \<open>The directory of a new environment.\<close>

lemma env_setup_vm_fresh:
  assumes ok: "ready_space (vm s)" and free: "free_pages (vm s) = p # ps"
  obtains m where "env_setup_vm s e = (upd_env e (\<lambda>e. e\<lparr>env_pgdir := Some p\<rparr>) (s\<lparr>vm := m\<rparr>), 0)"
    and "ready_space m" and "fresh_space m p" and "free_pages m = ps" and "npages m = npages (vm s)"
    and "kern_pgdir m = kern_pgdir (vm s)" and "\<And>q. q \<noteq> p \<Longrightarrow> phys m q = phys (vm s) q"
proof -
  note r = ready_spaceD [OF ok]
  let ?K = "kern_pgdir (vm s)"
  obtain m where m: "page_alloc (vm s) True = (m, Some p)" "pages_inv m" "free_pages m = ps"
    using page_alloc_Cons [OF r(1) free] by blast
  then have sel: "npages m = npages (vm s)" "kern_pgdir m = ?K" "pp_link m = (pp_link (vm s))(p := None)"
    "phys m = (phys (vm s))(p := \<lambda>_. 0)"
    by (auto simp: page_alloc_def Let_def split: option.splits)
  let ?m = "store_word (m\<lparr>phys := (phys m)(p := phys m (kern_pgdir m)), pp_ref := (pp_ref m)(p := pp_ref m p + 1)\<rparr>)
      p (PDX UVPT) (page2pa p OR PTE_P OR PTE_U)"
  have dist: "distinct (free_pages (vm s))" using r(1) free_chainD(2) by (auto simp: pages_inv_def free_pages_def)
  have p: "p < npages (vm s)" "p \<noteq> ?K" "p \<notin> set ps"
    using free_page_bound [OF r(1)] free r(4) dist by auto
  have run: "env_setup_vm s e = (upd_env e (\<lambda>e. e\<lparr>env_pgdir := Some p\<rparr>) (s\<lparr>vm := ?m\<rparr>), 0)"
    using m(1) by (simp add: env_setup_vm_def Let_def)
  have inv: "pages_inv ?m" "free_pages ?m = ps" "npages ?m = npages (vm s)" "kern_pgdir ?m = ?K"
    "pp_link ?m = (pp_link (vm s))(p := None)"
    using m sel by (simp_all add: pages_inv_def free_pages_def store_word_def)
  have ph: "phys ?m q = (if q = p then (phys (vm s) ?K)(PDX UVPT := page2pa p OR PTE_P OR PTE_U) else phys (vm s) q)" for q
    using sel p(2) by (simp add: store_word_def)
  have links: "pp_link ?m q = None" if "q < npages (vm s)" "q \<notin> set ps" for q
    using that r(5) [of q] free unfolding inv(5) by simp
  have ready: "ready_space ?m"
    unfolding ready_space_def inv(2,3,4) using r(2-4,6) inv(1) links p(2) free ph by auto
  have zero: "phys ?m p d = 0" if "d < PDX UTOP" for d
    using that r(6) [OF that] unfolding ph by (simp add: PDX_UTOP UVPT_val(2))
  have tabs: "tables ?m p = {}" using zero by (auto simp: tables_def)
  have nomap: "is_user va \<Longrightarrow> pte_at ?m p va = 0" for va using zero by (simp add: is_user_def pte_at_def)
  have nodir: "{d. d < PDX UTOP \<and> phys ?m p d \<noteq> 0} = {}" using zero by auto
  have "vm_ok ?m p"
    unfolding vm_ok_def tabs nodir inv(2,3) using inv(1) r(2) p links nomap by auto
  then have "fresh_space ?m p" using zero by (simp add: fresh_space_def)
  then show thesis by (intro that [OF run ready _ inv(2,3,4)]) (use ph in auto)
qed

subsection \<open>The frames of a space\<close>

definition owned :: "pmem \<Rightarrow> nat \<Rightarrow> nat set" where
  "owned m D = {D} \<union> tables m D \<union> {PGNUM (pte_at m D va) | va. is_user va \<and> pte_at m D va \<noteq> 0}"

lemma owned_frames:
  assumes "vm_ok m D" and "q \<in> owned m D"
  shows "q \<notin> set (free_pages m)" and "q < npages m"
  using assms vm_okD [OF assms(1)] by (auto simp: owned_def)

lemma loadable_owned: "loadable m D q \<longleftrightarrow> q \<in> owned m D \<or> q \<in> set (free_pages m)"
  by (auto simp: loadable_def owned_def)

text \<open>A space stays as it is while its frames do.\<close>

lemma space_stays:
  assumes ok: "vm_ok m D" and inv: "pages_inv m'" "npages m' = npages m" "set (free_pages m') \<subseteq> set (free_pages m)"
    and links: "\<And>p. p < npages m' \<Longrightarrow> p \<notin> set (free_pages m') \<Longrightarrow> pp_link m' p = None"
    and same: "\<And>q. q \<in> owned m D \<Longrightarrow> phys m' q = phys m q"
  shows "vm_ok m' D" and "owned m' D = owned m D" and "is_user va \<Longrightarrow> pte_at m' D va = pte_at m D va"
    and "is_user va \<Longrightarrow> load_byte m' D va = load_byte m D va"
proof -
  have D: "phys m' D = phys m D" using same by (simp add: owned_def)
  have tabs: "tables m' D = tables m D" by (simp add: tables_def D)
  have tab: "phys m' (PGNUM (phys m D (PDX va))) = phys m (PGNUM (phys m D (PDX va)))"
    if "is_user va" "phys m D (PDX va) \<noteq> 0" for va
    using that by (intro same) (auto simp: owned_def tables_def is_user_def)
  show pte: "pte_at m' D va = pte_at m D va" if "is_user va" for va
    using tab [OF that] D by (auto simp: pte_at_def Let_def)
  have "{PGNUM (pte_at m' D va) | va. is_user va \<and> pte_at m' D va \<noteq> 0} = {PGNUM (pte_at m D va) | va. is_user va \<and> pte_at m D va \<noteq> 0}"
    using pte by (intro Collect_cong) metis
  then show owned: "owned m' D = owned m D" by (simp add: owned_def tabs)
  show "load_byte m' D va = load_byte m D va" if u: "is_user va"
  proof -
    have e: "pte_at m D va = phys m (PGNUM (phys m D (PDX va))) (PTX va)" if "phys m D (PDX va) \<noteq> 0"
      using that by (simp add: pte_at_def Let_def)
    have "phys m' (PGNUM (pte_at m D va)) = phys m (PGNUM (pte_at m D va))" if "pte_at m D va \<noteq> 0"
      using that u by (intro same) (auto simp: owned_def)
    then show ?thesis
      using tab [OF u] e D by (cases "phys m D (PDX va) = 0"; cases "pte_at m D va = 0") (auto simp: load_byte_def Let_def)
  qed
  have free: "q \<notin> set (free_pages m') \<and> q < npages m'" if "q \<in> owned m D" for q
    using owned_frames [OF ok that] inv(2,3) by auto
  show "vm_ok m' D"
    unfolding vm_ok_def
  proof (intro conjI ballI allI impI)
    show "pages_inv m'" "npages m' \<le> 2 ^ 20" using inv vm_okD(2) [OF ok] by simp_all
    show "D < npages m'" "D \<notin> set (free_pages m')" using free [of D] by (simp_all add: owned_def)
    show "pp_link m' p = None" if "p < npages m'" "p \<notin> set (free_pages m')" for p by (rule links [OF that])
    show "inj_on (\<lambda>d. PGNUM (phys m' D d)) {d. d < PDX UTOP \<and> phys m' D d \<noteq> 0}" using ok unfolding D by (simp add: vm_ok_def)
    fix t assume "t \<in> tables m' D"
    then show "t < npages m'" "t \<notin> set (free_pages m')" "t \<noteq> D"
      using free [of t] vm_okD(8) [OF ok] by (auto simp: owned_def tabs)
  next
    fix va assume va: "is_user va" "pte_at m' D va \<noteq> 0"
    then have "PGNUM (pte_at m D va) \<in> owned m D" by (auto simp: owned_def pte)
    from free [OF this] show "PGNUM (pte_at m' D va) < npages m'" "PGNUM (pte_at m' D va) \<notin> set (free_pages m')"
      by (simp_all add: pte [OF va(1)])
    show "PGNUM (pte_at m' D va) \<notin> tables m' D" "PGNUM (pte_at m' D va) \<noteq> D"
      using vm_okD(11,12) [OF ok va(1)] va(2) by (simp_all add: pte [OF va(1)] tabs)
  qed
qed

subsection \<open>Loading in a fresh space\<close>

definition program_in :: "pmem \<Rightarrow> nat \<Rightarrow> w8 list \<Rightarrow> proghdr list \<Rightarrow> bool" where
  "program_in m D bin hs \<longleftrightarrow> vm_ok m D \<and> (\<forall>ph\<in>set hs. segment_loaded bin ph m D)"

lemma load_ready:
  assumes ready: "ready_space (vm s)" and im: "program_image bin el hs" and e: "env_pgdir (envs s e) = Some D"
    and fresh: "fresh_space (vm s) D" and D: "D \<noteq> kern_pgdir (vm s)"
    and room: "2 * length (image_pages hs) + 2 \<le> length (free_pages (vm s))"
  obtains m where "load_icode c bin e s = Some (upd_env e (\<lambda>x. x\<lparr>env_tf := (env_tf x)\<lparr>tf_eip := e_entry el\<rparr>\<rparr>)
      (s\<lparr>cpu_cr3 := (cpu_cr3 s)(c := kern_pgdir (vm s)), vm := m\<rparr>))"
    and "ready_space m" and "program_in m D bin hs" and "npages m = npages (vm s)" and "kern_pgdir m = kern_pgdir (vm s)"
    and "set (free_pages m) \<subseteq> set (free_pages (vm s))" and "owned m D \<subseteq> {D} \<union> set (free_pages (vm s))"
    and "length (free_pages (vm s)) \<le> length (free_pages m) + 2 * length (image_pages hs) + 2"
    and "\<And>q. q \<noteq> D \<Longrightarrow> q \<notin> set (free_pages (vm s)) \<Longrightarrow> phys m q = phys (vm s) q"
proof -
  obtain m where m: "load_icode c bin e s = Some (upd_env e (\<lambda>x. x\<lparr>env_tf := (env_tf x)\<lparr>tf_eip := e_entry el\<rparr>\<rparr>)
      (s\<lparr>cpu_cr3 := (cpu_cr3 s)(c := kern_pgdir (vm s)), vm := m\<rparr>))"
    "mapped_pages (vm s) m D (image_pages hs @ [977917])" "\<forall>ph\<in>set hs. segment_loaded bin ph m D"
    by (rule load_icode_ok [OF im e fresh room]) (rule that)
  note st = load_stepD [OF mapped_pagesD(1) [OF m(2)]] and fs = fresh_space_loading [OF fresh] and r = ready_spaceD [OF ready]
  note vm = vm_okD [OF loadingD(1) [OF st(1)]]
  have same: "npages m = npages (vm s)" "kern_pgdir m = kern_pgdir (vm s)" using st(2) by (simp_all add: same_area_def)
  have keep: "phys m q = phys (vm s) q" if "q \<noteq> D" "q \<notin> set (free_pages (vm s))" for q using st(5) that fs(4) by blast
  have "ready_space m"
    unfolding ready_space_def same using vm(1,2,5) r(3,4,6) st(3) keep [of "kern_pgdir (vm s)"] D same by auto
  moreover have "program_in m D bin hs" using m(3) loadingD(1) [OF st(1)] by (simp add: program_in_def)
  moreover have "owned m D \<subseteq> {D} \<union> set (free_pages (vm s))" using st(4) fs(4) loadable_owned by blast
  moreover have "length (free_pages (vm s)) \<le> length (free_pages m) + 2 * length (image_pages hs) + 2"
    using mapped_pagesD(2) [OF m(2)] by simp
  ultimately show thesis using that m(1) same st(3) keep by blast
qed

lemma program_stays:
  assumes p: "program_in m D bin hs" and im: "program_image bin el hs"
    and inv: "ready_space m'" "npages m' = npages m" "set (free_pages m') \<subseteq> set (free_pages m)"
    and same: "\<And>q. q \<in> owned m D \<Longrightarrow> phys m' q = phys m q"
  shows "program_in m' D bin hs" and "owned m' D = owned m D"
proof -
  note r = ready_spaceD [OF inv(1)]
  have ok: "vm_ok m D" using p by (simp add: program_in_def)
  note st = space_stays [OF ok r(1) inv(2,3) r(5) same]
  show "owned m' D = owned m D" by (rule st(2))
  have "segment_loaded bin ph m' D" if "ph \<in> set hs" for ph
    unfolding segment_loaded_def
  proof (intro impI allI)
    fix i assume a: "p_type ph = ELF_PROG_LOAD" "i < unat (p_memsz ph)"
    have "is_user (p_va ph + word_of_nat i)" 
    proof -
      have "segment_ok bin ph" using that a im by (simp add: program_image_def)
      then have "unat (p_va ph) + i < unat UTOP" using a stack_page by (simp add: segment_ok_def)
      then show ?thesis by (rule user_range(2))
    qed
    then show "load_byte m' D (p_va ph + word_of_nat i) = Some (segment_byte bin ph i)"
      using st(4) p that a by (simp add: program_in_def segment_loaded_def)
  qed
  then show "program_in m' D bin hs" using st(1) by (simp add: program_in_def)
qed

subsection \<open>Creating an environment\<close>

definition dir_of :: "kern \<Rightarrow> nat \<Rightarrow> nat" where
  "dir_of s i = the (env_pgdir (envs s i))"

lemma env_alloc_boot:
  assumes ready: "ready_space (vm s)" and free: "free_pages (vm s) = p # ps" and head: "env_free_list s = Some e" "e < NENV"
    and cur: "cpu_env s c = None" and q: "queue_ok (q0 (mlfq s))" "length (qlist (q0 (mlfq s))) < NENV" "q_last (q0 (mlfq s)) + 1 < 2 ^ 31"
  obtains s' q' where "env_alloc c s 0 = Some (s', 0, Some e)" and "ready_space (vm s')" and "fresh_space (vm s') p"
    and "free_pages (vm s') = ps" and "npages (vm s') = npages (vm s)" and "kern_pgdir (vm s') = kern_pgdir (vm s)"
    and "\<And>q. q \<noteq> p \<Longrightarrow> phys (vm s') q = phys (vm s) q"
    and "mlfq s' = (mlfq s)\<lparr>q0 := q'\<rparr>" and "queue_ok q'" and "qlist q' = qlist (q0 (mlfq s)) @ [env_id (envs s' e)]"
    and "q_last q' = q_last (q0 (mlfq s)) + 1" and "env_free_list s' = env_link (envs s e)"
    and "env_pgdir (envs s' e) = Some p" and "status s' e = ENV_RUNNABLE" and "ENVX (env_id (envs s' e)) = e"
    and "\<And>i. i \<noteq> e \<Longrightarrow> status s' i = status s i \<and> env_id (envs s' i) = env_id (envs s i) \<and>
      env_pgdir (envs s' i) = env_pgdir (envs s i) \<and> env_tf (envs s' i) = env_tf (envs s i)"
    and "\<And>i. env_link (envs s' i) = env_link (envs s i)" and "cpu_env s' = cpu_env s" and "kernel_locked s' = kernel_locked s"
proof -
  obtain m where vm: "env_setup_vm s e = (upd_env e (\<lambda>e. e\<lparr>env_pgdir := Some p\<rparr>) (s\<lparr>vm := m\<rparr>), 0)"
    "ready_space m" "fresh_space m p" "free_pages m = ps" "npages m = npages (vm s)" "kern_pgdir m = kern_pgdir (vm s)"
    "\<And>q. q \<noteq> p \<Longrightarrow> phys m q = phys (vm s) q"
    by (rule env_setup_vm_fresh [OF ready free]) (rule that)
  let ?new = "next_env_id (env_id (envs s e)) e"
  let ?s2 = "upd_env e (\<lambda>x. x\<lparr>env_id := next_env_id (env_id x) e, env_parent_id := 0, env_type := 0,
      env_status := ENV_RUNNABLE, env_runs := 0, env_tf := user_tf, env_pgfault_upcall := 0,
      env_ipc_recving := False\<rparr>) (upd_env e (\<lambda>e. e\<lparr>env_pgdir := Some p\<rparr>) (s\<lparr>vm := m\<rparr>))"
  let ?s3 = "upd_env e (\<lambda>x. x\<lparr>executions := 0\<rparr>) (env_take ?s2 e)"
  have m3: "mlfq ?s3 = mlfq s" by simp
  have g: "get_queue (mlfq ?s3) 0 = Some (q0 (mlfq s))" by (simp add: get_queue_def)
  obtain s' q' where s': "sched_push_env ?s3 ?new 0 = Some s'" "queues_only ?s3 s'" "mlfq s' = put_queue (mlfq ?s3) 0 q'"
    "queue_ok q'" "qlist q' = qlist (q0 (mlfq s)) @ [?new]" "q_last q' = q_last (q0 (mlfq s)) + 1"
    by (rule sched_push_env_ok [OF g q]) (rule that)
  have par: "envid2env c ?s3 0 False = Some (0, None)" using cur by (simp add: envid2env_def)
  have run: "env_alloc c s 0 = Some (s', 0, Some e)"
    by (simp add: env_alloc_def head vm(1) Let_def par [unfolded Let_def] s'(1))
  obtain f M where form: "s' = ?s3\<lparr>envs := \<lambda>i. (envs ?s3 i)\<lparr>current_queue := f i\<rparr>, mlfq := M\<rparr>"
    using s'(2) unfolding queues_only_def by blast
  have new: "env_id (envs s' e) = ?new" by (simp add: form)
  show thesis
  proof (rule that [OF run])
    show "mlfq s' = (mlfq s)\<lparr>q0 := q'\<rparr>" using s'(3) m3 by (simp add: put_queue_def)
    show "qlist q' = qlist (q0 (mlfq s)) @ [env_id (envs s' e)]" using s'(5) new by simp
    show "ENVX (env_id (envs s' e)) = e" unfolding new by (rule next_env_id_ok(1) [OF head(2)])
    show "ready_space (vm s')" "fresh_space (vm s') p" "free_pages (vm s') = ps" "npages (vm s') = npages (vm s)"
      "kern_pgdir (vm s') = kern_pgdir (vm s)" "\<And>q. q \<noteq> p \<Longrightarrow> phys (vm s') q = phys (vm s) q"
      using vm by (simp_all add: form)
  qed (use s' in \<open>simp_all add: form status_def env_take_def upd_env_def\<close>)
qed

text \<open>The state in which the programs \<open>ps\<close> have been created, each with its header and its segments.\<close>

type_synonym program = "w8 list \<times> elf \<times> proghdr list"

definition in_place :: "kern \<Rightarrow> nat \<Rightarrow> program \<Rightarrow> bool" where
  "in_place s i = (\<lambda>(bin, el, hs). env_pgdir (envs s i) \<noteq> None \<and> program_in (vm s) (dir_of s i) bin hs \<and>
     tf_eip (env_tf (envs s i)) = e_entry el)"

definition loaded :: "kern \<Rightarrow> nat \<Rightarrow> program \<Rightarrow> bool" where
  "loaded s i = (\<lambda>(bin, el, hs). program_image bin el hs \<and> status s i = ENV_RUNNABLE \<and> ENVX (env_id (envs s i)) = i \<and>
     in_place s i (bin, el, hs))"

definition created :: "nat \<Rightarrow> program list \<Rightarrow> kern \<Rightarrow> bool" where
  "created c ps s \<longleftrightarrow> ready_space (vm s) \<and> cpu_env s c = None \<and>
     env_free_list s = (if length ps < NENV then Some (length ps) else None) \<and>
     (\<forall>i<NENV. env_link (envs s i) = (if i + 1 < NENV then Some (i + 1) else None)) \<and>
     (\<forall>i\<ge>length ps. status s i = ENV_FREE) \<and>
     queue_ok (q0 (mlfq s)) \<and> qlist (q0 (mlfq s)) = map (\<lambda>i. env_id (envs s i)) [0..<length ps] \<and>
     q_last (q0 (mlfq s)) = int (length ps) \<and>
     q1 (mlfq s) = empty_queue \<and> q2 (mlfq s) = empty_queue \<and> q3 (mlfq s) = empty_queue \<and> total_executions (mlfq s) = 0 \<and>
     (\<forall>i<length ps. loaded s i (ps ! i)) \<and>
     (\<forall>i<length ps. \<forall>j<length ps. i \<noteq> j \<longrightarrow> owned (vm s) (dir_of s i) \<inter> owned (vm s) (dir_of s j) = {})"

lemma createdD:
  assumes "created c ps s"
  shows "ready_space (vm s)" and "cpu_env s c = None" and "env_free_list s = (if length ps < NENV then Some (length ps) else None)"
    and "i < NENV \<Longrightarrow> env_link (envs s i) = (if i + 1 < NENV then Some (i + 1) else None)"
    and "length ps \<le> i \<Longrightarrow> status s i = ENV_FREE" and "queue_ok (q0 (mlfq s))"
    and "qlist (q0 (mlfq s)) = map (\<lambda>i. env_id (envs s i)) [0..<length ps]" and "q_last (q0 (mlfq s)) = int (length ps)"
    and "q1 (mlfq s) = empty_queue" "q2 (mlfq s) = empty_queue" "q3 (mlfq s) = empty_queue" "total_executions (mlfq s) = 0"
    and "i < length ps \<Longrightarrow> loaded s i (ps ! i)"
    and "i < length ps \<Longrightarrow> j < length ps \<Longrightarrow> i \<noteq> j \<Longrightarrow> owned (vm s) (dir_of s i) \<inter> owned (vm s) (dir_of s j) = {}"
  using assms unfolding created_def by blast+

text \<open>Frames that one program takes: its directory, and at most two for each page and for the stack.\<close>

definition frames_for :: "program \<Rightarrow> nat" where
  "frames_for = (\<lambda>(bin, el, hs). 2 * length (image_pages hs) + 3)"

text \<open>Frames in use keep their contents.\<close>

definition only_free_used :: "pmem \<Rightarrow> pmem \<Rightarrow> bool" where
  "only_free_used m m' \<longleftrightarrow> npages m' = npages m \<and> kern_pgdir m' = kern_pgdir m \<and> set (free_pages m') \<subseteq> set (free_pages m) \<and>
     (\<forall>q. q \<notin> set (free_pages m) \<longrightarrow> phys m' q = phys m q)"

lemma only_free_used_trans: "only_free_used a b \<Longrightarrow> only_free_used b c \<Longrightarrow> only_free_used a c"
  by (auto simp: only_free_used_def)

lemma loaded_stays:
  assumes l: "loaded s i x" and inv: "ready_space (vm s')" "npages (vm s') = npages (vm s)"
    "set (free_pages (vm s')) \<subseteq> set (free_pages (vm s))"
    and same: "\<And>q. q \<notin> set (free_pages (vm s)) \<Longrightarrow> phys (vm s') q = phys (vm s) q"
    and env: "status s' i = status s i" "env_id (envs s' i) = env_id (envs s i)" "env_pgdir (envs s' i) = env_pgdir (envs s i)"
      "env_tf (envs s' i) = env_tf (envs s i)"
  shows "loaded s' i x" and "owned (vm s') (dir_of s' i) = owned (vm s) (dir_of s i)"
    and "owned (vm s) (dir_of s i) \<inter> set (free_pages (vm s)) = {}"
proof -
  obtain bin el hs where x: "x = (bin, el, hs)" by (cases x) auto
  have im: "program_image bin el hs" and p: "program_in (vm s) (dir_of s i) bin hs" using l by (simp_all add: loaded_def in_place_def x)
  have d: "dir_of s' i = dir_of s i" using env(3) by (simp add: dir_of_def)
  show free: "owned (vm s) (dir_of s i) \<inter> set (free_pages (vm s)) = {}"
    using owned_frames(1) [of "vm s" "dir_of s i"] p by (auto simp: program_in_def)
  have "phys (vm s') q = phys (vm s) q" if "q \<in> owned (vm s) (dir_of s i)" for q using that free same by blast
  note st = program_stays [OF p im inv this]
  show "owned (vm s') (dir_of s' i) = owned (vm s) (dir_of s i)" unfolding d by (rule st(2)) 
  show "loaded s' i x" using l st(1) env d by (simp add: loaded_def in_place_def x)
qed

lemma env_create_step:
  assumes cr: "created c ps s" and n: "length ps < NENV" and im: "program_image bin el hs"
    and room: "frames_for (bin, el, hs) \<le> length (free_pages (vm s))"
  obtains s' where "env_create c bin ENV_TYPE_USER s = Some (s', length ps)" and "created c (ps @ [(bin, el, hs)]) s'"
    and "length (free_pages (vm s)) \<le> length (free_pages (vm s')) + frames_for (bin, el, hs)" and "only_free_used (vm s) (vm s')"
proof -
  let ?n = "length ps"
  note d = createdD [OF cr]
  obtain p fs where free: "free_pages (vm s) = p # fs" using room by (cases "free_pages (vm s)") (auto simp: frames_for_def)
  have q: "length (qlist (q0 (mlfq s))) < NENV" "q_last (q0 (mlfq s)) + 1 < 2 ^ 31" using d(7,8) n by (simp_all add: NENV_def)
  have head: "env_free_list s = Some ?n" using d(3) n by simp
  obtain s1 q' where s1: "env_alloc c s 0 = Some (s1, 0, Some ?n)" "ready_space (vm s1)" "fresh_space (vm s1) p"
    "free_pages (vm s1) = fs" "npages (vm s1) = npages (vm s)" "kern_pgdir (vm s1) = kern_pgdir (vm s)"
    "\<And>q. q \<noteq> p \<Longrightarrow> phys (vm s1) q = phys (vm s) q"
    "mlfq s1 = (mlfq s)\<lparr>q0 := q'\<rparr>" "queue_ok q'" "qlist q' = qlist (q0 (mlfq s)) @ [env_id (envs s1 ?n)]"
    "q_last q' = q_last (q0 (mlfq s)) + 1" "env_free_list s1 = env_link (envs s ?n)"
    "env_pgdir (envs s1 ?n) = Some p" "status s1 ?n = ENV_RUNNABLE" "ENVX (env_id (envs s1 ?n)) = ?n"
    "\<And>i. i \<noteq> ?n \<Longrightarrow> status s1 i = status s i \<and> env_id (envs s1 i) = env_id (envs s i) \<and>
      env_pgdir (envs s1 i) = env_pgdir (envs s i) \<and> env_tf (envs s1 i) = env_tf (envs s i)"
    "\<And>i. env_link (envs s1 i) = env_link (envs s i)" "cpu_env s1 = cpu_env s"
    by (rule env_alloc_boot [OF d(1) free head n d(2,6) q]) (rule that)
  have pK: "p \<noteq> kern_pgdir (vm s1)" using ready_spaceD(4) [OF d(1)] free s1(6) by auto
  have room1: "2 * length (image_pages hs) + 2 \<le> length (free_pages (vm s1))" using room free s1(4) by (simp add: frames_for_def)
  obtain m where m: "load_icode c bin ?n s1 = Some (upd_env ?n (\<lambda>x. x\<lparr>env_tf := (env_tf x)\<lparr>tf_eip := e_entry el\<rparr>\<rparr>)
      (s1\<lparr>cpu_cr3 := (cpu_cr3 s1)(c := kern_pgdir (vm s1)), vm := m\<rparr>))"
    "ready_space m" "program_in m p bin hs" "npages m = npages (vm s1)" "kern_pgdir m = kern_pgdir (vm s1)"
    "set (free_pages m) \<subseteq> set (free_pages (vm s1))" "owned m p \<subseteq> {p} \<union> set (free_pages (vm s1))"
    "length (free_pages (vm s1)) \<le> length (free_pages m) + 2 * length (image_pages hs) + 2"
    "\<And>q. q \<noteq> p \<Longrightarrow> q \<notin> set (free_pages (vm s1)) \<Longrightarrow> phys m q = phys (vm s1) q"
    by (rule load_ready [OF s1(2) im s1(13,3) pK room1]) (rule that)
  define s' where "s' = upd_env ?n (\<lambda>x. x\<lparr>env_type := ENV_TYPE_USER\<rparr>) (upd_env ?n (\<lambda>x. x\<lparr>env_tf := (env_tf x)\<lparr>tf_eip := e_entry el\<rparr>\<rparr>)
      (s1\<lparr>cpu_cr3 := (cpu_cr3 s1)(c := kern_pgdir (vm s1)), vm := m\<rparr>))"
  have run: "env_create c bin ENV_TYPE_USER s = Some (s', ?n)" using s1(1) m(1) by (simp add: env_create_def s'_def)
  have sel: "vm s' = m" "mlfq s' = mlfq s1" "env_free_list s' = env_free_list s1" "cpu_env s' = cpu_env s1"
    "env_link (envs s' i) = env_link (envs s1 i)" "env_pgdir (envs s' i) = env_pgdir (envs s1 i)" "env_id (envs s' i) = env_id (envs s1 i)"
    "status s' i = status s1 i" "env_tf (envs s' i) = (if i = ?n then (env_tf (envs s1 i))\<lparr>tf_eip := e_entry el\<rparr> else env_tf (envs s1 i))" for i
    by (simp_all add: s'_def status_def)
  have sub: "set (free_pages (vm s')) \<subseteq> set (free_pages (vm s))" using m(6) s1(4) free sel(1) by auto
  have keep: "phys (vm s') q = phys (vm s) q" if "q \<notin> set (free_pages (vm s))" for q
    using that m(9) [of q] s1(4) s1(7) [of q] free sel(1) by simp
  have np: "npages (vm s') = npages (vm s)" "ready_space (vm s')" using m(2,4) s1(5) sel(1) by simp_all
  have old: "loaded s' i (ps ! i)" "owned (vm s') (dir_of s' i) = owned (vm s) (dir_of s i)"
    "owned (vm s) (dir_of s i) \<inter> set (free_pages (vm s)) = {}" if "i < ?n" for i
  proof -
    have e: "status s' i = status s i" "env_id (envs s' i) = env_id (envs s i)" "env_pgdir (envs s' i) = env_pgdir (envs s i)"
      "env_tf (envs s' i) = env_tf (envs s i)" using s1(16) [of i] sel that by simp_all
    note st = loaded_stays [OF d(13) [OF that] np(2,1) sub keep e]
    show "loaded s' i (ps ! i)" "owned (vm s') (dir_of s' i) = owned (vm s) (dir_of s i)"
      "owned (vm s) (dir_of s i) \<inter> set (free_pages (vm s)) = {}" by (rule st; assumption)+
  qed
  have dn: "dir_of s' ?n = p" using sel(6) s1(13) by (simp add: dir_of_def)
  have new: "loaded s' ?n (bin, el, hs)"
    using im s1(13-15) sel m(3) dn by (simp add: loaded_def in_place_def)
  have apart: "owned (vm s') (dir_of s' i) \<inter> owned (vm s') (dir_of s' ?n) = {}" if "i < ?n" for i
  proof -
    have "owned (vm s') (dir_of s' ?n) \<subseteq> set (free_pages (vm s))" using m(7) s1(4) free dn sel(1) by auto
    then show ?thesis using old(2,3) [OF that] by blast
  qed
  have "created c (ps @ [(bin, el, hs)]) s'"
    unfolding created_def length_append list.size
  proof (intro conjI allI impI)
    show "loaded s' i ((ps @ [(bin, el, hs)]) ! i)" if "i < ?n + (0 + Suc 0)" for i
      using that old(1) [of i] new by (cases "i = ?n") (auto simp: nth_append)
    show "owned (vm s') (dir_of s' i) \<inter> owned (vm s') (dir_of s' j) = {}"
      if "i < ?n + (0 + Suc 0)" "j < ?n + (0 + Suc 0)" "i \<noteq> j" for i j
      using that apart old(2) d(14) [of i j] by (cases "i = ?n"; cases "j = ?n") (auto simp: less_Suc_eq)
    show "qlist (q0 (mlfq s')) = map (\<lambda>i. env_id (envs s' i)) [0..<?n + (0 + Suc 0)]"
      using s1(8,10) d(7) s1(16) sel(2,7) by auto
    show "env_free_list s' = (if ?n + (0 + Suc 0) < NENV then Some (?n + (0 + Suc 0)) else None)"
      using s1(12) d(4) [OF n] sel(3) by simp
    show "env_link (envs s' i) = (if i + 1 < NENV then Some (i + 1) else None)" if "i < NENV" for i
      using d(4) [OF that] s1(17) sel(5) by simp
    show "status s' i = ENV_FREE" if "?n + (0 + Suc 0) \<le> i" for i using d(5) [of i] s1(16) [of i] sel(8) that by simp
    show "q_last (q0 (mlfq s')) = int (?n + (0 + Suc 0))" using s1(8,11) d(8) sel(2) by simp
  qed (use np s1(8,9,18) d(2,9-12) sel in auto)
  moreover have "length (free_pages (vm s)) \<le> length (free_pages (vm s')) + frames_for (bin, el, hs)"
    using m(8) s1(4) free sel(1) by (simp add: frames_for_def)
  moreover have "only_free_used (vm s) (vm s')" using np(1) sub keep m(5) s1(6) sel(1) by (simp add: only_free_used_def)
  ultimately show thesis using that run by blast
qed

lemma create_envs_ok:
  assumes "created c ps s" and "length ps + length qs \<le> NENV" and "\<forall>(bin, el, hs)\<in>set qs. program_image bin el hs"
    and "sum_list (map frames_for qs) \<le> length (free_pages (vm s))"
  obtains s' where "create_envs c (map fst qs) s = Some s'" and "created c (ps @ qs) s'" and "only_free_used (vm s) (vm s')"
  using assms
proof (induction qs arbitrary: ps s thesis)
  case Nil
  then show ?case by (simp add: only_free_used_def)
next
  case (Cons x qs)
  obtain bin el hs where x: "x = (bin, el, hs)" by (cases x) auto
  have "length ps < NENV" "program_image bin el hs" "frames_for (bin, el, hs) \<le> length (free_pages (vm s))"
    using Cons.prems(3-5) by (simp_all add: x)
  from env_create_step [OF Cons.prems(2) this] obtain s1 where s1: "env_create c bin ENV_TYPE_USER s = Some (s1, length ps)"
    "created c (ps @ [(bin, el, hs)]) s1"
    "length (free_pages (vm s)) \<le> length (free_pages (vm s1)) + frames_for (bin, el, hs)" "only_free_used (vm s) (vm s1)" by metis
  have "length (ps @ [(bin, el, hs)]) + length qs \<le> NENV" "\<forall>(bin, el, hs)\<in>set qs. program_image bin el hs"
    "sum_list (map frames_for qs) \<le> length (free_pages (vm s1))"
    using Cons.prems(3-5) s1(3) by (simp_all add: x)
  from Cons.IH [OF _ s1(2) this] obtain s' where "create_envs c (map fst qs) s1 = Some s'" "created c ((ps @ [(bin, el, hs)]) @ qs) s'"
    "only_free_used (vm s1) (vm s')" by metis
  then show ?case using Cons.prems(1) [of s'] s1(1) only_free_used_trans [OF s1(4)] by (simp add: x)
qed

subsection \<open>The first program runs\<close>

lemma env_run_regs:
  assumes "env_run c s e = Some (s', r)"
  shows "r = Runs e" and "env_tf (envs s' i) = env_tf (envs s i)" and "\<not> kernel_locked s'"
    and "env_pgdir (envs s' e) = Some (cpu_cr3 s' c)"
  using assms by (auto simp: env_run_def set_status_def Let_def split: option.splits Option.bind_splits)

text \<open>What the scheduler leaves of the registers, when it does not raise the priorities first.\<close>

definition same_tf :: "kern \<Rightarrow> kern \<Rightarrow> bool" where
  "same_tf s s' \<longleftrightarrow> (\<forall>i. env_tf (envs s' i) = env_tf (envs s i))"

lemma mlfq_loop_regs:
  "mlfq_loop c n q is s = Some (s', Some (Runs e)) \<Longrightarrow>
     same_tf s s' \<and> \<not> kernel_locked s' \<and> env_pgdir (envs s' e) = Some (cpu_cr3 s' c)"
proof (induction "is")
  case (Cons i "is")
  show ?case
  proof (cases "\<exists>eid. entry_at q i = Some eid \<and> status s (ENVX eid) = ENV_RUNNABLE")
    case True
    then obtain eid q' k s1 s2 where e: "entry_at q i = Some eid" and push: "sched_push_env (s\<lparr>mlfq := put_queue (mlfq s) n q'\<rparr>) eid (lower_queue n) = Some s1"
      and run: "env_run c (count_execution (ENVX eid) (count_total s1)) (ENVX eid) = Some (s', Runs e)"
      using Cons.prems by (auto split: Option.bind_splits if_splits)
    have "same_tf s s1" using push by (auto simp: same_tf_def sched_push_env_def upd_env_def Let_def split: Option.bind_splits)
    moreover have "same_tf s1 (count_execution (ENVX eid) (count_total s1))"
      by (simp add: same_tf_def count_execution_def)
    ultimately show ?thesis using env_run_regs [OF run] by (auto simp: same_tf_def)
  next
    case False
    then show ?thesis using Cons by (auto split: Option.bind_splits if_splits)
  qed
qed simp

lemma priority_regs:
  assumes "sched_yield SCHED_PRIORITIES c s = Some (s', Runs e)" and "total_executions (mlfq s) < MAX_MLFQ_EXECUTIONS"
    and "curenv_running c s = None"
  shows "same_tf s s' \<and> \<not> kernel_locked s' \<and> env_pgdir (envs s' e) = Some (cpu_cr3 s' c)"
proof -
  let ?s = "s\<lparr>sched_runs := sched_runs s + 1\<rparr>"
  have cur: "curenv_running c ?s = None" using assms(3) by (auto simp: curenv_running_def status_def split: option.splits)
  obtain s1 r where pr: "priority_MLFQ c ?s = Some (s1, r)" "case r of Some r \<Rightarrow> (s1, r) = (s', Runs e) | None \<Rightarrow> sched_halt c s1 = (s', Runs e)"
    using assms(1,2) by (auto simp: sched_yield_def Let_def split: Option.bind_splits option.splits)
  have no_halt: "sched_halt c s1 \<noteq> (s', Runs e)" for s1 by (auto simp: sched_halt_def)
  then have r: "r = Some (Runs e)" "s1 = s'" using pr(2) by (auto split: option.splits)
  obtain n q where "mlfq_loop c n q (positions q) ?s = Some (s', Some (Runs e))"
    using pr(1) no_halt unfolding r priority_MLFQ_def cur by (auto split: Option.bind_splits if_splits prod.splits)
  from mlfq_loop_regs [OF this] show ?thesis by (simp add: same_tf_def)
qed

lemma first_runs:
  assumes cr: "created c ps s" and ne: "ps \<noteq> []" and len: "length ps \<le> NENV"
  obtains s' where "sched_yield cfg c s = Some (s', Runs 0)" and "switched c s s' 0" and "same_tf s s'"
    and "\<not> kernel_locked s'" and "cpu_cr3 s' c = dir_of s 0"
proof -
  note d = createdD [OF cr]
  have l0: "loaded s 0 (ps ! 0)" using d(13) ne by simp
  then have st0: "status s 0 = ENV_RUNNABLE" "env_pgdir (envs s 0) = Some (dir_of s 0)" "ENVX (env_id (envs s 0)) = 0"
    by (auto simp: loaded_def in_place_def dir_of_def split: prod.splits)
  have cur: "curenv_running c s = None" using d(2) by (simp add: curenv_running_def)
  show thesis
  proof (cases cfg)
    case SCHED_ROUND_ROBIN
    let ?s = "count_execution 0 (s\<lparr>sched_runs := sched_runs s + 1\<rparr>)"
    have cur1: "curenv_running c ?s = None" using d(2) by (simp add: curenv_running_def)
    have "env_pgdir (envs ?s 0) = Some (dir_of s 0)" using st0(2) by simp
    then obtain s' where s': "env_run c ?s 0 = Some (s', Runs 0)" "vm s' = vm ?s" "cpu_env s' = (cpu_env ?s)(c := Some 0)"
      "\<And>i. status s' i = (if i = 0 then ENV_RUNNING else if curenv_running c ?s = Some i then ENV_RUNNABLE else status ?s i)"
      "\<And>i. env_pgdir (envs s' i) = env_pgdir (envs ?s i)" "\<And>i. env_id (envs s' i) = env_id (envs ?s i)"
      by (rule env_run_ok) blast
    have "[0..<NENV] = 0 # [1..<NENV]" by (simp add: upt_conv_Cons)
    then have "sched_yield cfg c s = Some (s', Runs 0)"
      using SCHED_ROUND_ROBIN d(2) st0(1) s'(1) by (simp add: sched_yield_def round_robin_def status_def)
    moreover have "switched c s s' 0" using s'(2-6) cur1 cur by (simp add: switched_def status_def)
    moreover have "same_tf s s'" using env_run_regs(2) [OF s'(1)] by (simp add: same_tf_def count_execution_def)
    ultimately show thesis using that env_run_regs(3,4) [OF s'(1)] s'(5) st0(2) by simp
  next
    case SCHED_PRIORITIES
    obtain n where n: "length ps = Suc n" using ne by (cases ps) auto
    have q: "qlist (q0 (mlfq s)) = env_id (envs s 0) # map (\<lambda>i. env_id (envs s i)) [1..<Suc n]"
      using d(7) by (simp add: n upt_conv_Cons del: upt_Suc)
    have emp: "qlist empty_queue = []" "queue_ok empty_queue" "q_last empty_queue = 0"
      by (simp_all add: empty_queue_def qlist_def positions_def queue_ok_def)
    have ok: "mlfq_ok (int NENV) (mlfq s)" using d(6,8-11) emp len by (simp add: mlfq_ok_def)
    have lev: "levels_of (mlfq s) = [qlist (q0 (mlfq s)), [], [], []]" using d(9-11) emp by (simp add: levels_of_def)
    have room: "length (concat (levels_of (mlfq s))) \<le> NENV" using lev d(7) len by simp
    have dirs: "dirs_ok s" unfolding dirs_ok_def
    proof (intro allI impI)
      fix i assume "status s i = ENV_RUNNABLE \<or> status s i = ENV_RUNNING"
      then have "i < length ps" using d(5) [of i] by (cases "i < length ps") auto
      from d(13) [OF this] show "env_pgdir (envs s i) \<noteq> None" by (simp add: loaded_def in_place_def split: prod.splits)
    qed
    have "int NENV + int NENV + 1 < 2 ^ 31" by (simp add: NENV_def)
    from sched_yield_refines [OF ok room this dirs, of c] obtain s' r where
      y: "sched_yield SCHED_PRIORITIES c s = Some (s', r)" "ticked c s s' r" by metis
    have lv: "spec_level (runnable s) (levels_of (mlfq s)) = Some 0"
      unfolding spec_level_def by (rule first_indexI) (use lev q st0 in auto)
    have fi: "first_index (runnable s) (qlist (q0 (mlfq s))) = Some 0"
      by (rule first_indexI) (use q st0 in auto)
    have low: "\<not> MAX_MLFQ_EXECUTIONS \<le> 0" by (simp add: MAX_MLFQ_EXECUTIONS_def)
    have "snd (spec_yield (runnable s) (levels_of (mlfq s), total_executions (mlfq s))) = Some (env_id (envs s 0))"
      using lv fi lev q d(12) low by (simp add: spec_yield_def spec_boost_def spec_move_def Let_def)
    then have t: "r = Runs 0" "switched c s s' 0"
      using y(2) st0(3) by (auto simp: ticked_def split: prod.splits option.splits)
    have "total_executions (mlfq s) < MAX_MLFQ_EXECUTIONS" using d(12) by (simp add: MAX_MLFQ_EXECUTIONS_def)
    note regs = priority_regs [OF y(1) [unfolded t(1)] this cur]
    have "env_pgdir (envs s' 0) = Some (dir_of s 0)" using t(2) st0(2) by (simp add: switched_def)
    then show thesis using that [of s'] SCHED_PRIORITIES y(1) t regs by simp
  qed
qed

end
