(* ===== verification/BootProps.thy ===== *)
theory BootProps
  imports BootEnvs MemBoot MpProps
begin

unbundle bit_operations_syntax

text \<open>
  The start of the kernel from the cleared statics to the first program: \<open>mem_init\<close> and its tests, the processors that
  the firmware announces, and the programs. The address space of the kernel is followed while the local APICs are mapped.
\<close>

subsection \<open>The kernel's address space while devices are mapped\<close>








subsection \<open>The other processors start\<close>






lemma on_bus_sel [simp]:
  "m_kern (on_bus ws m) = m_kern m" "m_mp (on_bus ws m) = m_mp m" "m_lapic (on_bus ws m) = m_lapic m"
  "m_tss (on_bus ws m) = m_tss m" "m_idt (on_bus ws m) = m_idt m" "m_pic (on_bus ws m) = m_pic m"
  "m_gdt (on_bus ws m) = m_gdt m" "m_regs (on_bus ws m) = m_regs m"
  by (simp_all add: on_bus_def)



lemma cpunum_mapped: "lapic \<noteq> 0 \<Longrightarrow> cpunum lapic idreg = unat (drop_bit 24 idreg)"
  by (simp add: cpunum_def)








subsection \<open>The whole of \<open>i386_init\<close>\<close>










subsection \<open>Interrupts\<close>

text \<open>The lines that the kernel lets through: the keyboard and the second controller. The keyboard has no gate.\<close>

lemma keyboard_has_no_gate:
  assumes "cons_init an c initial_pic = ((c', p, crt), ws)" and "pic_init p = (p', ws')"
  shows "enabled_interrupts (irq_mask_8259A p') = [IRQ_KBD, IRQ_SLAVE]" and "32 + IRQ_KBD \<notin> fst ` set trap_init"
proof -
  have "irq_mask_8259A p = 0xFFF9"
    using assms(1) by (auto simp: cons_init_def kbd_init_def irq_setmask_8259A_def initial_pic_def IRQ_KBD_def IRQ_SLAVE_def Let_def
        split: prod.splits)
  moreover have "irq_mask_8259A p' = irq_mask_8259A p"
    using assms(2) by (auto simp: pic_init_def irq_setmask_8259A_def Let_def split: if_splits)
  ultimately show "enabled_interrupts (irq_mask_8259A p') = [IRQ_KBD, IRQ_SLAVE]"
    by (simp add: enabled_interrupts_def IRQ_KBD_def IRQ_SLAVE_def upt_rec)
  show "32 + IRQ_KBD \<notin> fst ` set trap_init" by (simp add: trap_init_def IRQ_KBD_def)
qed

subsection \<open>A machine with two processors\<close>



















end
