(* ===== verification/Spec2Isabelle.thy ===== *)
theory Spec2Isabelle
  imports FisopDisk TrapProps PrintProps SpinLock ShellProps KDebugProps ForkProps MapPerm IpcProps MemBoot ElfProps MonitorProps MpProps BootProps
begin

text \<open>
  A verification of three C programs: \<open>fisopfs\<close>, a FUSE file system kept in memory and saved to one
  file; \<open>sched\<close>, a JOS kernel with its scheduler and the library of its user programs; and \<open>shell\<close>, a
  command interpreter. The three share no code; what they share here is the theory \<open>Prelude\<close>.

  \<^bold>\<open>Conventions.\<close> State is passed explicitly, as the record of the variables of a C file. A function
  that can fail has a result in \<open>option\<close>: \<open>None\<close> is undefined behaviour (an access outside an
  object, a null or freed pointer, a signed overflow where it is modelled), a panic or failed
  \<open>assert\<close> of the kernel, or a loop that does not end. So \<open>f x = Some y\<close> says that \<open>f\<close> returns
  and is memory safe. Error codes are the negative integers of the source. A C object is the list of
  its bytes (\<open>cmem\<close>), an allocated array a \<open>block\<close>, which is null, freed or a list; the kernel and its
  library use 32-bit words (\<open>w32\<close>) and a memory of bytes by address (\<open>bytes\<close>).

  \<^bold>\<open>fisopfs\<close> (\<open>fisopfs/file.c\<close>, \<open>fisopfs/fisopfs.c\<close>).
  \<^item> \<open>FisopFile\<close> has the inode, the superblock and the operations of \<open>file.c\<close>: the search of the
    table, \<open>recalloc\<close>, the lines of a directory's buffer, \<open>create_inode\<close>. \<open>FisopOps\<close> has one definition
    per FUSE handler. A handler takes the superblock and gives its result code, what it wrote to the
    caller and the new superblock.
  \<^item> \<open>FisopTable\<close>, \<open>FisopDir\<close> and \<open>FisopTree\<close> prove the lemmas of the inode table, of the text of a
    directory (locale \<open>dentry_list\<close>: the buffer as a list of names) and of the tree of paths.
    \<open>FisopSpec\<close> proves that a sequence of calls keeps the invariant \<open>fs_inv\<close> (distinct live
    paths, buffers as large as their sizes say, and each directory lists its live children) as long as what is
    created has a fresh canonical path, whose parent lives and whose line fits, and the root is not removed
    (\<open>fs_step\<close>); \<open>FisopOps\<close> itself has no such limits, and a creation without a live parent breaks the invariant.
    \<open>FisopProps\<close> has the effect of each handler and its error cases.
  \<^item> \<open>FisopDisk\<close> has the image: each field as little-endian bytes (locale \<open>codec\<close>), the structs with
    their padding, \<open>serialize\<close> and \<open>deserialize\<close>, and the round trip through unmount and mount.

  \<^bold>\<open>The kernel\<close> (\<open>sched/kern\<close>).
  \<^item> \<open>Pmap\<close> (\<open>pmap.c\<close>, \<open>mmu.h\<close>, \<open>memlayout.h\<close>): physical pages with reference counts and a free list, and
    two-level page tables held in physical pages. \<open>FreeList\<close> is the interface of an allocator over a linked
    list (locale \<open>free_list\<close>), used for the pages and for the environments. \<open>PmapSpec\<close> and \<open>PmapProps\<close>
    prove the invariant of the allocator, what a table maps after an insertion and that
    \<open>user_mem_check\<close> is sound for ranges that do not wrap.
  \<^item> \<open>MemInit\<close> (\<open>pmap.c\<close>): the size of the memory, \<open>mem_init\<close> and its self tests, in which a failed \<open>assert\<close> is
    \<open>None\<close>. \<open>KernDir\<close> has the kernel's page directory while it is built and what \<open>boot_map_region\<close> does to it;
    \<open>MemTests\<close> the tests of the free list, \<open>MemPage\<close> the tests of the page tables, and \<open>MemBoot\<close> that the whole
    of \<open>mem_init\<close> returns and which address space it leaves. The loops over the free list run with as
    much fuel as there are pages, which is enough for every list without a cycle.
  \<^item> \<open>Kernel\<close> and \<open>EnvTable\<close> (\<open>env.c\<close>, \<open>env.h\<close>): environments, their identifiers and life cycle, over the
    state \<open>kernel\<close>, which holds pages, environments, scheduler and processors. \<open>EnvProps\<close>: allocation and release.
  \<^item> \<open>ElfLoad\<close> (\<open>env.c\<close>, \<open>elf.h\<close>): \<open>load_icode\<close> and \<open>env_create\<close>; the file is a list of bytes, the kernel's writes go
    through the page tables of the new space. \<open>ElfProps\<close>: every byte of every segment is where the file says,
    for files whose segments touch no common page, and no frame in use changes.
  \<^item> \<open>SchedQueue\<close>, \<open>Sched\<close> (\<open>sched.c\<close>): the rings of the priority levels (locale \<open>env_queue\<close>), both
    schedulers, the boost. \<open>SchedSpec\<close> abstracts the rings to lists of identifiers and proves the
    invariant; \<open>SchedProps\<close> proves that no entry starves as long as it is in its queue, whatever the other
    environments do in between (any new state, any new entries that fit), on which processors an environment can be current,
    and that an entry that was overwritten in a full queue starves. A loop over a ring runs with as much fuel as the
    ring has entries, each iteration takes one entry out.
  \<^item> \<open>Console\<close> (\<open>console.c\<close>): the input ring, the decoding of scan codes and the output on the screen.
    \<open>ConsoleProps\<close> refines the ring to a bounded queue (locale \<open>fifo\<close>).
  \<^item> \<open>Syscall\<close> (\<open>syscall.c\<close>): every call, and \<open>syscall\<close> that selects it. \<open>SyscallProps\<close>: authority, messages,
    and three ways in which the checks of addresses fall short.
  \<^item> \<open>Trap\<close> (\<open>trap.c\<close>): the gates, the dispatch, and the reflection of page faults. It calls the scheduler,
    the system calls and the environments; \<open>TrapProps\<close> follows a fault from the program to its handler.
  \<^item> \<open>Monitor\<close> (\<open>monitor.c\<close>, \<open>lib/readline.c\<close>): the line reader, over any source of characters, the splitting of a line into
    words in place, and the commands; the loop that never ends is a partial function. \<open>MonitorProps\<close>: what a
    session answers, for all lines.
  \<^item> \<open>MpConfig\<close> (\<open>mpconfig.c\<close>): the search of the firmware's tables in the bytes of physical memory, with their
    checksums, and the processors they announce. \<open>MpProps\<close>: which processors \<open>mp_init\<close> finds.
  \<^item> \<open>Devices\<close> (\<open>lapic.c\<close>, \<open>picirq.c\<close>, \<open>kclock.c\<close>, the initialisation in \<open>console.c\<close>, the segments of \<open>env.c\<close> and \<open>trap.c\<close>): the
    variables of the drivers, and the writes to ports and registers as a list; what a device answers is an argument.
  \<^item> \<open>Boot\<close> (\<open>init.c\<close>): \<open>i386_init\<close>, which calls the components above in order, starts the other processors and creates
    the first programs, over the record \<open>boot_machine\<close> of all variables. The status of a processor is in two of its parts, the
    one of \<open>mp_init\<close> and the one of the scheduler. \<open>BootEnvs\<close> follows \<open>env_create\<close> for one program after the other: the
    new space shares no frame with the old ones, so what was loaded stays. \<open>BootProps\<close> follows the kernel's own address
    space while the local APICs are mapped, and puts the parts together: the kernel starts, on every machine whose
    firmware announces at most eight processors that answer.
  \<^item> \<open>SpinLock\<close> (\<open>spinlock.c\<close>): the accesses to the lock as a step relation of the processors.
  \<^item> \<open>KDebug\<close> (\<open>kdebug.c\<close>): the search of function, line and file of an address. The measure of the
    binary search is the width of the region and, for a step that keeps it, whether its first entry is
    an exact match. \<open>KDebugProps\<close>: when the search is right, and two inputs on which it is not.

  \<^bold>\<open>The library\<close> (\<open>sched/lib\<close>).
  \<^item> \<open>CString\<close> (\<open>string.c\<close>): all routines. A loop that stops at a NUL is a partial function, because nothing
    else makes it end. \<open>CStringProps\<close>: both versions of \<open>memmove\<close> agree and copy.
  \<^item> \<open>PrintFmt\<close> (\<open>printfmt.c\<close>, the two \<open>printf.c\<close>, the printing of \<open>trap.c\<close>): the variadic arguments are a list
    of words. \<open>vprintfmt_to\<close> calls \<open>putch\<close> on each character as it is produced, with the memory as \<open>putch\<close> has changed it, so a
    string argument may overlap the buffer of \<open>snprintf\<close>; \<open>vprintfmt\<close> is the list of the characters, for sinks that do not
    change the memory. The counters of the sinks are ints, and counting past \<open>2^31 - 1\<close> is \<open>None\<close>. \<open>PrintProps\<close>
    (locale \<open>print_sink\<close>: a sink that leaves alone what the format reads): the digits of a number,
    reading back with \<open>strtol\<close>, bounds of \<open>snprintf\<close>, the chunks of \<open>cprintf\<close>.

  \<^item> \<open>UserLib\<close> (\<open>syscall.c\<close>, \<open>fork.c\<close>, \<open>pgfault.c\<close>, \<open>ipc.c\<close>, \<open>libmain.c\<close>, \<open>exit.c\<close>): the functions of a program, which work on
    the kernel through \<open>syscall\<close> of \<open>Syscall\<close> and read their page tables through \<open>uvpt\<close>. \<open>Spaces\<close> has the lemmas of
    two address spaces over the same frames: what an insertion into one leaves of the other. \<open>ForkPages\<close>,
    \<open>ForkCalls\<close>, \<open>ForkParent\<close> and \<open>ForkProps\<close> follow \<open>fork\<close> from \<open>sys_exofork\<close> through every page below \<open>UTOP\<close> to the runnable
    child; \<open>ForkFault\<close> proves that the handler gives the program a private copy. \<open>fork\<close> has the stack pointer \<open>esp\<close> of the
    loop as an argument: once its stack page is copy-on-write, the next push faults (\<open>touch_stack\<close>) and the handler
    gives the parent a copy of that page before the calls that follow. \<open>MapPerm\<close> shows which frames
    a program can map through the unchecked permissions of \<open>sys_page_map\<close>, \<open>IpcProps\<close> that \<open>ipc_send\<close> delivers.

  \<^bold>\<open>The shell\<close> (\<open>shell\<close>).
  \<^item> \<open>ShellParse\<close> (\<open>parsing.c\<close>, \<open>createcmd.c\<close>, \<open>utils.c\<close>, \<open>freecmd.c\<close>): the commands as a datatype with the fields of
    the structs, and the parser from the line to the command. A store into an array is \<open>array_store\<close>, whose \<open>None\<close> is a write
    past the end: the parser has no test, and \<open>too_many_arguments_undefined\<close> shows that twenty arguments suffice.
  \<^item> \<open>ShellExec\<close> and \<open>ShellRun\<close> (\<open>exec.c\<close>, \<open>runcmd.c\<close>, \<open>builtin.c\<close>, \<open>readline.c\<close>, \<open>sh.c\<close>): the calls of the
    operating system are a list of events, what they answer is an argument. \<open>ShellProps\<close>: a printed line is parsed
    back, a command parsed within the arrays is well formed, a pipeline starts its programs wired in order.

  \<^bold>\<open>Not modelled.\<close>
  \<^item> The assembly files and the inline assembly of \<open>x86.h\<close>; waiting for a port of the console to be ready.
  \<^item> In \<open>init.c\<close> the text of a panic and of a warning, and what another processor does once it has the kernel lock.
  The directory \<open>entry_pgdir\<close>, with which the kernel runs until \<open>cr3\<close> is loaded, is a table of constants, so \<open>mem_init\<close> has
  no limit of 4 MB before that.
  \<^item> The console and the panic text of the library, the test programs of \<open>sched/user\<close>.
  \<^item> Text that is only printed: the debug output of fisopfs, the statistics of the scheduler.
  \<^item> In the
  shell, process groups and the handler of \<open>SIGCHLD\<close>.
  \<^item> Failures of the allocator of the host.
\<close>

end
